(* ===== verification/Prelude.thy ===== *)
theory Prelude
  imports Main "HOL-Library.Word"
begin

unbundle bit_operations_syntax

text \<open>
  Shared vocabulary of the development: the machine integers of the i386 port
  (include/types.h, arch/i386/include/platform/types.h), the page size, the outcome type of
  kernel code that may panic, and generic facts about lists and words.
\<close>

section \<open>Machine integers\<close>

type_synonym u8 = "8 word"
type_synonym u16 = "16 word"
type_synonym u32 = "32 word"
type_synonym u64 = "64 word"

text \<open>A pointer_t is an unsigned 32-bit integer; size_t has the same width.\<close>

type_synonym pointer_t = "32 word"

definition PAGE_SIZE :: u32 where
  "PAGE_SIZE = 4096"

definition PAGE_BYTES :: nat where
  "PAGE_BYTES = 4096"

section \<open>Outcomes\<close>

text \<open>
  Kernel code ends in one of three ways: it returns a value, it calls panic (which never
  returns and freezes the machine), or it dereferences a null pointer or indexes outside an
  object, which the C language leaves undefined.  The last case is Fault.  Timeout is no
  behaviour of the code: a recursion or loop whose end depends on the heap's shape carries a
  bound, and Timeout says the bound was used up.
\<close>

datatype 'a outcome = Ret 'a | Panic string | Fault | Timeout

fun obind :: "'a outcome \<Rightarrow> ('a \<Rightarrow> 'b outcome) \<Rightarrow> 'b outcome" where
  "obind (Ret x) f = f x"
| "obind (Panic m) f = Panic m"
| "obind Fault f = Fault"
| "obind Timeout f = Timeout"

lemma obind_Ret_iff [simp]:
  "obind m f = Ret y \<longleftrightarrow> (\<exists>x. m = Ret x \<and> f x = Ret y)"
  by (cases m) auto

lemma obind_assoc: "obind (obind m f) g = obind m (\<lambda>x. obind (f x) g)"
  by (cases m) auto

section \<open>Collections of facts\<close>

named_theorems unat_arith_simps \<open>words read as natural numbers\<close>
named_theorems frame_intros \<open>an operation leaves an unrelated structure alone\<close>

section \<open>Lists\<close>

lemma distinct_snoc_iff [simp]:
  "distinct (xs @ y # ys) \<longleftrightarrow> distinct (xs @ ys) \<and> y \<notin> set xs \<and> y \<notin> set ys"
  by auto

lemma remove1_middle [simp]: "e \<notin> set xs \<Longrightarrow> remove1 e (xs @ e # ys) = xs @ ys"
  by (induction xs) auto

lemma distinct_split_at:
  assumes "e \<in> set xs" "distinct xs"
  obtains ys zs where "xs = ys @ e # zs" "e \<notin> set ys" "e \<notin> set zs" "remove1 e xs = ys @ zs"
  using assms by (metis split_list distinct_snoc_iff remove1_middle)

lemma sorted_wrt_remove1: "sorted_wrt P xs \<Longrightarrow> sorted_wrt P (remove1 x xs)"
  by (induction xs) (use set_remove1_subset in fastforce)+

section \<open>Words\<close>

lemma unat_u32_less [simp]: "unat (x :: u32) < 4294967296"
  using unsigned_less [of x] by simp

lemma unat_of_nat_u32: "n < 4294967296 \<Longrightarrow> unat (of_nat n :: u32) = n"
  by (simp add: unsigned_of_nat take_bit_nat_eq_self)

lemma of_nat_u32_eq_0: "n < 4294967296 \<Longrightarrow> (of_nat n :: u32) = 0 \<longleftrightarrow> n = 0"
  by (auto simp: word_of_nat_eq_0_iff dest: dvd_imp_le)

lemma sint_of_nat_u32: "n < 2147483648 \<Longrightarrow> sint (of_nat n :: u32) = int n"
  using signed_of_int [where 'a = int and 'b = 32, of "int n"]
  by (simp add: signed_take_bit_int_eq_self)

lemma sint_eq_iff: "sint x = sint y \<longleftrightarrow> x = (y :: 'a::len word)"
  by (metis of_int_sint scast_id)

lemma sint_u32_cases:
  "sint (x :: u32) = (if unat x < 2147483648 then int (unat x) else int (unat x) - 4294967296)"
proof -
  define u where "u = uint x"
  have i: "int (unat x) = u" by (simp add: u_def)
  have l: "0 \<le> u" "u < 4294967296"
    using unsigned_less [of x, where 'a = int] by (auto simp: u_def)
  have c: "unat x < 2147483648 \<longleftrightarrow> u < 2147483648" unfolding i [symmetric] by linarith
  have "sint x = take_bit 32 (u + 2 ^ 31) - 2 ^ 31"
    unfolding u_def by (simp only: sint_uint signed_take_bit_eq_take_bit_shift) simp
  then have s: "sint x = (u + 2147483648) mod 4294967296 - 2147483648" by (simp add: take_bit_eq_mod)
  have "(u + 2147483648) mod 4294967296 = (if u < 2147483648 then u + 2147483648 else u - 2147483648)"
    using l by (auto simp: mod_pos_pos_trivial mod_pos_geq)
  then show ?thesis unfolding s c i by simp
qed

lemma unat_uminus_u32: "(d :: u32) \<noteq> 0 \<Longrightarrow> unat (- d) = 4294967296 - unat d"
proof -
  assume "d \<noteq> 0"
  then have "1 \<le> uint d" using unsigned_eq_0_iff [of d] by (metis add_0 linorder_not_less
    order_le_less unsigned_greater_eq zless_imp_add1_zle)
  moreover have "uint d < 4294967296" using unsigned_less [of d] by simp
  moreover have "uint (- d) = (- uint d) mod 4294967296"
    by (simp add: uint_word_arith_bintrs(4) take_bit_eq_mod)
  ultimately have "uint (- d) = 4294967296 - uint d"
    by (simp add: zmod_zminus1_eq_if)
  then have "int (unat (- d)) = 4294967296 - int (unat d)" by simp
  then show ?thesis by linarith
qed

lemma nat_abs_sint_u32:
  "nat \<bar>sint (x :: u32)\<bar> = (if unat x < 2147483648 then unat x else 4294967296 - unat x)"
proof -
  have "u < 4294967296 \<Longrightarrow> nat \<bar>if u < 2147483648 then int u else int u - 4294967296\<bar> =
      (if u < 2147483648 then u else 4294967296 - u)" for u :: nat
    by simp linarith
  then show ?thesis unfolding sint_u32_cases by simp
qed

lemma sint_negative_u32: "sint (x :: u32) < 0 \<longleftrightarrow> 2147483648 \<le> unat x"
proof -
  have "u < 4294967296 \<Longrightarrow> (if u < 2147483648 then int u else int u - 4294967296) < 0 \<longleftrightarrow>
      2147483648 \<le> u" for u :: nat
    by simp
  then show ?thesis unfolding sint_u32_cases by simp
qed

lemma unat_add_no_wrap_u32:
  "unat (x :: u32) + unat y < 4294967296 \<Longrightarrow> unat (x + y) = unat x + unat y"
  by (simp add: unat_word_ariths)

lemma unat_sub_no_wrap: "y \<le> x \<Longrightarrow> unat (x - y) = unat x - unat y"
  by (rule unat_sub)

declare unat_add_no_wrap_u32 [unat_arith_simps] unat_sub_no_wrap [unat_arith_simps]

end
