(* ===== verification/List_Iface.thy ===== *)
theory List_Iface
  imports Prelude
begin

text \<open>
  What the users of include/list.h rely on (the page frame database, the slab caches, the
  pool's free list): a head stands for a sequence of entries, list_add puts a node in front of
  it, list_del takes a node out, and neither touches a list it is not part of.  The clients
  keep several lists over the same nodes and move a node from one to another with
  list_del followed by list_add; that move is proved here once, for any provider of the laws.
\<close>

locale list_iface =
  fixes rep :: "'h \<Rightarrow> 'p \<Rightarrow> 'p list \<Rightarrow> bool"
    and ins :: "'p \<Rightarrow> 'p \<Rightarrow> 'h \<Rightarrow> 'h"
    and rem :: "'p \<Rightarrow> 'h \<Rightarrow> 'h"
  assumes rep_distinct: "rep h hh xs \<Longrightarrow> distinct (hh # xs)"
    and ins_front: "rep h hh xs \<Longrightarrow> x \<notin> set (hh # xs) \<Longrightarrow> rep (ins x hh h) hh (x # xs)"
    and ins_frame: "rep h hh2 ys \<Longrightarrow> rep h hh xs \<Longrightarrow>
      set (x # hh # xs) \<inter> set (hh2 # ys) = {} \<Longrightarrow> rep (ins x hh h) hh2 ys"
    and rem_middle: "rep h hh (xs @ e # ys) \<Longrightarrow> rep (rem e h) hh (xs @ ys)"
    and rem_frame: "rep h hh2 ys \<Longrightarrow> rep h hh xs \<Longrightarrow> e \<in> set xs \<Longrightarrow>
      set (hh # xs) \<inter> set (hh2 # ys) = {} \<Longrightarrow> rep (rem e h) hh2 ys"
begin

text \<open>A family of lists over disjoint nodes: hds are the heads, L gives the entries of each.\<close>

definition family :: "'h \<Rightarrow> 'p set \<Rightarrow> ('p \<Rightarrow> 'p list) \<Rightarrow> bool" where
  "family h hds L \<longleftrightarrow> (\<forall>a \<in> hds. rep h a (L a)) \<and>
     (\<forall>a \<in> hds. \<forall>b \<in> hds. a \<noteq> b \<longrightarrow> set (a # L a) \<inter> set (b # L b) = {})"

lemma familyI:
  assumes "\<And>a. a \<in> hds \<Longrightarrow> rep h a (L a)"
    and "\<And>a b. a \<in> hds \<Longrightarrow> b \<in> hds \<Longrightarrow> a \<noteq> b \<Longrightarrow> set (a # L a) \<inter> set (b # L b) = {}"
  shows "family h hds L"
  using assms by (simp add: family_def)

lemma family_rep: "family h hds L \<Longrightarrow> a \<in> hds \<Longrightarrow> rep h a (L a)"
  by (simp add: family_def)

lemma family_disjoint:
  "family h hds L \<Longrightarrow> a \<in> hds \<Longrightarrow> b \<in> hds \<Longrightarrow> a \<noteq> b \<Longrightarrow> set (a # L a) \<inter> set (b # L b) = {}"
  unfolding family_def by blast

lemma family_cong: "family h hds L \<Longrightarrow> (\<And>a. a \<in> hds \<Longrightarrow> L' a = L a) \<Longrightarrow> family h hds L'"
  by (simp add: family_def)

lemma family_remove:
  assumes F: "family h hds L" and a: "a \<in> hds" and e: "e \<in> set (L a)"
  shows "family (rem e h) hds (L(a := remove1 e (L a)))"
proof (rule familyI)
  fix b assume b: "b \<in> hds"
  show "rep (rem e h) b ((L(a := remove1 e (L a))) b)"
  proof (cases "b = a")
    case True
    have "distinct (L a)" using rep_distinct [OF family_rep [OF F a]] by simp
    with e obtain us vs where "L a = us @ e # vs" "remove1 e (L a) = us @ vs"
      by (rule distinct_split_at)
    then show ?thesis using True rem_middle family_rep [OF F a] by fastforce
  next
    case False
    then show ?thesis
      using rem_frame [OF family_rep [OF F b] family_rep [OF F a] e] family_disjoint [OF F a b]
      by simp
  qed
next
  fix b c assume "b \<in> hds" "c \<in> hds" "b \<noteq> c"
  then have "set (b # L b) \<inter> set (c # L c) = {}" by (rule family_disjoint [OF F])
  moreover have "set (remove1 e (L a)) \<subseteq> set (L a)" by (rule set_remove1_subset)
  ultimately show "set (b # (L(a := remove1 e (L a))) b) \<inter> set (c # (L(a := remove1 e (L a))) c) = {}"
    by auto
qed

lemma family_insert:
  assumes F: "family h hds L" and a: "a \<in> hds" and e: "\<And>b. b \<in> hds \<Longrightarrow> e \<notin> set (b # L b)"
  shows "family (ins e a h) hds (L(a := e # L a))"
proof (rule familyI)
  fix b assume b: "b \<in> hds"
  show "rep (ins e a h) b ((L(a := e # L a)) b)"
  proof (cases "b = a")
    case True
    then show ?thesis using ins_front [OF family_rep [OF F a] e [OF a]] by simp
  next
    case False
    then have "set (e # a # L a) \<inter> set (b # L b) = {}"
      using family_disjoint [OF F a b] e [OF b] by auto
    then show ?thesis
      using ins_frame [OF family_rep [OF F b] family_rep [OF F a]] False by simp
  qed
next
  fix b c assume "b \<in> hds" "c \<in> hds" "b \<noteq> c"
  then show "set (b # (L(a := e # L a)) b) \<inter> set (c # (L(a := e # L a)) c) = {}"
    using family_disjoint [OF F, of b c] e by auto
qed

text \<open>The move of a node to the front of another list of the family, or of its own.\<close>

definition move_to :: "'p \<Rightarrow> 'p \<Rightarrow> 'p \<Rightarrow> ('p \<Rightarrow> 'p list) \<Rightarrow> 'p \<Rightarrow> 'p list" where
  "move_to e a b L = (let L1 = L(a := remove1 e (L a)) in L1(b := e # L1 b))"

lemma family_move:
  assumes F: "family h hds L" and a: "a \<in> hds" and b: "b \<in> hds" and e: "e \<in> set (L a)"
  shows "family (ins e b (rem e h)) hds (move_to e a b L)"
  unfolding move_to_def Let_def
proof (rule family_insert [OF family_remove [OF F a e] b])
  fix c assume c: "c \<in> hds"
  have "distinct (a # L a)" by (rule rep_distinct [OF family_rep [OF F a]])
  then have "e \<notin> set (remove1 e (L a))" "e \<noteq> a" using e by auto
  then show "e \<notin> set (c # (L(a := remove1 e (L a))) c)"
    using family_disjoint [OF F a c] e by (cases "c = a") auto
qed

lemma move_to_members:
  assumes F: "family h hds L" and a: "a \<in> hds" and b: "b \<in> hds" and e: "e \<in> set (L a)"
    and c: "c \<in> hds"
  shows "set (move_to e a b L c) = (if c = b then insert e (set (L c)) else set (L c) - {e})"
proof -
  have "distinct (L a)" using rep_distinct [OF family_rep [OF F a]] by simp
  then have "set (remove1 e (L a)) = set (L a) - {e}" by simp
  moreover have "c \<noteq> a \<Longrightarrow> e \<notin> set (L c)" using family_disjoint [OF F a c] e by auto
  ultimately show ?thesis using e by (auto simp: move_to_def Let_def)
qed

end

end
