(* ===== verification/Klist.thy ===== *)
theory Klist
  imports List_Iface
begin

text \<open>
  include/list.h: the intrusive circular doubly linked list.  A list_head_t is a pair of
  pointers embedded in some object, so the state is the two pointer fields as functions of the
  node's address, and every operation is the sequence of assignments of the C body, in its
  order (the arguments may alias: list_add on an empty list has prev = next = head).
\<close>

section \<open>The pointer fields and the operations\<close>

record 'p lheap =
  nxt :: "'p \<Rightarrow> 'p"
  prv :: "'p \<Rightarrow> 'p"

definition set_nxt :: "'p \<Rightarrow> 'p \<Rightarrow> 'p lheap \<Rightarrow> 'p lheap" where
  "set_nxt p q h = h\<lparr>nxt := (nxt h)(p := q)\<rparr>"

definition set_prv :: "'p \<Rightarrow> 'p \<Rightarrow> 'p lheap \<Rightarrow> 'p lheap" where
  "set_prv p q h = h\<lparr>prv := (prv h)(p := q)\<rparr>"

definition INIT_LIST_HEAD :: "'p \<Rightarrow> 'p lheap \<Rightarrow> 'p lheap" where
  "INIT_LIST_HEAD ptr h = set_prv ptr ptr (set_nxt ptr ptr h)"

text \<open>__list_add(new, prev, next) and __list_del(prev, next).\<close>

definition list_add_between :: "'p \<Rightarrow> 'p \<Rightarrow> 'p \<Rightarrow> 'p lheap \<Rightarrow> 'p lheap" where
  "list_add_between new prev next h =
     (let h1 = set_prv next new h;
          h2 = set_nxt new next h1;
          h3 = set_prv new prev h2
      in set_nxt prev new h3)"

definition list_add :: "'p \<Rightarrow> 'p \<Rightarrow> 'p lheap \<Rightarrow> 'p lheap" where
  "list_add new head h = list_add_between new head (nxt h head) h"

definition list_add_tail :: "'p \<Rightarrow> 'p \<Rightarrow> 'p lheap \<Rightarrow> 'p lheap" where
  "list_add_tail new head h = list_add_between new (prv h head) head h"

definition list_del_between :: "'p \<Rightarrow> 'p \<Rightarrow> 'p lheap \<Rightarrow> 'p lheap" where
  "list_del_between prev next h = set_nxt prev next (set_prv next prev h)"

definition list_del :: "'p \<Rightarrow> 'p lheap \<Rightarrow> 'p lheap" where
  "list_del entry h = list_del_between (prv h entry) (nxt h entry) h"

definition list_del_init :: "'p \<Rightarrow> 'p lheap \<Rightarrow> 'p lheap" where
  "list_del_init entry h = INIT_LIST_HEAD entry (list_del_between (prv h entry) (nxt h entry) h)"

definition list_empty :: "'p \<Rightarrow> 'p lheap \<Rightarrow> bool" where
  "list_empty head h \<longleftrightarrow> nxt h head = head"

definition list_splice :: "'p \<Rightarrow> 'p \<Rightarrow> 'p lheap \<Rightarrow> 'p lheap" where
  "list_splice list head h =
     (let first = nxt h list in
      if first \<noteq> list then
        (let last = prv h list;
             at = nxt h head;
             h1 = set_prv first head h;
             h2 = set_nxt head first h1;
             h3 = set_nxt last at h2
         in set_prv at last h3)
      else h)"

text \<open>
  list_for_each(pos, head) as the list of positions the loop body sees, in order; the loop
  walks the next pointers until it is back at the head, so on an arbitrary heap it may not end:
  fuel bounds the number of iterations and None says it did not end within it.
  list_for_each_prev walks the prev pointers.  list_for_each_safe reads the successor before
  the body runs; its body may change the heap and the walk continues from the saved successor.
\<close>

fun list_walk :: "nat \<Rightarrow> 'p lheap \<Rightarrow> 'p \<Rightarrow> 'p \<Rightarrow> 'p list option" where
  "list_walk fuel h head pos =
     (if pos = head then Some []
      else case fuel of 0 \<Rightarrow> None
      | Suc k \<Rightarrow> map_option ((#) pos) (list_walk k h head (nxt h pos)))"

definition list_for_each :: "nat \<Rightarrow> 'p \<Rightarrow> 'p lheap \<Rightarrow> 'p list option" where
  "list_for_each fuel head h = list_walk fuel h head (nxt h head)"

fun list_walk_prev :: "nat \<Rightarrow> 'p lheap \<Rightarrow> 'p \<Rightarrow> 'p \<Rightarrow> 'p list option" where
  "list_walk_prev fuel h head pos =
     (if pos = head then Some []
      else case fuel of 0 \<Rightarrow> None
      | Suc k \<Rightarrow> map_option ((#) pos) (list_walk_prev k h head (prv h pos)))"

definition list_for_each_prev :: "nat \<Rightarrow> 'p \<Rightarrow> 'p lheap \<Rightarrow> 'p list option" where
  "list_for_each_prev fuel head h = list_walk_prev fuel h head (prv h head)"

fun list_walk_safe ::
  "nat \<Rightarrow> ('p \<Rightarrow> 'p lheap \<Rightarrow> 'p lheap) \<Rightarrow> 'p \<Rightarrow> 'p \<Rightarrow> 'p \<Rightarrow> 'p lheap \<Rightarrow> 'p lheap option" where
  "list_walk_safe fuel body head pos n h =
     (if pos = head then Some h
      else case fuel of 0 \<Rightarrow> None
      | Suc k \<Rightarrow> (let h' = body pos h in list_walk_safe k body head n (nxt h' n) h'))"

definition list_for_each_safe ::
  "nat \<Rightarrow> ('p \<Rightarrow> 'p lheap \<Rightarrow> 'p lheap) \<Rightarrow> 'p \<Rightarrow> 'p lheap \<Rightarrow> 'p lheap option" where
  "list_for_each_safe fuel body head h =
     (let pos = nxt h head in list_walk_safe fuel body head pos (nxt h pos) h)"

declare list_walk.simps [simp del] list_walk_prev.simps [simp del] list_walk_safe.simps [simp del]

lemmas lheap_defs = set_nxt_def set_prv_def INIT_LIST_HEAD_def list_add_between_def list_add_def
  list_add_tail_def list_del_between_def list_del_def list_del_init_def list_splice_def Let_def

section \<open>The list a head stands for\<close>

text \<open>
  linked h a xs b: from a, through the nodes xs in order, to b, every next pointer and every
  prev pointer agree.  dll h head xs: head is the head of a circular list with entries xs.
\<close>

fun linked :: "'p lheap \<Rightarrow> 'p \<Rightarrow> 'p list \<Rightarrow> 'p \<Rightarrow> bool" where
  "linked h a [] b \<longleftrightarrow> nxt h a = b \<and> prv h b = a"
| "linked h a (x # xs) b \<longleftrightarrow> nxt h a = x \<and> prv h x = a \<and> linked h x xs b"

definition dll :: "'p lheap \<Rightarrow> 'p \<Rightarrow> 'p list \<Rightarrow> bool" where
  "dll h head xs \<longleftrightarrow> distinct (head # xs) \<and> linked h head xs head"

lemma linked_append [simp]:
  "linked h a (xs @ y # ys) b \<longleftrightarrow> linked h a xs y \<and> linked h y ys b"
  by (induction xs arbitrary: a) auto

lemma linked_cong:
  assumes "\<And>p. p \<in> set (a # xs) \<Longrightarrow> nxt h' p = nxt h p"
    and "\<And>p. p \<in> set (xs @ [b]) \<Longrightarrow> prv h' p = prv h p"
  shows "linked h' a xs b = linked h a xs b"
  using assms by (induction xs arbitrary: a) auto

lemma linked_ends:
  "linked h a xs b \<Longrightarrow> nxt h a = (if xs = [] then b else hd xs)"
  "linked h a xs b \<Longrightarrow> prv h b = (if xs = [] then a else last xs)"
  by (induction xs arbitrary: a) auto

lemma dll_distinct: "dll h head xs \<Longrightarrow> distinct (head # xs)"
  by (simp add: dll_def)

lemma dll_frame:
  assumes "dll h head xs"
    and "\<And>p. p \<in> set (head # xs) \<Longrightarrow> nxt h' p = nxt h p \<and> prv h' p = prv h p"
  shows "dll h' head xs"
  using assms linked_cong [of head xs h' h head] by (auto simp: dll_def)

lemma linked_nxt_mem: "linked h a xs b \<Longrightarrow> p \<in> set (a # xs) \<Longrightarrow> nxt h p \<in> set (xs @ [b])"
  by (induction xs arbitrary: a) auto

lemma linked_prv_mem: "linked h a xs b \<Longrightarrow> p \<in> set (xs @ [b]) \<Longrightarrow> prv h p \<in> set (a # xs)"
  by (induction xs arbitrary: a) auto

lemma dll_neighbours:
  assumes "dll h head xs" "p \<in> set (head # xs)"
  shows "nxt h p \<in> set (head # xs)" "prv h p \<in> set (head # xs)"
  using assms linked_nxt_mem [of h head xs head p] linked_prv_mem [of h head xs head p]
  by (auto simp: dll_def)

section \<open>What each operation does to the list\<close>

lemma dll_init: "dll (INIT_LIST_HEAD head h) head []"
  by (simp add: dll_def lheap_defs)

lemma list_empty_iff: "dll h head xs \<Longrightarrow> list_empty head h \<longleftrightarrow> xs = []"
  using linked_ends(1) [of h head xs head]
  by (cases xs) (auto simp: dll_def list_empty_def)

lemma dll_first: "dll h head xs \<Longrightarrow> nxt h head = (if xs = [] then head else hd xs)"
  by (simp add: dll_def linked_ends(1))

lemma dll_last: "dll h head xs \<Longrightarrow> prv h head = (if xs = [] then head else last xs)"
  by (simp add: dll_def linked_ends(2))

text \<open>Linking a new node between two neighbours a and b.\<close>

lemma linked_add_between:
  assumes "linked h a [] b" "new \<notin> {a, b}"
  shows "linked (list_add_between new a b h) a [new] b"
  using assms by (auto simp: lheap_defs)

text \<open>Inserting after the head or after any entry, and before the head or any entry.\<close>

lemma dll_add_after_head:
  assumes "dll h head xs" "new \<notin> set (head # xs)"
  shows "dll (list_add new head h) head (new # xs)"
proof (cases xs)
  case Nil
  then show ?thesis using assms by (auto simp: dll_def lheap_defs)
next
  case (Cons y ys)
  let ?h = "list_add_between new head y h"
  from assms Cons have d: "distinct (head # y # ys)" "new \<notin> set (head # y # ys)"
    and l: "nxt h head = y" "linked h y ys head" by (auto simp: dll_def)
  have "linked ?h y ys head = linked h y ys head"
    using d by (intro linked_cong) (auto simp: lheap_defs)
  moreover have "nxt ?h head = new" "prv ?h new = head" "nxt ?h new = y" "prv ?h y = new"
    using d by (auto simp: lheap_defs)
  ultimately show ?thesis using d l Cons by (auto simp: dll_def list_add_def)
qed

lemma dll_add_tail_before:
  assumes "dll h head (xs @ q # ys)" "new \<notin> set (head # xs @ q # ys)"
  shows "dll (list_add_tail new q h) head (xs @ new # q # ys)"
proof -
  define a where "a = (if xs = [] then head else last xs)"
  let ?h = "list_add_between new a q h"
  from assms have d: "distinct (head # xs @ q # ys)" "new \<notin> set (head # xs @ q # ys)"
    and l: "linked h head xs q" "linked h q ys head" by (auto simp: dll_def)
  have pq: "prv h q = a" using l(1) by (simp add: a_def linked_ends(2))
  have "linked ?h head xs new"
  proof (cases xs rule: rev_cases)
    case Nil
    then show ?thesis using d by (auto simp: a_def lheap_defs)
  next
    case (snoc zs z)
    then have "a = z" by (simp add: a_def)
    with l(1) snoc have "linked h head zs z" by simp
    then have "linked ?h head zs z"
      using d snoc \<open>a = z\<close> by (subst linked_cong [of head zs ?h h z]) (auto simp: lheap_defs)
    then show ?thesis using d snoc \<open>a = z\<close> by (auto simp: lheap_defs)
  qed
  moreover have "nxt ?h new = q" "prv ?h q = new" using d by (auto simp: a_def lheap_defs)
  moreover have "linked ?h q ys head"
  proof -
    have "a \<in> set (head # xs)" by (auto simp: a_def)
    then have "a \<notin> set (q # ys)" using d by auto
    then show ?thesis using d l(2)
      by (subst linked_cong [of q ys ?h h head]) (auto simp: lheap_defs)
  qed
  ultimately show ?thesis using d pq by (auto simp: dll_def list_add_tail_def)
qed

lemma dll_add_tail:
  assumes "dll h head xs" "new \<notin> set (head # xs)"
  shows "dll (list_add_tail new head h) head (xs @ [new])"
proof (cases xs rule: rev_cases)
  case Nil
  then show ?thesis using assms by (auto simp: dll_def lheap_defs)
next
  case (snoc zs z)
  let ?h = "list_add_between new z head h"
  from assms snoc have d: "distinct (head # zs @ [z])" "new \<notin> set (head # zs @ [z])"
    and l: "linked h head zs z" "prv h head = z" by (auto simp: dll_def)
  have "linked ?h head zs z"
    using d l by (subst linked_cong [of head zs ?h h z]) (auto simp: lheap_defs)
  moreover have "nxt ?h z = new" "prv ?h new = z" "nxt ?h new = head" "prv ?h head = new"
    using d by (auto simp: lheap_defs)
  ultimately show ?thesis using d l snoc by (auto simp: dll_def list_add_tail_def)
qed

lemma dll_del:
  assumes "dll h head (xs @ e # ys)"
  shows "dll (list_del e h) head (xs @ ys)"
proof -
  define a where "a = (if xs = [] then head else last xs)"
  define b where "b = (if ys = [] then head else hd ys)"
  let ?h = "list_del_between a b h"
  from assms have d: "distinct (head # xs @ e # ys)"
    and l: "linked h head xs e" "linked h e ys head" by (auto simp: dll_def)
  have ab: "prv h e = a" "nxt h e = b" using l by (simp_all add: a_def b_def linked_ends)
  have left: "linked ?h head xs b"
  proof (cases xs rule: rev_cases)
    case Nil
    then show ?thesis by (auto simp: a_def lheap_defs)
  next
    case (snoc zs z)
    then have "a = z" by (simp add: a_def)
    with l(1) snoc have "linked h head zs z" by simp
    moreover have "b \<notin> set (zs @ [z])" using d snoc by (cases ys) (auto simp: b_def)
    ultimately have "linked ?h head zs z"
      using d snoc \<open>a = z\<close> by (subst linked_cong [of head zs ?h h z]) (auto simp: lheap_defs)
    then show ?thesis using snoc \<open>a = z\<close> by (auto simp: lheap_defs)
  qed
  show ?thesis
  proof (cases ys)
    case Nil
    then show ?thesis using left d ab by (simp add: dll_def list_del_def b_def)
  next
    case (Cons y zs)
    then have "b = y" by (simp add: b_def)
    from l(2) Cons have "linked h y zs head" by simp
    moreover have "a \<notin> set (y # zs)" using d Cons by (auto simp: a_def dest: last_in_set)
    ultimately have "linked ?h y zs head"
      using d Cons \<open>b = y\<close> by (subst linked_cong [of y zs ?h h head]) (auto simp: lheap_defs)
    then show ?thesis using left d ab Cons \<open>b = y\<close> by (simp add: dll_def list_del_def)
  qed
qed

text \<open>Frames: a list disjoint from the nodes involved is not touched.\<close>

lemma dll_frame_add:
  assumes "dll h hd2 ys" "new \<notin> set (hd2 # ys)" "p \<notin> set (hd2 # ys)" "q \<notin> set (hd2 # ys)"
  shows "dll (list_add_between new p q h) hd2 ys"
  using assms by (intro dll_frame [OF assms(1)]) (auto simp: lheap_defs)

lemma dll_frame_list_add [frame_intros]:
  assumes "dll h hd2 ys" "dll h head xs" "set (new # head # xs) \<inter> set (hd2 # ys) = {}"
  shows "dll (list_add new head h) hd2 ys"
  unfolding list_add_def
  using assms dll_neighbours(1) [OF assms(2), of head]
  by (intro dll_frame_add) (auto simp: disjoint_iff)

lemma dll_frame_list_add_tail [frame_intros]:
  assumes "dll h hd2 ys" "dll h head xs" "q \<in> set (head # xs)"
    and "set (new # head # xs) \<inter> set (hd2 # ys) = {}"
  shows "dll (list_add_tail new q h) hd2 ys"
  unfolding list_add_tail_def
  using assms dll_neighbours(2) [OF assms(2,3)]
  by (intro dll_frame_add) (auto simp: disjoint_iff)

lemma dll_frame_list_del [frame_intros]:
  assumes "dll h hd2 ys" "dll h head xs" "e \<in> set xs"
    and "set (head # xs) \<inter> set (hd2 # ys) = {}"
  shows "dll (list_del e h) hd2 ys"
proof (rule dll_frame [OF assms(1)])
  have "prv h e \<in> set (head # xs)" "nxt h e \<in> set (head # xs)"
    using dll_neighbours [OF assms(2), of e] assms(3) by auto
  then show "nxt (list_del e h) p = nxt h p \<and> prv (list_del e h) p = prv h p"
    if "p \<in> set (hd2 # ys)" for p
    using that assms(4) by (auto simp: lheap_defs disjoint_iff)
qed

section \<open>Splicing and traversal\<close>

text \<open>The list spliced in comes first; its own head keeps its stale pointers.\<close>

lemma dll_splice:
  assumes "dll h lst xs" "dll h head ys" "set (lst # xs) \<inter> set (head # ys) = {}"
  shows "dll (list_splice lst head h) head (xs @ ys)"
proof (cases xs)
  case Nil
  then show ?thesis using assms dll_first [OF assms(1)] by (simp add: list_splice_def)
next
  case (Cons x us)
  define z where "z = last xs"
  define c where "c = (if ys = [] then head else hd ys)"
  define k where "k = set_prv c z (set_nxt z c (set_nxt head x (set_prv x head h)))"
  have ends: "nxt h lst = x" "prv h lst = z" "nxt h head = c"
    using dll_first [OF assms(1)] dll_last [OF assms(1)] dll_first [OF assms(2)] Cons
    by (simp_all add: z_def c_def)
  have d: "distinct (lst # xs)" "distinct (head # ys)"
    using assms by (auto simp: dll_def)
  have zin: "z \<in> set xs" and cin: "c \<in> set (head # ys)" using Cons by (auto simp: z_def c_def)
  have k: "list_splice lst head h = k"
    using ends d Cons by (auto simp: list_splice_def Let_def k_def)
  have body: "linked k head xs c"
  proof (cases us rule: rev_cases)
    case Nil
    then show ?thesis using Cons d assms(3) cin by (auto simp: z_def k_def lheap_defs)
  next
    case (snoc ws w)
    then have xs: "xs = x # ws @ [z]" using Cons by (simp add: z_def)
    have "linked h x ws z" using assms(1) xs by (auto simp: dll_def)
    then have "linked k x ws z"
      using d assms(3) cin unfolding xs k_def
      by (subst linked_cong [of x ws _ h z]) (auto simp: lheap_defs)
    then show ?thesis using d assms(3) cin unfolding xs by (auto simp: k_def lheap_defs)
  qed
  show ?thesis
  proof (cases ys)
    case Nil
    then show ?thesis using k body d assms(3) by (simp add: dll_def c_def)
  next
    case (Cons y vs)
    have "linked h y vs head" using assms(2) Cons by (auto simp: dll_def)
    then have "linked k y vs head"
      using d assms(3) zin \<open>xs = x # us\<close> unfolding Cons k_def
      by (subst linked_cong [of y vs _ h head]) (auto simp: lheap_defs c_def Cons)
    then show ?thesis
      using k body d assms(3) Cons by (auto simp: dll_def c_def)
  qed
qed

lemma list_walk_linked:
  "linked h p xs head \<Longrightarrow> head \<notin> set xs \<Longrightarrow> length xs \<le> fuel \<Longrightarrow>
   list_walk fuel h head (nxt h p) = Some xs"
proof (induction xs arbitrary: p fuel)
  case Nil
  then show ?case by (simp add: list_walk.simps)
next
  case (Cons x xs)
  then obtain k where "fuel = Suc k" by (cases fuel) auto
  with Cons show ?case by (subst list_walk.simps) auto
qed

lemma list_for_each_visits:
  assumes "dll h head xs" "length xs \<le> fuel"
  shows "list_for_each fuel head h = Some xs"
  using assms list_walk_linked [of h head xs head fuel] by (simp add: list_for_each_def dll_def)

lemma list_walk_prev_linked:
  "linked h head xs q \<Longrightarrow> head \<notin> set xs \<Longrightarrow> length xs \<le> fuel \<Longrightarrow>
   list_walk_prev fuel h head (prv h q) = Some (rev xs)"
proof (induction xs arbitrary: q fuel rule: rev_induct)
  case Nil
  then show ?case by (simp add: list_walk_prev.simps)
next
  case (snoc x xs)
  then obtain k where "fuel = Suc k" by (cases fuel) auto
  with snoc show ?case by (subst list_walk_prev.simps) auto
qed

lemma list_for_each_prev_visits:
  assumes "dll h head xs" "length xs \<le> fuel"
  shows "list_for_each_prev fuel head h = Some (rev xs)"
  using assms list_walk_prev_linked [of h head xs head fuel]
  by (simp add: list_for_each_prev_def dll_def)

text \<open>A body that unlinks the current entry: the safe traversal survives it.\<close>

lemma list_walk_safe_del:
  "dll h head xs \<Longrightarrow> length xs \<le> fuel \<Longrightarrow>
   \<exists>h'. list_walk_safe fuel list_del head (nxt h head) (nxt h (nxt h head)) h = Some h' \<and> dll h' head []"
proof (induction xs arbitrary: h fuel)
  case Nil
  then show ?case using dll_first [OF Nil.prems(1)] by (simp add: list_walk_safe.simps)
next
  case (Cons x xs)
  then obtain k where k: "fuel = Suc k" by (cases fuel) auto
  have x: "nxt h head = x" "x \<noteq> head" using Cons.prems by (auto simp: dll_def)
  have d: "dll (list_del x h) head xs" using dll_del [of h head "[]" x xs] Cons.prems by simp
  have n: "nxt h x = nxt (list_del x h) head"
    using dll_first [OF d] Cons.prems(1) by (cases xs) (auto simp: dll_def)
  from Cons.IH [OF d, of k] Cons.prems k obtain h' where
    "list_walk_safe k list_del head (nxt (list_del x h) head)
       (nxt (list_del x h) (nxt (list_del x h) head)) (list_del x h) = Some h'"
    "dll h' head []" by auto
  then show ?case using k x n by (subst list_walk_safe.simps) (auto simp: Let_def)
qed

section \<open>The laws of the interface\<close>

interpretation klist: list_iface dll list_add list_del
proof unfold_locales
  show "dll h hh xs \<Longrightarrow> distinct (hh # xs)" for h :: "'a lheap" and hh xs
    by (rule dll_distinct)
  show "dll h hh xs \<Longrightarrow> x \<notin> set (hh # xs) \<Longrightarrow> dll (list_add x hh h) hh (x # xs)"
    for h :: "'a lheap" and hh xs x
    by (rule dll_add_after_head)
  show "dll (list_add x hh h) hh2 ys"
    if "dll h hh2 ys" "dll h hh xs" "set (x # hh # xs) \<inter> set (hh2 # ys) = {}"
    for h :: "'a lheap" and hh2 ys hh xs x
    using that by (rule dll_frame_list_add)
  show "dll h hh (xs @ e # ys) \<Longrightarrow> dll (list_del e h) hh (xs @ ys)"
    for h :: "'a lheap" and hh xs e ys
    by (rule dll_del)
  show "dll (list_del e h) hh2 ys"
    if "dll h hh2 ys" "dll h hh xs" "e \<in> set xs" "set (hh # xs) \<inter> set (hh2 # ys) = {}"
    for h :: "'a lheap" and hh2 ys hh xs e
    using that by (rule dll_frame_list_del)
qed

end
