(* ===== verification/Avl.thy ===== *)
theory Avl
  imports Prelude
begin

text \<open>
  lib/algo/avl.c and include/algo/avl.h: the intrusive AVL tree, at the level of its pointers.
  An avl_node_t is the three fields left, right and skew of some object; a tree is reached from
  a root variable.  The C code walks with pointers to pointers (avl_node_t **root): a location
  is the root variable or one of the two child fields of a node, and every assignment through
  it writes that variable or field.
\<close>

section \<open>Nodes, locations, results\<close>

text \<open>enum AVLSKEW (the default branch of every switch is AVL_NONE) and enum AVLRES.\<close>

datatype avl_skew = AVL_NONE | AVL_LEFT | AVL_RIGHT

datatype avl_res = AVL_ERROR | AVL_OK | AVL_BALANCE

record 'p avl_heap =
  avl_root :: "'p option"
  avl_left :: "'p \<Rightarrow> 'p option"
  avl_right :: "'p \<Rightarrow> 'p option"
  avl_skew :: "'p \<Rightarrow> avl_skew"

datatype 'p avl_loc = Root | LeftOf 'p | RightOf 'p

fun rd :: "'p avl_loc \<Rightarrow> 'p avl_heap \<Rightarrow> 'p option" where
  "rd Root h = avl_root h"
| "rd (LeftOf p) h = avl_left h p"
| "rd (RightOf p) h = avl_right h p"

fun wr :: "'p avl_loc \<Rightarrow> 'p option \<Rightarrow> 'p avl_heap \<Rightarrow> 'p avl_heap" where
  "wr Root v h = h\<lparr>avl_root := v\<rparr>"
| "wr (LeftOf p) v h = h\<lparr>avl_left := (avl_left h)(p := v)\<rparr>"
| "wr (RightOf p) v h = h\<lparr>avl_right := (avl_right h)(p := v)\<rparr>"

definition set_skew :: "'p \<Rightarrow> avl_skew \<Rightarrow> 'p avl_heap \<Rightarrow> 'p avl_heap" where
  "set_skew p s h = h\<lparr>avl_skew := (avl_skew h)(p := s)\<rparr>"

text \<open>node = null_avl_node\<close>

definition null_avl_node :: "'p \<Rightarrow> 'p avl_heap \<Rightarrow> 'p avl_heap" where
  "null_avl_node p h = set_skew p AVL_NONE (wr (RightOf p) None (wr (LeftOf p) None h))"

text \<open>avl_make_compare and avl_make_match, for a key member with an order.\<close>

definition avl_make_compare :: "('p \<Rightarrow> 'k::linorder) \<Rightarrow> 'p \<Rightarrow> 'p \<Rightarrow> int" where
  "avl_make_compare key a b = (if key a < key b then -1 else if key a = key b then 0 else 1)"

definition avl_make_match :: "('p \<Rightarrow> 'k::linorder) \<Rightarrow> 'k \<Rightarrow> 'p \<Rightarrow> int" where
  "avl_make_match key k b = (if k < key b then -1 else if k = key b then 0 else 1)"

section \<open>Rotations and rebalancing\<close>

definition avl_rotateRight :: "'p avl_loc \<Rightarrow> 'p avl_heap \<Rightarrow> 'p avl_heap outcome" where
  "avl_rotateRight root h =
     (case rd root h of None \<Rightarrow> Fault
      | Some tmp \<Rightarrow>
          (let h1 = wr root (avl_left h tmp) h in
           case rd root h1 of None \<Rightarrow> Fault
           | Some r \<Rightarrow>
               (let h2 = wr (LeftOf tmp) (avl_right h1 r) h1 in
                case rd root h2 of None \<Rightarrow> Fault
                | Some r2 \<Rightarrow> Ret (wr (RightOf r2) (Some tmp) h2))))"

definition avl_rotateLeft :: "'p avl_loc \<Rightarrow> 'p avl_heap \<Rightarrow> 'p avl_heap outcome" where
  "avl_rotateLeft root h =
     (case rd root h of None \<Rightarrow> Fault
      | Some tmp \<Rightarrow>
          (let h1 = wr root (avl_right h tmp) h in
           case rd root h1 of None \<Rightarrow> Fault
           | Some r \<Rightarrow>
               (let h2 = wr (RightOf tmp) (avl_left h1 r) h1 in
                case rd root h2 of None \<Rightarrow> Fault
                | Some r2 \<Rightarrow> Ret (wr (LeftOf r2) (Some tmp) h2))))"

definition avl_grownLeft :: "'p avl_loc \<Rightarrow> 'p avl_heap \<Rightarrow> ('p avl_heap \<times> avl_res) outcome" where
  "avl_grownLeft loc h =
     (case rd loc h of None \<Rightarrow> Fault
      | Some n \<Rightarrow>
         (case avl_skew h n of
            AVL_LEFT \<Rightarrow>
              (case avl_left h n of None \<Rightarrow> Fault
               | Some l \<Rightarrow>
                   if avl_skew h l = AVL_LEFT then
                     obind (avl_rotateRight loc (set_skew n AVL_NONE (set_skew l AVL_NONE h)))
                       (\<lambda>h1. Ret (h1, AVL_OK))
                   else
                     (case avl_right h l of None \<Rightarrow> Fault
                      | Some lr \<Rightarrow>
                          (let h1 = (case avl_skew h lr of
                                       AVL_LEFT \<Rightarrow> set_skew l AVL_NONE (set_skew n AVL_RIGHT h)
                                     | AVL_RIGHT \<Rightarrow> set_skew l AVL_LEFT (set_skew n AVL_NONE h)
                                     | AVL_NONE \<Rightarrow> set_skew l AVL_NONE (set_skew n AVL_NONE h));
                               h2 = set_skew lr AVL_NONE h1
                           in obind (avl_rotateLeft (LeftOf n) h2)
                                (\<lambda>h3. obind (avl_rotateRight loc h3) (\<lambda>h4. Ret (h4, AVL_OK))))))
          | AVL_RIGHT \<Rightarrow> Ret (set_skew n AVL_NONE h, AVL_OK)
          | AVL_NONE \<Rightarrow> Ret (set_skew n AVL_LEFT h, AVL_BALANCE)))"

definition avl_grownRight :: "'p avl_loc \<Rightarrow> 'p avl_heap \<Rightarrow> ('p avl_heap \<times> avl_res) outcome" where
  "avl_grownRight loc h =
     (case rd loc h of None \<Rightarrow> Fault
      | Some n \<Rightarrow>
         (case avl_skew h n of
            AVL_LEFT \<Rightarrow> Ret (set_skew n AVL_NONE h, AVL_OK)
          | AVL_RIGHT \<Rightarrow>
              (case avl_right h n of None \<Rightarrow> Fault
               | Some r \<Rightarrow>
                   if avl_skew h r = AVL_RIGHT then
                     obind (avl_rotateLeft loc (set_skew n AVL_NONE (set_skew r AVL_NONE h)))
                       (\<lambda>h1. Ret (h1, AVL_OK))
                   else
                     (case avl_left h r of None \<Rightarrow> Fault
                      | Some rl \<Rightarrow>
                          (let h1 = (case avl_skew h rl of
                                       AVL_RIGHT \<Rightarrow> set_skew r AVL_NONE (set_skew n AVL_LEFT h)
                                     | AVL_LEFT \<Rightarrow> set_skew r AVL_RIGHT (set_skew n AVL_NONE h)
                                     | AVL_NONE \<Rightarrow> set_skew r AVL_NONE (set_skew n AVL_NONE h));
                               h2 = set_skew rl AVL_NONE h1
                           in obind (avl_rotateRight (RightOf n) h2)
                                (\<lambda>h3. obind (avl_rotateLeft loc h3) (\<lambda>h4. Ret (h4, AVL_OK))))))
          | AVL_NONE \<Rightarrow> Ret (set_skew n AVL_RIGHT h, AVL_BALANCE)))"

section \<open>Insertion, search, traversal\<close>

text \<open>
  _avl_add(node, root, compare).  The recursion follows the links of the heap, so it carries a
  bound on its depth; the refinement to trees shows that the height of the tree is enough.
\<close>

fun avl_add :: "nat \<Rightarrow> ('p \<Rightarrow> 'p \<Rightarrow> int) \<Rightarrow> 'p \<Rightarrow> 'p avl_loc \<Rightarrow> 'p avl_heap
    \<Rightarrow> ('p avl_heap \<times> avl_res) outcome" where
  "avl_add fuel compare node root h =
     (case fuel of 0 \<Rightarrow> Timeout
      | Suc k \<Rightarrow>
         (case rd root h of
            None \<Rightarrow> Ret (wr root (Some node) h, AVL_BALANCE)
          | Some r \<Rightarrow>
              if compare node r < 0 then
                obind (avl_add k compare node (LeftOf r) h)
                  (\<lambda>(h1, res). if res = AVL_BALANCE then avl_grownLeft root h1 else Ret (h1, AVL_OK))
              else if compare node r > 0 then
                obind (avl_add k compare node (RightOf r) h)
                  (\<lambda>(h1, res). if res = AVL_BALANCE then avl_grownRight root h1 else Ret (h1, AVL_OK))
              else Ret (h, AVL_OK)))"

text \<open>
  The _avl_find macro: a loop from the root; it returns the matching node, if any, and the last
  node passed on the way (the parent).  The match function orders a key against a node.
\<close>

fun avl_find_loop :: "nat \<Rightarrow> ('k \<Rightarrow> 'p \<Rightarrow> int) \<Rightarrow> 'k \<Rightarrow> 'p option \<Rightarrow> 'p option \<Rightarrow> 'p avl_heap
    \<Rightarrow> ('p option \<times> 'p option) outcome" where
  "avl_find_loop fuel mtch key node parent h =
     (case node of None \<Rightarrow> Ret (None, parent)
      | Some n \<Rightarrow>
         (case fuel of 0 \<Rightarrow> Timeout
          | Suc k \<Rightarrow>
              (let m = mtch key n in
               if m = 0 then Ret (Some n, parent)
               else avl_find_loop k mtch key (if m < 0 then avl_left h n else avl_right h n)
                      (Some n) h)))"

definition avl_find :: "nat \<Rightarrow> ('k \<Rightarrow> 'p \<Rightarrow> int) \<Rightarrow> 'k \<Rightarrow> 'p avl_heap \<Rightarrow> 'p option outcome" where
  "avl_find fuel mtch key h =
     obind (avl_find_loop fuel mtch key (avl_root h) None h) (\<lambda>(n, parent). Ret n)"

text \<open>_avl_traverse: the nodes the callback is applied to, in the order of the calls.\<close>

fun avl_traverse :: "nat \<Rightarrow> 'p option \<Rightarrow> 'p avl_heap \<Rightarrow> 'p list outcome" where
  "avl_traverse fuel node h =
     (case node of None \<Rightarrow> Ret []
      | Some n \<Rightarrow>
         (case fuel of 0 \<Rightarrow> Timeout
          | Suc k \<Rightarrow>
              obind (avl_traverse k (avl_left h n) h)
                (\<lambda>xs. obind (avl_traverse k (avl_right h n) h) (\<lambda>ys. Ret (xs @ ys @ [n])))))"

section \<open>Deletion\<close>

text \<open>avl_swap(root, succ), assignment by assignment.\<close>

definition avl_swap :: "'p avl_loc \<Rightarrow> 'p avl_loc \<Rightarrow> 'p avl_heap \<Rightarrow> 'p avl_heap outcome" where
  "avl_swap root succ h =
     (case (rd root h, rd succ h) of
        (Some rootnode, Some succnode) \<Rightarrow>
          (let sleft = avl_left h succnode;
               sright = avl_right h succnode;
               h1 = wr (LeftOf succnode)
                      (if avl_left h rootnode = Some succnode then Some rootnode
                       else avl_left h rootnode) h;
               h2 = wr (RightOf succnode)
                      (if avl_right h1 rootnode = Some succnode then Some rootnode
                       else avl_right h1 rootnode) h1;
               h3 = wr (LeftOf rootnode) sleft h2;
               h4 = wr (RightOf rootnode) sright h3
           in Ret (wr root (Some succnode) h4))
      | _ \<Rightarrow> Fault)"

text \<open>The loop of _avl_delete that looks for the rightmost node below *successor.\<close>

fun avl_successor :: "nat \<Rightarrow> 'p avl_loc \<Rightarrow> 'p avl_heap \<Rightarrow> 'p avl_loc outcome" where
  "avl_successor fuel loc h =
     (case fuel of 0 \<Rightarrow> Timeout
      | Suc k \<Rightarrow>
         (case rd loc h of None \<Rightarrow> Fault
          | Some s \<Rightarrow> if avl_right h s = None then Ret loc else avl_successor k (RightOf s) h))"

text \<open>
  _avl_delete(node, root, compare).  With *root null the code falls through to the comparison,
  which dereferences the null node: Fault.
\<close>

fun avl_delete :: "nat \<Rightarrow> ('p \<Rightarrow> 'p \<Rightarrow> int) \<Rightarrow> 'p \<Rightarrow> 'p avl_loc \<Rightarrow> 'p avl_heap
    \<Rightarrow> ('p avl_heap \<times> avl_res) outcome" where
  "avl_delete fuel compare node root h =
     (case fuel of 0 \<Rightarrow> Timeout
      | Suc k \<Rightarrow>
         (case rd root h of None \<Rightarrow> Fault
          | Some r \<Rightarrow>
              if node = r then
                (if avl_left h node = None \<and> avl_right h node = None then
                   Ret (wr root None h, AVL_BALANCE)
                 else if avl_left h node = None \<or> avl_right h node = None then
                   Ret (wr root (if avl_right h node \<noteq> None then avl_right h node
                                 else avl_left h node) h, AVL_BALANCE)
                 else
                   obind (avl_successor k (LeftOf node) h)
                     (\<lambda>succ. case rd succ h of None \<Rightarrow> Fault
                        | Some oldsucc \<Rightarrow>
                            obind (avl_swap root succ h)
                              (\<lambda>h1. obind (avl_delete k compare node (LeftOf oldsucc) h1)
                                (\<lambda>(h2, res). if res = AVL_BALANCE then avl_grownRight root h2
                                             else Ret (h2, AVL_OK)))))
              else if compare node r < 0 then
                obind (avl_delete k compare node (LeftOf r) h)
                  (\<lambda>(h1, res). if res = AVL_BALANCE then avl_grownRight root h1 else Ret (h1, AVL_OK))
              else if compare node r > 0 then
                obind (avl_delete k compare node (RightOf r) h)
                  (\<lambda>(h1, res). if res = AVL_BALANCE then avl_grownLeft root h1 else Ret (h1, AVL_OK))
              else Ret (h, AVL_OK)))"

declare avl_add.simps [simp del] avl_find_loop.simps [simp del] avl_traverse.simps [simp del]
  avl_successor.simps [simp del] avl_delete.simps [simp del]

end
