(* ===== verification/Avl_Tree.thy ===== *)
theory Avl_Tree
  imports Avl "HOL-Library.Tree"
begin

text \<open>
  What the pointer structure of lib/algo/avl.c stands for: a binary tree of nodes with their
  skews.  The specification is on trees: ordered (a search tree for the keys), balanced (every
  skew is the difference of the heights of the two subtrees), and insertion written as a
  function on trees.  Avl_Refine shows that the pointer code computes it.
\<close>

type_synonym 'p atree = "('p \<times> avl_skew) tree"

definition nodes :: "'p atree \<Rightarrow> 'p set" where
  "nodes t = fst ` set_tree t"

lemma nodes_simps [simp]:
  "nodes Leaf = {}"
  "nodes (Node l (x, s) r) = insert x (nodes l \<union> nodes r)"
  by (auto simp: nodes_def)

fun uniq :: "'p atree \<Rightarrow> bool" where
  "uniq Leaf = True"
| "uniq (Node l (x, s) r) \<longleftrightarrow>
     uniq l \<and> uniq r \<and> x \<notin> nodes l \<and> x \<notin> nodes r \<and> nodes l \<inter> nodes r = {}"

text \<open>The skew of a node says which subtree is higher, by exactly one.\<close>

fun balanced :: "'p atree \<Rightarrow> bool" where
  "balanced Leaf = True"
| "balanced (Node l (x, s) r) \<longleftrightarrow>
     (case s of AVL_NONE \<Rightarrow> height l = height r
              | AVL_LEFT \<Rightarrow> height l = Suc (height r)
              | AVL_RIGHT \<Rightarrow> height r = Suc (height l)) \<and> balanced l \<and> balanced r"

section \<open>Rebalancing and insertion on trees\<close>

text \<open>
  The tree after avl_grownLeft and avl_grownRight; AVL_ERROR stands for the shapes on which the
  code dereferences a null pointer.
\<close>

fun grown_left :: "'p atree \<Rightarrow> 'p atree \<times> avl_res" where
  "grown_left Leaf = (Leaf, AVL_ERROR)"
| "grown_left (Node l (n, AVL_NONE) r) = (Node l (n, AVL_LEFT) r, AVL_BALANCE)"
| "grown_left (Node l (n, AVL_RIGHT) r) = (Node l (n, AVL_NONE) r, AVL_OK)"
| "grown_left (Node l (n, AVL_LEFT) r) =
     (case l of
        Leaf \<Rightarrow> (Node l (n, AVL_LEFT) r, AVL_ERROR)
      | Node ll (x, sx) lr \<Rightarrow>
          if sx = AVL_LEFT then (Node ll (x, AVL_NONE) (Node lr (n, AVL_NONE) r), AVL_OK)
          else (case lr of
                  Leaf \<Rightarrow> (Node l (n, AVL_LEFT) r, AVL_ERROR)
                | Node a (y, sy) b \<Rightarrow>
                    (Node (Node ll (x, if sy = AVL_RIGHT then AVL_LEFT else AVL_NONE) a) (y, AVL_NONE)
                          (Node b (n, if sy = AVL_LEFT then AVL_RIGHT else AVL_NONE) r), AVL_OK)))"

fun grown_right :: "'p atree \<Rightarrow> 'p atree \<times> avl_res" where
  "grown_right Leaf = (Leaf, AVL_ERROR)"
| "grown_right (Node l (n, AVL_NONE) r) = (Node l (n, AVL_RIGHT) r, AVL_BALANCE)"
| "grown_right (Node l (n, AVL_LEFT) r) = (Node l (n, AVL_NONE) r, AVL_OK)"
| "grown_right (Node l (n, AVL_RIGHT) r) =
     (case r of
        Leaf \<Rightarrow> (Node l (n, AVL_RIGHT) r, AVL_ERROR)
      | Node rl (x, sx) rr \<Rightarrow>
          if sx = AVL_RIGHT then (Node (Node l (n, AVL_NONE) rl) (x, AVL_NONE) rr, AVL_OK)
          else (case rl of
                  Leaf \<Rightarrow> (Node l (n, AVL_RIGHT) r, AVL_ERROR)
                | Node a (y, sy) b \<Rightarrow>
                    (Node (Node l (n, if sy = AVL_RIGHT then AVL_LEFT else AVL_NONE) a) (y, AVL_NONE)
                          (Node b (x, if sy = AVL_LEFT then AVL_RIGHT else AVL_NONE) rr), AVL_OK)))"

fun tree_add :: "('p \<Rightarrow> 'p \<Rightarrow> int) \<Rightarrow> 'p \<Rightarrow> 'p atree \<Rightarrow> 'p atree \<times> avl_res" where
  "tree_add cmp x Leaf = (Node Leaf (x, AVL_NONE) Leaf, AVL_BALANCE)"
| "tree_add cmp x (Node l (n, s) r) =
     (if cmp x n < 0 then
        (case tree_add cmp x l of (l', res) \<Rightarrow>
           if res = AVL_BALANCE then grown_left (Node l' (n, s) r) else (Node l' (n, s) r, AVL_OK))
      else if cmp x n > 0 then
        (case tree_add cmp x r of (r', res) \<Rightarrow>
           if res = AVL_BALANCE then grown_right (Node l (n, s) r') else (Node l (n, s) r', AVL_OK))
      else (Node l (n, s) r, AVL_OK))"

lemma grown_left_inorder [simp]:
  "map fst (inorder (fst (grown_left t))) = map fst (inorder t)"
  by (cases t rule: grown_left.cases) (auto split: tree.splits)

lemma grown_right_inorder [simp]:
  "map fst (inorder (fst (grown_right t))) = map fst (inorder t)"
  by (cases t rule: grown_right.cases) (auto split: tree.splits)

lemma nodes_inorder: "nodes t = set (map fst (inorder t))"
  by (simp add: nodes_def)

lemma nodes_grown [simp]:
  "nodes (fst (grown_left t)) = nodes t" "nodes (fst (grown_right t)) = nodes t"
  by (simp_all only: nodes_inorder grown_left_inorder grown_right_inorder)

lemma uniq_inorder: "uniq t \<longleftrightarrow> distinct (map fst (inorder t))"
  by (induction t rule: uniq.induct) (auto simp: nodes_inorder)

lemma uniq_grown [simp]:
  "uniq (fst (grown_left t)) = uniq t" "uniq (fst (grown_right t)) = uniq t"
  by (simp_all only: uniq_inorder grown_left_inorder grown_right_inorder)

text \<open>
  The subtree l of Node l (n, s) r has just grown from height hl; s still describes the old
  heights.  A grown subtree of height above one leans to a side.  Rebalancing then restores the
  invariant, and AVL_BALANCE is returned exactly when the whole tree grew.
\<close>

definition leans :: "'p atree \<Rightarrow> bool" where
  "leans t \<longleftrightarrow> (case t of Leaf \<Rightarrow> False | Node l (x, s) r \<Rightarrow> s \<noteq> AVL_NONE \<or> height t = 1)"

definition grew :: "'p atree \<Rightarrow> avl_res \<Rightarrow> nat \<Rightarrow> bool" where
  "grew t res h0 \<longleftrightarrow> balanced t \<and> res \<noteq> AVL_ERROR \<and> t \<noteq> Leaf \<and>
     height t = (if res = AVL_BALANCE then Suc h0 else h0) \<and> (res = AVL_BALANCE \<longrightarrow> leans t)"

definition old_skew :: "avl_skew \<Rightarrow> nat \<Rightarrow> nat \<Rightarrow> bool" where
  "old_skew s hl hr \<longleftrightarrow>
     (case s of AVL_NONE \<Rightarrow> hl = hr | AVL_LEFT \<Rightarrow> hl = Suc hr | AVL_RIGHT \<Rightarrow> hr = Suc hl)"

lemma balanced_node:
  "balanced (Node l (x, s) r) \<longleftrightarrow> old_skew s (height l) (height r) \<and> balanced l \<and> balanced r"
  by (simp add: old_skew_def)

lemma grown_left_grew:
  assumes "balanced l" "balanced r" "height l = Suc hl" "leans l" "old_skew s hl (height r)"
    and "grown_left (Node l (n, s) r) = (t, res)"
  shows "grew t res (Suc (max hl (height r)))"
proof (cases s)
  case AVL_LEFT
  with assms(3,4,5) obtain ll x sx lr where
    l: "l = Node ll (x, sx) lr" "sx \<noteq> AVL_NONE" "height l = Suc (Suc (height r))"
    by (auto simp: leans_def old_skew_def split: tree.splits)
  show ?thesis
  proof (cases sx)
    case AVL_LEFT
    with l assms \<open>s = AVL_LEFT\<close> show ?thesis by (auto simp: grew_def old_skew_def)
  next
    case AVL_RIGHT
    with l assms(1) obtain a y sy b where lr: "lr = Node a (y, sy) b" by (cases lr) auto
    show ?thesis using l lr assms \<open>s = AVL_LEFT\<close> AVL_RIGHT
      by (cases sy) (auto simp: grew_def old_skew_def)
  qed (use l in simp)
qed (use assms in \<open>auto simp: grew_def old_skew_def leans_def\<close>)

lemma grown_right_grew:
  assumes "balanced l" "balanced r" "height r = Suc hr" "leans r" "old_skew s (height l) hr"
    and "grown_right (Node l (n, s) r) = (t, res)"
  shows "grew t res (Suc (max (height l) hr))"
proof (cases s)
  case AVL_RIGHT
  with assms(3,4,5) obtain rl x sx rr where
    r: "r = Node rl (x, sx) rr" "sx \<noteq> AVL_NONE" "height r = Suc (Suc (height l))"
    by (auto simp: leans_def old_skew_def split: tree.splits)
  show ?thesis
  proof (cases sx)
    case AVL_RIGHT
    with r assms \<open>s = AVL_RIGHT\<close> show ?thesis by (auto simp: grew_def old_skew_def)
  next
    case AVL_LEFT
    with r assms(2) obtain a y sy b where rl: "rl = Node a (y, sy) b" by (cases rl) auto
    show ?thesis using r rl assms \<open>s = AVL_RIGHT\<close> AVL_LEFT
      by (cases sy) (auto simp: grew_def old_skew_def)
  qed (use r in simp)
qed (use assms in \<open>auto simp: grew_def old_skew_def leans_def\<close>)

text \<open>A subtree that did not grow changes nothing for its parent.\<close>

lemma grew_same_left:
  "grew l' res (height l) \<Longrightarrow> res \<noteq> AVL_BALANCE \<Longrightarrow> balanced (Node l (n, s) r) \<Longrightarrow>
   grew (Node l' (n, s) r) AVL_OK (Suc (max (height l) (height r)))"
  by (cases s) (auto simp: grew_def)

lemma grew_same_right:
  "grew r' res (height r) \<Longrightarrow> res \<noteq> AVL_BALANCE \<Longrightarrow> balanced (Node l (n, s) r) \<Longrightarrow>
   grew (Node l (n, s) r') AVL_OK (Suc (max (height l) (height r)))"
  by (cases s) (auto simp: grew_def)

lemma tree_add_grew:
  "balanced t \<Longrightarrow> tree_add cmp x t = (t', res) \<Longrightarrow> grew t' res (height t)"
proof (induction t arbitrary: t' res rule: uniq.induct)
  case 1
  then show ?case by (auto simp: grew_def leans_def)
next
  case (2 l n s r)
  obtain l' rl where l': "tree_add cmp x l = (l', rl)" by fastforce
  obtain r' rr where r': "tree_add cmp x r = (r', rr)" by fastforce
  have b: "balanced l" "balanced r" "old_skew s (height l) (height r)"
    using "2.prems"(1) by (simp_all only: balanced_node)
  have L: "grew l' rl (height l)" and R: "grew r' rr (height r)"
    using 2 l' r' by auto
  consider "cmp x n < 0" | "cmp x n > 0" | "cmp x n = 0" by linarith
  then show ?case
  proof cases
    case 1
    then show ?thesis
      using 2(3,4) L l' b grown_left_grew [of l' r "height l" s n t' res] grew_same_left [OF L, of n s r]
      by (auto simp: grew_def split: if_splits)
  next
    case 2
    then show ?thesis
      using \<open>balanced (Node l (n, s) r)\<close> \<open>tree_add cmp x (Node l (n, s) r) = (t', res)\<close> R r' b
        grown_right_grew [of l r' "height r" s n t' res] grew_same_right [OF R, of l n s]
      by (auto simp: grew_def split: if_splits)
  next
    case 3
    then show ?thesis using 2(3,4) by (auto simp: grew_def)
  qed
qed

section \<open>Search trees\<close>

text \<open>
  The order of the nodes.  Every client compares nodes by some key through the sign of compare;
  the facts about insertion, search and deletion need only this.
\<close>

definition sorted_keys :: "('p \<Rightarrow> 'k::linorder) \<Rightarrow> 'p atree \<Rightarrow> bool" where
  "sorted_keys key t \<longleftrightarrow> sorted_wrt (<) (map key (map fst (inorder t)))"

locale ordered_nodes =
  fixes cmp :: "'p \<Rightarrow> 'p \<Rightarrow> int" and key :: "'p \<Rightarrow> 'k::linorder"
  assumes cmp_less: "cmp a b < 0 \<longleftrightarrow> key a < key b"
    and cmp_greater: "cmp a b > 0 \<longleftrightarrow> key b < key a"
begin

lemma sorted_keys_node:
  "sorted_keys key (Node l (x, s) r) \<longleftrightarrow> sorted_keys key l \<and> sorted_keys key r \<and>
     (\<forall>y \<in> nodes l. key y < key x) \<and> (\<forall>y \<in> nodes r. key x < key y)"
  by (fastforce simp: sorted_keys_def nodes_inorder sorted_wrt_append)

lemma sorted_keys_Leaf [simp]: "sorted_keys key Leaf"
  by (simp add: sorted_keys_def)

lemma sorted_keys_grown [simp]:
  "sorted_keys key (fst (grown_left t)) = sorted_keys key t"
  "sorted_keys key (fst (grown_right t)) = sorted_keys key t"
  by (simp_all only: sorted_keys_def grown_left_inorder grown_right_inorder)

lemma cmp_zero: "cmp a b = 0 \<longleftrightarrow> key a = key b"
  using cmp_less [of a b] cmp_greater [of a b] by (metis less_linear less_irrefl)

lemma sorted_keys_uniq: "sorted_keys key t \<Longrightarrow> uniq t"
  by (induction t rule: uniq.induct) (fastforce simp: sorted_keys_node)+

lemma tree_add_nodes:
  "sorted_keys key t \<Longrightarrow>
   nodes (fst (tree_add cmp x t)) = (if \<exists>y \<in> nodes t. key y = key x then nodes t else insert x (nodes t))"
proof (induction t rule: uniq.induct)
  case 1
  then show ?case by simp
next
  case (2 l n s r)
  then have s: "sorted_keys key l" "sorted_keys key r" "\<And>y. y \<in> nodes l \<Longrightarrow> key y < key n"
    "\<And>y. y \<in> nodes r \<Longrightarrow> key n < key y" by (auto simp: sorted_keys_node)
  consider "key x < key n" | "key n < key x" | "key x = key n" by fastforce
  then show ?case
  proof cases
    case 1
    have "\<And>y. y \<in> nodes r \<Longrightarrow> key y \<noteq> key x" using s(4) 1 by (metis less_asym)
    then have "(\<exists>y \<in> nodes (Node l (n, s) r). key y = key x) = (\<exists>y \<in> nodes l. key y = key x)"
      using 1 by auto
    moreover have "nodes (fst (tree_add cmp x (Node l (n, s) r))) =
        insert n (nodes (fst (tree_add cmp x l)) \<union> nodes r)"
      using 1 by (auto simp: cmp_less split: prod.splits)
    ultimately show ?thesis using "2.IH"(1) [OF s(1)] by auto
  next
    case 2
    have "\<And>y. y \<in> nodes l \<Longrightarrow> key y \<noteq> key x" using s(3) 2 by (metis less_asym)
    moreover have "\<not> cmp x n < 0" "cmp x n > 0" using 2 by (auto simp: cmp_less cmp_greater)
    ultimately have "(\<exists>y \<in> nodes (Node l (n, s) r). key y = key x) = (\<exists>y \<in> nodes r. key y = key x)"
      "nodes (fst (tree_add cmp x (Node l (n, s) r))) =
        insert n (nodes l \<union> nodes (fst (tree_add cmp x r)))"
      using 2 by (auto split: prod.splits)
    then show ?thesis using "2.IH"(2) [OF s(2)] by auto
  next
    case 3
    then show ?thesis using cmp_zero [of x n] by auto
  qed
qed

lemma tree_add_sorted: "sorted_keys key t \<Longrightarrow> sorted_keys key (fst (tree_add cmp x t))"
proof (induction t rule: uniq.induct)
  case 1
  then show ?case by (simp add: sorted_keys_def)
next
  case (2 l n s r)
  then have s: "sorted_keys key l" "sorted_keys key r" by (auto simp: sorted_keys_node)
  obtain l' rl where l': "tree_add cmp x l = (l', rl)" by fastforce
  obtain r' rr where r': "tree_add cmp x r = (r', rr)" by fastforce
  have L: "sorted_keys key l'" "nodes l' \<subseteq> insert x (nodes l)"
    using "2.IH"(1) [OF s(1)] tree_add_nodes [OF s(1), of x] l' by (auto split: if_splits)
  have R: "sorted_keys key r'" "nodes r' \<subseteq> insert x (nodes r)"
    using "2.IH"(2) [OF s(2)] tree_add_nodes [OF s(2), of x] r' by (auto split: if_splits)
  have "cmp x n < 0 \<Longrightarrow> sorted_keys key (Node l' (n, s) r)"
    using 2(3) L by (auto simp: sorted_keys_node cmp_less)
  moreover have "cmp x n > 0 \<Longrightarrow> sorted_keys key (Node l (n, s) r')"
    using 2(3) R by (auto simp: sorted_keys_node cmp_greater)
  ultimately show ?case using 2(3) l' r' by auto
qed

end

interpretation key_order: ordered_nodes "avl_make_compare key" key
  for key :: "'p \<Rightarrow> 'k::linorder"
  by unfold_locales (auto simp: avl_make_compare_def)

end
