(* ===== verification/Avl_Refine.thy ===== *)
theory Avl_Refine
  imports Avl_Tree
begin

text \<open>
  The pointer code of lib/algo/avl.c computes the functions of Avl_Tree.  tree_at h p t says
  that the structure hanging from the pointer p is the tree t; an operation called on a
  location changes only that location and the nodes of the tree below it (same_outside).
\<close>

section \<open>Trees in the heap\<close>

fun tree_at :: "'p avl_heap \<Rightarrow> 'p option \<Rightarrow> 'p atree \<Rightarrow> bool" where
  "tree_at h p Leaf \<longleftrightarrow> p = None"
| "tree_at h p (Node l (x, s) r) \<longleftrightarrow>
     p = Some x \<and> avl_skew h x = s \<and> tree_at h (avl_left h x) l \<and> tree_at h (avl_right h x) r"

fun external :: "'p avl_loc \<Rightarrow> 'p set \<Rightarrow> bool" where
  "external Root S = True"
| "external (LeftOf p) S \<longleftrightarrow> p \<notin> S"
| "external (RightOf p) S \<longleftrightarrow> p \<notin> S"

definition same_outside :: "'p avl_loc \<Rightarrow> 'p set \<Rightarrow> 'p avl_heap \<Rightarrow> 'p avl_heap \<Rightarrow> bool" where
  "same_outside loc S h h' \<longleftrightarrow>
     (loc \<noteq> Root \<longrightarrow> avl_root h' = avl_root h) \<and>
     (\<forall>p. p \<notin> S \<longrightarrow> (loc \<noteq> LeftOf p \<longrightarrow> avl_left h' p = avl_left h p) \<and>
                   (loc \<noteq> RightOf p \<longrightarrow> avl_right h' p = avl_right h p) \<and>
                   avl_skew h' p = avl_skew h p)"

lemma tree_at_cong:
  assumes "tree_at h p t"
    and "\<And>x. x \<in> nodes t \<Longrightarrow> avl_left h' x = avl_left h x \<and> avl_right h' x = avl_right h x \<and>
      avl_skew h' x = avl_skew h x"
  shows "tree_at h' p t"
  using assms by (induction t arbitrary: p rule: uniq.induct) auto

lemma tree_at_Leaf [simp]: "tree_at h None t \<longleftrightarrow> t = Leaf"
  by (cases t) auto

lemma tree_at_Some: "tree_at h (Some x) t \<longleftrightarrow>
  (\<exists>l r. t = Node l (x, avl_skew h x) r \<and> tree_at h (avl_left h x) l \<and> tree_at h (avl_right h x) r)"
  by (cases t rule: uniq.cases) auto

lemma same_outside_refl [simp]: "same_outside loc S h h"
  by (simp add: same_outside_def)

lemma tree_at_same_outside:
  "tree_at h p t \<Longrightarrow> same_outside loc S h h' \<Longrightarrow> nodes t \<inter> S = {} \<Longrightarrow> external loc (nodes t) \<Longrightarrow>
   tree_at h' p t"
  by (erule tree_at_cong) (cases loc; auto simp: same_outside_def disjoint_iff)

lemma same_outside_trans:
  "same_outside loc S h h1 \<Longrightarrow> same_outside loc S h1 h2 \<Longrightarrow> same_outside loc S h h2"
  by (auto simp: same_outside_def)

lemma same_outside_child:
  "same_outside (LeftOf n) S h h1 \<Longrightarrow> n \<in> T \<Longrightarrow> S \<subseteq> T \<Longrightarrow> same_outside loc T h h1"
  "same_outside (RightOf n) S h h1 \<Longrightarrow> n \<in> T \<Longrightarrow> S \<subseteq> T \<Longrightarrow> same_outside loc T h h1"
  by (auto simp: same_outside_def)

lemma rd_external:
  "same_outside loc' S h h' \<Longrightarrow> loc' \<noteq> loc \<Longrightarrow> external loc S \<Longrightarrow> rd loc h' = rd loc h"
  by (cases loc) (auto simp: same_outside_def)

section \<open>Rotations and rebalancing\<close>

lemma rd_wr [simp]: "rd loc (wr loc v h) = v"
  by (cases loc) auto

lemma wr_fields:
  "external loc S \<Longrightarrow> p \<in> S \<Longrightarrow> avl_left (wr loc v h) p = avl_left h p"
  "external loc S \<Longrightarrow> p \<in> S \<Longrightarrow> avl_right (wr loc v h) p = avl_right h p"
  "avl_skew (wr loc v h) = avl_skew h"
  by (cases loc; auto)+

lemma rd_set_skew [simp]: "rd loc (set_skew p s h) = rd loc h"
  by (cases loc) (simp_all add: set_skew_def)

lemma set_skew_fields [simp]:
  "avl_root (set_skew p s h) = avl_root h"
  "avl_left (set_skew p s h) = avl_left h"
  "avl_right (set_skew p s h) = avl_right h"
  "avl_skew (set_skew p s h) = (avl_skew h)(p := s)"
  by (simp_all add: set_skew_def)

lemma tree_at_set_skew [simp]: "n \<notin> nodes t \<Longrightarrow> tree_at (set_skew n s h) p t = tree_at h p t"
  by (induction t arbitrary: p rule: uniq.induct) auto

lemma tree_at_wr [simp]: "external loc (nodes t) \<Longrightarrow> tree_at (wr loc v h) p t = tree_at h p t"
  by (induction t arbitrary: p rule: uniq.induct) (cases loc; auto)+

lemma wr_eval:
  "avl_root (wr Root v h) = v" "avl_root (wr (LeftOf p) v h) = avl_root h"
  "avl_root (wr (RightOf p) v h) = avl_root h"
  "avl_left (wr Root v h) = avl_left h" "avl_left (wr (LeftOf p) v h) = (avl_left h)(p := v)"
  "avl_left (wr (RightOf p) v h) = avl_left h"
  "avl_right (wr Root v h) = avl_right h" "avl_right (wr (RightOf p) v h) = (avl_right h)(p := v)"
  "avl_right (wr (LeftOf p) v h) = avl_right h"
  "avl_skew (wr loc v h) = avl_skew h"
  by (auto simp: wr_fields(3))

lemma rotateRight_eq:
  assumes "rd loc h = Some n" "avl_left h n = Some l" "external loc {n, l}" "n \<noteq> l"
  shows "avl_rotateRight loc h =
    Ret (wr (RightOf l) (Some n) (wr (LeftOf n) (avl_right h l) (wr loc (Some l) h)))"
  using assms by (cases loc) (auto simp: avl_rotateRight_def Let_def)

lemma rotateLeft_eq:
  assumes "rd loc h = Some n" "avl_right h n = Some r" "external loc {n, r}" "n \<noteq> r"
  shows "avl_rotateLeft loc h =
    Ret (wr (LeftOf r) (Some n) (wr (RightOf n) (avl_left h r) (wr loc (Some r) h)))"
  using assms by (cases loc) (auto simp: avl_rotateLeft_def Let_def)

lemma grownLeft_refines:
  assumes t: "tree_at h (rd loc h) t" and u: "uniq t" and e: "external loc (nodes t)"
    and g: "grown_left t = (t', res)" and r: "res \<noteq> AVL_ERROR"
  shows "\<exists>h'. avl_grownLeft loc h = Ret (h', res) \<and> tree_at h' (rd loc h') t' \<and>
    same_outside loc (nodes t) h h'"
proof (cases t rule: grown_left.cases)
  case 1
  with g r show ?thesis by simp
next
  case (2 l n r)
  then show ?thesis using t u g
    by (intro exI [of _ "set_skew n AVL_LEFT h"])
      (auto simp: avl_grownLeft_def same_outside_def)
next
  case (3 l n r)
  then show ?thesis using t u g
    by (intro exI [of _ "set_skew n AVL_NONE h"])
      (auto simp: avl_grownLeft_def same_outside_def)
next
  case (4 l n rt)
  with g r obtain ll x sx lr where l: "l = Node ll (x, sx) lr" by (auto split: tree.splits)
  show ?thesis
  proof (cases "sx = AVL_LEFT")
    case True
    let ?h = "set_skew n AVL_NONE (set_skew x AVL_NONE h)"
    let ?h' = "wr (RightOf x) (Some n) (wr (LeftOf n) (avl_right h x) (wr loc (Some x) ?h))"
    have "avl_rotateRight loc ?h = Ret ?h'"
      using rotateRight_eq [of loc ?h n x] t u e 4 l by (cases loc) auto
    moreover have "tree_at ?h' (rd loc ?h') (Node ll (x, AVL_NONE) (Node lr (n, AVL_NONE) rt))"
      using t u e 4 l True by (cases loc) (auto simp del: wr.simps simp: wr_eval)
    moreover have "same_outside loc (nodes t) h ?h'"
      using 4 l by (cases loc) (auto simp: same_outside_def)
    ultimately show ?thesis using t u e 4 l True g
      by (auto simp: avl_grownLeft_def)
  next
    case False
    with g r 4 l obtain a y sy b where lr: "lr = Node a (y, sy) b" by (auto split: tree.splits)
    let ?sx = "if sy = AVL_RIGHT then AVL_LEFT else AVL_NONE"
    let ?sn = "if sy = AVL_LEFT then AVL_RIGHT else AVL_NONE"
    let ?h2 = "set_skew y AVL_NONE (set_skew x ?sx (set_skew n ?sn h))"
    let ?h3 = "wr (LeftOf y) (Some x) (wr (RightOf x) (avl_left h y) (wr (LeftOf n) (Some y) ?h2))"
    let ?h' = "wr (RightOf y) (Some n) (wr (LeftOf n) (avl_right h y) (wr loc (Some y) ?h3))"
    have "avl_rotateLeft (LeftOf n) ?h2 = Ret ?h3"
      using rotateLeft_eq [of "LeftOf n" ?h2 x y] t u 4 l lr by auto
    moreover have "avl_rotateRight loc ?h3 = Ret ?h'"
      using rotateRight_eq [of loc ?h3 n y] t u e 4 l lr by (cases loc) auto
    moreover have "tree_at ?h' (rd loc ?h')
        (Node (Node ll (x, ?sx) a) (y, AVL_NONE) (Node b (n, ?sn) rt))"
      using t u e 4 l lr by (cases loc) (auto simp del: wr.simps simp: wr_eval)
    moreover have "same_outside loc (nodes t) h ?h'"
      using 4 l lr by (cases loc) (auto simp: same_outside_def)
    ultimately show ?thesis using t u e 4 l lr False g
      by (cases sy) (auto simp: avl_grownLeft_def Let_def)
  qed
qed

lemma grownRight_refines:
  assumes t: "tree_at h (rd loc h) t" and u: "uniq t" and e: "external loc (nodes t)"
    and g: "grown_right t = (t', res)" and r: "res \<noteq> AVL_ERROR"
  shows "\<exists>h'. avl_grownRight loc h = Ret (h', res) \<and> tree_at h' (rd loc h') t' \<and>
    same_outside loc (nodes t) h h'"
proof (cases t rule: grown_right.cases)
  case 1
  with g r show ?thesis by simp
next
  case (2 l n r)
  then show ?thesis using t u g
    by (intro exI [of _ "set_skew n AVL_RIGHT h"])
      (auto simp: avl_grownRight_def same_outside_def)
next
  case (3 l n r)
  then show ?thesis using t u g
    by (intro exI [of _ "set_skew n AVL_NONE h"])
      (auto simp: avl_grownRight_def same_outside_def)
next
  case (4 lt n rt)
  with g r obtain rl x sx rr where rt: "rt = Node rl (x, sx) rr" by (auto split: tree.splits)
  show ?thesis
  proof (cases "sx = AVL_RIGHT")
    case True
    let ?h = "set_skew n AVL_NONE (set_skew x AVL_NONE h)"
    let ?h' = "wr (LeftOf x) (Some n) (wr (RightOf n) (avl_left h x) (wr loc (Some x) ?h))"
    have "avl_rotateLeft loc ?h = Ret ?h'"
      using rotateLeft_eq [of loc ?h n x] t u e 4 rt by (cases loc) auto
    moreover have "tree_at ?h' (rd loc ?h') (Node (Node lt (n, AVL_NONE) rl) (x, AVL_NONE) rr)"
      using t u e 4 rt True by (cases loc) (auto simp del: wr.simps simp: wr_eval)
    moreover have "same_outside loc (nodes t) h ?h'"
      using 4 rt by (cases loc) (auto simp: same_outside_def)
    ultimately show ?thesis using t u e 4 rt True g
      by (auto simp: avl_grownRight_def)
  next
    case False
    with g r 4 rt obtain a y sy b where rl: "rl = Node a (y, sy) b" by (auto split: tree.splits)
    let ?sn = "if sy = AVL_RIGHT then AVL_LEFT else AVL_NONE"
    let ?sx = "if sy = AVL_LEFT then AVL_RIGHT else AVL_NONE"
    let ?h2 = "set_skew y AVL_NONE (set_skew x ?sx (set_skew n ?sn h))"
    let ?h3 = "wr (RightOf y) (Some x) (wr (LeftOf x) (avl_right h y) (wr (RightOf n) (Some y) ?h2))"
    let ?h' = "wr (LeftOf y) (Some n) (wr (RightOf n) (avl_left h y) (wr loc (Some y) ?h3))"
    have "avl_rotateRight (RightOf n) ?h2 = Ret ?h3"
      using rotateRight_eq [of "RightOf n" ?h2 x y] t u 4 rt rl by auto
    moreover have "avl_rotateLeft loc ?h3 = Ret ?h'"
      using rotateLeft_eq [of loc ?h3 n y] t u e 4 rt rl by (cases loc) auto
    moreover have "tree_at ?h' (rd loc ?h')
        (Node (Node lt (n, ?sn) a) (y, AVL_NONE) (Node b (x, ?sx) rr))"
      using t u e 4 rt rl by (cases loc) (auto simp del: wr.simps simp: wr_eval)
    moreover have "same_outside loc (nodes t) h ?h'"
      using 4 rt rl by (cases loc) (auto simp: same_outside_def)
    ultimately show ?thesis using t u e 4 rt rl False g
      by (cases sy) (auto simp: avl_grownRight_def Let_def)
  qed
qed

section \<open>Insertion\<close>

lemma tree_add_nodes_subset: "nodes (fst (tree_add cmp x t)) \<subseteq> insert x (nodes t)"
  by (induction t rule: uniq.induct) (auto split: prod.splits)

lemma tree_add_uniq: "uniq t \<Longrightarrow> x \<notin> nodes t \<Longrightarrow> uniq (fst (tree_add cmp x t))"
proof (induction t rule: uniq.induct)
  case 1
  then show ?case by simp
next
  case (2 l n s r)
  then show ?case
    using tree_add_nodes_subset [of cmp x l] tree_add_nodes_subset [of cmp x r]
    by (fastforce split: prod.splits)
qed

text \<open>An operation on a child location, seen from the parent's location.\<close>

lemma parent_after_left:
  assumes "tree_at h (rd loc h) (Node l (n, s) r)" "uniq (Node l (n, s) r)"
    and "external loc (insert x (nodes (Node l (n, s) r)))" "x \<notin> nodes (Node l (n, s) r)"
    and "tree_at h1 (rd (LeftOf n) h1) l'" "same_outside (LeftOf n) (insert x (nodes l)) h h1"
  shows "tree_at h1 (rd loc h1) (Node l' (n, s) r)"
    "same_outside loc (insert x (nodes (Node l (n, s) r))) h h1"
proof -
  have "rd loc h1 = rd loc h"
    using assms by (intro rd_external [OF assms(6)]) (cases loc; auto)+
  moreover have "avl_skew h1 n = avl_skew h n" "avl_right h1 n = avl_right h n"
    using assms by (auto simp: same_outside_def)
  moreover have "tree_at h1 (avl_right h n) r"
    using assms by (intro tree_at_same_outside [OF _ assms(6)]) auto
  ultimately show "tree_at h1 (rd loc h1) (Node l' (n, s) r)" using assms by auto
  show "same_outside loc (insert x (nodes (Node l (n, s) r))) h h1"
    by (rule same_outside_child(1) [OF assms(6)]) auto
qed

lemma parent_after_right:
  assumes "tree_at h (rd loc h) (Node l (n, s) r)" "uniq (Node l (n, s) r)"
    and "external loc (insert x (nodes (Node l (n, s) r)))" "x \<notin> nodes (Node l (n, s) r)"
    and "tree_at h1 (rd (RightOf n) h1) r'" "same_outside (RightOf n) (insert x (nodes r)) h h1"
  shows "tree_at h1 (rd loc h1) (Node l (n, s) r')"
    "same_outside loc (insert x (nodes (Node l (n, s) r))) h h1"
proof -
  have "rd loc h1 = rd loc h"
    using assms by (intro rd_external [OF assms(6)]) (cases loc; auto)+
  moreover have "avl_skew h1 n = avl_skew h n" "avl_left h1 n = avl_left h n"
    using assms by (auto simp: same_outside_def)
  moreover have "tree_at h1 (avl_left h n) l"
    using assms by (intro tree_at_same_outside [OF _ assms(6)]) auto
  ultimately show "tree_at h1 (rd loc h1) (Node l (n, s) r')" using assms by auto
  show "same_outside loc (insert x (nodes (Node l (n, s) r))) h h1"
    by (rule same_outside_child(2) [OF assms(6)]) auto
qed

lemma same_outside_mono: "same_outside loc S h h' \<Longrightarrow> S \<subseteq> T \<Longrightarrow> same_outside loc T h h'"
  by (auto simp: same_outside_def)

lemma external_mono: "external loc T \<Longrightarrow> S \<subseteq> T \<Longrightarrow> external loc S"
  by (cases loc) auto

text \<open>A fresh node: the state null_avl_node leaves it in.\<close>

definition fresh :: "'p avl_heap \<Rightarrow> 'p \<Rightarrow> bool" where
  "fresh h x \<longleftrightarrow> avl_left h x = None \<and> avl_right h x = None \<and> avl_skew h x = AVL_NONE"

lemma fresh_same_outside: "fresh h x \<Longrightarrow> same_outside loc S h h' \<Longrightarrow> x \<notin> S \<Longrightarrow> external loc {x} \<Longrightarrow> fresh h' x"
  by (cases loc) (auto simp: fresh_def same_outside_def)

lemma avl_add_refines:
  assumes "tree_at h (rd loc h) t" "uniq t" "balanced t" "external loc (insert x (nodes t))"
    and "x \<notin> nodes t" "fresh h x" "height t < fuel" "tree_add cmp x t = (t', res)"
  shows "\<exists>h'. avl_add fuel cmp x loc h = Ret (h', res) \<and> tree_at h' (rd loc h') t' \<and>
    same_outside loc (insert x (nodes t)) h h'"
  using assms
proof (induction t arbitrary: fuel loc h t' res rule: uniq.induct)
  case 1
  then obtain k where k: "fuel = Suc k" by (cases fuel) auto
  let ?h' = "wr loc (Some x) h"
  have "tree_at ?h' (rd loc ?h') t'" "same_outside loc {x} h ?h'"
    using 1 by (cases loc; auto simp: fresh_def same_outside_def)+
  then show ?case using 1 k
    by (intro exI [of _ ?h']) (auto simp: avl_add.simps [of "Suc k"])
next
  case (2 l n s r)
  then obtain k where k: "fuel = Suc k" "height l < k" "height r < k" by (cases fuel) auto
  let ?t = "Node l (n, s) r"
  have rdn: "rd loc h = Some n" and tl: "tree_at h (rd (LeftOf n) h) l"
    and tr: "tree_at h (rd (RightOf n) h) r" using "2.prems"(1) by auto
  have bl: "balanced l" "balanced r" "old_skew s (height l) (height r)"
    using "2.prems"(3) by (simp_all only: balanced_node)
  have gr: "grew t' res (height ?t)" using "2.prems"(3,8) by (rule tree_add_grew)
  consider (lt) "cmp x n < 0" | (gt) "cmp x n > 0" | (eq) "cmp x n = 0" by linarith
  then show ?case
  proof cases
    case lt
    obtain l' rl where l': "tree_add cmp x l = (l', rl)" by fastforce
    from "2.IH"(1) [OF tl _ bl(1) _ _ \<open>fresh h x\<close> k(2) l'] "2.prems"
    obtain h1 where h1: "avl_add k cmp x (LeftOf n) h = Ret (h1, rl)"
      "tree_at h1 (rd (LeftOf n) h1) l'" "same_outside (LeftOf n) (insert x (nodes l)) h h1"
      by auto
    note p = parent_after_left [OF "2.prems"(1,2,4,5) h1(2,3)]
    show ?thesis
    proof (cases "rl = AVL_BALANCE")
      case False
      then show ?thesis using lt h1 p l' "2.prems"(8) rdn k by (auto simp: avl_add.simps [of "Suc k"])
    next
      case True
      have sub: "nodes l' \<subseteq> insert x (nodes l)" and u: "uniq l'"
        using tree_add_nodes_subset [of cmp x l] tree_add_uniq [of l x cmp] l' "2.prems" by auto
      then have "uniq (Node l' (n, s) r)" "external loc (nodes (Node l' (n, s) r))"
        using "2.prems" by (auto intro: external_mono)
      from grownLeft_refines [OF p(1) this, of t' res] lt True l' gr "2.prems"(8)
      obtain h2 where h2: "avl_grownLeft loc h1 = Ret (h2, res)" "tree_at h2 (rd loc h2) t'"
        "same_outside loc (nodes (Node l' (n, s) r)) h1 h2"
        by (auto simp: grew_def)
      have "same_outside loc (insert x (nodes ?t)) h h2"
        using same_outside_trans [OF p(2) same_outside_mono [OF h2(3)]] sub by auto
      then show ?thesis using lt True h1 h2 rdn k by (auto simp: avl_add.simps [of "Suc k"])
    qed
  next
    case gt
    obtain r' rr where r': "tree_add cmp x r = (r', rr)" by fastforce
    from "2.IH"(2) [OF tr _ bl(2) _ _ \<open>fresh h x\<close> k(3) r'] "2.prems"
    obtain h1 where h1: "avl_add k cmp x (RightOf n) h = Ret (h1, rr)"
      "tree_at h1 (rd (RightOf n) h1) r'" "same_outside (RightOf n) (insert x (nodes r)) h h1"
      by auto
    note p = parent_after_right [OF "2.prems"(1,2,4,5) h1(2,3)]
    show ?thesis
    proof (cases "rr = AVL_BALANCE")
      case False
      then show ?thesis using gt h1 p r' "2.prems"(8) rdn k by (auto simp: avl_add.simps [of "Suc k"])
    next
      case True
      have sub: "nodes r' \<subseteq> insert x (nodes r)" and u: "uniq r'"
        using tree_add_nodes_subset [of cmp x r] tree_add_uniq [of r x cmp] r' "2.prems" by auto
      then have "uniq (Node l (n, s) r')" "external loc (nodes (Node l (n, s) r'))"
        using "2.prems" by (auto intro: external_mono)
      from grownRight_refines [OF p(1) this, of t' res] gt True r' gr "2.prems"(8)
      obtain h2 where h2: "avl_grownRight loc h1 = Ret (h2, res)" "tree_at h2 (rd loc h2) t'"
        "same_outside loc (nodes (Node l (n, s) r')) h1 h2"
        by (auto simp: grew_def)
      have "same_outside loc (insert x (nodes ?t)) h h2"
        using same_outside_trans [OF p(2) same_outside_mono [OF h2(3)]] sub by auto
      then show ?thesis using gt True h1 h2 rdn k by (auto simp: avl_add.simps [of "Suc k"])
    qed
  next
    case eq
    then show ?thesis using "2.prems" rdn k by (auto simp: avl_add.simps [of "Suc k"])
  qed
qed

section \<open>Insertion of a node with any links\<close>

lemma grownLeft_returns:
  assumes "rd loc h = Some n" "external loc (insert n L)" "n \<notin> L"
    and "avl_skew h n = AVL_LEFT \<Longrightarrow> avl_left h n = Some l \<and> l \<in> L \<and>
      (avl_skew h l = AVL_LEFT \<or> (\<exists>y \<in> L. avl_right h l = Some y))"
  shows "\<exists>h' res. avl_grownLeft loc h = Ret (h', res) \<and> same_outside loc (insert n L) h h' \<and>
    (res = AVL_BALANCE \<longrightarrow> avl_skew h n = AVL_NONE \<and> h' = set_skew n AVL_LEFT h)"
proof (cases "avl_skew h n")
  case AVL_LEFT
  then have l: "avl_left h n = Some l" "l \<in> L" "n \<noteq> l" using assms(3,4) by auto
  show ?thesis
  proof (cases "avl_skew h l = AVL_LEFT")
    case True
    let ?h = "set_skew n AVL_NONE (set_skew l AVL_NONE h)"
    let ?h' = "wr (RightOf l) (Some n) (wr (LeftOf n) (avl_right h l) (wr loc (Some l) ?h))"
    have "external loc {n, l}" using assms(2) l(2) by (cases loc) auto
    then have "avl_rotateRight loc ?h = Ret ?h'" using rotateRight_eq [of loc ?h n l] assms(1) l by simp
    moreover have "same_outside loc (insert n L) h ?h'" using l(2) by (cases loc) (auto simp: same_outside_def)
    ultimately show ?thesis using assms(1) AVL_LEFT l True by (simp add: avl_grownLeft_def)
  next
    case False
    then obtain y where y: "avl_right h l = Some y" "y \<in> L" "y \<noteq> n" using assms(3,4) AVL_LEFT by auto
    have ret: "\<exists>h'. obind (avl_rotateLeft (LeftOf n) g) (\<lambda>h3. obind (avl_rotateRight loc h3) (\<lambda>h4. Ret (h4, AVL_OK))) =
        Ret (h', AVL_OK) \<and> same_outside loc (insert n L) h h'"
      if "g = set_skew y AVL_NONE (set_skew l sl (set_skew n sn h))" for g sl sn
      using that assms(1,2) l y unfolding avl_rotateLeft_def avl_rotateRight_def
      by (cases loc) (auto simp: Let_def same_outside_def)
    show ?thesis using AVL_LEFT l y False assms(1)
        ret [OF refl, of AVL_NONE AVL_RIGHT] ret [OF refl, of AVL_NONE AVL_NONE] ret [OF refl, of AVL_LEFT AVL_NONE]
      by (cases "avl_skew h y") (auto simp: avl_grownLeft_def Let_def)
  qed
qed (use assms(1) in \<open>auto simp: avl_grownLeft_def same_outside_def\<close>)

lemma grownRight_returns:
  assumes "rd loc h = Some n" "external loc (insert n L)" "n \<notin> L"
    and "avl_skew h n = AVL_RIGHT \<Longrightarrow> avl_right h n = Some l \<and> l \<in> L \<and>
      (avl_skew h l = AVL_RIGHT \<or> (\<exists>y \<in> L. avl_left h l = Some y))"
  shows "\<exists>h' res. avl_grownRight loc h = Ret (h', res) \<and> same_outside loc (insert n L) h h' \<and>
    (res = AVL_BALANCE \<longrightarrow> avl_skew h n = AVL_NONE \<and> h' = set_skew n AVL_RIGHT h)"
proof (cases "avl_skew h n")
  case AVL_RIGHT
  then have l: "avl_right h n = Some l" "l \<in> L" "n \<noteq> l" using assms(3,4) by auto
  show ?thesis
  proof (cases "avl_skew h l = AVL_RIGHT")
    case True
    let ?h = "set_skew n AVL_NONE (set_skew l AVL_NONE h)"
    let ?h' = "wr (LeftOf l) (Some n) (wr (RightOf n) (avl_left h l) (wr loc (Some l) ?h))"
    have "external loc {n, l}" using assms(2) l(2) by (cases loc) auto
    then have "avl_rotateLeft loc ?h = Ret ?h'" using rotateLeft_eq [of loc ?h n l] assms(1) l by simp
    moreover have "same_outside loc (insert n L) h ?h'" using l(2) by (cases loc) (auto simp: same_outside_def)
    ultimately show ?thesis using assms(1) AVL_RIGHT l True by (simp add: avl_grownRight_def)
  next
    case False
    then obtain y where y: "avl_left h l = Some y" "y \<in> L" "y \<noteq> n" using assms(3,4) AVL_RIGHT by auto
    have ret: "\<exists>h'. obind (avl_rotateRight (RightOf n) g) (\<lambda>h3. obind (avl_rotateLeft loc h3) (\<lambda>h4. Ret (h4, AVL_OK))) =
        Ret (h', AVL_OK) \<and> same_outside loc (insert n L) h h'"
      if "g = set_skew y AVL_NONE (set_skew l sl (set_skew n sn h))" for g sl sn
      using that assms(1,2) l y unfolding avl_rotateLeft_def avl_rotateRight_def
      by (cases loc) (auto simp: Let_def same_outside_def)
    show ?thesis using AVL_RIGHT l y False assms(1)
        ret [OF refl, of AVL_NONE AVL_LEFT] ret [OF refl, of AVL_NONE AVL_NONE] ret [OF refl, of AVL_RIGHT AVL_NONE]
      by (cases "avl_skew h y") (auto simp: avl_grownRight_def Let_def)
  qed
qed (use assms(1) in \<open>auto simp: avl_grownRight_def same_outside_def\<close>)

definition leaning_into :: "'p avl_heap \<Rightarrow> 'p \<Rightarrow> 'p set \<Rightarrow> bool" where
  "leaning_into h n S \<longleftrightarrow> avl_skew h n = AVL_LEFT \<and> (\<exists>y \<in> S. avl_left h n = Some y) \<or>
     avl_skew h n = AVL_RIGHT \<and> (\<exists>y \<in> S. avl_right h n = Some y)"

text \<open>Whatever the links of the new node hold, avl_add returns; it writes only to the tree and the node.\<close>

lemma avl_add_returns:
  assumes "tree_at h (rd loc h) t" "uniq t" "balanced t" "external loc (insert x (nodes t))"
    and "x \<notin> nodes t" "height t < fuel"
  shows "\<exists>h' res. avl_add fuel cmp x loc h = Ret (h', res) \<and> same_outside loc (insert x (nodes t)) h h' \<and>
    (res = AVL_BALANCE \<longrightarrow> (case t of Leaf \<Rightarrow> rd loc h' = Some x
       | Node l (n, s) r \<Rightarrow> rd loc h' = Some n \<and> leaning_into h' n (insert x (nodes l \<union> nodes r))))"
  using assms
proof (induction t arbitrary: fuel loc h rule: uniq.induct)
  case 1
  then obtain k where k: "fuel = Suc k" by (cases fuel) auto
  have "same_outside loc {x} h (wr loc (Some x) h)" by (cases loc) (auto simp: same_outside_def)
  then show ?case using 1 k by (simp add: avl_add.simps [of "Suc k"])
next
  case (2 l n s r)
  then obtain k where k: "fuel = Suc k" "height l < k" "height r < k" by (cases fuel) auto
  let ?S = "insert x (nodes l \<union> nodes r)"
  have rdn: "rd loc h = Some n" and sk: "avl_skew h n = s" and tl: "tree_at h (rd (LeftOf n) h) l"
    and tr: "tree_at h (rd (RightOf n) h) r" using "2.prems"(1) by auto
  have bl: "balanced l" "balanced r" "old_skew s (height l) (height r)"
    using "2.prems"(3) by (simp_all only: balanced_node)
  have S: "n \<notin> ?S" "external loc (insert n ?S)" "insert n ?S = insert x (nodes (Node l (n, s) r))"
    using "2.prems" by (cases loc; auto)+
  consider (lt) "cmp x n < 0" | (gt) "cmp x n > 0" | (eq) "cmp x n = 0" by linarith
  then show ?case
  proof cases
    case lt
    have "uniq l" "external (LeftOf n) (insert x (nodes l))" "x \<notin> nodes l" using "2.prems" by auto
    from "2.IH"(1) [OF tl this(1) bl(1) this(2,3) k(2)]
    obtain h1 rl where h1: "avl_add k cmp x (LeftOf n) h = Ret (h1, rl)"
      "same_outside (LeftOf n) (insert x (nodes l)) h h1"
      "rl = AVL_BALANCE \<Longrightarrow> (case l of Leaf \<Rightarrow> rd (LeftOf n) h1 = Some x
        | Node l' (n', s') r' \<Rightarrow> rd (LeftOf n) h1 = Some n' \<and> leaning_into h1 n' (insert x (nodes l' \<union> nodes r')))"
      by blast
    have o: "same_outside loc (insert n ?S) h h1" using same_outside_child(1) [OF h1(2), of "insert n ?S"] by auto
    have e: "rd loc h1 = Some n" "avl_skew h1 n = s"
      using rd_external [OF h1(2), of loc] S rdn sk h1(2) by (cases loc; auto simp: same_outside_def)+
    show ?thesis
    proof (cases "rl = AVL_BALANCE")
      case False
      then show ?thesis using lt h1 o rdn k S(3) by (auto simp: avl_add.simps [of "Suc k"])
    next
      case True
      have "\<exists>y \<in> ?S. avl_left h1 n = Some y" using h1(3) [OF True] by (cases l rule: uniq.cases) auto
      moreover have "s = AVL_LEFT \<Longrightarrow> l \<noteq> Leaf" using bl(3) by (auto simp: old_skew_def)
      then have "s = AVL_LEFT \<Longrightarrow> \<exists>y \<in> ?S. avl_left h1 n = Some y \<and>
          (avl_skew h1 y = AVL_LEFT \<or> (\<exists>z \<in> ?S. avl_right h1 y = Some z))"
        using h1(3) [OF True] by (cases l rule: uniq.cases) (auto simp: leaning_into_def)
      ultimately obtain y where y: "avl_left h1 n = Some y" "y \<in> ?S"
        "s = AVL_LEFT \<Longrightarrow> avl_skew h1 y = AVL_LEFT \<or> (\<exists>z \<in> ?S. avl_right h1 y = Some z)" by auto
      from grownLeft_returns [OF e(1) S(2,1), of y] y e(2) obtain h2 res where
        h2: "avl_grownLeft loc h1 = Ret (h2, res)" "same_outside loc (insert n ?S) h1 h2"
        "res = AVL_BALANCE \<Longrightarrow> s = AVL_NONE \<and> h2 = set_skew n AVL_LEFT h1" by blast
      have "avl_add fuel cmp x loc h = Ret (h2, res)" using lt True h1(1) h2(1) rdn k by (simp add: avl_add.simps [of "Suc k"])
      moreover have "same_outside loc (insert n ?S) h h2" using o h2(2) by (rule same_outside_trans)
      moreover have "res = AVL_BALANCE \<Longrightarrow> rd loc h2 = Some n \<and> leaning_into h2 n ?S"
        using h2(3) e y(1,2) by (auto simp: leaning_into_def)
      ultimately show ?thesis unfolding S(3) by auto
    qed
  next
    case gt
    have "uniq r" "external (RightOf n) (insert x (nodes r))" "x \<notin> nodes r" using "2.prems" by auto
    from "2.IH"(2) [OF tr this(1) bl(2) this(2,3) k(3)]
    obtain h1 rl where h1: "avl_add k cmp x (RightOf n) h = Ret (h1, rl)"
      "same_outside (RightOf n) (insert x (nodes r)) h h1"
      "rl = AVL_BALANCE \<Longrightarrow> (case r of Leaf \<Rightarrow> rd (RightOf n) h1 = Some x
        | Node l' (n', s') r' \<Rightarrow> rd (RightOf n) h1 = Some n' \<and> leaning_into h1 n' (insert x (nodes l' \<union> nodes r')))"
      by blast
    have o: "same_outside loc (insert n ?S) h h1" using same_outside_child(2) [OF h1(2), of "insert n ?S"] by auto
    have e: "rd loc h1 = Some n" "avl_skew h1 n = s"
      using rd_external [OF h1(2), of loc] S rdn sk h1(2) by (cases loc; auto simp: same_outside_def)+
    show ?thesis
    proof (cases "rl = AVL_BALANCE")
      case False
      then show ?thesis using gt h1 o rdn k S(3) by (auto simp: avl_add.simps [of "Suc k"])
    next
      case True
      have "\<exists>y \<in> ?S. avl_right h1 n = Some y" using h1(3) [OF True] by (cases r rule: uniq.cases) auto
      moreover have "s = AVL_RIGHT \<Longrightarrow> r \<noteq> Leaf" using bl(3) by (auto simp: old_skew_def)
      then have "s = AVL_RIGHT \<Longrightarrow> \<exists>y \<in> ?S. avl_right h1 n = Some y \<and>
          (avl_skew h1 y = AVL_RIGHT \<or> (\<exists>z \<in> ?S. avl_left h1 y = Some z))"
        using h1(3) [OF True] by (cases r rule: uniq.cases) (auto simp: leaning_into_def)
      ultimately obtain y where y: "avl_right h1 n = Some y" "y \<in> ?S"
        "s = AVL_RIGHT \<Longrightarrow> avl_skew h1 y = AVL_RIGHT \<or> (\<exists>z \<in> ?S. avl_left h1 y = Some z)" by auto
      from grownRight_returns [OF e(1) S(2,1), of y] y e(2) obtain h2 res where
        h2: "avl_grownRight loc h1 = Ret (h2, res)" "same_outside loc (insert n ?S) h1 h2"
        "res = AVL_BALANCE \<Longrightarrow> s = AVL_NONE \<and> h2 = set_skew n AVL_RIGHT h1" by blast
      have "avl_add fuel cmp x loc h = Ret (h2, res)" using gt True h1(1) h2(1) rdn k by (simp add: avl_add.simps [of "Suc k"])
      moreover have "same_outside loc (insert n ?S) h h2" using o h2(2) by (rule same_outside_trans)
      moreover have "res = AVL_BALANCE \<Longrightarrow> rd loc h2 = Some n \<and> leaning_into h2 n ?S"
        using h2(3) e y(1,2) by (auto simp: leaning_into_def)
      ultimately show ?thesis unfolding S(3) by auto
    qed
  next
    case eq
    then show ?thesis using "2.prems" rdn k by (auto simp: avl_add.simps [of "Suc k"])
  qed
qed

end
