(* ===== verification/Avl_Search.thy ===== *)
theory Avl_Search
  imports Avl_Refine
begin

text \<open>
  Search, traversal and deletion of lib/algo/avl.c on the trees the heap represents.  Deletion
  is correct on some trees only: deletable singles out the nodes it can remove, and
  delete_faults shows what happens to the others.
\<close>

section \<open>Search\<close>

fun tree_find :: "('k \<Rightarrow> 'p \<Rightarrow> int) \<Rightarrow> 'k \<Rightarrow> 'p atree \<Rightarrow> 'p option" where
  "tree_find mtch k Leaf = None"
| "tree_find mtch k (Node l (n, s) r) =
     (if mtch k n = 0 then Some n else if mtch k n < 0 then tree_find mtch k l else tree_find mtch k r)"

lemma avl_find_loop_refines:
  "tree_at h p t \<Longrightarrow> height t \<le> fuel \<Longrightarrow>
   \<exists>q. avl_find_loop fuel mtch k p par h = Ret (tree_find mtch k t, q)"
proof (induction t arbitrary: p par fuel rule: uniq.induct)
  case 1
  then show ?case by (simp add: avl_find_loop.simps)
next
  case (2 l n s r)
  then obtain f where f: "fuel = Suc f" "height l \<le> f" "height r \<le> f" by (cases fuel) auto
  then show ?case
    using 2 "2.IH"(1) [of "avl_left h n" f "Some n"] "2.IH"(2) [of "avl_right h n" f "Some n"]
    by (subst avl_find_loop.simps) (auto simp: Let_def)
qed

lemma avl_find_refines:
  "tree_at h (avl_root h) t \<Longrightarrow> height t \<le> fuel \<Longrightarrow> avl_find fuel mtch k h = Ret (tree_find mtch k t)"
  using avl_find_loop_refines [of h "avl_root h" t fuel mtch k None] by (auto simp: avl_find_def)

text \<open>
  A match function may match a range of keys (the page-fault handler and the pools search by
  containing address); it agrees with the order of the nodes when a key below one node is below
  every higher node, and a key above one node is above every lower node.
\<close>

definition match_mono :: "('p \<Rightarrow> 'k::linorder) \<Rightarrow> ('k2 \<Rightarrow> 'p \<Rightarrow> int) \<Rightarrow> 'k2 \<Rightarrow> 'p set \<Rightarrow> bool" where
  "match_mono key mtch k S \<longleftrightarrow> (\<forall>a \<in> S. \<forall>b \<in> S. key a < key b \<longrightarrow>
     (mtch k a < 0 \<longrightarrow> mtch k b < 0) \<and> (mtch k b > 0 \<longrightarrow> mtch k a > 0))"

context ordered_nodes
begin

lemma tree_find_Some: "tree_find mtch k t = Some n \<Longrightarrow> n \<in> nodes t \<and> mtch k n = 0"
  by (induction t rule: uniq.induct) (auto split: if_splits)

lemma tree_find_None:
  "sorted_keys key t \<Longrightarrow> match_mono key mtch k (nodes t) \<Longrightarrow> tree_find mtch k t = None \<Longrightarrow>
   n \<in> nodes t \<Longrightarrow> mtch k n \<noteq> 0"
proof (induction t rule: uniq.induct)
  case 1
  then show ?case by simp
next
  case (2 l m s r)
  have M: "\<And>a b. a \<in> nodes (Node l (m, s) r) \<Longrightarrow> b \<in> nodes (Node l (m, s) r) \<Longrightarrow> key a < key b \<Longrightarrow>
     (mtch k a < 0 \<longrightarrow> mtch k b < 0) \<and> (mtch k b > 0 \<longrightarrow> mtch k a > 0)"
    using "2.prems"(2) unfolding match_mono_def by blast
  have ml: "match_mono key mtch k (nodes l)" "match_mono key mtch k (nodes r)"
    using "2.prems"(2) by (auto simp: match_mono_def)
  have s: "sorted_keys key l" "sorted_keys key r" "\<And>y. y \<in> nodes l \<Longrightarrow> key y < key m"
    "\<And>y. y \<in> nodes r \<Longrightarrow> key m < key y" using "2.prems"(1) by (auto simp: sorted_keys_node)
  have nz: "mtch k m \<noteq> 0" using "2.prems"(3) by auto
  from "2.prems"(4) consider "n = m" | "n \<in> nodes l" | "n \<in> nodes r" by auto
  then show ?case
  proof cases
    case 1
    with nz show ?thesis by simp
  next
    case 2
    show ?thesis
    proof (cases "mtch k m < 0")
      case True
      then show ?thesis using "2.IH"(1) s(1) ml(1) "2.prems"(3) nz 2 by simp
    next
      case False
      then have "mtch k n > 0" using M [of n m] 2 s(3) nz by fastforce
      then show ?thesis by simp
    qed
  next
    case 3
    show ?thesis
    proof (cases "mtch k m < 0")
      case True
      then have "mtch k n < 0" using M [of m n] 3 s(4) by auto
      then show ?thesis by simp
    next
      case False
      then show ?thesis using "2.IH"(2) s(2) ml(2) "2.prems"(3) nz 3 by simp
    qed
  qed
qed

lemma avl_find_found:
  assumes "tree_at h (avl_root h) t" "height t \<le> fuel" "sorted_keys key t" "match_mono key mtch k (nodes t)"
  shows "\<exists>r. avl_find fuel mtch k h = Ret r \<and>
    (case r of Some n \<Rightarrow> n \<in> nodes t \<and> mtch k n = 0 | None \<Rightarrow> \<forall>n \<in> nodes t. mtch k n \<noteq> 0)"
  using avl_find_refines [OF assms(1,2), of mtch k] tree_find_Some [of mtch k t]
    tree_find_None [OF assms(3,4)]
  by (auto split: option.splits)

end

lemma height_card: "uniq t \<Longrightarrow> finite (nodes t) \<and> height t \<le> card (nodes t)"
proof (induction t rule: uniq.induct)
  case (2 l n s r)
  then have "card (nodes (Node l (n, s) r)) = Suc (card (nodes l) + card (nodes r))"
    by (simp add: card_Un_disjoint)
  then show ?case using 2 by simp
qed simp

lemma tree_at_null: "tree_at h p t \<Longrightarrow> x \<notin> nodes t \<Longrightarrow> tree_at (null_avl_node x h) p t"
  by (erule tree_at_cong) (auto simp: null_avl_node_def set_skew_def)

section \<open>Traversal\<close>

lemma avl_traverse_postorder:
  "tree_at h p t \<Longrightarrow> height t \<le> fuel \<Longrightarrow> avl_traverse fuel p h = Ret (map fst (postorder t))"
proof (induction t arbitrary: p fuel rule: uniq.induct)
  case 1
  then show ?case by (simp add: avl_traverse.simps)
next
  case (2 l n s r)
  then obtain f where f: "fuel = Suc f" "height l \<le> f" "height r \<le> f" by (cases fuel) auto
  then show ?case
    using 2 by (subst avl_traverse.simps) auto
qed

section \<open>Deletion\<close>

text \<open>
  The tree after _avl_delete where the code gets there; AVL_ERROR marks the nodes it cannot
  delete: those with two children whose left child has a right child.
\<close>

fun tree_del :: "('p \<Rightarrow> 'p \<Rightarrow> int) \<Rightarrow> 'p \<Rightarrow> 'p atree \<Rightarrow> 'p atree \<times> avl_res" where
  "tree_del cmp x Leaf = (Leaf, AVL_ERROR)"
| "tree_del cmp x (Node l (n, s) r) =
     (if x = n then
        (if l = Leaf \<and> r = Leaf then (Leaf, AVL_BALANCE)
         else if l = Leaf \<or> r = Leaf then (if r \<noteq> Leaf then r else l, AVL_BALANCE)
         else (case l of
                 Node ll (p, sp) Leaf \<Rightarrow> grown_right (Node ll (p, sp) r)
               | _ \<Rightarrow> (Node l (n, s) r, AVL_ERROR)))
      else if cmp x n < 0 then
        (case tree_del cmp x l of (l', res) \<Rightarrow>
           if res = AVL_ERROR then (Node l (n, s) r, AVL_ERROR)
           else if res = AVL_BALANCE then grown_right (Node l' (n, s) r)
           else (Node l' (n, s) r, AVL_OK))
      else if cmp x n > 0 then
        (case tree_del cmp x r of (r', res) \<Rightarrow>
           if res = AVL_ERROR then (Node l (n, s) r, AVL_ERROR)
           else if res = AVL_BALANCE then grown_left (Node l (n, s) r')
           else (Node l (n, s) r', AVL_OK))
      else (Node l (n, s) r, AVL_OK))"

text \<open>The node x of the tree has at most one child, or its left child has no right child.\<close>

fun deletable :: "'p \<Rightarrow> 'p atree \<Rightarrow> bool" where
  "deletable x Leaf = True"
| "deletable x (Node l (n, s) r) =
     (if x = n then l = Leaf \<or> r = Leaf \<or> (\<exists>ll p. l = Node ll p Leaf)
      else deletable x l \<and> deletable x r)"

lemma grown_right_ok:
  "balanced r \<Longrightarrow> (s = AVL_RIGHT \<Longrightarrow> 2 \<le> height r) \<Longrightarrow>
   snd (grown_right (Node l (n, s) r)) \<noteq> AVL_ERROR"
  by (cases s; cases r rule: balanced.cases) (auto split: tree.splits avl_skew.splits)

lemma grown_left_ok:
  "balanced l \<Longrightarrow> (s = AVL_LEFT \<Longrightarrow> 2 \<le> height l) \<Longrightarrow>
   snd (grown_left (Node l (n, s) r)) \<noteq> AVL_ERROR"
  by (cases s; cases l rule: balanced.cases) (auto split: tree.splits avl_skew.splits)

lemma height_pos: "x \<in> nodes t \<Longrightarrow> 1 \<le> height t"
  by (cases t rule: uniq.cases) auto

lemma tree_del_nodes_subset: "nodes (fst (tree_del cmp x t)) \<subseteq> nodes t"
proof (induction t rule: uniq.induct)
  case 1
  then show ?case by simp
next
  case (2 l n s r)
  obtain l' rl where l': "tree_del cmp x l = (l', rl)" by fastforce
  obtain r' rr where r': "tree_del cmp x r = (r', rr)" by fastforce
  show ?case using 2 l' r' by (auto split: tree.splits)
qed

lemma tree_del_uniq: "uniq t \<Longrightarrow> uniq (fst (tree_del cmp x t))"
proof (induction t rule: uniq.induct)
  case 1
  then show ?case by simp
next
  case (2 l n s r)
  obtain l' rl where l': "tree_del cmp x l = (l', rl)" by fastforce
  obtain r' rr where r': "tree_del cmp x r = (r', rr)" by fastforce
  have "uniq l'" "nodes l' \<subseteq> nodes l"
    using 2 l' tree_del_nodes_subset [of cmp x l] by auto
  then have L: "uniq (Node l' (n, s) r)" using "2.prems" by auto
  have "uniq r'" "nodes r' \<subseteq> nodes r"
    using 2 r' tree_del_nodes_subset [of cmp x r] by auto
  then have R: "uniq (Node l (n, s) r')" using "2.prems" by auto
  show ?case
  proof (cases "x = n")
    case True
    then show ?thesis using "2.prems" by (cases l rule: uniq.cases) (auto split: tree.splits)
  next
    case False
    then show ?thesis using L R "2.prems" l' r' by (simp del: uniq.simps(2))
  qed
qed

context ordered_nodes
begin

lemma tree_del_correct:
  "balanced t \<Longrightarrow> sorted_keys key t \<Longrightarrow> x \<in> nodes t \<Longrightarrow> deletable x t \<Longrightarrow>
   snd (tree_del cmp x t) \<noteq> AVL_ERROR \<and>
   map fst (inorder (fst (tree_del cmp x t))) = remove1 x (map fst (inorder t))"
proof (induction t rule: uniq.induct)
  case 1
  then show ?case by simp
next
  case (2 l n s r)
  have b: "balanced l" "balanced r" "old_skew s (height l) (height r)"
    using "2.prems"(1) by (simp_all only: balanced_node)
  have s: "sorted_keys key l" "sorted_keys key r" "\<And>y. y \<in> nodes l \<Longrightarrow> key y < key n"
    "\<And>y. y \<in> nodes r \<Longrightarrow> key n < key y" using "2.prems"(2) by (auto simp: sorted_keys_node)
  from "2.prems"(3) consider (here) "x = n" | (l) "x \<in> nodes l" "x \<noteq> n" | (r) "x \<in> nodes r" "x \<noteq> n"
    by auto
  then show ?case
  proof cases
    case here
    have "n \<notin> nodes l" using s(3) by auto
    then have rem: "remove1 x (map fst (inorder (Node l (n, s) r))) =
        map fst (inorder l) @ map fst (inorder r)"
      using here by (simp add: nodes_inorder remove1_append)
    show ?thesis
    proof (cases "l = Leaf \<or> r = Leaf")
      case True
      then show ?thesis using here rem by auto
    next
      case False
      with "2.prems"(4) here obtain ll p sp where l: "l = Node ll (p, sp) Leaf" by auto
      with b(1) have "sp \<noteq> AVL_RIGHT" by auto
      then have "snd (grown_right (Node ll (p, sp) r)) \<noteq> AVL_ERROR" by (cases sp) auto
      then show ?thesis using here rem l False by simp
    qed
  next
    case l
    obtain l' rl where l': "tree_del cmp x l = (l', rl)" by fastforce
    have lt: "cmp x n < 0" using s(3) l by (simp add: cmp_less)
    have IH: "rl \<noteq> AVL_ERROR" "map fst (inorder l') = remove1 x (map fst (inorder l))"
      using "2.IH"(1) [OF b(1) s(1) l(1)] "2.prems"(4) l(2) l' by auto
    have g: "snd (grown_right (Node l' (n, s) r)) \<noteq> AVL_ERROR"
      using height_pos [OF l(1)] b by (intro grown_right_ok) (auto simp: old_skew_def)
    have rem: "remove1 x (map fst (inorder (Node l (n, s) r))) =
        map fst (inorder (Node l' (n, s) r))"
      using l IH(2) by (simp add: remove1_append nodes_inorder)
    show ?thesis using lt l IH(1) l' g unfolding rem by auto
  next
    case r
    obtain r' rr where r': "tree_del cmp x r = (r', rr)" by fastforce
    have gt: "cmp x n > 0" using s(4) r by (simp add: cmp_greater)
    have IH: "rr \<noteq> AVL_ERROR" "map fst (inorder r') = remove1 x (map fst (inorder r))"
      using "2.IH"(2) [OF b(2) s(2) r(1)] "2.prems"(4) r(2) r' by auto
    have g: "snd (grown_left (Node l (n, s) r')) \<noteq> AVL_ERROR"
      using height_pos [OF r(1)] b by (intro grown_left_ok) (auto simp: old_skew_def)
    have "x \<notin> nodes l" using s(3) [of x] s(4) [of x] r by (meson less_asym)
    then have rem: "remove1 x (map fst (inorder (Node l (n, s) r))) =
        map fst (inorder (Node l (n, s) r'))"
      using r IH(2) by (simp add: remove1_append nodes_inorder)
    show ?thesis using gt r IH(1) r' g unfolding rem by auto
  qed
qed

end

section \<open>Deletion in the heap\<close>

text \<open>
  parent_after_left and parent_after_right with no new node: the sets are those of the tree.
\<close>

lemma del_parent_left:
  assumes "tree_at h (rd loc h) (Node l (n, s) r)" "uniq (Node l (n, s) r)"
    and "external loc (nodes (Node l (n, s) r))"
    and "tree_at h1 (rd (LeftOf n) h1) l'" "same_outside (LeftOf n) (nodes l) h h1"
  shows "tree_at h1 (rd loc h1) (Node l' (n, s) r)"
    "same_outside loc (nodes (Node l (n, s) r)) h h1"
proof -
  have "rd loc h1 = rd loc h"
    using assms by (intro rd_external [OF assms(5)]) (cases loc; auto)+
  moreover have "avl_skew h1 n = avl_skew h n" "avl_right h1 n = avl_right h n"
    using assms by (auto simp: same_outside_def)
  moreover have "tree_at h1 (avl_right h n) r"
    using assms by (intro tree_at_same_outside [OF _ assms(5)]) auto
  ultimately show "tree_at h1 (rd loc h1) (Node l' (n, s) r)" using assms by auto
  show "same_outside loc (nodes (Node l (n, s) r)) h h1"
    by (rule same_outside_child(1) [OF assms(5)]) auto
qed

lemma del_parent_right:
  assumes "tree_at h (rd loc h) (Node l (n, s) r)" "uniq (Node l (n, s) r)"
    and "external loc (nodes (Node l (n, s) r))"
    and "tree_at h1 (rd (RightOf n) h1) r'" "same_outside (RightOf n) (nodes r) h h1"
  shows "tree_at h1 (rd loc h1) (Node l (n, s) r')"
    "same_outside loc (nodes (Node l (n, s) r)) h h1"
proof -
  have "rd loc h1 = rd loc h"
    using assms by (intro rd_external [OF assms(5)]) (cases loc; auto)+
  moreover have "avl_skew h1 n = avl_skew h n" "avl_left h1 n = avl_left h n"
    using assms by (auto simp: same_outside_def)
  moreover have "tree_at h1 (avl_left h n) l"
    using assms by (intro tree_at_same_outside [OF _ assms(5)]) auto
  ultimately show "tree_at h1 (rd loc h1) (Node l (n, s) r')" using assms by auto
  show "same_outside loc (nodes (Node l (n, s) r)) h h1"
    by (rule same_outside_child(2) [OF assms(5)]) auto
qed

lemma avl_delete_leafy:
  assumes t: "tree_at h (rd loc h) (Node l (x, s) r)" "uniq (Node l (x, s) r)"
    and e: "external loc (nodes (Node l (x, s) r))" and c: "l = Leaf \<or> r = Leaf"
  shows "\<exists>h'. avl_delete (Suc k) cmp x loc h = Ret (h', AVL_BALANCE) \<and>
    tree_at h' (rd loc h') (if r \<noteq> Leaf then r else l) \<and> same_outside loc (nodes (Node l (x, s) r)) h h'"
proof -
  have n: "(avl_left h x = None) = (l = Leaf)" "(avl_right h x = None) = (r = Leaf)"
    using t by (cases l; cases r; auto)+
  let ?c = "if r \<noteq> Leaf then avl_right h x else avl_left h x"
  have "avl_delete (Suc k) cmp x loc h = Ret (wr loc ?c h, AVL_BALANCE)"
    using t c n by (subst avl_delete.simps) (cases "l = Leaf"; cases "r = Leaf"; simp)
  moreover have "tree_at (wr loc ?c h) ?c (if r \<noteq> Leaf then r else l)"
    using t e by (cases loc) (auto simp del: wr.simps simp: wr_eval)
  moreover have "same_outside loc (nodes (Node l (x, s) r)) h (wr loc ?c h)"
    by (cases loc) (auto simp: same_outside_def)
  ultimately show ?thesis by auto
qed

lemma avl_swap_adjacent:
  assumes "rd loc h = Some x" "avl_left h x = Some p" "avl_right h x \<noteq> Some p"
    and "external loc {x, p}" "x \<noteq> p"
  shows "avl_swap loc (LeftOf x) h = Ret (wr loc (Some p) (wr (RightOf x) (avl_right h p)
    (wr (LeftOf x) (avl_left h p) (wr (RightOf p) (avl_right h x) (wr (LeftOf p) (Some x) h)))))"
  using assms by (cases loc) (auto simp: avl_swap_def Let_def)

lemma avl_delete_adjacent:
  assumes t: "tree_at h (rd loc h) (Node (Node ll (p, sp) Leaf) (x, s) r)"
    and u: "uniq (Node (Node ll (p, sp) Leaf) (x, s) r)"
    and e: "external loc (nodes (Node (Node ll (p, sp) Leaf) (x, s) r))" and r: "r \<noteq> Leaf"
    and g: "grown_right (Node ll (p, sp) r) = (t', res)" "res \<noteq> AVL_ERROR" and k: "0 < k"
  shows "\<exists>h'. avl_delete (Suc k) cmp x loc h = Ret (h', res) \<and> tree_at h' (rd loc h') t' \<and>
    same_outside loc (nodes (Node (Node ll (p, sp) Leaf) (x, s) r)) h h'"
proof -
  let ?S = "nodes (Node (Node ll (p, sp) Leaf) (x, s) r)"
  obtain j where j: "k = Suc j" using k by (cases k) auto
  have ptr: "rd loc h = Some x" "avl_left h x = Some p" "avl_right h p = None"
    "tree_at h (avl_left h p) ll" "tree_at h (avl_right h x) r" "avl_skew h p = sp" "x \<noteq> p"
    using t u by auto
  then obtain q where q: "avl_right h x = Some q" "q \<in> nodes r"
    using r by (cases r rule: uniq.cases) auto
  let ?h1 = "wr loc (Some p) (wr (RightOf x) (avl_right h p)
    (wr (LeftOf x) (avl_left h p) (wr (RightOf p) (avl_right h x) (wr (LeftOf p) (Some x) h))))"
  have sw: "avl_swap loc (LeftOf x) h = Ret ?h1"
    using ptr q u e by (intro avl_swap_adjacent) (auto intro: external_mono)
  have suc: "avl_successor k (LeftOf x) h = Ret (LeftOf x)"
    using ptr j by (simp add: avl_successor.simps)
  have t1: "tree_at ?h1 (rd (LeftOf p) ?h1) (Node ll (x, avl_skew h x) Leaf)"
    using ptr u e by (cases loc) (auto simp del: wr.simps simp: wr_eval)
  have u1: "uniq (Node ll (x, avl_skew h x) Leaf)" using u by auto
  have e1: "external (LeftOf p) (nodes (Node ll (x, avl_skew h x) Leaf))" using u by auto
  from avl_delete_leafy [OF t1 u1 e1, of j cmp] j obtain h2 where
    h2: "avl_delete k cmp x (LeftOf p) ?h1 = Ret (h2, AVL_BALANCE)"
      "tree_at h2 (rd (LeftOf p) h2) ll"
      "same_outside (LeftOf p) (insert x (nodes ll)) ?h1 h2" by auto
  have "tree_at ?h1 (rd loc ?h1) (Node (Node ll (x, avl_skew h x) Leaf) (p, sp) r)"
    using ptr u e by (cases loc) (auto simp del: wr.simps simp: wr_eval)
  then have "tree_at h2 (rd loc h2) (Node ll (p, sp) r)"
    using u e h2 del_parent_left(1) [of ?h1 loc "Node ll (x, avl_skew h x) Leaf" p sp r h2 ll]
    by (auto intro: external_mono)
  moreover have "uniq (Node ll (p, sp) r)" "external loc (nodes (Node ll (p, sp) r))"
    using u e by (auto intro: external_mono)
  ultimately obtain h3 where h3: "avl_grownRight loc h2 = Ret (h3, res)"
    "tree_at h3 (rd loc h3) t'" "same_outside loc (nodes (Node ll (p, sp) r)) h2 h3"
    using grownRight_refines [of h2 loc "Node ll (p, sp) r" t' res] g by auto
  have "same_outside loc ?S h ?h1" by (cases loc) (auto simp: same_outside_def)
  moreover have "same_outside loc ?S ?h1 h2"
    by (rule same_outside_child(1) [OF h2(3)]) auto
  moreover have "same_outside loc ?S h2 h3"
    by (rule same_outside_mono [OF h3(3)]) auto
  ultimately have "same_outside loc ?S h h3" by (blast intro: same_outside_trans)
  moreover have "avl_delete (Suc k) cmp x loc h = Ret (h3, res)"
    using ptr q suc sw h2(1) h3(1) by (subst avl_delete.simps) simp
  ultimately show ?thesis using h3(2) by blast
qed

lemma avl_delete_refines:
  assumes "tree_at h (rd loc h) t" "uniq t" "external loc (nodes t)"
    and "tree_del cmp x t = (t', res)" "res \<noteq> AVL_ERROR" "height t < fuel"
  shows "\<exists>h'. avl_delete fuel cmp x loc h = Ret (h', res) \<and> tree_at h' (rd loc h') t' \<and>
    same_outside loc (nodes t) h h'"
  using assms
proof (induction t arbitrary: fuel loc h t' res rule: uniq.induct)
  case 1
  then show ?case by simp
next
  case (2 l n s r)
  let ?t = "Node l (n, s) r"
  from 2 obtain k where k: "fuel = Suc k" "height l < k" "height r < k" by (cases fuel) auto
  have rdn: "rd loc h = Some n" and tl: "tree_at h (rd (LeftOf n) h) l"
    and tr: "tree_at h (rd (RightOf n) h) r" using "2.prems"(1) by auto
  consider (leafy) "x = n" "l = Leaf \<or> r = Leaf" | (adj) "x = n" "l \<noteq> Leaf" "r \<noteq> Leaf"
    | (lt) "x \<noteq> n" "cmp x n < 0" | (gt) "x \<noteq> n" "cmp x n > 0" | (eq) "x \<noteq> n" "cmp x n = 0"
    by linarith
  then show ?case
  proof cases
    case leafy
    then show ?thesis
      using avl_delete_leafy [of h loc l n s r k cmp] "2.prems" k by (auto split: if_splits)
  next
    case adj
    with "2.prems"(4,5) obtain ll p sp where l: "l = Node ll (p, sp) Leaf"
      by (cases l rule: uniq.cases) (auto split: tree.splits)
    then have "grown_right (Node ll (p, sp) r) = (t', res)" using "2.prems"(4) adj by simp
    with avl_delete_adjacent [of h loc ll p sp n s r t' res k cmp] "2.prems" adj l k
    show ?thesis by auto
  next
    case lt
    obtain l' rl where l': "tree_del cmp x l = (l', rl)" by fastforce
    have ok: "rl \<noteq> AVL_ERROR" using "2.prems"(4,5) lt l' by auto
    with "2.IH"(1) [OF tl _ _ l' _ k(2)] "2.prems" obtain h1 where
      h1: "avl_delete k cmp x (LeftOf n) h = Ret (h1, rl)" "tree_at h1 (rd (LeftOf n) h1) l'"
        "same_outside (LeftOf n) (nodes l) h h1" by auto
    note p = del_parent_left [OF "2.prems"(1,2,3) h1(2,3)]
    show ?thesis
    proof (cases "rl = AVL_BALANCE")
      case False
      then show ?thesis using lt h1 p l' ok "2.prems"(4) rdn k
        by (auto simp: avl_delete.simps [of "Suc k"])
    next
      case True
      have sub: "nodes l' \<subseteq> nodes l" and u: "uniq l'"
        using tree_del_nodes_subset [of cmp x l] tree_del_uniq [of l cmp x] l' "2.prems" by auto
      then have "uniq (Node l' (n, s) r)" "external loc (nodes (Node l' (n, s) r))"
        using "2.prems" by (auto intro: external_mono)
      from grownRight_refines [OF p(1) this, of t' res] lt True l' "2.prems"(4,5)
      obtain h2 where h2: "avl_grownRight loc h1 = Ret (h2, res)" "tree_at h2 (rd loc h2) t'"
        "same_outside loc (nodes (Node l' (n, s) r)) h1 h2" by auto
      have "same_outside loc (nodes ?t) h h2"
        using same_outside_trans [OF p(2) same_outside_mono [OF h2(3)]] sub by auto
      then show ?thesis using lt True h1 h2 rdn k by (auto simp: avl_delete.simps [of "Suc k"])
    qed
  next
    case gt
    obtain r' rr where r': "tree_del cmp x r = (r', rr)" by fastforce
    have ok: "rr \<noteq> AVL_ERROR" using "2.prems"(4,5) gt r' by auto
    with "2.IH"(2) [OF tr _ _ r' _ k(3)] "2.prems" obtain h1 where
      h1: "avl_delete k cmp x (RightOf n) h = Ret (h1, rr)" "tree_at h1 (rd (RightOf n) h1) r'"
        "same_outside (RightOf n) (nodes r) h h1" by auto
    note p = del_parent_right [OF "2.prems"(1,2,3) h1(2,3)]
    show ?thesis
    proof (cases "rr = AVL_BALANCE")
      case False
      then show ?thesis using gt h1 p r' ok "2.prems"(4) rdn k
        by (auto simp: avl_delete.simps [of "Suc k"])
    next
      case True
      have sub: "nodes r' \<subseteq> nodes r" and u: "uniq r'"
        using tree_del_nodes_subset [of cmp x r] tree_del_uniq [of r cmp x] r' "2.prems" by auto
      then have "uniq (Node l (n, s) r')" "external loc (nodes (Node l (n, s) r'))"
        using "2.prems" by (auto intro: external_mono)
      from grownLeft_refines [OF p(1) this, of t' res] gt True r' "2.prems"(4,5)
      obtain h2 where h2: "avl_grownLeft loc h1 = Ret (h2, res)" "tree_at h2 (rd loc h2) t'"
        "same_outside loc (nodes (Node l (n, s) r')) h1 h2" by auto
      have "same_outside loc (nodes ?t) h h2"
        using same_outside_trans [OF p(2) same_outside_mono [OF h2(3)]] sub by auto
      then show ?thesis using gt True h1 h2 rdn k by (auto simp: avl_delete.simps [of "Suc k"])
    qed
  next
    case eq
    then show ?thesis using "2.prems" rdn k by (auto simp: avl_delete.simps [of "Suc k"])
  qed
qed

section \<open>The nodes it cannot delete\<close>

text \<open>
  avl_swap puts the successor node in the place of the deleted one, but leaves the link of the
  successor's old parent pointing at it.  When that parent is not the deleted node itself, the
  recursive call follows the stale link back to the top, goes on into the right subtree, where
  every node is greater, and runs off its left edge: it dereferences a null pointer.
\<close>

fun path_to_null :: "'p avl_heap \<Rightarrow> ('p \<Rightarrow> 'p \<Rightarrow> int) \<Rightarrow> 'p \<Rightarrow> 'p avl_loc \<Rightarrow> 'p list \<Rightarrow> bool" where
  "path_to_null h cmp x loc [] \<longleftrightarrow> rd loc h = None"
| "path_to_null h cmp x loc (y # ys) \<longleftrightarrow> rd loc h = Some y \<and> y \<noteq> x \<and>
     (cmp x y < 0 \<and> path_to_null h cmp x (LeftOf y) ys \<or>
      cmp x y > 0 \<and> path_to_null h cmp x (RightOf y) ys)"

lemma avl_delete_path_faults:
  "path_to_null h cmp x loc ys \<Longrightarrow> length ys < fuel \<Longrightarrow> avl_delete fuel cmp x loc h = Fault"
proof (induction ys arbitrary: loc fuel)
  case Nil
  then show ?case by (cases fuel) (auto simp: avl_delete.simps)
next
  case (Cons y ys)
  then obtain k where k: "fuel = Suc k" "length ys < k" by (cases fuel) auto
  then show ?case using Cons.prems Cons.IH [of _ k] by (subst avl_delete.simps) auto
qed

fun rightmost :: "'p atree \<Rightarrow> 'p \<Rightarrow> 'p" where
  "rightmost Leaf d = d"
| "rightmost (Node l (x, s) r) d = rightmost r x"

lemma rightmost_in: "t \<noteq> Leaf \<Longrightarrow> rightmost t d \<in> nodes t"
proof (induction t d rule: rightmost.induct)
  case (2 l x s r d)
  then show ?case by (cases "r = Leaf") auto
qed simp

lemma avl_successor_rightmost:
  "tree_at h (rd loc h) t \<Longrightarrow> t \<noteq> Leaf \<Longrightarrow> height t \<le> fuel \<Longrightarrow>
   \<exists>loc'. avl_successor fuel loc h = Ret loc' \<and> rd loc' h = Some (rightmost t d)"
proof (induction t arbitrary: loc fuel d rule: uniq.induct)
  case 1
  then show ?case by simp
next
  case (2 l n s r)
  then obtain k where k: "fuel = Suc k" "height r \<le> k" by (cases fuel) auto
  show ?case
  proof (cases "r = Leaf")
    case True
    then show ?thesis using 2 k by (subst avl_successor.simps) auto
  next
    case False
    then have "avl_right h n \<noteq> None" using "2.prems"(1) by (cases r) auto
    then show ?thesis using False 2 k "2.IH"(2) [of "RightOf n" k n]
      by (subst avl_successor.simps) auto
  qed
qed

text \<open>Down the left edge of a tree of greater nodes, and down the right edge of smaller ones.\<close>

lemma left_edge_path:
  "tree_at h (rd loc h) t \<Longrightarrow> (\<And>y. y \<in> nodes t \<Longrightarrow> y \<noteq> x \<and> cmp x y < 0) \<Longrightarrow>
   \<exists>ys. path_to_null h cmp x loc ys \<and> length ys \<le> height t"
proof (induction t arbitrary: loc rule: uniq.induct)
  case 1
  then show ?case by (intro exI [of _ "[]"]) simp
next
  case (2 l n s r)
  then have "tree_at h (rd (LeftOf n) h) l" by simp
  then obtain ys where "path_to_null h cmp x (LeftOf n) ys" "length ys \<le> height l"
    using "2.IH"(1) [of "LeftOf n"] "2.prems"(2) by auto
  then show ?case using 2 by (intro exI [of _ "n # ys"]) auto
qed

lemma right_edge_path:
  "tree_at h p t \<Longrightarrow> t \<noteq> Leaf \<Longrightarrow> uniq t \<Longrightarrow> rd loc h1 = p \<Longrightarrow>
   (\<And>y. y \<in> nodes t \<Longrightarrow> y \<noteq> x \<and> cmp x y > 0) \<Longrightarrow>
   (\<And>y. y \<in> nodes t \<Longrightarrow> y \<noteq> rightmost t d \<Longrightarrow> avl_right h1 y = avl_right h y) \<Longrightarrow>
   path_to_null h1 cmp x (RightOf (rightmost t d)) zs \<Longrightarrow>
   \<exists>ys. path_to_null h1 cmp x loc ys \<and> length ys \<le> height t + length zs"
proof (induction t arbitrary: loc p d rule: uniq.induct)
  case 1
  then show ?case by simp
next
  case (2 l n s r)
  show ?case
  proof (cases "r = Leaf")
    case True
    then show ?thesis using "2.prems" by (intro exI [of _ "n # zs"]) auto
  next
    case False
    then have "rightmost r n \<noteq> n" using rightmost_in [of r n] "2.prems"(3) by auto
    then have "avl_right h1 n = avl_right h n" using "2.prems"(6) [of n] by auto
    then obtain ys where "path_to_null h1 cmp x (RightOf n) ys" "length ys \<le> height r + length zs"
      using "2.IH"(2) [of "avl_right h n" "RightOf n" n] "2.prems" False by auto
    then show ?thesis using "2.prems" by (intro exI [of _ "n # ys"]) auto
  qed
qed

lemma not_in_deletable: "x \<notin> nodes t \<Longrightarrow> deletable x t"
  by (induction x t rule: deletable.induct) auto

context ordered_nodes
begin

lemma avl_delete_here_faults:
  assumes t: "tree_at h (rd loc h) (Node l (x, s) r)" and srt: "sorted_keys key (Node l (x, s) r)"
    and e: "external loc (nodes (Node l (x, s) r))"
    and nd: "\<not> deletable x (Node l (x, s) r)" and k: "height l + height r < k"
  shows "avl_delete (Suc k) cmp x loc h = Fault"
proof -
  from nd obtain ll p sp lr where l: "l = Node ll (p, sp) lr" "lr \<noteq> Leaf" and r: "r \<noteq> Leaf"
    by (cases l rule: uniq.cases) auto
  have u: "uniq (Node l (x, s) r)" using srt by (rule sorted_keys_uniq)
  have s: "\<And>y. y \<in> nodes l \<Longrightarrow> cmp x y > 0" "\<And>y. y \<in> nodes r \<Longrightarrow> cmp x y < 0"
    using srt by (auto simp: sorted_keys_node cmp_less cmp_greater)
  define q where "q = rightmost l x"
  have q: "q \<in> nodes l" "q \<noteq> p"
    using rightmost_in [of l x] rightmost_in [of lr p] l u by (auto simp: q_def)
  have ptr: "rd loc h = Some x" "avl_left h x = Some p" "tree_at h (avl_left h x) l"
    "tree_at h (avl_right h x) r" "avl_right h x \<noteq> None" "x \<noteq> q" "avl_right h x \<noteq> Some q"
    using t l r u q by (auto simp: tree_at_Some)
  obtain succ where succ: "avl_successor k (LeftOf x) h = Ret succ" "rd succ h = Some q"
    using avl_successor_rightmost [of h "LeftOf x" l k x] ptr l k by (auto simp: q_def)
  let ?h1 = "wr loc (Some q) (wr (RightOf x) (avl_right h q) (wr (LeftOf x) (avl_left h q)
    (wr (RightOf q) (avl_right h x) (wr (LeftOf q) (Some p) h))))"
  have sw: "avl_swap loc succ h = Ret ?h1"
    using ptr succ q(2) by (simp add: avl_swap_def Let_def)
  have f: "avl_left ?h1 q = Some p" "avl_right ?h1 q = avl_right h x"
    using ptr q e by (cases loc; auto simp del: wr.simps simp: wr_eval)+
  have nr: "q \<notin> nodes r" "x \<notin> nodes r" "external loc (nodes r)" using u q(1) e
    by (auto elim: external_mono)
  have "tree_at ?h1 (avl_right h x) r"
    using ptr(4) nr by (simp del: wr.simps)
  then have "tree_at ?h1 (rd (RightOf q) ?h1) r" using f(2) by (simp del: wr.simps)
  then obtain zs where zs: "path_to_null ?h1 cmp x (RightOf q) zs" "length zs \<le> height r"
    using left_edge_path [of ?h1 "RightOf q" r x cmp] s(2) u by auto
  have same: "avl_right ?h1 y = avl_right h y" if "y \<in> nodes l" "y \<noteq> q" for y
    using that u e by (cases loc) (auto simp del: wr.simps simp: wr_eval)
  obtain ys where "path_to_null ?h1 cmp x (LeftOf q) ys" "length ys \<le> height l + length zs"
    using right_edge_path [OF ptr(3), of "LeftOf q" ?h1 x cmp x zs] l u s(1) f(1) ptr(2) same zs(1)
    by (auto simp: q_def)
  then have "avl_delete k cmp x (LeftOf q) ?h1 = Fault"
    using avl_delete_path_faults k zs(2) by fastforce
  then show ?thesis using ptr succ sw by (subst avl_delete.simps) auto
qed

lemma avl_delete_faults:
  "tree_at h (rd loc h) t \<Longrightarrow> sorted_keys key t \<Longrightarrow> external loc (nodes t) \<Longrightarrow> \<not> deletable x t \<Longrightarrow>
   2 * height t < fuel \<Longrightarrow> avl_delete fuel cmp x loc h = Fault"
proof (induction t arbitrary: loc fuel rule: uniq.induct)
  case 1
  then show ?case by simp
next
  case (2 l n s r)
  then obtain k where k: "fuel = Suc k" "2 * height l < k" "2 * height r < k"
    "height l + height r < k" by (cases fuel) auto
  have u: "uniq (Node l (n, s) r)" using "2.prems"(2) by (rule sorted_keys_uniq)
  have so: "sorted_keys key l" "sorted_keys key r" "\<And>y. y \<in> nodes l \<Longrightarrow> cmp y n < 0"
    "\<And>y. y \<in> nodes r \<Longrightarrow> cmp y n > 0"
    using "2.prems"(2) by (auto simp: sorted_keys_node cmp_less cmp_greater)
  have x: "x \<in> nodes (Node l (n, s) r)"
    using "2.prems"(4) not_in_deletable [of x "Node l (n, s) r"] by (rule contrapos_np)
  show ?case
  proof (cases "x = n")
    case True
    then show ?thesis using avl_delete_here_faults [of h loc l n s r k] "2.prems" k by auto
  next
    case False
    with "2.prems"(4) consider "\<not> deletable x l" "x \<in> nodes l" | "\<not> deletable x r" "x \<in> nodes r"
      using not_in_deletable by fastforce
    then show ?thesis
    proof cases
      case 1
      then have "avl_delete k cmp x (LeftOf n) h = Fault"
        using "2.IH"(1) [of "LeftOf n" k] "2.prems" so u k by auto
      then show ?thesis using 1 so(3) False "2.prems"(1) k by (subst avl_delete.simps) auto
    next
      case 2
      then have "avl_delete k cmp x (RightOf n) h = Fault"
        using "2.IH"(2) [of "RightOf n" k] "2.prems" so u k by auto
      then show ?thesis using 2 so(4) [of x] False "2.prems"(1) k by (subst avl_delete.simps) auto
    qed
  qed
qed

end

end
