(* ===== verification/Avl_Props.thy ===== *)
theory Avl_Props
  imports Avl_Search
begin

text \<open>
  What the AVL tree of lib/algo/avl.c promises its clients, stated on the pointer heap for the
  comparison functions that the macros avl_make_compare and avl_make_match of algo/avl.h build.
  The heaps of the witnesses are made by store, which lays a tree out in memory.
\<close>

section \<open>Laying a tree out in a heap\<close>

fun top :: "'p atree \<Rightarrow> 'p option" where
  "top Leaf = None"
| "top (Node l (x, s) r) = Some x"

fun store :: "'p atree \<Rightarrow> 'p avl_heap \<Rightarrow> 'p avl_heap" where
  "store Leaf h = h"
| "store (Node l (x, s) r) h =
     set_skew x s (wr (RightOf x) (top r) (wr (LeftOf x) (top l) (store r (store l h))))"

definition heap_of :: "'p atree \<Rightarrow> 'p avl_heap" where
  "heap_of t = wr Root (top t)
     (store t \<lparr>avl_root = None, avl_left = \<lambda>p. None, avl_right = \<lambda>p. None, avl_skew = \<lambda>p. AVL_NONE\<rparr>)"

lemma store_same_outside: "same_outside Root (nodes t) h (store t h)"
proof (induction t arbitrary: h rule: uniq.induct)
  case (2 l x s r)
  show ?case using "2.IH"(1) [of h] "2.IH"(2) [of "store l h"]
    by (auto simp: same_outside_def)
qed simp

lemma store_tree_at: "uniq t \<Longrightarrow> tree_at (store t h) (top t) t"
proof (induction t arbitrary: h rule: uniq.induct)
  case (2 l x s r)
  have "tree_at (store r (store l h)) (top l) l"
    using "2.IH"(1) [of h] "2.prems" store_same_outside [of r "store l h"]
    by (metis external.simps(1) tree_at_same_outside uniq.simps(2))
  then show ?case using "2.IH"(2) [of "store l h"] "2.prems" by (simp del: wr.simps add: wr_eval)
qed simp

lemma heap_of_tree_at: "uniq t \<Longrightarrow> tree_at (heap_of t) (avl_root (heap_of t)) t"
  using store_tree_at [of t] by (simp add: heap_of_def wr_eval del: wr.simps)

lemma heap_of_fresh: "x \<notin> nodes t \<Longrightarrow> fresh (heap_of t) x"
  using store_same_outside [of t] by (simp add: heap_of_def fresh_def same_outside_def)

definition seven :: "nat atree" where
  "seven = Node (Node (Node Leaf (1, AVL_NONE) Leaf) (2, AVL_NONE) (Node Leaf (3, AVL_NONE) Leaf))
     (4, AVL_NONE) (Node (Node Leaf (5, AVL_NONE) Leaf) (6, AVL_NONE) (Node Leaf (7, AVL_NONE) Leaf))"

lemma seven_ok: "uniq seven" "balanced seven" "sorted_keys id seven" "height seven = 3"
  "nodes seven = {1, 2, 3, 4, 5, 6, 7}"
  by (auto simp: seven_def sorted_keys_def)

section \<open>Insertion\<close>

lemma avl_add_ok:
  assumes t: "tree_at h (avl_root h) t" and b: "balanced t" and s: "sorted_keys key t"
    and x: "x \<notin> nodes t" "fresh h x" and f: "height t < fuel"
  shows "\<exists>h' t' res. avl_add fuel (avl_make_compare key) x Root h = Ret (h', res) \<and>
    tree_at h' (avl_root h') t' \<and> balanced t' \<and> sorted_keys key t' \<and>
    nodes t' = (if \<exists>y \<in> nodes t. key y = key x then nodes t else insert x (nodes t)) \<and>
    height t' = (if res = AVL_BALANCE then Suc (height t) else height t) \<and>
    same_outside Root (insert x (nodes t)) h h'"
proof -
  let ?c = "avl_make_compare key"
  obtain t' res where a: "tree_add ?c x t = (t', res)" by fastforce
  have u: "uniq t" using s by (rule key_order.sorted_keys_uniq)
  from avl_add_refines [of h Root t x fuel ?c t' res] t u b x f a obtain h' where
    "avl_add fuel ?c x Root h = Ret (h', res)" "tree_at h' (avl_root h') t'"
    "same_outside Root (insert x (nodes t)) h h'" by auto
  moreover have "balanced t'" "height t' = (if res = AVL_BALANCE then Suc (height t) else height t)"
    using tree_add_grew [OF b a] by (simp_all add: grew_def)
  moreover have "sorted_keys key t'" using key_order.tree_add_sorted [OF s, of x] a by simp
  moreover have "nodes t' = (if \<exists>y \<in> nodes t. key y = key x then nodes t else insert x (nodes t))"
    using key_order.tree_add_nodes [OF s, of x] a by simp
  ultimately show ?thesis by blast
qed

text \<open>C1: avl_add on a heap that holds an AVL search tree, with a fresh node that is not yet
  in the tree and a bound on the recursion above the height: the call returns, the heap again
  holds an AVL search tree whose skews are right, the new node is in it unless its key was
  there already, AVL_BALANCE is returned exactly when the tree got higher, and no other object
  of the heap changed.\<close>
theorem avl_add_correct:
  assumes t: "tree_at h (avl_root h) t" and b: "balanced t" and s: "sorted_keys key t"
    and x: "x \<notin> nodes t" "fresh h x" and f: "height t < fuel"
  shows "\<exists>h' t' res. avl_add fuel (avl_make_compare key) x Root h = Ret (h', res) \<and>
    tree_at h' (avl_root h') t' \<and> balanced t' \<and> sorted_keys key t' \<and>
    nodes t' = (if \<exists>y \<in> nodes t. key y = key x then nodes t else insert x (nodes t)) \<and>
    height t' = (if res = AVL_BALANCE then Suc (height t) else height t) \<and>
    same_outside Root (insert x (nodes t)) h h'"
  using assms by (rule avl_add_ok)

text \<open>A seventh key falls in the tree of the keys 1 to 6.\<close>
theorem avl_add_correct_witness:
  "\<exists>h' t' res. avl_add 4 (avl_make_compare id) (8::nat) Root (heap_of seven) = Ret (h', res) \<and>
    tree_at h' (avl_root h') t' \<and> balanced t' \<and> sorted_keys id t' \<and>
    nodes t' = insert 8 {1, 2, 3, 4, 5, 6, 7} \<and>
    height t' = (if res = AVL_BALANCE then 4 else 3) \<and>
    same_outside Root {8, 1, 2, 3, 4, 5, 6, 7} (heap_of seven) h'"
  using avl_add_correct [of "heap_of seven" seven id 8 4] heap_of_tree_at [of seven]
    heap_of_fresh [of 8 seven] by (simp add: seven_ok split del: if_split cong: if_cong)

section \<open>Search and traversal\<close>

text \<open>Avl_find, with any match function that is monotone along the keys (a single key,
  or, as in the pools and the page-fault handler, the object whose address range contains the
  key): the loop ends, and it returns a matching node of the tree if there is one and null if
  there is none.\<close>
lemma avl_find_correct:
  assumes "tree_at h (avl_root h) t" and "sorted_keys key t" and "match_mono key mtch k (nodes t)"
    and "height t \<le> fuel"
  shows "\<exists>r. avl_find fuel mtch k h = Ret r \<and>
    (case r of Some n \<Rightarrow> n \<in> nodes t \<and> mtch k n = 0 | None \<Rightarrow> \<forall>n \<in> nodes t. mtch k n \<noteq> 0)"
  using assms by (intro key_order.avl_find_found) auto

lemma match_mono_key: "match_mono key (avl_make_match key) k S"
  by (auto simp: match_mono_def avl_make_match_def)

theorem avl_find_correct_witness:
  "\<exists>r. avl_find 3 (avl_make_match id) (5::nat) (heap_of seven) = Ret r \<and>
    (case r of Some n \<Rightarrow> n \<in> nodes seven \<and> avl_make_match id 5 n = 0
     | None \<Rightarrow> \<forall>n \<in> nodes seven. avl_make_match id 5 n \<noteq> 0)"
  by (rule avl_find_correct [where key = id])
    (simp_all add: seven_ok(1,3,4) heap_of_tree_at match_mono_key)

text \<open>Avl_traverse applies the callback to every node of the tree once, each after all
  nodes below it (postorder), not in the increasing order its comment in algo/avl.h
  promises.\<close>
lemma avl_traverse_is_postorder:
  assumes "tree_at h (avl_root h) t" and "height t \<le> fuel"
  shows "avl_traverse fuel (avl_root h) h = Ret (map fst (postorder t))"
  using assms by (rule avl_traverse_postorder)

theorem avl_traverse_is_postorder_witness:
  "avl_traverse 3 (avl_root (heap_of seven)) (heap_of seven) = Ret [1, 3, 2, 5, 7, 6, 4]"
  using avl_traverse_is_postorder [of "heap_of seven" seven 3] seven_ok heap_of_tree_at [of seven]
  by (simp add: seven_def)

section \<open>Deletion\<close>

text \<open>C5: avl_delete of a node of an AVL search tree that has at most one child, or whose left
  child has no right child: the call returns, the heap holds a search tree with exactly the
  other nodes, in the same order, and no object outside the tree changed.\<close>
theorem avl_delete_correct:
  assumes t: "tree_at h (avl_root h) t" and b: "balanced t" and s: "sorted_keys key t"
    and x: "x \<in> nodes t" "deletable x t" and f: "height t < fuel"
  shows "\<exists>h' t' res. avl_delete fuel (avl_make_compare key) x Root h = Ret (h', res) \<and>
    tree_at h' (avl_root h') t' \<and> sorted_keys key t' \<and>
    map fst (inorder t') = remove1 x (map fst (inorder t)) \<and> same_outside Root (nodes t) h h'"
proof -
  let ?c = "avl_make_compare key"
  obtain t' res where a: "tree_del ?c x t = (t', res)" by fastforce
  have c: "res \<noteq> AVL_ERROR" "map fst (inorder t') = remove1 x (map fst (inorder t))"
    using key_order.tree_del_correct [OF b s x] a by auto
  have "sorted_keys key t'"
    using s c(2) by (simp add: sorted_keys_def sorted_wrt_map sorted_wrt_remove1)
  moreover obtain h' where "avl_delete fuel ?c x Root h = Ret (h', res)"
    "tree_at h' (avl_root h') t'" "same_outside Root (nodes t) h h'"
    using avl_delete_refines [of h Root, OF _ key_order.sorted_keys_uniq [OF s] _ a] t f c(1) by auto
  ultimately show ?thesis using c(2) by blast
qed

theorem avl_delete_correct_witness:
  "\<exists>h' t' res. avl_delete 4 (avl_make_compare id) (2::nat) Root (heap_of seven) = Ret (h', res) \<and>
    tree_at h' (avl_root h') t' \<and> sorted_keys id t' \<and>
    map fst (inorder t') = [1, 3, 4, 5, 6, 7] \<and> same_outside Root (nodes seven) (heap_of seven) h'"
  using avl_delete_correct [of "heap_of seven" seven id 2 4] seven_ok heap_of_tree_at [of seven]
  by (simp add: seven_def)

text \<open>Avl_delete of any other node of an AVL search tree, one with two children whose
  left child has a right child, never succeeds: the recursive call starts from a stale
  link, walks into the right subtree and dereferences a null pointer.\<close>
lemma avl_delete_inner_node_faults:
  assumes "tree_at h (avl_root h) t" and "sorted_keys key t" and "\<not> deletable x t"
    and "2 * height t < fuel"
  shows "avl_delete fuel (avl_make_compare key) x Root h = Fault"
  using key_order.avl_delete_faults [of h Root t key x fuel] assms by simp

theorem avl_delete_inner_node_faults_witness:
  "avl_delete 7 (avl_make_compare id) (4::nat) Root (heap_of seven) = Fault"
  using avl_delete_inner_node_faults [of "heap_of seven" seven id 4 7] seven_ok
    heap_of_tree_at [of seven] by (simp add: seven_def)

text \<open>Even where it succeeds, avl_delete leaves wrong skews behind: deleting the smallest
  of seven nodes makes avl_grownRight report AVL_BALANCE, which for a deletion does not mean
  that the height changed, so the root is marked as leaning to the right while both of its
  subtrees have height two.\<close>
lemma avl_delete_breaks_balance:
  "balanced seven \<and>
   (\<exists>h' t'. avl_delete 4 (avl_make_compare id) 1 Root (heap_of seven) = Ret (h', AVL_BALANCE) \<and>
     tree_at h' (avl_root h') t' \<and> \<not> balanced t' \<and> avl_skew h' 4 = AVL_RIGHT \<and>
     (case t' of Node l _ r \<Rightarrow> height l = height r | Leaf \<Rightarrow> False))"
proof -
  let ?c = "avl_make_compare (id :: nat \<Rightarrow> nat)"
  have d: "tree_del ?c 1 seven = (Node (Node Leaf (2, AVL_RIGHT) (Node Leaf (3, AVL_NONE) Leaf))
     (4, AVL_RIGHT) (Node (Node Leaf (5, AVL_NONE) Leaf) (6, AVL_NONE) (Node Leaf (7, AVL_NONE) Leaf)),
     AVL_BALANCE)"
    by (simp add: seven_def avl_make_compare_def)
  have h: "tree_at (heap_of seven) (rd Root (heap_of seven)) seven"
    using heap_of_tree_at seven_ok(1) by simp
  obtain h' where "avl_delete 4 ?c 1 Root (heap_of seven) = Ret (h', AVL_BALANCE)"
    "tree_at h' (avl_root h') (fst (tree_del ?c 1 seven))"
    using avl_delete_refines [OF h seven_ok(1) _ d, of 4] d seven_ok(4) by auto
  then show ?thesis using d seven_ok(2)
    by (intro conjI exI [of _ h'] exI [of _ "fst (tree_del ?c 1 seven)"]) auto
qed

end
