(* ===== verification/Libc.thy ===== *)
theory Libc
  imports Prelude "HOL-Library.List_Lexorder" "HOL-Library.Sublist"
begin

text \<open>
  arch/i386/lib/stand/libc.c: the string functions, number printing and the printf core of the
  kernel and its loader.  A C string is the list of its bytes before the terminating NUL, so
  reading at its end reads 0; char is signed on this platform, and an int is a 32-bit word.
\<close>

section \<open>Strings\<close>

text \<open>The character under the pointer s.\<close>

fun at :: "u8 list \<Rightarrow> u8" where
  "at [] = 0"
| "at (c # cs) = c"

text \<open>A list of bytes that a C string can be: none of them ends the string early.\<close>

definition cstring :: "u8 list \<Rightarrow> bool" where
  "cstring s \<longleftrightarrow> 0 \<notin> set s"

definition bytes :: "string \<Rightarrow> u8 list" where
  "bytes s = map of_char s"

function strcmp :: "u8 list \<Rightarrow> u8 list \<Rightarrow> int" where
  "strcmp s1 s2 =
     (if at s1 \<noteq> 0 \<and> at s2 \<noteq> 0 then
        (if at s1 \<noteq> at s2 then sint (at s2) - sint (at s1) else strcmp (tl s1) (tl s2))
      else if at s1 = at s2 then 0
      else if at s1 \<noteq> 0 then 1 else -1)"
  by pat_completeness auto
termination
proof (relation "measure (\<lambda>(s1, s2). length s1)")
  fix s1 s2 :: "u8 list"
  assume "at s1 \<noteq> 0 \<and> at s2 \<noteq> 0"
  then show "((tl s1, tl s2), (s1, s2)) \<in> measure (\<lambda>(s1, s2). length s1)" by (cases s1) auto
qed simp

text \<open>The loop condition of strncmp decrements size even when it fails because size is 0.\<close>

function strncmp :: "u8 list \<Rightarrow> u8 list \<Rightarrow> u32 \<Rightarrow> int" where
  "strncmp s1 s2 n =
     (if at s1 \<noteq> 0 \<and> at s2 \<noteq> 0 \<and> n \<noteq> 0 then
        (if at s1 \<noteq> at s2 then sint (at s2) - sint (at s1) else strncmp (tl s1) (tl s2) (n - 1))
      else
        (let m = (if at s1 \<noteq> 0 \<and> at s2 \<noteq> 0 then n - 1 else n) in
         if at s1 = at s2 \<or> m = 0 then 0
         else if at s1 \<noteq> 0 then 1 else -1))"
  by pat_completeness auto
termination
proof (relation "measure (\<lambda>(s1, s2, n). length s1)")
  fix s1 s2 :: "u8 list" and n :: u32
  assume "at s1 \<noteq> 0 \<and> at s2 \<noteq> 0 \<and> n \<noteq> 0"
  then show "((tl s1, tl s2, n - 1), (s1, s2, n)) \<in> measure (\<lambda>(s1, s2, n). length s1)"
    by (cases s1) auto
qed simp

declare strcmp.simps [simp del] strncmp.simps [simp del]

fun strlen_loop :: "u8 list \<Rightarrow> u32 \<Rightarrow> u32" where
  "strlen_loop [] i = i"
| "strlen_loop (c # cs) i = (if c = 0 then i else strlen_loop cs (i + 1))"

definition strlen :: "u8 list \<Rightarrow> u32" where
  "strlen s = strlen_loop s 0"

text \<open>strstr returns a pointer into haystack, here its offset, or null.\<close>

function strstr_loop :: "u8 list \<Rightarrow> u8 list \<Rightarrow> u32 \<Rightarrow> u32 \<Rightarrow> u32 \<Rightarrow> nat option" where
  "strstr_loop haystack needle hi len i =
     (if sint i < sint hi then
        (if strncmp (drop (unat i) haystack) needle len = 0 then Some (unat i)
         else strstr_loop haystack needle hi len (i + 1))
      else None)"
  by pat_completeness auto
termination
proof (relation "measure (\<lambda>(h, n, hi, len, i). nat (sint hi - sint i))")
  fix h n :: "u8 list" and hi len i :: u32
  assume a: "sint i < sint hi"
  have "sint hi < 2147483648" using sint_less [of hi] by simp
  moreover have "- 2147483648 \<le> sint i" using sint_ge [of i] by simp
  ultimately have "sint (i + 1) = sint i + 1"
    using a by (simp add: sint_word_ariths signed_take_bit_int_eq_self_iff)
  with a show "((h, n, hi, len, i + 1), (h, n, hi, len, i)) \<in>
      measure (\<lambda>(h, n, hi, len, i). nat (sint hi - sint i))" by simp
qed simp

declare strstr_loop.simps [simp del]

definition strstr :: "u8 list \<Rightarrow> u8 list \<Rightarrow> nat option" where
  "strstr haystack needle = strstr_loop haystack needle (strlen haystack) (strlen needle) 0"

definition bcd2int :: "u8 \<Rightarrow> u8" where
  "bcd2int bcd = drop_bit 4 bcd * 10 + (bcd AND 0xF)"

section \<open>Memory\<close>

text \<open>
  memcpy and memset on byte-addressed memory.  Both loops advance the pointer; memcpy returns
  the saved start, memset the advanced pointer.
\<close>

type_synonym memory = "u32 \<Rightarrow> u8"

function memcpy_loop :: "u32 \<Rightarrow> u32 \<Rightarrow> u32 \<Rightarrow> memory \<Rightarrow> memory" where
  "memcpy_loop dest src n mem =
     (if n = 0 then mem else memcpy_loop (dest + 1) (src + 1) (n - 1) (mem(dest := mem src)))"
  by pat_completeness auto
termination
  by (relation "measure (\<lambda>(d, s, n, m). unat n)") (auto simp: measure_unat)

definition memcpy :: "u32 \<Rightarrow> u32 \<Rightarrow> u32 \<Rightarrow> memory \<Rightarrow> memory \<times> u32" where
  "memcpy dest src n mem = (memcpy_loop dest src n mem, dest)"

function memset :: "u32 \<Rightarrow> u32 \<Rightarrow> u32 \<Rightarrow> memory \<Rightarrow> memory \<times> u32" where
  "memset s c n mem =
     (if n = 0 then (mem, s) else memset (s + 1) c (n - 1) (mem(s := ucast c)))"
  by pat_completeness auto
termination
  by (relation "measure (\<lambda>(s, c, n, m). unat n)") (auto simp: measure_unat)

declare memcpy_loop.simps [simp del] memset.simps [simp del]

section \<open>Printing numbers\<close>

text \<open>
  itoa: the digits of ud from the lowest to the highest, then a reversal in place of the part
  of the buffer after the sign.  base is the conversion character.
\<close>

definition itoa_divisor :: "u8 \<Rightarrow> u32" where
  "itoa_divisor base = (if base = of_char (CHR ''x'') then 16 else 10)"

definition digit_char :: "u32 \<Rightarrow> u8" where
  "digit_char r = (if r < 10 then ucast r + of_char (CHR ''0'') else ucast r + of_char (CHR ''a'') - 10)"

function itoa_digits :: "u8 \<Rightarrow> u32 \<Rightarrow> u8 list" where
  "itoa_digits base ud =
     digit_char (ud mod itoa_divisor base) #
       (if ud div itoa_divisor base = 0 then [] else itoa_digits base (ud div itoa_divisor base))"
  by pat_completeness auto
termination
proof (relation "measure (\<lambda>(b, u). unat u)")
  fix b :: u8 and u :: u32
  assume "u div itoa_divisor b \<noteq> 0"
  moreover from this have "u \<noteq> 0" by auto
  moreover have "unat u div 16 < unat u" "unat u div 10 < unat u" if "0 < unat u"
    using that by auto
  ultimately show "((b, u div itoa_divisor b), (b, u)) \<in> measure (\<lambda>(b, u). unat u)"
    by (auto simp: itoa_divisor_def unat_div unat_gt_0)
qed simp

declare itoa_digits.simps [simp del]

function reverse_loop :: "u8 list \<Rightarrow> nat \<Rightarrow> nat \<Rightarrow> u8 list" where
  "reverse_loop buf p1 p2 =
     (if p1 < p2 then reverse_loop (buf[p1 := buf ! p2, p2 := buf ! p1]) (p1 + 1) (p2 - 1) else buf)"
  by pat_completeness auto
termination by (relation "measure (\<lambda>(b, p1, p2). p2 - p1)") auto

declare reverse_loop.simps [simp del]

definition itoa :: "u8 \<Rightarrow> u32 \<Rightarrow> u8 list" where
  "itoa base d =
     (let neg = base = of_char (CHR ''d'') \<and> sint d < 0;
          ud = (if neg then - d else d);
          digits = itoa_digits base ud
      in (if neg then [of_char (CHR ''-'')] else []) @ reverse_loop digits 0 (length digits - 1))"

section \<open>The printf core\<close>

text \<open>
  The variable arguments: each is an int or a char pointer, null or a string.  The output is
  the list of ints passed to the device's putchar.  Reading an argument that is not there, or
  of the other type, or going on after the end of the format is undefined: Fault.
\<close>

datatype vararg = IntArg u32 | StrArg "u8 list option"

fun out_string :: "u8 list \<Rightarrow> u32 list" where
  "out_string [] = []"
| "out_string (c # cs) = (if c = 0 then [] else scast c # out_string cs)"

definition conversion :: "u8 \<Rightarrow> vararg list \<Rightarrow> (u32 list \<times> vararg list) outcome" where
  "conversion c args =
     (if c \<in> set (bytes ''pdux'') then
        (case args of
           IntArg i # rest \<Rightarrow>
             (if c = of_char (CHR ''p'')
              then Ret (out_string (bytes ''0x'') @ out_string (itoa (of_char (CHR ''x'')) i), rest)
              else Ret (out_string (itoa c i), rest))
         | _ \<Rightarrow> Fault)
      else if c = of_char (CHR ''s'') then
        (case args of
           StrArg s # rest \<Rightarrow> Ret (out_string (case s of None \<Rightarrow> bytes ''(null)'' | Some t \<Rightarrow> t), rest)
         | _ \<Rightarrow> Fault)
      else
        (case args of IntArg i # rest \<Rightarrow> Ret ([i], rest) | _ \<Rightarrow> Fault))"

fun dvprintf :: "u8 list \<Rightarrow> vararg list \<Rightarrow> u32 list outcome" where
  "dvprintf [] args = Ret []"
| "dvprintf (c # fmt) args =
     (if c = 0 then Ret []
      else if c \<noteq> of_char (CHR ''%'') then obind (dvprintf fmt args) (\<lambda>out. Ret (scast c # out))
      else
        (case fmt of
           [] \<Rightarrow> Fault
         | c2 # fmt' \<Rightarrow>
             obind (conversion c2 args)
               (\<lambda>(o1, rest). obind (dvprintf fmt' rest) (\<lambda>o2. Ret (o1 @ o2)))))"

definition dputs :: "u8 list \<Rightarrow> u32 list \<times> nat" where
  "dputs str = (out_string str @ [10], length (out_string str))"

end
