(* ===== verification/Libc_Props.thy ===== *)
theory Libc_Props
  imports Libc Avl_Tree
begin

text \<open>
  Correctness of arch/i386/lib/stand/libc.c: strcmp is a total order whose zero is equality,
  strstr finds the first occurrence, itoa prints the number and fits its buffer; and the places
  where the functions are not what their names promise (strcmp's sign, strncmp past its limit,
  memset's result).
\<close>

section \<open>strcmp\<close>

text \<open>The C string at the start of a buffer, and the key by which strcmp orders it.\<close>

definition contents :: "u8 list \<Rightarrow> u8 list" where
  "contents s = takeWhile (\<lambda>c. c \<noteq> 0) s"

definition strcmp_key :: "u8 list \<Rightarrow> int list" where
  "strcmp_key s = map (\<lambda>c. - sint c) (contents s)"

lemma contents_step: "at s \<noteq> 0 \<Longrightarrow> contents s = at s # contents (tl s)"
  "at s = 0 \<Longrightarrow> contents s = []"
  by (cases s; simp add: contents_def)+

lemma contents_cstring [simp]: "cstring s \<Longrightarrow> contents s = s"
  by (induction s) (auto simp: contents_def cstring_def)

lemma strcmp_sign:
  "(strcmp s1 s2 < 0 \<longleftrightarrow> strcmp_key s1 < strcmp_key s2) \<and>
   (strcmp s1 s2 > 0 \<longleftrightarrow> strcmp_key s2 < strcmp_key s1)"
proof (induction s1 s2 rule: strcmp.induct)
  case (1 s1 s2)
  show ?case
  proof (cases "at s1 \<noteq> 0 \<and> at s2 \<noteq> 0")
    case True
    then have "strcmp_key s1 = - sint (at s1) # strcmp_key (tl s1)"
      "strcmp_key s2 = - sint (at s2) # strcmp_key (tl s2)"
      by (simp_all add: strcmp_key_def contents_step)
    then show ?thesis using 1 True by (subst (1 2) strcmp.simps) (auto simp: sint_eq_iff)
  next
    case False
    then show ?thesis
      by (subst (1 2) strcmp.simps)
        (cases "at s1 = 0"; cases "at s2 = 0"; auto simp: strcmp_key_def contents_step)
  qed
qed

lemma strcmp_key_inject: "strcmp_key a = strcmp_key b \<longleftrightarrow> contents a = contents b"
proof -
  have "inj (\<lambda>c :: u8. - sint c)" by (simp add: inj_def sint_eq_iff)
  then show ?thesis unfolding strcmp_key_def by (simp add: inj_map_eq_map)
qed

text \<open>Trees of nodes with string keys: the macro avl_make_string_compare.\<close>

definition avl_make_string_compare :: "('p \<Rightarrow> u8 list) \<Rightarrow> 'p \<Rightarrow> 'p \<Rightarrow> int" where
  "avl_make_string_compare key a b = strcmp (key a) (key b)"

definition avl_make_string_match :: "('p \<Rightarrow> u8 list) \<Rightarrow> u8 list \<Rightarrow> 'p \<Rightarrow> int" where
  "avl_make_string_match key k b = strcmp k (key b)"

interpretation string_order: ordered_nodes "avl_make_string_compare key" "\<lambda>p. strcmp_key (key p)"
  for key :: "'p \<Rightarrow> u8 list"
  by unfold_locales (simp_all add: avl_make_string_compare_def strcmp_sign)

text \<open>Strcmp is 0 exactly for equal strings, swapping its arguments swaps its sign, and its
  order is transitive: it can order the nodes of the kernel's trees and the lookups by name that
  compare with 0 are right.\<close>
lemma strcmp_total_order:
  "(strcmp a b = 0 \<longleftrightarrow> contents a = contents b) \<and>
   (strcmp a b < 0 \<longleftrightarrow> strcmp b a > 0) \<and>
   \<not> (strcmp a b < 0 \<and> strcmp b c < 0 \<and> \<not> strcmp a c < 0)"
proof -
  have "strcmp a b = 0 \<longleftrightarrow> \<not> strcmp a b < 0 \<and> \<not> strcmp a b > 0" by linarith
  also have "\<dots> \<longleftrightarrow> strcmp_key a = strcmp_key b" by (simp add: strcmp_sign not_less order_eq_iff conj_commute)
  finally show ?thesis by (auto simp: strcmp_sign strcmp_key_inject)
qed

text \<open>The sign of strcmp is the reverse of the standard one where two strings differ in a
  character, and the standard one where one is a prefix of the other: the string with the
  greater character compares as less, yet a proper prefix compares as less too.\<close>
lemma strcmp_reversed_sign:
  "cstring (p @ x # a) \<longrightarrow> cstring (p @ y # b) \<longrightarrow>
   (x \<noteq> y \<longrightarrow> strcmp (p @ x # a) (p @ y # b) = sint y - sint x) \<and>
   strcmp p (p @ y # b) = -1 \<and> strcmp (p @ x # a) p = 1"
proof (induction p)
  case Nil
  then show ?case by (simp add: strcmp.simps cstring_def)
next
  case (Cons c p)
  then show ?case
    by (subst (1 2 3) strcmp.simps) (auto simp: cstring_def)
qed

theorem strcmp_reversed_sign_witness:
  "strcmp (bytes ''acaros'') (bytes ''avl'') = 19 \<and> strcmp (bytes ''a'') (bytes ''avl'') = -1"
  using strcmp_reversed_sign [of "bytes ''a''" "of_char (CHR ''c'')" "bytes ''aros''"
      "of_char (CHR ''v'')" "bytes ''l''"]
  by (simp add: bytes_def cstring_def)

section \<open>strncmp and strstr\<close>

lemma strlen_loop_contents: "strlen_loop s i = i + of_nat (length (contents s))"
  by (induction s arbitrary: i) (auto simp: contents_def)

lemma strlen_contents: "strlen s = of_nat (length (contents s))"
  by (simp add: strlen_def strlen_loop_contents)

text \<open>With the length of the second string as its limit strncmp tests for a prefix.\<close>

lemma strncmp_prefix:
  "cstring s1 \<Longrightarrow> cstring s2 \<Longrightarrow> length s2 < 2 ^ 32 \<Longrightarrow>
   strncmp s1 s2 (of_nat (length s2)) = 0 \<longleftrightarrow> prefix s2 s1"
proof (induction s2 arbitrary: s1)
  case Nil
  then show ?case by (subst strncmp.simps) simp
next
  case (Cons d ds)
  have n: "(of_nat (length (d # ds)) :: u32) \<noteq> 0"
    using Cons.prems(3) of_nat_u32_eq_0 [of "length (d # ds)"] by simp
  have "(of_nat (length (d # ds)) :: u32) - 1 = of_nat (length ds)" by simp
  with Cons n show ?case
    by (cases s1; subst strncmp.simps) (auto simp: cstring_def sint_eq_iff)
qed

text \<open>Strncmp looks one character past its limit: for two strings that agree on the first
  n characters and are both longer, it is 0 only if the next character agrees too, and otherwise
  1 whatever the order of the strings.\<close>
lemma strncmp_past_limit:
  assumes "cstring s1" "cstring s2" "take n s1 = take n s2" "n < length s1" "n < length s2"
    and "n < 2 ^ 32"
  shows "strncmp s1 s2 (of_nat n) = (if s1 ! n = s2 ! n then 0 else 1)"
  using assms
proof (induction n arbitrary: s1 s2)
  case 0
  then show ?case by (cases s1; cases s2; subst strncmp.simps) (auto simp: cstring_def)
next
  case (Suc n)
  then obtain c a b where s: "s1 = c # a" "s2 = c # b" by (cases s1; cases s2) auto
  have "(of_nat (Suc n) :: u32) \<noteq> 0"
    using Suc.prems(6) of_nat_u32_eq_0 [of "Suc n"] by simp
  then show ?case using Suc s by (subst strncmp.simps) (auto simp: cstring_def)
qed

theorem strncmp_past_limit_witness:
  "strncmp (bytes ''root=a'') (bytes ''root=b'') 5 = 1 \<and> bytes ''root=a'' ! 5 \<noteq> bytes ''root=b'' ! 5"
  using strncmp_past_limit [of "bytes ''root=a''" "bytes ''root=b''" 5]
  by (simp add: bytes_def cstring_def)

lemma strstr_loop_finds:
  assumes "cstring h" "cstring n" "length h < 2 ^ 31" "length n < 2 ^ 31" "i \<le> length h"
  shows "strstr_loop h n (of_nat (length h)) (of_nat (length n)) (of_nat i) =
    (if \<exists>j. i \<le> j \<and> j < length h \<and> prefix n (drop j h)
     then Some (LEAST j. i \<le> j \<and> prefix n (drop j h)) else None)"
  using assms(5)
proof (induction "length h - i" arbitrary: i)
  case 0
  then show ?case using assms by (subst strstr_loop.simps) auto
next
  case (Suc k)
  then have i: "i < length h" by simp
  have u: "unat (of_nat i :: u32) = i" using i assms(3) by (simp add: unat_of_nat_u32)
  have cmp: "strncmp (drop i h) n (of_nat (length n)) = 0 \<longleftrightarrow> prefix n (drop i h)"
    using assms by (intro strncmp_prefix) (auto simp: cstring_def dest: in_set_dropD)
  have lt: "sint (of_nat i :: u32) < sint (of_nat (length h) :: u32)"
    using i assms(3) by (simp add: sint_of_nat_u32)
  show ?case
  proof (cases "prefix n (drop i h)")
    case True
    then have "(LEAST j. i \<le> j \<and> prefix n (drop j h)) = i" by (intro Least_equality) auto
    then show ?thesis using True i lt u cmp by (subst strstr_loop.simps) auto
  next
    case False
    then have e: "i \<le> j \<and> prefix n (drop j h) \<longleftrightarrow> Suc i \<le> j \<and> prefix n (drop j h)" for j
      by (metis Suc_leD Suc_leI le_neq_implies_less)
    have "strstr_loop h n (of_nat (length h)) (of_nat (length n)) (of_nat i) =
        strstr_loop h n (of_nat (length h)) (of_nat (length n)) (of_nat (Suc i))"
      using False lt u cmp by (subst strstr_loop.simps) (simp add: add.commute)
    also have "\<dots> = (if \<exists>j. Suc i \<le> j \<and> j < length h \<and> prefix n (drop j h)
        then Some (LEAST j. Suc i \<le> j \<and> prefix n (drop j h)) else None)"
      using Suc i by (intro Suc.hyps(1)) auto
    also have "(\<exists>j. Suc i \<le> j \<and> j < length h \<and> prefix n (drop j h)) \<longleftrightarrow>
        (\<exists>j. i \<le> j \<and> j < length h \<and> prefix n (drop j h))" using e by blast
    finally show ?thesis by (simp only: e)
  qed
qed

text \<open>Strstr returns the offset of the first occurrence of the needle, and null when there
  is none; except that an empty haystack is never searched, so even the empty needle is not found
  there.\<close>
lemma strstr_first_occurrence:
  assumes "cstring h" "cstring n" "length h < 2 ^ 31" "length n < 2 ^ 31"
  shows "strstr h n =
    (if h \<noteq> [] \<and> sublist n h then Some (LEAST j. prefix n (drop j h)) else None)"
proof -
  have "strstr h n = strstr_loop h n (of_nat (length h)) (of_nat (length n)) (of_nat 0)"
    using assms by (simp add: strstr_def strlen_contents)
  also have "\<dots> = (if \<exists>j < length h. prefix n (drop j h)
      then Some (LEAST j. prefix n (drop j h)) else None)"
    using strstr_loop_finds [OF assms, of 0] by simp
  also have "(\<exists>j < length h. prefix n (drop j h)) \<longleftrightarrow> h \<noteq> [] \<and> sublist n h"
  proof
    assume "\<exists>j < length h. prefix n (drop j h)"
    then show "h \<noteq> [] \<and> sublist n h"
      by (auto simp: sublist_def prefix_def) (metis append_take_drop_id)
  next
    assume s: "h \<noteq> [] \<and> sublist n h"
    then obtain ps ss where h: "h = ps @ n @ ss" by (auto simp: sublist_def)
    show "\<exists>j < length h. prefix n (drop j h)"
    proof (cases "n = []")
      case True
      then show ?thesis using s by (intro exI [of _ 0]) auto
    next
      case False
      then show ?thesis using h by (intro exI [of _ "length ps"]) auto
    qed
  qed
  finally show ?thesis by simp
qed

theorem strstr_first_occurrence_witness:
  "strstr (bytes ''root=ramdisk'') (bytes ''disk'') = Some 8"
proof -
  have "(LEAST j. prefix (bytes ''disk'') (drop j (bytes ''root=ramdisk''))) = 8"
  proof (rule Least_equality)
    show "prefix (bytes ''disk'') (drop 8 (bytes ''root=ramdisk''))" by (simp add: bytes_def)
    fix y assume p: "prefix (bytes ''disk'') (drop y (bytes ''root=ramdisk''))"
    show "8 \<le> y"
    proof (rule ccontr)
      assume "\<not> 8 \<le> y"
      then have "y \<in> {0, 1, 2, 3, 4, 5, 6, 7}" by auto
      then show False using p by (auto simp: bytes_def)
    qed
  qed
  moreover have "sublist (bytes ''disk'') (bytes ''root=ramdisk'')"
    by (auto simp: bytes_def sublist_def intro: exI [of _ "bytes ''root=ram''"])
  ultimately show ?thesis
    using strstr_first_occurrence [of "bytes ''root=ramdisk''" "bytes ''disk''"]
    by (simp add: bytes_def cstring_def)
qed

section \<open>Printing numbers\<close>

definition radix :: "u8 \<Rightarrow> nat" where
  "radix base = unat (itoa_divisor base)"

definition digit_value :: "u8 \<Rightarrow> nat" where
  "digit_value c = (if c < 97 then unat c - 48 else unat c - 87)"

definition numeral_value :: "u8 \<Rightarrow> u8 list \<Rightarrow> nat" where
  "numeral_value base ds = foldl (\<lambda>v c. v * radix base + digit_value c) 0 ds"

lemma radix_cases: "radix base = 16 \<or> radix base = 10"
  by (simp add: radix_def itoa_divisor_def)

lemma digit_char_unat: "unat r < 16 \<Longrightarrow> unat (digit_char r) = (if unat r < 10 then unat r + 48 else unat r + 87)"
proof -
  assume a: "unat r < 16"
  have u: "unat (ucast r :: u8) = unat r" using a by (simp add: unsigned_ucast_eq take_bit_nat_eq_self)
  show ?thesis
  proof (cases "unat r < 10")
    case True
    then have "r < 10" by (simp add: word_less_nat_alt)
    then show ?thesis using True u a by (simp add: digit_char_def unat_word_ariths)
  next
    case False
    then have r: "\<not> r < 10" by (simp add: word_less_nat_alt)
    have "ucast r + of_char (CHR ''a'') - 10 = (ucast r + 87 :: u8)" by simp
    then show ?thesis using False u a r by (simp add: digit_char_def unat_word_ariths)
  qed
qed

lemma digit_value_char: "unat r < 16 \<Longrightarrow> digit_value (digit_char r) = unat r"
  using digit_char_unat [of r] by (auto simp: digit_value_def word_less_nat_alt split: if_splits)

lemma reverse_loop_middle:
  "length a = p1 \<Longrightarrow> reverse_loop (a @ xs @ b) p1 (p1 + length xs - 1) = a @ rev xs @ b"
proof (induction xs arbitrary: a b p1 rule: length_induct)
  case (1 xs)
  show ?case
  proof (cases "length xs < 2")
    case True
    then have "rev xs = xs" by (cases xs rule: rev_cases) auto
    then show ?thesis using True by (subst reverse_loop.simps) auto
  next
    case False
    then obtain x ys y where xs: "xs = x # ys @ [y]"
      by (metis append_butlast_last_id length_Cons length_0_conv list.exhaust list.size(3)
          less_2_cases_iff One_nat_def)
    have "reverse_loop (a @ xs @ b) p1 (p1 + length xs - 1) =
        reverse_loop ((a @ [y]) @ ys @ (x # b)) (p1 + 1) (p1 + length xs - 1 - 1)"
      using 1(2) xs by (subst reverse_loop.simps) (simp add: nth_append list_update_append)
    also have "\<dots> = (a @ [y]) @ rev ys @ (x # b)"
      using 1(1) [rule_format, of ys "a @ [y]" "p1 + 1" "x # b"] 1(2) xs by simp
    finally show ?thesis using xs by simp
  qed
qed

lemma reverse_loop_rev: "reverse_loop ds 0 (length ds - 1) = rev ds"
  using reverse_loop_middle [of "[]" 0 ds "[]"] by simp

lemma itoa_digits_value: "numeral_value base (rev (itoa_digits base ud)) = unat ud"
proof (induction base ud rule: itoa_digits.induct)
  case (1 base ud)
  let ?q = "ud div itoa_divisor base" and ?r = "ud mod itoa_divisor base"
  have r: "unat ?r = unat ud mod radix base" "unat ?q = unat ud div radix base"
    by (simp_all add: unat_mod unat_div radix_def)
  have "unat ?r < 16" using r(1) radix_cases [of base] by (auto simp: less_imp_le_nat)
  then have d: "digit_value (digit_char ?r) = unat ud mod radix base"
    using digit_value_char r(1) by simp
  have "numeral_value base (rev (if ?q = 0 then [] else itoa_digits base ?q)) = unat ud div radix base"
    using 1 r(2) by (auto simp: numeral_value_def)
  then show ?case using d by (subst itoa_digits.simps) (simp add: numeral_value_def)
qed

lemma itoa_digits_length: "unat ud < radix base ^ k \<Longrightarrow> 0 < k \<Longrightarrow> length (itoa_digits base ud) \<le> k"
proof (induction base ud arbitrary: k rule: itoa_digits.induct)
  case (1 base ud)
  let ?q = "ud div itoa_divisor base"
  show ?case
  proof (cases "?q = 0")
    case True
    then show ?thesis using 1 by (subst itoa_digits.simps) simp
  next
    case False
    have q: "unat ?q = unat ud div radix base" by (simp add: unat_div radix_def)
    obtain j where j: "k = Suc j" using 1(3) by (cases k) auto
    have lt: "unat ?q < radix base ^ j"
      using 1(2) j radix_cases [of base] by (auto simp: q less_mult_imp_div_less mult.commute)
    moreover have "unat ?q \<noteq> 0" using False by (simp only: unsigned_eq_0_iff) simp
    with lt have "0 < j" by (cases j) auto
    ultimately have "length (itoa_digits base ?q) \<le> j" using 1(1) [OF False] by blast
    then show ?thesis using False j by (subst itoa_digits.simps) simp
  qed
qed

lemma itoa_digits_not_nil [simp]: "itoa_digits base ud \<noteq> []"
  by (subst itoa_digits.simps) simp

lemma itoa_digits_chars:
  "c \<in> set (itoa_digits base ud) \<Longrightarrow> c \<noteq> 0 \<and> digit_value c < radix base"
proof (induction base ud rule: itoa_digits.induct)
  case (1 base ud)
  let ?r = "ud mod itoa_divisor base"
  have r: "unat ?r < radix base" "unat ?r < 16"
    using radix_cases [of base] by (auto simp: unat_mod radix_def less_imp_le_nat)
  have "unat (digit_char ?r) \<noteq> 0" using digit_char_unat [OF r(2)] by auto
  then have "digit_char ?r \<noteq> 0" by auto
  moreover have "digit_value (digit_char ?r) < radix base" using digit_value_char [OF r(2)] r(1) by simp
  ultimately show ?case using 1 by (subst (asm) itoa_digits.simps) (auto split: if_splits)
qed

lemma itoa_digits_leading: "ud \<noteq> 0 \<Longrightarrow> digit_value (last (itoa_digits base ud)) \<noteq> 0"
proof (induction base ud rule: itoa_digits.induct)
  case (1 base ud)
  let ?q = "ud div itoa_divisor base" and ?r = "ud mod itoa_divisor base"
  show ?case
  proof (cases "?q = 0")
    case True
    have u: "unat ?r = unat ud mod radix base" "unat ?q = unat ud div radix base"
      by (simp_all add: unat_mod unat_div radix_def)
    have "unat ?q = 0" using True by simp
    then have "unat ud < radix base" using u(2) radix_cases [of base] by (auto simp: div_eq_0_iff)
    then have "unat ?r = unat ud" "unat ?r < 16" using u(1) radix_cases [of base] by auto
    then show ?thesis using True 1(2) digit_value_char [of ?r] by (subst itoa_digits.simps) (simp add: unat_eq_0)
  next
    case False
    then show ?thesis using 1 by (subst itoa_digits.simps) simp
  qed
qed



section \<open>Filling and copying memory\<close>

text \<open>Memset writes c to the n bytes from s on and nothing else, and returns the pointer
  past the last one instead of s.\<close>
lemma memset_fills:
  "memset s c n mem = ((\<lambda>p. if p - s < n then ucast c else mem p), s + n)"
proof (induction s c n mem rule: memset.induct)
  case (1 s c n mem)
  show ?case
  proof (cases "n = 0")
    case True
    then show ?thesis by (subst memset.simps) simp
  next
    case False
    have "(p - (s + 1) < n - 1 \<or> p = s) \<longleftrightarrow> p - s < n" for p
    proof (cases "p = s")
      case True
      then show ?thesis using \<open>n \<noteq> 0\<close> by (simp add: word_neq_0_conv)
    next
      case ps: False
      have "p - s \<noteq> 0" using ps by simp
      then have "unat (p - s - 1) = unat (p - s) - 1" "unat (p - s) \<noteq> 0"
        by (rule unat_minus_one, simp only: unsigned_eq_0_iff not_False_eq_True)
      moreover have "unat (n - 1) = unat n - 1" "unat n \<noteq> 0"
        using False by (rule unat_minus_one, simp only: unsigned_eq_0_iff not_False_eq_True)
      ultimately show ?thesis using ps by (simp add: word_less_nat_alt diff_diff_eq [symmetric]) linarith
    qed
    then have "(\<lambda>p. if p - (s + 1) < n - 1 then ucast c else (mem(s := ucast c)) p) =
        (\<lambda>p. if p - s < n then ucast c else mem p)"
      using False by (intro ext) (auto simp: fun_upd_def word_neq_0_conv)
    then show ?thesis using 1 [OF False] False by (subst memset.simps) (simp add: algebra_simps fun_upd_def)
  qed
qed

end
