(* ===== verification/Console.thy ===== *)
theory Console
  imports Libc
begin

text \<open>
  The text console: arch/i386/lib/stand/video.c, the screen half of libc.c (newline, cls,
  video_putchar, setPos) and the log of kernel/log/log.c, which prints through it.  The screen
  is the byte memory behind the framebuffer pointer, by offset; bytes sent to the I/O ports are
  recorded in order.
\<close>

section \<open>video.c\<close>

record video =
  rows :: nat
  columns :: nat
  attr :: u8
  framebuffer :: u32
  screen :: "nat \<Rightarrow> u8"
  ports :: "(u16 \<times> u8) list"
  cur_row :: nat
  cur_col :: nat

definition mal_outb_p :: "u8 \<Rightarrow> u16 \<Rightarrow> video \<Rightarrow> video" where
  "mal_outb_p val port v = v\<lparr>ports := ports v @ [(port, val)]\<rparr>"

definition video_setFramebufferBase :: "u32 \<Rightarrow> video \<Rightarrow> video" where
  "video_setFramebufferBase addr v = v\<lparr>framebuffer := addr\<rparr>"

definition video_set_cursor_pos :: "nat \<Rightarrow> nat \<Rightarrow> video \<Rightarrow> video" where
  "video_set_cursor_pos row col v =
     (let off = col + row * columns v
      in mal_outb_p (of_nat (off mod 256)) 0x3d5 (mal_outb_p 0xf 0x3d4
           (mal_outb_p (of_nat (off div 256)) 0x3d5 (mal_outb_p 0xe 0x3d4 v))))"

definition video_set_screen_size :: "nat \<Rightarrow> nat \<Rightarrow> video \<Rightarrow> video" where
  "video_set_screen_size r c v = v\<lparr>rows := r, columns := c\<rparr>"

definition cell :: "nat \<Rightarrow> nat \<Rightarrow> nat \<Rightarrow> nat" where
  "cell cols row col = (col + row * cols) * 2"

definition put_byte :: "nat \<Rightarrow> u8 \<Rightarrow> video \<Rightarrow> video" where
  "put_byte off b v = v\<lparr>screen := (screen v)(off := b)\<rparr>"

definition video_draw_char :: "u8 \<Rightarrow> nat \<Rightarrow> nat \<Rightarrow> video \<Rightarrow> video" where
  "video_draw_char c row col v =
     (let off = cell (columns v) row col;
          v1 = put_byte off c v;
          v2 = put_byte (off + 1) (attr v1) v1
      in video_set_cursor_pos row (col + 1) v2)"

fun video_drawAA :: "u8 list \<Rightarrow> nat \<Rightarrow> nat \<Rightarrow> video \<Rightarrow> video" where
  "video_drawAA [] row col v = v"
| "video_drawAA (c # s) row col v =
     (if c = 10 then video_drawAA s (row + 1) 0 v
      else if col < columns v \<and> row < rows v then video_drawAA s row (col + 1) (video_draw_char c row col v)
      else video_drawAA s row col v)"

definition copy_cell :: "nat \<Rightarrow> nat \<Rightarrow> nat \<Rightarrow> video \<Rightarrow> video" where
  "copy_cell delta row col v =
     (let from = cell (columns v) row col;
          dst = cell (columns v) (row - delta) col;
          v1 = put_byte dst (screen v from) v
      in put_byte (dst + 1) (screen v1 (from + 1)) v1)"

definition blank_cell :: "nat \<Rightarrow> nat \<Rightarrow> video \<Rightarrow> video" where
  "blank_cell row col v =
     (let off = cell (columns v) row col;
          v1 = put_byte off 32 v
      in put_byte (off + 1) (attr v1) v1)"

definition video_vscroll :: "nat \<Rightarrow> video \<Rightarrow> video" where
  "video_vscroll delta v =
     (let v1 = fold (\<lambda>row. fold (copy_cell delta row) [0..<columns v]) [delta..<rows v] v
      in fold (\<lambda>row. fold (blank_cell row) [0..<columns v]) [rows v - delta..<rows v] v1)"

definition setAttr :: "u8 \<Rightarrow> video \<Rightarrow> video" where
  "setAttr a v = v\<lparr>attr := a\<rparr>"

definition getAttr :: "video \<Rightarrow> u8" where
  "getAttr v = attr v"

text \<open>video_cls steps over the bytes two by two: cell i is at the offsets 2 i and 2 i + 1.\<close>

definition video_cls :: "video \<Rightarrow> video" where
  "video_cls v = fold (\<lambda>i w. put_byte (2 * i + 1) (attr w) (put_byte (2 * i) 32 w)) [0..<rows v * columns v] v"

section \<open>The screen half of libc.c\<close>

definition setPos :: "nat \<Rightarrow> nat \<Rightarrow> video \<Rightarrow> video" where
  "setPos r c v = v\<lparr>cur_row := r, cur_col := c\<rparr>"

definition newline :: "video \<Rightarrow> video" where
  "newline v =
     (let v1 = v\<lparr>cur_col := 0, cur_row := cur_row v + 1\<rparr>;
          v2 = (if cur_row v1 \<ge> rows v1 then video_vscroll 1 (v1\<lparr>cur_row := cur_row v1 - 1\<rparr>) else v1)
      in video_set_cursor_pos (cur_row v2) (cur_col v2) v2)"

definition cls :: "video \<Rightarrow> video" where
  "cls v = setPos 0 0 (video_cls v)"

definition video_putchar :: "u32 \<Rightarrow> video \<Rightarrow> video" where
  "video_putchar c v =
     (if c = 10 \<or> c = 13 then newline v
      else
        (let v1 = video_draw_char (ucast c) (cur_row v) (cur_col v) v;
             v2 = v1\<lparr>cur_col := cur_col v1 + 1\<rparr>
         in if cur_col v2 \<ge> columns v2 then newline v2 else v2))"

definition print_out :: "u32 list \<Rightarrow> video \<Rightarrow> video" where
  "print_out out v = fold video_putchar out v"

section \<open>log.c\<close>

datatype log_level = LOG_DEBUG | LOG_MESSAGE | LOG_CRITICAL | LOG_PANIC

fun severity :: "log_level \<Rightarrow> nat" where
  "severity LOG_DEBUG = 0"
| "severity LOG_MESSAGE = 1"
| "severity LOG_CRITICAL = 2"
| "severity LOG_PANIC = 3"

text \<open>vklogf under the level log_level: what it prints.  panic prints through it and never
  returns: it is the outcome Panic wherever the models call it.\<close>

definition vklogf :: "log_level \<Rightarrow> log_level \<Rightarrow> u8 list \<Rightarrow> vararg list \<Rightarrow> u32 list outcome" where
  "vklogf log_level level fmt args =
     (if severity level < severity log_level then Ret []
      else
        obind (dvprintf (if level = LOG_CRITICAL then bytes ''CRITICAL: ''
                         else if level = LOG_PANIC then bytes ''PANIC: '' else []) [])
          (\<lambda>o1. obind (dvprintf fmt args) (\<lambda>o2. Ret (o1 @ o2))))"

definition log_setLevel :: "log_level \<Rightarrow> log_level \<Rightarrow> log_level \<times> log_level" where
  "log_setLevel lvl log_level = (lvl, log_level)"

section \<open>Scrolling\<close>

lemma put_byte_sel [simp]:
  "rows (put_byte i b v) = rows v" "columns (put_byte i b v) = columns v"
  "attr (put_byte i b v) = attr v" "cur_row (put_byte i b v) = cur_row v"
  "cur_col (put_byte i b v) = cur_col v" "screen (put_byte i b v) = (screen v)(i := b)"
  "ports (put_byte i b v) = ports v" "framebuffer (put_byte i b v) = framebuffer v"
  by (simp_all add: put_byte_def)

text \<open>Everything but the screen's bytes.\<close>

definition same_settings :: "video \<Rightarrow> video \<Rightarrow> bool" where
  "same_settings v w \<longleftrightarrow> rows w = rows v \<and> columns w = columns v \<and> attr w = attr v \<and>
     cur_row w = cur_row v \<and> cur_col w = cur_col v"

lemma same_settings_fold:
  "(\<And>x w. same_settings w (f x w)) \<Longrightarrow> same_settings v (fold f xs v)"
  by (induction xs arbitrary: v) (auto simp: same_settings_def)

lemma copy_row:
  assumes "delta \<le> row" "0 < delta" "n \<le> columns v"
  shows "screen (fold (copy_cell delta row) [0..<n] v) = (\<lambda>i.
      if cell (columns v) (row - delta) 0 \<le> i \<and> i < cell (columns v) (row - delta) n
      then screen v (i + 2 * delta * columns v) else screen v i) \<and>
    same_settings v (fold (copy_cell delta row) [0..<n] v)"
  using assms(3)
proof (induction n)
  case 0
  then show ?case by (auto simp: cell_def same_settings_def fun_eq_iff)
next
  case (Suc n)
  define w where "w = fold (copy_cell delta row) [0..<n] v"
  define C where "C = columns v"
  define d where "d = cell C (row - delta) n"
  have IH: "screen w = (\<lambda>i. if cell C (row - delta) 0 \<le> i \<and> i < d then screen v (i + 2 * delta * C)
      else screen v i)" "same_settings v w"
    using Suc unfolding w_def C_def d_def by simp_all
  obtain k where "row = k + delta" using assms(1) by (metis le_Suc_ex add.commute)
  then have fr: "cell C row n = d + 2 * delta * C" by (simp add: d_def cell_def algebra_simps)
  have c: "cell C (row - delta) 0 \<le> d" "cell C (row - delta) (Suc n) = d + 2"
    by (simp_all add: d_def cell_def)
  have pos: "0 < 2 * delta * C" using Suc.prems assms(2) by (auto simp: C_def)
  have w: "columns w = C" using IH(2) by (simp add: same_settings_def C_def)
  have "screen (copy_cell delta row n w) = (screen w)
      (d := screen w (d + 2 * delta * C), d + 1 := screen w (d + 1 + 2 * delta * C))"
    "same_settings w (copy_cell delta row n w)"
    using pos by (simp_all add: copy_cell_def Let_def w fr same_settings_def d_def [symmetric])
  then have "screen (copy_cell delta row n w) = (\<lambda>i. if cell C (row - delta) 0 \<le> i \<and>
      i < cell C (row - delta) (Suc n) then screen v (i + 2 * delta * C) else screen v i)"
    "same_settings v (copy_cell delta row n w)"
    using IH c pos by (auto simp: fun_eq_iff same_settings_def)
  then show ?case unfolding w_def C_def by simp
qed

lemma copy_rows:
  assumes "0 < delta" "delta \<le> m"
  shows "screen (fold (\<lambda>row. fold (copy_cell delta row) [0..<columns v]) [delta..<m] v) = (\<lambda>i.
      if i < cell (columns v) (m - delta) 0 then screen v (i + 2 * delta * columns v) else screen v i) \<and>
    same_settings v (fold (\<lambda>row. fold (copy_cell delta row) [0..<columns v]) [delta..<m] v)"
  using assms(2)
proof (induction m rule: dec_induct)
  case base
  then show ?case by (simp add: cell_def same_settings_def)
next
  case (step m)
  define C where "C = columns v"
  define w where "w = fold (\<lambda>row. fold (copy_cell delta row) [0..<C]) [delta..<m] v"
  have IH: "screen w = (\<lambda>i. if i < cell C (m - delta) 0 then screen v (i + 2 * delta * C) else screen v i)"
    "same_settings v w" using step.IH unfolding w_def C_def by blast+
  then have C: "columns w = C" by (simp add: same_settings_def C_def)
  have ends: "cell C (m - delta) C = cell C (Suc m - delta) 0" "cell C (m - delta) 0 \<le> cell C (m - delta) C"
    using step.hyps(1) by (simp_all add: cell_def Suc_diff_le)
  have "screen (fold (copy_cell delta m) [0..<C] w) = (\<lambda>i. if i < cell C (Suc m - delta) 0
      then screen v (i + 2 * delta * C) else screen v i)"
    using copy_row [of delta m C w] step.hyps(1) assms(1) C ends IH(1) by (auto simp: fun_eq_iff)
  moreover have "same_settings v (fold (copy_cell delta m) [0..<C] w)"
    using copy_row [of delta m C w] step.hyps(1) assms(1) C IH(2) by (auto simp: same_settings_def)
  moreover have "fold (\<lambda>row. fold (copy_cell delta row) [0..<columns v]) [delta..<Suc m] v =
      fold (copy_cell delta m) [0..<C] w"
    using step.hyps(1) by (simp add: w_def C_def)
  ultimately show ?case by (simp only: C_def)
qed

definition blank_byte :: "video \<Rightarrow> nat \<Rightarrow> u8" where
  "blank_byte v i = (if even i then 32 else attr v)"

lemma blank_row:
  "screen (fold (blank_cell row) [0..<n] v) = (\<lambda>i.
      if cell (columns v) row 0 \<le> i \<and> i < cell (columns v) row n then blank_byte v i else screen v i) \<and>
   same_settings v (fold (blank_cell row) [0..<n] v)"
proof (induction n)
  case 0
  then show ?case by (auto simp: cell_def same_settings_def fun_eq_iff)
next
  case (Suc n)
  define w where "w = fold (blank_cell row) [0..<n] v"
  define d where "d = cell (columns v) row n"
  have IH: "screen w = (\<lambda>i. if cell (columns v) row 0 \<le> i \<and> i < d then blank_byte v i else screen v i)"
    "same_settings v w" using Suc unfolding w_def d_def by blast+
  have d: "even d" "cell (columns v) row (Suc n) = d + 2" "cell (columns v) row 0 \<le> d"
    by (simp_all add: cell_def d_def)
  have w: "columns w = columns v" "attr w = attr v" using IH(2) by (auto simp: same_settings_def)
  have "screen (blank_cell row n w) = (screen w)(d := 32, d + 1 := attr v)"
    "same_settings w (blank_cell row n w)"
    by (simp_all add: blank_cell_def Let_def w same_settings_def d_def)
  then show ?case using IH d
    by (auto simp: w_def [symmetric] fun_eq_iff blank_byte_def same_settings_def)
qed

lemma blank_rows:
  "k \<le> m \<Longrightarrow> screen (fold (\<lambda>row. fold (blank_cell row) [0..<columns v]) [k..<m] v) = (\<lambda>i.
      if cell (columns v) k 0 \<le> i \<and> i < cell (columns v) m 0 then blank_byte v i else screen v i) \<and>
   same_settings v (fold (\<lambda>row. fold (blank_cell row) [0..<columns v]) [k..<m] v)"
proof (induction m rule: dec_induct)
  case base
  then show ?case by (auto simp: same_settings_def fun_eq_iff)
next
  case (step m)
  define C where "C = columns v"
  define w where "w = fold (\<lambda>row. fold (blank_cell row) [0..<C]) [k..<m] v"
  have IH: "screen w = (\<lambda>i. if cell C k 0 \<le> i \<and> i < cell C m 0 then blank_byte v i else screen v i)"
    "same_settings v w" using step.IH unfolding w_def C_def by blast+
  have w: "columns w = C" "blank_byte w = blank_byte v"
    using IH(2) by (auto simp: same_settings_def C_def blank_byte_def fun_eq_iff)
  have ends: "cell C m C = cell C (Suc m) 0" "cell C k 0 \<le> cell C m 0" "cell C m 0 \<le> cell C m C"
    using step.hyps(1) by (simp_all add: cell_def)
  have "screen (fold (blank_cell m) [0..<C] w) =
      (\<lambda>i. if cell C k 0 \<le> i \<and> i < cell C (Suc m) 0 then blank_byte v i else screen v i)"
    using blank_row [of m C w] w IH(1) ends by (auto simp: fun_eq_iff)
  moreover have "same_settings v (fold (blank_cell m) [0..<C] w)"
    using blank_row [of m C w] IH(2) by (auto simp: same_settings_def)
  moreover have "fold (\<lambda>row. fold (blank_cell row) [0..<columns v]) [k..<Suc m] v =
      fold (blank_cell m) [0..<C] w"
    using step.hyps(1) by (simp add: w_def C_def)
  ultimately show ?case by (simp only: C_def)
qed

text \<open>Scrolling moves every line up; the lines at the bottom are blank; nothing outside the
  framebuffer changes.\<close>

lemma video_vscroll_screen:
  assumes "0 < delta" "delta \<le> rows v"
  shows "screen (video_vscroll delta v) i =
     (if i < cell (columns v) (rows v - delta) 0 then screen v (i + 2 * delta * columns v)
      else if i < cell (columns v) (rows v) 0 then blank_byte v i
      else screen v i)"
    and "same_settings v (video_vscroll delta v)"
proof -
  define w where "w = fold (\<lambda>row. fold (copy_cell delta row) [0..<columns v]) [delta..<rows v] v"
  have w: "screen w = (\<lambda>i. if i < cell (columns v) (rows v - delta) 0
      then screen v (i + 2 * delta * columns v) else screen v i)" "same_settings v w"
    using copy_rows [OF assms] by (simp_all add: w_def)
  have s: "columns w = columns v" "blank_byte w = blank_byte v"
    using w(2) by (auto simp: same_settings_def blank_byte_def fun_eq_iff)
  have v: "video_vscroll delta v =
      fold (\<lambda>row. fold (blank_cell row) [0..<columns w]) [rows v - delta..<rows v] w"
    by (simp add: video_vscroll_def w_def [symmetric] s)
  have le: "cell C (rows v - delta) 0 \<le> cell C (rows v) 0" for C by (simp add: cell_def)
  show "screen (video_vscroll delta v) i =
     (if i < cell (columns v) (rows v - delta) 0 then screen v (i + 2 * delta * columns v)
      else if i < cell (columns v) (rows v) 0 then blank_byte v i
      else screen v i)"
    using blank_rows [of "rows v - delta" "rows v" w] s w(1) le [of "columns v"]
    unfolding v by auto
  show "same_settings v (video_vscroll delta v)"
    using blank_rows [of "rows v - delta" "rows v" w] w(2) unfolding v by (auto simp: same_settings_def)
qed

section \<open>Printing\<close>

definition on_screen :: "video \<Rightarrow> bool" where
  "on_screen v \<longleftrightarrow> cur_row v < rows v \<and> cur_col v < columns v"

lemma cursor_pos_sel [simp]:
  "same_settings v (video_set_cursor_pos r c v)" "screen (video_set_cursor_pos r c v) = screen v"
  by (simp_all add: video_set_cursor_pos_def mal_outb_p_def same_settings_def Let_def)

lemma draw_char_screen:
  "screen (video_draw_char c r k v) =
     (screen v)(cell (columns v) r k := c, cell (columns v) r k + 1 := attr v)"
  "same_settings v (video_draw_char c r k v)"
  by (simp_all add: video_draw_char_def Let_def same_settings_def)
    (simp add: video_set_cursor_pos_def mal_outb_p_def Let_def)+

text \<open>The lines of the console as the user sees them, after a newline from row r.\<close>

lemma newline_spec:
  assumes "cur_row v < rows v" "0 < columns v"
  shows "on_screen (newline v)" "rows (newline v) = rows v" "columns (newline v) = columns v"
    "cur_col (newline v) = 0" "cur_row (newline v) = min (cur_row v + 1) (rows v - 1)"
    "cell (columns v) (rows v) 0 \<le> i \<Longrightarrow> screen (newline v) i = screen v i"
    "cur_row v + 1 < rows v \<Longrightarrow> screen (newline v) = screen v"
    "cur_row v + 1 = rows v \<Longrightarrow> i < cell (columns v) (rows v - 1) 0 \<Longrightarrow>
       screen (newline v) i = screen v (i + 2 * columns v)"
proof -
  define u where "u = v\<lparr>cur_col := 0, cur_row := cur_row v + 1\<rparr>"
  define w where "w = (if rows v \<le> cur_row v + 1 then video_vscroll 1 (u\<lparr>cur_row := cur_row v\<rparr>) else u)"
  have n: "newline v = video_set_cursor_pos (cur_row w) (cur_col w) w"
    by (simp add: newline_def w_def u_def Let_def)
  have r: "1 \<le> rows (u\<lparr>cur_row := cur_row v\<rparr>)" using assms(1) by (simp add: u_def)
  note sc = video_vscroll_screen [OF zero_less_one r]
  have w: "rows w = rows v" "columns w = columns v" "cur_col w = 0"
    "cur_row w = min (cur_row v + 1) (rows v - 1)"
    using sc(2) assms(1) by (auto simp: w_def u_def same_settings_def)
  moreover have "same_settings w (newline v)" "screen (newline v) = screen w" by (simp_all add: n)
  moreover have le: "i < (rows v - Suc 0) * columns v * 2 \<Longrightarrow> i < rows v * columns v * 2"
    by (erule less_le_trans) simp
  ultimately show "on_screen (newline v)" "rows (newline v) = rows v" "columns (newline v) = columns v"
    "cur_col (newline v) = 0" "cur_row (newline v) = min (cur_row v + 1) (rows v - 1)"
    "cell (columns v) (rows v) 0 \<le> i \<Longrightarrow> screen (newline v) i = screen v i"
    "cur_row v + 1 < rows v \<Longrightarrow> screen (newline v) = screen v"
    "cur_row v + 1 = rows v \<Longrightarrow> i < cell (columns v) (rows v - 1) 0 \<Longrightarrow>
       screen (newline v) i = screen v (i + 2 * columns v)"
    using assms sc(1) [of i]
    by (auto simp: same_settings_def on_screen_def w_def u_def cell_def not_less [symmetric] dest: le)
qed

lemma video_putchar_stays:
  assumes "on_screen v"
  shows "on_screen (video_putchar c v) \<and> rows (video_putchar c v) = rows v \<and>
    columns (video_putchar c v) = columns v \<and>
    (\<forall>i. 2 * rows v * columns v \<le> i \<longrightarrow> screen (video_putchar c v) i = screen v i)"
proof (cases "c = 10 \<or> c = 13")
  case True
  then show ?thesis using newline_spec [of v] assms
    by (auto simp: video_putchar_def on_screen_def cell_def mult_ac)
next
  case False
  define d where "d = video_draw_char (ucast c) (cur_row v) (cur_col v) v"
  define w where "w = d\<lparr>cur_col := cur_col d + 1\<rparr>"
  have d: "same_settings v d" using draw_char_screen(2) by (simp add: d_def)
  then have w: "rows w = rows v" "columns w = columns v" "cur_row w = cur_row v"
    "cur_col w = cur_col v + 1" by (auto simp: same_settings_def w_def)
  have "cell (columns v) (cur_row v) (cur_col v) + 1 < 2 * (Suc (cur_row v) * columns v)"
    using assms by (simp add: cell_def on_screen_def)
  also have "\<dots> \<le> 2 * (rows v * columns v)" using assms
    by (intro mult_le_mono) (auto simp: on_screen_def)
  finally have fr: "2 * rows v * columns v \<le> i \<Longrightarrow> screen w i = screen v i" for i
    by (auto simp: w_def d_def draw_char_screen)
  have p: "video_putchar c v = (if cur_col w \<ge> columns w then newline w else w)"
    using False by (simp add: video_putchar_def w_def d_def Let_def)
  show ?thesis
  proof (cases "cur_col w \<ge> columns w")
    case True
    have "cur_row w < rows w" "0 < columns w" using assms w by (auto simp: on_screen_def)
    from newline_spec [OF this] show ?thesis using True w fr p by (auto simp: cell_def mult_ac)
  next
    case False
    then show ?thesis using assms w fr p by (auto simp: on_screen_def)
  qed
qed

text \<open>C33: the console never leaves the screen: whatever is printed, with the cursor on the
  screen, the cursor stays on it, the size of the screen does not change, and no byte beyond its
  rows * columns cells of two bytes is written.\<close>
theorem print_out_stays_on_screen:
  assumes "on_screen v"
  shows "on_screen (print_out out v) \<and> rows (print_out out v) = rows v \<and>
    columns (print_out out v) = columns v \<and>
    (\<forall>i. 2 * rows v * columns v \<le> i \<longrightarrow> screen (print_out out v) i = screen v i)"
  using assms
proof (induction out arbitrary: v)
  case Nil
  then show ?case by (simp add: print_out_def)
next
  case (Cons c out)
  let ?w = "video_putchar c v"
  have "on_screen ?w \<and> rows ?w = rows v \<and> columns ?w = columns v \<and>
      (\<forall>i. 2 * rows v * columns v \<le> i \<longrightarrow> screen ?w i = screen v i)"
    using Cons.prems by (rule video_putchar_stays)
  moreover have "print_out (c # out) v = print_out out ?w" by (simp add: print_out_def)
  ultimately show ?case using Cons.IH [of ?w] by simp
qed

theorem print_out_stays_on_screen_witness:
  "on_screen (print_out [72, 10, 105] \<lparr>rows = 25, columns = 80, attr = 0x17, framebuffer = 0xB8000,
     screen = \<lambda>i. 0, ports = [], cur_row = 24, cur_col = 79\<rparr>)"
  using print_out_stays_on_screen [of "\<lparr>rows = 25, columns = 80, attr = 0x17,
    framebuffer = 0xB8000, screen = \<lambda>i. 0, ports = [], cur_row = 24, cur_col = 79\<rparr>" "[72, 10, 105]"]
  by (simp add: on_screen_def)

end
