(* ===== verification/Stand.thy ===== *)
theory Stand
  imports Klist Libc
begin

text \<open>
  arch/i386/lib/stand/stand.c and include/stand/stand.h: the boot context, that is the modules
  the loader found, the physical memory map, and the map of virtual segments, an array with a
  list that keeps the segments ordered by base address.
\<close>

section \<open>The boot context\<close>

record stand_module =
  mod_name :: "u8 list"
  mod_data :: u32
  mod_size :: u32

datatype stand_physical_type = RESERVED | RAM

record stand_physical_segment =
  ps_base :: u32
  ps_length :: u32
  ps_type :: stand_physical_type

record stand_virtual_segment =
  vs_base :: u32
  vs_length :: u32
  vs_flags :: u16
  vs_tag :: "u8 list"

text \<open>The nodes of the ordered list: its head, and the segments by their index in the array.\<close>

datatype vnode = Ordered | VSeg nat

record stand_boot_context =
  modules :: "stand_module list"
  memory_map :: "stand_physical_segment list"
  allocated_base :: u32
  allocated_length :: u32
  allocatedCount :: nat
  vsegments :: "nat \<Rightarrow> stand_virtual_segment"
  vcount :: nat
  ordered :: "vnode lheap"
  cmdline :: "u8 list"
  kernelBase :: u32

definition LOADER_MAX_SEGMENTS :: nat where
  "LOADER_MAX_SEGMENTS = 81"

definition LOADER_MAX_MODULES :: nat where
  "LOADER_MAX_MODULES = 512"

section \<open>Modules and physical memory\<close>

text \<open>boot_context is null until stand_init.\<close>

fun find_module_loop :: "stand_module list \<Rightarrow> u8 list \<Rightarrow> u32" where
  "find_module_loop [] name = 0"
| "find_module_loop (m # ms) name = (if strcmp (mod_name m) name = 0 then mod_data m else find_module_loop ms name)"

definition stand_findModule :: "stand_boot_context option \<Rightarrow> u8 list \<Rightarrow> u32" where
  "stand_findModule ctx name = (case ctx of None \<Rightarrow> 0 | Some c \<Rightarrow> find_module_loop (modules c) name)"

fun ram_segment_loop :: "stand_physical_segment list \<Rightarrow> nat \<Rightarrow> nat \<Rightarrow> stand_physical_segment option" where
  "ram_segment_loop [] r idx = None"
| "ram_segment_loop (s # ss) r idx =
     (if ps_type s = RAM then (if r = idx then Some s else ram_segment_loop ss (r + 1) idx)
      else ram_segment_loop ss r idx)"

definition stand_getRamSegment :: "nat \<Rightarrow> stand_boot_context \<Rightarrow> stand_physical_segment option" where
  "stand_getRamSegment idx ctx = ram_segment_loop (memory_map ctx) 0 idx"

section \<open>Virtual segments\<close>

text \<open>
  The loops over the ordered list are bounded by the size of the array: a list of segments
  cannot be longer.
\<close>

fun sorted_pos :: "nat \<Rightarrow> stand_boot_context \<Rightarrow> u32 \<Rightarrow> vnode \<Rightarrow> vnode outcome" where
  "sorted_pos fuel ctx base pos =
     (case pos of
        Ordered \<Rightarrow> Ret Ordered
      | VSeg i \<Rightarrow>
          (case fuel of 0 \<Rightarrow> Timeout
           | Suc k \<Rightarrow>
               if base \<le> vs_base (vsegments ctx i) then Ret pos
               else sorted_pos k ctx base (nxt (ordered ctx) pos)))"

definition stand_virtualSegmentSortedInsert :: "nat \<Rightarrow> stand_boot_context \<Rightarrow> stand_boot_context outcome" where
  "stand_virtualSegmentSortedInsert vs ctx =
     obind (sorted_pos LOADER_MAX_SEGMENTS ctx (vs_base (vsegments ctx vs)) (nxt (ordered ctx) Ordered))
       (\<lambda>pos. Ret (ctx\<lparr>ordered := list_add_tail (VSeg vs) pos (ordered ctx)\<rparr>))"

definition stand_reserveVirtualRange ::
  "u32 \<Rightarrow> u32 \<Rightarrow> u16 \<Rightarrow> u8 list \<Rightarrow> stand_boot_context \<Rightarrow> stand_boot_context outcome" where
  "stand_reserveVirtualRange start len flags tag ctx =
     (if len = 0 then Panic ''ASSERTION FAILED''
      else if \<exists>i \<in> set [0..<vcount ctx]. vs_base (vsegments ctx i) = start
      then Panic ''DOUBLE reserveVirtualRange''
      else if vcount ctx \<ge> LOADER_MAX_SEGMENTS then Fault
      else
        (let n = vcount ctx;
             vm = \<lparr>vs_base = start, vs_length = len, vs_flags = flags, vs_tag = tag\<rparr>;
             ctx1 = ctx\<lparr>vcount := n + 1, vsegments := (vsegments ctx)(n := vm)\<rparr>
         in obind (stand_virtualSegmentSortedInsert n ctx1)
              (\<lambda>ctx2. if vcount ctx2 > 80 then Panic ''overflowing libstand virtual map!'' else Ret ctx2)))"

fun next_free_loop :: "nat \<Rightarrow> stand_boot_context \<Rightarrow> u32 \<Rightarrow> u32 \<Rightarrow> u32 \<Rightarrow> vnode \<Rightarrow> u32 outcome" where
  "next_free_loop fuel ctx pages start end pos =
     (case pos of
        Ordered \<Rightarrow> Ret start
      | VSeg i \<Rightarrow>
          (case fuel of 0 \<Rightarrow> Timeout
           | Suc k \<Rightarrow>
               (let sbase = vs_base (vsegments ctx i);
                    send = sbase + vs_length (vsegments ctx i) * PAGE_SIZE;
                    next = nxt (ordered ctx) pos
                in if send < start then next_free_loop k ctx pages start end next
                   else if sbase \<le> start \<and> start < send \<or> sbase \<le> end \<and> end < send then
                     (let end' = send + pages * PAGE_SIZE
                      in if end' < send then Panic ''WRAPPING AROUND''
                         else next_free_loop k ctx pages send end' next)
                   else next_free_loop k ctx pages start end next)))"

definition stand_getNextFreeVirtual :: "u32 \<Rightarrow> u32 \<Rightarrow> stand_boot_context \<Rightarrow> u32 outcome" where
  "stand_getNextFreeVirtual start pages ctx =
     (if pages = 0 then Panic ''ASSERTION FAILED''
      else next_free_loop LOADER_MAX_SEGMENTS ctx pages start (start + pages * PAGE_SIZE)
             (nxt (ordered ctx) Ordered))"

fun find_segment_loop :: "(nat \<Rightarrow> stand_virtual_segment) \<Rightarrow> u8 list \<Rightarrow> nat \<Rightarrow> nat \<Rightarrow> nat option" where
  "find_segment_loop segs name i 0 = None"
| "find_segment_loop segs name i (Suc n) =
     (if strcmp (vs_tag (segs i)) name = 0 then Some i else find_segment_loop segs name (i + 1) n)"

definition stand_findVirtualSegment :: "u8 list \<Rightarrow> stand_boot_context \<Rightarrow> nat option" where
  "stand_findVirtualSegment name ctx = find_segment_loop (vsegments ctx) name 0 (vcount ctx)"

declare sorted_pos.simps [simp del] next_free_loop.simps [simp del]

section \<open>The map of segments\<close>

text \<open>The segments in list order, by index; wf_map says what every operation keeps: the list
  holds exactly the segments of the array, ordered by base, and no two have the same base.\<close>

definition seg_base :: "stand_boot_context \<Rightarrow> nat \<Rightarrow> u32" where
  "seg_base ctx i = vs_base (vsegments ctx i)"

definition wf_map :: "stand_boot_context \<Rightarrow> nat list \<Rightarrow> bool" where
  "wf_map ctx L \<longleftrightarrow> dll (ordered ctx) Ordered (map VSeg L) \<and> set L = {0..<vcount ctx} \<and>
     vcount ctx \<le> 80 \<and> sorted_wrt (\<lambda>i j. seg_base ctx i < seg_base ctx j) L"

lemma sorted_pos_walk:
  "linked (ordered ctx) p (map VSeg L) Ordered \<Longrightarrow> length L \<le> fuel \<Longrightarrow>
   sorted_pos fuel ctx base (nxt (ordered ctx) p) =
     Ret (case dropWhile (\<lambda>i. seg_base ctx i < base) L of [] \<Rightarrow> Ordered | i # _ \<Rightarrow> VSeg i)"
proof (induction L arbitrary: p fuel)
  case Nil
  then show ?case by (simp add: sorted_pos.simps)
next
  case (Cons i L)
  then obtain k where "fuel = Suc k" by (cases fuel) auto
  with Cons show ?case by (subst sorted_pos.simps) (auto simp: seg_base_def not_less not_le)
qed

lemma sorted_insert_middle:
  assumes "sorted_wrt (\<lambda>i j. key i < (key j :: u32)) L" "\<And>i. i \<in> set L \<Longrightarrow> key i \<noteq> key n"
    "L = xs @ ys" "xs = takeWhile (\<lambda>i. key i < key n) L"
  shows "sorted_wrt (\<lambda>i j. key i < key j) (xs @ n # ys)"
proof -
  have yd: "ys = dropWhile (\<lambda>i. key i < key n) L"
    using assms(3,4) by (metis append_same_eq same_append_eq takeWhile_dropWhile_id)
  have x: "\<And>i. i \<in> set xs \<Longrightarrow> key i < key n" using assms(4) by (auto dest: set_takeWhileD)
  have y: "key n < key j" if "j \<in> set ys" for j
  proof (cases ys)
    case Nil
    then show ?thesis using that by simp
  next
    case (Cons i zs)
    then have "\<not> key i < key n" using yd hd_dropWhile [of "\<lambda>i. key i < key n" L] by simp
    moreover have "i \<in> set L" "j = i \<or> key i < key j"
      using assms(1,3) Cons that by (auto simp: sorted_wrt_append)
    ultimately show ?thesis using assms(2) [of i] by (metis less_linear less_trans)
  qed
  show ?thesis using assms(1,3) x y by (fastforce simp: sorted_wrt_append)
qed

end
