(* ===== verification/Pfd.thy ===== *)
theory Pfd
  imports Klist
begin

text \<open>
  kernel/mm/pfd.c and include/mm/pfd.h: the page frame database.  Every physical frame is a node
  of one of three lists, free, used and bad, whose heads are in the database; a frame's number is
  its index in the array of nodes.
\<close>

section \<open>The database and its operations\<close>

datatype pfd_node = FreeList | UsedList | BadList | Frame nat

record page_frame_database =
  pfd_links :: "pfd_node lheap"
  numFrames :: nat

datatype frame_state = free | used | bad

fun state_list :: "frame_state \<Rightarrow> pfd_node" where
  "state_list free = FreeList"
| "state_list used = UsedList"
| "state_list bad = BadList"

definition mm_pfd_setFrameState ::
  "nat \<Rightarrow> frame_state \<Rightarrow> page_frame_database \<Rightarrow> page_frame_database outcome" where
  "mm_pfd_setFrameState frame st pfd =
     (if frame < numFrames pfd
      then Ret (pfd\<lparr>pfd_links := list_add (Frame frame) (state_list st)
                     (list_del (Frame frame) (pfd_links pfd))\<rparr>)
      else Fault)"

definition mm_allocPhysicalPage :: "page_frame_database \<Rightarrow> (u32 \<times> page_frame_database) outcome" where
  "mm_allocPhysicalPage pfd =
     (if list_empty FreeList (pfd_links pfd) then Panic ''EMPTY FREE LIST''
      else
        (case nxt (pfd_links pfd) FreeList of
           Frame firstFree \<Rightarrow>
             obind (mm_pfd_setFrameState firstFree used pfd)
               (\<lambda>pfd'. Ret (of_nat firstFree * PAGE_SIZE, pfd'))
         | _ \<Rightarrow> Fault))"

definition mm_allocPhysicalPageBottom :: "page_frame_database \<Rightarrow> (u32 \<times> page_frame_database) outcome" where
  "mm_allocPhysicalPageBottom pfd =
     (if list_empty FreeList (pfd_links pfd) then Panic ''EMPTY FREE LIST''
      else
        (case prv (pfd_links pfd) FreeList of
           Frame firstFree \<Rightarrow>
             obind (mm_pfd_setFrameState firstFree used pfd)
               (\<lambda>pfd'. Ret (of_nat firstFree * PAGE_SIZE, pfd'))
         | _ \<Rightarrow> Fault))"

section \<open>Every frame is in exactly one list\<close>

definition heads :: "pfd_node set" where
  "heads = {FreeList, UsedList, BadList}"

text \<open>frames_of pfd L: L gives the frame numbers of each list, and together the lists hold every
  frame of the machine once.\<close>

definition frames_of :: "page_frame_database \<Rightarrow> (frame_state \<Rightarrow> nat list) \<Rightarrow> bool" where
  "frames_of pfd L \<longleftrightarrow>
     (\<forall>s. dll (pfd_links pfd) (state_list s) (map Frame (L s))) \<and>
     (\<forall>s t. s \<noteq> t \<longrightarrow> set (L s) \<inter> set (L t) = {}) \<and>
     set (L free) \<union> set (L used) \<union> set (L bad) = {..<numFrames pfd}"

definition by_head :: "(frame_state \<Rightarrow> nat list) \<Rightarrow> pfd_node \<Rightarrow> pfd_node list" where
  "by_head L h = (case h of FreeList \<Rightarrow> map Frame (L free) | UsedList \<Rightarrow> map Frame (L used)
     | BadList \<Rightarrow> map Frame (L bad) | Frame i \<Rightarrow> [])"

lemma by_head_state [simp]: "by_head L (state_list s) = map Frame (L s)"
  by (cases s) (simp_all add: by_head_def)

lemma state_list_inject [simp]: "state_list s = state_list t \<longleftrightarrow> s = t"
  by (cases s; cases t) auto

lemma state_list_not_frame [simp]: "state_list s \<noteq> Frame i" "Frame i \<noteq> state_list s"
  by (cases s; simp)+

lemma heads_state: "heads = range state_list"
proof -
  have "(UNIV :: frame_state set) = {free, used, bad}" using frame_state.exhaust by auto
  then show ?thesis unfolding heads_def by (metis image_insert image_empty state_list.simps)
qed

lemma frames_of_family: "frames_of pfd L \<Longrightarrow> klist.family (pfd_links pfd) heads (by_head L)"
  by (rule klist.familyI) (fastforce simp: frames_of_def heads_state)+

lemma frames_of_distinct: "frames_of pfd L \<Longrightarrow> distinct (L s)"
  using dll_distinct [of "pfd_links pfd" "state_list s" "map Frame (L s)"]
  by (auto simp: frames_of_def distinct_map)

lemma frames_of_member:
  assumes "i < numFrames pfd" "frames_of pfd L"
  obtains s where "i \<in> set (L s)"
  using assms unfolding frames_of_def by blast

definition move_frame :: "nat \<Rightarrow> frame_state \<Rightarrow> frame_state \<Rightarrow> (frame_state \<Rightarrow> nat list) \<Rightarrow> frame_state \<Rightarrow> nat list" where
  "move_frame i s t L = (let L1 = L(s := remove1 i (L s)) in L1(t := i # L1 t))"

lemma move_to_by_head:
  "klist.move_to (Frame i) (state_list s) (state_list t) (by_head L) (state_list u) =
     map Frame (move_frame i s t L u)"
proof -
  have "inj Frame" by (simp add: inj_def)
  then have "remove1 (Frame i) (map Frame xs) = map Frame (remove1 i xs)" for xs
    by (induction xs) (auto simp: inj_eq)
  then show ?thesis by (simp add: klist.move_to_def move_frame_def Let_def)
qed

lemma setFrameState_moves:
  assumes "frames_of pfd L" "i \<in> set (L s)"
  shows "\<exists>pfd'. mm_pfd_setFrameState i t pfd = Ret pfd' \<and> frames_of pfd' (move_frame i s t L) \<and>
    numFrames pfd' = numFrames pfd"
proof -
  let ?h = "pfd_links pfd" and ?M = "move_frame i s t L"
  have n: "i < numFrames pfd" using assms unfolding frames_of_def by (cases s) auto
  have F: "klist.family (list_add (Frame i) (state_list t) (list_del (Frame i) ?h)) heads
      (klist.move_to (Frame i) (state_list s) (state_list t) (by_head L))"
    using assms by (intro klist.family_move frames_of_family) (auto simp: heads_state)
  have d: "dll (list_add (Frame i) (state_list t) (list_del (Frame i) ?h)) (state_list u) (map Frame (?M u))" for u
    using klist.family_rep [OF F, of "state_list u"] by (auto simp: heads_state move_to_by_head)
  have dis: "set (?M u) \<inter> set (?M v) = {}" if "u \<noteq> v" for u v
    using klist.family_disjoint [OF F, of "state_list u" "state_list v"] that
    by (auto simp: heads_state move_to_by_head)
  have m: "set (?M u) = (if u = t then insert i (set (L u)) else set (L u) - {i})" for u
  proof -
    have "set (remove1 i (L s)) = set (L s) - {i}" using frames_of_distinct [OF assms(1)] by simp
    moreover have "u \<noteq> s \<Longrightarrow> i \<notin> set (L u)" using assms by (auto simp: frames_of_def)
    ultimately show ?thesis using assms(2) by (auto simp: move_frame_def Let_def)
  qed
  have "set (?M free) \<union> set (?M used) \<union> set (?M bad) = set (L free) \<union> set (L used) \<union> set (L bad)"
    using assms(2) unfolding m by (cases t; cases s) auto
  with assms(1) d dis n show ?thesis
    by (auto simp: mm_pfd_setFrameState_def frames_of_def)
qed

section \<open>Building the database\<close>

text \<open>
  The first half of mm_initPfd: the three empty lists, and every frame in the bad list.  The
  rest of it is loops of mm_pfd_setFrameState; set_states runs such a sequence of calls.
\<close>

definition pfd_all_bad :: "nat \<Rightarrow> pfd_node lheap \<Rightarrow> page_frame_database" where
  "pfd_all_bad n h =
     (let h1 = INIT_LIST_HEAD UsedList (INIT_LIST_HEAD FreeList (INIT_LIST_HEAD BadList h))
      in \<lparr>pfd_links = fold (\<lambda>i. list_add (Frame i) BadList) [0..<n] h1, numFrames = n\<rparr>)"

fun set_states :: "(nat \<times> frame_state) list \<Rightarrow> page_frame_database \<Rightarrow> page_frame_database outcome" where
  "set_states [] pfd = Ret pfd"
| "set_states ((i, st) # cs) pfd = obind (mm_pfd_setFrameState i st pfd) (set_states cs)"

lemma pfd_all_bad_frames:
  "frames_of (pfd_all_bad n h) (\<lambda>s. if s = bad then rev [0..<n] else [])"
proof -
  define h1 where "h1 = INIT_LIST_HEAD UsedList (INIT_LIST_HEAD FreeList (INIT_LIST_HEAD BadList h))"
  define F where "F k = fold (\<lambda>i. list_add (Frame i) BadList) [0..<k] h1" for k
  have "dll (F k) FreeList [] \<and> dll (F k) UsedList [] \<and> dll (F k) BadList (map Frame (rev [0..<k]))" for k
  proof (induction k)
    case 0
    then show ?case by (simp add: F_def h1_def dll_def lheap_defs)
  next
    case (Suc k)
    have "F (Suc k) = list_add (Frame k) BadList (F k)" by (simp add: F_def)
    moreover have "Frame k \<notin> set (BadList # map Frame (rev [0..<k]))" by auto
    ultimately show ?case
      using Suc dll_add_after_head [of "F k" BadList "map Frame (rev [0..<k])" "Frame k"]
      by (auto intro: dll_frame_list_add)
  qed
  from this [of n] have "dll (F n) (state_list s) (map Frame (if s = bad then rev [0..<n] else []))" for s
    by (cases s) simp_all
  then show ?thesis by (auto simp: frames_of_def pfd_all_bad_def F_def h1_def Let_def)
qed

text \<open>A frame ends in the list of the last call about it.\<close>

definition last_state :: "nat \<Rightarrow> (nat \<times> frame_state) list \<Rightarrow> frame_state \<Rightarrow> frame_state" where
  "last_state i cs s = (case map_of (rev cs) i of None \<Rightarrow> s | Some t \<Rightarrow> t)"

lemma last_state_simps [simp]:
  "last_state i [] s = s"
  "last_state i ((j, t) # cs) s = last_state i cs (if i = j then t else s)"
  by (simp_all add: last_state_def map_add_def split: option.split)

lemma set_states_last:
  "frames_of pfd L \<Longrightarrow> \<forall>(i, t) \<in> set cs. i < numFrames pfd \<Longrightarrow>
   \<exists>pfd' L'. set_states cs pfd = Ret pfd' \<and> frames_of pfd' L' \<and> numFrames pfd' = numFrames pfd \<and>
     (\<forall>i s. i \<in> set (L s) \<longrightarrow> i \<in> set (L' (last_state i cs s)))"
proof (induction cs arbitrary: pfd L)
  case Nil
  then show ?case by auto
next
  case (Cons c cs)
  obtain j t where c: "c = (j, t)" by fastforce
  have "j < numFrames pfd" using Cons.prems(2) c by simp
  then obtain s where s: "j \<in> set (L s)" using Cons.prems(1) by (rule frames_of_member)
  from setFrameState_moves [OF Cons.prems(1) s] obtain pfd1 where p1:
    "mm_pfd_setFrameState j t pfd = Ret pfd1" "frames_of pfd1 (move_frame j s t L)"
    "numFrames pfd1 = numFrames pfd" by blast
  from Cons.IH [OF p1(2)] Cons.prems(2) p1(3) obtain pfd2 L2 where p2:
    "set_states cs pfd1 = Ret pfd2" "frames_of pfd2 L2" "numFrames pfd2 = numFrames pfd"
    "\<And>i u. i \<in> set (move_frame j s t L u) \<Longrightarrow> i \<in> set (L2 (last_state i cs u))" by auto
  have "i \<in> set (L2 (last_state i (c # cs) u))" if "i \<in> set (L u)" for i u
  proof (cases "i = j")
    case True
    have "j \<in> set (move_frame j s t L t)" by (simp add: move_frame_def Let_def)
    then have "j \<in> set (L2 (last_state j cs t))" by (rule p2(4))
    then show ?thesis using True c by simp
  next
    case False
    have "i \<in> set (move_frame j s t L u)" using False that by (auto simp: move_frame_def Let_def)
    then have "i \<in> set (L2 (last_state i cs u))" by (rule p2(4))
    then show ?thesis using False c by simp
  qed
  then have "\<forall>i s. i \<in> set (L s) \<longrightarrow> i \<in> set (L2 (last_state i (c # cs) s))" by blast
  moreover have "set_states (c # cs) pfd = Ret pfd2" using p1(1) p2(1) c by simp
  ultimately show ?case using p2(2,3) by blast
qed

section \<open>Allocation\<close>

lemma alloc_first:
  assumes "frames_of pfd L" "L free = i # rest"
  shows "\<exists>pfd'. mm_allocPhysicalPage pfd = Ret (of_nat i * PAGE_SIZE, pfd') \<and>
    frames_of pfd' (move_frame i free used L) \<and> numFrames pfd' = numFrames pfd"
proof -
  have d: "dll (pfd_links pfd) FreeList (map Frame (i # rest))"
    using assms unfolding frames_of_def by (metis state_list.simps(1))
  from setFrameState_moves [OF assms(1), of i free used] assms(2) obtain pfd' where
    "mm_pfd_setFrameState i used pfd = Ret pfd'" "frames_of pfd' (move_frame i free used L)"
    "numFrames pfd' = numFrames pfd" by auto
  then show ?thesis using dll_first [OF d] list_empty_iff [OF d] by (simp add: mm_allocPhysicalPage_def)
qed

text \<open>A run of n allocations, and the pages it hands out.\<close>

fun alloc_run :: "nat \<Rightarrow> page_frame_database \<Rightarrow> (u32 list \<times> page_frame_database) outcome" where
  "alloc_run 0 pfd = Ret ([], pfd)"
| "alloc_run (Suc n) pfd =
     obind (mm_allocPhysicalPage pfd) (\<lambda>(a, pfd1).
       obind (alloc_run n pfd1) (\<lambda>(as, pfd2). Ret (a # as, pfd2)))"

lemma alloc_run_takes:
  "frames_of pfd L \<Longrightarrow> n \<le> length (L free) \<Longrightarrow>
   \<exists>pfd' L'. alloc_run n pfd = Ret (map (\<lambda>i. of_nat i * PAGE_SIZE) (take n (L free)), pfd') \<and>
     frames_of pfd' L' \<and> L' free = drop n (L free) \<and> set (L' used) = set (take n (L free)) \<union> set (L used) \<and>
     L' bad = L bad"
proof (induction n arbitrary: pfd L)
  case 0
  then show ?case by auto
next
  case (Suc n)
  then obtain i rest where f: "L free = i # rest" by (cases "L free") auto
  from alloc_first [OF Suc.prems(1) f] obtain pfd1 where p1:
    "mm_allocPhysicalPage pfd = Ret (of_nat i * PAGE_SIZE, pfd1)"
    "frames_of pfd1 (move_frame i free used L)" by auto
  have m: "move_frame i free used L free = rest" "move_frame i free used L used = i # L used"
    "move_frame i free used L bad = L bad" using f by (simp_all add: move_frame_def Let_def)
  from Suc.IH [OF p1(2)] Suc.prems(2) m f obtain pfd2 L2 where
    "alloc_run n pfd1 = Ret (map (\<lambda>i. of_nat i * PAGE_SIZE) (take n rest), pfd2)"
    "frames_of pfd2 L2" "L2 free = drop n rest" "set (L2 used) = set (take n rest) \<union> set (i # L used)"
    "L2 bad = L bad" by auto
  then show ?case using p1(1) f by (intro exI [of _ pfd2] exI [of _ L2]) auto
qed

text \<open>C21: mm_pfd_setFrameState keeps the page frame database in order: every frame stays in
  exactly one of the three lists, the frame moves to the front of the list of its new state, and
  no other frame changes its list.\<close>
theorem setFrameState_keeps_partition:
  assumes "frames_of pfd L" and "i < numFrames pfd"
  shows "\<exists>pfd' L'. mm_pfd_setFrameState i t pfd = Ret pfd' \<and> frames_of pfd' L' \<and>
    numFrames pfd' = numFrames pfd \<and>
    hd (L' t) = i \<and> set (L' t) = insert i (set (L t)) \<and> (\<forall>u. u \<noteq> t \<longrightarrow> set (L' u) = set (L u) - {i})"
proof -
  from assms(2,1) obtain s where s: "i \<in> set (L s)" by (rule frames_of_member)
  from setFrameState_moves [OF assms(1) s] obtain pfd' where p: "mm_pfd_setFrameState i t pfd = Ret pfd'"
    "frames_of pfd' (move_frame i s t L)" "numFrames pfd' = numFrames pfd" by blast
  have o: "u \<noteq> s \<Longrightarrow> i \<notin> set (L u)" for u using assms(1) s by (auto simp: frames_of_def)
  have "set (remove1 i (L s)) = set (L s) - {i}" using frames_of_distinct [OF assms(1)] by simp
  then have "set (move_frame i s t L t) = insert i (set (L t))"
    "\<And>u. u \<noteq> t \<Longrightarrow> set (move_frame i s t L u) = set (L u) - {i}"
    "hd (move_frame i s t L t) = i"
    using o s by (auto simp: move_frame_def Let_def)
  with p show ?thesis by blast
qed

text \<open>A machine of four frames whose frames 1 and 2 are free.\<close>

definition four_frames :: "page_frame_database" where
  "four_frames = (case set_states [(2, free), (1, free)] (pfd_all_bad 4 \<lparr>nxt = \<lambda>p. p, prv = \<lambda>p. p\<rparr>)
     of Ret pfd \<Rightarrow> pfd)"

definition four_lists :: "frame_state \<Rightarrow> nat list" where
  "four_lists s = (case s of free \<Rightarrow> [1, 2] | used \<Rightarrow> [] | bad \<Rightarrow> [3, 0])"

lemma four_frames_ok: "frames_of four_frames four_lists" "numFrames four_frames = 4"
proof -
  define p0 where "p0 = pfd_all_bad 4 \<lparr>nxt = \<lambda>p. p, prv = \<lambda>p. p\<rparr>"
  define L0 where "L0 = (\<lambda>s. if s = bad then rev [0..<4] else [])"
  have "frames_of p0 L0" unfolding p0_def L0_def by (rule pfd_all_bad_frames)
  from setFrameState_moves [OF this, of 2 bad free] obtain p1 where p1:
    "mm_pfd_setFrameState 2 free p0 = Ret p1" "frames_of p1 (move_frame 2 bad free L0)"
    "numFrames p1 = numFrames p0" by (auto simp: L0_def)
  from setFrameState_moves [OF p1(2), of 1 bad free] obtain p2 where p2:
    "mm_pfd_setFrameState 1 free p1 = Ret p2"
    "frames_of p2 (move_frame 1 bad free (move_frame 2 bad free L0))" "numFrames p2 = numFrames p1"
    by (auto simp: L0_def move_frame_def Let_def)
  have "move_frame 1 bad free (move_frame 2 bad free L0) = four_lists"
    by (rule ext) (simp add: L0_def move_frame_def Let_def four_lists_def upt_rec split: frame_state.split)
  moreover have "four_frames = p2" using p1(1) p2(1) by (simp add: four_frames_def p0_def)
  ultimately show "frames_of four_frames four_lists" "numFrames four_frames = 4"
    using p2 p1(3) by (simp_all add: p0_def pfd_all_bad_def)
qed

theorem setFrameState_keeps_partition_witness:
  "\<exists>pfd' L'. mm_pfd_setFrameState 3 used four_frames = Ret pfd' \<and> frames_of pfd' L' \<and>
     set (L' used) = {3} \<and> set (L' free) = {1, 2}"
proof -
  from setFrameState_keeps_partition [OF four_frames_ok(1), of 3 used] four_frames_ok(2)
  obtain pfd' L' where p: "mm_pfd_setFrameState 3 used four_frames = Ret pfd'" "frames_of pfd' L'"
    "set (L' used) = insert 3 (set (four_lists used))" "\<forall>u. u \<noteq> used \<longrightarrow> set (L' u) = set (four_lists u) - {3}"
    by auto
  then have "set (L' free) = {1, 2}" by (auto simp: four_lists_def)
  with p show ?thesis by (intro exI [of _ pfd'] exI [of _ L']) (simp add: four_lists_def)
qed

text \<open>C10: physical page allocation: while frames are free, mm_allocPhysicalPage hands out their
  addresses, n calls give n different pages, all of them of frames that were free and are used
  afterwards, and the rest of the database is unchanged; without a free frame the kernel panics.\<close>
theorem alloc_pages_distinct:
  assumes "frames_of pfd L" and "numFrames pfd \<le> 2 ^ 20"
  shows "if n \<le> length (L free)
    then \<exists>as pfd' L'. alloc_run n pfd = Ret (as, pfd') \<and> length as = n \<and> distinct as \<and>
      set as = (\<lambda>i. of_nat i * PAGE_SIZE) ` set (take n (L free)) \<and>
      frames_of pfd' L' \<and> L' free = drop n (L free) \<and>
      set (L' used) = set (take n (L free)) \<union> set (L used) \<and> L' bad = L bad
    else L free = [] \<longrightarrow> alloc_run n pfd = Panic ''EMPTY FREE LIST''"
proof (cases "n \<le> length (L free)")
  case True
  have "inj_on (\<lambda>i. of_nat i * PAGE_SIZE :: u32) {..<2 ^ 20}"
  proof (rule inj_onI)
    fix i j :: nat assume ij: "i \<in> {..<2 ^ 20}" "j \<in> {..<2 ^ 20}"
      and e: "(of_nat i * PAGE_SIZE :: u32) = of_nat j * PAGE_SIZE"
    have "unat (of_nat k * PAGE_SIZE :: u32) = k * 4096" if "k < 2 ^ 20" for k
      using that by (simp add: PAGE_SIZE_def unat_word_ariths unat_of_nat_u32)
    then have "i * 4096 = j * 4096" using ij e by (metis lessThan_iff)
    then show "i = j" by simp
  qed
  moreover have "set (L free) \<subseteq> {..<numFrames pfd}" using assms(1) unfolding frames_of_def by blast
  then have "set (L free) \<subseteq> {..<2 ^ 20}" using assms(2) by auto
  then have "set (take n (L free)) \<subseteq> {..<2 ^ 20}" by (meson in_set_takeD subset_iff)
  ultimately have "inj_on (\<lambda>i. of_nat i * PAGE_SIZE :: u32) (set (take n (L free)))"
    by (rule inj_on_subset)
  then have "distinct (map (\<lambda>i. of_nat i * PAGE_SIZE :: u32) (take n (L free)))"
    using frames_of_distinct [OF assms(1), of free] by (simp add: distinct_map)
  then show ?thesis using alloc_run_takes [OF assms(1) True] True by fastforce
next
  case False
  have d: "dll (pfd_links pfd) FreeList (map Frame (L free))"
    using assms(1) unfolding frames_of_def by (metis state_list.simps(1))
  show ?thesis using False list_empty_iff [OF d] by (cases n) (auto simp: mm_allocPhysicalPage_def)
qed

theorem alloc_pages_distinct_witness:
  "\<exists>as pfd' L'. alloc_run 2 four_frames = Ret (as, pfd') \<and> set as = {0x1000, 0x2000} \<and>
     frames_of pfd' L' \<and> L' free = [] \<and> set (L' used) = {1, 2} \<and> L' bad = [3, 0]"
proof -
  from alloc_pages_distinct [OF four_frames_ok(1), of 2] four_frames_ok(2)
  obtain as pfd' L' where "alloc_run 2 four_frames = Ret (as, pfd')"
    "set as = (\<lambda>i. of_nat i * PAGE_SIZE) ` set (take 2 (four_lists free))" "frames_of pfd' L'"
    "L' free = drop 2 (four_lists free)"
    "set (L' used) = set (take 2 (four_lists free)) \<union> set (four_lists used)" "L' bad = four_lists bad"
    by (auto simp: four_lists_def)
  then show ?thesis by (intro exI [of _ as] exI [of _ pfd'] exI [of _ L'])
    (simp add: four_lists_def PAGE_SIZE_def)
qed

end
