(* ===== verification/Hat.thy ===== *)
theory Hat
  imports Stand Pfd
begin

text \<open>
  The hardware address translation layer: arch/i386/lib/hat/initial_paging.c, hat.c and
  page_allocator.c.  Page directory and page tables live in physical memory; the kernel reaches
  them through the last entry of the directory, which points at the directory itself, so every
  access to an entry goes through the processor's own translation, mmu below (two-level i386
  paging with CR0.WP set, and no page larger than 4 KiB).  A virtual access that the processor
  refuses is a Fault.  The translation buffer is taken to be coherent: the code flushes it after
  every change.
\<close>

section \<open>Page table entries\<close>

definition PTE_PRESENT :: u16 where "PTE_PRESENT = 0x1"
definition PTE_RW :: u16 where "PTE_RW = 0x2"
definition PTE_USER :: u16 where "PTE_USER = 0x4"

definition PROT_WRITE :: u16 where "PROT_WRITE = 2"
definition PROT_USER :: u16 where "PROT_USER = 8"

definition hat_resetPte :: "u32 \<Rightarrow> u32" where
  "hat_resetPte data = 0"

definition hat_setPteBase :: "u32 \<Rightarrow> u32 \<Rightarrow> u32" where
  "hat_setPteBase base data = (let d = data AND NOT 0xFFF in d OR (base AND NOT 0xFFF))"

definition hat_setPteFlags :: "u16 \<Rightarrow> u32 \<Rightarrow> u32" where
  "hat_setPteFlags flags data = (let d = data AND NOT 0x1FF in d OR ucast flags)"

definition hat_getPteBase :: "u32 \<Rightarrow> u32" where
  "hat_getPteBase data = data AND NOT 0xFFF"

definition hat_getPteFlags :: "u32 \<Rightarrow> u16" where
  "hat_getPteFlags data = ucast (data AND 0x1FF)"

section \<open>The processor\<close>

text \<open>Physical memory by 32-bit words at their addresses, and the page directory register.\<close>

record machine =
  phys :: "u32 \<Rightarrow> u32"
  cr3 :: u32

definition hat_pageDirIndex :: "u32 \<Rightarrow> u32" where
  "hat_pageDirIndex addr = drop_bit 22 addr"

definition hat_pageTableIndex :: "u32 \<Rightarrow> u32" where
  "hat_pageTableIndex addr = drop_bit 12 addr AND 0x3FF"

definition allows :: "bool \<Rightarrow> u32 \<Rightarrow> bool" where
  "allows write data \<longleftrightarrow> data AND 1 \<noteq> 0 \<and> (write \<longrightarrow> data AND 2 \<noteq> 0)"

definition mmu :: "bool \<Rightarrow> u32 \<Rightarrow> machine \<Rightarrow> u32 option" where
  "mmu write va m =
     (let pde = phys m ((cr3 m AND NOT 0xFFF) + drop_bit 22 va * 4)
      in if \<not> allows write pde then None
         else
           (let pte = phys m ((pde AND NOT 0xFFF) + (drop_bit 12 va AND 0x3FF) * 4)
            in if \<not> allows write pte then None else Some ((pte AND NOT 0xFFF) + (va AND 0xFFF))))"

definition vread :: "u32 \<Rightarrow> machine \<Rightarrow> u32 outcome" where
  "vread va m = (case mmu False va m of None \<Rightarrow> Fault | Some pa \<Rightarrow> Ret (phys m pa))"

definition vwrite :: "u32 \<Rightarrow> u32 \<Rightarrow> machine \<Rightarrow> machine outcome" where
  "vwrite va x m = (case mmu True va m of None \<Rightarrow> Fault | Some pa \<Rightarrow> Ret (m\<lparr>phys := (phys m)(pa := x)\<rparr>))"

text \<open>memset on a region of words: the byte c in all four bytes of each word.\<close>

definition word_of_byte :: "u32 \<Rightarrow> u32" where
  "word_of_byte c = ucast (ucast c :: u8) * 0x01010101"

definition phys_memset :: "u32 \<Rightarrow> u32 \<Rightarrow> u32 \<Rightarrow> machine \<Rightarrow> machine" where
  "phys_memset s c n m = m\<lparr>phys := (\<lambda>p. if p - s < n then word_of_byte c else phys m p)\<rparr>"

function vmemset :: "u32 \<Rightarrow> u32 \<Rightarrow> u32 \<Rightarrow> machine \<Rightarrow> machine outcome" where
  "vmemset s c n m =
     (if n < 4 then Ret m else obind (vwrite s (word_of_byte c) m) (vmemset (s + 4) c (n - 4)))"
  by pat_completeness auto
termination
  by (relation "measure (\<lambda>(s, c, n, m). unat n)") (auto simp: not_less word_le_nat_alt unat_sub word_less_nat_alt)

declare vmemset.simps [simp del]

section \<open>Hyperspace\<close>

definition HYPERSPACE :: u32 where "HYPERSPACE = 0xffc00000"

definition PAGE_TABLE :: "u32 \<Rightarrow> u32" where
  "PAGE_TABLE addr = HYPERSPACE + hat_pageDirIndex addr * PAGE_SIZE"

definition PAGE_DIRECTORY :: u32 where
  "PAGE_DIRECTORY = HYPERSPACE + hat_pageDirIndex HYPERSPACE * PAGE_SIZE"

text \<open>The entry with index i of a table at a virtual address: read, and updated by f.\<close>

definition read_pte :: "u32 \<Rightarrow> u32 \<Rightarrow> machine \<Rightarrow> u32 outcome" where
  "read_pte table i m = vread (table + i * 4) m"

definition update_pte :: "u32 \<Rightarrow> u32 \<Rightarrow> (u32 \<Rightarrow> u32) \<Rightarrow> machine \<Rightarrow> machine outcome" where
  "update_pte table i f m = obind (read_pte table i m) (\<lambda>d. vwrite (table + i * 4) (f d) m)"

section \<open>hat.c\<close>

definition hat_virtualToPhysical :: "u32 \<Rightarrow> machine \<Rightarrow> u32 outcome" where
  "hat_virtualToPhysical ptr m =
     obind (read_pte PAGE_DIRECTORY (hat_pageDirIndex ptr) m) (\<lambda>d.
       if hat_getPteFlags d AND PTE_PRESENT = 0 then Ret (-1)
       else obind (read_pte (PAGE_TABLE ptr) (hat_pageTableIndex ptr) m) (\<lambda>t.
              Ret (hat_getPteBase t + (ptr AND 0xFFF))))"

definition hat_isPresent :: "u32 \<Rightarrow> machine \<Rightarrow> bool outcome" where
  "hat_isPresent ptr m =
     obind (read_pte PAGE_DIRECTORY (hat_pageDirIndex ptr) m) (\<lambda>d.
       if hat_getPteFlags d AND PTE_PRESENT = 0 then Ret False
       else obind (read_pte (PAGE_TABLE ptr) (hat_pageTableIndex ptr) m) (\<lambda>t.
              Ret (hat_getPteFlags t AND PTE_PRESENT \<noteq> 0)))"

definition hat_isValid :: "u32 \<Rightarrow> machine \<Rightarrow> bool outcome" where
  "hat_isValid addr m =
     obind (read_pte PAGE_DIRECTORY (hat_pageDirIndex addr) m) (\<lambda>d.
       if hat_getPteFlags d AND 1 \<noteq> 0
       then obind (read_pte (PAGE_TABLE addr) (hat_pageTableIndex addr) m) (\<lambda>t.
              Ret (hat_getPteFlags t AND 1 \<noteq> 0))
       else Ret False)"

definition mm_pageFrameNumber :: "u32 \<Rightarrow> u32" where
  "mm_pageFrameNumber ptr = ptr div PAGE_SIZE"

definition hat_sizeToPages :: "u32 \<Rightarrow> u32" where
  "hat_sizeToPages s = (if s = 0 then 0 else (s - 1) div PAGE_SIZE + 1)"

section \<open>Where pages come from\<close>

text \<open>hat_initial_get_next_physical_page is a function pointer: the loader's allocator until
  mm_initPfd replaces it by mm_allocPhysicalPage.\<close>

datatype page_source = FromLoader | FromPfd

record kernel =
  mach :: machine
  ctx :: stand_boot_context
  last_page :: u32
  source :: page_source
  pfd :: page_frame_database

definition init_page_allocator_base :: "kernel \<Rightarrow> kernel" where
  "init_page_allocator_base k = k\<lparr>last_page := allocated_base (ctx k)\<rparr>"

definition init_page_allocator :: "kernel \<Rightarrow> kernel outcome" where
  "init_page_allocator k =
     (case stand_getRamSegment 1 (ctx k) of
        None \<Rightarrow> Fault
      | Some high \<Rightarrow>
          (let lp = ps_base high + ps_length high - PAGE_SIZE * 2
           in Ret (k\<lparr>last_page := lp,
                     ctx := (ctx k)\<lparr>allocatedCount := 1, allocated_length := 0, allocated_base := lp\<rparr>\<rparr>)))"

definition get_next_physical_page :: "kernel \<Rightarrow> u32 \<times> kernel" where
  "get_next_physical_page k =
     (let lp = last_page k - PAGE_SIZE
      in (lp, k\<lparr>last_page := lp,
                ctx := (ctx k)\<lparr>allocated_length := allocated_length (ctx k) + 1, allocated_base := lp\<rparr>\<rparr>))"

definition hat_initial_get_next_physical_page :: "kernel \<Rightarrow> (u32 \<times> kernel) outcome" where
  "hat_initial_get_next_physical_page k =
     (case source k of
        FromLoader \<Rightarrow> Ret (get_next_physical_page k)
      | FromPfd \<Rightarrow> obind (mm_allocPhysicalPage (pfd k)) (\<lambda>(p, d). Ret (p, k\<lparr>pfd := d\<rparr>)))"

definition reserve :: "u32 \<Rightarrow> u32 \<Rightarrow> u16 \<Rightarrow> u8 list \<Rightarrow> kernel \<Rightarrow> kernel outcome" where
  "reserve start len flags tag k =
     obind (stand_reserveVirtualRange start len flags tag (ctx k)) (\<lambda>c. Ret (k\<lparr>ctx := c\<rparr>))"

definition on_mach :: "(machine \<Rightarrow> machine outcome) \<Rightarrow> kernel \<Rightarrow> kernel outcome" where
  "on_mach f k = obind (f (mach k)) (\<lambda>m. Ret (k\<lparr>mach := m\<rparr>))"

section \<open>Mapping\<close>

definition page_flags :: "u16 \<Rightarrow> u16" where
  "page_flags flags =
     (if flags AND PROT_WRITE \<noteq> 0 then PTE_RW else 0) OR (if flags AND PROT_USER \<noteq> 0 then PTE_USER else 0)"

definition phys_update :: "u32 \<Rightarrow> (u32 \<Rightarrow> u32) \<Rightarrow> machine \<Rightarrow> machine" where
  "phys_update a f m = m\<lparr>phys := (phys m)(a := f (phys m a))\<rparr>"

text \<open>hat_initInitialPaging runs with paging off: its pointers are physical addresses.\<close>

definition hat_initInitialPaging :: "kernel \<Rightarrow> kernel outcome" where
  "hat_initInitialPaging k =
     (let (page_directory, k1) = get_next_physical_page k;
          (identity, k2) = get_next_physical_page k1;
          m0 = phys_memset identity PAGE_SIZE 0 (phys_memset page_directory PAGE_SIZE 0 (mach k2));
          m1 = phys_update page_directory (hat_setPteFlags (PTE_RW OR PTE_PRESENT OR PTE_USER))
                 (phys_update page_directory (hat_setPteBase identity) m0);
          hyper = page_directory + hat_pageDirIndex HYPERSPACE * 4;
          m2 = phys_update hyper (hat_setPteFlags (PTE_RW OR PTE_PRESENT OR PTE_USER))
                 (phys_update hyper (hat_setPteBase page_directory) m1);
          m3 = fold (\<lambda>i m. phys_update (identity + of_nat i * 4) (hat_setPteFlags (PTE_RW OR PTE_PRESENT))
                       (phys_update (identity + of_nat i * 4) (hat_setPteBase (of_nat i * PAGE_SIZE)) m))
                 [0..<1024] m2
      in obind (reserve PAGE_DIRECTORY 1 0 (bytes ''hyperspace dir'') (k2\<lparr>mach := m3\<lparr>cr3 := page_directory\<rparr>\<rparr>))
           (reserve (PAGE_TABLE 0) 1 0 (bytes ''intentity pagetable'')))"

fun unmap_loop :: "nat \<Rightarrow> u32 \<Rightarrow> machine \<Rightarrow> machine outcome" where
  "unmap_loop 0 i m = Ret m"
| "unmap_loop (Suc n) i m = obind (update_pte (PAGE_TABLE 0) i (hat_setPteFlags 0) m) (unmap_loop n (i + 1))"

definition hat_unmapIdentityPages :: "machine \<Rightarrow> machine outcome" where
  "hat_unmapIdentityPages m = unmap_loop 1024 0 m"

text \<open>The two mapping loops.  The result says whether the function returned 1.\<close>

fun anon_loop :: "nat \<Rightarrow> u32 \<Rightarrow> u16 \<Rightarrow> kernel \<Rightarrow> (bool \<times> kernel) outcome" where
  "anon_loop 0 addr pflags k = Ret (True, k)"
| "anon_loop (Suc n) addr pflags k =
     (let dir = hat_pageDirIndex addr;
          tab = hat_pageTableIndex addr;
          map_page = (\<lambda>k.
            obind (hat_initial_get_next_physical_page k) (\<lambda>(page, k1).
              if page = -1 then Ret (False, k1)
              else
                obind (on_mach (update_pte (PAGE_TABLE addr) tab (hat_setPteBase page)) k1) (\<lambda>k2.
                  obind (on_mach (update_pte (PAGE_TABLE addr) tab (hat_setPteFlags (pflags OR PTE_PRESENT))) k2)
                    (anon_loop n (addr + PAGE_SIZE) pflags))))
      in obind (read_pte PAGE_DIRECTORY dir (mach k)) (\<lambda>d.
           if hat_getPteBase d \<noteq> 0 then map_page k
           else
             obind (hat_initial_get_next_physical_page k) (\<lambda>(new_page_table, k1).
               if new_page_table = -1 then Ret (False, k1)
               else
                 obind (reserve (PAGE_TABLE addr) 1 0 (bytes ''hyperspace table'') k1) (\<lambda>k2.
                   obind (on_mach (update_pte PAGE_DIRECTORY dir (hat_setPteBase new_page_table)) k2) (\<lambda>k3.
                     obind (on_mach (update_pte PAGE_DIRECTORY dir
                                       (hat_setPteFlags (PTE_RW OR PTE_PRESENT OR pflags))) k3) (\<lambda>k4.
                       obind (on_mach (vmemset (PAGE_TABLE addr) PAGE_SIZE 0) k4) map_page))))))"

definition hat_initialMapAnonPages ::
  "u32 \<Rightarrow> u32 \<Rightarrow> u16 \<Rightarrow> u8 list \<Rightarrow> kernel \<Rightarrow> (bool \<times> kernel) outcome" where
  "hat_initialMapAnonPages addr len flags tag k =
     (if len = 0 then Panic ''ASSERTION FAILED''
      else
        obind (stand_getNextFreeVirtual addr len (ctx k)) (\<lambda>oldReservation.
          obind (if oldReservation = addr then reserve addr len flags tag k else Ret k)
            (anon_loop (unat len) addr (page_flags flags))))"

fun map_loop :: "nat \<Rightarrow> u32 \<Rightarrow> u32 \<Rightarrow> kernel \<Rightarrow> (bool \<times> kernel) outcome" where
  "map_loop 0 addr phy k = Ret (True, k)"
| "map_loop (Suc n) addr phy k =
     (let dir = hat_pageDirIndex addr;
          tab = hat_pageTableIndex addr;
          map_page = (\<lambda>k.
            obind (on_mach (update_pte (PAGE_TABLE addr) tab (hat_setPteBase phy)) k) (\<lambda>k2.
              obind (on_mach (update_pte (PAGE_TABLE addr) tab
                                (hat_setPteFlags (PTE_RW OR PTE_PRESENT OR PTE_USER))) k2)
                (map_loop n (addr + PAGE_SIZE) (phy + PAGE_SIZE))))
      in obind (read_pte PAGE_DIRECTORY dir (mach k)) (\<lambda>d.
           if hat_getPteBase d \<noteq> 0 then map_page k
           else
             obind (hat_initial_get_next_physical_page k) (\<lambda>(new_page_table, k1).
               if new_page_table = 0 then Ret (False, k1)
               else
                 obind (reserve (PAGE_TABLE addr) 1 0 (bytes ''hyperspace table'') k1) (\<lambda>k2.
                   obind (on_mach (update_pte PAGE_DIRECTORY dir (hat_setPteBase new_page_table)) k2) (\<lambda>k3.
                     obind (on_mach (update_pte PAGE_DIRECTORY dir
                                       (hat_setPteFlags (PTE_RW OR PTE_PRESENT OR PTE_USER))) k3) (\<lambda>k4.
                       obind (on_mach (vmemset (PAGE_TABLE addr) PAGE_SIZE 0) k4) map_page))))))"

definition hat_initialMapPages ::
  "u32 \<Rightarrow> u32 \<Rightarrow> u32 \<Rightarrow> u16 \<Rightarrow> u8 list \<Rightarrow> kernel \<Rightarrow> (bool \<times> kernel) outcome" where
  "hat_initialMapPages addr phy len flags tag k =
     obind (stand_getNextFreeVirtual addr 1 (ctx k)) (\<lambda>oldReservation.
       obind (if oldReservation = addr then reserve addr len flags tag k else Ret k)
         (map_loop (unat len) addr phy))"

end
