(* ===== verification/Hat_Props.thy ===== *)
theory Hat_Props
  imports Hat Stand_Props
begin

text \<open>
  Correctness of the paging code of arch/i386/lib/hat: what the operations on an entry do, why
  the recursive entry of the page directory gives access to every table, and what the mapping
  loops establish for the processor's translation.
\<close>

section \<open>Words as page numbers and offsets\<close>

lemma unat_and_0xFFF: "unat (w AND 0xFFF :: u32) = unat w mod 4096"
proof -
  have "(mask 12 :: u32) = 0xFFF" by (simp add: mask_eq_exp_minus_1)
  then have "w AND 0xFFF = take_bit 12 w" by (simp add: take_bit_eq_mask)
  then have "unat (w AND 0xFFF) = take_bit 12 (unat w)" by (simp only: unsigned_take_bit_eq)
  then show ?thesis by (simp add: take_bit_eq_mod)
qed

lemma unat_and_0x3FF: "unat (w AND 0x3FF :: u32) = unat w mod 1024"
proof -
  have "(mask 10 :: u32) = 0x3FF" by (simp add: mask_eq_exp_minus_1)
  then have "w AND 0x3FF = take_bit 10 w" by (simp add: take_bit_eq_mask)
  then have "unat (w AND 0x3FF) = take_bit 10 (unat w)" by (simp only: unsigned_take_bit_eq)
  then show ?thesis by (simp add: take_bit_eq_mod)
qed

lemma page_split: "(w AND NOT 0xFFF) + (w AND 0xFFF) = (w :: u32)"
proof -
  have "(w AND NOT 0xFFF) AND (w AND 0xFFF) = 0" by (simp add: bit_eq_iff bit_simps)
  then have "(w AND NOT 0xFFF) + (w AND 0xFFF) = (w AND NOT 0xFFF) OR (w AND 0xFFF)"
    by (rule disjunctive_add_eq_or)
  also have "\<dots> = w" by (simp add: bit_eq_iff bit_simps) blast
  finally show ?thesis .
qed

lemma unat_page_base: "unat (w AND NOT 0xFFF :: u32) = unat w - unat w mod 4096"
proof -
  have "w AND NOT 0xFFF = w - (w AND 0xFFF)" using page_split [of w] by (simp add: algebra_simps)
  moreover have "w AND 0xFFF \<le> w" by (simp add: word_le_nat_alt unat_and_0xFFF)
  ultimately show ?thesis by (simp add: unat_sub unat_and_0xFFF)
qed

lemma unat_drop: "unat (drop_bit n (w :: u32)) = unat w div 2 ^ n"
  by (simp only: unat_drop_bit_eq drop_bit_eq_div [where 'a = nat])

lemma unat_dir: "unat (hat_pageDirIndex a) = unat a div 4194304"
  by (simp add: hat_pageDirIndex_def unat_drop)

lemma unat_tab: "unat (hat_pageTableIndex a) = unat a div 4096 mod 1024"
  by (simp add: hat_pageTableIndex_def unat_and_0x3FF unat_drop)

lemma dir_less: "unat (hat_pageDirIndex a) < 1024"
  using unat_u32_less [of a] by (simp add: unat_dir less_mult_imp_div_less)

lemma tab_less: "unat (hat_pageTableIndex a) < 1024"
  by (simp add: unat_tab)

text \<open>Every word is its directory index, table index and offset.\<close>

lemma address_parts:
  "unat a = unat (hat_pageDirIndex a) * 4194304 + unat (hat_pageTableIndex a) * 4096 + unat (a AND 0xFFF)"
proof -
  have "unat a div 4194304 = unat a div 4096 div 1024" by (simp flip: div_mult2_eq)
  moreover have "unat a = unat a div 4096 * 4096 + unat a mod 4096" by simp
  moreover have "unat a div 4096 = unat a div 4096 div 1024 * 1024 + unat a div 4096 mod 1024" by simp
  ultimately show ?thesis unfolding unat_dir unat_tab unat_and_0xFFF by linarith
qed

section \<open>The window on the page tables\<close>

text \<open>The virtual address of entry t in the table that hyperspace shows for directory entry d.\<close>

definition window :: "u32 \<Rightarrow> u32 \<Rightarrow> u32" where
  "window d t = HYPERSPACE + d * PAGE_SIZE + t * 4"

lemma window_parts:
  assumes "unat d < 1024" "unat t < 1024"
  shows "unat (window d t) = 4290772992 + unat d * 4096 + unat t * 4"
    "drop_bit 22 (window d t) = 1023" "drop_bit 12 (window d t) AND 0x3FF = d"
    "window d t AND 0xFFF = t * 4"
proof -
  have "unat (d * PAGE_SIZE) = unat d * 4096" "unat (t * 4) = unat t * 4"
    using assms by (simp_all add: PAGE_SIZE_def unat_word_ariths)
  then show u: "unat (window d t) = 4290772992 + unat d * 4096 + unat t * 4"
    using assms by (simp add: window_def HYPERSPACE_def unat_word_ariths)
  have "unat (window d t) div 4194304 = 1023"
    using assms unfolding u by (intro div_nat_eqI) simp_all
  then have "unat (drop_bit 22 (window d t)) = unat (1023 :: u32)" by (simp add: unat_drop)
  then show "drop_bit 22 (window d t) = 1023" by (rule unsigned_word_eqI)
  have "unat (window d t) div 4096 = 1047552 + unat d"
    using assms unfolding u by (intro div_nat_eqI) simp_all
  moreover have "(1047552 + unat d) mod 1024 = unat d" using assms by (intro mod_nat_eqI) simp_all
  ultimately have "unat (window d t) div 4096 mod 1024 = unat d" by (simp only:)
  then have "unat (drop_bit 12 (window d t) AND 0x3FF) = unat d" by (simp add: unat_and_0x3FF unat_drop)
  then show "drop_bit 12 (window d t) AND 0x3FF = d" by (rule unsigned_word_eqI)
  have "unat (window d t) mod 4096 = unat t * 4"
  proof -
    have "4290772992 + unat d * 4096 + unat t * 4 = unat t * 4 + 4096 * (1047552 + unat d)" by simp
    also have "\<dots> mod 4096 = unat t * 4 mod 4096" by (rule mod_mult_self2)
    also have "\<dots> = unat t * 4" using assms by simp
    finally show ?thesis unfolding u .
  qed
  then have "unat (window d t AND 0xFFF) = unat (t * 4)"
    using \<open>unat (t * 4) = _\<close> by (simp add: unat_and_0xFFF)
  then show "window d t AND 0xFFF = t * 4" by (rule unsigned_word_eqI)
qed

lemma table_window: "PAGE_TABLE addr + t * 4 = window (hat_pageDirIndex addr) t"
  by (simp add: PAGE_TABLE_def window_def)

lemma hyperspace_dir: "hat_pageDirIndex HYPERSPACE = 1023"
  by (simp add: hat_pageDirIndex_def HYPERSPACE_def)

lemma directory_window: "PAGE_DIRECTORY + d * 4 = window 1023 d"
  by (simp add: PAGE_DIRECTORY_def window_def hyperspace_dir)

text \<open>The physical address of entry i of the table at physical page b, and of the directory.\<close>

definition entry :: "u32 \<Rightarrow> u32 \<Rightarrow> u32" where
  "entry b i = (b AND NOT 0xFFF) + i * 4"

definition pde :: "machine \<Rightarrow> u32 \<Rightarrow> u32" where
  "pde m d = phys m (entry (cr3 m) d)"

text \<open>The last directory entry points at the directory and may be written through.\<close>

definition recursive :: "machine \<Rightarrow> bool" where
  "recursive m \<longleftrightarrow> pde m 1023 AND NOT 0xFFF = cr3 m AND NOT 0xFFF \<and> allows True (pde m 1023)"

lemma allows_read: "allows True d \<Longrightarrow> allows w d"
  by (cases w) (auto simp: allows_def)

lemma mmu_entry:
  "mmu w va m = (let d = pde m (hat_pageDirIndex va); t = phys m (entry d (hat_pageTableIndex va))
     in if allows w d \<and> allows w t then Some ((t AND NOT 0xFFF) + (va AND 0xFFF)) else None)"
  by (simp add: mmu_def Let_def pde_def entry_def hat_pageDirIndex_def hat_pageTableIndex_def)

lemma mmu_window:
  assumes "recursive m" "unat d < 1024" "unat t < 1024"
  shows "mmu w (window d t) m = (if allows w (pde m d) then Some (entry (pde m d) t) else None)"
proof -
  have "hat_pageDirIndex (window d t) = 1023" "hat_pageTableIndex (window d t) = d"
    using window_parts [OF assms(2,3)] by (simp_all add: hat_pageDirIndex_def hat_pageTableIndex_def)
  moreover have "phys m (entry (pde m 1023) d) = pde m d"
    using assms(1) by (simp add: recursive_def entry_def pde_def)
  moreover have "allows w (pde m 1023)" using assms(1) allows_read by (auto simp: recursive_def)
  ultimately show ?thesis
    using window_parts(4) [OF assms(2,3)] by (simp add: mmu_entry Let_def) (simp add: entry_def)
qed

section \<open>Looking a page up\<close>

lemma read_directory:
  assumes "recursive m" "unat d < 1024"
  shows "read_pte PAGE_DIRECTORY d m = Ret (pde m d)"
proof -
  have r: "allows True (pde m 1023)" "entry (pde m 1023) d = entry (cr3 m) d"
    using assms(1) by (simp_all add: recursive_def entry_def)
  have "mmu False (window 1023 d) m = Some (entry (cr3 m) d)"
    using mmu_window [OF assms(1), of 1023 d False] assms(2) r allows_read [OF r(1)] by simp
  then show ?thesis by (simp add: read_pte_def directory_window vread_def pde_def)
qed

lemma read_table:
  assumes "recursive m" "unat t < 1024" "allows False (pde m (hat_pageDirIndex a))"
  shows "read_pte (PAGE_TABLE a) t m = Ret (phys m (entry (pde m (hat_pageDirIndex a)) t))"
  using mmu_window [OF assms(1) dir_less assms(2), of False a] assms(3)
  by (simp add: read_pte_def table_window vread_def)

lemma masks: "(0x1FF :: u32) = mask 9" "(0x1FF :: u16) = mask 9" "(0xFFF :: u32) = mask 12"
  by (simp_all add: mask_eq_exp_minus_1)

lemma flag_bits: "hat_getPteFlags d AND 1 = 0 \<longleftrightarrow> d AND 1 = 0"
proof -
  have "bit (hat_getPteFlags d) 0 = bit d 0"
    unfolding hat_getPteFlags_def masks by (simp add: bit_simps)
  then show ?thesis by (simp add: and_one_eq mod_2_eq_odd bit_0)
qed

lemma lookup_mmu:
  assumes "recursive m"
  shows "hat_isPresent p m = Ret (mmu False p m \<noteq> None) \<and>
    hat_isValid p m = hat_isPresent p m \<and>
    (case mmu False p m of Some a \<Rightarrow> hat_virtualToPhysical p m = Ret a
     | None \<Rightarrow> \<exists>a. hat_virtualToPhysical p m = Ret a)"
proof -
  let ?d = "pde m (hat_pageDirIndex p)"
  let ?t = "phys m (entry ?d (hat_pageTableIndex p))"
  have d: "read_pte PAGE_DIRECTORY (hat_pageDirIndex p) m = Ret ?d"
    using assms dir_less by (rule read_directory)
  have a: "allows False x \<longleftrightarrow> x AND 1 \<noteq> 0" for x by (simp add: allows_def)
  have f: "hat_getPteFlags x AND PTE_PRESENT = 0 \<longleftrightarrow> x AND 1 = 0" for x
    using flag_bits by (simp add: PTE_PRESENT_def)
  have t: "?d AND 1 \<noteq> 0 \<Longrightarrow> read_pte (PAGE_TABLE p) (hat_pageTableIndex p) m = Ret ?t"
    using assms tab_less by (intro read_table) (simp_all add: a)
  show ?thesis
    by (cases "?d AND 1 = 0"; cases "?t AND 1 = 0")
      (simp_all add: hat_isPresent_def hat_isValid_def hat_virtualToPhysical_def d t f flag_bits
        mmu_entry a Let_def hat_getPteBase_def)
qed

text \<open>C16: with the recursive directory entry in place, hat_isPresent answers whether the
  processor can read the address, and where it can hat_virtualToPhysical gives the physical
  address the processor uses; neither causes a fault, whatever the tables hold.\<close>
theorem hat_lookup_agrees_with_mmu:
  assumes "recursive m"
  shows "hat_isPresent p m = Ret (mmu False p m \<noteq> None) \<and>
    hat_isValid p m = hat_isPresent p m \<and>
    (case mmu False p m of Some a \<Rightarrow> hat_virtualToPhysical p m = Ret a
     | None \<Rightarrow> \<exists>a. hat_virtualToPhysical p m = Ret a)"
  using assms by (rule lookup_mmu)

section \<open>Entries\<close>

text \<open>The operations on an entry: hat_setPteFlags replaces the flags and keeps the base;
  hat_setPteBase sets the base of an entry that has none, but it clears the flags instead of the
  old base, so changing the base of an entry gives the bitwise or of both bases.\<close>
lemma hat_pte_operations:
  "hat_getPteBase (hat_setPteFlags (flags AND 0x1FF) d) = hat_getPteBase d \<and>
   hat_getPteFlags (hat_setPteFlags (flags AND 0x1FF) d) = flags AND 0x1FF \<and>
   hat_getPteBase (hat_setPteBase b d) = (d OR b) AND NOT 0xFFF \<and>
   hat_getPteFlags (hat_setPteBase b d) = 0"
proof -
  have "hat_getPteBase (hat_setPteFlags (flags AND 0x1FF) d) = hat_getPteBase d"
    "hat_getPteFlags (hat_setPteFlags (flags AND 0x1FF) d) = flags AND 0x1FF"
    "hat_getPteBase (hat_setPteBase b d) = (d OR b) AND NOT 0xFFF"
    "hat_getPteFlags (hat_setPteBase b d) = 0"
    unfolding hat_getPteBase_def hat_getPteFlags_def hat_setPteFlags_def hat_setPteBase_def Let_def masks
    by (rule bit_eqI, auto simp: bit_simps)+
  then show ?thesis by simp
qed

section \<open>Writing through the window\<close>

lemma entry_inject:
  assumes "unat i < 1024" "unat j < 1024"
  shows "entry b i = entry c j \<longleftrightarrow> b AND NOT 0xFFF = c AND NOT 0xFFF \<and> i = j"
proof -
  have u: "unat (entry b i) = unat (b AND NOT 0xFFF) + unat i * 4" if "unat i < 1024" for b i
  proof -
    have "unat b - unat b mod 4096 = unat b div 4096 * 4096" by (simp add: minus_mod_eq_div_mult)
    moreover have "unat b div 4096 \<le> 1048575" using unat_u32_less [of b] by linarith
    ultimately have "unat (b AND NOT 0xFFF) \<le> 4294963200" unfolding unat_page_base by linarith
    moreover have "unat (i * 4) = unat i * 4" using that by (simp add: unat_word_ariths)
    ultimately show ?thesis using that by (simp add: entry_def unat_add_no_wrap_u32)
  qed
  have d: "unat (b AND NOT 0xFFF) mod 4096 = 0" for b :: u32
    unfolding unat_page_base by (simp add: minus_mod_eq_div_mult)
  have "unat (entry b i) mod 4096 = unat i * 4" "unat (entry c j) mod 4096 = unat j * 4"
    using u assms d by (simp_all add: mod_add_left_eq [symmetric])
  then have "entry b i = entry c j \<Longrightarrow> unat i = unat j" by simp
  then have "entry b i = entry c j \<Longrightarrow> i = j" using unsigned_word_eqI by blast
  then show ?thesis unfolding entry_def by auto
qed

definition pte_addr :: "machine \<Rightarrow> u32 \<Rightarrow> u32" where
  "pte_addr m a = entry (pde m (hat_pageDirIndex a)) (hat_pageTableIndex a)"

text \<open>The addresses A can be mapped: their page tables are there, are writable, and are
  different pages, none of them the directory.\<close>

definition map_ready :: "machine \<Rightarrow> u32 set \<Rightarrow> bool" where
  "map_ready m A \<longleftrightarrow> recursive m \<and>
     (\<forall>a \<in> A. allows True (pde m (hat_pageDirIndex a)) \<and> pde m (hat_pageDirIndex a) AND NOT 0xFFF \<noteq> 0 \<and>
       pde m (hat_pageDirIndex a) AND NOT 0xFFF \<noteq> cr3 m AND NOT 0xFFF) \<and>
     (\<forall>a \<in> A. \<forall>b \<in> A. hat_pageDirIndex a \<noteq> hat_pageDirIndex b \<longrightarrow>
       pde m (hat_pageDirIndex a) AND NOT 0xFFF \<noteq> pde m (hat_pageDirIndex b) AND NOT 0xFFF)"

lemma update_table:
  assumes "recursive m" "allows True (pde m (hat_pageDirIndex a))"
  shows "update_pte (PAGE_TABLE a) (hat_pageTableIndex a) f m = Ret (phys_update (pte_addr m a) f m)"
proof -
  have "allows False (pde m (hat_pageDirIndex a))" using assms(2) by (rule allows_read)
  then show ?thesis
    using read_table [OF assms(1) tab_less, of a] assms(2)
      mmu_window [OF assms(1) dir_less tab_less, of True a a]
    by (simp add: update_pte_def table_window vwrite_def phys_update_def pte_addr_def)
qed

lemma pde_update_table:
  assumes "pde m (hat_pageDirIndex a) AND NOT 0xFFF \<noteq> cr3 m AND NOT 0xFFF" "unat d < 1024"
  shows "pde (phys_update (pte_addr m a) f m) d = pde m d"
  using entry_inject [OF assms(2) tab_less, of "cr3 m" "pde m (hat_pageDirIndex a)" a] assms(1)
  by (auto simp: pde_def phys_update_def pte_addr_def)

lemma map_ready_update:
  assumes "map_ready m A" "a \<in> A"
  shows "map_ready (phys_update (pte_addr m a) f m) A"
    "pte_addr (phys_update (pte_addr m a) f m) b = pte_addr m b"
proof -
  have "pde m (hat_pageDirIndex a) AND NOT 0xFFF \<noteq> cr3 m AND NOT 0xFFF"
    using assms by (simp add: map_ready_def)
  note u = pde_update_table [OF this, of _ f]
  have "cr3 (phys_update (pte_addr m a) f m) = cr3 m" by (simp add: phys_update_def)
  moreover have "pde (phys_update (pte_addr m a) f m) (hat_pageDirIndex c) = pde m (hat_pageDirIndex c)" for c
    by (rule u [OF dir_less])
  moreover have "pde (phys_update (pte_addr m a) f m) 1023 = pde m 1023" by (rule u) simp
  ultimately show "map_ready (phys_update (pte_addr m a) f m) A"
    "pte_addr (phys_update (pte_addr m a) f m) b = pte_addr m b"
    using assms(1) by (simp_all add: map_ready_def recursive_def pte_addr_def)
qed

lemma pte_addr_inject:
  assumes "map_ready m A" "a \<in> A" "b \<in> A" "pte_addr m a = pte_addr m b"
  shows "unat a div 4096 = unat b div 4096"
proof -
  have "pde m (hat_pageDirIndex a) AND NOT 0xFFF = pde m (hat_pageDirIndex b) AND NOT 0xFFF"
    "hat_pageTableIndex a = hat_pageTableIndex b"
    using assms(4) entry_inject [OF tab_less tab_less] by (auto simp: pte_addr_def)
  moreover from this have "hat_pageDirIndex a = hat_pageDirIndex b"
    using assms(1-3) by (auto simp: map_ready_def)
  ultimately have "unat a div 4194304 = unat b div 4194304" "unat a div 4096 mod 1024 = unat b div 4096 mod 1024"
    using unat_dir unat_tab by metis+
  moreover have "x div 4096 = x div 4194304 * 1024 + x div 4096 mod 1024" for x :: nat
    using div_mult_mod_eq [of "x div 4096" 1024] by (simp flip: div_mult2_eq)
  ultimately show ?thesis by metis
qed

section \<open>The mapping loop\<close>

definition page_addr :: "u32 \<Rightarrow> nat \<Rightarrow> u32" where
  "page_addr addr j = addr + of_nat j * PAGE_SIZE"

lemma page_addr_simps [simp]:
  "page_addr addr 0 = addr" "page_addr (addr + PAGE_SIZE) j = page_addr addr (Suc j)"
  by (simp_all add: page_addr_def algebra_simps)

lemma unat_page_addr:
  "unat addr + n * 4096 \<le> 4294967296 \<Longrightarrow> j < n \<Longrightarrow> unat (page_addr addr j) = unat addr + j * 4096"
proof -
  assume a: "unat addr + n * 4096 \<le> 4294967296" "j < n"
  then have j: "j < 1048576" "unat addr + j * 4096 < 4294967296" by linarith+
  then have "unat (of_nat j * PAGE_SIZE :: u32) = j * 4096"
    by (simp add: PAGE_SIZE_def unat_word_ariths unat_of_nat_u32)
  then show ?thesis using j by (simp add: page_addr_def unat_add_no_wrap_u32)
qed

text \<open>What the loop stores in an entry: the base of the page and the flags 7.\<close>

definition new_entry :: "u32 \<Rightarrow> u32 \<Rightarrow> u32" where
  "new_entry phy old = hat_setPteFlags (PTE_RW OR PTE_PRESENT OR PTE_USER) (hat_setPteBase phy old)"

lemma map_step:
  assumes "map_ready (mach k) A" "addr \<in> A"
  shows "map_loop (Suc n) addr phy k = map_loop n (addr + PAGE_SIZE) (phy + PAGE_SIZE)
    (k\<lparr>mach := phys_update (pte_addr (mach k) addr) (new_entry phy) (mach k)\<rparr>)"
proof -
  let ?m = "mach k" and ?m1 = "phys_update (pte_addr (mach k) addr) (hat_setPteBase phy) (mach k)"
  have r: "recursive ?m" "allows True (pde ?m (hat_pageDirIndex addr))"
    "hat_getPteBase (pde ?m (hat_pageDirIndex addr)) \<noteq> 0"
    using assms by (simp_all add: map_ready_def hat_getPteBase_def)
  have r1: "recursive ?m1" "allows True (pde ?m1 (hat_pageDirIndex addr))" "pte_addr ?m1 addr = pte_addr ?m addr"
    using map_ready_update [OF assms, of "hat_setPteBase phy"] assms(2) by (simp_all add: map_ready_def)
  have "phys_update (pte_addr ?m addr) (hat_setPteFlags (PTE_RW OR PTE_PRESENT OR PTE_USER)) ?m1 =
      phys_update (pte_addr ?m addr) (new_entry phy) ?m"
    by (simp add: phys_update_def new_entry_def)
  then show ?thesis using r r1 dir_less
    by (simp add: on_mach_def read_directory update_table Let_def)
qed

lemma map_loop_maps:
  assumes "map_ready (mach k) A" "\<And>j. j < n \<Longrightarrow> page_addr addr j \<in> A"
    and "\<And>j. j < n \<Longrightarrow> unat (page_addr addr j) = unat addr + j * 4096"
  shows "\<exists>k'. map_loop n addr phy k = Ret (True, k') \<and> map_ready (mach k') A \<and> ctx k' = ctx k \<and>
    (\<forall>b. pte_addr (mach k') b = pte_addr (mach k) b) \<and>
    (\<forall>d. unat d < 1024 \<longrightarrow> pde (mach k') d = pde (mach k) d) \<and>
    (\<forall>j < n. phys (mach k') (pte_addr (mach k) (page_addr addr j)) =
       new_entry (page_addr phy j) (phys (mach k) (pte_addr (mach k) (page_addr addr j)))) \<and>
    (\<forall>a. (\<forall>j < n. a \<noteq> pte_addr (mach k) (page_addr addr j)) \<longrightarrow> phys (mach k') a = phys (mach k) a)"
  using assms
proof (induction n arbitrary: addr phy k)
  case 0
  then show ?case by simp
next
  case (Suc n)
  define q where "q j = pte_addr (mach k) (page_addr addr j)" for j
  define k1 where "k1 = k\<lparr>mach := phys_update (q 0) (new_entry phy) (mach k)\<rparr>"
  have a: "addr \<in> A" using Suc.prems(2) [of 0] by simp
  have k1: "map_ready (mach k1) A" "\<And>b. pte_addr (mach k1) b = pte_addr (mach k) b"
    using map_ready_update [OF Suc.prems(1) a] by (simp_all add: k1_def q_def)
  have pd: "unat d < 1024 \<Longrightarrow> pde (mach k1) d = pde (mach k) d" for d
    using Suc.prems(1) a by (simp add: k1_def q_def pde_update_table map_ready_def)
  have ph: "phys (mach k1) b = (if b = q 0 then new_entry phy (phys (mach k) (q 0)) else phys (mach k) b)" for b
    by (simp add: k1_def phys_update_def)
  have diff: "q j \<noteq> q 0" if "0 < j" "j < Suc n" for j
  proof
    assume "q j = q 0"
    then have "unat (page_addr addr j) div 4096 = unat (page_addr addr 0) div 4096"
      using pte_addr_inject [OF Suc.prems(1)] Suc.prems(2) that unfolding q_def by blast
    then show False using Suc.prems(3) [of j] that by simp
  qed
  have "unat (page_addr (addr + PAGE_SIZE) j) = unat (addr + PAGE_SIZE) + j * 4096" if "j < n" for j
  proof -
    have "unat (addr + PAGE_SIZE) = unat addr + 4096"
      using Suc.prems(3) [of 1] that by (simp add: page_addr_def)
    then show ?thesis using Suc.prems(3) [of "Suc j"] that by simp
  qed
  from Suc.IH [OF k1(1) _ this, of "phy + PAGE_SIZE"] Suc.prems(2) obtain k' where
    "map_loop n (addr + PAGE_SIZE) (phy + PAGE_SIZE) k1 = Ret (True, k')" and
    k': "map_ready (mach k') A" "ctx k' = ctx k1" "\<And>b. pte_addr (mach k') b = pte_addr (mach k) b"
    "\<And>d. unat d < 1024 \<Longrightarrow> pde (mach k') d = pde (mach k) d" and
    new: "\<And>j. j < n \<Longrightarrow> phys (mach k') (q (Suc j)) = new_entry (page_addr phy (Suc j)) (phys (mach k1) (q (Suc j)))" and
    old: "\<And>b. (\<forall>j < n. b \<noteq> q (Suc j)) \<Longrightarrow> phys (mach k') b = phys (mach k1) b"
    using k1(2) pd by (auto simp: q_def)
  then have "map_loop (Suc n) addr phy k = Ret (True, k')"
    using map_step [OF Suc.prems(1) a] by (simp add: k1_def q_def)
  moreover have "phys (mach k') (q j) = new_entry (page_addr phy j) (phys (mach k) (q j))" if "j < Suc n" for j
  proof (cases j)
    case 0
    have "phys (mach k') (q 0) = phys (mach k1) (q 0)" using old [of "q 0"] diff by fastforce
    then show ?thesis using 0 ph by simp
  next
    case (Suc i)
    then show ?thesis using new [of i] ph diff [of j] that by simp
  qed
  moreover have "phys (mach k') b = phys (mach k) b" if "\<forall>j < Suc n. b \<noteq> q j" for b
  proof -
    have "\<forall>j < n. b \<noteq> q (Suc j)" "b \<noteq> q 0" using that by auto
    then show ?thesis using old ph by simp
  qed
  moreover have "ctx k' = ctx k" using k'(2) by (simp add: k1_def)
  ultimately show ?case using k'(1,3,4) unfolding q_def by blast
qed

lemma bit_1_and_2: "bit (x :: u32) 1 \<Longrightarrow> x AND 2 \<noteq> 0"
proof -
  assume "bit x 1"
  then have "bit (x AND 2) 1" by (simp add: bit_simps)
  then show ?thesis by auto
qed

lemma new_entry_bits:
  "new_entry phy old AND NOT 0xFFF = (old OR phy) AND NOT 0xFFF" "allows w (new_entry phy old)"
proof -
  have b: "PTE_RW OR PTE_PRESENT OR PTE_USER = 7" by (simp add: PTE_RW_def PTE_PRESENT_def PTE_USER_def)
  have seven: "(7 :: u16) = mask 3" by (simp add: mask_eq_exp_minus_1)
  show "new_entry phy old AND NOT 0xFFF = (old OR phy) AND NOT 0xFFF"
    unfolding new_entry_def hat_setPteFlags_def hat_setPteBase_def b seven masks Let_def
    by (rule bit_eqI) (auto simp: bit_simps)
  have "bit (new_entry phy old) 0" "bit (new_entry phy old) 1"
    unfolding new_entry_def hat_setPteFlags_def hat_setPteBase_def b seven Let_def
    by (simp_all add: bit_simps)
  moreover have "x AND 1 \<noteq> 0 \<longleftrightarrow> bit x 0" for x :: u32 by (simp add: and_one_eq mod_2_eq_odd bit_0)
  ultimately show "allows w (new_entry phy old)" using bit_1_and_2 by (auto simp: allows_def)
qed

lemma next_free_total:
  "linked (ordered c) p (map VSeg L) Ordered \<Longrightarrow> length L \<le> fuel \<Longrightarrow>
   (\<exists>r. next_free_loop fuel c pages start e (nxt (ordered c) p) = Ret r) \<or>
   (\<exists>msg. next_free_loop fuel c pages start e (nxt (ordered c) p) = Panic msg)"
proof (induction L arbitrary: p fuel start e)
  case Nil
  then show ?case by (simp add: next_free_loop.simps)
next
  case (Cons i L)
  then obtain k where "fuel = Suc k" by (cases fuel) auto
  with Cons show ?case by (subst (1 2) next_free_loop.simps) (auto simp: Let_def)
qed

lemma getNextFree_total:
  assumes "wf_map c L"
  shows "(\<exists>r. stand_getNextFreeVirtual a n c = Ret r) \<or> (\<exists>msg. stand_getNextFreeVirtual a n c = Panic msg)"
proof -
  have "linked (ordered c) Ordered (map VSeg L) Ordered" "length L \<le> LOADER_MAX_SEGMENTS"
    using assms wf_map_length [OF assms] by (auto simp: wf_map_def dll_def LOADER_MAX_SEGMENTS_def)
  from next_free_total [OF this] show ?thesis by (auto simp: stand_getNextFreeVirtual_def)
qed

lemma aligned_add:
  assumes "unat a mod 4096 = 0" "unat x < 4096"
  shows "hat_pageDirIndex (a + x) = hat_pageDirIndex a" "hat_pageTableIndex (a + x) = hat_pageTableIndex a"
    "(a + x) AND 0xFFF = x"
proof -
  have "unat a \<le> 4294963200"
  proof -
    have "unat a = unat a div 4096 * 4096" using assms(1) by (simp add: minus_mod_eq_div_mult [symmetric])
    moreover have "unat a div 4096 \<le> 1048575" using unat_u32_less [of a] by linarith
    ultimately show ?thesis by linarith
  qed
  then have u: "unat (a + x) = unat a + unat x" using assms(2) by (simp add: unat_add_no_wrap_u32)
  then have d: "unat (a + x) div 4096 = unat a div 4096"
    using assms by (simp add: div_add1_eq)
  have "unat (a + x) div 4194304 = unat (a + x) div 4096 div 1024"
    "unat a div 4194304 = unat a div 4096 div 1024" by (simp_all flip: div_mult2_eq)
  then show "hat_pageDirIndex (a + x) = hat_pageDirIndex a"
    using d by (intro unsigned_word_eqI [where 'a = nat]) (simp add: unat_dir)
  show "hat_pageTableIndex (a + x) = hat_pageTableIndex a"
    using d by (intro unsigned_word_eqI [where 'a = nat]) (simp add: unat_tab)
  show "(a + x) AND 0xFFF = x"
    using u assms by (intro unsigned_word_eqI [where 'a = nat]) (simp add: unat_and_0xFFF mod_add_left_eq [symmetric])
qed

text \<open>C2: take a page-aligned range whose page tables are in place, with entries that hold no base
  yet, and suppose the search for a free page from its address on finds one.  If the address itself
  is found, hat_initialMapPages reserves the range: it panics exactly when the range is empty,
  a segment with its base exists or the map is full, and else records the range as a new segment;
  if another address is found, the map stays as it is.  When it does not panic it returns 1 with every
  address of the range translated to the same offset in its physical page, readable and
  writable, and with no other word of physical memory changed.\<close>
theorem hat_initialMapPages_maps:
  assumes w: "wf_map (ctx k) L" and r: "map_ready (mach k) (page_addr addr ` {..<unat len})"
    and a: "unat addr mod 4096 = 0" "unat addr + unat len * 4096 \<le> 4294967296"
    and z: "\<And>j. j < unat len \<Longrightarrow> phys (mach k) (pte_addr (mach k) (page_addr addr j)) AND NOT 0xFFF = 0"
    and f: "stand_getNextFreeVirtual addr 1 (ctx k) = Ret found"
  shows "if found = addr \<and> (len = 0 \<or> (\<exists>i < vcount (ctx k). vs_base (vsegments (ctx k) i) = addr) \<or> vcount (ctx k) = 80)
    then \<exists>msg. hat_initialMapPages addr phy len flags tag k = Panic msg
    else \<exists>k'. hat_initialMapPages addr phy len flags tag k = Ret (True, k') \<and>
      (\<forall>j < unat len. \<forall>x. unat x < 4096 \<longrightarrow>
         mmu w (page_addr addr j + x) (mach k') = Some ((page_addr phy j AND NOT 0xFFF) + x)) \<and>
      (\<forall>b. (\<forall>j < unat len. b \<noteq> pte_addr (mach k) (page_addr addr j)) \<longrightarrow>
         phys (mach k') b = phys (mach k) b) \<and>
      (if found = addr
       then vcount (ctx k') = vcount (ctx k) + 1 \<and> (\<forall>i < vcount (ctx k). vsegments (ctx k') i = vsegments (ctx k) i) \<and>
         vsegments (ctx k') (vcount (ctx k)) = \<lparr>vs_base = addr, vs_length = len, vs_flags = flags, vs_tag = tag\<rparr>
       else ctx k' = ctx k)"
proof -
  have nw: "unat (page_addr addr j) = unat addr + j * 4096" if "j < unat len" for j
    using unat_page_addr [OF a(2) that] .
  have maps: "\<exists>k'. map_loop (unat len) addr phy (k\<lparr>ctx := c\<rparr>) = Ret (True, k') \<and> ctx k' = c \<and>
      (\<forall>j < unat len. \<forall>x. unat x < 4096 \<longrightarrow>
         mmu w (page_addr addr j + x) (mach k') = Some ((page_addr phy j AND NOT 0xFFF) + x)) \<and>
      (\<forall>b. (\<forall>j < unat len. b \<noteq> pte_addr (mach k) (page_addr addr j)) \<longrightarrow>
         phys (mach k') b = phys (mach k) b)" for c
  proof -
    have "map_ready (mach (k\<lparr>ctx := c\<rparr>)) (page_addr addr ` {..<unat len})" using r by simp
    from map_loop_maps [OF this _ nw, of "unat len" phy] obtain k' where
      k': "map_loop (unat len) addr phy (k\<lparr>ctx := c\<rparr>) = Ret (True, k')" "ctx k' = c"
      "\<And>b. pte_addr (mach k') b = pte_addr (mach k) b"
      "\<And>d. unat d < 1024 \<Longrightarrow> pde (mach k') d = pde (mach k) d"
      "\<And>j. j < unat len \<Longrightarrow> phys (mach k') (pte_addr (mach k) (page_addr addr j)) =
         new_entry (page_addr phy j) (phys (mach k) (pte_addr (mach k) (page_addr addr j)))"
      "\<And>b. (\<forall>j < unat len. b \<noteq> pte_addr (mach k) (page_addr addr j)) \<Longrightarrow> phys (mach k') b = phys (mach k) b"
      by auto
    have "mmu w (page_addr addr j + x) (mach k') = Some ((page_addr phy j AND NOT 0xFFF) + x)"
      if j: "j < unat len" and x: "unat x < 4096" for j x
    proof -
      have "unat (page_addr addr j) mod 4096 = 0" using a(1) nw [OF j] by simp
      note al = aligned_add [OF this x]
      let ?e = "phys (mach k') (pte_addr (mach k') (page_addr addr j))"
      have e: "?e = new_entry (page_addr phy j) (phys (mach k) (pte_addr (mach k) (page_addr addr j)))"
        using k'(3,5) j by simp
      have b: "?e AND NOT 0xFFF = page_addr phy j AND NOT 0xFFF"
        using z [OF j] unfolding e new_entry_bits(1) by (simp add: bit.conj_disj_distrib2)
      have "allows w (pde (mach k') (hat_pageDirIndex (page_addr addr j)))"
        using r j k'(4) dir_less allows_read by (auto simp: map_ready_def)
      moreover have "allows w ?e" unfolding e by (rule new_entry_bits(2))
      ultimately show ?thesis using b al by (simp add: mmu_entry Let_def pte_addr_def)
    qed
    with k' show ?thesis by blast
  qed
  show ?thesis
  proof (cases "found = addr")
    case True
    then have h: "hat_initialMapPages addr phy len flags tag k =
        obind (stand_reserveVirtualRange addr len flags tag (ctx k)) (\<lambda>c. map_loop (unat len) addr phy (k\<lparr>ctx := c\<rparr>))"
      using f by (cases "stand_reserveVirtualRange addr len flags tag (ctx k)") (simp_all add: hat_initialMapPages_def reserve_def)
    let ?bad = "len = 0 \<or> (\<exists>i < vcount (ctx k). vs_base (vsegments (ctx k) i) = addr) \<or> vcount (ctx k) = 80"
    show ?thesis
    proof (cases ?bad)
      case bad: True
      then obtain msg where "stand_reserveVirtualRange addr len flags tag (ctx k) = Panic msg"
        using reserve_map [OF w, of len addr flags tag] unfolding seg_base_def by (simp only: if_True) blast
      then show ?thesis using bad by (simp add: True h)
    next
      case ok: False
      then obtain c where "stand_reserveVirtualRange addr len flags tag (ctx k) = Ret c" and
        c: "vcount c = vcount (ctx k) + 1" "\<forall>i < vcount (ctx k). vsegments c i = vsegments (ctx k) i"
          "vsegments c (vcount (ctx k)) = \<lparr>vs_base = addr, vs_length = len, vs_flags = flags, vs_tag = tag\<rparr>"
        using reserve_map [OF w, of len addr flags tag] unfolding seg_base_def by (simp only: if_False) blast
      then have "hat_initialMapPages addr phy len flags tag k = map_loop (unat len) addr phy (k\<lparr>ctx := c\<rparr>)" by (simp add: h)
      moreover obtain k' where "map_loop (unat len) addr phy (k\<lparr>ctx := c\<rparr>) = Ret (True, k')" "ctx k' = c"
        "\<forall>j < unat len. \<forall>x. unat x < 4096 \<longrightarrow>
           mmu w (page_addr addr j + x) (mach k') = Some ((page_addr phy j AND NOT 0xFFF) + x)"
        "\<forall>b. (\<forall>j < unat len. b \<noteq> pte_addr (mach k) (page_addr addr j)) \<longrightarrow> phys (mach k') b = phys (mach k) b"
        using maps [of c] by blast
      moreover have "\<not> (found = addr \<and> ?bad)" using ok by blast
      ultimately show ?thesis using c True by (simp only: if_False if_True simp_thms) (intro exI [of _ k'] conjI, simp_all)
    qed
  next
    case False
    have "k\<lparr>ctx := ctx k\<rparr> = k" by simp
    moreover have "hat_initialMapPages addr phy len flags tag k = map_loop (unat len) addr phy k"
      using f False by (simp add: hat_initialMapPages_def)
    ultimately show ?thesis using maps [of "ctx k"] False by (simp only: if_False simp_thms) blast
  qed
qed

text \<open>A machine with its directory at 0x100000 and an empty page table for the addresses from
  0xC0000000 on at 0x101000.\<close>

definition small_machine :: machine where
  "small_machine = \<lparr>phys = (\<lambda>a. 0)(0x100FFC := 0x100007, 0x100C00 := 0x101007), cr3 = 0x100000\<rparr>"

definition small_kernel :: kernel where
  "small_kernel = \<lparr>mach = small_machine, ctx = empty_boot_context, last_page = 0x400000,
     source = FromLoader, pfd = pfd_all_bad 4 \<lparr>nxt = \<lambda>p. p, prv = \<lambda>p. p\<rparr>\<rparr>"

lemma small_machine_ready: "map_ready small_machine (page_addr 0xC0000000 ` {..<2})"
  "recursive small_machine"
proof -
  have "{..<2} = {0, Suc 0}" by auto
  then have r: "page_addr 0xC0000000 ` {..<2} = {0xC0000000, 0xC0001000}"
    by (simp add: page_addr_def PAGE_SIZE_def)
  show "map_ready small_machine (page_addr 0xC0000000 ` {..<2})" "recursive small_machine"
    unfolding r by (simp_all add: map_ready_def recursive_def small_machine_def pde_def entry_def allows_def
      hat_pageDirIndex_def)
qed

theorem hat_lookup_agrees_with_mmu_witness:
  "hat_isPresent 0xC0000000 small_machine = Ret (mmu False 0xC0000000 small_machine \<noteq> None) \<and>
   hat_isPresent 0xFFFFF000 small_machine = Ret True"
proof -
  have "mmu False 0xFFFFF000 small_machine = Some 0x100000"
    by (simp add: mmu_def small_machine_def allows_def)
  then show ?thesis using hat_lookup_agrees_with_mmu [OF small_machine_ready(2)] by simp
qed

theorem hat_initialMapPages_maps_witness:
  "\<exists>k'. hat_initialMapPages 0xC0000000 0xB8000 2 2 [] small_kernel = Ret (True, k') \<and>
     mmu True 0xC0001234 (mach k') = Some 0xB9234 \<and> vcount (ctx k') = 1"
proof -
  have two: "\<And>j. j < 2 \<longleftrightarrow> j = 0 \<or> j = Suc 0" by auto
  have z: "phys small_machine (pte_addr small_machine (page_addr 0xC0000000 j)) AND NOT 0xFFF = 0" if "j < 2" for j
    using that unfolding two
    by (auto simp: small_machine_def pte_addr_def pde_def entry_def page_addr_def PAGE_SIZE_def
        hat_pageDirIndex_def hat_pageTableIndex_def)
  have f: "stand_getNextFreeVirtual 0xC0000000 1 (ctx small_kernel) = Ret 0xC0000000"
    by (simp add: small_kernel_def empty_boot_context_def stand_getNextFreeVirtual_def next_free_loop.simps lheap_defs)
  have c: "ctx small_kernel = empty_boot_context" "mach small_kernel = small_machine" "vcount empty_boot_context = 0"
    by (simp_all add: small_kernel_def empty_boot_context_def)
  obtain k' where "hat_initialMapPages 0xC0000000 0xB8000 2 2 [] small_kernel = Ret (True, k')" "vcount (ctx k') = 1"
      "\<forall>j < 2. \<forall>x. unat x < 4096 \<longrightarrow>
         mmu True (page_addr 0xC0000000 j + x) (mach k') = Some ((page_addr 0xB8000 j AND NOT 0xFFF) + x)"
    using hat_initialMapPages_maps [of small_kernel "[]" "0xC0000000" 2 "0xC0000000" "0xB8000" 2 "[]" True]
      small_machine_ready(1) wf_empty_boot_context z f by (auto simp: c)
  moreover from this(3) [rule_format, of 1 "0x234"] have "mmu True 0xC0001234 (mach k') = Some 0xB9234"
    by (simp add: page_addr_def PAGE_SIZE_def)
  ultimately show ?thesis by blast
qed

section \<open>The first page tables\<close>

lemma fold_entries:
  assumes "n \<le> 1024"
  shows "(\<forall>i < n. phys (fold (\<lambda>i. phys_update (entry b (of_nat i)) (g i)) [0..<n] m) (entry b (of_nat i)) =
      g i (phys m (entry b (of_nat i)))) \<and>
    (\<forall>a. (\<forall>i < n. a \<noteq> entry b (of_nat i)) \<longrightarrow>
      phys (fold (\<lambda>i. phys_update (entry b (of_nat i)) (g i)) [0..<n] m) a = phys m a)"
  using assms
proof (induction n)
  case 0
  then show ?case by simp
next
  case (Suc n)
  have "entry b (of_nat i) \<noteq> entry b (of_nat n)" if "i < n" for i
  proof
    assume "entry b (of_nat i) = entry b (of_nat n)"
    then have "(of_nat i :: u32) = of_nat n"
      using entry_inject [of "of_nat i" "of_nat n" b b] that Suc.prems by (simp add: unat_of_nat_u32)
    then have "unat (of_nat i :: u32) = unat (of_nat n :: u32)" by simp
    then show False using that Suc.prems by (simp add: unat_of_nat_u32)
  qed
  note ne = this
  define F where "F = fold (\<lambda>i. phys_update (entry b (of_nat i)) (g i)) [0..<n] m"
  have IH: "\<And>i. i < n \<Longrightarrow> phys F (entry b (of_nat i)) = g i (phys m (entry b (of_nat i)))"
    "\<And>a. (\<forall>i < n. a \<noteq> entry b (of_nat i)) \<Longrightarrow> phys F a = phys m a"
    using Suc by (simp_all add: F_def)
  have "phys F (entry b (of_nat n)) = phys m (entry b (of_nat n))" using ne by (intro IH(2)) metis
  moreover have "phys (fold (\<lambda>i. phys_update (entry b (of_nat i)) (g i)) [0..<Suc n] m) =
      (phys F)(entry b (of_nat n) := g n (phys F (entry b (of_nat n))))"
    by (simp add: F_def phys_update_def)
  ultimately show ?case using IH ne by (auto simp: less_Suc_eq)
qed

definition init_flags :: "u16" where
  "init_flags = PTE_RW OR PTE_PRESENT OR PTE_USER"

text \<open>The state in which the tables are built: both pages without a base in any entry.\<close>

definition blank_page :: "machine \<Rightarrow> u32 \<Rightarrow> bool" where
  "blank_page m b \<longleftrightarrow> (\<forall>i. unat i < 1024 \<longrightarrow> phys m (entry b i) AND NOT 0xFFF = 0)"

lemma aligned_base: "unat (b :: u32) mod 4096 = 0 \<Longrightarrow> b AND NOT 0xFFF = b"
proof -
  assume "unat b mod 4096 = 0"
  then have "unat (b AND NOT 0xFFF) = unat b" using unat_page_base [of b] by linarith
  then show ?thesis by (rule unsigned_word_eqI)
qed

lemma entry_aligned: "unat b mod 4096 = 0 \<Longrightarrow> entry b i = b + i * 4"
  by (simp only: entry_def aligned_base)

lemma low_entry_bits:
  "hat_setPteFlags (PTE_RW OR PTE_PRESENT) (hat_setPteBase b d) AND NOT 0xFFF = (d OR b) AND NOT 0xFFF"
  "allows w (hat_setPteFlags (PTE_RW OR PTE_PRESENT) (hat_setPteBase b d))"
proof -
  have f: "PTE_RW OR PTE_PRESENT = mask 2" by (simp add: PTE_RW_def PTE_PRESENT_def mask_eq_exp_minus_1)
  show "hat_setPteFlags (PTE_RW OR PTE_PRESENT) (hat_setPteBase b d) AND NOT 0xFFF = (d OR b) AND NOT 0xFFF"
    unfolding hat_setPteFlags_def hat_setPteBase_def f masks Let_def
    by (rule bit_eqI) (auto simp: bit_simps)
  have "bit (hat_setPteFlags (PTE_RW OR PTE_PRESENT) (hat_setPteBase b d)) 0"
    "bit (hat_setPteFlags (PTE_RW OR PTE_PRESENT) (hat_setPteBase b d)) 1"
    unfolding hat_setPteFlags_def hat_setPteBase_def f Let_def by (simp_all add: bit_simps)
  then show "allows w (hat_setPteFlags (PTE_RW OR PTE_PRESENT) (hat_setPteBase b d))"
    using bit_1_and_2 by (auto simp: allows_def and_one_eq mod_2_eq_odd bit_0)
qed

lemma phys_update_twice: "phys_update a f (phys_update a g m) = phys_update a (\<lambda>d. f (g d)) m"
  by (simp add: phys_update_def)

definition low_entry :: "nat \<Rightarrow> u32 \<Rightarrow> u32" where
  "low_entry i d = hat_setPteFlags (PTE_RW OR PTE_PRESENT) (hat_setPteBase (of_nat i * PAGE_SIZE) d)"

text \<open>The memory hat_initInitialPaging builds, with the directory at pd and the table at tb.\<close>

definition init_tables :: "u32 \<Rightarrow> u32 \<Rightarrow> machine \<Rightarrow> machine" where
  "init_tables pd tb m =
     (fold (\<lambda>i. phys_update (entry tb (of_nat i)) (low_entry i)) [0..<1024]
       (phys_update (entry pd 1023) (new_entry pd) (phys_update (entry pd 0) (new_entry tb) m)))\<lparr>cr3 := pd\<rparr>"

lemma init_tables_entries:
  assumes al: "unat pd mod 4096 = 0" "unat tb mod 4096 = 0" and ne: "pd \<noteq> tb"
    and b: "blank_page m pd" "blank_page m tb"
  shows "pde (init_tables pd tb m) 0 = new_entry tb (phys m (entry pd 0))"
    "pde (init_tables pd tb m) 1023 = new_entry pd (phys m (entry pd 1023))"
    "i < 1024 \<Longrightarrow> phys (init_tables pd tb m) (entry tb (of_nat i)) = low_entry i (phys m (entry tb (of_nat i)))"
proof -
  have nb: "pd AND NOT 0xFFF \<noteq> tb AND NOT 0xFFF" using ne al aligned_base by metis
  have d: "entry pd j \<noteq> entry tb (of_nat i)" if "i < 1024" "unat j < 1024" for i j
    using entry_inject [of j "of_nat i" pd tb] nb that by (simp add: unat_of_nat_u32)
  have dd: "entry pd 0 \<noteq> entry pd 1023" using entry_inject [of 0 1023 pd pd] by simp
  define m2 where "m2 = phys_update (entry pd 1023) (new_entry pd) (phys_update (entry pd 0) (new_entry tb) m)"
  have m2: "phys m2 (entry pd 0) = new_entry tb (phys m (entry pd 0))"
    "phys m2 (entry pd 1023) = new_entry pd (phys m (entry pd 1023))"
    "i < 1024 \<Longrightarrow> phys m2 (entry tb (of_nat i)) = phys m (entry tb (of_nat i))" for i
    using d [of i 0] d [of i 1023] dd by (auto simp: m2_def phys_update_def)
  note F = fold_entries [of 1024 tb low_entry m2]
  have it: "init_tables pd tb m = (fold (\<lambda>i. phys_update (entry tb (of_nat i)) (low_entry i)) [0..<1024] m2)\<lparr>cr3 := pd\<rparr>"
    by (simp only: init_tables_def m2_def)
  have "\<forall>i < 1024. entry pd 0 \<noteq> entry tb (of_nat i)" "\<forall>i < 1024. entry pd 1023 \<noteq> entry tb (of_nat i)"
    using d by simp_all
  then show "pde (init_tables pd tb m) 0 = new_entry tb (phys m (entry pd 0))"
    "pde (init_tables pd tb m) 1023 = new_entry pd (phys m (entry pd 1023))"
    "i < 1024 \<Longrightarrow> phys (init_tables pd tb m) (entry tb (of_nat i)) = low_entry i (phys m (entry tb (of_nat i)))"
    using F m2 unfolding it pde_def by simp_all
qed

lemma init_tables_identity:
  assumes al: "unat pd mod 4096 = 0" "unat tb mod 4096 = 0" and ne: "pd \<noteq> tb"
    and b: "blank_page m pd" "blank_page m tb"
  shows "recursive (init_tables pd tb m)"
    and "unat a < 4194304 \<Longrightarrow> mmu w a (init_tables pd tb m) = Some a"
proof -
  note e = init_tables_entries [OF assms]
  have base: "(old OR x) AND NOT 0xFFF = x AND NOT 0xFFF" if "old AND NOT 0xFFF = 0" for old x :: u32
    using that by (simp add: bit.conj_disj_distrib2)
  have z: "phys m (entry pd 0) AND NOT 0xFFF = 0" "phys m (entry pd 1023) AND NOT 0xFFF = 0"
    "i < 1024 \<Longrightarrow> phys m (entry tb (of_nat i)) AND NOT 0xFFF = 0" for i
    using b unfolding blank_page_def by (simp_all add: unat_of_nat_u32)
  have c: "cr3 (init_tables pd tb m) = pd" by (simp add: init_tables_def)
  show "recursive (init_tables pd tb m)"
    unfolding recursive_def e(2) new_entry_bits(1) base [OF z(2)] c using new_entry_bits(2) by simp
  assume a: "unat a < 4194304"
  then have "unat (hat_pageDirIndex a) = 0" by (simp add: unat_dir)
  then have d: "hat_pageDirIndex a = 0" by (simp only: unsigned_eq_0_iff)
  define i where "i = unat a div 4096"
  have i: "i < 1024" using a by (simp add: i_def less_mult_imp_div_less)
  have t: "hat_pageTableIndex a = of_nat i"
    using i by (intro unsigned_word_eqI [where 'a = nat]) (simp add: unat_tab unat_of_nat_u32 i_def)
  have d0: "pde (init_tables pd tb m) 0 AND NOT 0xFFF = tb"
    unfolding e(1) new_entry_bits(1) base [OF z(1)] using al(2) by (rule aligned_base)
  have "entry (pde (init_tables pd tb m) 0) (of_nat i) = entry tb (of_nat i)"
    unfolding entry_def d0 aligned_base [OF al(2)] ..
  then have p: "phys (init_tables pd tb m) (entry (pde (init_tables pd tb m) 0) (of_nat i)) =
      low_entry i (phys m (entry tb (of_nat i)))" using e(3) [OF i] by simp
  have u: "unat (of_nat i * PAGE_SIZE :: u32) = i * 4096"
    using i by (simp add: PAGE_SIZE_def unat_word_ariths unat_of_nat_u32)
  have "low_entry i (phys m (entry tb (of_nat i))) AND NOT 0xFFF = of_nat i * PAGE_SIZE"
    unfolding low_entry_def low_entry_bits(1) base [OF z(3) [OF i]] using u by (intro aligned_base) simp
  moreover have "of_nat i * PAGE_SIZE + (a AND 0xFFF) = a"
  proof -
    have "unat (a AND NOT 0xFFF) = i * 4096" by (subst unat_page_base) (simp add: i_def minus_mod_eq_div_mult)
    then have "of_nat i * PAGE_SIZE = a AND NOT 0xFFF" using u by (intro unsigned_word_eqI [where 'a = nat]) simp
    then show ?thesis using page_split [of a] by simp
  qed
  moreover have "allows w (low_entry i (phys m (entry tb (of_nat i))))"
    unfolding low_entry_def by (rule low_entry_bits(2))
  moreover have "allows w (pde (init_tables pd tb m) 0)" unfolding e(1) by (rule new_entry_bits(2))
  ultimately show "mmu w a (init_tables pd tb m) = Some a"
    by (simp add: mmu_entry Let_def d t p)
qed

lemma aligned_sub:
  assumes "unat (x :: u32) mod 4096 = 0"
  shows "unat (x - PAGE_SIZE) mod 4096 = 0"
proof -
  obtain q where q: "unat x = 4096 * q" using assms by (metis add_0_right mult_div_mod_eq)
  show ?thesis
  proof (cases q)
    case 0
    then have "x = 0" using q by (simp add: unsigned_eq_0_iff)
    then show ?thesis by (simp add: PAGE_SIZE_def)
  next
    case (Suc r)
    then have "PAGE_SIZE \<le> x" using q by (simp add: PAGE_SIZE_def word_le_nat_alt)
    then have "unat (x - PAGE_SIZE) = 4096 * r" using q Suc by (simp add: unat_sub PAGE_SIZE_def)
    then show ?thesis by simp
  qed
qed

lemma init_paging_tables:
  assumes "unat (last_page k) mod 4096 = 0"
  shows "hat_initInitialPaging k =
    (let pd = last_page k - PAGE_SIZE; tb = last_page k - PAGE_SIZE - PAGE_SIZE;
         k2 = snd (get_next_physical_page (snd (get_next_physical_page k)))
     in obind (reserve PAGE_DIRECTORY 1 0 (bytes ''hyperspace dir'') (k2\<lparr>mach := init_tables pd tb (mach k)\<rparr>))
          (reserve (PAGE_TABLE 0) 1 0 (bytes ''intentity pagetable'')))"
proof -
  let ?pd = "last_page k - PAGE_SIZE" and ?tb = "last_page k - PAGE_SIZE - PAGE_SIZE"
  note al = aligned_sub
  have e: "entry ?pd 0 = ?pd" "entry ?pd 1023 = ?pd + 1023 * 4" "\<And>i. entry ?tb i = ?tb + i * 4"
    using entry_aligned [OF al [OF assms]] entry_aligned [OF al [OF al [OF assms]]] by simp_all
  have z: "phys_memset x n 0 m = m" for x n m by (simp add: phys_memset_def)
  have hx: "hat_pageDirIndex HYPERSPACE * 4 = 1023 * 4" by (simp add: hyperspace_dir)
  have fl: "phys_update a (hat_setPteFlags (PTE_RW OR PTE_PRESENT OR PTE_USER)) (phys_update a (hat_setPteBase b) m) =
      phys_update a (new_entry b) m"
    "phys_update a (hat_setPteFlags (PTE_RW OR PTE_PRESENT)) (phys_update a (hat_setPteBase (of_nat i * PAGE_SIZE)) m) =
      phys_update a (low_entry i) m" for a b i m
    by (simp_all add: phys_update_twice new_entry_def [abs_def] low_entry_def [abs_def])
  show ?thesis
    unfolding hat_initInitialPaging_def get_next_physical_page_def Let_def prod.case z hx fl
      init_tables_def e kernel.simps snd_conv by simp
qed

lemma reserve_mach: "reserve a n f t k = Ret k' \<Longrightarrow> mach k' = mach k"
  by (auto simp: reserve_def)

text \<open>A kernel whose memory is all zero, with an empty map of segments.\<close>

definition blank_kernel :: kernel where
  "blank_kernel = small_kernel\<lparr>mach := \<lparr>phys = \<lambda>a. 0, cr3 = 0\<rparr>\<rparr>"

text \<open>The two reservations succeed when the map of segments has room for them.\<close>

definition tables_reservable :: "stand_boot_context \<Rightarrow> bool" where
  "tables_reservable c \<longleftrightarrow> vcount c \<le> 78 \<and>
     (\<forall>i < vcount c. vs_base (vsegments c i) \<noteq> PAGE_DIRECTORY \<and> vs_base (vsegments c i) \<noteq> PAGE_TABLE 0)"

lemma tables_reserved:
  assumes "wf_map (ctx k) L" "tables_reservable (ctx k)"
  shows "\<exists>k'. obind (reserve PAGE_DIRECTORY 1 0 t1 k) (reserve (PAGE_TABLE 0) 1 0 t2) = Ret k' \<and> mach k' = mach k"
proof -
  have a: "PAGE_DIRECTORY \<noteq> PAGE_TABLE 0"
    by (simp add: PAGE_DIRECTORY_def PAGE_TABLE_def HYPERSPACE_def hat_pageDirIndex_def PAGE_SIZE_def)
  note r = assms(2) [unfolded tables_reservable_def]
  have "\<not> ((1 :: u32) = 0 \<or> (\<exists>i < vcount (ctx k). seg_base (ctx k) i = PAGE_DIRECTORY) \<or> vcount (ctx k) = 80)"
    using r by (auto simp: seg_base_def)
  with reserve_map [OF assms(1), of 1 PAGE_DIRECTORY 0 t1]
  obtain c1 L1 where c1: "stand_reserveVirtualRange PAGE_DIRECTORY 1 0 t1 (ctx k) = Ret c1" "wf_map c1 L1"
    "vcount c1 = vcount (ctx k) + 1"
    "vsegments c1 (vcount (ctx k)) = \<lparr>vs_base = PAGE_DIRECTORY, vs_length = 1, vs_flags = 0, vs_tag = t1\<rparr>"
    "\<forall>i < vcount (ctx k). vsegments c1 i = vsegments (ctx k) i" by (simp only: if_False) blast
  have "\<not> (\<exists>i < vcount c1. seg_base c1 i = PAGE_TABLE 0)"
  proof
    assume "\<exists>i < vcount c1. seg_base c1 i = PAGE_TABLE 0"
    then obtain i where i: "i < vcount c1" "seg_base c1 i = PAGE_TABLE 0" by blast
    show False
    proof (cases "i = vcount (ctx k)")
      case True
      then show ?thesis using i(2) c1(4) a by (simp add: seg_base_def)
    next
      case False
      then have "i < vcount (ctx k)" using i(1) c1(3) by simp
      then show ?thesis using i(2) c1(5) r by (simp add: seg_base_def)
    qed
  qed
  then have "\<not> ((1 :: u32) = 0 \<or> (\<exists>i < vcount c1. seg_base c1 i = PAGE_TABLE 0) \<or> vcount c1 = 80)"
    using r c1(3) by simp
  with reserve_map [OF c1(2), of 1 "PAGE_TABLE 0" 0 t2]
  obtain c2 where "stand_reserveVirtualRange (PAGE_TABLE 0) 1 0 t2 c1 = Ret c2" by (simp only: if_False) blast
  then show ?thesis using c1(1) by (simp add: reserve_def)
qed

lemma init_paging_runs:
  assumes "unat (last_page k) mod 4096 = 0" "wf_map (ctx k) L" "tables_reservable (ctx k)"
  shows "\<exists>k'. hat_initInitialPaging k = Ret k' \<and>
    mach k' = init_tables (last_page k - PAGE_SIZE) (last_page k - PAGE_SIZE - PAGE_SIZE) (mach k)"
proof -
  define k2 where "k2 = snd (get_next_physical_page (snd (get_next_physical_page k)))"
  define k3 where "k3 = k2\<lparr>mach := init_tables (last_page k - PAGE_SIZE) (last_page k - PAGE_SIZE - PAGE_SIZE) (mach k)\<rparr>"
  have "ctx k3 = (ctx k)\<lparr>allocated_length := allocated_length (ctx k) + 2,
      allocated_base := last_page k - PAGE_SIZE - PAGE_SIZE\<rparr>"
    by (simp add: k3_def k2_def get_next_physical_page_def Let_def)
  then have "wf_map (ctx k3) L" "tables_reservable (ctx k3)"
    using assms(2,3) by (simp_all add: wf_map_def tables_reservable_def seg_base_def [abs_def])
  from tables_reserved [OF this] show ?thesis
    unfolding init_paging_tables [OF assms(1)] Let_def k2_def [symmetric] k3_def [symmetric]
    by (auto simp: k3_def)
qed

lemma blank_kernel_ok:
  "unat (last_page blank_kernel) mod 4096 = 0" "wf_map (ctx blank_kernel) []" "tables_reservable (ctx blank_kernel)"
  "blank_page (mach blank_kernel) b"
  using wf_empty_boot_context
  by (simp_all add: blank_kernel_def small_kernel_def tables_reservable_def blank_page_def) (simp_all add: empty_boot_context_def)

lemma blank_kernel_boots: "\<exists>k'. hat_initInitialPaging blank_kernel = Ret k'"
  using init_paging_runs [OF blank_kernel_ok(1-3)] by blast

text \<open>What stays: every word that is neither the first or last entry of the directory nor one
  of the table.\<close>

lemma init_tables_others:
  assumes "b \<noteq> entry pd 0" "b \<noteq> entry pd 1023" "\<forall>i < 1024. b \<noteq> entry tb (of_nat i)"
  shows "phys (init_tables pd tb m) b = phys m b"
proof -
  define m2 where "m2 = phys_update (entry pd 1023) (new_entry pd) (phys_update (entry pd 0) (new_entry tb) m)"
  have "init_tables pd tb m = (fold (\<lambda>i. phys_update (entry tb (of_nat i)) (low_entry i)) [0..<1024] m2)\<lparr>cr3 := pd\<rparr>"
    by (simp only: init_tables_def m2_def)
  moreover have "phys m2 b = phys m b" using assms(1,2) by (simp add: m2_def phys_update_def)
  ultimately show ?thesis using fold_entries [of 1024 tb low_entry m2] assms(3) by simp
qed

text \<open>C27: with the allocator's base page-aligned, a well-formed map that has room for two segments
  and none at the addresses of the directory and the first table, hat_initInitialPaging returns.  The
  directory is the page below the allocator's base and its first table the page below that; no
  word of memory outside the directory's first and last entry and the table changes, so the other entries
  of the directory are what the page held.  If neither page held a page base (nothing
  clears them), the directory can be reached through hyperspace and the first four megabytes
  are translated to themselves, readable and writable.\<close>
theorem hat_initInitialPaging_identity:
  assumes "unat (last_page k) mod 4096 = 0" "wf_map (ctx k) L" "tables_reservable (ctx k)"
  shows "let dir = last_page k - PAGE_SIZE; table = last_page k - 2 * PAGE_SIZE in
    \<exists>k'. hat_initInitialPaging k = Ret k' \<and> cr3 (mach k') = dir \<and>
      (\<forall>b. b \<noteq> dir \<and> b \<noteq> dir + 4 * 1023 \<and> (\<forall>i < 1024. b \<noteq> table + 4 * of_nat i) \<longrightarrow> phys (mach k') b = phys (mach k) b) \<and>
      (blank_page (mach k) dir \<and> blank_page (mach k) table \<longrightarrow>
         recursive (mach k') \<and> (\<forall>a. unat a < 4194304 \<longrightarrow> mmu w a (mach k') = Some a))"
proof -
  let ?pd = "last_page k - PAGE_SIZE" and ?tb = "last_page k - PAGE_SIZE - PAGE_SIZE"
  have tb: "last_page k - 2 * PAGE_SIZE = ?tb" by simp
  obtain k' where k': "hat_initInitialPaging k = Ret k'" "mach k' = init_tables ?pd ?tb (mach k)"
    using init_paging_runs [OF assms] by blast
  note al = aligned_sub [OF assms(1)] aligned_sub [OF aligned_sub [OF assms(1)]]
  have ne: "?pd \<noteq> ?tb" by (simp add: PAGE_SIZE_def)
  have e: "entry ?pd 0 = ?pd" "entry ?pd 1023 = ?pd + 4 * 1023" "\<And>i. entry ?tb (of_nat i) = ?tb + 4 * of_nat i"
    using entry_aligned [OF al(1)] entry_aligned [OF al(2)] by (simp_all add: mult.commute)
  have "cr3 (mach k') = ?pd" by (simp add: k'(2) init_tables_def)
  moreover have "phys (mach k') b = phys (mach k) b"
    if "b \<noteq> ?pd \<and> b \<noteq> ?pd + 4 * 1023 \<and> (\<forall>i < 1024. b \<noteq> ?tb + 4 * of_nat i)" for b
    unfolding k'(2) by (rule init_tables_others) (use that in \<open>simp_all only: e, auto\<close>)
  moreover have "recursive (mach k') \<and> (\<forall>a. unat a < 4194304 \<longrightarrow> mmu w a (mach k') = Some a)"
    if "blank_page (mach k) ?pd" "blank_page (mach k) ?tb"
    using init_tables_identity [OF al ne that] unfolding k'(2) by blast
  ultimately show ?thesis using k'(1) unfolding Let_def tb by blast
qed

theorem hat_initInitialPaging_identity_witness:
  "\<exists>k'. hat_initInitialPaging blank_kernel = Ret k' \<and> recursive (mach k') \<and>
     mmu True 0xB8000 (mach k') = Some 0xB8000"
proof -
  obtain k' where k': "hat_initInitialPaging blank_kernel = Ret k'"
    "recursive (mach k') \<and> (\<forall>a. unat a < 4194304 \<longrightarrow> mmu True a (mach k') = Some a)"
    using hat_initInitialPaging_identity [OF blank_kernel_ok(1-3), of True] blank_kernel_ok(4) unfolding Let_def by blast
  from k'(2) [THEN conjunct1] k'(2) [THEN conjunct2, rule_format, of "0xB8000"] k'(1) show ?thesis by auto
qed

text \<open>Hat_initInitialPaging does not clear its pages: the calls memset(page, PAGE_SIZE, 0) have
  the last two arguments exchanged and fill nothing, so every directory entry but the first and the
  last keeps whatever the page held, and a base left over in the first entry is mixed into the
  address of the page table.\<close>
lemma hat_initInitialPaging_keeps_garbage:
  assumes "unat (last_page k) mod 4096 = 0" and "hat_initInitialPaging k = Ret k'"
    and "last_page k - PAGE_SIZE \<noteq> 0" and "0 < i" and "i < 1023"
  shows "pde (mach k') (of_nat i) = phys (mach k) (entry (last_page k - PAGE_SIZE) (of_nat i)) \<and>
    pde (mach k') 0 AND NOT 0xFFF =
      (phys (mach k) (entry (last_page k - PAGE_SIZE) 0) OR (last_page k - PAGE_SIZE - PAGE_SIZE)) AND NOT 0xFFF"
proof -
  let ?pd = "last_page k - PAGE_SIZE" and ?tb = "last_page k - PAGE_SIZE - PAGE_SIZE"
  define m2 where "m2 = phys_update (entry ?pd 1023) (new_entry ?pd) (phys_update (entry ?pd 0) (new_entry ?tb) (mach k))"
  have mk: "mach k' = init_tables ?pd ?tb (mach k)"
    using assms(2) init_paging_tables [OF assms(1)] by (auto simp: Let_def dest!: reserve_mach)
  have it: "init_tables ?pd ?tb (mach k) = (fold (\<lambda>i. phys_update (entry ?tb (of_nat i)) (low_entry i)) [0..<1024] m2)\<lparr>cr3 := ?pd\<rparr>"
    by (simp only: init_tables_def m2_def)
  have al: "?pd AND NOT 0xFFF = ?pd" "?tb AND NOT 0xFFF = ?tb"
    by (rule aligned_base [OF aligned_sub [OF assms(1)]],
        rule aligned_base [OF aligned_sub [OF aligned_sub [OF assms(1)]]])
  have ne: "?pd \<noteq> ?tb" by (simp add: PAGE_SIZE_def)
  have t: "entry ?pd j \<noteq> entry ?tb (of_nat n)" if "unat j < 1024" "n < 1024" for j n
    using entry_inject [OF that(1), of "of_nat n" ?pd ?tb] that al ne by (simp add: unat_of_nat_u32)
  have p: "entry ?pd j \<noteq> entry ?pd l" if "unat j < 1024" "unat l < 1024" "j \<noteq> l" for j l
    using entry_inject [OF that(1,2), of ?pd ?pd] that(3) by simp
  have f: "phys (init_tables ?pd ?tb (mach k)) (entry ?pd j) = phys m2 (entry ?pd j)" if "unat j < 1024" for j
    using fold_entries [of 1024 ?tb low_entry m2] t [OF that] unfolding it by simp
  have u: "unat (of_nat i :: u32) = i" using assms(5) by (simp add: unat_of_nat_u32)
  then have "(of_nat i :: u32) \<noteq> 0" "(of_nat i :: u32) \<noteq> 1023" using assms(4,5) by (metis unat_0 less_irrefl, auto)
  then have "phys m2 (entry ?pd (of_nat i)) = phys (mach k) (entry ?pd (of_nat i))"
    using p [of "of_nat i" 0] p [of "of_nat i" 1023] u assms(5) by (simp add: m2_def phys_update_def)
  moreover have "phys m2 (entry ?pd 0) = new_entry ?tb (phys (mach k) (entry ?pd 0))"
    using p [of 0 1023] by (simp add: m2_def phys_update_def)
  moreover have "cr3 (init_tables ?pd ?tb (mach k)) = ?pd" by (simp add: init_tables_def)
  ultimately show ?thesis
    using f [of "of_nat i"] f [of 0] u assms(5) new_entry_bits(1) unfolding mk pde_def by simp
qed

theorem hat_initInitialPaging_keeps_garbage_witness:
  "\<exists>k'. hat_initInitialPaging blank_kernel = Ret k' \<and> pde (mach k') (of_nat 5) = 0"
proof -
  obtain k' where k': "hat_initInitialPaging blank_kernel = Ret k'" using blank_kernel_boots by blast
  have "phys (mach blank_kernel) a = 0" for a by (simp add: blank_kernel_def)
  moreover have "pde (mach k') (of_nat 5) =
      phys (mach blank_kernel) (entry (last_page blank_kernel - PAGE_SIZE) (of_nat 5))"
    using hat_initInitialPaging_keeps_garbage [of blank_kernel k' 5] k'
    by (simp add: blank_kernel_def small_kernel_def PAGE_SIZE_def)
  ultimately show ?thesis using k' by simp
qed

end
