(* ===== verification/Mm_Init.thy ===== *)
theory Mm_Init
  imports Hat_Props
begin

text \<open>
  mm_initPfd of kernel/mm/pfd.c: the page frame database is built from the physical memory map
  and from what the page tables already map, and becomes the source of physical pages.
\<close>

section \<open>mm_initPfd\<close>

text \<open>The RAM segments in the order in which stand_getRamSegment(j++) enumerates them.\<close>

fun ram_from :: "nat \<Rightarrow> nat \<Rightarrow> stand_boot_context \<Rightarrow> stand_physical_segment list" where
  "ram_from 0 j c = []"
| "ram_from (Suc n) j c =
     (case stand_getRamSegment j c of None \<Rightarrow> [] | Some s \<Rightarrow> s # ram_from n (j + 1) c)"

definition ram_segments :: "stand_boot_context \<Rightarrow> stand_physical_segment list" where
  "ram_segments c = ram_from (length (memory_map c)) 0 c"

definition seg_end :: "stand_physical_segment \<Rightarrow> u32" where
  "seg_end s = ps_base s + ps_length s"

fun highest :: "stand_physical_segment \<Rightarrow> stand_physical_segment list \<Rightarrow> stand_physical_segment" where
  "highest h [] = h"
| "highest h (s # ss) = highest (if seg_end s > seg_end h then s else h) ss"

definition frame_range :: "stand_physical_segment \<Rightarrow> nat list" where
  "frame_range s = [unat (ps_base s div PAGE_SIZE)..<unat (seg_end s div PAGE_SIZE)]"

text \<open>The frames of the present pages of one virtual segment, and of all of them.\<close>

fun present_frames :: "nat \<Rightarrow> u32 \<Rightarrow> machine \<Rightarrow> nat list outcome" where
  "present_frames 0 base m = Ret []"
| "present_frames (Suc n) base m =
     obind (hat_isPresent base m) (\<lambda>p.
       obind (if p then obind (hat_virtualToPhysical base m) (\<lambda>a. Ret [unat (mm_pageFrameNumber a)]) else Ret [])
         (\<lambda>fs. obind (present_frames n (base + PAGE_SIZE) m) (\<lambda>gs. Ret (fs @ gs))))"

fun mapped_frames :: "nat \<Rightarrow> nat \<Rightarrow> stand_boot_context \<Rightarrow> machine \<Rightarrow> nat list outcome" where
  "mapped_frames 0 i c m = Ret []"
| "mapped_frames (Suc n) i c m =
     obind (present_frames (unat (vs_length (vsegments c i))) (vs_base (vsegments c i)) m) (\<lambda>fs.
       obind (mapped_frames n (i + 1) c m) (\<lambda>gs. Ret (fs @ gs)))"

definition PAGE_FRAME_BYTES :: u32 where
  "PAGE_FRAME_BYTES = 8"

definition mm_initPfd :: "kernel \<Rightarrow> kernel outcome" where
  "mm_initPfd k =
     (case ram_segments (ctx k) of
        [] \<Rightarrow> Fault
      | s # ss \<Rightarrow>
          (let n = unat (seg_end (highest s ss) div PAGE_SIZE);
               pages = of_nat n * PAGE_FRAME_BYTES div PAGE_SIZE + 1
           in obind (stand_getNextFreeVirtual (kernelBase (ctx k)) pages (ctx k)) (\<lambda>frames.
                obind (hat_initialMapAnonPages frames pages PROT_WRITE (bytes ''PFD'') k) (\<lambda>(_, k1).
                  (let ram = concat (map frame_range (ram_segments (ctx k1)));
                       top = (if 4 \<le> n then [n - 4..<n] else [])
                   in obind (set_states (map (\<lambda>i. (i, free)) ram @ map (\<lambda>i. (i, bad)) top)
                               (pfd_all_bad n (pfd_links (pfd k1)))) (\<lambda>d.
                        obind (mapped_frames (vcount (ctx k1)) 0 (ctx k1) (mach k1)) (\<lambda>fs.
                          obind (set_states (map (\<lambda>i. (i, used)) fs) d) (\<lambda>d2.
                            Ret (k1\<lparr>pfd := d2, source := FromPfd\<rparr>)))))))))"

section \<open>The memory map\<close>

lemma ram_segment_loop_nth:
  "ram_segment_loop ss r idx = (let f = filter (\<lambda>s. ps_type s = RAM) ss
     in if r \<le> idx \<and> idx - r < length f then Some (f ! (idx - r)) else None)"
  by (induction ss arbitrary: r) (auto simp: Let_def nth_Cons' not_less)

lemma ram_from_filter:
  "length (filter (\<lambda>s. ps_type s = RAM) (memory_map c)) \<le> j + n \<Longrightarrow>
   ram_from n j c = drop j (filter (\<lambda>s. ps_type s = RAM) (memory_map c))"
proof (induction n arbitrary: j)
  case 0
  then show ?case by simp
next
  case (Suc n)
  show ?case
  proof (cases "j < length (filter (\<lambda>s. ps_type s = RAM) (memory_map c))")
    case True
    then show ?thesis using Suc
      by (simp add: stand_getRamSegment_def ram_segment_loop_nth Let_def Cons_nth_drop_Suc)
  next
    case False
    then show ?thesis by (simp add: stand_getRamSegment_def ram_segment_loop_nth Let_def)
  qed
qed

lemma ram_segments_filter: "ram_segments c = filter (\<lambda>s. ps_type s = RAM) (memory_map c)"
  by (simp add: ram_segments_def ram_from_filter)

lemma highest_is_max: "seg_end h \<le> seg_end (highest h ss) \<and> (\<forall>s \<in> set ss. seg_end s \<le> seg_end (highest h ss))"
proof (induction ss arbitrary: h)
  case (Cons s ss)
  let ?h = "if seg_end s > seg_end h then s else h"
  have "seg_end h \<le> seg_end ?h" "seg_end s \<le> seg_end ?h" by auto
  with Cons [of ?h] show ?case by (auto intro: order_trans simp del: if_split)
qed simp

lemma highest_in: "highest h ss \<in> insert h (set ss)"
  by (induction ss arbitrary: h) (auto split: if_splits)

section \<open>The database mm_initPfd builds\<close>

lemma set_states_bounds:
  "set_states cs d = Ret d' \<Longrightarrow> numFrames d' = numFrames d \<and> (\<forall>(i, t) \<in> set cs. i < numFrames d)"
proof (induction cs arbitrary: d)
  case (Cons c cs)
  obtain i t where c: "c = (i, t)" by fastforce
  from Cons.prems c obtain d1 where d1: "mm_pfd_setFrameState i t d = Ret d1" "set_states cs d1 = Ret d'" by auto
  then have "numFrames d1 = numFrames d" "i < numFrames d"
    by (auto simp: mm_pfd_setFrameState_def split: if_splits)
  then show ?case using Cons.IH [OF d1(2)] c by auto
qed simp

lemma set_states_append: "set_states (cs @ ds) d = obind (set_states cs d) (set_states ds)"
proof (induction cs arbitrary: d)
  case (Cons c cs)
  then have "set_states (cs @ ds) = (\<lambda>x. obind (set_states cs x) (set_states ds))" by (intro ext)
  then show ?case by (cases c) (simp add: obind_assoc)
qed simp

lemma last_state_append: "last_state i (cs @ ds) s = last_state i ds (last_state i cs s)"
  by (induction cs arbitrary: s) auto

lemma last_state_map: "last_state i (map (\<lambda>i. (i, t)) xs) s = (if i \<in> set xs then t else s)"
  by (induction xs arbitrary: s) auto

lemma frames_of_unique:
  "frames_of d L \<Longrightarrow> i \<in> set (L s) \<Longrightarrow> i \<in> set (L t) \<Longrightarrow> s = t"
  unfolding frames_of_def by blast

lemma classified:
  assumes "mm_initPfd k = Ret k'"
  shows "\<exists>L fs s ss. frames_of (pfd k') L \<and> source k' = FromPfd \<and> ram_segments (ctx k) = s # ss \<and>
    numFrames (pfd k') = unat (seg_end (highest s ss) div PAGE_SIZE) \<and>
    mapped_frames (vcount (ctx k')) 0 (ctx k') (mach k') = Ret fs \<and>
    (\<forall>i < numFrames (pfd k'). i \<in> set (L
       (if i \<in> set fs then used
        else if numFrames (pfd k') - 4 \<le> i \<and> 4 \<le> numFrames (pfd k') then bad
        else if \<exists>s \<in> set (memory_map (ctx k')). ps_type s = RAM \<and> i \<in> set (frame_range s) then free
        else bad)))"
proof -
  from assms obtain s ss n frames pages b k1 d fs d2 where
    ss: "ram_segments (ctx k) = s # ss" and
    n: "n = unat (seg_end (highest s ss) div PAGE_SIZE)" and
    d: "set_states (map (\<lambda>i. (i, free)) (concat (map frame_range (ram_segments (ctx k1)))) @
        map (\<lambda>i. (i, bad)) (if 4 \<le> n then [n - 4..<n] else [])) (pfd_all_bad n (pfd_links (pfd k1))) = Ret d"
    and fs: "mapped_frames (vcount (ctx k1)) 0 (ctx k1) (mach k1) = Ret fs"
    and d2: "set_states (map (\<lambda>i. (i, used)) fs) d = Ret d2" and k': "k' = k1\<lparr>pfd := d2, source := FromPfd\<rparr>"
    by (auto simp: mm_initPfd_def Let_def split: list.splits prod.splits)
  define ram where "ram = concat (map frame_range (ram_segments (ctx k1)))"
  define top where "top = (if 4 \<le> n then [n - 4..<n] else [])"
  define cs where "cs = map (\<lambda>i. (i, free)) ram @ map (\<lambda>i. (i, bad)) top @ map (\<lambda>i. (i, used)) fs"
  define d0 where "d0 = pfd_all_bad n (pfd_links (pfd k1))"
  have "set_states (map (\<lambda>i. (i, free)) ram @ map (\<lambda>i. (i, bad)) top) d0 = Ret d"
    using d unfolding ram_def top_def d0_def .
  then have all: "set_states cs d0 = Ret d2"
    using d2 unfolding cs_def append_assoc [symmetric] set_states_append [of "_ @ _"] by simp
  have b: "numFrames d2 = numFrames d0" "\<forall>(i, t) \<in> set cs. i < numFrames d0"
    using set_states_bounds [OF all] by auto
  have n0: "numFrames d0 = n" by (simp add: d0_def pfd_all_bad_def Let_def)
  from set_states_last [OF pfd_all_bad_frames [of n "pfd_links (pfd k1)"], folded d0_def, OF b(2)] all
  obtain L where L: "frames_of d2 L"
    "\<And>i s. i \<in> set (if s = bad then rev [0..<n] else []) \<Longrightarrow> i \<in> set (L (last_state i cs s))" by auto
  have m: "i \<in> set ram \<longleftrightarrow> (\<exists>s \<in> set (memory_map (ctx k1)). ps_type s = RAM \<and> i \<in> set (frame_range s))" for i
    by (auto simp: ram_def ram_segments_filter)
  have t: "i < n \<Longrightarrow> i \<in> set top \<longleftrightarrow> n - 4 \<le> i \<and> 4 \<le> n" for i by (auto simp: top_def)
  have "i \<in> set (L (if i \<in> set fs then used else if n - 4 \<le> i \<and> 4 \<le> n then bad
      else if \<exists>s \<in> set (memory_map (ctx k1)). ps_type s = RAM \<and> i \<in> set (frame_range s) then free else bad))"
    if "i < n" for i
  proof -
    have "i \<in> set (L (last_state i cs bad))" using L(2) [of i bad] that by simp
    moreover have "last_state i cs bad = (if i \<in> set fs then used else if i \<in> set top then bad
        else if i \<in> set ram then free else bad)"
      by (simp add: cs_def last_state_append last_state_map)
    ultimately have "i \<in> set (L (if i \<in> set fs then used else if i \<in> set top then bad
        else if i \<in> set ram then free else bad))" by simp
    then show ?thesis unfolding t [OF that] m .
  qed
  moreover have "numFrames (pfd k') = n" "ctx k' = ctx k1" "mach k' = mach k1" "pfd k' = d2" "source k' = FromPfd"
    using b(1) n0 by (simp_all add: k')
  ultimately have k: "frames_of (pfd k') L" "numFrames (pfd k') = n" "ctx k' = ctx k1" "mach k' = mach k1"
    "source k' = FromPfd"
    "\<forall>i < n. i \<in> set (L (if i \<in> set fs then used else if n - 4 \<le> i \<and> 4 \<le> n then bad
      else if \<exists>s \<in> set (memory_map (ctx k1)). ps_type s = RAM \<and> i \<in> set (frame_range s) then free else bad))"
    using L(1) by (blast, simp_all only:, blast)
  show ?thesis unfolding k(2-5)
    by (rule exI [of _ L], rule exI [of _ fs], rule exI [of _ s], rule exI [of _ ss], intro conjI k(1) fs refl ss n k(6))
qed

text \<open>What the lists of frames are by themselves: the frames the processor finds behind the
  registered pages, and the segments of RAM.\<close>

lemma present_frames_mmu:
  assumes "recursive m"
  shows "\<exists>fs. present_frames n base m = Ret fs \<and>
    (\<forall>i. i \<in> set fs \<longleftrightarrow> (\<exists>p < n. \<exists>a. mmu False (base + of_nat p * 4096) m = Some a \<and> unat a div 4096 = i))"
proof (induction n arbitrary: base)
  case 0
  then show ?case by simp
next
  case (Suc n)
  obtain gs where g: "present_frames n (base + PAGE_SIZE) m = Ret gs"
    "\<And>i. i \<in> set gs \<longleftrightarrow> (\<exists>p < n. \<exists>a. mmu False (base + PAGE_SIZE + of_nat p * 4096) m = Some a \<and> unat a div 4096 = i)"
    using Suc [of "base + PAGE_SIZE"] by blast
  note l = lookup_mmu [OF assms, of base]
  define hs where "hs = (case mmu False base m of Some a \<Rightarrow> [unat a div 4096] | None \<Rightarrow> [])"
  have "present_frames (Suc n) base m = Ret (hs @ gs)"
    using l g(1) by (cases "mmu False base m") (simp_all add: hs_def mm_pageFrameNumber_def PAGE_SIZE_def unat_div)
  moreover have "i \<in> set (hs @ gs) \<longleftrightarrow>
      (\<exists>p < Suc n. \<exists>a. mmu False (base + of_nat p * 4096) m = Some a \<and> unat a div 4096 = i)" for i
  proof -
    have "i \<in> set hs \<longleftrightarrow> (\<exists>a. mmu False (base + of_nat 0 * 4096) m = Some a \<and> unat a div 4096 = i)"
      by (cases "mmu False base m") (auto simp: hs_def)
    moreover have "i \<in> set gs \<longleftrightarrow> (\<exists>p < n. \<exists>a. mmu False (base + of_nat (Suc p) * 4096) m = Some a \<and> unat a div 4096 = i)"
      by (simp add: g(2) PAGE_SIZE_def algebra_simps)
    ultimately show ?thesis unfolding Ex_less_Suc2 set_append Un_iff by simp
  qed
  ultimately show ?case by blast
qed

lemma mapped_frames_mmu:
  assumes "recursive m" "mapped_frames n v c m = Ret fs"
  shows "i \<in> set fs \<longleftrightarrow> (\<exists>u \<in> {v..<v + n}. \<exists>p < unat (vs_length (vsegments c u)).
    \<exists>a. mmu False (vs_base (vsegments c u) + of_nat p * 4096) m = Some a \<and> unat a div 4096 = i)"
  using assms(2)
proof (induction n arbitrary: v fs)
  case 0
  then show ?case by simp
next
  case (Suc n)
  obtain hs where h: "present_frames (unat (vs_length (vsegments c v))) (vs_base (vsegments c v)) m = Ret hs"
    "\<And>i. i \<in> set hs \<longleftrightarrow> (\<exists>p < unat (vs_length (vsegments c v)). \<exists>a. mmu False (vs_base (vsegments c v) + of_nat p * 4096) m = Some a \<and> unat a div 4096 = i)"
    using present_frames_mmu [OF assms(1)] by blast
  with Suc.prems obtain gs where g: "mapped_frames n (v + 1) c m = Ret gs" "fs = hs @ gs" by auto
  have "{v..<v + Suc n} = insert v {v + 1..<v + 1 + n}" by auto
  then show ?case using Suc.IH [OF g(1)] h(2) g(2) by simp
qed

lemma frame_range_segment:
  "i \<in> set (frame_range s) \<longleftrightarrow> unat (ps_base s) div 4096 \<le> i \<and> i < unat (ps_base s + ps_length s) div 4096"
  by (simp add: frame_range_def seg_end_def PAGE_SIZE_def unat_div)

text \<open>C14: when mm_initPfd returns, there are as many frames as fit below the highest end of a
  segment of RAM (there is one), the physical pages come from the database, and every frame is in exactly
  one list, given that the page directory can still be reached through hyperspace: the frame
  is used if the processor translates a page of a registered virtual segment to it;
  otherwise it is bad if it is one of the last four, free if it lies in a segment of RAM, and
  bad if it does not.\<close>
theorem mm_initPfd_classifies:
  assumes "mm_initPfd k = Ret k'" "recursive (mach k')"
  shows "\<exists>L. frames_of (pfd k') L \<and> source k' = FromPfd \<and>
    (\<exists>s \<in> set (memory_map (ctx k)). ps_type s = RAM \<and> numFrames (pfd k') = unat (ps_base s + ps_length s) div 4096) \<and>
    (\<forall>s \<in> set (memory_map (ctx k)). ps_type s = RAM \<longrightarrow> unat (ps_base s + ps_length s) div 4096 \<le> numFrames (pfd k')) \<and>
    (\<forall>i < numFrames (pfd k'). i \<in> set (L
       (if \<exists>u < vcount (ctx k'). \<exists>p < unat (vs_length (vsegments (ctx k') u)).
           \<exists>a. mmu False (vs_base (vsegments (ctx k') u) + of_nat p * 4096) (mach k') = Some a \<and> unat a div 4096 = i
        then used
        else if 4 \<le> numFrames (pfd k') \<and> numFrames (pfd k') \<le> i + 4 then bad
        else if \<exists>s \<in> set (memory_map (ctx k')). ps_type s = RAM \<and>
           unat (ps_base s) div 4096 \<le> i \<and> i < unat (ps_base s + ps_length s) div 4096
        then free else bad)))"
proof -
  obtain L fs s ss where c: "frames_of (pfd k') L" "source k' = FromPfd" "ram_segments (ctx k) = s # ss"
    "numFrames (pfd k') = unat (seg_end (highest s ss) div PAGE_SIZE)"
    "mapped_frames (vcount (ctx k')) 0 (ctx k') (mach k') = Ret fs"
    "\<And>i. i < numFrames (pfd k') \<Longrightarrow> i \<in> set (L (if i \<in> set fs then used
        else if numFrames (pfd k') - 4 \<le> i \<and> 4 \<le> numFrames (pfd k') then bad
        else if \<exists>s \<in> set (memory_map (ctx k')). ps_type s = RAM \<and> i \<in> set (frame_range s) then free else bad))"
    using classified [OF assms(1)] by blast
  have m: "i \<in> set fs \<longleftrightarrow> (\<exists>u < vcount (ctx k'). \<exists>p < unat (vs_length (vsegments (ctx k') u)).
      \<exists>a. mmu False (vs_base (vsegments (ctx k') u) + of_nat p * 4096) (mach k') = Some a \<and> unat a div 4096 = i)" for i
    using mapped_frames_mmu [OF assms(2) c(5), of i] unfolding add_0 Bex_def atLeastLessThan_iff by (simp only: le0 simp_thms)
  have t: "numFrames (pfd k') - 4 \<le> i \<and> 4 \<le> numFrames (pfd k') \<longleftrightarrow> 4 \<le> numFrames (pfd k') \<and> numFrames (pfd k') \<le> i + 4" for i
    by auto
  have n: "numFrames (pfd k') = unat (ps_base (highest s ss) + ps_length (highest s ss)) div 4096"
    unfolding c(4) by (simp add: seg_end_def PAGE_SIZE_def unat_div)
  have r: "set (s # ss) = {x \<in> set (memory_map (ctx k)). ps_type x = RAM}"
    unfolding c(3) [symmetric] ram_segments_filter by simp
  have "highest s ss \<in> set (s # ss)" using highest_in [of s ss] by simp
  then have e: "\<exists>x \<in> set (memory_map (ctx k)). ps_type x = RAM \<and> numFrames (pfd k') = unat (ps_base x + ps_length x) div 4096"
    using n r by blast
  have "unat (ps_base x + ps_length x) div 4096 \<le> numFrames (pfd k')" if "x \<in> set (s # ss)" for x
    using highest_is_max [of s ss] that unfolding n by (auto simp: seg_end_def word_le_nat_alt intro!: div_le_mono)
  then have u: "\<forall>x \<in> set (memory_map (ctx k)). ps_type x = RAM \<longrightarrow> unat (ps_base x + ps_length x) div 4096 \<le> numFrames (pfd k')"
    using r by blast
  show ?thesis using c(6) unfolding m t frame_range_segment
    by (intro exI [of _ L] conjI c(1,2) e u) blast
qed

text \<open>A kernel with eight frames of RAM, the tables of small_machine, and an allocator that hands
  out frame 3: the database itself is mapped there.\<close>

definition eight_frames :: kernel where
  "eight_frames = small_kernel\<lparr>last_page := 0x4000, ctx := empty_boot_context\<lparr>kernelBase := 0xC0000000,
     memory_map := [\<lparr>ps_base = 0, ps_length = 0x8000, ps_type = RAM\<rparr>]\<rparr>\<rparr>"

lemma anon_step:
  assumes "map_ready (mach k) A" "addr \<in> A"
    and "hat_initial_get_next_physical_page k = Ret (page, k1)" "mach k1 = mach k" "page \<noteq> -1"
  shows "anon_loop (Suc n) addr pf k = anon_loop n (addr + PAGE_SIZE) pf
    (k1\<lparr>mach := phys_update (pte_addr (mach k) addr)
       (\<lambda>d. hat_setPteFlags (pf OR PTE_PRESENT) (hat_setPteBase page d)) (mach k)\<rparr>)"
proof -
  let ?m = "mach k" and ?m1 = "phys_update (pte_addr (mach k) addr) (hat_setPteBase page) (mach k)"
  have r: "recursive ?m" "allows True (pde ?m (hat_pageDirIndex addr))"
    "hat_getPteBase (pde ?m (hat_pageDirIndex addr)) \<noteq> 0"
    using assms(1,2) by (simp_all add: map_ready_def hat_getPteBase_def)
  have r1: "recursive ?m1" "allows True (pde ?m1 (hat_pageDirIndex addr))" "pte_addr ?m1 addr = pte_addr ?m addr"
    using map_ready_update [OF assms(1,2), of "hat_setPteBase page"] assms(2) by (simp_all add: map_ready_def)
  show ?thesis using r r1 dir_less assms(3-5)
    by (simp add: on_mach_def read_directory update_table Let_def phys_update_twice)
qed

lemma set_states_Ret: "\<forall>(i, t) \<in> set cs. i < numFrames d \<Longrightarrow> \<exists>d'. set_states cs d = Ret d' \<and> numFrames d' = numFrames d"
proof (induction cs arbitrary: d)
  case (Cons c cs)
  obtain i t where c: "c = (i, t)" by fastforce
  from Cons.prems c obtain d1 where d1: "mm_pfd_setFrameState i t d = Ret d1" "numFrames d1 = numFrames d"
    by (auto simp: mm_pfd_setFrameState_def)
  moreover from Cons.prems d1(2) have "\<exists>d'. set_states cs d1 = Ret d' \<and> numFrames d' = numFrames d1"
    by (intro Cons.IH) simp
  ultimately show ?case using c by simp
qed simp

lemma eight_frames_boots:
  "\<exists>k'. mm_initPfd eight_frames = Ret k' \<and> numFrames (pfd k') = 8 \<and> recursive (mach k') \<and>
    mmu False 0xC0000000 (mach k') = Some 0x3000 \<and> vcount (ctx k') = 1 \<and>
    vs_base (vsegments (ctx k') 0) = 0xC0000000 \<and> vs_length (vsegments (ctx k') 0) = 1 \<and>
    memory_map (ctx k') = [\<lparr>ps_base = 0, ps_length = 0x8000, ps_type = RAM\<rparr>]"
proof -
  let ?k = eight_frames
  have w: "wf_map (ctx ?k) []"
    using wf_empty_boot_context by (simp add: wf_map_def eight_frames_def)
  have "vcount (ctx ?k) = 0" by (simp add: eight_frames_def empty_boot_context_def)
  with reserve_map [OF w, of 1 "0xC0000000" PROT_WRITE "bytes ''PFD''"] obtain c where
    c: "stand_reserveVirtualRange 0xC0000000 1 PROT_WRITE (bytes ''PFD'') (ctx ?k) = Ret c" "vcount c = 1"
    "vsegments c 0 = \<lparr>vs_base = 0xC0000000, vs_length = 1, vs_flags = PROT_WRITE, vs_tag = bytes ''PFD''\<rparr>"
    by auto
  have c0: "memory_map c = memory_map (ctx ?k)" "allocated_length c = 0" "kernelBase c = 0xC0000000"
    using c(1) by (auto simp: stand_reserveVirtualRange_def stand_virtualSegmentSortedInsert_def Let_def
        eight_frames_def empty_boot_context_def split: if_splits)
  have nf: "stand_getNextFreeVirtual 0xC0000000 1 (ctx ?k) = Ret 0xC0000000"
    by (simp add: stand_getNextFreeVirtual_def eight_frames_def empty_boot_context_def next_free_loop.simps
        INIT_LIST_HEAD_def set_nxt_def set_prv_def)
  define k1 where "k1 = (snd (get_next_physical_page (?k\<lparr>ctx := c\<rparr>)))"
  have g: "hat_initial_get_next_physical_page (?k\<lparr>ctx := c\<rparr>) = Ret (0x3000, k1)" "mach k1 = small_machine"
    by (simp_all add: hat_initial_get_next_physical_page_def k1_def get_next_physical_page_def eight_frames_def
        small_kernel_def PAGE_SIZE_def Let_def)
  have mr: "map_ready small_machine {0xC0000000}"
    by (simp add: map_ready_def recursive_def small_machine_def pde_def entry_def allows_def hat_pageDirIndex_def)
  define m where "m = phys_update 0x101000 (\<lambda>d. hat_setPteFlags (page_flags PROT_WRITE OR PTE_PRESENT)
      (hat_setPteBase 0x3000 d)) small_machine"
  have pa: "pte_addr small_machine 0xC0000000 = 0x101000"
    by (simp add: pte_addr_def pde_def entry_def small_machine_def hat_pageDirIndex_def hat_pageTableIndex_def)
  have "anon_loop 1 0xC0000000 (page_flags PROT_WRITE) (?k\<lparr>ctx := c\<rparr>) = Ret (True, k1\<lparr>mach := m\<rparr>)"
    using anon_step [of "?k\<lparr>ctx := c\<rparr>" "{0xC0000000}" "0xC0000000" "0x3000" k1 0 "page_flags PROT_WRITE"] mr g pa
    by (simp add: m_def eight_frames_def small_kernel_def)
  then have an: "hat_initialMapAnonPages 0xC0000000 1 PROT_WRITE (bytes ''PFD'') ?k = Ret (True, k1\<lparr>mach := m\<rparr>)"
    using nf c(1) by (simp add: hat_initialMapAnonPages_def reserve_def)
  have "map_ready m {0xC0000000}"
    using map_ready_update(1) [OF mr, of "0xC0000000"] pa by (simp add: m_def)
  then have rec: "recursive m" by (simp add: map_ready_def)
  have fl: "page_flags PROT_WRITE OR PTE_PRESENT = 3"
    by (simp add: page_flags_def PROT_WRITE_def PROT_USER_def PTE_RW_def PTE_PRESENT_def)
  have mm: "mmu False 0xC0000000 m = Some 0x3000"
    by (simp add: mmu_def m_def phys_update_def small_machine_def allows_def fl hat_setPteFlags_def
        hat_setPteBase_def)
  have pf: "present_frames 1 0xC0000000 m = Ret [3]"
    using lookup_mmu [OF rec, of "0xC0000000"] mm
    by (simp add: mm_pageFrameNumber_def PAGE_SIZE_def)
  have cc: "ctx (k1\<lparr>mach := m\<rparr>) = c\<lparr>allocated_length := allocated_length c + 1, allocated_base := 0x3000\<rparr>"
    by (simp add: k1_def get_next_physical_page_def Let_def eight_frames_def small_kernel_def PAGE_SIZE_def)
  have mf: "mapped_frames (vcount (ctx (k1\<lparr>mach := m\<rparr>))) 0 (ctx (k1\<lparr>mach := m\<rparr>)) m = Ret [3]"
    unfolding cc using c(2,3) pf by simp
  define cs where "cs = map (\<lambda>i. (i, free)) [0..<8::nat] @ map (\<lambda>i. (i, bad)) [4..<8]"
  define d0 where "d0 = pfd_all_bad 8 (pfd_links (pfd (k1\<lparr>mach := m\<rparr>)))"
  have n0: "numFrames d0 = 8" by (simp add: d0_def pfd_all_bad_def Let_def)
  have "\<forall>(i, t) \<in> set cs. i < numFrames d0" unfolding n0 by (auto simp: cs_def)
  then obtain d where d: "set_states cs d0 = Ret d" "numFrames d = 8"
    using set_states_Ret [of cs d0] n0 by auto
  have "\<forall>(i, t) \<in> set (map (\<lambda>i. (i, used)) [3]). i < numFrames d" using d(2) by simp
  then obtain d2 where d2: "set_states (map (\<lambda>i. (i, used)) [3]) d = Ret d2" "numFrames d2 = 8"
    using set_states_Ret [of "map (\<lambda>i. (i, used)) [3]" d] d(2) by auto
  have rs: "ram_segments (ctx ?k) = [\<lparr>ps_base = 0, ps_length = 0x8000, ps_type = RAM\<rparr>]"
    "ram_segments (ctx (k1\<lparr>mach := m\<rparr>)) = [\<lparr>ps_base = 0, ps_length = 0x8000, ps_type = RAM\<rparr>]"
    unfolding cc ram_segments_filter using c0 by (simp_all add: eight_frames_def)
  have "mm_initPfd ?k = Ret (k1\<lparr>mach := m, pfd := d2, source := FromPfd\<rparr>)"
  proof -
    have h: "unat (seg_end \<lparr>ps_base = 0, ps_length = 0x8000, ps_type = RAM\<rparr> div PAGE_SIZE) = 8"
      "of_nat 8 * PAGE_FRAME_BYTES div PAGE_SIZE + 1 = (1 :: u32)"
      by (simp_all add: seg_end_def PAGE_SIZE_def PAGE_FRAME_BYTES_def)
    have kb: "kernelBase (ctx ?k) = 0xC0000000" by (simp add: eight_frames_def)
    have fr: "concat (map frame_range [\<lparr>ps_base = 0, ps_length = 0x8000, ps_type = RAM\<rparr>]) = [0..<8]"
      by (simp add: frame_range_def seg_end_def PAGE_SIZE_def)
    have mk: "mach (k1\<lparr>mach := m\<rparr>) = m" by simp
    have c4: "(if 4 \<le> (8::nat) then [8 - 4..<8] else []) = [4..<8]" by simp
    show ?thesis
      unfolding mm_initPfd_def rs list.case highest.simps Let_def h kb nf obind.simps an prod.case fr c4
        mk mf d [unfolded cs_def d0_def] d2(1) by simp
  qed
  moreover have "memory_map (ctx (k1\<lparr>mach := m\<rparr>)) = [\<lparr>ps_base = 0, ps_length = 0x8000, ps_type = RAM\<rparr>]"
    "vcount (ctx (k1\<lparr>mach := m\<rparr>)) = 1" "vsegments (ctx (k1\<lparr>mach := m\<rparr>)) 0 = vsegments c 0"
    unfolding cc using c0(1) c(2) by (simp_all add: eight_frames_def)
  ultimately show ?thesis using d2(2) rec mm c(3)
    by (intro exI [of _ "k1\<lparr>mach := m, pfd := d2, source := FromPfd\<rparr>"]) simp
qed

theorem mm_initPfd_classifies_witness:
  "\<exists>k' L. mm_initPfd eight_frames = Ret k' \<and> numFrames (pfd k') = 8 \<and> frames_of (pfd k') L \<and>
     2 \<in> set (L free) \<and> 3 \<in> set (L used) \<and> 7 \<in> set (L bad)"
proof -
  obtain k' where k: "mm_initPfd eight_frames = Ret k'" "numFrames (pfd k') = 8" "recursive (mach k')"
    "mmu False 0xC0000000 (mach k') = Some 0x3000" "vcount (ctx k') = 1"
    "vs_base (vsegments (ctx k') 0) = 0xC0000000" "vs_length (vsegments (ctx k') 0) = 1"
    "memory_map (ctx k') = [\<lparr>ps_base = 0, ps_length = 0x8000, ps_type = RAM\<rparr>]" using eight_frames_boots by auto
  obtain L where L: "frames_of (pfd k') L"
    "\<forall>i < 8. i \<in> set (L (if \<exists>u < 1. \<exists>p < unat (vs_length (vsegments (ctx k') u)).
         \<exists>a. mmu False (vs_base (vsegments (ctx k') u) + of_nat p * 4096) (mach k') = Some a \<and> unat a div 4096 = i then used
       else if 4 \<le> (8 :: nat) \<and> 8 \<le> i + 4 then bad
       else if \<exists>s \<in> set [\<lparr>ps_base = 0, ps_length = 0x8000, ps_type = RAM\<rparr>]. ps_type s = RAM \<and>
           unat (ps_base s) div 4096 \<le> i \<and> i < unat (ps_base s + ps_length s) div 4096 then free else bad))"
    using mm_initPfd_classifies [OF k(1,3)] unfolding k(2,5,8) by blast
  have "2 \<in> set (L free)" "3 \<in> set (L used)" "7 \<in> set (L bad)"
    using L(2) [rule_format, of 2] L(2) [rule_format, of 3] L(2) [rule_format, of 7] by (simp_all add: k(4,6,7))
  then show ?thesis using k(1,2) L(1) by (intro exI [of _ k'] exI [of _ L]) simp
qed

end
