(* ===== verification/Kdb.thy ===== *)
theory Kdb
  imports Hat Avl
begin

text \<open>
  The kernel debugger, a gdb remote stub on a serial line: kernel/kdb/packet.c, command.c, gdb.c
  and kdb.c with the processor part arch/i386/kernel/kdb/kdb.c.  Two nested state machines
  decode the packets a character at a time inside the receive interrupt.  kdb_suspend spins
  inside that interrupt, with interrupts enabled, until a nested interrupt receives a command
  that resumes: the model ends the outer handler there and keeps in pending what it still has
  to do after the spinning.
\<close>

section \<open>State\<close>

datatype kdb_state = JUNK | DATA | CHECKSUM | CHECKSUM2

datatype kdb_commandState = COMMAND | ARGUMENTS

text \<open>The registers pusha and the processor leave on the stack (mal_trapFrame_t, plain).\<close>

record mal_trapFrame =
  t_edi :: u32  t_esi :: u32  t_ebp :: u32  t_esp :: u32
  t_ebx :: u32  t_edx :: u32  t_ecx :: u32  t_eax :: u32
  t_eip :: u32  t_cs :: u32   t_eflags :: u32

text \<open>kdb_registers_t: the named registers, and after them (not in a union with them) reg.\<close>

record kdb_registers =
  k_eax :: u32  k_ecx :: u32  k_edx :: u32  k_ebx :: u32
  k_esp :: u32  k_ebp :: u32  k_esi :: u32  k_edi :: u32
  k_eip :: u32  k_eflags :: u32
  k_cs :: u32  k_ss :: u32  k_ds :: u32  k_es :: u32  k_fs :: u32  k_gs :: u32
  k_reg :: "u32 list"

definition named_registers :: "kdb_registers \<Rightarrow> u32 list" where
  "named_registers r = [k_eax r, k_ecx r, k_edx r, k_ebx r, k_esp r, k_ebp r, k_esi r, k_edi r,
     k_eip r, k_eflags r, k_cs r, k_ss r, k_ds r, k_es r, k_fs r, k_gs r]"

datatype kdb_callback = Unknown | GetSignal | SetThread | Continue | Detach | Step | ReadMemory
  | WriteMemory | ReadRegisters | WriteRegisters | WriteRegister

text \<open>kdb_commands: a command is its index in the table.\<close>

definition kdb_commands :: "(u8 \<times> kdb_callback) list" where
  "kdb_commands =
     [(0, Unknown), (of_char (CHR ''?''), GetSignal), (of_char (CHR ''H''), SetThread),
      (of_char (CHR ''c''), Continue), (of_char (CHR ''D''), Detach), (of_char (CHR ''s''), Step),
      (of_char (CHR ''m''), ReadMemory), (of_char (CHR ''M''), WriteMemory),
      (of_char (CHR ''g''), ReadRegisters), (of_char (CHR ''G''), WriteRegisters),
      (of_char (CHR ''P''), WriteRegister)]"

definition ARGUMENTS_SIZE :: nat where
  "ARGUMENTS_SIZE = 128"

text \<open>What a handler still has to do when kdb_suspend returns to it.\<close>

datatype after = ReceiveEnd | HardIsrEnd nat | SoftIsrEnd

text \<open>
  frames are the trap frames on the stack, the oldest first; a pointer to one is its position,
  and is dangling when there is none; returned are the ones interrupts returned to.  fifo holds what the uart received, tx what was sent.
\<close>

record kdb =
  tx :: "u8 list"
  fifo :: "u8 list"
  snd_checksum :: u8
  rcv_checksum :: u8
  main_state :: kdb_state
  cmd_state :: kdb_commandState
  commandRoot :: "nat avl_heap"
  arguments :: "nat \<Rightarrow> u8 list"
  argpos :: "nat \<Rightarrow> nat"
  currentCommand :: "nat option"
  attached :: bool
  suspended :: bool
  frames :: "mal_trapFrame list"
  currentContext :: "nat option"
  savedContext :: "nat option"
  registers :: kdb_registers
  kmach :: machine
  pending :: "after option"
  returned :: "mal_trapFrame list"

section \<open>packet.c\<close>

definition hexdigit :: "u8 \<Rightarrow> u8" where
  "hexdigit n = (if n < 10 then 48 + n else 97 + (n - 10))"

definition fromhex :: "u8 \<Rightarrow> u32" where
  "fromhex c = (if c AND 0x40 \<noteq> 0
     then if c AND 0x20 \<noteq> 0 then scast c - 97 + 10 else scast c - 65 + 10
     else scast c - 48)"

definition kdb_uart_putchar :: "u8 \<Rightarrow> kdb \<Rightarrow> kdb" where
  "kdb_uart_putchar ch k = k\<lparr>tx := tx k @ [ch]\<rparr>"

definition kdb_beginPacket :: "kdb \<Rightarrow> kdb" where
  "kdb_beginPacket k = (kdb_uart_putchar 36 k)\<lparr>snd_checksum := 0\<rparr>"

definition kdb_endPacket :: "kdb \<Rightarrow> kdb" where
  "kdb_endPacket k =
     kdb_uart_putchar (hexdigit (snd_checksum k AND 0xF))
       (kdb_uart_putchar (hexdigit (drop_bit 4 (snd_checksum k))) (kdb_uart_putchar 35 k))"

definition kdb_putchar :: "u8 \<Rightarrow> kdb \<Rightarrow> kdb" where
  "kdb_putchar ch k = kdb_uart_putchar ch (k\<lparr>snd_checksum := snd_checksum k + ch\<rparr>)"

fun kdb_putstr :: "u8 list \<Rightarrow> kdb \<Rightarrow> kdb" where
  "kdb_putstr [] k = k"
| "kdb_putstr (c # s) k = (if c = 0 then k else kdb_putstr s (kdb_putchar c k))"

definition bytes_of :: "u32 \<Rightarrow> u8 list" where
  "bytes_of v = [ucast v, ucast (drop_bit 8 v), ucast (drop_bit 16 v), ucast (drop_bit 24 v)]"

text \<open>The two digits every function that sends a byte writes out in its loop.\<close>

definition put_byte_hex :: "u8 \<Rightarrow> kdb \<Rightarrow> kdb" where
  "put_byte_hex b k = kdb_putchar (hexdigit (b AND 0xF)) (kdb_putchar (hexdigit (drop_bit 4 b)) k)"

definition kdb_putint :: "u32 \<Rightarrow> kdb \<Rightarrow> kdb" where
  "kdb_putint v k = fold put_byte_hex (bytes_of v) k"

definition kdb_sendPacket :: "u8 list \<Rightarrow> kdb \<Rightarrow> kdb" where
  "kdb_sendPacket str k = kdb_endPacket (kdb_putstr str (kdb_beginPacket k))"

definition kdb_sendOk :: "kdb \<Rightarrow> kdb" where
  "kdb_sendOk k = kdb_endPacket (kdb_putstr (bytes ''OK'') (kdb_beginPacket k))"

definition kdb_sendAck :: "kdb \<Rightarrow> kdb" where
  "kdb_sendAck k = kdb_uart_putchar 43 k"

definition kdb_sendNack :: "kdb \<Rightarrow> kdb" where
  "kdb_sendNack k = kdb_uart_putchar 45 k"

definition kdb_sendNotSupported :: "kdb \<Rightarrow> kdb" where
  "kdb_sendNotSupported k = kdb_endPacket (kdb_beginPacket k)"

section \<open>The processor part\<close>

definition kdb_prepareRegisters :: "kdb \<Rightarrow> kdb outcome" where
  "kdb_prepareRegisters k =
     (case currentContext k of None \<Rightarrow> Panic ''kdb: invalid context''
      | Some i \<Rightarrow>
         if i < length (frames k) then
           (let f = frames k ! i in
            Ret (k\<lparr>registers := (registers k)\<lparr>
              k_eax := t_eax f, k_ebx := t_ebx f, k_ecx := t_ecx f, k_edx := t_edx f,
              k_edi := t_edi f, k_esi := t_esi f, k_esp := t_esp f, k_ebp := t_ebp f,
              k_eip := t_eip f, k_eflags := t_eflags f,
              k_cs := 0x10, k_ds := 0x18, k_ss := 0x18, k_es := 0x18, k_fs := 0x18, k_gs := 0x18\<rparr>\<rparr>))
         else Fault)"

definition kdb_restoreRegisters :: "kdb \<Rightarrow> kdb outcome" where
  "kdb_restoreRegisters k =
     (case currentContext k of None \<Rightarrow> Panic ''kdb: invalid context''
      | Some i \<Rightarrow>
         if i < length (frames k) then
           (let r = registers k in
            Ret (k\<lparr>frames := (frames k)[i := (frames k ! i)\<lparr>
              t_eax := k_eax r, t_ebx := k_ebx r, t_ecx := k_ecx r, t_edx := k_edx r,
              t_edi := k_edi r, t_esi := k_esi r, t_esp := k_esp r, t_ebp := k_ebp r,
              t_eip := k_eip r, t_eflags := k_eflags r\<rparr>]\<rparr>))
         else Fault)"

definition kdb_enableStep :: "kdb \<Rightarrow> kdb" where
  "kdb_enableStep k = k\<lparr>registers := (registers k)\<lparr>k_eflags := k_eflags (registers k) OR 0x100\<rparr>\<rparr>"

definition kdb_disableStep :: "kdb \<Rightarrow> kdb" where
  "kdb_disableStep k = k\<lparr>registers := (registers k)\<lparr>k_eflags := k_eflags (registers k) AND NOT 0x100\<rparr>\<rparr>"

definition kdb_sendTrapStatus :: "kdb \<Rightarrow> kdb" where
  "kdb_sendTrapStatus k =
     (let r = registers k;
          field = (\<lambda>n v k. kdb_putchar 59 (kdb_putint v (kdb_putchar 58 (kdb_putstr n k))))
      in kdb_endPacket (field (bytes ''8'') (k_eip r) (field (bytes ''5'') (k_ebp r)
           (field (bytes ''4'') (k_esp r) (kdb_putstr (bytes ''T05'') (kdb_beginPacket k))))))"

text \<open>A byte of virtual memory, inside the aligned word that holds it.\<close>

definition read_byte :: "u32 \<Rightarrow> machine \<Rightarrow> u8 outcome" where
  "read_byte a m =
     obind (vread (a AND NOT 3) m) (\<lambda>w. Ret (ucast (drop_bit (8 * unat (a AND 3)) w)))"

definition write_byte :: "u32 \<Rightarrow> u8 \<Rightarrow> machine \<Rightarrow> machine outcome" where
  "write_byte a b m =
     (let s = 8 * unat (a AND 3) in
      obind (vread (a AND NOT 3) m)
        (\<lambda>w. vwrite (a AND NOT 3) ((w AND NOT (push_bit s 0xFF)) OR push_bit s (ucast b)) m))"

section \<open>kdb.c\<close>

definition run_after :: "after \<Rightarrow> kdb \<Rightarrow> kdb outcome" where
  "run_after a k =
     (case a of ReceiveEnd \<Rightarrow> Ret k
      | HardIsrEnd f \<Rightarrow>
          Ret (k\<lparr>frames := (frames k)[f := (frames k ! f)\<lparr>t_eflags := t_eflags (frames k ! f) OR 0x10000\<rparr>],
                 currentContext := None\<rparr>)
      | SoftIsrEnd \<Rightarrow>
          obind (read_byte (k_eip (registers k)) (kmach k)) (\<lambda>b.
            obind (if b = 0xcc
                   then kdb_restoreRegisters
                          (k\<lparr>registers := (registers k)\<lparr>k_eip := k_eip (registers k) + 1\<rparr>\<rparr>)
                   else Ret k)
              (\<lambda>k1. Ret (k1\<lparr>currentContext := None\<rparr>))))"

text \<open>kdb_suspend, followed by what its caller does next.\<close>

definition kdb_suspend :: "after \<Rightarrow> kdb \<Rightarrow> kdb outcome" where
  "kdb_suspend a k =
     (if suspended k then run_after a k
      else Ret (k\<lparr>fifo := [], suspended := True, pending := Some a\<rparr>))"

definition kdb_resume :: "kdb \<Rightarrow> kdb outcome" where
  "kdb_resume k = obind (kdb_restoreRegisters k) (\<lambda>k1. Ret (k1\<lparr>suspended := False\<rparr>))"

definition kdb_service :: "after \<Rightarrow> kdb \<Rightarrow> kdb outcome" where
  "kdb_service a k = kdb_suspend a (if attached k then kdb_sendTrapStatus k else k)"

definition kdb_readByte :: "u32 \<Rightarrow> kdb \<Rightarrow> u8 outcome" where
  "kdb_readByte addr k =
     obind (hat_isValid addr (kmach k)) (\<lambda>v. if v then read_byte addr (kmach k) else Ret 0)"

definition kdb_writeByte :: "u32 \<Rightarrow> u8 \<Rightarrow> kdb \<Rightarrow> kdb outcome" where
  "kdb_writeByte addr b k =
     obind (hat_isValid addr (kmach k)) (\<lambda>v.
       if v then obind (write_byte addr b (kmach k)) (\<lambda>m. Ret (k\<lparr>kmach := m\<rparr>))
       else Panic ''page not present'')"

section \<open>command.c\<close>

definition command_key :: "nat \<Rightarrow> int" where
  "command_key i = sint (fst (kdb_commands ! i))"

definition kdb_command_init :: "kdb \<Rightarrow> kdb outcome" where
  "kdb_command_init k =
     obind (fold (\<lambda>i r. obind r (\<lambda>h. obind (avl_add 12 (avl_make_compare command_key) i Root (null_avl_node i h))
                                   (\<lambda>(h1, _). Ret h1)))
              [0..<length kdb_commands] (Ret (commandRoot k)))
       (\<lambda>h. Ret (k\<lparr>commandRoot := h\<rparr>))"

definition kdb_command_reset :: "kdb \<Rightarrow> kdb" where
  "kdb_command_reset k = k\<lparr>cmd_state := COMMAND, currentCommand := Some 0\<rparr>"

definition kdb_command_process :: "u8 \<Rightarrow> kdb \<Rightarrow> kdb outcome" where
  "kdb_command_process ch k =
     obind (avl_find 12 (avl_make_match command_key) (sint ch) (commandRoot k)) (\<lambda>r.
       (case r of None \<Rightarrow> Ret (k\<lparr>cmd_state := ARGUMENTS\<rparr>)
        | Some cmd \<Rightarrow> Ret (k\<lparr>cmd_state := ARGUMENTS, currentCommand := Some cmd,
                              argpos := (argpos k)(cmd := 0)\<rparr>)))"

definition kdb_arguments_process :: "u8 \<Rightarrow> kdb \<Rightarrow> kdb outcome" where
  "kdb_arguments_process ch k =
     (case currentCommand k of None \<Rightarrow> Panic ''ASSERTION FAILED''
      | Some cmd \<Rightarrow>
         (let p = argpos k cmd in
          if p < ARGUMENTS_SIZE then
            if p + 1 < ARGUMENTS_SIZE
            then Ret (k\<lparr>arguments := (arguments k)(cmd := (arguments k cmd)[p := ch, p + 1 := 0]),
                        argpos := (argpos k)(cmd := p + 1)\<rparr>)
            else Fault
          else Ret k))"

definition kdb_command_receive :: "u8 \<Rightarrow> kdb \<Rightarrow> kdb outcome" where
  "kdb_command_receive ch k =
     (case cmd_state k of COMMAND \<Rightarrow> kdb_command_process ch k
      | ARGUMENTS \<Rightarrow> kdb_arguments_process ch k)"

text \<open>The loops that read a hexadecimal number up to a separator or the end of the string, and
  the step over the separator.\<close>

fun parse_hex :: "u8 \<Rightarrow> u8 list \<Rightarrow> u32 \<Rightarrow> u32 \<times> u8 list" where
  "parse_hex stop [] v = (v, [])"
| "parse_hex stop (c # cs) v =
     (if c = 0 \<or> c = stop then (v, c # cs) else parse_hex stop cs (push_bit 4 v OR fromhex c))"

definition skip_separator :: "u8 list \<Rightarrow> u8 list" where
  "skip_separator s = (case s of [] \<Rightarrow> [] | c # cs \<Rightarrow> if c = 0 then s else cs)"

fun read_loop :: "nat \<Rightarrow> u32 \<Rightarrow> kdb \<Rightarrow> kdb outcome" where
  "read_loop 0 addr k = Ret k"
| "read_loop (Suc n) addr k =
     obind (kdb_readByte addr k) (\<lambda>b. read_loop n (addr + 1) (put_byte_hex b k))"

definition kdb_command_readMemory :: "u8 list \<Rightarrow> kdb \<Rightarrow> kdb outcome" where
  "kdb_command_readMemory args k =
     (let (addr, s1) = parse_hex 44 args 0;
          (len, s2) = parse_hex 0 (skip_separator s1) 0
      in obind (read_loop (unat len) addr (kdb_beginPacket k)) (\<lambda>k1. Ret (kdb_endPacket k1)))"

fun write_loop :: "u8 list \<Rightarrow> u32 \<Rightarrow> kdb \<Rightarrow> kdb outcome" where
  "write_loop [] addr k = Ret k"
| "write_loop (b # bs) addr k = obind (kdb_writeByte addr b k) (write_loop bs (addr + 1))"

definition kdb_command_writeMemory :: "u8 list \<Rightarrow> kdb \<Rightarrow> kdb outcome" where
  "kdb_command_writeMemory args k =
     (let (addr, s1) = parse_hex 44 args 0;
          (len, s2) = parse_hex 58 (skip_separator s1) 0
      in if len > 4 then Ret (kdb_sendNotSupported k)
         else
           (let (data, s3) = parse_hex 0 (skip_separator s2) 0
            in obind (write_loop (take (unat len) (bytes_of data)) addr k) (\<lambda>k1. Ret (kdb_sendOk k1))))"

definition kdb_command_readRegisters :: "kdb \<Rightarrow> kdb" where
  "kdb_command_readRegisters k =
     kdb_endPacket (fold put_byte_hex
       (concat (map bytes_of (named_registers (registers k) @ k_reg (registers k)))) (kdb_beginPacket k))"

definition kdb_command_writeRegister :: "u8 list \<Rightarrow> kdb \<Rightarrow> kdb outcome" where
  "kdb_command_writeRegister args k =
     (let (reg, s1) = parse_hex 61 args 0;
          (val, s2) = parse_hex 0 (skip_separator s1) 0
      in if unat reg < length (k_reg (registers k))
         then Ret (kdb_sendOk (k\<lparr>registers := (registers k)\<lparr>k_reg := (k_reg (registers k))[unat reg := val]\<rparr>\<rparr>))
         else Fault)"

definition run_callback :: "nat \<Rightarrow> kdb \<Rightarrow> kdb outcome" where
  "run_callback cmd k =
     (case snd (kdb_commands ! cmd) of
        Unknown \<Rightarrow> Ret (kdb_sendNotSupported k)
      | GetSignal \<Rightarrow> Ret (kdb_sendPacket (bytes ''S05'') k)
      | SetThread \<Rightarrow> Ret (kdb_sendOk k)
      | Continue \<Rightarrow> kdb_resume k
      | Detach \<Rightarrow> kdb_resume (kdb_sendOk (k\<lparr>attached := False\<rparr>))
      | Step \<Rightarrow> kdb_resume (kdb_enableStep k)
      | ReadMemory \<Rightarrow> kdb_command_readMemory (arguments k cmd) k
      | WriteMemory \<Rightarrow> kdb_command_writeMemory (arguments k cmd) k
      | ReadRegisters \<Rightarrow> Ret (kdb_command_readRegisters k)
      | WriteRegisters \<Rightarrow> Ret (kdb_sendNotSupported k)
      | WriteRegister \<Rightarrow> kdb_command_writeRegister (arguments k cmd) k)"

section \<open>gdb.c\<close>

definition kdb_junk_process :: "u8 \<Rightarrow> kdb \<Rightarrow> kdb outcome" where
  "kdb_junk_process ch k =
     (if ch = 3 then
        obind (kdb_prepareRegisters (k\<lparr>currentContext := savedContext k\<rparr>)) (kdb_service ReceiveEnd)
      else if ch = 36 then Ret (k\<lparr>rcv_checksum := 0, main_state := DATA\<rparr>)
      else Ret k)"

definition kdb_data_process :: "u8 \<Rightarrow> kdb \<Rightarrow> kdb outcome" where
  "kdb_data_process ch k =
     (if ch = 35 then Ret (k\<lparr>main_state := CHECKSUM\<rparr>)
      else kdb_command_receive ch (k\<lparr>rcv_checksum := rcv_checksum k + ch\<rparr>))"

definition kdb_checksum_process :: "u8 \<Rightarrow> kdb \<Rightarrow> kdb outcome" where
  "kdb_checksum_process ch k =
     (if fromhex ch \<noteq> ucast (drop_bit 4 (rcv_checksum k))
      then Ret ((kdb_sendNack k)\<lparr>main_state := JUNK\<rparr>)
      else Ret (k\<lparr>main_state := CHECKSUM2\<rparr>))"

definition kdb_checksum2_process :: "u8 \<Rightarrow> kdb \<Rightarrow> kdb outcome" where
  "kdb_checksum2_process ch k =
     (if fromhex ch = ucast (rcv_checksum k AND 0xF) then
        (let k1 = kdb_sendAck k; wasAttached = attached k1
         in (case currentCommand k1 of None \<Rightarrow> Fault
             | Some cmd \<Rightarrow>
                 obind (run_callback cmd k1) (\<lambda>k2.
                   let k3 = kdb_command_reset k2 in
                   if \<not> wasAttached then
                     (let k4 = k3\<lparr>attached := True, main_state := JUNK\<rparr> in
                      if \<not> suspended k4
                      then obind (kdb_prepareRegisters (k4\<lparr>currentContext := savedContext k4\<rparr>))
                             (kdb_suspend ReceiveEnd)
                      else Ret k4)
                   else Ret (k3\<lparr>main_state := JUNK\<rparr>))))
      else Ret ((kdb_sendNack k)\<lparr>main_state := JUNK\<rparr>))"

definition kdb_receive :: "u8 \<Rightarrow> kdb \<Rightarrow> kdb outcome" where
  "kdb_receive ch k =
     (case main_state k of JUNK \<Rightarrow> kdb_junk_process ch k | DATA \<Rightarrow> kdb_data_process ch k
      | CHECKSUM \<Rightarrow> kdb_checksum_process ch k | CHECKSUM2 \<Rightarrow> kdb_checksum2_process ch k)"

section \<open>Interrupts\<close>

text \<open>kdb_uart_getchar on the fifo: -1, as a char, when there is nothing.\<close>

definition kdb_uart_getchar :: "kdb \<Rightarrow> u8 \<times> kdb" where
  "kdb_uart_getchar k = (case fifo k of [] \<Rightarrow> (-1, k) | c # cs \<Rightarrow> (c, k\<lparr>fifo := cs\<rparr>))"

text \<open>The loop of kdb_i16550A_isr: receive characters while there are any.  Every round takes
  one out and none is put in, so the length of the fifo bounds the rounds.\<close>

fun rx_loop :: "nat \<Rightarrow> kdb \<Rightarrow> kdb outcome" where
  "rx_loop 0 k = Timeout"
| "rx_loop (Suc n) k =
     (let (ch, k1) = kdb_uart_getchar k in
      obind (kdb_receive ch k1) (\<lambda>k2. if fifo k2 = [] then Ret k2 else rx_loop n k2))"

text \<open>The end of an interrupt: its frame leaves the stack unless its handler is the one that
  spins in kdb_suspend; when that one was resumed, it ends too.\<close>

definition pop_frame :: "kdb \<Rightarrow> kdb" where
  "pop_frame k = k\<lparr>frames := butlast (frames k), returned := returned k @ [last (frames k)]\<rparr>"

definition leave :: "bool \<Rightarrow> kdb \<Rightarrow> kdb outcome" where
  "leave was k =
     (let k1 = (if pending k \<noteq> None \<and> \<not> was then k else pop_frame k)
      in (case pending k1 of None \<Rightarrow> Ret k1
          | Some a \<Rightarrow>
              if suspended k1 then Ret k1
              else obind (run_after a (k1\<lparr>pending := None\<rparr>)) (\<lambda>k2. Ret (pop_frame k2))))"

definition uart_interrupt :: "mal_trapFrame \<Rightarrow> u8 list \<Rightarrow> kdb \<Rightarrow> kdb outcome" where
  "uart_interrupt f cs k =
     (let k1 = k\<lparr>frames := frames k @ [f], savedContext := Some (length (frames k)), fifo := fifo k @ cs\<rparr>
      in obind (rx_loop (Suc (length (fifo k1))) k1) (leave (pending k \<noteq> None)))"

definition kdb_hardIsr :: "mal_trapFrame \<Rightarrow> kdb \<Rightarrow> kdb outcome" where
  "kdb_hardIsr f k =
     (let i = length (frames k) in
      obind (kdb_prepareRegisters (k\<lparr>frames := frames k @ [f], currentContext := Some i\<rparr>)) (\<lambda>k1.
        obind (kdb_service (HardIsrEnd i) (kdb_disableStep k1)) (leave (pending k \<noteq> None))))"

definition kdb_softIsr :: "mal_trapFrame \<Rightarrow> kdb \<Rightarrow> kdb outcome" where
  "kdb_softIsr f k =
     (let i = length (frames k) in
      obind (kdb_prepareRegisters (k\<lparr>frames := frames k @ [f], currentContext := Some i\<rparr>)) (\<lambda>k1.
        obind (kdb_service SoftIsrEnd
                 (kdb_disableStep (k1\<lparr>registers := (registers k1)\<lparr>k_eip := k_eip (registers k1) - 1\<rparr>\<rparr>)))
          (leave (pending k \<noteq> None))))"

end
