(* ===== verification/Kdb_Props.thy ===== *)
theory Kdb_Props
  imports Kdb Avl_Search Hat_Props
begin

text \<open>
  The debugger keeps its protocol: what the host sends as a packet is the command the target
  runs, the replies carry the memory asked for, and a stopped thread goes on where it was.
\<close>

section \<open>The command tree\<close>

definition command_index :: "u8 \<Rightarrow> nat option" where
  "command_index ch = List.find (\<lambda>i. fst (kdb_commands ! i) = ch) [0..<length kdb_commands]"

definition commands_ready :: "kdb \<Rightarrow> bool" where
  "commands_ready k \<longleftrightarrow>
     (\<forall>ch. avl_find 12 (avl_make_match command_key) (sint ch) (commandRoot k) = Ret (command_index ch))"

lemma command_key_inject: "inj_on command_key {..<11}"
proof -
  have "distinct (map command_key [0..<11])"
    by (simp add: upt_rec command_key_def kdb_commands_def)
  then show ?thesis by (simp add: distinct_map atLeast0LessThan)
qed

lemma commands_length [simp]: "length kdb_commands = 11"
  by (simp add: kdb_commands_def)

text \<open>The loop of kdb_command_init: after i rounds the tree holds the commands below i.\<close>

lemma command_tree:
  assumes "avl_root h = None" "i \<le> 11"
  shows "\<exists>h' t. fold (\<lambda>i r. obind r (\<lambda>h. obind (avl_add 12 (avl_make_compare command_key) i Root (null_avl_node i h))
      (\<lambda>(h1, _). Ret h1))) [0..<i] (Ret h) = Ret h' \<and>
    tree_at h' (avl_root h') t \<and> balanced t \<and> sorted_keys command_key t \<and> nodes t = {..<i}"
  using assms(2)
proof (induction i)
  case 0
  then show ?case using assms(1) by (intro exI [of _ h] exI [of _ Leaf]) simp
next
  case (Suc i)
  then obtain h' t where h': "fold (\<lambda>i r. obind r (\<lambda>h. obind (avl_add 12 (avl_make_compare command_key) i Root (null_avl_node i h))
      (\<lambda>(h1, _). Ret h1))) [0..<i] (Ret h) = Ret h'"
    "tree_at h' (avl_root h') t" "balanced t" "sorted_keys command_key t" "nodes t = {..<i}" by auto
  let ?n = "null_avl_node i h'"
  have u: "uniq t" using h'(4) by (rule key_order.sorted_keys_uniq)
  have f: "height t < 12" using height_card [OF u] h'(5) Suc.prems by simp
  have r: "rd Root ?n = avl_root h'" by (simp add: null_avl_node_def set_skew_def)
  have t: "tree_at ?n (rd Root ?n) t" unfolding r using h'(2,5) by (intro tree_at_null) auto
  have fr: "fresh ?n i" by (simp add: fresh_def null_avl_node_def set_skew_def)
  obtain t' res where a: "tree_add (avl_make_compare command_key) i t = (t', res)" by fastforce
  from avl_add_refines [OF t u h'(3) _ _ fr f a] h'(5) obtain h2 where h2:
    "avl_add 12 (avl_make_compare command_key) i Root ?n = Ret (h2, res)" "tree_at h2 (avl_root h2) t'" by auto
  have "\<not> (\<exists>y \<in> nodes t. command_key y = command_key i)"
    using command_key_inject Suc.prems unfolding inj_on_def h'(5) by force
  then have "nodes t' = insert i {..<i}"
    using key_order.tree_add_nodes [OF h'(4), of i] unfolding a fst_conv h'(5) by (simp only: if_False)
  then have "nodes t' = {..<Suc i}" by (simp only: lessThan_Suc)
  moreover have "balanced t'" using tree_add_grew [OF h'(3) a] by (simp add: grew_def)
  moreover have "sorted_keys command_key t'" using key_order.tree_add_sorted [OF h'(4), of i] a by simp
  moreover have "fold (\<lambda>i r. obind r (\<lambda>h. obind (avl_add 12 (avl_make_compare command_key) i Root (null_avl_node i h))
      (\<lambda>(h1, _). Ret h1))) [0..<Suc i] (Ret h) = Ret h2"
    unfolding upt_Suc_append [OF le0] fold_append comp_apply h'(1) by (simp add: h2(1))
  ultimately show ?case using h2(2) by blast
qed

lemma find_command:
  assumes "tree_at h (avl_root h) t" "sorted_keys command_key t" "nodes t = {..<11}"
  shows "avl_find 12 (avl_make_match command_key) (sint ch) h = Ret (command_index ch)"
proof -
  have "uniq t" using assms(2) by (rule key_order.sorted_keys_uniq)
  then have f: "height t \<le> 12" using height_card [of t] assms(3) by simp
  have mm: "match_mono command_key (avl_make_match command_key) (sint ch) (nodes t)"
    by (auto simp: match_mono_def avl_make_match_def)
  from key_order.avl_find_found [OF assms(1) f assms(2) mm] obtain r where
    r: "avl_find 12 (avl_make_match command_key) (sint ch) h = Ret r"
    "case r of Some n \<Rightarrow> n \<in> nodes t \<and> avl_make_match command_key (sint ch) n = 0
     | None \<Rightarrow> \<forall>n \<in> nodes t. avl_make_match command_key (sint ch) n \<noteq> 0" by blast
  have mz: "avl_make_match command_key (sint ch) n = 0 \<longleftrightarrow> fst (kdb_commands ! n) = ch" for n
    by (auto simp: avl_make_match_def command_key_def sint_eq_iff)
  have "r = command_index ch"
  proof (cases r)
    case None
    then have "\<forall>n < 11. fst (kdb_commands ! n) \<noteq> ch" using r(2) assms(3) mz by auto
    then show ?thesis unfolding None command_index_def
      by (intro sym [OF find_None_iff [THEN iffD2]]) auto
  next
    case (Some n)
    then have n: "n < 11" "fst (kdb_commands ! n) = ch" using r(2) assms(3) mz by auto
    moreover have "m < n \<Longrightarrow> fst (kdb_commands ! m) \<noteq> ch" for m
      using command_key_inject n unfolding inj_on_def command_key_def
      by (metis lessThan_iff less_trans less_irrefl)
    ultimately show ?thesis unfolding Some command_index_def
      by (intro sym [OF find_Some_iff [THEN iffD2]]) (auto intro!: exI [of _ n])
  qed
  then show ?thesis using r(1) by simp
qed

lemma command_init_ready:
  assumes "avl_root (commandRoot k) = None"
  shows "\<exists>k'. kdb_command_init k = Ret k' \<and> commands_ready k' \<and> k' = k\<lparr>commandRoot := commandRoot k'\<rparr>"
proof -
  from command_tree [OF assms, of 11] obtain h t where h:
    "fold (\<lambda>i r. obind r (\<lambda>h. obind (avl_add 12 (avl_make_compare command_key) i Root (null_avl_node i h))
      (\<lambda>(h1, _). Ret h1))) [0..<11] (Ret (commandRoot k)) = Ret h"
    "tree_at h (avl_root h) t" "sorted_keys command_key t" "nodes t = {..<11}" by auto
  from h(1) have "kdb_command_init k = Ret (k\<lparr>commandRoot := h\<rparr>)" by (simp add: kdb_command_init_def)
  moreover have "commands_ready (k\<lparr>commandRoot := h\<rparr>)"
    using find_command [OF h(2-4)] by (simp add: commands_ready_def)
  ultimately show ?thesis by simp
qed

text \<open>Kdb_command_init builds the search tree of the commands: afterwards avl_find returns,
  for every character, the command of that name, and null for a character that names none.\<close>
lemma kdb_command_init_finds:
  assumes "avl_root (commandRoot k) = None"
  shows "\<exists>k'. kdb_command_init k = Ret k' \<and> commands_ready k' \<and> k' = k\<lparr>commandRoot := commandRoot k'\<rparr>"
  using assms by (rule command_init_ready)

section \<open>Hexadecimal digits\<close>

lemma small_u8_cases: "(n :: u8) < 16 \<Longrightarrow> n \<in> set (map of_nat [0..<16])"
proof -
  assume "n < 16"
  then have "unat n < 16" by (simp add: word_less_nat_alt)
  moreover have "n = of_nat (unat n)" by simp
  ultimately show ?thesis by (metis atLeastLessThan_iff image_eqI set_map set_upt zero_le)
qed

lemma fromhex_hexdigit: "n < 16 \<Longrightarrow> fromhex (hexdigit n) = ucast n"
proof -
  have "\<forall>n \<in> set (map of_nat [0..<16]). fromhex (hexdigit n) = ucast n"
    by (simp add: upt_rec fromhex_def hexdigit_def)
  then show "n < 16 \<Longrightarrow> fromhex (hexdigit n) = ucast n" using small_u8_cases by blast
qed

lemma hexdigit_plain: "n < 16 \<Longrightarrow> hexdigit n \<notin> {0, 35, 36, 44, 58, 61}"
proof -
  have "\<forall>n \<in> set (map of_nat [0..<16]). hexdigit n \<notin> {0, 35, 36, 44, 58, 61}"
    by (simp add: upt_rec hexdigit_def)
  then show "n < 16 \<Longrightarrow> hexdigit n \<notin> {0, 35, 36, 44, 58, 61}" using small_u8_cases by blast
qed

lemma high_nibble: "drop_bit 4 (b :: u8) < 16"
proof -
  have "unat b < 256" using unsigned_less [of b, where 'a = nat] by simp
  then have "unat b div 16 < 16" by linarith
  then show ?thesis by (simp add: word_less_nat_alt drop_bit_eq_div unat_div)
qed

lemma low_nibble: "(b :: u8) AND 0xF < 16"
  by (rule le_less_trans [OF word_and_le1]) simp

definition hex2 :: "u8 \<Rightarrow> u8 list" where
  "hex2 b = [hexdigit (drop_bit 4 b), hexdigit (b AND 0xF)]"

section \<open>Packets on the line\<close>

definition packet :: "u8 list \<Rightarrow> u8 list" where
  "packet s = 36 # s @ 35 # hex2 (sum_list s)"

definition sent :: "u8 list \<Rightarrow> kdb \<Rightarrow> kdb" where
  "sent s k = k\<lparr>tx := tx k @ s, snd_checksum := snd_checksum k + sum_list s\<rparr>"

lemma kdb_putchar_sent: "kdb_putchar c k = sent [c] k"
  by (simp add: kdb_putchar_def kdb_uart_putchar_def sent_def)

lemma sent_sent [simp]: "sent t (sent s k) = sent (s @ t) k"
  by (simp add: sent_def add.assoc)

lemma sent_Nil [simp]: "sent [] k = k"
  by (simp add: sent_def)

lemma kdb_putstr_sent: "0 \<notin> set s \<Longrightarrow> kdb_putstr s k = sent s k"
  by (induction s arbitrary: k) (auto simp: kdb_putchar_sent)

lemma put_byte_hex_sent: "put_byte_hex b k = sent (hex2 b) k"
  by (simp add: put_byte_hex_def kdb_putchar_sent hex2_def)

lemma fold_put_byte_hex: "fold put_byte_hex bs k = sent (concat (map hex2 bs)) k"
  by (induction bs arbitrary: k) (simp_all add: put_byte_hex_sent)

lemma packet_sent:
  "kdb_endPacket (sent s (kdb_beginPacket k)) = k\<lparr>tx := tx k @ packet s, snd_checksum := sum_list s\<rparr>"
  by (simp add: kdb_endPacket_def kdb_beginPacket_def sent_def kdb_uart_putchar_def packet_def hex2_def)

lemma kdb_sendPacket_packet:
  "0 \<notin> set s \<Longrightarrow> kdb_sendPacket s k = k\<lparr>tx := tx k @ packet s, snd_checksum := sum_list s\<rparr>"
  by (simp add: kdb_sendPacket_def kdb_putstr_sent packet_sent)

section \<open>Receiving a packet\<close>

fun receive_all :: "u8 list \<Rightarrow> kdb \<Rightarrow> kdb outcome" where
  "receive_all [] k = Ret k"
| "receive_all (c # cs) k = obind (kdb_receive c k) (receive_all cs)"

lemma receive_all_Nil_eq: "receive_all [] = Ret"
  by (intro ext) simp

lemma obind_Ret_right: "obind m Ret = m"
  by (cases m) auto

lemma receive_all_append: "receive_all (cs @ ds) k = obind (receive_all cs k) (receive_all ds)"
proof (induction cs arbitrary: k)
  case (Cons c cs)
  then have "receive_all (cs @ ds) = (\<lambda>k. obind (receive_all cs k) (receive_all ds))" by (intro ext)
  then show ?case by (simp add: obind_assoc)
qed simp

text \<open>The buffer after the characters s were stored from position p on, each with a NUL after it.\<close>

definition filled :: "nat \<Rightarrow> u8 list \<Rightarrow> u8 list \<Rightarrow> u8 list" where
  "filled p s b = (if s = [] then b else take p b @ s @ 0 # drop (p + length s + 1) b)"

lemma filled_Cons:
  assumes "p + length s + 1 < length b"
  shows "filled (Suc p) s (b[p := c, Suc p := 0]) = filled p (c # s) b"
proof (rule nth_equalityI)
  show "length (filled (Suc p) s (b[p := c, Suc p := 0])) = length (filled p (c # s) b)"
    using assms by (auto simp: filled_def)
next
  fix i assume "i < length (filled (Suc p) s (b[p := c, Suc p := 0]))"
  then have "i < length b" using assms by (simp add: filled_def split: if_splits)
  moreover have "\<not> i \<le> Suc p \<Longrightarrow> Suc (Suc (i - 2)) = i" by arith
  ultimately show "filled (Suc p) s (b[p := c, Suc p := 0]) ! i = filled p (c # s) b ! i"
    using assms by (auto simp: filled_def nth_append nth_list_update nth_Cons' not_less min_def)
qed

definition got_arguments :: "nat \<Rightarrow> u8 list \<Rightarrow> kdb \<Rightarrow> kdb" where
  "got_arguments i s k = k\<lparr>rcv_checksum := rcv_checksum k + sum_list s,
     arguments := (arguments k)(i := filled (argpos k i) s (arguments k i)),
     argpos := (argpos k)(i := argpos k i + length s)\<rparr>"

lemma receive_arguments:
  assumes "main_state k = DATA" "cmd_state k = ARGUMENTS" "currentCommand k = Some i"
    and "length (arguments k i) = 128" "argpos k i + length s < 128" "35 \<notin> set s"
  shows "receive_all s k = Ret (got_arguments i s k)"
  using assms
proof (induction s arbitrary: k)
  case Nil
  then show ?case by (simp add: got_arguments_def filled_def)
next
  case (Cons c s)
  let ?p = "argpos k i"
  define k1 where "k1 = k\<lparr>rcv_checksum := rcv_checksum k + c,
    arguments := (arguments k)(i := (arguments k i)[?p := c, Suc ?p := 0]), argpos := (argpos k)(i := Suc ?p)\<rparr>"
  have "kdb_receive c k = Ret k1"
    using Cons.prems by (simp add: kdb_receive_def kdb_data_process_def kdb_command_receive_def
      kdb_arguments_process_def Let_def ARGUMENTS_SIZE_def k1_def)
  moreover have "receive_all s k1 = Ret (got_arguments i s k1)"
    using Cons.prems by (intro Cons.IH) (simp_all add: k1_def)
  moreover have "got_arguments i s k1 = got_arguments i (c # s) k"
    using Cons.prems filled_Cons [of ?p s "arguments k i" c]
    by (simp add: got_arguments_def k1_def add.assoc)
  ultimately show ?case by simp
qed

text \<open>The state in which the callback of command i runs, for the packet c # s.\<close>

definition accepted :: "u8 \<Rightarrow> nat \<Rightarrow> u8 list \<Rightarrow> kdb \<Rightarrow> kdb" where
  "accepted c i s k = k\<lparr>tx := tx k @ [43], rcv_checksum := sum_list (c # s), main_state := CHECKSUM2,
     cmd_state := ARGUMENTS, currentCommand := Some i,
     arguments := (arguments k)(i := filled 0 s (arguments k i)), argpos := (argpos k)(i := length s)\<rparr>"

definition listening :: "kdb \<Rightarrow> bool" where
  "listening k \<longleftrightarrow> main_state k = JUNK \<and> cmd_state k = COMMAND \<and> commands_ready k"

lemma receive_command:
  assumes "listening k" "command_index c = Some i" "c \<noteq> 35"
  shows "receive_all [36, c] k = Ret (k\<lparr>rcv_checksum := c, main_state := DATA, cmd_state := ARGUMENTS,
    currentCommand := Some i, argpos := (argpos k)(i := 0)\<rparr>)"
  using assms by (simp add: listening_def commands_ready_def kdb_receive_def kdb_junk_process_def
    kdb_data_process_def kdb_command_receive_def kdb_command_process_def)

lemma receive_end:
  assumes "main_state k = DATA"
  shows "receive_all (35 # hex2 (rcv_checksum k)) k = kdb_checksum2_process (hexdigit (rcv_checksum k AND 0xF)) (k\<lparr>main_state := CHECKSUM2\<rparr>)"
  using assms fromhex_hexdigit [OF high_nibble, of "rcv_checksum k"]
  by (simp add: hex2_def kdb_receive_def kdb_data_process_def kdb_checksum_process_def
    receive_all_Nil_eq obind_Ret_right del: receive_all.simps(1))

lemma checksum2_attached:
  assumes "attached k" "currentCommand k = Some i"
  shows "kdb_checksum2_process (hexdigit (rcv_checksum k AND 0xF)) k =
    obind (run_callback i (kdb_sendAck k)) (\<lambda>k2. Ret ((kdb_command_reset k2)\<lparr>main_state := JUNK\<rparr>))"
  using assms fromhex_hexdigit [OF low_nibble, of "rcv_checksum k"]
  by (simp add: kdb_checksum2_process_def kdb_sendAck_def kdb_uart_putchar_def Let_def)

lemma receive_packet:
  assumes "listening k" "attached k" "command_index c = Some i" "c \<noteq> 35" "35 \<notin> set s"
    and "length s < 128" "length (arguments k i) = 128"
  shows "receive_all (packet (c # s)) k =
    obind (run_callback i (accepted c i s k)) (\<lambda>k2. Ret ((kdb_command_reset k2)\<lparr>main_state := JUNK\<rparr>))"
proof -
  define k1 where "k1 = k\<lparr>rcv_checksum := c, main_state := DATA, cmd_state := ARGUMENTS,
    currentCommand := Some i, argpos := (argpos k)(i := 0)\<rparr>"
  define k2 where "k2 = got_arguments i s k1"
  have r1: "receive_all [36, c] k = Ret k1"
    unfolding k1_def using assms(1,3,4) by (rule receive_command)
  have r2: "receive_all s k1 = Ret k2"
    unfolding k2_def using assms by (intro receive_arguments) (simp_all add: k1_def)
  have c2: "rcv_checksum k2 = sum_list (c # s)" "main_state k2 = DATA" "attached k2" "currentCommand k2 = Some i"
    using assms(2) by (simp_all add: k2_def k1_def got_arguments_def)
  have "packet (c # s) = [36, c] @ s @ (35 # hex2 (rcv_checksum k2))" by (simp add: packet_def c2)
  then have "receive_all (packet (c # s)) k =
      kdb_checksum2_process (hexdigit (rcv_checksum k2 AND 0xF)) (k2\<lparr>main_state := CHECKSUM2\<rparr>)"
    using receive_end [OF c2(2)]
    by (simp only: receive_all_append [of "[36, c]"] receive_all_append [of s] r1 r2 obind.simps)
  also have "\<dots> = obind (run_callback i (kdb_sendAck (k2\<lparr>main_state := CHECKSUM2\<rparr>)))
      (\<lambda>k2. Ret ((kdb_command_reset k2)\<lparr>main_state := JUNK\<rparr>))"
    using checksum2_attached [of "k2\<lparr>main_state := CHECKSUM2\<rparr>" i] c2 by simp
  also have "kdb_sendAck (k2\<lparr>main_state := CHECKSUM2\<rparr>) = accepted c i s k"
    by (simp add: accepted_def k2_def k1_def got_arguments_def kdb_sendAck_def kdb_uart_putchar_def)
  finally show ?thesis .
qed

text \<open>C11: what kdb_sendPacket writes for a command and its arguments is what the receiver
  understands: it acknowledges once, runs the callback of that command on a buffer that holds
  exactly those arguments, and is then ready for the next packet.  The arguments must fit the
  buffer with their NUL and hold no packet end.\<close>
theorem packet_round_trip:
  assumes "listening k" "attached k" "command_index c = Some i" "c \<noteq> 0" "c \<noteq> 35" "35 \<notin> set s" "0 \<notin> set s"
    and "length s < 128" "length (arguments k i) = 128"
  shows "tx (kdb_sendPacket (c # s) host) = tx host @ packet (c # s) \<and>
    receive_all (packet (c # s)) k =
      obind (run_callback i (accepted c i s k)) (\<lambda>k2. Ret ((kdb_command_reset k2)\<lparr>main_state := JUNK\<rparr>)) \<and>
    (s \<noteq> [] \<longrightarrow> takeWhile (\<lambda>b. b \<noteq> 0) (arguments (accepted c i s k) i) = s)"
proof -
  have "takeWhile (\<lambda>b. b \<noteq> 0) (s @ 0 # r) = s" for r
    using assms(7) by (induction s) auto
  then have "s \<noteq> [] \<longrightarrow> takeWhile (\<lambda>b. b \<noteq> 0) (arguments (accepted c i s k) i) = s"
    by (simp add: accepted_def filled_def)
  moreover have "tx (kdb_sendPacket (c # s) host) = tx host @ packet (c # s)"
    using assms(4,7) by (subst kdb_sendPacket_packet) auto
  ultimately show ?thesis using receive_packet [OF assms(1-3,5,6,8,9)] by blast
qed

text \<open>A packet with 128 characters of arguments overruns the buffer: the test of
  kdb_arguments_process leaves no room for the NUL it writes after each character.  The packet
  G, which carries sixteen registers of eight digits, always does.\<close>
lemma kdb_arguments_overrun:
  assumes "listening k" "command_index c = Some i" "c \<noteq> 35" "35 \<notin> set s" "length (arguments k i) = 128"
    and "length s = 128"
  shows "receive_all (36 # c # s) k = Fault"
proof -
  define k1 where "k1 = k\<lparr>rcv_checksum := c, main_state := DATA, cmd_state := ARGUMENTS,
    currentCommand := Some i, argpos := (argpos k)(i := 0)\<rparr>"
  obtain s1 ch where s: "s = s1 @ [ch]" using assms(6) by (cases s rule: rev_cases) auto
  have "receive_all s1 k1 = Ret (got_arguments i s1 k1)"
    using assms s by (intro receive_arguments) (simp_all add: k1_def)
  moreover have "kdb_receive ch (got_arguments i s1 k1) = Fault"
    using assms s by (simp add: k1_def got_arguments_def kdb_receive_def kdb_data_process_def
      kdb_command_receive_def kdb_arguments_process_def Let_def ARGUMENTS_SIZE_def)
  ultimately have "receive_all s k1 = Fault" unfolding s receive_all_append by simp
  moreover have "receive_all [36, c] k = Ret k1" unfolding k1_def using assms(1-3) by (rule receive_command)
  moreover have "36 # c # s = [36, c] @ s" by simp
  ultimately show ?thesis by (simp only: receive_all_append [of "[36, c]"] obind.simps)
qed

lemma takeWhile_NUL: "0 \<notin> set s \<Longrightarrow> takeWhile (\<lambda>b. b \<noteq> 0) (s @ 0 # r) = (s :: u8 list)"
  by (induction s) auto

text \<open>After a negative acknowledgement the command machine is not reset: the host sends the
  packet again, as the protocol asks, and the command runs with the whole packet appended to
  the arguments it had already received.\<close>
lemma retransmission_is_misread:
  assumes "listening k" "attached k" "command_index c = Some i" "c \<noteq> 0" "c \<noteq> 35" "35 \<notin> set s" "0 \<notin> set s"
    and "2 * length s + 1 < 128" "length (arguments k i) = 128"
    and "fromhex d \<noteq> ucast (drop_bit 4 (sum_list (c # s)))"
  shows "\<exists>k1 k2. receive_all (36 # c # s @ [35, d]) k = Ret k1 \<and> tx k1 = tx k @ [45] \<and> main_state k1 = JUNK \<and>
    receive_all (packet (c # s)) k1 =
      obind (run_callback i k2) (\<lambda>k3. Ret ((kdb_command_reset k3)\<lparr>main_state := JUNK\<rparr>)) \<and>
    takeWhile (\<lambda>b. b \<noteq> 0) (arguments k2 i) = s @ c # s"
proof -
  define ka where "ka = k\<lparr>rcv_checksum := c, main_state := DATA, cmd_state := ARGUMENTS,
    currentCommand := Some i, argpos := (argpos k)(i := 0)\<rparr>"
  define kb where "kb = got_arguments i s ka"
  define k1 where "k1 = (kdb_sendNack (kb\<lparr>main_state := CHECKSUM\<rparr>))\<lparr>main_state := JUNK\<rparr>"
  define kc where "kc = got_arguments i (c # s) (k1\<lparr>rcv_checksum := 0, main_state := DATA\<rparr>)"
  define k2 where "k2 = kdb_sendAck (kc\<lparr>main_state := CHECKSUM2\<rparr>)"
  have ra: "receive_all [36, c] k = Ret ka" unfolding ka_def using assms(1,3,5) by (rule receive_command)
  have rb: "receive_all s ka = Ret kb"
    unfolding kb_def using assms by (intro receive_arguments) (simp_all add: ka_def)
  have b: "rcv_checksum kb = sum_list (c # s)" "main_state kb = DATA"
    by (simp_all add: kb_def ka_def got_arguments_def)
  have "receive_all [35, d] kb = Ret k1"
    using assms(10) b by (simp add: kdb_receive_def kdb_data_process_def kdb_checksum_process_def k1_def
      kdb_sendNack_def kdb_uart_putchar_def)
  moreover have "36 # c # s @ [35, d] = [36, c] @ s @ [35, d]" by simp
  ultimately have r1: "receive_all (36 # c # s @ [35, d]) k = Ret k1"
    using ra rb by (simp only: receive_all_append [of "[36, c]"] receive_all_append [of s] obind.simps)
  have f1: "main_state k1 = JUNK" "tx k1 = tx k @ [45]" "cmd_state k1 = ARGUMENTS" "currentCommand k1 = Some i"
    "attached k1" "argpos k1 i = length s" "arguments k1 i = filled 0 s (arguments k i)"
    using assms(2) by (simp_all add: k1_def kdb_sendNack_def kdb_uart_putchar_def kb_def ka_def got_arguments_def)
  have l1: "length (arguments k1 i) = 128" unfolding f1(7) using assms(8,9) by (simp add: filled_def)
  have rc: "receive_all (c # s) (k1\<lparr>rcv_checksum := 0, main_state := DATA\<rparr>) = Ret kc"
    unfolding kc_def using assms f1 l1 by (intro receive_arguments) simp_all
  have c: "rcv_checksum kc = sum_list (c # s)" "main_state kc = DATA" "attached kc" "currentCommand kc = Some i"
    using f1 by (simp_all add: kc_def got_arguments_def)
  have r36: "receive_all [36] k1 = Ret (k1\<lparr>rcv_checksum := 0, main_state := DATA\<rparr>)"
    using f1(1) by (simp add: kdb_receive_def kdb_junk_process_def)
  have "packet (c # s) = [36] @ (c # s) @ (35 # hex2 (rcv_checksum kc))" by (simp add: packet_def c(1))
  then have "receive_all (packet (c # s)) k1 =
      kdb_checksum2_process (hexdigit (rcv_checksum kc AND 0xF)) (kc\<lparr>main_state := CHECKSUM2\<rparr>)"
    using receive_end [OF c(2)]
    by (simp only: receive_all_append [of "[36]"] receive_all_append [of "c # s"] r36 rc obind.simps)
  then have r2: "receive_all (packet (c # s)) k1 =
      obind (run_callback i k2) (\<lambda>k3. Ret ((kdb_command_reset k3)\<lparr>main_state := JUNK\<rparr>))"
    unfolding k2_def using checksum2_attached [of "kc\<lparr>main_state := CHECKSUM2\<rparr>" i] c by simp
  have "arguments k2 i = filled (length s) (c # s) (filled 0 s (arguments k i))"
    using f1 by (simp add: k2_def kc_def got_arguments_def kdb_sendAck_def kdb_uart_putchar_def)
  then have "\<exists>r. arguments k2 i = (s @ c # s) @ 0 # r" by (simp add: filled_def)
  then have "takeWhile (\<lambda>b. b \<noteq> 0) (arguments k2 i) = s @ c # s"
    using takeWhile_NUL [of "s @ c # s"] assms(4,7) by auto
  with r1 r2 f1(1,2) show ?thesis by blast
qed

section \<open>Numbers in arguments\<close>

text \<open>The number a list of hexadecimal digits stands for, modulo two to the 32.\<close>

definition hex_value :: "u8 list \<Rightarrow> u32" where
  "hex_value ns = foldl (\<lambda>v n. push_bit 4 v OR ucast n) 0 ns"

lemma parse_hex_digits:
  assumes "\<forall>n \<in> set ns. n < 16" "stop \<in> {0, 44, 58, 61}" "rest = [] \<or> hd rest = 0 \<or> hd rest = stop"
  shows "parse_hex stop (map hexdigit ns @ rest) v = (foldl (\<lambda>v n. push_bit 4 v OR ucast n) v ns, rest)"
  using assms(1)
proof (induction ns arbitrary: v)
  case Nil
  then show ?case using assms(3) by (cases rest) auto
next
  case (Cons n ns)
  then have "hexdigit n \<notin> {0, 35, 36, 44, 58, 61}" by (intro hexdigit_plain) simp
  then have "hexdigit n \<noteq> 0" "hexdigit n \<noteq> stop" using assms(2) by auto
  moreover have "fromhex (hexdigit n) = ucast n" using Cons.prems by (intro fromhex_hexdigit) simp
  ultimately show ?case using Cons by simp
qed

definition nibbles :: "u8 list \<Rightarrow> u8 list" where
  "nibbles bs = concat (map (\<lambda>b. [drop_bit 4 b, b AND 0xF]) bs)"

lemma hex2_nibbles: "concat (map hex2 bs) = map hexdigit (nibbles bs)"
  by (induction bs) (simp_all add: hex2_def nibbles_def)

lemma nibbles_small: "\<forall>n \<in> set (nibbles bs). n < 16"
  by (induction bs) (auto simp: nibbles_def high_nibble low_nibble)

lemma nibbles_value: "foldl (\<lambda>v n. push_bit 4 v OR ucast n) (v :: u32) (nibbles bs) = foldl (\<lambda>v b. push_bit 8 v OR ucast b) v bs"
proof (induction bs arbitrary: v)
  case (Cons b bs)
  have m: "(0xF :: u8) = mask 4" by (simp add: mask_eq_exp_minus_1)
  have "push_bit 4 (push_bit 4 v OR ucast (drop_bit 4 b)) OR ucast (b AND 0xF) = (push_bit 8 v OR ucast b :: u32)"
    unfolding m by (rule bit_eqI) (auto simp: bit_simps dest: bit_imp_le_length)
  then show ?case using Cons by (simp add: nibbles_def)
qed (simp add: nibbles_def)

lemma bytes_of_value:
  fixes bs :: "u8 list"
  assumes "length bs \<le> 4"
  shows "take (length bs) (bytes_of (foldl (\<lambda>v b. push_bit 8 v OR ucast b) 0 bs)) = rev bs"
proof -
  consider "bs = []" | a where "bs = [a]" | a b where "bs = [a, b]" | a b c where "bs = [a, b, c]"
    | a b c d where "bs = [a, b, c, d]"
    using assms by (cases bs rule: list.exhaust; cases "tl bs"; cases "tl (tl bs)"; cases "tl (tl (tl bs))") auto
  then show ?thesis
    by cases (simp_all add: bytes_of_def, (intro conjI bit_eqI; auto simp: bit_simps dest: bit_imp_le_length)+)
qed

section \<open>Memory\<close>

text \<open>The command M addr,len:bytes stores the bytes backwards: the last byte of the packet
  goes to addr, though the protocol sends them in the order of their addresses.  For more than
  one byte the memory does not hold what gdb wrote.\<close>
lemma kdb_writeMemory_reverses:
  assumes "\<forall>n \<in> set as. n < 16" "\<forall>n \<in> set ls. n < 16" "hex_value ls = of_nat (length bs)" "length bs \<le> 4"
  shows "kdb_command_writeMemory
      (map hexdigit as @ 44 # map hexdigit ls @ 58 # concat (map hex2 bs) @ 0 # rest) k =
    obind (write_loop (rev bs) (hex_value as) k) (\<lambda>k1. Ret (kdb_sendOk k1))"
proof -
  have p1: "parse_hex 44 (map hexdigit as @ 44 # r) 0 = (hex_value as, 44 # r)" for r
    using assms(1) by (simp add: parse_hex_digits hex_value_def)
  have p2: "parse_hex 58 (map hexdigit ls @ 58 # r) 0 = (of_nat (length bs), 58 # r)" for r
    using assms(2,3) by (simp add: parse_hex_digits hex_value_def)
  have p3: "parse_hex 0 (concat (map hex2 bs) @ 0 # rest) 0 = (foldl (\<lambda>v b. push_bit 8 v OR ucast b) 0 bs, 0 # rest)"
    unfolding hex2_nibbles nibbles_value [symmetric] by (rule parse_hex_digits) (auto simp: nibbles_small)
  have u: "unat (of_nat (length bs) :: u32) = length bs" using assms(4) by (simp add: unat_of_nat_u32)
  then have "\<not> (of_nat (length bs) :: u32) > 4" using assms(4) by (simp add: word_less_nat_alt)
  then show ?thesis using bytes_of_value [OF assms(4)] u
    by (simp add: kdb_command_writeMemory_def p1 p2 p3 skip_separator_def)
qed

lemma read_loop_sent:
  assumes "\<forall>j < length bs. kdb_readByte (addr + of_nat j) k = Ret (bs ! j)"
  shows "read_loop (length bs) addr (sent s k) = Ret (sent (s @ concat (map hex2 bs)) k)"
  using assms
proof (induction bs arbitrary: addr s)
  case (Cons b bs)
  have "kdb_readByte addr k = Ret b" using Cons.prems [THEN spec, of 0] by simp
  moreover have "kdb_readByte addr (sent s k) = kdb_readByte addr k"
    by (simp add: kdb_readByte_def sent_def cong: if_cong)
  ultimately have b: "kdb_readByte addr (sent s k) = Ret b" by simp
  have "kdb_readByte (addr + 1 + of_nat j) k = Ret (bs ! j)" if "j < length bs" for j
    using Cons.prems [THEN spec, of "Suc j"] that by (simp add: add.assoc)
  then have "read_loop (length bs) (addr + 1) (sent (s @ hex2 b) k) = Ret (sent ((s @ hex2 b) @ concat (map hex2 bs)) k)"
    by (intro Cons.IH) blast
  then show ?case using b by (simp add: put_byte_hex_sent)
qed simp

text \<open>The command m addr,len is answered by one packet with the bytes of that range in
  order, two digits each, 0 for every byte of a page that is not mapped, and changes nothing.\<close>
lemma kdb_readMemory_replies:
  assumes "\<forall>n \<in> set as. n < 16" "\<forall>n \<in> set ls. n < 16" "hex_value ls = of_nat (length bs)"
    and "length bs < 4294967296"
    and "\<forall>j < length bs. (hat_isValid (hex_value as + of_nat j) (kmach k) = Ret False \<and> bs ! j = 0) \<or>
      (hat_isValid (hex_value as + of_nat j) (kmach k) = Ret True \<and>
       read_byte (hex_value as + of_nat j) (kmach k) = Ret (bs ! j))"
  shows "kdb_command_readMemory (map hexdigit as @ 44 # map hexdigit ls @ 0 # rest) k =
    Ret (k\<lparr>tx := tx k @ packet (concat (map hex2 bs)), snd_checksum := sum_list (concat (map hex2 bs))\<rparr>)"
proof -
  let ?k = "kdb_beginPacket k"
  have p1: "parse_hex 44 (map hexdigit as @ 44 # r) 0 = (hex_value as, 44 # r)" for r
    using assms(1) by (simp add: parse_hex_digits hex_value_def)
  have p2: "parse_hex 0 (map hexdigit ls @ 0 # r) 0 = (of_nat (length bs), 0 # r)" for r
    using assms(2,3) by (simp add: parse_hex_digits hex_value_def)
  have "kmach ?k = kmach k" by (simp add: kdb_beginPacket_def kdb_uart_putchar_def)
  then have "\<forall>j < length bs. kdb_readByte (hex_value as + of_nat j) ?k = Ret (bs ! j)"
    using assms(5) by (fastforce simp: kdb_readByte_def)
  then have "read_loop (length bs) (hex_value as) ?k = Ret (sent (concat (map hex2 bs)) ?k)"
    using read_loop_sent [of bs "hex_value as" ?k "[]"] by simp
  then show ?thesis using assms(4)
    by (simp add: kdb_command_readMemory_def p1 p2 skip_separator_def unat_of_nat_u32 packet_sent)
qed

section \<open>Registers\<close>

text \<open>The command P n=value stores into the array reg, which nothing reads back: what
  kdb_restoreRegisters later writes to the stopped thread is not changed.\<close>
lemma writeRegister_has_no_effect:
  "kdb_command_writeRegister args k = Ret k' \<Longrightarrow> named_registers (registers k') = named_registers (registers k) \<and>
   (\<forall>r r'. kdb_restoreRegisters k = Ret r \<longrightarrow> kdb_restoreRegisters k' = Ret r' \<longrightarrow> frames r' = frames r)"
  by (auto simp: kdb_command_writeRegister_def named_registers_def kdb_sendOk_def kdb_endPacket_def kdb_beginPacket_def
      kdb_uart_putchar_def kdb_putstr_sent sent_def bytes_def kdb_restoreRegisters_def Let_def
      kdb_putchar_sent split: prod.splits if_splits option.splits)

lemma prepare_restore:
  "currentContext k = Some i \<Longrightarrow> i < length (frames k) \<Longrightarrow> kdb_prepareRegisters k = Ret k1 \<Longrightarrow>
   kdb_restoreRegisters k1 = Ret k1"
  by (auto simp: kdb_prepareRegisters_def kdb_restoreRegisters_def Let_def)

text \<open>Before the first command is complete there is no current command: a packet that starts
  with an unknown character then calls the null pointer, or fails the assertion if it has
  arguments.\<close>

lemma first_unknown_command_faults:
  assumes "listening k" "currentCommand k = None" "command_index c = None" "c \<noteq> 35"
  shows "receive_all (packet [c]) k = Fault \<and> (d \<noteq> 35 \<longrightarrow> receive_all [36, c, d] k = Panic ''ASSERTION FAILED'')"
proof -
  define k1 where "k1 = k\<lparr>rcv_checksum := c, main_state := DATA, cmd_state := ARGUMENTS\<rparr>"
  have a: "receive_all [36, c] k = Ret k1"
    using assms by (simp add: k1_def listening_def commands_ready_def kdb_receive_def kdb_junk_process_def
      kdb_data_process_def kdb_command_receive_def kdb_command_process_def)
  have "receive_all (35 # hex2 (rcv_checksum k1)) k1 = Fault"
    using receive_end [of k1] assms(2) fromhex_hexdigit [OF low_nibble, of c]
    by (simp add: k1_def kdb_checksum2_process_def kdb_sendAck_def kdb_uart_putchar_def Let_def)
  moreover have "packet [c] = [36, c] @ 35 # hex2 (rcv_checksum k1)" by (simp add: packet_def k1_def)
  ultimately have "receive_all (packet [c]) k = Fault"
    using a by (simp only: receive_all_append [of "[36, c]"] obind.simps)
  moreover have "receive_all [d] k1 = Panic ''ASSERTION FAILED''" if "d \<noteq> 35"
    using that assms(2) by (simp add: k1_def kdb_receive_def kdb_data_process_def kdb_command_receive_def
      kdb_arguments_process_def)
  ultimately show ?thesis
    using a receive_all_append [of "[36, c]" "[d]" k] by (auto simp only: append.simps obind.simps)
qed

section \<open>A debug exception, from the stop to the return\<close>

definition trap_status :: "kdb_registers \<Rightarrow> u8 list" where
  "trap_status r = bytes ''T05'' @ concat (map (\<lambda>(n, v). bytes n @ [58] @ concat (map hex2 (bytes_of v)) @ [59])
     [(''4'', k_esp r), (''5'', k_ebp r), (''8'', k_eip r)])"

lemma kdb_sendTrapStatus_packet:
  "kdb_sendTrapStatus k = k\<lparr>tx := tx k @ packet (trap_status (registers k)),
     snd_checksum := sum_list (trap_status (registers k))\<rparr>"
proof -
  have z: "0 \<notin> set (bytes s)" if "list_all (\<lambda>c. of_char c \<noteq> (0 :: u8)) s" for s
    using that by (auto simp: bytes_def list_all_iff)
  have b: "kdb_putstr (bytes ''T05'') k = sent (bytes ''T05'') k" "kdb_putstr (bytes ''4'') k = sent (bytes ''4'') k"
    "kdb_putstr (bytes ''5'') k = sent (bytes ''5'') k" "kdb_putstr (bytes ''8'') k = sent (bytes ''8'') k" for k
    by (rule kdb_putstr_sent, rule z, simp)+
  show ?thesis
    by (simp add: kdb_sendTrapStatus_def Let_def b kdb_putchar_sent kdb_putint_def fold_put_byte_hex packet_sent
      trap_status_def)
qed

definition stopped :: "mal_trapFrame \<Rightarrow> kdb_registers \<Rightarrow> kdb_registers" where
  "stopped f r = r\<lparr>k_eax := t_eax f, k_ebx := t_ebx f, k_ecx := t_ecx f, k_edx := t_edx f,
     k_edi := t_edi f, k_esi := t_esi f, k_esp := t_esp f, k_ebp := t_ebp f, k_eip := t_eip f,
     k_cs := 0x10, k_ds := 0x18, k_ss := 0x18, k_es := 0x18, k_fs := 0x18, k_gs := 0x18,
     k_eflags := t_eflags f AND NOT 0x100\<rparr>"

lemma hardIsr_stops:
  assumes "attached k" "\<not> suspended k" "pending k = None"
  shows "kdb_hardIsr f k = Ret (k\<lparr>frames := frames k @ [f], currentContext := Some (length (frames k)),
    registers := stopped f (registers k),
    tx := tx k @ packet (trap_status (stopped f (registers k))),
    snd_checksum := sum_list (trap_status (stopped f (registers k))),
    fifo := [], suspended := True, pending := Some (HardIsrEnd (length (frames k)))\<rparr>)"
  using assms
  by (simp add: kdb_hardIsr_def Let_def kdb_prepareRegisters_def kdb_disableStep_def kdb_service_def
    kdb_suspend_def kdb_sendTrapStatus_packet leave_def stopped_def)

lemma rx_loop_step:
  assumes "fifo k = c # cs" "kdb_receive c (k\<lparr>fifo := cs\<rparr>) = Ret k2" "fifo k2 = cs"
  shows "rx_loop (Suc n) k = (if cs = [] then Ret k2 else rx_loop n k2)"
  using assms by (simp add: kdb_uart_getchar_def)

lemma command_index_continue: "command_index 99 = Some 3"
  by (simp add: command_index_def kdb_commands_def upt_rec)

lemma packet_continue: "packet [99] = [36, 99, 35, 54, 51]"
  by (simp add: packet_def hex2_def hexdigit_def)

text \<open>The continue command, received while the debugger spins for the frame i.\<close>

lemma continue_received:
  assumes "listening k" "attached k" "currentContext k = Some i" "i < length (frames k)"
    and "fifo k = packet [99]"
  shows "\<exists>k2. rx_loop (Suc (length (fifo k))) k = Ret k2 \<and> listening k2 \<and> attached k2 \<and> \<not> suspended k2 \<and>
    pending k2 = pending k \<and> returned k2 = returned k \<and> kmach k2 = kmach k \<and> tx k2 = tx k @ [43] \<and>
    kdb_restoreRegisters k = Ret (k\<lparr>frames := frames k2\<rparr>)"
proof -
  have "\<exists>fs. \<forall>k'. currentContext k' = currentContext k \<longrightarrow> frames k' = frames k \<longrightarrow> registers k' = registers k \<longrightarrow>
      kdb_restoreRegisters k' = Ret (k'\<lparr>frames := fs\<rparr>)"
    using assms(3,4) by (auto simp: kdb_restoreRegisters_def Let_def)
  then obtain fs where fs: "\<And>k'. currentContext k' = currentContext k \<Longrightarrow> frames k' = frames k \<Longrightarrow>
      registers k' = registers k \<Longrightarrow> kdb_restoreRegisters k' = Ret (k'\<lparr>frames := fs\<rparr>)" by blast
  have find: "avl_find 12 (avl_make_match command_key) (sint (99 :: u8)) (commandRoot k) = Ret (Some 3)"
    using assms(1) command_index_continue unfolding listening_def commands_ready_def by metis
  define a where "a = k\<lparr>fifo := [99, 35, 54, 51], rcv_checksum := 0, main_state := DATA\<rparr>"
  define b where "b = a\<lparr>fifo := [35, 54, 51], rcv_checksum := 99, cmd_state := ARGUMENTS, currentCommand := Some 3,
    argpos := (argpos k)(3 := 0)\<rparr>"
  define c where "c = b\<lparr>fifo := [54, 51], main_state := CHECKSUM\<rparr>"
  define d where "d = c\<lparr>fifo := [51], main_state := CHECKSUM2\<rparr>"
  define e where "e = d\<lparr>fifo := [], tx := tx k @ [43], frames := fs, suspended := False, cmd_state := COMMAND,
    currentCommand := Some 0, main_state := JUNK\<rparr>"
  have "kdb_receive 36 (k\<lparr>fifo := [99, 35, 54, 51]\<rparr>) = Ret a"
    using assms(1) by (simp add: a_def listening_def kdb_receive_def kdb_junk_process_def)
  moreover have "kdb_receive 99 (a\<lparr>fifo := [35, 54, 51]\<rparr>) = Ret b"
    using assms(1) find by (simp add: a_def b_def listening_def kdb_receive_def kdb_data_process_def
      kdb_command_receive_def kdb_command_process_def)
  moreover have "kdb_receive 35 (b\<lparr>fifo := [54, 51]\<rparr>) = Ret c"
    by (simp add: a_def b_def c_def kdb_receive_def kdb_data_process_def)
  moreover have "kdb_receive 54 (c\<lparr>fifo := [51]\<rparr>) = Ret d"
    by (simp add: b_def c_def d_def kdb_receive_def kdb_checksum_process_def fromhex_def)
  moreover have "kdb_receive 51 (d\<lparr>fifo := []\<rparr>) = Ret e"
  proof -
    have "kdb_restoreRegisters (kdb_sendAck (d\<lparr>fifo := []\<rparr>)) = Ret ((kdb_sendAck (d\<lparr>fifo := []\<rparr>))\<lparr>frames := fs\<rparr>)"
      by (rule fs) (simp_all add: kdb_sendAck_def kdb_uart_putchar_def a_def b_def c_def d_def)
    then have r: "run_callback 3 (kdb_sendAck (d\<lparr>fifo := []\<rparr>)) =
        Ret ((kdb_sendAck (d\<lparr>fifo := []\<rparr>))\<lparr>frames := fs, suspended := False\<rparr>)"
      by (simp add: run_callback_def kdb_commands_def kdb_resume_def)
    have s: "rcv_checksum (d\<lparr>fifo := []\<rparr>) = 99" "main_state (d\<lparr>fifo := []\<rparr>) = CHECKSUM2"
      "attached (kdb_sendAck (d\<lparr>fifo := []\<rparr>))" "currentCommand (kdb_sendAck (d\<lparr>fifo := []\<rparr>)) = Some 3"
      using assms(2) by (simp_all add: a_def b_def c_def d_def kdb_sendAck_def kdb_uart_putchar_def)
    have "kdb_receive 51 (d\<lparr>fifo := []\<rparr>) =
        Ret ((kdb_command_reset ((kdb_sendAck (d\<lparr>fifo := []\<rparr>))\<lparr>frames := fs, suspended := False\<rparr>))\<lparr>main_state := JUNK\<rparr>)"
      unfolding kdb_receive_def s(2) kdb_state.case kdb_checksum2_process_def s(1) Let_def s(4) option.case r
      using s(3) by (simp add: fromhex_def)
    then show ?thesis
      by (simp add: kdb_command_reset_def kdb_sendAck_def kdb_uart_putchar_def a_def b_def c_def d_def e_def)
  qed
  ultimately have "rx_loop 6 k = Ret e"
    using assms(5) unfolding packet_continue
    by (simp add: numeral_eq_Suc rx_loop_step a_def b_def c_def d_def e_def del: rx_loop.simps)
  moreover have "length (fifo k) = 5" using assms(5) by (simp add: packet_continue)
  moreover have "listening e" using assms(1) by (simp add: listening_def commands_ready_def a_def b_def c_def d_def e_def)
  ultimately show ?thesis using fs [of k] assms(2)
    by (intro exI [of _ e]) (simp add: a_def b_def c_def d_def e_def)
qed

text \<open>C19: a thread that hits a debug exception while a debugger is attached stops, the host is
  told where, and when the host then sends continue the handler returns to the thread with all
  its registers as they were, the trace flag cleared and the resume flag set; the stack of trap
  frames and the memory are as before, and the debugger listens again.\<close>
theorem debug_exception_continues:
  assumes "listening k" "attached k" "\<not> suspended k" "pending k = None"
  shows "\<exists>k'. obind (kdb_hardIsr f k) (uart_interrupt g (packet [99])) = Ret k' \<and>
    tx k' = tx k @ packet (trap_status (stopped f (registers k))) @ [43] \<and>
    returned k' = returned k @ [g, f\<lparr>t_eflags := (t_eflags f AND NOT 0x100) OR 0x10000\<rparr>] \<and>
    frames k' = frames k \<and> kmach k' = kmach k \<and> listening k' \<and> \<not> suspended k' \<and> pending k' = None"
proof -
  let ?n = "length (frames k)" and ?s = "trap_status (stopped f (registers k))"
  define k1 where "k1 = k\<lparr>frames := frames k @ [f], currentContext := Some ?n,
    registers := stopped f (registers k), tx := tx k @ packet ?s, snd_checksum := sum_list ?s,
    fifo := [], suspended := True, pending := Some (HardIsrEnd ?n)\<rparr>"
  define k2 where "k2 = k1\<lparr>frames := frames k1 @ [g], savedContext := Some (length (frames k1)),
    fifo := fifo k1 @ packet [99]\<rparr>"
  have h: "kdb_hardIsr f k = Ret k1" unfolding k1_def using assms(2-4) by (rule hardIsr_stops)
  have "listening k2" "attached k2" "currentContext k2 = Some ?n" "?n < length (frames k2)" "fifo k2 = packet [99]"
    using assms(1,2) by (simp_all add: k1_def k2_def listening_def commands_ready_def)
  from continue_received [OF this] obtain k3 where
    k3: "rx_loop (Suc (length (fifo k2))) k2 = Ret k3" "listening k3" "\<not> suspended k3"
      "pending k3 = pending k2" "returned k3 = returned k2" "kmach k3 = kmach k2" "tx k3 = tx k2 @ [43]"
      "kdb_restoreRegisters k2 = Ret (k2\<lparr>frames := frames k3\<rparr>)"
    by blast
  have fr: "frames k3 = frames k @ [f\<lparr>t_eflags := t_eflags f AND NOT 0x100\<rparr>, g]"
    using arg_cong [OF k3(8), of "\<lambda>r. case r of Ret x \<Rightarrow> frames x | _ \<Rightarrow> []"]
    by (cases f) (simp add: k1_def k2_def kdb_restoreRegisters_def Let_def stopped_def nth_append list_update_append)
  define k4 where "k4 = pop_frame (k3\<lparr>frames := frames k @ [f\<lparr>t_eflags := t_eflags f AND NOT 0x100 OR 0x10000\<rparr>],
    returned := returned k @ [g], pending := None, currentContext := None\<rparr>)"
  have "leave True k3 = Ret k4"
    using k3(3-5) fr by (simp add: leave_def Let_def pop_frame_def k1_def k2_def run_after_def k4_def
      butlast_append nth_append list_update_append)
  then have "uart_interrupt g (packet [99]) k1 = Ret k4"
    using k3(1) unfolding uart_interrupt_def Let_def k2_def by (simp add: k1_def)
  moreover have "tx k4 = tx k @ packet ?s @ [43]" "kmach k4 = kmach k" "listening k4" "\<not> suspended k4"
    "pending k4 = None" "frames k4 = frames k"
    "returned k4 = returned k @ [g, f\<lparr>t_eflags := t_eflags f AND NOT 0x100 OR 0x10000\<rparr>]"
    using k3 by (simp_all add: k4_def pop_frame_def k1_def k2_def listening_def commands_ready_def)
  ultimately show ?thesis using h by simp
qed

section \<open>Witnesses\<close>

text \<open>The debugger after kdb_command_init on its zeroed statics, with a host attached.\<close>

definition zero_kdb :: kdb where
  "zero_kdb = \<lparr>tx = [], fifo = [], snd_checksum = 0, rcv_checksum = 0, main_state = JUNK, cmd_state = COMMAND,
     commandRoot = \<lparr>avl_root = None, avl_left = (\<lambda>_. None), avl_right = (\<lambda>_. None), avl_skew = (\<lambda>_. AVL_NONE)\<rparr>,
     arguments = (\<lambda>_. replicate 128 0), argpos = (\<lambda>_. 0), currentCommand = None, attached = True,
     suspended = False, frames = [], currentContext = None, savedContext = None,
     registers = \<lparr>k_eax = 0, k_ecx = 0, k_edx = 0, k_ebx = 0, k_esp = 0, k_ebp = 0, k_esi = 0, k_edi = 0,
       k_eip = 0, k_eflags = 0, k_cs = 0, k_ss = 0, k_ds = 0, k_es = 0, k_fs = 0, k_gs = 0, k_reg = replicate 16 0\<rparr>,
     kmach = small_machine, pending = None, returned = []\<rparr>"

definition ready_kdb :: kdb where
  "ready_kdb = (case kdb_command_init zero_kdb of Ret k \<Rightarrow> k | _ \<Rightarrow> zero_kdb)"

lemma ready_kdb: "listening ready_kdb" "attached ready_kdb" "\<not> suspended ready_kdb" "pending ready_kdb = None"
  "arguments ready_kdb i = replicate 128 0" "kmach ready_kdb = small_machine" "tx ready_kdb = []" "fifo ready_kdb = []"
proof -
  from command_init_ready [of zero_kdb] obtain k where k: "kdb_command_init zero_kdb = Ret k" "commands_ready k"
    "k = zero_kdb\<lparr>commandRoot := commandRoot k\<rparr>" by (auto simp: zero_kdb_def)
  have r: "ready_kdb = zero_kdb\<lparr>commandRoot := commandRoot k\<rparr>"
    unfolding ready_kdb_def using k(1) k(3) [symmetric] by simp
  have "commands_ready ready_kdb" using k(2,3) r by simp
  moreover have "main_state ready_kdb = JUNK" "cmd_state ready_kdb = COMMAND"
    unfolding r by (simp_all add: zero_kdb_def)
  ultimately show "listening ready_kdb" by (simp add: listening_def)
  show "attached ready_kdb" "\<not> suspended ready_kdb" "pending ready_kdb = None" "arguments ready_kdb i = replicate 128 0"
    "kmach ready_kdb = small_machine" "tx ready_kdb = []" "fifo ready_kdb = []"
    unfolding r by (simp_all add: zero_kdb_def)
qed

theorem kdb_command_init_finds_witness:
  "\<exists>k'. kdb_command_init zero_kdb = Ret k' \<and> commands_ready k'"
  using kdb_command_init_finds [of zero_kdb] by (auto simp: zero_kdb_def)

lemma command_index_memory: "command_index 109 = Some 6" "command_index 71 = Some 9"
  by (simp_all add: command_index_def kdb_commands_def upt_rec)

theorem packet_round_trip_witness:
  "takeWhile (\<lambda>b. b \<noteq> 0) (arguments (accepted 109 6 (bytes ''c0000000,2'') ready_kdb) 6) = bytes ''c0000000,2'' \<and>
   tx (kdb_sendPacket (109 # bytes ''c0000000,2'') ready_kdb) = packet (109 # bytes ''c0000000,2'')"
  using packet_round_trip [OF ready_kdb(1,2) command_index_memory(1), of "bytes ''c0000000,2''" ready_kdb]
  by (simp add: ready_kdb bytes_def)

theorem kdb_arguments_overrun_witness:
  "receive_all (36 # 71 # replicate 128 48) ready_kdb = Fault"
  using kdb_arguments_overrun [OF ready_kdb(1) command_index_memory(2), of "replicate 128 48"]
  by (simp add: ready_kdb)

theorem retransmission_is_misread_witness:
  "\<exists>k1 k2. receive_all (36 # 109 # bytes ''c0000000,2'' @ [35, 48]) ready_kdb = Ret k1 \<and> tx k1 = [45] \<and>
     receive_all (packet (109 # bytes ''c0000000,2'')) k1 =
       obind (run_callback 6 k2) (\<lambda>k3. Ret ((kdb_command_reset k3)\<lparr>main_state := JUNK\<rparr>)) \<and>
     takeWhile (\<lambda>b. b \<noteq> 0) (arguments k2 6) = bytes ''c0000000,2mc0000000,2''"
proof -
  have "fromhex 48 \<noteq> ucast (drop_bit 4 (sum_list (109 # bytes ''c0000000,2'')))"
    by (simp add: bytes_def fromhex_def)
  moreover have "35 \<notin> set (bytes ''c0000000,2'')" "0 \<notin> set (bytes ''c0000000,2'')"
    "2 * length (bytes ''c0000000,2'') + 1 < 128" by (simp_all add: bytes_def)
  moreover have "length (arguments ready_kdb 6) = 128" "(109 :: u8) \<noteq> 0" "(109 :: u8) \<noteq> 35" by (simp_all add: ready_kdb)
  moreover have "bytes ''c0000000,2'' @ 109 # bytes ''c0000000,2'' = bytes ''c0000000,2mc0000000,2''"
    by (simp add: bytes_def)
  ultimately show ?thesis
    using retransmission_is_misread [OF ready_kdb(1,2) command_index_memory(1), of "bytes ''c0000000,2''" 48]
    unfolding ready_kdb(7) append_Nil by metis
qed

theorem kdb_writeMemory_reverses_witness:
  "kdb_command_writeMemory (bytes ''10,2:abcd'' @ [0]) ready_kdb =
   obind (write_loop [0xcd, 0xab] 0x10 ready_kdb) (\<lambda>k1. Ret (kdb_sendOk k1))"
  using kdb_writeMemory_reverses [of "[1, 0]" "[2]" "[0xab, 0xcd]" "[]" ready_kdb]
  by (simp add: hex_value_def hexdigit_def hex2_def bytes_def)

theorem kdb_readMemory_replies_witness:
  "kdb_command_readMemory (bytes ''c0000000,1'' @ [0]) ready_kdb =
   Ret (ready_kdb\<lparr>tx := packet (bytes ''00''), snd_checksum := 96\<rparr>)"
proof -
  have "mmu False 0xC0000000 small_machine = None"
    by (simp add: mmu_def small_machine_def allows_def)
  then have "hat_isValid 0xC0000000 small_machine = Ret False"
    using lookup_mmu [OF small_machine_ready(2), of "0xC0000000"] by simp
  then show ?thesis
    using kdb_readMemory_replies [of "[12, 0, 0, 0, 0, 0, 0, 0]" "[1]" "[0]" ready_kdb "[]"]
    by (simp add: hex_value_def hexdigit_def hex2_def bytes_def ready_kdb)
qed

theorem debug_exception_continues_witness:
  "\<forall>f g. \<exists>k'. obind (kdb_hardIsr f ready_kdb) (uart_interrupt g (packet [99])) = Ret k' \<and>
    last (returned k') = f\<lparr>t_eflags := (t_eflags f AND NOT 0x100) OR 0x10000\<rparr> \<and> listening k'"
proof (intro allI)
  fix f g
  show "\<exists>k'. obind (kdb_hardIsr f ready_kdb) (uart_interrupt g (packet [99])) = Ret k' \<and>
    last (returned k') = f\<lparr>t_eflags := (t_eflags f AND NOT 0x100) OR 0x10000\<rparr> \<and> listening k'"
    using debug_exception_continues [OF ready_kdb(1-4), of f g] by auto
qed

end
