(* ===== verification/Mal.thy ===== *)
theory Mal
  imports Prelude
begin

text \<open>
  lib/mal of the i386 port: the interrupt controller (i8259.c), the interrupt descriptor table
  with its trampolines (idt.c), the segment descriptors (gdt.c) and the routing of interrupts
  (interrupt.c).  Writes to ports are recorded in the order they are made; the bit fields of a
  descriptor are the fields of a record, cut to their width.
\<close>

section \<open>i8259.c\<close>

record pic =
  cached_irq_mask :: u32
  port_log :: "(u16 \<times> u8) list"

definition mal_outb :: "u8 \<Rightarrow> u16 \<Rightarrow> pic \<Rightarrow> pic" where
  "mal_outb v p s = s\<lparr>port_log := port_log s @ [(p, v)]\<rparr>"

definition cached_21 :: "pic \<Rightarrow> u8" where
  "cached_21 s = ucast (cached_irq_mask s AND 0xFF)"

definition cached_A1 :: "pic \<Rightarrow> u8" where
  "cached_A1 s = ucast (drop_bit 8 (cached_irq_mask s))"

definition update_i8259_mask :: "nat \<Rightarrow> pic \<Rightarrow> pic" where
  "update_i8259_mask irq s =
     (if (of_nat irq :: u32) AND 8 \<noteq> 0 then mal_outb (cached_A1 s) 0xA1 s else mal_outb (cached_21 s AND 0xFF) 0x21 s)"

definition i8259_enable_irq :: "nat \<Rightarrow> pic \<Rightarrow> pic" where
  "i8259_enable_irq irq s =
     update_i8259_mask irq (s\<lparr>cached_irq_mask := cached_irq_mask s AND NOT (push_bit irq 1)\<rparr>)"

definition i8259_disable_irq :: "nat \<Rightarrow> pic \<Rightarrow> pic" where
  "i8259_disable_irq irq s =
     update_i8259_mask irq (s\<lparr>cached_irq_mask := cached_irq_mask s OR push_bit irq 1\<rparr>)"

definition i8259_ack :: "nat \<Rightarrow> pic \<Rightarrow> pic" where
  "i8259_ack irq s =
     (if (of_nat irq :: u32) AND 8 \<noteq> 0
      then mal_outb 0x62 0x20 (mal_outb (0x60 + (of_nat irq AND 7)) 0xA0 (mal_outb (cached_A1 s) 0xA1 s))
      else mal_outb (0x60 + of_nat irq) 0x20 (mal_outb (cached_21 s) 0x21 s))"

definition i8259_init :: "pic \<Rightarrow> pic" where
  "i8259_init s =
     i8259_enable_irq 2
       (fold (\<lambda>(v, p). mal_outb v p)
          [(0xff, 0x21), (0xff, 0xA1),
           (0x11, 0x20), (0x20 + 0, 0x21), (0x04, 0x21), (0x01, 0x21),
           (0x11, 0xA0), (0x20 + 8, 0xA1), (0x02, 0xA1), (0x01, 0xA1),
           (0xff, 0x21), (0xff, 0xA1)] s)"

section \<open>Descriptors\<close>

record mal_gate =
  offset_lo :: u16
  selector :: u16
  gate_type :: u8
  gate_present :: bool
  offset_hi :: u16

record mal_segment =
  limit_lo :: u16
  base_lo :: u16
  base_me :: u8
  seg_type :: u8
  seg_present :: bool
  limit_hi :: u8
  seg_flags :: u8
  base_hi :: u8

definition KERNEL_CS :: u16 where "KERNEL_CS = 0x10"
definition KERNEL_DS :: u16 where "KERNEL_DS = 0x18"
definition TYPE_CODE :: u8 where "TYPE_CODE = 0x18"
definition TYPE_DATA :: u8 where "TYPE_DATA = 0x10"
definition TYPE_INTGATE :: u8 where "TYPE_INTGATE = 0x0E"
definition TYPE_TRAPGATE :: u8 where "TYPE_TRAPGATE = 0x0F"
definition DATA_RW :: u8 where "DATA_RW = 0x02"
definition CODE_READABLE :: u8 where "CODE_READABLE = 0x02"
definition FLAG_32BIT :: u8 where "FLAG_32BIT = 0x04"
definition FLAG_GRAN4K :: u8 where "FLAG_GRAN4K = 0x08"

definition mal_setGateOffset :: "u32 \<Rightarrow> mal_gate \<Rightarrow> mal_gate" where
  "mal_setGateOffset offset g = g\<lparr>offset_lo := ucast (offset AND 0xFFFF), offset_hi := ucast (drop_bit 16 offset)\<rparr>"

definition mal_setSegmentBase :: "u32 \<Rightarrow> mal_segment \<Rightarrow> mal_segment" where
  "mal_setSegmentBase base seg = seg\<lparr>base_lo := ucast (base AND 0xFFFF),
     base_me := ucast (drop_bit 16 base AND 0xFF), base_hi := ucast (drop_bit 24 base)\<rparr>"

definition mal_setSegmentLimit :: "u32 \<Rightarrow> mal_segment \<Rightarrow> mal_segment" where
  "mal_setSegmentLimit n seg =
     (let big = n \<ge> 0x100000;
          seg1 = (if big then seg\<lparr>seg_flags := seg_flags seg OR FLAG_GRAN4K\<rparr> else seg);
          sz = (if big then drop_bit 12 n else n)
      in seg1\<lparr>limit_lo := ucast (sz AND 0xFFFF), limit_hi := ucast (drop_bit 16 sz AND 0xF)\<rparr>)"

text \<open>mal_gdtTable, by index: a selector divided by the size of a descriptor.\<close>

definition mal_descriptorAtSelector :: "u16 \<Rightarrow> nat" where
  "mal_descriptorAtSelector sel = unat sel div 8"

definition mal_gdtInit :: "(nat \<Rightarrow> mal_segment) \<Rightarrow> nat \<Rightarrow> mal_segment" where
  "mal_gdtInit gdt =
     (let ds = mal_descriptorAtSelector KERNEL_DS;
          d = mal_setSegmentLimit 0xFFFFFFFF (mal_setSegmentBase 0 (gdt ds));
          gdt1 = gdt(ds := d\<lparr>seg_flags := seg_flags d OR FLAG_32BIT, seg_type := TYPE_DATA OR DATA_RW,
                             seg_present := True\<rparr>);
          cs = mal_descriptorAtSelector KERNEL_CS;
          c = mal_setSegmentLimit 0xFFFFFFFF (mal_setSegmentBase 0 (gdt1 cs))
      in gdt1(cs := c\<lparr>seg_flags := seg_flags c OR FLAG_32BIT, seg_type := TYPE_CODE OR CODE_READABLE,
                      seg_present := True\<rparr>))"

section \<open>idt.c\<close>

text \<open>
  A trampoline is a copy of the assembler template; the code only patches its three operands:
  the vector it pushes, the routine it calls and what it adds to the stack pointer before iret.
  The addresses of the trampolines (tramp) and of mal_unknownInterrupt come from the linker.
\<close>

record trampoline =
  t_vector :: u16
  t_address :: u32
  t_fixup :: u8

record idt =
  mal_idtTable :: "nat \<Rightarrow> mal_gate"
  mal_isrTrampolines :: "nat \<Rightarrow> trampoline"

definition mal_setInterruptVector :: "nat \<Rightarrow> u32 \<Rightarrow> idt \<Rightarrow> idt" where
  "mal_setInterruptVector vec isr s =
     s\<lparr>mal_idtTable := (mal_idtTable s)(vec := (mal_setGateOffset isr (mal_idtTable s vec))
         \<lparr>selector := KERNEL_CS, gate_present := True, gate_type := TYPE_INTGATE\<rparr>)\<rparr>"

definition mal_isrTrampolineInit :: "nat \<Rightarrow> u32 \<Rightarrow> idt \<Rightarrow> idt" where
  "mal_isrTrampolineInit vec unknown s =
     s\<lparr>mal_isrTrampolines := (mal_isrTrampolines s)(vec :=
         \<lparr>t_vector = of_nat vec, t_address = unknown, t_fixup = 0\<rparr>)\<rparr>"

definition mal_setInterrupt :: "nat \<Rightarrow> u32 \<Rightarrow> u8 \<Rightarrow> idt \<Rightarrow> idt outcome" where
  "mal_setInterrupt vec isr fixup s =
     (if vec < 256 then
        Ret (s\<lparr>mal_isrTrampolines := (mal_isrTrampolines s)(vec :=
                 (mal_isrTrampolines s vec)\<lparr>t_address := isr, t_fixup := fixup\<rparr>),
               mal_idtTable := (mal_idtTable s)(vec := (mal_idtTable s vec)\<lparr>gate_type := TYPE_INTGATE\<rparr>)\<rparr>)
      else Fault)"

definition mal_attachIsr :: "nat \<Rightarrow> u32 \<Rightarrow> idt \<Rightarrow> idt outcome" where
  "mal_attachIsr vec isr s = mal_setInterrupt vec isr 0 s"

definition hasFixup :: "nat \<Rightarrow> bool" where
  "hasFixup vec \<longleftrightarrow> vec = 8 \<or> vec = 10 \<or> vec = 11 \<or> vec = 12 \<or> vec = 13 \<or> vec = 14 \<or> vec = 17"

definition mal_attachException :: "nat \<Rightarrow> u32 \<Rightarrow> idt \<Rightarrow> idt outcome" where
  "mal_attachException vec isr s =
     obind (mal_setInterrupt vec isr (if hasFixup vec then 4 else 0) s) (\<lambda>s1.
       Ret (s1\<lparr>mal_idtTable := (mal_idtTable s1)(vec := (mal_idtTable s1 vec)\<lparr>gate_type := TYPE_TRAPGATE\<rparr>)\<rparr>))"

definition mal_idtInit :: "(nat \<Rightarrow> u32) \<Rightarrow> u32 \<Rightarrow> idt \<Rightarrow> idt" where
  "mal_idtInit tramp unknown s =
     fold (\<lambda>i s. mal_setInterruptVector i (tramp i) (mal_isrTrampolineInit i unknown s)) [0..<256] s"

section \<open>interrupt.c\<close>

definition mal_vectorFromIrq :: "u32 \<Rightarrow> u16" where
  "mal_vectorFromIrq irq = 0x20 + ucast irq"

definition mal_irqFromVector :: "u16 \<Rightarrow> u32" where
  "mal_irqFromVector vector = ucast vector - 0x20"

definition mal_interrupt_init :: "u32 \<Rightarrow> pic \<Rightarrow> idt \<Rightarrow> (pic \<times> idt) outcome" where
  "mal_interrupt_init timer p s = obind (mal_attachIsr 0 timer s) (\<lambda>s1. Ret (i8259_init p, s1))"

end
