(* ===== verification/Mal_Props.thy ===== *)
theory Mal_Props
  imports Mal
begin

text \<open>
  Interrupts arrive where they were attached: the controller masks exactly the lines that are
  disabled, and every vector leads through its trampoline to the routine attached last.
\<close>

section \<open>The interrupt controller\<close>

datatype pic_op = Enable nat | Disable nat | Ack nat

fun pic_step :: "pic_op \<Rightarrow> pic \<Rightarrow> pic" where
  "pic_step (Enable irq) s = i8259_enable_irq irq s"
| "pic_step (Disable irq) s = i8259_disable_irq irq s"
| "pic_step (Ack irq) s = i8259_ack irq s"

fun pic_line :: "pic_op \<Rightarrow> nat" where
  "pic_line (Enable irq) = irq"
| "pic_line (Disable irq) = irq"
| "pic_line (Ack irq) = irq"

text \<open>Whether a line is masked after a sequence of calls, the last one last.\<close>

fun masked_after :: "pic_op list \<Rightarrow> nat \<Rightarrow> bool" where
  "masked_after [] n = (n \<noteq> 2)"
| "masked_after (op # ops) n =
     (case op of Enable i \<Rightarrow> if i = n then False else masked_after ops n
      | Disable i \<Rightarrow> if i = n then True else masked_after ops n
      | Ack i \<Rightarrow> masked_after ops n)"

definition written :: "u16 \<Rightarrow> pic \<Rightarrow> u8 option" where
  "written p s = map_of (rev (port_log s)) p"

definition line_masked :: "nat \<Rightarrow> pic \<Rightarrow> bool option" where
  "line_masked n s = map_option (\<lambda>v. bit v (n mod 8)) (written (if n < 8 then 0x21 else 0xA1) s)"

lemma written_outb [simp]: "written p (mal_outb v q s) = (if p = q then Some v else written p s)"
  by (simp add: written_def mal_outb_def)

lemma mal_outb_mask [simp]: "cached_irq_mask (mal_outb v p s) = cached_irq_mask s"
  by (simp add: mal_outb_def)

lemma cached_outb [simp]: "cached_21 (mal_outb v p s) = cached_21 s" "cached_A1 (mal_outb v p s) = cached_A1 s"
  by (simp_all add: cached_21_def cached_A1_def)

lemma irq_high: "n < 16 \<Longrightarrow> (of_nat n :: u32) AND 8 \<noteq> 0 \<longleftrightarrow> 8 \<le> n"
proof -
  assume "n < 16"
  then have "n \<in> set [0..<16]" by simp
  moreover have "\<forall>n \<in> set [0..<16]. (of_nat n :: u32) AND 8 \<noteq> 0 \<longleftrightarrow> 8 \<le> n"
    by (simp add: upt_rec)
  ultimately show ?thesis by blast
qed

lemma cached_bits:
  "n < 8 \<Longrightarrow> bit (cached_21 s) n = bit (cached_irq_mask s) n"
  "n < 8 \<Longrightarrow> bit (cached_A1 s) n = bit (cached_irq_mask s) (8 + n)"
proof -
  have m: "(0xFF :: u32) = mask 8" by (simp add: mask_eq_exp_minus_1)
  show "n < 8 \<Longrightarrow> bit (cached_21 s) n = bit (cached_irq_mask s) n"
    unfolding cached_21_def m by (auto simp: bit_simps)
  show "n < 8 \<Longrightarrow> bit (cached_A1 s) n = bit (cached_irq_mask s) (8 + n)"
    unfolding cached_A1_def by (auto simp: bit_simps add.commute)
qed

definition mask_in_step :: "pic \<Rightarrow> bool" where
  "mask_in_step s \<longleftrightarrow> written 0x21 s = Some (cached_21 s) \<and> written 0xA1 s = Some (cached_A1 s)"

lemma line_masked_bit:
  assumes "mask_in_step s" "n < 16"
  shows "line_masked n s = Some (bit (cached_irq_mask s) n)"
proof (cases "n < 8")
  case True
  then show ?thesis using assms(1) cached_bits(1) by (simp add: line_masked_def mask_in_step_def)
next
  case False
  then have "n mod 8 = n - 8" "n - 8 < 8" using assms(2) by (simp_all add: mod_if)
  then show ?thesis using False assms(1) cached_bits(2) [of "n - 8" s]
    by (simp add: line_masked_def mask_in_step_def)
qed

lemma cached_21_small: "cached_21 s AND 0xFF = cached_21 s"
proof -
  have "(0xFF :: u8) = - 1" by simp
  then show ?thesis by (metis and.right_neutral)
qed

lemma cached_other_half:
  "n < 8 \<Longrightarrow> cached_A1 (s\<lparr>cached_irq_mask := cached_irq_mask s AND NOT (push_bit n 1)\<rparr>) = cached_A1 s"
  "n < 8 \<Longrightarrow> cached_A1 (s\<lparr>cached_irq_mask := cached_irq_mask s OR push_bit n 1\<rparr>) = cached_A1 s"
  "8 \<le> n \<Longrightarrow> cached_21 (s\<lparr>cached_irq_mask := cached_irq_mask s AND NOT (push_bit n 1)\<rparr>) = cached_21 s"
  "8 \<le> n \<Longrightarrow> cached_21 (s\<lparr>cached_irq_mask := cached_irq_mask s OR push_bit n 1\<rparr>) = cached_21 s"
proof -
  have m: "(0xFF :: u32) = mask 8" by (simp add: mask_eq_exp_minus_1)
  show "n < 8 \<Longrightarrow> cached_A1 (s\<lparr>cached_irq_mask := cached_irq_mask s AND NOT (push_bit n 1)\<rparr>) = cached_A1 s"
    "n < 8 \<Longrightarrow> cached_A1 (s\<lparr>cached_irq_mask := cached_irq_mask s OR push_bit n 1\<rparr>) = cached_A1 s"
    unfolding cached_A1_def by (auto intro!: bit_eqI simp: bit_simps)
  show "8 \<le> n \<Longrightarrow> cached_21 (s\<lparr>cached_irq_mask := cached_irq_mask s AND NOT (push_bit n 1)\<rparr>) = cached_21 s"
    "8 \<le> n \<Longrightarrow> cached_21 (s\<lparr>cached_irq_mask := cached_irq_mask s OR push_bit n 1\<rparr>) = cached_21 s"
    unfolding cached_21_def m by (auto intro!: bit_eqI simp: bit_simps)
qed

lemma update_i8259_mask_in_step:
  assumes "n < 16" "n < 8 \<Longrightarrow> written 0xA1 s = Some (cached_A1 s)" "8 \<le> n \<Longrightarrow> written 0x21 s = Some (cached_21 s)"
  shows "mask_in_step (update_i8259_mask n s) \<and> cached_irq_mask (update_i8259_mask n s) = cached_irq_mask s"
  using assms irq_high [OF assms(1)]
  by (cases "n < 8") (auto simp: update_i8259_mask_def mask_in_step_def cached_21_small)

lemma pic_step_mask:
  assumes "mask_in_step s" "pic_line op < 16"
  shows "mask_in_step (pic_step op s) \<and> cached_irq_mask (pic_step op s) =
    (case op of Enable n \<Rightarrow> cached_irq_mask s AND NOT (push_bit n 1) | Disable n \<Rightarrow> cached_irq_mask s OR push_bit n 1
     | Ack n \<Rightarrow> cached_irq_mask s)"
proof (cases op)
  case (Enable n)
  let ?s = "s\<lparr>cached_irq_mask := cached_irq_mask s AND NOT (push_bit n 1)\<rparr>"
  have "written p ?s = written p s" for p by (simp add: written_def)
  then show ?thesis using assms Enable update_i8259_mask_in_step [of n ?s] cached_other_half(1,3) [of n s]
    by (simp add: i8259_enable_irq_def mask_in_step_def)
next
  case (Disable n)
  let ?s = "s\<lparr>cached_irq_mask := cached_irq_mask s OR push_bit n 1\<rparr>"
  have "written p ?s = written p s" for p by (simp add: written_def)
  then show ?thesis using assms Disable update_i8259_mask_in_step [of n ?s] cached_other_half(2,4) [of n s]
    by (simp add: i8259_disable_irq_def mask_in_step_def)
next
  case (Ack n)
  then show ?thesis using assms by (simp add: i8259_ack_def mask_in_step_def)
qed

lemma i8259_init_mask:
  assumes "cached_irq_mask s = 0xffff"
  shows "mask_in_step (i8259_init s) \<and> cached_irq_mask (i8259_init s) = 0xfffb"
proof -
  define s1 where "s1 = fold (\<lambda>(v, p). mal_outb v p)
          [(0xff, 0x21), (0xff, 0xA1), (0x11, 0x20), (0x20 + 0, 0x21), (0x04, 0x21), (0x01, 0x21),
           (0x11, 0xA0), (0x20 + 8, 0xA1), (0x02, 0xA1), (0x01, 0xA1), (0xff, 0x21), (0xff, 0xA1)] s"
  have c: "cached_irq_mask s1 = 0xffff" using assms by (simp add: s1_def)
  have w: "written 0x21 s1 = Some 0xff" "written 0xA1 s1 = Some 0xff" by (simp_all add: s1_def)
  have "mask_in_step s1" using w c by (simp add: mask_in_step_def cached_21_def cached_A1_def)
  then show ?thesis using pic_step_mask [of s1 "Enable 2"] c by (simp add: i8259_init_def s1_def)
qed

text \<open>From the initialisation on, whatever lines are enabled, disabled and acknowledged in
  whatever order, the controller masks exactly the lines that were not enabled last: the cached
  mask and what was last written to each of the two chips agree.\<close>
lemma irq_lines_masked:
  assumes "cached_irq_mask s = 0xffff" "\<forall>op \<in> set ops. pic_line op < 16" "n < 16"
  shows "line_masked n (foldr pic_step ops (i8259_init s)) = Some (masked_after ops n)"
proof -
  let ?r = "\<lambda>ops. foldr pic_step ops (i8259_init s)"
  have "mask_in_step (?r ops) \<and> (\<forall>n < 16. bit (cached_irq_mask (?r ops)) n = masked_after ops n)"
    using assms(2)
  proof (induction ops)
    case Nil
    have "(0xfffb :: u32) = mask 16 AND NOT (push_bit 2 1)" by (simp add: mask_eq_exp_minus_1)
    then have "n < 16 \<Longrightarrow> bit (0xfffb :: u32) n = (n \<noteq> 2)" for n
      by (simp only: bit_and_iff bit_not_iff bit_mask_iff bit_push_bit_iff) (auto simp: bit_1_iff)
    then show ?case using i8259_init_mask [OF assms(1)] by simp
  next
    case (Cons op ops)
    then show ?case using pic_step_mask [of "?r ops" op]
      by (cases op) (auto simp: bit_simps)
  qed
  then show ?thesis using line_masked_bit [of "?r ops" n] assms(3) by (simp del: foldr.simps)
qed

theorem irq_lines_masked_witness:
  "line_masked 4 (i8259_ack 4 (i8259_enable_irq 4 (i8259_init \<lparr>cached_irq_mask = 0xffff, port_log = []\<rparr>))) = Some False"
  using irq_lines_masked [of "\<lparr>cached_irq_mask = 0xffff, port_log = []\<rparr>" "[Ack 4, Enable 4]" 4] by simp

section \<open>Descriptors\<close>

definition gate_target :: "mal_gate \<Rightarrow> u32" where
  "gate_target g = push_bit 16 (ucast (offset_hi g)) OR ucast (offset_lo g)"

lemma gate_target_offset [simp]: "gate_target (mal_setGateOffset a g) = a"
proof -
  have m: "(0xFFFF :: u32) = mask 16" by (simp add: mask_eq_exp_minus_1)
  show ?thesis unfolding gate_target_def mal_setGateOffset_def m
    by (rule bit_eqI) (auto simp: bit_simps dest: bit_imp_le_length)
qed

text \<open>What the processor makes of a segment descriptor: its base, and the highest offset it
  lets through, in units of 4 KB with the granularity flag.\<close>

definition segment_base :: "mal_segment \<Rightarrow> u32" where
  "segment_base seg = push_bit 24 (ucast (base_hi seg)) OR push_bit 16 (ucast (base_me seg)) OR ucast (base_lo seg)"

definition segment_limit :: "mal_segment \<Rightarrow> u32" where
  "segment_limit seg = (let l = push_bit 16 (ucast (limit_hi seg AND 0xF)) OR ucast (limit_lo seg)
     in if seg_flags seg AND FLAG_GRAN4K \<noteq> 0 then push_bit 12 l OR 0xFFF else l)"

lemma bit_below: "bit a i \<Longrightarrow> \<not> bit a (k + (i - k)) \<Longrightarrow> i < (k :: nat)"
  by (metis le_add_diff_inverse not_less)

lemma segment_base_set: "segment_base (mal_setSegmentBase a seg) = a"
proof -
  have m: "(0xFFFF :: u32) = mask 16" "(0xFF :: u32) = mask 8" by (simp_all add: mask_eq_exp_minus_1)
  show ?thesis unfolding segment_base_def mal_setSegmentBase_def m
    by (rule bit_eqI) (auto simp: bit_simps dest: bit_imp_le_length, (drule bit_below, assumption, simp)+)
qed

text \<open>The base of a descriptor reads back as it was set, and so does a limit below 1 MB in a
  descriptor without the granularity flag; a greater limit is rounded up to the end of its 4 KB
  page, so it always covers the size asked for.\<close>
lemma segment_descriptor_fields:
  "segment_base (mal_setSegmentBase a seg) = a \<and>
   segment_limit (mal_setSegmentLimit n (seg\<lparr>seg_flags := seg_flags seg AND NOT FLAG_GRAN4K\<rparr>)) =
     (if n < 0x100000 then n else n OR 0xFFF)"
proof -
  have m: "(0xFFFF :: u32) = mask 16" "(0xF :: u32) = mask 4" "(0xF :: u8) = mask 4" "(0xFFF :: u32) = mask 12"
    by (simp_all add: mask_eq_exp_minus_1)
  have f: "(x AND NOT FLAG_GRAN4K) AND FLAG_GRAN4K = 0" "(x OR FLAG_GRAN4K) AND FLAG_GRAN4K \<noteq> 0" for x
  proof -
    show "(x AND NOT FLAG_GRAN4K) AND FLAG_GRAN4K = 0" by (simp add: and.assoc)
    have "(x OR FLAG_GRAN4K) AND FLAG_GRAN4K = FLAG_GRAN4K" by (rule bit_eqI) (auto simp: bit_simps)
    then show "(x OR FLAG_GRAN4K) AND FLAG_GRAN4K \<noteq> 0" by (simp add: FLAG_GRAN4K_def)
  qed
  have "segment_limit (mal_setSegmentLimit n (seg\<lparr>seg_flags := seg_flags seg AND NOT FLAG_GRAN4K\<rparr>)) = n"
    if "n < 0x100000"
  proof -
    have "unat n < 2 ^ 20" using that by (simp add: word_less_nat_alt)
    then have "take_bit 20 n = n" by (intro word_unat_eq_iff [THEN iffD2]) (simp add: unsigned_take_bit_eq take_bit_nat_eq_self)
    then have h: "bit n i \<Longrightarrow> i < 20" for i by (metis bit_take_bit_iff)
    have "push_bit 16 (ucast ((ucast (drop_bit 16 n AND mask 4) :: u8) AND mask 4)) OR ucast (ucast (n AND mask 16) :: u16) = n"
      by (rule bit_eqI) (auto simp: bit_simps dest: h)
    moreover have "(0x100000 \<le> n) = False" using that by simp
    ultimately show ?thesis using f(1)
      by (simp add: segment_limit_def mal_setSegmentLimit_def Let_def m)
  qed
  moreover have "segment_limit (mal_setSegmentLimit n (seg\<lparr>seg_flags := seg_flags seg AND NOT FLAG_GRAN4K\<rparr>)) = n OR 0xFFF"
    if "\<not> n < 0x100000"
  proof -
    have "push_bit 12 (push_bit 16 (ucast ((ucast (drop_bit 16 (drop_bit 12 n) AND mask 4) :: u8) AND mask 4)) OR
        ucast (ucast (drop_bit 12 n AND mask 16) :: u16)) OR mask 12 = n OR mask 12"
      by (rule bit_eqI) (auto simp: bit_simps, (drule bit_below, assumption, simp)+)
    moreover have "(0x100000 \<le> n) = True" using that by simp
    ultimately show ?thesis using f(2)
      by (simp add: segment_limit_def mal_setSegmentLimit_def Let_def m)
  qed
  ultimately show ?thesis using segment_base_set by simp
qed

section \<open>Routing of interrupts\<close>

datatype attachment = Isr nat u32 | Exc nat u32

fun attach_vector :: "attachment \<Rightarrow> nat" where
  "attach_vector (Isr v a) = v"
| "attach_vector (Exc v a) = v"

fun attach_step :: "attachment \<Rightarrow> idt \<Rightarrow> idt outcome" where
  "attach_step (Isr v a) s = mal_attachIsr v a s"
| "attach_step (Exc v a) s = mal_attachException v a s"

text \<open>A sequence of calls, the last one first.\<close>

fun attach_all :: "attachment list \<Rightarrow> idt \<Rightarrow> idt outcome" where
  "attach_all [] s = Ret s"
| "attach_all (op # ops) s = obind (attach_all ops s) (attach_step op)"

text \<open>The exceptions for which the i386 pushes an error code, and the bytes it pushes: double fault (8),
  invalid TSS, segment not present, stack fault, general protection, page fault (10 to 14) and
  alignment check (17).\<close>

definition error_code_bytes :: "nat \<Rightarrow> u8" where
  "error_code_bytes v = (if v \<in> {8, 10, 11, 12, 13, 14, 17} then 4 else 0)"

text \<open>Where vector v leads: the routine, the bytes its exit drops from the stack, and whether it
  is entered through a trap gate (with interrupts left on).\<close>

fun handler :: "attachment list \<Rightarrow> u32 \<Rightarrow> nat \<Rightarrow> u32 \<times> u8 \<times> bool" where
  "handler [] unknown v = (unknown, 0, False)"
| "handler (op # ops) unknown v =
     (if attach_vector op \<noteq> v then handler ops unknown v
      else (case op of Isr _ a \<Rightarrow> (a, 0, False) | Exc _ a \<Rightarrow> (a, error_code_bytes v, True)))"

definition routes :: "(nat \<Rightarrow> u32) \<Rightarrow> idt \<Rightarrow> nat \<Rightarrow> u32 \<times> u8 \<times> bool \<Rightarrow> bool" where
  "routes tramp s v h \<longleftrightarrow> (case h of (a, fixup, trap) \<Rightarrow>
     gate_target (mal_idtTable s v) = tramp v \<and> gate_present (mal_idtTable s v) \<and> selector (mal_idtTable s v) = 0x10 \<and>
     gate_type (mal_idtTable s v) = (if trap then 0xF else 0xE) \<and>
     mal_isrTrampolines s v = \<lparr>t_vector = of_nat v, t_address = a, t_fixup = fixup\<rparr>)"

lemma gate_target_update [simp]:
  "gate_target (g\<lparr>gate_type := t\<rparr>) = gate_target g" "gate_target (g\<lparr>selector := c\<rparr>) = gate_target g"
  "gate_target (g\<lparr>gate_present := b\<rparr>) = gate_target g"
  by (simp_all add: gate_target_def)

lemma idtInit_routes: "v < 256 \<Longrightarrow> routes tramp (mal_idtInit tramp unknown s) v (unknown, 0, False)"
proof -
  have "\<forall>v < n. routes tramp (fold (\<lambda>i s. mal_setInterruptVector i (tramp i) (mal_isrTrampolineInit i unknown s)) [0..<n] s)
      v (unknown, 0, False)" for n
    by (induction n) (auto simp: routes_def mal_setInterruptVector_def mal_isrTrampolineInit_def less_Suc_eq
        KERNEL_CS_def TYPE_INTGATE_def)
  then show "v < 256 \<Longrightarrow> routes tramp (mal_idtInit tramp unknown s) v (unknown, 0, False)"
    by (simp add: mal_idtInit_def)
qed

lemma attach_step_routes:
  assumes "attach_vector op < 256" "\<forall>v < 256. routes tramp s v (h v)"
  shows "\<exists>s'. attach_step op s = Ret s' \<and> (\<forall>v < 256. routes tramp s' v
    (if attach_vector op \<noteq> v then h v
     else (case op of Isr _ a \<Rightarrow> (a, 0, False) | Exc _ a \<Rightarrow> (a, error_code_bytes v, True))))"
  using assms
  by (cases op) (auto simp: mal_attachIsr_def mal_attachException_def mal_setInterrupt_def routes_def
      TYPE_INTGATE_def TYPE_TRAPGATE_def hasFixup_def error_code_bytes_def)

text \<open>C32: after mal_idtInit and any sequence of attachments, every vector is present, enters the
  kernel code segment (selector 0x10) at its own trampoline through an interrupt gate, or a trap gate if an
  exception was attached last; the trampoline passes the vector on to the routine attached
  last (mal_unknownInterrupt if there is none), and for an exception drops four bytes from the stack exactly for
  the vectors for which the i386 pushes an error code, and none otherwise.  A vector outside the
  table is an access outside it.\<close>
theorem interrupts_routed:
  "(if \<exists>op \<in> set ops. attach_vector op \<ge> 256 then attach_all ops (mal_idtInit tramp unknown s) = Fault
    else \<exists>s'. attach_all ops (mal_idtInit tramp unknown s) = Ret s' \<and>
      list_all (\<lambda>v. routes tramp s' v (handler ops unknown v)) [0..<256])"
proof -
  have "if \<exists>op \<in> set ops. attach_vector op \<ge> 256 then attach_all ops (mal_idtInit tramp unknown s) = Fault
    else \<exists>s'. attach_all ops (mal_idtInit tramp unknown s) = Ret s' \<and> (\<forall>v < 256. routes tramp s' v (handler ops unknown v))"
  proof (induction ops)
    case Nil
    show ?case using idtInit_routes by simp
  next
    case (Cons op ops)
    show ?case
    proof (cases "\<exists>op \<in> set ops. attach_vector op \<ge> 256")
      case True
      then show ?thesis using Cons by simp
    next
      case False
      with Cons obtain s' where s': "attach_all ops (mal_idtInit tramp unknown s) = Ret s'"
        "\<forall>v < 256. routes tramp s' v (handler ops unknown v)" by auto
      show ?thesis
      proof (cases "attach_vector op < 256")
        case True
        then show ?thesis using attach_step_routes [OF True s'(2)] s'(1) False by simp
      next
        case False
        then have "attach_step op s' = Fault"
          by (cases op) (simp_all add: mal_attachIsr_def mal_attachException_def mal_setInterrupt_def)
        then show ?thesis using s'(1) False by simp
      qed
    qed
  qed
  then show ?thesis by (auto simp: list_all_iff split: if_splits)
qed

text \<open>mal_interrupt_init attaches the timer's routine to vector 0, the divide error: the vector of
  the timer's interrupt line still leads to mal_unknownInterrupt.\<close>

lemma timer_on_wrong_vector:
  "mal_interrupt_init timer p (mal_idtInit tramp unknown s) = Ret (p', s') \<Longrightarrow>
   routes tramp s' 0 (timer, 0, False) \<and> routes tramp s' (unat (mal_vectorFromIrq 0)) (unknown, 0, False)"
  using idtInit_routes [of 0 tramp unknown s] idtInit_routes [of 32 tramp unknown s]
  by (auto simp: mal_interrupt_init_def mal_attachIsr_def mal_setInterrupt_def mal_vectorFromIrq_def routes_def TYPE_INTGATE_def)

lemma irq_vector_inverse: "irq < 16 \<Longrightarrow> mal_irqFromVector (mal_vectorFromIrq irq) = irq"
proof -
  assume a: "irq < 16"
  then have "unat irq < 16" by (simp add: word_less_nat_alt)
  then have "unat (mal_vectorFromIrq irq) = 32 + unat irq"
    by (simp add: mal_vectorFromIrq_def unat_word_ariths unsigned_ucast_eq take_bit_nat_eq_self)
  then have "unat (ucast (mal_vectorFromIrq irq) :: u32) = 32 + unat irq"
    using \<open>unat irq < 16\<close> by (simp add: unsigned_ucast_eq take_bit_nat_eq_self)
  then have "(ucast (mal_vectorFromIrq irq) :: u32) = 32 + irq"
    using \<open>unat irq < 16\<close> by (intro word_unat_eq_iff [THEN iffD2]) (simp add: unat_word_ariths)
  then show ?thesis by (simp add: mal_irqFromVector_def)
qed

end
