(* ===== verification/Uart.thy ===== *)
theory Uart
  imports Mal_Props
begin

text \<open>
  arch/i386/kernel/kdb/i16550A.c: the serial port driver.  The chips answer as a 16550 does: at
  offset 3 the line control register reads back what was written, and its top bit (DLAB)
  switches the offsets 0 and 1 between data and interrupt enable and the divisor latch.
\<close>

section \<open>The chip\<close>

record uart =
  lcr :: u8
  ier :: u8
  mcr :: u8
  divisor_lo :: u8
  divisor_hi :: u8
  lsr :: u8
  rx :: "u8 list"
  tx_sent :: "u8 list"

definition LCR_DLAB_BIT :: nat where "LCR_DLAB_BIT = 7"
definition LCR_PARITY_BIT_0 :: nat where "LCR_PARITY_BIT_0 = 3"
definition LCR_PARITY_BIT_1 :: nat where "LCR_PARITY_BIT_1 = 4"
definition LCR_PARITY_BIT_2 :: nat where "LCR_PARITY_BIT_2 = 5"
definition LCR_STOP_BIT_BIT :: nat where "LCR_STOP_BIT_BIT = 2"
definition LCR_WORD_LENGTH_BIT_0 :: nat where "LCR_WORD_LENGTH_BIT_0 = 0"
definition LCR_WORD_LENGTH_BIT_1 :: nat where "LCR_WORD_LENGTH_BIT_1 = 1"
definition IER_DATA_IN_BIT :: nat where "IER_DATA_IN_BIT = 0"
definition IER_DATA_OUT_BIT :: nat where "IER_DATA_OUT_BIT = 1"
definition LCR_OFFSET :: nat where "LCR_OFFSET = 3"
definition MCR_OFFSET :: nat where "MCR_OFFSET = 4"
definition IER_OFFSET :: nat where "IER_OFFSET = 1"
definition DL_OFFSET :: nat where "DL_OFFSET = 0"
definition TX_OFFSET :: nat where "TX_OFFSET = 0"

text \<open>misc.h: BIT_ASSIGN and its special cases, on 32-bit ints.\<close>

definition BIT_ASSIGN :: "u32 \<Rightarrow> nat \<Rightarrow> bool \<Rightarrow> u32" where
  "BIT_ASSIGN v b en = (if en then v OR push_bit b 1 else v AND NOT (push_bit b 1))"

definition BIT_SET :: "u32 \<Rightarrow> nat \<Rightarrow> u32" where "BIT_SET v b = BIT_ASSIGN v b True"
definition BIT_CLEAR :: "u32 \<Rightarrow> nat \<Rightarrow> u32" where "BIT_CLEAR v b = BIT_ASSIGN v b False"

text \<open>A write to the register at an offset of the port's base.\<close>

definition outb :: "u32 \<Rightarrow> nat \<Rightarrow> uart \<Rightarrow> uart" where
  "outb w off u =
     (let v = ucast w :: u8; dlab = bit (lcr u) LCR_DLAB_BIT in
      if off = 0 then (if dlab then u\<lparr>divisor_lo := v\<rparr> else u\<lparr>tx_sent := tx_sent u @ [v]\<rparr>)
      else if off = 1 then (if dlab then u\<lparr>divisor_hi := v\<rparr> else u\<lparr>ier := v\<rparr>)
      else if off = 3 then u\<lparr>lcr := v\<rparr>
      else if off = 4 then u\<lparr>mcr := v\<rparr>
      else u)"

text \<open>The four ports: each has a base, read from the BIOS data area, with its chip behind it.
  Ports with the same base share a chip.\<close>

record ports =
  p_base :: "nat \<Rightarrow> u16"
  p_irq :: "nat \<Rightarrow> nat"
  chip :: "u16 \<Rightarrow> uart"
  uart_pic :: pic
  uart_idt :: idt

definition at_port :: "nat \<Rightarrow> (uart \<Rightarrow> uart) \<Rightarrow> ports \<Rightarrow> ports" where
  "at_port port f s = s\<lparr>chip := (chip s)(p_base s port := f (chip s (p_base s port)))\<rparr>"

section \<open>Line settings\<close>

definition bios_get_serial_base :: "(nat \<Rightarrow> u16) \<Rightarrow> nat \<Rightarrow> u16" where
  "bios_get_serial_base bda n = (if bda n \<noteq> 0 then bda n else 0x3f8)"

definition get_lcr :: "nat \<Rightarrow> ports \<Rightarrow> u8" where
  "get_lcr port s = lcr (chip s (p_base s port))"

definition set_lcr :: "nat \<Rightarrow> u32 \<Rightarrow> ports \<Rightarrow> ports" where
  "set_lcr port v = at_port port (outb v LCR_OFFSET)"

definition set_dlab :: "nat \<Rightarrow> bool \<Rightarrow> ports \<Rightarrow> ports" where
  "set_dlab port en s = set_lcr port (BIT_ASSIGN (ucast (get_lcr port s)) LCR_DLAB_BIT en) s"

text \<open>set_speed switches DLAB on port 0, whatever its port is.\<close>

definition set_speed :: "nat \<Rightarrow> u32 \<Rightarrow> ports \<Rightarrow> ports" where
  "set_speed port speed s =
     (let divisor = ucast (115200 div speed) :: u16;
          s1 = set_dlab 0 True s;
          s2 = at_port port (outb (ucast divisor AND 0xFF) DL_OFFSET) s1;
          s3 = at_port port (outb (ucast (drop_bit 8 divisor) AND 0xFF) (DL_OFFSET + 1)) s2
      in set_dlab 0 False s3)"

definition set_stop_bits :: "nat \<Rightarrow> u32 \<Rightarrow> ports \<Rightarrow> ports" where
  "set_stop_bits port num s =
     (if num = 1 then set_lcr port (BIT_CLEAR (ucast (get_lcr port s)) LCR_STOP_BIT_BIT) s
      else set_lcr port (BIT_SET (ucast (get_lcr port s)) LCR_STOP_BIT_BIT) s)"

definition word_length_code :: "nat \<Rightarrow> u32" where
  "word_length_code len = (if len = 8 then 3 else if len = 7 then 2 else if len = 6 then 1 else 1)"

definition set_word_length :: "nat \<Rightarrow> nat \<Rightarrow> ports \<Rightarrow> ports" where
  "set_word_length port len s =
     (let l0 = ucast (get_lcr port s) :: u32;
          l1 = BIT_CLEAR l0 LCR_WORD_LENGTH_BIT_0;
          l2 = BIT_CLEAR l1 LCR_WORD_LENGTH_BIT_1;
          l3 = l2 OR push_bit LCR_WORD_LENGTH_BIT_0 (word_length_code len)
      in set_lcr port l3 s)"

datatype parity = PARITY_N | PARITY_O | PARITY_E

text \<open>The case for even parity falls through to the one for odd parity.\<close>

definition set_parity :: "nat \<Rightarrow> parity \<Rightarrow> ports \<Rightarrow> ports" where
  "set_parity port par s =
     (let b1 = (par = PARITY_E);
          b0 = (par = PARITY_E \<or> par = PARITY_O);
          l0 = get_lcr port s;
          l1 = ucast (BIT_ASSIGN (ucast l0) LCR_PARITY_BIT_0 b0) :: u8;
          l2 = ucast (BIT_ASSIGN (ucast l1) LCR_PARITY_BIT_1 b1) :: u8;
          l3 = ucast (BIT_ASSIGN (ucast l2) LCR_PARITY_BIT_2 False) :: u8
      in set_lcr port (ucast l3) s)"

definition init_modem :: "nat \<Rightarrow> ports \<Rightarrow> ports" where
  "init_modem port = at_port port (outb 0xb MCR_OFFSET)"

definition set_interrupt :: "nat \<Rightarrow> u32 \<Rightarrow> ports \<Rightarrow> ports outcome" where
  "set_interrupt port isr s =
     (let s1 = at_port port (outb (BIT_SET 0 IER_DATA_IN_BIT) IER_OFFSET) s
      in obind (mal_attachIsr (0x20 + p_irq s port) isr (uart_idt s1)) (\<lambda>t.
           Ret (s1\<lparr>uart_idt := t, uart_pic := i8259_enable_irq (p_irq s port) (uart_pic s1)\<rparr>)))"

definition kdb_i16550A_tx_ien :: "nat \<Rightarrow> bool \<Rightarrow> ports \<Rightarrow> ports" where
  "kdb_i16550A_tx_ien port en s =
     at_port port (outb (BIT_ASSIGN (ucast (ier (chip s (p_base s port)))) IER_DATA_OUT_BIT en) IER_OFFSET) s"

definition kdb_i16550A_putchar :: "nat \<Rightarrow> u8 \<Rightarrow> ports \<Rightarrow> ports" where
  "kdb_i16550A_putchar port ch = at_port port (outb (ucast ch) TX_OFFSET)"

definition kdb_i16550A_init :: "(nat \<Rightarrow> u16) \<Rightarrow> u32 \<Rightarrow> ports \<Rightarrow> ports outcome" where
  "kdb_i16550A_init bda isr s =
     (let s1 = s\<lparr>p_base := (\<lambda>i. if i < 4 then bios_get_serial_base bda i else p_base s i),
                 p_irq := (\<lambda>i. if i < 4 then (if odd i then 3 else 4) else p_irq s i)\<rparr>
      in set_interrupt 0 isr
           (init_modem 0 (set_stop_bits 0 1 (set_word_length 0 8 (set_parity 0 PARITY_N (set_speed 0 38400 s1))))))"

section \<open>The line after initialisation\<close>

lemma at_port_same [simp]:
  "p_base (at_port n f s) = p_base s" "p_irq (at_port n f s) = p_irq s" "uart_pic (at_port n f s) = uart_pic s"
  "uart_idt (at_port n f s) = uart_idt s" "b = p_base s n \<Longrightarrow> chip (at_port n f s) b = f (chip s b)"
  by (simp_all add: at_port_def)

lemma set_lcr_same [simp]:
  "p_base (set_lcr n v s) = p_base s" "p_irq (set_lcr n v s) = p_irq s" "uart_pic (set_lcr n v s) = uart_pic s"
  "uart_idt (set_lcr n v s) = uart_idt s"
  "b = p_base s n \<Longrightarrow> chip (set_lcr n v s) b = (chip s b)\<lparr>lcr := ucast v\<rparr>"
  by (simp_all add: set_lcr_def outb_def LCR_OFFSET_def Let_def)

text \<open>The functions that only touch the chip of port 0.\<close>

definition only_chip :: "ports \<Rightarrow> uart \<Rightarrow> ports \<Rightarrow> bool" where
  "only_chip s c s' \<longleftrightarrow> p_base s' = p_base s \<and> p_irq s' = p_irq s \<and> uart_pic s' = uart_pic s \<and>
     uart_idt s' = uart_idt s \<and> chip s' (p_base s 0) = c"

lemma assign_u8:
  "ucast (BIT_ASSIGN (ucast l) b en) = (if en then l OR push_bit b 1 else l AND NOT (push_bit b 1))" for l :: u8
  unfolding BIT_ASSIGN_def by (cases en) (auto intro!: bit_eqI simp: bit_simps)

lemma ucast_u32_u8 [simp]: "ucast (ucast x :: u32) = (x :: u8)"
  by (rule bit_eqI) (auto simp: bit_simps)

lemma set_speed_chip:
  "only_chip s ((chip s (p_base s 0))\<lparr>divisor_lo := 3, divisor_hi := 0,
     lcr := (lcr (chip s (p_base s 0)) OR 0x80) AND NOT 0x80\<rparr>) (set_speed 0 38400 s)"
proof -
  have l: "ucast (BIT_ASSIGN (ucast l) 7 True) = l OR 0x80" "ucast (BIT_ASSIGN (ucast l) 7 False) = l AND NOT 0x80"
    for l :: u8 by (simp_all add: assign_u8)
  have b: "bit (l OR 0x80) 7" for l :: u8
  proof -
    have m: "(0x80 :: u8) = push_bit 7 1" by simp
    show ?thesis unfolding m by (simp add: bit_simps)
  qed
  show ?thesis
    by (simp add: only_chip_def set_speed_def Let_def set_dlab_def get_lcr_def l b outb_def LCR_DLAB_BIT_def DL_OFFSET_def)
qed

lemma word_length_u8:
  "ucast (BIT_ASSIGN (BIT_ASSIGN (ucast l) 0 False) 1 False OR push_bit 0 3) = l OR 3" for l :: u8
proof -
  have m: "(3 :: u8) = mask 2" "(3 :: u32) = mask 2" by (simp_all add: mask_eq_exp_minus_1)
  show ?thesis unfolding BIT_ASSIGN_def if_False m
    by (rule bit_eqI) (auto simp: bit_simps less_Suc_eq numeral_eq_Suc)
qed

lemma line_settings_chip:
  "only_chip s ((chip s (p_base s 0))\<lparr>lcr := (lcr (chip s (p_base s 0)) AND 0xC0) OR 3, mcr := 0xb\<rparr>)
     (init_modem 0 (set_stop_bits 0 1 (set_word_length 0 8 (set_parity 0 PARITY_N s))))"
proof -
  define l where "l = lcr (chip s (p_base s 0))"
  have m: "(0xC0 :: u8) = NOT (mask 6)" "(3 :: u8) = mask 2" by (simp_all add: mask_eq_exp_minus_1)
  define a where "a = l AND NOT (push_bit 3 1) AND NOT (push_bit 4 1) AND NOT (push_bit 5 1)"
  define c where "c = (a OR 3) AND NOT (push_bit 2 1)"
  have c: "c = l AND 0xC0 OR 3" unfolding c_def a_def m
    by (rule bit_eqI) (auto simp: bit_simps less_Suc_eq numeral_eq_Suc)
  have p: "only_chip s ((chip s (p_base s 0))\<lparr>lcr := a\<rparr>) (set_parity 0 PARITY_N s)"
    by (simp add: only_chip_def set_parity_def Let_def get_lcr_def assign_u8 LCR_PARITY_BIT_0_def
      LCR_PARITY_BIT_1_def LCR_PARITY_BIT_2_def a_def l_def and.assoc)
  define t where "t = set_parity 0 PARITY_N s"
  have w: "only_chip t ((chip t (p_base t 0))\<lparr>lcr := lcr (chip t (p_base t 0)) OR 3\<rparr>) (set_word_length 0 8 t)"
    using word_length_u8 by (simp add: only_chip_def set_word_length_def Let_def get_lcr_def word_length_code_def
      BIT_CLEAR_def LCR_WORD_LENGTH_BIT_0_def LCR_WORD_LENGTH_BIT_1_def)
  define u where "u = set_word_length 0 8 t"
  have st: "only_chip u ((chip u (p_base u 0))\<lparr>lcr := lcr (chip u (p_base u 0)) AND NOT (push_bit 2 1)\<rparr>) (set_stop_bits 0 1 u)"
    by (simp add: only_chip_def set_stop_bits_def get_lcr_def BIT_CLEAR_def assign_u8 LCR_STOP_BIT_BIT_def)
  have "only_chip s ((chip s (p_base s 0))\<lparr>lcr := c\<rparr>) (set_stop_bits 0 1 u)"
    using p w st by (simp add: only_chip_def t_def [symmetric] u_def [symmetric] c_def)
  then show ?thesis
    by (simp add: only_chip_def init_modem_def outb_def MCR_OFFSET_def c l_def t_def u_def Let_def)
qed

text \<open>Kdb_i16550A_init leaves port 0 at 38400 baud with eight data bits, no parity and one stop
  bit, the divisor latch closed again, and the receive interrupt on and routed to the driver
  through vector 0x24, with interrupt line 4 enabled.\<close>
lemma uart_init_line:
  "\<exists>s'. kdb_i16550A_init bda isr s = Ret s' \<and>
     (let c = chip s' (p_base s' 0) in
        divisor_lo c = 3 \<and> divisor_hi c = 0 \<and> lcr c AND NOT 0x40 = 3 \<and> mcr c = 0xb \<and> ier c = 1) \<and>
     p_base s' 0 = bios_get_serial_base bda 0 \<and>
     uart_pic s' = i8259_enable_irq 4 (uart_pic s) \<and> mal_attachIsr 0x24 isr (uart_idt s) = Ret (uart_idt s')"
proof -
  define s1 where "s1 = s\<lparr>p_base := (\<lambda>i. if i < 4 then bios_get_serial_base bda i else p_base s i),
    p_irq := (\<lambda>i. if i < 4 then (if odd i then 3 else 4) else p_irq s i)\<rparr>"
  define s2 where "s2 = set_speed 0 38400 s1"
  define s3 where "s3 = init_modem 0 (set_stop_bits 0 1 (set_word_length 0 8 (set_parity 0 PARITY_N s2)))"
  define c where "c = chip s1 (p_base s1 0)"
  have s2: "p_base s2 = p_base s1" "p_irq s2 = p_irq s1" "uart_pic s2 = uart_pic s1" "uart_idt s2 = uart_idt s1"
    "chip s2 (p_base s1 0) = c\<lparr>divisor_lo := 3, divisor_hi := 0, lcr := (lcr c OR 0x80) AND NOT 0x80\<rparr>"
    using set_speed_chip [of s1] by (simp_all add: only_chip_def s2_def c_def)
  have s3: "p_base s3 = p_base s1" "p_irq s3 = p_irq s1" "uart_pic s3 = uart_pic s" "uart_idt s3 = uart_idt s"
    "chip s3 (p_base s1 0) = c\<lparr>divisor_lo := 3, divisor_hi := 0, lcr := (((lcr c OR 0x80) AND NOT 0x80) AND 0xC0) OR 3, mcr := 0xb\<rparr>"
    using line_settings_chip [of s2] s2 by (simp_all add: only_chip_def s3_def s1_def)
  have m: "(0x80 :: u8) = push_bit 7 1" "(0xC0 :: u8) = NOT (mask 6)" "(3 :: u8) = mask 2" "(0x40 :: u8) = push_bit 6 1"
    by (simp_all add: mask_eq_exp_minus_1)
  have l: "((((x OR 0x80) AND NOT 0x80) AND 0xC0) OR 3) AND NOT 0x40 = 3" for x :: u8
    unfolding m by (rule bit_eqI) (auto simp: bit_simps less_Suc_eq numeral_eq_Suc)
  have nb: "\<not> bit ((((x OR 0x80) AND NOT 0x80) AND 0xC0) OR 3) 7" for x :: u8
    unfolding m by (simp add: bit_simps)
  have b: "p_base s1 0 = bios_get_serial_base bda 0" "p_irq s1 0 = 4" by (simp_all add: s1_def)
  obtain t where t: "mal_attachIsr 0x24 isr (uart_idt s) = Ret t" by (simp add: mal_attachIsr_def mal_setInterrupt_def)
  have "kdb_i16550A_init bda isr s = set_interrupt 0 isr s3"
    by (simp add: kdb_i16550A_init_def Let_def s1_def s2_def s3_def)
  then show ?thesis using s3 t l nb b
    by (simp add: set_interrupt_def Let_def at_port_def outb_def IER_OFFSET_def BIT_SET_def BIT_ASSIGN_def
      IER_DATA_IN_BIT_def LCR_DLAB_BIT_def)
qed

text \<open>A word length of five bits is set up as six.\<close>

lemma five_bits_are_six: "set_word_length port 5 s = set_word_length port 6 s"
  by (simp add: set_word_length_def word_length_code_def)

end
