(* ===== verification/Loader.thy ===== *)
theory Loader
  imports Hat "HOL-Library.Signed_Division"
begin

text \<open>
  arch/i386/loader: the program the multiboot loader starts.  It reads its modules from a tar
  archive and the memory map from the multiboot information (tar.c, multiboot.c,
  boot_context.c), sets up paging, copies the kernel's segments to their addresses (loader.c)
  and hands the boot context over (main.c).  Memory is read as bytes of the physical words of
  the machine; the first 4 MB keep their addresses when paging is on.
\<close>

section \<open>Memory as bytes\<close>

definition byte_at :: "machine \<Rightarrow> u32 \<Rightarrow> u8" where
  "byte_at m a = ucast (drop_bit (8 * unat (a AND 3)) (phys m (a AND NOT 3)))"

definition bytes_at :: "(u32 \<Rightarrow> u8) \<Rightarrow> u32 \<Rightarrow> nat \<Rightarrow> u8 list" where
  "bytes_at mem a n = map (\<lambda>i. mem (a + of_nat i)) [0..<n]"

definition read16 :: "(u32 \<Rightarrow> u8) \<Rightarrow> u32 \<Rightarrow> u16" where
  "read16 mem a = push_bit 8 (ucast (mem (a + 1))) OR ucast (mem a)"

definition read32 :: "(u32 \<Rightarrow> u8) \<Rightarrow> u32 \<Rightarrow> u32" where
  "read32 mem a = push_bit 24 (ucast (mem (a + 3))) OR push_bit 16 (ucast (mem (a + 2))) OR
     push_bit 8 (ucast (mem (a + 1))) OR ucast (mem a)"

section \<open>tar.c\<close>

definition BLOCKSIZE :: int where
  "BLOCKSIZE = 512"

text \<open>The name is at offset 0 of the header (the string may run on to the end of the block), the size
  field at 124, magic at 257.  An int is the integer it stands for; the sum
  wraps around as 32 bits do.\<close>

definition tar_size :: "(u32 \<Rightarrow> u8) \<Rightarrow> u32 \<Rightarrow> u32" where
  "tar_size mem header = foldl (\<lambda>s c. s * 8 + (scast c - 48)) 0 (bytes_at mem (header + 124) 11)"

definition tar_file_size :: "(u32 \<Rightarrow> u8) \<Rightarrow> u32 \<Rightarrow> u32" where
  "tar_file_size mem file = tar_size mem file"

definition tar_blocks_from_size :: "int \<Rightarrow> int" where
  "tar_blocks_from_size n =
     (let blocks = n sdiv BLOCKSIZE in if blocks * BLOCKSIZE < n then blocks + 1 else blocks)"

definition tar_file_blocks :: "(u32 \<Rightarrow> u8) \<Rightarrow> u32 \<Rightarrow> int" where
  "tar_file_blocks mem file = tar_blocks_from_size (sint (tar_size mem file))"

definition tar_file_data :: "u32 \<Rightarrow> u32" where
  "tar_file_data file = file + 512"

definition tar_next_file :: "(u32 \<Rightarrow> u8) \<Rightarrow> u32 \<Rightarrow> u32" where
  "tar_next_file mem arch = arch + 512 * (of_int (tar_file_blocks mem arch) + 1)"

definition tar_is_valid_file :: "(u32 \<Rightarrow> u8) \<Rightarrow> u32 \<Rightarrow> bool" where
  "tar_is_valid_file mem file \<longleftrightarrow> strncmp (bytes_at mem (file + 257) 6) (bytes ''ustar'') 5 = 0"

definition tar_file_name :: "(u32 \<Rightarrow> u8) \<Rightarrow> u32 \<Rightarrow> u8 list" where
  "tar_file_name mem file = bytes_at mem file 512"

text \<open>The loops over the archive go on as long as there is a valid header.\<close>

fun tar_find_file :: "nat \<Rightarrow> (u32 \<Rightarrow> u8) \<Rightarrow> u32 \<Rightarrow> u8 list \<Rightarrow> u32 outcome" where
  "tar_find_file 0 mem arch name = Timeout"
| "tar_find_file (Suc n) mem arch name =
     (if tar_is_valid_file mem arch then
        if strcmp (tar_file_name mem arch) name = 0 then Ret arch
        else tar_find_file n mem (tar_next_file mem arch) name
      else Ret 0)"

section \<open>multiboot.c\<close>

definition MULTIBOOT_BOOTLOADER_MAGIC :: u32 where
  "MULTIBOOT_BOOTLOADER_MAGIC = 0x2BADB002"

record multiboot_module =
  mod_start :: u32
  mod_end :: u32

record multiboot_info =
  mb_cmdline :: "u8 list"
  mb_loader_name :: "u8 list"
  mods :: "multiboot_module list"
  mmap_length :: u32
  mmap_addr :: u32

definition multiboot_cmdline :: "u32 \<Rightarrow> multiboot_info \<Rightarrow> u8 list" where
  "multiboot_cmdline magic info = (if magic = MULTIBOOT_BOOTLOADER_MAGIC then mb_cmdline info else [])"

definition multiboot_loader_name :: "u32 \<Rightarrow> multiboot_info \<Rightarrow> u8 list" where
  "multiboot_loader_name magic info = (if magic = MULTIBOOT_BOOTLOADER_MAGIC then mb_loader_name info else [])"

definition multiboot_get_module :: "nat \<Rightarrow> multiboot_info \<Rightarrow> u32" where
  "multiboot_get_module i info = (if i < length (mods info) then mod_start (mods info ! i) else 0)"

definition multiboot_get_module_length :: "nat \<Rightarrow> multiboot_info \<Rightarrow> u32" where
  "multiboot_get_module_length i info =
     (if i < length (mods info) then mod_end (mods info ! i) - mod_start (mods info ! i) else 0)"

section \<open>boot_context.c\<close>

definition init_boot_context :: "u32 \<Rightarrow> multiboot_info \<Rightarrow> stand_boot_context \<Rightarrow> stand_boot_context" where
  "init_boot_context magic info c =
     c\<lparr>modules := [], memory_map := [], allocatedCount := 0, vcount := 0,
       ordered := INIT_LIST_HEAD Ordered (ordered c), cmdline := multiboot_cmdline magic info\<rparr>"

text \<open>The loops fill static arrays; going past their end is a fault.\<close>

fun modules_loop :: "nat \<Rightarrow> (u32 \<Rightarrow> u8) \<Rightarrow> u32 \<Rightarrow> stand_module list \<Rightarrow> stand_module list outcome" where
  "modules_loop 0 mem arch ms = Timeout"
| "modules_loop (Suc n) mem arch ms =
     (if tar_is_valid_file mem arch then
        if length ms < LOADER_MAX_MODULES then
          modules_loop n mem (tar_next_file mem arch)
            (ms @ [\<lparr>mod_name = tar_file_name mem arch, mod_data = tar_file_data arch,
                    mod_size = tar_file_size mem arch\<rparr>])
        else Fault
      else Ret ms)"

definition fill_modules :: "(u32 \<Rightarrow> u8) \<Rightarrow> multiboot_info \<Rightarrow> stand_boot_context \<Rightarrow> stand_boot_context outcome" where
  "fill_modules mem info c =
     (let arch = multiboot_get_module 0 info in
      if arch = 0 then Panic ''cannot find kernel archive''
      else if \<not> tar_is_valid_file mem arch then Panic ''not valid tar archive''
      else obind (modules_loop (LOADER_MAX_MODULES + 2) mem arch (modules c)) (\<lambda>ms. Ret (c\<lparr>modules := ms\<rparr>)))"

fun memory_map_loop :: "nat \<Rightarrow> (u32 \<Rightarrow> u8) \<Rightarrow> u32 \<Rightarrow> multiboot_info \<Rightarrow> stand_physical_segment list
    \<Rightarrow> stand_physical_segment list outcome" where
  "memory_map_loop 0 mem buffer info ss = Timeout"
| "memory_map_loop (Suc n) mem buffer info ss =
     (if buffer - mmap_addr info < mmap_length info then
        if length ss < LOADER_MAX_SEGMENTS then
          memory_map_loop n mem (buffer + read32 mem buffer + 4) info
            (ss @ [\<lparr>ps_base = read32 mem (buffer + 4), ps_length = read32 mem (buffer + 12),
                    ps_type = (if read32 mem (buffer + 20) = 1 then RAM else RESERVED)\<rparr>])
        else Fault
      else Ret ss)"

definition fill_memory_map :: "(u32 \<Rightarrow> u8) \<Rightarrow> multiboot_info \<Rightarrow> stand_boot_context \<Rightarrow> stand_boot_context outcome" where
  "fill_memory_map mem info c =
     obind (memory_map_loop (LOADER_MAX_SEGMENTS + 2) mem (mmap_addr info) info (memory_map c))
       (\<lambda>ss. Ret (c\<lparr>memory_map := ss\<rparr>))"

definition fill_boot_context :: "(u32 \<Rightarrow> u8) \<Rightarrow> multiboot_info \<Rightarrow> stand_boot_context \<Rightarrow> stand_boot_context outcome" where
  "fill_boot_context mem info c = obind (fill_modules mem info c) (fill_memory_map mem info)"

text \<open>
  virtual_boot_context: where the pieces of the context are copied to, as (address, length) of
  each memcpy, in order.  The sizes are those of the structures on the i386.
\<close>

definition LOADER_INIT_STACK_SIZE :: u32 where
  "LOADER_INIT_STACK_SIZE = 8 * 1024"

definition SIZEOF_CONTEXT :: u32 where "SIZEOF_CONTEXT = 48"
definition SIZEOF_MODULES :: u32 where "SIZEOF_MODULES = 512 * 12"
definition SIZEOF_SEGMENTS :: u32 where "SIZEOF_SEGMENTS = 81 * 12"
definition SIZEOF_VSEGMENTS :: u32 where "SIZEOF_VSEGMENTS = 81 * 24"

definition context_size :: "stand_boot_context \<Rightarrow> u32" where
  "context_size c =
     SIZEOF_CONTEXT + SIZEOF_MODULES + SIZEOF_SEGMENTS + SIZEOF_SEGMENTS + SIZEOF_VSEGMENTS
     + strlen (cmdline c) + 1
     + (sum_list (map (\<lambda>m. strlen (mod_name m) + 1) (modules c))
        + sum_list (map (\<lambda>i. strlen (vs_tag (vsegments c i)) + 1) [0..<vcount c]))
     + sum_list (map mod_size (modules c))"

text \<open>size and numPages are ints; the division is signed.\<close>

definition context_pages :: "stand_boot_context \<Rightarrow> u32" where
  "context_pages c = of_int (sint (context_size c - 1) sdiv 4096) + 1"

fun copy_modules :: "u32 \<Rightarrow> stand_module list \<Rightarrow> u32 \<Rightarrow> (u32 \<times> u32) list \<times> u32" where
  "copy_modules tot [] last_p = ([], last_p)"
| "copy_modules tot (m # ms) last_p =
     (let len = strlen (mod_name m) + 1;
          (rest, l) = copy_modules tot ms (last_p + len + tot)
      in ((last_p, len) # (last_p + len, mod_size m) # rest, l))"

fun copy_tags :: "u8 list list \<Rightarrow> u32 \<Rightarrow> (u32 \<times> u32) list \<times> u32" where
  "copy_tags [] last_p = ([], last_p)"
| "copy_tags (t # ts) last_p =
     (let len = strlen t + 1; (rest, l) = copy_tags ts (last_p + len) in ((last_p, len) # rest, l))"

definition context_copies :: "u32 \<Rightarrow> u32 \<Rightarrow> stand_boot_context \<Rightarrow> (u32 \<times> u32) list" where
  "context_copies tot copy c =
     (let l1 = copy + SIZEOF_CONTEXT;
          l2 = l1 + SIZEOF_MODULES;
          (ms, l3) = copy_modules tot (modules c) l2;
          l4 = l3 + SIZEOF_SEGMENTS;
          l5 = l4 + SIZEOF_SEGMENTS;
          l6 = l5 + SIZEOF_VSEGMENTS;
          (ts, l7) = copy_tags (map (\<lambda>i. vs_tag (vsegments c i)) [0..<vcount c]) l6
      in [(copy, SIZEOF_CONTEXT), (l1, SIZEOF_MODULES)] @ ms @
         [(l3, SIZEOF_SEGMENTS), (l4, SIZEOF_SEGMENTS), (l5, SIZEOF_VSEGMENTS)] @ ts @
         [(l7, strlen (cmdline c) + 1)])"

definition virtual_boot_context :: "kernel \<Rightarrow> (u32 \<times> (u32 \<times> u32) list \<times> kernel) outcome" where
  "virtual_boot_context k =
     (let pages = context_pages (ctx k);
          copy = HYPERSPACE - LOADER_INIT_STACK_SIZE - pages * PAGE_SIZE
      in obind (reserve copy pages 0 (bytes ''stand boot context'') k) (\<lambda>k1.
           obind (hat_initialMapAnonPages copy pages PROT_WRITE (bytes ''stand boot context'') k1) (\<lambda>(_, k2).
             Ret (copy, context_copies (context_size (ctx k)) copy (ctx k2), k2))))"

section \<open>loader.c\<close>

text \<open>
  load_elf: the copies it makes as (destination, source, length), in order.  A segment without
  memory goes to the next round of the loop without moving on to the next header.  The image is
  read as it is when loading begins: it lies in memory that is no page table and no destination.
\<close>

definition phdr_vaddr :: "(u32 \<Rightarrow> u8) \<Rightarrow> u32 \<Rightarrow> u32" where "phdr_vaddr mem ph = read32 mem (ph + 8)"
definition phdr_memsz :: "(u32 \<Rightarrow> u8) \<Rightarrow> u32 \<Rightarrow> u32" where "phdr_memsz mem ph = read32 mem (ph + 20)"

definition phdr_copy :: "(u32 \<Rightarrow> u8) \<Rightarrow> u32 \<Rightarrow> u32 \<Rightarrow> u32 \<times> u32 \<times> u32" where
  "phdr_copy mem elf ph = (read32 mem (ph + 8), elf + read32 mem (ph + 4), read32 mem (ph + 16))"

fun load_loop :: "nat \<Rightarrow> (u32 \<Rightarrow> u8) \<Rightarrow> u32 \<Rightarrow> u32 \<Rightarrow> kernel \<Rightarrow> ((u32 \<times> u32 \<times> u32) list \<times> kernel) outcome" where
  "load_loop 0 mem elf ph k = Ret ([], k)"
| "load_loop (Suc n) mem elf ph k =
     (if phdr_memsz mem ph = 0 then load_loop n mem elf ph k
      else
        obind (hat_initialMapAnonPages (phdr_vaddr mem ph AND NOT 0xFFF) (hat_sizeToPages (phdr_memsz mem ph))
                 PROT_WRITE (bytes ''elf section'') k) (\<lambda>(_, k1).
          obind (load_loop n mem elf (ph + ucast (read16 mem (elf + 42))) k1) (\<lambda>(cs, k2).
            Ret (phdr_copy mem elf ph # cs, k2))))"

definition load_elf :: "(u32 \<Rightarrow> u8) \<Rightarrow> u32 \<Rightarrow> kernel \<Rightarrow> (u32 \<times> (u32 \<times> u32 \<times> u32) list \<times> kernel) outcome" where
  "load_elf mem elf k =
     obind (load_loop (unat (read16 mem (elf + 44))) mem elf (elf + read32 mem (elf + 28)) k) (\<lambda>(cs, k1).
       (let entry = read32 mem (elf + 24)
        in Ret (entry, cs, k1\<lparr>ctx := (ctx k1)\<lparr>kernelBase := entry\<rparr>\<rparr>)))"

definition createInitStack :: "kernel \<Rightarrow> (u32 \<times> kernel) outcome" where
  "createInitStack k =
     (let pages = LOADER_INIT_STACK_SIZE div PAGE_SIZE; bottom = HYPERSPACE - LOADER_INIT_STACK_SIZE
      in obind (reserve bottom pages 0 (bytes ''init stack'') k) (\<lambda>k1.
           obind (hat_initialMapAnonPages bottom pages PROT_WRITE (bytes ''init stack'') k1) (\<lambda>(_, k2).
             Ret (HYPERSPACE - LOADER_INIT_STACK_SIZE + 2048, k2))))"

section \<open>main.c\<close>

record handover =
  h_entry :: u32
  h_stack :: u32
  h_context :: u32
  h_segments :: "(u32 \<times> u32 \<times> u32) list"
  h_copies :: "(u32 \<times> u32) list"
  h_kernel :: kernel

text \<open>start, up to the call of the kernel.\<close>

definition start :: "u32 \<Rightarrow> multiboot_info \<Rightarrow> kernel \<Rightarrow> handover outcome" where
  "start magic info k =
     (let mem = byte_at (mach k) in
      obind (fill_boot_context mem info (init_boot_context magic info (ctx k))) (\<lambda>c.
        obind (init_page_allocator (k\<lparr>ctx := c\<rparr>)) (\<lambda>k1.
          obind (hat_initInitialPaging k1) (\<lambda>k2.
            (let m = stand_findModule (Some (ctx k2)) (bytes ''kernel'') in
             if m = 0 then Panic ''cannot find kernel image in archive''
             else
               obind (load_elf (byte_at (mach k2)) m k2) (\<lambda>(entry, segs, k3).
                 if entry = 0 then Panic ''cannot load kernel image''
                 else
                   obind (createInitStack k3) (\<lambda>(stack, k4).
                     obind (virtual_boot_context k4) (\<lambda>(copy, copies, k5).
                       Ret \<lparr>h_entry = entry, h_stack = stack, h_context = copy, h_segments = segs,
                            h_copies = copies, h_kernel = k5\<rparr>))))))))"

end
