(* ===== verification/Loader_Props.thy ===== *)
theory Loader_Props
  imports Loader Hat_Props
begin

text \<open>
  The loader takes from the archive the files that are in it and from the kernel image the
  segments before the first empty one, and the copy of the boot context it makes for the kernel
  does not fit where it puts it.
\<close>

section \<open>Files of the archive\<close>

definition octal :: "nat list \<Rightarrow> nat" where
  "octal ds = foldl (\<lambda>s d. s * 8 + d) 0 ds"

definition octal_field :: "(u32 \<Rightarrow> u8) \<Rightarrow> u32 \<Rightarrow> nat \<Rightarrow> bool" where
  "octal_field mem a n \<longleftrightarrow> (\<exists>ds. length ds = 11 \<and> (\<forall>d \<in> set ds. d < 8) \<and> octal ds = n \<and>
     bytes_at mem a 11 = map (\<lambda>d. 48 + of_nat d) ds)"

lemma digit_value_u32: "d < 8 \<Longrightarrow> scast (48 + of_nat d :: u8) - 48 = (of_nat d :: u32)"
proof -
  assume "d < 8"
  moreover have "\<forall>d \<in> set [0..<8]. scast (48 + of_nat d :: u8) - 48 = (of_nat d :: u32)"
    by (simp add: upt_rec)
  ultimately show ?thesis by simp
qed

lemma tar_size_octal: "octal_field mem (a + 124) n \<Longrightarrow> tar_size mem a = of_nat n"
proof -
  assume "octal_field mem (a + 124) n"
  then obtain ds where ds: "\<forall>d \<in> set ds. d < 8" "octal ds = n" "bytes_at mem (a + 124) 11 = map (\<lambda>d. 48 + of_nat d) ds"
    unfolding octal_field_def by blast
  have "foldl (\<lambda>s c. s * 8 + (scast c - 48)) (of_nat v) (map (\<lambda>d. 48 + of_nat d :: u8) ds) =
      (of_nat (foldl (\<lambda>s d. s * 8 + d) v ds) :: u32)" for v
    using ds(1)
  proof (induction ds arbitrary: v)
    case (Cons d ds)
    then have "(of_nat v :: u32) * 8 + (scast (48 + of_nat d :: u8) - 48) = of_nat (v * 8 + d)"
      using digit_value_u32 [of d] by simp
    then show ?case using Cons.IH [of "v * 8 + d"] Cons.prems by simp
  qed simp
  from this [of 0] show ?thesis unfolding tar_size_def ds(3) using ds(2) by (simp add: octal_def)
qed

definition blocks :: "nat \<Rightarrow> nat" where
  "blocks n = (n + 511) div 512"

lemma tar_blocks_from_size_nat: "tar_blocks_from_size (int n) = int (blocks n)"
proof -
  have "int n sdiv 512 = int (n div 512)" by (cases "n = 0") (simp_all add: signed_divide_int_def zdiv_int)
  moreover have "int (n div 512) * 512 < int n \<longleftrightarrow> n div 512 * 512 < n" by linarith
  moreover have "(n + 511) div 512 = (if n div 512 * 512 < n then n div 512 + 1 else n div 512)"
    by (auto simp: not_less)
  ultimately show ?thesis by (simp add: tar_blocks_from_size_def BLOCKSIZE_def Let_def blocks_def)
qed

definition after_file :: "u32 \<Rightarrow> nat \<Rightarrow> u32" where
  "after_file a n = a + of_nat (512 * (1 + blocks n))"

lemma tar_next_file_octal:
  assumes "octal_field mem (a + 124) n" "n < 2147483648"
  shows "tar_next_file mem a = after_file a n"
proof -
  have "sint (of_nat n :: u32) = int n" using assms(2) by (rule sint_of_nat_u32)
  then show ?thesis using tar_size_octal [OF assms(1)]
    by (simp add: tar_next_file_def tar_file_blocks_def tar_blocks_from_size_nat after_file_def algebra_simps)
qed

text \<open>An archive at address a whose files have the given sizes: at each header the magic, and the
  size in octal digits; the next header after the data, rounded up to blocks of 512 bytes; and no
  magic where the archive ends.\<close>

fun archive :: "(u32 \<Rightarrow> u8) \<Rightarrow> u32 \<Rightarrow> nat list \<Rightarrow> bool" where
  "archive mem a [] \<longleftrightarrow> bytes_at mem (a + 257) 5 \<noteq> bytes ''ustar''"
| "archive mem a (n # ns) \<longleftrightarrow> bytes_at mem (a + 257) 5 = bytes ''ustar'' \<and> octal_field mem (a + 124) n \<and>
     n < 2147483648 \<and> archive mem (after_file a n) ns"

fun archive_files :: "(u32 \<Rightarrow> u8) \<Rightarrow> u32 \<Rightarrow> nat list \<Rightarrow> stand_module list" where
  "archive_files mem a [] = []"
| "archive_files mem a (n # ns) =
     \<lparr>mod_name = bytes_at mem a 512, mod_data = a + 512, mod_size = of_nat n\<rparr> # archive_files mem (after_file a n) ns"

lemma length_archive_files [simp]: "length (archive_files mem a ns) = length ns"
  by (induction ns arbitrary: a) simp_all

lemma bytes_at_Suc: "bytes_at mem a (Suc n) = bytes_at mem a n @ [mem (a + of_nat n)]"
  by (simp add: bytes_at_def)

lemma tar_is_valid_iff: "tar_is_valid_file mem a \<longleftrightarrow> bytes_at mem (a + 257) 5 = bytes ''ustar''"
proof -
  have "strncmp [b0, b1, b2, b3, b4, b5] (bytes ''ustar'') 5 = 0 \<longleftrightarrow> [b0, b1, b2, b3, b4] = bytes ''ustar''"
    for b0 b1 b2 b3 b4 b5
    by (simp add: strncmp.simps bytes_def) (auto simp: sint_eq_iff [symmetric])
  then show ?thesis by (simp add: tar_is_valid_file_def bytes_at_def upt_rec)
qed

lemma modules_loop_archive:
  "archive mem a ns \<Longrightarrow> length ns < fuel \<Longrightarrow> length ms + length ns \<le> LOADER_MAX_MODULES \<Longrightarrow>
   modules_loop fuel mem a ms = Ret (ms @ archive_files mem a ns)"
proof (induction ns arbitrary: fuel a ms)
  case Nil
  then show ?case by (cases fuel) (auto simp: tar_is_valid_iff)
next
  case (Cons n ns)
  then obtain f where f: "fuel = Suc f" by (cases fuel) auto
  have "tar_next_file mem a = after_file a n" "tar_file_size mem a = of_nat n"
    using Cons.prems by (auto simp: tar_next_file_octal tar_size_octal tar_file_size_def)
  then show ?case using Cons f
    by (auto simp: tar_is_valid_iff tar_file_data_def tar_file_name_def)
qed

lemma modules_loop_overflow:
  "archive mem a ns \<Longrightarrow> LOADER_MAX_MODULES < length ms + fuel \<Longrightarrow> length ms + length ns > LOADER_MAX_MODULES \<Longrightarrow>
   length ms \<le> LOADER_MAX_MODULES \<Longrightarrow> modules_loop fuel mem a ms = Fault"
proof (induction ns arbitrary: fuel a ms)
  case Nil
  then show ?case by simp
next
  case (Cons n ns)
  then obtain f where f: "fuel = Suc f" by (cases fuel) auto
  have "tar_next_file mem a = after_file a n"
    using Cons.prems by (auto simp: tar_next_file_octal)
  then show ?case using Cons f by (auto simp: tar_is_valid_iff)
qed

text \<open>C34: fill_modules panics with "cannot find kernel archive" if the boot loader passed no module (or one at address 0), and
  with "not valid tar archive" if its first module is an archive without files.  If the archive has up to 512
  files, exactly these are listed, in order, each with its name, the address of its data and its
  size; if it has more, the table is written past its end.\<close>
theorem fill_modules_reads_archive:
  assumes "multiboot_get_module 0 info \<noteq> 0 \<Longrightarrow> archive mem (multiboot_get_module 0 info) ns" "modules c = []"
  shows "fill_modules mem info c =
    (if multiboot_get_module 0 info = 0 then Panic ''cannot find kernel archive''
     else if ns = [] then Panic ''not valid tar archive''
     else if length ns \<le> 512
     then Ret (c\<lparr>modules := archive_files mem (multiboot_get_module 0 info) ns\<rparr>)
     else Fault)"
proof (cases "multiboot_get_module 0 info = 0")
  case True
  then show ?thesis by (simp add: fill_modules_def)
next
  case False
  note arch = assms(1) [OF False]
  show ?thesis
  proof (cases ns)
    case Nil
    then show ?thesis using arch False by (simp add: fill_modules_def tar_is_valid_iff)
  next
    case (Cons n ms)
    then have v: "tar_is_valid_file mem (multiboot_get_module 0 info)" using arch by (simp add: tar_is_valid_iff)
    have l: "modules_loop (LOADER_MAX_MODULES + 2) mem (multiboot_get_module 0 info) (modules c) =
        (if length ns \<le> 512 then Ret (archive_files mem (multiboot_get_module 0 info) ns) else Fault)"
      using modules_loop_archive [OF arch, of "LOADER_MAX_MODULES + 2" "[]"] assms(2)
        modules_loop_overflow [OF arch, of "[]" "LOADER_MAX_MODULES + 2"]
      by (auto simp: LOADER_MAX_MODULES_def)
    show ?thesis unfolding fill_modules_def Let_def l using v False Cons by simp
  qed
qed

section \<open>Segments of the kernel image\<close>

lemma load_loop_empty: "phdr_memsz mem ph = 0 \<Longrightarrow> load_loop n mem elf ph k = Ret ([], k)"
  by (induction n) simp_all

text \<open>Load_elf copies the segments before the first one without memory and no other: at such a
  segment the loop keeps looking at the same header until it has counted to the end.\<close>
lemma load_elf_stops_at_empty_segment:
  assumes "load_elf mem elf k = Ret (pc, cs, k')"
  shows "pc = read32 mem (elf + 24) \<and>
    cs = map (phdr_copy mem elf) (takeWhile (\<lambda>ph. phdr_memsz mem ph \<noteq> 0)
      (map (\<lambda>i. elf + read32 mem (elf + 28) + of_nat i * ucast (read16 mem (elf + 42)))
        [0..<unat (read16 mem (elf + 44))]))"
proof -
  let ?s = "ucast (read16 mem (elf + 42)) :: u32"
  have "load_loop n mem elf ph k = Ret (cs, k1) \<Longrightarrow>
      cs = map (phdr_copy mem elf) (takeWhile (\<lambda>ph. phdr_memsz mem ph \<noteq> 0) (map (\<lambda>i. ph + of_nat i * ?s) [0..<n]))"
    for n ph k cs k1
  proof (induction n arbitrary: ph k cs)
    case (Suc n)
    have u: "map (\<lambda>i. ph + of_nat i * ?s) [0..<Suc n] = ph # map (\<lambda>i. ph + ?s + of_nat i * ?s) [0..<n]"
      by (simp add: upt_conv_Cons map_Suc_upt [symmetric] comp_def algebra_simps del: upt_Suc map_Suc_upt)
    show ?case
    proof (cases "phdr_memsz mem ph = 0")
      case True
      then show ?thesis using Suc.prems u load_loop_empty [OF True, of n] by simp
    next
      case False
      with Suc.prems obtain ka ds where "load_loop n mem elf (ph + ?s) ka = Ret (ds, k1)" "cs = phdr_copy mem elf ph # ds"
        by (auto split: prod.splits)
      with Suc.IH [of "ph + ?s" ka ds] show ?thesis using False u by (simp del: upt_Suc)
    qed
  qed simp
  with assms show ?thesis by (auto simp: load_elf_def Let_def split: prod.splits)
qed

text \<open>The number of pages a segment is given does not count where it starts in its first page.\<close>

lemma unaligned_segment_short:
  "hat_sizeToPages 2 * PAGE_SIZE = 0x1000 \<and> (0xC0000FFF :: u32) + 2 > (0xC0000FFF AND NOT 0xFFF) + 0x1000"
  by (simp add: hat_sizeToPages_def PAGE_SIZE_def)

section \<open>The copy of the boot context\<close>

lemma copy_modules_second:
  "\<exists>ds l. copy_modules tot (m # ms) p = ((p, strlen (mod_name m) + 1) # (p + (strlen (mod_name m) + 1), mod_size m) # ds, l) \<and>
     (case ms of [] \<Rightarrow> ds = [] \<and> l = p + (strlen (mod_name m) + 1) + tot
      | n # ns \<Rightarrow> (p + (strlen (mod_name m) + 1) + tot, strlen (mod_name n) + 1) \<in> set ds)"
  by (cases ms) (auto simp: Let_def split: prod.splits)

text \<open>The cursor after the first module has moved on by the size of the whole context, not of the
  module: the next copy goes to this address.\<close>

definition strayed :: "u32 \<Rightarrow> u32 \<Rightarrow> stand_module \<Rightarrow> u32" where
  "strayed copy tot m = copy + SIZEOF_CONTEXT + SIZEOF_MODULES + (strlen (mod_name m) + 1) + tot"

lemma strayed_copied: "modules c = m # ms \<Longrightarrow> \<exists>l. (strayed copy tot m, l) \<in> set (context_copies tot copy c)"
proof -
  assume c: "modules c = m # ms"
  let ?p = "copy + SIZEOF_CONTEXT + SIZEOF_MODULES"
  from copy_modules_second [of tot m ms ?p] obtain ds l where
    d: "copy_modules tot (m # ms) ?p =
      ((?p, strlen (mod_name m) + 1) # (?p + (strlen (mod_name m) + 1), mod_size m) # ds, l)"
    and r: "case ms of [] \<Rightarrow> ds = [] \<and> l = strayed copy tot m
      | n # ns \<Rightarrow> (strayed copy tot m, strlen (mod_name n) + 1) \<in> set ds"
    unfolding strayed_def by blast
  obtain ts l7 where t: "copy_tags (map (\<lambda>i. vs_tag (vsegments c i)) [0..<vcount c])
      (l + SIZEOF_SEGMENTS + SIZEOF_SEGMENTS + SIZEOF_VSEGMENTS) = (ts, l7)" by fastforce
  have cs: "context_copies tot copy c =
    [(copy, SIZEOF_CONTEXT), (copy + SIZEOF_CONTEXT, SIZEOF_MODULES)] @
    ((?p, strlen (mod_name m) + 1) # (?p + (strlen (mod_name m) + 1), mod_size m) # ds) @
    [(l, SIZEOF_SEGMENTS), (l + SIZEOF_SEGMENTS, SIZEOF_SEGMENTS),
     (l + SIZEOF_SEGMENTS + SIZEOF_SEGMENTS, SIZEOF_VSEGMENTS)] @ ts @ [(l7, strlen (cmdline c) + 1)]"
    unfolding context_copies_def c Let_def d prod.case t by (rule refl)
  show ?thesis
  proof (cases ms)
    case Nil
    then have "(strayed copy tot m, SIZEOF_SEGMENTS) = (l, SIZEOF_SEGMENTS)" using r by simp
    then show ?thesis unfolding cs by (metis Un_iff list.set_intros(1) set_append)
  next
    case (Cons n ns)
    then have "(strayed copy tot m, strlen (mod_name n) + 1) \<in> set ds" using r by simp
    then show ?thesis unfolding cs by (metis Un_iff list.set_intros(2) set_append)
  qed
qed

lemma context_pages_bounds:
  assumes "0 < unat (context_size c)" "unat (context_size c) < 2147483648"
  shows "context_pages c = of_nat ((unat (context_size c) - 1) div 4096 + 1)"
proof -
  let ?s = "unat (context_size c)"
  have "context_size c - 1 = of_nat (?s - 1)"
    using assms(1) by (simp add: of_nat_diff)
  moreover have "sint (of_nat (?s - 1) :: u32) = int (?s - 1)" using assms(2) by (intro sint_of_nat_u32) simp
  ultimately have "sint (context_size c - 1) = int (?s - 1)" by simp
  moreover have "int n sdiv 4096 = int (n div 4096)" for n
    by (cases "n = 0") (simp_all add: signed_divide_int_def zdiv_int)
  ultimately show ?thesis by (simp add: context_pages_def)
qed

text \<open>Virtual_boot_context moves its cursor by the size of the whole context after each module,
  so with any module at all the rest of the context is copied past the pages reserved for it:
  to the pages of the initial stack, above the stack pointer the kernel starts with.\<close>
lemma virtual_boot_context_strays:
  assumes "virtual_boot_context k = Ret (copy, copies, k')" "modules (ctx k') = m # ms"
    and "0 < unat (context_size (ctx k))" "unat (context_size (ctx k)) < 2147483648"
    and "unat (strlen (mod_name m)) < 512"
  shows "\<exists>d l. (d, l) \<in> set copies \<and> copy + context_pages (ctx k) * PAGE_SIZE \<le> d \<and>
    HYPERSPACE - LOADER_INIT_STACK_SIZE + 2048 < d \<and> d < HYPERSPACE"
proof -
  define s where "s = unat (context_size (ctx k))"
  define p4 where "p4 = ((s - 1) div 4096 + 1) * 4096"
  define len where "len = unat (strlen (mod_name m)) + 1"
  from assms(1) have copy: "copy = HYPERSPACE - LOADER_INIT_STACK_SIZE - context_pages (ctx k) * PAGE_SIZE"
    and copies: "copies = context_copies (context_size (ctx k)) copy (ctx k')"
    by (auto simp: virtual_boot_context_def Let_def split: prod.splits)
  have pages: "context_pages (ctx k) * PAGE_SIZE = of_nat p4"
    using context_pages_bounds [OF assms(3,4)] by (simp add: p4_def s_def PAGE_SIZE_def)
  obtain n where n: "s = Suc n" using assms(3) unfolding s_def [symmetric] by (metis gr0_conv_Suc)
  have b: "s \<le> p4" "p4 \<le> s + 4095"
    using div_mult_mod_eq [of n 4096] mod_less_divisor [of 4096 n] unfolding p4_def n by simp_all
  have w: "strlen (mod_name m) + 1 = of_nat len" "context_size (ctx k) = of_nat s"
    by (simp_all add: len_def s_def)
  define off where "off = 6192 + len + s - p4"
  have off: "2097 < off" "off < 8192" using b assms(5) by (simp_all add: off_def len_def)
  have "strayed copy (context_size (ctx k)) m = HYPERSPACE - LOADER_INIT_STACK_SIZE + (of_nat (6192 + len + s) - of_nat p4)"
    unfolding strayed_def copy pages w SIZEOF_CONTEXT_def SIZEOF_MODULES_def by simp
  also have "(of_nat (6192 + len + s) :: u32) - of_nat p4 = of_nat off"
    using b by (simp add: off_def of_nat_diff)
  finally have d: "strayed copy (context_size (ctx k)) m = 0xFFBFE000 + of_nat off"
    by (simp add: HYPERSPACE_def LOADER_INIT_STACK_SIZE_def)
  have u: "unat (0xFFBFE000 + of_nat off :: u32) = 0xFFBFE000 + off"
    using off by (subst unat_add_no_wrap_u32) (simp_all add: unat_of_nat_u32)
  have "copy + context_pages (ctx k) * PAGE_SIZE = 0xFFBFE000"
    by (simp add: copy HYPERSPACE_def LOADER_INIT_STACK_SIZE_def)
  moreover have "(0xFFBFE000 :: u32) \<le> strayed copy (context_size (ctx k)) m"
    "HYPERSPACE - LOADER_INIT_STACK_SIZE + 2048 < strayed copy (context_size (ctx k)) m"
    "strayed copy (context_size (ctx k)) m < HYPERSPACE"
    unfolding d word_le_nat_alt word_less_nat_alt u using off
    by (simp_all add: HYPERSPACE_def LOADER_INIT_STACK_SIZE_def)
  ultimately show ?thesis using strayed_copied [OF assms(2)] copies by metis
qed

section \<open>Examples\<close>

definition stand_kernel :: kernel where
  "stand_kernel = small_kernel\<lparr>mach := \<lparr>phys = (phys small_machine)(0x100FF8 := 0x101007), cr3 = 0x100000\<rparr>,
     ctx := empty_boot_context\<lparr>modules := [\<lparr>mod_name = [107, 0], mod_data = 0x200, mod_size = 7\<rparr>],
       cmdline := [0]\<rparr>\<rparr>"

lemma stand_kernel_copies:
  "case virtual_boot_context stand_kernel of Ret (copy, copies, k') \<Rightarrow> modules (ctx k') = modules (ctx stand_kernel)
   | _ \<Rightarrow> False"
  by code_simp

theorem virtual_boot_context_strays_witness:
  "\<exists>copy copies k'. virtual_boot_context stand_kernel = Ret (copy, copies, k') \<and>
     (\<exists>d l. (d, l) \<in> set copies \<and> copy + context_pages (ctx stand_kernel) * PAGE_SIZE \<le> d)"
proof -
  obtain copy copies k' where r: "virtual_boot_context stand_kernel = Ret (copy, copies, k')"
    and m: "modules (ctx k') = modules (ctx stand_kernel)"
    using stand_kernel_copies by (auto split: outcome.splits)
  have "modules (ctx k') = [\<lparr>mod_name = [107, 0], mod_data = 0x200, mod_size = 7\<rparr>]"
    unfolding m by (simp add: stand_kernel_def)
  moreover have "unat (context_size (ctx stand_kernel)) = 10090" "unat (strlen [107, 0]) = 1" by code_simp+
  ultimately show ?thesis using virtual_boot_context_strays [OF r] r by auto
qed

text \<open>An image with three segments, the second one empty.\<close>

definition small_elf :: "u32 \<Rightarrow> u8" where
  "small_elf = (\<lambda>a. 0)(24 := 9, 28 := 64, 42 := 32, 44 := 3, 64 + 8 := 0, 64 + 9 := 0xB0, 64 + 10 := 0xBF, 64 + 11 := 0xFF,
     64 + 16 := 7, 64 + 20 := 7, 128 + 16 := 7, 128 + 20 := 7)"

lemma small_elf_loads: "case load_elf small_elf 0 stand_kernel of Ret (pc, cs, k') \<Rightarrow> True | _ \<Rightarrow> False"
  by code_simp

theorem load_elf_stops_at_empty_segment_witness:
  "\<exists>k'. load_elf small_elf 0 stand_kernel = Ret (9, [(0xFFBFB000, 0, 7)], k')"
proof -
  obtain pc cs k' where r: "load_elf small_elf 0 stand_kernel = Ret (pc, cs, k')"
    using small_elf_loads by (auto split: outcome.splits)
  have "read32 small_elf (0 + 24) = 9" by code_simp
  moreover have "map (phdr_copy small_elf 0) (takeWhile (\<lambda>ph. phdr_memsz small_elf ph \<noteq> 0)
      (map (\<lambda>i. 0 + read32 small_elf (0 + 28) + of_nat i * ucast (read16 small_elf (0 + 42)))
        [0..<unat (read16 small_elf (0 + 44))])) = [(0xFFBFB000, 0, 7)]"
    by code_simp
  ultimately show ?thesis using load_elf_stops_at_empty_segment [OF r] r by simp
qed

text \<open>An archive with one file of five bytes.\<close>

definition small_archive :: "u32 \<Rightarrow> u8" where
  "small_archive = (\<lambda>a. if 0x1000 + 124 \<le> a \<and> a < 0x1000 + 134 then 48 else 0)
     (0x1000 := 107, 0x1000 + 134 := 53, 0x1000 + 257 := 117, 0x1000 + 258 := 115, 0x1000 + 259 := 116,
      0x1000 + 260 := 97, 0x1000 + 261 := 114)"

theorem fill_modules_reads_archive_witness:
  "\<exists>c. fill_modules small_archive \<lparr>mb_cmdline = [0], mb_loader_name = [0],
       mods = [\<lparr>mod_start = 0x1000, mod_end = 0x1400\<rparr>], mmap_length = 0, mmap_addr = 0\<rparr> empty_boot_context = Ret c \<and>
     map mod_size (modules c) = [5] \<and> map mod_data (modules c) = [0x1200]"
proof -
  let ?info = "\<lparr>mb_cmdline = [0], mb_loader_name = [0], mods = [\<lparr>mod_start = 0x1000, mod_end = 0x1400\<rparr>],
    mmap_length = 0, mmap_addr = 0\<rparr>"
  have "bytes_at small_archive (0x1000 + 257) 5 = bytes ''ustar''"
    "bytes_at small_archive (0x1400 + 257) 5 \<noteq> bytes ''ustar''" by code_simp+
  moreover have "octal_field small_archive (0x1000 + 124) 5"
    unfolding octal_field_def by (rule exI [of _ "[0,0,0,0,0,0,0,0,0,0,5]"]) code_simp
  moreover have "after_file 0x1000 5 = 0x1400" by code_simp
  ultimately have "archive small_archive 0x1000 [5]" by simp
  moreover have "multiboot_get_module 0 ?info = 0x1000" "modules empty_boot_context = []"
    by (simp_all add: multiboot_get_module_def empty_boot_context_def)
  ultimately show ?thesis
    using fill_modules_reads_archive [of ?info small_archive "[5]" empty_boot_context] by simp
qed

end
