(* ===== verification/Coc.thy ===== *)
theory Coc
  imports Avl "HOL-Library.Char_ord" "HOL-Library.List_Lexorder"
begin

text \<open>
  tools/coc: the translator of the object language the kernel is written in (.co files) to C.
  filter.c reads the preprocessed source character by character through eight modes; class.c
  and def.c take the headers of classes and methods apart.  A character array holds the string
  up to its terminator; a function that runs past the terminator, or past the end of a fixed
  array, is a Fault, and exit after a syntax error is a Panic.  malloc hands out numbered
  objects whose tree links hold whatever the heap held.
\<close>

section \<open>Characters\<close>

definition line_feed :: char where "line_feed = CHR 0x0A"
definition quote :: string where "quote = [CHR 0x22]"
definition nl :: string where "nl = [line_feed]"

definition isspace :: "char \<Rightarrow> bool" where
  "isspace ch \<longleftrightarrow> ch \<in> {CHR '' '', CHR 0x09, CHR 0x0A, CHR 0x0B, CHR 0x0C, CHR 0x0D}"

definition isalnum :: "char \<Rightarrow> bool" where
  "isalnum ch \<longleftrightarrow> (CHR ''0'' \<le> ch \<and> ch \<le> CHR ''9'') \<or> (CHR ''A'' \<le> ch \<and> ch \<le> CHR ''Z'') \<or>
     (CHR ''a'' \<le> ch \<and> ch \<le> CHR ''z'')"

text \<open>strchr also finds the terminator.\<close>

definition isseparator :: "char \<Rightarrow> bool" where
  "isseparator ch \<longleftrightarrow> ch \<in> set ('' '' @ [CHR 0x09] @ nl @ ''=*+-/()[]{}!~|&^'' @ quote @ [CHR 0x27] @ '';:,.'') \<or>
     ch = CHR 0x00"

fun dec_digits :: "nat \<Rightarrow> string" where
  "dec_digits n = (if n < 10 then [char_of (48 + n)] else dec_digits (n div 10) @ [char_of (48 + n mod 10)])"

declare dec_digits.simps [simp del]

definition dec :: "int \<Rightarrow> string" where
  "dec i = (if i < 0 then CHR ''-'' # dec_digits (nat (- i)) else dec_digits (nat i))"

definition digits_value :: "string \<Rightarrow> int" where
  "digits_value ds = foldl (\<lambda>v d. v * 10 + (int (of_char d) - 48)) 0 ds"

definition atoi :: "string \<Rightarrow> int" where
  "atoi t =
     (let u = dropWhile isspace t;
          v = (case u of c # r \<Rightarrow> if c = CHR ''-'' \<or> c = CHR ''+'' then r else u | [] \<Rightarrow> u);
          n = digits_value (takeWhile (\<lambda>c. CHR ''0'' \<le> c \<and> c \<le> CHR ''9'') v)
      in if u \<noteq> [] \<and> hd u = CHR ''-'' then - n else n)"

section \<open>class.c\<close>

definition class_parse_className :: "string \<Rightarrow> string outcome" where
  "class_parse_className decl =
     (if take 5 decl \<noteq> ''class'' then Ret ''missingClassKeyword''
      else
        (case dropWhile (\<lambda>c. \<not> isspace c) decl of
           [] \<Rightarrow> Fault
         | _ # r \<Rightarrow>
             (let n = takeWhile isalnum (dropWhile isspace r)
              in if length n < 256 then Ret n else Fault)))"

definition class_parse_superclassName :: "string \<Rightarrow> string outcome" where
  "class_parse_superclassName decl =
     (case dropWhile (\<lambda>c. c \<noteq> CHR '':'') decl of
        [] \<Rightarrow> Ret ''Object''
      | _ # r \<Rightarrow>
          (case dropWhile (\<lambda>c. \<not> isspace c) r of
             [] \<Rightarrow> Fault
           | _ # e \<Rightarrow>
               (let n = takeWhile (\<lambda>c. \<not> isspace c \<and> c \<noteq> CHR ''{'') e
                in if n = e then Fault else if length n < 256 then Ret n else Fault)))"

section \<open>def.c\<close>

definition def_parse_className :: "string \<Rightarrow> string outcome" where
  "def_parse_className def =
     (if length def \<ge> 256 then Fault
      else if CHR ''@'' \<notin> set def then Panic ''SYNTAX ERROR: @-class@method''
      else Ret (takeWhile (\<lambda>c. c \<noteq> CHR ''@'') def))"

definition def_parse_methodName :: "string \<Rightarrow> string outcome" where
  "def_parse_methodName def =
     (case dropWhile (\<lambda>c. c \<noteq> CHR ''@'') def of
        [] \<Rightarrow> Panic ''SYNTAX ERROR: @-class@method''
      | _ # sep \<Rightarrow>
          (let n = takeWhile (\<lambda>c. c \<noteq> CHR ''('' \<or> isspace c) sep
           in if n = sep then Fault else if length n < 256 then Ret n else Fault))"

definition isptrdecl :: "char \<Rightarrow> bool" where
  "isptrdecl ch \<longleftrightarrow> ch = CHR '' '' \<or> ch = CHR ''*''"

definition isidentifier :: "char \<Rightarrow> bool" where
  "isidentifier ch \<longleftrightarrow> isalnum ch \<or> ch = CHR ''_'' \<or> ch = CHR ''-''"

text \<open>The loop over the identifier also skips the character that ends it.  The result is the
  type, the name and where the next argument starts, if there is one.\<close>

definition def_parse_arg :: "string \<Rightarrow> (string \<times> string \<times> string option) outcome" where
  "def_parse_arg arg =
     (case dropWhile isidentifier arg of
        [] \<Rightarrow> Fault
      | _ # r1 \<Rightarrow>
          (let r2 = dropWhile isptrdecl r1;
               type = take (length arg - length r2) arg;
               name = takeWhile isalnum r2;
               r3 = dropWhile isalnum r2
           in if length type \<ge> 512 \<or> length name \<ge> 512 then Fault
              else
                (case dropWhile (\<lambda>c. c \<noteq> CHR '','' \<and> c \<noteq> CHR '')'') r3 of
                   [] \<Rightarrow> Fault
                 | c # r4 \<Rightarrow> Ret (type, name, if c = CHR '')'' then None else Some (dropWhile isspace r4)))))"

section \<open>The state of the filter\<close>

datatype coc_mode = BODY | ESCAPE | CLASS | CLASSBODY | DEF | VAR | CALL | PREPROC

record class_cache_entry =
  ce_className :: string
  ce_superclass :: "nat option"
  ce_buffer :: string

record coc =
  out :: string
  lineno :: u32
  ahead_buffer :: string
  className :: string
  superclassName :: string
  entries :: "class_cache_entry list"
  classCacheRoot :: "nat avl_heap"
  class_body_buffer :: string
  currentClassName :: "string option"
  receiver :: string
  balance :: int
  preproc_inNumber :: bool

definition BUFFER_SIZE :: nat where
  "BUFFER_SIZE = 4096"

definition emit :: "string \<Rightarrow> coc \<Rightarrow> coc" where
  "emit t s = s\<lparr>out := out s @ t\<rparr>"

definition reset_ahead :: "coc \<Rightarrow> coc" where
  "reset_ahead s = s\<lparr>ahead_buffer := []\<rparr>"

text \<open>append: strncat of one character and of a terminator.  The terminator of a string of
  BUFFER_SIZE characters lies behind the array; the message comes too late.\<close>

definition append_char :: "char \<Rightarrow> string \<Rightarrow> string outcome" where
  "append_char ch buffer =
     (let b = (if ch = CHR 0x00 then buffer else buffer @ [ch])
      in if length b \<ge> BUFFER_SIZE then Fault else Ret b)"

definition append_ahead :: "char \<Rightarrow> coc \<Rightarrow> coc outcome" where
  "append_ahead ch s = obind (append_char ch (ahead_buffer s)) (\<lambda>b. Ret (s\<lparr>ahead_buffer := b\<rparr>))"

text \<open>A process function returns the next mode, what it puts back on the input with ungetc and
  the state.\<close>

type_synonym processed = "(coc_mode \<times> string \<times> coc) outcome"

definition staying :: "coc_mode \<Rightarrow> coc outcome \<Rightarrow> processed" where
  "staying mode r = obind r (\<lambda>s. Ret (mode, [], s))"

section \<open>Bodies and escapes\<close>

definition body_process :: "char \<Rightarrow> coc \<Rightarrow> processed" where
  "body_process ch s =
     (if ch = CHR ''@'' then Ret (ESCAPE, [], s)
      else if ch = CHR ''#'' then Ret (PREPROC, [], s)
      else if isseparator ch then Ret (BODY, [], reset_ahead (emit (ahead_buffer s @ [ch]) s))
      else staying BODY (append_ahead ch s))"

text \<open>The byte 0xFF is EOF when it is a char: ungetc does not put it back.\<close>

definition escape_process :: "char \<Rightarrow> coc \<Rightarrow> processed" where
  "escape_process ch s =
     (if ch = CHR ''+'' then Ret (CLASS, [], reset_ahead s)
      else if ch = CHR ''-'' then Ret (DEF, [], reset_ahead s)
      else Ret (VAR, if ch = CHR 0xFF then [] else [ch], s))"

section \<open>Classes\<close>

definition class_process :: "char \<Rightarrow> coc \<Rightarrow> processed" where
  "class_process ch s =
     (if ch = CHR ''{'' then
        obind (class_parse_className (ahead_buffer s)) (\<lambda>cls.
          obind (class_parse_superclassName (ahead_buffer s)) (\<lambda>super.
            (let s1 = (if cls \<noteq> ''Class'' then emit (''typedef struct '' @ cls @ ''_s '' @ cls @ ''_t;'' @ nl) s else s);
                 s2 = reset_ahead (emit (''struct '' @ cls @ ''_s {'' @ nl) s1)
             in Ret (CLASSBODY, [], s2\<lparr>className := cls, superclassName := super\<rparr>))))
      else staying CLASS (append_ahead ch s))"

text \<open>The cache is a tree of the entries by name; the comparisons are strcmp.\<close>

definition cache_key :: "coc \<Rightarrow> nat \<Rightarrow> string" where
  "cache_key s i = ce_className (entries s ! i)"

definition find_class :: "string \<Rightarrow> coc \<Rightarrow> nat option outcome" where
  "find_class name s = avl_find (length (entries s)) (avl_make_match (cache_key s)) name (classCacheRoot s)"

definition class_initializer :: "coc \<Rightarrow> string" where
  "class_initializer s =
     (let c = className s in
      '';'' @ nl @ ''Class_t* '' @ c @ '';'' @ nl @ ''const co_class_initializer_t _'' @ c @ ''_co_init ''
      @ ''__attribute__((section('' @ quote @ ''.co.classes'' @ quote @ ''),weak)) = {'' @ nl
      @ quote @ c @ quote @ '', '' @ quote @ superclassName s @ quote @ '', sizeof('' @ c @ ''_t), &'' @ c @ nl @ ''}'')"

definition add_class :: "coc \<Rightarrow> coc outcome" where
  "add_class s =
     obind (find_class (superclassName s) s) (\<lambda>super.
       (let i = length (entries s);
            e = \<lparr>ce_className = className s, ce_superclass = super, ce_buffer = class_body_buffer s\<rparr>;
            s1 = s\<lparr>entries := entries s @ [e]\<rparr>
        in obind (avl_add (length (entries s1)) (avl_make_compare (cache_key s1)) i Root (classCacheRoot s1))
             (\<lambda>(h, _). Ret (s1\<lparr>classCacheRoot := h\<rparr>))))"

definition classbody_process :: "char \<Rightarrow> coc \<Rightarrow> processed" where
  "classbody_process ch s =
     (if ch = CHR ''}'' then
        obind (add_class (emit (class_initializer s) (emit (ahead_buffer s @ [ch]) s))) (\<lambda>s1.
          Ret (BODY, [], (reset_ahead s1)\<lparr>className := []\<rparr>))
      else
        obind (append_ahead ch s) (\<lambda>s1.
          obind (append_char ch (class_body_buffer s1)) (\<lambda>b.
            Ret (CLASSBODY, [], s1\<lparr>class_body_buffer := b\<rparr>))))"

text \<open>classbody_outputbody prints the superclasses first; the bound is used up only on a cycle.\<close>

fun outputbody :: "nat \<Rightarrow> class_cache_entry list \<Rightarrow> nat \<Rightarrow> string outcome" where
  "outputbody 0 es i = Timeout"
| "outputbody (Suc n) es i =
     (case ce_superclass (es ! i) of
        None \<Rightarrow> Ret (ce_buffer (es ! i))
      | Some j \<Rightarrow> obind (outputbody n es j) (\<lambda>t. Ret (t @ ce_buffer (es ! i))))"

definition classbody_outputbody :: "nat \<Rightarrow> coc \<Rightarrow> coc outcome" where
  "classbody_outputbody i s = obind (outputbody (length (entries s)) (entries s) i) (\<lambda>t. Ret (emit t s))"

definition classbody_change :: "coc \<Rightarrow> coc outcome" where
  "classbody_change s =
     (let s1 = s\<lparr>class_body_buffer := []\<rparr>
      in obind (find_class (superclassName s1) s1) (\<lambda>super.
           case super of None \<Rightarrow> Ret s1 | Some i \<Rightarrow> classbody_outputbody i s1))"

section \<open>Methods\<close>

lemma length_dropWhile_le: "length (dropWhile P xs) \<le> length xs"
  by (induction xs) auto

lemma def_parse_arg_shorter: "def_parse_arg arg = Ret (type, name, Some r) \<Longrightarrow> length r < length arg"
proof -
  assume a: "def_parse_arg arg = Ret (type, name, Some r)"
  then obtain c r1 where 1: "dropWhile isidentifier arg = c # r1"
    by (cases "dropWhile isidentifier arg") (simp_all add: def_parse_arg_def)
  let ?r3 = "dropWhile isalnum (dropWhile isptrdecl r1)"
  from a 1 obtain d r4 where 2: "dropWhile (\<lambda>c. c \<noteq> CHR '','' \<and> c \<noteq> CHR '')'') ?r3 = d # r4" "r = dropWhile isspace r4"
    by (auto simp: def_parse_arg_def Let_def split: if_splits list.splits)
  have "length r \<le> length r4" unfolding 2(2) by (rule length_dropWhile_le)
  also have "\<dots> < length (d # r4)" by simp
  also have "\<dots> \<le> length ?r3" unfolding 2(1) [symmetric] by (rule length_dropWhile_le)
  also have "\<dots> \<le> length r1" using length_dropWhile_le le_trans by blast
  also have "\<dots> \<le> length arg" using length_dropWhile_le [of isidentifier arg] 1 by simp
  finally show ?thesis .
qed

function def_args :: "string option \<Rightarrow> string outcome" where
  "def_args next =
     (case next of
        None \<Rightarrow> Ret []
      | Some arg \<Rightarrow>
          (case def_parse_arg arg of
             Ret (type, name, rest) \<Rightarrow>
               (case def_args rest of
                  Ret t \<Rightarrow> Ret (''  '' @ type @ '' '' @ name @ '' = va_arg(_args, '' @ type @ '');'' @ nl @ t)
                | r \<Rightarrow> r)
           | Panic m \<Rightarrow> Panic m
           | Fault \<Rightarrow> Fault
           | Timeout \<Rightarrow> Timeout))"
  by pat_completeness auto
termination
  by (relation "measure (\<lambda>n. case n of None \<Rightarrow> 0 | Some r \<Rightarrow> Suc (length r))")
    (auto split: option.split dest: def_parse_arg_shorter)

declare def_args.simps [simp del]

definition method_header :: "string \<Rightarrow> string \<Rightarrow> string" where
  "method_header cls meth = ''object_t * '' @ cls @ ''_'' @ meth @ ''('' @ cls @ ''_t* self, va_list _args)''"

definition method_initializer :: "string \<Rightarrow> string \<Rightarrow> string" where
  "method_initializer cls meth =
     ''const co_method_initializer_t _'' @ cls @ ''_'' @ meth @ ''_co_init ''
     @ ''__attribute__((section('' @ quote @ ''.co.methods'' @ quote @ ''))) = {'' @ nl
     @ quote @ cls @ quote @ '', '' @ quote @ meth @ quote @ '', (method_t)'' @ cls @ ''_'' @ meth @ nl @ ''};'' @ nl"

definition first_arg :: "string \<Rightarrow> string option outcome" where
  "first_arg buffer =
     (case dropWhile (\<lambda>c. c \<noteq> CHR ''('') buffer of
        [] \<Rightarrow> Fault
      | _ # r \<Rightarrow>
          (let a = dropWhile isspace r
           in Ret (if a \<noteq> [] \<and> hd a = CHR '')'' then None else Some a)))"

definition def_process :: "char \<Rightarrow> coc \<Rightarrow> processed" where
  "def_process ch s =
     (if ch = CHR ''{'' then
        obind (def_parse_className (ahead_buffer s)) (\<lambda>cls.
          obind (def_parse_methodName (ahead_buffer s)) (\<lambda>meth.
            obind (first_arg (ahead_buffer s)) (\<lambda>next.
              obind (def_args next) (\<lambda>args.
                (let s1 = s\<lparr>currentClassName := Some cls\<rparr>;
                     t = method_header cls meth @ '';'' @ nl @ method_initializer cls meth
                         @ method_header cls meth @ '' {'' @ nl @ args @ ''#line '' @ dec (sint (lineno s - 1))
                 in Ret (BODY, [], reset_ahead (emit t s1)))))))
      else staying DEF (append_ahead ch s))"

definition def_change :: "coc \<Rightarrow> coc outcome" where
  "def_change s = Ret (s\<lparr>currentClassName := None\<rparr>)"

section \<open>Instance variables and messages\<close>

definition var_process :: "char \<Rightarrow> coc \<Rightarrow> processed" where
  "var_process ch s =
     (if ch = CHR ''('' then Ret (CALL, [], s)
      else if isseparator ch then
        (let t = (if ahead_buffer s \<noteq> ''return'' then receiver s @ ''->'' @ ahead_buffer s
                  else ''return (object_t*)'')
         in Ret (BODY, [], reset_ahead (emit (t @ [ch]) s)))
      else staying VAR (append_ahead ch s))"

definition var_change :: "coc \<Rightarrow> coc outcome" where
  "var_change s =
     (let r = (if ahead_buffer s = [] then ''self'' else ahead_buffer s)
      in if length r \<ge> 256 then Fault else Ret (reset_ahead (s\<lparr>receiver := r\<rparr>)))"

definition call_change :: "coc \<Rightarrow> coc outcome" where
  "call_change s =
     (let t = (if receiver s = ''super''
               then ''invokeSuper('' @ (case currentClassName s of None \<Rightarrow> ''(null)'' | Some c \<Rightarrow> c)
                    @ '', '' @ quote @ ahead_buffer s @ quote @ '', (object_t *)self ''
               else ''invoke('' @ quote @ ahead_buffer s @ quote @ '', (object_t *)'' @ receiver s @ '' '')
      in Ret (reset_ahead (emit t s)))"

definition call_process :: "char \<Rightarrow> coc \<Rightarrow> processed" where
  "call_process ch s =
     (let b = (if ch = CHR ''('' then balance s + 1 else if ch = CHR '')'' then balance s - 1 else balance s);
          s1 = s\<lparr>balance := b\<rparr>
      in if b = 0 then
           (let t = (if ahead_buffer s \<noteq> [] then '', '' else []) @ ahead_buffer s @ [ch]
            in Ret (BODY, [], (reset_ahead (emit t s1))\<lparr>balance := 1\<rparr>))
         else staying CALL (append_ahead ch s1))"

section \<open>Lines of the preprocessor\<close>

definition preproc_change :: "coc \<Rightarrow> coc outcome" where
  "preproc_change s = Ret (s\<lparr>preproc_inNumber := False\<rparr>)"

definition preproc_process :: "char \<Rightarrow> coc \<Rightarrow> processed" where
  "preproc_process ch s =
     (if \<not> preproc_inNumber s then
        obind (append_ahead ch s) (\<lambda>s1.
          Ret (PREPROC, [], if ch = CHR '' ''
                            then reset_ahead (emit (''#'' @ ahead_buffer s1) (s1\<lparr>preproc_inNumber := True\<rparr>))
                            else s1))
      else if isspace ch then
        (let n = word_of_int (atoi (ahead_buffer s)) :: u32
         in staying BODY (append_ahead ch (reset_ahead (emit (dec (sint n) @ [ch]) (s\<lparr>lineno := n\<rparr>)))))
      else staying PREPROC (append_ahead ch s))"

section \<open>coc_filter\<close>

fun coc_process :: "coc_mode \<Rightarrow> char \<Rightarrow> coc \<Rightarrow> processed" where
  "coc_process BODY = body_process"
| "coc_process ESCAPE = escape_process"
| "coc_process CLASS = class_process"
| "coc_process CLASSBODY = classbody_process"
| "coc_process DEF = def_process"
| "coc_process VAR = var_process"
| "coc_process CALL = call_process"
| "coc_process PREPROC = preproc_process"

fun coc_change :: "coc_mode \<Rightarrow> coc \<Rightarrow> coc outcome" where
  "coc_change BODY = Ret"
| "coc_change ESCAPE = Ret"
| "coc_change CLASS = Ret"
| "coc_change CLASSBODY = classbody_change"
| "coc_change DEF = def_change"
| "coc_change VAR = var_change"
| "coc_change CALL = call_change"
| "coc_change PREPROC = preproc_change"

text \<open>One round of the loop: the mode, what is put back and the state afterwards.\<close>

definition coc_round :: "coc_mode \<Rightarrow> char \<Rightarrow> coc \<Rightarrow> processed" where
  "coc_round mode ch s =
     obind (coc_process mode ch (if ch = line_feed then s\<lparr>lineno := lineno s + 1\<rparr> else s)) (\<lambda>(mode', back, s1).
       obind (if mode' \<noteq> mode then coc_change mode' s1 else Ret s1) (\<lambda>s2. Ret (mode', back, s2)))"

text \<open>Only the round that leaves ESCAPE for VAR puts a character back, so the loop ends.\<close>

lemma staying_Ret: "staying mode r = Ret (mode', back, s) \<Longrightarrow> mode' = mode \<and> back = []"
  by (auto simp: staying_def)

lemma coc_process_back:
  "coc_process mode ch s = Ret (mode', back, s') \<Longrightarrow> back = [] \<or> mode = ESCAPE \<and> mode' = VAR \<and> back = [ch]"
  by (cases mode)
    (auto simp: body_process_def escape_process_def class_process_def classbody_process_def def_process_def
      var_process_def call_process_def preproc_process_def Let_def split: if_splits dest: staying_Ret)

lemma coc_round_back:
  "coc_round mode ch s = Ret (mode', back, s') \<Longrightarrow> back = [] \<or> mode = ESCAPE \<and> mode' = VAR \<and> back = [ch]"
  unfolding coc_round_def by (auto dest!: coc_process_back)

function coc_loop :: "coc_mode \<Rightarrow> string \<Rightarrow> coc \<Rightarrow> (coc_mode \<times> coc) outcome" where
  "coc_loop mode [] s = Ret (mode, s)"
| "coc_loop mode (ch # inp) s =
     (case coc_round mode ch s of
        Ret (mode', back, s') \<Rightarrow> coc_loop mode' (back @ inp) s'
      | Panic m \<Rightarrow> Panic m
      | Fault \<Rightarrow> Fault
      | Timeout \<Rightarrow> Timeout)"
  by pat_completeness auto
termination
  by (relation "measure (\<lambda>(mode, inp, s). 2 * length inp + (if mode = ESCAPE then 1 else 0))")
    (auto dest!: coc_round_back)

definition generated_comment :: string where
  "generated_comment = ''#include <stdarg.h> /** this file is generated by coc */'' @ nl"

definition initial_coc :: "nat avl_heap \<Rightarrow> coc" where
  "initial_coc h = \<lparr>out = [], lineno = 0, ahead_buffer = [], className = [], superclassName = [], entries = [],
     classCacheRoot = h\<lparr>avl_root := None\<rparr>, class_body_buffer = [], currentClassName = None, receiver = [],
     balance = 1, preproc_inNumber = False\<rparr>"

text \<open>The translation of the text cpp produces, on a heap h: what is written to the output file.\<close>

definition coc_filter :: "nat avl_heap \<Rightarrow> string \<Rightarrow> string outcome" where
  "coc_filter h cpp_text =
     obind (coc_loop BODY cpp_text (emit generated_comment (initial_coc h))) (\<lambda>(mode, s). Ret (out s))"

end
