(* ===== verification/Coc_Props.thy ===== *)
theory Coc_Props
  imports Coc
begin

text \<open>
  What coc makes of a source: text without its two special characters comes out as it went in,
  a message becomes a call of invoke, a method a function that takes its arguments from a
  va_list, and a class a structure that begins with the fields of its superclasses.
\<close>

lemmas coc_steps = coc_round_def staying_def append_ahead_def append_char_def emit_def reset_ahead_def

section \<open>Running text\<close>

definition plain :: "char \<Rightarrow> bool" where
  "plain ch \<longleftrightarrow> ch \<noteq> CHR ''@'' \<and> ch \<noteq> CHR ''#'' \<and> ch \<noteq> CHR 0x00"

fun words_fit :: "nat \<Rightarrow> string \<Rightarrow> bool" where
  "words_fit n [] \<longleftrightarrow> True"
| "words_fit n (c # cs) \<longleftrightarrow> (if isseparator c then words_fit 0 cs else n + 1 < BUFFER_SIZE \<and> words_fit (n + 1) cs)"

fun flushed :: "string \<Rightarrow> string \<Rightarrow> string" where
  "flushed a [] = []"
| "flushed a (c # cs) = (if isseparator c then a @ c # flushed [] cs else flushed (a @ [c]) cs)"

fun pending :: "string \<Rightarrow> string \<Rightarrow> string" where
  "pending a [] = a"
| "pending a (c # cs) = (if isseparator c then pending [] cs else pending (a @ [c]) cs)"

lemma flushed_pending: "flushed a t @ pending a t = a @ t"
  by (induction t arbitrary: a) auto

lemma pending_separator: "t \<noteq> [] \<Longrightarrow> isseparator (last t) \<Longrightarrow> pending a t = []"
proof (induction t arbitrary: a)
  case (Cons c cs)
  then show ?case by (cases cs) auto
qed simp

text \<open>The line counter after a text.\<close>

definition lines_in :: "string \<Rightarrow> u32" where
  "lines_in t = of_nat (length (filter (\<lambda>c. c = line_feed) t))"

lemma lines_in_simps [simp]:
  "lines_in [] = 0" "lines_in (c # t) = (if c = line_feed then 1 else 0) + lines_in t"
  "lines_in (t @ u) = lines_in t + lines_in u"
  by (simp_all add: lines_in_def)

definition counted :: "string \<Rightarrow> coc \<Rightarrow> coc" where
  "counted t s = s\<lparr>lineno := lineno s + lines_in t\<rparr>"

lemma separators [simp]:
  "isseparator (CHR ''('')" "isseparator (CHR '')'')" "isseparator (CHR ''+'')" "isseparator (CHR ''-'')"
  "isseparator (CHR '' '')" "isseparator (CHR ''{'')"
  by (simp_all add: isseparator_def)

lemma newline_separator: "isseparator line_feed" "\<not> isseparator (CHR ''@'')" "\<not> isseparator (CHR ''#'')"
  "isseparator (CHR 0x00)"
  by (simp_all add: isseparator_def nl_def line_feed_def quote_def)

lemma body_run:
  assumes "list_all plain t" "words_fit (length (ahead_buffer s)) t"
  shows "coc_loop BODY (t @ rest) s =
    coc_loop BODY rest (counted t (s\<lparr>out := out s @ flushed (ahead_buffer s) t, ahead_buffer := pending (ahead_buffer s) t\<rparr>))"
  using assms
proof (induction t arbitrary: s)
  case Nil
  then show ?case by (simp add: counted_def)
next
  case (Cons c cs)
  have p: "c \<noteq> CHR ''@''" "c \<noteq> CHR ''#''" "c \<noteq> CHR 0x00" using Cons.prems(1) by (simp_all add: plain_def)
  show ?case
  proof (cases "isseparator c")
    case True
    then show ?thesis using Cons.prems p
      by (simp add: coc_steps body_process_def Cons.IH counted_def add.assoc)
  next
    case False
    then have "c \<noteq> line_feed" using newline_separator by auto
    then show ?thesis using Cons.prems p False
      by (simp add: coc_steps body_process_def Cons.IH counted_def)
  qed
qed

text \<open>A source without the characters at sign and number sign, whose words fit the buffer and
  whose last character is a separator, such as a newline, is written out exactly as it is.\<close>
lemma coc_filter_copies_plain_text:
  assumes "list_all plain t" "words_fit 0 t" "t = [] \<or> isseparator (last t)"
  shows "coc_filter h t = Ret (generated_comment @ t)"
proof -
  let ?s = "emit generated_comment (initial_coc h)"
  have a: "ahead_buffer ?s = []" "out ?s = generated_comment" by (simp_all add: emit_def initial_coc_def)
  have "pending [] t = []" using assms(3) pending_separator by (cases "t = []") auto
  then have "flushed [] t = t" using flushed_pending [of "[]" t] by simp
  then show ?thesis
    using body_run [OF assms(1), of ?s "[]"] assms(2) by (simp add: coc_filter_def a counted_def)
qed

theorem coc_filter_copies_plain_text_witness:
  "\<forall>h. coc_filter h (''int x = f(3);'' @ nl) = Ret (generated_comment @ ''int x = f(3);'' @ nl)"
proof -
  have "list_all plain (''int x = f(3);'' @ nl)" "words_fit 0 (''int x = f(3);'' @ nl)"
    "isseparator (last (''int x = f(3);'' @ nl))" by code_simp+
  then show ?thesis using coc_filter_copies_plain_text by blast
qed

section \<open>Messages and instance variables\<close>

text \<open>A word: no separator, no special character and no byte 0xFF.\<close>

definition word_text :: "string \<Rightarrow> bool" where
  "word_text w \<longleftrightarrow> list_all (\<lambda>c. plain c \<and> \<not> isseparator c \<and> c \<noteq> CHR 0xFF) w"

lemma word_pending: "word_text w \<Longrightarrow> pending a w = a @ w \<and> flushed a w = [] \<and> lines_in w = 0"
  by (induction w arbitrary: a) (auto simp: word_text_def newline_separator)

lemma word_fits: "word_text w \<Longrightarrow> n + length w < BUFFER_SIZE \<Longrightarrow> words_fit n w"
  by (induction w arbitrary: n) (auto simp: word_text_def)

lemma body_word:
  assumes "word_text w" "length (ahead_buffer s) + length w < BUFFER_SIZE"
  shows "coc_loop BODY (w @ rest) s = coc_loop BODY rest (s\<lparr>ahead_buffer := ahead_buffer s @ w\<rparr>)"
proof -
  have "list_all plain w" using assms(1) by (induction w) (auto simp: word_text_def)
  from body_run [OF this, of s rest] word_fits [OF assms] word_pending [OF assms(1)]
  show ?thesis by (simp add: counted_def)
qed

lemma var_word:
  "word_text w \<Longrightarrow> length (ahead_buffer s) + length w < BUFFER_SIZE \<Longrightarrow>
   coc_loop VAR (w @ rest) s = coc_loop VAR rest (s\<lparr>ahead_buffer := ahead_buffer s @ w\<rparr>)"
proof (induction w arbitrary: s)
  case (Cons c cs)
  then have "c \<noteq> line_feed" "c \<noteq> CHR 0x00" "\<not> isseparator c" "c \<noteq> CHR ''(''"
    using newline_separator by (auto simp: word_text_def plain_def isseparator_def)
  then show ?case using Cons by (simp add: coc_steps var_process_def word_text_def)
qed simp

text \<open>From the at sign on: the receiver is the word before it.\<close>

definition received :: "string \<Rightarrow> string" where
  "received recv = (if recv = [] then ''self'' else recv)"

lemma escape_to_var:
  assumes "inp \<noteq> []" "hd inp \<noteq> CHR ''+''" "hd inp \<noteq> CHR ''-''" "hd inp \<noteq> CHR 0xFF" "length (ahead_buffer s) < 256"
  shows "coc_loop BODY (CHR ''@'' # inp) s =
    coc_loop VAR inp (s\<lparr>receiver := received (ahead_buffer s), ahead_buffer := [],
      lineno := lineno s + lines_in [hd inp]\<rparr>)"
  using assms
  by (cases inp)
    (auto simp: coc_steps body_process_def escape_process_def var_change_def received_def line_feed_def)

fun nested :: "int \<Rightarrow> string \<Rightarrow> bool" where
  "nested d [] \<longleftrightarrow> d = 1"
| "nested d (c # cs) \<longleftrightarrow>
     (let e = (if c = CHR ''('' then d + 1 else if c = CHR '')'' then d - 1 else d) in 0 < e \<and> nested e cs)"

lemma counted_same [simp]:
  "out (counted t s) = out s" "ahead_buffer (counted t s) = ahead_buffer s" "balance (counted t s) = balance s"
  "lineno (counted t s) = lineno s + lines_in t" "receiver (counted t s) = receiver s"
  "currentClassName (counted t s) = currentClassName s"
  by (simp_all add: counted_def)

lemma coc_round_counted:
  "coc_round mode ch s = obind (coc_process mode ch (counted [ch] s)) (\<lambda>(mode', back, s1).
     obind (if mode' \<noteq> mode then coc_change mode' s1 else Ret s1) (\<lambda>s2. Ret (mode', back, s2)))"
  by (simp add: coc_round_def counted_def)

definition deeper :: "char \<Rightarrow> int \<Rightarrow> int" where
  "deeper c d = (if c = CHR ''('' then d + 1 else if c = CHR '')'' then d - 1 else d)"

lemma call_step:
  assumes "deeper c (balance s) > 0" "c \<noteq> CHR 0x00" "length (ahead_buffer s) + 1 < BUFFER_SIZE"
  shows "coc_round CALL c s =
    Ret (CALL, [], counted [c] (s\<lparr>ahead_buffer := ahead_buffer s @ [c], balance := deeper c (balance s)\<rparr>))"
  using assms
  by (cases s) (simp add: coc_round_counted call_process_def deeper_def [symmetric] staying_def append_ahead_def
    append_char_def counted_def)

lemma call_arguments:
  "nested (balance s) args \<Longrightarrow> list_all (\<lambda>c. c \<noteq> CHR 0x00) args \<Longrightarrow>
   length (ahead_buffer s) + length args < BUFFER_SIZE \<Longrightarrow>
   coc_loop CALL (args @ CHR '')'' # rest) s =
   coc_loop BODY rest (counted args (s\<lparr>out := out s @ (if ahead_buffer s @ args \<noteq> [] then '', '' else [])
     @ ahead_buffer s @ args @ '')'', ahead_buffer := [], balance := 1\<rparr>))"
proof (induction args arbitrary: s)
  case Nil
  then show ?case by (simp add: coc_steps call_process_def counted_def line_feed_def Let_def)
next
  case (Cons c cs)
  let ?s = "counted [c] (s\<lparr>ahead_buffer := ahead_buffer s @ [c], balance := deeper c (balance s)\<rparr>)"
  have "coc_round CALL c s = Ret (CALL, [], ?s)"
    using Cons.prems by (intro call_step) (simp_all add: deeper_def Let_def)
  then have "coc_loop CALL ((c # cs) @ CHR '')'' # rest) s = coc_loop CALL (cs @ CHR '')'' # rest) ?s" by simp
  moreover have "nested (balance ?s) cs" using Cons.prems(1) by (simp add: deeper_def Let_def)
  ultimately show ?case using Cons.prems Cons.IH [of ?s]
    by (cases s) (simp add: counted_def add.assoc)
qed

definition message_head :: "string option \<Rightarrow> string \<Rightarrow> string \<Rightarrow> string" where
  "message_head cls recv sel =
     (if recv = ''super''
      then ''invokeSuper('' @ (case cls of None \<Rightarrow> ''(null)'' | Some c \<Rightarrow> c) @ '', '' @ quote @ sel @ quote
           @ '', (object_t *)self ''
      else ''invoke('' @ quote @ sel @ quote @ '', (object_t *)'' @ received recv @ '' '')"

definition message_text :: "string option \<Rightarrow> string \<Rightarrow> string \<Rightarrow> string \<Rightarrow> string" where
  "message_text cls recv sel args = message_head cls recv sel @ (if args \<noteq> [] then '', '' else []) @ args @ '')''"

definition variable_text :: "string \<Rightarrow> string \<Rightarrow> char \<Rightarrow> string" where
  "variable_text recv name ch =
     (if name = ''return'' then ''return (object_t*)'' else received recv @ ''->'' @ name) @ [ch]"

lemma word_head:
  assumes "word_text w" "isseparator c" "c \<noteq> CHR ''+''" "c \<noteq> CHR ''-''" "c \<noteq> line_feed"
  shows "w @ c # u \<noteq> []" "hd (w @ c # u) \<noteq> CHR ''+''" "hd (w @ c # u) \<noteq> CHR ''-''" "hd (w @ c # u) \<noteq> CHR 0xFF" "lines_in [hd (w @ c # u)] = 0"
proof -
  obtain d ds where d: "w @ c # u = d # ds" "d = c \<or> \<not> isseparator d \<and> d \<noteq> CHR 0xFF"
    using assms(1) by (cases w) (auto simp: word_text_def)
  have "\<not> isseparator (CHR 0xFF)" by (simp add: isseparator_def nl_def line_feed_def quote_def)
  then have "d \<noteq> CHR ''+''" "d \<noteq> CHR ''-''" "d \<noteq> CHR 0xFF" "d \<noteq> line_feed"
    using d(2) assms(2-5) newline_separator(1) by (metis separators(3,4))+
  then show "w @ c # u \<noteq> []" "hd (w @ c # u) \<noteq> CHR ''+''" "hd (w @ c # u) \<noteq> CHR ''-''" "hd (w @ c # u) \<noteq> CHR 0xFF"
    "lines_in [hd (w @ c # u)] = 0"
    unfolding d(1) by simp_all
qed

lemma message_run:
  assumes "ahead_buffer s = []" "balance s = 1" "word_text recv" "length recv < 256" "word_text sel"
    and "length sel < BUFFER_SIZE" "nested 1 args" "list_all (\<lambda>c. c \<noteq> CHR 0x00) args" "length args < BUFFER_SIZE"
  shows "coc_loop BODY (recv @ CHR ''@'' # sel @ CHR ''('' # args @ CHR '')'' # rest) s =
    coc_loop BODY rest (counted args (s\<lparr>out := out s @ message_text (currentClassName s) recv sel args,
      receiver := received recv\<rparr>))"
proof -
  let ?t = "sel @ CHR ''('' # args @ CHR '')'' # rest"
  have sep: "isseparator (CHR ''('')" by (simp add: isseparator_def)
  have "coc_loop BODY (recv @ CHR ''@'' # ?t) s = coc_loop BODY (CHR ''@'' # ?t) (s\<lparr>ahead_buffer := recv\<rparr>)"
    using body_word [OF assms(3), of s "CHR ''@'' # ?t"] assms(1,4) by (simp add: BUFFER_SIZE_def)
  also have "\<dots> = coc_loop VAR ?t (s\<lparr>ahead_buffer := [], receiver := received recv\<rparr>)"
    using escape_to_var [of ?t "s\<lparr>ahead_buffer := recv\<rparr>"] assms(4)
      word_head [OF assms(5) sep, of "args @ CHR '')'' # rest"] by (cases s) (simp add: line_feed_def del: coc_loop.simps)
  also have "\<dots> = coc_loop VAR (CHR ''('' # args @ CHR '')'' # rest) (s\<lparr>ahead_buffer := sel, receiver := received recv\<rparr>)"
    using var_word [OF assms(5), of "s\<lparr>ahead_buffer := [], receiver := received recv\<rparr>"] assms(6)
    by (cases s) (simp del: coc_loop.simps)
  also have "\<dots> = coc_loop CALL (args @ CHR '')'' # rest) (s\<lparr>out := out s @ message_head (currentClassName s) recv sel,
      ahead_buffer := [], receiver := received recv\<rparr>)"
    by (cases s) (simp add: coc_steps var_process_def call_change_def message_head_def received_def line_feed_def)
  also have "\<dots> = coc_loop BODY rest (counted args (s\<lparr>out := out s @ message_text (currentClassName s) recv sel args,
      receiver := received recv\<rparr>))"
    using call_arguments [of "s\<lparr>out := out s @ message_head (currentClassName s) recv sel,
      ahead_buffer := [], receiver := received recv\<rparr>" args rest] assms
    by (cases s) (simp add: message_text_def counted_def)
  finally show ?thesis .
qed

lemma variable_run:
  assumes "ahead_buffer s = []" "word_text recv" "length recv < 256" "word_text name" "length name < BUFFER_SIZE"
    and "isseparator ch" "ch \<notin> {CHR ''('', CHR ''+'', CHR ''-'', line_feed}"
  shows "coc_loop BODY (recv @ CHR ''@'' # name @ ch # rest) s =
    coc_loop BODY rest (s\<lparr>out := out s @ variable_text recv name ch, receiver := received recv\<rparr>)"
proof -
  have "coc_loop BODY (recv @ CHR ''@'' # name @ ch # rest) s =
      coc_loop BODY (CHR ''@'' # name @ ch # rest) (s\<lparr>ahead_buffer := recv\<rparr>)"
    using body_word [OF assms(2), of s "CHR ''@'' # name @ ch # rest"] assms(1,3) by (simp add: BUFFER_SIZE_def)
  also have "\<dots> = coc_loop VAR (name @ ch # rest) (s\<lparr>ahead_buffer := [], receiver := received recv\<rparr>)"
    using escape_to_var [of "name @ ch # rest" "s\<lparr>ahead_buffer := recv\<rparr>"] assms(3,7)
      word_head [OF assms(4,6), of rest] by (cases s) (simp del: coc_loop.simps)
  also have "\<dots> = coc_loop VAR (ch # rest) (s\<lparr>ahead_buffer := name, receiver := received recv\<rparr>)"
    using var_word [OF assms(4), of "s\<lparr>ahead_buffer := [], receiver := received recv\<rparr>"] assms(5)
    by (cases s) (simp del: coc_loop.simps)
  also have "\<dots> = coc_loop BODY rest (s\<lparr>out := out s @ variable_text recv name ch, receiver := received recv\<rparr>)"
    using assms(1,6,7) by (cases s) (auto simp: coc_steps var_process_def variable_text_def)
  finally show ?thesis .
qed

text \<open>C15: a message recv@sel(args) becomes a call of invoke with the selector, the receiver (self
  when there is none) and the arguments, or of invokeSuper with the class of the method when the
  receiver is super; recv@name not followed by a parenthesis becomes the field of the receiver,
  and @return casts what it returns.\<close>
theorem messages_become_invocations:
  assumes "ahead_buffer s = []" "balance s = 1" "word_text recv" "length recv < 256" "word_text sel"
    and "length sel < BUFFER_SIZE"
  shows "(list_all (\<lambda>c. c \<noteq> CHR 0x00) args \<and> nested 1 args \<and> length args < BUFFER_SIZE \<longrightarrow>
      coc_loop BODY (recv @ CHR ''@'' # sel @ CHR ''('' # args @ CHR '')'' # rest) s =
      coc_loop BODY rest (counted args (s\<lparr>out := out s @ message_text (currentClassName s) recv sel args,
        receiver := received recv\<rparr>))) \<and>
    (isseparator ch \<and> ch \<notin> {CHR ''('', CHR ''+'', CHR ''-'', line_feed} \<longrightarrow>
      coc_loop BODY (recv @ CHR ''@'' # sel @ ch # rest) s =
      coc_loop BODY rest (s\<lparr>out := out s @ variable_text recv sel ch, receiver := received recv\<rparr>))"
  using message_run [OF assms(1-6)] variable_run [OF assms(1,3-6)] by blast

end
