(* ===== verification/Coc_Methods.thy ===== *)
theory Coc_Methods
  imports Coc_Props "HOL-Library.Sublist"
begin

text \<open>The translation of method definitions: the header, the initializer and the arguments.\<close>

section \<open>Methods\<close>

text \<open>A parameter is a type, written as one word and at least one blank or star, and a name; white
  space, also a line break, may stand before it.\<close>

record parameter =
  p_space :: string
  p_word :: string
  p_stars :: string
  p_name :: string

definition parameter_ok :: "parameter \<Rightarrow> bool" where
  "parameter_ok p \<longleftrightarrow> list_all isspace (p_space p) \<and> p_word p \<noteq> [] \<and> list_all isidentifier (p_word p) \<and> p_stars p \<noteq> [] \<and>
     list_all isptrdecl (p_stars p) \<and> list_all isalnum (p_name p) \<and>
     length (p_word p) + length (p_stars p) < 512 \<and> length (p_name p) < 512"

definition parameter_text :: "parameter \<Rightarrow> string" where
  "parameter_text p = p_word p @ p_stars p @ p_name p"

fun parameters_text :: "parameter list \<Rightarrow> string" where
  "parameters_text [] = []"
| "parameters_text [p] = p_space p @ parameter_text p"
| "parameters_text (p # q # ps) = p_space p @ parameter_text p @ '','' @ parameters_text (q # ps)"

definition declaration_text :: "parameter \<Rightarrow> string" where
  "declaration_text p = (let type = p_word p @ p_stars p
     in ''  '' @ type @ '' '' @ p_name p @ '' = va_arg(_args, '' @ type @ '');'' @ nl)"

lemma character_classes [simp]:
  "\<not> isidentifier (CHR '' '')" "\<not> isidentifier (CHR ''*'')" "\<not> isalnum (CHR '','')" "\<not> isalnum (CHR '')'')"
  "isspace (CHR '' '')" "\<not> isspace (CHR ''('')" "\<not> isptrdecl (CHR '','')" "\<not> isptrdecl (CHR '')'')"
  by (simp_all add: isidentifier_def isalnum_def isspace_def isptrdecl_def less_eq_char_def)

lemma isidentifier_not_space: "isidentifier c \<Longrightarrow> \<not> isspace c"
  by (auto simp: isidentifier_def isalnum_def isspace_def less_eq_char_def)

lemma isalnum_not_ptr: "isalnum c \<Longrightarrow> \<not> isptrdecl c"
  by (auto simp: isptrdecl_def isalnum_def less_eq_char_def)

lemma isptr_not_identifier: "isptrdecl c \<Longrightarrow> \<not> isidentifier c"
  by (auto simp: isptrdecl_def)

lemma dropWhile_all_then: "list_all P xs \<Longrightarrow> \<not> P y \<Longrightarrow> dropWhile P (xs @ y # ys) = y # ys"
  by (induction xs) auto

lemma takeWhile_all_then: "list_all P xs \<Longrightarrow> \<not> P y \<Longrightarrow> takeWhile P (xs @ y # ys) = xs"
  by (induction xs) auto

lemma parse_parameter:
  assumes "parameter_ok p" "d = CHR '','' \<or> d = CHR '')''"
  shows "def_parse_arg (parameter_text p @ d # r) =
    Ret (p_word p @ p_stars p, p_name p, if d = CHR '')'' then None else Some (dropWhile isspace r))"
proof -
  obtain x xs where st: "p_stars p = x # xs" "isptrdecl x" "list_all isptrdecl xs"
    using assms(1) by (cases "p_stars p") (auto simp: parameter_ok_def)
  have d: "\<not> isalnum d" "\<not> isptrdecl d" using assms(2) by auto
  have 1: "dropWhile isidentifier (parameter_text p @ d # r) = x # xs @ p_name p @ d # r"
    using assms(1) st by (simp add: parameter_text_def parameter_ok_def dropWhile_all_then isptr_not_identifier)
  obtain y ys where y: "p_name p @ d # r = y # ys" "\<not> isptrdecl y"
    using assms(1) d by (cases "p_name p") (auto simp: parameter_ok_def isalnum_not_ptr)
  have 2: "dropWhile isptrdecl (xs @ p_name p @ d # r) = p_name p @ d # r"
    unfolding y(1) using dropWhile_all_then [OF st(3) y(2)] .
  have "list_all isalnum (p_name p)" using assms(1) by (simp add: parameter_ok_def)
  then have 3: "takeWhile isalnum (p_name p @ d # r) = p_name p" "dropWhile isalnum (p_name p @ d # r) = d # r"
    using d(1) by (simp_all add: takeWhile_all_then dropWhile_all_then)
  have 4: "take (length (parameter_text p @ d # r) - length (p_name p @ d # r)) (parameter_text p @ d # r) =
      p_word p @ p_stars p"
    by (simp add: parameter_text_def)
  have 5: "dropWhile (\<lambda>c. c \<noteq> CHR '','' \<and> c \<noteq> CHR '')'') (d # r) = d # r" using assms(2) by auto
  show ?thesis unfolding def_parse_arg_def 1 list.case Let_def 2 3 4 5 using assms(1)
    by (auto simp: parameter_ok_def)
qed

text \<open>The text of the parameters behind the white space before the first one.\<close>

fun arguments_text :: "parameter list \<Rightarrow> string" where
  "arguments_text [] = []"
| "arguments_text [p] = parameter_text p"
| "arguments_text (p # q # ps) = parameter_text p @ '','' @ parameters_text (q # ps)"

lemma parameters_arguments: "parameters_text (p # ps) = p_space p @ arguments_text (p # ps)"
  by (cases ps) simp_all

lemma dropWhile_all_append: "list_all P xs \<Longrightarrow> dropWhile P (xs @ ys) = dropWhile P ys"
  by (induction xs) auto

lemma arguments_head:
  assumes "parameter_ok p"
  shows "\<exists>c cs. arguments_text (p # ps) @ u = c # cs \<and> isidentifier c"
  using assms by (cases ps; cases "p_word p") (auto simp: parameter_ok_def parameter_text_def)

lemma parameters_head:
  assumes "parameter_ok p"
  shows "dropWhile isspace (parameters_text (p # ps) @ u) = arguments_text (p # ps) @ u"
proof -
  obtain c cs where c: "arguments_text (p # ps) @ u = c # cs" "isidentifier c" using arguments_head [OF assms] by blast
  have "list_all isspace (p_space p)" using assms by (simp add: parameter_ok_def)
  then have "dropWhile isspace (parameters_text (p # ps) @ u) = dropWhile isspace (arguments_text (p # ps) @ u)"
    unfolding parameters_arguments append_assoc by (rule dropWhile_all_append)
  then show ?thesis unfolding c(1) using isidentifier_not_space [OF c(2)] by simp
qed

lemma def_args_step:
  assumes "def_parse_arg a = Ret (type, name, rest)" "def_args rest = Ret t"
  shows "def_args (Some a) = Ret (''  '' @ type @ '' '' @ name @ '' = va_arg(_args, '' @ type @ '');'' @ nl @ t)"
  by (subst def_args.simps) (simp only: option.case assms outcome.case prod.case)

lemma def_args_parameters:
  "list_all parameter_ok (p # ps) \<Longrightarrow>
   def_args (Some (arguments_text (p # ps) @ CHR '')'' # u)) = Ret (concat (map declaration_text (p # ps)))"
proof (induction ps arbitrary: p)
  case Nil
  then have "def_parse_arg (arguments_text [p] @ CHR '')'' # u) = Ret (p_word p @ p_stars p, p_name p, None)"
    using parse_parameter [of p "CHR '')''" u] by simp
  moreover have "def_args None = Ret []" by (subst def_args.simps) simp
  ultimately show ?case by (subst def_args_step) (auto simp: declaration_text_def Let_def)
next
  case (Cons q qs)
  have "arguments_text (p # q # qs) @ CHR '')'' # u =
      parameter_text p @ CHR '','' # parameters_text (q # qs) @ CHR '')'' # u" by simp
  then have "def_parse_arg (arguments_text (p # q # qs) @ CHR '')'' # u) =
      Ret (p_word p @ p_stars p, p_name p, Some (arguments_text (q # qs) @ CHR '')'' # u))"
    using parse_parameter [of p "CHR '',''" "parameters_text (q # qs) @ CHR '')'' # u"]
      parameters_head [of q qs "CHR '')'' # u"] Cons.prems by simp
  moreover have "def_args (Some (arguments_text (q # qs) @ CHR '')'' # u)) = Ret (concat (map declaration_text (q # qs)))"
    using Cons by simp
  ultimately show ?case
    unfolding def_args_step [OF \<open>def_parse_arg _ = _\<close> \<open>def_args _ = _\<close>] by (simp add: declaration_text_def [of p] Let_def)
qed

lemma first_argument:
  assumes "list_all parameter_ok ps" "CHR ''('' \<notin> set pre"
  shows "obind (first_arg (pre @ CHR ''('' # parameters_text ps @ CHR '')'' # u)) def_args =
    Ret (concat (map declaration_text ps))"
proof -
  have d: "dropWhile (\<lambda>c. c \<noteq> CHR ''('') (pre @ CHR ''('' # v) = CHR ''('' # v" for v
    using assms(2) by (induction pre) auto
  show ?thesis
  proof (cases ps)
    case Nil
    then show ?thesis by (simp add: first_arg_def d isspace_def) (subst def_args.simps, simp)
  next
    case (Cons p qs)
    then have ok: "list_all parameter_ok (p # qs)" using assms(1) by simp
    then have "parameter_ok p" by simp
    then obtain c cs where c: "arguments_text (p # qs) @ CHR '')'' # u = c # cs" "isidentifier c"
      using arguments_head [of p qs "CHR '')'' # u"] by blast
    then have "c \<noteq> CHR '')''" by (auto simp: isidentifier_def)
    moreover have "dropWhile isspace (parameters_text (p # qs) @ CHR '')'' # u) = c # cs"
      using ok parameters_head [of p qs "CHR '')'' # u"] c(1) by simp
    ultimately have "first_arg (pre @ CHR ''('' # parameters_text ps @ CHR '')'' # u) =
        Ret (Some (arguments_text (p # qs) @ CHR '')'' # u))"
      unfolding first_arg_def d Cons c(1) by simp
    then show ?thesis using def_args_parameters [OF ok] by (simp add: Cons)
  qed
qed

definition method_text :: "string \<Rightarrow> string \<Rightarrow> parameter list \<Rightarrow> u32 \<Rightarrow> string" where
  "method_text cls meth ps line =
     method_header cls meth @ '';'' @ nl @ method_initializer cls meth @ method_header cls meth @ '' {'' @ nl
     @ concat (map declaration_text ps) @ ''#line '' @ dec (sint line)"

definition header_char :: "char \<Rightarrow> bool" where
  "header_char c \<longleftrightarrow> c \<noteq> CHR ''{'' \<and> c \<noteq> CHR 0x00"

lemma header_chars:
  "isalnum c \<Longrightarrow> header_char c" "isidentifier c \<Longrightarrow> header_char c" "isptrdecl c \<Longrightarrow> header_char c"
  "isspace c \<Longrightarrow> header_char c"
proof -
  show a: "isalnum c \<Longrightarrow> header_char c" for c by (auto simp: isalnum_def header_char_def less_eq_char_def)
  then show "isidentifier c \<Longrightarrow> header_char c" by (auto simp: isidentifier_def header_char_def)
  show "isptrdecl c \<Longrightarrow> header_char c" by (auto simp: isptrdecl_def header_char_def)
  show "isspace c \<Longrightarrow> header_char c" by (auto simp: isspace_def header_char_def)
qed

lemma parameter_chars: "parameter_ok p \<Longrightarrow> list_all header_char (p_space p @ parameter_text p)"
  by (auto simp: parameter_ok_def parameter_text_def list_all_iff dest: header_chars)

lemma parameters_chars: "list_all parameter_ok ps \<Longrightarrow> list_all header_char (parameters_text ps)"
proof (induction ps rule: parameters_text.induct)
  case (3 p q ps)
  then show ?case using parameter_chars [of p] by (simp add: header_char_def [of "CHR '',''"])
qed (use parameter_chars in auto)

lemma def_copies:
  "list_all header_char t \<Longrightarrow> length (ahead_buffer s) + length t < BUFFER_SIZE \<Longrightarrow>
   coc_loop DEF (t @ rest) s = coc_loop DEF rest (counted t (s\<lparr>ahead_buffer := ahead_buffer s @ t\<rparr>))"
proof (induction t arbitrary: s)
  case Nil
  then show ?case by (simp add: counted_def)
next
  case (Cons c cs)
  then show ?case by (simp add: header_char_def coc_steps def_process_def counted_def add.assoc)
qed

lemma alnum_lines: "list_all isalnum t \<Longrightarrow> lines_in t = 0"
  by (induction t) (auto simp: isalnum_def line_feed_def less_eq_char_def)

lemma method_run:
  assumes "ahead_buffer s = []" "list_all isalnum cls" "list_all isalnum meth" "list_all parameter_ok ps"
    and "list_all isspace u"
    and "length (cls @ ''@'' @ meth @ ''('' @ parameters_text ps @ '')'' @ u) < 256"
  shows "coc_loop BODY (''@-'' @ cls @ ''@'' @ meth @ ''('' @ parameters_text ps @ '')'' @ u @ ''{'' @ rest) s =
    coc_loop BODY rest (counted (parameters_text ps @ u) (s\<lparr>out := out s
      @ method_text cls meth ps (lineno s + lines_in (parameters_text ps @ u) - 1), currentClassName := Some cls\<rparr>))"
proof -
  let ?h = "cls @ CHR ''@'' # meth @ CHR ''('' # parameters_text ps @ CHR '')'' # u"
  let ?s = "counted ?h (s\<lparr>currentClassName := None, ahead_buffer := ?h\<rparr>)"
  have 1: "coc_loop BODY (''@-'' @ ?h @ ''{'' @ rest) s = coc_loop DEF (?h @ ''{'' @ rest) (s\<lparr>currentClassName := None\<rparr>)"
    using assms(1) by (cases s) (simp add: coc_steps body_process_def escape_process_def def_change_def line_feed_def)
  have al: "list_all header_char cls" "list_all header_char meth" "list_all header_char u"
    using assms(2,3,5) header_chars(1,4) list.pred_mono_strong by metis+
  have 2: "coc_loop DEF (?h @ ''{'' @ rest) (s\<lparr>currentClassName := None\<rparr>) = coc_loop DEF (''{'' @ rest) ?s"
    using def_copies [of ?h "s\<lparr>currentClassName := None\<rparr>" "''{'' @ rest"] al parameters_chars [OF assms(4)] assms(1,6)
    by (cases s) (auto simp: header_char_def BUFFER_SIZE_def simp del: coc_loop.simps)
  have at: "CHR ''@'' \<notin> set cls" "CHR ''('' \<notin> set meth" "CHR ''('' \<notin> set cls"
    using assms(2,3) by (auto simp: list_all_iff isalnum_def less_eq_char_def)
  have tw: "takeWhile (\<lambda>c. c \<noteq> y) (t @ y # v) = t" "dropWhile (\<lambda>c. c \<noteq> y) (t @ y # v) = y # v"
    if "y \<notin> set t" for y :: char and t v
    using that by (induction t) auto
  have "takeWhile (\<lambda>c. c \<noteq> CHR ''('' \<or> isspace c) (meth @ CHR ''('' # v) = meth" for v
    using at(2) by (induction meth) (auto simp: isspace_def)
  then have n: "def_parse_className ?h = Ret cls" "def_parse_methodName ?h = Ret meth"
    using assms(6) at(1) tw(2) [OF at(1)] by (simp_all add: def_parse_className_def def_parse_methodName_def tw(1))
  have "obind (first_arg ?h) def_args = Ret (concat (map declaration_text ps))"
    using first_argument [OF assms(4), of "cls @ CHR ''@'' # meth" u] at by simp
  then obtain nx where a: "first_arg ?h = Ret nx" "def_args nx = Ret (concat (map declaration_text ps))" by auto
  have l: "lines_in ?h = lines_in (parameters_text ps @ u)"
    using alnum_lines assms(2,3) by (simp add: line_feed_def)
  have 3: "coc_loop DEF (''{'' @ rest) ?s = coc_loop BODY rest (counted (parameters_text ps @ u) (s\<lparr>out := out s
      @ method_text cls meth ps (lineno s + lines_in (parameters_text ps @ u) - 1), currentClassName := Some cls\<rparr>))"
    using assms(1) n a unfolding counted_def l
    by (cases s) (simp add: coc_steps def_process_def method_text_def line_feed_def del: lines_in_simps)
  show ?thesis using 1 2 3 by simp
qed


text \<open>A type of two words loses its second word to the name, and a name ends at an underscore.\<close>

lemma two_word_type: "def_parse_arg ''unsigned int x)'' = Ret (''unsigned '', ''int'', None)"
  by code_simp

lemma underscore_in_name: "def_parse_arg ''int a_b)'' = Ret (''int '', ''a'', None)"
  by code_simp

text \<open>The #line directive that ends the translation of the head is not followed by a newline: what
  stands on the line of the opening brace becomes part of the directive.\<close>

definition empty_avl_heap :: "nat avl_heap" where
  "empty_avl_heap = \<lparr>avl_root = None, avl_left = (\<lambda>_. None), avl_right = (\<lambda>_. None), avl_skew = (\<lambda>_. AVL_NONE)\<rparr>"

lemma body_on_the_line_of_the_brace:
  "case coc_filter empty_avl_heap (''@-A@f() { g(); }'' @ nl) of
     Ret t \<Rightarrow> suffix (''#line -1 g(); }'' @ nl) t
   | _ \<Rightarrow> False"
  by code_simp

text \<open>A directive that is no line marker loses its operand, a number sign or an at sign in a string
  is taken for a directive or a message, and a message inside the arguments of another is left
  as it is.\<close>

lemma pragma_is_lost: "coc_filter empty_avl_heap (''#pragma pack(1)'' @ nl) = Ret (generated_comment @ ''#pragma 0'' @ nl)"
  by code_simp

lemma string_is_translated:
  "coc_filter empty_avl_heap (''f('' @ quote @ ''a@b c'' @ quote @ '');'') =
   Ret (generated_comment @ ''f('' @ quote @ ''a->b c'' @ quote @ '');'')"
  by code_simp

lemma nested_message_is_copied:
  "coc_filter empty_avl_heap ''a@f(b@g());'' =
   Ret (generated_comment @ ''invoke('' @ quote @ ''f'' @ quote @ '', (object_t *)a , b@g());'')"
  by code_simp

section \<open>Examples\<close>

theorem messages_become_invocations_witness:
  "coc_loop BODY (''obj@get(1,(2))'' @ '';'') (initial_coc empty_avl_heap) =
     coc_loop BODY '';'' (counted ''1,(2)'' ((initial_coc empty_avl_heap)\<lparr>out := message_text None ''obj'' ''get'' ''1,(2)'',
       receiver := ''obj''\<rparr>)) \<and>
   coc_loop BODY ''@count;'' (initial_coc empty_avl_heap) =
     coc_loop BODY [] ((initial_coc empty_avl_heap)\<lparr>out := ''self->count;'', receiver := ''self''\<rparr>)"
proof -
  let ?s = "initial_coc empty_avl_heap"
  have s: "ahead_buffer ?s = []" "balance ?s = 1" "out ?s = []" "currentClassName ?s = None" by (simp_all add: initial_coc_def)
  have w: "word_text ''obj''" "word_text ''get''" "word_text []" "word_text ''count''" "isseparator (CHR '';'')" by code_simp+
  have a: "list_all (\<lambda>c. c \<noteq> CHR 0x00) ''1,(2)''" "nested 1 ''1,(2)''" by code_simp+
  have "variable_text [] ''count'' (CHR '';'') = ''self->count;''" by code_simp
  then show ?thesis
    using messages_become_invocations [where args = "''1,(2)''" and rest = "'';''", OF s(1,2) w(1) _ w(2)]
      messages_become_invocations [where ch = "CHR '';''" and rest = "[]", OF s(1,2) w(3) _ w(4)] s a w(5)
    by (simp add: received_def BUFFER_SIZE_def line_feed_def)
qed


end
