(* ===== verification/Coc_Classes.thy ===== *)
theory Coc_Classes
  imports Coc_Methods Avl_Props
begin

text \<open>
  The cache of classes and the translation of class definitions.  The cache is a search tree
  over the entries, of which it holds the first with each name; an entry's superclass is an
  earlier entry, so printing the bodies of the superclasses ends.  The tree links of a new entry
  are never initialised: the entry is translated whatever they hold, but only when malloc's
  memory happens to be cleared does the cache stay a search tree behind it.
\<close>

section \<open>The cache\<close>

definition first_entries :: "class_cache_entry list \<Rightarrow> nat set" where
  "first_entries es = {i. i < length es \<and> (\<forall>j < i. ce_className (es ! j) \<noteq> ce_className (es ! i))}"

definition class_named :: "string \<Rightarrow> class_cache_entry list \<Rightarrow> nat option" where
  "class_named n es = find (\<lambda>i. ce_className (es ! i) = n) [0..<length es]"

definition earlier_superclasses :: "class_cache_entry list \<Rightarrow> bool" where
  "earlier_superclasses es \<longleftrightarrow> (\<forall>i < length es. \<forall>j. ce_superclass (es ! i) = Some j \<longrightarrow> j < i)"

definition cache_tree :: "coc \<Rightarrow> bool" where
  "cache_tree s \<longleftrightarrow> earlier_superclasses (entries s) \<and>
     (\<exists>t. tree_at (classCacheRoot s) (avl_root (classCacheRoot s)) t \<and> balanced t \<and>
        sorted_keys (cache_key s) t \<and> nodes t = first_entries (entries s))"

text \<open>All the memory malloc will return is cleared.\<close>

definition cache_ok :: "coc \<Rightarrow> bool" where
  "cache_ok s \<longleftrightarrow> cache_tree s \<and> (\<forall>i \<ge> length (entries s). fresh (classCacheRoot s) i)"

definition same_cache :: "coc \<Rightarrow> coc \<Rightarrow> bool" where
  "same_cache s s' \<longleftrightarrow> entries s' = entries s \<and> classCacheRoot s' = classCacheRoot s"

lemma cache_tree_same: "same_cache s s' \<Longrightarrow> cache_tree s \<Longrightarrow> cache_tree s'"
proof -
  assume "same_cache s s'" "cache_tree s"
  moreover from this(1) have "cache_key s' = cache_key s" by (simp add: same_cache_def cache_key_def fun_eq_iff)
  ultimately show ?thesis by (simp add: cache_tree_def same_cache_def)
qed

lemma cache_ok_same: "same_cache s s' \<Longrightarrow> cache_ok s \<Longrightarrow> cache_ok s'"
  using cache_tree_same [of s s'] by (simp add: cache_ok_def same_cache_def)

lemma class_named_None: "class_named n es = None \<longleftrightarrow> (\<forall>i < length es. ce_className (es ! i) \<noteq> n)"
  by (auto simp: class_named_def find_None_iff)

lemma class_named_Some: "class_named n es = Some i \<longleftrightarrow> i \<in> first_entries es \<and> ce_className (es ! i) = n"
  by (auto simp: class_named_def find_Some_iff first_entries_def)

lemma first_entry:
  assumes "i < length es"
  obtains j where "j \<in> first_entries es" "ce_className (es ! j) = ce_className (es ! i)"
  using assms by (metis class_named_None class_named_Some option.exhaust)

lemma first_entries_height:
  assumes "sorted_keys key t" "nodes t = first_entries es"
  shows "height t \<le> length es"
proof -
  have "height t \<le> card (nodes t)" using height_card key_order.sorted_keys_uniq [OF assms(1)] by blast
  also have "\<dots> \<le> card {..<length es}" unfolding assms(2) by (rule card_mono) (auto simp: first_entries_def)
  finally show ?thesis by simp
qed

lemma find_class_named:
  assumes "cache_tree s"
  shows "find_class n s = Ret (class_named n (entries s))"
proof -
  obtain t where t: "tree_at (classCacheRoot s) (avl_root (classCacheRoot s)) t" "sorted_keys (cache_key s) t"
    "nodes t = first_entries (entries s)" using assms by (auto simp: cache_tree_def)
  have h: "height t \<le> length (entries s)" using t(2,3) by (rule first_entries_height)
  from key_order.avl_find_found [OF t(1) h t(2) match_mono_key, of n] obtain r where
    r: "find_class n s = Ret r"
    "case r of Some i \<Rightarrow> i \<in> nodes t \<and> avl_make_match (cache_key s) n i = 0
     | None \<Rightarrow> \<forall>i \<in> nodes t. avl_make_match (cache_key s) n i \<noteq> 0"
    by (auto simp: find_class_def)
  have z: "avl_make_match (cache_key s) n i = 0 \<longleftrightarrow> ce_className (entries s ! i) = n" for i
    by (auto simp: avl_make_match_def cache_key_def)
  have "r = class_named n (entries s)"
  proof (cases r)
    case None
    then have "\<forall>i \<in> first_entries (entries s). ce_className (entries s ! i) \<noteq> n" using r(2) t(3) z by simp
    then show ?thesis using None by (metis class_named_Some not_None_eq)
  next
    case (Some i)
    then have "i \<in> first_entries (entries s)" "ce_className (entries s ! i) = n" using r(2) t(3) z by simp_all
    then show ?thesis using Some class_named_Some by metis
  qed
  then show ?thesis using r(1) by simp
qed

lemma sorted_keys_cong: "(\<And>x. x \<in> nodes t \<Longrightarrow> f x = g x) \<Longrightarrow> sorted_keys f t = sorted_keys g t"
proof -
  assume "\<And>x. x \<in> nodes t \<Longrightarrow> f x = g x"
  moreover have "set (map fst (inorder t)) = nodes t" by (simp add: nodes_def)
  ultimately have "map f (map fst (inorder t)) = map g (map fst (inorder t))" by (metis map_cong)
  then show ?thesis unfolding sorted_keys_def by (simp only:)
qed

lemma first_entries_snoc:
  "first_entries (es @ [e]) =
   (if \<exists>j \<in> first_entries es. ce_className (es ! j) = ce_className e then first_entries es
    else insert (length es) (first_entries es))"
proof -
  have f: "j < length es \<Longrightarrow> j \<in> first_entries (es @ [e]) \<longleftrightarrow> j \<in> first_entries es" for j
    by (auto simp: first_entries_def nth_append)
  have "length es \<in> first_entries (es @ [e]) \<longleftrightarrow> (\<forall>j < length es. ce_className (es ! j) \<noteq> ce_className e)"
    by (auto simp: first_entries_def nth_append)
  also have "\<dots> \<longleftrightarrow> \<not> (\<exists>j \<in> first_entries es. ce_className (es ! j) = ce_className e)"
    using first_entry [of _ es] by (metis (mono_tags, lifting) first_entries_def mem_Collect_eq)
  finally have l: "length es \<in> first_entries (es @ [e]) \<longleftrightarrow> \<not> (\<exists>j \<in> first_entries es. ce_className (es ! j) = ce_className e)" .
  have b: "j \<in> first_entries (es @ [e]) \<Longrightarrow> j < length es \<or> j = length es" for j by (auto simp: first_entries_def)
  have c: "j \<in> first_entries es \<Longrightarrow> j < length es" for j by (auto simp: first_entries_def)
  show ?thesis using f l b c by (smt (verit, best) insert_iff set_eqI)
qed

text \<open>The state with a new entry for the class that has been read.\<close>

definition with_class :: "coc \<Rightarrow> nat avl_heap \<Rightarrow> coc" where
  "with_class s h = s\<lparr>entries := entries s @ [\<lparr>ce_className = className s,
      ce_superclass = class_named (superclassName s) (entries s), ce_buffer = class_body_buffer s\<rparr>],
      classCacheRoot := h\<rparr>"

lemma add_class_returns:
  assumes "cache_tree s"
  shows "\<exists>h. add_class s = Ret (with_class s h) \<and> (fresh (classCacheRoot s) (length (entries s)) \<longrightarrow>
    cache_tree (with_class s h) \<and> (\<forall>j > length (entries s). fresh (classCacheRoot s) j \<longrightarrow> fresh h j))"
proof -
  let ?e = "\<lparr>ce_className = className s, ce_superclass = class_named (superclassName s) (entries s),
    ce_buffer = class_body_buffer s\<rparr>"
  let ?i = "length (entries s)"
  let ?s1 = "s\<lparr>entries := entries s @ [?e]\<rparr>"
  obtain t where t: "tree_at (classCacheRoot s) (avl_root (classCacheRoot s)) t" "balanced t"
    "sorted_keys (cache_key s) t" "nodes t = first_entries (entries s)" using assms by (auto simp: cache_tree_def)
  have key: "x \<in> nodes t \<Longrightarrow> cache_key ?s1 x = cache_key s x" for x
    using t(4) by (simp add: cache_key_def first_entries_def nth_append)
  have s1: "sorted_keys (cache_key ?s1) t" using t(3) key sorted_keys_cong by metis
  have i: "?i \<notin> nodes t" "height t < Suc ?i"
    using t first_entries_height [OF t(3,4)] by (auto simp: first_entries_def)
  have found: "add_class s = obind (avl_add (Suc ?i) (avl_make_compare (cache_key ?s1)) ?i Root (classCacheRoot s))
      (\<lambda>(h, _). Ret (with_class s h))"
    using find_class_named [OF assms] by (simp add: add_class_def with_class_def Let_def)
  show ?thesis
  proof (cases "fresh (classCacheRoot s) ?i")
    case False
    have "\<exists>h res. avl_add (Suc ?i) (avl_make_compare (cache_key ?s1)) ?i Root (classCacheRoot s) = Ret (h, res)"
      using avl_add_returns [of "classCacheRoot s" Root t ?i "Suc ?i" "avl_make_compare (cache_key ?s1)"] t(1,2) i
        key_order.sorted_keys_uniq [OF t(3)] unfolding external.simps rd.simps by blast
    then show ?thesis using False found by auto
  next
    case True
    from avl_add_ok [OF t(1,2) s1 i(1) True i(2)] obtain h t' res where h:
      "avl_add (Suc ?i) (avl_make_compare (cache_key ?s1)) ?i Root (classCacheRoot s) = Ret (h, res)"
      "tree_at h (avl_root h) t'" "balanced t'" "sorted_keys (cache_key ?s1) t'"
      "nodes t' = (if \<exists>y \<in> nodes t. cache_key ?s1 y = cache_key ?s1 ?i then nodes t else insert ?i (nodes t))"
      "same_outside Root (insert ?i (nodes t)) (classCacheRoot s) h" by blast
    have "(\<exists>y \<in> nodes t. cache_key ?s1 y = cache_key ?s1 ?i) \<longleftrightarrow>
        (\<exists>j \<in> first_entries (entries s). ce_className (entries s ! j) = className s)"
      using key unfolding t(4) by (auto simp: cache_key_def nth_append first_entries_def)
    then have n: "nodes t' = first_entries (entries s @ [?e])" using h(5) t(4) by (simp add: first_entries_snoc)
    have f: "fresh h j" if "?i < j" "fresh (classCacheRoot s) j" for j
    proof -
      have "j \<notin> insert ?i (nodes t)" using that(1) t(4) by (auto simp: first_entries_def)
      then show ?thesis using that(2) h(6) fresh_same_outside [of "classCacheRoot s" j Root] by simp
    qed
    have "earlier_superclasses (entries s @ [?e])"
      using assms class_named_Some [of "superclassName s" "entries s"]
      by (auto simp: cache_tree_def earlier_superclasses_def nth_append less_Suc_eq first_entries_def)
    moreover have "cache_key (with_class s h) = cache_key ?s1" by (simp add: cache_key_def with_class_def fun_eq_iff)
    ultimately have "cache_tree (with_class s h)"
      using h(2-4) n unfolding cache_tree_def with_class_def by (intro conjI exI [of _ t']) auto
    then show ?thesis using h(1) found f by (intro exI [of _ h]) simp
  qed
qed

lemma add_class_ok:
  assumes "cache_ok s"
  shows "\<exists>h. add_class s = Ret (with_class s h) \<and> cache_ok (with_class s h)"
proof -
  obtain h where "add_class s = Ret (with_class s h)"
    "fresh (classCacheRoot s) (length (entries s)) \<longrightarrow> cache_tree (with_class s h) \<and>
       (\<forall>j > length (entries s). fresh (classCacheRoot s) j \<longrightarrow> fresh h j)"
    using add_class_returns [of s] assms by (auto simp: cache_ok_def)
  then show ?thesis using assms by (auto simp: cache_ok_def with_class_def)
qed

section \<open>Inherited bodies\<close>

text \<open>The line of classes from one without superclass to entry i.\<close>

definition lineage :: "class_cache_entry list \<Rightarrow> nat list \<Rightarrow> nat \<Rightarrow> bool" where
  "lineage es js i \<longleftrightarrow> js \<noteq> [] \<and> last js = i \<and> ce_superclass (es ! hd js) = None \<and>
     successively (\<lambda>j k. ce_superclass (es ! k) = Some j) js"

lemma outputbody_lineage:
  "earlier_superclasses es \<Longrightarrow> i < length es \<Longrightarrow> i < n \<Longrightarrow>
   \<exists>js. lineage es js i \<and> outputbody n es i = Ret (concat (map (\<lambda>j. ce_buffer (es ! j)) js))"
proof (induction n arbitrary: i)
  case (Suc n)
  show ?case
  proof (cases "ce_superclass (es ! i)")
    case None
    then show ?thesis by (intro exI [of _ "[i]"]) (simp add: lineage_def)
  next
    case (Some j)
    then have "j < i" using Suc.prems by (simp add: earlier_superclasses_def)
    with Suc.IH [of j] Suc.prems obtain js where
      js: "lineage es js j" "outputbody n es j = Ret (concat (map (\<lambda>j. ce_buffer (es ! j)) js))" by auto
    then have "lineage es (js @ [i]) i" using Some by (auto simp: lineage_def successively_append_iff)
    then show ?thesis using js(2) Some by (intro exI [of _ "js @ [i]"]) simp
  qed
qed simp

text \<open>What a class inherits, from the name of its superclass.\<close>

definition inherited :: "string \<Rightarrow> class_cache_entry list \<Rightarrow> string \<Rightarrow> bool" where
  "inherited super es inh \<longleftrightarrow>
     (case class_named super es of None \<Rightarrow> inh = []
      | Some i \<Rightarrow> \<exists>js. lineage es js i \<and> inh = concat (map (\<lambda>j. ce_buffer (es ! j)) js))"

lemma classbody_change_inherits:
  assumes "cache_tree s"
  shows "\<exists>inh. inherited (superclassName s) (entries s) inh \<and>
    classbody_change s = Ret (s\<lparr>out := out s @ inh, class_body_buffer := []\<rparr>)"
proof -
  have ok: "cache_tree (s\<lparr>class_body_buffer := []\<rparr>)" using cache_tree_same [OF _ assms] by (simp add: same_cache_def)
  show ?thesis
  proof (cases "class_named (superclassName s) (entries s)")
    case None
    then show ?thesis using find_class_named [OF ok]
      by (intro exI [of _ "[]"]) (simp add: classbody_change_def inherited_def)
  next
    case (Some i)
    then have "i < length (entries s)" by (simp add: class_named_Some first_entries_def)
    with outputbody_lineage [of "entries s" i "length (entries s)"] assms obtain js where
      "lineage (entries s) js i"
      "outputbody (length (entries s)) (entries s) i = Ret (concat (map (\<lambda>j. ce_buffer (entries s ! j)) js))"
      by (auto simp: cache_tree_def)
    then show ?thesis using Some find_class_named [OF ok]
      by (intro exI [of _ "concat (map (\<lambda>j. ce_buffer (entries s ! j)) js)"])
        (auto simp: classbody_change_def inherited_def classbody_outputbody_def emit_def)
  qed
qed

section \<open>The cache over the whole input\<close>

lemma staying_same:
  "staying mode (append_ahead ch s) = Ret (mode', back, s') \<Longrightarrow> same_cache s s'"
  by (auto simp: staying_def append_ahead_def append_char_def same_cache_def split: if_splits)

lemma staying_not_Timeout: "staying mode (append_ahead ch s) \<noteq> Timeout"
  by (simp add: staying_def append_ahead_def append_char_def Let_def)

lemma same_cache_trans: "same_cache a b \<Longrightarrow> same_cache b c \<Longrightarrow> same_cache a c"
  by (simp add: same_cache_def)

lemma process_cache:
  assumes "mode \<noteq> CLASSBODY \<or> ch \<noteq> CHR ''}''" "coc_process mode ch s = Ret (mode', back, s')"
  shows "same_cache s s'"
  using assms(2)
proof (cases mode)
  case CLASSBODY
  then show ?thesis using assms
    by (auto simp: classbody_process_def append_ahead_def append_char_def same_cache_def split: if_splits)
next
  case CALL
  then show ?thesis using assms(2)
    by (auto simp: call_process_def Let_def reset_ahead_def emit_def same_cache_def staying_def append_ahead_def
        split: if_splits)
next
  case PREPROC
  then show ?thesis using assms(2)
    by (auto simp: preproc_process_def Let_def reset_ahead_def emit_def same_cache_def staying_def append_ahead_def
        split: if_splits)
qed (use assms(2) in \<open>auto simp: body_process_def escape_process_def class_process_def def_process_def
      var_process_def Let_def reset_ahead_def emit_def same_cache_def [of _ "_\<lparr>ahead_buffer := _\<rparr>"] same_cache_def
      staying_def append_ahead_def split: if_splits\<close>)

lemma classbody_end_cache:
  assumes "cache_ok s"
  shows "\<exists>mode' back s'. classbody_process (CHR ''}'') s = Ret (mode', back, s') \<and> cache_ok s'"
proof -
  let ?s = "emit (class_initializer s) (emit (ahead_buffer s @ ''}'') s)"
  have "cache_ok ?s" using cache_ok_same [OF _ assms] by (simp add: same_cache_def emit_def)
  from add_class_ok [OF this] obtain s1 where s1: "add_class ?s = Ret s1" "cache_ok s1" by blast
  have "cache_ok ((reset_ahead s1)\<lparr>className := []\<rparr>)"
    using cache_ok_same [OF _ s1(2)] by (simp add: same_cache_def reset_ahead_def)
  then show ?thesis using s1(1) by (simp add: classbody_process_def)
qed

lemma change_cache:
  assumes "cache_ok s"
  shows "coc_change mode s \<noteq> Timeout \<and> (\<forall>s'. coc_change mode s = Ret s' \<longrightarrow> cache_ok s')"
proof -
  have same: "same_cache s s' \<Longrightarrow> cache_ok s'" for s' using cache_ok_same assms by blast
  obtain inh where "classbody_change s = Ret (s\<lparr>out := out s @ inh, class_body_buffer := []\<rparr>)"
    using classbody_change_inherits assms unfolding cache_ok_def by blast
  then show ?thesis
    by (cases mode) (auto simp: def_change_def var_change_def call_change_def preproc_change_def Let_def reset_ahead_def
      emit_def same_cache_def intro!: same)
qed

lemma def_parse_not_Timeout: "def_parse_arg a \<noteq> Timeout"
  by (auto simp: def_parse_arg_def Let_def split: list.splits)

lemma def_args_not_Timeout: "def_args nx \<noteq> Timeout"
proof (induction nx rule: def_args.induct)
  case (1 nx)
  then show ?case using def_parse_not_Timeout
    by (subst def_args.simps) (auto split: option.splits outcome.splits)
qed

lemma obind_Timeout_iff: "obind m f = Timeout \<longleftrightarrow> m = Timeout \<or> (\<exists>x. m = Ret x \<and> f x = Timeout)"
  by (cases m) auto

lemma parts_not_Timeout:
  "class_parse_className t \<noteq> Timeout" "class_parse_superclassName t \<noteq> Timeout" "def_parse_className t \<noteq> Timeout"
  "def_parse_methodName t \<noteq> Timeout" "first_arg t \<noteq> Timeout" "append_char c t \<noteq> Timeout" "append_ahead c s \<noteq> Timeout"
  by (auto simp: class_parse_className_def class_parse_superclassName_def def_parse_className_def
      def_parse_methodName_def first_arg_def append_char_def append_ahead_def Let_def split: list.splits)

lemma process_not_Timeout:
  assumes "cache_ok s"
  shows "coc_process mode ch s \<noteq> Timeout"
proof (cases "mode = CLASSBODY \<and> ch = CHR ''}''")
  case True
  then show ?thesis using classbody_end_cache [OF assms] by auto
next
  case False
  then show ?thesis
    by (cases mode)
      (auto simp: body_process_def escape_process_def class_process_def def_process_def classbody_process_def
        var_process_def call_process_def preproc_process_def Let_def staying_not_Timeout staying_def
        parts_not_Timeout def_args_not_Timeout obind_Timeout_iff split: if_splits)
qed

lemma round_cache:
  assumes "cache_ok s"
  shows "coc_round mode ch s \<noteq> Timeout \<and> (\<forall>mode' back s'. coc_round mode ch s = Ret (mode', back, s') \<longrightarrow> cache_ok s')"
proof -
  let ?s = "counted [ch] s"
  have ok: "cache_ok ?s" using cache_ok_same [OF _ assms] by (simp add: same_cache_def counted_def)
  have p: "cache_ok s1" if "coc_process mode ch ?s = Ret (m1, b1, s1)" for m1 b1 s1
    using that classbody_end_cache [OF ok] process_cache [OF _ that] cache_ok_same [OF _ ok]
    by (cases "mode = CLASSBODY \<and> ch = CHR ''}''") auto
  show ?thesis unfolding coc_round_counted
    using p change_cache process_not_Timeout [OF ok]
    by (auto simp: obind_Timeout_iff split: if_splits)
qed

lemma loop_cache:
  "cache_ok s \<Longrightarrow> coc_loop mode inp s \<noteq> Timeout \<and> (\<forall>mode' s'. coc_loop mode inp s = Ret (mode', s') \<longrightarrow> cache_ok s')"
proof (induction mode inp s rule: coc_loop.induct)
  case (2 mode ch inp s)
  then show ?case using round_cache [OF 2(2), of mode ch]
    by (cases "coc_round mode ch s") auto
qed simp

lemma initial_cache_ok: "(\<And>i. fresh h i) \<Longrightarrow> cache_ok (emit t (initial_coc h))"
  by (auto simp: cache_ok_def cache_tree_def emit_def initial_coc_def earlier_superclasses_def fresh_def first_entries_def
      sorted_keys_def intro!: exI [of _ Leaf])

text \<open>When malloc returns cleared memory, coc_filter ends on every input: it returns, stops with a
  syntax error or runs past the end of a buffer.  On the way the class cache stays a balanced
  search tree that holds the first class of each name, and a superclass is an earlier class.\<close>
lemma coc_filter_ends:
  assumes "\<And>i. fresh h i"
  shows "coc_filter h t \<noteq> Timeout \<and>
    (case coc_loop BODY t (emit generated_comment (initial_coc h)) of Ret (mode, s) \<Rightarrow> cache_ok s | _ \<Rightarrow> True)"
  using loop_cache [OF initial_cache_ok [OF assms], of BODY t generated_comment]
  by (auto simp: coc_filter_def obind_Timeout_iff split: outcome.splits)

text \<open>Memory that is not cleared: the first entry's left link holds its own address.  The search for a
  superclass whose name comes before the entry's runs round in it.\<close>

definition own_address_heap :: "nat avl_heap" where
  "own_address_heap = \<lparr>avl_root = None, avl_left = (\<lambda>i. Some i), avl_right = (\<lambda>_. None), avl_skew = (\<lambda>_. AVL_NONE)\<rparr>"

lemma uncleared_entry_loops: "avl_find n (avl_make_match (\<lambda>_. ''B'')) ''A'' (own_address_heap\<lparr>avl_root := Some i\<rparr>) = Timeout"
proof -
  have "avl_find_loop n (avl_make_match (\<lambda>_. ''B'')) ''A'' (Some i) p (own_address_heap\<lparr>avl_root := Some i\<rparr>) = Timeout" for p
    by (induction n arbitrary: p) (subst avl_find_loop.simps; simp add: own_address_heap_def avl_make_match_def)+
  then show ?thesis by (simp add: avl_find_def own_address_heap_def)
qed

lemma uncleared_entry_hangs: "coc_filter own_address_heap (''@+class B : C {int x;};'' @ nl @ ''@+class D : A {int y;};'' @ nl) = Timeout"
  by code_simp

section \<open>Class definitions\<close>

text \<open>The header of a class: the word class, white space, the name, and the superclass behind a
  colon and a blank, if one is named.  A superclass is followed by white space.\<close>

record class_header =
  h_space :: string
  h_name :: string
  h_gap :: string
  h_super :: "(string \<times> string) option"

definition header_text :: "class_header \<Rightarrow> string" where
  "header_text c = ''class'' @ h_space c @ h_name c @ h_gap c
     @ (case h_super c of None \<Rightarrow> [] | Some (super, b) \<Rightarrow> '': '' @ super @ b)"

definition header_super :: "class_header \<Rightarrow> string" where
  "header_super c = (case h_super c of None \<Rightarrow> ''Object'' | Some (super, b) \<Rightarrow> super)"

definition header_ok :: "class_header \<Rightarrow> bool" where
  "header_ok c \<longleftrightarrow> h_space c \<noteq> [] \<and> list_all isspace (h_space c) \<and> h_name c \<noteq> [] \<and> list_all isalnum (h_name c) \<and>
     list_all isspace (h_gap c) \<and> length (h_name c) < 256 \<and> length (header_super c) < 256 \<and>
     (case h_super c of None \<Rightarrow> True | Some (super, b) \<Rightarrow> list_all isalnum super \<and> b \<noteq> [] \<and> list_all isspace b) \<and>
     length (header_text c) < BUFFER_SIZE"

lemma name_chars:
  "isalnum c \<Longrightarrow> \<not> isspace c" "isalnum c \<Longrightarrow> c \<noteq> CHR '':''" "isalnum c \<Longrightarrow> c \<noteq> CHR ''{''"
  "isspace c \<Longrightarrow> c \<noteq> CHR '':''" "isspace c \<Longrightarrow> \<not> isalnum c"
  by (auto simp: isalnum_def isspace_def less_eq_char_def)

lemma parse_class_header:
  assumes "header_ok c"
  shows "class_parse_className (header_text c) = Ret (h_name c)"
    "class_parse_superclassName (header_text c) = Ret (header_super c)"
proof -
  let ?tail = "h_gap c @ (case h_super c of None \<Rightarrow> [] | Some (super, b) \<Rightarrow> '': '' @ super @ b)"
  have ok: "h_space c \<noteq> []" "list_all isspace (h_space c)" "h_name c \<noteq> []" "list_all isalnum (h_name c)"
    "list_all isspace (h_gap c)" using assms by (simp_all add: header_ok_def)
  have ch: "\<not> isspace (CHR ''c'')" "\<not> isspace (CHR ''l'')" "\<not> isspace (CHR ''a'')" "\<not> isspace (CHR ''s'')"
    "\<not> isspace (CHR '':'')" "\<not> isalnum (CHR '':'')"
    by (simp_all add: isspace_def isalnum_def less_eq_char_def)
  obtain x xs where x: "h_space c = x # xs" "isspace x" "list_all isspace xs" using ok(1,2) by (cases "h_space c") auto
  obtain y ys where y: "h_name c = y # ys" "\<not> isspace y" using ok(3,4) name_chars(1) by (cases "h_name c") auto
  have t: "dropWhile isspace (xs @ h_name c @ ?tail) = h_name c @ ?tail"
    using dropWhile_all_append [OF x(3), of "h_name c @ ?tail"] y by simp
  have "?tail = [] \<or> (\<exists>z zs. ?tail = z # zs \<and> \<not> isalnum z)"
    using ok(5) name_chars(5) ch by (cases "h_gap c") (auto split: option.splits)
  then have n: "takeWhile isalnum (h_name c @ ?tail) = h_name c"
    using takeWhile_all_then [OF ok(4)] ok(4) by (auto simp: list_all_iff takeWhile_eq_all_conv)
  show "class_parse_className (header_text c) = Ret (h_name c)"
    using assms x t n by (simp add: class_parse_className_def header_text_def ch header_ok_def)
  have colon: "list_all (\<lambda>d. d \<noteq> CHR '':'') (''class'' @ h_space c @ h_name c @ h_gap c)"
    using ok(2,4,5) ch(5,6) by (auto simp: list_all_iff)
  show "class_parse_superclassName (header_text c) = Ret (header_super c)"
  proof (cases "h_super c")
    case None
    then have "dropWhile (\<lambda>d. d \<noteq> CHR '':'') (header_text c) = []"
      using colon by (simp only: dropWhile_eq_Nil_conv header_text_def list_all_iff option.case append_Nil2)
    from this show ?thesis unfolding class_parse_superclassName_def by (simp only: list.case header_super_def None option.case)
  next
    case (Some sb)
    then obtain super b where sb: "h_super c = Some (super, b)" by (cases sb) auto
    then have s: "list_all isalnum super" "b \<noteq> []" "list_all isspace b" "length super < 256"
      using assms by (simp_all add: header_ok_def header_super_def)
    have "dropWhile (\<lambda>d. d \<noteq> CHR '':'') (header_text c) = CHR '':'' # CHR '' '' # super @ b"
      using dropWhile_all_then [OF colon, of "CHR '':''" "CHR '' '' # super @ b"] sb by (simp add: header_text_def)
    moreover obtain z zs where z: "b = z # zs" "isspace z" using s(2,3) by (cases b) auto
    have "list_all (\<lambda>d. \<not> isspace d \<and> d \<noteq> CHR ''{'') super" using s(1) name_chars(1,3) by (auto simp: list_all_iff)
    then have "takeWhile (\<lambda>d. \<not> isspace d \<and> d \<noteq> CHR ''{'') (super @ b) = super"
      using takeWhile_all_then [of "\<lambda>d. \<not> isspace d \<and> d \<noteq> CHR ''{''" super z zs] z by simp
    moreover have "super \<noteq> super @ b" using s(2) by simp
    ultimately show ?thesis using s(4) unfolding class_parse_superclassName_def
      by (simp only: list.case dropWhile.simps character_classes Let_def if_True if_False header_super_def sb option.case
        prod.case not_True_eq_False)
  qed
qed

lemma class_copies:
  "list_all header_char t \<Longrightarrow> length (ahead_buffer s) + length t < BUFFER_SIZE \<Longrightarrow>
   coc_loop CLASS (t @ rest) s = coc_loop CLASS rest (counted t (s\<lparr>ahead_buffer := ahead_buffer s @ t\<rparr>))"
proof (induction t arbitrary: s)
  case Nil
  then show ?case by (simp add: counted_def)
next
  case (Cons c cs)
  then show ?case by (simp add: header_char_def coc_steps class_process_def counted_def add.assoc)
qed

lemma header_text_chars: "header_ok c \<Longrightarrow> list_all header_char (header_text c)"
proof -
  assume ok: "header_ok c"
  have a: "list_all isalnum t \<Longrightarrow> list_all header_char t" "list_all isspace t \<Longrightarrow> list_all header_char t" for t
    using header_chars(1,4) list.pred_mono_strong by metis+
  show ?thesis using ok a by (auto simp: header_ok_def header_text_def header_char_def split: option.splits)
qed

lemma classbody_copies:
  "list_all (\<lambda>c. c \<noteq> CHR ''}'' \<and> c \<noteq> CHR 0x00) t \<Longrightarrow> length (ahead_buffer s) + length t < BUFFER_SIZE \<Longrightarrow>
   length (class_body_buffer s) + length t < BUFFER_SIZE \<Longrightarrow>
   coc_loop CLASSBODY (t @ rest) s = coc_loop CLASSBODY rest (counted t (s\<lparr>ahead_buffer := ahead_buffer s @ t,
     class_body_buffer := class_body_buffer s @ t\<rparr>))"
proof (induction t arbitrary: s)
  case Nil
  then show ?case by (simp add: counted_def)
next
  case (Cons c cs)
  let ?s = "counted [c] (s\<lparr>ahead_buffer := ahead_buffer s @ [c], class_body_buffer := class_body_buffer s @ [c]\<rparr>)"
  have "coc_round CLASSBODY c s = Ret (CLASSBODY, [], ?s)"
    using Cons.prems by (cases s) (simp add: coc_round_counted classbody_process_def append_ahead_def append_char_def
      counted_def)
  then have "coc_loop CLASSBODY ((c # cs) @ rest) s = coc_loop CLASSBODY (cs @ rest) ?s" by simp
  then show ?case using Cons.prems Cons.IH [of ?s] by (cases s) (simp add: counted_def add.assoc)
qed

definition class_head :: "string \<Rightarrow> string" where
  "class_head cls = (if cls \<noteq> ''Class'' then ''typedef struct '' @ cls @ ''_s '' @ cls @ ''_t;'' @ nl else [])
     @ ''struct '' @ cls @ ''_s {'' @ nl"

definition class_tail :: "string \<Rightarrow> string \<Rightarrow> string" where
  "class_tail cls super =
     ''};'' @ nl @ ''Class_t* '' @ cls @ '';'' @ nl @ ''const co_class_initializer_t _'' @ cls @ ''_co_init ''
     @ ''__attribute__((section('' @ quote @ ''.co.classes'' @ quote @ ''),weak)) = {'' @ nl
     @ quote @ cls @ quote @ '', '' @ quote @ super @ quote @ '', sizeof('' @ cls @ ''_t), &'' @ cls @ nl @ ''}''"

lemma class_run:
  assumes "cache_tree s" "ahead_buffer s = []" "header_ok c"
    and "list_all (\<lambda>d. d \<noteq> CHR ''}'' \<and> d \<noteq> CHR 0x00) body" "length body < BUFFER_SIZE"
  shows "\<exists>inh s'. inherited (header_super c) (entries s) inh \<and>
    coc_loop BODY (''@+'' @ header_text c @ ''{'' @ body @ ''}'' @ rest) s = coc_loop BODY rest s' \<and>
    out s' = out s @ class_head (h_name c) @ inh @ body @ class_tail (h_name c) (header_super c) \<and>
    ahead_buffer s' = [] \<and> lineno s' = lineno s + lines_in (header_text c @ body) \<and>
    currentClassName s' = currentClassName s \<and> balance s' = balance s \<and>
    entries s' = entries s @ [\<lparr>ce_className = h_name c,
      ce_superclass = class_named (header_super c) (entries s), ce_buffer = body\<rparr>] \<and>
    (fresh (classCacheRoot s) (length (entries s)) \<longrightarrow> cache_tree s' \<and>
      (\<forall>j > length (entries s). fresh (classCacheRoot s) j \<longrightarrow> fresh (classCacheRoot s') j))"
proof -
  let ?h = "header_text c"
  let ?b = "body @ ''}'' @ rest"
  let ?n = "h_name c" and ?p = "header_super c"
  have 1: "coc_loop BODY (''@+'' @ ?h @ ''{'' @ ?b) s = coc_loop CLASS (?h @ ''{'' @ ?b) s"
    using assms(2) by (cases s) (simp add: coc_steps body_process_def escape_process_def line_feed_def)
  define s0 where "s0 = counted ?h (s\<lparr>ahead_buffer := ?h\<rparr>)"
  have 2: "coc_loop CLASS (?h @ ''{'' @ ?b) s = coc_loop CLASS (''{'' @ ?b) s0"
    using class_copies [OF header_text_chars [OF assms(3)], of s "''{'' @ ?b"] assms(2,3)
    by (simp add: header_ok_def s0_def del: coc_loop.simps)
  define s1 where "s1 = counted ?h (s\<lparr>out := out s @ class_head ?n, ahead_buffer := [], className := ?n, superclassName := ?p\<rparr>)"
  have ok1: "cache_tree s1" using cache_tree_same [OF _ assms(1)] by (simp add: s1_def same_cache_def counted_def)
  obtain inh where t: "inherited ?p (entries s) inh"
    "classbody_change s1 = Ret (s1\<lparr>out := out s1 @ inh, class_body_buffer := []\<rparr>)"
    using classbody_change_inherits [OF ok1] by (auto simp: s1_def counted_def)
  have a0: "ahead_buffer s0 = ?h" by (simp add: s0_def)
  have "coc_process CLASS (CHR ''{'') s0 = Ret (CLASSBODY, [], s1)"
    using parse_class_header [OF assms(3)] a0
    by (cases s) (simp add: class_process_def s1_def s0_def class_head_def emit_def reset_ahead_def counted_def)
  then have "coc_round CLASS (CHR ''{'') s0 = Ret (CLASSBODY, [], s1\<lparr>out := out s1 @ inh, class_body_buffer := []\<rparr>)"
    using t(2) by (simp add: coc_round_def line_feed_def)
  then have 3: "coc_loop CLASS (''{'' @ ?b) s0 =
      coc_loop CLASSBODY ?b (s1\<lparr>out := out s1 @ inh, class_body_buffer := []\<rparr>)" by simp
  define s2 where "s2 = counted body (s1\<lparr>out := out s1 @ inh, ahead_buffer := body, class_body_buffer := body\<rparr>)"
  have 4: "coc_loop CLASSBODY ?b (s1\<lparr>out := out s1 @ inh, class_body_buffer := []\<rparr>) = coc_loop CLASSBODY (''}'' @ rest) s2"
    using classbody_copies [OF assms(4), of "s1\<lparr>out := out s1 @ inh, class_body_buffer := []\<rparr>" "''}'' @ rest"] assms(5)
    by (cases s) (simp add: s2_def s1_def counted_def del: coc_loop.simps)
  define s3 where "s3 = emit (class_initializer s2) (emit (body @ ''}'') s2)"
  have ok3: "cache_tree s3" using cache_tree_same [OF _ ok1] by (simp add: s3_def s2_def same_cache_def emit_def counted_def)
  have c3: "entries s3 = entries s" "classCacheRoot s3 = classCacheRoot s"
    by (simp_all add: s3_def s2_def s1_def emit_def counted_def)
  from add_class_returns [OF ok3] obtain h where h: "add_class s3 = Ret (with_class s3 h)"
    "fresh (classCacheRoot s) (length (entries s)) \<longrightarrow> cache_tree (with_class s3 h) \<and>
       (\<forall>j > length (entries s). fresh (classCacheRoot s) j \<longrightarrow> fresh h j)" unfolding c3 by blast
  define s4 where "s4 = (with_class s3 h)\<lparr>ahead_buffer := [], className := []\<rparr>"
  have "ahead_buffer s2 = body" by (simp add: s2_def)
  then have "coc_round CLASSBODY (CHR ''}'') s2 = Ret (BODY, [], s4)"
    using h(1) by (simp add: coc_round_def line_feed_def classbody_process_def s3_def [symmetric] s4_def reset_ahead_def)
  then have 5: "coc_loop CLASSBODY (''}'' @ rest) s2 = coc_loop BODY rest s4" by simp
  have "cache_tree (with_class s3 h) \<Longrightarrow> cache_tree s4" by (rule cache_tree_same) (simp add: s4_def same_cache_def)
  moreover have "out s4 = out s @ class_head ?n @ inh @ body @ class_tail ?n ?p"
    by (simp add: s4_def with_class_def s3_def s2_def s1_def emit_def counted_def class_initializer_def class_tail_def Let_def)
  moreover have "coc_loop BODY (''@+'' @ ?h @ ''{'' @ body @ ''}'' @ rest) s = coc_loop BODY rest s4"
    using 1 2 3 4 5 by (simp del: coc_loop.simps)
  moreover have "ahead_buffer s4 = []" "lineno s4 = lineno s + lines_in (?h @ body)" "currentClassName s4 = currentClassName s"
    "balance s4 = balance s" "classCacheRoot s4 = h"
    "entries s4 = entries s @ [\<lparr>ce_className = ?n, ce_superclass = class_named ?p (entries s), ce_buffer = body\<rparr>]"
    by (simp_all add: s4_def with_class_def s3_def s2_def s1_def emit_def counted_def)
  ultimately show ?thesis using t(1) h(2) by (intro exI [of _ inh] exI [of _ s4]) simp
qed

text \<open>C25: a class definition @+class cls : super { body }, or one without a superclass, which then
  is Object, becomes a structure that begins with the bodies of all superclasses known so far,
  from the root of the hierarchy down, followed by its own, with the typedef before it and the
  class initializer behind it; the class is entered in the cache with its superclass, and the
  lines are counted.  The class cache was a search tree; it stays one if the memory malloc
  returned for the entry was cleared, which the code does not see to.  The names are letters and
  digits, the colon is followed by one blank and the superclass by white space, and the body
  has no closing brace and fits into the buffer.\<close>
theorem classes_become_structures:
  assumes "cache_tree s" "ahead_buffer s = []" "header_ok c"
    and "list_all (\<lambda>d. d \<noteq> CHR ''}'' \<and> d \<noteq> CHR 0x00) body" "length body < BUFFER_SIZE"
  shows "\<exists>inh s'. inherited (header_super c) (entries s) inh \<and>
    coc_loop BODY (''@+'' @ header_text c @ ''{'' @ body @ ''}'' @ rest) s = coc_loop BODY rest s' \<and>
    out s' = out s @ class_head (h_name c) @ inh @ body @ class_tail (h_name c) (header_super c) \<and>
    ahead_buffer s' = [] \<and> lineno s' = lineno s + lines_in (header_text c @ body) \<and>
    currentClassName s' = currentClassName s \<and> balance s' = balance s \<and>
    entries s' = entries s @ [\<lparr>ce_className = h_name c,
      ce_superclass = class_named (header_super c) (entries s), ce_buffer = body\<rparr>] \<and>
    (fresh (classCacheRoot s) (length (entries s)) \<longrightarrow> cache_tree s' \<and>
      (\<forall>j > length (entries s). fresh (classCacheRoot s) j \<longrightarrow> fresh (classCacheRoot s') j))"
  using assms by (rule class_run)

text \<open>Without a blank between the name of the superclass and the brace the scan for its end runs past
  the string.\<close>

lemma class_header_without_blank: "coc_filter empty_avl_heap ''@+class A : B{ int x; };'' = Fault"
  by code_simp

lemma empty_heap_fresh: "fresh empty_avl_heap i"
  by (simp add: fresh_def empty_avl_heap_def)

text \<open>A class without a superclass, and one that inherits its body.\<close>

theorem classes_become_structures_witness:
  "\<exists>(s1 :: coc) s2 inh. inherited ''Base'' (entries s1) inh \<and> inh = ''int x;'' \<and>
     coc_loop BODY (''@+class Base {int x;}'' @ ''@+class Child : Base {int y;}'') (initial_coc empty_avl_heap) =
       Ret (BODY, s2) \<and>
     out s2 = out s1 @ class_head ''Child'' @ inh @ ''int y;'' @ class_tail ''Child'' ''Base'' \<and> cache_tree s2"
proof -
  let ?s = "emit [] (initial_coc empty_avl_heap)"
  let ?c = "\<lparr>h_space = '' '', h_name = ''Base'', h_gap = '' '', h_super = None\<rparr>"
  let ?d = "\<lparr>h_space = '' '', h_name = ''Child'', h_gap = '' '', h_super = Some (''Base'', '' '')\<rparr>"
  have s: "cache_tree ?s" "ahead_buffer ?s = []" "entries ?s = []" "?s = initial_coc empty_avl_heap"
    "fresh (classCacheRoot ?s) i" for i
    using initial_cache_ok [OF empty_heap_fresh] by (simp_all add: emit_def initial_coc_def cache_ok_def)
  have n: "header_ok ?c" "header_ok ?d" "list_all (\<lambda>c. c \<noteq> CHR ''}'' \<and> c \<noteq> CHR 0x00) ''int x;''"
    "list_all (\<lambda>c. c \<noteq> CHR ''}'' \<and> c \<noteq> CHR 0x00) ''int y;''" "length ''int x;'' < BUFFER_SIZE" "length ''int y;'' < BUFFER_SIZE"
    by (simp_all add: header_ok_def header_text_def header_super_def BUFFER_SIZE_def isalnum_def isspace_def less_eq_char_def)
  have h: "header_text ?c = ''class Base ''" "header_text ?d = ''class Child : Base ''" "header_super ?c = ''Object''"
    "header_super ?d = ''Base''" by code_simp+
  obtain s1 where s1: "coc_loop BODY (''@+'' @ ''class Base '' @ ''{'' @ ''int x;'' @ ''}''
      @ ''@+class Child : Base {int y;}'') ?s = coc_loop BODY ''@+class Child : Base {int y;}'' s1"
    "cache_tree s1" "ahead_buffer s1 = []" "entries s1 = [\<lparr>ce_className = ''Base'', ce_superclass = None, ce_buffer = ''int x;''\<rparr>]"
    "fresh (classCacheRoot s1) 1"
    using classes_become_structures [OF s(1,2) n(1,3,5), of "''@+class Child : Base {int y;}''"] s(3,5)
    unfolding h by (auto simp: class_named_def simp del: coc_loop.simps)
  obtain inh s2 where s2: "inherited ''Base'' (entries s1) inh"
    "coc_loop BODY (''@+'' @ ''class Child : Base '' @ ''{'' @ ''int y;'' @ ''}'' @ []) s1 = coc_loop BODY [] s2"
    "out s2 = out s1 @ class_head ''Child'' @ inh @ ''int y;'' @ class_tail ''Child'' ''Base''" "cache_tree s2"
    using classes_become_structures [OF s1(2,3) n(2,4,6), of "[]"] s1(4,5)
    unfolding h by (auto simp del: coc_loop.simps)
  have l: "lineage (entries s1) js 0 \<Longrightarrow> js = [0]" for js
    by (cases js rule: rev_cases) (auto simp: lineage_def s1(4) successively_append_iff neq_Nil_conv)
  obtain js where js: "lineage (entries s1) js 0" "inh = concat (map (\<lambda>j. ce_buffer (entries s1 ! j)) js)"
    using s2(1) by (auto simp: inherited_def s1(4) class_named_def)
  have "inh = ''int x;''" unfolding js(2) l [OF js(1)] by (simp add: s1(4))
  moreover have "coc_loop BODY (''@+class Base {int x;}'' @ ''@+class Child : Base {int y;}'') (initial_coc empty_avl_heap) =
      Ret (BODY, s2)"
    using s1(1) s2(2) s(4) by (simp del: coc_loop.simps(2))
  ultimately show ?thesis using s2(1,3,4) by blast
qed

lemma filter_ends_example: "coc_filter empty_avl_heap (''@+class A : Object {int x;};'' @ nl) \<noteq> Timeout"
  using coc_filter_ends [OF empty_heap_fresh] by blast

end
