(* ===== verification/Coc_Main.thy ===== *)
theory Coc_Main
  imports Coc
begin

text \<open>
  tools/coc/main.c: the compiler driver.  It replaces the one .co file among the arguments of the
  C compiler by the .c file coc writes, and builds the command that is run.  The directories come
  from dir.h, which the build generates; the environment, the processes and the signals that
  remove the file are not modelled.
\<close>

section \<open>Arguments\<close>

definition ext :: string where
  "ext = ''.co''"

record coc_options =
  source_file :: "string option"
  dest :: string
  dolink :: bool
  onlyFilter :: bool

definition initial_options :: coc_options where
  "initial_options = \<lparr>source_file = None, dest = [], dolink = True, onlyFilter = False\<rparr>"

definition is_co_file :: "string \<Rightarrow> bool" where
  "is_co_file a \<longleftrightarrow> length a > length ext \<and> drop (length a - length ext) a = ext"

fun transform_loop :: "string list \<Rightarrow> coc_options \<Rightarrow> (string list \<times> coc_options) outcome" where
  "transform_loop [] o1 = Ret ([], o1)"
| "transform_loop (a # as) o1 =
     (let o2 = (if a = ''-c'' then o1\<lparr>dolink := False\<rparr> else o1)
      in if a = ''-CO'' then
           obind (transform_loop as (o2\<lparr>onlyFilter := True\<rparr>)) (\<lambda>(bs, r). Ret (a # bs, r))
         else if is_co_file a then
           if source_file o2 \<noteq> None then Panic ''cannot compile more than one file''
           else obind (transform_loop as (o2\<lparr>source_file := Some a, dest := butlast a\<rparr>))
                  (\<lambda>(bs, r). Ret (butlast a # bs, r))
         else obind (transform_loop as o2) (\<lambda>(bs, r). Ret (a # bs, r)))"

text \<open>The first argument is the program; it becomes the value of CC or gcc.\<close>

definition transform_args :: "string option \<Rightarrow> string list \<Rightarrow> (string list \<times> coc_options) outcome" where
  "transform_args cc argv =
     obind (transform_loop (tl argv) initial_options) (\<lambda>(as, r).
       Ret ((case cc of None \<Rightarrow> ''gcc'' | Some c \<Rightarrow> c) # as, r))"

section \<open>Commands\<close>

text \<open>strcat to the buffer of 4096 bytes.\<close>

definition strcat :: "string \<Rightarrow> string \<Rightarrow> string outcome" where
  "strcat buffer t = (if length (buffer @ t) < 4096 then Ret (buffer @ t) else Fault)"

fun include_loop :: "string list \<Rightarrow> string \<Rightarrow> string outcome" where
  "include_loop [] buffer = Ret buffer"
| "include_loop (a # as) buffer =
     (if take 2 a = ''-I'' then obind (strcat buffer a) (\<lambda>b. obind (strcat b '' '') (include_loop as))
      else include_loop as buffer)"

definition parseIncludePaths :: "string \<Rightarrow> string list \<Rightarrow> string outcome" where
  "parseIncludePaths co_include_dir argv =
     obind (include_loop (tl argv) []) (\<lambda>b. strcat b ('' -I'' @ co_include_dir))"

fun join_loop :: "string list \<Rightarrow> string \<Rightarrow> string outcome" where
  "join_loop [] buffer = Ret buffer"
| "join_loop (a # as) buffer = obind (strcat buffer a) (\<lambda>b. obind (strcat b '' '') (join_loop as))"

definition coc_command :: "string \<Rightarrow> string \<Rightarrow> string list \<Rightarrow> coc_options \<Rightarrow> string outcome" where
  "coc_command co_include_dir co_lib argv r =
     (if onlyFilter r \<and> source_file r \<noteq> None then strcat [] (''cat '' @ dest r)
      else
        obind (join_loop argv []) (\<lambda>b.
          obind (if dolink r then strcat b ('' '' @ co_lib) else strcat b ('' -I'' @ co_include_dir)) (\<lambda>c.
            if source_file r \<noteq> None then strcat c '' -D__CO'' else Ret c)))"

text \<open>main: the file that is translated, with the include paths for cpp, the file written, and the
  command whose exit status main returns.\<close>

definition coc_main :: "string option \<Rightarrow> string \<Rightarrow> string \<Rightarrow> string list
    \<Rightarrow> ((string \<times> string \<times> string) option \<times> string) outcome" where
  "coc_main cc co_include_dir co_lib argv =
     obind (transform_args cc argv) (\<lambda>(as, r).
       obind (case source_file r of
                None \<Rightarrow> Ret None
              | Some f \<Rightarrow> obind (parseIncludePaths co_include_dir as) (\<lambda>p. Ret (Some (f, dest r, p)))) (\<lambda>job.
         obind (coc_command co_include_dir co_lib as r) (\<lambda>cmd. Ret (job, cmd))))"

section \<open>The command of a compilation\<close>

lemma transform_plain:
  "list_all (\<lambda>a. a \<noteq> ''-c'' \<and> a \<noteq> ''-CO'' \<and> \<not> is_co_file a) as \<Longrightarrow> transform_loop as r = Ret (as, r)"
  by (induction as) (simp_all add: Let_def)

lemma transform_loop_append:
  "transform_loop (as @ bs) r =
   obind (transform_loop as r) (\<lambda>(as', r1). obind (transform_loop bs r1) (\<lambda>(bs', r2). Ret (as' @ bs', r2)))"
proof (induction as arbitrary: r)
  case Nil
  then show ?case by (cases "transform_loop bs r") auto
next
  case (Cons a as)
  show ?case
    by (cases "transform_loop as r"; simp add: Cons.IH Let_def obind_assoc split_def del: split_paired_Ex)
qed

lemma join_loop_text:
  "length (b @ concat (map (\<lambda>a. a @ '' '') as)) < 4096 \<Longrightarrow> join_loop as b = Ret (b @ concat (map (\<lambda>a. a @ '' '') as))"
  by (induction as arbitrary: b) (simp_all add: strcat_def)

text \<open>Two .co files are refused.\<close>

lemma two_sources_refused:
  "is_co_file f \<Longrightarrow> is_co_file g \<Longrightarrow>
   list_all (\<lambda>a. a \<noteq> ''-c'' \<and> a \<noteq> ''-CO'' \<and> \<not> is_co_file a) as \<Longrightarrow>
   transform_loop (as @ f # g # bs) initial_options = Panic ''cannot compile more than one file''"
  by (auto simp: transform_loop_append transform_plain initial_options_def Let_def is_co_file_def ext_def)

definition spaced :: "string list \<Rightarrow> string" where
  "spaced as = concat (map (\<lambda>a. a @ '' '') as)"

lemma include_loop_text:
  "length (b @ spaced (filter (\<lambda>a. take 2 a = ''-I'') as)) < 4096 \<Longrightarrow>
   include_loop as b = Ret (b @ spaced (filter (\<lambda>a. take 2 a = ''-I'') as))"
proof (induction as arbitrary: b)
  case (Cons a as)
  show ?case
  proof (cases "take 2 a = ''-I''")
    case True
    then show ?thesis using Cons.prems Cons.IH [of "b @ a @ '' ''"] by (simp add: strcat_def spaced_def)
  next
    case False
    then show ?thesis using Cons by simp
  qed
qed (simp add: spaced_def)

text \<open>One .co file among other arguments: it is translated to the .c file of the same name with the
  include paths of the command line, and the command names the .c file in its place, the library,
  and the macro that tells the sources they are translated.\<close>

lemma one_source_compiled:
  assumes "list_all (\<lambda>a. a \<noteq> ''-c'' \<and> a \<noteq> ''-CO'' \<and> \<not> is_co_file a) (as @ bs)" "is_co_file f"
    and "length (spaced (compiler # as @ f # bs)) + length lib + length inc + 16 < 4096" "take 2 f \<noteq> ''-I''"
  shows "coc_main (Some compiler) inc lib (prog # as @ f # bs) =
    Ret (Some (f, butlast f, spaced (filter (\<lambda>a. take 2 a = ''-I'') (as @ bs)) @ '' -I'' @ inc),
         spaced (compiler # as @ butlast f # bs) @ '' '' @ lib @ '' -D__CO'')"
proof -
  have ab: "transform_loop as r = Ret (as, r)" "transform_loop bs r = Ret (bs, r)" for r
    using assms(1) by (simp_all add: transform_plain)
  have f: "f \<noteq> ''-c''" "f \<noteq> ''-CO''" "length f > 3" using assms(2) by (auto simp: is_co_file_def ext_def)
  let ?r = "\<lparr>source_file = Some f, dest = butlast f, dolink = True, onlyFilter = False\<rparr>"
  have t: "transform_args (Some compiler) (prog # as @ f # bs) = Ret (compiler # as @ butlast f # bs, ?r)"
    using assms(2) f by (simp add: transform_args_def transform_loop_append ab initial_options_def Let_def)
  have l: "length (spaced (filter P xs)) \<le> length (spaced xs)" for P xs
    by (induction xs) (auto simp: spaced_def)
  have "take 2 (butlast f) = take 2 f" using f(3) by (simp add: take_butlast)
  then have i: "filter (\<lambda>a. take 2 a = ''-I'') (as @ butlast f # bs) = filter (\<lambda>a. take 2 a = ''-I'') (as @ bs)"
    using assms(4) by simp
  have n: "length (spaced (compiler # as @ butlast f # bs)) + length lib + length inc + 16 < 4096"
    using assms(3) by (simp add: spaced_def)
  have "length (spaced (filter (\<lambda>a. take 2 a = ''-I'') (as @ bs))) \<le> length (spaced (as @ bs))" by (rule l)
  also have "\<dots> \<le> length (spaced (compiler # as @ butlast f # bs))" by (simp add: spaced_def)
  finally have p: "parseIncludePaths inc (compiler # as @ butlast f # bs) =
      Ret (spaced (filter (\<lambda>a. take 2 a = ''-I'') (as @ bs)) @ '' -I'' @ inc)"
    using n include_loop_text [of "[]" "as @ butlast f # bs"] unfolding parseIncludePaths_def i
    by (simp add: strcat_def)
  have "join_loop (compiler # as @ butlast f # bs) [] = Ret (spaced (compiler # as @ butlast f # bs))"
    using join_loop_text [of "[]" "compiler # as @ butlast f # bs"] n by (simp add: spaced_def del: join_loop.simps)
  then have "coc_command inc lib (compiler # as @ butlast f # bs) ?r =
      Ret (spaced (compiler # as @ butlast f # bs) @ '' '' @ lib @ '' -D__CO'')"
    using n by (simp add: coc_command_def strcat_def del: join_loop.simps)
  then show ?thesis using t p by (simp add: coc_main_def)
qed

end
