(* ===== verification/Pool.thy ===== *)
theory Pool
  imports Stand Avl
begin

text \<open>
  kernel/mm/pool.co and include/mm/pool.h: the pool allocator.  A pool hands out page ranges of
  a region; its metadata are slots in a chunk at the start of the region.  A used slot is a node
  of a search tree by address, a free slot an entry of the free list, and the slots that
  describe nothing are linked in the chunk.  A slot is one of the three at a time, so its tree
  links and its two list links are kept apart here although they share memory.  There is one
  chunk: growing the chunk list is a plan of the code.  What pageIn of the superclass does is
  no part of the pool's state.
\<close>

section \<open>Slots and chunks\<close>

datatype pool_node = PoolFreeList | ChunkUnallocated | FreeLink nat | UnallocatedLink nat

definition POOL_SLOT_UNALLOCATED :: u8 where "POOL_SLOT_UNALLOCATED = 0"
definition POOL_SLOT_ALLOCATED :: u8 where "POOL_SLOT_ALLOCATED = 1"
definition POOL_SLOT_FREE :: u8 where "POOL_SLOT_FREE = 2 OR POOL_SLOT_ALLOCATED"
definition POOL_SLOT_USED :: u8 where "POOL_SLOT_USED = 4 OR POOL_SLOT_ALLOCATED"

text \<open>sizeof(pool_chunk_t) is 18 and sizeof(pool_slot_t) is 25: both are packed.\<close>

definition POOL_SLOTS_IN_CHUNK :: nat where
  "POOL_SLOTS_IN_CHUNK = (4096 - 18) div 25"

record pool =
  region_start :: u32
  region_length :: u32
  usedRoot :: "nat avl_heap"
  slot_start :: "nat \<Rightarrow> u32"
  slot_length :: "nat \<Rightarrow> u32"
  slot_type :: "nat \<Rightarrow> u8"
  pool_links :: "pool_node lheap"
  numUnallocatedSlots :: u16

definition pool_slot_t_avlmatch :: "(nat \<Rightarrow> u32) \<Rightarrow> (nat \<Rightarrow> u32) \<Rightarrow> u32 \<Rightarrow> nat \<Rightarrow> int" where
  "pool_slot_t_avlmatch start len k b =
     (if start b \<le> k \<and> k < start b + len b then 0 else if k < start b then -1 else 1)"

text \<open>The body of the loop of pool_initChunk.\<close>

definition init_slot :: "nat \<Rightarrow> pool \<Rightarrow> pool" where
  "init_slot i p = p\<lparr>pool_links := list_add_tail (UnallocatedLink i) ChunkUnallocated (pool_links p),
     slot_type := (slot_type p)(i := POOL_SLOT_UNALLOCATED)\<rparr>"

definition pool_initChunk :: "pool \<Rightarrow> pool" where
  "pool_initChunk p =
     fold init_slot [0..<POOL_SLOTS_IN_CHUNK]
       (p\<lparr>pool_links := INIT_LIST_HEAD ChunkUnallocated (pool_links p),
          numUnallocatedSlots := of_nat POOL_SLOTS_IN_CHUNK\<rparr>)"

definition pool_chunk_allocSlot :: "pool \<Rightarrow> (nat option \<times> pool) outcome" where
  "pool_chunk_allocSlot p =
     (if numUnallocatedSlots p < 2 then Ret (None, p)
      else
        (case nxt (pool_links p) ChunkUnallocated of
           UnallocatedLink i \<Rightarrow>
             Ret (Some i, p\<lparr>pool_links := list_del (UnallocatedLink i) (pool_links p),
                            slot_type := (slot_type p)(i := POOL_SLOT_ALLOCATED),
                            numUnallocatedSlots := numUnallocatedSlots p - 1\<rparr>)
         | _ \<Rightarrow> Fault))"

text \<open>The loop over the chunks meets one.\<close>

definition pool_allocSlot :: "pool \<Rightarrow> (nat option \<times> pool) outcome" where
  "pool_allocSlot p = pool_chunk_allocSlot p"

section \<open>Ranges\<close>

definition use_slot :: "nat \<Rightarrow> u32 \<Rightarrow> u32 \<Rightarrow> pool \<Rightarrow> pool outcome" where
  "use_slot i start len p =
     (let p1 = p\<lparr>slot_type := (slot_type p)(i := POOL_SLOT_USED), slot_start := (slot_start p)(i := start),
                 slot_length := (slot_length p)(i := len), usedRoot := null_avl_node i (usedRoot p)\<rparr>
      in obind (avl_add (POOL_SLOTS_IN_CHUNK + 1) (avl_make_compare (slot_start p1)) i Root (usedRoot p1))
           (\<lambda>(h, _). Ret (p1\<lparr>usedRoot := h\<rparr>)))"

definition pool_createUsedSlot :: "u32 \<Rightarrow> u32 \<Rightarrow> pool \<Rightarrow> (nat \<times> pool) outcome" where
  "pool_createUsedSlot start len p =
     obind (pool_allocSlot p) (\<lambda>(slot, p1).
       case slot of
         None \<Rightarrow> Panic ''POOL: cannot allocate slot''
       | Some i \<Rightarrow> obind (use_slot i start len p1) (\<lambda>p2. Ret (i, p2)))"

text \<open>An exhausted free slot goes back to the chunk; the counter of the chunk stays as it is.\<close>

definition pool_allocRangeInFreeSlot :: "nat \<Rightarrow> u32 \<Rightarrow> pool \<Rightarrow> (u32 \<times> pool) outcome" where
  "pool_allocRangeInFreeSlot f sz p =
     obind (pool_createUsedSlot (slot_start p f) sz p) (\<lambda>(u, p1).
       (let p2 = p1\<lparr>slot_start := (slot_start p1)(f := slot_start p1 f + sz),
                    slot_length := (slot_length p1)(f := slot_length p1 f - sz)\<rparr>;
            p3 = (if slot_length p2 f = 0
                  then p2\<lparr>pool_links := list_add (UnallocatedLink f) ChunkUnallocated
                                          (list_del (FreeLink f) (pool_links p2)),
                          slot_type := (slot_type p2)(f := POOL_SLOT_UNALLOCATED)\<rparr>
                  else p2)
        in Ret (slot_start p3 u, p3)))"

definition pool_init :: "u32 \<Rightarrow> u32 \<Rightarrow> pool \<Rightarrow> pool outcome" where
  "pool_init start len p0 =
     (let p1 = p0\<lparr>region_start := start, region_length := len, usedRoot := (usedRoot p0)\<lparr>avl_root := None\<rparr>,
                  pool_links := INIT_LIST_HEAD PoolFreeList (pool_links p0)\<rparr>;
          p2 = pool_initChunk p1
      in obind (pool_chunk_allocSlot p2) (\<lambda>(s, p3).
           case s of
             None \<Rightarrow> Fault
           | Some i \<Rightarrow>
               obind (use_slot i start PAGE_SIZE p3) (\<lambda>p4.
                 obind (pool_chunk_allocSlot p4) (\<lambda>(s2, p5).
                   case s2 of
                     None \<Rightarrow> Fault
                   | Some j \<Rightarrow>
                       Ret (p5\<lparr>slot_type := (slot_type p5)(j := POOL_SLOT_FREE),
                               slot_start := (slot_start p5)(j := start + PAGE_SIZE),
                               slot_length := (slot_length p5)(j := len - PAGE_SIZE),
                               pool_links := list_add (FreeLink j) PoolFreeList (pool_links p5)\<rparr>)))))"

text \<open>pageIn: only addresses in a used range may be paged in, once there is one.\<close>

definition pool_pageIn :: "u32 \<Rightarrow> pool \<Rightarrow> unit outcome" where
  "pool_pageIn addr p =
     (if avl_root (usedRoot p) = None then Ret ()
      else obind (avl_find (POOL_SLOTS_IN_CHUNK + 1) (pool_slot_t_avlmatch (slot_start p) (slot_length p)) addr (usedRoot p))
             (\<lambda>slot. case slot of None \<Rightarrow> Panic ''SIGSEGV'' | Some _ \<Rightarrow> Ret ()))"

fun free_slot_loop :: "nat \<Rightarrow> pool \<Rightarrow> u32 \<Rightarrow> pool_node \<Rightarrow> nat option outcome" where
  "free_slot_loop fuel p sz pos =
     (case pos of
        PoolFreeList \<Rightarrow> Ret None
      | FreeLink f \<Rightarrow>
          (case fuel of 0 \<Rightarrow> Timeout
           | Suc n \<Rightarrow> if sz \<le> slot_length p f then Ret (Some f)
                      else free_slot_loop n p sz (nxt (pool_links p) pos))
      | _ \<Rightarrow> Fault)"

declare free_slot_loop.simps [simp del]

definition pool_allocRange :: "u32 \<Rightarrow> pool \<Rightarrow> (u32 \<times> pool) outcome" where
  "pool_allocRange pages p =
     (if list_empty PoolFreeList (pool_links p) then Panic ''FREE LIST EMPTY''
      else
        obind (free_slot_loop POOL_SLOTS_IN_CHUNK p (pages * PAGE_SIZE) (nxt (pool_links p) PoolFreeList)) (\<lambda>f.
          case f of None \<Rightarrow> Ret (0, p) | Some i \<Rightarrow> pool_allocRangeInFreeSlot i (pages * PAGE_SIZE) p))"

definition pool_freeRange :: "u32 \<Rightarrow> pool \<Rightarrow> pool outcome" where
  "pool_freeRange addr p =
     obind (avl_find (POOL_SLOTS_IN_CHUNK + 1) (pool_slot_t_avlmatch (slot_start p) (slot_length p)) addr (usedRoot p))
       (\<lambda>slot. case slot of
          None \<Rightarrow> Panic ''cannot free non allocated range''
        | Some i \<Rightarrow>
            obind (avl_delete (2 * POOL_SLOTS_IN_CHUNK + 2) (avl_make_compare (slot_start p)) i Root (usedRoot p)) (\<lambda>(h, _).
              Ret (p\<lparr>usedRoot := h, slot_type := (slot_type p)(i := POOL_SLOT_FREE),
                     pool_links := list_add (FreeLink i) PoolFreeList (pool_links p)\<rparr>)))"

text \<open>mm_pool_init: the non paged pool, behind the kernel.\<close>

definition NON_PAGED_POOL_SIZE :: u32 where
  "NON_PAGED_POOL_SIZE = 0x4000000"

definition mm_pool_init :: "stand_boot_context \<Rightarrow> pool \<Rightarrow> pool outcome" where
  "mm_pool_init ctx p0 =
     obind (stand_getNextFreeVirtual (kernelBase ctx) (NON_PAGED_POOL_SIZE div PAGE_SIZE) ctx) (\<lambda>zone.
       pool_init zone NON_PAGED_POOL_SIZE p0)"

end
