(* ===== verification/Pool_Props.thy ===== *)
theory Pool_Props
  imports "HOL-Library.Disjoint_Sets" Pool Avl_Props
begin

text \<open>
  The slots of a pool describe its region: used and free ranges cover it without overlap, and
  pool_allocRange hands out a part of a free range.
\<close>

section \<open>What the slots describe\<close>

definition bytes_of_slot :: "pool \<Rightarrow> nat \<Rightarrow> nat set" where
  "bytes_of_slot p i = {unat (slot_start p i)..<unat (slot_start p i) + unat (slot_length p i)}"

text \<open>U are the unallocated slots, F the free ones, in the order of their lists, and T the used
  ones.\<close>

definition pool_ok :: "pool \<Rightarrow> nat list \<Rightarrow> nat list \<Rightarrow> nat set \<Rightarrow> bool" where
  "pool_ok p U F T \<longleftrightarrow>
     dll (pool_links p) ChunkUnallocated (map UnallocatedLink U) \<and>
     dll (pool_links p) PoolFreeList (map FreeLink F) \<and>
     (\<exists>t. tree_at (usedRoot p) (avl_root (usedRoot p)) t \<and> balanced t \<and> sorted_keys (slot_start p) t \<and> nodes t = T) \<and>
     set U \<inter> set F = {} \<and> (set U \<union> set F) \<inter> T = {} \<and> set U \<union> set F \<union> T \<subseteq> {..<POOL_SLOTS_IN_CHUNK} \<and>
     unat (numUnallocatedSlots p) \<le> length U \<and>
     (\<forall>i \<in> set F \<union> T. slot_length p i \<noteq> 0 \<and> unat (slot_start p i) + unat (slot_length p i) \<le> 4294967296) \<and>
     disjoint_family_on (bytes_of_slot p) (set F \<union> T) \<and>
     (\<Union>i \<in> set F \<union> T. bytes_of_slot p i) =
       {unat (region_start p)..<unat (region_start p) + unat (region_length p)}"

lemma pool_okD:
  assumes "pool_ok p U F T"
  shows "dll (pool_links p) ChunkUnallocated (map UnallocatedLink U)" "dll (pool_links p) PoolFreeList (map FreeLink F)"
    "set U \<inter> set F = {}" "(set U \<union> set F) \<inter> T = {}" "set U \<union> set F \<union> T \<subseteq> {..<POOL_SLOTS_IN_CHUNK}"
    "unat (numUnallocatedSlots p) \<le> length U" "disjoint_family_on (bytes_of_slot p) (set F \<union> T)"
    "(\<Union>i \<in> set F \<union> T. bytes_of_slot p i) =
       {unat (region_start p)..<unat (region_start p) + unat (region_length p)}"
    "i \<in> set F \<union> T \<Longrightarrow> slot_length p i \<noteq> 0 \<and> unat (slot_start p i) + unat (slot_length p i) \<le> 4294967296"
  using assms unfolding pool_ok_def by blast+

lemma pool_ok_distinct: "pool_ok p U F T \<Longrightarrow> distinct U \<and> distinct F"
  using dll_distinct [of "pool_links p" ChunkUnallocated "map UnallocatedLink U"]
    dll_distinct [of "pool_links p" PoolFreeList "map FreeLink F"]
  by (auto simp: pool_ok_def distinct_map)

lemma pool_ok_disjoint:
  "pool_ok p U F T \<Longrightarrow> i \<in> set F \<union> T \<Longrightarrow> j \<in> set F \<union> T \<Longrightarrow> i \<noteq> j \<Longrightarrow> bytes_of_slot p i \<inter> bytes_of_slot p j = {}"
  using pool_okD(7) [of p U F T] unfolding disjoint_family_on_def by blast

lemma sorted_wrt_distinct:
  "distinct xs \<Longrightarrow> (\<And>x y. x \<in> set xs \<Longrightarrow> y \<in> set xs \<Longrightarrow> x \<noteq> y \<Longrightarrow> P x y) \<Longrightarrow> sorted_wrt P xs"
  by (induction xs) auto

lemma behind: "A \<subseteq> {a..<c} \<Longrightarrow> A \<inter> {a..<b} = {} \<Longrightarrow> A \<subseteq> {b..<c :: nat}"
proof
  fix x assume "A \<subseteq> {a..<c}" "A \<inter> {a..<b} = {}" "x \<in> A"
  then have "x \<in> {a..<c}" "x \<notin> {a..<b}" by blast+
  then show "x \<in> {b..<c}" by auto
qed

lemma tree_small:
  assumes "sorted_keys key t" "nodes t \<subseteq> {..<n}"
  shows "height t \<le> n"
proof -
  have "height t \<le> card (nodes t)" using height_card key_order.sorted_keys_uniq [OF assms(1)] by blast
  also have "\<dots> \<le> card {..<n}" using assms(2) by (rule card_mono [rotated]) simp
  finally show ?thesis by simp
qed

lemma sorted_keys_eq: "(\<And>x. x \<in> nodes t \<Longrightarrow> f x = g x) \<Longrightarrow> sorted_keys f t = sorted_keys g t"
proof -
  assume "\<And>x. x \<in> nodes t \<Longrightarrow> f x = g x"
  moreover have "set (map fst (inorder t)) = nodes t" by (simp add: nodes_def)
  ultimately have "map f (map fst (inorder t)) = map g (map fst (inorder t))" by (metis map_cong)
  then show ?thesis unfolding sorted_keys_def by (simp only:)
qed

section \<open>Allocation\<close>

lemma allocSlot_first:
  assumes "dll (pool_links p) ChunkUnallocated (map UnallocatedLink (u # U))" "2 \<le> numUnallocatedSlots p"
  shows "pool_chunk_allocSlot p = Ret (Some u, p\<lparr>pool_links := list_del (UnallocatedLink u) (pool_links p),
      slot_type := (slot_type p)(u := POOL_SLOT_ALLOCATED), numUnallocatedSlots := numUnallocatedSlots p - 1\<rparr>)"
    "dll (list_del (UnallocatedLink u) (pool_links p)) ChunkUnallocated (map UnallocatedLink U)"
proof -
  have "nxt (pool_links p) ChunkUnallocated = UnallocatedLink u" using dll_first [OF assms(1)] by simp
  then show "pool_chunk_allocSlot p = Ret (Some u, p\<lparr>pool_links := list_del (UnallocatedLink u) (pool_links p),
      slot_type := (slot_type p)(u := POOL_SLOT_ALLOCATED), numUnallocatedSlots := numUnallocatedSlots p - 1\<rparr>)"
    using assms(2) by (simp add: pool_chunk_allocSlot_def)
  show "dll (list_del (UnallocatedLink u) (pool_links p)) ChunkUnallocated (map UnallocatedLink U)"
    using dll_del [of "pool_links p" ChunkUnallocated "[]" "UnallocatedLink u" "map UnallocatedLink U"] assms(1) by simp
qed

text \<open>A node with a new key enters a tree.\<close>

lemma add_fresh_node:
  assumes t: "tree_at h (avl_root h) t" "balanced t" "sorted_keys key t"
    and n: "height t < fuel" "u \<notin> nodes t" "\<And>i. i \<in> nodes t \<Longrightarrow> key i \<noteq> key u"
  shows "\<exists>h' t' res. avl_add fuel (avl_make_compare key) u Root (null_avl_node u h) = Ret (h', res) \<and>
    tree_at h' (avl_root h') t' \<and> balanced t' \<and> sorted_keys key t' \<and> nodes t' = insert u (nodes t)"
proof -
  have r: "avl_root (null_avl_node u h) = avl_root h" by (simp add: null_avl_node_def set_skew_def)
  have t1: "tree_at (null_avl_node u h) (avl_root (null_avl_node u h)) t" unfolding r using t(1) n(2) by (rule tree_at_null)
  have fr: "fresh (null_avl_node u h) u" by (simp add: fresh_def null_avl_node_def set_skew_def)
  have "\<not> (\<exists>y \<in> nodes t. key y = key u)" using n(3) by auto
  then show ?thesis using avl_add_ok [OF t1 t(2,3) n(2) fr n(1)] by auto
qed

text \<open>A fresh slot enters the tree of used slots when no used slot starts where it does.\<close>

lemma use_slot_tree:
  assumes t: "tree_at (usedRoot p) (avl_root (usedRoot p)) t" "balanced t" "sorted_keys (slot_start p) t"
    and n: "nodes t \<subseteq> {..<POOL_SLOTS_IN_CHUNK}" "u \<notin> nodes t" "\<And>i. i \<in> nodes t \<Longrightarrow> slot_start p i \<noteq> start"
  shows "\<exists>h t'. use_slot u start len p = Ret (p\<lparr>slot_type := (slot_type p)(u := POOL_SLOT_USED),
      slot_start := (slot_start p)(u := start), slot_length := (slot_length p)(u := len), usedRoot := h\<rparr>) \<and>
    tree_at h (avl_root h) t' \<and> balanced t' \<and> sorted_keys ((slot_start p)(u := start)) t' \<and> nodes t' = insert u (nodes t)"
proof -
  let ?k = "(slot_start p)(u := start)"
  have s: "sorted_keys ?k t" using t(3) sorted_keys_eq [of t ?k "slot_start p"] n(2) by (metis fun_upd_other)
  have hh: "height t < POOL_SLOTS_IN_CHUNK + 1" using tree_small [OF t(3) n(1)] by simp
  have "?k i \<noteq> ?k u" if "i \<in> nodes t" for i using n(2,3) that by auto
  from add_fresh_node [OF t(1,2) s hh n(2) this] obtain h t' res where
    "avl_add (POOL_SLOTS_IN_CHUNK + 1) (avl_make_compare ?k) u Root (null_avl_node u (usedRoot p)) = Ret (h, res)"
    "tree_at h (avl_root h) t'" "balanced t'" "sorted_keys ?k t'" "nodes t' = insert u (nodes t)" by blast
  then show ?thesis by (intro exI [of _ h] exI [of _ t']) (simp add: use_slot_def Let_def)
qed

text \<open>The search for the first free slot that is long enough.\<close>

lemma free_slot_loop_finds:
  "linked h a (map FreeLink F) PoolFreeList \<Longrightarrow> h = pool_links p \<Longrightarrow> length F \<le> n \<Longrightarrow>
   free_slot_loop n p sz (nxt h a) = Ret (find (\<lambda>f. sz \<le> slot_length p f) F)"
proof (induction F arbitrary: a n)
  case Nil
  then show ?case by (simp add: free_slot_loop.simps [of n])
next
  case (Cons f F)
  then obtain m where m: "n = Suc m" by (cases n) auto
  have "free_slot_loop m p sz (nxt h (FreeLink f)) = Ret (find (\<lambda>f. sz \<le> slot_length p f) F)"
    using Cons m by simp
  then show ?case using Cons.prems m by (simp add: free_slot_loop.simps [of "Suc m"])
qed

lemma free_slot_search:
  assumes "pool_ok p U F T"
  shows "free_slot_loop POOL_SLOTS_IN_CHUNK p sz (nxt (pool_links p) PoolFreeList) = Ret (find (\<lambda>f. sz \<le> slot_length p f) F)"
proof -
  have "card (set F) \<le> card {..<POOL_SLOTS_IN_CHUNK}" using pool_okD(5) [OF assms] by (intro card_mono) auto
  then have "length F \<le> POOL_SLOTS_IN_CHUNK" using pool_ok_distinct [OF assms] distinct_card by fastforce
  then show ?thesis
    using free_slot_loop_finds [of "pool_links p" PoolFreeList F p] pool_okD(2) [OF assms] by (simp add: dll_def)
qed

text \<open>A range that splits in two, of which a new slot takes the first part.\<close>

lemma split_family:
  assumes "disjoint_family_on B I" "f \<in> I" "u \<notin> I" "B f = X \<union> Y" "X \<inter> Y = {}"
  shows "disjoint_family_on (B(u := X, f := Y)) (insert u I)"
    "(\<Union>i \<in> insert u I. (B(u := X, f := Y)) i) = (\<Union>i \<in> I. B i)"
proof -
  have d: "B i \<inter> B j = {}" if "i \<in> I" "j \<in> I" "i \<noteq> j" for i j
    using assms(1) that by (simp add: disjoint_family_on_def)
  have n: "u \<noteq> f" using assms(2,3) by blast
  show "disjoint_family_on (B(u := X, f := Y)) (insert u I)"
  proof (unfold disjoint_family_on_def, intro ballI impI)
    fix i j assume m: "i \<in> insert u I" "j \<in> insert u I" "i \<noteq> j"
    have f: "B f \<inter> B k = {}" if "k \<in> I" "k \<noteq> f" for k using d [OF assms(2)] that by blast
    show "(B(u := X, f := Y)) i \<inter> (B(u := X, f := Y)) j = {}"
      using m n f [of i] f [of j] d [of i j] assms(3-5) by (cases "i = u"; cases "j = u"; cases "i = f"; cases "j = f") auto
  qed
  show "(\<Union>i \<in> insert u I. (B(u := X, f := Y)) i) = (\<Union>i \<in> I. B i)"
    using assms(2-4) n by (auto split: if_splits)
qed

definition take_range :: "nat \<Rightarrow> nat \<Rightarrow> u32 \<Rightarrow> nat avl_heap \<Rightarrow> pool \<Rightarrow> pool" where
  "take_range u f sz h p =
     p\<lparr>pool_links := list_del (UnallocatedLink u) (pool_links p), numUnallocatedSlots := numUnallocatedSlots p - 1,
       slot_type := (slot_type p)(u := POOL_SLOT_USED), usedRoot := h,
       slot_start := (slot_start p)(u := slot_start p f, f := slot_start p f + sz),
       slot_length := (slot_length p)(u := sz, f := slot_length p f - sz)\<rparr>"

definition drop_slot :: "nat \<Rightarrow> pool \<Rightarrow> pool" where
  "drop_slot f p = p\<lparr>pool_links := list_add (UnallocatedLink f) ChunkUnallocated (list_del (FreeLink f) (pool_links p)),
     slot_type := (slot_type p)(f := POOL_SLOT_UNALLOCATED)\<rparr>"

lemma take_bytes:
  assumes "u \<noteq> f" "sz \<le> slot_length p f" "unat (slot_start p f) + unat (slot_length p f) \<le> 4294967296"
  shows "bytes_of_slot (take_range u f sz h p) =
    (bytes_of_slot p)(u := {unat (slot_start p f)..<unat (slot_start p f) + unat sz},
      f := {unat (slot_start p f) + unat sz..<unat (slot_start p f) + unat (slot_length p f)})"
proof -
  have l: "unat sz \<le> unat (slot_length p f)" using assms(2) by (simp add: word_le_nat_alt)
  have m: "unat (slot_length p f - sz) = unat (slot_length p f) - unat sz" using assms(2) by (rule unat_sub)
  have "bytes_of_slot (take_range u f sz h p) f =
      {unat (slot_start p f) + unat sz..<unat (slot_start p f) + unat (slot_length p f)}"
  proof (cases "unat sz = unat (slot_length p f)")
    case True
    then show ?thesis using m by (simp add: bytes_of_slot_def take_range_def)
  next
    case False
    then have "unat (slot_start p f + sz) = unat (slot_start p f) + unat sz"
      using l assms(3) by (intro unat_add_lem [THEN iffD1]) simp
    then show ?thesis using m l by (simp add: bytes_of_slot_def take_range_def)
  qed
  then show ?thesis using assms(1) by (auto simp: fun_eq_iff bytes_of_slot_def take_range_def)
qed

text \<open>The lists of the pool after the two ways a range is taken.\<close>

lemma take_lists:
  assumes "dll h ChunkUnallocated (map UnallocatedLink (u # U))" "dll h PoolFreeList (map FreeLink F)"
  shows "dll (list_del (UnallocatedLink u) h) ChunkUnallocated (map UnallocatedLink U)"
    "dll (list_del (UnallocatedLink u) h) PoolFreeList (map FreeLink F)"
  using dll_del [of h ChunkUnallocated "[]" "UnallocatedLink u" "map UnallocatedLink U"] assms
  by (auto intro!: frame_intros)

lemma drop_lists:
  assumes U: "dll h ChunkUnallocated (map UnallocatedLink U)" and F: "dll h PoolFreeList (map FreeLink F)"
    and f: "f \<in> set F" "f \<notin> set U"
  shows "dll (list_add (UnallocatedLink f) ChunkUnallocated (list_del (FreeLink f) h)) ChunkUnallocated
      (map UnallocatedLink (f # U))"
    "dll (list_add (UnallocatedLink f) ChunkUnallocated (list_del (FreeLink f) h)) PoolFreeList (map FreeLink (remove1 f F))"
proof -
  let ?h = "list_del (FreeLink f) h"
  have "distinct F" using dll_distinct [OF F] by (simp add: distinct_map)
  with f(1) obtain F1 F2 where s: "F = F1 @ f # F2" "remove1 f F = F1 @ F2" by (rule distinct_split_at)
  have U': "dll ?h ChunkUnallocated (map UnallocatedLink U)" using U F by (rule dll_frame_list_del) (use f in auto)
  have F': "dll ?h PoolFreeList (map FreeLink (remove1 f F))" using dll_del F s by (simp add: s)
  show "dll (list_add (UnallocatedLink f) ChunkUnallocated ?h) ChunkUnallocated (map UnallocatedLink (f # U))"
    using dll_add_after_head [OF U'] f(2) by auto
  show "dll (list_add (UnallocatedLink f) ChunkUnallocated ?h) PoolFreeList (map FreeLink (remove1 f F))"
    using F' U' by (rule dll_frame_list_add) auto
qed

lemma allocRangeInFreeSlot_runs:
  assumes ok: "pool_ok p (u # U) F T" and f: "f \<in> set F" "sz \<noteq> 0" "sz \<le> slot_length p f" and n: "2 \<le> numUnallocatedSlots p"
  shows "\<exists>h t. pool_allocRangeInFreeSlot f sz p = Ret (slot_start p f,
      (if sz = slot_length p f then drop_slot f else id) (take_range u f sz h p)) \<and>
    tree_at h (avl_root h) t \<and> balanced t \<and> sorted_keys (slot_start (take_range u f sz h p)) t \<and> nodes t = insert u T"
proof -
  note d = pool_okD [OF ok]
  obtain t where t: "tree_at (usedRoot p) (avl_root (usedRoot p)) t" "balanced t" "sorted_keys (slot_start p) t" "nodes t = T"
    using ok by (auto simp: pool_ok_def)
  let ?p = "p\<lparr>pool_links := list_del (UnallocatedLink u) (pool_links p),
      slot_type := (slot_type p)(u := POOL_SLOT_ALLOCATED), numUnallocatedSlots := numUnallocatedSlots p - 1\<rparr>"
  have s: "slot_start p i \<noteq> slot_start p f" if "i \<in> T" for i
  proof
    assume e: "slot_start p i = slot_start p f"
    have "i \<noteq> f" using that f(1) d(4) by auto
    then have "bytes_of_slot p i \<inter> bytes_of_slot p f = {}"
      using pool_ok_disjoint [OF ok] that f(1) by blast
    moreover have "slot_length p i \<noteq> 0" "slot_length p f \<noteq> 0" using d(9) that f(1) by auto
    ultimately show False using e by (auto simp: bytes_of_slot_def disjoint_iff unat_eq_0 dest: spec [of _ "unat (slot_start p f)"])
  qed
  have uf: "u \<noteq> f" "u \<notin> T" "f \<notin> T" using d(3,4) f(1) by auto
  from use_slot_tree [of ?p t u "slot_start p f" sz] t uf(2) s d(5) obtain h t' where
    h: "use_slot u (slot_start p f) sz ?p = Ret (?p\<lparr>slot_type := (slot_type ?p)(u := POOL_SLOT_USED),
      slot_start := (slot_start ?p)(u := slot_start p f), slot_length := (slot_length ?p)(u := sz), usedRoot := h\<rparr>)"
    and t': "tree_at h (avl_root h) t'" "balanced t'" "sorted_keys ((slot_start p)(u := slot_start p f)) t'" "nodes t' = insert u T"
    by auto
  have "sorted_keys (slot_start (take_range u f sz h p)) t'"
    using t'(3)
  proof (rule sorted_keys_eq [THEN iffD2, rotated])
    fix x assume "x \<in> nodes t'"
    then show "slot_start (take_range u f sz h p) x = ((slot_start p)(u := slot_start p f)) x"
      using t'(4) uf by (auto simp: take_range_def)
  qed
  moreover have "pool_allocRangeInFreeSlot f sz p = Ret (slot_start p f,
      (if sz = slot_length p f then drop_slot f else id) (take_range u f sz h p))"
    using allocSlot_first(1) [OF d(1) n] h uf(1)
    by (auto simp: pool_allocRangeInFreeSlot_def pool_createUsedSlot_def pool_allocSlot_def Let_def take_range_def drop_slot_def)
  ultimately show ?thesis using t' by blast
qed

lemma take_ok:
  assumes ok: "pool_ok p (u # U) F T" and f: "f \<in> set F" "sz \<noteq> 0" "sz \<le> slot_length p f" and n: "2 \<le> numUnallocatedSlots p"
    and t: "tree_at h (avl_root h) t" "balanced t" "sorted_keys (slot_start (take_range u f sz h p)) t" "nodes t = insert u T"
  shows "pool_ok ((if sz = slot_length p f then drop_slot f else id) (take_range u f sz h p))
    (if sz = slot_length p f then f # U else U) (if sz = slot_length p f then remove1 f F else F) (insert u T)"
proof -
  note d = pool_okD [OF ok]
  let ?q = "take_range u f sz h p"
  have uf: "u \<noteq> f" "u \<notin> set F" "u \<notin> set U" "u \<notin> T" "f \<notin> T" "f \<notin> set U" "distinct F"
    using d(3,4) f(1) pool_ok_distinct [OF ok] by auto
  have fl: "unat (slot_start p f) + unat (slot_length p f) \<le> 4294967296" using d(9) f(1) by blast
  let ?a = "unat (slot_start p f)"
  let ?X = "{?a..<?a + unat sz}" and ?Y = "{?a + unat sz..<?a + unat (slot_length p f)}"
  have B: "bytes_of_slot ?q = (bytes_of_slot p)(u := ?X, f := ?Y)" using uf(1) f(3) fl by (rule take_bytes)
  have le: "unat sz \<le> unat (slot_length p f)" using f(3) by (simp add: word_le_nat_alt)
  have XY: "bytes_of_slot p f = ?X \<union> ?Y" "?X \<inter> ?Y = {}" using le by (auto simp: bytes_of_slot_def)
  have sp: "disjoint_family_on (bytes_of_slot ?q) (insert u (set F \<union> T))"
    "(\<Union>i \<in> insert u (set F \<union> T). bytes_of_slot ?q i) = {unat (region_start p)..<unat (region_start p) + unat (region_length p)}"
    unfolding B d(8) [symmetric]
    by (rule split_family [OF d(7) _ _ XY]; use f(1) uf(2,4) in simp)+
  have links: "dll (pool_links ?q) ChunkUnallocated (map UnallocatedLink U)" "dll (pool_links ?q) PoolFreeList (map FreeLink F)"
    using take_lists [OF d(1,2)] by (simp_all add: take_range_def)
  have num: "unat (numUnallocatedSlots ?q) \<le> length U"
    using d(6) n by (simp add: take_range_def unat_sub word_le_nat_alt)
  have a2: "sz \<noteq> slot_length p f \<Longrightarrow> unat (slot_start p f + sz) = ?a + unat sz \<and> slot_length p f - sz \<noteq> 0"
    using le fl by (auto intro!: unat_add_lem [THEN iffD1] simp: word_unat_eq_iff [of sz])
  have ends: "slot_length ?q i \<noteq> 0 \<and> unat (slot_start ?q i) + unat (slot_length ?q i) \<le> 4294967296"
    if "i \<in> insert u (set F \<union> T)" "i = f \<Longrightarrow> sz \<noteq> slot_length p f" for i
    using that d(9) [of i] a2 fl le f(2) uf(1) unat_sub [OF f(3)] by (auto simp: take_range_def)
  show ?thesis
  proof (cases "sz = slot_length p f")
    case False
    then show ?thesis
      using d uf links num sp t ends unfolding pool_ok_def by (auto simp: take_range_def)
  next
    case True
    let ?I = "set (remove1 f F) \<union> insert u T"
    have "bytes_of_slot ?q f = {}" using True B by simp
    moreover have I: "insert u (set F \<union> T) = insert f ?I" "f \<notin> ?I" using f(1) uf by auto
    ultimately have "disjoint_family_on (bytes_of_slot ?q) ?I" "(\<Union>i \<in> ?I. bytes_of_slot ?q i) =
       {unat (region_start p)..<unat (region_start p) + unat (region_length p)}"
      using sp by (auto simp: disjoint_family_on_def)
    moreover have "bytes_of_slot (drop_slot f ?q) = bytes_of_slot ?q" by (auto simp: bytes_of_slot_def drop_slot_def)
    moreover have "slot_length ?q i \<noteq> 0 \<and> unat (slot_start ?q i) + unat (slot_length ?q i) \<le> 4294967296" if "i \<in> ?I" for i
      using ends [of i] I that by blast
    moreover note drop_lists [OF links f(1) uf(6)]
    ultimately show ?thesis
      using True d uf num t f(1) unfolding pool_ok_def by (auto simp: drop_slot_def take_range_def)
  qed
qed

text \<open>pool_allocRange hands out the start of the first free range that is long enough, and the
  pool still describes its region: the range handed out is the new used slot, the others are
  as they were.  It returns 0 when no free range is long enough and panics when there is no
  free range at all or when the chunk has no slot left for the used range.\<close>
lemma pool_allocRange_ok:
  assumes "pool_ok p U F T" "0 < unat pages" "unat pages < 1048576"
  shows "case find (\<lambda>f. pages * PAGE_SIZE \<le> slot_length p f) F of
      None \<Rightarrow> pool_allocRange pages p = (if F = [] then Panic ''FREE LIST EMPTY'' else Ret (0, p))
    | Some f \<Rightarrow>
        (if numUnallocatedSlots p < 2 then pool_allocRange pages p = Panic ''POOL: cannot allocate slot''
         else \<exists>q. pool_allocRange pages p = Ret (slot_start p f, q) \<and>
           pool_ok q (if pages * PAGE_SIZE = slot_length p f then f # tl U else tl U)
             (if pages * PAGE_SIZE = slot_length p f then remove1 f F else F) (insert (hd U) T) \<and>
           bytes_of_slot q (hd U) = {unat (slot_start p f)..<unat (slot_start p f) + 4096 * unat pages} \<and>
           (\<forall>i \<in> T \<union> (set F - {f}). bytes_of_slot q i = bytes_of_slot p i) \<and>
           region_start q = region_start p \<and> region_length q = region_length p \<and>
           numUnallocatedSlots q = numUnallocatedSlots p - 1)"
proof -
  note d = pool_okD [OF assms(1)]
  let ?sz = "pages * PAGE_SIZE"
  have sz: "unat ?sz = 4096 * unat pages" using assms(3) by (simp add: PAGE_SIZE_def unat_word_ariths)
  then have sz0: "?sz \<noteq> 0" using assms(2) by (auto simp: word_unat_eq_iff)
  have l: "free_slot_loop POOL_SLOTS_IN_CHUNK p ?sz (nxt (pool_links p) PoolFreeList) =
      Ret (find (\<lambda>f. ?sz \<le> slot_length p f) F)" using assms(1) by (rule free_slot_search)
  show ?thesis
  proof (cases "find (\<lambda>f. ?sz \<le> slot_length p f) F")
    case None
    then show ?thesis using l list_empty_iff [OF d(2)] by (simp add: pool_allocRange_def)
  next
    case (Some f)
    then have f: "f \<in> set F" "?sz \<le> slot_length p f" by (auto simp: find_Some_iff)
    then have r: "pool_allocRange pages p = pool_allocRangeInFreeSlot f ?sz p"
      using l Some list_empty_iff [OF d(2)] by (auto simp: pool_allocRange_def)
    show ?thesis
    proof (cases "numUnallocatedSlots p < 2")
      case True
      then show ?thesis using Some r
        by (simp add: pool_allocRangeInFreeSlot_def pool_createUsedSlot_def pool_allocSlot_def pool_chunk_allocSlot_def)
    next
      case False
      then have n: "2 \<le> numUnallocatedSlots p" by simp
      then have "U \<noteq> []" using d(6) by (auto simp: word_le_nat_alt)
      then obtain u V where U: "U = u # V" by (cases U) auto
      note ok = assms(1) [unfolded U]
      from allocRangeInFreeSlot_runs [OF ok f(1) sz0 f(2) n] obtain h t where
        "pool_allocRangeInFreeSlot f ?sz p = Ret (slot_start p f,
          (if ?sz = slot_length p f then drop_slot f else id) (take_range u f ?sz h p))"
        and t: "tree_at h (avl_root h) t" "balanced t" "sorted_keys (slot_start (take_range u f ?sz h p)) t" "nodes t = insert u T"
        by blast
      moreover note take_ok [OF ok f(1) sz0 f(2) n t]
      moreover have "bytes_of_slot (take_range u f ?sz h p) = (bytes_of_slot p)
          (u := {unat (slot_start p f)..<unat (slot_start p f) + unat ?sz},
           f := {unat (slot_start p f) + unat ?sz..<unat (slot_start p f) + unat (slot_length p f)})"
        by (rule take_bytes) (use d(3,9) f U in auto)
      moreover have "u \<noteq> f" "u \<notin> T" "f \<notin> T" "u \<notin> set F" using d(3,4) f(1) U by auto
      ultimately show ?thesis
        using Some False r sz by (auto simp: U take_range_def drop_slot_def bytes_of_slot_def)
    qed
  qed
qed

section \<open>The pool at the start\<close>

lemma initChunk_links:
  "n \<le> POOL_SLOTS_IN_CHUNK \<Longrightarrow> dll (pool_links p) PoolFreeList [] \<Longrightarrow> dll (pool_links p) ChunkUnallocated [] \<Longrightarrow>
   \<exists>h ty. fold init_slot [0..<n] p = p\<lparr>pool_links := h, slot_type := ty\<rparr> \<and>
     dll h ChunkUnallocated (map UnallocatedLink [0..<n]) \<and> dll h PoolFreeList []"
proof (induction n)
  case 0
  then show ?case by (intro exI [of _ "pool_links p"] exI [of _ "slot_type p"]) simp
next
  case (Suc n)
  then obtain h ty where i: "fold init_slot [0..<n] p = p\<lparr>pool_links := h, slot_type := ty\<rparr>"
    "dll h ChunkUnallocated (map UnallocatedLink [0..<n])" "dll h PoolFreeList []"
    by (meson Suc_leD)
  let ?h = "list_add_tail (UnallocatedLink n) ChunkUnallocated h"
  have "dll ?h ChunkUnallocated (map UnallocatedLink [0..<n] @ [UnallocatedLink n])"
    using i(2) by (rule dll_add_tail) auto
  moreover have "dll ?h PoolFreeList []"
    using i(3,2) by (rule dll_frame_list_add_tail) auto
  ultimately show ?case using i(1)
    by (intro exI [of _ ?h] exI [of _ "ty(n := POOL_SLOT_UNALLOCATED)"]) (simp add: init_slot_def [of n] fun_upd_def)
qed

lemma pool_initChunk_ok:
  assumes "dll (pool_links p) PoolFreeList []"
  shows "\<exists>h ty. pool_initChunk p = p\<lparr>pool_links := h, slot_type := ty, numUnallocatedSlots := of_nat POOL_SLOTS_IN_CHUNK\<rparr> \<and>
    dll h ChunkUnallocated (map UnallocatedLink [0..<POOL_SLOTS_IN_CHUNK]) \<and> dll h PoolFreeList []"
proof -
  let ?h = "INIT_LIST_HEAD ChunkUnallocated (pool_links p)"
  let ?p = "p\<lparr>pool_links := ?h, numUnallocatedSlots := of_nat POOL_SLOTS_IN_CHUNK\<rparr>"
  have "dll (pool_links ?p) PoolFreeList []" "dll (pool_links ?p) ChunkUnallocated []"
    using assms by (auto simp: dll_def lheap_defs)
  from initChunk_links [OF order_refl this] obtain h ty where "fold init_slot [0..<POOL_SLOTS_IN_CHUNK] ?p = ?p\<lparr>pool_links := h, slot_type := ty\<rparr>"
    "dll h ChunkUnallocated (map UnallocatedLink [0..<POOL_SLOTS_IN_CHUNK])" "dll h PoolFreeList []"
    by blast
  then show ?thesis by (intro exI [of _ h] exI [of _ ty]) (cases p, simp add: pool_initChunk_def)
qed

lemma pool_init_ok:
  assumes "4096 < unat len" "unat start + unat len \<le> 4294967296"
  shows "\<exists>q. pool_init start len p0 = Ret q \<and> pool_ok q [2..<POOL_SLOTS_IN_CHUNK] [1] {0} \<and>
    region_start q = start \<and> region_length q = len \<and> unat (numUnallocatedSlots q) = 161 \<and>
    bytes_of_slot q 0 = {unat start..<unat start + 4096} \<and> slot_start q 1 = start + PAGE_SIZE \<and> slot_length q 1 = len - PAGE_SIZE"
proof -
  let ?N = POOL_SLOTS_IN_CHUNK
  have N: "?N = 163" by (simp add: POOL_SLOTS_IN_CHUNK_def)
  have n2: "2 \<le> (of_nat ?N :: u16)" "2 \<le> (of_nat ?N - 1 :: u16)" by (simp_all add: N)
  define p1 where "p1 = p0\<lparr>region_start := start, region_length := len, usedRoot := (usedRoot p0)\<lparr>avl_root := None\<rparr>,
                  pool_links := INIT_LIST_HEAD PoolFreeList (pool_links p0)\<rparr>"
  have "dll (pool_links p1) PoolFreeList []" by (simp add: p1_def dll_init)
  then obtain h ty where i: "pool_initChunk p1 = p1\<lparr>pool_links := h, slot_type := ty, numUnallocatedSlots := of_nat ?N\<rparr>"
    "dll h ChunkUnallocated (map UnallocatedLink [0..<?N])" "dll h PoolFreeList []" using pool_initChunk_ok by blast
  let ?p2 = "p1\<lparr>pool_links := h, slot_type := ty, numUnallocatedSlots := of_nat ?N\<rparr>"
  have l: "[0..<?N] = 0 # 1 # [2..<?N]" by (simp add: N upt_rec)
  let ?h1 = "list_del (UnallocatedLink 0) h" and ?h2 = "list_del (UnallocatedLink 1) (list_del (UnallocatedLink 0) h)"
  have L1: "dll ?h1 ChunkUnallocated (map UnallocatedLink (1 # [2..<?N]))" "dll ?h1 PoolFreeList (map FreeLink [])"
    by (rule take_lists [where U = "1 # [2..<?N]" and F = "[]"]; use i(2,3) l in simp)+
  have L2: "dll ?h2 ChunkUnallocated (map UnallocatedLink [2..<?N])" "dll ?h2 PoolFreeList (map FreeLink [])"
    by (rule take_lists [where U = "[2..<?N]" and F = "[]"]; use L1 in simp)+
  let ?h3 = "list_add (FreeLink 1) PoolFreeList ?h2"
  have L3: "dll ?h3 ChunkUnallocated (map UnallocatedLink [2..<?N])" "dll ?h3 PoolFreeList (map FreeLink [1])"
    using dll_frame_list_add [OF L2, of "FreeLink 1"] dll_add_after_head [OF L2(2), of "FreeLink 1"] by auto
  let ?p3 = "?p2\<lparr>pool_links := ?h1, slot_type := ty(0 := POOL_SLOT_ALLOCATED), numUnallocatedSlots := of_nat ?N - 1\<rparr>"
  have c1: "pool_chunk_allocSlot ?p2 = Ret (Some 0, ?p3)"
    by (subst allocSlot_first(1) [of _ 0 "1 # [2..<?N]"]) (use i(2) l n2 in simp_all)
  have "tree_at (usedRoot ?p3) (avl_root (usedRoot ?p3)) Leaf" by (simp add: p1_def)
  from use_slot_tree [OF this, of 0 start PAGE_SIZE] obtain hh t where
    u: "use_slot 0 start PAGE_SIZE ?p3 = Ret (?p3\<lparr>slot_type := (slot_type ?p3)(0 := POOL_SLOT_USED),
      slot_start := (slot_start ?p3)(0 := start), slot_length := (slot_length ?p3)(0 := PAGE_SIZE), usedRoot := hh\<rparr>)"
    and t: "tree_at hh (avl_root hh) t" "balanced t" "sorted_keys ((slot_start p1)(0 := start)) t" "nodes t = {0}" by auto
  let ?p4 = "?p3\<lparr>slot_type := (slot_type ?p3)(0 := POOL_SLOT_USED), slot_start := (slot_start ?p3)(0 := start),
    slot_length := (slot_length ?p3)(0 := PAGE_SIZE), usedRoot := hh\<rparr>"
  have c2: "pool_chunk_allocSlot ?p4 = Ret (Some 1, ?p4\<lparr>pool_links := ?h2, slot_type := (slot_type ?p4)(1 := POOL_SLOT_ALLOCATED),
      numUnallocatedSlots := of_nat ?N - 1 - 1\<rparr>)"
    by (subst allocSlot_first(1) [of _ 1 "[2..<?N]"]) (use L1 n2 in simp_all)
  define q where "q = ?p4\<lparr>pool_links := ?h3, slot_type := (slot_type ?p4)(1 := POOL_SLOT_FREE), numUnallocatedSlots := of_nat ?N - 1 - 1,
     slot_start := (slot_start ?p4)(1 := start + PAGE_SIZE), slot_length := (slot_length ?p4)(1 := len - PAGE_SIZE)\<rparr>"
  have "pool_init start len p0 = Ret q"
    using c1 u c2 by (simp add: pool_init_def p1_def [symmetric] i(1) Let_def q_def)
  have ps: "unat PAGE_SIZE = 4096" by (simp add: PAGE_SIZE_def)
  have w: "unat (start + PAGE_SIZE) = unat start + 4096" "unat (len - PAGE_SIZE) = unat len - 4096"
    using assms ps unat_add_lem [of start PAGE_SIZE] unat_sub [of PAGE_SIZE len] by (simp_all add: word_le_nat_alt)
  have bytes: "bytes_of_slot q 0 = {unat start..<unat start + 4096}" "bytes_of_slot q 1 = {unat start + 4096..<unat start + unat len}"
    using w ps by (auto simp: bytes_of_slot_def q_def)
  have "sorted_keys (slot_start q) t"
    using t(3) by (rule sorted_keys_eq [THEN iffD2, rotated]) (use t(4) in \<open>auto simp: q_def\<close>)
  moreover have "disjoint_family_on (bytes_of_slot q) {0, 1}" using bytes by (auto simp: disjoint_family_on_def)
  moreover have "(\<Union>i \<in> {1, 0}. bytes_of_slot q i) = {unat start..<unat start + unat len}" using bytes assms(1) by auto
  moreover have "slot_length q 1 \<noteq> 0" "slot_length q 0 \<noteq> 0" using w assms(1) by (auto simp: q_def PAGE_SIZE_def)
  moreover have "unat (slot_start q 1) + unat (slot_length q 1) \<le> 4294967296"
    "unat (slot_start q 0) + unat (slot_length q 0) \<le> 4294967296" using w ps assms by (auto simp: q_def)
  moreover have "unat (numUnallocatedSlots q) = 161" by (simp add: q_def N)
  moreover have "region_start q = start" "region_length q = len" "slot_length q 1 = len - PAGE_SIZE"
    "slot_start q 1 = start + PAGE_SIZE" by (simp_all add: q_def p1_def)
  moreover have "pool_links q = ?h3" "usedRoot q = hh" by (simp_all add: q_def)
  ultimately have "pool_ok q [2..<?N] [1] {0}"
    using L3 t N unfolding pool_ok_def by (intro conjI) auto
  then show ?thesis using bytes \<open>pool_init start len p0 = Ret q\<close> \<open>unat (numUnallocatedSlots q) = 161\<close>
      \<open>region_start q = start\<close> \<open>region_length q = len\<close> \<open>slot_length q 1 = len - PAGE_SIZE\<close>
      \<open>slot_start q 1 = start + PAGE_SIZE\<close> by blast
qed

section \<open>Histories\<close>

text \<open>A client that asks for the ranges ns one after the other; 0 stands for no range.\<close>

fun pool_allocs :: "u32 list \<Rightarrow> pool \<Rightarrow> (u32 list \<times> pool) outcome" where
  "pool_allocs [] p = Ret ([], p)"
| "pool_allocs (n # ns) p =
     obind (pool_allocRange n p) (\<lambda>(a, p1). obind (pool_allocs ns p1) (\<lambda>(as, p2). Ret (a # as, p2)))"

definition granted :: "u32 list \<Rightarrow> u32 list \<Rightarrow> nat set list" where
  "granted ns as = map (\<lambda>(a, n). {unat a..<unat a + 4096 * unat n}) (filter (\<lambda>(a, n). a \<noteq> 0) (zip as ns))"

definition pool_panics :: "string set" where
  "pool_panics = {''FREE LIST EMPTY'', ''POOL: cannot allocate slot''}"

lemma granted_Cons: "granted (n # ns) (a # as) =
    (if a = 0 then granted ns as else {unat a..<unat a + 4096 * unat n} # granted ns as)"
  by (simp add: granted_def)

definition pool_grown :: "pool \<Rightarrow> nat set \<Rightarrow> nat list \<Rightarrow> pool \<Rightarrow> bool" where
  "pool_grown p T us q \<longleftrightarrow> (\<exists>U F. pool_ok q U F (T \<union> set us)) \<and> distinct us \<and> set us \<inter> T = {} \<and>
     (\<forall>i \<in> T. bytes_of_slot q i = bytes_of_slot p i) \<and> region_start q = region_start p \<and> region_length q = region_length p \<and>
     length us + unat (numUnallocatedSlots q) = unat (numUnallocatedSlots p) \<and>
     (1 \<le> unat (numUnallocatedSlots p) \<longrightarrow> 1 \<le> unat (numUnallocatedSlots q))"

lemma pool_allocRange_grows:
  assumes "pool_ok p U F T" "0 < unat n" "unat n < 1048576" "0 < unat (region_start p)"
  shows "case pool_allocRange n p of
      Ret (a, q) \<Rightarrow> if a = 0 then q = p
        else \<exists>u. pool_grown p T [u] q \<and> bytes_of_slot q u = {unat a..<unat a + 4096 * unat n}
    | Panic m \<Rightarrow> m \<in> pool_panics | _ \<Rightarrow> False"
proof (cases "find (\<lambda>f. n * PAGE_SIZE \<le> slot_length p f) F")
  case None
  then show ?thesis using pool_allocRange_ok [OF assms(1-3)] by (simp add: pool_panics_def)
next
  case (Some f)
  note d = pool_okD [OF assms(1)]
  have f: "f \<in> set F" using Some by (auto simp: find_Some_iff)
  have "unat (slot_start p f) \<in> bytes_of_slot p f" using d(9) [of f] f by (auto simp: bytes_of_slot_def unat_gt_0)
  then have "unat (region_start p) \<le> unat (slot_start p f)" using d(8) f by auto
  then have nz: "slot_start p f \<noteq> 0" using assms(4) by auto
  show ?thesis
  proof (cases "numUnallocatedSlots p < 2")
    case True
    then show ?thesis using pool_allocRange_ok [OF assms(1-3)] Some by (simp add: pool_panics_def)
  next
    case False
    then have n2: "2 \<le> unat (numUnallocatedSlots p)" by (simp add: word_le_nat_alt word_less_nat_alt)
    then have "hd U \<in> set U" using d(6) by (cases U) auto
    then have u: "hd U \<notin> T" using d(4) by auto
    have "unat (numUnallocatedSlots p - 1) = unat (numUnallocatedSlots p) - 1"
      using n2 by (simp add: unat_sub word_le_nat_alt)
    then show ?thesis using pool_allocRange_ok [OF assms(1-3)] Some False nz u n2
      by (auto simp: pool_grown_def intro!: exI [of _ "hd U"]) (blast, linarith)
  qed
qed

lemma pool_grown_append:
  assumes "pool_grown p T [u] p1" "pool_grown p1 (insert u T) us q"
  shows "pool_grown p T (u # us) q \<and> bytes_of_slot q u = bytes_of_slot p1 u"
  using assms unfolding pool_grown_def by (auto simp: insert_commute)

lemma pool_allocs_grow:
  "pool_ok p U F T \<Longrightarrow> 0 < unat (region_start p) \<Longrightarrow> \<forall>n \<in> set ns. 0 < unat n \<and> unat n < 1048576 \<Longrightarrow>
   case pool_allocs ns p of
      Ret (as, q) \<Rightarrow> \<exists>us. pool_grown p T us q \<and> map (bytes_of_slot q) us = granted ns as
    | Panic m \<Rightarrow> m \<in> pool_panics | _ \<Rightarrow> False"
proof (induction ns arbitrary: p U F T)
  case Nil
  then show ?case by (auto simp: pool_grown_def granted_def)
next
  case (Cons n ns)
  note a = pool_allocRange_grows [OF Cons.prems(1) _ _ Cons.prems(2), of n]
  show ?case
  proof (cases "pool_allocRange n p")
    case (Ret r)
    obtain x p1 where r: "r = (x, p1)" by (cases r) auto
    show ?thesis
    proof (cases "x = 0")
      case True
      then have "p1 = p" using a Ret r Cons.prems(3) by simp
      then show ?thesis using Cons.IH [OF Cons.prems(1,2)] Cons.prems(3) Ret r True
        by (cases "pool_allocs ns p") (auto simp: granted_Cons)
    next
      case False
      then obtain u where u: "pool_grown p T [u] p1" "bytes_of_slot p1 u = {unat x..<unat x + 4096 * unat n}"
        using a Ret r Cons.prems(3) by auto
      then obtain V G where "pool_ok p1 V G (insert u T)" "region_start p1 = region_start p" by (auto simp: pool_grown_def)
      with Cons.IH [of p1 V G "insert u T"] Cons.prems(2,3) show ?thesis
        using Ret r False u pool_grown_append [OF u(1)]
        by (cases "pool_allocs ns p1") (fastforce simp: granted_Cons split: prod.splits)+
    qed
  qed (use a Cons.prems(3) in auto)
qed

section \<open>Addresses in used ranges\<close>

lemma slot_match:
  assumes "unat start_b + unat len_b < 4294967296"
  shows "(pool_slot_t_avlmatch (\<lambda>_. start_b) (\<lambda>_. len_b) k b = 0) =
      (unat k \<in> {unat start_b..<unat start_b + unat len_b})"
    "(pool_slot_t_avlmatch (\<lambda>_. start_b) (\<lambda>_. len_b) k b < 0) = (unat k < unat start_b)"
    "(0 < pool_slot_t_avlmatch (\<lambda>_. start_b) (\<lambda>_. len_b) k b) = (unat start_b + unat len_b \<le> unat k)"
proof -
  have "unat (start_b + len_b) = unat start_b + unat len_b" using assms unat_add_lem [of start_b len_b] by simp
  then show "(pool_slot_t_avlmatch (\<lambda>_. start_b) (\<lambda>_. len_b) k b = 0) =
      (unat k \<in> {unat start_b..<unat start_b + unat len_b})"
    "(pool_slot_t_avlmatch (\<lambda>_. start_b) (\<lambda>_. len_b) k b < 0) = (unat k < unat start_b)"
    "(0 < pool_slot_t_avlmatch (\<lambda>_. start_b) (\<lambda>_. len_b) k b) = (unat start_b + unat len_b \<le> unat k)"
    by (auto simp: pool_slot_t_avlmatch_def word_le_nat_alt word_less_nat_alt)
qed

text \<open>A search tree of ranges that do not overlap: the search by containing address finds the range
  that contains an address.\<close>

lemma range_found:
  fixes st ln :: "nat \<Rightarrow> u32"
  assumes t: "tree_at h (avl_root h) t" "sorted_keys st t" "height t \<le> fuel"
    and l: "\<And>i. i \<in> nodes t \<Longrightarrow> ln i \<noteq> 0 \<and> unat (st i) + unat (ln i) < 4294967296"
    and d: "\<And>i j. i \<in> nodes t \<Longrightarrow> j \<in> nodes t \<Longrightarrow> i \<noteq> j \<Longrightarrow>
      {unat (st i)..<unat (st i) + unat (ln i)} \<inter> {unat (st j)..<unat (st j) + unat (ln j)} = {}"
  shows "\<exists>r. avl_find fuel (pool_slot_t_avlmatch st ln) addr h = Ret r \<and>
    (case r of Some i \<Rightarrow> i \<in> nodes t \<and> unat addr \<in> {unat (st i)..<unat (st i) + unat (ln i)}
     | None \<Rightarrow> \<forall>i \<in> nodes t. unat addr \<notin> {unat (st i)..<unat (st i) + unat (ln i)})"
proof -
  let ?m = "pool_slot_t_avlmatch st ln"
  have m: "(?m k i = 0) = (unat k \<in> {unat (st i)..<unat (st i) + unat (ln i)})" "(?m k i < 0) = (unat k < unat (st i))"
    "(0 < ?m k i) = (unat (st i) + unat (ln i) \<le> unat k)" if "i \<in> nodes t" for i k
    using slot_match [OF conjunct2 [OF l [OF that]], of k] by (simp_all add: pool_slot_t_avlmatch_def)
  have mm: "match_mono st ?m addr (nodes t)"
    unfolding match_mono_def
  proof (intro ballI impI)
    fix a b assume ab: "a \<in> nodes t" "b \<in> nodes t" "st a < st b"
    then have s: "unat (st a) < unat (st b)" by (simp add: word_less_nat_alt)
    have "unat (st b) \<in> {unat (st b)..<unat (st b) + unat (ln b)}"
      using l [OF ab(2)] by (auto simp: unat_gt_0)
    then have "unat (st b) \<notin> {unat (st a)..<unat (st a) + unat (ln a)}" using d [of a b] ab by blast
    then have "unat (st a) + unat (ln a) \<le> unat (st b)" using s by auto
    then show "(?m addr a < 0 \<longrightarrow> ?m addr b < 0) \<and> (0 < ?m addr b \<longrightarrow> 0 < ?m addr a)"
      unfolding m(2,3) [OF ab(1)] m(2,3) [OF ab(2)] using s by linarith
  qed
  from key_order.avl_find_found [OF t(1,3,2) mm] obtain r where r: "avl_find fuel ?m addr h = Ret r"
    "case r of Some n \<Rightarrow> n \<in> nodes t \<and> ?m addr n = 0 | None \<Rightarrow> \<forall>n \<in> nodes t. ?m addr n \<noteq> 0"
    by blast
  then show ?thesis using m(1) by (cases r) auto
qed

lemma used_slot_found:
  assumes ok: "pool_ok p U F T" and e: "unat (region_start p) + unat (region_length p) < 4294967296"
  shows "\<exists>r. avl_find (POOL_SLOTS_IN_CHUNK + 1) (pool_slot_t_avlmatch (slot_start p) (slot_length p)) addr (usedRoot p) = Ret r \<and>
    (case r of Some i \<Rightarrow> i \<in> T \<and> unat addr \<in> bytes_of_slot p i | None \<Rightarrow> \<forall>i \<in> T. unat addr \<notin> bytes_of_slot p i)"
proof -
  note d = pool_okD [OF ok]
  obtain t where t: "tree_at (usedRoot p) (avl_root (usedRoot p)) t" "sorted_keys (slot_start p) t" "nodes t = T"
    using ok by (auto simp: pool_ok_def)
  have l: "slot_length p i \<noteq> 0 \<and> unat (slot_start p i) + unat (slot_length p i) < 4294967296" if "i \<in> T" for i
  proof -
    have "0 < unat (slot_length p i)" using d(9) that by (simp add: unat_gt_0)
    then have "unat (slot_start p i) + unat (slot_length p i) - 1 \<in> bytes_of_slot p i"
      by (auto simp: bytes_of_slot_def)
    then have "unat (slot_start p i) + unat (slot_length p i) - 1 < unat (region_start p) + unat (region_length p)"
      using d(8) that by auto
    then show ?thesis using e d(9) that by auto
  qed
  have ht: "height t \<le> POOL_SLOTS_IN_CHUNK + 1" using tree_small [OF t(2), of POOL_SLOTS_IN_CHUNK] d(5) t(3) by simp
  have dd: "{unat (slot_start p i)..<unat (slot_start p i) + unat (slot_length p i)} \<inter>
      {unat (slot_start p j)..<unat (slot_start p j) + unat (slot_length p j)} = {}" if "i \<in> T" "j \<in> T" "i \<noteq> j" for i j
    using pool_ok_disjoint [OF ok, of i j] that unfolding bytes_of_slot_def by blast
  show ?thesis unfolding bytes_of_slot_def
    by (rule range_found [OF t(1,2) ht, of "slot_length p" addr, unfolded t(3), OF l dd])
qed

lemma freeRange_runs:
  assumes ok: "pool_ok p U F T" and e: "unat (region_start p) + unat (region_length p) < 4294967296"
    and t: "tree_at (usedRoot p) (avl_root (usedRoot p)) t" "balanced t" "sorted_keys (slot_start p) t" "nodes t = T"
    and i: "i \<in> T" "unat addr \<in> bytes_of_slot p i" "deletable i t"
  shows "\<exists>q t'. pool_freeRange addr p = Ret q \<and> tree_at (usedRoot q) (avl_root (usedRoot q)) t' \<and>
    sorted_keys (slot_start q) t' \<and> nodes t' = T - {i} \<and> dll (pool_links q) PoolFreeList (map FreeLink (i # F)) \<and>
    dll (pool_links q) ChunkUnallocated (map UnallocatedLink U) \<and> bytes_of_slot q = bytes_of_slot p \<and>
    numUnallocatedSlots q = numUnallocatedSlots p"
proof -
  note d = pool_okD [OF ok]
  from used_slot_found [OF ok e, of addr] i(1,2) obtain j where
    j: "avl_find (POOL_SLOTS_IN_CHUNK + 1) (pool_slot_t_avlmatch (slot_start p) (slot_length p)) addr (usedRoot p) = Ret (Some j)"
    "j \<in> T" "unat addr \<in> bytes_of_slot p j" by (auto split: option.splits)
  have "j = i" using pool_ok_disjoint [OF ok, of j i] i(1,2) j(2,3) by blast
  let ?c = "avl_make_compare (slot_start p)"
  obtain t' res where a: "tree_del ?c i t = (t', res)" by fastforce
  have c: "res \<noteq> AVL_ERROR" "map fst (inorder t') = remove1 i (map fst (inorder t))"
    using key_order.tree_del_correct [OF t(2,3) _ i(3)] i(1) t(4) a by auto
  have "height t < 2 * POOL_SLOTS_IN_CHUNK + 2" using tree_small [OF t(3), of POOL_SLOTS_IN_CHUNK] d(5) t(4) by simp
  then obtain h where h: "avl_delete (2 * POOL_SLOTS_IN_CHUNK + 2) ?c i Root (usedRoot p) = Ret (h, res)"
    "tree_at h (avl_root h) t'"
    using avl_delete_refines [of "usedRoot p" Root, OF _ key_order.sorted_keys_uniq [OF t(3)] _ a] t(1) c(1) by auto
  have "sorted_keys (slot_start p) t'"
    using t(3) c(2) by (simp add: sorted_keys_def sorted_wrt_map sorted_wrt_remove1)
  moreover have "nodes t' = T - {i}"
    using c(2) key_order.sorted_keys_uniq [OF t(3)] t(4) by (simp add: nodes_inorder uniq_inorder)
  moreover have "i \<notin> set F" using d(4) i(1) by auto
  then have "dll (list_add (FreeLink i) PoolFreeList (pool_links p)) PoolFreeList (map FreeLink (i # F))"
    using dll_add_after_head [OF d(2)] by auto
  moreover have "dll (list_add (FreeLink i) PoolFreeList (pool_links p)) ChunkUnallocated (map UnallocatedLink U)"
    using d(1,2) by (rule dll_frame_list_add) auto
  moreover have "pool_freeRange addr p = Ret (p\<lparr>usedRoot := h, slot_type := (slot_type p)(i := POOL_SLOT_FREE),
                     pool_links := list_add (FreeLink i) PoolFreeList (pool_links p)\<rparr>)"
    using j(1) h(1) \<open>j = i\<close> by (simp add: pool_freeRange_def)
  ultimately show ?thesis using h(2) by (auto simp: bytes_of_slot_def fun_eq_iff)
qed

section \<open>The properties\<close>

text \<open>C12: pool_allocRange hands out the start of the first free range that is long enough, and the
  pool still describes its region: the range handed out is the new used slot, the others are
  as they were.  It returns 0 when no free range is long enough and panics when there is no
  free range at all or when the chunk has no slot left for the used range.\<close>
theorem pool_allocRange_correct:
  assumes "pool_ok p U F T" "0 < unat pages" "unat pages < 1048576"
  shows "case find (\<lambda>f. pages * PAGE_SIZE \<le> slot_length p f) F of
      None \<Rightarrow> pool_allocRange pages p = (if F = [] then Panic ''FREE LIST EMPTY'' else Ret (0, p))
    | Some f \<Rightarrow>
        (if numUnallocatedSlots p < 2 then pool_allocRange pages p = Panic ''POOL: cannot allocate slot''
         else \<exists>q. pool_allocRange pages p = Ret (slot_start p f, q) \<and>
           pool_ok q (if pages * PAGE_SIZE = slot_length p f then f # tl U else tl U)
             (if pages * PAGE_SIZE = slot_length p f then remove1 f F else F) (insert (hd U) T) \<and>
           bytes_of_slot q (hd U) = {unat (slot_start p f)..<unat (slot_start p f) + 4096 * unat pages} \<and>
           (\<forall>i \<in> T \<union> (set F - {f}). bytes_of_slot q i = bytes_of_slot p i) \<and>
           region_start q = region_start p \<and> region_length q = region_length p \<and>
           numUnallocatedSlots q = numUnallocatedSlots p - 1)"
  using assms by (rule pool_allocRange_ok)

definition example_pool :: pool where
  "example_pool = \<lparr>region_start = 0, region_length = 0, usedRoot = heap_of Leaf, slot_start = \<lambda>_. 0, slot_length = \<lambda>_. 0,
     slot_type = \<lambda>_. 0, pool_links = \<lparr>nxt = id, prv = id\<rparr>, numUnallocatedSlots = 0\<rparr>"

theorem pool_allocRange_correct_witness:
  "\<exists>p q. pool_init 0xD0000000 NON_PAGED_POOL_SIZE example_pool = Ret p \<and> pool_allocRange 3 p = Ret (0xD0001000, q) \<and>
    bytes_of_slot q 2 = {3489665024..<3489677312}"
proof -
  obtain p where p: "pool_init 0xD0000000 NON_PAGED_POOL_SIZE example_pool = Ret p"
    "pool_ok p [2..<POOL_SLOTS_IN_CHUNK] [1] {0}" "region_start p = 0xD0000000" "region_length p = NON_PAGED_POOL_SIZE"
    "unat (numUnallocatedSlots p) = 161" "slot_start p 1 = 0xD0000000 + PAGE_SIZE" "slot_length p 1 = NON_PAGED_POOL_SIZE - PAGE_SIZE"
    using pool_init_ok [of NON_PAGED_POOL_SIZE "0xD0000000" example_pool] by (auto simp: NON_PAGED_POOL_SIZE_def)
  have u: "[2..<POOL_SLOTS_IN_CHUNK] = 2 # [3..<POOL_SLOTS_IN_CHUNK]" by (simp add: POOL_SLOTS_IN_CHUNK_def upt_rec)
  have f: "find (\<lambda>f. 3 * PAGE_SIZE \<le> slot_length p f) [1] = Some 1" "slot_start p 1 = 0xD0001000"
    "(numUnallocatedSlots p < 2) = False"
    using p(5-7) by (simp_all add: NON_PAGED_POOL_SIZE_def PAGE_SIZE_def word_less_nat_alt)
  show ?thesis
    using pool_allocRange_correct [OF p(2), of 3] p(1) f u by auto
qed

text \<open>C6: whatever ranges of less than 4 GB a client asks a fresh pool for, it gets ranges that
  do not overlap, inside the region and behind its first page, which holds the metadata.  At
  most 160 requests are granted in all: a slot is never given back to the count of the chunk.
  A history that does not return stops in one of the two panics of the allocator.\<close>
theorem pool_ranges_never_overlap:
  assumes "4096 < unat len" "unat start + unat len \<le> 4294967296" "0 < unat start"
    and "\<forall>n \<in> set ns. 0 < unat n \<and> unat n < 1048576"
  shows "case obind (pool_init start len p0) (pool_allocs ns) of
      Ret (as, q) \<Rightarrow> sorted_wrt (\<lambda>A B. A \<inter> B = {}) (granted ns as) \<and>
        (\<forall>A \<in> set (granted ns as). A \<subseteq> {unat start + 4096..<unat start + unat len}) \<and>
        length (granted ns as) \<le> 160
    | Panic m \<Rightarrow> m \<in> pool_panics | _ \<Rightarrow> False"
proof -
  from pool_init_ok [OF assms(1,2)] obtain p where
    p: "pool_init start len p0 = Ret p" "pool_ok p [2..<POOL_SLOTS_IN_CHUNK] [1] {0}" "region_start p = start" "region_length p = len"
    "unat (numUnallocatedSlots p) = 161" "bytes_of_slot p 0 = {unat start..<unat start + 4096}" by blast
  have g: "case pool_allocs ns p of Ret (as, q) \<Rightarrow> \<exists>us. pool_grown p {0} us q \<and> map (bytes_of_slot q) us = granted ns as
    | Panic m \<Rightarrow> m \<in> pool_panics | _ \<Rightarrow> False"
    using pool_allocs_grow [OF p(2)] assms(3,4) p(3) by simp
  show ?thesis
  proof (cases "pool_allocs ns p")
    case (Ret r)
    obtain as q where r: "r = (as, q)" by (cases r) auto
    then obtain us U F where us: "pool_ok q U F (insert 0 (set us))" "distinct us" "0 \<notin> set us" "map (bytes_of_slot q) us = granted ns as"
      "bytes_of_slot q 0 = bytes_of_slot p 0" "region_start q = start" "region_length q = len" "length us \<le> 160"
      using g Ret p by (auto simp: pool_grown_def)
    note d = pool_okD [OF us(1)]
    have "sorted_wrt (\<lambda>A B. A \<inter> B = {}) (granted ns as)"
      unfolding us(4) [symmetric] sorted_wrt_map using us(2) by (rule sorted_wrt_distinct) (use pool_ok_disjoint [OF us(1)] in blast)
    moreover have *: "bytes_of_slot q i \<subseteq> {unat start + 4096..<unat start + unat len}" if "i \<in> set us" for i
    proof -
      have "bytes_of_slot q i \<subseteq> {unat start..<unat start + unat len}" using d(8) that us(6,7) by auto
      moreover have "bytes_of_slot q i \<inter> bytes_of_slot q 0 = {}" using pool_ok_disjoint [OF us(1), of i 0] that us(3) by auto
      ultimately show ?thesis unfolding us(5) p(6) by (rule behind)
    qed
    moreover have "\<forall>A \<in> set (granted ns as). A \<subseteq> {unat start + 4096..<unat start + unat len}"
      unfolding us(4) [symmetric] using * by auto
    moreover have "length (granted ns as) \<le> 160" using us(4,8) by (metis length_map)
    ultimately show ?thesis using p(1) Ret r by simp
  qed (use g p(1) in auto)
qed

theorem pool_ranges_never_overlap_witness:
  "case obind (pool_init 0xD0000000 NON_PAGED_POOL_SIZE example_pool) (pool_allocs [1, 2]) of
      Ret (as, q) \<Rightarrow> sorted_wrt (\<lambda>A B. A \<inter> B = {}) (granted [1, 2] as) \<and>
        (\<forall>A \<in> set (granted [1, 2] as).
          A \<subseteq> {unat (0xD0000000 :: u32) + 4096..<unat (0xD0000000 :: u32) + unat NON_PAGED_POOL_SIZE}) \<and>
        length (granted [1, 2] as) \<le> 160
    | Panic m \<Rightarrow> m \<in> pool_panics | _ \<Rightarrow> False"
  by (rule pool_ranges_never_overlap) (simp_all add: NON_PAGED_POOL_SIZE_def)

text \<open>PageIn accepts exactly the addresses of used ranges, and any other is a SIGSEGV, unless
  the pool has no used range; freeRange panics for the addresses outside of every used range.\<close>
lemma pool_accepts_used_addresses:
  assumes "pool_ok p U F T" "unat (region_start p) + unat (region_length p) < 4294967296"
  shows "pool_pageIn addr p =
      (if T = {} \<or> (\<exists>i \<in> T. unat addr \<in> bytes_of_slot p i) then Ret () else Panic ''SIGSEGV'') \<and>
    ((\<forall>i \<in> T. unat addr \<notin> bytes_of_slot p i) \<longrightarrow> pool_freeRange addr p = Panic ''cannot free non allocated range'')"
proof -
  obtain t where t: "tree_at (usedRoot p) (avl_root (usedRoot p)) t" "nodes t = T" using assms(1) by (auto simp: pool_ok_def)
  have e: "avl_root (usedRoot p) = None \<longleftrightarrow> T = {}"
    using t by (cases t; cases "avl_root (usedRoot p)") auto
  obtain r where r: "avl_find (POOL_SLOTS_IN_CHUNK + 1) (pool_slot_t_avlmatch (slot_start p) (slot_length p)) addr (usedRoot p) = Ret r"
    "case r of Some i \<Rightarrow> i \<in> T \<and> unat addr \<in> bytes_of_slot p i | None \<Rightarrow> \<forall>i \<in> T. unat addr \<notin> bytes_of_slot p i"
    using used_slot_found [OF assms] by blast
  show ?thesis using r e by (cases r) (auto simp: pool_pageIn_def pool_freeRange_def)
qed

theorem pool_accepts_used_addresses_witness:
  "\<exists>p. pool_init 0xD0000000 NON_PAGED_POOL_SIZE example_pool = Ret p \<and> pool_pageIn 0xD0000FFF p = Ret () \<and>
    pool_pageIn 0xD0001000 p = Panic ''SIGSEGV'' \<and> pool_freeRange 0xD0001000 p = Panic ''cannot free non allocated range''"
proof -
  obtain p where p: "pool_init 0xD0000000 NON_PAGED_POOL_SIZE example_pool = Ret p"
    "pool_ok p [2..<POOL_SLOTS_IN_CHUNK] [1] {0}" "region_start p = 0xD0000000" "region_length p = NON_PAGED_POOL_SIZE"
    "bytes_of_slot p 0 = {3489660928..<3489665024}"
    using pool_init_ok [of NON_PAGED_POOL_SIZE "0xD0000000" example_pool] by (auto simp: NON_PAGED_POOL_SIZE_def)
  have e: "unat (region_start p) + unat (region_length p) < 4294967296" using p(3,4) by (simp add: NON_PAGED_POOL_SIZE_def)
  show ?thesis
    using pool_accepts_used_addresses [OF p(2) e, of "0xD0000FFF"] pool_accepts_used_addresses [OF p(2) e, of "0xD0001000"] p
    by auto
qed

end
