(* ===== verification/Redirector.thy ===== *)
theory Redirector
  imports Prelude
begin

text \<open>
  tools/gdbredirector/main.c: the program between gdb, which connects to a TCP port, and the
  serial line of the virtual machine, a local socket.  Whatever one side sends is printed and
  passed on to the other.  The system calls are not part of the program: what each returns is
  an input, and what the program does to the outside is the list of its actions.
\<close>

section \<open>Inputs and actions\<close>

text \<open>The two entries of polli: GDBIDX is 0 and HOSTIDX is 1.\<close>

datatype side = GDBIDX | HOSTIDX

fun other :: "side \<Rightarrow> side" where
  "other GDBIDX = HOSTIDX"
| "other HOSTIDX = GDBIDX"

text \<open>What read returns: -1, or the bytes it put into the buffer, at most 4096; no byte means
  that the connection is closed.\<close>

datatype read_result = ReadFailed | ReadBytes "u8 list"

text \<open>What write returns: the number of bytes it took, which may be fewer than it was given, or -1;
  a connection the other end has closed makes it end the program with SIGPIPE.\<close>

datatype write_result = Wrote nat | WriteFailed | BrokenPipe

text \<open>What poll returns: -1, 0, or the events of each entry: POLLERR, and POLLIN together with what
  read and, after it, write then return.\<close>

datatype poll_result =
    PollFailed
  | PollNothing
  | PollEvents bool bool "(read_result \<times> write_result) option" "(read_result \<times> write_result) option"

datatype address = NoAddress | AF_INET string nat | AF_UNIX string

text \<open>A write is recorded with the bytes given to it and what it returned.\<close>

datatype action =
    Printf "u8 list"
  | Perror string
  | Connect int address
  | Write side "u8 list" write_result
  | Shutdown side

definition ascii :: "string \<Rightarrow> u8 list" where
  "ascii s = map (\<lambda>c. of_nat (of_char c)) s"

definition COLOR :: "side \<Rightarrow> u8 list" where
  "COLOR i = 0x1B # ascii (case i of GDBIDX \<Rightarrow> ''[31m'' | HOSTIDX \<Rightarrow> ''[32m'')"

definition NORMAL :: "u8 list" where
  "NORMAL = 0x1B # ascii ''[00m''"

section \<open>Options and the address of the host\<close>

record options =
  inet_host :: bool
  single :: bool
  quiet :: bool

fun parse_options :: "string list \<Rightarrow> options \<Rightarrow> options" where
  "parse_options [] s = s"
| "parse_options (a # as) s =
     parse_options as
       (if a = ''-i'' then s\<lparr>inet_host := True\<rparr>
        else if a = ''-u'' then s\<lparr>inet_host := False\<rparr>
        else if a = ''-s'' then s\<lparr>single := True\<rparr>
        else if a = ''-q'' then s\<lparr>quiet := True\<rparr>
        else s)"

definition default_options :: options where
  "default_options = \<lparr>inet_host = False, single = False, quiet = False\<rparr>"

text \<open>makehostsocket: the descriptor and the address to connect to.  A socket that cannot be made is
  reported, and 1 returned in place of its descriptor.  An unset HOME is a null pointer; the path has
  room for 108 characters, its final null among them.\<close>

definition makehostsocket :: "bool \<Rightarrow> int \<Rightarrow> string option \<Rightarrow> (int \<times> address \<times> action list) outcome" where
  "makehostsocket inet sock home =
     (if sock = -1 then Ret (1, NoAddress, [Perror ''socket''])
      else if inet then Ret (sock, AF_INET ''127.0.0.1'' 1234, [])
      else case home of
        None \<Rightarrow> Fault
      | Some h \<Rightarrow>
          if length (h @ ''/vmware/acaros/ttyS0'') < 108
          then Ret (sock, AF_UNIX (h @ ''/vmware/acaros/ttyS0''), []) else Fault)"

section \<open>Passing on what one side sends\<close>

text \<open>The buffer: what is read goes to its start, and buffer[res] = 0 ends it as a string; after a
  read of 4096 bytes that is a write behind the buffer.\<close>

definition BUFFER_LENGTH :: nat where
  "BUFFER_LENGTH = 4096"

definition fill_buffer :: "u8 list \<Rightarrow> u8 list \<Rightarrow> u8 list outcome" where
  "fill_buffer d b =
     (if length d < BUFFER_LENGTH then Ret ((d @ drop (length d) b)[length d := 0]) else Fault)"

text \<open>The string in the buffer ends at its first null byte.\<close>

definition shown :: "u8 list \<Rightarrow> u8 list" where
  "shown b = takeWhile (\<lambda>c. c \<noteq> 0) b"

fun ctrl_c_loop :: "side \<Rightarrow> u8 list \<Rightarrow> action list" where
  "ctrl_c_loop i [] = []"
| "ctrl_c_loop i (c # cs) =
     (if c = 3 then Printf (COLOR i @ ascii ''<CTRLC>'' @ NORMAL) # ctrl_c_loop i cs else ctrl_c_loop i cs)"

definition print_traffic :: "bool \<Rightarrow> side \<Rightarrow> u8 list \<Rightarrow> action list" where
  "print_traffic q i b =
     (if q then [] else Printf (COLOR i @ shown b @ NORMAL) # ctrl_c_loop i (shown b))"

text \<open>How a connection ends: its sockets are shut down, the program returns 1, it is killed by
  SIGPIPE, or it is still waiting in poll.\<close>

datatype relay_end = Closed | Return1 | Killed | Waiting

text \<open>One entry of polli: the actions, the end it leads to, if it does, and the buffer.  What write
  returns is ignored.\<close>

definition relay_side :: "bool \<Rightarrow> side \<Rightarrow> (read_result \<times> write_result) option \<Rightarrow> u8 list \<Rightarrow>
    (action list \<times> relay_end option \<times> u8 list) outcome" where
  "relay_side q i r b =
     (case r of
        None \<Rightarrow> Ret ([], None, b)
      | Some (ReadFailed, _) \<Rightarrow> Ret ([Perror ''read''], Some Return1, b)
      | Some (ReadBytes d, w) \<Rightarrow>
          (if d = [] then Ret ([], Some Closed, b)
           else obind (fill_buffer d b) (\<lambda>b.
             Ret (print_traffic q i b @ [Write (other i) (take (length d) b) w],
                  if w = BrokenPipe then Some Killed else None, b))))"

definition relay_step :: "bool \<Rightarrow> poll_result \<Rightarrow> u8 list \<Rightarrow> (action list \<times> relay_end option \<times> u8 list) outcome" where
  "relay_step q ev b =
     (case ev of
        PollNothing \<Rightarrow> Ret ([], Some Closed, b)
      | PollFailed \<Rightarrow> Ret ([Perror ''poll''], Some Return1, b)
      | PollEvents e0 e1 r0 r1 \<Rightarrow>
          (if e0 \<or> e1 then Ret ([Printf (ascii ''socket error'' @ [10])], Some Closed, b)
           else obind (relay_side q GDBIDX r0 b) (\<lambda>(acts, e, b).
             case e of
               Some e \<Rightarrow> Ret (acts, Some e, b)
             | None \<Rightarrow> obind (relay_side q HOSTIDX r1 b) (\<lambda>(acts', e, b). Ret (acts @ acts', e, b)))))"

fun relay :: "bool \<Rightarrow> poll_result list \<Rightarrow> u8 list \<Rightarrow> (action list \<times> relay_end \<times> u8 list) outcome" where
  "relay q [] b = Ret ([], Waiting, b)"
| "relay q (ev # evs) b =
     obind (relay_step q ev b) (\<lambda>(acts, e, b).
       case e of
         Some e \<Rightarrow> Ret (acts, e, b)
       | None \<Rightarrow> obind (relay q evs b) (\<lambda>(acts', e, b). Ret (acts @ acts', e, b)))"

section \<open>The program\<close>

text \<open>One connection of gdb: what socket and connect return for the host, and the results of poll.\<close>

record session =
  host_socket :: int
  connect_result :: int
  polls :: "poll_result list"

record environment =
  server_socket :: int
  bind_result :: int
  listen_result :: int
  HOME :: "string option"
  clients :: "session list"

text \<open>The body of the outer loop, as far as what it leaves: the actions, the return of the program if
  it returned, and whether it waits inside or was killed.\<close>

datatype progress = Next | Returned int | Blocked | Died

definition note_unless :: "bool \<Rightarrow> action \<Rightarrow> action list" where
  "note_unless q a = (if q then [] else [a])"

definition run_session :: "options \<Rightarrow> string option \<Rightarrow> session \<Rightarrow> u8 list \<Rightarrow>
    (action list \<times> progress \<times> u8 list) outcome" where
  "run_session opt home c b =
     obind (makehostsocket (inet_host opt) (host_socket c) home) (\<lambda>(fd, addr, acts0).
       let acts1 = note_unless (quiet opt) (Printf (ascii ''connected'' @ [10])) @ acts0 @ [Connect fd addr] in
       if connect_result c < 0
       then Ret (acts1 @ note_unless (quiet opt) (Perror ''connecting host'') @ [Shutdown GDBIDX], Next, b)
       else obind (relay (quiet opt) (polls c) b) (\<lambda>(acts2, e, b).
         let acts3 = acts1 @ note_unless (quiet opt) (Printf (ascii ''client connected'' @ [10])) @ acts2 in
         case e of
           Waiting \<Rightarrow> Ret (acts3, Blocked, b)
         | Return1 \<Rightarrow> Ret (acts3, Returned 1, b)
         | Killed \<Rightarrow> Ret (acts3, Died, b)
         | Closed \<Rightarrow>
             Ret (acts3 @ [Shutdown GDBIDX, Shutdown HOSTIDX] @
                    note_unless (quiet opt) (Printf (ascii ''disconnected'' @ [10])), Next, b)))"

text \<open>The outer loop, and how the program ends: it waits, in accept or in poll, it exits with a
  status, or it is killed.\<close>

datatype program_end = Waits | Exits int | Signalled

fun serve :: "options \<Rightarrow> string option \<Rightarrow> session list \<Rightarrow> u8 list \<Rightarrow> (action list \<times> program_end) outcome" where
  "serve opt home [] b = Ret ([], Waits)"
| "serve opt home (c # cs) b =
     obind (run_session opt home c b) (\<lambda>(acts, e, b).
       case e of
         Blocked \<Rightarrow> Ret (acts, Waits)
       | Died \<Rightarrow> Ret (acts, Signalled)
       | Returned r \<Rightarrow> Ret (acts, Exits r)
       | Next \<Rightarrow>
           (if single opt
            then Ret (acts @ note_unless (quiet opt) (Printf (ascii ''done'' @ [10])), Exits 0)
            else obind (serve opt home cs b) (\<lambda>(acts', r). Ret (acts @ acts', r))))"

definition redirector_main :: "string list \<Rightarrow> environment \<Rightarrow> (action list \<times> program_end) outcome" where
  "redirector_main argv env =
     (let opt = parse_options (tl argv) default_options in
      if server_socket env = -1 then Ret ([Perror ''socket''], Exits 1)
      else if bind_result env < 0 then Ret ([Perror ''bind''], Exits 1)
      else if listen_result env < 0 then Ret ([Perror ''listen''], Exits 1)
      else serve opt (HOME env) (clients env) (replicate BUFFER_LENGTH 0))"

section \<open>What is passed on\<close>

text \<open>The bytes given to write for a side, and those that write took.\<close>

fun accepted :: "u8 list \<times> write_result \<Rightarrow> u8 list" where
  "accepted (d, Wrote n) = take n d"
| "accepted (d, _) = []"

definition handed :: "side \<Rightarrow> action list \<Rightarrow> u8 list" where
  "handed i acts = concat (map (\<lambda>a. case a of Write j d w \<Rightarrow> if j = i then d else [] | _ \<Rightarrow> []) acts)"

definition arrived :: "side \<Rightarrow> action list \<Rightarrow> u8 list" where
  "arrived i acts = concat (map (\<lambda>a. case a of Write j d w \<Rightarrow> if j = i then accepted (d, w) else [] | _ \<Rightarrow> []) acts)"

fun complete :: "u8 list \<times> write_result \<Rightarrow> bool" where
  "complete (d, Wrote n) = (length d \<le> n)"
| "complete (d, _) = (d = [])"

text \<open>A result of poll after which the connection goes on.\<close>

fun delivers :: "(read_result \<times> write_result) option \<Rightarrow> bool" where
  "delivers None = True"
| "delivers (Some (ReadFailed, w)) = False"
| "delivers (Some (ReadBytes d, w)) = (d \<noteq> [] \<and> w \<noteq> BrokenPipe)"

fun goes_on :: "poll_result \<Rightarrow> bool" where
  "goes_on (PollEvents e0 e1 r0 r1) = (\<not> e0 \<and> \<not> e1 \<and> delivers r0 \<and> delivers r1)"
| "goes_on _ = False"

text \<open>What is read from each side, with what the write of it returns: nothing from the host when the
  connection of gdb ended first.\<close>

fun got :: "(read_result \<times> write_result) option \<Rightarrow> (u8 list \<times> write_result) list" where
  "got (Some (ReadBytes d, w)) = (if d = [] then [] else [(d, w)])"
| "got _ = []"

fun taken :: "side \<Rightarrow> poll_result \<Rightarrow> (u8 list \<times> write_result) list" where
  "taken i (PollEvents e0 e1 r0 r1) =
     (if e0 \<or> e1 then []
      else case i of GDBIDX \<Rightarrow> got r0 | HOSTIDX \<Rightarrow> if delivers r0 then got r1 else [])"
| "taken i _ = []"

definition traffic :: "side \<Rightarrow> poll_result list \<Rightarrow> (u8 list \<times> write_result) list" where
  "traffic i evs = concat (map (taken i) (takeWhile goes_on evs @ take 1 (dropWhile goes_on evs)))"

lemma traffic_simps [simp]:
  "traffic i [] = []" "traffic i (ev # evs) = taken i ev @ (if goes_on ev then traffic i evs else [])"
  by (simp_all add: traffic_def)

lemma passed_append [simp]: "handed i (as @ bs) = handed i as @ handed i bs" "arrived i (as @ bs) = arrived i as @ arrived i bs"
  by (simp_all add: handed_def arrived_def)

lemma passed_simps [simp]:
  "handed i [] = []" "arrived i [] = []"
  "handed i (Printf t # as) = handed i as" "arrived i (Printf t # as) = arrived i as"
  "handed i (Perror m # as) = handed i as" "arrived i (Perror m # as) = arrived i as"
  "handed i (Connect fd a # as) = handed i as" "arrived i (Connect fd a # as) = arrived i as"
  "handed i (Shutdown j # as) = handed i as" "arrived i (Shutdown j # as) = arrived i as"
  "handed i (Write j d w # as) = (if j = i then d else []) @ handed i as"
  "arrived i (Write j d w # as) = (if j = i then accepted (d, w) else []) @ arrived i as"
  by (simp_all add: handed_def arrived_def)

lemma passed_traffic [simp]: "handed i (print_traffic q j b) = []" "arrived i (print_traffic q j b) = []"
proof -
  have "handed i (ctrl_c_loop j cs) = [] \<and> arrived i (ctrl_c_loop j cs) = []" for cs by (induction cs) auto
  then show "handed i (print_traffic q j b) = []" "arrived i (print_traffic q j b) = []" by (simp_all add: print_traffic_def)
qed

lemma fill_buffer_Ret:
  "length b = BUFFER_LENGTH \<Longrightarrow> length d < BUFFER_LENGTH \<Longrightarrow>
   \<exists>b'. fill_buffer d b = Ret b' \<and> length b' = BUFFER_LENGTH \<and> take (length d) b' = d"
  by (auto simp: fill_buffer_def)

text \<open>What an outcome of a part of the loop must be when xs i is read from side i.\<close>

definition passes :: "(side \<Rightarrow> (u8 list \<times> write_result) list) \<Rightarrow> ('e \<Rightarrow> bool) \<Rightarrow> (action list \<times> 'e \<times> u8 list) outcome \<Rightarrow> bool" where
  "passes xs P res \<longleftrightarrow>
     (if \<exists>i. \<exists>x \<in> set (xs i). BUFFER_LENGTH \<le> length (fst x) then res = Fault
      else \<exists>acts e b. res = Ret (acts, e, b) \<and> length b = BUFFER_LENGTH \<and> P e \<and>
        (\<forall>i. handed (other i) acts = concat (map fst (xs i)) \<and> arrived (other i) acts = concat (map accepted (xs i))))"

lemma ex_side: "(\<exists>i. P i) \<longleftrightarrow> P GDBIDX \<or> P HOSTIDX"
  by (metis side.exhaust)

lemma all_side: "(\<forall>i. P i) \<longleftrightarrow> P GDBIDX \<and> P HOSTIDX"
  by (metis side.exhaust)

lemma relay_side_passes:
  assumes "length b = BUFFER_LENGTH"
  shows "passes (\<lambda>j. if j = i then got r else []) (\<lambda>e. (e = None \<longleftrightarrow> delivers r) \<and> e \<noteq> Some Waiting) (relay_side q i r b)"
proof (cases r rule: got.cases)
  case (1 d w)
  show ?thesis
  proof (cases "d = [] \<or> BUFFER_LENGTH \<le> length d")
    case True
    then show ?thesis using assms 1
      by (cases i) (auto simp: passes_def relay_side_def fill_buffer_def ex_side all_side BUFFER_LENGTH_def)
  next
    case False
    then obtain b' where b': "fill_buffer d b = Ret b'" "length b' = BUFFER_LENGTH" "take (length d) b' = d"
      using fill_buffer_Ret [OF assms, of d] by auto
    then have "relay_side q i r b = Ret (print_traffic q i b' @ [Write (other i) d w], if w = BrokenPipe then Some Killed else None, b')"
      using 1 False by (simp add: relay_side_def)
    then show ?thesis using False 1 b'(2) by (cases i) (auto simp: passes_def all_side)
  qed
qed (use assms in \<open>auto simp: passes_def relay_side_def\<close>)

lemma passes_Fault: "passes xs P res \<Longrightarrow> x \<in> set (xs i) \<Longrightarrow> BUFFER_LENGTH \<le> length (fst x) \<Longrightarrow> res = Fault"
  unfolding passes_def by (metis (no_types, lifting))

lemma passes_Ret:
  assumes "passes xs P res" "\<not> (\<exists>i. \<exists>x \<in> set (xs i). BUFFER_LENGTH \<le> length (fst x))"
  shows "\<exists>acts e b. res = Ret (acts, e, b) \<and> length b = BUFFER_LENGTH \<and> P e \<and>
    (\<forall>i. handed (other i) acts = concat (map fst (xs i)) \<and> arrived (other i) acts = concat (map accepted (xs i)))"
  using assms unfolding passes_def by (simp only: if_False)

text \<open>Two parts of the loop, the second one run unless the first one ends the connection.\<close>

lemma passes_seq:
  assumes 1: "passes xs P res" and P: "\<And>e. P e \<Longrightarrow> (e = None \<longleftrightarrow> goes) \<and> e \<noteq> Some Waiting"
    and 2: "\<And>b. goes \<Longrightarrow> length b = BUFFER_LENGTH \<Longrightarrow> passes ys Q (g b)"
    and stop: "\<And>e. \<not> goes \<Longrightarrow> P (Some e) \<Longrightarrow> Q (wrap e)"
  shows "passes (\<lambda>i. xs i @ (if goes then ys i else [])) Q
    (obind res (\<lambda>(acts, e, b). case e of Some e \<Rightarrow> Ret (acts, wrap e, b)
      | None \<Rightarrow> obind (g b) (\<lambda>(acts', e, b). Ret (acts @ acts', e, b))))" (is "passes ?zs Q ?all")
proof (cases "\<exists>i. \<exists>x \<in> set (xs i). BUFFER_LENGTH \<le> length (fst x)")
  case True
  then have "res = Fault" using passes_Fault [OF 1] by blast
  then show ?thesis using True unfolding passes_def by auto
next
  case small: False
  obtain acts e b where r: "res = Ret (acts, e, b)" "length b = BUFFER_LENGTH" "P e"
    "\<And>i. handed (other i) acts = concat (map fst (xs i))" "\<And>i. arrived (other i) acts = concat (map accepted (xs i))"
    using passes_Ret [OF 1 small] by blast
  show ?thesis
  proof (cases goes)
    case False
    then obtain e' where e: "e = Some e'" using P [OF r(3)] by auto
    then show ?thesis using r False stop [OF False, of e'] small unfolding passes_def by (auto simp: not_le)
  next
    case True
    then have e: "e = None" using P [OF r(3)] by simp
    note p = 2 [OF True r(2)]
    show ?thesis
    proof (cases "\<exists>i. \<exists>x \<in> set (ys i). BUFFER_LENGTH \<le> length (fst x)")
      case over: True
      then have "g b = Fault" using passes_Fault [OF p] by blast
      then show ?thesis using over True r(1) e unfolding passes_def by auto
    next
      case ok: False
      from passes_Ret [OF p ok] obtain acts2 e2 b2 where r2: "g b = Ret (acts2, e2, b2)" "length b2 = BUFFER_LENGTH" "Q e2"
        "\<And>i. handed (other i) acts2 = concat (map fst (ys i))" "\<And>i. arrived (other i) acts2 = concat (map accepted (ys i))"
        by blast
      then show ?thesis using r True e small ok unfolding passes_def by auto
    qed
  qed
qed

lemma relay_step_passes:
  assumes "length b = BUFFER_LENGTH"
  shows "passes (\<lambda>i. taken i ev) (\<lambda>e. (e = None \<longleftrightarrow> goes_on ev) \<and> e \<noteq> Some Waiting) (relay_step q ev b)"
proof (cases "\<exists>r0 r1. ev = PollEvents False False r0 r1")
  case True
  then obtain r0 r1 where ev: "ev = PollEvents False False r0 r1" by blast
  let ?xs = "\<lambda>i. (if i = GDBIDX then got r0 else []) @ (if delivers r0 then if i = HOSTIDX then got r1 else [] else [])"
  have "passes ?xs (\<lambda>e. (e = None \<longleftrightarrow> goes_on ev) \<and> e \<noteq> Some Waiting)
    (obind (relay_side q GDBIDX r0 b) (\<lambda>(acts, e, b). case e of Some e \<Rightarrow> Ret (acts, Some e, b)
      | None \<Rightarrow> obind (relay_side q HOSTIDX r1 b) (\<lambda>(acts', e, b). Ret (acts @ acts', e, b))))"
    by (rule passes_seq [OF relay_side_passes [OF assms]])
      (use relay_side_passes [of _ HOSTIDX r1 q] in \<open>auto simp: ev\<close>)
  moreover have "?xs = (\<lambda>i. taken i ev)" by (intro ext) (simp add: ev split: side.split)
  ultimately show ?thesis by (simp add: relay_step_def ev)
next
  case False
  then show ?thesis using assms by (cases ev) (auto simp: passes_def relay_step_def)
qed

lemma relay_passes:
  "length b = BUFFER_LENGTH \<Longrightarrow> passes (\<lambda>i. traffic i evs) (\<lambda>e. e = Waiting \<longleftrightarrow> list_all goes_on evs) (relay q evs b)"
proof (induction evs arbitrary: b)
  case Nil
  then show ?case by (simp add: passes_def)
next
  case (Cons ev evs)
  have "passes (\<lambda>i. taken i ev @ (if goes_on ev then traffic i evs else [])) (\<lambda>e. e = Waiting \<longleftrightarrow> list_all goes_on (ev # evs))
    (obind (relay_step q ev b) (\<lambda>(acts, e, b). case e of Some e \<Rightarrow> Ret (acts, id e, b)
      | None \<Rightarrow> obind (relay q evs b) (\<lambda>(acts', e, b). Ret (acts @ acts', e, b))))"
    by (rule passes_seq [OF relay_step_passes [OF Cons.prems]]) (use Cons.IH in auto)
  then show ?case by (simp only: relay.simps traffic_simps id_apply)
qed

lemma accepted_all: "concat (map accepted xs) = concat (map fst xs) \<longleftrightarrow> list_all complete xs"
proof
  have one: "length (accepted x) \<le> length (fst x) \<and> (length (accepted x) = length (fst x) \<longleftrightarrow> complete x)" for x
    by (cases x rule: accepted.cases) auto
  have sum: "length (concat (map accepted xs)) \<le> length (concat (map fst xs)) \<and>
      (length (concat (map accepted xs)) = length (concat (map fst xs)) \<longrightarrow> list_all complete xs)" for xs
  proof (induction xs)
    case (Cons x xs)
    then show ?case using one [of x] by auto
  qed simp
  assume "concat (map accepted xs) = concat (map fst xs)"
  then show "list_all complete xs" using sum [of xs] by simp
next
  have "complete x \<Longrightarrow> accepted x = fst x" for x by (cases x rule: accepted.cases) auto
  then show "list_all complete xs \<Longrightarrow> concat (map accepted xs) = concat (map fst xs)" by (induction xs) auto
qed

text \<open>C38: for every connection and whatever poll, read and write return: if some read before the
  connection ends fills the whole buffer of 4096 bytes, the program writes behind the buffer.
  Otherwise the bytes given to write for one side are those read from the other, in order, up to the
  result of poll that ends the connection, and what arrives there is the part of each that write took: it is everything
  exactly if no write was short, failed or ended the program.  The program waits for more exactly when no
  result of poll ended the connection.\<close>
theorem traffic_is_passed_on:
  assumes "length b = 4096"
  shows "if \<exists>i. \<exists>(d, w) \<in> set (traffic i evs). 4096 \<le> length d then relay q evs b = Fault
    else \<exists>acts e b'. relay q evs b = Ret (acts, e, b') \<and> (e = Waiting \<longleftrightarrow> list_all goes_on evs) \<and>
      (\<forall>i. handed (other i) acts = concat (map fst (traffic i evs)) \<and>
        arrived (other i) acts = concat (map accepted (traffic i evs)) \<and>
        (arrived (other i) acts = handed (other i) acts \<longleftrightarrow> list_all complete (traffic i evs)))"
  using relay_passes [of b evs q] assms accepted_all unfolding passes_def BUFFER_LENGTH_def case_prod_unfold
  by (auto split: if_splits)

theorem traffic_is_passed_on_witness:
  "\<exists>acts e b'. relay True [PollEvents False False (Some (ReadBytes [36, 109], Wrote 2)) None,
       PollEvents False False None (Some (ReadBytes [43, 44], Wrote 1)),
       PollEvents False False (Some (ReadBytes [], WriteFailed)) (Some (ReadBytes [7], Wrote 1))] (replicate 4096 0) = Ret (acts, e, b') \<and>
     e \<noteq> Waiting \<and> arrived HOSTIDX acts = [36, 109] \<and> handed GDBIDX acts = [43, 44] \<and> arrived GDBIDX acts = [43]"
proof -
  let ?evs = "[PollEvents False False (Some (ReadBytes [36, 109], Wrote 2)) None,
       PollEvents False False None (Some (ReadBytes [43, 44], Wrote 1)),
       PollEvents False False (Some (ReadBytes [], WriteFailed)) (Some (ReadBytes [7], Wrote 1))]"
  have t: "traffic GDBIDX ?evs = [([36, 109], Wrote 2)]" "traffic HOSTIDX ?evs = [([43, 44], Wrote 1)]" by simp_all
  have "\<not> (\<exists>i. \<exists>(d, w) \<in> set (traffic i ?evs). 4096 \<le> length d)" unfolding ex_side t by simp
  with traffic_is_passed_on [of "replicate 4096 0" ?evs True] obtain acts e b' where
    r: "relay True ?evs (replicate 4096 0) = Ret (acts, e, b')" "e = Waiting \<longleftrightarrow> list_all goes_on ?evs" and
    p: "\<And>i. handed (other i) acts = concat (map fst (traffic i ?evs))" "\<And>i. arrived (other i) acts = concat (map accepted (traffic i ?evs))"
    unfolding length_replicate by (simp only: if_False simp_thms) blast
  have "e \<noteq> Waiting" using r(2) by simp
  moreover have "arrived HOSTIDX acts = [36, 109]" using p(2) [of GDBIDX] unfolding t by simp
  moreover have "handed GDBIDX acts = [43, 44]" "arrived GDBIDX acts = [43]" using p(1) [of HOSTIDX] p(2) [of HOSTIDX] unfolding t by simp_all
  ultimately show ?thesis using r(1) by blast
qed

text \<open>A read that fills the buffer makes the program write behind it.\<close>

lemma full_read_overruns:
  "length d = 4096 \<Longrightarrow> relay_side q i (Some (ReadBytes d, w)) b = Fault"
  by (auto simp: relay_side_def fill_buffer_def BUFFER_LENGTH_def)

text \<open>A short write loses the rest of what was read.\<close>

lemma short_write_loses:
  "length b = 4096 \<Longrightarrow> \<exists>b'. relay_side True i (Some (ReadBytes [36, 109], Wrote 1)) b = Ret ([Write (other i) [36, 109] (Wrote 1)], None, b') \<and>
     arrived (other i) [Write (other i) [36, 109] (Wrote 1)] = [36]"
  by (auto simp: relay_side_def fill_buffer_def BUFFER_LENGTH_def print_traffic_def)

text \<open>When the socket for the host cannot be made, the program connects with descriptor 1, its own
  output, and no address.\<close>

lemma failed_host_socket:
  "host_socket c = -1 \<Longrightarrow> connect_result c = -1 \<Longrightarrow>
   run_session (default_options\<lparr>quiet := True\<rparr>) home c b =
     Ret ([Perror ''socket'', Connect 1 NoAddress, Shutdown GDBIDX], Next, b)"
  by (simp add: run_session_def makehostsocket_def note_unless_def default_options_def)

text \<open>Options: the last of -i and -u counts.\<close>

lemma options_example:
  "parse_options [''-i'', ''-x'', ''-q'', ''-u''] default_options = \<lparr>inet_host = False, single = False, quiet = True\<rparr>"
  by (simp add: default_options_def)

end
