(* ===== verification/Slab.thy ===== *)
theory Slab
  imports Pool
begin

text \<open>
  kernel/mm/slab/slab.co and include/mm/slab/slab.h: the slab allocator.  A cache hands out
  objects of one size from slabs, runs of pages of a pool; a slab begins with its header and the
  chain of its free objects (buffs), and the objects follow.  Caches are objects too: all but the
  cache of caches come from it.  The size caches serve slab_malloc.
\<close>

section \<open>Slabs and caches\<close>

definition SLAB_MAX_GFP_ORDER :: nat where "SLAB_MAX_GFP_ORDER = 6"
definition SLAB_NORMAL :: u32 where "SLAB_NORMAL = 0"
definition SLAB_DMA :: u32 where "SLAB_DMA = 1"
definition BUFCTL_END :: u32 where "BUFCTL_END = 0xFFFFFF"

text \<open>sizeof(slab_slab_t), sizeof(slab_bufctl_t) and sizeof(slab_cache_t).\<close>

definition sizeof_slab :: u32 where "sizeof_slab = 36"
definition sizeof_bufctl :: u32 where "sizeof_bufctl = 4"
definition sizeof_cache :: u32 where "sizeof_cache = 60"

datatype cache_ref = SlabCacheCache | CacheAt u32

datatype slab_node = SlabsFull | SlabsPartial | SlabsFree | SlabNode u32

text \<open>A slab, by the address of its header.  The list node and the tree node of the header are with
  the cache.\<close>

record slab_slab =
  slab_cache_of :: cache_ref
  mem :: u32
  inuse :: u32
  free :: u32
  buffs :: "u32 \<Rightarrow> u32"

record slab_cache =
  slab_lists :: "slab_node lheap"
  slabMapRoot :: "u32 avl_heap"
  objsize :: u32
  flags :: u32
  num :: u32
  gfporder :: nat
  cache_name :: string
  has_constructor :: bool

record slabs =
  caches :: "cache_ref \<Rightarrow> slab_cache"
  slab_at :: "u32 \<Rightarrow> slab_slab"
  nonPagedPool :: pool
  dmaPool :: pool

definition slab_slab_t_avlmatch :: "(u32 \<Rightarrow> u32) \<Rightarrow> u32 \<Rightarrow> u32 \<Rightarrow> u32 \<Rightarrow> int" where
  "slab_slab_t_avlmatch start obj k b =
     (if start b \<le> k \<and> k < start b + obj then 0 else if k < start b then -1 else 1)"

section \<open>The size of a slab\<close>

text \<open>The number of objects and the bytes left over; the sizes are unsigned, so the division has a
  divisor of 0 when the size is 2^32 - 4.\<close>

definition slab_cacheEstimate :: "u32 \<Rightarrow> nat \<Rightarrow> (u32 \<times> u32) outcome" where
  "slab_cacheEstimate sz order =
     (let w = push_bit order PAGE_SIZE - sizeof_slab;
          n = w div (sz + sizeof_bufctl)
      in if sz + sizeof_bufctl = 0 then Fault else Ret (n, w - n * (sz + sizeof_bufctl)))"

function page_order_loop :: "u32 \<Rightarrow> nat \<Rightarrow> nat outcome" where
  "page_order_loop sz order =
     obind (slab_cacheEstimate sz order) (\<lambda>(n, w).
       if SLAB_MAX_GFP_ORDER \<le> order then Ret order
       else if n = 0 then page_order_loop sz (Suc order)
       else if w * 8 \<le> PAGE_SIZE * of_nat order then Ret order
       else page_order_loop sz (Suc order))"
  by pat_completeness auto
termination by (relation "measure (\<lambda>(sz, order). SLAB_MAX_GFP_ORDER - order)") auto

declare page_order_loop.simps [simp del]

definition slab_computePageOrder :: "u32 \<Rightarrow> nat outcome" where
  "slab_computePageOrder sz = page_order_loop sz 0"

section \<open>Making a slab\<close>

definition slab_cache_constructor :: "slab_cache \<Rightarrow> slab_cache" where
  "slab_cache_constructor C =
     C\<lparr>slab_lists := INIT_LIST_HEAD SlabsFree (INIT_LIST_HEAD SlabsPartial (INIT_LIST_HEAD SlabsFull (slab_lists C))),
       slabMapRoot := (slabMapRoot C)\<lparr>avl_root := None\<rparr>, flags := 0, gfporder := 0, has_constructor := False\<rparr>"

text \<open>The constructor runs on the objects in order; only the cache of caches has one.\<close>

definition construct_objects :: "u32 \<Rightarrow> u32 \<Rightarrow> u32 \<Rightarrow> (cache_ref \<Rightarrow> slab_cache) \<Rightarrow> cache_ref \<Rightarrow> slab_cache" where
  "construct_objects m sz n cs =
     fold (\<lambda>i cs. let c = CacheAt (m + of_nat i * sz) in cs(c := slab_cache_constructor (cs c))) [0..<unat n] cs"

text \<open>Slabs are page aligned, so a tree of them is never deeper than this.\<close>

definition slab_fuel :: nat where "slab_fuel = 1048577"

text \<open>In a slab of no object the write to buffs[num - 1] hits the field in front, free.\<close>

definition slab_header :: "cache_ref \<Rightarrow> slab_cache \<Rightarrow> u32 \<Rightarrow> slab_slab \<Rightarrow> slab_slab" where
  "slab_header c C a sl =
     (let bs = (\<lambda>i. if i < num C then i + 1 else buffs sl i)
      in \<lparr>slab_cache_of = c, mem = a + sizeof_slab + sizeof_bufctl * num C, inuse = 0,
          free = (if num C = 0 then BUFCTL_END else 0), buffs = bs(num C - 1 := BUFCTL_END)\<rparr>)"

definition slab_slab_init :: "cache_ref \<Rightarrow> u32 \<Rightarrow> slabs \<Rightarrow> slabs outcome" where
  "slab_slab_init c a s =
     (let C = caches s c;
          sl = slab_header c C a (slab_at s a);
          at = (slab_at s)(a := sl);
          cs = (if has_constructor C then construct_objects (mem sl) (objsize C) (num C) (caches s) else caches s)
      in obind (avl_add slab_fuel (avl_make_compare (\<lambda>x. mem (at x))) a Root (null_avl_node a (slabMapRoot C)))
           (\<lambda>(h, _). Ret (s\<lparr>slab_at := at,
              caches := cs(c := C\<lparr>slab_lists := list_add (SlabNode a) SlabsFree (slab_lists C), slabMapRoot := h\<rparr>)\<rparr>)))"

definition slab_allocRange :: "u32 \<Rightarrow> u32 \<Rightarrow> slabs \<Rightarrow> (u32 \<times> slabs) outcome" where
  "slab_allocRange fl pages s =
     (if fl = SLAB_DMA
      then obind (pool_allocRange pages (dmaPool s)) (\<lambda>(a, p). Ret (a, s\<lparr>dmaPool := p\<rparr>))
      else obind (pool_allocRange pages (nonPagedPool s)) (\<lambda>(a, p). Ret (a, s\<lparr>nonPagedPool := p\<rparr>)))"

definition slab_create_slab :: "cache_ref \<Rightarrow> slabs \<Rightarrow> slabs outcome" where
  "slab_create_slab c s =
     obind (slab_allocRange (flags (caches s c)) (push_bit (gfporder (caches s c)) 1) s) (\<lambda>(a, s1).
       if a = 0 then Panic ''slab: cannot allocate memory for slab'' else slab_slab_init c a s1)"

section \<open>Allocation\<close>

definition slab_allocFromSlab :: "cache_ref \<Rightarrow> u32 \<Rightarrow> slabs \<Rightarrow> (u32 \<times> slabs) outcome" where
  "slab_allocFromSlab c a s =
     (let C = caches s c; sl = slab_at s a; obj = mem sl + free sl * objsize C
      in if free sl = BUFCTL_END then Panic ''ASSERTION FAILED''
         else
           let sl1 = sl\<lparr>inuse := inuse sl + 1, free := buffs sl (free sl)\<rparr>;
               C1 = (if free sl1 = BUFCTL_END
                     then C\<lparr>slab_lists := list_add (SlabNode a) SlabsFull (list_del (SlabNode a) (slab_lists C))\<rparr>
                     else C)
           in Ret (obj, s\<lparr>slab_at := (slab_at s)(a := sl1), caches := (caches s)(c := C1)\<rparr>))"

text \<open>The first free slab moves to the partial ones; then the first partial one serves.\<close>

definition use_free_slab :: "cache_ref \<Rightarrow> slabs \<Rightarrow> slabs" where
  "use_free_slab c s =
     (let C = caches s c; L = slab_lists C; tmp = nxt L SlabsFree
      in s\<lparr>caches := (caches s)(c := C\<lparr>slab_lists := list_add tmp SlabsPartial (list_del tmp L)\<rparr>)\<rparr>)"

definition slab_alloc :: "cache_ref \<Rightarrow> slabs \<Rightarrow> (u32 \<times> slabs) outcome" where
  "slab_alloc c s =
     obind (if list_empty SlabsPartial (slab_lists (caches s c))
            then obind (if list_empty SlabsFree (slab_lists (caches s c)) then slab_create_slab c s else Ret s)
                   (\<lambda>s1. Ret (use_free_slab c s1))
            else Ret s)
       (\<lambda>s1. case nxt (slab_lists (caches s1 c)) SlabsPartial of
          SlabNode a \<Rightarrow> slab_allocFromSlab c a s1
        | _ \<Rightarrow> Fault)"

text \<open>The alignment, the constructor and the destructor are parameters of slab_createCache that it
  does not use.\<close>

definition slab_createCache :: "string \<Rightarrow> u32 \<Rightarrow> u32 \<Rightarrow> slabs \<Rightarrow> (u32 \<times> slabs) outcome" where
  "slab_createCache name sz fl s =
     obind (slab_alloc SlabCacheCache s) (\<lambda>(a, s1).
       obind (slab_computePageOrder sz) (\<lambda>order.
         obind (slab_cacheEstimate sz order) (\<lambda>(n, _).
           Ret (a, s1\<lparr>caches := (caches s1)(CacheAt a := (caches s1 (CacheAt a))
             \<lparr>cache_name := name, objsize := sz, gfporder := order, num := n, flags := fl\<rparr>)\<rparr>))))"

section \<open>The size caches\<close>

text \<open>slab_size_cache and slab_size_cacheDma, and their trees by size.\<close>

record size_caches =
  sc_size :: "nat \<Rightarrow> u32"
  sc_cache :: "nat \<Rightarrow> u32"
  slab_sizeRoot :: "nat avl_heap"
  dma_size :: "nat \<Rightarrow> u32"
  dma_cache :: "nat \<Rightarrow> u32"
  slab_sizeRootDma :: "nat avl_heap"

definition SIZE_CACHES :: nat where "SIZE_CACHES = 13"

definition add_size_cache :: "nat \<Rightarrow> u32 \<Rightarrow> size_caches \<Rightarrow> slabs \<Rightarrow> (size_caches \<times> slabs) outcome" where
  "add_size_cache i sz z s =
     (let z1 = z\<lparr>sc_size := (sc_size z)(i := sz)\<rparr> in
      obind (avl_add (SIZE_CACHES + 1) (avl_make_compare (sc_size z1)) i Root (null_avl_node i (slab_sizeRoot z))) (\<lambda>(h, _).
        obind (slab_createCache ''sizespecific'' sz SLAB_NORMAL s) (\<lambda>(a, s).
          Ret (z1\<lparr>slab_sizeRoot := h, sc_cache := (sc_cache z)(i := a)\<rparr>, s))))"

definition add_dma_cache :: "nat \<Rightarrow> u32 \<Rightarrow> size_caches \<Rightarrow> slabs \<Rightarrow> (size_caches \<times> slabs) outcome" where
  "add_dma_cache i sz z s =
     (let z1 = z\<lparr>dma_size := (dma_size z)(i := sz)\<rparr> in
      obind (avl_add (SIZE_CACHES + 1) (avl_make_compare (dma_size z1)) i Root (null_avl_node i (slab_sizeRootDma z))) (\<lambda>(h, _).
        obind (slab_createCache ''sizespecificDma'' sz SLAB_DMA s) (\<lambda>(a, s).
          Ret (z1\<lparr>slab_sizeRootDma := h, dma_cache := (dma_cache z)(i := a)\<rparr>, s))))"

fun size_cache_loop :: "nat list \<Rightarrow> u32 \<Rightarrow> size_caches \<Rightarrow> slabs \<Rightarrow> (size_caches \<times> slabs) outcome" where
  "size_cache_loop [] sz z s = Ret (z, s)"
| "size_cache_loop (i # is) sz z s =
     obind (add_size_cache i sz z s) (\<lambda>(z, s).
       obind (add_dma_cache i sz z s) (\<lambda>(z, s). size_cache_loop is (push_bit 1 sz) z s))"

text \<open>order of slab_malloc: s is a signed integer, shifted until it is 0, which a negative one never is.\<close>

fun shift_loop :: "nat \<Rightarrow> int \<Rightarrow> nat \<Rightarrow> nat outcome" where
  "shift_loop 0 s order = Timeout"
| "shift_loop (Suc fuel) s order =
     (let s1 = drop_bit 1 s in if s1 \<noteq> 0 then shift_loop fuel s1 (Suc order) else Ret order)"

definition malloc_order :: "nat \<Rightarrow> u32 \<Rightarrow> nat outcome" where
  "malloc_order fuel sz =
     obind (shift_loop fuel (sint sz) 0) (\<lambda>order. Ret (if sz mod push_bit order 1 \<noteq> 0 then Suc order else order))"

definition slab_malloc :: "nat \<Rightarrow> u32 \<Rightarrow> u32 \<Rightarrow> size_caches \<Rightarrow> slabs \<Rightarrow> (u32 \<times> slabs) outcome" where
  "slab_malloc fuel sz fl z s =
     obind (malloc_order fuel sz) (\<lambda>order.
       if fl AND SLAB_DMA \<noteq> 0
       then obind (avl_find (SIZE_CACHES + 1) (avl_make_match (dma_size z)) (push_bit order 1) (slab_sizeRootDma z))
              (\<lambda>r. case r of None \<Rightarrow> Panic ''cannot find size cache'' | Some i \<Rightarrow> slab_alloc (CacheAt (dma_cache z i)) s)
       else obind (avl_find (SIZE_CACHES + 1) (avl_make_match (sc_size z)) (push_bit order 1) (slab_sizeRoot z))
              (\<lambda>r. case r of None \<Rightarrow> Panic ''cannot find size cache'' | Some i \<Rightarrow> slab_alloc (CacheAt (sc_cache z i)) s))"

definition slab_mfree :: "u32 \<Rightarrow> slabs \<Rightarrow> slabs" where
  "slab_mfree addr s = s"

text \<open>slab_init: the cache of caches, the size caches, and three allocations that are only logged.\<close>

definition slab_init :: "size_caches \<Rightarrow> slabs \<Rightarrow> (size_caches \<times> slabs) outcome" where
  "slab_init z0 s0 =
     (let C = (slab_cache_constructor (caches s0 SlabCacheCache))
                \<lparr>objsize := sizeof_cache, gfporder := 1, num := 127, cache_name := ''slabCache'', has_constructor := True\<rparr>;
          z = z0\<lparr>slab_sizeRoot := (slab_sizeRoot z0)\<lparr>avl_root := None\<rparr>,
                 slab_sizeRootDma := (slab_sizeRootDma z0)\<lparr>avl_root := None\<rparr>\<rparr>
      in obind (size_cache_loop [0..<SIZE_CACHES] 32 z (s0\<lparr>caches := (caches s0)(SlabCacheCache := C)\<rparr>)) (\<lambda>(z, s).
           obind (slab_alloc (CacheAt (sc_cache z 4)) s) (\<lambda>(_, s).
             obind (slab_malloc 32 4123 SLAB_NORMAL z s) (\<lambda>(_, s).
               obind (slab_malloc 32 4123 SLAB_DMA z s) (\<lambda>(_, s). Ret (z, s))))))"

end
