(* ===== verification/Slab_Props.thy ===== *)
theory Slab_Props
  imports Slab Pool_Props
begin

text \<open>
  The sizes of slabs, and the life of a cache: the chain of free objects of a slab is always the
  objects not yet handed out, the lists tell full, partial and free slabs, and every object is a
  part of a page range the pool handed out.
\<close>

section \<open>Sizes\<close>

lemma order_cases: "k \<le> 6 \<Longrightarrow> k \<in> {0, 1, 2, 3, 4, 5, 6 :: nat}"
  by auto

lemma PAGE_SIZE_shift: "k \<le> 6 \<Longrightarrow> unat (push_bit k PAGE_SIZE) = 4096 * 2 ^ k"
  by (drule order_cases) (auto simp: PAGE_SIZE_def)

lemma pages_bound: "k \<le> 6 \<Longrightarrow> (4096 :: nat) \<le> 4096 * 2 ^ k \<and> 4096 * 2 ^ k \<le> (262144 :: nat)"
  by (drule order_cases) auto

lemma slab_cacheEstimate_fits:
  assumes "k \<le> 6" "unat sz < 4294967292"
  shows "\<exists>n w. slab_cacheEstimate sz k = Ret (n, w) \<and>
    unat n = (4096 * 2 ^ k - 36) div (unat sz + 4) \<and> unat w = (4096 * 2 ^ k - 36) mod (unat sz + 4)"
proof -
  let ?w = "push_bit k PAGE_SIZE - sizeof_slab" and ?d = "sz + sizeof_bufctl"
  have "36 \<le> (4096 :: nat) * 2 ^ k" using pages_bound [OF assms(1)] by linarith
  then have "sizeof_slab \<le> push_bit k PAGE_SIZE"
    using PAGE_SIZE_shift [OF assms(1)] by (simp add: word_le_nat_alt sizeof_slab_def)
  then have w: "unat ?w = 4096 * 2 ^ k - 36"
    using PAGE_SIZE_shift [OF assms(1)] by (simp add: unat_sub sizeof_slab_def)
  have d: "unat ?d = unat sz + 4" using assms(2) unat_add_lem [of sz sizeof_bufctl] by (simp add: sizeof_bufctl_def)
  then have "?d \<noteq> 0" by (metis add_is_0 unat_0 zero_neq_numeral)
  moreover have "?w - ?w div ?d * ?d = ?w mod ?d" by (metis minus_div_mult_eq_mod)
  ultimately show ?thesis by (simp add: slab_cacheEstimate_def Let_def w d unat_div unat_mod)
qed

text \<open>The objects of a slab of 2^k pages, and the bytes it leaves over.\<close>

definition objects_of :: "nat \<Rightarrow> nat \<Rightarrow> nat" where
  "objects_of z k = (4096 * 2 ^ k - 36) div (z + 4)"

definition waste_of :: "nat \<Rightarrow> nat \<Rightarrow> nat" where
  "waste_of z k = (4096 * 2 ^ k - 36) mod (z + 4)"

definition good_order :: "nat \<Rightarrow> nat \<Rightarrow> bool" where
  "good_order z k \<longleftrightarrow> 0 < objects_of z k \<and> 8 * waste_of z k \<le> 4096 * k"

lemma page_order_loop_finds:
  assumes "unat sz < 4294967292"
  shows "j \<le> 6 \<Longrightarrow> \<exists>k. page_order_loop sz j = Ret k \<and> j \<le> k \<and> k \<le> 6 \<and> (k < 6 \<longrightarrow> good_order (unat sz) k) \<and>
    (\<forall>i. j \<le> i \<and> i < k \<longrightarrow> \<not> good_order (unat sz) i)"
proof (induction "6 - j" arbitrary: j)
  case 0
  then have "j = 6" by simp
  then show ?case using slab_cacheEstimate_fits [OF order_refl assms]
    by (auto simp: page_order_loop.simps [of sz 6] SLAB_MAX_GFP_ORDER_def)
next
  case (Suc m)
  then have j: "j < 6" by simp
  obtain n w where e: "slab_cacheEstimate sz j = Ret (n, w)" "unat n = objects_of (unat sz) j" "unat w = waste_of (unat sz) j"
    using slab_cacheEstimate_fits [OF _ assms] Suc.prems unfolding objects_of_def waste_of_def by blast
  have n0: "n = 0 \<longleftrightarrow> objects_of (unat sz) j = 0" using e(2) by (metis unat_eq_0)
  have "waste_of (unat sz) j \<le> 4096 * 2 ^ j - 36" unfolding waste_of_def by (rule mod_less_eq_dividend)
  then have "unat w \<le> 262144" using e(3) pages_bound [of j] j by simp
  then have "unat (w * 8) = 8 * unat w" "unat (PAGE_SIZE * of_nat j) = 4096 * j"
    using j by (simp_all add: unat_word_ariths PAGE_SIZE_def unat_of_nat)
  then have w: "w * 8 \<le> PAGE_SIZE * of_nat j \<longleftrightarrow> 8 * waste_of (unat sz) j \<le> 4096 * j"
    using e(3) by (simp add: word_le_nat_alt)
  have s: "page_order_loop sz j = (if good_order (unat sz) j then Ret j else page_order_loop sz (Suc j))"
    using j e(1) n0 w by (simp add: page_order_loop.simps [of sz j] SLAB_MAX_GFP_ORDER_def good_order_def)
  show ?case
  proof (cases "good_order (unat sz) j")
    case True
    then show ?thesis using s j by auto
  next
    case False
    have "\<exists>k. page_order_loop sz (Suc j) = Ret k \<and> Suc j \<le> k \<and> k \<le> 6 \<and> (k < 6 \<longrightarrow> good_order (unat sz) k) \<and>
      (\<forall>i. Suc j \<le> i \<and> i < k \<longrightarrow> \<not> good_order (unat sz) i)"
      using Suc.hyps(1) [of "Suc j"] Suc.hyps(2) j by simp
    then show ?thesis using s False by (metis Suc_leD le_antisym not_less_eq_eq)
  qed
qed

lemma computed_sizes:
  assumes "0 < unat sz" "unat sz \<le> 262104"
  shows "\<exists>k n w. slab_computePageOrder sz = Ret k \<and> slab_cacheEstimate sz k = Ret (n, w) \<and> k \<le> 6 \<and>
    (k < 6 \<longrightarrow> good_order (unat sz) k) \<and> (\<forall>i < k. \<not> good_order (unat sz) i) \<and>
    0 < unat n \<and> 36 + unat n * (unat sz + 4) + unat w = 4096 * 2 ^ k"
proof -
  have sz: "unat sz < 4294967292" using assms(2) by simp
  obtain k where k: "slab_computePageOrder sz = Ret k" "k \<le> 6" "k < 6 \<longrightarrow> good_order (unat sz) k"
    "\<forall>i < k. \<not> good_order (unat sz) i"
    using page_order_loop_finds [OF sz, of 0] by (auto simp: slab_computePageOrder_def)
  obtain n w where e: "slab_cacheEstimate sz k = Ret (n, w)" "unat n = objects_of (unat sz) k" "unat w = waste_of (unat sz) k"
    using slab_cacheEstimate_fits [OF k(2) sz] unfolding objects_of_def waste_of_def by blast
  have "0 < objects_of (unat sz) k"
  proof (cases "k = 6")
    case True
    have "unat sz + 4 \<le> 4096 * 2 ^ k - 36" using True assms(2) by simp
    then show ?thesis unfolding objects_of_def by (simp add: div_greater_zero_iff)
  qed (use k in \<open>simp add: good_order_def\<close>)
  moreover have "unat n * (unat sz + 4) + unat w = 4096 * 2 ^ k - 36"
    using e(2,3) by (simp only: objects_of_def waste_of_def div_mult_mod_eq)
  then have "36 + unat n * (unat sz + 4) + unat w = 4096 * 2 ^ k" using pages_bound [OF k(2)] by linarith
  ultimately show ?thesis using k e by auto
qed

section \<open>What a cache is\<close>

definition pool_of :: "slabs \<Rightarrow> u32 \<Rightarrow> pool" where
  "pool_of s fl = (if fl = SLAB_DMA then dmaPool s else nonPagedPool s)"

definition slab_size :: "slab_cache \<Rightarrow> nat" where
  "slab_size C = 4096 * 2 ^ gfporder C"

definition objects_start :: "slab_cache \<Rightarrow> u32 \<Rightarrow> nat" where
  "objects_start C a = unat a + 36 + 4 * unat (num C)"

definition fits :: "slab_cache \<Rightarrow> bool" where
  "fits C \<longleftrightarrow> gfporder C \<le> 6 \<and> 0 < unat (num C) \<and> 0 < unat (objsize C) \<and>
     36 + unat (num C) * (unat (objsize C) + 4) \<le> slab_size C"

text \<open>The header of the slab at a when k of its objects are in use.\<close>

definition slab_ok :: "slab_slab \<Rightarrow> slab_cache \<Rightarrow> u32 \<Rightarrow> nat \<Rightarrow> bool" where
  "slab_ok sl C a k \<longleftrightarrow> unat (mem sl) = objects_start C a \<and> k \<le> unat (num C) \<and> unat (inuse sl) = k \<and>
     free sl = (if k = unat (num C) then BUFCTL_END else of_nat k) \<and>
     (\<forall>i < unat (num C). buffs sl (of_nat i) = (if Suc i = unat (num C) then BUFCTL_END else of_nat (Suc i)))"

abbreviation slab_heads :: "slab_node set" where
  "slab_heads \<equiv> {SlabsFull, SlabsPartial, SlabsFree}"

definition slabs_of :: "(slab_node \<Rightarrow> u32 list) \<Rightarrow> u32 set" where
  "slabs_of S = (\<Union>h \<in> slab_heads. set (S h))"

text \<open>Every slab is a used range of the pool, and none is the first, which holds the metadata.\<close>

definition slabs_in :: "pool \<Rightarrow> nat set \<Rightarrow> nat \<Rightarrow> u32 set \<Rightarrow> bool" where
  "slabs_in P T n A \<longleftrightarrow> 0 \<in> T \<and> bytes_of_slot P 0 = {unat (region_start P)..<unat (region_start P) + 4096} \<and>
     (\<forall>a \<in> A. \<exists>i \<in> T - {0}. bytes_of_slot P i = {unat a..<unat a + n})"

text \<open>S are the slabs of each list, K the number of objects in use of each slab.\<close>

definition cache_ok :: "slabs \<Rightarrow> cache_ref \<Rightarrow> (slab_node \<Rightarrow> u32 list) \<Rightarrow> (u32 \<Rightarrow> nat) \<Rightarrow> bool" where
  "cache_ok s c S K \<longleftrightarrow>
     (let C = caches s c; P = pool_of s (flags C) in
      fits C \<and> klist.family (slab_lists C) slab_heads (\<lambda>h. map SlabNode (S h)) \<and>
      (\<forall>a \<in> slabs_of S. slab_ok (slab_at s a) C a (K a)) \<and>
      (\<forall>a \<in> set (S SlabsPartial). K a < unat (num C)) \<and> (\<forall>a \<in> set (S SlabsFree). K a = 0) \<and>
      (\<exists>t. tree_at (slabMapRoot C) (avl_root (slabMapRoot C)) t \<and> balanced t \<and>
         sorted_keys (\<lambda>x. mem (slab_at s x)) t \<and> nodes t = slabs_of S) \<and>
      0 < unat (region_start P) \<and> (\<exists>U F T. pool_ok P U F T \<and> slabs_in P T (slab_size C) (slabs_of S)))"

lemma slabs_inD: "slabs_in P T n A \<Longrightarrow> a \<in> A \<Longrightarrow> \<exists>i \<in> T. bytes_of_slot P i = {unat a..<unat a + n}"
  by (auto simp: slabs_in_def)

lemma cache_okD:
  assumes "cache_ok s c S K"
  shows "fits (caches s c)" "klist.family (slab_lists (caches s c)) slab_heads (\<lambda>h. map SlabNode (S h))"
    "a \<in> slabs_of S \<Longrightarrow> slab_ok (slab_at s a) (caches s c) a (K a)"
    "a \<in> set (S SlabsPartial) \<Longrightarrow> K a < unat (num (caches s c))" "a \<in> set (S SlabsFree) \<Longrightarrow> K a = 0"
    "\<exists>t. tree_at (slabMapRoot (caches s c)) (avl_root (slabMapRoot (caches s c))) t \<and> balanced t \<and>
       sorted_keys (\<lambda>x. mem (slab_at s x)) t \<and> nodes t = slabs_of S"
    "0 < unat (region_start (pool_of s (flags (caches s c))))"
    "\<exists>U F T. pool_ok (pool_of s (flags (caches s c))) U F T \<and>
       slabs_in (pool_of s (flags (caches s c))) T (slab_size (caches s c)) (slabs_of S)"
  using assms by (auto simp: cache_ok_def Let_def)

definition used_objects :: "(slab_node \<Rightarrow> u32 list) \<Rightarrow> (u32 \<Rightarrow> nat) \<Rightarrow> (u32 \<times> nat) set" where
  "used_objects S K = {(a, k). a \<in> slabs_of S \<and> k < K a}"

definition object_bytes :: "slab_cache \<Rightarrow> u32 \<times> nat \<Rightarrow> nat set" where
  "object_bytes C x = (case x of (a, k) \<Rightarrow>
     {objects_start C a + k * unat (objsize C)..<objects_start C a + k * unat (objsize C) + unat (objsize C)})"

lemma object_in_slab:
  assumes "fits C" "k < unat (num C)"
  shows "object_bytes C (a, k) \<subseteq> {unat a + 36..<unat a + slab_size C}"
proof -
  have "(k + 1) * unat (objsize C) \<le> unat (num C) * unat (objsize C)" using assms(2) by (intro mult_right_mono) auto
  then show ?thesis using assms(1) by (auto simp: object_bytes_def objects_start_def fits_def algebra_simps)
qed

lemma slab_range:
  assumes "pool_ok P U F T" "i \<in> T" "bytes_of_slot P i = {unat a..<unat a + n}" "0 < n"
  shows "slot_start P i = a" "unat a + n \<le> 4294967296" "unat (region_start P) \<le> unat a"
proof -
  have l: "slot_length P i \<noteq> 0" "unat (slot_start P i) + unat (slot_length P i) \<le> 4294967296"
    using pool_okD(9) [OF assms(1)] assms(2) by auto
  then have e: "unat (slot_start P i) = unat a \<and> unat (slot_start P i) + unat (slot_length P i) = unat a + n"
    using assms(3,4) unat_gt_0 [of "slot_length P i"] by (auto simp: bytes_of_slot_def atLeastLessThan_eq_iff)
  then show "slot_start P i = a" "unat a + n \<le> 4294967296" using l(2) by (simp_all add: word_unat_eq_iff)
  have "unat a \<in> bytes_of_slot P i" using assms(3,4) by simp
  then show "unat (region_start P) \<le> unat a" using pool_okD(8) [OF assms(1)] assms(2) by auto
qed

lemma slab_size_pos: "0 < slab_size C"
  by (simp add: slab_size_def)

text \<open>Different objects of a cache do not overlap.\<close>

lemma objects_disjoint:
  assumes ok: "cache_ok s c S K" and x: "x \<in> used_objects S K" "y \<in> used_objects S K" "x \<noteq> y"
  shows "object_bytes (caches s c) x \<inter> object_bytes (caches s c) y = {}"
proof -
  let ?C = "caches s c" and ?P = "pool_of s (flags (caches s c))"
  obtain U F T where p: "pool_ok ?P U F T" "\<forall>a \<in> slabs_of S. \<exists>i \<in> T. bytes_of_slot ?P i = {unat a..<unat a + slab_size ?C}"
    and f: "fits ?C" and k: "\<forall>a \<in> slabs_of S. K a \<le> unat (num ?C)"
    using cache_okD(1,3,8) [OF ok] slabs_inD unfolding slab_ok_def by metis
  obtain a i b j where xy: "x = (a, i)" "y = (b, j)" by (cases x; cases y)
  then have ab: "a \<in> slabs_of S" "i < unat (num ?C)" "b \<in> slabs_of S" "j < unat (num ?C)"
    using x k by (auto simp: used_objects_def)
  show ?thesis
  proof (cases "a = b")
    case True
    then have "i < j \<or> j < i" using x(3) xy by auto
    then have "(i + 1) * unat (objsize ?C) \<le> j * unat (objsize ?C) \<or> (j + 1) * unat (objsize ?C) \<le> i * unat (objsize ?C)"
      by (elim disjE) (metis Suc_eq_plus1 Suc_leI mult_le_mono1)+
    then show ?thesis using True xy by (auto simp: object_bytes_def)
  next
    case False
    obtain m n where mn: "m \<in> T" "n \<in> T" "bytes_of_slot ?P m = {unat a..<unat a + slab_size ?C}"
      "bytes_of_slot ?P n = {unat b..<unat b + slab_size ?C}" using p(2) ab(1,3) by blast
    then have "m \<noteq> n" using slab_range(1) [OF p(1) mn(1,3) slab_size_pos] slab_range(1) [OF p(1) mn(2,4) slab_size_pos] False by auto
    then have "{unat a..<unat a + slab_size ?C} \<inter> {unat b..<unat b + slab_size ?C} = {}"
      using pool_ok_disjoint [OF p(1), of m n] mn by auto
    then show ?thesis
      using object_in_slab [OF f ab(2), of a] object_in_slab [OF f ab(4), of b] xy by (fastforce simp: disjoint_iff)
  qed
qed

section \<open>One slab\<close>

lemma fits_bounds:
  assumes "fits C" "unat a + slab_size C \<le> 4294967296" "k < unat (num C)"
  shows "36 + 4 * unat (num C) + k * unat (objsize C) + unat (objsize C) \<le> slab_size C"
    "slab_size C \<le> 262144" "unat (num C) < 65536" "unat a + 36 + 4 * unat (num C) + k * unat (objsize C) < 4294967296"
proof -
  have "(k + 1) * unat (objsize C) \<le> unat (num C) * unat (objsize C)" using assms(3) by (intro mult_right_mono) auto
  then show 1: "36 + 4 * unat (num C) + k * unat (objsize C) + unat (objsize C) \<le> slab_size C"
    using assms(1) by (auto simp: fits_def algebra_simps)
  show 2: "slab_size C \<le> 262144" using pages_bound [of "gfporder C"] assms(1) by (simp add: fits_def slab_size_def)
  show "unat (num C) < 65536" using 1 2 by linarith
  show "unat a + 36 + 4 * unat (num C) + k * unat (objsize C) < 4294967296"
    using 1 assms(1,2) unfolding fits_def by linarith
qed

lemma alloc_from_slab:
  assumes sl: "slab_ok (slab_at s a) (caches s c) a k" "k < unat (num (caches s c))" "fits (caches s c)"
    and a: "unat a + slab_size (caches s c) \<le> 4294967296"
  shows "\<exists>x sl'. slab_allocFromSlab c a s = Ret (x, s\<lparr>slab_at := (slab_at s)(a := sl'), caches := (caches s)(c :=
        if Suc k = unat (num (caches s c))
        then (caches s c)\<lparr>slab_lists := list_add (SlabNode a) SlabsFull (list_del (SlabNode a) (slab_lists (caches s c)))\<rparr>
        else caches s c)\<rparr>) \<and>
    slab_ok sl' (caches s c) a (Suc k) \<and> mem sl' = mem (slab_at s a) \<and>
    unat x = objects_start (caches s c) a + k * unat (objsize (caches s c))"
proof -
  let ?C = "caches s c" and ?sl = "slab_at s a"
  let ?sl' = "?sl\<lparr>inuse := inuse ?sl + 1, free := buffs ?sl (free ?sl)\<rparr>" and ?x = "mem ?sl + free ?sl * objsize ?C"
  note b = fits_bounds [OF sl(3) a sl(2)]
  have END: "of_nat n \<noteq> BUFCTL_END" if "n < 65536" for n
  proof
    assume "of_nat n = BUFCTL_END"
    then have "unat (of_nat n :: u32) = 0xFFFFFF" by (simp add: BUFCTL_END_def)
    then show False using that unat_of_nat_u32 [of n] by simp
  qed
  have k: "k < 65536" "free ?sl = of_nat k" using sl(1,2) b(3) by (auto simp: slab_ok_def)
  have f: "unat (free ?sl) = k" "free ?sl \<noteq> BUFCTL_END" using k END by (simp_all add: unat_of_nat_u32)
  have bf: "buffs ?sl (free ?sl) = (if Suc k = unat (num ?C) then BUFCTL_END else of_nat (Suc k))"
    using sl(1,2) k(2) by (auto simp: slab_ok_def)
  have "unat (free ?sl * objsize ?C) = k * unat (objsize ?C)"
    using f(1) b(1,2) by (subst unat_mult_lem [THEN iffD1]) auto
  moreover have "unat (mem ?sl) = objects_start ?C a" using sl(1) by (simp add: slab_ok_def)
  ultimately have x: "unat ?x = objects_start ?C a + k * unat (objsize ?C)"
    using b(4) by (subst unat_add_lem [THEN iffD1]) (auto simp: objects_start_def)
  have "unat (inuse ?sl + 1) = Suc k" using sl(1) k(1) by (simp add: slab_ok_def unat_word_ariths)
  then have ok: "slab_ok ?sl' ?C a (Suc k)" using sl(1,2) bf by (simp add: slab_ok_def)
  have e: "free ?sl' = BUFCTL_END \<longleftrightarrow> Suc k = unat (num ?C)" using bf END [of "Suc k"] b(3) sl(2) by auto
  have "slab_allocFromSlab c a s = Ret (?x, s\<lparr>slab_at := (slab_at s)(a := ?sl'), caches := (caches s)(c :=
        if Suc k = unat (num ?C)
        then ?C\<lparr>slab_lists := list_add (SlabNode a) SlabsFull (list_del (SlabNode a) (slab_lists ?C))\<rparr> else ?C)\<rparr>)"
    using f(2) e by (simp add: slab_allocFromSlab_def Let_def)
  then show ?thesis using ok x by (intro exI [of _ ?x] exI [of _ ?sl']) simp
qed

lemma slab_header_ok:
  assumes "fits C" "unat a + slab_size C \<le> 4294967296"
  shows "slab_ok (slab_header c C a sl) C a 0"
proof -
  have n: "0 < unat (num C)" using assms(1) by (simp add: fits_def)
  note b = fits_bounds [OF assms n]
  have "unat (sizeof_bufctl * num C) = 4 * unat (num C)" using b(3) by (simp add: sizeof_bufctl_def unat_word_ariths)
  moreover have "unat (a + sizeof_slab) = unat a + 36" using b(4) by (simp add: sizeof_slab_def unat_word_ariths)
  ultimately have m: "unat (a + sizeof_slab + sizeof_bufctl * num C) = objects_start C a"
    using b(4) by (simp add: objects_start_def unat_word_ariths)
  have i: "(of_nat i = num C - 1) = (Suc i = unat (num C))" "of_nat i < num C" "of_nat i + 1 = (of_nat (Suc i) :: u32)"
    if "i < unat (num C)" for i
  proof -
    have "unat (num C - 1) = unat (num C) - 1" using n by (simp add: unat_sub word_le_nat_alt)
    then show "(of_nat i = num C - 1) = (Suc i = unat (num C))" "of_nat i < num C"
      using that n b(3) by (auto simp: word_unat_eq_iff word_less_nat_alt unat_of_nat_u32)
  qed simp
  have "num C \<noteq> 0" using n by auto
  then show ?thesis using m n i by (auto simp: slab_ok_def slab_header_def Let_def add.commute)
qed

section \<open>The lists of a cache\<close>

lemma move_slab:
  assumes F: "klist.family L slab_heads (\<lambda>h. map SlabNode (S h))" and g: "g \<in> slab_heads" "h \<in> slab_heads" "g \<noteq> h"
    and a: "S g = a # fs"
  shows "klist.family (list_add (SlabNode a) h (list_del (SlabNode a) L)) slab_heads
      (\<lambda>x. map SlabNode ((S(g := fs, h := a # S h)) x))"
    "slabs_of (S(g := fs, h := a # S h)) = slabs_of S"
proof -
  have "klist.family (list_add (SlabNode a) h (list_del (SlabNode a) L)) slab_heads
      (klist.move_to (SlabNode a) g h (\<lambda>h. map SlabNode (S h)))"
    using F g(1,2) by (rule klist.family_move) (use a in simp)
  then show "klist.family (list_add (SlabNode a) h (list_del (SlabNode a) L)) slab_heads
      (\<lambda>x. map SlabNode ((S(g := fs, h := a # S h)) x))"
    by (rule klist.family_cong) (use a g(3) in \<open>auto simp: klist.move_to_def Let_def\<close>)
  show "slabs_of (S(g := fs, h := a # S h)) = slabs_of S"
    using g a by (auto simp: slabs_of_def)
qed

lemma family_lists:
  assumes "klist.family L slab_heads (\<lambda>h. map SlabNode (S h))" "h \<in> slab_heads"
  shows "list_empty h L \<longleftrightarrow> S h = []" "S h \<noteq> [] \<Longrightarrow> nxt L h = SlabNode (hd (S h))"
proof -
  have d: "dll L h (map SlabNode (S h))" using klist.family_rep [OF assms] .
  show "list_empty h L \<longleftrightarrow> S h = []" using list_empty_iff [OF d] by simp
  show "S h \<noteq> [] \<Longrightarrow> nxt L h = SlabNode (hd (S h))" using dll_first [OF d] by (simp add: hd_map)
qed

text \<open>A slab is in one of the lists.\<close>

lemma family_apart:
  assumes "klist.family L slab_heads (\<lambda>h. map SlabNode (S h))" "g \<in> slab_heads" "h \<in> slab_heads" "g \<noteq> h"
  shows "set (S g) \<inter> set (S h) = {}" "distinct (S g)"
  using klist.family_disjoint [OF assms] klist.rep_distinct [OF klist.family_rep [OF assms(1,2)]]
  by (auto simp: distinct_map)

lemma slab_below:
  assumes "cache_ok s c S K" "a \<in> slabs_of S"
  shows "unat a + slab_size (caches s c) \<le> 4294967296"
  using cache_okD(8) [OF assms(1)] assms(2) slab_range(2) slab_size_pos slabs_inD by metis

section \<open>The steps of an allocation\<close>

text \<open>The parts of a cache that allocation leaves alone.\<close>

definition same_parts :: "slabs \<Rightarrow> slabs \<Rightarrow> cache_ref \<Rightarrow> bool" where
  "same_parts s s' c \<longleftrightarrow> objsize (caches s' c) = objsize (caches s c) \<and> num (caches s' c) = num (caches s c) \<and>
     gfporder (caches s' c) = gfporder (caches s c) \<and> flags (caches s' c) = flags (caches s c) \<and>
     region_start (pool_of s' (flags (caches s c))) = region_start (pool_of s (flags (caches s c))) \<and>
     region_length (pool_of s' (flags (caches s c))) = region_length (pool_of s (flags (caches s c)))"

lemma same_parts_simps:
  assumes "same_parts s s' c"
  shows "slab_size (caches s' c) = slab_size (caches s c)" "objects_start (caches s' c) = objects_start (caches s c)"
    "object_bytes (caches s' c) = object_bytes (caches s c)" "fits (caches s' c) = fits (caches s c)"
    "slab_ok sl (caches s' c) a k = slab_ok sl (caches s c) a k"
  using assms by (auto simp: same_parts_def slab_size_def objects_start_def object_bytes_def fits_def slab_ok_def fun_eq_iff)

lemma cache_okI:
  assumes sc: "same_parts s s' c" and C: "fits (caches s c)"
    and "klist.family (slab_lists (caches s' c)) slab_heads (\<lambda>h. map SlabNode (S h))"
    and "\<And>a. a \<in> slabs_of S \<Longrightarrow> slab_ok (slab_at s' a) (caches s c) a (K a)"
    and "\<And>a. a \<in> set (S SlabsPartial) \<Longrightarrow> K a < unat (num (caches s c))" "\<And>a. a \<in> set (S SlabsFree) \<Longrightarrow> K a = 0"
    and "\<exists>t. tree_at (slabMapRoot (caches s' c)) (avl_root (slabMapRoot (caches s' c))) t \<and> balanced t \<and>
       sorted_keys (\<lambda>x. mem (slab_at s' x)) t \<and> nodes t = slabs_of S"
    and "0 < unat (region_start (pool_of s (flags (caches s c))))"
    and "\<exists>U F T. pool_ok (pool_of s' (flags (caches s c))) U F T \<and>
       slabs_in (pool_of s' (flags (caches s c))) T (slab_size (caches s c)) (slabs_of S)"
  shows "cache_ok s' c S K"
proof -
  have "flags (caches s' c) = flags (caches s c)" "num (caches s' c) = num (caches s c)"
    "region_start (pool_of s' (flags (caches s c))) = region_start (pool_of s (flags (caches s c)))"
    using sc by (simp_all add: same_parts_def)
  then show ?thesis
    using assms(2-) unfolding cache_ok_def Let_def same_parts_simps [OF sc] by (simp only:) blast
qed

lemma use_free_slab_ok:
  assumes ok: "cache_ok s c S K" and f: "S SlabsFree = a # fs"
  shows "cache_ok (use_free_slab c s) c (S(SlabsFree := fs, SlabsPartial := a # S SlabsPartial)) K"
    "same_parts s (use_free_slab c s) c"
proof -
  note d = cache_okD [OF ok]
  have n: "nxt (slab_lists (caches s c)) SlabsFree = SlabNode a" using family_lists(2) [OF d(2), of SlabsFree] f by simp
  show sc: "same_parts s (use_free_slab c s) c" by (simp add: same_parts_def use_free_slab_def Let_def pool_of_def)
  have p: "pool_of (use_free_slab c s) fl = pool_of s fl" "slab_at (use_free_slab c s) = slab_at s"
    "slabMapRoot (caches (use_free_slab c s) c) = slabMapRoot (caches s c)"
    "slab_lists (caches (use_free_slab c s) c) =
       list_add (SlabNode a) SlabsPartial (list_del (SlabNode a) (slab_lists (caches s c)))" for fl
    using n by (simp_all add: use_free_slab_def Let_def pool_of_def)
  note m = move_slab [OF d(2), of SlabsFree SlabsPartial, OF _ _ _ f]
  have K: "K a = 0" "0 < unat (num (caches s c))" using d(1,5) f by (auto simp: fits_def)
  have S: "slabs_of (S(SlabsFree := fs, SlabsPartial := a # S SlabsPartial)) = slabs_of S" using m(2) by simp
  show "cache_ok (use_free_slab c s) c (S(SlabsFree := fs, SlabsPartial := a # S SlabsPartial)) K"
    using sc d(1) by (rule cache_okI) (use d(3-8) m(1) K S p f in auto)
qed

text \<open>The object comes from the first partial slab, which becomes full with its last object.\<close>

lemma allocFromSlab_ok:
  assumes ok: "cache_ok s c S K" and f: "S SlabsPartial = a # fs"
  shows "\<exists>x s' S'. slab_allocFromSlab c a s = Ret (x, s') \<and> cache_ok s' c S' (K(a := Suc (K a))) \<and> same_parts s s' c \<and>
    slabs_of S' = slabs_of S \<and> a \<in> slabs_of S \<and>
    unat x = objects_start (caches s c) a + K a * unat (objsize (caches s c))"
proof -
  note d = cache_okD [OF ok]
  let ?C = "caches s c"
  have a: "a \<in> slabs_of S" using f by (auto simp: slabs_of_def)
  have k: "K a < unat (num ?C)" using d(4) f by auto
  from alloc_from_slab [OF d(3) [OF a] k d(1) slab_below [OF ok a]] obtain x sl' where
    r: "slab_allocFromSlab c a s = Ret (x, s\<lparr>slab_at := (slab_at s)(a := sl'), caches := (caches s)(c :=
        if Suc (K a) = unat (num ?C)
        then ?C\<lparr>slab_lists := list_add (SlabNode a) SlabsFull (list_del (SlabNode a) (slab_lists ?C))\<rparr>
        else ?C)\<rparr>)" (is "_ = Ret (x, ?s')")
    and sl: "slab_ok sl' ?C a (Suc (K a))" "mem sl' = mem (slab_at s a)"
    and x: "unat x = objects_start ?C a + K a * unat (objsize ?C)" by blast
  let ?S' = "if Suc (K a) = unat (num ?C) then S(SlabsPartial := fs, SlabsFull := a # S SlabsFull) else S"
  note m = move_slab [OF d(2), of SlabsPartial SlabsFull, OF _ _ _ f]
  have S: "slabs_of ?S' = slabs_of S" using m(2) by simp
  have ap: "a \<notin> set (S SlabsFree)" "a \<notin> set fs"
    using family_apart [OF d(2), of SlabsPartial SlabsFree] f by auto
  have sc: "same_parts s ?s' c" by (simp add: same_parts_def pool_of_def)
  have p: "pool_of ?s' fl = pool_of s fl" "(\<lambda>y. mem (slab_at ?s' y)) = (\<lambda>y. mem (slab_at s y))"
    "slabMapRoot (caches ?s' c) = slabMapRoot ?C" for fl
    using sl(2) by (auto simp: pool_of_def fun_eq_iff)
  have L: "klist.family (slab_lists (caches ?s' c)) slab_heads (\<lambda>h. map SlabNode (?S' h))"
    using m(1) d(2) by simp
  have "cache_ok ?s' c ?S' (K(a := Suc (K a)))"
    using sc d(1) L
  proof (rule cache_okI)
    show "slab_ok (slab_at ?s' b) ?C b ((K(a := Suc (K a))) b)" if "b \<in> slabs_of ?S'" for b
      using that S sl(1) d(3) by auto
    show "(K(a := Suc (K a))) b < unat (num ?C)" if "b \<in> set (?S' SlabsPartial)" for b
      using that ap d(4) f Suc_lessI [OF k] by (auto split: if_splits)
    show "(K(a := Suc (K a))) b = 0" if "b \<in> set (?S' SlabsFree)" for b
      using that ap d(5) by (auto split: if_splits)
  qed (use d(6-8) S p in auto)
  then show ?thesis using r sc S a x by blast
qed

section \<open>A new slab\<close>

definition set_pool :: "slabs \<Rightarrow> u32 \<Rightarrow> pool \<Rightarrow> slabs" where
  "set_pool s fl p = (if fl = SLAB_DMA then s\<lparr>dmaPool := p\<rparr> else s\<lparr>nonPagedPool := p\<rparr>)"

lemma set_pool_simps [simp]:
  "pool_of (set_pool s fl p) fl = p" "caches (set_pool s fl p) = caches s" "slab_at (set_pool s fl p) = slab_at s"
  by (simp_all add: set_pool_def pool_of_def)

lemma slab_allocRange_pool:
  "slab_allocRange fl n s = obind (pool_allocRange n (pool_of s fl)) (\<lambda>(a, p). Ret (a, set_pool s fl p))"
  by (simp add: slab_allocRange_def pool_of_def set_pool_def)

text \<open>The slabs of a cache are at most as many as the used slots of its pool.\<close>

lemma few_slabs:
  assumes ok: "cache_ok s c S K" and t: "nodes t = slabs_of S" "sorted_keys key t"
  shows "height t < slab_fuel"
proof -
  let ?P = "pool_of s (flags (caches s c))"
  obtain U F T where p: "pool_ok ?P U F T" "\<forall>a \<in> slabs_of S. \<exists>i \<in> T. bytes_of_slot ?P i = {unat a..<unat a + slab_size (caches s c)}"
    using cache_okD(8) [OF ok] slabs_inD by metis
  have "slabs_of S \<subseteq> slot_start ?P ` T" using p(2) slab_range(1) [OF p(1) _ _ slab_size_pos] by force
  moreover have T: "T \<subseteq> {..<POOL_SLOTS_IN_CHUNK}" using pool_okD(5) [OF p(1)] by simp
  ultimately have "card (slabs_of S) \<le> card {..<POOL_SLOTS_IN_CHUNK}"
    using card_mono [OF _ \<open>slabs_of S \<subseteq> _\<close>] card_image_le [of T "slot_start ?P"] card_mono [OF _ T] finite_subset [OF T] by fastforce
  moreover have "height t \<le> card (nodes t)" using height_card key_order.sorted_keys_uniq [OF t(2)] by blast
  ultimately show ?thesis using t(1) by (simp add: POOL_SLOTS_IN_CHUNK_def slab_fuel_def)
qed

text \<open>The new slab enters the tree of slabs by the start of its objects.\<close>

lemma new_slab_tree:
  assumes ok: "cache_ok s c S K" and new: "a \<notin> slabs_of S" and sl: "slab_ok sl (caches s c) a 0"
  shows "\<exists>h t res. avl_add slab_fuel (avl_make_compare (\<lambda>x. mem (((slab_at s)(a := sl)) x))) a Root
      (null_avl_node a (slabMapRoot (caches s c))) = Ret (h, res) \<and> tree_at h (avl_root h) t \<and> balanced t \<and>
    sorted_keys (\<lambda>x. mem (((slab_at s)(a := sl)) x)) t \<and> nodes t = insert a (slabs_of S)"
proof -
  let ?C = "caches s c" and ?at = "(slab_at s)(a := sl)"
  note d = cache_okD [OF ok]
  obtain t where t: "tree_at (slabMapRoot ?C) (avl_root (slabMapRoot ?C)) t" "balanced t"
    "sorted_keys (\<lambda>x. mem (slab_at s x)) t" "nodes t = slabs_of S" using d(6) by blast
  have "sorted_keys (\<lambda>x. mem (?at x)) t"
    using t(3) by (rule sorted_keys_eq [THEN iffD2, rotated]) (use t(4) new in auto)
  moreover have "mem (?at b) \<noteq> mem (?at a)" if "b \<in> nodes t" for b
  proof -
    have b: "b \<in> slabs_of S" "b \<noteq> a" using that t(4) new by auto
    then have "unat (mem (?at b)) = objects_start ?C b" "unat (mem (?at a)) = objects_start ?C a"
      using d(3) sl by (auto simp: slab_ok_def)
    then show ?thesis using b(2) by (auto simp: objects_start_def word_unat_eq_iff)
  qed
  ultimately show ?thesis
    using add_fresh_node [OF t(1,2) _ few_slabs [OF ok t(4,3)], of "\<lambda>x. mem (?at x)" a] new t(4) by metis
qed

lemma slab_slab_init_ok:
  assumes ok: "cache_ok s c S K" and g: "pool_grown (pool_of s (flags (caches s c))) T [u] q"
    "bytes_of_slot q u = {unat a..<unat a + slab_size (caches s c)}"
    and p: "pool_ok (pool_of s (flags (caches s c))) U F T"
      "slabs_in (pool_of s (flags (caches s c))) T (slab_size (caches s c)) (slabs_of S)"
  shows "\<exists>s'. slab_slab_init c a (set_pool s (flags (caches s c)) q) = Ret s' \<and>
    cache_ok s' c (S(SlabsFree := a # S SlabsFree)) (K(a := 0)) \<and> same_parts s s' c \<and> a \<notin> slabs_of S"
proof -
  let ?C = "caches s c" and ?P = "pool_of s (flags (caches s c))" and ?s = "set_pool s (flags (caches s c)) q"
  note d = cache_okD [OF ok]
  obtain V G where q: "pool_ok q V G (insert u T)" using g(1) by (auto simp: pool_grown_def)
  have qT: "\<forall>i \<in> T. bytes_of_slot q i = bytes_of_slot ?P i" "u \<notin> T" using g(1) by (auto simp: pool_grown_def)
  have p2: "0 \<in> T" "\<And>b. b \<in> slabs_of S \<Longrightarrow> \<exists>i \<in> T - {0}. bytes_of_slot q i = {unat b..<unat b + slab_size ?C}"
    using p(2) qT(1) unfolding slabs_in_def by auto
  then have "\<forall>b \<in> insert a (slabs_of S). \<exists>i \<in> insert u T - {0}. bytes_of_slot q i = {unat b..<unat b + slab_size ?C}"
    using g(2) qT(2) by blast
  then have pages: "slabs_in q (insert u T) (slab_size ?C) (insert a (slabs_of S))"
    using p(2) g(1) qT(1) unfolding slabs_in_def pool_grown_def by auto
  have new: "a \<notin> slabs_of S"
  proof
    assume "a \<in> slabs_of S"
    then obtain i where i: "i \<in> T" "bytes_of_slot q i = {unat a..<unat a + slab_size ?C}" using p2(2) by blast
    then have "i \<noteq> u" using qT by blast
    then have "bytes_of_slot q i \<inter> bytes_of_slot q u = {}" using pool_ok_disjoint [OF q, of i u] i(1) by simp
    then show False using i(2) g(2) slab_size_pos [of ?C] by simp
  qed
  have a: "unat a + slab_size ?C \<le> 4294967296" using slab_range(2) [OF q _ g(2) slab_size_pos] by simp
  let ?sl = "slab_header c ?C a (slab_at s a)"
  let ?at = "(slab_at s)(a := ?sl)"
  have sl: "slab_ok ?sl ?C a 0" using d(1) a by (rule slab_header_ok)
  from new_slab_tree [OF ok new sl] obtain h t' res where
    h: "avl_add slab_fuel (avl_make_compare (\<lambda>x. mem (?at x))) a Root (null_avl_node a (slabMapRoot ?C)) = Ret (h, res)"
    "tree_at h (avl_root h) t'" "balanced t'" "sorted_keys (\<lambda>x. mem (?at x)) t'" "nodes t' = insert a (slabs_of S)" by blast
  define s' where "s' = ?s\<lparr>slab_at := ?at,
     caches := (if has_constructor ?C then construct_objects (mem ?sl) (objsize ?C) (num ?C) (caches s) else caches s)
       (c := ?C\<lparr>slab_lists := list_add (SlabNode a) SlabsFree (slab_lists ?C), slabMapRoot := h\<rparr>)\<rparr>"
  have r: "slab_slab_init c a ?s = Ret s'"
    using h(1) by (simp add: slab_slab_init_def Let_def s'_def)
  have f: "caches s' c = ?C\<lparr>slab_lists := list_add (SlabNode a) SlabsFree (slab_lists ?C), slabMapRoot := h\<rparr>"
    "slab_at s' = ?at" "pool_of s' (flags ?C) = q"
    by (auto simp: s'_def pool_of_def set_pool_def)
  have sc: "same_parts s s' c" using f g(1) by (simp add: same_parts_def pool_grown_def)
  have S: "slabs_of (S(SlabsFree := a # S SlabsFree)) = insert a (slabs_of S)" by (auto simp: slabs_of_def)
  have "klist.family (list_add (SlabNode a) SlabsFree (slab_lists ?C)) slab_heads
      ((\<lambda>h. map SlabNode (S h))(SlabsFree := SlabNode a # map SlabNode (S SlabsFree)))"
    using d(2) by (rule klist.family_insert) (use new in \<open>auto simp: slabs_of_def\<close>)
  then have L: "klist.family (slab_lists (caches s' c)) slab_heads (\<lambda>h. map SlabNode ((S(SlabsFree := a # S SlabsFree)) h))"
    unfolding f by simp (rule klist.family_cong, assumption, auto)
  have "cache_ok s' c (S(SlabsFree := a # S SlabsFree)) (K(a := 0))"
    using sc d(1) L
  proof (rule cache_okI)
    show "slab_ok (slab_at s' b) ?C b ((K(a := 0)) b)" if "b \<in> slabs_of (S(SlabsFree := a # S SlabsFree))" for b
      using that S sl d(3) f(2) by auto
    show "(K(a := 0)) b < unat (num ?C)" if "b \<in> set ((S(SlabsFree := a # S SlabsFree)) SlabsPartial)" for b
      using that d(1,4) by (auto simp: fits_def)
    show "(K(a := 0)) b = 0" if "b \<in> set ((S(SlabsFree := a # S SlabsFree)) SlabsFree)" for b
      using that d(5) by auto
    show "\<exists>t. tree_at (slabMapRoot (caches s' c)) (avl_root (slabMapRoot (caches s' c))) t \<and> balanced t \<and>
       sorted_keys (\<lambda>x. mem (slab_at s' x)) t \<and> nodes t = slabs_of (S(SlabsFree := a # S SlabsFree))"
      unfolding f S using h(2-) by auto
    show "\<exists>U F T. pool_ok (pool_of s' (flags ?C)) U F T \<and>
       slabs_in (pool_of s' (flags ?C)) T (slab_size ?C) (slabs_of (S(SlabsFree := a # S SlabsFree)))"
      unfolding f S using q pages by blast
  qed (rule d(7))
  then show ?thesis using r sc new by blast
qed

definition slab_panics :: "string set" where
  "slab_panics = insert ''slab: cannot allocate memory for slab'' pool_panics"

lemma slab_create_slab_ok:
  assumes ok: "cache_ok s c S K"
  shows "case slab_create_slab c s of
      Ret s' \<Rightarrow> \<exists>a. cache_ok s' c (S(SlabsFree := a # S SlabsFree)) (K(a := 0)) \<and> same_parts s s' c \<and> a \<notin> slabs_of S
    | Panic m \<Rightarrow> m \<in> slab_panics | _ \<Rightarrow> False"
proof -
  let ?C = "caches s c" and ?P = "pool_of s (flags (caches s c))"
  let ?n = "push_bit (gfporder ?C) 1 :: u32"
  obtain U F T where p: "pool_ok ?P U F T" "slabs_in ?P T (slab_size ?C) (slabs_of S)" using cache_okD(8) [OF ok] by blast
  have "gfporder ?C \<le> 6" using cache_okD(1) [OF ok] by (simp add: fits_def)
  then have n: "unat ?n = 2 ^ gfporder ?C" "unat ?n < 1048576" by (drule_tac order_cases; auto)+
  then have n0: "0 < unat ?n" by simp
  note g = pool_allocRange_grows [OF p(1) n0 n(2) cache_okD(7) [OF ok]]
  show ?thesis
  proof (cases "pool_allocRange ?n ?P")
    case (Ret r)
    obtain a q where r: "r = (a, q)" by (cases r)
    show ?thesis
    proof (cases "a = 0")
      case True
      then show ?thesis using Ret r by (simp add: slab_create_slab_def slab_allocRange_pool slab_panics_def)
    next
      case False
      then obtain u where u: "pool_grown ?P T [u] q" "bytes_of_slot q u = {unat a..<unat a + slab_size ?C}"
        using g Ret r n(1) by (auto simp: slab_size_def)
      from slab_slab_init_ok [OF ok u p] show ?thesis
        using Ret r False by (auto simp: slab_create_slab_def slab_allocRange_pool)
    qed
  qed (use g in \<open>auto simp: slab_create_slab_def slab_allocRange_pool slab_panics_def\<close>)
qed

text \<open>One allocation: the object is new, and the objects in use are the old ones and it.\<close>

lemma same_parts_trans: "same_parts s s1 c \<Longrightarrow> same_parts s1 s2 c \<Longrightarrow> same_parts s s2 c"
  by (simp add: same_parts_def)

lemma same_parts_refl [simp]: "same_parts s s c"
  by (simp add: same_parts_def)

definition partial_ready :: "slabs \<Rightarrow> cache_ref \<Rightarrow> (slab_node \<Rightarrow> u32 list) \<Rightarrow> (u32 \<Rightarrow> nat) \<Rightarrow> slabs \<Rightarrow> bool" where
  "partial_ready s c S K s1 \<longleftrightarrow> (\<exists>S1 K1 a fs. cache_ok s1 c S1 K1 \<and> same_parts s s1 c \<and> S1 SlabsPartial = a # fs \<and>
     used_objects S1 K1 = used_objects S K)"

lemma partial_ready_trans:
  "partial_ready s1 c S1 K1 s2 \<Longrightarrow> same_parts s s1 c \<Longrightarrow> used_objects S1 K1 = used_objects S K \<Longrightarrow> partial_ready s c S K s2"
  using same_parts_trans unfolding partial_ready_def by metis

lemma free_ready:
  assumes "cache_ok s c S K" "S SlabsFree = a # fs"
  shows "partial_ready s c S K (use_free_slab c s)"
proof -
  have "slabs_of (S(SlabsFree := fs, SlabsPartial := a # S SlabsPartial)) = slabs_of S"
    using assms(2) by (auto simp: slabs_of_def)
  then show ?thesis unfolding partial_ready_def used_objects_def
    using use_free_slab_ok [OF assms]
    by (intro exI [of _ "S(SlabsFree := fs, SlabsPartial := a # S SlabsPartial)"] exI [of _ K] exI [of _ a] exI [of _ "S SlabsPartial"]) auto
qed

definition make_ready :: "cache_ref \<Rightarrow> slabs \<Rightarrow> slabs outcome" where
  "make_ready c s =
     (if list_empty SlabsPartial (slab_lists (caches s c))
      then obind (if list_empty SlabsFree (slab_lists (caches s c)) then slab_create_slab c s else Ret s)
             (\<lambda>s1. Ret (use_free_slab c s1))
      else Ret s)"

lemma make_ready_ok:
  assumes ok: "cache_ok s c S K"
  shows "case make_ready c s of Ret s1 \<Rightarrow> partial_ready s c S K s1 | Panic m \<Rightarrow> m \<in> slab_panics | _ \<Rightarrow> False"
proof -
  note e = family_lists(1) [OF cache_okD(2) [OF ok]]
  consider a fs where "S SlabsPartial = a # fs" | a fs where "S SlabsPartial = []" "S SlabsFree = a # fs"
    | "S SlabsPartial = []" "S SlabsFree = []" by (metis neq_Nil_conv)
  then show ?thesis
  proof cases
    case 1
    then show ?thesis using ok e unfolding make_ready_def partial_ready_def by auto
  next
    case 2
    then show ?thesis using free_ready [OF ok 2(2)] e by (simp add: make_ready_def)
  next
    case 3
    note cr = slab_create_slab_ok [OF ok]
    show ?thesis
    proof (cases "slab_create_slab c s")
      case (Ret s1)
      then obtain a where a: "cache_ok s1 c (S(SlabsFree := a # S SlabsFree)) (K(a := 0))" "same_parts s s1 c" "a \<notin> slabs_of S"
        using cr by auto
      have "slabs_of (S(SlabsFree := a # S SlabsFree)) = insert a (slabs_of S)" by (auto simp: slabs_of_def)
      then have "used_objects (S(SlabsFree := a # S SlabsFree)) (K(a := 0)) = used_objects S K"
        using a(3) by (auto simp: used_objects_def split: if_splits)
      moreover have "partial_ready s1 c (S(SlabsFree := a # S SlabsFree)) (K(a := 0)) (use_free_slab c s1)"
        using a(1) by (rule free_ready) simp
      ultimately have "partial_ready s c S K (use_free_slab c s1)" using a(2) partial_ready_trans by blast
      then show ?thesis using Ret 3 e by (simp add: make_ready_def)
    qed (use 3 e cr in \<open>auto simp: make_ready_def\<close>)
  qed
qed

lemma slab_alloc_ok:
  assumes ok: "cache_ok s c S K"
  shows "case slab_alloc c s of
      Ret (x, q) \<Rightarrow> \<exists>S' K' a k. cache_ok q c S' K' \<and> same_parts s q c \<and> (a, k) \<notin> used_objects S K \<and>
        used_objects S' K' = insert (a, k) (used_objects S K) \<and>
        unat x = objects_start (caches s c) a + k * unat (objsize (caches s c))
    | Panic m \<Rightarrow> m \<in> slab_panics | _ \<Rightarrow> False"
proof -
  have r: "slab_alloc c s = obind (make_ready c s) (\<lambda>s1. case nxt (slab_lists (caches s1 c)) SlabsPartial of
          SlabNode a \<Rightarrow> slab_allocFromSlab c a s1 | _ \<Rightarrow> Fault)"
    by (simp add: slab_alloc_def make_ready_def)
  note mr = make_ready_ok [OF ok]
  show ?thesis
  proof (cases "make_ready c s")
    case (Ret s1)
    then obtain S1 K1 a fs where 1: "cache_ok s1 c S1 K1" "same_parts s s1 c" "S1 SlabsPartial = a # fs"
      "used_objects S1 K1 = used_objects S K" using mr by (auto simp: partial_ready_def)
    have n: "nxt (slab_lists (caches s1 c)) SlabsPartial = SlabNode a"
      using family_lists(2) [OF cache_okD(2) [OF 1(1)], of SlabsPartial] 1(3) by simp
    from allocFromSlab_ok [OF 1(1,3)] obtain x q S' where
      2: "slab_allocFromSlab c a s1 = Ret (x, q)" "cache_ok q c S' (K1(a := Suc (K1 a)))" "same_parts s1 q c"
      "slabs_of S' = slabs_of S1" "a \<in> slabs_of S1" "unat x = objects_start (caches s1 c) a + K1 a * unat (objsize (caches s1 c))"
      by blast
    have "used_objects S' (K1(a := Suc (K1 a))) = insert (a, K1 a) (used_objects S K)" "(a, K1 a) \<notin> used_objects S K"
      unfolding 1(4) [symmetric] using 2(4,5) by (auto simp: used_objects_def split: if_splits)
    moreover have "objects_start (caches s1 c) = objects_start (caches s c)" "objsize (caches s1 c) = objsize (caches s c)"
      using same_parts_simps(2) [OF 1(2)] 1(2) by (simp_all add: same_parts_def)
    ultimately show ?thesis using r Ret n 2 same_parts_trans [OF 1(2) 2(3)] by auto
  qed (use r mr in auto)
qed

section \<open>Histories\<close>

fun slab_allocs :: "nat \<Rightarrow> cache_ref \<Rightarrow> slabs \<Rightarrow> (u32 list \<times> slabs) outcome" where
  "slab_allocs 0 c s = Ret ([], s)"
| "slab_allocs (Suc n) c s =
     obind (slab_alloc c s) (\<lambda>(x, s1). obind (slab_allocs n c s1) (\<lambda>(xs, s2). Ret (x # xs, s2)))"

definition object_range :: "u32 \<Rightarrow> u32 \<Rightarrow> nat set" where
  "object_range sz x = {unat x..<unat x + unat sz}"

lemma slab_allocs_ok:
  "cache_ok s c S K \<Longrightarrow> case slab_allocs n c s of
      Ret (xs, q) \<Rightarrow> length xs = n \<and> (\<exists>S' K' ps. cache_ok q c S' K' \<and> same_parts s q c \<and> distinct ps \<and>
        set ps \<inter> used_objects S K = {} \<and> used_objects S' K' = set ps \<union> used_objects S K \<and>
        map (object_bytes (caches s c)) ps = map (object_range (objsize (caches s c))) xs)
    | Panic m \<Rightarrow> m \<in> slab_panics | _ \<Rightarrow> False"
proof (induction n arbitrary: s S K)
  case 0
  then show ?case by (auto intro!: exI [of _ S] exI [of _ K])
next
  case (Suc n)
  note a = slab_alloc_ok [OF Suc.prems]
  show ?case
  proof (cases "slab_alloc c s")
    case (Ret r)
    obtain x s1 where r: "r = (x, s1)" by (cases r)
    then obtain S1 K1 b k where 1: "cache_ok s1 c S1 K1" "same_parts s s1 c" "(b, k) \<notin> used_objects S K"
      "used_objects S1 K1 = insert (b, k) (used_objects S K)"
      "unat x = objects_start (caches s c) b + k * unat (objsize (caches s c))" using a Ret by auto
    note i = Suc.IH [OF 1(1)]
    show ?thesis
    proof (cases "slab_allocs n c s1")
      case (Ret r2)
      obtain xs q where r2: "r2 = (xs, q)" by (cases r2)
      then obtain S' K' ps where 2: "length xs = n" "cache_ok q c S' K'" "same_parts s1 q c" "distinct ps"
        "set ps \<inter> used_objects S1 K1 = {}" "used_objects S' K' = set ps \<union> used_objects S1 K1"
        "map (object_bytes (caches s1 c)) ps = map (object_range (objsize (caches s1 c))) xs" using i Ret by auto
      have "object_bytes (caches s1 c) = object_bytes (caches s c)" "objsize (caches s1 c) = objsize (caches s c)"
        using same_parts_simps(3) [OF 1(2)] 1(2) by (simp_all add: same_parts_def)
      moreover have "object_bytes (caches s c) (b, k) = object_range (objsize (caches s c)) x"
        using 1(5) by (simp add: object_bytes_def object_range_def)
      ultimately show ?thesis
        using \<open>slab_alloc c s = Ret r\<close> r Ret r2 1 2 same_parts_trans [OF 1(2) 2(3)]
        by (auto intro!: exI [of _ S'] exI [of _ K'] exI [of _ "(b, k) # ps"])
    qed (use \<open>slab_alloc c s = Ret r\<close> r i in auto)
  qed (use a in auto)
qed

section \<open>Fresh caches\<close>

lemma fresh_cache_ok:
  assumes sz: "0 < unat sz" "unat sz \<le> 262104" "slab_computePageOrder sz = Ret k" "slab_cacheEstimate sz k = Ret (n, w)"
    and C: "caches s c = (slab_cache_constructor C)\<lparr>objsize := sz, gfporder := k, num := n, flags := fl\<rparr>"
    and p: "pool_init start len p0 = Ret (pool_of s fl)" "4096 < unat len" "unat start + unat len \<le> 4294967296" "0 < unat start"
  shows "cache_ok s c (\<lambda>_. []) (\<lambda>_. 0)"
proof -
  have "fits (caches s c)"
    using computed_sizes [OF sz(1,2)] sz(1,3,4) by (auto simp: C fits_def slab_size_def)
  moreover have "klist.family (slab_lists (caches s c)) slab_heads (\<lambda>h. map SlabNode [])"
    by (rule klist.familyI) (auto simp: C slab_cache_constructor_def dll_def lheap_defs)
  moreover have "slabs_of (\<lambda>_. []) = {}" by (simp add: slabs_of_def)
  moreover have "tree_at (slabMapRoot (caches s c)) (avl_root (slabMapRoot (caches s c))) Leaf"
    by (simp add: C slab_cache_constructor_def)
  moreover have "flags (caches s c) = fl" by (simp add: C)
  moreover have "pool_ok (pool_of s fl) [2..<POOL_SLOTS_IN_CHUNK] [1] {0}" "region_start (pool_of s fl) = start"
    "bytes_of_slot (pool_of s fl) 0 = {unat start..<unat start + 4096}" using pool_init_ok [OF p(2,3), of p0] p(1) by auto
  ultimately show ?thesis
    using p(4) unfolding cache_ok_def Let_def slabs_in_def by (auto intro!: exI [of _ Leaf])
qed

lemma object_in_pool:
  assumes ok: "cache_ok s c S K" and x: "x \<in> used_objects S K"
  shows "object_bytes (caches s c) x \<subseteq> {unat (region_start (pool_of s (flags (caches s c)))) + 4096..<
      unat (region_start (pool_of s (flags (caches s c)))) + unat (region_length (pool_of s (flags (caches s c))))}"
proof -
  let ?C = "caches s c" and ?P = "pool_of s (flags (caches s c))"
  obtain a k where a: "x = (a, k)" "a \<in> slabs_of S" "k < K a" using x by (auto simp: used_objects_def)
  obtain U F T where p: "pool_ok ?P U F T" "slabs_in ?P T (slab_size ?C) (slabs_of S)" using cache_okD(8) [OF ok] by blast
  then obtain i where i: "i \<in> T" "i \<noteq> 0" "0 \<in> T" "bytes_of_slot ?P i = {unat a..<unat a + slab_size ?C}"
    "bytes_of_slot ?P 0 = {unat (region_start ?P)..<unat (region_start ?P) + 4096}"
    using a(2) unfolding slabs_in_def by blast
  have "k < unat (num ?C)" using cache_okD(3) [OF ok a(2)] a(3) by (simp add: slab_ok_def)
  from object_in_slab [OF cache_okD(1) [OF ok] this, of a] have o: "object_bytes ?C x \<subseteq> bytes_of_slot ?P i"
    using a(1) i(4) by auto
  have "bytes_of_slot ?P i \<subseteq> {unat (region_start ?P)..<unat (region_start ?P) + unat (region_length ?P)}"
    using pool_okD(8) [OF p(1)] i(1) by auto
  moreover have "bytes_of_slot ?P i \<inter> {unat (region_start ?P)..<unat (region_start ?P) + 4096} = {}"
    using pool_ok_disjoint [OF p(1), of i 0] i by auto
  ultimately show ?thesis using o behind by (meson subset_trans)
qed

section \<open>The properties\<close>

text \<open>C35: for every object size up to a slab of 64 pages, slab_computePageOrder ends with the least
  order in which the objects of a slab leave at most an eighth of that many pages over, or 6;
  the number of objects slab_cacheEstimate then gives is positive, and the header, the chain
  of free objects and the objects fit into the slab.\<close>
theorem slab_sizes_fit:
  assumes "0 < unat sz" "unat sz \<le> 262104"
  shows "\<exists>k n w. slab_computePageOrder sz = Ret k \<and> slab_cacheEstimate sz k = Ret (n, w) \<and> k \<le> 6 \<and>
    (k < 6 \<longrightarrow> good_order (unat sz) k) \<and> (\<forall>i < k. \<not> good_order (unat sz) i) \<and>
    0 < unat n \<and> 36 + unat n * (unat sz + 4) + unat w = 4096 * 2 ^ k"
  using assms by (rule computed_sizes)

theorem slab_sizes_fit_witness:
  "\<exists>k n w. slab_computePageOrder 131072 = Ret k \<and> slab_cacheEstimate 131072 k = Ret (n, w) \<and> k \<le> 6 \<and>
    36 + unat n * 131076 + unat w = 4096 * 2 ^ k"
  using slab_sizes_fit [of 131072] by auto

text \<open>C9: a new cache for objects of sz bytes, with the sizes the allocator computes, on a fresh
  pool: whatever number of objects are allocated from it, they are distinct and do not
  overlap, and each lies inside the pool, behind its metadata.  An allocation that does not
  return stops in a panic of the slab allocator or of the pool.\<close>
theorem slab_objects_never_overlap:
  assumes "0 < unat sz" "unat sz \<le> 262104" "slab_computePageOrder sz = Ret k" "slab_cacheEstimate sz k = Ret (n, w)"
    and "caches s c = (slab_cache_constructor C)\<lparr>objsize := sz, gfporder := k, num := n, flags := fl\<rparr>"
    and "pool_init start len p0 = Ret (pool_of s fl)" "4096 < unat len" "unat start + unat len \<le> 4294967296" "0 < unat start"
  shows "case slab_allocs m c s of
      Ret (xs, q) \<Rightarrow> length xs = m \<and> sorted_wrt (\<lambda>A B. A \<inter> B = {}) (map (object_range sz) xs) \<and>
        (\<forall>x \<in> set xs. object_range sz x \<subseteq> {unat start + 4096..<unat start + unat len})
    | Panic e \<Rightarrow> e \<in> slab_panics | _ \<Rightarrow> False"
proof -
  have ok: "cache_ok s c (\<lambda>_. []) (\<lambda>_. 0)" by (rule fresh_cache_ok) (rule assms)+
  have C: "objsize (caches s c) = sz" "pool_of s (flags (caches s c)) = pool_of s fl" using assms(5) by simp_all
  note a = slab_allocs_ok [OF ok, of m]
  show ?thesis
  proof (cases "slab_allocs m c s")
    case (Ret r)
    obtain xs q where r: "r = (xs, q)" by (cases r)
    then obtain S K ps where x: "length xs = m" "cache_ok q c S K" "same_parts s q c" "distinct ps" "used_objects S K = set ps"
      "map (object_bytes (caches s c)) ps = map (object_range sz) xs" using a Ret C by (auto simp: used_objects_def slabs_of_def)
    have "sorted_wrt (\<lambda>A B. A \<inter> B = {}) (map (object_range sz) xs)"
      unfolding x(6) [symmetric] sorted_wrt_map using x(4)
      by (rule sorted_wrt_distinct) (use objects_disjoint [OF x(2)] x(5) same_parts_simps(3) [OF x(3)] in auto)
    moreover have "object_range sz y \<subseteq> {unat start + 4096..<unat start + unat len}" if "y \<in> set xs" for y
    proof -
      have "object_range sz y \<in> set (map (object_bytes (caches s c)) ps)" unfolding x(6) using that by simp
      then obtain p where "p \<in> used_objects S K" "object_range sz y = object_bytes (caches q c) p"
        using x(5) same_parts_simps(3) [OF x(3)] by auto
      moreover have "region_start (pool_of q (flags (caches q c))) = start" "region_length (pool_of q (flags (caches q c))) = len"
        using x(3) C pool_init_ok [OF assms(7,8), of p0] assms(5,6) by (auto simp: same_parts_def)
      ultimately show ?thesis using object_in_pool [OF x(2)] by simp
    qed
    ultimately show ?thesis using Ret r x(1) by simp
  qed (use a in auto)
qed

definition example_slabs :: "u32 \<Rightarrow> nat \<Rightarrow> u32 \<Rightarrow> pool \<Rightarrow> slabs" where
  "example_slabs sz k n p =
     (let C = \<lparr>slab_lists = \<lparr>nxt = id, prv = id\<rparr>, slabMapRoot = heap_of Leaf, objsize = 0, flags = 0, num = 0, gfporder = 0,
                cache_name = [], has_constructor = False\<rparr>;
          sl = \<lparr>slab_cache_of = SlabCacheCache, mem = 0, inuse = 0, free = 0, buffs = (\<lambda>_. 0)\<rparr>
      in \<lparr>caches = (\<lambda>_. (slab_cache_constructor C)\<lparr>objsize := sz, gfporder := k, num := n, flags := SLAB_NORMAL\<rparr>),
          slab_at = (\<lambda>_. sl), nonPagedPool = p, dmaPool = p\<rparr>)"

theorem slab_objects_never_overlap_witness:
  "\<exists>k n w p. slab_computePageOrder 64 = Ret k \<and> slab_cacheEstimate 64 k = Ret (n, w) \<and>
    pool_init 0xD0000000 NON_PAGED_POOL_SIZE example_pool = Ret p \<and>
    (case slab_allocs 200 (CacheAt 0xD0001234) (example_slabs 64 k n p) of
      Ret (xs, q) \<Rightarrow> length xs = 200 \<and> sorted_wrt (\<lambda>A B. A \<inter> B = {}) (map (object_range 64) xs) \<and>
        (\<forall>x \<in> set xs. object_range 64 x \<subseteq>
          {unat (0xD0000000 :: u32) + 4096..<unat (0xD0000000 :: u32) + unat NON_PAGED_POOL_SIZE})
    | Panic e \<Rightarrow> e \<in> slab_panics | _ \<Rightarrow> False)"
proof -
  obtain k n w where s: "slab_computePageOrder 64 = Ret k" "slab_cacheEstimate 64 k = Ret (n, w)"
    using computed_sizes [of 64] by auto
  obtain p where p: "pool_init 0xD0000000 NON_PAGED_POOL_SIZE example_pool = Ret p"
    using pool_init_ok [of NON_PAGED_POOL_SIZE "0xD0000000" example_pool] by (auto simp: NON_PAGED_POOL_SIZE_def)
  have "pool_of (example_slabs 64 k n p) SLAB_NORMAL = p"
    by (simp add: pool_of_def example_slabs_def SLAB_NORMAL_def SLAB_DMA_def)
  with p have i: "pool_init 0xD0000000 NON_PAGED_POOL_SIZE example_pool = Ret (pool_of (example_slabs 64 k n p) SLAB_NORMAL)" by simp
  show ?thesis
    by (intro exI [of _ k] exI [of _ n] exI [of _ w] exI [of _ p] conjI s p,
        rule slab_objects_never_overlap [OF _ _ s _ i])
      (simp_all add: example_slabs_def Let_def NON_PAGED_POOL_SIZE_def)
qed

section \<open>The size class of slab_malloc\<close>

lemma shift_loop_log:
  "2 ^ k \<le> s \<Longrightarrow> s < 2 ^ Suc k \<Longrightarrow> k < fuel \<Longrightarrow> shift_loop fuel (int s) j = Ret (j + k)"
proof (induction k arbitrary: s j fuel)
  case 0
  then have "s = 1" by simp
  then show ?case using 0 by (cases fuel) auto
next
  case (Suc k)
  then obtain m where m: "fuel = Suc m" by (cases fuel) auto
  have d: "drop_bit 1 (int s) = int (s div 2)" by (simp add: drop_bit_eq_div zdiv_int)
  have "2 ^ k \<le> s div 2" "s div 2 < 2 ^ Suc k" using Suc.prems by auto
  moreover from this have "s div 2 \<noteq> 0" by (metis not_one_le_zero one_le_numeral one_le_power order_trans)
  ultimately show ?case using Suc.IH [of "s div 2" m "Suc j"] Suc.prems m d by (simp add: Let_def)
qed

text \<open>slab_malloc serves a request from the cache of the least power of two that holds it.\<close>

lemma malloc_order_class:
  assumes "0 < unat sz" "unat sz < 2147483648"
  shows "\<exists>r. malloc_order 32 sz = Ret r \<and> unat sz \<le> 2 ^ r \<and> (\<forall>j. unat sz \<le> 2 ^ j \<longrightarrow> r \<le> j)"
proof -
  obtain k where k: "2 ^ k \<le> unat sz" "unat sz < 2 ^ Suc k"
    using ex_power_ivl1 [of 2 "unat sz"] assms(1) by auto
  have "(2::nat) ^ k < 2 ^ 31" using k(1) assms(2) by simp
  then have k31: "k < 31" by (rule power_less_imp_less_exp [rotated]) simp
  have s: "sint sz = int (unat sz)" using assms(2) by (simp add: sint_u32_cases)
  have l: "shift_loop 32 (sint sz) 0 = Ret k" unfolding s using shift_loop_log [OF k, of 32 0] k31 by simp
  have "unat (push_bit k 1 :: u32) = 2 ^ k"
    using unat_of_nat_u32 [of "2 ^ k"] power_strict_increasing [of k 32 "2 :: nat"] k31 by (simp add: push_bit_eq_mult)
  then have "unat (sz mod push_bit k 1) = unat sz mod 2 ^ k" by (simp add: unat_mod)
  then have m: "sz mod push_bit k 1 \<noteq> 0 \<longleftrightarrow> unat sz \<noteq> 2 ^ k"
  proof -
    have "unat sz mod 2 ^ k = unat sz - 2 ^ k" using k by (simp add: le_mod_geq)
    then show ?thesis using k(1) \<open>unat (sz mod push_bit k 1) = unat sz mod 2 ^ k\<close> by (auto simp: word_unat_eq_iff)
  qed
  show ?thesis
  proof (cases "unat sz = 2 ^ k")
    case True
    then show ?thesis using l m by (auto simp: malloc_order_def power_increasing_iff)
  next
    case False
    have "Suc k \<le> j" if "unat sz \<le> 2 ^ j" for j
    proof -
      have "(2::nat) ^ k < 2 ^ j" using that k(1) False by linarith
      then show ?thesis by (simp add: Suc_le_eq)
    qed
    then show ?thesis using l m False k(2) by (auto simp: malloc_order_def)
  qed
qed

text \<open>A size of 2 GB or more is negative as an int, and shifting it never gives 0.\<close>

lemma malloc_order_diverges:
  assumes "2147483648 \<le> unat sz"
  shows "malloc_order fuel sz = Timeout"
proof -
  have "s < 0 \<Longrightarrow> shift_loop fuel s j = Timeout" for s j
    by (induction fuel arbitrary: s j) (auto simp: Let_def drop_bit_eq_div div_eq_0_iff)
  moreover have "sint sz < 0" using assms sint_u32_cases [of sz] unsigned_less [of sz, where 'a = int] by simp
  ultimately show ?thesis by (simp add: malloc_order_def)
qed

text \<open>The smallest size cache is for 32 bytes: for 16 bytes or less there is none.\<close>

lemma small_request_panics:
  assumes t: "tree_at (slab_sizeRoot z) (avl_root (slab_sizeRoot z)) t" "sorted_keys (sc_size z) t" "height t \<le> SIZE_CACHES + 1"
    and "\<forall>i \<in> nodes t. 32 \<le> unat (sc_size z i)" "0 < unat sz" "unat sz \<le> 16" "fl AND SLAB_DMA = 0"
  shows "slab_malloc 32 sz fl z s = Panic ''cannot find size cache''"
proof -
  obtain r where r: "malloc_order 32 sz = Ret r" "r \<le> 4" using malloc_order_class [of sz] assms(5,6) by force
  then have "r \<in> {0, 1, 2, 3, 4}" by auto
  then have "unat (push_bit r 1 :: u32) \<le> 16" by auto
  then have "avl_make_match (sc_size z) (push_bit r 1) i \<noteq> 0" if "i \<in> nodes t" for i
    using assms(4) that by (auto simp: avl_make_match_def split: if_splits)
  then have "avl_find (SIZE_CACHES + 1) (avl_make_match (sc_size z)) (push_bit r 1) (slab_sizeRoot z) = Ret None"
    using key_order.avl_find_found [OF t(1,3,2) match_mono_key, of "push_bit r 1"] by (auto split: option.splits)
  then show ?thesis using r(1) assms(7) by (simp add: slab_malloc_def)
qed

end
