(* ===== verification/Kexpr.thy ===== *)
theory Kexpr
  imports Prelude
begin

text \<open>
  tools/kconfig/expr.c and expr.h: the expressions over three-valued configuration symbols that
  the dependencies of the kernel configuration are made of, how they are evaluated, compared,
  simplified, joined and printed.  An expression is a tree that no other pointer leads into, so
  the functions that rewrite one in place are functions from trees to trees here; freeing is not
  visible.  The functions that hand the same pointer over twice, expr_eliminate_dups1 and
  expr_eliminate_dups2, are in theory Kdups.  The E_CHOICE cells are not modelled: they make up the
  list of the members of a choice and are walked by sym_calc_value only.
\<close>

section \<open>Three values\<close>

datatype tristate = tri_no | tri_mod | tri_yes

fun tri_int :: "tristate \<Rightarrow> int" where
  "tri_int tri_no = 0"
| "tri_int tri_mod = 1"
| "tri_int tri_yes = 2"

lemma tri_int_inject [simp]: "tri_int a = tri_int b \<longleftrightarrow> a = b"
  by (cases a; cases b) auto

instantiation tristate :: linorder
begin

definition less_eq_tristate :: "tristate \<Rightarrow> tristate \<Rightarrow> bool" where
  "less_eq_tristate a b \<longleftrightarrow> tri_int a \<le> tri_int b"

definition less_tristate :: "tristate \<Rightarrow> tristate \<Rightarrow> bool" where
  "less_tristate a b \<longleftrightarrow> tri_int a < tri_int b"

instance
  by standard (auto simp: less_eq_tristate_def less_tristate_def)

end

definition E_OR_val :: "tristate \<Rightarrow> tristate \<Rightarrow> tristate" where
  "E_OR_val dep1 dep2 = (if dep1 > dep2 then dep1 else dep2)"

definition E_AND_val :: "tristate \<Rightarrow> tristate \<Rightarrow> tristate" where
  "E_AND_val dep1 dep2 = (if dep1 < dep2 then dep1 else dep2)"

text \<open>2 - dep\<close>

fun E_NOT_val :: "tristate \<Rightarrow> tristate" where
  "E_NOT_val tri_no = tri_yes"
| "E_NOT_val tri_mod = tri_mod"
| "E_NOT_val tri_yes = tri_no"

section \<open>Symbols\<close>

text \<open>The four symbols of symbol.c, and those of the configuration files.\<close>

datatype sym_ref = symbol_yes | symbol_mod | symbol_no | symbol_empty | Symbol nat

datatype symbol_type = S_UNKNOWN | S_BOOLEAN | S_TRISTATE | S_INT | S_HEX | S_STRING | S_OTHER

definition SYMBOL_YES :: u32 where "SYMBOL_YES = 0x0001"
definition SYMBOL_MOD :: u32 where "SYMBOL_MOD = 0x0002"
definition SYMBOL_NO :: u32 where "SYMBOL_NO = 0x0004"
definition SYMBOL_CONST :: u32 where "SYMBOL_CONST = 0x0007"

text \<open>The symbols as sym_calc_value leaves them: type, flags, name and current value.\<close>

record symbols =
  sym_type :: "sym_ref \<Rightarrow> symbol_type"
  sym_flags :: "sym_ref \<Rightarrow> u32"
  sym_name :: "sym_ref \<Rightarrow> string option"
  curr_tri :: "sym_ref \<Rightarrow> tristate"
  curr_value :: "sym_ref \<Rightarrow> string"

definition sym_get_string_value :: "symbols \<Rightarrow> sym_ref \<Rightarrow> string" where
  "sym_get_string_value st s =
     (if sym_type st s \<in> {S_BOOLEAN, S_TRISTATE}
      then case curr_tri st s of tri_no \<Rightarrow> ''n'' | tri_mod \<Rightarrow> ''m'' | tri_yes \<Rightarrow> ''y''
      else curr_value st s)"

section \<open>Expressions\<close>

datatype expr_type = E_NONE | E_OR | E_AND | E_NOT | E_EQUAL | E_UNEQUAL | E_CHOICE | E_SYMBOL

datatype expr = ESym sym_ref | ENot expr | EAnd expr expr | EOr expr expr
  | EEqual sym_ref sym_ref | EUnequal sym_ref sym_ref

fun type_of :: "expr \<Rightarrow> expr_type" where
  "type_of (ESym s) = E_SYMBOL"
| "type_of (ENot a) = E_NOT"
| "type_of (EAnd a b) = E_AND"
| "type_of (EOr a b) = E_OR"
| "type_of (EEqual s t) = E_EQUAL"
| "type_of (EUnequal s t) = E_UNEQUAL"

definition expr_alloc_and :: "expr option \<Rightarrow> expr option \<Rightarrow> expr option" where
  "expr_alloc_and e1 e2 =
     (case e1 of None \<Rightarrow> e2 | Some a \<Rightarrow> (case e2 of Some b \<Rightarrow> Some (EAnd a b) | None \<Rightarrow> e1))"

fun expr_copy :: "expr \<Rightarrow> expr" where
  "expr_copy (ESym s) = ESym s"
| "expr_copy (ENot a) = ENot (expr_copy a)"
| "expr_copy (EEqual s t) = EEqual s t"
| "expr_copy (EUnequal s t) = EUnequal s t"
| "expr_copy (EAnd a b) = EAnd (expr_copy a) (expr_copy b)"
| "expr_copy (EOr a b) = EOr (expr_copy a) (expr_copy b)"

definition expr_is_yes :: "expr option \<Rightarrow> bool" where
  "expr_is_yes e = (e = None \<or> e = Some (ESym symbol_yes))"

definition expr_is_no :: "expr option \<Rightarrow> bool" where
  "expr_is_no e = (e = Some (ESym symbol_no))"

section \<open>Evaluation\<close>

fun expr_value :: "symbols \<Rightarrow> expr \<Rightarrow> tristate" where
  "expr_value st (ESym s) = curr_tri st s"
| "expr_value st (EAnd a b) = E_AND_val (expr_value st a) (expr_value st b)"
| "expr_value st (EOr a b) = E_OR_val (expr_value st a) (expr_value st b)"
| "expr_value st (ENot a) = E_NOT_val (expr_value st a)"
| "expr_value st (EEqual s t) =
     (if sym_get_string_value st s = sym_get_string_value st t then tri_yes else tri_no)"
| "expr_value st (EUnequal s t) =
     (if sym_get_string_value st s = sym_get_string_value st t then tri_no else tri_yes)"

definition expr_calc_value :: "symbols \<Rightarrow> expr option \<Rightarrow> tristate" where
  "expr_calc_value st e = (case e of None \<Rightarrow> tri_yes | Some a \<Rightarrow> expr_value st a)"

section \<open>Constants\<close>

definition yn_and :: "expr \<Rightarrow> expr \<Rightarrow> expr" where
  "yn_and l r =
     (if l = ESym symbol_no then ESym symbol_no
      else if l = ESym symbol_yes then r
      else if r = ESym symbol_no then ESym symbol_no
      else if r = ESym symbol_yes then l
      else EAnd l r)"

definition yn_or :: "expr \<Rightarrow> expr \<Rightarrow> expr" where
  "yn_or l r =
     (if l = ESym symbol_no then r
      else if l = ESym symbol_yes then ESym symbol_yes
      else if r = ESym symbol_no then l
      else if r = ESym symbol_yes then ESym symbol_yes
      else EOr l r)"

fun expr_eliminate_yn :: "expr \<Rightarrow> expr" where
  "expr_eliminate_yn (EAnd a b) = yn_and (expr_eliminate_yn a) (expr_eliminate_yn b)"
| "expr_eliminate_yn (EOr a b) = yn_or (expr_eliminate_yn a) (expr_eliminate_yn b)"
| "expr_eliminate_yn e = e"

fun expr_trans_bool :: "symbols \<Rightarrow> expr \<Rightarrow> expr" where
  "expr_trans_bool st (EAnd a b) = EAnd (expr_trans_bool st a) (expr_trans_bool st b)"
| "expr_trans_bool st (EOr a b) = EOr (expr_trans_bool st a) (expr_trans_bool st b)"
| "expr_trans_bool st (ENot a) = ENot (expr_trans_bool st a)"
| "expr_trans_bool st (EUnequal s t) =
     (if sym_type st s = S_TRISTATE \<and> t = symbol_no then ESym s else EUnequal s t)"
| "expr_trans_bool st e = e"

section \<open>Equality\<close>

text \<open>The operands of an expression of the given type, which is E_AND or E_OR.\<close>

fun parts :: "expr_type \<Rightarrow> expr \<Rightarrow> (expr \<times> expr) option" where
  "parts E_AND (EAnd a b) = Some (a, b)"
| "parts E_OR (EOr a b) = Some (a, b)"
| "parts ty e = None"

definition mk :: "expr_type \<Rightarrow> expr \<Rightarrow> expr \<Rightarrow> expr" where
  "mk ty a b = (if ty = E_AND then EAnd a b else EOr a b)"

definition neutral :: "expr_type \<Rightarrow> expr" where
  "neutral ty = (if ty = E_AND then ESym symbol_yes else ESym symbol_no)"

definition both_constant :: "symbols \<Rightarrow> expr \<Rightarrow> expr \<Rightarrow> bool" where
  "both_constant st e1 e2 =
     (case (e1, e2) of (ESym s, ESym t) \<Rightarrow> s = t \<and> sym_flags st s AND (SYMBOL_YES OR SYMBOL_NO) \<noteq> 0 | _ \<Rightarrow> False)"

fun same_symbol :: "expr \<Rightarrow> expr \<Rightarrow> bool" where
  "same_symbol (ESym s) (ESym t) = (s = t)"
| "same_symbol a b = False"

text \<open>expr_eq compares two conjunctions or disjunctions by taking the common parts out of copies of
  them (__expr_eliminate_eq) and looking at what is left.  The fuel bounds the nesting of calls.\<close>

fun expr_eq :: "nat \<Rightarrow> symbols \<Rightarrow> expr \<Rightarrow> expr \<Rightarrow> bool outcome"
  and eliminate_eq :: "nat \<Rightarrow> symbols \<Rightarrow> expr_type \<Rightarrow> expr \<Rightarrow> expr \<Rightarrow> (expr \<times> expr) outcome" where
  "expr_eq 0 st e1 e2 = Timeout"
| "expr_eq (Suc n) st e1 e2 =
     (if type_of e1 \<noteq> type_of e2 then Ret False
      else case (e1, e2) of
        (EEqual s t, EEqual s' t') \<Rightarrow> Ret (s = s' \<and> t = t')
      | (EUnequal s t, EUnequal s' t') \<Rightarrow> Ret (s = s' \<and> t = t')
      | (ESym s, ESym s') \<Rightarrow> Ret (s = s')
      | (ENot a, ENot b) \<Rightarrow> expr_eq n st a b
      | _ \<Rightarrow>
          obind (eliminate_eq n st (type_of e1) (expr_copy e1) (expr_copy e2)) (\<lambda>(a, b).
            Ret (same_symbol (expr_eliminate_yn a) (expr_eliminate_yn b))))"
| "eliminate_eq 0 st ty e1 e2 = Timeout"
| "eliminate_eq (Suc n) st ty e1 e2 =
     (case parts ty e1 of
        Some (l, r) \<Rightarrow>
          obind (eliminate_eq n st ty l e2) (\<lambda>(l', e2').
            obind (eliminate_eq n st ty r e2') (\<lambda>(r', e2''). Ret (mk ty l' r', e2'')))
      | None \<Rightarrow>
          (case parts ty e2 of
             Some (l, r) \<Rightarrow>
               obind (eliminate_eq n st ty e1 l) (\<lambda>(e1', l').
                 obind (eliminate_eq n st ty e1' r) (\<lambda>(e1'', r'). Ret (e1'', mk ty l' r')))
           | None \<Rightarrow>
               if both_constant st e1 e2 then Ret (e1, e2)
               else obind (expr_eq n st e1 e2) (\<lambda>b. if b then Ret (neutral ty, neutral ty) else Ret (e1, e2))))"

declare expr_eq.simps [simp del] eliminate_eq.simps [simp del]

text \<open>The type of the first expression must be E_AND or E_OR: for another the operands of
  __expr_eliminate_eq would be a null pointer or a symbol.\<close>

definition expr_eliminate_eq :: "nat \<Rightarrow> symbols \<Rightarrow> expr option \<Rightarrow> expr option \<Rightarrow> (expr option \<times> expr option) outcome" where
  "expr_eliminate_eq fuel st e1 e2 =
     (case (e1, e2) of
        (Some a, Some b) \<Rightarrow>
          (if type_of a \<noteq> type_of b then Ret (e1, e2)
           else if type_of a \<notin> {E_AND, E_OR} then Fault
           else obind (eliminate_eq fuel st (type_of a) a b) (\<lambda>(a', b').
                  Ret (Some (expr_eliminate_yn a'), Some (expr_eliminate_yn b'))))
      | _ \<Rightarrow> Ret (e1, e2))"

text \<open>expr_extract_eq collects the common parts in *ep.\<close>

fun extract_eq :: "nat \<Rightarrow> symbols \<Rightarrow> expr_type \<Rightarrow> expr option \<Rightarrow> expr \<Rightarrow> expr \<Rightarrow> (expr option \<times> expr \<times> expr) outcome" where
  "extract_eq 0 st ty ep e1 e2 = Timeout"
| "extract_eq (Suc n) st ty ep e1 e2 =
     (case parts ty e1 of
        Some (l, r) \<Rightarrow>
          obind (extract_eq n st ty ep l e2) (\<lambda>(ep, l', e2').
            obind (extract_eq n st ty ep r e2') (\<lambda>(ep, r', e2''). Ret (ep, mk ty l' r', e2'')))
      | None \<Rightarrow>
          (case parts ty e2 of
             Some (l, r) \<Rightarrow>
               obind (extract_eq n st ty ep e1 l) (\<lambda>(ep, e1', l').
                 obind (extract_eq n st ty ep e1' r) (\<lambda>(ep, e1'', r'). Ret (ep, e1'', mk ty l' r')))
           | None \<Rightarrow>
               obind (expr_eq n st e1 e2) (\<lambda>b.
                 if b then Ret (Some (case ep of None \<Rightarrow> e1 | Some c \<Rightarrow> mk ty c e1), neutral ty, neutral ty)
                 else Ret (ep, e1, e2))))"

declare extract_eq.simps [simp del]

definition expr_extract :: "expr_type \<Rightarrow> nat \<Rightarrow> symbols \<Rightarrow> expr \<Rightarrow> expr \<Rightarrow> (expr option \<times> expr \<times> expr) outcome" where
  "expr_extract ty fuel st e1 e2 =
     obind (extract_eq fuel st ty None e1 e2) (\<lambda>(tmp, a, b).
       Ret (if tmp = None then (tmp, a, b) else (tmp, expr_eliminate_yn a, expr_eliminate_yn b)))"

definition expr_extract_eq_and :: "nat \<Rightarrow> symbols \<Rightarrow> expr \<Rightarrow> expr \<Rightarrow> (expr option \<times> expr \<times> expr) outcome" where
  "expr_extract_eq_and = expr_extract E_AND"

definition expr_extract_eq_or :: "nat \<Rightarrow> symbols \<Rightarrow> expr \<Rightarrow> expr \<Rightarrow> (expr option \<times> expr \<times> expr) outcome" where
  "expr_extract_eq_or = expr_extract E_OR"

section \<open>Joining\<close>

text \<open>The symbol each side is about; the left side may be a negated comparison, the right one only a
  negated symbol.\<close>

fun left_symbol :: "expr \<Rightarrow> sym_ref option" where
  "left_symbol (EEqual s t) = Some s"
| "left_symbol (EUnequal s t) = Some s"
| "left_symbol (ESym s) = Some s"
| "left_symbol (ENot (EEqual s t)) = Some s"
| "left_symbol (ENot (EUnequal s t)) = Some s"
| "left_symbol (ENot (ESym s)) = Some s"
| "left_symbol e = None"

fun right_symbol :: "expr \<Rightarrow> sym_ref option" where
  "right_symbol (EEqual s t) = Some s"
| "right_symbol (EUnequal s t) = Some s"
| "right_symbol (ESym s) = Some s"
| "right_symbol (ENot (ESym s)) = Some s"
| "right_symbol e = None"

definition joined_symbol :: "symbols \<Rightarrow> expr \<Rightarrow> expr \<Rightarrow> sym_ref option" where
  "joined_symbol st e1 e2 =
     (case (left_symbol e1, right_symbol e2) of
        (Some s, Some t) \<Rightarrow> if s = t \<and> sym_type st s \<in> {S_BOOLEAN, S_TRISTATE} then Some s else None
      | _ \<Rightarrow> None)"

text \<open>The right sides of two comparisons are the given two symbols, in one order or the other.\<close>

fun equal_to :: "expr \<Rightarrow> expr \<Rightarrow> sym_ref \<Rightarrow> sym_ref \<Rightarrow> bool" where
  "equal_to (EEqual s t) (EEqual s' t') u v = (t = u \<and> t' = v \<or> t = v \<and> t' = u)"
| "equal_to _ _ u v = False"

fun unequal_to :: "expr \<Rightarrow> expr \<Rightarrow> sym_ref \<Rightarrow> sym_ref \<Rightarrow> bool" where
  "unequal_to (EUnequal s t) (EUnequal s' t') u v = (t = u \<and> t' = v \<or> t = v \<and> t' = u)"
| "unequal_to _ _ u v = False"

fun symbol_and_negation :: "expr \<Rightarrow> expr \<Rightarrow> bool" where
  "symbol_and_negation (ENot (ESym s)) (ESym t) = True"
| "symbol_and_negation (ESym s) (ENot (ESym t)) = True"
| "symbol_and_negation _ _ = False"

definition join_or :: "symbols \<Rightarrow> sym_ref \<Rightarrow> expr \<Rightarrow> expr \<Rightarrow> expr option" where
  "join_or st s e1 e2 =
     (if sym_type st s = S_TRISTATE then
        if equal_to e1 e2 symbol_yes symbol_mod then Some (EUnequal s symbol_no)
        else if equal_to e1 e2 symbol_yes symbol_no then Some (EUnequal s symbol_mod)
        else if equal_to e1 e2 symbol_mod symbol_no then Some (EUnequal s symbol_yes)
        else None
      else if symbol_and_negation e1 e2 then Some (ESym symbol_yes)
      else None)"

definition expr_join_or :: "nat \<Rightarrow> symbols \<Rightarrow> expr \<Rightarrow> expr \<Rightarrow> expr option outcome" where
  "expr_join_or fuel st e1 e2 =
     obind (expr_eq fuel st e1 e2) (\<lambda>b.
       if b then Ret (Some (expr_copy e1))
       else case joined_symbol st e1 e2 of None \<Rightarrow> Ret None | Some s \<Rightarrow> Ret (join_or st s e1 e2))"

fun symbol_and_equal :: "expr \<Rightarrow> expr \<Rightarrow> sym_ref \<Rightarrow> bool" where
  "symbol_and_equal (ESym s) (EEqual s' t) u = (t = u)"
| "symbol_and_equal (EEqual s' t) (ESym s) u = (t = u)"
| "symbol_and_equal _ _ u = False"

fun symbol_and_unequal :: "expr \<Rightarrow> expr \<Rightarrow> sym_ref \<Rightarrow> bool" where
  "symbol_and_unequal (ESym s) (EUnequal s' t) u = (t = u)"
| "symbol_and_unequal (EUnequal s' t) (ESym s) u = (t = u)"
| "symbol_and_unequal _ _ u = False"

definition is_const :: "symbols \<Rightarrow> sym_ref \<Rightarrow> bool" where
  "is_const st s = (sym_flags st s AND SYMBOL_CONST \<noteq> 0)"

text \<open>(a='b') && (a!='c'), in one order or the other: b and c.\<close>

fun equal_and_unequal :: "expr \<Rightarrow> expr \<Rightarrow> (sym_ref \<times> sym_ref) option" where
  "equal_and_unequal (EEqual s t) (EUnequal s' t') = Some (t, t')"
| "equal_and_unequal (EUnequal s' t') (EEqual s t) = Some (t, t')"
| "equal_and_unequal _ _ = None"

definition join_unequal :: "sym_ref \<Rightarrow> expr \<Rightarrow> expr \<Rightarrow> expr option" where
  "join_unequal s e1 e2 =
     (if unequal_to e1 e2 symbol_yes symbol_no then Some (EEqual s symbol_mod)
      else if unequal_to e1 e2 symbol_yes symbol_mod then Some (EEqual s symbol_no)
      else if unequal_to e1 e2 symbol_mod symbol_no then Some (EEqual s symbol_yes)
      else None)"

definition join_and :: "symbols \<Rightarrow> sym_ref \<Rightarrow> expr \<Rightarrow> expr \<Rightarrow> expr option" where
  "join_and st s e1 e2 =
     (if symbol_and_equal e1 e2 symbol_yes then Some (EEqual s symbol_yes)
      else if symbol_and_unequal e1 e2 symbol_no then Some (ESym s)
      else if sym_type st s = S_TRISTATE then
        (case equal_and_unequal e1 e2 of
           Some (b, c) \<Rightarrow>
             if is_const st b \<and> is_const st c
             then Some (if b \<noteq> c then EEqual s b else ESym symbol_no)
             else join_unequal s e1 e2
         | None \<Rightarrow> join_unequal s e1 e2)
      else None)"

definition expr_join_and :: "nat \<Rightarrow> symbols \<Rightarrow> expr \<Rightarrow> expr \<Rightarrow> expr option outcome" where
  "expr_join_and fuel st e1 e2 =
     obind (expr_eq fuel st e1 e2) (\<lambda>b.
       if b then Ret (Some (expr_copy e1))
       else case joined_symbol st e1 e2 of None \<Rightarrow> Ret None | Some s \<Rightarrow> Ret (join_and st s e1 e2))"

section \<open>Negations\<close>

text \<open>A comparison of a boolean symbol with a constant.\<close>

definition transform_equal :: "symbols \<Rightarrow> sym_ref \<Rightarrow> sym_ref \<Rightarrow> expr" where
  "transform_equal st s t =
     (if sym_type st s \<noteq> S_BOOLEAN then EEqual s t
      else if t = symbol_no then ENot (ESym s)
      else if t = symbol_mod then ESym symbol_no
      else if t = symbol_yes then ESym s
      else EEqual s t)"

definition transform_unequal :: "symbols \<Rightarrow> sym_ref \<Rightarrow> sym_ref \<Rightarrow> expr" where
  "transform_unequal st s t =
     (if sym_type st s \<noteq> S_BOOLEAN then EUnequal s t
      else if t = symbol_no then ESym s
      else if t = symbol_mod then ESym symbol_yes
      else if t = symbol_yes then ENot (ESym s)
      else EUnequal s t)"

text \<open>expr_transform calls itself on what it has rewritten; the fuel bounds the nesting.\<close>

fun expr_transform :: "nat \<Rightarrow> symbols \<Rightarrow> expr \<Rightarrow> expr outcome"
  and transform_not :: "nat \<Rightarrow> symbols \<Rightarrow> expr \<Rightarrow> expr outcome" where
  "expr_transform 0 st e = Timeout"
| "expr_transform (Suc n) st e =
     (case e of
        ESym s \<Rightarrow> Ret (ESym s)
      | EEqual s t \<Rightarrow> Ret (transform_equal st s t)
      | EUnequal s t \<Rightarrow> Ret (transform_unequal st s t)
      | EAnd a b \<Rightarrow> obind (expr_transform n st a) (\<lambda>a. obind (expr_transform n st b) (\<lambda>b. Ret (EAnd a b)))
      | EOr a b \<Rightarrow> obind (expr_transform n st a) (\<lambda>a. obind (expr_transform n st b) (\<lambda>b. Ret (EOr a b)))
      | ENot a \<Rightarrow> obind (expr_transform n st a) (transform_not n st))"
| "transform_not n st (ENot a) = (case n of 0 \<Rightarrow> Timeout | Suc m \<Rightarrow> expr_transform m st a)"
| "transform_not n st (EEqual s t) = Ret (EUnequal s t)"
| "transform_not n st (EUnequal s t) = Ret (EEqual s t)"
| "transform_not n st (EOr a b) = (case n of 0 \<Rightarrow> Timeout | Suc m \<Rightarrow> expr_transform m st (EAnd (ENot a) (ENot b)))"
| "transform_not n st (EAnd a b) = (case n of 0 \<Rightarrow> Timeout | Suc m \<Rightarrow> expr_transform m st (EOr (ENot a) (ENot b)))"
| "transform_not n st (ESym s) =
     Ret (case s of symbol_yes \<Rightarrow> ESym symbol_no | symbol_mod \<Rightarrow> ESym symbol_mod | symbol_no \<Rightarrow> ESym symbol_yes
        | _ \<Rightarrow> ENot (ESym s))"

section \<open>Symbols in expressions\<close>

fun expr_contains_symbol :: "expr \<Rightarrow> sym_ref \<Rightarrow> bool" where
  "expr_contains_symbol (EAnd a b) s = (expr_contains_symbol a s \<or> expr_contains_symbol b s)"
| "expr_contains_symbol (EOr a b) s = (expr_contains_symbol a s \<or> expr_contains_symbol b s)"
| "expr_contains_symbol (ESym t) s = (t = s)"
| "expr_contains_symbol (EEqual t u) s = (t = s \<or> u = s)"
| "expr_contains_symbol (EUnequal t u) s = (t = s \<or> u = s)"
| "expr_contains_symbol (ENot a) s = expr_contains_symbol a s"

fun expr_depends_symbol :: "expr \<Rightarrow> sym_ref \<Rightarrow> bool" where
  "expr_depends_symbol (EAnd a b) s = (expr_depends_symbol a s \<or> expr_depends_symbol b s)"
| "expr_depends_symbol (ESym t) s = (t = s)"
| "expr_depends_symbol (EEqual t u) s = (t = s \<and> (u = symbol_yes \<or> u = symbol_mod))"
| "expr_depends_symbol (EUnequal t u) s = (t = s \<and> u = symbol_no)"
| "expr_depends_symbol e s = False"

section \<open>Comparing an expression\<close>

text \<open>The type is E_EQUAL or E_UNEQUAL, given as whether it is E_EQUAL.  An operand that is compared
  with 'm' stays what it is, and what was made of its parts is lost.\<close>

fun trans_compare :: "expr \<Rightarrow> bool \<Rightarrow> sym_ref \<Rightarrow> expr option" where
  "trans_compare (EAnd a b) eq s =
     (let operands = (if s = symbol_yes \<or> s = symbol_no
                      then case (trans_compare a True s, trans_compare b True s) of
                             (Some e1, Some e2) \<Rightarrow> Some (if s = symbol_yes then EAnd e1 e2 else EOr e1 e2)
                           | _ \<Rightarrow> None
                      else Some (EAnd a b))
      in map_option (\<lambda>e. if eq then e else ENot e) operands)"
| "trans_compare (EOr a b) eq s =
     (let operands = (if s = symbol_yes \<or> s = symbol_no
                      then case (trans_compare a True s, trans_compare b True s) of
                             (Some e1, Some e2) \<Rightarrow> Some (if s = symbol_yes then EOr e1 e2 else EAnd e1 e2)
                           | _ \<Rightarrow> None
                      else Some (EOr a b))
      in map_option (\<lambda>e. if eq then e else ENot e) operands)"
| "trans_compare (ENot a) eq s = trans_compare a (\<not> eq) s"
| "trans_compare (EEqual u v) eq s =
     (if s = symbol_yes then Some (if eq then EEqual u v else ENot (EEqual u v))
      else if s = symbol_mod then Some (ESym (if eq then symbol_no else symbol_yes))
      else if s = symbol_no then Some (if eq then ENot (EEqual u v) else EEqual u v)
      else None)"
| "trans_compare (EUnequal u v) eq s =
     (if s = symbol_yes then Some (if eq then EUnequal u v else ENot (EUnequal u v))
      else if s = symbol_mod then Some (ESym (if eq then symbol_no else symbol_yes))
      else if s = symbol_no then Some (if eq then ENot (EUnequal u v) else EUnequal u v)
      else None)"
| "trans_compare (ESym u) eq s = Some (if eq then EEqual u s else EUnequal u s)"

definition expr_trans_compare :: "expr option \<Rightarrow> bool \<Rightarrow> sym_ref \<Rightarrow> expr option" where
  "expr_trans_compare e eq s =
     (case e of
        None \<Rightarrow> Some (if eq then ESym s else ENot (ESym s))
      | Some a \<Rightarrow> trans_compare a eq s)"

section \<open>Printing\<close>

text \<open>The cases fall through.\<close>

definition compare_choice :: "expr_type \<Rightarrow> int" where
  "compare_choice t2 = (if t2 = E_NONE then 1 else -1)"

definition compare_or :: "expr_type \<Rightarrow> int" where
  "compare_or t2 = (if t2 = E_CHOICE then 1 else compare_choice t2)"

definition compare_and :: "expr_type \<Rightarrow> int" where
  "compare_and t2 = (if t2 = E_OR then 1 else compare_or t2)"

definition compare_not :: "expr_type \<Rightarrow> int" where
  "compare_not t2 = (if t2 = E_AND then 1 else compare_and t2)"

definition expr_compare_type :: "expr_type \<Rightarrow> expr_type \<Rightarrow> int" where
  "expr_compare_type t1 t2 =
     (if t1 = t2 then 0
      else case t1 of
        E_EQUAL \<Rightarrow> if t2 = E_NOT then 1 else compare_not t2
      | E_UNEQUAL \<Rightarrow> if t2 = E_NOT then 1 else compare_not t2
      | E_NOT \<Rightarrow> compare_not t2
      | E_AND \<Rightarrow> compare_and t2
      | E_OR \<Rightarrow> compare_or t2
      | E_CHOICE \<Rightarrow> compare_choice t2
      | _ \<Rightarrow> -1)"

text \<open>The output function is given the strings one after the other: the result is their concatenation.
  The symbol of a choice has no name, and cannot be printed in a comparison.\<close>

definition print_comparison :: "symbols \<Rightarrow> sym_ref \<Rightarrow> string \<Rightarrow> sym_ref \<Rightarrow> string outcome" where
  "print_comparison st s op t =
     (case (sym_name st s, sym_name st t) of
        (Some a, Some b) \<Rightarrow> Ret (a @ op @ b)
      | _ \<Rightarrow> Fault)"

fun print_tree :: "symbols \<Rightarrow> expr \<Rightarrow> expr_type \<Rightarrow> string outcome" where
  "print_tree st e prev =
     obind (case e of
          ESym s \<Rightarrow> Ret (case sym_name st s of Some name \<Rightarrow> name | None \<Rightarrow> ''<choice>'')
        | ENot a \<Rightarrow> obind (print_tree st a E_NOT) (\<lambda>x. Ret (''!'' @ x))
        | EEqual s t \<Rightarrow> print_comparison st s ''='' t
        | EUnequal s t \<Rightarrow> print_comparison st s ''!='' t
        | EOr a b \<Rightarrow> obind (print_tree st a E_OR) (\<lambda>x. obind (print_tree st b E_OR) (\<lambda>y. Ret (x @ '' || '' @ y)))
        | EAnd a b \<Rightarrow> obind (print_tree st a E_AND) (\<lambda>x. obind (print_tree st b E_AND) (\<lambda>y. Ret (x @ '' && '' @ y))))
       (\<lambda>inner. Ret (if 0 < expr_compare_type prev (type_of e) then ''('' @ inner @ '')'' else inner))"

declare print_tree.simps [simp del]

definition expr_print :: "symbols \<Rightarrow> expr option \<Rightarrow> expr_type \<Rightarrow> string outcome" where
  "expr_print st e prev = (case e of None \<Rightarrow> Ret ''y'' | Some a \<Rightarrow> print_tree st a prev)"

definition expr_fprint :: "symbols \<Rightarrow> expr option \<Rightarrow> string outcome" where
  "expr_fprint st e = expr_print st e E_NONE"

end
