(* ===== verification/Kexpr_Props.thy ===== *)
theory Kexpr_Props
  imports Kexpr
begin

text \<open>
  What the simplifications of configuration expressions keep: the value of the expression under
  every assignment of values to the symbols that the program can produce.
\<close>

section \<open>The values\<close>

lemma tri_order [simp]:
  "tri_no \<le> a" "a \<le> tri_yes" "tri_mod \<le> a \<longleftrightarrow> a \<noteq> tri_no" "a \<le> tri_no \<longleftrightarrow> a = tri_no" "tri_yes \<le> a \<longleftrightarrow> a = tri_yes"
  by (cases a; simp add: less_eq_tristate_def)+

lemma E_OR_max: "E_OR_val a b = max a b"
  by (simp add: E_OR_val_def max_def not_less) (metis less_le_not_le linear)

lemma E_AND_min: "E_AND_val a b = min a b"
  by (simp add: E_AND_val_def min_def) (metis less_le_not_le linear order.order_iff_strict)

lemma E_NOT_dual [simp]:
  "E_NOT_val (E_NOT_val a) = a" "E_NOT_val (max a b) = min (E_NOT_val a) (E_NOT_val b)"
  "E_NOT_val (min a b) = max (E_NOT_val a) (E_NOT_val b)"
  by (cases a; cases b; simp add: max_def min_def less_eq_tristate_def)+

lemma tri_extreme [simp]:
  "max tri_no a = a" "max a tri_no = a" "max tri_yes a = tri_yes" "max a tri_yes = tri_yes"
  "min tri_no a = tri_no" "min a tri_no = tri_no" "min tri_yes a = a" "min a tri_yes = a"
  by (cases a; simp add: max_def min_def less_eq_tristate_def)+

lemma expr_copy_id [simp]: "expr_copy e = e"
  by (induction e) auto

text \<open>The symbols the program has: the constants are what symbol.c declares, boolean symbols are
  never mod, and two constants with the same string are the same (sym_lookup).\<close>

definition symbols_ok :: "symbols \<Rightarrow> bool" where
  "symbols_ok st \<longleftrightarrow>
     (\<forall>s \<in> {symbol_yes, symbol_mod, symbol_no}. sym_type st s = S_UNKNOWN \<and> is_const st s) \<and>
     curr_tri st symbol_yes = tri_yes \<and> curr_tri st symbol_mod = tri_mod \<and> curr_tri st symbol_no = tri_no \<and>
     curr_value st symbol_yes = ''y'' \<and> curr_value st symbol_mod = ''m'' \<and> curr_value st symbol_no = ''n'' \<and>
     (\<forall>s. sym_type st s = S_BOOLEAN \<longrightarrow> curr_tri st s \<noteq> tri_mod) \<and>
     (\<forall>s t. is_const st s \<and> is_const st t \<and> sym_get_string_value st s = sym_get_string_value st t \<longrightarrow> s = t)"

lemma symbols_okD:
  assumes "symbols_ok st"
  shows "expr_value st (ESym symbol_yes) = tri_yes" "expr_value st (ESym symbol_no) = tri_no" "expr_value st (ESym symbol_mod) = tri_mod"
    "curr_tri st symbol_yes = tri_yes" "curr_tri st symbol_mod = tri_mod" "curr_tri st symbol_no = tri_no"
    "sym_get_string_value st symbol_yes = ''y''" "sym_get_string_value st symbol_mod = ''m''" "sym_get_string_value st symbol_no = ''n''"
    "sym_type st s = S_BOOLEAN \<Longrightarrow> curr_tri st s \<noteq> tri_mod"
    "sym_type st symbol_yes = S_UNKNOWN" "sym_type st symbol_mod = S_UNKNOWN" "sym_type st symbol_no = S_UNKNOWN"
    "is_const st s \<Longrightarrow> is_const st t \<Longrightarrow> sym_get_string_value st s = sym_get_string_value st t \<Longrightarrow> s = t"
  using assms by (auto simp: symbols_ok_def sym_get_string_value_def)

text \<open>The string of a boolean or tristate symbol tells its value.\<close>

lemma tri_string:
  assumes "sym_type st s \<in> {S_BOOLEAN, S_TRISTATE}"
  shows "sym_get_string_value st s = ''y'' \<longleftrightarrow> curr_tri st s = tri_yes" "sym_get_string_value st s = ''m'' \<longleftrightarrow> curr_tri st s = tri_mod"
    "sym_get_string_value st s = ''n'' \<longleftrightarrow> curr_tri st s = tri_no"
  using assms by (auto simp: sym_get_string_value_def split: tristate.splits)

lemmas values_simps = E_OR_max E_AND_min

section \<open>Constants\<close>

lemma yn_value:
  assumes "symbols_ok st"
  shows "expr_value st (yn_and a b) = min (expr_value st a) (expr_value st b)"
    "expr_value st (yn_or a b) = max (expr_value st a) (expr_value st b)"
  using symbols_okD(4,6) [OF assms] by (auto simp: yn_and_def yn_or_def values_simps)

lemma eliminate_yn_value: "symbols_ok st \<Longrightarrow> expr_value st (expr_eliminate_yn e) = expr_value st e"
  by (induction e) (simp_all add: yn_value values_simps)

text \<open>What is left has no constant inside an operation, unless below a negation.\<close>

fun yn_free :: "expr \<Rightarrow> bool" where
  "yn_free (EAnd a b) = (a \<notin> {ESym symbol_yes, ESym symbol_no} \<and> b \<notin> {ESym symbol_yes, ESym symbol_no} \<and> yn_free a \<and> yn_free b)"
| "yn_free (EOr a b) = (a \<notin> {ESym symbol_yes, ESym symbol_no} \<and> b \<notin> {ESym symbol_yes, ESym symbol_no} \<and> yn_free a \<and> yn_free b)"
| "yn_free e = True"

lemma eliminate_yn_free: "yn_free (expr_eliminate_yn e)"
  by (induction e) (auto simp: yn_and_def yn_or_def)

section \<open>Equality\<close>

lemma parts_value: "parts ty e = Some (a, b) \<Longrightarrow> ty \<in> {E_AND, E_OR} \<and> e = mk ty a b"
  by (cases "(ty, e)" rule: parts.cases) (auto simp: mk_def)

definition join_values :: "expr_type \<Rightarrow> tristate \<Rightarrow> tristate \<Rightarrow> tristate" where
  "join_values ty a b = (if ty = E_AND then min a b else max a b)"

lemma join_values_ac:
  "join_values ty (join_values ty a b) c = join_values ty a (join_values ty b c)"
  "join_values ty a b = join_values ty b a"
  "join_values ty a (join_values ty b c) = join_values ty b (join_values ty a c)"
  by (auto simp: join_values_def ac_simps)

lemma mk_value: "ty \<in> {E_AND, E_OR} \<Longrightarrow> expr_value st (mk ty a b) = join_values ty (expr_value st a) (expr_value st b)"
  by (auto simp: mk_def join_values_def values_simps)

lemma neutral_value: "symbols_ok st \<Longrightarrow> join_values ty (expr_value st (neutral ty)) c = c"
  by (simp add: neutral_def join_values_def symbols_okD)

text \<open>Both expressions are what is left of them and a common part.\<close>

definition common_part :: "symbols \<Rightarrow> expr_type \<Rightarrow> expr \<Rightarrow> expr \<Rightarrow> expr \<Rightarrow> expr \<Rightarrow> bool" where
  "common_part st ty e1 e2 a b \<longleftrightarrow> (\<exists>c. expr_value st e1 = join_values ty (expr_value st a) c \<and>
     expr_value st e2 = join_values ty (expr_value st b) c)"

definition neutral_tri :: "expr_type \<Rightarrow> tristate" where
  "neutral_tri ty = (if ty = E_AND then tri_yes else tri_no)"

lemma join_neutral_tri [simp]: "join_values ty a (neutral_tri ty) = a"
  by (simp add: join_values_def neutral_tri_def)

lemma common_part_refl: "common_part st ty e1 e2 e1 e2"
  unfolding common_part_def by (intro exI [of _ "neutral_tri ty"]) simp

lemma common_part_neutral:
  "symbols_ok st \<Longrightarrow> expr_value st e1 = expr_value st e2 \<Longrightarrow> common_part st ty e1 e2 (neutral ty) (neutral ty)"
  unfolding common_part_def by (intro exI [of _ "expr_value st e2"]) (simp add: neutral_value)

lemma common_part_left:
  assumes "ty \<in> {E_AND, E_OR}" "common_part st ty l e2 l' e2'" "common_part st ty r e2' r' e2''"
  shows "common_part st ty (mk ty l r) e2 (mk ty l' r') e2''"
proof -
  obtain c d where "expr_value st l = join_values ty (expr_value st l') c" "expr_value st e2 = join_values ty (expr_value st e2') c"
    "expr_value st r = join_values ty (expr_value st r') d" "expr_value st e2' = join_values ty (expr_value st e2'') d"
    using assms(2,3) by (auto simp: common_part_def)
  then show ?thesis unfolding common_part_def
    by (intro exI [of _ "join_values ty c d"]) (simp add: mk_value [OF assms(1)] join_values_ac)
qed

lemma common_part_sym: "common_part st ty e1 e2 a b \<longleftrightarrow> common_part st ty e2 e1 b a"
  by (auto simp: common_part_def)

lemma same_symbolD: "same_symbol a b \<Longrightarrow> a = b"
  by (cases "(a, b)" rule: same_symbol.cases) auto

lemma eq_sound:
  assumes "symbols_ok st"
  shows "(\<forall>e1 e2. expr_eq n st e1 e2 = Ret True \<longrightarrow> expr_value st e1 = expr_value st e2) \<and>
    (\<forall>ty e1 e2 a b. eliminate_eq n st ty e1 e2 = Ret (a, b) \<longrightarrow> common_part st ty e1 e2 a b)"
proof (induction n)
  case 0
  then show ?case by (simp add: expr_eq.simps eliminate_eq.simps)
next
  case (Suc n)
  have eq: "expr_value st e1 = expr_value st e2" if h: "expr_eq n st e1 e2 = Ret True" for e1 e2
    using Suc that by blast
  have el: "common_part st ty e1 e2 a b" if "eliminate_eq n st ty e1 e2 = Ret (a, b)" for ty e1 e2 a b
    using Suc that by blast
  have "expr_value st e1 = expr_value st e2" if h: "expr_eq (Suc n) st e1 e2 = Ret True" for e1 e2
  proof -
    have nt: "expr_value st e1 = expr_value st e2"
      if h2: "eliminate_eq n st ty e1 e2 = Ret (a, b)" "same_symbol (expr_eliminate_yn a) (expr_eliminate_yn b)" for ty e1 e2 a b
    proof -
      have "expr_value st a = expr_value st b" using eliminate_yn_value [OF assms] same_symbolD [OF h2(2)] by metis
      then show ?thesis using el [OF h2(1)] by (auto simp: common_part_def)
    qed
    show ?thesis using h nt
      by (cases e1; cases e2) (fastforce simp: expr_eq.simps dest: eq)+
  qed
  moreover have "common_part st ty e1 e2 a b" if h: "eliminate_eq (Suc n) st ty e1 e2 = Ret (a, b)" for ty e1 e2 a b
  proof (cases "parts ty e1")
    case (Some p)
    obtain l r where p: "p = (l, r)" by (cases p)
    note ty = parts_value [OF Some [unfolded p]]
    obtain l' e' r' where "eliminate_eq n st ty l e2 = Ret (l', e')" "eliminate_eq n st ty r e' = Ret (r', b)" "a = mk ty l' r'"
      using h Some p by (auto simp: eliminate_eq.simps)
    then show ?thesis using common_part_left el ty by metis
  next
    case None
    show ?thesis
    proof (cases "parts ty e2")
      case (Some p)
      obtain l r where p: "p = (l, r)" by (cases p)
      note ty = parts_value [OF Some [unfolded p]]
      obtain l' e' r' where "eliminate_eq n st ty e1 l = Ret (e', l')" "eliminate_eq n st ty e' r = Ret (a, r')" "b = mk ty l' r'"
        using h None Some p by (auto simp: eliminate_eq.simps)
      then show ?thesis using common_part_left el ty common_part_sym by metis
    next
      case N: None
      show ?thesis using h None N eq common_part_refl common_part_neutral [OF assms]
        by (auto simp: eliminate_eq.simps split: if_splits)
    qed
  qed
  ultimately show ?case by blast
qed

text \<open>The comparison ends: three times the size of the two expressions is enough fuel.\<close>

fun weight :: "expr \<Rightarrow> nat" where
  "weight (ENot a) = Suc (weight a)"
| "weight (EAnd a b) = Suc (weight a + weight b)"
| "weight (EOr a b) = Suc (weight a + weight b)"
| "weight e = 1"

lemma weight_pos [simp]: "0 < weight e" "1 \<le> weight e"
  by (induction e) auto

lemma weight_mk [simp]: "weight (mk ty a b) = Suc (weight a + weight b)" "weight (neutral ty) = 1"
  by (auto simp: mk_def neutral_def)

definition eliminates :: "expr \<Rightarrow> expr \<Rightarrow> (expr \<times> expr) outcome \<Rightarrow> bool" where
  "eliminates e1 e2 r \<longleftrightarrow> (\<exists>a b. r = Ret (a, b) \<and> weight a \<le> weight e1 \<and> weight b \<le> weight e2)"

lemma eliminatesE:
  assumes "eliminates e1 e2 r"
  obtains a b where "r = Ret (a, b)" "weight a \<le> weight e1" "weight b \<le> weight e2"
  using assms by (auto simp: eliminates_def)

lemma eq_ends:
  "(\<forall>e1 e2. 3 * (weight e1 + weight e2) + 1 \<le> n \<longrightarrow> (\<exists>b. expr_eq n st e1 e2 = Ret b)) \<and>
   (\<forall>ty e1 e2. 3 * (weight e1 + weight e2) + (if parts ty e1 = None \<and> parts ty e2 = None then 2 else 0) \<le> n \<longrightarrow>
     eliminates e1 e2 (eliminate_eq n st ty e1 e2))"
proof (induction n)
  case 0
  then show ?case using weight_pos by (metis add_is_0 le_zero_eq less_irrefl mult_is_0 zero_neq_numeral)
next
  case (Suc n)
  have eq: "\<exists>b. expr_eq n st e1 e2 = Ret b" if "3 * (weight e1 + weight e2) + 1 \<le> n" for e1 e2
    using Suc that by blast
  have el: "eliminates e1 e2 (eliminate_eq n st ty e1 e2)" if "3 * (weight e1 + weight e2) + 2 \<le> n" for ty e1 e2
  proof -
    have "3 * (weight e1 + weight e2) + (if parts ty e1 = None \<and> parts ty e2 = None then 2 else 0) \<le> n" using that by simp
    then show ?thesis using Suc by blast
  qed
  have el2: "eliminates e1 e2 (eliminate_eq n st ty e1 e2)" if "3 * (weight e1 + weight e2) \<le> n" "parts ty e1 \<noteq> None" for ty e1 e2
  proof -
    have "3 * (weight e1 + weight e2) + (if parts ty e1 = None \<and> parts ty e2 = None then 2 else 0) \<le> n" using that by auto
    then show ?thesis using Suc by blast
  qed
  have "\<exists>b. expr_eq (Suc n) st e1 e2 = Ret b" if h: "3 * (weight e1 + weight e2) + 1 \<le> Suc n" for e1 e2
  proof -
    have "eliminates e1 e2 (eliminate_eq n st (type_of e1) e1 e2)" if "parts (type_of e1) e1 \<noteq> None"
      using el2 [of e1 e2 "type_of e1"] that h by simp
    moreover have "\<exists>b. expr_eq n st a c = Ret b" if "e1 = ENot a" "e2 = ENot c" for a c
      using eq [of a c] that h by simp
    ultimately show ?thesis
      by (cases e1; cases e2) (auto simp: expr_eq.simps eliminates_def)
  qed
  moreover have "eliminates e1 e2 (eliminate_eq (Suc n) st ty e1 e2)"
    if h: "3 * (weight e1 + weight e2) + (if parts ty e1 = None \<and> parts ty e2 = None then 2 else 0) \<le> Suc n" for ty e1 e2
  proof (cases "parts ty e1")
    case (Some p)
    obtain l r where p: "p = (l, r)" by (cases p)
    then have w: "weight e1 = Suc (weight l + weight r)" using parts_value Some by fastforce
    have "eliminates l e2 (eliminate_eq n st ty l e2)" using el [of l e2] w h Some by simp
    then obtain l' e' where 1: "eliminate_eq n st ty l e2 = Ret (l', e')" "weight l' \<le> weight l" "weight e' \<le> weight e2" by (rule eliminatesE)
    have "eliminates r e' (eliminate_eq n st ty r e')" using el [of r e'] w h Some 1 by simp
    then obtain r' e'' where 2: "eliminate_eq n st ty r e' = Ret (r', e'')" "weight r' \<le> weight r" "weight e'' \<le> weight e'" by (rule eliminatesE)
    show ?thesis using Some p 1 2 w by (simp add: eliminate_eq.simps eliminates_def)
  next
    case None
    show ?thesis
    proof (cases "parts ty e2")
      case (Some p)
      obtain l r where p: "p = (l, r)" by (cases p)
      then have w: "weight e2 = Suc (weight l + weight r)" using parts_value Some by fastforce
      have "eliminates e1 l (eliminate_eq n st ty e1 l)" using el [of e1 l] w h Some by simp
      then obtain l' e' where 1: "eliminate_eq n st ty e1 l = Ret (e', l')" "weight e' \<le> weight e1" "weight l' \<le> weight l" by (rule eliminatesE)
      have "eliminates e' r (eliminate_eq n st ty e' r)" using el [of e' r] w h Some 1 by simp
      then obtain r' e'' where 2: "eliminate_eq n st ty e' r = Ret (e'', r')" "weight e'' \<le> weight e'" "weight r' \<le> weight r" by (rule eliminatesE)
      show ?thesis using None Some p 1 2 w by (simp add: eliminate_eq.simps eliminates_def)
    next
      case N: None
      then obtain b where "expr_eq n st e1 e2 = Ret b" using eq [of e1 e2] h None by auto
      then show ?thesis using None N by (auto simp: eliminate_eq.simps eliminates_def Suc_le_eq)
    qed
  qed
  ultimately show ?case by blast
qed

section \<open>Joining\<close>

lemma left_symbol_value: "left_symbol e1 = Some s \<Longrightarrow> right_symbol e2 = Some s \<Longrightarrow> (\<exists>t. e1 \<in> {EEqual s t, EUnequal s t, ESym s, ENot (EEqual s t), ENot (EUnequal s t), ENot (ESym s)}) \<and>
    (\<exists>t. e2 \<in> {EEqual s t, EUnequal s t, ESym s, ENot (ESym s)})"
  by (cases e1 rule: left_symbol.cases; cases e2 rule: right_symbol.cases) auto

lemma joined_symbolD:
  assumes "joined_symbol st e1 e2 = Some s"
  shows "sym_type st s \<in> {S_BOOLEAN, S_TRISTATE}" "left_symbol e1 = Some s" "right_symbol e2 = Some s"
  using assms by (auto simp: joined_symbol_def split: option.splits if_splits)

text \<open>A comparison of a boolean or tristate symbol with a constant looks at its value.\<close>

lemma compare_value:
  assumes "symbols_ok st" "sym_type st s \<in> {S_BOOLEAN, S_TRISTATE}"
  shows "expr_value st (EEqual s symbol_yes) = (if curr_tri st s = tri_yes then tri_yes else tri_no)"
    "expr_value st (EEqual s symbol_mod) = (if curr_tri st s = tri_mod then tri_yes else tri_no)"
    "expr_value st (EEqual s symbol_no) = (if curr_tri st s = tri_no then tri_yes else tri_no)"
    "expr_value st (EUnequal s symbol_yes) = (if curr_tri st s = tri_yes then tri_no else tri_yes)"
    "expr_value st (EUnequal s symbol_mod) = (if curr_tri st s = tri_mod then tri_no else tri_yes)"
    "expr_value st (EUnequal s symbol_no) = (if curr_tri st s = tri_no then tri_no else tri_yes)"
  using tri_string [OF assms(2)] symbols_okD(7-9) [OF assms(1)] by auto

lemma join_or_value:
  assumes ok: "symbols_ok st" and j: "joined_symbol st e1 e2 = Some s" and e: "join_or st s e1 e2 = Some e"
  shows "expr_value st e = max (expr_value st e1) (expr_value st e2)"
proof -
  note s = joined_symbolD [OF j]
  note c = compare_value [OF ok s(1)] and b = symbols_okD(10) [OF ok, of s]
  show ?thesis
    using left_symbol_value [OF s(2,3)] e s(1) b symbols_okD(4) [OF ok]
    by (cases "curr_tri st s") (auto simp: join_or_def c max_def less_eq_tristate_def simp del: expr_value.simps(5,6) split: if_splits)
qed

text \<open>The shapes of the two sides in each rule for a conjunction.\<close>

lemma and_shapes:
  assumes "left_symbol e1 = Some s" "right_symbol e2 = Some s"
  shows "symbol_and_equal e1 e2 u \<Longrightarrow> (e1, e2) \<in> {(ESym s, EEqual s u), (EEqual s u, ESym s)}"
    "symbol_and_unequal e1 e2 u \<Longrightarrow> (e1, e2) \<in> {(ESym s, EUnequal s u), (EUnequal s u, ESym s)}"
    "equal_and_unequal e1 e2 = Some (b, c) \<Longrightarrow> (e1, e2) \<in> {(EEqual s b, EUnequal s c), (EUnequal s c, EEqual s b)}"
    "unequal_to e1 e2 u v \<Longrightarrow> (e1, e2) \<in> {(EUnequal s u, EUnequal s v), (EUnequal s v, EUnequal s u)}"
proof -
  show "symbol_and_equal e1 e2 u \<Longrightarrow> (e1, e2) \<in> {(ESym s, EEqual s u), (EEqual s u, ESym s)}"
    using assms by (cases "(e1, e2, u)" rule: symbol_and_equal.cases) auto
  show "symbol_and_unequal e1 e2 u \<Longrightarrow> (e1, e2) \<in> {(ESym s, EUnequal s u), (EUnequal s u, ESym s)}"
    using assms by (cases "(e1, e2, u)" rule: symbol_and_unequal.cases) auto
  show "equal_and_unequal e1 e2 = Some (b, c) \<Longrightarrow> (e1, e2) \<in> {(EEqual s b, EUnequal s c), (EUnequal s c, EEqual s b)}"
    using assms by (cases "(e1, e2)" rule: equal_and_unequal.cases) auto
  show "unequal_to e1 e2 u v \<Longrightarrow> (e1, e2) \<in> {(EUnequal s u, EUnequal s v), (EUnequal s v, EUnequal s u)}"
    using assms by (cases "(e1, e2, u, v)" rule: unequal_to.cases) auto
qed

lemma equal_unequal_value:
  assumes "symbols_ok st" "is_const st b" "is_const st c"
  shows "min (expr_value st (EEqual s b)) (expr_value st (EUnequal s c)) =
    expr_value st (if b \<noteq> c then EEqual s b else ESym symbol_no)"
  using symbols_okD(14) [OF assms(1-3)] symbols_okD(6) [OF assms(1)] by (auto simp: min.commute)

lemma join_unequal_value:
  assumes ok: "symbols_ok st" and s: "sym_type st s = S_TRISTATE" "left_symbol e1 = Some s" "right_symbol e2 = Some s"
    and e: "join_unequal s e1 e2 = Some e"
  shows "expr_value st e = min (expr_value st e1) (expr_value st e2)"
proof -
  note c = compare_value [OF ok, of s]
  obtain u v w where u: "unequal_to e1 e2 u v" "e = EEqual s w"
    "(u, v, w) \<in> {(symbol_yes, symbol_no, symbol_mod), (symbol_yes, symbol_mod, symbol_no), (symbol_mod, symbol_no, symbol_yes)}"
    using e by (auto simp: join_unequal_def split: if_splits)
  have "expr_value st (EEqual s w) = min (expr_value st (EUnequal s u)) (expr_value st (EUnequal s v))"
    using u(3) s(1) by (cases "curr_tri st s") (auto simp: c simp del: expr_value.simps(5,6))
  then show ?thesis using and_shapes(4) [OF s(2,3) u(1)] u(2) by (auto simp: min.commute simp del: expr_value.simps)
qed

lemma join_and_cases:
  assumes "join_and st s e1 e2 = Some e"
  shows "symbol_and_equal e1 e2 symbol_yes \<and> e = EEqual s symbol_yes \<or>
    symbol_and_unequal e1 e2 symbol_no \<and> e = ESym s \<or>
    (\<exists>b c. equal_and_unequal e1 e2 = Some (b, c) \<and> is_const st b \<and> is_const st c \<and> e = (if b \<noteq> c then EEqual s b else ESym symbol_no)) \<or>
    sym_type st s = S_TRISTATE \<and> join_unequal s e1 e2 = Some e"
proof (cases "symbol_and_equal e1 e2 symbol_yes \<or> symbol_and_unequal e1 e2 symbol_no")
  case True
  then show ?thesis using assms unfolding join_and_def by (simp split: if_splits)
next
  case False
  then have t: "sym_type st s = S_TRISTATE" "(case equal_and_unequal e1 e2 of
           Some (b, c) \<Rightarrow>
             if is_const st b \<and> is_const st c
             then Some (if b \<noteq> c then EEqual s b else ESym symbol_no)
             else join_unequal s e1 e2
         | None \<Rightarrow> join_unequal s e1 e2) = Some e"
    using assms unfolding join_and_def by (simp_all split: if_split_asm)
  show ?thesis
  proof (cases "equal_and_unequal e1 e2")
    case None
    then show ?thesis using t by simp
  next
    case (Some p)
    obtain b c where p: "p = (b, c)" by (cases p)
    have "is_const st b \<and> is_const st c \<and> e = (if b \<noteq> c then EEqual s b else ESym symbol_no) \<or> join_unequal s e1 e2 = Some e"
      using t(2) Some p by (cases "is_const st b \<and> is_const st c") (simp_all split: if_split_asm)
    then show ?thesis using Some p t(1) by blast
  qed
qed

lemma join_and_value:
  assumes ok: "symbols_ok st" and j: "joined_symbol st e1 e2 = Some s" and e: "join_and st s e1 e2 = Some e"
  shows "expr_value st e = min (expr_value st e1) (expr_value st e2)"
proof -
  note s = joined_symbolD [OF j]
  note c = compare_value [OF ok s(1)] and sh = and_shapes [OF s(2,3)]
  consider "symbol_and_equal e1 e2 symbol_yes" "e = EEqual s symbol_yes"
    | "symbol_and_unequal e1 e2 symbol_no" "e = ESym s"
    | b c where "equal_and_unequal e1 e2 = Some (b, c)" "is_const st b" "is_const st c" "e = (if b \<noteq> c then EEqual s b else ESym symbol_no)"
    | "sym_type st s = S_TRISTATE" "join_unequal s e1 e2 = Some e"
    using join_and_cases [OF e] by blast
  then show ?thesis
  proof cases
    case 1
    then show ?thesis using sh(1) [OF 1(1)] c(1) by (cases "curr_tri st s") (auto simp del: expr_value.simps(5))
  next
    case 2
    then show ?thesis using sh(2) [OF 2(1)] c(6) by (cases "curr_tri st s") (auto simp del: expr_value.simps(6))
  next
    case (3 b c)
    then show ?thesis using sh(3) [OF 3(1)] equal_unequal_value [OF ok 3(2,3), of s]
      by (auto simp: min.commute simp del: expr_value.simps)
  next
    case 4
    then show ?thesis using join_unequal_value [OF ok _ s(2,3)] by blast
  qed
qed

section \<open>Negations\<close>

text \<open>What expr_transform computes: negations go down to the symbols, where they stop.\<close>

fun negate :: "expr \<Rightarrow> expr" where
  "negate (ESym s) = (case s of symbol_yes \<Rightarrow> ESym symbol_no | symbol_mod \<Rightarrow> ESym symbol_mod | symbol_no \<Rightarrow> ESym symbol_yes
     | _ \<Rightarrow> ENot (ESym s))"
| "negate (ENot a) = a"
| "negate (EEqual s t) = EUnequal s t"
| "negate (EUnequal s t) = EEqual s t"
| "negate (EAnd a b) = EOr (negate a) (negate b)"
| "negate (EOr a b) = EAnd (negate a) (negate b)"

fun norm :: "symbols \<Rightarrow> expr \<Rightarrow> expr" where
  "norm st (ESym s) = ESym s"
| "norm st (EEqual s t) = transform_equal st s t"
| "norm st (EUnequal s t) = transform_unequal st s t"
| "norm st (EAnd a b) = EAnd (norm st a) (norm st b)"
| "norm st (EOr a b) = EOr (norm st a) (norm st b)"
| "norm st (ENot a) = negate (norm st a)"

text \<open>The normal forms: only symbols that are no constants are negated, and no boolean symbol is
  compared with a constant.\<close>

definition plain_comparison :: "symbols \<Rightarrow> sym_ref \<Rightarrow> sym_ref \<Rightarrow> bool" where
  "plain_comparison st s t \<longleftrightarrow> \<not> (sym_type st s = S_BOOLEAN \<and> t \<in> {symbol_no, symbol_mod, symbol_yes})"

fun normal :: "symbols \<Rightarrow> expr \<Rightarrow> bool" where
  "normal st (ESym s) = True"
| "normal st (ENot a) = (\<exists>s. a = ESym s \<and> s \<notin> {symbol_yes, symbol_mod, symbol_no})"
| "normal st (EEqual s t) = plain_comparison st s t"
| "normal st (EUnequal s t) = plain_comparison st s t"
| "normal st (EAnd a b) = (normal st a \<and> normal st b)"
| "normal st (EOr a b) = (normal st a \<and> normal st b)"

lemma normal_negate: "normal st e \<Longrightarrow> normal st (negate e)"
  by (induction e) (auto split: sym_ref.splits)

lemma normal_norm: "symbols_ok st \<Longrightarrow> normal st (norm st e)"
proof (induction e)
  case (EEqual s t)
  have "sym_type st s = S_BOOLEAN \<Longrightarrow> s \<notin> {symbol_yes, symbol_mod, symbol_no}" using symbols_okD(11-13) [OF EEqual] by auto
  then show ?case by (auto simp: transform_equal_def plain_comparison_def)
next
  case (EUnequal s t)
  have "sym_type st s = S_BOOLEAN \<Longrightarrow> s \<notin> {symbol_yes, symbol_mod, symbol_no}" using symbols_okD(11-13) [OF EUnequal] by auto
  then show ?case by (auto simp: transform_unequal_def plain_comparison_def)
qed (auto simp: normal_negate)

lemma negate_value: "symbols_ok st \<Longrightarrow> expr_value st (negate e) = E_NOT_val (expr_value st e)"
  by (induction e) (auto simp: values_simps symbols_okD split: sym_ref.splits)

lemma norm_value: "symbols_ok st \<Longrightarrow> expr_value st (norm st e) = expr_value st e"
proof (induction e)
  case (EEqual s t)
  show ?case
  proof (cases "sym_type st s = S_BOOLEAN")
    case True
    then have b: "sym_type st s \<in> {S_BOOLEAN, S_TRISTATE}" by simp
    show ?thesis using compare_value(1-3) [OF EEqual b] symbols_okD(6,10) [OF EEqual] True
      by (cases "curr_tri st s") (auto simp: transform_equal_def simp del: expr_value.simps(5))
  qed (simp add: transform_equal_def)
next
  case (EUnequal s t)
  show ?case
  proof (cases "sym_type st s = S_BOOLEAN")
    case True
    then have b: "sym_type st s \<in> {S_BOOLEAN, S_TRISTATE}" by simp
    show ?thesis using compare_value(4-6) [OF EUnequal b] symbols_okD(4,10) [OF EUnequal] True
      by (cases "curr_tri st s") (auto simp: transform_unequal_def simp del: expr_value.simps(6))
  qed (simp add: transform_unequal_def)
qed (auto simp: negate_value values_simps)

fun depth :: "expr \<Rightarrow> nat" where
  "depth (ENot a) = Suc (depth a)"
| "depth (EAnd a b) = Suc (max (depth a) (depth b))"
| "depth (EOr a b) = Suc (max (depth a) (depth b))"
| "depth e = 1"

lemma depth_pos [simp]: "0 < depth e"
  by (induction e) auto

lemma depth_negate: "depth (negate e) \<le> Suc (depth e)"
  by (induction e) (auto split: sym_ref.splits)

lemma transform_normal: "normal st e \<Longrightarrow> depth e \<le> n \<Longrightarrow> expr_transform n st e = Ret e"
proof (induction e arbitrary: n)
  case (EEqual s t)
  then show ?case by (cases n) (auto simp: transform_equal_def plain_comparison_def)
next
  case (EUnequal s t)
  then show ?case by (cases n) (auto simp: transform_unequal_def plain_comparison_def)
next
  case (ENot a)
  then obtain s m where "a = ESym s" "s \<notin> {symbol_yes, symbol_mod, symbol_no}" "n = Suc (Suc m)"
    by (cases n; cases "n - 1") auto
  then show ?case by (cases s) auto
next
  case (EAnd a b)
  then obtain m where "n = Suc m" by (cases n) auto
  then show ?case using EAnd by simp
next
  case (EOr a b)
  then obtain m where "n = Suc m" by (cases n) auto
  then show ?case using EOr by simp
qed (case_tac n; simp)

text \<open>Rewriting the negation of a normal form.\<close>

lemma transform_not_normal: "normal st x \<Longrightarrow> 3 * depth x + 1 \<le> n \<Longrightarrow> transform_not n st x = Ret (negate x)"
proof (induction x arbitrary: n)
  case (EAnd a b)
  then obtain k where k: "n = Suc (Suc (Suc k))" "3 * max (depth a) (depth b) + 1 \<le> k"
    by (cases n; cases "n - 1"; cases "n - 2") auto
  then have "transform_not k st a = Ret (negate a)" "transform_not k st b = Ret (negate b)"
    "expr_transform k st a = Ret a" "expr_transform k st b = Ret b"
    using EAnd transform_normal by auto
  then show ?case using k(1) by simp
next
  case (EOr a b)
  then obtain k where k: "n = Suc (Suc (Suc k))" "3 * max (depth a) (depth b) + 1 \<le> k"
    by (cases n; cases "n - 1"; cases "n - 2") auto
  then have "transform_not k st a = Ret (negate a)" "transform_not k st b = Ret (negate b)"
    "expr_transform k st a = Ret a" "expr_transform k st b = Ret b"
    using EOr transform_normal by auto
  then show ?case using k(1) by simp
next
  case (ENot a)
  then obtain k s where "n = Suc (Suc (Suc k))" "a = ESym s" by (cases n; cases "n - 1"; cases "n - 2") auto
  then show ?case by simp
qed (auto split: sym_ref.splits)

lemma depth_norm: "depth (norm st e) \<le> Suc (depth e)"
  by (induction e) (auto simp: transform_equal_def transform_unequal_def intro: order_trans [OF depth_negate])

lemma transform_norm: "symbols_ok st \<Longrightarrow> 3 * depth e + 2 \<le> n \<Longrightarrow> expr_transform n st e = Ret (norm st e)"
proof (induction e arbitrary: n)
  case (ENot a)
  then obtain m where m: "n = Suc m" "3 * depth a + 4 \<le> m" by (cases n) auto
  have "3 * depth (norm st a) + 1 \<le> m" using m(2) depth_norm [of st a] by linarith
  then have "transform_not m st (norm st a) = Ret (negate (norm st a))"
    by (rule transform_not_normal [OF normal_norm [OF ENot.prems(1)]])
  then show ?case using ENot.IH [OF ENot.prems(1), of m] m by simp
next
  case (EAnd a b)
  then obtain m where "n = Suc m" by (cases n) auto
  then show ?case using EAnd by simp
next
  case (EOr a b)
  then obtain m where "n = Suc m" by (cases n) auto
  then show ?case using EOr by simp
qed (case_tac n; simp)+

section \<open>Symbols in expressions\<close>

text \<open>The value depends on the symbols an expression contains, and an expression that depends on a
  symbol is no where the symbol is.\<close>

lemma contains_value:
  assumes "\<And>s. expr_contains_symbol e s \<Longrightarrow> curr_tri st s = curr_tri st' s \<and> curr_value st s = curr_value st' s \<and> sym_type st s = sym_type st' s"
  shows "expr_value st e = expr_value st' e"
  using assms by (induction e) (auto simp: sym_get_string_value_def)

lemma depends_value:
  assumes "symbols_ok st" "sym_type st s \<in> {S_BOOLEAN, S_TRISTATE}" "curr_tri st s = tri_no"
  shows "expr_depends_symbol e s \<Longrightarrow> expr_value st e = tri_no"
proof (induction e)
  case (EEqual t u)
  then show ?case using compare_value [OF assms(1,2)] assms(3) by auto
next
  case (EUnequal t u)
  then show ?case using compare_value [OF assms(1,2)] assms(3) by auto
qed (use assms(3) in \<open>auto simp: values_simps\<close>)

section \<open>Comparing an expression\<close>

text \<open>Where no symbol of the expression is mod and the symbols are boolean or tristate, comparing with
  y or n tells the value.\<close>

fun two_valued :: "symbols \<Rightarrow> expr \<Rightarrow> bool" where
  "two_valued st (ESym s) = (sym_type st s \<in> {S_BOOLEAN, S_TRISTATE} \<and> curr_tri st s \<noteq> tri_mod)"
| "two_valued st (ENot a) = two_valued st a"
| "two_valued st (EAnd a b) = (two_valued st a \<and> two_valued st b)"
| "two_valued st (EOr a b) = (two_valued st a \<and> two_valued st b)"
| "two_valued st e = True"

lemma E_NOT_mod: "E_NOT_val a = tri_mod \<longleftrightarrow> a = tri_mod"
  by (cases a) auto

lemma two_valued_value: "two_valued st e \<Longrightarrow> expr_value st e \<noteq> tri_mod"
  by (induction e) (auto simp: values_simps E_NOT_mod min_def max_def)

lemma trans_compare_value:
  assumes ok: "symbols_ok st" and s: "s \<in> {symbol_yes, symbol_no}"
  shows "two_valued st e \<Longrightarrow> \<exists>c. trans_compare e eq s = Some c \<and>
    expr_value st c = (if (expr_value st e = curr_tri st s) = eq then tri_yes else tri_no)"
proof (induction e arbitrary: eq)
  case (ESym u)
  then have "sym_type st u \<in> {S_BOOLEAN, S_TRISTATE}" by simp
  then show ?case using compare_value [OF ok, of u] s symbols_okD(4,6) [OF ok] ESym
    by (cases "curr_tri st u") (auto simp del: expr_value.simps(5,6))
next
  case (ENot a)
  then have "expr_value st a \<noteq> tri_mod" using two_valued_value by simp
  then show ?case using ENot.IH [of "\<not> eq"] ENot.prems s symbols_okD(4,6) [OF ok]
    by (cases "expr_value st a") auto
next
  case (EAnd a b)
  obtain c d where "trans_compare a True s = Some c" "expr_value st c = (if expr_value st a = curr_tri st s then tri_yes else tri_no)"
    "trans_compare b True s = Some d" "expr_value st d = (if expr_value st b = curr_tri st s then tri_yes else tri_no)"
    using EAnd.IH [of True] EAnd.prems by auto
  moreover have "expr_value st a \<noteq> tri_mod" "expr_value st b \<noteq> tri_mod" using two_valued_value EAnd.prems by auto
  ultimately show ?case using s symbols_okD(4,6) [OF ok]
    by (cases "expr_value st a"; cases "expr_value st b") (auto simp: values_simps)
next
  case (EOr a b)
  obtain c d where "trans_compare a True s = Some c" "expr_value st c = (if expr_value st a = curr_tri st s then tri_yes else tri_no)"
    "trans_compare b True s = Some d" "expr_value st d = (if expr_value st b = curr_tri st s then tri_yes else tri_no)"
    using EOr.IH [of True] EOr.prems by auto
  moreover have "expr_value st a \<noteq> tri_mod" "expr_value st b \<noteq> tri_mod" using two_valued_value EOr.prems by auto
  ultimately show ?case using s symbols_okD(4,6) [OF ok]
    by (cases "expr_value st a"; cases "expr_value st b") (auto simp: values_simps)
qed (use s symbols_okD(4,6) [OF ok] in auto)

section \<open>Extracting common parts\<close>

definition option_value :: "symbols \<Rightarrow> expr_type \<Rightarrow> expr option \<Rightarrow> tristate" where
  "option_value st ty e = (case e of None \<Rightarrow> neutral_tri ty | Some c \<Rightarrow> expr_value st c)"

definition extracts :: "symbols \<Rightarrow> expr_type \<Rightarrow> expr option \<Rightarrow> expr \<Rightarrow> expr \<Rightarrow> expr option \<Rightarrow> expr \<Rightarrow> expr \<Rightarrow> bool" where
  "extracts st ty ep e1 e2 ep' a b \<longleftrightarrow> (\<exists>c. option_value st ty ep' = join_values ty (option_value st ty ep) c \<and>
     expr_value st e1 = join_values ty (expr_value st a) c \<and> expr_value st e2 = join_values ty (expr_value st b) c)"

lemma extracts_step:
  assumes "ty \<in> {E_AND, E_OR}" "extracts st ty ep l e2 ep1 l' e2'" "extracts st ty ep1 r e2' ep2 r' e2''"
  shows "extracts st ty ep (mk ty l r) e2 ep2 (mk ty l' r') e2''"
proof -
  obtain c d where "option_value st ty ep1 = join_values ty (option_value st ty ep) c" "expr_value st l = join_values ty (expr_value st l') c"
    "expr_value st e2 = join_values ty (expr_value st e2') c" "option_value st ty ep2 = join_values ty (option_value st ty ep1) d"
    "expr_value st r = join_values ty (expr_value st r') d" "expr_value st e2' = join_values ty (expr_value st e2'') d"
    using assms(2,3) by (auto simp: extracts_def)
  then show ?thesis unfolding extracts_def
    by (intro exI [of _ "join_values ty c d"]) (simp add: mk_value [OF assms(1)] join_values_ac)
qed

lemma extracts_sym: "extracts st ty ep e1 e2 ep' a b \<longleftrightarrow> extracts st ty ep e2 e1 ep' b a"
  by (auto simp: extracts_def)

lemma extracts_leaf:
  assumes "symbols_ok st" "ty \<in> {E_AND, E_OR}" "expr_value st e1 = expr_value st e2"
  shows "extracts st ty ep e1 e2 (Some (case ep of None \<Rightarrow> e1 | Some c \<Rightarrow> mk ty c e1)) (neutral ty) (neutral ty)"
proof -
  have "join_values ty (neutral_tri ty) c = c" for c using join_neutral_tri join_values_ac(2) by metis
  then show ?thesis unfolding extracts_def using assms(3)
    by (intro exI [of _ "expr_value st e2"]) (auto simp: option_value_def mk_value [OF assms(2)] neutral_value [OF assms(1)] split: option.splits)
qed

lemma extract_sound:
  assumes "symbols_ok st" "ty \<in> {E_AND, E_OR}"
  shows "extract_eq n st ty ep e1 e2 = Ret (ep', a, b) \<Longrightarrow> extracts st ty ep e1 e2 ep' a b"
proof (induction n arbitrary: ep e1 e2 ep' a b)
  case 0
  then show ?case by (simp add: extract_eq.simps)
next
  case (Suc n)
  show ?case
  proof (cases "parts ty e1")
    case (Some p)
    obtain l r where p: "p = (l, r)" by (cases p)
    obtain ep1 l' e' r' where "extract_eq n st ty ep l e2 = Ret (ep1, l', e')" "extract_eq n st ty ep1 r e' = Ret (ep', r', b)" "a = mk ty l' r'"
      using Suc.prems Some p by (auto simp: extract_eq.simps)
    then show ?thesis using extracts_step [OF assms(2)] Suc.IH parts_value [OF Some [unfolded p]] by metis
  next
    case None
    show ?thesis
    proof (cases "parts ty e2")
      case (Some p)
      obtain l r where p: "p = (l, r)" by (cases p)
      obtain ep1 l' e' r' where "extract_eq n st ty ep e1 l = Ret (ep1, e', l')" "extract_eq n st ty ep1 e' r = Ret (ep', a, r')" "b = mk ty l' r'"
        using Suc.prems None Some p by (auto simp: extract_eq.simps)
      then show ?thesis using extracts_step [OF assms(2)] Suc.IH parts_value [OF Some [unfolded p]] extracts_sym by metis
    next
      case N: None
      have "extracts st ty ep e1 e2 ep e1 e2" unfolding extracts_def by (intro exI [of _ "neutral_tri ty"]) simp
      then show ?thesis using Suc.prems None N extracts_leaf [OF assms] eq_sound [OF assms(1), of n]
        by (auto simp: extract_eq.simps split: if_splits)
    qed
  qed
qed

lemma extract_ends:
  "3 * (weight e1 + weight e2) + 2 \<le> n \<Longrightarrow>
   \<exists>ep' a b. extract_eq n st ty ep e1 e2 = Ret (ep', a, b) \<and> weight a \<le> weight e1 \<and> weight b \<le> weight e2"
proof (induction n arbitrary: ep e1 e2)
  case (Suc n)
  show ?case
  proof (cases "parts ty e1")
    case (Some p)
    obtain l r where p: "p = (l, r)" by (cases p)
    then have w: "weight e1 = Suc (weight l + weight r)" using parts_value Some by fastforce
    obtain ep1 l' e' where 1: "extract_eq n st ty ep l e2 = Ret (ep1, l', e')" "weight l' \<le> weight l" "weight e' \<le> weight e2"
      using Suc.IH [of l e2 ep] Suc.prems w by auto
    then obtain ep2 r' e'' where 2: "extract_eq n st ty ep1 r e' = Ret (ep2, r', e'')" "weight r' \<le> weight r" "weight e'' \<le> weight e'"
      using Suc.IH [of r e' ep1] Suc.prems w by auto
    show ?thesis using Some p 1 2 w by (simp add: extract_eq.simps)
  next
    case None
    show ?thesis
    proof (cases "parts ty e2")
      case (Some p)
      obtain l r where p: "p = (l, r)" by (cases p)
      then have w: "weight e2 = Suc (weight l + weight r)" using parts_value Some by fastforce
      obtain ep1 l' e' where 1: "extract_eq n st ty ep e1 l = Ret (ep1, e', l')" "weight l' \<le> weight l" "weight e' \<le> weight e1"
        using Suc.IH [of e1 l ep] Suc.prems w by auto
      then obtain ep2 r' e'' where 2: "extract_eq n st ty ep1 e' r = Ret (ep2, e'', r')" "weight r' \<le> weight r" "weight e'' \<le> weight e'"
        using Suc.IH [of e' r ep1] Suc.prems w by auto
      show ?thesis using None Some p 1 2 w by (simp add: extract_eq.simps)
    next
      case N: None
      have "3 * (weight e1 + weight e2) + 1 \<le> n" using Suc.prems by simp
      then obtain c where "expr_eq n st e1 e2 = Ret c" using eq_ends [of n st] by blast
      then show ?thesis using None N by (cases c) (auto simp: extract_eq.simps Suc_le_eq)
    qed
  qed
qed simp

section \<open>Tests for n\<close>

text \<open>expr_trans_bool keeps the value up to the difference of m and y, where no negation is above the test.\<close>

fun negation_free :: "expr \<Rightarrow> bool" where
  "negation_free (ENot a) = False"
| "negation_free (EAnd a b) = (negation_free a \<and> negation_free b)"
| "negation_free (EOr a b) = (negation_free a \<and> negation_free b)"
| "negation_free e = True"

lemma tri_no_iff: "max a b = tri_no \<longleftrightarrow> a = tri_no \<and> b = tri_no" "min a b = tri_no \<longleftrightarrow> a = tri_no \<or> b = tri_no"
  by (cases a; cases b; simp add: max_def min_def less_eq_tristate_def)+

lemma trans_bool_truth:
  assumes "symbols_ok st"
  shows "negation_free e \<Longrightarrow> expr_value st (expr_trans_bool st e) = tri_no \<longleftrightarrow> expr_value st e = tri_no"
proof (induction e)
  case (EUnequal s t)
  show ?case
  proof (cases "sym_type st s = S_TRISTATE \<and> t = symbol_no")
    case True
    then show ?thesis using compare_value(6) [OF assms, of s] by (auto simp del: expr_value.simps(6))
  qed auto
qed (auto simp: values_simps tri_no_iff)

section \<open>The operations\<close>

text \<open>A configuration: symbol 0 is a tristate that is mod, symbol 1 a boolean that is set, symbol 2 a
  tristate that is set, and the others are strings.\<close>

definition example_symbols :: symbols where
  "example_symbols = \<lparr>
     sym_type = (\<lambda>s. case s of Symbol 0 \<Rightarrow> S_TRISTATE | Symbol (Suc 0) \<Rightarrow> S_BOOLEAN | Symbol (Suc (Suc 0)) \<Rightarrow> S_TRISTATE
       | Symbol k \<Rightarrow> S_STRING | _ \<Rightarrow> S_UNKNOWN),
     sym_flags = (\<lambda>s. case s of symbol_yes \<Rightarrow> SYMBOL_YES | symbol_mod \<Rightarrow> SYMBOL_MOD | symbol_no \<Rightarrow> SYMBOL_NO | _ \<Rightarrow> 0),
     sym_name = (\<lambda>s. case s of symbol_yes \<Rightarrow> Some ''y'' | symbol_mod \<Rightarrow> Some ''m'' | symbol_no \<Rightarrow> Some ''n'' | symbol_empty \<Rightarrow> Some []
       | Symbol k \<Rightarrow> Some (''S'' @ replicate k (CHR ''I''))),
     curr_tri = (\<lambda>s. case s of symbol_yes \<Rightarrow> tri_yes | symbol_mod \<Rightarrow> tri_mod | Symbol 0 \<Rightarrow> tri_mod
       | Symbol (Suc 0) \<Rightarrow> tri_yes | Symbol (Suc (Suc 0)) \<Rightarrow> tri_yes | _ \<Rightarrow> tri_no),
     curr_value = (\<lambda>s. case s of symbol_yes \<Rightarrow> ''y'' | symbol_mod \<Rightarrow> ''m'' | symbol_no \<Rightarrow> ''n'' | _ \<Rightarrow> [])\<rparr>"

lemma example_symbols_ok: "symbols_ok example_symbols"
proof -
  have c: "is_const example_symbols s \<longleftrightarrow> s \<in> {symbol_yes, symbol_mod, symbol_no}" for s
    by (cases s) (auto simp: is_const_def example_symbols_def SYMBOL_CONST_def SYMBOL_YES_def SYMBOL_MOD_def SYMBOL_NO_def)
  have b: "curr_tri example_symbols s \<noteq> tri_mod" if "sym_type example_symbols s = S_BOOLEAN" for s
    using that by (auto simp: example_symbols_def split: sym_ref.splits nat.splits)
  show ?thesis unfolding symbols_ok_def
    using b by (auto simp: c sym_get_string_value_def) (auto simp: example_symbols_def)
qed

text \<open>C22: expr_transform ends and gives a normal form with the value of the expression: negations
  are moved down to the symbols by De Morgan's laws and double negations disappear, no constant is
  negated, and no boolean symbol is compared with a constant.  The nesting of its calls is at most
  three times the depth of the expression.\<close>
theorem transform_normalises:
  assumes "symbols_ok st" "3 * depth e + 2 \<le> fuel"
  shows "\<exists>e'. expr_transform fuel st e = Ret e' \<and> normal st e' \<and> expr_value st e' = expr_value st e"
  using transform_norm [OF assms] normal_norm [OF assms(1)] norm_value [OF assms(1)] by blast

lemma transform_normalises_witness:
  "\<exists>e'. expr_transform 17 example_symbols (ENot (EAnd (ESym (Symbol 0)) (ENot (EOr (ESym symbol_no) (EEqual (Symbol 1) symbol_no))))) = Ret e' \<and>
     normal example_symbols e' \<and>
     expr_value example_symbols e' = expr_value example_symbols (ENot (EAnd (ESym (Symbol 0)) (ENot (EOr (ESym symbol_no) (EEqual (Symbol 1) symbol_no)))))"
  by (rule transform_normalises [OF example_symbols_ok]) simp

text \<open>Expr_eq, with the elimination of common operands it works by, ends, and expressions that it
  takes to be equal have the same value: operands may be in another order or repeated.  Three times
  the size of the two expressions bounds the nesting of the calls.\<close>
lemma expr_eq_sound:
  assumes "symbols_ok st" "3 * (weight e1 + weight e2) + 1 \<le> fuel"
  shows "\<exists>b. expr_eq fuel st e1 e2 = Ret b \<and> (b \<longrightarrow> expr_value st e1 = expr_value st e2)"
proof -
  obtain b where "expr_eq fuel st e1 e2 = Ret b" using eq_ends [of fuel st] assms(2) by blast
  then show ?thesis using eq_sound [OF assms(1), of fuel] by (cases b) auto
qed

lemma example_equal:
  "expr_eq 19 example_symbols (EAnd (ESym (Symbol 0)) (ESym (Symbol 1))) (EAnd (ESym (Symbol 1)) (ESym (Symbol 0))) = Ret True"
  by (simp add: expr_eq.simps eliminate_eq.simps numeral_eq_Suc both_constant_def mk_def neutral_def yn_and_def example_symbols_def SYMBOL_YES_def SYMBOL_NO_def)

lemma expr_eq_sound_witness:
  "expr_eq 19 example_symbols (EAnd (ESym (Symbol 0)) (ESym (Symbol 1))) (EAnd (ESym (Symbol 1)) (ESym (Symbol 0))) = Ret True \<and>
   expr_value example_symbols (EAnd (ESym (Symbol 0)) (ESym (Symbol 1))) = expr_value example_symbols (EAnd (ESym (Symbol 1)) (ESym (Symbol 0)))"
proof -
  have "3 * (weight (EAnd (ESym (Symbol 0)) (ESym (Symbol 1))) + weight (EAnd (ESym (Symbol 1)) (ESym (Symbol 0)))) + 1 \<le> (19::nat)" by simp
  from expr_eq_sound [OF example_symbols_ok this] example_equal show ?thesis by (metis outcome.inject(1))
qed

lemma expr_eq_outcome:
  assumes "3 * (weight e1 + weight e2) + 1 \<le> fuel"
  obtains b where "expr_eq fuel st e1 e2 = Ret b"
  using eq_ends [of fuel st] assms by blast

text \<open>Expr_join_or and expr_join_and end, and where they find one expression for two, it has the
  value of their disjunction, or of their conjunction, in the logic of three values.\<close>
lemma joins_keep_values:
  assumes "symbols_ok st" "3 * (weight e1 + weight e2) + 1 \<le> fuel"
  shows "\<exists>r s. expr_join_or fuel st e1 e2 = Ret r \<and> expr_join_and fuel st e1 e2 = Ret s \<and>
    (\<forall>e. r = Some e \<longrightarrow> expr_value st e = expr_value st (EOr e1 e2)) \<and>
    (\<forall>e. s = Some e \<longrightarrow> expr_value st e = expr_value st (EAnd e1 e2))"
proof -
  obtain b where b: "expr_eq fuel st e1 e2 = Ret b" using expr_eq_outcome [OF assms(2)] .
  show ?thesis
  proof (cases b)
    case True
    then have "expr_value st e1 = expr_value st e2" using eq_sound [OF assms(1), of fuel] b by auto
    then show ?thesis using b True by (simp add: expr_join_or_def expr_join_and_def values_simps)
  next
    case False
    show ?thesis
    proof (cases "joined_symbol st e1 e2")
      case None
      then show ?thesis using b False by (simp add: expr_join_or_def expr_join_and_def)
    next
      case (Some s)
      then show ?thesis
        using b False join_or_value [OF assms(1) Some] join_and_value [OF assms(1) Some]
        by (simp add: expr_join_or_def expr_join_and_def values_simps)
    qed
  qed
qed

lemma joins_keep_values_witness:
  "\<exists>r s. expr_join_or 7 example_symbols (EUnequal (Symbol 0) symbol_yes) (EUnequal (Symbol 0) symbol_no) = Ret r \<and>
     expr_join_and 7 example_symbols (EUnequal (Symbol 0) symbol_yes) (EUnequal (Symbol 0) symbol_no) = Ret s \<and>
     (\<forall>e. r = Some e \<longrightarrow> expr_value example_symbols e = expr_value example_symbols (EOr (EUnequal (Symbol 0) symbol_yes) (EUnequal (Symbol 0) symbol_no))) \<and>
     (\<forall>e. s = Some e \<longrightarrow> expr_value example_symbols e = expr_value example_symbols (EAnd (EUnequal (Symbol 0) symbol_yes) (EUnequal (Symbol 0) symbol_no)))"
  by (rule joins_keep_values [OF example_symbols_ok]) simp

lemma join_example:
  "expr_join_and 7 example_symbols (EUnequal (Symbol 0) symbol_yes) (EUnequal (Symbol 0) symbol_no) = Ret (Some (EEqual (Symbol 0) symbol_mod))"
  by (simp add: expr_join_and_def numeral_eq_Suc expr_eq.simps joined_symbol_def join_and_def join_unequal_def example_symbols_def)

text \<open>Expr_extract_eq_and and expr_extract_eq_or end, and take the same operands out of both
  expressions: each one has the value of the common part and what is left of it, joined again.\<close>
lemma extracted_parts_are_common:
  assumes "symbols_ok st" "ty = E_AND \<or> ty = E_OR" "3 * (weight e1 + weight e2) + 2 \<le> fuel"
  shows "\<exists>ep a b. expr_extract ty fuel st e1 e2 = Ret (ep, a, b) \<and>
    expr_value st e1 = join_values ty (option_value st ty ep) (expr_value st a) \<and>
    expr_value st e2 = join_values ty (option_value st ty ep) (expr_value st b)"
proof -
  have ty: "ty \<in> {E_AND, E_OR}" using assms(2) by auto
  obtain ep a b where r: "extract_eq fuel st ty None e1 e2 = Ret (ep, a, b)" using extract_ends [OF assms(3)] by blast
  have n: "join_values ty (neutral_tri ty) c = c" for c using join_neutral_tri join_values_ac(2) by metis
  have "extracts st ty None e1 e2 ep a b" by (rule extract_sound [OF assms(1) ty r])
  then have "expr_value st e1 = join_values ty (option_value st ty ep) (expr_value st a)"
    "expr_value st e2 = join_values ty (option_value st ty ep) (expr_value st b)"
    by (auto simp: extracts_def option_value_def [of _ _ None] n join_values_ac)
  then show ?thesis using r eliminate_yn_value [OF assms(1)] by (auto simp: expr_extract_def)
qed

lemma extracted_parts_are_common_witness:
  "\<exists>ep a b. expr_extract E_AND 20 example_symbols (EAnd (ESym (Symbol 0)) (ESym (Symbol 1))) (EAnd (ESym (Symbol 1)) (ESym (Symbol 2))) = Ret (ep, a, b) \<and>
     expr_value example_symbols (EAnd (ESym (Symbol 0)) (ESym (Symbol 1))) =
       join_values E_AND (option_value example_symbols E_AND ep) (expr_value example_symbols a) \<and>
     expr_value example_symbols (EAnd (ESym (Symbol 1)) (ESym (Symbol 2))) =
       join_values E_AND (option_value example_symbols E_AND ep) (expr_value example_symbols b)"
  by (rule extracted_parts_are_common [OF example_symbols_ok]) simp_all

section \<open>What the rewriting does not keep\<close>

text \<open>Below a negation the test for n is rewritten as well, and changes the value.\<close>

lemma trans_bool_under_negation:
  "expr_value example_symbols (ENot (EUnequal (Symbol 0) symbol_no)) = tri_no"
  "expr_value example_symbols (expr_trans_bool example_symbols (ENot (EUnequal (Symbol 0) symbol_no))) = tri_mod"
  by (simp_all add: sym_get_string_value_def example_symbols_def)

text \<open>A conjunction compared with 'm' is returned as it is.\<close>

lemma compare_mod_is_lost:
  "trans_compare (EAnd a b) True symbol_mod = Some (EAnd a b)"
  "trans_compare (EOr a b) True symbol_mod = Some (EOr a b)"
  by simp_all

lemma compare_mod_is_wrong:
  "expr_value example_symbols (EAnd (ESym (Symbol 1)) (ESym (Symbol 2))) = tri_yes"
  "trans_compare (EAnd (ESym (Symbol 1)) (ESym (Symbol 2))) True symbol_mod = Some (EAnd (ESym (Symbol 1)) (ESym (Symbol 2)))"
  by (simp_all add: E_AND_min) (simp add: example_symbols_def)

text \<open>Nor is the negation of a symbol compared with 'm' rewritten to what it means: the comparison is
  negated, although !a is 'm' exactly if a is.\<close>

lemma compare_negation_with_mod:
  "trans_compare (ENot (ESym s)) True symbol_mod = Some (EUnequal s symbol_mod)"
  "E_NOT_val (curr_tri st s) = tri_mod \<longleftrightarrow> curr_tri st s = tri_mod"
  by (simp_all add: E_NOT_mod)

end
