(* ===== verification/Addrspace.thy ===== *)
theory Addrspace
  imports Hat Pool
begin

text \<open>
  kernel/mm/addressspace.co, kernel/mm/dma.co and the parts of kernel/mm/pool.co that concern a
  pool as a region: the regions of the kernel's virtual memory and the page fault handler.  A
  region is an object of one of the classes below; the message pageIn finds the method of the
  class.  The regions are kept in a list, in the order they were added, and in a search tree by
  start address.  Logging is left out, and a region object is a number.
\<close>

section \<open>Regions\<close>

datatype region_class = Region | DemandZeroNonPagedRegion | DeviceRegion | Pool_class | DmaPool

definition PROT_READ :: u32 where
  "PROT_READ = 1"

record region =
  r_class :: region_class
  r_start :: u32
  r_length :: u32
  r_name :: "u8 list option"
  r_protection :: u32
  standReserved :: bool
  physical_start :: u32
  r_pool :: pool

text \<open>The memory of an object is zero when it is created; the fields of a pool are set by its
  init, so what they hold before it does not matter.\<close>

definition new_region :: "region_class \<Rightarrow> pool \<Rightarrow> region" where
  "new_region c p0 = \<lparr>r_class = c, r_start = 0, r_length = 0, r_name = None, r_protection = 0,
     standReserved = False, physical_start = 0, r_pool = p0\<rparr>"

definition tag_of :: "region \<Rightarrow> u8 list" where
  "tag_of r = (case r_name r of Some n \<Rightarrow> n | None \<Rightarrow> [])"

text \<open>Region_init is the init method of Region.\<close>

definition Region_init :: "u32 \<Rightarrow> u32 \<Rightarrow> region \<Rightarrow> kernel \<Rightarrow> (region \<times> kernel) outcome" where
  "Region_init start len r k =
     (let r1 = r\<lparr>r_start := start, r_length := len, r_protection := PROT_READ,
                 r_name := (case r_name r of None \<Rightarrow> Some (bytes ''unnamed'') | Some n \<Rightarrow> Some n)\<rparr>
      in if standReserved r1 then Ret (r1, k)
         else obind (reserve start (hat_sizeToPages len) (ucast (r_protection r1)) (tag_of r1) k)
                (\<lambda>k1. Ret (r1, k1)))"

definition DeviceRegion_init :: "u32 \<Rightarrow> u32 \<Rightarrow> u32 \<Rightarrow> region \<Rightarrow> kernel \<Rightarrow> (region \<times> kernel) outcome" where
  "DeviceRegion_init start len pstart r k =
     obind (Region_init start len r k) (\<lambda>(r1, k1).
       (let r2 = r1\<lparr>physical_start := pstart\<rparr>
        in obind (hat_initialMapPages (r_start r2) (physical_start r2) (hat_sizeToPages len)
                    (ucast (r_protection r2)) (tag_of r2) k1) (\<lambda>(_, k2). Ret (r2, k2))))"

text \<open>The pageIn methods.\<close>

definition Region_pageIn :: "u32 \<Rightarrow> region \<Rightarrow> kernel \<Rightarrow> kernel outcome" where
  "Region_pageIn addr r k = Panic ''subclass responsibility: pageIn''"

definition DemandZeroNonPagedRegion_pageIn :: "u32 \<Rightarrow> region \<Rightarrow> kernel \<Rightarrow> kernel outcome" where
  "DemandZeroNonPagedRegion_pageIn addr r k =
     obind (hat_initialMapAnonPages addr 1 (ucast (r_protection r)) (tag_of r) k) (\<lambda>(res, k1).
       if res then Ret k1 else Panic ''failing to map anon page'')"

definition Pool_pageIn :: "u32 \<Rightarrow> region \<Rightarrow> kernel \<Rightarrow> kernel outcome" where
  "Pool_pageIn addr r k =
     obind (pool_pageIn addr (r_pool r)) (\<lambda>_. DemandZeroNonPagedRegion_pageIn addr r k)"

definition DmaPool_pageIn :: "u32 \<Rightarrow> region \<Rightarrow> kernel \<Rightarrow> kernel outcome" where
  "DmaPool_pageIn addr r k = Ret k"

text \<open>region@pageIn(addr)\<close>

definition region_pageIn :: "u32 \<Rightarrow> region \<Rightarrow> kernel \<Rightarrow> kernel outcome" where
  "region_pageIn addr r k =
     (case r_class r of
        DemandZeroNonPagedRegion \<Rightarrow> DemandZeroNonPagedRegion_pageIn addr r k
      | Pool_class \<Rightarrow> Pool_pageIn addr r k
      | DmaPool \<Rightarrow> DmaPool_pageIn addr r k
      | _ \<Rightarrow> Region_pageIn addr r k)"

text \<open>The init methods of the pools.  The first page of the pool is paged in while the tree of used
  slots is still empty.\<close>

definition Pool_init :: "u32 \<Rightarrow> u32 \<Rightarrow> region \<Rightarrow> kernel \<Rightarrow> (region \<times> kernel) outcome" where
  "Pool_init start len r k =
     obind (Region_init start len r k) (\<lambda>(r1, k1).
       (let r2 = r1\<lparr>r_protection := r_protection r1 OR ucast PROT_WRITE,
                    r_pool := (r_pool r1)\<lparr>usedRoot := (usedRoot (r_pool r1))\<lparr>avl_root := None\<rparr>\<rparr>\<rparr>
        in obind (region_pageIn start r2 k1) (\<lambda>k2.
             obind (pool_init start len (r_pool r2)) (\<lambda>p. Ret (r2\<lparr>r_pool := p\<rparr>, k2)))))"

definition DmaPool_init :: "u32 \<Rightarrow> u32 \<Rightarrow> u32 \<Rightarrow> region \<Rightarrow> kernel \<Rightarrow> (region \<times> kernel) outcome" where
  "DmaPool_init start len pstart r k =
     (let r1 = r\<lparr>physical_start := pstart, r_protection := PROT_READ OR ucast PROT_WRITE,
                 r_name := Some (bytes ''dma pool'')\<rparr>
      in obind (hat_initialMapPages start (physical_start r1) (len div PAGE_SIZE)
                  (ucast (r_protection r1)) (tag_of r1) k) (\<lambda>(_, k1).
           Pool_init start len (r1\<lparr>standReserved := True\<rparr>) k1))"

section \<open>The address space\<close>

datatype space_node = Regions | RegionLink nat

text \<open>The region objects are numbered from 0; their tree nodes and links lie in the objects.\<close>

record addrspace =
  as_root :: "nat avl_heap"
  as_regions :: "space_node lheap"
  region_at :: "nat \<Rightarrow> region"
  numRegions :: nat

definition Region_t_avlmatch :: "(nat \<Rightarrow> region) \<Rightarrow> u32 \<Rightarrow> nat \<Rightarrow> int" where
  "Region_t_avlmatch rs k b =
     (if r_start (rs b) \<le> k \<and> k < r_start (rs b) + r_length (rs b) then 0
      else if k < r_start (rs b) then -1 else 1)"

definition AddressSpace_init :: "addrspace \<Rightarrow> addrspace" where
  "AddressSpace_init s = s\<lparr>as_root := (as_root s)\<lparr>avl_root := None\<rparr>,
     as_regions := INIT_LIST_HEAD Regions (as_regions s)\<rparr>"

text \<open>The depth of the tree is at most the number of the regions.\<close>

definition regionForAddress :: "u32 \<Rightarrow> addrspace \<Rightarrow> nat option outcome" where
  "regionForAddress addr s = avl_find (numRegions s + 1) (Region_t_avlmatch (region_at s)) addr (as_root s)"

text \<open>Creating an object takes the next number; its tree node is zero.\<close>

definition create_region :: "region \<Rightarrow> addrspace \<Rightarrow> nat \<times> addrspace" where
  "create_region r s = (numRegions s, s\<lparr>region_at := (region_at s)(numRegions s := r),
     as_root := null_avl_node (numRegions s) (as_root s), numRegions := numRegions s + 1\<rparr>)"

definition AddressSpace_add :: "nat \<Rightarrow> addrspace \<Rightarrow> addrspace outcome" where
  "AddressSpace_add i s =
     (let start = r_start (region_at s i); len = r_length (region_at s i)
      in obind (regionForAddress start s) (\<lambda>other.
           if other \<noteq> None then Panic ''region collision at start''
           else obind (regionForAddress (start + len) s) (\<lambda>other.
             if other \<noteq> None then Panic ''region collision at end''
             else
               (let s1 = s\<lparr>as_regions := list_add_tail (RegionLink i) Regions (as_regions s)\<rparr>
                in obind (avl_add (numRegions s + 1) (avl_make_compare (\<lambda>j. r_start (region_at s1 j))) i Root (as_root s1))
                     (\<lambda>(h, _). Ret (s1\<lparr>as_root := h\<rparr>))))))"

text \<open>The regions as print meets them.\<close>

fun print_loop :: "nat \<Rightarrow> addrspace \<Rightarrow> space_node \<Rightarrow> nat list outcome" where
  "print_loop fuel s pos =
     (case pos of
        Regions \<Rightarrow> Ret []
      | RegionLink i \<Rightarrow>
          (case fuel of 0 \<Rightarrow> Timeout
           | Suc n \<Rightarrow> obind (print_loop n s (nxt (as_regions s) pos)) (\<lambda>is. Ret (i # is))))"

declare print_loop.simps [simp del]

definition AddressSpace_print :: "addrspace \<Rightarrow> nat list outcome" where
  "AddressSpace_print s = print_loop (numRegions s) s (nxt (as_regions s) Regions)"

definition AddressSpace_pageFault :: "u32 \<Rightarrow> u32 \<Rightarrow> addrspace \<Rightarrow> kernel \<Rightarrow> kernel outcome" where
  "AddressSpace_pageFault addr error s k =
     (if addr = 0 then Panic ''Attempt to dereference NULL pointer''
      else obind (regionForAddress addr s) (\<lambda>other.
        case other of
          None \<Rightarrow> Panic ''cannot find region: SIGSEGV''
        | Some i \<Rightarrow>
            if error AND 0x2 \<noteq> 0 \<and> r_protection (region_at s i) AND ucast PROT_WRITE = 0
            then Panic ''Attempt to write to a read only page: SIGSEGV''
            else if error AND 0x1 = 0 then region_pageIn (addr AND NOT 0xFFF) (region_at s i) k
            else Panic ''unknown error''))"

section \<open>Starting up\<close>

definition add_region :: "region \<Rightarrow> addrspace \<Rightarrow> addrspace outcome" where
  "add_region r s = (let (i, s1) = create_region r s in AddressSpace_add i s1)"

text \<open>mm_pool_init, mm_dma_init and mm_initFramebuffer: each adds a region behind the kernel.\<close>

definition add_nonPagedPool :: "pool \<Rightarrow> addrspace \<Rightarrow> kernel \<Rightarrow> (addrspace \<times> kernel) outcome" where
  "add_nonPagedPool p0 s k =
     obind (stand_getNextFreeVirtual (kernelBase (ctx k)) (NON_PAGED_POOL_SIZE div PAGE_SIZE) (ctx k)) (\<lambda>zone.
       obind (Pool_init zone NON_PAGED_POOL_SIZE (new_region Pool_class p0) k) (\<lambda>(r, k1).
         obind (add_region (r\<lparr>r_name := Some (bytes ''non paged pool''), r_protection := PROT_READ OR ucast PROT_WRITE\<rparr>) s)
           (\<lambda>s1. Ret (s1, k1))))"

definition DMA_POOL_SIZE :: u32 where
  "DMA_POOL_SIZE = 0x80000"

definition mm_dma_init :: "pool \<Rightarrow> addrspace \<Rightarrow> kernel \<Rightarrow> (addrspace \<times> kernel) outcome" where
  "mm_dma_init p0 s k =
     obind (stand_getNextFreeVirtual (kernelBase (ctx k)) (DMA_POOL_SIZE div PAGE_SIZE) (ctx k)) (\<lambda>zone.
       obind (DmaPool_init zone DMA_POOL_SIZE 0x10000 (new_region DmaPool p0) k) (\<lambda>(r, k1).
         obind (add_region (r\<lparr>r_name := Some (bytes ''dma pool'')\<rparr>) s) (\<lambda>s1. Ret (s1, k1))))"

definition mm_initFramebuffer :: "pool \<Rightarrow> addrspace \<Rightarrow> kernel \<Rightarrow> (u32 \<times> addrspace \<times> kernel) outcome" where
  "mm_initFramebuffer p0 s k =
     obind (stand_getNextFreeVirtual (kernelBase (ctx k)) (PAGE_SIZE * 4) (ctx k)) (\<lambda>base.
       obind (DeviceRegion_init base (PAGE_SIZE * 4) 0xB8000 (new_region DeviceRegion p0) k) (\<lambda>(r, k1).
         obind (add_region (r\<lparr>r_name := Some (bytes ''VGA'')\<rparr>) s) (\<lambda>s1. Ret (base, s1, k1))))"

end
