(* ===== verification/Addrspace_Props.thy ===== *)
theory Addrspace_Props
  imports Addrspace Hat_Props Pool_Props
begin

text \<open>
  The regions of an address space do not overlap and are found by the addresses they contain; a
  page fault on an address of a demand zero region ends with the page mapped to a frame of its
  own.
\<close>

section \<open>The regions of an address space\<close>

definition region_bytes :: "region \<Rightarrow> nat set" where
  "region_bytes r = {unat (r_start r)..<unat (r_start r) + unat (r_length r)}"

definition region_ok :: "region \<Rightarrow> bool" where
  "region_ok r \<longleftrightarrow> r_length r \<noteq> 0 \<and> unat (r_start r) + unat (r_length r) < 4294967296"

text \<open>L are the numbers of the regions in the order they were added.\<close>

definition space_ok :: "addrspace \<Rightarrow> nat list \<Rightarrow> bool" where
  "space_ok s L \<longleftrightarrow>
     dll (as_regions s) Regions (map RegionLink L) \<and>
     (\<exists>t. tree_at (as_root s) (avl_root (as_root s)) t \<and> balanced t \<and>
        sorted_keys (\<lambda>i. r_start (region_at s i)) t \<and> nodes t = set L) \<and>
     set L \<subseteq> {..<numRegions s} \<and>
     (\<forall>i \<in> set L. region_ok (region_at s i)) \<and>
     (\<forall>i \<in> set L. \<forall>j \<in> set L. i \<noteq> j \<longrightarrow> region_bytes (region_at s i) \<inter> region_bytes (region_at s j) = {})"

lemma space_okD:
  assumes "space_ok s L"
  shows "i \<in> set L \<Longrightarrow> region_ok (region_at s i)" "set L \<subseteq> {..<numRegions s}"
    "i \<in> set L \<Longrightarrow> j \<in> set L \<Longrightarrow> i \<noteq> j \<Longrightarrow> region_bytes (region_at s i) \<inter> region_bytes (region_at s j) = {}"
    "dll (as_regions s) Regions (map RegionLink L)"
  using assms by (simp_all add: space_ok_def)

lemma AddressSpace_init_ok: "space_ok (AddressSpace_init s) []"
  by (auto simp: space_ok_def AddressSpace_init_def dll_init sorted_keys_def intro!: exI [of _ Leaf])

lemma Region_t_avlmatch_pool:
  "Region_t_avlmatch rs = pool_slot_t_avlmatch (\<lambda>i. r_start (rs i)) (\<lambda>i. r_length (rs i))"
  by (intro ext) (simp add: Region_t_avlmatch_def pool_slot_t_avlmatch_def)

lemma region_found:
  assumes "space_ok s L"
  shows "\<exists>r. regionForAddress addr s = Ret r \<and>
    (case r of Some i \<Rightarrow> i \<in> set L \<and> unat addr \<in> region_bytes (region_at s i)
     | None \<Rightarrow> \<forall>i \<in> set L. unat addr \<notin> region_bytes (region_at s i))"
proof -
  obtain t where t: "tree_at (as_root s) (avl_root (as_root s)) t" "sorted_keys (\<lambda>i. r_start (region_at s i)) t" "nodes t = set L"
    using assms by (auto simp: space_ok_def)
  have "height t \<le> numRegions s" using tree_small [OF t(2), of "numRegions s"] assms t(3) by (simp add: space_ok_def)
  then have h: "height t \<le> numRegions s + 1" by simp
  have l: "r_length (region_at s i) \<noteq> 0 \<and> unat (r_start (region_at s i)) + unat (r_length (region_at s i)) < 4294967296"
    if "i \<in> set L" for i using assms that by (auto simp: space_ok_def region_ok_def)
  have d: "{unat (r_start (region_at s i))..<unat (r_start (region_at s i)) + unat (r_length (region_at s i))} \<inter>
      {unat (r_start (region_at s j))..<unat (r_start (region_at s j)) + unat (r_length (region_at s j))} = {}"
    if "i \<in> set L" "j \<in> set L" "i \<noteq> j" for i j
    using space_okD(3) [OF assms that] unfolding region_bytes_def .
  show ?thesis unfolding regionForAddress_def Region_t_avlmatch_pool region_bytes_def
    by (rule range_found [OF t(1,2) h, of "\<lambda>i. r_length (region_at s i)" addr, unfolded t(3), OF l d])
qed

lemma region_is:
  assumes "space_ok s L" "i \<in> set L" "unat addr \<in> region_bytes (region_at s i)"
  shows "regionForAddress addr s = Ret (Some i)"
proof -
  obtain r where r: "regionForAddress addr s = Ret r"
    "case r of Some i \<Rightarrow> i \<in> set L \<and> unat addr \<in> region_bytes (region_at s i)
     | None \<Rightarrow> \<forall>i \<in> set L. unat addr \<notin> region_bytes (region_at s i)" using region_found [OF assms(1)] by blast
  have "j = i" if "j \<in> set L" "unat addr \<in> region_bytes (region_at s j)" for j
    using space_okD(3) [OF assms(1) that(1) assms(2)] that(2) assms(3) by (metis disjoint_iff)
  note same = this
  show ?thesis
  proof (cases r)
    case None
    then show ?thesis using r(2) assms(2,3) by auto
  next
    case (Some j)
    then have "j \<in> set L" "unat addr \<in> region_bytes (region_at s j)" using r(2) by simp_all
    then show ?thesis using r(1) Some same by blast
  qed
qed

section \<open>Adding a region\<close>

lemma tree_at_null_same: "x \<notin> nodes t \<Longrightarrow> tree_at h (avl_root h) t \<Longrightarrow> tree_at (null_avl_node x h) (avl_root (null_avl_node x h)) t"
proof -
  assume a: "x \<notin> nodes t" "tree_at h (avl_root h) t"
  have "avl_root (null_avl_node x h) = avl_root h" by (simp add: null_avl_node_def set_skew_def)
  then show ?thesis using tree_at_null [OF a(2,1)] by simp
qed

lemma create_ok:
  assumes "space_ok s L" "create_region r s = (i, s1)"
  shows "space_ok s1 L" "i = numRegions s" "region_at s1 = (region_at s)(i := r)" "numRegions s1 = Suc i"
    "i \<notin> set L" "as_regions s1 = as_regions s" "fresh (as_root s1) i"
proof -
  have s1: "i = numRegions s" "region_at s1 = (region_at s)(i := r)" "numRegions s1 = Suc i"
    "as_regions s1 = as_regions s" "as_root s1 = null_avl_node i (as_root s)"
    using assms(2) by (auto simp: create_region_def)
  have i: "i \<notin> set L" using assms(1) s1(1) by (auto simp: space_ok_def)
  have same: "region_at s1 j = region_at s j" if "j \<in> set L" for j using i that s1(2) by auto
  obtain t where t: "tree_at (as_root s) (avl_root (as_root s)) t" "balanced t" "sorted_keys (\<lambda>i. r_start (region_at s i)) t" "nodes t = set L"
    using assms(1) by (auto simp: space_ok_def)
  have "tree_at (as_root s1) (avl_root (as_root s1)) t" using tree_at_null_same [of i t] t(1,4) i s1(5) by simp
  moreover have "sorted_keys (\<lambda>i. r_start (region_at s1 i)) t"
    using sorted_keys_eq [of t "\<lambda>i. r_start (region_at s1 i)" "\<lambda>i. r_start (region_at s i)"] t(3,4) same by simp
  moreover have "set L \<subseteq> {..<numRegions s1}" using assms(1) s1(1,3) by (auto simp: space_ok_def)
  ultimately show "space_ok s1 L" using assms(1) t(2,4) same s1(4) unfolding space_ok_def by (intro conjI) auto
  show "fresh (as_root s1) i" by (simp add: s1(5) fresh_def null_avl_node_def set_skew_def)
qed (use assms in \<open>auto simp: create_region_def space_ok_def\<close>)

text \<open>What add does when neither end of the new region lies in another.\<close>

lemma add_unchecked:
  assumes ok: "space_ok s L" and i: "i \<notin> set L" "i < numRegions s" "fresh (as_root s) i"
    and e: "\<forall>j \<in> set L. unat (r_start (region_at s i)) \<notin> region_bytes (region_at s j) \<and>
      unat (r_start (region_at s i) + r_length (region_at s i)) \<notin> region_bytes (region_at s j)"
  shows "\<exists>s' t. AddressSpace_add i s = Ret s' \<and> dll (as_regions s') Regions (map RegionLink (L @ [i])) \<and>
    tree_at (as_root s') (avl_root (as_root s')) t \<and> balanced t \<and> sorted_keys (\<lambda>j. r_start (region_at s' j)) t \<and>
    nodes t = set (L @ [i]) \<and> region_at s' = region_at s \<and> numRegions s' = numRegions s"
proof -
  have none: "regionForAddress addr s = Ret None" if "\<forall>j \<in> set L. unat addr \<notin> region_bytes (region_at s j)" for addr
  proof -
    obtain r where "regionForAddress addr s = Ret r"
      "case r of Some i \<Rightarrow> i \<in> set L \<and> unat addr \<in> region_bytes (region_at s i)
       | None \<Rightarrow> \<forall>i \<in> set L. unat addr \<notin> region_bytes (region_at s i)" using region_found [OF ok] by blast
    then show ?thesis using that by (cases r) auto
  qed
  obtain t where t: "tree_at (as_root s) (avl_root (as_root s)) t" "balanced t" "sorted_keys (\<lambda>i. r_start (region_at s i)) t" "nodes t = set L"
    using ok by (auto simp: space_ok_def)
  have h: "height t < numRegions s + 1"
    using tree_small [OF t(3), of "numRegions s"] ok t(4) by (simp add: space_ok_def)
  have ne: "r_start (region_at s j) \<noteq> r_start (region_at s i)" if "j \<in> nodes t" for j
  proof -
    have "unat (r_start (region_at s j)) \<in> region_bytes (region_at s j)"
      using ok that t(4) by (auto simp: space_ok_def region_ok_def region_bytes_def unat_gt_0)
    then show ?thesis using e that t(4) by auto
  qed
  from avl_add_ok [OF t(1-3) _ i(3) h] i(1) t(4) ne obtain h' t' res where a:
    "avl_add (numRegions s + 1) (avl_make_compare (\<lambda>i. r_start (region_at s i))) i Root (as_root s) = Ret (h', res)"
    "tree_at h' (avl_root h') t'" "balanced t'" "sorted_keys (\<lambda>i. r_start (region_at s i)) t'" "nodes t' = insert i (set L)"
    by metis
  have "dll (list_add_tail (RegionLink i) Regions (as_regions s)) Regions (map RegionLink L @ [RegionLink i])"
    using ok i(1) by (intro dll_add_tail) (auto simp: space_ok_def)
  then show ?thesis using a none e
    by (intro exI [of _ "s\<lparr>as_regions := list_add_tail (RegionLink i) Regions (as_regions s), as_root := h'\<rparr>"] exI [of _ t'])
      (simp add: AddressSpace_add_def Let_def)
qed

text \<open>Two ranges that meet, where neither end of the second lies in the first and the first is not
  inside the second.\<close>

lemma ranges_apart:
  fixes a b c d :: nat
  assumes "c \<notin> {a..<b}" "d \<notin> {a..<b}" "\<not> {a..<b} \<subseteq> {c..<d}"
  shows "{a..<b} \<inter> {c..<d} = {}"
proof (rule ccontr)
  assume "{a..<b} \<inter> {c..<d} \<noteq> {}"
  then obtain x where "x \<in> {a..<b}" "x \<in> {c..<d}" by blast
  then have "a \<le> x" "x < b" "c \<le> x" "x < d" by auto
  then have "c < a" "b \<le> d" using assms(1,2) by auto
  then show False using assms(3) by auto
qed

lemma region_end:
  "region_ok r \<Longrightarrow> unat (r_start r + r_length r) = unat (r_start r) + unat (r_length r)"
  by (simp add: region_ok_def unat_add_no_wrap_u32)

lemma add_region_ok:
  assumes ok: "space_ok s L" and r: "region_ok r"
    and e: "\<forall>i \<in> set L. unat (r_start r) \<notin> region_bytes (region_at s i) \<and>
      unat (r_start r + r_length r) \<notin> region_bytes (region_at s i)"
  shows "\<exists>s'. add_region r s = Ret s' \<and> dll (as_regions s') Regions (map RegionLink (L @ [numRegions s])) \<and>
    region_at s' = (region_at s)(numRegions s := r) \<and>
    ((\<forall>i \<in> set L. \<not> region_bytes (region_at s i) \<subseteq> region_bytes r) \<longrightarrow> space_ok s' (L @ [numRegions s]))"
proof -
  obtain i s1 where c: "create_region r s = (i, s1)" by (cases "create_region r s")
  note k = create_ok [OF ok c]
  have i: "i = numRegions s" and ri: "region_at s1 i = r" using k(2,3) by simp_all
  have same: "region_at s1 j = region_at s j" if "j \<in> set L" for j using k(3,5) that by auto
  have e1: "\<forall>j \<in> set L. unat (r_start (region_at s1 i)) \<notin> region_bytes (region_at s1 j) \<and>
      unat (r_start (region_at s1 i) + r_length (region_at s1 i)) \<notin> region_bytes (region_at s1 j)"
    using e same ri by simp
  have n: "i < numRegions s1" using k(4) by simp
  from add_unchecked [OF k(1,5) n k(7) e1] obtain s' t where a: "AddressSpace_add i s1 = Ret s'"
    "dll (as_regions s') Regions (map RegionLink (L @ [i]))" "tree_at (as_root s') (avl_root (as_root s')) t" "balanced t"
    "sorted_keys (\<lambda>j. r_start (region_at s' j)) t" "nodes t = set (L @ [i])" "region_at s' = region_at s1" "numRegions s' = numRegions s1"
    by blast
  have "space_ok s' (L @ [i])" if "\<forall>j \<in> set L. \<not> region_bytes (region_at s j) \<subseteq> region_bytes r"
  proof -
    have d: "region_bytes (region_at s j) \<inter> region_bytes r = {}" if "j \<in> set L" for j
      using ranges_apart [of "unat (r_start r)" _ _ "unat (r_start r) + unat (r_length r)"] that e
        \<open>\<forall>j \<in> set L. \<not> region_bytes (region_at s j) \<subseteq> region_bytes r\<close>
      unfolding region_end [OF r] region_bytes_def by blast
    have "region_bytes (region_at s' x) \<inter> region_bytes (region_at s' y) = {}"
      if xy: "x \<in> set (L @ [i])" "y \<in> set (L @ [i])" "x \<noteq> y" for x y
    proof -
      have ri': "region_at s' i = r" using ri a(7) by simp
      have same': "j \<in> set L \<Longrightarrow> region_at s' j = region_at s j" for j using same a(7) by simp
      consider "x = i" "y \<in> set L" | "y = i" "x \<in> set L" | "x \<in> set L" "y \<in> set L" using xy by auto
      then show ?thesis
      proof cases
        case 1
        then show ?thesis using d [of y] ri' same' by (simp add: Int_commute)
      next
        case 2
        then show ?thesis using d [of x] ri' same' by simp
      next
        case 3
        then show ?thesis using xy(3) space_okD(3) [OF ok 3] same' by simp
      qed
    qed
    moreover have "region_ok (region_at s' x)" if "x \<in> set (L @ [i])" for x
      using that space_okD(1) [OF k(1)] ri r a(7) by auto
    moreover have "set (L @ [i]) \<subseteq> {..<numRegions s'}" using space_okD(2) [OF k(1)] k(4) a(8) by auto
    ultimately show ?thesis using a unfolding space_ok_def by blast
  qed
  then show ?thesis using a c i k(3) by (auto simp: add_region_def)
qed

text \<open>The check at the ends.\<close>

lemma add_region_collides:
  assumes ok: "space_ok s L" and e: "\<exists>i \<in> set L. unat (r_start r) \<in> region_bytes (region_at s i) \<or>
      unat (r_start r + r_length r) \<in> region_bytes (region_at s i)"
  shows "\<exists>msg. add_region r s = Panic msg"
proof -
  obtain i s1 where c: "create_region r s = (i, s1)" by (cases "create_region r s")
  note k = create_ok [OF ok c]
  have ri: "region_at s1 i = r" using k(3) by simp
  have same: "region_at s1 j = region_at s j" if "j \<in> set L" for j using k(3,5) that by auto
  obtain j where j: "j \<in> set L" "unat (r_start r) \<in> region_bytes (region_at s1 j) \<or>
      unat (r_start r + r_length r) \<in> region_bytes (region_at s1 j)" using e same by auto
  obtain x where x: "regionForAddress (r_start r) s1 = Ret x" using region_found [OF k(1)] by blast
  obtain y where y: "regionForAddress (r_start r + r_length r) s1 = Ret y" using region_found [OF k(1)] by blast
  have "x \<noteq> None \<or> y \<noteq> None" using j region_is [OF k(1) j(1)] x y by auto
  then show ?thesis using c x y ri by (cases x) (auto simp: add_region_def AddressSpace_add_def Let_def)
qed

section \<open>Page faults\<close>

lemma page_fault_cases:
  assumes ok: "space_ok s L"
  shows "addr = 0 \<Longrightarrow> AddressSpace_pageFault addr error s k = Panic ''Attempt to dereference NULL pointer''"
    "addr \<noteq> 0 \<Longrightarrow> \<forall>i \<in> set L. unat addr \<notin> region_bytes (region_at s i) \<Longrightarrow>
      AddressSpace_pageFault addr error s k = Panic ''cannot find region: SIGSEGV''"
    "addr \<noteq> 0 \<Longrightarrow> i \<in> set L \<Longrightarrow> unat addr \<in> region_bytes (region_at s i) \<Longrightarrow>
      AddressSpace_pageFault addr error s k =
        (if error AND 2 \<noteq> 0 \<and> r_protection (region_at s i) AND 2 = 0
         then Panic ''Attempt to write to a read only page: SIGSEGV''
         else if error AND 1 = 0 then region_pageIn (addr AND NOT 0xFFF) (region_at s i) k
         else Panic ''unknown error'')"
proof -
  show "addr = 0 \<Longrightarrow> AddressSpace_pageFault addr error s k = Panic ''Attempt to dereference NULL pointer''"
    by (simp add: AddressSpace_pageFault_def)
  show "addr \<noteq> 0 \<Longrightarrow> \<forall>i \<in> set L. unat addr \<notin> region_bytes (region_at s i) \<Longrightarrow>
      AddressSpace_pageFault addr error s k = Panic ''cannot find region: SIGSEGV''"
  proof -
    assume a: "addr \<noteq> 0" "\<forall>i \<in> set L. unat addr \<notin> region_bytes (region_at s i)"
    obtain x where x: "regionForAddress addr s = Ret x"
      "case x of Some i \<Rightarrow> i \<in> set L \<and> unat addr \<in> region_bytes (region_at s i)
       | None \<Rightarrow> \<forall>i \<in> set L. unat addr \<notin> region_bytes (region_at s i)" using region_found [OF ok] by blast
    then have "x = None" using a(2) by (cases x) auto
    then show ?thesis using a(1) x(1) by (simp add: AddressSpace_pageFault_def)
  qed
  show "addr \<noteq> 0 \<Longrightarrow> i \<in> set L \<Longrightarrow> unat addr \<in> region_bytes (region_at s i) \<Longrightarrow>
      AddressSpace_pageFault addr error s k =
        (if error AND 2 \<noteq> 0 \<and> r_protection (region_at s i) AND 2 = 0
         then Panic ''Attempt to write to a read only page: SIGSEGV''
         else if error AND 1 = 0 then region_pageIn (addr AND NOT 0xFFF) (region_at s i) k
         else Panic ''unknown error'')"
    using region_is [OF ok, of i addr] by (simp add: AddressSpace_pageFault_def PROT_WRITE_def)
qed

section \<open>Mapping the page of a fault\<close>

definition anon_entry :: "u32 \<Rightarrow> u16 \<Rightarrow> u32 \<Rightarrow> u32" where
  "anon_entry page pflags old = hat_setPteFlags (pflags OR PTE_PRESENT) (hat_setPteBase page old)"

lemma bit_0_and_1: "(x :: u32) AND 1 \<noteq> 0 \<longleftrightarrow> bit x 0"
  by (simp add: and_one_eq mod_2_eq_odd bit_0)

lemma page_flags_cases: "page_flags f OR PTE_PRESENT \<in> {1, 3, 5, 7}" "f AND PROT_WRITE \<noteq> 0 \<Longrightarrow> page_flags f OR PTE_PRESENT \<in> {3, 7}"
  by (auto simp: page_flags_def PTE_PRESENT_def PTE_RW_def PTE_USER_def)

lemma anon_entry_base: "anon_entry page (page_flags f) old AND NOT 0xFFF = (old OR page) AND NOT 0xFFF"
proof -
  let ?p = "page_flags f OR PTE_PRESENT"
  have "?p = ?p AND mask 3" using page_flags_cases(1) [of f] by (auto simp: mask_eq_exp_minus_1)
  then have "\<not> bit ?p n" if "3 \<le> n" for n using that by (metis bit_and_iff bit_mask_iff not_le)
  then show ?thesis unfolding anon_entry_def hat_setPteFlags_def hat_setPteBase_def masks Let_def
    by (intro bit_eqI) (auto simp: bit_simps)
qed

lemma anon_entry_allows: "w \<longrightarrow> f AND PROT_WRITE \<noteq> 0 \<Longrightarrow> allows w (anon_entry page (page_flags f) old)"
proof -
  assume w: "w \<longrightarrow> f AND PROT_WRITE \<noteq> 0"
  let ?p = "page_flags f OR PTE_PRESENT"
  have "bit ?p 0"
  proof -
    have "\<forall>p \<in> {1, 3, 5, 7 :: u16}. bit p 0" by simp
    then show ?thesis using page_flags_cases(1) by blast
  qed
  then have "bit (anon_entry page (page_flags f) old) 0"
    unfolding anon_entry_def hat_setPteFlags_def Let_def by (simp add: bit_simps)
  moreover have "bit (anon_entry page (page_flags f) old) 1" if w
  proof -
    have "\<forall>p \<in> {3, 7 :: u16}. bit p 1" by simp
    then have "bit ?p 1" using page_flags_cases(2) w that by blast
    then show ?thesis unfolding anon_entry_def hat_setPteFlags_def Let_def by (simp add: bit_simps)
  qed
  ultimately show ?thesis using bit_1_and_2 bit_0_and_1 by (auto simp: allows_def)
qed

lemma anon_one:
  assumes r: "map_ready (mach k) {a}" and p: "hat_initial_get_next_physical_page k = Ret (page, k1)"
    "page \<noteq> -1" "mach k1 = mach k"
  shows "anon_loop 1 a pflags k =
    Ret (True, k1\<lparr>mach := phys_update (pte_addr (mach k) a) (anon_entry page pflags) (mach k)\<rparr>)"
proof -
  let ?m = "mach k" and ?m1 = "phys_update (pte_addr (mach k) a) (hat_setPteBase page) (mach k)"
  have a: "recursive ?m" "allows True (pde ?m (hat_pageDirIndex a))" "hat_getPteBase (pde ?m (hat_pageDirIndex a)) \<noteq> 0"
    using r by (simp_all add: map_ready_def hat_getPteBase_def)
  have b: "recursive ?m1" "allows True (pde ?m1 (hat_pageDirIndex a))" "pte_addr ?m1 a = pte_addr ?m a"
    using map_ready_update [OF r, of a "hat_setPteBase page"] by (simp_all add: map_ready_def)
  have "phys_update (pte_addr ?m a) (hat_setPteFlags (pflags OR PTE_PRESENT)) ?m1 =
      phys_update (pte_addr ?m a) (anon_entry page pflags) ?m"
    by (simp add: phys_update_def anon_entry_def)
  then show ?thesis using a b p dir_less
    by (simp add: on_mach_def read_directory update_table Let_def)
qed

lemma get_page_from_pfd:
  assumes "source k = FromPfd" "frames_of (pfd k) F" "F free = f # rest"
  shows "\<exists>d. hat_initial_get_next_physical_page k = Ret (of_nat f * PAGE_SIZE, k\<lparr>pfd := d\<rparr>) \<and> frames_of d (move_frame f free used F)"
  using alloc_first [OF assms(2,3)] assms(1) by (auto simp: hat_initial_get_next_physical_page_def)

lemma page_not_minus_one: "of_nat f * PAGE_SIZE \<noteq> (-1 :: u32)"
proof
  assume "of_nat f * PAGE_SIZE = (-1 :: u32)"
  moreover have "\<not> bit (of_nat f * PAGE_SIZE :: u32) 0"
  proof -
    have "(of_nat f * PAGE_SIZE :: u32) = push_bit 12 (of_nat f)" by (simp add: PAGE_SIZE_def push_bit_eq_mult)
    then show ?thesis by (simp add: bit_push_bit_iff)
  qed
  ultimately show False by simp
qed

text \<open>The page of an address that is reserved already.\<close>

lemma anon_page_mapped:
  assumes g: "stand_getNextFreeVirtual a 1 (ctx k) = Ret z" "z \<noteq> a"
    and r: "map_ready (mach k) {a}" and s: "source k = FromPfd" "frames_of (pfd k) F" "F free = f # rest"
  shows "\<exists>d. hat_initialMapAnonPages a 1 flags tag k =
      Ret (True, k\<lparr>pfd := d, mach := phys_update (pte_addr (mach k) a) (anon_entry (of_nat f * PAGE_SIZE) (page_flags flags)) (mach k)\<rparr>) \<and>
    frames_of d (move_frame f free used F)"
proof -
  obtain d where d: "hat_initial_get_next_physical_page k = Ret (of_nat f * PAGE_SIZE, k\<lparr>pfd := d\<rparr>)"
    "frames_of d (move_frame f free used F)" using get_page_from_pfd [OF s] by blast
  have "anon_loop 1 a (page_flags flags) k =
      Ret (True, k\<lparr>pfd := d, mach := phys_update (pte_addr (mach k) a) (anon_entry (of_nat f * PAGE_SIZE) (page_flags flags)) (mach k)\<rparr>)"
    using anon_one [OF r d(1) page_not_minus_one] by (simp del: anon_loop.simps)
  then show ?thesis using g d(2) by (intro exI [of _ d]) (simp add: hat_initialMapAnonPages_def del: anon_loop.simps)
qed

text \<open>What the processor sees of an entry that was empty.\<close>

lemma mapped_entry:
  assumes r: "map_ready m {a}" and z: "phys m (pte_addr m a) AND NOT 0xFFF = 0"
    and a: "unat a mod 4096 = 0" "unat x < 4096" and w: "w \<longrightarrow> f AND PROT_WRITE \<noteq> 0"
  shows "mmu w (a + x) (phys_update (pte_addr m a) (anon_entry page (page_flags f)) m) = Some ((page AND NOT 0xFFF) + x)"
proof -
  let ?m = "phys_update (pte_addr m a) (anon_entry page (page_flags f)) m"
  note al = aligned_add [OF a]
  have e: "phys ?m (pte_addr ?m a) = anon_entry page (page_flags f) (phys m (pte_addr m a))"
    using map_ready_update(2) [OF r, of a "anon_entry page (page_flags f)" a] by (simp add: phys_update_def)
  have b: "phys ?m (pte_addr ?m a) AND NOT 0xFFF = page AND NOT 0xFFF"
    unfolding e anon_entry_base using z by (simp add: bit.conj_disj_distrib2)
  have "map_ready ?m {a}" using map_ready_update(1) [OF r] by simp
  then have "allows w (pde ?m (hat_pageDirIndex a))" by (simp add: map_ready_def allows_read)
  moreover have "allows w (phys ?m (pte_addr ?m a))" unfolding e by (rule anon_entry_allows [OF w])
  ultimately show ?thesis using b al by (simp add: mmu_entry Let_def pte_addr_def)
qed

lemma and_2_bit: "(x :: u32) AND 2 \<noteq> 0 \<Longrightarrow> bit x 1"
proof -
  assume a: "x AND 2 \<noteq> 0"
  have "(2 :: u32) = push_bit 1 1" by (simp add: push_bit_eq_mult)
  then have "x AND 2 = 0" if "\<not> bit x 1"
    using that by (intro bit_eqI) (auto simp: bit_simps)
  then show ?thesis using a by blast
qed

lemma split_page: "a = (a AND NOT 0xFFF) + (a AND 0xFFF :: u32)"
proof -
  have "(a AND NOT 0xFFF) + (a AND 0xFFF) = (a AND NOT 0xFFF) OR (a AND 0xFFF)"
    by (rule disjunctive_add) (auto simp: bit_simps)
  also have "\<dots> = a" by (rule bit_eqI) (auto simp: bit_simps)
  finally show ?thesis by simp
qed

lemma aligned_frame: "(of_nat f * PAGE_SIZE :: u32) AND NOT 0xFFF = of_nat f * PAGE_SIZE"
proof -
  have "(of_nat f * PAGE_SIZE :: u32) = push_bit 12 (of_nat f)" by (simp add: PAGE_SIZE_def push_bit_eq_mult)
  then show ?thesis unfolding masks by (auto simp: bit_simps intro!: bit_eqI)
qed

section \<open>Properties\<close>

lemma enclosed_overlaps:
  assumes "space_ok s' (L @ [n])" "i \<in> set L" "region_bytes (region_at s' i) \<subseteq> region_bytes (region_at s' n)" "n \<notin> set L"
  shows False
proof -
  have "region_bytes (region_at s' i) \<inter> region_bytes (region_at s' n) = {}"
    using space_okD(3) [OF assms(1), of i n] assms(2,4) by auto
  moreover have "unat (r_start (region_at s' i)) \<in> region_bytes (region_at s' i)"
    using space_okD(1) [OF assms(1), of i] assms(2) by (simp add: region_ok_def region_bytes_def unat_gt_0)
  ultimately show False using assms(3) by blast
qed

text \<open>C7: adding a region, of at least one byte and below the end of the address space, to an address
  space whose regions do not overlap.  If the first byte of the new region, or the first byte
  behind it, lies in a region, the kernel panics.  Otherwise the region is entered at the end of the list
  and into the search tree, and the regions still do not overlap exactly if none of
  the old ones lies inside the new one, which is not checked.\<close>
theorem add_region_keeps_space:
  assumes "space_ok s L" "region_ok r"
  shows "if \<exists>i \<in> set L. unat (r_start r) \<in> region_bytes (region_at s i) \<or>
      unat (r_start r + r_length r) \<in> region_bytes (region_at s i)
    then \<exists>msg. add_region r s = Panic msg
    else \<exists>s'. add_region r s = Ret s' \<and> dll (as_regions s') Regions (map RegionLink (L @ [numRegions s])) \<and>
      region_at s' = (region_at s)(numRegions s := r) \<and>
      (space_ok s' (L @ [numRegions s]) \<longleftrightarrow> (\<forall>i \<in> set L. \<not> region_bytes (region_at s i) \<subseteq> region_bytes r))"
proof (cases "\<exists>i \<in> set L. unat (r_start r) \<in> region_bytes (region_at s i) \<or>
    unat (r_start r + r_length r) \<in> region_bytes (region_at s i)")
  case True
  then show ?thesis using add_region_collides [OF assms(1) True] by simp
next
  case False
  then obtain s' where s': "add_region r s = Ret s'" "dll (as_regions s') Regions (map RegionLink (L @ [numRegions s]))"
    "region_at s' = (region_at s)(numRegions s := r)"
    "(\<forall>i \<in> set L. \<not> region_bytes (region_at s i) \<subseteq> region_bytes r) \<longrightarrow> space_ok s' (L @ [numRegions s])"
    using add_region_ok [OF assms] by blast
  have n: "numRegions s \<notin> set L" using space_okD(2) [OF assms(1)] by auto
  then have "i \<in> set L \<Longrightarrow> region_at s' i = region_at s i" "region_at s' (numRegions s) = r" for i
    using s'(3) by auto
  then have "\<forall>i \<in> set L. \<not> region_bytes (region_at s i) \<subseteq> region_bytes r" if "space_ok s' (L @ [numRegions s])"
    using enclosed_overlaps [OF that _ _ n] by auto
  then show ?thesis using False s' by (simp only: if_False) blast
qed

definition blank_pool :: pool where
  "blank_pool = \<lparr>region_start = 0, region_length = 0,
     usedRoot = \<lparr>avl_root = None, avl_left = \<lambda>_. None, avl_right = \<lambda>_. None, avl_skew = \<lambda>_. AVL_NONE\<rparr>,
     slot_start = \<lambda>_. 0, slot_length = \<lambda>_. 0, slot_type = \<lambda>_. 0, pool_links = \<lparr>nxt = \<lambda>p. p, prv = \<lambda>p. p\<rparr>,
     numUnallocatedSlots = 0\<rparr>"

definition blank_space :: addrspace where
  "blank_space = AddressSpace_init \<lparr>as_root = \<lparr>avl_root = None, avl_left = \<lambda>_. None, avl_right = \<lambda>_. None, avl_skew = \<lambda>_. AVL_NONE\<rparr>,
     as_regions = \<lparr>nxt = \<lambda>p. p, prv = \<lambda>p. p\<rparr>,
     region_at = \<lambda>_. new_region Region blank_pool, numRegions = 0\<rparr>"

definition heap_region :: region where
  "heap_region = (new_region DemandZeroNonPagedRegion blank_pool)\<lparr>r_start := 0xC0000000, r_length := 0x1000,
     r_protection := PROT_READ OR ucast PROT_WRITE, r_name := Some []\<rparr>"

lemma blank_space_ok: "space_ok blank_space []" "numRegions blank_space = 0"
  unfolding blank_space_def by (rule AddressSpace_init_ok) (simp add: AddressSpace_init_def)

lemma heap_region_ok: "region_ok heap_region" "region_bytes heap_region = {0xC0000000..<0xC0001000}"
  by (simp_all add: region_ok_def heap_region_def region_bytes_def)

lemma heap_space:
  "\<exists>s. add_region heap_region blank_space = Ret s \<and> space_ok s [0] \<and> region_at s 0 = heap_region"
proof -
  have "\<exists>s'. add_region heap_region blank_space = Ret s' \<and> space_ok s' ([] @ [numRegions blank_space]) \<and>
      region_at s' = (region_at blank_space)(numRegions blank_space := heap_region)"
    using add_region_ok [OF blank_space_ok(1) heap_region_ok(1)] by auto
  then show ?thesis using blank_space_ok(2) by auto
qed

text \<open>A kernel with one reserved page at 0xC0000000 and the frames 1 and 2 free.\<close>

definition fault_kernel :: kernel where
  "fault_kernel = \<lparr>mach = small_machine,
     ctx = empty_boot_context\<lparr>vcount := 1,
       vsegments := (vsegments empty_boot_context)(0 := \<lparr>vs_base = 0xC0000000, vs_length = 1, vs_flags = 0, vs_tag = []\<rparr>),
       ordered := list_add_tail (VSeg 0) Ordered (ordered empty_boot_context)\<rparr>,
     last_page = 0, source = FromPfd, pfd = four_frames\<rparr>"

theorem add_region_keeps_space_witness:
  "\<exists>s. add_region heap_region blank_space = Ret s \<and> space_ok s [0] \<and> region_at s 0 = heap_region"
proof -
  have "\<exists>s'. add_region heap_region blank_space = Ret s' \<and>
      region_at s' = (region_at blank_space)(numRegions blank_space := heap_region) \<and> space_ok s' [numRegions blank_space]"
    using add_region_keeps_space [OF blank_space_ok(1) heap_region_ok(1)] by auto
  then show ?thesis using blank_space_ok(2) by auto
qed

text \<open>C23: the page fault handler on an address space whose regions do not overlap: a null pointer, an
  address in no region, a write to a region that may not be written and a fault on a page that is
  present each panic, in this order; any other fault is given to the pageIn method of the region
  that contains the address, with the start of its page.\<close>
theorem page_fault_decides:
  assumes "space_ok s L"
  shows "(addr = 0 \<longrightarrow> AddressSpace_pageFault addr error s k = Panic ''Attempt to dereference NULL pointer'') \<and>
    (addr \<noteq> 0 \<and> (\<forall>i \<in> set L. unat addr \<notin> region_bytes (region_at s i)) \<longrightarrow>
      AddressSpace_pageFault addr error s k = Panic ''cannot find region: SIGSEGV'') \<and>
    (\<forall>i \<in> set L. addr \<noteq> 0 \<and> unat addr \<in> region_bytes (region_at s i) \<longrightarrow>
      AddressSpace_pageFault addr error s k =
        (if error AND 2 \<noteq> 0 \<and> r_protection (region_at s i) AND 2 = 0
         then Panic ''Attempt to write to a read only page: SIGSEGV''
         else if error AND 1 = 0 then region_pageIn (addr AND NOT 0xFFF) (region_at s i) k
         else Panic ''unknown error''))"
  using page_fault_cases [OF assms] by simp

theorem page_fault_decides_witness:
  "\<exists>s. add_region heap_region blank_space = Ret s \<and>
     AddressSpace_pageFault 0xC0000123 2 s fault_kernel = DemandZeroNonPagedRegion_pageIn 0xC0000000 heap_region fault_kernel \<and>
     AddressSpace_pageFault 0xC0000123 1 s fault_kernel = Panic ''unknown error'' \<and>
     AddressSpace_pageFault 0xC0001000 0 s fault_kernel = Panic ''cannot find region: SIGSEGV''"
proof -
  obtain s where s: "add_region heap_region blank_space = Ret s" "space_ok s [0]" "region_at s 0 = heap_region"
    using heap_space by blast
  have "r_protection heap_region AND 2 \<noteq> 0" "r_class heap_region = DemandZeroNonPagedRegion"
    by (simp_all add: heap_region_def new_region_def PROT_READ_def PROT_WRITE_def)
  then show ?thesis
    using s page_fault_decides [OF s(2), of "0xC0000123" 2 fault_kernel] page_fault_decides [OF s(2), of "0xC0000123" 1 fault_kernel]
      page_fault_decides [OF s(2), of "0xC0001000" 0 fault_kernel]
    by (intro exI [of _ s]) (simp add: heap_region_ok(2) region_pageIn_def)
qed

text \<open>C3: a page fault on an address of a demand zero region whose page is reserved, where the page
  table is in place with an empty entry and a frame is free: the handler returns, the access that
  faulted now reaches the frame at its offset, the frame is no longer free, and no word of physical
  memory but the entry has changed.\<close>
theorem page_fault_maps_a_frame:
  assumes "space_ok s L" "i \<in> set L" "unat addr \<in> region_bytes (region_at s i)" "addr \<noteq> 0"
    and "r_class (region_at s i) = DemandZeroNonPagedRegion"
    and "error AND 1 = 0" "error AND 2 \<noteq> 0 \<longrightarrow> r_protection (region_at s i) AND 2 \<noteq> 0"
    and "stand_getNextFreeVirtual (addr AND NOT 0xFFF) 1 (ctx k) = Ret z" "z \<noteq> addr AND NOT 0xFFF"
    and "map_ready (mach k) {addr AND NOT 0xFFF}" "phys (mach k) (pte_addr (mach k) (addr AND NOT 0xFFF)) AND NOT 0xFFF = 0"
    and "source k = FromPfd" "frames_of (pfd k) F" "F free = f # rest"
  shows "\<exists>k'. AddressSpace_pageFault addr error s k = Ret k' \<and>
    mmu (error AND 2 \<noteq> 0) addr (mach k') = Some (of_nat f * PAGE_SIZE + (addr AND 0xFFF)) \<and>
    frames_of (pfd k') (move_frame f free used F) \<and>
    (\<forall>b. b \<noteq> pte_addr (mach k) (addr AND NOT 0xFFF) \<longrightarrow> phys (mach k') b = phys (mach k) b)"
proof -
  let ?r = "region_at s i" and ?a = "addr AND NOT 0xFFF" and ?page = "of_nat f * PAGE_SIZE :: u32"
  let ?flags = "ucast (r_protection ?r) :: u16"
  obtain d where d: "hat_initialMapAnonPages ?a 1 ?flags (tag_of ?r) k =
      Ret (True, k\<lparr>pfd := d, mach := phys_update (pte_addr (mach k) ?a) (anon_entry ?page (page_flags ?flags)) (mach k)\<rparr>)"
    "frames_of d (move_frame f free used F)"
    using anon_page_mapped [OF assms(8-10,12-14)] by blast
  have "\<not> (error AND 2 \<noteq> 0 \<and> r_protection ?r AND 2 = 0)" using assms(7) by blast
  then have "AddressSpace_pageFault addr error s k =
      Ret (k\<lparr>pfd := d, mach := phys_update (pte_addr (mach k) ?a) (anon_entry ?page (page_flags ?flags)) (mach k)\<rparr>)"
    using page_fault_cases(3) [OF assms(1,4,2,3), of error k] assms(5,6) d(1)
    by (simp add: region_pageIn_def DemandZeroNonPagedRegion_pageIn_def)
  moreover have "mmu (error AND 2 \<noteq> 0) addr (phys_update (pte_addr (mach k) ?a) (anon_entry ?page (page_flags ?flags)) (mach k)) =
      Some (?page + (addr AND 0xFFF))"
  proof -
    have w: "error AND 2 \<noteq> 0 \<longrightarrow> ?flags AND PROT_WRITE \<noteq> 0"
    proof
      assume "error AND 2 \<noteq> 0"
      then have "r_protection ?r AND 2 \<noteq> 0" using assms(7) by blast
      then have "bit (r_protection ?r) 1" by (rule and_2_bit)
      then have "bit (?flags AND PROT_WRITE) 1" by (simp add: PROT_WRITE_def bit_simps)
      then show "?flags AND PROT_WRITE \<noteq> 0" by auto
    qed
    have a: "unat ?a mod 4096 = 0" "unat (addr AND 0xFFF) < 4096"
      unfolding unat_page_base unat_and_0xFFF by (simp_all add: minus_mod_eq_div_mult)
    have "addr = ?a + (addr AND 0xFFF)" by (rule split_page)
    then show ?thesis using mapped_entry [OF assms(10,11) a w, of ?page] aligned_frame [of f] by metis
  qed
  ultimately show ?thesis using d(2) by (simp add: phys_update_def)
qed

theorem page_fault_maps_a_frame_witness:
  "\<exists>s k'. add_region heap_region blank_space = Ret s \<and> AddressSpace_pageFault 0xC0000123 2 s fault_kernel = Ret k' \<and>
     mmu True 0xC0000123 (mach k') = Some 0x1123"
proof -
  obtain s where s: "add_region heap_region blank_space = Ret s" "space_ok s [0]" "region_at s 0 = heap_region"
    using heap_space by blast
  have a: "(0xC0000123 :: u32) AND NOT 0xFFF = 0xC0000000" by simp
  have b: "unat (0xC0000123 :: u32) \<in> region_bytes (region_at s 0)" unfolding s(3) heap_region_ok(2) by simp
  have c: "r_class (region_at s 0) = DemandZeroNonPagedRegion" "r_protection (region_at s 0) AND 2 \<noteq> 0"
    unfolding s(3) by (simp_all add: heap_region_def new_region_def PROT_READ_def PROT_WRITE_def)
  have g: "stand_getNextFreeVirtual 0xC0000000 1 (ctx fault_kernel) = Ret 0xC0001000"
    by (simp add: stand_getNextFreeVirtual_def fault_kernel_def empty_boot_context_def next_free_loop.simps
        lheap_defs list_add_tail_def LOADER_MAX_SEGMENTS_def PAGE_SIZE_def Let_def)
  have r: "map_ready (mach fault_kernel) {0xC0000000}" "phys (mach fault_kernel) (pte_addr (mach fault_kernel) 0xC0000000) AND NOT 0xFFF = 0"
    by (simp_all add: fault_kernel_def map_ready_def recursive_def small_machine_def pde_def entry_def allows_def
        pte_addr_def hat_pageDirIndex_def hat_pageTableIndex_def)
  have f: "source fault_kernel = FromPfd" "frames_of (pfd fault_kernel) four_lists" "four_lists free = 1 # [2]"
    by (simp_all add: fault_kernel_def four_frames_ok(1)) (simp add: four_lists_def)
  have "\<exists>k'. AddressSpace_pageFault 0xC0000123 2 s fault_kernel = Ret k' \<and>
    mmu ((2 :: u32) AND 2 \<noteq> 0) 0xC0000123 (mach k') = Some (of_nat 1 * PAGE_SIZE + (0xC0000123 AND 0xFFF)) \<and>
    frames_of (pfd k') (move_frame 1 free used four_lists) \<and>
    (\<forall>b. b \<noteq> pte_addr (mach fault_kernel) (0xC0000123 AND NOT 0xFFF) \<longrightarrow> phys (mach k') b = phys (mach fault_kernel) b)"
    by (rule page_fault_maps_a_frame [OF s(2) _ b _ c(1), of 2 fault_kernel "0xC0001000" four_lists 1 "[2]"])
      (use c(2) g r f in \<open>simp_all only: a, simp_all\<close>)
  then show ?thesis using s(1) by (auto simp: PAGE_SIZE_def)
qed

section \<open>What the check at the ends misses\<close>

text \<open>A region around another one is accepted, and so two regions overlap.\<close>

lemma enclosing_region_is_accepted:
  assumes "space_ok s L" "region_ok r" "i \<in> set L" "region_bytes (region_at s i) \<subseteq> region_bytes r"
    and "\<forall>j \<in> set L. unat (r_start r) \<notin> region_bytes (region_at s j) \<and> unat (r_start r + r_length r) \<notin> region_bytes (region_at s j)"
  shows "\<exists>s'. add_region r s = Ret s' \<and> dll (as_regions s') Regions (map RegionLink (L @ [numRegions s])) \<and>
    region_bytes (region_at s' i) \<inter> region_bytes (region_at s' (numRegions s)) \<noteq> {}"
proof -
  obtain s' where s': "add_region r s = Ret s'" "dll (as_regions s') Regions (map RegionLink (L @ [numRegions s]))"
    "region_at s' = (region_at s)(numRegions s := r)" using add_region_ok [OF assms(1,2,5)] by blast
  have "i \<noteq> numRegions s" using space_okD(2) [OF assms(1)] assms(3) by auto
  moreover have "unat (r_start (region_at s i)) \<in> region_bytes (region_at s i)"
    using space_okD(1) [OF assms(1,3)] by (auto simp: region_ok_def region_bytes_def unat_gt_0)
  ultimately show ?thesis using s' assms(4) by auto
qed

text \<open>A region that ends where another one begins is refused.\<close>

lemma adjacent_region_is_refused:
  assumes "space_ok s L" "region_ok r" "i \<in> set L" "unat (r_start r) + unat (r_length r) = unat (r_start (region_at s i))"
  shows "\<exists>msg. add_region r s = Panic msg"
proof (rule add_region_collides [OF assms(1)])
  have "unat (r_start r + r_length r) \<in> region_bytes (region_at s i)"
    using space_okD(1) [OF assms(1,3)] assms(4) unfolding region_end [OF assms(2)]
    by (auto simp: region_ok_def region_bytes_def unat_gt_0)
  then show "\<exists>i \<in> set L. unat (r_start r) \<in> region_bytes (region_at s i) \<or>
      unat (r_start r + r_length r) \<in> region_bytes (region_at s i)" using assms(3) by blast
qed

end
