(* ===== verification/Coruntime.thy ===== *)
theory Coruntime
  imports Loader
begin

text \<open>
  tools/coc/co-runtime/co-runtime.co, kernel/coinit.co and kernel/mm/alloc.c: the run time system
  of the classes that coc translates.  Classes and method descriptors are allocated from a static
  pool that only grows; a class has a list of methods, new ones in front, and a parent.  A message
  looks for its method from the class of the object upwards.  co_init builds the classes from two
  tables the linker collects in sections of the kernel file.  Classes, objects and methods are
  addresses, and names the strings they point to; the lists are given by their sequence.  What a
  method does when it is called is no part of the model: the result of a message is the method
  that is called, with the object and the arguments.
\<close>

section \<open>mm/alloc.c\<close>

definition POOL_SIZE :: u32 where
  "POOL_SIZE = 4096 * 12"

record co_class =
  cl_name :: "u8 list"
  cl_parent :: u32
  cl_size :: u32
  cl_methods :: "(u8 list \<times> u32) list"

text \<open>object_class is the field _class of the objects, classes among them; global_class are the
  variables the classes are assigned to.\<close>

record runtime =
  malloc_pool :: u32
  alloc_base :: u32
  class_list :: "u32 list"
  class_at :: "u32 \<Rightarrow> co_class"
  object_class :: "u32 \<Rightarrow> u32"
  global_class :: "u32 \<Rightarrow> u32"
  co_initialized :: bool

definition mm_malloc :: "u32 \<Rightarrow> runtime \<Rightarrow> (u32 \<times> runtime) outcome" where
  "mm_malloc sz rt =
     (let res = alloc_base rt; base = alloc_base rt + sz
      in if malloc_pool rt + POOL_SIZE \<le> base then Panic ''malloc pool full''
         else Ret (res, rt\<lparr>alloc_base := base\<rparr>))"

section \<open>co-runtime.co\<close>

definition SIZEOF_CLASS :: u32 where "SIZEOF_CLASS = 32"
definition SIZEOF_METHOD_DESC :: u32 where "SIZEOF_METHOD_DESC = 16"

definition createClass :: "u8 list \<Rightarrow> u32 \<Rightarrow> u32 \<Rightarrow> runtime \<Rightarrow> (u32 \<times> runtime) outcome" where
  "createClass name parent sz rt =
     obind (mm_malloc SIZEOF_CLASS rt) (\<lambda>(c, rt1).
       Ret (c, rt1\<lparr>class_at := (class_at rt1)(c := \<lparr>cl_name = name, cl_parent = parent, cl_size = sz, cl_methods = []\<rparr>),
                   class_list := c # class_list rt1\<rparr>))"

fun find_class_loop :: "runtime \<Rightarrow> u8 list \<Rightarrow> u32 list \<Rightarrow> u32" where
  "find_class_loop rt name [] = 0"
| "find_class_loop rt name (c # cs) = (if cl_name (class_at rt c) = name then c else find_class_loop rt name cs)"

definition findClass :: "u8 list \<Rightarrow> runtime \<Rightarrow> u32" where
  "findClass name rt = find_class_loop rt name (class_list rt)"

definition addMethod :: "u32 \<Rightarrow> u8 list \<Rightarrow> u32 \<Rightarrow> runtime \<Rightarrow> runtime outcome" where
  "addMethod c name mth rt =
     obind (mm_malloc SIZEOF_METHOD_DESC rt) (\<lambda>(_, rt1).
       if c = 0 then Fault
       else Ret (rt1\<lparr>class_at := (class_at rt1)(c := (class_at rt1 c)\<lparr>cl_methods := (name, mth) # cl_methods (class_at rt1 c)\<rparr>)\<rparr>))"

definition createObject :: "u32 \<Rightarrow> runtime \<Rightarrow> (u32 \<times> runtime) outcome" where
  "createObject c rt =
     (if c = 0 then Fault
      else obind (mm_malloc (cl_size (class_at rt c)) rt) (\<lambda>(obj, rt1).
             Ret (obj, rt1\<lparr>object_class := (object_class rt1)(obj := c)\<rparr>)))"

definition newObject :: "u8 list \<Rightarrow> runtime \<Rightarrow> (u32 \<times> runtime) outcome" where
  "newObject name rt = createObject (findClass name rt) rt"

fun find_method_loop :: "(u8 list \<times> u32) list \<Rightarrow> u8 list \<Rightarrow> u32" where
  "find_method_loop [] selector = 0"
| "find_method_loop ((name, mth) # ms) selector = (if name = selector then mth else find_method_loop ms selector)"

definition co_lookup :: "runtime \<Rightarrow> u32 \<Rightarrow> u8 list \<Rightarrow> u32" where
  "co_lookup rt c selector = find_method_loop (cl_methods (class_at rt c)) selector"

text \<open>The arguments of a call: those the message was sent with, or the selector and arguments of a
  message the object does not understand.\<close>

datatype 'a arguments = Args 'a | Unknown "u8 list" "'a arguments"

definition doesNotUnderstand :: "u8 list" where
  "doesNotUnderstand = bytes ''doesNotUnderstand''"

text \<open>Each step of the loop and each nested message takes one unit of fuel.\<close>

fun basicInvoke :: "nat \<Rightarrow> runtime \<Rightarrow> u32 \<Rightarrow> u8 list \<Rightarrow> u32 \<Rightarrow> 'a arguments \<Rightarrow> (u32 \<times> u32 \<times> 'a arguments) outcome" where
  "basicInvoke 0 rt c selector obj args = Timeout"
| "basicInvoke (Suc n) rt c selector obj args =
     (if c = 0 then basicInvoke n rt (object_class rt obj) doesNotUnderstand obj (Unknown selector args)
      else if co_lookup rt c selector \<noteq> 0 then Ret (co_lookup rt c selector, obj, args)
      else basicInvoke n rt (cl_parent (class_at rt c)) selector obj args)"

definition co_invoke :: "nat \<Rightarrow> runtime \<Rightarrow> u8 list \<Rightarrow> u32 \<Rightarrow> 'a arguments \<Rightarrow> (u32 \<times> u32 \<times> 'a arguments) outcome" where
  "co_invoke fuel rt selector obj args = basicInvoke fuel rt (object_class rt obj) selector obj args"

text \<open>unknown is the address of the variable UnknownObject.\<close>

definition invokeSuper :: "nat \<Rightarrow> u32 \<Rightarrow> runtime \<Rightarrow> u32 \<Rightarrow> u8 list \<Rightarrow> u32 \<Rightarrow> 'a arguments \<Rightarrow> (u32 \<times> u32 \<times> 'a arguments) outcome" where
  "invokeSuper fuel unknown rt c selector obj args =
     basicInvoke fuel rt (if cl_parent (class_at rt c) \<noteq> 0 then cl_parent (class_at rt c) else global_class rt unknown) selector obj args"

definition Object_perform :: "nat \<Rightarrow> runtime \<Rightarrow> u32 \<Rightarrow> u8 list \<Rightarrow> 'a arguments \<Rightarrow> (u32 \<times> u32 \<times> 'a arguments) outcome" where
  "Object_perform fuel rt self selector args = basicInvoke fuel rt (object_class rt self) selector self args"

definition Object_respondsTo :: "runtime \<Rightarrow> u32 \<Rightarrow> u8 list \<Rightarrow> bool" where
  "Object_respondsTo rt self selector = (co_lookup rt (object_class rt self) selector \<noteq> 0)"

text \<open>The method new of a class: the init method of the new object is called through perform, which
  is Object_perform unless a class has its own.\<close>

definition Class_new :: "nat \<Rightarrow> u32 \<Rightarrow> 'a arguments \<Rightarrow> runtime \<Rightarrow> ((u32 \<times> u32 \<times> 'a arguments) \<times> runtime) outcome" where
  "Class_new fuel self args rt =
     obind (createObject self rt) (\<lambda>(obj, rt1).
       obind (Object_perform fuel rt1 obj (bytes ''init'') args) (\<lambda>call. Ret (call, rt1)))"

section \<open>coinit.co\<close>

definition SHT_STRTAB :: u32 where "SHT_STRTAB = 3"

definition sh_name :: "(u32 \<Rightarrow> u8) \<Rightarrow> u32 \<Rightarrow> u32" where "sh_name mem shdr = read32 mem shdr"
definition sh_type :: "(u32 \<Rightarrow> u8) \<Rightarrow> u32 \<Rightarrow> u32" where "sh_type mem shdr = read32 mem (shdr + 4)"
definition sh_addr :: "(u32 \<Rightarrow> u8) \<Rightarrow> u32 \<Rightarrow> u32" where "sh_addr mem shdr = read32 mem (shdr + 12)"
definition sh_offset :: "(u32 \<Rightarrow> u8) \<Rightarrow> u32 \<Rightarrow> u32" where "sh_offset mem shdr = read32 mem (shdr + 16)"
definition sh_size :: "(u32 \<Rightarrow> u8) \<Rightarrow> u32 \<Rightarrow> u32" where "sh_size mem shdr = read32 mem (shdr + 20)"

text \<open>The names of the sections are taken from the first string table of the file.\<close>

fun strtable_loop :: "nat \<Rightarrow> (u32 \<Rightarrow> u8) \<Rightarrow> u32 \<Rightarrow> u32 \<Rightarrow> u32 \<Rightarrow> u32" where
  "strtable_loop 0 mem module entsize shdr = 0"
| "strtable_loop (Suc n) mem module entsize shdr =
     (if sh_type mem shdr = SHT_STRTAB then module + sh_offset mem shdr
      else strtable_loop n mem module entsize (shdr + entsize))"

definition string_is :: "(u32 \<Rightarrow> u8) \<Rightarrow> u32 \<Rightarrow> string \<Rightarrow> bool" where
  "string_is mem a name = (bytes_at mem a (length name + 1) = bytes name @ [0])"

record co_sections =
  methods_addr :: u32
  numMethods :: u32
  classes_addr :: u32
  numClasses :: u32

fun sections_loop :: "nat \<Rightarrow> (u32 \<Rightarrow> u8) \<Rightarrow> u32 \<Rightarrow> u32 \<Rightarrow> u32 \<Rightarrow> co_sections \<Rightarrow> co_sections" where
  "sections_loop 0 mem strtable entsize shdr acc = acc"
| "sections_loop (Suc n) mem strtable entsize shdr acc =
     (let name = strtable + sh_name mem shdr;
          acc1 = (if string_is mem name ''.co.methods''
                  then acc\<lparr>methods_addr := sh_addr mem shdr, numMethods := sh_size mem shdr div 12\<rparr> else acc);
          acc2 = (if string_is mem name ''.co.classes''
                  then acc1\<lparr>classes_addr := sh_addr mem shdr, numClasses := sh_size mem shdr div 16\<rparr> else acc1)
      in sections_loop n mem strtable entsize (shdr + entsize) acc2)"

definition co_find_sections :: "(u32 \<Rightarrow> u8) \<Rightarrow> u32 \<Rightarrow> co_sections outcome" where
  "co_find_sections mem module =
     (let shoff = read32 mem (module + 32); entsize = ucast (read16 mem (module + 46)); n = unat (read16 mem (module + 48));
          strtable = strtable_loop n mem module entsize (module + shoff);
          s = sections_loop n mem strtable entsize (module + shoff)
                \<lparr>methods_addr = 0, numMethods = 0, classes_addr = 0, numClasses = 0\<rparr>
      in if classes_addr s = 0 then Panic ''Cannot find '.co.classes' section''
         else if methods_addr s = 0 then Panic ''Cannot find '.co.methods' section''
         else Ret s)"

text \<open>The entries of the two tables.\<close>

record co_class_initializer =
  ci_class :: "u8 list"
  ci_superclass :: "u8 list"
  ci_size :: u32
  ci_globalSymbol :: u32

record co_method_initializer =
  mi_class :: "u8 list"
  mi_selector :: "u8 list"
  mi_method :: u32

definition create_one :: "co_class_initializer \<Rightarrow> runtime \<Rightarrow> runtime outcome" where
  "create_one ci rt =
     obind (createClass (ci_class ci) 0 (ci_size ci) rt) (\<lambda>(c, rt1).
       Ret (rt1\<lparr>global_class := (global_class rt1)(ci_globalSymbol ci := c)\<rparr>))"

definition link_one :: "u32 \<Rightarrow> co_class_initializer \<Rightarrow> runtime \<Rightarrow> runtime outcome" where
  "link_one class_class ci rt =
     (let c = findClass (ci_class ci) rt; p = findClass (ci_superclass ci) rt; g = global_class rt (ci_globalSymbol ci)
      in if c = 0 \<or> g = 0 then Fault
         else Ret (rt\<lparr>class_at := (class_at rt)(c := (class_at rt c)\<lparr>cl_parent := p\<rparr>),
                      object_class := (object_class rt)(g := class_class)\<rparr>))"

definition add_one :: "co_method_initializer \<Rightarrow> runtime \<Rightarrow> runtime outcome" where
  "add_one mi rt = addMethod (findClass (mi_class mi) rt) (mi_selector mi) (mi_method mi) rt"

fun for_each :: "('a \<Rightarrow> 's \<Rightarrow> 's outcome) \<Rightarrow> 'a list \<Rightarrow> 's \<Rightarrow> 's outcome" where
  "for_each f [] s = Ret s"
| "for_each f (x # xs) s = obind (f x s) (for_each f xs)"

definition co_load :: "co_class_initializer list \<Rightarrow> co_method_initializer list \<Rightarrow> runtime \<Rightarrow> runtime outcome" where
  "co_load cs ms rt =
     obind (for_each create_one cs rt) (\<lambda>rt1.
       obind (for_each (link_one (findClass (bytes ''Class'') rt1)) cs rt1) (\<lambda>rt2.
         obind (for_each add_one ms rt2) (\<lambda>rt3. Ret (rt3\<lparr>co_initialized := True\<rparr>))))"

text \<open>class_entry and method_entry give the entries of the tables at an address.\<close>

definition co_init :: "(u32 \<Rightarrow> u8) \<Rightarrow> (u32 \<Rightarrow> nat \<Rightarrow> co_class_initializer) \<Rightarrow> (u32 \<Rightarrow> nat \<Rightarrow> co_method_initializer) \<Rightarrow>
  stand_boot_context \<Rightarrow> runtime \<Rightarrow> runtime outcome" where
  "co_init mem class_entry method_entry bctx rt =
     (if co_initialized rt then Ret rt
      else obind (co_find_sections mem (stand_findModule (Some bctx) (bytes ''kernel''))) (\<lambda>s.
        co_load (map (class_entry (classes_addr s)) [0..<unat (numClasses s)])
          (map (method_entry (methods_addr s)) [0..<unat (numMethods s)]) rt))"

end
