(* ===== verification/Coruntime_Props.thy ===== *)
theory Coruntime_Props
  imports Coruntime Addrspace_Props
begin

text \<open>
  The static pool hands out blocks that do not overlap; co_init makes the classes the tables
  describe; a message is answered by the method of the nearest class that has it.
\<close>

section \<open>The static pool\<close>

definition pool_used_ok :: "runtime \<Rightarrow> bool" where
  "pool_used_ok rt \<longleftrightarrow> 0 < unat (malloc_pool rt) \<and> unat (malloc_pool rt) + 49152 < 4294967296 \<and>
     unat (malloc_pool rt) \<le> unat (alloc_base rt) \<and> unat (alloc_base rt) < unat (malloc_pool rt) + 49152"

definition left :: "runtime \<Rightarrow> nat" where
  "left rt = unat (malloc_pool rt) + 49152 - unat (alloc_base rt)"

lemma pool_end: "pool_used_ok rt \<Longrightarrow> unat (malloc_pool rt + POOL_SIZE) = unat (malloc_pool rt) + 49152"
  by (simp add: pool_used_ok_def POOL_SIZE_def unat_add_no_wrap_u32)

lemma mm_malloc_ok:
  assumes "pool_used_ok rt" "unat sz < left rt"
  shows "mm_malloc sz rt = Ret (alloc_base rt, rt\<lparr>alloc_base := alloc_base rt + sz\<rparr>)"
    "unat (alloc_base rt + sz) = unat (alloc_base rt) + unat sz"
    "pool_used_ok (rt\<lparr>alloc_base := alloc_base rt + sz\<rparr>)"
    "left (rt\<lparr>alloc_base := alloc_base rt + sz\<rparr>) = left rt - unat sz"
proof -
  have "unat (alloc_base rt) + unat sz < unat (malloc_pool rt) + 49152" "unat (malloc_pool rt) + 49152 < 4294967296"
    using assms by (auto simp: pool_used_ok_def left_def)
  then show u: "unat (alloc_base rt + sz) = unat (alloc_base rt) + unat sz" by (simp add: unat_add_no_wrap_u32)
  show "mm_malloc sz rt = Ret (alloc_base rt, rt\<lparr>alloc_base := alloc_base rt + sz\<rparr>)"
    using assms u pool_end [OF assms(1)] by (simp add: mm_malloc_def Let_def word_le_nat_alt left_def)
  show "pool_used_ok (rt\<lparr>alloc_base := alloc_base rt + sz\<rparr>)" "left (rt\<lparr>alloc_base := alloc_base rt + sz\<rparr>) = left rt - unat sz"
    using assms u by (auto simp: pool_used_ok_def left_def)
qed

lemma mm_malloc_full:
  assumes "pool_used_ok rt" "left rt \<le> unat sz" "unat (alloc_base rt) + unat sz < 4294967296"
  shows "mm_malloc sz rt = Panic ''malloc pool full''"
proof -
  have "unat (alloc_base rt + sz) = unat (alloc_base rt) + unat sz" using assms(3) by (simp add: unat_add_no_wrap_u32)
  then show ?thesis using assms pool_end [OF assms(1)]
    by (auto simp: mm_malloc_def Let_def word_le_nat_alt left_def pool_used_ok_def)
qed

text \<open>A size that makes the pointer wrap around is not noticed: the pool goes backwards.\<close>

lemma mm_malloc_wraps:
  assumes "pool_used_ok rt" "4294967296 \<le> unat (alloc_base rt) + unat sz"
  shows "\<exists>rt'. mm_malloc sz rt = Ret (alloc_base rt, rt') \<and> unat (alloc_base rt') < unat (alloc_base rt)"
proof -
  have "unat (alloc_base rt + sz) = unat (alloc_base rt) + unat sz - 4294967296"
    using assms(2) unat_u32_less [of sz] unat_u32_less [of "alloc_base rt"] unat_plus_if_size [of "alloc_base rt" sz]
    by (simp add: word_size)
  then have u: "unat (alloc_base rt + sz) < unat (alloc_base rt)" using unat_u32_less [of sz] assms(2) by linarith
  then have "\<not> malloc_pool rt + POOL_SIZE \<le> alloc_base rt + sz"
    using assms(1) pool_end [OF assms(1)] by (simp add: word_le_nat_alt pool_used_ok_def)
  then show ?thesis using u by (simp add: mm_malloc_def Let_def)
qed

text \<open>A run of allocations.\<close>

fun mm_mallocs :: "u32 list \<Rightarrow> runtime \<Rightarrow> (u32 list \<times> runtime) outcome" where
  "mm_mallocs [] rt = Ret ([], rt)"
| "mm_mallocs (sz # szs) rt = obind (mm_malloc sz rt) (\<lambda>(a, rt1). obind (mm_mallocs szs rt1) (\<lambda>(as, rt2). Ret (a # as, rt2)))"

fun blocks :: "nat \<Rightarrow> u32 list \<Rightarrow> nat set list" where
  "blocks a [] = []"
| "blocks a (sz # szs) = {a..<a + unat sz} # blocks (a + unat sz) szs"

lemma mm_mallocs_run:
  "pool_used_ok rt \<Longrightarrow> sum_list (map unat szs) < left rt \<Longrightarrow>
   \<exists>as rt'. mm_mallocs szs rt = Ret (as, rt') \<and> map2 (\<lambda>a sz. {unat a..<unat a + unat sz}) as szs = blocks (unat (alloc_base rt)) szs \<and>
     length as = length szs \<and> pool_used_ok rt' \<and> left rt' = left rt - sum_list (map unat szs)"
proof (induction szs arbitrary: rt)
  case (Cons sz szs)
  have s: "unat sz < left rt" using Cons.prems(2) by simp
  note m = mm_malloc_ok [OF Cons.prems(1) s]
  have "sum_list (map unat szs) < left (rt\<lparr>alloc_base := alloc_base rt + sz\<rparr>)" using m(4) Cons.prems(2) by simp
  from Cons.IH [OF m(3) this] obtain as rt' where "mm_mallocs szs (rt\<lparr>alloc_base := alloc_base rt + sz\<rparr>) = Ret (as, rt')"
    "map2 (\<lambda>a sz. {unat a..<unat a + unat sz}) as szs = blocks (unat (alloc_base rt + sz)) szs" "length as = length szs"
    "pool_used_ok rt'" "left rt' = left (rt\<lparr>alloc_base := alloc_base rt + sz\<rparr>) - sum_list (map unat szs)" by auto
  then show ?case using m by simp
qed auto

lemma blocks_above: "X \<in> set (blocks a szs) \<Longrightarrow> x \<in> X \<Longrightarrow> a \<le> x \<and> x < a + sum_list (map unat szs)"
  by (induction szs arbitrary: a) fastforce+

lemma blocks_disjoint: "sorted_wrt (\<lambda>X Y. X \<inter> Y = {}) (blocks a szs)"
proof (induction szs arbitrary: a)
  case (Cons sz szs)
  have "{a..<a + unat sz} \<inter> Y = {}" if "Y \<in> set (blocks (a + unat sz) szs)" for Y
    using blocks_above [OF that] by fastforce
  then show ?case using Cons by simp
qed simp

section \<open>The classes by name\<close>

definition class_names :: "runtime \<Rightarrow> u8 list list" where
  "class_names rt = map (\<lambda>c. cl_name (class_at rt c)) (class_list rt)"

definition rt_ok :: "runtime \<Rightarrow> bool" where
  "rt_ok rt \<longleftrightarrow> pool_used_ok rt \<and> distinct (class_list rt) \<and>
     (\<forall>c \<in> set (class_list rt). c \<noteq> 0 \<and> unat c < unat (alloc_base rt))"

text \<open>The class of a name, if there is one: the last one created when a table has an entry for it more than once.\<close>

definition class_by_name :: "runtime \<Rightarrow> u8 list \<Rightarrow> co_class option" where
  "class_by_name rt name = (if name \<in> set (class_names rt) then Some (class_at rt (findClass name rt)) else None)"

lemma find_class_loop_in:
  "name \<in> (\<lambda>c. cl_name (class_at rt c)) ` set cs \<Longrightarrow> find_class_loop rt name cs \<in> set cs \<and> cl_name (class_at rt (find_class_loop rt name cs)) = name"
  by (induction cs) auto

lemma find_class_loop_out: "name \<notin> (\<lambda>c. cl_name (class_at rt c)) ` set cs \<Longrightarrow> find_class_loop rt name cs = 0"
  by (induction cs) auto

lemma findClass_in:
  assumes "rt_ok rt" "name \<in> set (class_names rt)"
  shows "findClass name rt \<in> set (class_list rt)" "findClass name rt \<noteq> 0" "cl_name (class_at rt (findClass name rt)) = name"
proof -
  have "name \<in> (\<lambda>c. cl_name (class_at rt c)) ` set (class_list rt)" using assms(2) by (simp add: class_names_def)
  from find_class_loop_in [OF this] show "findClass name rt \<in> set (class_list rt)" "cl_name (class_at rt (findClass name rt)) = name"
    by (simp_all add: findClass_def)
  then show "findClass name rt \<noteq> 0" using assms(1) by (auto simp: rt_ok_def)
qed

lemma findClass_out: "name \<notin> set (class_names rt) \<Longrightarrow> findClass name rt = 0"
  using find_class_loop_out [of name rt "class_list rt"] by (simp add: findClass_def class_names_def)

lemma findClass_inject:
  assumes "rt_ok rt" "n \<in> set (class_names rt)" "findClass n rt = findClass n' rt"
  shows "n = n'"
proof (cases "n' \<in> set (class_names rt)")
  case True
  then show ?thesis using findClass_in(3) [OF assms(1)] assms(2,3) by metis
next
  case False
  then show ?thesis using findClass_out [OF False] findClass_in(2) [OF assms(1,2)] assms(3) by simp
qed

lemma class_by_name_None: "class_by_name rt n = None \<longleftrightarrow> n \<notin> set (class_names rt)"
  by (simp add: class_by_name_def)

text \<open>Changing a class but not its name.\<close>

lemma update_class:
  assumes "rt_ok rt" "n \<in> set (class_names rt)" "cl_name (f (class_at rt (findClass n rt))) = n"
    and rt': "class_at rt' = (class_at rt)(findClass n rt := f (class_at rt (findClass n rt)))" "class_list rt' = class_list rt"
  shows "class_names rt' = class_names rt" "findClass m rt' = findClass m rt" "class_by_name rt' = (class_by_name rt)(n \<mapsto> f (the (class_by_name rt n)))"
proof -
  have nm: "cl_name (class_at rt' c) = cl_name (class_at rt c)" for c
    using findClass_in(3) [OF assms(1,2)] assms(3) rt'(1) by simp
  show names: "class_names rt' = class_names rt" by (simp add: class_names_def nm rt'(2))
  have "find_class_loop rt' k cs = find_class_loop rt k cs" for k cs by (induction cs) (auto simp: nm)
  then show find: "findClass m rt' = findClass m rt" for m by (simp add: findClass_def rt'(2))
  show "class_by_name rt' = (class_by_name rt)(n \<mapsto> f (the (class_by_name rt n)))"
  proof
    fix m
    show "class_by_name rt' m = ((class_by_name rt)(n \<mapsto> f (the (class_by_name rt n)))) m"
      using findClass_inject [OF assms(1,2), of m] assms(2) by (auto simp: class_by_name_def names find rt'(1))
  qed
qed

section \<open>Loading the tables\<close>

definition new_class :: "co_class_initializer \<Rightarrow> co_class" where
  "new_class ci = \<lparr>cl_name = ci_class ci, cl_parent = 0, cl_size = ci_size ci, cl_methods = []\<rparr>"

lemma create_one_ok:
  assumes ok: "rt_ok rt" and l: "32 < left rt"
  shows "\<exists>rt'. create_one ci rt = Ret rt' \<and> rt_ok rt' \<and> left rt' = left rt - 32 \<and>
    set (class_names rt') = insert (ci_class ci) (set (class_names rt)) \<and>
    (\<forall>m. m \<noteq> ci_class ci \<longrightarrow> findClass m rt' = findClass m rt) \<and>
    class_by_name rt' = (class_by_name rt)(ci_class ci \<mapsto> new_class ci) \<and>
    global_class rt' = (global_class rt)(ci_globalSymbol ci := findClass (ci_class ci) rt') \<and> object_class rt' = object_class rt"
proof -
  let ?c = "alloc_base rt"
  have p: "pool_used_ok rt" "unat SIZEOF_CLASS < left rt" using ok l by (simp_all add: rt_ok_def SIZEOF_CLASS_def)
  note m = mm_malloc_ok [OF p]
  define rt' where "rt' = rt\<lparr>alloc_base := ?c + SIZEOF_CLASS, class_at := (class_at rt)(?c := new_class ci),
    class_list := ?c # class_list rt, global_class := (global_class rt)(ci_globalSymbol ci := ?c)\<rparr>"
  have r: "create_one ci rt = Ret rt'"
    using m(1) by (simp add: create_one_def createClass_def rt'_def new_class_def)
  have c: "?c \<notin> set (class_list rt)" "?c \<noteq> 0" using ok by (auto simp: rt_ok_def pool_used_ok_def)
  have old: "class_at rt' d = class_at rt d" if "d \<in> set (class_list rt)" for d using c(1) that by (auto simp: rt'_def)
  have names: "class_names rt' = ci_class ci # class_names rt"
    using c(1) by (auto simp: class_names_def rt'_def new_class_def)
  have lp: "pool_used_ok rt'" "left rt' = left rt - 32"
    using m(3,4) by (simp_all add: rt'_def pool_used_ok_def left_def SIZEOF_CLASS_def)
  have "unat d < unat (alloc_base rt')" if "d \<in> set (class_list rt')" for d
    using that ok m(2) by (auto simp: rt'_def rt_ok_def SIZEOF_CLASS_def)
  then have ok': "rt_ok rt'" using ok lp(1) c by (auto simp: rt_ok_def rt'_def)
  have loop: "find_class_loop rt' k cs = find_class_loop rt k cs" if "set cs \<subseteq> set (class_list rt)" for k cs
    using that by (induction cs) (auto simp: old)
  have fc: "findClass (ci_class ci) rt' = ?c" by (simp add: findClass_def rt'_def new_class_def)
  have fo: "findClass k rt' = findClass k rt" if "k \<noteq> ci_class ci" for k
    using that loop [of "class_list rt" k] by (simp add: findClass_def rt'_def new_class_def)
  have "class_by_name rt' k = ((class_by_name rt)(ci_class ci \<mapsto> new_class ci)) k" for k
  proof (cases "k = ci_class ci")
    case True
    then show ?thesis by (simp add: class_by_name_def names fc) (simp add: rt'_def)
  next
    case False
    then show ?thesis using fo [OF False] findClass_in(1) [OF ok, of k] old by (auto simp: class_by_name_def names)
  qed
  then show ?thesis using r ok' lp(2) names fo fc by (intro exI [of _ rt']) (auto simp: rt'_def)
qed

lemma rt_ok_update:
  assumes "rt_ok rt" "class_names rt' = class_names rt" "class_list rt' = class_list rt" "pool_used_ok rt'" "unat (alloc_base rt) \<le> unat (alloc_base rt')"
  shows "rt_ok rt'"
  using assms by (auto simp: rt_ok_def intro: less_le_trans)

lemma link_one_ok:
  assumes ok: "rt_ok rt" and n: "ci_class ci \<in> set (class_names rt)" and g: "global_class rt (ci_globalSymbol ci) \<noteq> 0"
  shows "\<exists>rt'. link_one cc ci rt = Ret rt' \<and> rt_ok rt' \<and> left rt' = left rt \<and> class_names rt' = class_names rt \<and>
    (\<forall>m. findClass m rt' = findClass m rt) \<and> global_class rt' = global_class rt \<and>
    object_class rt' = (object_class rt)(global_class rt (ci_globalSymbol ci) := cc) \<and>
    class_by_name rt' = (class_by_name rt)(ci_class ci \<mapsto> (the (class_by_name rt (ci_class ci)))\<lparr>cl_parent := findClass (ci_superclass ci) rt\<rparr>)"
proof -
  let ?c = "findClass (ci_class ci) rt" and ?f = "\<lambda>x. x\<lparr>cl_parent := findClass (ci_superclass ci) rt\<rparr>"
  define rt' where "rt' = rt\<lparr>class_at := (class_at rt)(?c := ?f (class_at rt ?c)),
    object_class := (object_class rt)(global_class rt (ci_globalSymbol ci) := cc)\<rparr>"
  have "link_one cc ci rt = Ret rt'" using findClass_in(2) [OF ok n] g by (simp add: link_one_def Let_def rt'_def)
  moreover have nm: "cl_name (?f (class_at rt ?c)) = ci_class ci" using findClass_in(3) [OF ok n] by simp
  have at: "class_at rt' = (class_at rt)(?c := ?f (class_at rt ?c))" "class_list rt' = class_list rt" by (simp_all add: rt'_def)
  note u = update_class [where f = ?f, OF ok n nm at]
  have "pool_used_ok rt'" using ok by (simp add: rt_ok_def pool_used_ok_def rt'_def)
  then have "rt_ok rt'" using rt_ok_update [OF ok u(1) at(2)] by (simp add: rt'_def)
  ultimately show ?thesis using u by (intro exI [of _ rt']) (auto simp: rt'_def left_def)
qed

lemma add_one_ok:
  assumes ok: "rt_ok rt" and n: "mi_class mi \<in> set (class_names rt)" and l: "16 < left rt"
  shows "\<exists>rt'. add_one mi rt = Ret rt' \<and> rt_ok rt' \<and> left rt' = left rt - 16 \<and> class_names rt' = class_names rt \<and>
    (\<forall>m. findClass m rt' = findClass m rt) \<and> global_class rt' = global_class rt \<and> object_class rt' = object_class rt \<and>
    class_by_name rt' = (class_by_name rt)(mi_class mi \<mapsto> (the (class_by_name rt (mi_class mi)))\<lparr>cl_methods := (mi_selector mi, mi_method mi) # cl_methods (the (class_by_name rt (mi_class mi)))\<rparr>)"
proof -
  let ?c = "findClass (mi_class mi) rt" and ?f = "\<lambda>x. x\<lparr>cl_methods := (mi_selector mi, mi_method mi) # cl_methods x\<rparr>"
  have p: "pool_used_ok rt" "unat SIZEOF_METHOD_DESC < left rt" using ok l by (simp_all add: rt_ok_def SIZEOF_METHOD_DESC_def)
  note m = mm_malloc_ok [OF p]
  define rt' where "rt' = rt\<lparr>alloc_base := alloc_base rt + SIZEOF_METHOD_DESC, class_at := (class_at rt)(?c := ?f (class_at rt ?c))\<rparr>"
  have "add_one mi rt = Ret rt'" using findClass_in(2) [OF ok n] m(1) by (simp add: add_one_def addMethod_def rt'_def)
  moreover have nm: "cl_name (?f (class_at rt ?c)) = mi_class mi" using findClass_in(3) [OF ok n] by simp
  have at: "class_at rt' = (class_at rt)(?c := ?f (class_at rt ?c))" "class_list rt' = class_list rt" by (simp_all add: rt'_def)
  note u = update_class [where f = ?f, OF ok n nm at]
  have lp: "pool_used_ok rt'" "left rt' = left rt - 16"
    using m(3,4) by (simp_all add: rt'_def pool_used_ok_def left_def SIZEOF_METHOD_DESC_def)
  have "rt_ok rt'" using rt_ok_update [OF ok u(1) at(2) lp(1)] m(2) by (simp add: rt'_def)
  ultimately show ?thesis using u lp(2) by (intro exI [of _ rt']) (auto simp: rt'_def)
qed

text \<open>A table may hold an entry more than once, as every object file has the entries of the headers it includes.\<close>

lemma create_all_ok:
  "rt_ok rt \<Longrightarrow> inj_on ci_class (set cs) \<Longrightarrow> inj_on ci_globalSymbol (set cs) \<Longrightarrow> 32 * length cs < left rt \<Longrightarrow>
   \<exists>rt'. for_each create_one cs rt = Ret rt' \<and> rt_ok rt' \<and> left rt' = left rt - 32 * length cs \<and>
     set (class_names rt') = set (map ci_class cs) \<union> set (class_names rt) \<and>
     (\<forall>ci \<in> set cs. class_by_name rt' (ci_class ci) = Some (new_class ci) \<and> global_class rt' (ci_globalSymbol ci) = findClass (ci_class ci) rt') \<and>
     (\<forall>n. n \<notin> set (map ci_class cs) \<longrightarrow> class_by_name rt' n = class_by_name rt n \<and> findClass n rt' = findClass n rt) \<and>
     (\<forall>g. g \<notin> set (map ci_globalSymbol cs) \<longrightarrow> global_class rt' g = global_class rt g)"
proof (induction cs arbitrary: rt)
  case (Cons ci cs)
  have "32 < left rt" using Cons.prems(4) by auto
  from create_one_ok [OF Cons.prems(1) this] obtain rt1 where 1: "create_one ci rt = Ret rt1" "rt_ok rt1" "left rt1 = left rt - 32"
    "set (class_names rt1) = insert (ci_class ci) (set (class_names rt))"
    "\<forall>m. m \<noteq> ci_class ci \<longrightarrow> findClass m rt1 = findClass m rt" "class_by_name rt1 = (class_by_name rt)(ci_class ci \<mapsto> new_class ci)"
    "global_class rt1 = (global_class rt)(ci_globalSymbol ci := findClass (ci_class ci) rt1)" by blast
  have p: "inj_on ci_class (set cs)" "inj_on ci_globalSymbol (set cs)" "32 * length cs < left rt1"
    using Cons.prems(2-4) 1(3) by auto
  from Cons.IH [OF 1(2) p] obtain rt2 where 2: "for_each create_one cs rt1 = Ret rt2" "rt_ok rt2"
    "left rt2 = left rt1 - 32 * length cs" "set (class_names rt2) = set (map ci_class cs) \<union> set (class_names rt1)"
    "\<forall>ci \<in> set cs. class_by_name rt2 (ci_class ci) = Some (new_class ci) \<and> global_class rt2 (ci_globalSymbol ci) = findClass (ci_class ci) rt2"
    "\<forall>n. n \<notin> set (map ci_class cs) \<longrightarrow> class_by_name rt2 n = class_by_name rt1 n \<and> findClass n rt2 = findClass n rt1"
    "\<forall>g. g \<notin> set (map ci_globalSymbol cs) \<longrightarrow> global_class rt2 g = global_class rt1 g" by blast
  have "class_by_name rt2 (ci_class ci) = Some (new_class ci) \<and> global_class rt2 (ci_globalSymbol ci) = findClass (ci_class ci) rt2"
  proof (cases "ci \<in> set cs")
    case True
    then show ?thesis using 2(5) by blast
  next
    case False
    then have "ci_class ci \<notin> set (map ci_class cs)" "ci_globalSymbol ci \<notin> set (map ci_globalSymbol cs)"
      using Cons.prems(2,3) by (auto simp: inj_on_def)
    then show ?thesis using 2(6,7) 1(6,7) by auto
  qed
  then show ?case using 1 2 by (intro exI [of _ rt2]) auto
qed simp

lemma link_all_ok:
  "rt_ok rt \<Longrightarrow> inj_on ci_class (set cs) \<Longrightarrow> set (map ci_class cs) \<subseteq> set (class_names rt) \<Longrightarrow>
   \<forall>ci \<in> set cs. global_class rt (ci_globalSymbol ci) \<noteq> 0 \<Longrightarrow>
   \<exists>rt'. for_each (link_one cc) cs rt = Ret rt' \<and> rt_ok rt' \<and> left rt' = left rt \<and> class_names rt' = class_names rt \<and>
     (\<forall>n. findClass n rt' = findClass n rt) \<and> global_class rt' = global_class rt \<and>
     (\<forall>ci \<in> set cs. object_class rt' (global_class rt (ci_globalSymbol ci)) = cc \<and>
        class_by_name rt' (ci_class ci) = Some ((the (class_by_name rt (ci_class ci)))\<lparr>cl_parent := findClass (ci_superclass ci) rt\<rparr>)) \<and>
     (\<forall>n. n \<notin> set (map ci_class cs) \<longrightarrow> class_by_name rt' n = class_by_name rt n) \<and>
     (\<forall>x. (\<forall>ci \<in> set cs. x \<noteq> global_class rt (ci_globalSymbol ci)) \<longrightarrow> object_class rt' x = object_class rt x)"
proof (induction cs arbitrary: rt)
  case (Cons ci cs)
  have "ci_class ci \<in> set (class_names rt)" "global_class rt (ci_globalSymbol ci) \<noteq> 0" using Cons.prems(3,4) by auto
  from link_one_ok [OF Cons.prems(1) this, of cc] obtain rt1 where 1: "link_one cc ci rt = Ret rt1" "rt_ok rt1" "left rt1 = left rt"
    "class_names rt1 = class_names rt" "\<forall>m. findClass m rt1 = findClass m rt" "global_class rt1 = global_class rt"
    "object_class rt1 = (object_class rt)(global_class rt (ci_globalSymbol ci) := cc)"
    "class_by_name rt1 = (class_by_name rt)(ci_class ci \<mapsto> (the (class_by_name rt (ci_class ci)))\<lparr>cl_parent := findClass (ci_superclass ci) rt\<rparr>)" by blast
  have c: "ci_class d \<noteq> ci_class ci \<or> d = ci" if "d \<in> set cs" for d using Cons.prems(2) that by (auto simp: inj_on_def)
  have "inj_on ci_class (set cs)" "set (map ci_class cs) \<subseteq> set (class_names rt1)" "\<forall>ci \<in> set cs. global_class rt1 (ci_globalSymbol ci) \<noteq> 0"
    using Cons.prems(2-4) 1(4,6) by auto
  from Cons.IH [OF 1(2) this] obtain rt2 where 2: "for_each (link_one cc) cs rt1 = Ret rt2" "rt_ok rt2" "left rt2 = left rt1"
    "class_names rt2 = class_names rt1" "\<forall>n. findClass n rt2 = findClass n rt1" "global_class rt2 = global_class rt1"
    "\<forall>ci \<in> set cs. object_class rt2 (global_class rt1 (ci_globalSymbol ci)) = cc \<and>
        class_by_name rt2 (ci_class ci) = Some ((the (class_by_name rt1 (ci_class ci)))\<lparr>cl_parent := findClass (ci_superclass ci) rt1\<rparr>)"
    "\<forall>n. n \<notin> set (map ci_class cs) \<longrightarrow> class_by_name rt2 n = class_by_name rt1 n"
    "\<forall>x. (\<forall>ci \<in> set cs. x \<noteq> global_class rt1 (ci_globalSymbol ci)) \<longrightarrow> object_class rt2 x = object_class rt1 x" by blast
  have same: "(the (class_by_name rt1 (ci_class d)))\<lparr>cl_parent := findClass (ci_superclass d) rt\<rparr> =
      (the (class_by_name rt (ci_class d)))\<lparr>cl_parent := findClass (ci_superclass d) rt\<rparr>" if "d \<in> set cs" for d
    using c [OF that] 1(8) by auto
  have "object_class rt2 (global_class rt (ci_globalSymbol ci)) = cc"
    using 2(7,9) 1(6,7) by (cases "\<exists>d \<in> set cs. global_class rt (ci_globalSymbol ci) = global_class rt (ci_globalSymbol d)") auto
  moreover have "class_by_name rt2 (ci_class ci) = Some ((the (class_by_name rt (ci_class ci)))\<lparr>cl_parent := findClass (ci_superclass ci) rt\<rparr>)"
  proof (cases "ci \<in> set cs")
    case True
    then show ?thesis using 2(7) same 1(5) by simp
  next
    case False
    then have "ci_class ci \<notin> set (map ci_class cs)" using c by auto
    then show ?thesis using 2(8) 1(8) by simp
  qed
  ultimately have h: "\<forall>d \<in> set (ci # cs). object_class rt2 (global_class rt (ci_globalSymbol d)) = cc \<and>
        class_by_name rt2 (ci_class d) = Some ((the (class_by_name rt (ci_class d)))\<lparr>cl_parent := findClass (ci_superclass d) rt\<rparr>)"
    using 2(7) 1(5,6) same by simp
  have o: "class_by_name rt2 n = class_by_name rt n" if "n \<notin> set (map ci_class (ci # cs))" for n using that 2(8) 1(8) by simp
  have x: "object_class rt2 x = object_class rt x" if "\<forall>d \<in> set (ci # cs). x \<noteq> global_class rt (ci_globalSymbol d)" for x
    using that 2(9) 1(6,7) by simp
  show ?case using 1(1,3-6) 2(1-6) h o x by (intro exI [of _ rt2]) simp
qed simp

text \<open>The methods the table gives to a class, the last one first.\<close>

definition methods_of :: "co_method_initializer list \<Rightarrow> u8 list \<Rightarrow> (u8 list \<times> u32) list" where
  "methods_of ms n = rev (map (\<lambda>mi. (mi_selector mi, mi_method mi)) (filter (\<lambda>mi. mi_class mi = n) ms))"

lemma add_all_ok:
  "rt_ok rt \<Longrightarrow> set (map mi_class ms) \<subseteq> set (class_names rt) \<Longrightarrow> 16 * length ms < left rt \<Longrightarrow>
   \<exists>rt'. for_each add_one ms rt = Ret rt' \<and> rt_ok rt' \<and> left rt' = left rt - 16 * length ms \<and> class_names rt' = class_names rt \<and>
     (\<forall>n. findClass n rt' = findClass n rt) \<and> global_class rt' = global_class rt \<and> object_class rt' = object_class rt \<and>
     (\<forall>n c. class_by_name rt n = Some c \<longrightarrow> class_by_name rt' n = Some (c\<lparr>cl_methods := methods_of ms n @ cl_methods c\<rparr>))"
proof (induction ms arbitrary: rt)
  case Nil
  then show ?case by (simp add: methods_of_def)
next
  case (Cons mi ms)
  have "mi_class mi \<in> set (class_names rt)" "16 < left rt" using Cons.prems(2,3) by auto
  from add_one_ok [OF Cons.prems(1) this] obtain rt1 where 1: "add_one mi rt = Ret rt1" "rt_ok rt1" "left rt1 = left rt - 16"
    "class_names rt1 = class_names rt" "\<forall>m. findClass m rt1 = findClass m rt" "global_class rt1 = global_class rt" "object_class rt1 = object_class rt"
    "class_by_name rt1 = (class_by_name rt)(mi_class mi \<mapsto> (the (class_by_name rt (mi_class mi)))\<lparr>cl_methods := (mi_selector mi, mi_method mi) # cl_methods (the (class_by_name rt (mi_class mi)))\<rparr>)"
    by blast
  have "set (map mi_class ms) \<subseteq> set (class_names rt1)" "16 * length ms < left rt1" using Cons.prems(2,3) 1(3,4) by auto
  from Cons.IH [OF 1(2) this] obtain rt2 where 2: "for_each add_one ms rt1 = Ret rt2" "rt_ok rt2" "class_names rt2 = class_names rt1"
    "\<forall>n. findClass n rt2 = findClass n rt1" "global_class rt2 = global_class rt1" "object_class rt2 = object_class rt1"
    "\<forall>n c. class_by_name rt1 n = Some c \<longrightarrow> class_by_name rt2 n = Some (c\<lparr>cl_methods := methods_of ms n @ cl_methods c\<rparr>)"
    "left rt2 = left rt1 - 16 * length ms" by blast
  have "class_by_name rt2 n = Some (c\<lparr>cl_methods := methods_of (mi # ms) n @ cl_methods c\<rparr>)" if "class_by_name rt n = Some c" for n c
  proof (cases "n = mi_class mi")
    case True
    then have "class_by_name rt1 n = Some (c\<lparr>cl_methods := (mi_selector mi, mi_method mi) # cl_methods c\<rparr>)" using 1(8) that by simp
    then show ?thesis using 2(7) True by (simp add: methods_of_def)
  next
    case False
    then show ?thesis using 2(7) 1(8) that by (simp add: methods_of_def)
  qed
  then show ?case using 1(1,3-7) 2 by (intro exI [of _ rt2]) simp
qed

lemma class_by_name_at: "rt_ok rt \<Longrightarrow> class_by_name rt n = Some c \<Longrightarrow> class_at rt (findClass n rt) = c \<and> findClass n rt \<noteq> 0 \<and> n \<in> set (class_names rt)"
  using findClass_in(2) by (auto simp: class_by_name_def split: if_splits)

lemma co_load_ok:
  assumes ok: "pool_used_ok rt" "class_list rt = []"
    and d: "inj_on ci_class (set cs)" "inj_on ci_globalSymbol (set cs)" "set (map mi_class ms) \<subseteq> set (map ci_class cs)"
    and l: "32 * length cs + 16 * length ms < left rt"
  shows "\<exists>rt'. co_load cs ms rt = Ret rt' \<and> rt_ok rt' \<and> left rt' = left rt - (32 * length cs + 16 * length ms) \<and>
    set (class_names rt') = set (map ci_class cs) \<and>
    (\<forall>ci \<in> set cs. findClass (ci_class ci) rt' \<noteq> 0 \<and> global_class rt' (ci_globalSymbol ci) = findClass (ci_class ci) rt' \<and>
      object_class rt' (findClass (ci_class ci) rt') = findClass (bytes ''Class'') rt' \<and>
      class_at rt' (findClass (ci_class ci) rt') = \<lparr>cl_name = ci_class ci, cl_parent = findClass (ci_superclass ci) rt',
        cl_size = ci_size ci, cl_methods = methods_of ms (ci_class ci)\<rparr>)"
proof -
  have r: "rt_ok rt" using ok by (simp add: rt_ok_def)
  have l1: "32 * length cs < left rt" using l by simp
  from create_all_ok [OF r d(1,2) l1] obtain rt1 where 1: "for_each create_one cs rt = Ret rt1" "rt_ok rt1"
    "left rt1 = left rt - 32 * length cs" "set (class_names rt1) = set (map ci_class cs) \<union> set (class_names rt)"
    "\<forall>ci \<in> set cs. class_by_name rt1 (ci_class ci) = Some (new_class ci) \<and> global_class rt1 (ci_globalSymbol ci) = findClass (ci_class ci) rt1"
    by blast
  have n1: "set (class_names rt1) = set (map ci_class cs)" using 1(4) ok(2) by (simp add: class_names_def)
  have g1: "\<forall>ci \<in> set cs. global_class rt1 (ci_globalSymbol ci) \<noteq> 0" using 1(5) class_by_name_at [OF 1(2)] by auto
  have s1: "set (map ci_class cs) \<subseteq> set (class_names rt1)" using n1 by simp
  let ?cc = "findClass (bytes ''Class'') rt1"
  from link_all_ok [OF 1(2) d(1) s1 g1, of ?cc] obtain rt2 where 2: "for_each (link_one ?cc) cs rt1 = Ret rt2" "rt_ok rt2"
    "left rt2 = left rt1" "class_names rt2 = class_names rt1" "\<forall>n. findClass n rt2 = findClass n rt1" "global_class rt2 = global_class rt1"
    "\<forall>ci \<in> set cs. object_class rt2 (global_class rt1 (ci_globalSymbol ci)) = ?cc \<and>
      class_by_name rt2 (ci_class ci) = Some ((the (class_by_name rt1 (ci_class ci)))\<lparr>cl_parent := findClass (ci_superclass ci) rt1\<rparr>)" by blast
  have "set (map mi_class ms) \<subseteq> set (class_names rt2)" "16 * length ms < left rt2" using d(3) n1 2(3,4) 1(3) l by auto
  from add_all_ok [OF 2(2) this] obtain rt3 where 3: "for_each add_one ms rt2 = Ret rt3" "rt_ok rt3" "class_names rt3 = class_names rt2"
    "\<forall>n. findClass n rt3 = findClass n rt2" "global_class rt3 = global_class rt2" "object_class rt3 = object_class rt2"
    "\<forall>n c. class_by_name rt2 n = Some c \<longrightarrow> class_by_name rt3 n = Some (c\<lparr>cl_methods := methods_of ms n @ cl_methods c\<rparr>)"
    "left rt3 = left rt2 - 16 * length ms" by blast
  define rt' where "rt' = rt3\<lparr>co_initialized := True\<rparr>"
  have "find_class_loop rt' n xs = find_class_loop rt3 n xs" for n xs by (induction xs) (simp_all add: rt'_def)
  then have same: "class_names rt' = class_names rt3" "findClass n rt' = findClass n rt3" for n
    by (simp_all add: class_names_def findClass_def rt'_def)
  have ok': "rt_ok rt'" using rt_ok_update [OF 3(2) same(1)] 3(2) by (simp add: rt'_def rt_ok_def pool_used_ok_def)
  have f: "findClass n rt' = findClass n rt1" for n using same(2) 3(4) 2(5) by simp
  have "co_load cs ms rt = Ret rt'" using 1(1) 2(1) 3(1) by (simp add: co_load_def rt'_def)
  moreover have "findClass (ci_class ci) rt' \<noteq> 0 \<and> global_class rt' (ci_globalSymbol ci) = findClass (ci_class ci) rt' \<and>
      object_class rt' (findClass (ci_class ci) rt') = findClass (bytes ''Class'') rt' \<and>
      class_at rt' (findClass (ci_class ci) rt') = \<lparr>cl_name = ci_class ci, cl_parent = findClass (ci_superclass ci) rt',
        cl_size = ci_size ci, cl_methods = methods_of ms (ci_class ci)\<rparr>" if ci: "ci \<in> set cs" for ci
  proof -
    have c1: "class_by_name rt1 (ci_class ci) = Some (new_class ci)" "global_class rt1 (ci_globalSymbol ci) = findClass (ci_class ci) rt1"
      using 1(5) ci by auto
    have "class_by_name rt2 (ci_class ci) = Some ((new_class ci)\<lparr>cl_parent := findClass (ci_superclass ci) rt1\<rparr>)"
      "object_class rt2 (findClass (ci_class ci) rt1) = ?cc" using 2(7) ci c1 by auto
    moreover from this have "class_by_name rt3 (ci_class ci) =
        Some ((new_class ci)\<lparr>cl_parent := findClass (ci_superclass ci) rt1, cl_methods := methods_of ms (ci_class ci)\<rparr>)"
      using 3(7) by (simp add: new_class_def)
    ultimately show ?thesis using class_by_name_at [OF 3(2), of "ci_class ci"] c1(2) 2(6) 3(4-6) f same
      by (simp add: rt'_def new_class_def)
  qed
  moreover have "set (class_names rt') = set (map ci_class cs)" using same(1) 3(3) 2(4) n1 by simp
  moreover have "left rt' = left rt - (32 * length cs + 16 * length ms)" using 1(3) 2(3) 3(8) by (simp add: rt'_def left_def)
  ultimately show ?thesis using ok' by blast
qed

section \<open>Messages\<close>

text \<open>The classes from one up to a root.\<close>

inductive superclasses :: "runtime \<Rightarrow> u32 \<Rightarrow> u32 list \<Rightarrow> bool" for rt where
  none: "superclasses rt 0 []"
| up: "c \<noteq> 0 \<Longrightarrow> superclasses rt (cl_parent (class_at rt c)) cs \<Longrightarrow> superclasses rt c (c # cs)"

inductive_cases superclasses_ConsE: "superclasses rt c (d # cs)"
inductive_cases superclasses_NilE: "superclasses rt c []"

text \<open>The method of the first class that has one.\<close>

fun nearest_method :: "runtime \<Rightarrow> u8 list \<Rightarrow> u32 list \<Rightarrow> u32 option" where
  "nearest_method rt selector [] = None"
| "nearest_method rt selector (c # cs) =
     (if co_lookup rt c selector \<noteq> 0 then Some (co_lookup rt c selector) else nearest_method rt selector cs)"

lemma basicInvoke_finds:
  "superclasses rt c cs \<Longrightarrow> nearest_method rt selector cs = Some m \<Longrightarrow> length cs \<le> fuel \<Longrightarrow>
   basicInvoke fuel rt c selector obj args = Ret (m, obj, args)"
proof (induction cs arbitrary: c fuel)
  case (Cons d cs)
  then have "c = d" "c \<noteq> 0" "superclasses rt (cl_parent (class_at rt c)) cs" by (auto elim: superclasses_ConsE)
  then show ?case using Cons by (cases fuel) (auto split: if_splits)
qed simp

lemma basicInvoke_misses:
  "superclasses rt c cs \<Longrightarrow> nearest_method rt selector cs = None \<Longrightarrow>
   basicInvoke fuel rt c selector obj args =
     (if fuel \<le> length cs then Timeout
      else basicInvoke (fuel - Suc (length cs)) rt (object_class rt obj) doesNotUnderstand obj (Unknown selector args))"
proof (induction cs arbitrary: c fuel)
  case Nil
  then have "c = 0" by (auto elim: superclasses_NilE)
  then show ?case by (cases fuel) auto
next
  case (Cons d cs)
  then have "c = d" "c \<noteq> 0" "superclasses rt (cl_parent (class_at rt c)) cs" by (auto elim: superclasses_ConsE)
  then show ?case using Cons by (cases fuel) (auto split: if_splits)
qed

text \<open>Without a method for doesNotUnderstand the messages nest without end.\<close>

lemma basicInvoke_loops:
  assumes "superclasses rt (object_class rt obj) cs" "nearest_method rt doesNotUnderstand cs = None"
  shows "basicInvoke fuel rt (object_class rt obj) doesNotUnderstand obj args = Timeout"
proof (induction fuel arbitrary: args rule: less_induct)
  case (less fuel)
  show ?case using basicInvoke_misses [OF assms, of fuel obj args] less [of "fuel - Suc (length cs)"] by auto
qed

lemma find_method_filter: "find_method_loop xs selector = find_method_loop (filter (\<lambda>x. fst x = selector) xs) selector"
  by (induction xs selector rule: find_method_loop.induct) auto

lemma methods_of_selector:
  "find_method_loop (methods_of ms n) selector = find_method_loop (methods_of (filter (\<lambda>mi. mi_selector mi = selector) ms) n) selector"
  by (subst find_method_filter) (simp add: methods_of_def rev_filter [symmetric] filter_map o_def conj_commute)

section \<open>Properties\<close>

text \<open>As long as the sum of the sizes is less than what is left, mm_malloc hands out blocks of the
  static pool that do not overlap, and uses up no more than their sizes.\<close>
lemma mm_malloc_blocks_apart:
  assumes "pool_used_ok rt" "sum_list (map unat szs) < left rt"
  shows "\<exists>as rt'. mm_mallocs szs rt = Ret (as, rt') \<and> length as = length szs \<and>
    sorted_wrt (\<lambda>X Y. X \<inter> Y = {}) (map2 (\<lambda>a sz. {unat a..<unat a + unat sz}) as szs) \<and>
    (\<Union> (set (map2 (\<lambda>a sz. {unat a..<unat a + unat sz}) as szs)) \<subseteq> {unat (malloc_pool rt)..<unat (malloc_pool rt) + 49152}) \<and>
    pool_used_ok rt' \<and> left rt' = left rt - sum_list (map unat szs)"
proof -
  have b: "\<Union> (set (blocks (unat (alloc_base rt)) szs)) \<subseteq> {unat (malloc_pool rt)..<unat (malloc_pool rt) + 49152}"
    using blocks_above [of _ "unat (alloc_base rt)" szs] assms by (fastforce simp: left_def pool_used_ok_def)
  obtain as rt' where r: "mm_mallocs szs rt = Ret (as, rt')" "length as = length szs" "pool_used_ok rt'"
    "left rt' = left rt - sum_list (map unat szs)"
    and m: "map2 (\<lambda>a sz. {unat a..<unat a + unat sz}) as szs = blocks (unat (alloc_base rt)) szs" using mm_mallocs_run [OF assms] by blast
  show ?thesis
    by (intro exI [of _ as] exI [of _ rt'] conjI) (use r b blocks_disjoint in \<open>simp_all only: m\<close>)
qed

definition fresh_runtime :: runtime where
  "fresh_runtime = \<lparr>malloc_pool = 0xC0100000, alloc_base = 0xC0100000, class_list = [],
     class_at = \<lambda>_. \<lparr>cl_name = [], cl_parent = 0, cl_size = 0, cl_methods = []\<rparr>, object_class = \<lambda>_. 0, global_class = \<lambda>_. 0,
     co_initialized = False\<rparr>"

lemma fresh_runtime_ok: "pool_used_ok fresh_runtime" "left fresh_runtime = 49152" "class_list fresh_runtime = []"
  by (simp_all add: pool_used_ok_def left_def fresh_runtime_def)

theorem mm_malloc_blocks_apart_witness:
  "\<exists>as rt'. mm_mallocs [32, 16, 49103] fresh_runtime = Ret (as, rt') \<and> length as = 3 \<and> left rt' = 1"
  using mm_malloc_blocks_apart [of fresh_runtime "[32, 16, 49103]"] fresh_runtime_ok by fastforce

text \<open>C20: co_init on a fresh run time system, from tables in which entries for the same class or the same
  variable are equal (they may be repeated, as the object files repeat the entries of the headers), whose methods
  belong to classes of the table, and with enough memory left: every
  class of the table exists under its name, its variable holds it, it is an instance of the class
  Class, its parent is the class of its superclass or null, and its methods are those of the
  table, later entries before earlier ones; no other class is found.\<close>
theorem co_init_builds_classes:
  assumes "pool_used_ok rt" "class_list rt = []"
    and "inj_on ci_class (set cs)" "inj_on ci_globalSymbol (set cs)" "set (map mi_class ms) \<subseteq> set (map ci_class cs)"
    and "32 * length cs + 16 * length ms < left rt"
  shows "\<exists>rt'. co_load cs ms rt = Ret rt' \<and>
    (\<forall>ci \<in> set cs. findClass (ci_class ci) rt' \<noteq> 0 \<and> global_class rt' (ci_globalSymbol ci) = findClass (ci_class ci) rt' \<and>
      object_class rt' (findClass (ci_class ci) rt') = findClass (bytes ''Class'') rt' \<and>
      class_at rt' (findClass (ci_class ci) rt') = \<lparr>cl_name = ci_class ci, cl_parent = findClass (ci_superclass ci) rt',
        cl_size = ci_size ci, cl_methods = methods_of ms (ci_class ci)\<rparr>) \<and>
    (\<forall>n. n \<notin> set (map ci_class cs) \<longrightarrow> findClass n rt' = 0)"
  using co_load_ok [OF assms] findClass_out by metis

definition example_classes :: "co_class_initializer list" where
  "example_classes =
     [\<lparr>ci_class = bytes ''Object'', ci_superclass = bytes ''object'', ci_size = 4, ci_globalSymbol = 0x100\<rparr>,
      \<lparr>ci_class = bytes ''Class'', ci_superclass = bytes ''Object'', ci_size = 32, ci_globalSymbol = 0x104\<rparr>,
      \<lparr>ci_class = bytes ''Region'', ci_superclass = bytes ''Object'', ci_size = 52, ci_globalSymbol = 0x108\<rparr>,
      \<lparr>ci_class = bytes ''Object'', ci_superclass = bytes ''object'', ci_size = 4, ci_globalSymbol = 0x100\<rparr>,
      \<lparr>ci_class = bytes ''Region'', ci_superclass = bytes ''Object'', ci_size = 52, ci_globalSymbol = 0x108\<rparr>,
      \<lparr>ci_class = bytes ''DeviceRegion'', ci_superclass = bytes ''Region'', ci_size = 56, ci_globalSymbol = 0x10C\<rparr>]"

definition example_methods :: "co_method_initializer list" where
  "example_methods =
     [\<lparr>mi_class = bytes ''Object'', mi_selector = doesNotUnderstand, mi_method = 0x2000\<rparr>,
      \<lparr>mi_class = bytes ''Region'', mi_selector = bytes ''pageIn'', mi_method = 0x2100\<rparr>,
      \<lparr>mi_class = bytes ''Region'', mi_selector = bytes ''print'', mi_method = 0x2200\<rparr>,
      \<lparr>mi_class = bytes ''DeviceRegion'', mi_selector = bytes ''print'', mi_method = 0x2300\<rparr>]"

lemma inj_on_table: "distinct (map f ys) \<Longrightarrow> set xs \<subseteq> set ys \<Longrightarrow> inj_on f (set xs)"
  by (auto simp: distinct_map intro: inj_on_subset)

lemma example_tables_ok:
  "inj_on ci_class (set example_classes)" "inj_on ci_globalSymbol (set example_classes)"
  "set (map mi_class example_methods) \<subseteq> set (map ci_class example_classes)"
  "32 * length example_classes + 16 * length example_methods < left fresh_runtime"
proof -
  have s: "set example_classes \<subseteq> set (take 3 example_classes @ drop 5 example_classes)" by (auto simp: example_classes_def)
  show "inj_on ci_class (set example_classes)" "inj_on ci_globalSymbol (set example_classes)"
    by (rule inj_on_table [OF _ s]; simp add: example_classes_def bytes_def)+
qed (simp_all add: example_classes_def example_methods_def bytes_def fresh_runtime_ok)

theorem co_init_builds_classes_witness:
  "\<exists>rt'. co_load example_classes example_methods fresh_runtime = Ret rt' \<and>
     cl_parent (class_at rt' (findClass (bytes ''DeviceRegion'') rt')) = findClass (bytes ''Region'') rt' \<and>
     cl_methods (class_at rt' (findClass (bytes ''Region'') rt')) = [(bytes ''print'', 0x2200), (bytes ''pageIn'', 0x2100)] \<and>
     findClass (bytes ''object'') rt' = 0"
proof -
  obtain rt' where rt': "co_load example_classes example_methods fresh_runtime = Ret rt'"
    "\<forall>ci \<in> set example_classes. class_at rt' (findClass (ci_class ci) rt') = \<lparr>cl_name = ci_class ci, cl_parent = findClass (ci_superclass ci) rt',
        cl_size = ci_size ci, cl_methods = methods_of example_methods (ci_class ci)\<rparr>"
    "\<forall>n. n \<notin> set (map ci_class example_classes) \<longrightarrow> findClass n rt' = 0"
    using co_init_builds_classes [OF fresh_runtime_ok(1,3) example_tables_ok] by blast
  let ?d = "\<lparr>ci_class = bytes ''DeviceRegion'', ci_superclass = bytes ''Region'', ci_size = 56, ci_globalSymbol = 0x10C\<rparr>"
  let ?r = "\<lparr>ci_class = bytes ''Region'', ci_superclass = bytes ''Object'', ci_size = 52, ci_globalSymbol = 0x108\<rparr>"
  have "?d \<in> set example_classes" "?r \<in> set example_classes" by (simp_all add: example_classes_def)
  then have "cl_parent (class_at rt' (findClass (bytes ''DeviceRegion'') rt')) = findClass (bytes ''Region'') rt'"
    "cl_methods (class_at rt' (findClass (bytes ''Region'') rt')) = methods_of example_methods (bytes ''Region'')"
    using bspec [OF rt'(2), of ?d] bspec [OF rt'(2), of ?r] by simp_all
  moreover have "methods_of example_methods (bytes ''Region'') = [(bytes ''print'', 0x2200), (bytes ''pageIn'', 0x2100)]"
    by (simp add: methods_of_def example_methods_def bytes_def)
  moreover have "bytes ''object'' \<notin> set (map ci_class example_classes)" by (simp add: example_classes_def bytes_def)
  ultimately show ?thesis using rt'(1,3) by (intro exI [of _ rt']) simp
qed

text \<open>C24: a message to an object whose class has a finite chain of superclasses: the method of the
  nearest class that has one is called; if no class has one, the nearest method for
  doesNotUnderstand is called with the selector and the arguments; and if there is none either,
  the messages nest without end.\<close>
theorem message_finds_nearest_method:
  assumes "superclasses rt (object_class rt obj) cs"
  shows "(\<forall>m. nearest_method rt selector cs = Some m \<and> length cs \<le> fuel \<longrightarrow> co_invoke fuel rt selector obj args = Ret (m, obj, args)) \<and>
    (\<forall>m. nearest_method rt selector cs = None \<and> nearest_method rt doesNotUnderstand cs = Some m \<and> 2 * length cs + 1 \<le> fuel \<longrightarrow>
      co_invoke fuel rt selector obj args = Ret (m, obj, Unknown selector args)) \<and>
    (nearest_method rt selector cs = None \<and> nearest_method rt doesNotUnderstand cs = None \<longrightarrow>
      co_invoke fuel rt selector obj args = Timeout)"
proof (intro conjI allI impI; (elim conjE)?)
  fix m assume "nearest_method rt selector cs = Some m" "length cs \<le> fuel"
  then show "co_invoke fuel rt selector obj args = Ret (m, obj, args)"
    unfolding co_invoke_def by (rule basicInvoke_finds [OF assms])
next
  fix m assume n: "nearest_method rt selector cs = None" and m: "nearest_method rt doesNotUnderstand cs = Some m"
    and f: "2 * length cs + 1 \<le> fuel"
  have "length cs \<le> fuel - Suc (length cs)" using f by simp
  from basicInvoke_finds [OF assms m this] show "co_invoke fuel rt selector obj args = Ret (m, obj, Unknown selector args)"
    unfolding co_invoke_def using basicInvoke_misses [OF assms n, of fuel obj args] f by simp
next
  assume n: "nearest_method rt selector cs = None" and d: "nearest_method rt doesNotUnderstand cs = None"
  show "co_invoke fuel rt selector obj args = Timeout"
    unfolding co_invoke_def basicInvoke_misses [OF assms n] basicInvoke_loops [OF assms d] by simp
qed

text \<open>Two classes at 16 and 32, the first the parent of the second, and an object at 48.\<close>

definition two_classes :: runtime where
  "two_classes = fresh_runtime\<lparr>class_list := [32, 16],
     class_at := (class_at fresh_runtime)(16 := \<lparr>cl_name = bytes ''A'', cl_parent = 0, cl_size = 4, cl_methods = [(bytes ''f'', 7), (doesNotUnderstand, 9)]\<rparr>,
       32 := \<lparr>cl_name = bytes ''B'', cl_parent = 16, cl_size = 4, cl_methods = [(bytes ''g'', 8)]\<rparr>),
     object_class := (object_class fresh_runtime)(48 := 32)\<rparr>"

theorem message_finds_nearest_method_witness:
  "co_invoke 2 two_classes (bytes ''f'') 48 (Args ()) = Ret (7, 48, Args ()) \<and>
   co_invoke 5 two_classes (bytes ''h'') 48 (Args ()) = Ret (9, 48, Unknown (bytes ''h'') (Args ()))"
proof -
  have c: "superclasses two_classes (object_class two_classes 48) [32, 16]"
    by (auto simp: two_classes_def intro!: superclasses.intros)
  have n: "nearest_method two_classes (bytes ''f'') [32, 16] = Some 7" "nearest_method two_classes (bytes ''h'') [32, 16] = None"
    "nearest_method two_classes doesNotUnderstand [32, 16] = Some 9"
    by (simp_all add: two_classes_def co_lookup_def doesNotUnderstand_def bytes_def)
  show ?thesis using message_finds_nearest_method [OF c, of "bytes ''f''" 2 "Args ()"]
      message_finds_nearest_method [OF c, of "bytes ''h''" 5 "Args ()"] n by simp
qed

section \<open>The pageIn message\<close>

text \<open>The names of the region classes, and the entries of the table for the methods pageIn.\<close>

fun class_name :: "region_class \<Rightarrow> u8 list" where
  "class_name Region = bytes ''Region''"
| "class_name DemandZeroNonPagedRegion = bytes ''DemandZeroNonPagedRegion''"
| "class_name DeviceRegion = bytes ''DeviceRegion''"
| "class_name Pool_class = bytes ''Pool''"
| "class_name DmaPool = bytes ''DmaPool''"

lemma class_name_inject [simp]: "class_name c = class_name d \<longleftrightarrow> c = d"
  by (cases c; cases d) (simp_all add: bytes_def)

definition pageIn_entry :: "(region_class \<Rightarrow> u32) \<Rightarrow> region_class \<Rightarrow> co_method_initializer" where
  "pageIn_entry a c = \<lparr>mi_class = class_name c, mi_selector = bytes ''pageIn'', mi_method = a c\<rparr>"

definition pageIn_body :: "(region_class \<Rightarrow> u32) \<Rightarrow> u32 \<Rightarrow> u32 \<Rightarrow> region \<Rightarrow> kernel \<Rightarrow> kernel outcome" where
  "pageIn_body a m addr r k =
     (if m = a Region then Region_pageIn addr r k
      else if m = a DemandZeroNonPagedRegion then DemandZeroNonPagedRegion_pageIn addr r k
      else if m = a Pool_class then Pool_pageIn addr r k
      else if m = a DmaPool then DmaPool_pageIn addr r k
      else Fault)"

text \<open>The pageIn entries of the region classes are those of four of them, in any order.\<close>

definition pageIn_entries :: "(region_class \<Rightarrow> u32) \<Rightarrow> co_method_initializer list \<Rightarrow> bool" where
  "pageIn_entries a ms \<longleftrightarrow> {mi \<in> set ms. mi_selector mi = bytes ''pageIn'' \<and> mi_class mi \<in> range class_name} =
     pageIn_entry a ` {Region, DemandZeroNonPagedRegion, Pool_class, DmaPool}"

lemma find_method_same:
  "\<forall>(n, m) \<in> set xs. n = selector \<longrightarrow> m = v \<Longrightarrow> find_method_loop xs selector = (if selector \<in> fst ` set xs then v else 0)"
  by (induction xs selector rule: find_method_loop.induct) auto

lemma pageIn_lookup:
  assumes "pageIn_entries a ms"
    and "class_at rt (findClass (class_name c) rt) = \<lparr>cl_name = class_name c, cl_parent = p, cl_size = s, cl_methods = methods_of ms (class_name c)\<rparr>"
  shows "co_lookup rt (findClass (class_name c) rt) (bytes ''pageIn'') = (if c = DeviceRegion then 0 else a c)"
proof -
  let ?E = "{mi \<in> set ms. mi_selector mi = bytes ''pageIn'' \<and> mi_class mi = class_name c}"
  have "?E = {mi \<in> pageIn_entry a ` {Region, DemandZeroNonPagedRegion, Pool_class, DmaPool}. mi_class mi = class_name c}"
    using assms(1) unfolding pageIn_entries_def by blast
  also have "\<dots> = (if c = DeviceRegion then {} else {pageIn_entry a c})"
    by (cases c) (auto simp: pageIn_entry_def simp del: class_name.simps)
  finally have e: "?E = (if c = DeviceRegion then {} else {pageIn_entry a c})" .
  have m: "(n, m) \<in> set (methods_of ms (class_name c)) \<and> n = bytes ''pageIn'' \<longleftrightarrow> n = bytes ''pageIn'' \<and> (\<exists>mi \<in> ?E. m = mi_method mi)" for n m
    by (auto simp: methods_of_def image_iff intro!: bexI)
  have "\<forall>(n, m) \<in> set (methods_of ms (class_name c)). n = bytes ''pageIn'' \<longrightarrow> m = a c"
  proof (intro ballI, clarify)
    fix b assume "(bytes ''pageIn'', b) \<in> set (methods_of ms (class_name c))"
    then have "\<exists>mi \<in> ?E. b = mi_method mi" using m by blast
    then show "b = a c" unfolding e by (simp add: pageIn_entry_def split: if_splits)
  qed
  from find_method_same [OF this] have "find_method_loop (methods_of ms (class_name c)) (bytes ''pageIn'') =
      (if \<exists>m. (bytes ''pageIn'', m) \<in> set (methods_of ms (class_name c)) then a c else 0)" by (simp add: image_iff Bex_def)
  also have "(\<exists>m. (bytes ''pageIn'', m) \<in> set (methods_of ms (class_name c))) \<longleftrightarrow> c \<noteq> DeviceRegion"
    using m [of "bytes ''pageIn''"] unfolding e by auto
  finally show ?thesis by (simp add: co_lookup_def assms(2))
qed

lemma createObject_keeps:
  assumes "createObject c rt = Ret (obj, rt')"
  shows "class_at rt' = class_at rt" "findClass n rt' = findClass n rt" "object_class rt' obj = c"
proof -
  obtain b where rt': "rt' = rt\<lparr>alloc_base := b, object_class := (object_class rt)(obj := c)\<rparr>"
    using assms by (auto simp: createObject_def mm_malloc_def Let_def split: if_splits)
  have "find_class_loop rt' k cs = find_class_loop rt k cs" for k cs by (induction cs) (simp_all add: rt')
  then show "findClass n rt' = findClass n rt" by (simp add: findClass_def rt')
  show "class_at rt' = class_at rt" "object_class rt' obj = c" by (simp_all add: rt')
qed

lemma pageIn_method_found:
  assumes "pool_used_ok rt" "class_list rt = []"
    and "inj_on ci_class (set cs)" "inj_on ci_globalSymbol (set cs)" "set (map mi_class ms) \<subseteq> set (map ci_class cs)"
    and "32 * length cs + 16 * length ms < left rt"
    and "range class_name \<subseteq> set (map ci_class cs)"
    and "\<forall>ci \<in> set cs. ci_class ci = class_name DeviceRegion \<longrightarrow> ci_superclass ci = class_name Region"
    and "pageIn_entries a ms"
    and "\<forall>d. a d \<noteq> 0" "inj a"
    and "co_load cs ms rt = Ret rt1" "createObject (findClass (class_name c) rt1) rt1 = Ret (obj, rt')" "2 \<le> fuel"
  shows "co_invoke fuel rt' (bytes ''pageIn'') obj args = Ret (if c = DeviceRegion then a Region else a c, obj, args)"
proof -
  note o = createObject_keeps [OF assms(13)]
  from co_load_ok [OF assms(1-6)] assms(12) have "\<forall>ci \<in> set cs. findClass (ci_class ci) rt1 \<noteq> 0 \<and>
      class_at rt1 (findClass (ci_class ci) rt1) = \<lparr>cl_name = ci_class ci, cl_parent = findClass (ci_superclass ci) rt1,
        cl_size = ci_size ci, cl_methods = methods_of ms (ci_class ci)\<rparr>" by auto
  then have at: "\<forall>ci \<in> set cs. findClass (ci_class ci) rt' \<noteq> 0 \<and>
      class_at rt' (findClass (ci_class ci) rt') = \<lparr>cl_name = ci_class ci, cl_parent = findClass (ci_superclass ci) rt',
        cl_size = ci_size ci, cl_methods = methods_of ms (ci_class ci)\<rparr>" unfolding o(1,2) .
  have cl: "findClass (class_name d) rt' \<noteq> 0 \<and> co_lookup rt' (findClass (class_name d) rt') (bytes ''pageIn'') = (if d = DeviceRegion then 0 else a d)" for d
  proof -
    have "class_name d \<in> set (map ci_class cs)" using assms(7) by blast
    then obtain ci where ci: "ci \<in> set cs" "ci_class ci = class_name d" by auto
    then show ?thesis using pageIn_lookup [OF assms(9)] bspec [OF at ci(1)] unfolding ci(2) by blast
  qed
  have dev: "cl_parent (class_at rt' (findClass (class_name DeviceRegion) rt')) = findClass (class_name Region) rt'"
  proof -
    have "class_name DeviceRegion \<in> set (map ci_class cs)" using assms(7) by blast
    then obtain ci where ci: "ci \<in> set cs" "ci_class ci = class_name DeviceRegion" by auto
    then show ?thesis using bspec [OF at ci(1)] bspec [OF assms(8) ci(1)] ci(2) by simp
  qed
  obtain n where n: "fuel = Suc (Suc n)" using assms(14) by (metis add_2_eq_Suc le_Suc_ex)
  show ?thesis
    using cl [of c] cl [of Region] dev assms(10) o by (simp add: co_invoke_def n del: class_name.simps)
qed

text \<open>C26: take tables as co_init_builds_classes wants them, with repeated entries perhaps, that hold the five region
  classes, DeviceRegion below Region, and whose entries for the selector pageIn in these classes are those of the
  four methods of the source, in any order.  co_init then succeeds, and for an object of
  the class of any region the message pageIn calls the method that the model's region_pageIn runs.\<close>
theorem pageIn_is_dispatched:
  assumes "pool_used_ok rt" "class_list rt = []"
    and "inj_on ci_class (set cs)" "inj_on ci_globalSymbol (set cs)" "set (map mi_class ms) \<subseteq> set (map ci_class cs)"
    and "32 * length cs + 16 * length ms < left rt"
    and "range class_name \<subseteq> set (map ci_class cs)"
    and "\<forall>ci \<in> set cs. ci_class ci = class_name DeviceRegion \<longrightarrow> ci_superclass ci = class_name Region"
    and "pageIn_entries a ms"
    and "\<forall>c. a c \<noteq> 0" "inj a" "2 \<le> fuel"
  shows "\<exists>rt1. co_load cs ms rt = Ret rt1 \<and>
    (\<forall>r obj rt'. createObject (findClass (class_name (r_class r)) rt1) rt1 = Ret (obj, rt') \<longrightarrow>
      (\<exists>m. co_invoke fuel rt' (bytes ''pageIn'') obj args = Ret (m, obj, args) \<and>
        (\<forall>addr k. region_pageIn addr r k = pageIn_body a m addr r k)))"
proof -
  obtain rt1 where rt1: "co_load cs ms rt = Ret rt1" using co_load_ok [OF assms(1-6)] by blast
  have "co_invoke fuel rt' (bytes ''pageIn'') obj args = Ret (m, obj, args) \<and> region_pageIn addr r k = pageIn_body a m addr r k"
    if "createObject (findClass (class_name (r_class r)) rt1) rt1 = Ret (obj, rt')" "m = (if r_class r = DeviceRegion then a Region else a (r_class r))"
    for r obj rt' m addr k
  proof -
    have "region_pageIn addr r k = pageIn_body a m addr r k"
      using assms(11) that(2) by (cases "r_class r") (auto simp: region_pageIn_def pageIn_body_def inj_eq)
    then show ?thesis using pageIn_method_found [OF assms(1-11) rt1 that(1) assms(12), of args] that(2) by simp
  qed
  then show ?thesis using rt1 by blast
qed

definition region_table :: "co_class_initializer list" where
  "region_table = map (\<lambda>(n, s, sz, g). \<lparr>ci_class = n, ci_superclass = s, ci_size = sz, ci_globalSymbol = g\<rparr>)
     [(bytes ''Object'', bytes ''object'', 4, 0x100), (bytes ''Class'', bytes ''Object'', 32, 0x104),
      (class_name Region, bytes ''Object'', 52, 0x108), (class_name DemandZeroNonPagedRegion, class_name Region, 52, 0x10C),
      (class_name DeviceRegion, class_name Region, 56, 0x110), (class_name Pool_class, class_name DemandZeroNonPagedRegion, 72, 0x114),
      (class_name DmaPool, class_name Pool_class, 76, 0x118)]"

fun page_method :: "region_class \<Rightarrow> u32" where
  "page_method Region = 0x2000"
| "page_method DemandZeroNonPagedRegion = 0x2100"
| "page_method DeviceRegion = 0x2200"
| "page_method Pool_class = 0x2300"
| "page_method DmaPool = 0x2400"

definition region_methods :: "co_method_initializer list" where
  "region_methods = map (pageIn_entry page_method) [DmaPool, Pool_class, DemandZeroNonPagedRegion, Region]"

lemma region_tables_ok:
  "inj_on ci_class (set region_table)" "inj_on ci_globalSymbol (set region_table)"
  "set (map mi_class region_methods) \<subseteq> set (map ci_class region_table)"
  "32 * length region_table + 16 * length region_methods < left fresh_runtime"
  "range class_name \<subseteq> set (map ci_class region_table)"
  "\<forall>ci \<in> set region_table. ci_class ci = class_name DeviceRegion \<longrightarrow> ci_superclass ci = class_name Region"
  "pageIn_entries page_method region_methods"
  "\<forall>c. page_method c \<noteq> 0" "inj page_method"
proof -
  show "inj_on ci_class (set region_table)" by (rule inj_on_table [of _ region_table]) (simp_all add: region_table_def bytes_def)
  show "inj_on ci_globalSymbol (set region_table)" by (rule inj_on_table [of _ region_table]) (simp_all add: region_table_def)
  show "set (map mi_class region_methods) \<subseteq> set (map ci_class region_table)" by (simp add: region_methods_def region_table_def pageIn_entry_def)
  show "32 * length region_table + 16 * length region_methods < left fresh_runtime"
    by (simp add: region_table_def region_methods_def fresh_runtime_ok)
  show "range class_name \<subseteq> set (map ci_class region_table)"
  proof
    fix n assume "n \<in> range class_name"
    then obtain c where "n = class_name c" by blast
    then show "n \<in> set (map ci_class region_table)" by (cases c) (simp_all add: region_table_def)
  qed
  show "\<forall>ci \<in> set region_table. ci_class ci = class_name DeviceRegion \<longrightarrow> ci_superclass ci = class_name Region"
    by (simp add: region_table_def bytes_def)
  show "pageIn_entries page_method region_methods"
    by (auto simp: pageIn_entries_def region_methods_def pageIn_entry_def simp del: class_name.simps)
  show "\<forall>c. page_method c \<noteq> 0"
  proof
    fix c show "page_method c \<noteq> 0" by (cases c) simp_all
  qed
  show "inj page_method"
  proof (rule injI)
    fix c d assume "page_method c = page_method d"
    then show "c = d" by (cases c; cases d) simp_all
  qed
qed

theorem pageIn_is_dispatched_witness:
  "\<exists>rt1 obj rt'. co_load region_table region_methods fresh_runtime = Ret rt1 \<and>
     createObject (findClass (class_name DeviceRegion) rt1) rt1 = Ret (obj, rt') \<and>
     co_invoke 2 rt' (bytes ''pageIn'') obj (Args ()) = Ret (0x2000, obj, Args ()) \<and>
     region_pageIn 0 (new_region DeviceRegion blank_pool) fault_kernel =
       pageIn_body page_method 0x2000 0 (new_region DeviceRegion blank_pool) fault_kernel"
proof -
  let ?d = "\<lparr>ci_class = class_name DeviceRegion, ci_superclass = class_name Region, ci_size = 56, ci_globalSymbol = 0x110\<rparr>"
  obtain rt1 where r: "co_load region_table region_methods fresh_runtime = Ret rt1" "rt_ok rt1"
    "left rt1 = left fresh_runtime - (32 * length region_table + 16 * length region_methods)"
    "\<forall>ci \<in> set region_table. findClass (ci_class ci) rt1 \<noteq> 0 \<and> cl_size (class_at rt1 (findClass (ci_class ci) rt1)) = ci_size ci"
    using co_load_ok [OF fresh_runtime_ok(1,3) region_tables_ok(1-4)] by auto
  have "?d \<in> set region_table" by (simp add: region_table_def)
  from bspec [OF r(4) this] have d: "findClass (class_name DeviceRegion) rt1 \<noteq> 0"
    "cl_size (class_at rt1 (findClass (class_name DeviceRegion) rt1)) = 56" by (simp_all del: class_name.simps)
  have "unat (56 :: u32) < left rt1" using r(3) by (simp add: fresh_runtime_ok region_table_def region_methods_def)
  then have m: "mm_malloc 56 rt1 = Ret (alloc_base rt1, rt1\<lparr>alloc_base := alloc_base rt1 + 56\<rparr>)"
    using mm_malloc_ok(1) r(2) by (simp add: rt_ok_def)
  then obtain obj rt' where o: "createObject (findClass (class_name DeviceRegion) rt1) rt1 = Ret (obj, rt')"
    using d by (simp add: createObject_def del: class_name.simps)
  define reg where "reg = new_region DeviceRegion blank_pool"
  have c: "r_class reg = DeviceRegion" by (simp add: reg_def new_region_def)
  obtain m where i: "co_invoke 2 rt' (bytes ''pageIn'') obj (Args ()) = Ret (m, obj, Args ())"
    "region_pageIn 0 reg fault_kernel = pageIn_body page_method m 0 reg fault_kernel"
  proof -
    have two: "2 \<le> (2 :: nat)" by simp
    obtain rt2 where "co_load region_table region_methods fresh_runtime = Ret rt2"
      "\<forall>r obj rt'. createObject (findClass (class_name (r_class r)) rt2) rt2 = Ret (obj, rt') \<longrightarrow>
        (\<exists>m. co_invoke 2 rt' (bytes ''pageIn'') obj (Args ()) = Ret (m, obj, Args ()) \<and>
          (\<forall>addr k. region_pageIn addr r k = pageIn_body page_method m addr r k))"
      using pageIn_is_dispatched [OF fresh_runtime_ok(1,3) region_tables_ok two, of "Args ()"] by blast
    then have "\<exists>m. co_invoke 2 rt' (bytes ''pageIn'') obj (Args ()) = Ret (m, obj, Args ()) \<and>
        (\<forall>addr k. region_pageIn addr reg k = pageIn_body page_method m addr reg k)" using o r(1) by (simp add: c del: class_name.simps)
    then show thesis using that by blast
  qed
  have "co_invoke 2 rt' (bytes ''pageIn'') obj (Args ()) = Ret (0x2000, obj, Args ())"
    using pageIn_method_found [OF fresh_runtime_ok(1,3) region_tables_ok r(1), of DeviceRegion obj rt' 2 "Args ()"] o by simp
  then have "m = 0x2000" using i(1) by simp
  then show ?thesis using r(1) o i unfolding reg_def by blast
qed

end
