(* ===== verification/Ksym.thy ===== *)
theory Ksym
  imports Kexpr
begin

text \<open>
  tools/kconfig/symbol.c with the structures of expr.h and the inline functions of lkc.h: the
  configuration symbols, their properties, the hash table that finds them by name, how the value
  of a symbol is calculated from its properties and what the user may set.  The symbols are the
  four static ones of symbol.c and those of the table, numbered in the order of their creation.
  sym_calc_value calls itself through the expressions of a symbol; the fuel bounds the nesting of
  these calls.  A pointer to a text carries an identity besides the text, because the code
  compares the pointers.  The E_CHOICE cells of a choice are the list of its members.
\<close>

section \<open>Symbols and properties\<close>

definition SYMBOL_CHECK :: u32 where "SYMBOL_CHECK = 0x0008"
definition SYMBOL_CHOICE :: u32 where "SYMBOL_CHOICE = 0x0010"
definition SYMBOL_CHOICEVAL :: u32 where "SYMBOL_CHOICEVAL = 0x0020"
definition SYMBOL_PRINTED :: u32 where "SYMBOL_PRINTED = 0x0040"
definition SYMBOL_VALID :: u32 where "SYMBOL_VALID = 0x0080"
definition SYMBOL_OPTIONAL :: u32 where "SYMBOL_OPTIONAL = 0x0100"
definition SYMBOL_WRITE :: u32 where "SYMBOL_WRITE = 0x0200"
definition SYMBOL_CHANGED :: u32 where "SYMBOL_CHANGED = 0x0400"
definition SYMBOL_NEW :: u32 where "SYMBOL_NEW = 0x0800"
definition SYMBOL_AUTO :: u32 where "SYMBOL_AUTO = 0x1000"
definition MENU_CHANGED :: u32 where "MENU_CHANGED = 0x0001"

definition flag_values :: "u32 list" where
  "flag_values = [SYMBOL_CHOICE, SYMBOL_CHOICEVAL, SYMBOL_VALID, SYMBOL_OPTIONAL, SYMBOL_WRITE, SYMBOL_CHANGED, SYMBOL_NEW]"

text \<open>The void pointer of a symbol_value: null, a symbol, the name of a symbol or a text.\<close>

datatype value_ptr = VNull | VSym sym_ref | VName sym_ref | VStr nat string

record symbol_value =
  sv_value :: value_ptr
  sv_tri :: tristate

datatype prop_type = P_UNKNOWN | P_PROMPT | P_COMMENT | P_MENU | P_ROOTMENU | P_DEFAULT | P_CHOICE

record kproperty =
  p_type :: prop_type
  p_text :: "string option"
  p_def :: "sym_ref option"
  p_visible :: "expr option"
  p_tri :: tristate
  p_members :: "sym_ref list"
  p_menu :: "nat option"

record ksymbol =
  k_name :: "string option"
  k_type :: symbol_type
  k_curr :: symbol_value
  k_def :: symbol_value
  k_visible :: tristate
  k_flags :: u32
  k_props :: "kproperty list"

text \<open>The buckets of symbol_hash are lists; menu_flags are the flags of the menu entries.\<close>

record kconf =
  ksym :: "sym_ref \<Rightarrow> ksymbol"
  symbol_hash :: "nat \<Rightarrow> sym_ref list"
  numSymbols :: nat
  numTexts :: nat
  modules_sym :: sym_ref
  menu_flags :: "nat \<Rightarrow> u32"
  sym_change_count :: int
  sym_inited :: bool

definition upd_sym :: "sym_ref \<Rightarrow> (ksymbol \<Rightarrow> ksymbol) \<Rightarrow> kconf \<Rightarrow> kconf" where
  "upd_sym s f K = K\<lparr>ksym := (ksym K)(s := f (ksym K s))\<rparr>"

definition flag_set :: "u32 \<Rightarrow> sym_ref \<Rightarrow> kconf \<Rightarrow> kconf" where
  "flag_set w s K = upd_sym s (\<lambda>y. y\<lparr>k_flags := k_flags y OR w\<rparr>) K"

definition flag_clear :: "u32 \<Rightarrow> sym_ref \<Rightarrow> kconf \<Rightarrow> kconf" where
  "flag_clear w s K = upd_sym s (\<lambda>y. y\<lparr>k_flags := k_flags y AND NOT w\<rparr>) K"

definition has_flag :: "u32 \<Rightarrow> sym_ref \<Rightarrow> kconf \<Rightarrow> bool" where
  "has_flag w s K \<longleftrightarrow> k_flags (ksym K s) AND w \<noteq> 0"

abbreviation "sym_is_choice s K \<equiv> has_flag SYMBOL_CHOICE s K"
abbreviation "sym_is_choice_value s K \<equiv> has_flag SYMBOL_CHOICEVAL s K"
abbreviation "sym_is_optional s K \<equiv> has_flag SYMBOL_OPTIONAL s K"
abbreviation "sym_has_value s K \<equiv> \<not> has_flag SYMBOL_NEW s K"
abbreviation "sym_get_tristate_value s K \<equiv> sv_tri (k_curr (ksym K s))"

definition set_curr :: "symbol_value \<Rightarrow> sym_ref \<Rightarrow> kconf \<Rightarrow> kconf" where
  "set_curr v s K = upd_sym s (\<lambda>y. y\<lparr>k_curr := v\<rparr>) K"

definition set_visible :: "tristate \<Rightarrow> sym_ref \<Rightarrow> kconf \<Rightarrow> kconf" where
  "set_visible v s K = upd_sym s (\<lambda>y. y\<lparr>k_visible := v\<rparr>) K"

section \<open>Properties of a symbol\<close>

definition set_menus_changed :: "kproperty list \<Rightarrow> kconf \<Rightarrow> kconf" where
  "set_menus_changed ps K = fold (\<lambda>p K. case p_menu p of None \<Rightarrow> K
     | Some m \<Rightarrow> K\<lparr>menu_flags := (menu_flags K)(m := menu_flags K m OR MENU_CHANGED)\<rparr>) ps K"

definition sym_set_changed :: "sym_ref \<Rightarrow> kconf \<Rightarrow> kconf" where
  "sym_set_changed s K = set_menus_changed (k_props (ksym K s)) (flag_set SYMBOL_CHANGED s K)"

definition sym_get_choice_prop :: "sym_ref \<Rightarrow> kconf \<Rightarrow> kproperty option" where
  "sym_get_choice_prop s K = find (\<lambda>p. p_type p = P_CHOICE) (k_props (ksym K s))"

definition set_prop_tri :: "sym_ref \<Rightarrow> nat \<Rightarrow> tristate \<Rightarrow> kconf \<Rightarrow> kconf" where
  "set_prop_tri s i v K =
     upd_sym s (\<lambda>y. y\<lparr>k_props := (k_props y)[i := (k_props y ! i)\<lparr>p_tri := v\<rparr>]\<rparr>) K"

text \<open>The string of a value; another pointer than one to a text is no string.\<close>

definition string_value :: "sym_ref \<Rightarrow> kconf \<Rightarrow> string outcome" where
  "string_value s K =
     (if k_type (ksym K s) \<in> {S_BOOLEAN, S_TRISTATE}
      then Ret (case sym_get_tristate_value s K of tri_no \<Rightarrow> ''n'' | tri_mod \<Rightarrow> ''m'' | tri_yes \<Rightarrow> ''y'')
      else case sv_value (k_curr (ksym K s)) of
          VStr i t \<Rightarrow> Ret t
        | VName t \<Rightarrow> (case k_name (ksym K t) of Some n \<Rightarrow> Ret n | None \<Rightarrow> Fault)
        | _ \<Rightarrow> Fault)"

section \<open>Calculating values\<close>

text \<open>cv stands for sym_calc_value in what follows.\<close>

type_synonym calc = "sym_ref \<Rightarrow> kconf \<Rightarrow> kconf outcome"

primrec calc_expr :: "calc \<Rightarrow> expr \<Rightarrow> kconf \<Rightarrow> (tristate \<times> kconf) outcome" where
  "calc_expr cv (ESym s) K = obind (cv s K) (\<lambda>K. Ret (sym_get_tristate_value s K, K))"
| "calc_expr cv (EAnd a b) K = obind (calc_expr cv a K) (\<lambda>(x, K). obind (calc_expr cv b K) (\<lambda>(y, K). Ret (E_AND_val x y, K)))"
| "calc_expr cv (EOr a b) K = obind (calc_expr cv a K) (\<lambda>(x, K). obind (calc_expr cv b K) (\<lambda>(y, K). Ret (E_OR_val x y, K)))"
| "calc_expr cv (ENot a) K = obind (calc_expr cv a K) (\<lambda>(x, K). Ret (E_NOT_val x, K))"
| "calc_expr cv (EEqual s t) K = obind (cv s K) (\<lambda>K. obind (cv t K) (\<lambda>K.
     obind (string_value s K) (\<lambda>a. obind (string_value t K) (\<lambda>b. Ret (if a = b then tri_yes else tri_no, K)))))"
| "calc_expr cv (EUnequal s t) K = obind (cv s K) (\<lambda>K. obind (cv t K) (\<lambda>K.
     obind (string_value s K) (\<lambda>a. obind (string_value t K) (\<lambda>b. Ret (if a = b then tri_no else tri_yes, K)))))"

text \<open>E_CALC stores the value it calculates in the property.\<close>

definition E_CALC :: "calc \<Rightarrow> sym_ref \<Rightarrow> nat \<Rightarrow> kconf \<Rightarrow> (tristate \<times> kconf) outcome" where
  "E_CALC cv s i K =
     obind (case p_visible (k_props (ksym K s) ! i) of None \<Rightarrow> Ret (tri_yes, K) | Some e \<Rightarrow> calc_expr cv e K)
       (\<lambda>(v, K). Ret (v, set_prop_tri s i v K))"

text \<open>The macro E_OR evaluates its second argument again where it is the result.\<close>

fun prompt_loop :: "calc \<Rightarrow> sym_ref \<Rightarrow> nat list \<Rightarrow> tristate \<Rightarrow> kconf \<Rightarrow> (tristate \<times> kconf) outcome" where
  "prompt_loop cv s [] v K = Ret (v, K)"
| "prompt_loop cv s (i # is) v K =
     (if p_type (k_props (ksym K s) ! i) = P_PROMPT
      then obind (E_CALC cv s i K) (\<lambda>(x, K).
             if v > x then prompt_loop cv s is v K
             else obind (E_CALC cv s i K) (\<lambda>(x, K). prompt_loop cv s is x K))
      else prompt_loop cv s is v K)"

definition sym_calc_visibility :: "calc \<Rightarrow> calc" where
  "sym_calc_visibility cv s K =
     (let oldvisible = k_visible (ksym K s)
      in obind (prompt_loop cv s [0..<length (k_props (ksym K s))] tri_no K) (\<lambda>(v, K).
           Ret (if oldvisible \<noteq> v then sym_set_changed s (set_visible v s K) else K)))"

text \<open>The first default whose condition holds; the result is its symbol.\<close>

fun default_loop :: "calc \<Rightarrow> sym_ref \<Rightarrow> nat list \<Rightarrow> kconf \<Rightarrow> (kproperty option \<times> kconf) outcome" where
  "default_loop cv s [] K = Ret (None, K)"
| "default_loop cv s (i # is) K =
     (if p_type (k_props (ksym K s) ! i) = P_DEFAULT
      then obind (E_CALC cv s i K) (\<lambda>(x, K).
             if x \<noteq> tri_no then Ret (Some (k_props (ksym K s) ! i), K) else default_loop cv s is K)
      else default_loop cv s is K)"

definition sym_get_default_prop :: "calc \<Rightarrow> sym_ref \<Rightarrow> kconf \<Rightarrow> (kproperty option \<times> kconf) outcome" where
  "sym_get_default_prop cv s K = default_loop cv s [0..<length (k_props (ksym K s))] K"

definition sym_get_type :: "calc \<Rightarrow> sym_ref \<Rightarrow> kconf \<Rightarrow> (symbol_type \<times> kconf) outcome" where
  "sym_get_type cv s K =
     (if k_type (ksym K s) = S_TRISTATE
      then if sym_is_choice_value s K \<and> k_visible (ksym K s) = tri_yes then Ret (S_BOOLEAN, K)
           else obind (cv (modules_sym K) K) (\<lambda>K.
                  Ret (if sym_get_tristate_value (modules_sym K) K = tri_no then S_BOOLEAN else S_TRISTATE, K))
      else Ret (k_type (ksym K s), K))"

text \<open>The value of a default property.\<close>

definition default_value :: "calc \<Rightarrow> kproperty \<Rightarrow> kconf \<Rightarrow> (symbol_value \<times> kconf) outcome" where
  "default_value cv p K =
     (case p_def p of None \<Rightarrow> Fault
      | Some d \<Rightarrow> obind (cv d K) (\<lambda>K. Ret (k_curr (ksym K d), K)))"

text \<open>What the user has set, or the default.\<close>

definition chosen_value :: "calc \<Rightarrow> sym_ref \<Rightarrow> symbol_value \<Rightarrow> kconf \<Rightarrow> (symbol_value \<times> kconf) outcome" where
  "chosen_value cv s v K =
     (if sym_has_value s K then Ret (k_def (ksym K s), K)
      else if sym_is_choice s K then Ret (v\<lparr>sv_tri := sv_tri (k_def (ksym K s))\<rparr>, K)
      else obind (sym_get_default_prop cv s K) (\<lambda>(p, K).
             case p of None \<Rightarrow> Ret (v, K) | Some p \<Rightarrow> default_value cv p K))"

definition choice_value :: "sym_ref \<Rightarrow> symbol_value \<Rightarrow> kconf \<Rightarrow> symbol_value outcome" where
  "choice_value s v K =
     (if sym_is_choice_value s K \<and> k_visible (ksym K s) = tri_yes
      then case sym_get_choice_prop s K of
          None \<Rightarrow> Fault
        | Some p \<Rightarrow> (case p_def p of
              None \<Rightarrow> Fault
            | Some ch \<Rightarrow> Ret (v\<lparr>sv_tri := (if sv_value (k_curr (ksym K ch)) = VSym s then tri_yes else tri_no)\<rparr>))
      else Ret v)"

definition new_value :: "calc \<Rightarrow> sym_ref \<Rightarrow> symbol_value \<Rightarrow> kconf \<Rightarrow> (symbol_value \<times> kconf) outcome" where
  "new_value cv s v K =
     (if k_visible (ksym K s) \<noteq> tri_no
      then obind (chosen_value cv s v (flag_set SYMBOL_WRITE s K)) (\<lambda>(v, K).
             (let v1 = v\<lparr>sv_tri := E_AND_val (sv_tri v) (k_visible (ksym K s))\<rparr>;
                  v2 = (if \<not> sym_is_optional s K \<and> sv_tri v1 = tri_no then v1\<lparr>sv_tri := k_visible (ksym K s)\<rparr> else v1)
              in obind (choice_value s v2 K) (\<lambda>v. Ret (v, K))))
      else obind (sym_get_default_prop cv s K) (\<lambda>(p, K).
             case p of None \<Rightarrow> Ret (v, K) | Some p \<Rightarrow> default_value cv p (flag_set SYMBOL_WRITE s K)))"

definition adjust_mod :: "calc \<Rightarrow> symbol_type \<Rightarrow> symbol_value \<Rightarrow> kconf \<Rightarrow> (symbol_value \<times> kconf) outcome" where
  "adjust_mod cv ty v K =
     (if sv_tri v = tri_mod
      then if ty = S_TRISTATE
           then obind (cv (modules_sym K) K) (\<lambda>K.
                  Ret (if sym_get_tristate_value (modules_sym K) K = tri_no then v\<lparr>sv_tri := tri_yes\<rparr> else v, K))
           else if ty = S_BOOLEAN then Ret (v\<lparr>sv_tri := tri_yes\<rparr>, K)
           else Ret (v, K)
      else Ret (v, K))"

text \<open>The member a choice with value y selects: the one the user chose, if it is visible, else the
  first visible default, else the first visible member.\<close>

definition user_choice :: "calc \<Rightarrow> sym_ref \<Rightarrow> kconf \<Rightarrow> (sym_ref option \<times> kconf) outcome" where
  "user_choice cv s K =
     (case sv_value (k_def (ksym K s)) of
        VNull \<Rightarrow> Ret (None, K)
      | VSym d \<Rightarrow> obind (sym_calc_visibility cv d K) (\<lambda>K. Ret (if k_visible (ksym K d) = tri_no then None else Some d, K))
      | _ \<Rightarrow> Fault)"

fun default_choice_loop :: "calc \<Rightarrow> sym_ref \<Rightarrow> nat list \<Rightarrow> kconf \<Rightarrow> (sym_ref option \<times> kconf) outcome" where
  "default_choice_loop cv s [] K = Ret (None, K)"
| "default_choice_loop cv s (i # is) K =
     (if p_type (k_props (ksym K s) ! i) = P_DEFAULT
      then obind (E_CALC cv s i K) (\<lambda>(x, K).
             if x = tri_no then default_choice_loop cv s is K
             else (case p_def (k_props (ksym K s) ! i) of
                 None \<Rightarrow> Fault
               | Some d \<Rightarrow> obind (sym_calc_visibility cv d K) (\<lambda>K.
                   if k_visible (ksym K d) \<noteq> tri_no then Ret (Some d, K) else default_choice_loop cv s is K)))
      else default_choice_loop cv s is K)"

fun member_loop :: "calc \<Rightarrow> sym_ref list \<Rightarrow> kconf \<Rightarrow> (sym_ref option \<times> kconf) outcome" where
  "member_loop cv [] K = Ret (None, K)"
| "member_loop cv (d # ds) K =
     obind (sym_calc_visibility cv d K) (\<lambda>K.
       if k_visible (ksym K d) \<noteq> tri_no then Ret (Some d, K) else member_loop cv ds K)"

definition select_member :: "calc \<Rightarrow> sym_ref \<Rightarrow> kconf \<Rightarrow> (sym_ref option \<times> kconf) outcome" where
  "select_member cv s K =
     obind (user_choice cv s K) (\<lambda>(d, K).
       if d \<noteq> None then Ret (d, K)
       else obind (default_choice_loop cv s [0..<length (k_props (ksym K s))] K) (\<lambda>(d, K).
         if d \<noteq> None then Ret (d, K)
         else (case sym_get_choice_prop s K of None \<Rightarrow> Fault | Some p \<Rightarrow> member_loop cv (p_members p) K)))"

definition mark_members :: "u32 \<Rightarrow> sym_ref list \<Rightarrow> kconf \<Rightarrow> kconf" where
  "mark_members w ds K = fold (\<lambda>d K. (let K1 = flag_set w d K
     in if w AND SYMBOL_CHANGED \<noteq> 0 then sym_set_changed d K1 else K1)) ds K"

definition finish_value :: "calc \<Rightarrow> sym_ref \<Rightarrow> symbol_value \<Rightarrow> symbol_value \<Rightarrow> kconf \<Rightarrow> kconf outcome" where
  "finish_value cv s old v K0 =
     (let K = set_curr v s K0
      in obind (if sym_is_choice s K \<and> sv_tri v = tri_yes
                then obind (select_member cv s K) (\<lambda>(d, K).
                       Ret (v\<lparr>sv_value := (case d of None \<Rightarrow> VNull | Some d \<Rightarrow> VSym d)\<rparr>, K))
                else Ret (v, K)) (\<lambda>(v, K).
           (let K1 = set_curr v s (if old \<noteq> v then sym_set_changed s K else K)
            in if sym_is_choice s K1
               then (case sym_get_choice_prop s K1 of
                   None \<Rightarrow> Fault
                 | Some p \<Rightarrow> Ret (mark_members (k_flags (ksym K1 s) AND (SYMBOL_CHANGED OR SYMBOL_WRITE)) (p_members p) K1))
               else Ret K1)))"

definition has_values :: "symbol_type \<Rightarrow> bool" where
  "has_values ty \<longleftrightarrow> ty \<in> {S_INT, S_HEX, S_STRING, S_BOOLEAN, S_TRISTATE}"

definition start_value :: "symbol_type \<Rightarrow> kconf \<Rightarrow> symbol_value" where
  "start_value ty K = k_curr (ksym K (if ty \<in> {S_BOOLEAN, S_TRISTATE} then symbol_no else symbol_empty))"

text \<open>A symbol with values, once it is marked as calculated; v is its value for a recursive call.\<close>

definition typed_value :: "calc \<Rightarrow> sym_ref \<Rightarrow> symbol_value \<Rightarrow> symbol_value \<Rightarrow> kconf \<Rightarrow> kconf outcome" where
  "typed_value cv s old v K =
     obind (sym_calc_visibility cv s K) (\<lambda>K.
       obind (new_value cv s v (set_curr v s K)) (\<lambda>(v, K).
         obind (sym_get_type cv s K) (\<lambda>(ty, K).
           obind (adjust_mod cv ty v K) (\<lambda>(v, K). finish_value cv s old v K))))"

definition value_step :: "calc \<Rightarrow> calc" where
  "value_step cv s K =
     (if has_flag SYMBOL_VALID s K then Ret K
      else if has_values (k_type (ksym K s))
      then (let K1 = flag_set SYMBOL_VALID s K;
                K2 = (if sym_is_choice_value s K1 then K1 else flag_clear SYMBOL_WRITE s K1)
            in typed_value cv s (k_curr (ksym K s)) (start_value (k_type (ksym K s)) K) K2)
      else finish_value cv s (k_curr (ksym K s)) \<lparr>sv_value = VName s, sv_tri = tri_no\<rparr> K)"

fun sym_calc_value :: "nat \<Rightarrow> calc" where
  "sym_calc_value 0 s K = Timeout"
| "sym_calc_value (Suc n) s K = value_step (sym_calc_value n) s K"


declare sym_calc_value.simps [simp del]

section \<open>All symbols\<close>

definition SYMBOL_HASHSIZE :: nat where "SYMBOL_HASHSIZE = 257"
definition SYMBOL_HASHMASK :: u32 where "SYMBOL_HASHMASK = 0xff"

definition all_symbols :: "kconf \<Rightarrow> sym_ref list" where
  "all_symbols K = filter (\<lambda>s. k_type (ksym K s) \<noteq> S_OTHER) (concat (map (symbol_hash K) [0..<SYMBOL_HASHSIZE]))"

definition sym_clear_all_valid :: "kconf \<Rightarrow> kconf" where
  "sym_clear_all_valid K =
     (let K1 = fold (flag_clear SYMBOL_VALID) (all_symbols K) K
      in K1\<lparr>sym_change_count := sym_change_count K1 + 1\<rparr>)"

definition sym_set_all_changed :: "kconf \<Rightarrow> kconf" where
  "sym_set_all_changed K = fold sym_set_changed (all_symbols K) K"

section \<open>Finding symbols\<close>

text \<open>A char is signed; the bucket is a sum of chars, and that of the symbols without a name is 256.\<close>

fun hash_loop :: "u32 \<Rightarrow> string \<Rightarrow> u32" where
  "hash_loop h [] = h"
| "hash_loop h (c # cs) = hash_loop (h + scast (of_char c :: u8)) cs"

definition sym_bucket :: "string \<Rightarrow> nat" where
  "sym_bucket name = unat (hash_loop 0 name AND SYMBOL_HASHMASK)"

definition static_symbol :: "string \<Rightarrow> sym_ref option" where
  "static_symbol name =
     (if name = ''y'' then Some symbol_yes else if name = ''m'' then Some symbol_mod
      else if name = ''n'' then Some symbol_no else None)"

text \<open>strcmp of a null pointer is a fault.\<close>

fun bucket_loop :: "kconf \<Rightarrow> string \<Rightarrow> bool \<Rightarrow> sym_ref list \<Rightarrow> sym_ref option outcome" where
  "bucket_loop K name isconst [] = Ret None"
| "bucket_loop K name isconst (s # ss) =
     (case k_name (ksym K s) of
        None \<Rightarrow> Fault
      | Some n \<Rightarrow> if n = name \<and> has_flag SYMBOL_CONST s K = isconst then Ret (Some s)
                  else bucket_loop K name isconst ss)"

definition fresh_symbol :: "string option \<Rightarrow> bool \<Rightarrow> ksymbol" where
  "fresh_symbol name isconst =
     \<lparr>k_name = name, k_type = S_UNKNOWN, k_curr = \<lparr>sv_value = VNull, sv_tri = tri_no\<rparr>,
      k_def = \<lparr>sv_value = VNull, sv_tri = tri_no\<rparr>, k_visible = tri_no,
      k_flags = (if isconst then SYMBOL_NEW OR SYMBOL_CONST else SYMBOL_NEW), k_props = []\<rparr>"

definition add_symbol :: "nat \<Rightarrow> string option \<Rightarrow> bool \<Rightarrow> kconf \<Rightarrow> sym_ref \<times> kconf" where
  "add_symbol h name isconst K =
     (let s = Symbol (numSymbols K)
      in (s, K\<lparr>ksym := (ksym K)(s := fresh_symbol name isconst),
               symbol_hash := (symbol_hash K)(h := s # symbol_hash K h), numSymbols := numSymbols K + 1\<rparr>))"

definition sym_lookup :: "string option \<Rightarrow> bool \<Rightarrow> kconf \<Rightarrow> (sym_ref \<times> kconf) outcome" where
  "sym_lookup name isconst K =
     (case name of
        None \<Rightarrow> Ret (add_symbol 256 None isconst K)
      | Some n \<Rightarrow>
          (case static_symbol n of
             Some s \<Rightarrow> Ret (s, K)
           | None \<Rightarrow> obind (bucket_loop K n isconst (symbol_hash K (sym_bucket n))) (\<lambda>r.
               case r of Some s \<Rightarrow> Ret (s, K) | None \<Rightarrow> Ret (add_symbol (sym_bucket n) name isconst K))))"

definition sym_find :: "string option \<Rightarrow> kconf \<Rightarrow> sym_ref option outcome" where
  "sym_find name K =
     (case name of
        None \<Rightarrow> Ret None
      | Some n \<Rightarrow>
          (case static_symbol n of
             Some s \<Rightarrow> Ret (Some s)
           | None \<Rightarrow> bucket_loop K n False (symbol_hash K (sym_bucket n))))"

definition create_prop :: "prop_type \<Rightarrow> kproperty" where
  "create_prop ty = \<lparr>p_type = ty, p_text = None, p_def = None, p_visible = None, p_tri = tri_no, p_members = [], p_menu = None\<rparr>"

definition append_prop :: "sym_ref \<Rightarrow> kproperty \<Rightarrow> kconf \<Rightarrow> kconf" where
  "append_prop s p K = upd_sym s (\<lambda>y. y\<lparr>k_props := k_props y @ [p]\<rparr>) K"

definition sym_add_default :: "sym_ref \<Rightarrow> string \<Rightarrow> kconf \<Rightarrow> kconf outcome" where
  "sym_add_default s d K =
     obind (sym_lookup (Some d) True K) (\<lambda>(t, K). Ret (append_prop s ((create_prop P_DEFAULT)\<lparr>p_def := Some t\<rparr>) K))"

text \<open>A string symbol whose value comes from the environment.\<close>

definition auto_symbol :: "string \<Rightarrow> string option \<Rightarrow> kconf \<Rightarrow> kconf outcome" where
  "auto_symbol name env K =
     obind (sym_lookup (Some name) False K) (\<lambda>(s, K).
       (let K1 = flag_set SYMBOL_AUTO s (upd_sym s (\<lambda>y. y\<lparr>k_type := S_STRING\<rparr>) K)
        in case env of None \<Rightarrow> Ret K1 | Some e \<Rightarrow> sym_add_default s e K1))"

definition sym_init :: "(string \<Rightarrow> string option) \<Rightarrow> string \<Rightarrow> kconf \<Rightarrow> kconf outcome" where
  "sym_init getenv release K =
     (if sym_inited K then Ret K
      else obind (auto_symbol ''ARCH'' (getenv ''ARCH'') (K\<lparr>sym_inited := True\<rparr>)) (\<lambda>K.
             obind (auto_symbol ''KERNELRELEASE'' (getenv ''KERNELRELEASE'') K) (\<lambda>K.
               auto_symbol ''UNAME_RELEASE'' (Some release) K)))"

fun sym_type_name :: "symbol_type \<Rightarrow> string" where
  "sym_type_name S_BOOLEAN = ''boolean''"
| "sym_type_name S_TRISTATE = ''tristate''"
| "sym_type_name S_INT = ''integer''"
| "sym_type_name S_HEX = ''hex''"
| "sym_type_name S_STRING = ''string''"
| "sym_type_name S_UNKNOWN = ''unknown''"
| "sym_type_name S_OTHER = ''???''"

fun prop_get_type_name :: "prop_type \<Rightarrow> string" where
  "prop_get_type_name P_PROMPT = ''prompt''"
| "prop_get_type_name P_COMMENT = ''comment''"
| "prop_get_type_name P_MENU = ''menu''"
| "prop_get_type_name P_ROOTMENU = ''rootmenu''"
| "prop_get_type_name P_DEFAULT = ''default''"
| "prop_get_type_name P_CHOICE = ''choice''"
| "prop_get_type_name P_UNKNOWN = ''unknown''"

section \<open>Setting values\<close>

definition sym_tristate_within_range :: "calc \<Rightarrow> sym_ref \<Rightarrow> tristate \<Rightarrow> kconf \<Rightarrow> (bool \<times> kconf) outcome" where
  "sym_tristate_within_range cv s val K =
     obind (sym_get_type cv s K) (\<lambda>(ty, K).
       Ret (if k_visible (ksym K s) = tri_no then False
            else if ty \<noteq> S_BOOLEAN \<and> ty \<noteq> S_TRISTATE then False
            else (case val of
                tri_no \<Rightarrow> if sym_is_choice_value s K \<and> k_visible (ksym K s) = tri_yes then False else sym_is_optional s K
              | tri_mod \<Rightarrow> if sym_is_choice_value s K \<and> k_visible (ksym K s) = tri_yes then False else ty = S_TRISTATE
              | tri_yes \<Rightarrow> ty = S_BOOLEAN \<or> k_visible (ksym K s) = tri_yes), K))"

definition set_def :: "(symbol_value \<Rightarrow> symbol_value) \<Rightarrow> sym_ref \<Rightarrow> kconf \<Rightarrow> kconf" where
  "set_def f s K = upd_sym s (\<lambda>y. y\<lparr>k_def := f (k_def y)\<rparr>) K"

text \<open>The user has set the symbol.\<close>

definition not_new :: "sym_ref \<Rightarrow> kconf \<Rightarrow> kconf" where
  "not_new s K = (if has_flag SYMBOL_NEW s K then sym_set_changed s (flag_clear SYMBOL_NEW s K) else K)"

definition choose_member :: "sym_ref \<Rightarrow> tristate \<Rightarrow> kconf \<Rightarrow> kconf outcome" where
  "choose_member s val K =
     (if sym_is_choice_value s K \<and> val = tri_yes
      then case sym_get_choice_prop s K of
          None \<Rightarrow> Fault
        | Some p \<Rightarrow> (case p_def p of
              None \<Rightarrow> Fault
            | Some ch \<Rightarrow> Ret (flag_clear SYMBOL_NEW ch (set_def (\<lambda>v. v\<lparr>sv_value := VSym s\<rparr>) ch K)))
      else Ret K)"

definition sym_set_tristate_value :: "calc \<Rightarrow> sym_ref \<Rightarrow> tristate \<Rightarrow> kconf \<Rightarrow> (bool \<times> kconf) outcome" where
  "sym_set_tristate_value cv s val K =
     (let oldval = sym_get_tristate_value s K
      in obind (if oldval \<noteq> val then sym_tristate_within_range cv s val K else Ret (True, K)) (\<lambda>(ok, K).
           if \<not> ok then Ret (False, K)
           else obind (choose_member s val (not_new s K)) (\<lambda>K.
             (let K1 = set_def (\<lambda>v. v\<lparr>sv_tri := val\<rparr>) s K
              in Ret (True, if oldval \<noteq> val
                            then (let K2 = sym_clear_all_valid K1 in if s = modules_sym K2 then sym_set_all_changed K2 else K2)
                            else K1)))))"

fun tri_next :: "tristate \<Rightarrow> tristate" where
  "tri_next tri_no = tri_mod"
| "tri_next tri_mod = tri_yes"
| "tri_next tri_yes = tri_no"

text \<open>The fuel is the number of rounds; three of them come back to the old value.\<close>

fun toggle_loop :: "nat \<Rightarrow> calc \<Rightarrow> sym_ref \<Rightarrow> tristate \<Rightarrow> tristate \<Rightarrow> kconf \<Rightarrow> (tristate \<times> kconf) outcome" where
  "toggle_loop 0 cv s oldval newval K = Timeout"
| "toggle_loop (Suc n) cv s oldval newval K =
     (let newval = tri_next newval
      in obind (sym_set_tristate_value cv s newval K) (\<lambda>(ok, K).
           if ok then Ret (newval, K)
           else if oldval \<noteq> newval then toggle_loop n cv s oldval newval K else Ret (newval, K)))"

definition sym_toggle_tristate_value :: "calc \<Rightarrow> sym_ref \<Rightarrow> kconf \<Rightarrow> (tristate \<times> kconf) outcome" where
  "sym_toggle_tristate_value cv s K = toggle_loop 3 cv s (sym_get_tristate_value s K) (sym_get_tristate_value s K) K"

definition digit_chars :: string where "digit_chars = ''0123456789''"
definition xdigit_chars :: string where "xdigit_chars = ''0123456789abcdefABCDEF''"

text \<open>The loops run to the terminating null char, which is no digit.\<close>

definition int_valid :: "string \<Rightarrow> bool" where
  "int_valid str =
     (let t = (case str of c # cs \<Rightarrow> if c = CHR ''-'' then cs else str | [] \<Rightarrow> str)
      in case t of
          [] \<Rightarrow> False
        | c # cs \<Rightarrow> if c \<notin> set digit_chars then False
                    else if c = CHR ''0'' \<and> cs \<noteq> [] then False
                    else list_all (\<lambda>c. c \<in> set digit_chars) cs)"

definition has_hex_prefix :: "string \<Rightarrow> bool" where
  "has_hex_prefix str = (case str of c # d # cs \<Rightarrow> c = CHR ''0'' \<and> (d = CHR ''x'' \<or> d = CHR ''X'') | _ \<Rightarrow> False)"

definition hex_valid :: "string \<Rightarrow> bool" where
  "hex_valid str =
     (let t = (if has_hex_prefix str then drop 2 str else str)
      in t \<noteq> [] \<and> list_all (\<lambda>c. c \<in> set xdigit_chars) t)"

definition tri_of_char :: "string \<Rightarrow> tristate option" where
  "tri_of_char str =
     (case str of
        [] \<Rightarrow> None
      | c # cs \<Rightarrow> if c = CHR ''y'' \<or> c = CHR ''Y'' then Some tri_yes
                  else if c = CHR ''m'' \<or> c = CHR ''M'' then Some tri_mod
                  else if c = CHR ''n'' \<or> c = CHR ''N'' then Some tri_no else None)"

definition sym_string_valid :: "calc \<Rightarrow> sym_ref \<Rightarrow> string \<Rightarrow> kconf \<Rightarrow> (bool \<times> kconf) outcome" where
  "sym_string_valid cv s str K =
     (case k_type (ksym K s) of
        S_STRING \<Rightarrow> Ret (True, K)
      | S_INT \<Rightarrow> Ret (int_valid str, K)
      | S_HEX \<Rightarrow> Ret (hex_valid str, K)
      | S_UNKNOWN \<Rightarrow> Ret (False, K)
      | S_OTHER \<Rightarrow> Ret (False, K)
      | _ \<Rightarrow> (case tri_of_char str of None \<Rightarrow> Ret (False, K) | Some v \<Rightarrow> sym_tristate_within_range cv s v K))"

text \<open>A fresh copy of a text becomes the value the user chose.\<close>

definition set_text :: "string \<Rightarrow> sym_ref \<Rightarrow> kconf \<Rightarrow> kconf" where
  "set_text t s K = (set_def (\<lambda>v. v\<lparr>sv_value := VStr (numTexts K) t\<rparr>) s K)\<lparr>numTexts := numTexts K + 1\<rparr>"

definition old_text :: "value_ptr \<Rightarrow> string option outcome" where
  "old_text v = (case v of VNull \<Rightarrow> Ret None | VStr i t \<Rightarrow> Ret (Some t) | _ \<Rightarrow> Fault)"

definition sym_set_string_value :: "calc \<Rightarrow> sym_ref \<Rightarrow> string \<Rightarrow> kconf \<Rightarrow> (bool \<times> kconf) outcome" where
  "sym_set_string_value cv s newval K =
     (if k_type (ksym K s) \<in> {S_BOOLEAN, S_TRISTATE}
      then (case tri_of_char newval of None \<Rightarrow> Ret (False, K) | Some v \<Rightarrow> sym_set_tristate_value cv s v K)
      else obind (sym_string_valid cv s newval K) (\<lambda>(ok, K).
        if \<not> ok then Ret (False, K)
        else (let K1 = not_new s K
          in if k_type (ksym K1 s) = S_HEX \<and> \<not> has_hex_prefix newval
             then Ret (True, sym_clear_all_valid (set_text (''0x'' @ newval) s K1))
             else obind (old_text (sv_value (k_def (ksym K1 s)))) (\<lambda>oldval.
               if oldval = None \<or> oldval \<noteq> Some newval then Ret (True, sym_clear_all_valid (set_text newval s K1))
               else Ret (True, K1)))))"

definition sym_is_changable :: "calc \<Rightarrow> sym_ref \<Rightarrow> kconf \<Rightarrow> (bool \<times> kconf) outcome" where
  "sym_is_changable cv s K =
     (if k_visible (ksym K s) = tri_no then Ret (False, K)
      else if sym_is_optional s K then Ret (True, K)
      else obind (sym_get_type cv s K) (\<lambda>(ty, K). Ret (ty = S_TRISTATE \<and> k_visible (ksym K s) = tri_yes, K)))"

end
