(* ===== verification/Kmenu.thy ===== *)
theory Kmenu
  imports Ksym
begin

text \<open>
  tools/kconfig/menu.c: the tree of menu entries that the parser of the configuration files
  builds, the prompts of the entries and the order in which conf_write visits them.  An entry is a
  number, the root menu is 0.  A prompt points to a property of a symbol or, for an entry without a
  symbol, to a property of its own.  The flags of the entries are in the state of the symbols.
  Files and line numbers of entries and properties, which serve messages only, are left out;
  menu_finalize is in theory Kfinal.
\<close>

section \<open>Menu entries\<close>

datatype prompt_ref = PropOf sym_ref nat | OwnProp nat

record kmenu =
  m_next :: "nat option"
  m_parent :: "nat option"
  m_list :: "nat option"
  m_sym :: "sym_ref option"
  m_prompt :: "prompt_ref option"
  m_dep :: "expr option"

text \<open>last_entry_ptr is the address of the list or of the next field of an entry.\<close>

datatype menu_link = ListOf nat | NextOf nat

record kmenus =
  entry :: "nat \<Rightarrow> kmenu"
  own_props :: "nat \<Rightarrow> kproperty"
  num_menus :: nat
  num_props :: nat
  current_menu :: "nat option"
  current_entry :: nat
  last_entry_ptr :: menu_link

definition rootmenu :: nat where "rootmenu = 0"

definition menu_init :: "kmenus \<Rightarrow> kmenus" where
  "menu_init M = M\<lparr>current_entry := rootmenu, current_menu := Some rootmenu, last_entry_ptr := ListOf rootmenu\<rparr>"

definition upd_entry :: "nat \<Rightarrow> (kmenu \<Rightarrow> kmenu) \<Rightarrow> kmenus \<Rightarrow> kmenus" where
  "upd_entry m f M = M\<lparr>entry := (entry M)(m := f (entry M m))\<rparr>"

fun set_link :: "menu_link \<Rightarrow> nat \<Rightarrow> kmenus \<Rightarrow> kmenus" where
  "set_link (ListOf m) x M = upd_entry m (\<lambda>e. e\<lparr>m_list := Some x\<rparr>) M"
| "set_link (NextOf m) x M = upd_entry m (\<lambda>e. e\<lparr>m_next := Some x\<rparr>) M"

definition menu_add_entry :: "sym_ref option \<Rightarrow> kmenus \<times> kconf \<Rightarrow> kmenus \<times> kconf" where
  "menu_add_entry s = (\<lambda>(M, K).
     (let m = num_menus M;
          M1 = M\<lparr>num_menus := m + 1,
                 entry := (entry M)(m := \<lparr>m_next = None, m_parent = current_menu M, m_list = None, m_sym = s, m_prompt = None, m_dep = None\<rparr>)\<rparr>;
          M2 = set_link (last_entry_ptr M1) m M1
      in (M2\<lparr>last_entry_ptr := NextOf m, current_entry := m\<rparr>, K\<lparr>menu_flags := (menu_flags K)(m := 0)\<rparr>)))"

definition menu_add_menu :: "kmenus \<Rightarrow> kmenus" where
  "menu_add_menu M = M\<lparr>current_menu := Some (current_entry M), last_entry_ptr := ListOf (current_entry M)\<rparr>"

definition menu_end_menu :: "kmenus \<Rightarrow> kmenus outcome" where
  "menu_end_menu M =
     (case current_menu M of
        None \<Rightarrow> Fault
      | Some m \<Rightarrow> Ret (M\<lparr>last_entry_ptr := NextOf m, current_menu := m_parent (entry M m)\<rparr>))"

definition menu_add_dep :: "expr option \<Rightarrow> kmenus \<Rightarrow> kmenus" where
  "menu_add_dep d M = upd_entry (current_entry M) (\<lambda>e. e\<lparr>m_dep := expr_alloc_and (m_dep e) d\<rparr>) M"

text \<open>The type of a symbol is set once; another type is reported and ignored.\<close>

definition menu_set_type :: "symbol_type \<Rightarrow> kmenus \<Rightarrow> kconf \<Rightarrow> kconf outcome" where
  "menu_set_type ty M K =
     (case m_sym (entry M (current_entry M)) of
        None \<Rightarrow> Fault
      | Some s \<Rightarrow> Ret (if k_type (ksym K s) = ty then K
                       else if k_type (ksym K s) = S_UNKNOWN then upd_sym s (\<lambda>y. y\<lparr>k_type := ty\<rparr>) K else K))"

section \<open>Properties of entries\<close>

definition menu_add_prop :: "prop_type \<Rightarrow> string option \<Rightarrow> sym_ref option \<Rightarrow> expr option \<Rightarrow> kmenus \<times> kconf \<Rightarrow> prompt_ref \<times> kmenus \<times> kconf" where
  "menu_add_prop token prompt d dep = (\<lambda>(M, K).
     (let c = current_entry M;
          p = (create_prop token)\<lparr>p_menu := Some c, p_text := prompt, p_def := d, p_visible := dep\<rparr>;
          (r, M1, K1) = (case m_sym (entry M c) of
              Some s \<Rightarrow> (PropOf s (length (k_props (ksym K s))), M, append_prop s p K)
            | None \<Rightarrow> (OwnProp (num_props M), M\<lparr>num_props := num_props M + 1, own_props := (own_props M)(num_props M := p)\<rparr>, K))
      in (r, if prompt \<noteq> None then upd_entry c (\<lambda>e. e\<lparr>m_prompt := Some r\<rparr>) M1 else M1, K1)))"

definition set_prompt :: "prompt_ref \<times> kmenus \<times> kconf \<Rightarrow> kmenus \<times> kconf" where
  "set_prompt = (\<lambda>(r, M, K). (upd_entry (current_entry M) (\<lambda>e. e\<lparr>m_prompt := Some r\<rparr>) M, K))"

definition menu_add_prompt :: "prop_type \<Rightarrow> string option \<Rightarrow> expr option \<Rightarrow> kmenus \<times> kconf \<Rightarrow> kmenus \<times> kconf" where
  "menu_add_prompt token prompt dep MK = set_prompt (menu_add_prop token prompt None dep MK)"

definition menu_add_default :: "prop_type \<Rightarrow> sym_ref option \<Rightarrow> expr option \<Rightarrow> kmenus \<times> kconf \<Rightarrow> kmenus \<times> kconf" where
  "menu_add_default token d dep MK = set_prompt (menu_add_prop token None d dep MK)"

definition prompt_prop :: "prompt_ref \<Rightarrow> kmenus \<Rightarrow> kconf \<Rightarrow> kproperty" where
  "prompt_prop r M K = (case r of PropOf s i \<Rightarrow> k_props (ksym K s) ! i | OwnProp i \<Rightarrow> own_props M i)"

definition set_prompt_tri :: "prompt_ref \<Rightarrow> tristate \<Rightarrow> kmenus \<times> kconf \<Rightarrow> kmenus \<times> kconf" where
  "set_prompt_tri r v = (\<lambda>(M, K). case r of
       PropOf s i \<Rightarrow> (M, set_prop_tri s i v K)
     | OwnProp i \<Rightarrow> (M\<lparr>own_props := (own_props M)(i := (own_props M i)\<lparr>p_tri := v\<rparr>)\<rparr>, K))"

definition menu_is_visible :: "calc \<Rightarrow> nat \<Rightarrow> kmenus \<times> kconf \<Rightarrow> (bool \<times> kmenus \<times> kconf) outcome" where
  "menu_is_visible cv m = (\<lambda>(M, K).
     (case m_prompt (entry M m) of
        None \<Rightarrow> Ret (False, M, K)
      | Some r \<Rightarrow>
          (case m_sym (entry M m) of
             Some s \<Rightarrow> obind (cv s K) (\<lambda>K. Ret (p_tri (prompt_prop r M K) \<noteq> tri_no, M, K))
           | None \<Rightarrow>
               obind (case p_visible (prompt_prop r M K) of None \<Rightarrow> Ret (tri_yes, K) | Some e \<Rightarrow> calc_expr cv e K) (\<lambda>(v, K).
                 Ret (v \<noteq> tri_no, set_prompt_tri r v (M, K))))))"

definition menu_get_prompt :: "nat \<Rightarrow> kmenus \<Rightarrow> kconf \<Rightarrow> string option" where
  "menu_get_prompt m M K =
     (case m_prompt (entry M m) of
        Some r \<Rightarrow> p_text (prompt_prop r M K)
      | None \<Rightarrow> (case m_sym (entry M m) of Some s \<Rightarrow> k_name (ksym K s) | None \<Rightarrow> None))"

definition menu_get_root_menu :: "nat \<Rightarrow> nat" where
  "menu_get_root_menu m = rootmenu"

text \<open>The fuel is the number of parents it climbs.\<close>

fun menu_get_parent_menu :: "nat \<Rightarrow> nat \<Rightarrow> kmenus \<Rightarrow> kconf \<Rightarrow> nat outcome" where
  "menu_get_parent_menu 0 m M K = Timeout"
| "menu_get_parent_menu (Suc n) m M K =
     (if m = rootmenu then Ret m
      else (case m_parent (entry M m) of
          None \<Rightarrow> Fault
        | Some p \<Rightarrow>
            if (case m_prompt (entry M p) of Some r \<Rightarrow> p_type (prompt_prop r M K) \<in> {P_MENU, P_ROOTMENU} | None \<Rightarrow> False) then Ret p
            else menu_get_parent_menu n p M K))"

section \<open>Walking the tree\<close>

text \<open>The entry conf_write visits after m: its first child, the next entry of its list, or the one after
  the first of its parents that has one.  The root menu has no next entry and no parent.\<close>

fun climb :: "nat \<Rightarrow> nat \<Rightarrow> kmenus \<Rightarrow> nat option outcome" where
  "climb 0 m M = Timeout"
| "climb (Suc n) m M =
     (case m_parent (entry M m) of
        None \<Rightarrow> Ret None
      | Some p \<Rightarrow> (case m_next (entry M p) of Some x \<Rightarrow> Ret (Some x) | None \<Rightarrow> climb n p M))"

definition next_entry :: "nat \<Rightarrow> nat \<Rightarrow> kmenus \<Rightarrow> nat option outcome" where
  "next_entry n m M =
     (case m_list (entry M m) of
        Some x \<Rightarrow> Ret (Some x)
      | None \<Rightarrow> (case m_next (entry M m) of Some x \<Rightarrow> Ret (Some x) | None \<Rightarrow> climb n m M))"

section \<open>Files\<close>

text \<open>The list of the files that have been read, the last one first.\<close>

definition file_lookup :: "string \<Rightarrow> string list \<Rightarrow> string list" where
  "file_lookup name fs = (if name \<in> set fs then fs else name # fs)"

definition tab :: string where "tab = [CHR 0x09]"
definition nl :: string where "nl = [CHR 0x0A]"
definition backslash :: string where "backslash = [CHR 0x5C]"

fun dep_lines :: "string list \<Rightarrow> string" where
  "dep_lines [] = []"
| "dep_lines [f] = tab @ f @ nl"
| "dep_lines (f # g # fs) = tab @ f @ '' '' @ backslash @ nl @ dep_lines (g # fs)"

text \<open>What file_write_dep writes.\<close>

definition file_write_dep :: "string list \<Rightarrow> string" where
  "file_write_dep fs = ''deps_config := '' @ backslash @ nl @ dep_lines fs @ nl @
     ''.config include/linux/autoconf.h: $(deps_config)'' @ nl @ nl @ ''$(deps_config):'' @ nl"

end
