(* ===== verification/Kconfdata.thy ===== *)
theory Kconfdata
  imports Kmenu
begin

text \<open>
  tools/kconfig/confdata.c: reading the user's values from .config and writing .config and
  autoconf.h.  The name of the file that is opened, and the file system, are parameters: the
  functions get and give the contents of files, which are texts without null chars.  The strings
  the program prints on its own output are left out; exit is a Panic.
\<close>

section \<open>Names of files\<close>

definition conf_def_filename :: string where "conf_def_filename = ''.config''"
definition conf_defname :: string where "conf_defname = ''arch/$ARCH/defconfig''"

definition conf_confnames :: "string list" where
  "conf_confnames = [''.config'', ''/lib/modules/$UNAME_RELEASE/.config'', ''/etc/kernel-config'', ''/boot/config-$UNAME_RELEASE'', conf_defname]"

definition SYMBOL_MAXLENGTH :: nat where "SYMBOL_MAXLENGTH = 256"

definition name_chars :: string where
  "name_chars = ''abcdefghijklmnopqrstuvwxyzABCDEFGHIJKLMNOPQRSTUVWXYZ0123456789_''"

text \<open>The copy into a buffer of SYMBOL_MAXLENGTH chars, with the null char.\<close>

definition fits_buffer :: "string \<Rightarrow> bool" where
  "fits_buffer t \<longleftrightarrow> length t < SYMBOL_MAXLENGTH"

function expand_loop :: "calc \<Rightarrow> string \<Rightarrow> string \<Rightarrow> kconf \<Rightarrow> (string \<times> kconf) outcome" where
  "expand_loop cv res inp K =
     (if CHR ''$'' \<in> set inp
      then (let res1 = res @ takeWhile (\<lambda>c. c \<noteq> CHR ''$'') inp;
                src = tl (dropWhile (\<lambda>c. c \<noteq> CHR ''$'') inp);
                name = takeWhile (\<lambda>c. c \<in> set name_chars) src
            in if \<not> fits_buffer res1 \<or> \<not> fits_buffer name then Fault
               else obind (sym_lookup (Some name) False K) (\<lambda>(s, K).
                 obind (cv s K) (\<lambda>K. obind (string_value s K) (\<lambda>v.
                   if \<not> fits_buffer (res1 @ v) then Fault
                   else expand_loop cv (res1 @ v) (dropWhile (\<lambda>c. c \<in> set name_chars) src) K))))
      else if \<not> fits_buffer (res @ inp) then Fault else Ret (res @ inp, K))"
  by pat_completeness auto

termination
proof (relation "measure (\<lambda>(cv, res, inp, K). length inp)")
  fix inp :: string and src :: string
  assume d: "CHR ''$'' \<in> set inp" "src = tl (dropWhile (\<lambda>c. c \<noteq> CHR ''$'') inp)"
  have "dropWhile (\<lambda>c. c \<noteq> CHR ''$'') inp \<noteq> []" using d(1) by (auto simp: dropWhile_eq_Nil_conv)
  then have "length src < length (dropWhile (\<lambda>c. c \<noteq> CHR ''$'') inp)" using d(2) by (cases "dropWhile (\<lambda>c. c \<noteq> CHR ''$'') inp") auto
  then have "length (dropWhile (\<lambda>c. c \<in> set name_chars) src) < length inp"
    using length_dropWhile_le [of "\<lambda>c. c \<in> set name_chars" src] length_dropWhile_le [of "\<lambda>c. c \<noteq> CHR ''$''" inp] by linarith
  then show "((cv, res', dropWhile (\<lambda>c. c \<in> set name_chars) src, K'), cv, res, inp, K) \<in> measure (\<lambda>(cv, res, inp, K). length inp)"
    for cv res' K' res K by simp
qed simp

declare expand_loop.simps [simp del]

definition conf_expand_value :: "calc \<Rightarrow> string \<Rightarrow> kconf \<Rightarrow> (string \<times> kconf) outcome" where
  "conf_expand_value cv inp K = expand_loop cv [] inp K"

definition PATH_MAX :: nat where "PATH_MAX = 4096"

text \<open>srctree is the value of the environment variable, stat tells whether a file exists.\<close>

definition conf_get_default_confname :: "calc \<Rightarrow> string option \<Rightarrow> (string \<Rightarrow> bool) \<Rightarrow> kconf \<Rightarrow> (string \<times> kconf) outcome" where
  "conf_get_default_confname cv srctree stat K =
     obind (conf_expand_value cv conf_defname K) (\<lambda>(name, K).
       (case srctree of
          None \<Rightarrow> Ret (name, K)
        | Some env \<Rightarrow>
            (let fullname = env @ ''/'' @ name
             in if length fullname > PATH_MAX then Fault
                else Ret (if stat fullname then fullname else name, K))))"

section \<open>Reading\<close>

text \<open>fgets with a buffer of 1024 chars.\<close>

definition line_chars :: nat where "line_chars = 1023"

definition fgets :: "string \<Rightarrow> string \<times> string" where
  "fgets f =
     (let t = takeWhile (\<lambda>c. c \<noteq> CHR 0x0A) f
      in if length t < line_chars
         then (take (length t + 1) f, drop (length t + 1) f)
         else (take line_chars f, drop line_chars f))"

lemma fgets_shorter: "f \<noteq> [] \<Longrightarrow> length (snd (fgets f)) < length f"
  by (auto simp: fgets_def Let_def line_chars_def)

function fgets_lines :: "string \<Rightarrow> string list" where
  "fgets_lines f = (if f = [] then [] else fst (fgets f) # fgets_lines (snd (fgets f)))"
  by pat_completeness auto

termination
  by (relation "measure length") (simp_all add: fgets_shorter)

declare fgets_lines.simps [simp del]

text \<open>memcmp with a text no longer than the line and its null char is a comparison of the prefix.\<close>

definition starts :: "string \<Rightarrow> string \<Rightarrow> bool" where
  "starts t line \<longleftrightarrow> take (length t) line = t"

text \<open>strchr, and what is before and after the char.\<close>

definition split_at :: "char \<Rightarrow> string \<Rightarrow> (string \<times> string) option" where
  "split_at c t = (if c \<in> set t then Some (takeWhile (\<lambda>d. d \<noteq> c) t, tl (dropWhile (\<lambda>d. d \<noteq> c) t)) else None)"

text \<open>The loop over a string value: a backslash is taken out and the char after it kept; None if there is
  no quote at the end; a backslash at the end of the line leads the loop out of the string.\<close>

fun unquote :: "string \<Rightarrow> string option outcome" where
  "unquote [] = Ret None"
| "unquote (c # cs) =
     (if c = CHR 0x22 then Ret (Some [])
      else if c = CHR 0x5C
      then (case cs of
          [] \<Rightarrow> Fault
        | d # ds \<Rightarrow> obind (unquote ds) (\<lambda>r. Ret (map_option (\<lambda>t. d # t) r)))
      else obind (unquote cs) (\<lambda>r. Ret (map_option (\<lambda>t. c # t) r)))"

text \<open>A user's value, and that the symbol has one.\<close>

definition read_tri :: "tristate \<Rightarrow> sym_ref \<Rightarrow> kconf \<Rightarrow> kconf" where
  "read_tri v s K = flag_clear SYMBOL_NEW s (set_def (\<lambda>d. d\<lparr>sv_tri := v\<rparr>) s K)"

definition read_text :: "calc \<Rightarrow> string \<Rightarrow> sym_ref \<Rightarrow> kconf \<Rightarrow> kconf outcome" where
  "read_text cv p s K =
     obind (sym_string_valid cv s p K) (\<lambda>(ok, K).
       if ok then Ret (flag_clear SYMBOL_NEW s (set_text p s K)) else Panic ''symbol value invalid'')"

definition first_char :: "string \<Rightarrow> char" where
  "first_char p = (case p of [] \<Rightarrow> CHR 0x00 | c # cs \<Rightarrow> c)"

definition read_value :: "calc \<Rightarrow> string \<Rightarrow> sym_ref \<Rightarrow> kconf \<Rightarrow> kconf outcome" where
  "read_value cv p s K =
     (case k_type (ksym K s) of
        S_TRISTATE \<Rightarrow> Ret (if first_char p = CHR ''m'' then read_tri tri_mod s K
                           else if first_char p = CHR ''y'' then read_tri tri_yes s K
                           else if first_char p = CHR ''n'' then read_tri tri_no s K else K)
      | S_BOOLEAN \<Rightarrow> Ret (if first_char p = CHR ''y'' then read_tri tri_yes s K
                          else if first_char p = CHR ''n'' then read_tri tri_no s K else K)
      | S_STRING \<Rightarrow> (if first_char p \<noteq> CHR 0x22 then Ret K
                     else obind (unquote (tl p)) (\<lambda>r. case r of None \<Rightarrow> Panic ''invalid string found'' | Some t \<Rightarrow> read_text cv t s K))
      | S_INT \<Rightarrow> read_text cv p s K
      | S_HEX \<Rightarrow> read_text cv p s K
      | _ \<Rightarrow> Ret K)"

text \<open>A member of a choice passes its value on to the choice.\<close>

definition read_choice :: "sym_ref \<Rightarrow> kconf \<Rightarrow> kconf outcome" where
  "read_choice s K =
     (if sym_is_choice_value s K
      then (case sym_get_choice_prop s K of
          None \<Rightarrow> Fault
        | Some p \<Rightarrow> (case p_def p of
              None \<Rightarrow> Fault
            | Some ch \<Rightarrow>
                (let v = sv_tri (k_def (ksym K s));
                     K1 = (if v = tri_yes then set_def (\<lambda>d. d\<lparr>sv_value := VSym s\<rparr>) ch K else K)
                 in Ret (set_def (\<lambda>d. d\<lparr>sv_tri := sv_tri (k_def (ksym K1 s))\<rparr>) ch K1))))
      else Ret K)"

definition not_set_line :: "string \<Rightarrow> kconf \<Rightarrow> kconf outcome" where
  "not_set_line line K =
     (if length line < 2 then Fault
      else if \<not> starts ''CONFIG_'' (drop 2 line) then Ret K
      else (case split_at CHR '' '' (drop 9 line) of
          None \<Rightarrow> Ret K
        | Some (name, p) \<Rightarrow>
            if \<not> starts ''is not set'' p then Ret K
            else obind (sym_lookup (Some name) False K) (\<lambda>(s, K).
              Ret (if k_type (ksym K s) \<in> {S_BOOLEAN, S_TRISTATE}
                   then flag_clear SYMBOL_NEW s (set_def (\<lambda>_. k_curr (ksym K symbol_no)) s K) else K))))"

definition value_line :: "calc \<Rightarrow> string \<Rightarrow> kconf \<Rightarrow> kconf outcome" where
  "value_line cv line K =
     (if \<not> starts ''CONFIG_'' line then Ret K
      else (case split_at CHR ''='' (drop 7 line) of
          None \<Rightarrow> Ret K
        | Some (name, q) \<Rightarrow>
            obind (sym_find (Some name) K) (\<lambda>r.
              case r of
                None \<Rightarrow> Ret K
              | Some s \<Rightarrow> obind (read_value cv (takeWhile (\<lambda>c. c \<noteq> CHR 0x0A) q) s K) (read_choice s))))"

text \<open>A line with nothing but # is compared with what the buffer held before.\<close>

definition conf_line :: "calc \<Rightarrow> string \<Rightarrow> kconf \<Rightarrow> kconf outcome" where
  "conf_line cv line K =
     (if first_char line = CHR ''#'' then not_set_line line K
      else if first_char line = CHR ''C'' then value_line cv line K
      else Ret K)"

fun conf_lines :: "calc \<Rightarrow> string list \<Rightarrow> kconf \<Rightarrow> kconf outcome" where
  "conf_lines cv [] K = Ret K"
| "conf_lines cv (l # ls) K = obind (conf_line cv l K) (conf_lines cv ls)"

definition forget :: "sym_ref \<Rightarrow> kconf \<Rightarrow> kconf" where
  "forget s K = set_def (\<lambda>_. \<lparr>sv_value = VNull, sv_tri = tri_no\<rparr>) s
     (flag_clear SYMBOL_VALID s (flag_set (SYMBOL_NEW OR SYMBOL_CHANGED) s K))"

fun new_choices :: "sym_ref list \<Rightarrow> kconf \<Rightarrow> kconf outcome" where
  "new_choices [] K = Ret K"
| "new_choices (s # ss) K =
     (if sym_is_choice s K
      then (case sym_get_choice_prop s K of
          None \<Rightarrow> Fault
        | Some p \<Rightarrow> new_choices ss (fold (\<lambda>d K. flag_set (k_flags (ksym K d) AND SYMBOL_NEW) s K) (p_members p) (flag_clear SYMBOL_NEW s K)))
      else new_choices ss K)"

text \<open>The first of the files that can be opened.\<close>

fun open_first :: "calc \<Rightarrow> (string \<Rightarrow> string option) \<Rightarrow> string list \<Rightarrow> kconf \<Rightarrow> (string option \<times> kconf) outcome" where
  "open_first cv zconf_fopen [] K = Ret (None, K)"
| "open_first cv zconf_fopen (n # ns) K =
     obind (conf_expand_value cv n K) (\<lambda>(name, K).
       case zconf_fopen name of Some f \<Rightarrow> Ret (Some f, K) | None \<Rightarrow> open_first cv zconf_fopen ns K)"

definition conf_read :: "calc \<Rightarrow> (string \<Rightarrow> string option) \<Rightarrow> string option \<Rightarrow> kconf \<Rightarrow> (int \<times> kconf) outcome" where
  "conf_read cv zconf_fopen name K =
     obind (case name of Some n \<Rightarrow> Ret (zconf_fopen n, K) | None \<Rightarrow> open_first cv zconf_fopen conf_confnames K) (\<lambda>(f, K).
       case f of
         None \<Rightarrow> Ret (1, K)
       | Some inp \<Rightarrow>
           obind (conf_lines cv (fgets_lines inp) (fold forget (all_symbols K) K)) (\<lambda>K.
             obind (new_choices (all_symbols K) K) (\<lambda>K. Ret (0, K\<lparr>sym_change_count := 1\<rparr>))))"

section \<open>Writing\<close>

text \<open>The texts for .config and for autoconf.h.\<close>

definition quoted_char :: "char \<Rightarrow> bool" where
  "quoted_char c \<longleftrightarrow> c = CHR 0x22 \<or> c = CHR 0x5C"

function write_string :: "string \<Rightarrow> string" where
  "write_string str =
     (let rest = dropWhile (\<lambda>c. \<not> quoted_char c) str;
          out = takeWhile (\<lambda>c. \<not> quoted_char c) str @ concat (map (\<lambda>c. [CHR 0x5C, c]) (takeWhile quoted_char rest));
          rest1 = dropWhile quoted_char rest
      in if rest1 \<noteq> [] then out @ write_string rest1 else out)"
  by pat_completeness auto

termination
proof (relation "measure length")
  fix str :: string and rest rest1 out :: string
  assume d: "rest = dropWhile (\<lambda>c. \<not> quoted_char c) str" "rest1 = dropWhile quoted_char rest" "rest1 \<noteq> []"
  have "rest = [] \<or> (\<exists>c cs. rest = c # cs \<and> quoted_char c)"
    by (cases rest) (auto simp: d(1) dropWhile_eq_Cons_conv)
  then have "length rest1 < length rest"
    using d(2,3) by (auto intro: le_less_trans [OF length_dropWhile_le])
  then show "(rest1, str) \<in> measure length" using length_dropWhile_le [of "\<lambda>c. \<not> quoted_char c" str] d(1) by simp
qed simp

declare write_string.simps [simp del]

definition dquote :: string where "dquote = [CHR 0x22]"

definition write_tri :: "string \<Rightarrow> tristate \<Rightarrow> string \<times> string" where
  "write_tri name v =
     (case v of
        tri_no \<Rightarrow> (''# CONFIG_'' @ name @ '' is not set'' @ nl, ''#undef CONFIG_'' @ name @ nl)
      | tri_mod \<Rightarrow> (''CONFIG_'' @ name @ ''=m'' @ nl, ''#define CONFIG_'' @ name @ ''_MODULE 1'' @ nl)
      | tri_yes \<Rightarrow> (''CONFIG_'' @ name @ ''=y'' @ nl, ''#define CONFIG_'' @ name @ '' 1'' @ nl))"

definition write_text :: "symbol_type \<Rightarrow> string \<Rightarrow> string \<Rightarrow> string \<times> string" where
  "write_text ty name t =
     (if ty = S_STRING
      then (''CONFIG_'' @ name @ ''='' @ dquote @ write_string t @ dquote @ nl, ''#define CONFIG_'' @ name @ '' '' @ dquote @ write_string t @ dquote @ nl)
      else if ty = S_HEX \<and> \<not> has_hex_prefix t
      then (''CONFIG_'' @ name @ ''='' @ t @ nl, ''#define CONFIG_'' @ name @ '' 0x'' @ t @ nl)
      else (''CONFIG_'' @ name @ ''='' @ t @ nl, ''#define CONFIG_'' @ name @ '' '' @ t @ nl))"

text \<open>printf of a null pointer is a fault.\<close>

definition write_symbol :: "calc \<Rightarrow> sym_ref \<Rightarrow> kconf \<Rightarrow> ((string \<times> string) \<times> kconf) outcome" where
  "write_symbol cv s K =
     obind (cv s K) (\<lambda>K.
       if \<not> has_flag SYMBOL_WRITE s K then Ret (([], []), K)
       else (let K1 = flag_clear SYMBOL_WRITE s K; ty = k_type (ksym K1 s)
         in obind (if ty = S_TRISTATE
                   then obind (cv (modules_sym K1) K1) (\<lambda>K.
                          Ret (if sym_get_tristate_value (modules_sym K) K = tri_no then S_BOOLEAN else ty, K))
                   else Ret (ty, K1)) (\<lambda>(ty, K).
              if ty \<in> {S_UNKNOWN, S_OTHER} then Ret (([], []), K)
              else (case k_name (ksym K s) of
                 None \<Rightarrow> Fault
               | Some name \<Rightarrow>
                   if ty \<in> {S_BOOLEAN, S_TRISTATE} then Ret (write_tri name (sym_get_tristate_value s K), K)
                   else obind (string_value s K) (\<lambda>t. Ret (write_text ty name t, K))))))"

definition write_entry :: "calc \<Rightarrow> nat \<Rightarrow> kmenus \<times> kconf \<Rightarrow> ((string \<times> string) \<times> kmenus \<times> kconf) outcome" where
  "write_entry cv m = (\<lambda>(M, K).
     (case m_sym (entry M m) of
        None \<Rightarrow>
          obind (menu_is_visible cv m (M, K)) (\<lambda>(visible, M, K).
            if \<not> visible then Ret (([], []), M, K)
            else (case menu_get_prompt m M K of
                None \<Rightarrow> Fault
              | Some str \<Rightarrow>
                  Ret ((nl @ ''#'' @ nl @ ''# '' @ str @ nl @ ''#'' @ nl, nl @ ''/*'' @ nl @ '' * '' @ str @ nl @ '' */'' @ nl), M, K)))
      | Some s \<Rightarrow>
          if has_flag SYMBOL_CHOICE s K then Ret (([], []), M, K)
          else obind (write_symbol cv s K) (\<lambda>(w, K). Ret (w, M, K))))"

text \<open>The fuel bounds the number of entries and the depth of the tree.\<close>

fun conf_write_loop :: "nat \<Rightarrow> calc \<Rightarrow> nat option \<Rightarrow> string \<times> string \<Rightarrow> kmenus \<times> kconf \<Rightarrow> ((string \<times> string) \<times> kmenus \<times> kconf) outcome" where
  "conf_write_loop 0 cv m out MK = Timeout"
| "conf_write_loop (Suc n) cv m out MK =
     (case m of
        None \<Rightarrow> Ret (out, MK)
      | Some m \<Rightarrow>
          obind (write_entry cv m MK) (\<lambda>(w, MK).
            obind (next_entry n m (fst MK)) (\<lambda>m. conf_write_loop n cv m (fst out @ fst w, snd out @ snd w) MK)))"

definition config_header :: "string \<times> string" where
  "config_header = (''#'' @ nl @ ''# Automatically generated make config: don'' @ [CHR 0x27] @ ''t edit'' @ nl @ ''#'' @ nl,
     ''/*'' @ nl @ '' * Automatically generated C config: don'' @ [CHR 0x27] @ ''t edit'' @ nl @ '' */'' @ nl @ ''#define AUTOCONF_INCLUDED'' @ nl)"

text \<open>The contents of the two files; moving them to their places is left out.\<close>

definition conf_write :: "nat \<Rightarrow> calc \<Rightarrow> kmenus \<times> kconf \<Rightarrow> ((string \<times> string) \<times> kmenus \<times> kconf) outcome" where
  "conf_write fuel cv = (\<lambda>(M, K).
     (let K1 = (if sym_change_count K = 0 then sym_clear_all_valid K else K)
      in obind (conf_write_loop fuel cv (m_list (entry M rootmenu)) config_header (M, K1)) (\<lambda>(out, M, K).
           Ret (out, M, K\<lparr>sym_change_count := 0\<rparr>))))"

end
