(* ===== verification/Ksym_Props.thy ===== *)
theory Ksym_Props
  imports Ksym Kexpr_Props
begin

text \<open>
  Calculating the value of a symbol ends and yields a value of the type of the symbol; what it
  calculates for an expression is what Kexpr's evaluation says; the table of symbols finds what
  was put in it.
\<close>

section \<open>Flags\<close>

lemma or_and_word: "(x OR w) AND v = 0 \<longleftrightarrow> x AND v = 0 \<and> w AND (v :: u32) = 0"
  by (simp add: bit.conj_disj_distrib2 or_eq_0_iff)

lemma clear_and_word: "w AND v = 0 \<Longrightarrow> (x AND NOT w) AND v = (x :: u32) AND v"
proof -
  assume "w AND v = 0"
  then have "NOT w AND v = v" by (simp add: bit_eq_iff bit_and_iff bit_not_iff) blast
  then show ?thesis by (simp add: and.assoc)
qed

lemma flag_set_sym [simp]:
  "ksym (flag_set w s K) t = (if t = s then (ksym K s)\<lparr>k_flags := k_flags (ksym K s) OR w\<rparr> else ksym K t)"
  by (simp add: flag_set_def upd_sym_def)

lemma flag_clear_sym [simp]:
  "ksym (flag_clear w s K) t = (if t = s then (ksym K s)\<lparr>k_flags := k_flags (ksym K s) AND NOT w\<rparr> else ksym K t)"
  by (simp add: flag_clear_def upd_sym_def)

lemma has_flag_set [simp]: "has_flag v t (flag_set w s K) \<longleftrightarrow> has_flag v t K \<or> t = s \<and> w AND v \<noteq> 0"
  by (auto simp: has_flag_def or_and_word)

lemma has_flag_clear: "w AND v = 0 \<Longrightarrow> has_flag v t (flag_clear w s K) = has_flag v t K"
  by (auto simp: has_flag_def clear_and_word)

section \<open>What calculating values leaves alone\<close>

definition changing :: u32 where
  "changing = SYMBOL_VALID OR SYMBOL_WRITE OR SYMBOL_CHANGED"

lemma changing_apart [simp]:
  "changing AND SYMBOL_CHOICE = 0" "changing AND SYMBOL_CHOICEVAL = 0" "changing AND SYMBOL_OPTIONAL = 0" "changing AND SYMBOL_NEW = 0"
  "changing AND SYMBOL_CONST = 0"
  "SYMBOL_WRITE AND SYMBOL_VALID = 0" "SYMBOL_CHANGED AND SYMBOL_VALID = 0" "SYMBOL_WRITE AND NOT changing = 0"
  "SYMBOL_CHANGED AND NOT changing = 0" "SYMBOL_VALID AND NOT changing = 0" "SYMBOL_VALID AND SYMBOL_VALID \<noteq> 0"
  by (simp_all add: changing_def SYMBOL_VALID_def SYMBOL_WRITE_def SYMBOL_CHANGED_def SYMBOL_CHOICE_def SYMBOL_CHOICEVAL_def
    SYMBOL_OPTIONAL_def SYMBOL_NEW_def SYMBOL_CONST_def)

definition same_symbol_config :: "ksymbol \<Rightarrow> ksymbol \<Rightarrow> bool" where
  "same_symbol_config y y' \<longleftrightarrow> k_name y' = k_name y \<and> k_type y' = k_type y \<and> k_def y' = k_def y \<and>
     k_flags y' AND NOT changing = k_flags y AND NOT changing \<and>
     map (\<lambda>p. p\<lparr>p_tri := tri_no\<rparr>) (k_props y') = map (\<lambda>p. p\<lparr>p_tri := tri_no\<rparr>) (k_props y)"

definition same_config :: "kconf \<Rightarrow> kconf \<Rightarrow> bool" where
  "same_config K K' \<longleftrightarrow> modules_sym K' = modules_sym K \<and> symbol_hash K' = symbol_hash K \<and> numSymbols K' = numSymbols K \<and>
     (\<forall>s. same_symbol_config (ksym K s) (ksym K' s))"

lemma same_config_refl [simp]: "same_config K K"
  by (simp add: same_config_def same_symbol_config_def)

lemma same_config_trans: "same_config K K1 \<Longrightarrow> same_config K1 K2 \<Longrightarrow> same_config K K2"
  unfolding same_config_def same_symbol_config_def by (intro conjI allI; metis)

text \<open>The parts of a property that stay.\<close>

lemma map_plain:
  assumes "map (\<lambda>p. p\<lparr>p_tri := tri_no\<rparr>) ps' = map (\<lambda>p. p\<lparr>p_tri := tri_no\<rparr>) ps"
    and "\<And>p q. p\<lparr>p_tri := tri_no\<rparr> = q\<lparr>p_tri := tri_no\<rparr> \<Longrightarrow> f p = f q"
  shows "map f ps' = map f ps"
  using assms(1) by (auto simp: list_eq_iff_nth_eq intro!: assms(2))

lemma plain_fields:
  assumes "p\<lparr>p_tri := tri_no\<rparr> = q\<lparr>p_tri := tri_no\<rparr>"
  shows "p_type p = p_type q \<and> p_def p = p_def q \<and> p_visible p = p_visible q \<and> p_members p = p_members q"
  using assms by (cases p; cases q) simp

definition key :: "kproperty \<Rightarrow> prop_type \<times> sym_ref option \<times> expr option \<times> sym_ref list" where
  "key p = (p_type p, p_def p, p_visible p, p_members p)"

lemma same_configD:
  assumes "same_config K K'"
  shows "k_name (ksym K' s) = k_name (ksym K s)" "k_type (ksym K' s) = k_type (ksym K s)" "k_def (ksym K' s) = k_def (ksym K s)"
    "modules_sym K' = modules_sym K" "length (k_props (ksym K' s)) = length (k_props (ksym K s))"
    "map key (k_props (ksym K' s)) = map key (k_props (ksym K s))"
    "changing AND w = 0 \<Longrightarrow> has_flag w s K' = has_flag w s K"
proof -
  have s: "same_symbol_config (ksym K s) (ksym K' s)" using assms by (simp add: same_config_def)
  then show "k_name (ksym K' s) = k_name (ksym K s)" "k_type (ksym K' s) = k_type (ksym K s)" "k_def (ksym K' s) = k_def (ksym K s)"
    by (simp_all add: same_symbol_config_def)
  show "modules_sym K' = modules_sym K" using assms by (simp add: same_config_def)
  have p: "map (\<lambda>p. p\<lparr>p_tri := tri_no\<rparr>) (k_props (ksym K' s)) = map (\<lambda>p. p\<lparr>p_tri := tri_no\<rparr>) (k_props (ksym K s))"
    using s by (simp add: same_symbol_config_def)
  from arg_cong [OF this, of length] show "length (k_props (ksym K' s)) = length (k_props (ksym K s))" by simp
  show "map key (k_props (ksym K' s)) = map key (k_props (ksym K s))"
    by (rule map_plain [OF p]) (drule plain_fields, simp add: key_def)
  have f: "k_flags (ksym K' s) AND NOT changing = k_flags (ksym K s) AND NOT changing" using s by (simp add: same_symbol_config_def)
  show "has_flag w s K' = has_flag w s K" if "changing AND w = 0"
    using f clear_and_word [OF that, of "k_flags (ksym K' s)"] clear_and_word [OF that, of "k_flags (ksym K s)"]
    by (simp add: has_flag_def)
qed

section \<open>Configurations\<close>

text \<open>
  A configuration is a finite set U of symbols closed under the properties of its members.  The
  symbols of T have texts as values; only these and the boolean and tristate symbols (C) may be
  compared.
\<close>

primrec expr_in :: "sym_ref set \<Rightarrow> sym_ref set \<Rightarrow> expr \<Rightarrow> bool" where
  "expr_in U C (ESym s) = (s \<in> U)"
| "expr_in U C (ENot a) = expr_in U C a"
| "expr_in U C (EAnd a b) = (expr_in U C a \<and> expr_in U C b)"
| "expr_in U C (EOr a b) = (expr_in U C a \<and> expr_in U C b)"
| "expr_in U C (EEqual s t) = (s \<in> U \<inter> C \<and> t \<in> U \<inter> C)"
| "expr_in U C (EUnequal s t) = (s \<in> U \<inter> C \<and> t \<in> U \<inter> C)"

definition is_text :: "kconf \<Rightarrow> value_ptr \<Rightarrow> bool" where
  "is_text K v = (case v of VStr i t \<Rightarrow> True | VName t \<Rightarrow> k_name (ksym K t) \<noteq> None | _ \<Rightarrow> False)"

definition comparable :: "sym_ref set \<Rightarrow> kconf \<Rightarrow> sym_ref set" where
  "comparable T K = {s. k_type (ksym K s) \<in> {S_BOOLEAN, S_TRISTATE}} \<union> T"

definition text_types :: "symbol_type set" where
  "text_types = {S_INT, S_HEX, S_STRING}"

definition keys_ok :: "sym_ref set \<Rightarrow> sym_ref set \<Rightarrow> sym_ref set \<Rightarrow> bool \<Rightarrow> (prop_type \<times> sym_ref option \<times> expr option \<times> sym_ref list) list \<Rightarrow> bool" where
  "keys_ok U T C text ks \<longleftrightarrow> (\<forall>(ty, d, vis, ms) \<in> set ks. (\<forall>e. vis = Some e \<longrightarrow> expr_in U C e) \<and>
     (ty = P_DEFAULT \<longrightarrow> (\<exists>x \<in> U. d = Some x \<and> (text \<longrightarrow> x \<in> T))))"

definition choice_key :: "sym_ref \<Rightarrow> kconf \<Rightarrow> (prop_type \<times> sym_ref option \<times> expr option \<times> sym_ref list) option" where
  "choice_key s K = map_option key (sym_get_choice_prop s K)"

definition symbol_ok :: "sym_ref set \<Rightarrow> sym_ref set \<Rightarrow> kconf \<Rightarrow> sym_ref \<Rightarrow> bool" where
  "symbol_ok U T K s \<longleftrightarrow> keys_ok U T (comparable T K) (s \<in> T) (map key (k_props (ksym K s))) \<and>
     (sym_is_choice s K \<or> sym_is_choice_value s K \<longrightarrow>
        (\<exists>ty d vis ms. choice_key s K = Some (ty, d, vis, ms) \<and> set ms \<subseteq> U \<and>
          (sym_is_choice_value s K \<longrightarrow> (\<exists>c \<in> U. d = Some c \<and> sym_is_choice c K)))) \<and>
     (sym_is_choice s K \<longrightarrow> sv_value (k_def (ksym K s)) = VNull \<or> (\<exists>d \<in> U. sv_value (k_def (ksym K s)) = VSym d))"

definition text_symbol_ok :: "kconf \<Rightarrow> sym_ref \<Rightarrow> bool" where
  "text_symbol_ok K s \<longleftrightarrow> \<not> sym_is_choice s K \<and>
     (k_type (ksym K s) \<in> text_types \<and> (sym_has_value s K \<longrightarrow> is_text K (sv_value (k_def (ksym K s)))) \<or>
      \<not> has_values (k_type (ksym K s)) \<and> k_name (ksym K s) \<noteq> None)"

definition static_ok :: "sym_ref set \<Rightarrow> sym_ref set \<Rightarrow> kconf \<Rightarrow> bool" where
  "static_ok U T K \<longleftrightarrow> finite U \<and> modules_sym K \<in> U \<and> T \<subseteq> U \<and> (\<forall>s \<in> U. symbol_ok U T K s) \<and> (\<forall>s \<in> T. text_symbol_ok K s)"

abbreviation "tri_of s K \<equiv> sv_tri (k_curr (ksym K s))"
abbreviation "val_of s K \<equiv> sv_value (k_curr (ksym K s))"
abbreviation "valid_sym \<equiv> has_flag SYMBOL_VALID"

text \<open>The values: a boolean symbol is never mod, and a symbol that is compared as a text holds one.\<close>

definition values_ok :: "sym_ref set \<Rightarrow> sym_ref set \<Rightarrow> kconf \<Rightarrow> bool" where
  "values_ok U T K \<longleftrightarrow> valid_sym symbol_no K \<and> valid_sym symbol_empty K \<and> tri_of symbol_no K \<noteq> tri_mod \<and> is_text K (val_of symbol_empty K) \<and>
     (\<forall>s \<in> U. k_type (ksym K s) = S_BOOLEAN \<longrightarrow> tri_of s K \<noteq> tri_mod) \<and>
     (\<forall>s \<in> T. k_type (ksym K s) \<in> text_types \<or> valid_sym s K \<longrightarrow> is_text K (val_of s K))"

definition conf_ok :: "sym_ref set \<Rightarrow> sym_ref set \<Rightarrow> kconf \<Rightarrow> bool" where
  "conf_ok U T K \<longleftrightarrow> static_ok U T K \<and> values_ok U T K"

lemma is_text_cong: "same_config K K' \<Longrightarrow> is_text K' v = is_text K v"
  by (simp add: is_text_def same_configD split: value_ptr.split)

lemma choice_key_keys: "choice_key s K = find (\<lambda>k. fst k = P_CHOICE) (map key (k_props (ksym K s)))"
proof -
  have "map_option key (find (\<lambda>p. p_type p = P_CHOICE) ps) = find (\<lambda>k. fst k = P_CHOICE) (map key ps)" for ps
    by (induction ps) (simp_all add: key_def)
  then show ?thesis by (simp add: choice_key_def sym_get_choice_prop_def)
qed

lemma static_ok_cong: "same_config K K' \<Longrightarrow> static_ok U T K \<Longrightarrow> static_ok U T K'"
  by (simp add: static_ok_def symbol_ok_def text_symbol_ok_def comparable_def choice_key_keys same_configD is_text_cong)

section \<open>Steps of the calculation\<close>

definition goes :: "sym_ref set \<Rightarrow> sym_ref set \<Rightarrow> kconf \<Rightarrow> kconf \<Rightarrow> bool" where
  "goes U T K K' \<longleftrightarrow> conf_ok U T K' \<and> same_config K K' \<and> (\<forall>s. valid_sym s K \<longrightarrow> valid_sym s K') \<and>
     (\<forall>s \<in> T. is_text K (val_of s K) \<longrightarrow> is_text K' (val_of s K'))"

lemma goes_refl: "conf_ok U T K \<Longrightarrow> goes U T K K"
  by (simp add: goes_def)

lemma goes_trans: "goes U T K K1 \<Longrightarrow> goes U T K1 K2 \<Longrightarrow> goes U T K K2"
  unfolding goes_def using same_config_trans by blast

definition invalid :: "sym_ref set \<Rightarrow> kconf \<Rightarrow> nat" where
  "invalid U K = card {s \<in> U. has_values (k_type (ksym K s)) \<and> \<not> valid_sym s K}"

lemma goes_invalid: "goes U T K K' \<Longrightarrow> invalid U K' \<le> invalid U K"
  unfolding invalid_def
  by (rule card_mono) (auto simp: goes_def conf_ok_def static_ok_def same_configD)

text \<open>The steps the calculation is made of.\<close>

lemma goes_intro:
  assumes "conf_ok U T K" "same_config K K'" "\<And>s. valid_sym s K \<Longrightarrow> valid_sym s K'" "values_ok U T K'"
    and "\<And>s. s \<in> T \<Longrightarrow> is_text K (val_of s K) \<Longrightarrow> is_text K (val_of s K')"
  shows "goes U T K K'"
  using assms static_ok_cong [OF assms(2)] by (simp add: goes_def conf_ok_def is_text_cong [OF assms(2)])

text \<open>Changes that leave the values and the valid flags alone.\<close>

lemma goes_quiet:
  assumes "conf_ok U T K" "same_config K K'" "\<And>s. valid_sym s K' = valid_sym s K" "\<And>s. k_curr (ksym K' s) = k_curr (ksym K s)"
  shows "goes U T K K'"
  by (rule goes_intro [OF assms(1,2)])
    (use assms in \<open>simp_all add: values_ok_def conf_ok_def is_text_cong [OF assms(2)] same_configD [OF assms(2)]\<close>)

lemma plain_update: "map (\<lambda>p. p\<lparr>p_tri := tri_no\<rparr>) (ps[i := (ps ! i)\<lparr>p_tri := v\<rparr>]) = map (\<lambda>p. p\<lparr>p_tri := tri_no\<rparr>) ps"
  by (cases "i < length ps") (simp_all add: map_update list_update_same_conv list_update_beyond)

lemma goes_set_prop_tri: "conf_ok U T K \<Longrightarrow> goes U T K (set_prop_tri s i v K)"
  by (rule goes_quiet) (auto simp: set_prop_tri_def upd_sym_def same_config_def same_symbol_config_def has_flag_def plain_update)

lemma goes_set_visible: "conf_ok U T K \<Longrightarrow> goes U T K (set_visible v s K)"
  by (rule goes_quiet) (auto simp: set_visible_def upd_sym_def same_config_def same_symbol_config_def has_flag_def)

lemma or_changing: "w AND NOT changing = 0 \<Longrightarrow> (x OR w) AND NOT changing = x AND NOT changing"
  by (simp add: bit.conj_disj_distrib2)

lemma goes_flag_set:
  assumes "conf_ok U T K" "w AND NOT changing = 0" "w AND SYMBOL_VALID = 0"
  shows "goes U T K (flag_set w s K)"
proof (rule goes_quiet)
  show "same_config K (flag_set w s K)"
    using assms(2) by (auto simp: same_config_def same_symbol_config_def or_changing) (simp_all add: flag_set_def upd_sym_def)
qed (use assms in auto)

lemma goes_clear_write:
  assumes "conf_ok U T K"
  shows "goes U T K (flag_clear SYMBOL_WRITE s K)"
proof (rule goes_quiet)
  have "NOT SYMBOL_WRITE AND NOT changing = NOT changing" by (simp add: changing_def SYMBOL_WRITE_def SYMBOL_VALID_def SYMBOL_CHANGED_def)
  then have "(x AND NOT SYMBOL_WRITE) AND NOT changing = x AND NOT changing" for x :: u32 by (simp add: and.assoc)
  then show "same_config K (flag_clear SYMBOL_WRITE s K)"
    by (auto simp: same_config_def same_symbol_config_def) (simp_all add: flag_clear_def upd_sym_def)
qed (use assms in \<open>auto simp: has_flag_clear\<close>)

lemma goes_menus: "conf_ok U T K \<Longrightarrow> goes U T K (set_menus_changed ps K)"
proof -
  have "ksym (set_menus_changed ps K) = ksym K \<and> modules_sym (set_menus_changed ps K) = modules_sym K \<and>
    symbol_hash (set_menus_changed ps K) = symbol_hash K \<and> numSymbols (set_menus_changed ps K) = numSymbols K" for K
    unfolding set_menus_changed_def by (induction ps arbitrary: K) (auto split: option.split)
  then show "conf_ok U T K \<Longrightarrow> goes U T K (set_menus_changed ps K)"
    by (intro goes_quiet) (simp_all add: same_config_def same_symbol_config_def has_flag_def)
qed

lemma goes_ok: "goes U T K K' \<Longrightarrow> conf_ok U T K'"
  by (simp add: goes_def)

lemma goes_set_changed: "conf_ok U T K \<Longrightarrow> goes U T K (sym_set_changed s K)"
  unfolding sym_set_changed_def
  by (rule goes_trans [OF _ goes_menus [OF goes_ok]]; rule goes_flag_set) simp_all

text \<open>Marking a symbol as calculated, and giving it a value.\<close>

lemma goes_valid:
  assumes "conf_ok U T K" "has_values (k_type (ksym K s))"
  shows "goes U T K (flag_set SYMBOL_VALID s K)"
proof (rule goes_intro [OF assms(1)])
  show c: "same_config K (flag_set SYMBOL_VALID s K)"
    by (auto simp: same_config_def same_symbol_config_def or_changing) (simp_all add: flag_set_def upd_sym_def)
  have "s \<in> T \<Longrightarrow> k_type (ksym K s) \<in> text_types"
    using assms by (auto simp: conf_ok_def static_ok_def text_symbol_ok_def)
  then show "values_ok U T (flag_set SYMBOL_VALID s K)"
    using assms by (auto simp: values_ok_def conf_ok_def is_text_cong [OF c])
qed auto

lemma set_curr_sym [simp]: "ksym (set_curr v s K) t = (if t = s then (ksym K s)\<lparr>k_curr := v\<rparr> else ksym K t)"
  by (simp add: set_curr_def upd_sym_def)

lemma has_flag_set_curr [simp]: "has_flag w t (set_curr v s K) = has_flag w t K"
  by (simp add: has_flag_def)

lemma goes_set_curr:
  assumes "conf_ok U T K" "s \<noteq> symbol_no" "s \<noteq> symbol_empty"
    and "s \<in> U \<Longrightarrow> k_type (ksym K s) = S_BOOLEAN \<Longrightarrow> sv_tri v \<noteq> tri_mod" "s \<in> T \<Longrightarrow> is_text K (sv_value v)"
  shows "goes U T K (set_curr v s K)"
proof (rule goes_intro [OF assms(1)])
  show c: "same_config K (set_curr v s K)"
    by (auto simp: same_config_def same_symbol_config_def) (simp_all add: set_curr_def upd_sym_def)
  show "values_ok U T (set_curr v s K)"
    using assms by (auto simp: values_ok_def conf_ok_def is_text_cong [OF c] split: if_splits)
qed (use assms(5) in auto)

lemma goes_mark_members:
  assumes "w AND NOT changing = 0" "w AND SYMBOL_VALID = 0"
  shows "conf_ok U T K \<Longrightarrow> goes U T K (mark_members w ds K)"
proof (induction ds arbitrary: K)
  case (Cons d ds)
  let ?K1 = "flag_set w d K" let ?K2 = "if w AND SYMBOL_CHANGED \<noteq> 0 then sym_set_changed d ?K1 else ?K1"
  have 1: "goes U T K ?K1" by (rule goes_flag_set [OF Cons.prems assms])
  then have "goes U T K ?K2" using goes_trans [OF 1 goes_set_changed [OF goes_ok [OF 1]]] by simp
  then have "goes U T K (mark_members w ds ?K2)" using goes_trans [OF _ Cons.IH [OF goes_ok]] by blast
  moreover have "mark_members w (d # ds) K = mark_members w ds ?K2" by (simp add: mark_members_def Let_def)
  ultimately show ?case by simp
qed (simp add: mark_members_def goes_refl)

section \<open>The contract of the calculation\<close>

definition returns :: "'a outcome \<Rightarrow> ('a \<Rightarrow> bool) \<Rightarrow> bool" where
  "returns m P \<longleftrightarrow> (\<exists>x. m = Ret x \<and> P x)"

lemma returns_Ret [simp]: "returns (Ret x) P = P x"
  by (simp add: returns_def)

lemma returns_bind: "returns m P \<Longrightarrow> (\<And>x. P x \<Longrightarrow> returns (f x) Q) \<Longrightarrow> returns (obind m f) Q"
  by (auto simp: returns_def)

lemma returns_mono: "returns m P \<Longrightarrow> (\<And>x. P x \<Longrightarrow> Q x) \<Longrightarrow> returns m Q"
  by (auto simp: returns_def)

definition ready :: "sym_ref set \<Rightarrow> sym_ref set \<Rightarrow> nat \<Rightarrow> kconf \<Rightarrow> bool" where
  "ready U T N K \<longleftrightarrow> conf_ok U T K \<and> invalid U K < N"

lemma ready_goes: "ready U T N K \<Longrightarrow> goes U T K K' \<Longrightarrow> ready U T N K'"
  using goes_invalid [of U T K K'] goes_ok [of U T K K'] by (auto simp: ready_def)

lemma ready_ok: "ready U T N K \<Longrightarrow> conf_ok U T K"
  by (simp add: ready_def)

definition gone :: "sym_ref set \<Rightarrow> sym_ref set \<Rightarrow> kconf \<Rightarrow> 'a \<times> kconf \<Rightarrow> bool" where
  "gone U T K r \<longleftrightarrow> goes U T K (snd r)"

lemma gone_pair [simp]: "gone U T K (x, K') = goes U T K K'"
  by (simp add: gone_def)

definition text_of :: "sym_ref set \<Rightarrow> sym_ref \<Rightarrow> kconf \<Rightarrow> bool" where
  "text_of T s K \<longleftrightarrow> (s \<in> T \<longrightarrow> is_text K (val_of s K))"

lemma goes_text: "goes U T K K' \<Longrightarrow> text_of T s K \<Longrightarrow> text_of T s K'"
  by (simp add: goes_def text_of_def)

lemma goes_same: "goes U T K K' \<Longrightarrow> same_config K K'"
  by (simp add: goes_def)

lemma comparable_goes: "goes U T K K' \<Longrightarrow> comparable T K' = comparable T K"
  by (simp add: comparable_def same_configD [OF goes_same])

lemma string_value_ok: "s \<in> comparable T K \<Longrightarrow> text_of T s K \<Longrightarrow> returns (string_value s K) (\<lambda>_. True)"
  by (auto simp: string_value_def comparable_def text_of_def is_text_def split: value_ptr.splits option.splits)

lemma symbol_okI: "conf_ok U T K \<Longrightarrow> s \<in> U \<Longrightarrow> symbol_ok U T K s"
  by (simp add: conf_ok_def static_ok_def)

lemma prop_ok:
  assumes "conf_ok U T K" "s \<in> U" "p \<in> set (k_props (ksym K s))"
  shows "p_visible p = Some e \<Longrightarrow> expr_in U (comparable T K) e"
    "p_type p = P_DEFAULT \<Longrightarrow> \<exists>d \<in> U. p_def p = Some d \<and> (s \<in> T \<longrightarrow> d \<in> T)"
proof -
  have "key p \<in> set (map key (k_props (ksym K s)))" using assms(3) by simp
  then have "keys_ok U T (comparable T K) (s \<in> T) (map key (k_props (ksym K s))) \<and> key p \<in> set (map key (k_props (ksym K s)))"
    using symbol_okI [OF assms(1,2)] by (simp add: symbol_ok_def)
  then show "p_visible p = Some e \<Longrightarrow> expr_in U (comparable T K) e"
    "p_type p = P_DEFAULT \<Longrightarrow> \<exists>d \<in> U. p_def p = Some d \<and> (s \<in> T \<longrightarrow> d \<in> T)"
    unfolding keys_ok_def key_def by fastforce+
qed

lemma props_goes: "goes U T K K' \<Longrightarrow> length (k_props (ksym K' s)) = length (k_props (ksym K s))"
  by (simp add: same_configD [OF goes_same])

lemma goes_is_text: "goes U T K K' \<Longrightarrow> is_text K' v = is_text K v"
  by (rule is_text_cong [OF goes_same])

text \<open>What is calculated for s so far: the value is a text if it has to be.\<close>

definition worth :: "sym_ref set \<Rightarrow> sym_ref set \<Rightarrow> kconf \<Rightarrow> sym_ref \<Rightarrow> symbol_value \<times> kconf \<Rightarrow> bool" where
  "worth U T K s r \<longleftrightarrow> goes U T K (snd r) \<and> (s \<in> T \<longrightarrow> is_text (snd r) (sv_value (fst r)))"

lemma choice_prop_ok:
  assumes "conf_ok U T K" "s \<in> U" "sym_is_choice s K \<or> sym_is_choice_value s K"
  shows "\<exists>p. sym_get_choice_prop s K = Some p \<and> set (p_members p) \<subseteq> U \<and>
    (sym_is_choice_value s K \<longrightarrow> (\<exists>c \<in> U. p_def p = Some c \<and> sym_is_choice c K))"
  using symbol_okI [OF assms(1,2)] assms(3) by (auto simp: symbol_ok_def choice_key_def key_def)

lemma choice_not_text: "conf_ok U T K \<Longrightarrow> sym_is_choice s K \<Longrightarrow> s \<notin> T"
  by (auto simp: conf_ok_def static_ok_def text_symbol_ok_def)

lemma default_prop_at:
  assumes "goes U T K0 K" "s \<in> U" "i < length (k_props (ksym K0 s))" "p_type (k_props (ksym K s) ! i) = P_DEFAULT" "goes U T K0 K1"
  shows "\<exists>d \<in> U. p_def (k_props (ksym K1 s) ! i) = Some d \<and> (s \<in> T \<longrightarrow> d \<in> T)"
proof (rule prop_ok(2) [OF goes_ok [OF assms(5)] assms(2)])
  have "fst (map key (k_props (ksym K s)) ! i) = P_DEFAULT" using assms by (simp add: props_goes key_def)
  moreover have "map key (k_props (ksym K1 s)) = map key (k_props (ksym K s))"
    using same_configD(6) [OF goes_same [OF assms(5)]] same_configD(6) [OF goes_same [OF assms(1)]] by simp
  ultimately have "fst (map key (k_props (ksym K1 s)) ! i) = P_DEFAULT" by simp
  then show "p_type (k_props (ksym K1 s) ! i) = P_DEFAULT" using assms by (simp add: props_goes key_def)
qed (use assms in \<open>simp add: props_goes\<close>)

locale value_contract =
  fixes U T :: "sym_ref set" and cv :: calc and N :: nat
  assumes cv_returns: "ready U T N K \<Longrightarrow> s \<in> U \<Longrightarrow> returns (cv s K) (\<lambda>K'. goes U T K K' \<and> text_of T s K')"
begin

lemma cv_then:
  assumes "ready U T N K" "goes U T K0 K" "s \<in> U"
    and "\<And>K'. ready U T N K' \<Longrightarrow> goes U T K K' \<Longrightarrow> goes U T K0 K' \<Longrightarrow> text_of T s K' \<Longrightarrow> returns (f K') P"
  shows "returns (obind (cv s K) f) P"
  by (rule returns_bind [OF cv_returns [OF assms(1,3)]]) (use assms goes_trans ready_goes in blast)

lemma calc_expr_returns:
  "ready U T N K \<Longrightarrow> expr_in U (comparable T K) e \<Longrightarrow> returns (calc_expr cv e K) (gone U T K)"
proof (induction e arbitrary: K)
  case (ESym s)
  then show ?case by (auto intro!: cv_then [OF _ goes_refl] simp: gone_def ready_ok)
next
  case (ENot e)
  show ?case using ENot by (auto intro!: returns_bind [OF ENot.IH] simp: gone_def)
next
  case (EAnd a b)
  show ?case using EAnd.prems
    by (auto intro!: returns_bind [OF EAnd.IH(1)] returns_bind [OF EAnd.IH(2)] simp: gone_def comparable_goes intro: ready_goes goes_trans)
next
  case (EOr a b)
  show ?case using EOr.prems
    by (auto intro!: returns_bind [OF EOr.IH(1)] returns_bind [OF EOr.IH(2)] simp: gone_def comparable_goes intro: ready_goes goes_trans)
next
  case (EEqual s t)
  have st: "s \<in> U" "t \<in> U" "s \<in> comparable T K" "t \<in> comparable T K" using EEqual.prems(2) by auto
  show ?case unfolding calc_expr.simps
  proof (rule cv_then [OF EEqual.prems(1) goes_refl [OF ready_ok [OF EEqual.prems(1)]] st(1)], rule cv_then [OF _ _ st(2)], assumption, assumption)
    fix K1 K2
    assume "goes U T K K1" "goes U T K1 K2" "goes U T K K2" "text_of T s K1" "text_of T t K2"
    then show "returns (obind (string_value s K2) (\<lambda>a. obind (string_value t K2) (\<lambda>b. Ret (if a = b then tri_yes else tri_no, K2)))) (gone U T K)"
      using st by (auto intro!: returns_bind [OF string_value_ok [of _ T]] simp: gone_def comparable_goes goes_text)
  qed
next
  case (EUnequal s t)
  have st: "s \<in> U" "t \<in> U" "s \<in> comparable T K" "t \<in> comparable T K" using EUnequal.prems(2) by auto
  show ?case unfolding calc_expr.simps
  proof (rule cv_then [OF EUnequal.prems(1) goes_refl [OF ready_ok [OF EUnequal.prems(1)]] st(1)], rule cv_then [OF _ _ st(2)], assumption, assumption)
    fix K1 K2
    assume "goes U T K K1" "goes U T K1 K2" "goes U T K K2" "text_of T s K1" "text_of T t K2"
    then show "returns (obind (string_value s K2) (\<lambda>a. obind (string_value t K2) (\<lambda>b. Ret (if a = b then tri_no else tri_yes, K2)))) (gone U T K)"
      using st by (auto intro!: returns_bind [OF string_value_ok [of _ T]] simp: gone_def comparable_goes goes_text)
  qed
qed

lemma E_CALC_returns:
  assumes "ready U T N K" "s \<in> U" "i < length (k_props (ksym K s))"
  shows "returns (E_CALC cv s i K) (gone U T K)"
proof (cases "p_visible (k_props (ksym K s) ! i)")
  case None
  then show ?thesis using assms by (simp add: E_CALC_def gone_def goes_set_prop_tri ready_ok)
next
  case (Some e)
  have "expr_in U (comparable T K) e" using prop_ok(1) [OF ready_ok [OF assms(1)] assms(2) nth_mem [OF assms(3)] Some] .
  from calc_expr_returns [OF assms(1) this] show ?thesis
    unfolding E_CALC_def Some option.simps
    by (rule returns_bind) (auto simp: gone_def intro: goes_trans [OF _ goes_set_prop_tri [OF goes_ok]])
qed

lemma E_CALC_then:
  assumes "ready U T N K" "goes U T K0 K" "s \<in> U" "i < length (k_props (ksym K0 s))"
    and "\<And>x K'. ready U T N K' \<Longrightarrow> goes U T K0 K' \<Longrightarrow> returns (f (x, K')) P"
  shows "returns (obind (E_CALC cv s i K) f) P"
proof (rule returns_bind [OF E_CALC_returns [OF assms(1,3)]])
  show "i < length (k_props (ksym K s))" using assms(2,4) by (simp add: props_goes)
  fix r :: "tristate \<times> kconf"
  assume "gone U T K r"
  then have "goes U T K (snd r)" by (simp add: gone_def)
  then show "returns (f r) P" using assms(5) [of "snd r" "fst r"] ready_goes [OF assms(1)] goes_trans [OF assms(2)] by simp
qed

lemma prompt_loop_returns:
  "ready U T N K \<Longrightarrow> goes U T K0 K \<Longrightarrow> s \<in> U \<Longrightarrow> set js \<subseteq> {..<length (k_props (ksym K0 s))} \<Longrightarrow>
   returns (prompt_loop cv s js v K) (gone U T K0)"
proof (induction js arbitrary: v K)
  case (Cons i js)
  have i: "i < length (k_props (ksym K0 s))" and js: "set js \<subseteq> {..<length (k_props (ksym K0 s))}" using Cons.prems(4) by auto
  have "returns (if x < v then prompt_loop cv s js v K1
      else obind (E_CALC cv s i K1) (\<lambda>(x, K). prompt_loop cv s js x K)) (gone U T K0)"
    if "ready U T N K1" "goes U T K0 K1" for x K1
    using that Cons.IH js Cons.prems(3) by (auto intro!: E_CALC_then [OF that Cons.prems(3) i])
  then show ?case using Cons js by (auto intro!: E_CALC_then [OF Cons.prems(1-3) i])
qed (simp add: gone_def)

lemma sym_calc_visibility_returns:
  assumes "ready U T N K" "s \<in> U"
  shows "returns (sym_calc_visibility cv s K) (goes U T K)"
proof -
  have "returns (prompt_loop cv s [0..<length (k_props (ksym K s))] tri_no K) (gone U T K)"
    using assms by (intro prompt_loop_returns goes_refl ready_ok) auto
  then show ?thesis unfolding sym_calc_visibility_def Let_def
  proof (rule returns_bind)
    fix r :: "tristate \<times> kconf"
    assume "gone U T K r"
    then have r: "goes U T K (snd r)" by (simp add: gone_def)
    have "goes U T K (sym_set_changed s (set_visible v s (snd r)))" for v
      using goes_trans [OF r goes_trans [OF goes_set_visible [OF goes_ok [OF r]] goes_set_changed [OF goes_ok [OF goes_set_visible [OF goes_ok [OF r]]]]]] .
    then show "returns (case r of (v, K') \<Rightarrow> Ret (if k_visible (ksym K s) \<noteq> v then sym_set_changed s (set_visible v s K') else K')) (goes U T K)"
      using r by (cases r) simp
  qed
qed

lemma visibility_then:
  assumes "ready U T N K" "goes U T K0 K" "s \<in> U"
    and "\<And>K'. ready U T N K' \<Longrightarrow> goes U T K0 K' \<Longrightarrow> returns (f K') P"
  shows "returns (obind (sym_calc_visibility cv s K) f) P"
  by (rule returns_bind [OF sym_calc_visibility_returns [OF assms(1,3)]])
    (use assms(4) ready_goes [OF assms(1)] goes_trans [OF assms(2)] in blast)

text \<open>The default property: its symbol is in the configuration, and a text if s is.\<close>

lemma default_loop_returns:
  "ready U T N K \<Longrightarrow> goes U T K0 K \<Longrightarrow> s \<in> U \<Longrightarrow> set js \<subseteq> {..<length (k_props (ksym K0 s))} \<Longrightarrow>
   returns (default_loop cv s js K) (\<lambda>(p, K'). goes U T K0 K' \<and> (case p of None \<Rightarrow> True | Some q \<Rightarrow> \<exists>d \<in> U. p_def q = Some d \<and> (s \<in> T \<longrightarrow> d \<in> T)))"
proof (induction js arbitrary: K)
  case (Cons i js)
  have i: "i < length (k_props (ksym K0 s))" and js: "set js \<subseteq> {..<length (k_props (ksym K0 s))}" using Cons.prems(4) by auto
  show ?case
  proof (cases "p_type (k_props (ksym K s) ! i) = P_DEFAULT")
    case True
    have "\<exists>d \<in> U. p_def (k_props (ksym K1 s) ! i) = Some d \<and> (s \<in> T \<longrightarrow> d \<in> T)" if g: "goes U T K0 K1" for K1
      by (rule default_prop_at [OF Cons.prems(2,3) i True g])
    then show ?thesis using True Cons.IH Cons.prems(3) js by (auto intro!: E_CALC_then [OF Cons.prems(1-3) i])
  next
    case False
    then show ?thesis using Cons js by simp
  qed
qed simp

lemma default_then:
  assumes "ready U T N K" "goes U T K0 K" "s \<in> U"
    and "\<And>p K'. ready U T N K' \<Longrightarrow> goes U T K0 K' \<Longrightarrow>
      (case p of None \<Rightarrow> True | Some q \<Rightarrow> \<exists>d \<in> U. p_def q = Some d \<and> (s \<in> T \<longrightarrow> d \<in> T)) \<Longrightarrow> returns (f (p, K')) P"
  shows "returns (obind (sym_get_default_prop cv s K) f) P"
  unfolding sym_get_default_prop_def
proof (rule returns_bind [OF default_loop_returns [OF assms(1) goes_refl [OF ready_ok [OF assms(1)]] assms(3)]])
  fix r :: "kproperty option \<times> kconf"
  assume "case r of (p, K') \<Rightarrow> goes U T K K' \<and> (case p of None \<Rightarrow> True | Some q \<Rightarrow> \<exists>d \<in> U. p_def q = Some d \<and> (s \<in> T \<longrightarrow> d \<in> T))"
  then show "returns (f r) P"
    using assms(4) [of "snd r" "fst r"] ready_goes [OF assms(1), of "snd r"] goes_trans [OF assms(2), of "snd r"] by (cases r) simp
qed auto

lemma sym_get_type_returns:
  assumes "ready U T N K" "s \<in> U"
  shows "returns (sym_get_type cv s K) (\<lambda>(ty, K'). goes U T K K' \<and> (k_type (ksym K s) \<noteq> S_TRISTATE \<longrightarrow> ty = k_type (ksym K s)))"
proof -
  have "modules_sym K \<in> U" using ready_ok [OF assms(1)] by (simp add: conf_ok_def static_ok_def)
  then show ?thesis using assms
    by (auto simp: sym_get_type_def goes_refl ready_ok intro!: cv_then [OF assms(1) goes_refl])
qed

lemma default_value_returns:
  assumes "ready U T N K" "goes U T K0 K" "p_def p = Some d" "d \<in> U" "s \<in> T \<longrightarrow> d \<in> T"
  shows "returns (default_value cv p K) (worth U T K0 s)"
  using assms by (auto simp: default_value_def text_of_def worth_def intro!: cv_then [OF assms(1,2,4)])

lemma default_or_returns:
  assumes "ready U T N K" "goes U T K0 K" "s \<in> U" "s \<in> T \<longrightarrow> is_text K0 (sv_value v)"
    and "\<And>K'. conf_ok U T K' \<Longrightarrow> goes U T K' (f K')"
  shows "returns (obind (sym_get_default_prop cv s K) (\<lambda>(p, K). case p of None \<Rightarrow> Ret (v, K) | Some p \<Rightarrow> default_value cv p (f K))) (worth U T K0 s)"
proof (rule default_then [OF assms(1-3)])
  fix p :: "kproperty option" and K'
  assume g: "ready U T N K'" "goes U T K0 K'"
    and p: "case p of None \<Rightarrow> True | Some q \<Rightarrow> \<exists>d \<in> U. p_def q = Some d \<and> (s \<in> T \<longrightarrow> d \<in> T)"
  have f: "goes U T K0 (f K')" "ready U T N (f K')"
    using goes_trans [OF g(2) assms(5)] ready_goes [OF g(1) assms(5)] goes_ok [OF g(2)] by blast+
  show "returns (case (p, K') of (p, K) \<Rightarrow> (case p of None \<Rightarrow> Ret (v, K) | Some p \<Rightarrow> default_value cv p (f K))) (worth U T K0 s)"
    using p f g assms(4) by (auto simp: worth_def goes_is_text [OF g(2)] split: option.splits intro: default_value_returns)
qed

lemma chosen_value_returns:
  assumes "ready U T N K" "goes U T K0 K" "s \<in> U" "s \<in> T \<longrightarrow> k_type (ksym K s) \<in> text_types" "s \<in> T \<longrightarrow> is_text K0 (sv_value v)"
  shows "returns (chosen_value cv s v K) (worth U T K0 s)"
proof -
  have "s \<in> T \<longrightarrow> text_symbol_ok K s" using ready_ok [OF assms(1)] by (simp add: conf_ok_def static_ok_def)
  then have d: "s \<in> T \<longrightarrow> sym_has_value s K \<longrightarrow> is_text K (sv_value (k_def (ksym K s)))"
    using assms(4) by (auto simp: text_symbol_ok_def has_values_def text_types_def)
  show ?thesis
    using assms d default_or_returns [OF assms(1-3,5), of "\<lambda>K. K"] goes_refl [of U T] choice_not_text [OF ready_ok [OF assms(1)]]
    by (auto simp: chosen_value_def worth_def)
qed

lemma choice_value_returns:
  assumes "conf_ok U T K" "s \<in> U"
  shows "returns (choice_value s v K) (\<lambda>w. sv_value w = sv_value v)"
  using choice_prop_ok [OF assms] by (fastforce simp: choice_value_def)

lemma worth_tri [simp]: "worth U T K s (v\<lparr>sv_tri := x\<rparr>, K') = worth U T K s (v, K')"
  by (simp add: worth_def)

lemma new_value_returns:
  assumes "ready U T N K" "s \<in> U" "s \<in> T \<longrightarrow> k_type (ksym K s) \<in> text_types" "s \<in> T \<longrightarrow> is_text K (sv_value v)"
  shows "returns (new_value cv s v K) (worth U T K s)"
proof (cases "k_visible (ksym K s) = tri_no")
  case True
  then show ?thesis
    using default_or_returns [OF assms(1) goes_refl [OF ready_ok [OF assms(1)]] assms(2,4), of "flag_set SYMBOL_WRITE s"] goes_flag_set [of U T _ SYMBOL_WRITE]
    by (simp add: new_value_def)
next
  case False
  let ?K = "flag_set SYMBOL_WRITE s K"
  have g: "goes U T K ?K" by (rule goes_flag_set) (simp_all add: ready_ok [OF assms(1)])
  have "returns (chosen_value cv s v ?K) (worth U T K s)"
    using chosen_value_returns [OF ready_goes [OF assms(1) g] g assms(2)] assms(3,4) by simp
  then show ?thesis unfolding new_value_def
  proof (simp only: False not_False_eq_True if_True, elim returns_bind)
    fix r :: "symbol_value \<times> kconf"
    assume w: "worth U T K s r"
    obtain v K' where r: "r = (v, K')" by (cases r)
    have ok: "conf_ok U T K'" using w goes_ok by (auto simp: worth_def r)
    let ?v1 = "v\<lparr>sv_tri := E_AND_val (sv_tri v) (k_visible (ksym K' s))\<rparr>"
    let ?v2 = "if \<not> sym_is_optional s K' \<and> sv_tri ?v1 = tri_no then ?v1\<lparr>sv_tri := k_visible (ksym K' s)\<rparr> else ?v1"
    have "sv_value ?v2 = sv_value v" by simp
    then have "returns (obind (choice_value s ?v2 K') (\<lambda>v. Ret (v, K'))) (worth U T K s)"
      using w by (intro returns_bind [OF choice_value_returns [OF ok assms(2)]]) (simp add: worth_def r)
    then show "returns (case r of (v, K) \<Rightarrow>
      let v1 = v\<lparr>sv_tri := E_AND_val (sv_tri v) (k_visible (ksym K s))\<rparr>;
          v2 = if \<not> sym_is_optional s K \<and> sv_tri v1 = tri_no then v1\<lparr>sv_tri := k_visible (ksym K s)\<rparr> else v1
      in obind (choice_value s v2 K) (\<lambda>v. Ret (v, K))) (worth U T K s)"
      by (simp only: r prod.case Let_def)
  qed
qed

lemma adjust_mod_returns:
  assumes "ready U T N K"
  shows "returns (adjust_mod cv ty v K) (\<lambda>(w, K'). goes U T K K' \<and> sv_value w = sv_value v \<and> (ty = S_BOOLEAN \<longrightarrow> sv_tri w \<noteq> tri_mod))"
proof -
  have "modules_sym K \<in> U" using ready_ok [OF assms] by (simp add: conf_ok_def static_ok_def)
  then show ?thesis using assms
    by (auto simp: adjust_mod_def goes_refl ready_ok intro!: cv_then [OF assms goes_refl])
qed

section \<open>The member a choice selects\<close>

lemma user_choice_returns:
  assumes "ready U T N K" "s \<in> U" "sym_is_choice s K"
  shows "returns (user_choice cv s K) (gone U T K)"
proof -
  have "sv_value (k_def (ksym K s)) = VNull \<or> (\<exists>d \<in> U. sv_value (k_def (ksym K s)) = VSym d)"
    using symbol_okI [OF ready_ok [OF assms(1)] assms(2)] assms(3) by (simp add: symbol_ok_def)
  then show ?thesis
    using assms by (auto simp: user_choice_def gone_def goes_refl ready_ok intro!: visibility_then [OF assms(1) goes_refl])
qed

lemma default_choice_loop_returns:
  "ready U T N K \<Longrightarrow> goes U T K0 K \<Longrightarrow> s \<in> U \<Longrightarrow> set js \<subseteq> {..<length (k_props (ksym K0 s))} \<Longrightarrow>
   returns (default_choice_loop cv s js K) (gone U T K0)"
proof (induction js arbitrary: K)
  case (Cons i js)
  have i: "i < length (k_props (ksym K0 s))" and js: "set js \<subseteq> {..<length (k_props (ksym K0 s))}" using Cons.prems(4) by auto
  show ?case
  proof (cases "p_type (k_props (ksym K s) ! i) = P_DEFAULT")
    case True
    have "\<exists>d \<in> U. p_def (k_props (ksym K1 s) ! i) = Some d" if g: "goes U T K0 K1" for K1
      using default_prop_at [OF Cons.prems(2,3) i True g] by auto
    note at = this
    have "returns (if x = tri_no then default_choice_loop cv s js K1
        else (case p_def (k_props (ksym K1 s) ! i) of None \<Rightarrow> Fault
          | Some d \<Rightarrow> obind (sym_calc_visibility cv d K1) (\<lambda>K.
              if k_visible (ksym K d) \<noteq> tri_no then Ret (Some d, K) else default_choice_loop cv s js K))) (gone U T K0)"
      if g: "ready U T N K1" "goes U T K0 K1" for x K1
    proof -
      obtain d where d: "d \<in> U" "p_def (k_props (ksym K1 s) ! i) = Some d" using at [OF g(2)] by auto
      then show ?thesis using Cons.IH g Cons.prems(3) js by (auto intro!: visibility_then [OF g d(1)])
    qed
    then show ?thesis using True by (auto intro!: E_CALC_then [OF Cons.prems(1-3) i])
  next
    case False
    then show ?thesis using Cons js by simp
  qed
qed (simp add: gone_def)

lemma member_loop_returns:
  "ready U T N K \<Longrightarrow> goes U T K0 K \<Longrightarrow> set ds \<subseteq> U \<Longrightarrow> returns (member_loop cv ds K) (gone U T K0)"
proof (induction ds arbitrary: K)
  case (Cons d ds)
  then show ?case by (auto intro!: visibility_then [OF Cons.prems(1,2)] simp: gone_def)
qed (simp add: gone_def)

lemma select_member_returns:
  assumes "ready U T N K" "s \<in> U" "sym_is_choice s K"
  shows "returns (select_member cv s K) (gone U T K)"
  unfolding select_member_def
proof (rule returns_bind [OF user_choice_returns [OF assms]])
  fix r :: "sym_ref option \<times> kconf"
  assume "gone U T K r"
  then obtain d K1 where r: "r = (d, K1)" and g: "goes U T K K1" by (cases r) (simp add: gone_def)
  have ready: "ready U T N K1" by (rule ready_goes [OF assms(1) g])
  have "returns (default_choice_loop cv s [0..<length (k_props (ksym K1 s))] K1) (gone U T K)"
    using g by (intro default_choice_loop_returns ready assms(2)) (auto simp: props_goes)
  moreover have "returns (case sym_get_choice_prop s K2 of None \<Rightarrow> Fault | Some p \<Rightarrow> member_loop cv (p_members p) K2) (gone U T K)"
    if g2: "goes U T K K2" for K2
  proof -
    have "sym_is_choice s K2" using assms(3) same_configD(7) [OF goes_same [OF g2], of SYMBOL_CHOICE] by simp
    then obtain p where "sym_get_choice_prop s K2 = Some p" "set (p_members p) \<subseteq> U"
      using choice_prop_ok [OF goes_ok [OF g2] assms(2)] by auto
    then show ?thesis using member_loop_returns [OF ready_goes [OF assms(1) g2] g2] by simp
  qed
  ultimately show "returns (case r of (d, K) \<Rightarrow> if d \<noteq> None then Ret (d, K)
      else obind (default_choice_loop cv s [0..<length (k_props (ksym K s))] K) (\<lambda>(d, K).
        if d \<noteq> None then Ret (d, K)
        else case sym_get_choice_prop s K of None \<Rightarrow> Fault | Some p \<Rightarrow> member_loop cv (p_members p) K)) (gone U T K)"
    using g by (auto simp: r gone_def intro!: returns_bind [of "default_choice_loop cv s _ _"])
qed

section \<open>The step\<close>

lemma finish_value_returns:
  assumes "conf_ok U T K" "s \<in> U" "s \<noteq> symbol_no" "s \<noteq> symbol_empty"
    and v: "k_type (ksym K s) = S_BOOLEAN \<longrightarrow> sv_tri v \<noteq> tri_mod" "s \<in> T \<longrightarrow> is_text K (sv_value v)"
    and r: "sv_tri v = tri_yes \<Longrightarrow> invalid U K < N"
  shows "returns (finish_value cv s old v K) (\<lambda>K'. goes U T K K' \<and> text_of T s K')"
proof -
  let ?K = "set_curr v s K"
  have g: "goes U T K ?K" by (rule goes_set_curr [OF assms(1,3,4)]) (use v in auto)
  have choice: "sym_is_choice s K1 = sym_is_choice s K" if "goes U T K K1" for K1
    using same_configD(7) [OF goes_same [OF that], of SYMBOL_CHOICE] by simp
  have ty: "k_type (ksym K1 s) = k_type (ksym K s)" if "goes U T K K1" for K1
    using same_configD(2) [OF goes_same [OF that]] .
  have sel: "returns (if sym_is_choice s ?K \<and> sv_tri v = tri_yes
      then obind (select_member cv s ?K) (\<lambda>(d, K). Ret (v\<lparr>sv_value := (case d of None \<Rightarrow> VNull | Some d \<Rightarrow> VSym d)\<rparr>, K))
      else Ret (v, ?K)) (\<lambda>(w, K'). goes U T K K' \<and> sv_tri w = sv_tri v \<and> (s \<in> T \<longrightarrow> is_text K' (sv_value w)))"
  proof (cases "sym_is_choice s ?K \<and> sv_tri v = tri_yes")
    case True
    then have "ready U T N ?K" using r goes_ok [OF g] goes_invalid [OF g] by (simp add: ready_def)
    from select_member_returns [OF this assms(2)] True have "returns (select_member cv s ?K) (gone U T ?K)" by blast
    moreover have "s \<notin> T" using True choice_not_text [OF goes_ok [OF g]] by blast
    ultimately show ?thesis using True goes_trans [OF g] by (auto intro!: returns_bind [of "select_member cv s ?K"])
  next
    case False
    then show ?thesis using g v(2) by (auto simp: goes_is_text)
  qed
  show ?thesis unfolding finish_value_def Let_def
  proof (rule returns_bind [OF sel])
    fix q :: "symbol_value \<times> kconf"
    assume q: "case q of (w, K') \<Rightarrow> goes U T K K' \<and> sv_tri w = sv_tri v \<and> (s \<in> T \<longrightarrow> is_text K' (sv_value w))"
    obtain w K1 where w: "q = (w, K1)" "goes U T K K1" "sv_tri w = sv_tri v" "s \<in> T \<longrightarrow> is_text K1 (sv_value w)"
      using q by (cases q) auto
    define K2 where "K2 = (if old \<noteq> w then sym_set_changed s K1 else K1)"
    have g2: "goes U T K1 K2" using goes_set_changed [OF goes_ok [OF w(2)]] goes_refl [OF goes_ok [OF w(2)]] by (simp add: K2_def)
    have g02: "goes U T K K2" by (rule goes_trans [OF w(2) g2])
    let ?K3 = "set_curr w s K2"
    have "goes U T K2 ?K3"
      by (rule goes_set_curr [OF goes_ok [OF g2] assms(3,4)]) (use v(1) w ty [OF g02] in \<open>auto simp: goes_is_text [OF g2]\<close>)
    then have g3: "goes U T K ?K3" by (rule goes_trans [OF g02])
    have t3: "text_of T s ?K3" using w(4) goes_is_text [OF goes_trans [OF g2 \<open>goes U T K2 ?K3\<close>]] by (simp add: text_of_def)
    show "returns (case q of (v, K) \<Rightarrow>
        if sym_is_choice s (set_curr v s (if old \<noteq> v then sym_set_changed s K else K))
        then case sym_get_choice_prop s (set_curr v s (if old \<noteq> v then sym_set_changed s K else K)) of
            None \<Rightarrow> Fault
          | Some p \<Rightarrow> Ret (mark_members (k_flags (ksym (set_curr v s (if old \<noteq> v then sym_set_changed s K else K)) s) AND (SYMBOL_CHANGED OR SYMBOL_WRITE))
              (p_members p) (set_curr v s (if old \<noteq> v then sym_set_changed s K else K)))
        else Ret (set_curr v s (if old \<noteq> v then sym_set_changed s K else K))) (\<lambda>K'. goes U T K K' \<and> text_of T s K')"
      unfolding w(1) prod.case K2_def [symmetric]
    proof (cases "sym_is_choice s ?K3")
      case True
      have m: "goes U T ?K3 (mark_members (x AND (SYMBOL_CHANGED OR SYMBOL_WRITE)) ds ?K3)" for x ds
        by (rule goes_mark_members [OF _ _ goes_ok [OF g3]])
          (simp_all add: SYMBOL_CHANGED_def SYMBOL_WRITE_def SYMBOL_VALID_def changing_def and.assoc)
      obtain p where "sym_get_choice_prop s ?K3 = Some p" using choice_prop_ok [OF goes_ok [OF g3] assms(2)] True by auto
      then show "returns (if sym_is_choice s ?K3
        then case sym_get_choice_prop s ?K3 of None \<Rightarrow> Fault
          | Some p \<Rightarrow> Ret (mark_members (k_flags (ksym ?K3 s) AND (SYMBOL_CHANGED OR SYMBOL_WRITE)) (p_members p) ?K3)
        else Ret ?K3) (\<lambda>K'. goes U T K K' \<and> text_of T s K')"
        using True goes_trans [OF g3 m] goes_text [OF m t3] by simp
    qed (use g3 t3 in simp)
  qed
qed

lemma typed_value_returns:
  assumes "ready U T N K" "s \<in> U" "s \<noteq> symbol_no" "s \<noteq> symbol_empty"
    and t: "s \<in> T \<longrightarrow> k_type (ksym K s) \<in> text_types"
    and v: "s \<in> T \<longrightarrow> is_text K (sv_value v)" "k_type (ksym K s) = S_BOOLEAN \<longrightarrow> sv_tri v \<noteq> tri_mod"
  shows "returns (typed_value cv s old v K) (\<lambda>K'. goes U T K K' \<and> text_of T s K')" (is "returns _ ?P")
  unfolding typed_value_def
proof (rule visibility_then [OF assms(1) goes_refl [OF ready_ok [OF assms(1)]] assms(2)])
  have ty: "k_type (ksym K' s) = k_type (ksym K s)" if "goes U T K K'" for K' by (rule same_configD(2) [OF goes_same [OF that]])
  fix K3
  assume 3: "ready U T N K3" "goes U T K K3"
  let ?K4 = "set_curr v s K3"
  have g4: "goes U T K ?K4"
    using v goes_trans [OF 3(2) goes_set_curr [OF goes_ok [OF 3(2)] assms(3,4), of v]] by (simp add: ty [OF 3(2)] goes_is_text [OF 3(2)])
  have "returns (new_value cv s v ?K4) (worth U T ?K4 s)"
    using t v by (intro new_value_returns ready_goes [OF assms(1) g4] assms(2)) (simp_all add: ty [OF 3(2)] goes_is_text [OF g4])
  then show "returns (obind (new_value cv s v ?K4) (\<lambda>(v, K). obind (sym_get_type cv s K) (\<lambda>(ty, K).
      obind (adjust_mod cv ty v K) (\<lambda>(v, K). finish_value cv s old v K)))) ?P"
  proof (rule returns_bind)
    fix q5 :: "symbol_value \<times> kconf"
    assume "worth U T ?K4 s q5"
    then obtain v5 K5 where 5: "q5 = (v5, K5)" "goes U T ?K4 K5" "s \<in> T \<longrightarrow> is_text K5 (sv_value v5)" by (cases q5) (simp add: worth_def)
    have g5: "goes U T K K5" by (rule goes_trans [OF g4 5(2)])
    have "returns (obind (sym_get_type cv s K5) (\<lambda>(ty, K). obind (adjust_mod cv ty v5 K) (\<lambda>(v, K). finish_value cv s old v K))) ?P"
    proof (rule returns_bind [OF sym_get_type_returns [OF ready_goes [OF assms(1) g5] assms(2)]])
      fix q6 :: "symbol_type \<times> kconf"
      assume "case q6 of (ty, K') \<Rightarrow> goes U T K5 K' \<and> (k_type (ksym K5 s) \<noteq> S_TRISTATE \<longrightarrow> ty = k_type (ksym K5 s))"
      then obtain y K6 where 6: "q6 = (y, K6)" "goes U T K5 K6" "k_type (ksym K s) \<noteq> S_TRISTATE \<longrightarrow> y = k_type (ksym K s)"
        by (cases q6) (simp add: ty [OF g5])
      have g6: "goes U T K K6" by (rule goes_trans [OF g5 6(2)])
      have "returns (obind (adjust_mod cv y v5 K6) (\<lambda>(v, K). finish_value cv s old v K)) ?P"
      proof (rule returns_bind [OF adjust_mod_returns [OF ready_goes [OF assms(1) g6]]])
        fix q7 :: "symbol_value \<times> kconf"
        assume "case q7 of (w, K') \<Rightarrow> goes U T K6 K' \<and> sv_value w = sv_value v5 \<and> (y = S_BOOLEAN \<longrightarrow> sv_tri w \<noteq> tri_mod)"
        then obtain w K7 where 7: "q7 = (w, K7)" "goes U T K6 K7" "sv_value w = sv_value v5" "y = S_BOOLEAN \<longrightarrow> sv_tri w \<noteq> tri_mod"
          by (cases q7) simp
        have g7: "goes U T K K7" by (rule goes_trans [OF g6 7(2)])
        have "invalid U K7 < N" using ready_goes [OF assms(1) g7] by (simp add: ready_def)
        then have "returns (finish_value cv s old w K7) (\<lambda>K'. goes U T K7 K' \<and> text_of T s K')"
          using 5(3) 6(3) 7(3,4)
          by (intro finish_value_returns [OF goes_ok [OF g7] assms(2-4)])
            (auto simp: ty [OF g7] goes_is_text [OF 7(2)] goes_is_text [OF 6(2)])
        then show "returns (case q7 of (v, K) \<Rightarrow> finish_value cv s old v K) ?P"
          using goes_trans [OF g7] by (simp add: 7(1)) (erule returns_mono, blast)
      qed
      then show "returns (case q6 of (ty, K) \<Rightarrow> obind (adjust_mod cv ty v5 K) (\<lambda>(v, K). finish_value cv s old v K)) ?P"
        by (simp add: 6(1))
    qed
    then show "returns (case q5 of (v, K) \<Rightarrow> obind (sym_get_type cv s K) (\<lambda>(ty, K). obind (adjust_mod cv ty v K) (\<lambda>(v, K). finish_value cv s old v K))) ?P"
      by (simp add: 5(1))
  qed
qed

lemma value_step_returns:
  assumes "ready U T (Suc N) K" "s \<in> U"
  shows "returns (value_step cv s K) (\<lambda>K'. goes U T K K' \<and> text_of T s K' \<and> (has_values (k_type (ksym K s)) \<longrightarrow> valid_sym s K'))"
proof -
  have ok: "conf_ok U T K" by (rule ready_ok [OF assms(1)])
  consider (valid) "valid_sym s K" | (typed) "\<not> valid_sym s K" "has_values (k_type (ksym K s))" | (other) "\<not> valid_sym s K" "\<not> has_values (k_type (ksym K s))"
    by blast
  then show ?thesis
  proof cases
    case valid
    then show ?thesis using ok by (auto simp: value_step_def goes_refl text_of_def conf_ok_def values_ok_def)
  next
    case other
    have n: "s \<noteq> symbol_no" "s \<noteq> symbol_empty" using other(1) ok by (auto simp: conf_ok_def values_ok_def)
    have v: "k_type (ksym K s) = S_BOOLEAN \<longrightarrow> sv_tri \<lparr>sv_value = VName s, sv_tri = tri_no\<rparr> \<noteq> tri_mod" by simp
    have t: "s \<in> T \<longrightarrow> is_text K (sv_value \<lparr>sv_value = VName s, sv_tri = tri_no\<rparr>)"
      using ok other(2) by (auto simp: conf_ok_def static_ok_def text_symbol_ok_def is_text_def has_values_def text_types_def)
    show ?thesis using finish_value_returns [OF ok assms(2) n v t, of "k_curr (ksym K s)"] other by (simp add: value_step_def Let_def)
  next
    case typed
    have n: "s \<noteq> symbol_no" "s \<noteq> symbol_empty" using typed(1) ok by (auto simp: conf_ok_def values_ok_def)
    let ?v = "start_value (k_type (ksym K s)) K" and ?old = "k_curr (ksym K s)"
    let ?K1 = "flag_set SYMBOL_VALID s K" let ?K2 = "if sym_is_choice_value s ?K1 then ?K1 else flag_clear SYMBOL_WRITE s ?K1"
    have tt: "s \<in> T \<longrightarrow> k_type (ksym K s) \<in> text_types"
      using ok typed(2) by (auto simp: conf_ok_def static_ok_def text_symbol_ok_def)
    have sv: "s \<in> T \<longrightarrow> is_text K (sv_value ?v)" "k_type (ksym K s) = S_BOOLEAN \<longrightarrow> sv_tri ?v \<noteq> tri_mod"
      using tt ok by (auto simp: start_value_def text_types_def conf_ok_def values_ok_def)
    have g1: "goes U T K ?K1" by (rule goes_valid [OF ok typed(2)])
    have "s \<notin> {t \<in> U. has_values (k_type (ksym ?K1 t)) \<and> \<not> valid_sym t ?K1}" by (simp add: SYMBOL_VALID_def)
    moreover have "{t \<in> U. has_values (k_type (ksym ?K1 t)) \<and> \<not> valid_sym t ?K1} \<subseteq> {t \<in> U. has_values (k_type (ksym K t)) \<and> \<not> valid_sym t K}"
      using typed by auto
    ultimately have "{t \<in> U. has_values (k_type (ksym ?K1 t)) \<and> \<not> valid_sym t ?K1} \<subset> {t \<in> U. has_values (k_type (ksym K t)) \<and> \<not> valid_sym t K}"
      using typed assms(2) by blast
    then have "invalid U ?K1 < invalid U K"
      unfolding invalid_def by (rule psubset_card_mono [rotated]) (use ok in \<open>simp add: conf_ok_def static_ok_def\<close>)
    then have r1: "ready U T N ?K1" using assms(1) goes_ok [OF g1] by (simp add: ready_def)
    have g12: "goes U T ?K1 ?K2" using goes_clear_write [OF goes_ok [OF g1]] goes_refl [OF goes_ok [OF g1]] by simp
    have r2: "ready U T N ?K2" by (rule ready_goes [OF r1 g12])
    have g2: "goes U T K ?K2" by (rule goes_trans [OF g1 g12])
    have "valid_sym s ?K1" by (simp add: SYMBOL_VALID_def)
    then have v2: "valid_sym s ?K2" using g12 unfolding goes_def by blast
    have ty: "k_type (ksym ?K2 s) = k_type (ksym K s)" by (rule same_configD(2) [OF goes_same [OF g2]])
    have "returns (typed_value cv s ?old ?v ?K2) (\<lambda>K'. goes U T ?K2 K' \<and> text_of T s K')"
      by (rule typed_value_returns [OF r2 assms(2) n]) (simp_all only: ty goes_is_text [OF g2], fact tt, fact sv, fact sv)
    moreover have "value_step cv s K = typed_value cv s ?old ?v ?K2" using typed by (simp add: value_step_def Let_def)
    ultimately have "returns (value_step cv s K) (\<lambda>K'. goes U T ?K2 K' \<and> text_of T s K')" by simp
    then show ?thesis
    proof (rule returns_mono)
      fix K'
      assume k: "goes U T ?K2 K' \<and> text_of T s K'"
      then have "valid_sym s K'" using v2 unfolding goes_def by blast
      then show "goes U T K K' \<and> text_of T s K' \<and> (has_values (k_type (ksym K s)) \<longrightarrow> valid_sym s K')"
        using k goes_trans [OF g2] by blast
    qed
  qed
qed

end

lemma calc_value_contract: "value_contract U T (sym_calc_value n) n"
proof (induction n)
  case 0
  show ?case by unfold_locales (simp add: ready_def)
next
  case (Suc n)
  show ?case
    by unfold_locales (simp only: sym_calc_value.simps, rule returns_mono [OF value_contract.value_step_returns [OF Suc]], auto)
qed

interpretation sc: value_contract U T "sym_calc_value n" n for U T n
  by (rule calc_value_contract)


section \<open>Calculated values\<close>

text \<open>C13: in a configuration, whatever its symbols depend on (each other in a circle included), the value
  of a symbol is calculated with a nesting of calls of at most one more than the number of symbols
  that are not calculated yet: sym_calc_value returns, the symbol is marked as calculated, no type,
  name, property, user's value or flag of the configuration is changed, and the configuration stays
  one: no boolean symbol is m, and every symbol that is compared as a text holds one.\<close>
theorem symbol_value_is_calculated:
  assumes "conf_ok U T K" "s \<in> U" "invalid U K < n"
  shows "\<exists>K'. sym_calc_value n s K = Ret K' \<and> conf_ok U T K' \<and> same_config K K' \<and>
    (has_values (k_type (ksym K s)) \<longrightarrow> valid_sym s K') \<and> (k_type (ksym K s) = S_BOOLEAN \<longrightarrow> tri_of s K' \<noteq> tri_mod)"
proof -
  obtain m where n: "n = Suc m" using assms(3) by (cases n) auto
  have "returns (sym_calc_value n s K) (\<lambda>K'. goes U T K K' \<and> text_of T s K' \<and> (has_values (k_type (ksym K s)) \<longrightarrow> valid_sym s K'))"
    using sc.value_step_returns [of U T m K s] assms by (simp add: n sym_calc_value.simps ready_def)
  then obtain K' where K': "sym_calc_value n s K = Ret K'" "goes U T K K'" "has_values (k_type (ksym K s)) \<longrightarrow> valid_sym s K'"
    by (auto simp: returns_def)
  have "k_type (ksym K' s) = k_type (ksym K s)" by (rule same_configD(2) [OF goes_same [OF K'(2)]])
  then show ?thesis using K' assms(2) by (auto simp: goes_def conf_ok_def values_ok_def)
qed

text \<open>Two symbols that depend on each other, one boolean and one that a user set to m.\<close>

definition base_symbol :: ksymbol where
  "base_symbol = \<lparr>k_name = None, k_type = S_UNKNOWN, k_curr = \<lparr>sv_value = VStr 0 [], sv_tri = tri_no\<rparr>,
     k_def = \<lparr>sv_value = VNull, sv_tri = tri_no\<rparr>, k_visible = tri_no, k_flags = SYMBOL_VALID, k_props = []\<rparr>"

definition prompt_if :: "sym_ref \<Rightarrow> kproperty" where
  "prompt_if s = (create_prop P_PROMPT)\<lparr>p_visible := Some (ESym s)\<rparr>"

definition circle :: kconf where
  "circle = \<lparr>ksym = (\<lambda>_. base_symbol)
      (symbol_yes := base_symbol\<lparr>k_name := Some ''y'', k_curr := \<lparr>sv_value = VStr 1 ''y'', sv_tri = tri_yes\<rparr>\<rparr>,
       Symbol 0 := base_symbol\<lparr>k_name := Some ''A'', k_type := S_BOOLEAN, k_flags := SYMBOL_NEW, k_props := [prompt_if (Symbol 1)]\<rparr>,
       Symbol 1 := base_symbol\<lparr>k_name := Some ''B'', k_type := S_TRISTATE, k_flags := 0,
         k_def := \<lparr>sv_value = VNull, sv_tri = tri_mod\<rparr>, k_props := [prompt_if (Symbol 0), prompt_if symbol_yes]\<rparr>),
     symbol_hash = (\<lambda>_. [])(65 := [Symbol 0], 66 := [Symbol 1]), numSymbols = 2, numTexts = 2, modules_sym = symbol_yes,
     menu_flags = (\<lambda>_. 0), sym_change_count = 0, sym_inited = True\<rparr>"

lemma circle_ok: "conf_ok {Symbol 0, Symbol 1, symbol_yes} {} circle" "invalid {Symbol 0, Symbol 1, symbol_yes} circle = 2"
proof -
  show "conf_ok {Symbol 0, Symbol 1, symbol_yes} {} circle"
    by (simp add: conf_ok_def static_ok_def values_ok_def symbol_ok_def keys_ok_def key_def circle_def base_symbol_def prompt_if_def create_prop_def
      has_flag_def is_text_def SYMBOL_VALID_def SYMBOL_CHOICE_def SYMBOL_CHOICEVAL_def SYMBOL_NEW_def)
  have "{s \<in> {Symbol 0, Symbol 1, symbol_yes}. has_values (k_type (ksym circle s)) \<and> \<not> valid_sym s circle} = {Symbol 0, Symbol 1}"
    by (auto simp: circle_def base_symbol_def has_values_def has_flag_def SYMBOL_VALID_def SYMBOL_NEW_def)
  then show "invalid {Symbol 0, Symbol 1, symbol_yes} circle = 2" by (simp add: invalid_def)
qed

theorem symbol_value_is_calculated_witness:
  "\<exists>K'. sym_calc_value 3 (Symbol 0) circle = Ret K' \<and> valid_sym (Symbol 0) K' \<and> tri_of (Symbol 0) K' \<noteq> tri_mod"
proof -
  have "k_type (ksym circle (Symbol 0)) = S_BOOLEAN" by (simp add: circle_def base_symbol_def)
  moreover have "invalid {Symbol 0, Symbol 1, symbol_yes} circle < 3" using circle_ok(2) by linarith
  ultimately show ?thesis
    using symbol_value_is_calculated [OF circle_ok(1), of "Symbol 0" 3] by (auto simp: has_values_def)
qed

end
