(* ===== verification/Ksym_User.thy ===== *)
theory Ksym_User
  imports Ksym_Props
begin

text \<open>
  Looking symbols up, evaluating expressions over calculated symbols, and what the user may set:
  the configuration stays one whatever is set.
\<close>

section \<open>Expressions over calculated symbols\<close>

definition text_at :: "kconf \<Rightarrow> value_ptr \<Rightarrow> string" where
  "text_at K v = (case v of VStr i t \<Rightarrow> t | VName s \<Rightarrow> (case k_name (ksym K s) of Some n \<Rightarrow> n | None \<Rightarrow> []) | _ \<Rightarrow> [])"

text \<open>The symbols as the functions of expr.c read them.\<close>

definition view :: "kconf \<Rightarrow> symbols" where
  "view K = \<lparr>sym_type = (\<lambda>s. k_type (ksym K s)), sym_flags = (\<lambda>s. k_flags (ksym K s)), sym_name = (\<lambda>s. k_name (ksym K s)),
     curr_tri = (\<lambda>s. tri_of s K), curr_value = (\<lambda>s. text_at K (val_of s K))\<rparr>"

lemma view_tri: "curr_tri (view K) s = tri_of s K"
  by (simp add: view_def)

lemma string_value_view: "s \<in> comparable T K \<Longrightarrow> text_of T s K \<Longrightarrow> string_value s K = Ret (sym_get_string_value (view K) s)"
  by (auto simp: string_value_def sym_get_string_value_def view_def text_at_def comparable_def text_of_def is_text_def
    split: value_ptr.splits option.splits tristate.split)

text \<open>Once its symbols are calculated, expr_calc_value gives an expression the value that the
  evaluation of Kexpr gives it, and changes nothing, so what holds of the rewriting of expressions
  there holds of what the configuration program calculates.\<close>
lemma calculated_expression_value:
  assumes "conf_ok U T K" "expr_in (U \<inter> {s. valid_sym s K}) (comparable T K) e"
  shows "calc_expr (sym_calc_value (Suc n)) e K = Ret (expr_value (view K) e, K)"
proof -
  have v: "sym_calc_value (Suc n) s K = Ret K" if "valid_sym s K" for s
    using that by (simp add: sym_calc_value.simps value_step_def)
  have t: "text_of T s K" if "valid_sym s K" for s
    using that assms(1) by (simp add: text_of_def conf_ok_def values_ok_def)
  show ?thesis
    using assms(2) by (induction e) (simp_all add: v t string_value_view [of _ T] view_tri)
qed

section \<open>The table of symbols\<close>

text \<open>A bucket holds the symbols with its hash, each name at most once as a constant and once as
  another symbol; the symbols without a name are in the bucket of their own.\<close>

definition named :: "kconf \<Rightarrow> sym_ref \<Rightarrow> string option \<times> bool" where
  "named K s = (k_name (ksym K s), has_flag SYMBOL_CONST s K)"

definition in_bucket :: "kconf \<Rightarrow> nat \<Rightarrow> sym_ref \<Rightarrow> bool" where
  "in_bucket K h s \<longleftrightarrow> (\<exists>i < numSymbols K. s = Symbol i) \<and>
     (if h = 256 then k_name (ksym K s) = None
      else \<exists>n. k_name (ksym K s) = Some n \<and> sym_bucket n = h \<and> static_symbol n = None)"

definition bucket_ok :: "kconf \<Rightarrow> nat \<Rightarrow> bool" where
  "bucket_ok K h \<longleftrightarrow> (\<forall>s \<in> set (symbol_hash K h). in_bucket K h s) \<and>
     distinct (symbol_hash K h) \<and> (h \<noteq> 256 \<longrightarrow> inj_on (named K) (set (symbol_hash K h)))"

definition table_ok :: "kconf \<Rightarrow> bool" where
  "table_ok K \<longleftrightarrow> (\<forall>h. bucket_ok K h) \<and> (\<forall>h > 256. symbol_hash K h = [])"

lemma sym_bucket_less: "sym_bucket n < 256"
proof -
  have "unat (x AND SYMBOL_HASHMASK) \<le> 255" for x :: u32
    using word_and_le1 [of x SYMBOL_HASHMASK] by (simp add: word_le_nat_alt SYMBOL_HASHMASK_def)
  then show ?thesis by (simp add: sym_bucket_def le_less_trans [of _ 255])
qed

lemma bucket_loop_find:
  assumes "\<forall>s \<in> set ss. k_name (ksym K s) \<noteq> None"
  shows "bucket_loop K n c ss = Ret (find (\<lambda>s. named K s = (Some n, c)) ss)"
  using assms by (induction ss) (auto simp: named_def split: option.splits)

lemma bucket_loop_table: "table_ok K \<Longrightarrow> bucket_loop K n c (symbol_hash K (sym_bucket n)) =
    Ret (find (\<lambda>s. named K s = (Some n, c)) (symbol_hash K (sym_bucket n)))"
  using sym_bucket_less [of n] by (intro bucket_loop_find) (fastforce simp: table_ok_def bucket_ok_def in_bucket_def)

lemma sym_find_table:
  "table_ok K \<Longrightarrow> static_symbol n = None \<Longrightarrow>
   sym_find (Some n) K = Ret (find (\<lambda>s. named K s = (Some n, False)) (symbol_hash K (sym_bucket n)))"
  by (simp add: sym_find_def bucket_loop_table)

text \<open>Adding a symbol.\<close>

lemma fresh_named: "ksym K s = fresh_symbol name c \<Longrightarrow> named K s = (name, c)"
  by (auto simp: named_def fresh_symbol_def has_flag_def SYMBOL_NEW_def SYMBOL_CONST_def)

lemma add_symbol_table:
  assumes ok: "table_ok K" and h: "case name of None \<Rightarrow> h = 256 | Some n \<Rightarrow> h = sym_bucket n \<and> static_symbol n = None"
    and new: "name \<noteq> None \<Longrightarrow> (name, c) \<notin> named K ` set (symbol_hash K h)"
    and a: "add_symbol h name c K = (s, K')"
  shows "table_ok K'" "symbol_hash K' = (symbol_hash K)(h := s # symbol_hash K h)" "named K' s = (name, c)"
    "\<And>t h'. t \<in> set (symbol_hash K h') \<Longrightarrow> t \<noteq> s \<and> ksym K' t = ksym K t"
proof -
  have s: "s = Symbol (numSymbols K)" and K': "K' = K\<lparr>ksym := (ksym K)(s := fresh_symbol name c),
      symbol_hash := (symbol_hash K)(h := s # symbol_hash K h), numSymbols := numSymbols K + 1\<rparr>"
    using a by (auto simp: add_symbol_def Let_def)
  show hash: "symbol_hash K' = (symbol_hash K)(h := s # symbol_hash K h)" by (simp add: K')
  show n: "named K' s = (name, c)" by (rule fresh_named) (simp add: K')
  show old: "t \<noteq> s \<and> ksym K' t = ksym K t" if "t \<in> set (symbol_hash K h')" for t h'
    using that ok s by (fastforce simp: table_ok_def bucket_ok_def in_bucket_def K')
  have nm: "named K' t = named K t" if "t \<in> set (symbol_hash K h')" for t h'
    using old [OF that] by (simp add: named_def has_flag_def)
  have inj: "inj_on (named K') (set (symbol_hash K h')) = inj_on (named K) (set (symbol_hash K h'))" for h'
    by (rule inj_on_cong) (simp add: nm)
  have b: "bucket_ok K h'" for h' using ok by (simp add: table_ok_def)
  have ib: "in_bucket K' h' t" if "t \<in> set (symbol_hash K h')" for t h'
  proof -
    have "in_bucket K h' t" using b that by (simp add: bucket_ok_def)
    then show ?thesis using old [OF that] by (auto simp: in_bucket_def K' less_Suc_eq)
  qed
  have h256: "h \<le> 256" using h sym_bucket_less by (auto split: option.splits intro: less_imp_le)
  have "bucket_ok K' h'" for h'
  proof (cases "h' = h")
    case False
    then have e: "symbol_hash K' h' = symbol_hash K h'" by (simp add: hash)
    show ?thesis using b [of h'] ib [of _ h'] inj [of h'] unfolding bucket_ok_def e by blast
  next
    case True
    have k: "k_name (ksym K' s) = name" using n by (simp add: named_def)
    have i: "\<exists>i < numSymbols K'. s = Symbol i" by (simp add: s K')
    have "in_bucket K' h s"
    proof (cases name)
      case (Some m)
      then have m: "h = sym_bucket m" "static_symbol m = None" using h by auto
      then have "h \<noteq> 256" using sym_bucket_less [of m] by simp
      then show ?thesis using i k m by (simp add: in_bucket_def Some)
    qed (use h i k in \<open>simp add: in_bucket_def\<close>)
    moreover have "h \<noteq> 256 \<longrightarrow> named K' s \<notin> named K' ` set (symbol_hash K h)"
    proof
      assume "h \<noteq> 256"
      then have "name \<noteq> None" using h by (auto split: option.splits)
      moreover have "named K' ` set (symbol_hash K h) = named K ` set (symbol_hash K h)" by (rule image_cong) (simp_all add: nm)
      ultimately show "named K' s \<notin> named K' ` set (symbol_hash K h)" using new n by simp
    qed
    moreover have "s \<notin> set (symbol_hash K h)" using old by blast
    moreover have "symbol_hash K' h' = s # symbol_hash K h" by (simp add: hash True)
    ultimately show ?thesis using True b [of h] ib [of _ h] inj [of h] by (simp add: bucket_ok_def) 
  qed
  then show "table_ok K'" using ok h256 by (simp add: table_ok_def hash)
qed

lemma find_cong_set: "(\<And>x. x \<in> set xs \<Longrightarrow> P x = Q x) \<Longrightarrow> find P xs = find Q xs"
  by (rule find_cong) simp_all

text \<open>C39: on a well-formed table, looking up a name that is not the one of a static symbol gives a symbol
  of that name and kind (a new one if there is none), leaves the table well formed and every symbol
  in it alone; the same look-up then gives the same symbol and changes nothing, sym_find finds it
  unless it is a constant, and every other name is found as before.\<close>
lemma lookup_finds_symbol:
  assumes "table_ok K" "static_symbol n = None"
  shows "\<exists>s K'. sym_lookup (Some n) c K = Ret (s, K') \<and> table_ok K' \<and> named K' s = (Some n, c) \<and>
    sym_lookup (Some n) c K' = Ret (s, K') \<and> (\<not> c \<longrightarrow> sym_find (Some n) K' = Ret (Some s)) \<and>
    (\<forall>m. (m, False) \<noteq> (n, c) \<longrightarrow> sym_find (Some m) K' = sym_find (Some m) K) \<and>
    (\<forall>h. \<forall>t \<in> set (symbol_hash K h). ksym K' t = ksym K t)"
proof (cases "find (\<lambda>s. named K s = (Some n, c)) (symbol_hash K (sym_bucket n))")
  case (Some s)
  then have n: "named K s = (Some n, c)" by (auto simp: find_Some_iff)
  have l: "sym_lookup (Some n) c K = Ret (s, K)"
    using assms Some by (simp add: sym_lookup_def bucket_loop_table)
  moreover have "\<not> c \<Longrightarrow> sym_find (Some n) K = Ret (Some s)" using assms Some by (simp add: sym_find_table)
  ultimately show ?thesis using assms(1) n by blast
next
  case None
  obtain s K' where a: "add_symbol (sym_bucket n) (Some n) c K = (s, K')" by (cases "add_symbol (sym_bucket n) (Some n) c K")
  have "(Some n, c) \<notin> named K ` set (symbol_hash K (sym_bucket n))" using None by (auto simp: find_None_iff)
  then have new: "Some n \<noteq> None \<Longrightarrow> (Some n, c) \<notin> named K ` set (symbol_hash K (sym_bucket n))" by simp
  have h: "case Some n of None \<Rightarrow> sym_bucket n = 256 | Some m \<Rightarrow> sym_bucket n = sym_bucket m \<and> static_symbol m = None" using assms(2) by simp
  note t = add_symbol_table [OF assms(1) h new a]
  have l: "sym_lookup (Some n) c K = Ret (s, K')" using assms None a by (simp add: sym_lookup_def bucket_loop_table)
  have f: "find (\<lambda>t. named K' t = (Some n, c)) (symbol_hash K' (sym_bucket n)) = Some s" by (simp add: t(2,3))
  have l2: "sym_lookup (Some n) c K' = Ret (s, K')" using assms(2) t(1) f by (simp add: sym_lookup_def bucket_loop_table)
  have "sym_find (Some m) K' = sym_find (Some m) K" if "(m, False) \<noteq> (n, c)" for m
  proof (cases "static_symbol m")
    case None
    have "find (\<lambda>u. named K' u = (Some m, False)) (symbol_hash K h) = find (\<lambda>u. named K u = (Some m, False)) (symbol_hash K h)" for h
      using t(4) by (intro find_cong_set) (simp add: named_def has_flag_def)
    then show ?thesis using None assms(1) t(1-3) that by (auto simp: sym_find_table)
  qed (simp add: sym_find_def)
  moreover have "\<not> c \<Longrightarrow> sym_find (Some n) K' = Ret (Some s)" using assms(2) t(1) f by (simp add: sym_find_table)
  ultimately show ?thesis using l t(1,3,4) l2 by (intro exI [of _ s] exI [of _ K'] conjI) (simp_all only:, auto)
qed

lemma circle_table: "table_ok circle"
  by (auto simp: table_ok_def bucket_ok_def in_bucket_def circle_def base_symbol_def static_symbol_def sym_bucket_def SYMBOL_HASHMASK_def)

theorem lookup_finds_symbol_witness:
  "\<exists>s K'. sym_lookup (Some ''A'') True circle = Ret (s, K') \<and> s \<noteq> Symbol 0 \<and> sym_find (Some ''A'') K' = Ret (Some (Symbol 0))"
proof -
  have s: "static_symbol ''A'' = None" by (simp add: static_symbol_def)
  from lookup_finds_symbol [OF circle_table s, of True] obtain s K' where
    l: "sym_lookup (Some ''A'') True circle = Ret (s, K')" "named K' s = (Some ''A'', True)"
      "\<forall>m. (m, False) \<noteq> (''A'', True) \<longrightarrow> sym_find (Some m) K' = sym_find (Some m) circle"
      "\<forall>h. \<forall>t \<in> set (symbol_hash circle h). ksym K' t = ksym circle t" by blast
  have f: "sym_find (Some ''A'') circle = Ret (Some (Symbol 0))"
    using circle_table s by (simp add: sym_find_table sym_bucket_def SYMBOL_HASHMASK_def)
      (simp add: circle_def named_def base_symbol_def has_flag_def SYMBOL_NEW_def SYMBOL_CONST_def)
  have "Symbol 0 \<in> set (symbol_hash circle 65)" by (simp add: circle_def)
  then have "ksym K' (Symbol 0) = ksym circle (Symbol 0)" using l(4) by blast
  then have "named K' (Symbol 0) = (Some ''A'', False)"
    by (simp add: circle_def named_def base_symbol_def has_flag_def SYMBOL_NEW_def SYMBOL_CONST_def)
  then have "s \<noteq> Symbol 0" using l(2) by auto
  then show ?thesis using l(1,3) f by auto
qed

theorem calculated_expression_value_witness:
  "calc_expr (sym_calc_value 1) (EEqual symbol_yes symbol_yes) (circle\<lparr>modules_sym := symbol_no\<rparr>) =
     Ret (tri_yes, circle\<lparr>modules_sym := symbol_no\<rparr>)"
proof -
  let ?K = "circle\<lparr>modules_sym := symbol_no\<rparr>"
  have "conf_ok {symbol_yes, symbol_no} {symbol_yes} ?K"
    by (simp add: conf_ok_def static_ok_def values_ok_def symbol_ok_def text_symbol_ok_def keys_ok_def circle_def base_symbol_def
      has_flag_def is_text_def has_values_def SYMBOL_VALID_def SYMBOL_CHOICE_def SYMBOL_CHOICEVAL_def)
  moreover have "expr_in ({symbol_yes, symbol_no} \<inter> {s. valid_sym s ?K}) (comparable {symbol_yes} ?K) (EEqual symbol_yes symbol_yes)"
    by (simp add: comparable_def circle_def base_symbol_def has_flag_def SYMBOL_VALID_def)
  ultimately show ?thesis using calculated_expression_value [of _ _ ?K "EEqual symbol_yes symbol_yes" 0] by simp
qed

section \<open>What the user sets\<close>

text \<open>A change of the user's values, the new and the valid flags that leaves a configuration one.\<close>

lemma conf_ok_change:
  assumes ok: "conf_ok U T K"
    and same: "\<And>t. k_name (ksym K' t) = k_name (ksym K t) \<and> k_type (ksym K' t) = k_type (ksym K t) \<and> k_curr (ksym K' t) = k_curr (ksym K t) \<and>
        k_props (ksym K' t) = k_props (ksym K t)"
    and flags: "\<And>t. sym_is_choice t K' = sym_is_choice t K" "\<And>t. sym_is_choice_value t K' = sym_is_choice_value t K"
      "\<And>t. valid_sym t K' = valid_sym t K" "modules_sym K' = modules_sym K"
    and texts: "\<And>t. t \<in> T \<Longrightarrow> k_type (ksym K t) \<in> text_types \<Longrightarrow> sym_has_value t K' \<Longrightarrow> is_text K (sv_value (k_def (ksym K' t)))"
    and choice: "\<And>t. t \<in> U \<Longrightarrow> sym_is_choice t K \<Longrightarrow>
        sv_value (k_def (ksym K' t)) = VNull \<or> (\<exists>d \<in> U. sv_value (k_def (ksym K' t)) = VSym d)"
  shows "conf_ok U T K'"
proof -
  have it: "is_text K' v = is_text K v" for v by (simp add: is_text_def same split: value_ptr.split)
  have c: "comparable T K' = comparable T K" by (simp add: comparable_def same)
  have p: "choice_key t K' = choice_key t K" for t by (simp add: choice_key_keys same)
  have "symbol_ok U T K' t" if "t \<in> U" for t
    using symbol_okI [OF ok that] choice [OF that] by (simp add: symbol_ok_def same flags c p)
  moreover have "text_symbol_ok K' t" if "t \<in> T" for t
    using ok texts [OF that] that by (auto simp: conf_ok_def static_ok_def text_symbol_ok_def same flags it)
  ultimately have "static_ok U T K'" using ok by (simp add: static_ok_def conf_ok_def flags)
  moreover have "values_ok U T K'" using ok by (simp add: conf_ok_def values_ok_def same flags it)
  ultimately show ?thesis by (simp add: conf_ok_def)
qed

text \<open>Clearing the valid flags.\<close>

lemma fold_clear: "ksym (fold (flag_clear w) ss K) t =
    (if t \<in> set ss then (ksym K t)\<lparr>k_flags := k_flags (ksym K t) AND NOT w\<rparr> else ksym K t)"
  by (induction ss arbitrary: K) (auto simp: and.assoc)

lemma fold_clear_rest: "modules_sym (fold (flag_clear w) ss K) = modules_sym K \<and> symbol_hash (fold (flag_clear w) ss K) = symbol_hash K \<and>
    numSymbols (fold (flag_clear w) ss K) = numSymbols K"
  by (induction ss arbitrary: K) (auto simp: flag_clear_def upd_sym_def)

lemma clear_all_same: "same_config K (sym_clear_all_valid K)"
proof -
  have "NOT SYMBOL_VALID AND NOT changing = NOT changing" by (simp add: changing_def SYMBOL_WRITE_def SYMBOL_VALID_def SYMBOL_CHANGED_def)
  then have "(x AND NOT SYMBOL_VALID) AND NOT changing = x AND NOT changing" for x :: u32 by (simp add: and.assoc)
  then show ?thesis
    by (simp add: same_config_def same_symbol_config_def sym_clear_all_valid_def Let_def fold_clear fold_clear_rest)
qed

lemma clear_all_curr: "k_curr (ksym (sym_clear_all_valid K) t) = k_curr (ksym K t)"
  by (simp add: sym_clear_all_valid_def Let_def fold_clear)

lemma clear_all_valid_sym: "valid_sym t (sym_clear_all_valid K) \<longleftrightarrow> t \<notin> set (all_symbols K) \<and> valid_sym t K"
  by (simp add: sym_clear_all_valid_def Let_def fold_clear has_flag_def and.assoc)

lemma all_symbols_table: "table_ok K \<Longrightarrow> t \<in> set (all_symbols K) \<Longrightarrow> \<exists>i. t = Symbol i"
proof -
  assume "table_ok K" "t \<in> set (all_symbols K)"
  then obtain h where "t \<in> set (symbol_hash K h)" "bucket_ok K h" by (auto simp: all_symbols_def table_ok_def)
  then show "\<exists>i. t = Symbol i" by (auto simp: bucket_ok_def in_bucket_def)
qed

lemma conf_ok_clear_all:
  assumes "conf_ok U T K" "symbol_no \<notin> set (all_symbols K)" "symbol_empty \<notin> set (all_symbols K)"
  shows "conf_ok U T (sym_clear_all_valid K)"
proof -
  have "values_ok U T (sym_clear_all_valid K)"
    using assms by (auto simp: conf_ok_def values_ok_def clear_all_valid_sym clear_all_curr is_text_cong [OF clear_all_same] same_configD [OF clear_all_same])
  then show ?thesis using static_ok_cong [OF clear_all_same] assms(1) by (simp add: conf_ok_def)
qed

lemma goes_set_all_changed: "conf_ok U T K \<Longrightarrow> goes U T K (sym_set_all_changed K)"
proof -
  have "conf_ok U T K \<Longrightarrow> goes U T K (fold sym_set_changed ss K)" for ss
  proof (induction ss arbitrary: K)
    case (Cons s ss)
    then show ?case using goes_trans [OF goes_set_changed Cons.IH [OF goes_ok [OF goes_set_changed]]] by simp
  qed (simp add: goes_refl)
  then show "conf_ok U T K \<Longrightarrow> goes U T K (sym_set_all_changed K)" by (simp add: sym_set_all_changed_def)
qed

lemma set_changed_sym [simp]:
  "ksym (sym_set_changed s K) t = (if t = s then (ksym K s)\<lparr>k_flags := k_flags (ksym K s) OR SYMBOL_CHANGED\<rparr> else ksym K t)"
proof -
  have "ksym (set_menus_changed ps K) = ksym K" for ps K
    unfolding set_menus_changed_def by (induction ps arbitrary: K) (auto split: option.split)
  then show ?thesis by (simp add: sym_set_changed_def)
qed

lemma set_changed_rest [simp]:
  "modules_sym (sym_set_changed s K) = modules_sym K" "symbol_hash (sym_set_changed s K) = symbol_hash K" "numTexts (sym_set_changed s K) = numTexts K"
proof -
  have "modules_sym (set_menus_changed ps K) = modules_sym K \<and> symbol_hash (set_menus_changed ps K) = symbol_hash K \<and>
      numTexts (set_menus_changed ps K) = numTexts K" for ps K
    unfolding set_menus_changed_def by (induction ps arbitrary: K) (auto split: option.split)
  then show "modules_sym (sym_set_changed s K) = modules_sym K" "symbol_hash (sym_set_changed s K) = symbol_hash K"
    "numTexts (sym_set_changed s K) = numTexts K"
    by (simp_all add: sym_set_changed_def flag_set_def upd_sym_def)
qed

lemma set_def_sym [simp]: "ksym (set_def f s K) t = (if t = s then (ksym K s)\<lparr>k_def := f (k_def (ksym K s))\<rparr> else ksym K t)"
  by (simp add: set_def_def upd_sym_def)

lemma changes_rest [simp]:
  "modules_sym (set_def f s K) = modules_sym K" "symbol_hash (set_def f s K) = symbol_hash K"
  "modules_sym (flag_clear w s K) = modules_sym K" "symbol_hash (flag_clear w s K) = symbol_hash K" "numTexts (flag_clear w s K) = numTexts K"
  by (simp_all add: set_def_def flag_clear_def upd_sym_def)

lemma user_flags [simp]:
  "sym_is_choice t (flag_clear SYMBOL_NEW s K) = sym_is_choice t K" "sym_is_choice_value t (flag_clear SYMBOL_NEW s K) = sym_is_choice_value t K"
  "valid_sym t (flag_clear SYMBOL_NEW s K) = valid_sym t K" "has_flag SYMBOL_NEW t (flag_clear SYMBOL_NEW s K) \<longleftrightarrow> t \<noteq> s \<and> has_flag SYMBOL_NEW t K"
  "has_flag w t (set_def f s K) = has_flag w t K"
  "SYMBOL_CHANGED AND w = 0 \<Longrightarrow> has_flag w t (sym_set_changed s K) = has_flag w t K"
proof -
  have "SYMBOL_NEW AND SYMBOL_CHOICE = 0" "SYMBOL_NEW AND SYMBOL_CHOICEVAL = 0" "SYMBOL_NEW AND SYMBOL_VALID = 0"
    by (simp_all add: SYMBOL_NEW_def SYMBOL_CHOICE_def SYMBOL_CHOICEVAL_def SYMBOL_VALID_def)
  then show "sym_is_choice t (flag_clear SYMBOL_NEW s K) = sym_is_choice t K" "sym_is_choice_value t (flag_clear SYMBOL_NEW s K) = sym_is_choice_value t K"
    "valid_sym t (flag_clear SYMBOL_NEW s K) = valid_sym t K"
    by (simp_all add: has_flag_clear)
  show "has_flag SYMBOL_NEW t (flag_clear SYMBOL_NEW s K) \<longleftrightarrow> t \<noteq> s \<and> has_flag SYMBOL_NEW t K" by (simp add: has_flag_def and.assoc)
  show "has_flag w t (set_def f s K) = has_flag w t K" by (simp add: has_flag_def)
  show "has_flag w t (sym_set_changed s K) = has_flag w t K" if "SYMBOL_CHANGED AND w = 0"
    using that by (simp add: has_flag_def or_and_word)
qed

lemma changed_apart [simp]:
  "SYMBOL_CHANGED AND SYMBOL_CHOICE = 0" "SYMBOL_CHANGED AND SYMBOL_CHOICEVAL = 0" "SYMBOL_CHANGED AND SYMBOL_NEW = 0"
  by (simp_all add: SYMBOL_CHANGED_def SYMBOL_NEW_def SYMBOL_CHOICE_def SYMBOL_CHOICEVAL_def)

text \<open>The parts not_new keeps.\<close>

lemma not_new_keeps:
  "k_name (ksym (not_new s K) t) = k_name (ksym K t)" "k_type (ksym (not_new s K) t) = k_type (ksym K t)"
  "k_curr (ksym (not_new s K) t) = k_curr (ksym K t)" "k_props (ksym (not_new s K) t) = k_props (ksym K t)"
  "k_def (ksym (not_new s K) t) = k_def (ksym K t)" "sym_is_choice t (not_new s K) = sym_is_choice t K"
  "sym_is_choice_value t (not_new s K) = sym_is_choice_value t K" "valid_sym t (not_new s K) = valid_sym t K"
  "modules_sym (not_new s K) = modules_sym K" "symbol_hash (not_new s K) = symbol_hash K" "numTexts (not_new s K) = numTexts K"
  "sym_has_value t (not_new s K) \<longleftrightarrow> t = s \<or> sym_has_value t K"
  by (auto simp: not_new_def)

lemma choose_member_returns:
  assumes ok: "conf_ok U T K" "s \<in> U"
  obtains (plain) "\<not> (sym_is_choice_value s K \<and> val = tri_yes)" "choose_member s val (not_new s K) = Ret (not_new s K)"
  | (member) p c where "sym_is_choice_value s K" "val = tri_yes" "sym_get_choice_prop s K = Some p" "p_def p = Some c" "c \<in> U" "sym_is_choice c K"
      "choose_member s val (not_new s K) = Ret (flag_clear SYMBOL_NEW c (set_def (\<lambda>v. v\<lparr>sv_value := VSym s\<rparr>) c (not_new s K)))"
proof (cases "sym_is_choice_value s K \<and> val = tri_yes")
  case True
  obtain p c where "sym_get_choice_prop s K = Some p" "p_def p = Some c" "c \<in> U" "sym_is_choice c K"
    using choice_prop_ok [OF ok] True by blast
  moreover from this have "sym_get_choice_prop s (not_new s K) = Some p" by (simp add: sym_get_choice_prop_def not_new_keeps)
  ultimately show ?thesis using True by (intro member) (simp_all add: choose_member_def not_new_keeps)
next
  case False
  then show ?thesis by (intro plain) (auto simp: choose_member_def not_new_keeps)
qed

lemma set_tristate_state:
  assumes ok: "conf_ok U T K" "s \<in> U" and ty: "k_type (ksym K s) \<in> {S_BOOLEAN, S_TRISTATE}"
  shows "\<exists>K2. choose_member s val (not_new s K) = Ret K2 \<and>
    (let K3 = set_def (\<lambda>v. v\<lparr>sv_tri := val\<rparr>) s K2
     in conf_ok U T K3 \<and> symbol_hash K3 = symbol_hash K \<and> (\<forall>t. k_type (ksym K3 t) = k_type (ksym K t)) \<and>
       sv_tri (k_def (ksym K3 s)) = val \<and> sym_has_value s K3 \<and>
       (sym_is_choice_value s K \<and> val = tri_yes \<longrightarrow> (\<exists>p c. sym_get_choice_prop s K = Some p \<and> p_def p = Some c \<and>
          sv_value (k_def (ksym K3 c)) = VSym s \<and> sym_has_value c K3)))"
proof -
  have s: "s \<notin> T" using ok ty by (auto simp: conf_ok_def static_ok_def text_symbol_ok_def text_types_def has_values_def)
  have texts: "is_text K (sv_value (k_def (ksym K t)))" if "t \<in> T" "k_type (ksym K t) \<in> text_types" "sym_has_value t K" for t
    using ok that by (auto simp: conf_ok_def static_ok_def text_symbol_ok_def text_types_def has_values_def)
  have choice: "sv_value (k_def (ksym K t)) = VNull \<or> (\<exists>d \<in> U. sv_value (k_def (ksym K t)) = VSym d)" if "t \<in> U" "sym_is_choice t K" for t
    using symbol_okI [OF ok(1) that(1)] that(2) by (simp add: symbol_ok_def)
  show ?thesis
  proof (cases rule: choose_member_returns [OF ok, of val, case_names plain member])
    case plain
    have "conf_ok U T (set_def (\<lambda>v. v\<lparr>sv_tri := val\<rparr>) s (not_new s K))"
      using s texts choice by (intro conf_ok_change [OF ok(1)]) (auto simp: not_new_keeps)
    then show ?thesis using plain by (auto simp: Let_def not_new_keeps)
  next
    case (member p c)
    have c: "c \<notin> T" using member(6) ok(1) choice_not_text by blast
    have "conf_ok U T (set_def (\<lambda>v. v\<lparr>sv_tri := val\<rparr>) s (flag_clear SYMBOL_NEW c (set_def (\<lambda>v. v\<lparr>sv_value := VSym s\<rparr>) c (not_new s K))))"
      using s c texts choice ok(2) by (intro conf_ok_change [OF ok(1)]) (auto simp: not_new_keeps)
    then show ?thesis using member by (auto simp: Let_def not_new_keeps)
  qed
qed

context value_contract
begin

lemma range_returns:
  assumes "ready U T N K" "s \<in> U"
  shows "returns (sym_tristate_within_range cv s v K) (gone U T K)"
  unfolding sym_tristate_within_range_def
  by (rule returns_bind [OF sym_get_type_returns [OF assms]]) auto

end

definition all_cleared :: "kconf \<Rightarrow> kconf \<Rightarrow> bool" where
  "all_cleared K K' \<longleftrightarrow> (\<forall>t \<in> set (all_symbols K). \<not> valid_sym t K')"

lemma set_all_changed_valid: "valid_sym t (sym_set_all_changed K) = valid_sym t K"
proof -
  have "valid_sym t (fold sym_set_changed ss K) = valid_sym t K" for ss by (induction ss arbitrary: K) simp_all
  then show ?thesis by (simp add: sym_set_all_changed_def)
qed

lemma all_symbols_cong: "symbol_hash K' = symbol_hash K \<Longrightarrow> \<forall>t. k_type (ksym K' t) = k_type (ksym K t) \<Longrightarrow> all_symbols K' = all_symbols K"
  by (simp add: all_symbols_def)

text \<open>What follows a changed value: everything is to be calculated again.\<close>

lemma changed_value_state:
  assumes "conf_ok U T K" "symbol_no \<notin> set (all_symbols K)" "symbol_empty \<notin> set (all_symbols K)"
  shows "let K' = (let K2 = sym_clear_all_valid K in if s = modules_sym K2 then sym_set_all_changed K2 else K2)
    in conf_ok U T K' \<and> all_cleared K K' \<and> same_config K K'"
proof -
  let ?K = "sym_clear_all_valid K"
  have c: "conf_ok U T ?K" by (rule conf_ok_clear_all [OF assms])
  have a: "all_cleared K ?K" by (simp add: all_cleared_def clear_all_valid_sym)
  note g = goes_set_all_changed [OF c]
  have "conf_ok U T (sym_set_all_changed ?K) \<and> all_cleared K (sym_set_all_changed ?K) \<and> same_config K (sym_set_all_changed ?K)"
    using goes_ok [OF g] a same_config_trans [OF clear_all_same goes_same [OF g]] by (simp add: all_cleared_def set_all_changed_valid)
  then show ?thesis using a c clear_all_same by (simp add: Let_def)
qed

lemma set_tristate_result:
  assumes "conf_ok U T K" "s \<in> U" "k_type (ksym K s) \<in> {S_BOOLEAN, S_TRISTATE}" "invalid U K < n"
    and apart: "symbol_no \<notin> set (all_symbols K)" "symbol_empty \<notin> set (all_symbols K)"
  shows "\<exists>b K'. sym_set_tristate_value (sym_calc_value n) s val K = Ret (b, K') \<and> conf_ok U T K' \<and> (tri_of s K = val \<longrightarrow> b) \<and>
    (if b then sv_tri (k_def (ksym K' s)) = val \<and> sym_has_value s K' \<and> (tri_of s K \<noteq> val \<longrightarrow> all_cleared K K') \<and>
       (sym_is_choice_value s K \<and> val = tri_yes \<longrightarrow> (\<exists>ty c vis ms. choice_key s K = Some (ty, Some c, vis, ms) \<and>
          sv_value (k_def (ksym K' c)) = VSym s \<and> sym_has_value c K'))
     else goes U T K K')"
proof -
  have r: "ready U T n K" using assms by (simp add: ready_def)
  have "returns (if tri_of s K \<noteq> val then sym_tristate_within_range (sym_calc_value n) s val K else Ret (True, K)) (gone U T K)"
    using sc.range_returns [OF r assms(2)] assms(1) by (simp add: goes_refl)
  then obtain b K1 where b: "(if tri_of s K \<noteq> val then sym_tristate_within_range (sym_calc_value n) s val K else Ret (True, K)) = Ret (b, K1)"
    and g: "goes U T K K1" by (auto simp: returns_def)
  note same = same_configD [OF goes_same [OF g]]
  show ?thesis
  proof (cases b)
    case False
    then have "sym_set_tristate_value (sym_calc_value n) s val K = Ret (False, K1)" using b by (simp add: sym_set_tristate_value_def Let_def)
    then show ?thesis using goes_ok [OF g] g b False by (auto split: if_splits)
  next
    case True
    obtain K2 where 2: "choose_member s val (not_new s K1) = Ret K2" and
      k3: "let K3 = set_def (\<lambda>v. v\<lparr>sv_tri := val\<rparr>) s K2
        in conf_ok U T K3 \<and> symbol_hash K3 = symbol_hash K1 \<and> (\<forall>t. k_type (ksym K3 t) = k_type (ksym K1 t)) \<and>
          sv_tri (k_def (ksym K3 s)) = val \<and> sym_has_value s K3 \<and>
          (sym_is_choice_value s K1 \<and> val = tri_yes \<longrightarrow> (\<exists>p c. sym_get_choice_prop s K1 = Some p \<and> p_def p = Some c \<and>
             sv_value (k_def (ksym K3 c)) = VSym s \<and> sym_has_value c K3))"
      using set_tristate_state [OF goes_ok [OF g] assms(2), of val] assms(3) by (auto simp: same)
    define K3 where "K3 = set_def (\<lambda>v. v\<lparr>sv_tri := val\<rparr>) s K2"
    note k3' = k3 [unfolded Let_def, folded K3_def]
    define K4 where "K4 = (let K2 = sym_clear_all_valid K3 in if s = modules_sym K2 then sym_set_all_changed K2 else K2)"
    have 3: "conf_ok U T K3" "symbol_hash K3 = symbol_hash K" "\<forall>t. k_type (ksym K3 t) = k_type (ksym K t)"
      "sv_tri (k_def (ksym K3 s)) = val" "sym_has_value s K3"
      using k3' goes_same [OF g] same(2) by (simp_all add: same_config_def)
    have as: "all_symbols K3 = all_symbols K" by (rule all_symbols_cong [OF 3(2,3)])
    have member: "\<exists>ty c vis ms. choice_key s K = Some (ty, Some c, vis, ms) \<and> sv_value (k_def (ksym K3 c)) = VSym s \<and> sym_has_value c K3"
      if m: "sym_is_choice_value s K \<and> val = tri_yes"
    proof -
      have "sym_is_choice_value s K1" using m same(7) [of SYMBOL_CHOICEVAL] by simp
      then obtain p c where p: "sym_get_choice_prop s K1 = Some p" "p_def p = Some c" "sv_value (k_def (ksym K3 c)) = VSym s" "sym_has_value c K3"
        using k3' m by blast
      have "choice_key s K = choice_key s K1" by (simp add: choice_key_keys same)
      then show ?thesis using p by (auto simp: choice_key_def key_def)
    qed
    have "sym_set_tristate_value (sym_calc_value n) s val K = Ret (True, if tri_of s K \<noteq> val then K4 else K3)"
      using b True 2 by (simp add: sym_set_tristate_value_def Let_def K3_def K4_def)
    moreover have "symbol_no \<notin> set (all_symbols K3)" "symbol_empty \<notin> set (all_symbols K3)"
      using apart by (simp_all add: as)
    then have 4: "conf_ok U T K4" "all_cleared K K4" "same_config K3 K4"
      using changed_value_state [OF 3(1), of s] by (simp_all add: K4_def Let_def all_cleared_def as)
    ultimately show ?thesis
      using 3(1,4,5) member same_configD(3) [OF 4(3)] same_configD(7) [OF 4(3), of SYMBOL_NEW] 4(1,2)
      by (intro exI [of _ True] exI [of _ "if tri_of s K \<noteq> val then K4 else K3"]) auto
  qed
qed

text \<open>C28: setting a boolean or tristate symbol of a configuration returns and leaves a configuration.
  If it succeeds, the user's value is the new one and the symbol is no longer new; for a member of a
  choice set to y the choice is set to this member; and if the value changes, every symbol of the
  table is marked to be calculated again.  If it does not succeed, nothing the user sets, and nothing
  else of the configuration, is changed.\<close>
theorem set_tristate_keeps_configuration:
  assumes "conf_ok U T K" "s \<in> U" "k_type (ksym K s) \<in> {S_BOOLEAN, S_TRISTATE}" "invalid U K < n" "table_ok K"
  shows "\<exists>b K'. sym_set_tristate_value (sym_calc_value n) s val K = Ret (b, K') \<and> conf_ok U T K' \<and>
    (if b then sv_tri (k_def (ksym K' s)) = val \<and> sym_has_value s K' \<and> (tri_of s K \<noteq> val \<longrightarrow> all_cleared K K') \<and>
       (sym_is_choice_value s K \<and> val = tri_yes \<longrightarrow> (\<exists>ty c vis ms. choice_key s K = Some (ty, Some c, vis, ms) \<and>
          sv_value (k_def (ksym K' c)) = VSym s \<and> sym_has_value c K'))
     else same_config K K')"
proof -
  have "symbol_no \<notin> set (all_symbols K)" "symbol_empty \<notin> set (all_symbols K)" using all_symbols_table [OF assms(5)] by auto
  from set_tristate_result [OF assms(1-4) this, of val] show ?thesis using goes_same by (auto split: if_splits) 
qed

theorem set_tristate_keeps_configuration_witness:
  "\<exists>b K'. sym_set_tristate_value (sym_calc_value 3) (Symbol 1) tri_mod circle = Ret (b, K') \<and>
     conf_ok {Symbol 0, Symbol 1, symbol_yes} {} K' \<and> (b \<longrightarrow> sv_tri (k_def (ksym K' (Symbol 1))) = tri_mod)"
proof -
  have "invalid {Symbol 0, Symbol 1, symbol_yes} circle < 3" using circle_ok(2) by linarith
  moreover have "k_type (ksym circle (Symbol 1)) \<in> {S_BOOLEAN, S_TRISTATE}" by (simp add: circle_def base_symbol_def)
  ultimately obtain b K' where "sym_set_tristate_value (sym_calc_value 3) (Symbol 1) tri_mod circle = Ret (b, K')"
    "conf_ok {Symbol 0, Symbol 1, symbol_yes} {} K'" "b \<longrightarrow> sv_tri (k_def (ksym K' (Symbol 1))) = tri_mod"
    using set_tristate_keeps_configuration [OF circle_ok(1), of "Symbol 1" 3 tri_mod] circle_table by (auto split: if_splits)
  then show ?thesis by blast
qed

text \<open>The texts of each type: any text for a string; for an integer, 0 or digits without a leading zero,
  perhaps after a minus sign; for a hexadecimal number, at least one hexadecimal digit, perhaps after 0x or 0X.
  Digits are given by their character codes.\<close>

definition decimal_digit :: "char \<Rightarrow> bool" where
  "decimal_digit c \<longleftrightarrow> of_char c \<in> {48..57 :: nat}"

definition hex_digit :: "char \<Rightarrow> bool" where
  "hex_digit c \<longleftrightarrow> of_char c \<in> {48..57} \<union> {65..70} \<union> {97..102 :: nat}"

definition numeral_text :: "string \<Rightarrow> bool" where
  "numeral_text t \<longleftrightarrow> t = ''0'' \<or> (t \<noteq> [] \<and> hd t \<noteq> CHR ''0'' \<and> (\<forall>c \<in> set t. decimal_digit c))"

fun text_valid :: "symbol_type \<Rightarrow> string \<Rightarrow> bool" where
  "text_valid S_STRING t \<longleftrightarrow> True"
| "text_valid S_INT t \<longleftrightarrow> (\<exists>sign n. t = sign @ n \<and> (sign = [] \<or> sign = ''-'') \<and> numeral_text n)"
| "text_valid S_HEX t \<longleftrightarrow> (\<exists>pre ds. t = pre @ ds \<and> (pre = [] \<or> pre = ''0x'' \<or> pre = ''0X'') \<and> ds \<noteq> [] \<and> (\<forall>c \<in> set ds. hex_digit c))"
| "text_valid _ t \<longleftrightarrow> False"

definition kept_text :: "symbol_type \<Rightarrow> string \<Rightarrow> string" where
  "kept_text ty t = (if ty = S_HEX \<and> take 2 t \<noteq> ''0x'' \<and> take 2 t \<noteq> ''0X'' then ''0x'' @ t else t)"

text \<open>What the program checks.\<close>

lemma digit_codes:
  "of_char ` set digit_chars = {48..57 :: nat}" "of_char ` set xdigit_chars = {48..57} \<union> {65..70} \<union> {97..102 :: nat}"
  by (simp_all add: digit_chars_def xdigit_chars_def atLeastAtMost_upt upt_rec insert_commute)

lemma digit_checks: "c \<in> set digit_chars \<longleftrightarrow> decimal_digit c" "c \<in> set xdigit_chars \<longleftrightarrow> hex_digit c"
proof -
  have "c \<in> S \<longleftrightarrow> (of_char c :: nat) \<in> of_char ` S" for S by auto
  then show "c \<in> set digit_chars \<longleftrightarrow> decimal_digit c" "c \<in> set xdigit_chars \<longleftrightarrow> hex_digit c"
    by (simp_all only: digit_codes decimal_digit_def hex_digit_def)
qed

lemma numeral_text_check:
  "numeral_text t \<longleftrightarrow> (case t of [] \<Rightarrow> False | c # cs \<Rightarrow> if c \<notin> set digit_chars then False
     else if c = CHR ''0'' \<and> cs \<noteq> [] then False else list_all (\<lambda>c. c \<in> set digit_chars) cs)"
proof -
  have "decimal_digit (CHR ''0'')" by (simp add: decimal_digit_def)
  then show ?thesis by (cases t) (auto simp: numeral_text_def digit_checks list_all_iff)
qed

lemma int_valid_text: "int_valid t \<longleftrightarrow> text_valid S_INT t"
proof -
  have m: "\<not> numeral_text (CHR ''-'' # cs)" for cs by (auto simp: numeral_text_def decimal_digit_def)
  have "int_valid t \<longleftrightarrow> numeral_text (case t of c # cs \<Rightarrow> if c = CHR ''-'' then cs else t | [] \<Rightarrow> t)"
    by (simp only: int_valid_def numeral_text_check Let_def)
  also have "\<dots> \<longleftrightarrow> text_valid S_INT t"
  proof (cases "\<exists>cs. t = CHR ''-'' # cs")
    case True
    then obtain cs where t: "t = CHR ''-'' # cs" by blast
    have "text_valid S_INT t \<longleftrightarrow> numeral_text cs"
      using m [of cs] unfolding t text_valid.simps by (metis append_Cons append_Nil list.sel(3))
    then show ?thesis by (simp add: t del: text_valid.simps)
  next
    case False
    then have "text_valid S_INT t \<longleftrightarrow> numeral_text t" unfolding text_valid.simps by (metis append_Cons append_Nil)
    moreover have "(case t of c # cs \<Rightarrow> if c = CHR ''-'' then cs else t | [] \<Rightarrow> t) = t" using False by (cases t) auto
    ultimately show ?thesis by (simp del: text_valid.simps)
  qed
  finally show ?thesis .
qed

lemma hex_prefix_text: "has_hex_prefix t \<longleftrightarrow> take 2 t = ''0x'' \<or> take 2 t = ''0X''"
  by (auto simp: has_hex_prefix_def split: list.split)

lemma hex_valid_text: "hex_valid t \<longleftrightarrow> text_valid S_HEX t"
proof -
  have x: "\<not> hex_digit (CHR ''x'')" "\<not> hex_digit (CHR ''X'')" by (simp_all add: hex_digit_def)
  have "text_valid S_HEX t" if "hex_valid t"
  proof (cases "has_hex_prefix t")
    case True
    then have "t = take 2 t @ drop 2 t" "take 2 t = ''0x'' \<or> take 2 t = ''0X''" by (simp_all add: hex_prefix_text)
    moreover have "drop 2 t \<noteq> []" "\<forall>c \<in> set (drop 2 t). hex_digit c"
      using that True unfolding hex_valid_def by (simp_all only: if_True Let_def digit_checks list_all_iff, blast+)
    ultimately show ?thesis unfolding text_valid.simps by blast
  next
    case False
    then have "t = [] @ t" "t \<noteq> []" "\<forall>c \<in> set t. hex_digit c"
      using that unfolding hex_valid_def by (simp_all only: if_False Let_def digit_checks list_all_iff append_Nil, blast+)
    then show ?thesis unfolding text_valid.simps by blast
  qed
  moreover have "hex_valid t" if valid: "text_valid S_HEX t"
  proof -
    obtain pre ds where t: "t = pre @ ds" "pre = [] \<or> pre = ''0x'' \<or> pre = ''0X''" "ds \<noteq> []" "\<forall>c \<in> set ds. hex_digit c"
      using valid by auto
    have "\<not> has_hex_prefix ds" using t(4) x by (auto simp: has_hex_prefix_def split: list.splits)
    then show ?thesis using t by (auto simp: hex_valid_def digit_checks list_all_iff has_hex_prefix_def)
  qed
  ultimately show ?thesis by blast
qed

lemma text_valid_checks: "text_valid ty t \<longleftrightarrow> ty = S_STRING \<or> ty = S_INT \<and> int_valid t \<or> ty = S_HEX \<and> hex_valid t"
  by (cases ty) (simp_all only: int_valid_text hex_valid_text text_valid.simps symbol_type.distinct simp_thms)

lemma kept_text_checks: "kept_text ty t = (if ty = S_HEX \<and> \<not> has_hex_prefix t then ''0x'' @ t else t)"
  by (simp add: kept_text_def hex_prefix_text)

declare text_valid.simps [simp del]

lemma kept_text_valid: "text_valid ty t \<Longrightarrow> text_valid ty (kept_text ty t)"
  by (auto simp: text_valid_checks kept_text_checks hex_valid_def has_hex_prefix_def Let_def)

lemma string_valid_text: "k_type (ksym K s) \<in> text_types \<Longrightarrow> sym_string_valid cv s t K = Ret (text_valid (k_type (ksym K s)) t, K)"
  by (auto simp: text_types_def sym_string_valid_def text_valid_checks)

lemma set_text_sym [simp]:
  "ksym (set_text t s K) u = (if u = s then (ksym K s)\<lparr>k_def := (k_def (ksym K s))\<lparr>sv_value := VStr (numTexts K) t\<rparr>\<rparr> else ksym K u)"
  "modules_sym (set_text t s K) = modules_sym K" "symbol_hash (set_text t s K) = symbol_hash K"
  "has_flag w u (set_text t s K) = has_flag w u K"
  by (simp_all add: set_text_def has_flag_def)

lemma set_string_result:
  assumes "conf_ok U T K" and apart: "symbol_no \<notin> set (all_symbols K)" "symbol_empty \<notin> set (all_symbols K)"
    and "s \<in> U" and ty: "k_type (ksym K s) = ty" "ty \<in> text_types" and no: "\<not> sym_is_choice s K"
    and old: "sv_value (k_def (ksym K s)) = VNull \<or> (\<exists>i o1. sv_value (k_def (ksym K s)) = VStr i o1)"
  shows "\<exists>K'. sym_set_string_value cv s t K = Ret (text_valid ty t, K') \<and> conf_ok U T K' \<and>
    (if text_valid ty t then (\<exists>i. sv_value (k_def (ksym K' s)) = VStr i (kept_text ty t)) \<and> sym_has_value s K' \<and> text_valid ty (kept_text ty t)
     else K' = K)"
proof -
  have texts: "is_text K (sv_value (k_def (ksym K t)))" if "t \<in> T" "k_type (ksym K t) \<in> text_types" "sym_has_value t K" for t
    using assms(1) that by (auto simp: conf_ok_def static_ok_def text_symbol_ok_def text_types_def has_values_def)
  have choice: "sv_value (k_def (ksym K t)) = VNull \<or> (\<exists>d \<in> U. sv_value (k_def (ksym K t)) = VSym d)" if "t \<in> U" "sym_is_choice t K" for t
    using symbol_okI [OF assms(1) that(1)] that(2) by (simp add: symbol_ok_def)
  have nb: "ty \<notin> {S_BOOLEAN, S_TRISTATE}" using ty(2) by (auto simp: text_types_def)
  let ?N = "not_new s K"
  have set: "conf_ok U T (set_text u s ?N)" for u
    using texts choice no by (intro conf_ok_change [OF assms(1)]) (auto simp: not_new_keeps is_text_def)
  have clear: "conf_ok U T (sym_clear_all_valid (set_text u s ?N)) \<and> same_config (set_text u s ?N) (sym_clear_all_valid (set_text u s ?N))" for u
  proof -
    have a: "all_symbols (set_text u s ?N) = all_symbols K" by (rule all_symbols_cong) (simp_all add: not_new_keeps)
    show ?thesis using apart conf_ok_clear_all [OF set] clear_all_same by (simp add: a)
  qed
  show ?thesis
  proof (cases "text_valid ty t")
    case False
    then show ?thesis using nb assms(1) ty by (simp add: sym_set_string_value_def string_valid_text)
  next
    case True
    have new: "(\<exists>i. sv_value (k_def (ksym (sym_clear_all_valid (set_text u s ?N)) s)) = VStr i u) \<and> sym_has_value s (sym_clear_all_valid (set_text u s ?N))" for u
      using same_configD(3) [OF conjunct2 [OF clear [of u]], of s] same_configD(7) [OF conjunct2 [OF clear [of u]], of SYMBOL_NEW s]
      by (simp add: not_new_keeps)
    note keep = kept_text_valid [OF True]
    let ?S = "sym_clear_all_valid (set_text (kept_text ty t) s ?N)"
    have call: "sym_set_string_value cv s t K =
        (if ty = S_HEX \<and> \<not> has_hex_prefix t then Ret (True, sym_clear_all_valid (set_text (''0x'' @ t) s ?N))
         else obind (old_text (sv_value (k_def (ksym K s)))) (\<lambda>o1.
           if o1 = None \<or> o1 \<noteq> Some t then Ret (True, sym_clear_all_valid (set_text t s ?N)) else Ret (True, ?N)))"
      using nb True by (simp add: sym_set_string_value_def string_valid_text [of K s, unfolded ty(1), OF ty(2)] ty(1) Let_def not_new_keeps)
    consider (same) i where "sv_value (k_def (ksym K s)) = VStr i t" "kept_text ty t = t" | (set) "sym_set_string_value cv s t K = Ret (True, ?S)"
    proof (cases "ty = S_HEX \<and> \<not> has_hex_prefix t")
      case True
      then show ?thesis using call set by (simp add: kept_text_checks)
    next
      case False
      then have k: "kept_text ty t = t" by (auto simp: kept_text_checks)
      show ?thesis
      proof (cases "\<exists>i. sv_value (k_def (ksym K s)) = VStr i t")
        case False
        then have "sym_set_string_value cv s t K = Ret (True, ?S)" using old k \<open>\<not> (ty = S_HEX \<and> \<not> has_hex_prefix t)\<close>
          unfolding call by (elim disjE exE) (simp_all add: old_text_def, blast+)
        then show ?thesis by (rule set)
      qed (use k same in blast)
    qed
    then show ?thesis
    proof cases
      case (same i)
      have "conf_ok U T ?N"
        using texts choice same(1) no by (intro conf_ok_change [OF assms(1)]) (auto simp: not_new_keeps is_text_def)
      moreover have "\<not> (ty = S_HEX \<and> \<not> has_hex_prefix t)" using same(2) by (auto simp: kept_text_checks split: if_splits)
      then have "sym_set_string_value cv s t K = Ret (True, ?N)" by (simp only: call same(1) old_text_def) simp
      moreover have "sv_value (k_def (ksym ?N s)) = VStr i (kept_text ty t)" "sym_has_value s ?N" using same by (simp_all only: not_new_keeps simp_thms)
      ultimately show ?thesis using True keep by (intro exI [of _ ?N] conjI) (simp_all only: True if_True, blast)
    next
      case set
      then show ?thesis using True keep new [of "kept_text ty t"] conjunct1 [OF clear [of "kept_text ty t"]]
        by (intro exI [of _ ?S]) (simp only: True if_True simp_thms)
    qed
  qed
qed

text \<open>C31: setting an integer, hexadecimal or string symbol that is no choice succeeds exactly for the texts of
  the type: any text for a string; 0 or digits without a leading zero, perhaps after a minus sign, for an
  integer; one or more hexadecimal digits, perhaps after 0x or 0X, for a hexadecimal number.  It
  leaves a configuration in which the symbol is no longer new and has the text, a hexadecimal one
  with 0x put before it if it has no prefix, which is valid again; a text that is not valid changes nothing.\<close>
theorem set_string_keeps_configuration:
  assumes "conf_ok U T K" "table_ok K" "s \<in> U" and ty: "k_type (ksym K s) = ty" "ty \<in> text_types" and no: "\<not> sym_is_choice s K"
    and old: "sv_value (k_def (ksym K s)) = VNull \<or> (\<exists>i o1. sv_value (k_def (ksym K s)) = VStr i o1)"
  shows "\<exists>K'. sym_set_string_value cv s t K = Ret (text_valid ty t, K') \<and> conf_ok U T K' \<and>
    (if text_valid ty t then (\<exists>i. sv_value (k_def (ksym K' s)) = VStr i (kept_text ty t)) \<and> sym_has_value s K' \<and> text_valid ty (kept_text ty t)
     else K' = K)"
proof -
  have "symbol_no \<notin> set (all_symbols K)" "symbol_empty \<notin> set (all_symbols K)" using all_symbols_table [OF assms(2)] by auto
  then show ?thesis by (rule set_string_result [OF assms(1) _ _ assms(3-7)])
qed

definition hex_symbol :: kconf where
  "hex_symbol = upd_sym (Symbol 0) (\<lambda>y. y\<lparr>k_type := S_HEX, k_props := []\<rparr>) circle"

theorem set_string_keeps_configuration_witness:
  "\<exists>K' i. sym_set_string_value (sym_calc_value 1) (Symbol 0) ''c0'' hex_symbol = Ret (True, K') \<and> sv_value (k_def (ksym K' (Symbol 0))) = VStr i ''0xc0''"
proof -
  have c: "conf_ok {Symbol 0, symbol_yes} {} hex_symbol"
    by (simp add: conf_ok_def static_ok_def values_ok_def symbol_ok_def keys_ok_def hex_symbol_def upd_sym_def circle_def base_symbol_def
      has_flag_def is_text_def SYMBOL_VALID_def SYMBOL_CHOICE_def SYMBOL_CHOICEVAL_def SYMBOL_NEW_def)
  have "named hex_symbol = named circle" by (auto simp: named_def hex_symbol_def upd_sym_def has_flag_def)
  then have t: "table_ok hex_symbol"
    using circle_table by (auto simp: table_ok_def bucket_ok_def in_bucket_def hex_symbol_def upd_sym_def)
  have "text_valid S_HEX ''c0''" by (simp add: text_valid_checks hex_valid_def has_hex_prefix_def xdigit_chars_def)
  then show ?thesis
    using set_string_keeps_configuration [OF c t, of "Symbol 0" S_HEX "sym_calc_value 1" "''c0''"]
    by (auto simp: hex_symbol_def upd_sym_def circle_def base_symbol_def text_types_def has_flag_def SYMBOL_CHOICE_def SYMBOL_NEW_def
      kept_text_checks has_hex_prefix_def)
qed

end
