(* ===== verification/Kconfdata_Props.thy ===== *)
theory Kconfdata_Props
  imports Kconfdata Ksym_User
begin

text \<open>What conf_write writes for a symbol, conf_read reads back.\<close>

section \<open>Quoted texts\<close>

definition quote_char :: "char \<Rightarrow> string" where
  "quote_char c = (if quoted_char c then [CHR 0x5C, c] else [c])"

lemma takeWhile_quote: "concat (map quote_char (takeWhile (\<lambda>c. \<not> quoted_char c) t)) = takeWhile (\<lambda>c. \<not> quoted_char c) t"
  "concat (map quote_char (takeWhile quoted_char t)) = concat (map (\<lambda>c. [CHR 0x5C, c]) (takeWhile quoted_char t))"
  by (induction t) (auto simp: quote_char_def)

lemma write_string_quotes: "write_string t = concat (map quote_char t)"
proof (induction t rule: write_string.induct)
  case (1 str)
  define rest where "rest = dropWhile (\<lambda>c. \<not> quoted_char c) str"
  have r: "rest = takeWhile quoted_char rest @ dropWhile quoted_char rest" by simp
  have s: "str = takeWhile (\<lambda>c. \<not> quoted_char c) str @ rest" by (simp add: rest_def)
  have "concat (map quote_char str) = takeWhile (\<lambda>c. \<not> quoted_char c) str @ concat (map (\<lambda>c. [CHR 0x5C, c]) (takeWhile quoted_char rest)) @
      concat (map quote_char (dropWhile quoted_char rest))"
    by (subst s, subst r) (simp only: map_append concat_append takeWhile_quote append_assoc)
  then show ?case using 1 [OF rest_def refl refl]
    by (cases "dropWhile quoted_char rest = []"; subst write_string.simps; simp only: Let_def rest_def [symmetric] if_True if_False not_True_eq_False
      not_False_eq_True append_Nil2 append_assoc list.map concat.simps simp_thms)
qed

lemma unquote_quotes: "unquote (concat (map quote_char t) @ CHR 0x22 # r) = Ret (Some t)"
  by (induction t) (auto simp: quote_char_def quoted_char_def)

section \<open>Lines\<close>

definition line_ok :: "string \<Rightarrow> bool" where
  "line_ok l \<longleftrightarrow> (\<exists>t. l = t @ nl \<and> CHR 0x0A \<notin> set t \<and> length t < line_chars)"

lemma fgets_line:
  assumes "line_ok l"
  shows "fgets (l @ r) = (l, r)"
proof -
  obtain t where t: "l = t @ nl" "CHR 0x0A \<notin> set t" "length t < line_chars" using assms by (auto simp: line_ok_def)
  have "takeWhile (\<lambda>c. c \<noteq> CHR 0x0A) (l @ r) = t" using t(1,2) by (auto simp: nl_def takeWhile_append)
  then show ?thesis using t by (simp add: fgets_def Let_def nl_def)
qed

lemma fgets_lines_concat: "\<forall>l \<in> set ls. line_ok l \<Longrightarrow> fgets_lines (concat ls) = ls"
proof (induction ls)
  case (Cons l ls)
  have "l @ concat ls \<noteq> []" using Cons.prems by (auto simp: line_ok_def nl_def)
  then show ?case using Cons fgets_line [of l "concat ls"] by (subst fgets_lines.simps) simp
qed (simp add: fgets_lines.simps)

lemma split_at_first: "c \<notin> set a \<Longrightarrow> split_at c (a @ c # b) = Some (a, b)"
  by (auto simp: split_at_def takeWhile_append dropWhile_append)

section \<open>Reading one symbol\<close>

text \<open>Reading leaves names, types and calculated values alone.\<close>

definition same_names :: "kconf \<Rightarrow> kconf \<Rightarrow> bool" where
  "same_names K K' \<longleftrightarrow> symbol_hash K' = symbol_hash K \<and> (\<forall>t. k_name (ksym K' t) = k_name (ksym K t) \<and> k_type (ksym K' t) = k_type (ksym K t) \<and>
     k_curr (ksym K' t) = k_curr (ksym K t) \<and> has_flag SYMBOL_CONST t K' = has_flag SYMBOL_CONST t K \<and>
     sym_is_choice_value t K' = sym_is_choice_value t K \<and> sym_is_choice t K' = sym_is_choice t K \<and> k_props (ksym K' t) = k_props (ksym K t))"

lemma same_names_find: "same_names K K' \<Longrightarrow> sym_find n K' = sym_find n K"
proof -
  assume s: "same_names K K'"
  have "bucket_loop K' m c ss = bucket_loop K m c ss" for m c ss
    using s by (induction ss) (auto simp: same_names_def split: option.split)
  then show ?thesis using s by (simp add: sym_find_def same_names_def split: option.split)
qed

lemma lookup_found: "sym_find (Some n) K = Ret (Some s) \<Longrightarrow> sym_lookup (Some n) False K = Ret (s, K)"
  by (auto simp: sym_find_def sym_lookup_def split: option.splits)

text \<open>The user's value of one symbol is set, and that of no other symbol that is not a choice.\<close>

definition value_set :: "sym_ref \<Rightarrow> symbol_value \<Rightarrow> kconf \<Rightarrow> kconf \<Rightarrow> bool" where
  "value_set s v K K' \<longleftrightarrow> same_names K K' \<and> k_def (ksym K' s) = v \<and> sym_has_value s K' \<and>
     (\<forall>u. u \<noteq> s \<and> \<not> sym_is_choice u K \<longrightarrow> k_def (ksym K' u) = k_def (ksym K u) \<and> sym_has_value u K' = sym_has_value u K)"

lemma const_new: "has_flag SYMBOL_CONST t (flag_clear SYMBOL_NEW s K) = has_flag SYMBOL_CONST t K"
  by (rule has_flag_clear) (simp add: SYMBOL_NEW_def SYMBOL_CONST_def)

lemma read_tri_set: "value_set s ((k_def (ksym K s))\<lparr>sv_tri := v\<rparr>) K (read_tri v s K)"
  by (auto simp: value_set_def same_names_def read_tri_def const_new)

lemma read_text_set: "value_set s ((k_def (ksym K s))\<lparr>sv_value := VStr (numTexts K) t\<rparr>) K (flag_clear SYMBOL_NEW s (set_text t s K))"
  by (auto simp: value_set_def same_names_def const_new)

lemma not_set_set: "value_set s (k_curr (ksym K symbol_no)) K (flag_clear SYMBOL_NEW s (set_def (\<lambda>_. k_curr (ksym K symbol_no)) s K))"
  by (auto simp: value_set_def same_names_def const_new)

text \<open>A symbol that is not a choice, and if it is the member of one, points to it.\<close>

definition member_ok :: "kconf \<Rightarrow> sym_ref \<Rightarrow> bool" where
  "member_ok K s \<longleftrightarrow> \<not> sym_is_choice s K \<and> (sym_is_choice_value s K \<longrightarrow>
     (\<exists>p ch. sym_get_choice_prop s K = Some p \<and> p_def p = Some ch \<and> sym_is_choice ch K))"

lemma member_ok_same: "same_names K K' \<Longrightarrow> member_ok K' s = member_ok K s"
  by (simp add: same_names_def member_ok_def sym_get_choice_prop_def)

lemma read_choice_set:
  assumes "member_ok K s" "value_set s v K K1"
  shows "\<exists>K'. read_choice s K1 = Ret K' \<and> value_set s v K K'"
proof (cases "sym_is_choice_value s K1")
  case True
  have n: "same_names K K1" using assms(2) by (simp add: value_set_def)
  then have "member_ok K1 s" using assms(1) member_ok_same by blast
  then obtain p ch where c: "sym_get_choice_prop s K1 = Some p" "p_def p = Some ch" "sym_is_choice ch K1" "ch \<noteq> s"
    using True by (auto simp: member_ok_def)
  have ch: "sym_is_choice ch K" using c(3) n by (simp add: same_names_def)
  let ?K = "if sv_tri (k_def (ksym K1 s)) = tri_yes then set_def (\<lambda>d. d\<lparr>sv_value := VSym s\<rparr>) ch K1 else K1"
  have set: "value_set s v K (set_def f ch K')" if "value_set s v K K'" for f K'
    using that ch c(4) by (auto simp: value_set_def same_names_def)
  have "value_set s v K ?K" using assms(2) set by simp
  then show ?thesis using True c(1,2) set by (simp add: read_choice_def Let_def)
next
  case False
  then show ?thesis using assms(2) by (simp add: read_choice_def)
qed

text \<open>A name as the configuration files have it.\<close>

definition plain_name :: "string \<Rightarrow> bool" where
  "plain_name n \<longleftrightarrow> CHR '' '' \<notin> set n \<and> CHR ''='' \<notin> set n \<and> CHR 0x0A \<notin> set n"

lemma value_line_read:
  assumes "plain_name n" "sym_find (Some n) K = Ret (Some s)" "CHR 0x0A \<notin> set q" "member_ok K s"
    and r: "read_value cv q s K = Ret K1" "value_set s v K K1"
  shows "\<exists>K'. conf_line cv (''CONFIG_'' @ n @ ''='' @ q @ nl) K = Ret K' \<and> value_set s v K K'"
proof -
  have "split_at CHR ''='' (n @ CHR ''='' # q @ nl) = Some (n, q @ nl)" using assms(1) by (intro split_at_first) (simp add: plain_name_def)
  moreover have "takeWhile (\<lambda>c. c \<noteq> CHR 0x0A) (q @ nl) = q" using assms(3) by (auto simp: nl_def takeWhile_append)
  moreover obtain K' where "read_choice s K1 = Ret K'" "value_set s v K K'" using read_choice_set [OF assms(4) r(2)] by blast
  ultimately show ?thesis using assms(2) r(1) by (simp add: conf_line_def first_char_def value_line_def starts_def)
qed

lemma not_set_line_read:
  assumes "plain_name n" "sym_find (Some n) K = Ret (Some s)" "k_type (ksym K s) \<in> {S_BOOLEAN, S_TRISTATE}"
  shows "conf_line cv (''# CONFIG_'' @ n @ '' is not set'' @ nl) K = Ret (flag_clear SYMBOL_NEW s (set_def (\<lambda>_. k_curr (ksym K symbol_no)) s K))"
proof -
  have "split_at CHR '' '' (n @ CHR '' '' # ''is not set'' @ nl) = Some (n, ''is not set'' @ nl)"
    using assms(1) by (intro split_at_first) (simp add: plain_name_def)
  then show ?thesis using assms(3) lookup_found [OF assms(2)]
    by (simp add: conf_line_def first_char_def not_set_line_def starts_def)
qed

section \<open>Round trip\<close>

text \<open>What is to be read back of a symbol: type, name, tristate value and text.\<close>

definition restored :: "sym_ref \<Rightarrow> kconf \<Rightarrow> kconf \<Rightarrow> bool" where
  "restored s K K' \<longleftrightarrow> sym_has_value s K' \<and>
     (if k_type (ksym K s) \<in> {S_BOOLEAN, S_TRISTATE} then sv_tri (k_def (ksym K' s)) = tri_of s K
      else \<exists>i. sv_value (k_def (ksym K' s)) = VStr i (text_at K (val_of s K)))"

definition symbol_lines :: "kconf \<Rightarrow> sym_ref \<Rightarrow> string \<times> string" where
  "symbol_lines K s =
     (let n = the (k_name (ksym K s)); ty = k_type (ksym K s)
      in if ty \<in> {S_BOOLEAN, S_TRISTATE} then write_tri n (tri_of s K) else write_text ty n (text_at K (val_of s K)))"

text \<open>Symbols that can be written and read back: the name is plain, a boolean symbol is not m, a text is
  valid for the type and has no newline, and the line is not longer than the buffer.\<close>

definition writable :: "kconf \<Rightarrow> sym_ref \<Rightarrow> bool" where
  "writable K s \<longleftrightarrow> (\<exists>n. k_name (ksym K s) = Some n \<and> plain_name n) \<and>
     (k_type (ksym K s) \<in> {S_BOOLEAN, S_TRISTATE} \<and> (k_type (ksym K s) = S_BOOLEAN \<longrightarrow> tri_of s K \<noteq> tri_mod) \<or>
      k_type (ksym K s) \<in> text_types \<and> is_text K (val_of s K) \<and>
        text_valid (k_type (ksym K s)) (text_at K (val_of s K)) \<and> CHR 0x0A \<notin> set (text_at K (val_of s K))) \<and>
     length (fst (symbol_lines K s)) \<le> line_chars"

text \<open>The state that reads has the symbol under its name and with its type; it is no choice, and a member of
  one points to it.\<close>

definition known :: "kconf \<Rightarrow> kconf \<Rightarrow> sym_ref \<Rightarrow> bool" where
  "known K K0 s \<longleftrightarrow> sym_find (k_name (ksym K s)) K0 = Ret (Some s) \<and> k_type (ksym K0 s) = k_type (ksym K s) \<and>
     member_ok K0 s"

lemma written_line:
  assumes "writable K s"
  shows "line_ok (fst (symbol_lines K s))"
proof -
  obtain n where n: "k_name (ksym K s) = Some n" "plain_name n" using assms by (auto simp: writable_def)
  have q: "CHR 0x0A \<notin> set (write_string t)" if "CHR 0x0A \<notin> set t" for t
    using that by (auto simp: write_string_quotes quote_char_def split: if_splits)
  let ?l = "fst (symbol_lines K s)"
  have "\<exists>t. ?l = t @ nl \<and> CHR 0x0A \<notin> set t"
  proof (cases "k_type (ksym K s) \<in> {S_BOOLEAN, S_TRISTATE}")
    case True
    then show ?thesis using n
      by (cases "tri_of s K") (auto simp: symbol_lines_def Let_def write_tri_def plain_name_def nl_def)
  next
    case False
    then have t: "CHR 0x0A \<notin> set (text_at K (val_of s K))" using assms by (auto simp: writable_def)
    let ?t = "text_at K (val_of s K)"
    have "?l = (''CONFIG_'' @ n @ ''='' @ (if k_type (ksym K s) = S_STRING then dquote @ write_string ?t @ dquote else ?t)) @ nl"
      using False by (simp add: symbol_lines_def Let_def write_text_def n(1))
    moreover have "CHR 0x0A \<notin> set (''CONFIG_'' @ n @ ''='' @ (if k_type (ksym K s) = S_STRING then dquote @ write_string ?t @ dquote else ?t))"
      using n(2) t q [OF t] by (auto simp: plain_name_def dquote_def)
    ultimately show ?thesis by blast
  qed
  then obtain t where t: "?l = t @ nl" "CHR 0x0A \<notin> set t" by blast
  moreover have "length t < line_chars" using assms t(1) by (auto simp: writable_def nl_def)
  ultimately show ?thesis by (auto simp: line_ok_def)
qed

lemma read_value_text:
  assumes "k_type (ksym K s) = ty" "ty \<in> text_types" "text_valid ty t" "ty = S_STRING \<Longrightarrow> q = dquote @ write_string t @ dquote" "ty \<noteq> S_STRING \<Longrightarrow> q = t"
  shows "read_value cv q s K = Ret (flag_clear SYMBOL_NEW s (set_text t s K))"
proof -
  have r: "read_text cv t s K = Ret (flag_clear SYMBOL_NEW s (set_text t s K))"
    using assms(1-3) by (simp add: read_text_def string_valid_text)
  show ?thesis
  proof (cases "ty = S_STRING")
    case True
    then have "first_char q = CHR 0x22" "unquote (tl q) = Ret (Some t)"
      using assms(4) unquote_quotes [of t "[]"] by (simp_all add: first_char_def dquote_def write_string_quotes)
    then show ?thesis using True assms(1) r by (simp add: read_value_def)
  next
    case False
    then show ?thesis using assms(1,2,5) r by (auto simp: read_value_def text_types_def)
  qed
qed

lemma line_restores:
  assumes w: "writable K s" and k: "known K K0 s" and no: "sv_tri (k_curr (ksym K0 symbol_no)) = tri_no"
  shows "\<exists>v K'. conf_line cv (fst (symbol_lines K s)) K0 = Ret K' \<and> value_set s v K0 K' \<and> restored s K K'"
proof -
  obtain n where n: "k_name (ksym K s) = Some n" "plain_name n" using w by (auto simp: writable_def)
  let ?ty = "k_type (ksym K s)"
  have f: "sym_find (Some n) K0 = Ret (Some s)" and ty: "k_type (ksym K0 s) = ?ty" and c: "member_ok K0 s"
    using k n(1) w by (auto simp: known_def writable_def)
  show ?thesis
  proof (cases "?ty \<in> {S_BOOLEAN, S_TRISTATE}")
    case True
    then have b: "?ty = S_BOOLEAN \<longrightarrow> tri_of s K \<noteq> tri_mod" using w by (auto simp: writable_def text_types_def)
    have res: "restored s K K'" if "value_set s v K0 K'" "sv_tri v = tri_of s K" for v K'
      using that True by (simp add: restored_def value_set_def)
    show ?thesis
    proof (cases "tri_of s K = tri_no")
      case True
      have l: "fst (symbol_lines K s) = ''# CONFIG_'' @ n @ '' is not set'' @ nl"
        using \<open>?ty \<in> _\<close> n(1) True by (simp add: symbol_lines_def write_tri_def)
      let ?K = "flag_clear SYMBOL_NEW s (set_def (\<lambda>_. k_curr (ksym K0 symbol_no)) s K0)"
      have "conf_line cv (fst (symbol_lines K s)) K0 = Ret ?K" unfolding l using not_set_line_read [OF n(2) f, of cv] ty \<open>?ty \<in> _\<close> by simp
      moreover have "restored s K ?K" using res [OF not_set_set] no True by simp
      ultimately show ?thesis using not_set_set by blast
    next
      case False
      obtain d where d: "fst (symbol_lines K s) = ''CONFIG_'' @ n @ ''='' @ [d] @ nl" "read_value cv [d] s K0 = Ret (read_tri (tri_of s K) s K0)"
        "CHR 0x0A \<notin> set [d]"
      proof (cases "tri_of s K")
        case tri_mod
        then show ?thesis using that [of "CHR ''m''"] \<open>?ty \<in> _\<close> b n(1) ty
          by (auto simp: symbol_lines_def write_tri_def read_value_def first_char_def)
      next
        case tri_yes
        then show ?thesis using that [of "CHR ''y''"] \<open>?ty \<in> _\<close> n(1) ty
          by (auto simp: symbol_lines_def write_tri_def read_value_def first_char_def)
      qed (use False in simp)
      obtain K' where "conf_line cv (fst (symbol_lines K s)) K0 = Ret K'" "value_set s ((k_def (ksym K0 s))\<lparr>sv_tri := tri_of s K\<rparr>) K0 K'"
        unfolding d(1) using value_line_read [OF n(2) f d(3) c d(2) read_tri_set] by blast
      then show ?thesis using res by fastforce
    qed
  next
    case False
    let ?t = "text_at K (val_of s K)" let ?q = "if ?ty = S_STRING then dquote @ write_string ?t @ dquote else ?t"
    have t: "?ty \<in> text_types" "text_valid ?ty ?t" "CHR 0x0A \<notin> set ?t" using False w by (auto simp: writable_def)
    have l: "fst (symbol_lines K s) = ''CONFIG_'' @ n @ ''='' @ ?q @ nl"
      using False by (simp add: symbol_lines_def Let_def write_text_def n(1))
    have q: "CHR 0x0A \<notin> set ?q" using t(3) by (auto simp: write_string_quotes quote_char_def dquote_def split: if_splits)
    have r: "read_value cv ?q s K0 = Ret (flag_clear SYMBOL_NEW s (set_text ?t s K0))"
      by (rule read_value_text [OF ty t(1,2)]) simp_all
    obtain K' where k: "conf_line cv (fst (symbol_lines K s)) K0 = Ret K'"
      "value_set s ((k_def (ksym K0 s))\<lparr>sv_value := VStr (numTexts K0) ?t\<rparr>) K0 K'"
      unfolding l using value_line_read [OF n(2) f q c r read_text_set] by blast
    then have "restored s K K'" using False by (auto simp: restored_def value_set_def)
    then show ?thesis using k by blast
  qed
qed

text \<open>What is written: lines, each with the symbol it gives the value of, or a line that is read over.\<close>

type_synonym written = "(sym_ref option \<times> string) list"

definition written_text :: "written \<Rightarrow> string" where
  "written_text items = concat (map snd items)"

definition written_symbols :: "written \<Rightarrow> sym_ref list" where
  "written_symbols items = concat (map (\<lambda>(r, l). case r of None \<Rightarrow> [] | Some s \<Rightarrow> [s]) items)"

lemma written_simps [simp]:
  "written_text [] = []" "written_text ((r, l) # items) = l @ written_text items"
  "written_text (items @ items') = written_text items @ written_text items'"
  "written_symbols [] = []" "written_symbols ((None, l) # items) = written_symbols items"
  "written_symbols ((Some s, l) # items) = s # written_symbols items"
  "written_symbols (items @ items') = written_symbols items @ written_symbols items'"
  by (simp_all add: written_text_def written_symbols_def)

definition read_over :: "string \<Rightarrow> bool" where
  "read_over l \<longleftrightarrow> (\<forall>cv A. conf_line cv l A = Ret A)"

definition written_ok :: "kconf \<Rightarrow> written \<Rightarrow> bool" where
  "written_ok K items \<longleftrightarrow> (\<forall>(r, l) \<in> set items. line_ok l \<and>
     (case r of None \<Rightarrow> read_over l | Some s \<Rightarrow> writable K s \<and> l = fst (symbol_lines K s)))"

lemma written_ok_append: "written_ok K (items @ items') \<longleftrightarrow> written_ok K items \<and> written_ok K items'"
  unfolding written_ok_def set_append ball_Un ..

lemma written_restores:
  assumes "written_ok K items" "\<forall>s \<in> set (written_symbols items). known K K0 s" "distinct (written_symbols items)"
    and "sv_tri (k_curr (ksym K0 symbol_no)) = tri_no"
  shows "\<exists>K'. conf_lines cv (map snd items) K0 = Ret K' \<and> same_names K0 K' \<and> (\<forall>s \<in> set (written_symbols items). restored s K K') \<and>
    (\<forall>u. u \<notin> set (written_symbols items) \<and> \<not> sym_is_choice u K0 \<longrightarrow>
       k_def (ksym K' u) = k_def (ksym K0 u) \<and> sym_has_value u K' = sym_has_value u K0)"
  using assms
proof (induction items arbitrary: K0)
  case (Cons rl items)
  obtain r l where rl: "rl = (r, l)" by (cases rl)
  have ok: "written_ok K items" using Cons.prems(1) by (simp add: written_ok_def)
  show ?case
  proof (cases r)
    case None
    then have "conf_line cv l K0 = Ret K0" using Cons.prems(1) rl by (simp add: written_ok_def read_over_def)
    then show ?thesis using Cons.IH [OF ok, of K0] Cons.prems(2-4) rl None by simp
  next
    case (Some s)
    then have w: "writable K s" "l = fst (symbol_lines K s)" "known K K0 s" using Cons.prems(1,2) rl by (auto simp: written_ok_def)
    obtain v K1 where 1: "conf_line cv l K0 = Ret K1" "value_set s v K0 K1" "restored s K K1"
      using line_restores [OF w(1,3) Cons.prems(4), of cv] w(2) by auto
    have n: "same_names K0 K1" using 1(2) by (simp add: value_set_def)
    have k: "known K K1 t" if "known K K0 t" for t
      using that n same_names_find [OF n] member_ok_same [OF n] by (simp add: known_def same_names_def)
    have "\<forall>t \<in> set (written_symbols items). known K K1 t" "sv_tri (k_curr (ksym K1 symbol_no)) = tri_no"
      "distinct (written_symbols items)" "s \<notin> set (written_symbols items)"
      using Cons.prems(2-4) k n rl Some by (auto simp: same_names_def)
    from Cons.IH [OF ok this(1,3,2)] obtain K2 where 2: "conf_lines cv (map snd items) K1 = Ret K2"
      "same_names K1 K2" "\<forall>s \<in> set (written_symbols items). restored s K K2"
      "\<forall>u. u \<notin> set (written_symbols items) \<and> \<not> sym_is_choice u K1 \<longrightarrow>
         k_def (ksym K2 u) = k_def (ksym K1 u) \<and> sym_has_value u K2 = sym_has_value u K1" by auto
    have c: "sym_is_choice u K1 = sym_is_choice u K0" for u using n by (simp add: same_names_def)
    have "\<not> sym_is_choice s K0" using w(3) by (simp add: known_def member_ok_def)
    then have "restored s K K2" using 1(3) 2(4) \<open>s \<notin> _\<close> c by (simp add: restored_def)
    moreover have "same_names K0 K2" using n 2(2) by (simp add: same_names_def)
    ultimately show ?thesis using 1 2 c rl Some by (auto simp: value_set_def)
  qed
qed (simp add: same_names_def)

section \<open>Writing\<close>

text \<open>The symbols of a list of entries that are to be written: not choices, and not symbols that are invisible
  or have no value of their own to keep.\<close>

definition to_write :: "kmenus \<Rightarrow> kconf \<Rightarrow> nat list \<Rightarrow> sym_ref set" where
  "to_write M K ms = {s. has_flag SYMBOL_WRITE s K \<and> \<not> sym_is_choice s K \<and> Some s \<in> m_sym ` entry M ` set ms}"

lemma valid_calc: "valid_sym t K \<Longrightarrow> sym_calc_value (Suc n) t K = Ret K"
  by (simp add: sym_calc_value.simps value_step_def)

lemma clear_write_other: "has_flag f t (flag_clear SYMBOL_WRITE s K) = has_flag f t K"
  if "f \<in> {SYMBOL_VALID, SYMBOL_CHOICE, SYMBOL_CHOICEVAL}"
  using that by (auto intro!: has_flag_clear simp: SYMBOL_WRITE_def SYMBOL_VALID_def SYMBOL_CHOICE_def SYMBOL_CHOICEVAL_def)

lemma write_symbol_lines:
  assumes "writable K s" "valid_sym s K" "has_flag SYMBOL_WRITE s K" "valid_sym (modules_sym K) K"
  shows "write_symbol (sym_calc_value (Suc n)) s K = Ret (symbol_lines K s, flag_clear SYMBOL_WRITE s K)"
proof -
  have m: "valid_sym t (flag_clear SYMBOL_WRITE s K) = valid_sym t K" for t by (rule clear_write_other) simp
  obtain nm where nm: "k_name (ksym K s) = Some nm" using assms(1) by (auto simp: writable_def)
  have md: "modules_sym (flag_clear SYMBOL_WRITE s K) = modules_sym K" by (simp add: flag_clear_def upd_sym_def)
  let ?K = "flag_clear SYMBOL_WRITE s K"
  show ?thesis
  proof (cases "k_type (ksym K s) \<in> {S_BOOLEAN, S_TRISTATE}")
    case True
    then show ?thesis using assms(2-4) nm by (auto simp: write_symbol_def Let_def valid_calc m md symbol_lines_def)
  next
    case False
    then have t: "k_type (ksym K s) \<in> text_types" "is_text K (val_of s K)" using assms(1) by (auto simp: writable_def)
    then have ty: "k_type (ksym K s) \<notin> {S_BOOLEAN, S_TRISTATE, S_UNKNOWN, S_OTHER}" by (auto simp: text_types_def)
    have "string_value s ?K = Ret (text_at K (val_of s K))"
      using t(2) ty by (auto simp: string_value_def is_text_def text_at_def split: value_ptr.splits option.splits)
    then show ?thesis using assms(2,3) ty nm by (simp add: write_symbol_def Let_def valid_calc symbol_lines_def)
  qed
qed

section \<open>Titles of menus and comments\<close>

text \<open>A title is one line that fits the buffer and does not look like a value.\<close>

definition title_ok :: "string \<Rightarrow> bool" where
  "title_ok t \<longleftrightarrow> CHR 0x0A \<notin> set t \<and> length t + 2 < line_chars \<and> \<not> starts ''CONFIG_'' t"

definition readable :: "kconf \<Rightarrow> sym_ref set" where
  "readable K = {s. k_type (ksym K s) \<in> {S_BOOLEAN, S_TRISTATE} \<or> is_text K (val_of s K)}"

lemma calculated_returns:
  assumes "expr_in {s. valid_sym s K} (readable K) e"
  shows "\<exists>v. calc_expr (sym_calc_value (Suc n)) e K = Ret (v, K)"
proof -
  have "\<exists>t. string_value s K = Ret t" if "s \<in> readable K" for s
    using that by (auto simp: readable_def string_value_def is_text_def split: value_ptr.splits option.splits)
  then obtain tx where tx: "\<And>s. s \<in> readable K \<Longrightarrow> string_value s K = Ret (tx s)" by metis
  show ?thesis using assms by (induction e) (auto simp: valid_calc tx)
qed

text \<open>An entry of a symbol has a calculated value, which can be written if it is to be; a menu or a comment
  has a title, and what its visibility depends on is calculated.\<close>

definition entry_ok :: "kmenus \<Rightarrow> kconf \<Rightarrow> nat \<Rightarrow> bool" where
  "entry_ok M K x \<longleftrightarrow>
     (case m_sym (entry M x) of
        Some s \<Rightarrow> valid_sym s K \<and> (has_flag SYMBOL_WRITE s K \<and> \<not> sym_is_choice s K \<longrightarrow> writable K s)
      | None \<Rightarrow> (case m_prompt (entry M x) of
            None \<Rightarrow> True
          | Some (PropOf s i) \<Rightarrow> False
          | Some (OwnProp i) \<Rightarrow>
              (case p_visible (own_props M i) of None \<Rightarrow> True | Some e \<Rightarrow> expr_in {s. valid_sym s K} (readable K) e) \<and>
              (\<exists>t. p_text (own_props M i) = Some t \<and> title_ok t)))"

text \<open>Looking at menus changes nothing but the visibility that is kept with their prompts.\<close>

definition same_menus :: "kmenus \<Rightarrow> kmenus \<Rightarrow> bool" where
  "same_menus M M' \<longleftrightarrow> entry M' = entry M \<and>
     (\<forall>i. p_visible (own_props M' i) = p_visible (own_props M i) \<and> p_text (own_props M' i) = p_text (own_props M i))"

lemma same_menus_entry_ok: "same_menus M M' \<Longrightarrow> entry_ok M' K x = entry_ok M K x"
  by (auto simp: same_menus_def entry_ok_def split: option.splits prompt_ref.splits)

lemma config_length: "length ''CONFIG_'' = 7"
  by simp

lemma title_lines_ok:
  assumes "title_ok t"
  shows "written_ok K [(None, nl), (None, ''#'' @ nl), (None, ''# '' @ t @ nl), (None, ''#'' @ nl)]"
proof -
  have l: "line_ok (u @ nl)" if "CHR 0x0A \<notin> set u" "length u < line_chars" for u using that by (auto simp: line_ok_def)
  have "\<not> starts ''CONFIG_'' (t @ nl)"
  proof (cases "length t < 7")
    case True
    then have "take 7 (t @ nl) = t @ nl" by (simp add: nl_def)
    then have "CHR 0x0A \<in> set (take 7 (t @ nl))" by (simp add: nl_def)
    moreover have "CHR 0x0A \<notin> set ''CONFIG_''" by simp
    ultimately show ?thesis unfolding starts_def by (metis config_length)
  next
    case False
    then show ?thesis using assms by (simp add: starts_def title_ok_def)
  qed
  then have "read_over (''# '' @ t @ nl)" using assms
    by (auto simp: read_over_def conf_line_def first_char_def not_set_line_def title_ok_def)
  moreover have "read_over nl" "read_over (''#'' @ nl)"
    by (simp_all add: read_over_def conf_line_def first_char_def not_set_line_def starts_def nl_def)
  moreover have "line_ok nl" "line_ok (''#'' @ nl)" "line_ok (''# '' @ t @ nl)"
    using l [of "[]"] l [of "''#''"] l [of "''# '' @ t"] assms by (auto simp: line_chars_def title_ok_def)
  ultimately show ?thesis by (simp add: written_ok_def)
qed

lemma menu_written:
  assumes "entry_ok M K x" "m_sym (entry M x) = None"
  shows "\<exists>items h M'. write_entry (sym_calc_value (Suc n)) x (M, K) = Ret ((written_text items, h), M', K) \<and>
    same_menus M M' \<and> written_ok K items \<and> written_symbols items = []"
proof (cases "m_prompt (entry M x)")
  case None
  then show ?thesis using assms(2)
    by (intro exI [of _ "[]"] exI [of _ "[]"] exI [of _ M]) (simp add: write_entry_def menu_is_visible_def same_menus_def written_ok_def)
next
  case (Some q)
  then obtain i t where i: "m_prompt (entry M x) = Some (OwnProp i)" "p_text (own_props M i) = Some t" "title_ok t"
    "case p_visible (own_props M i) of None \<Rightarrow> True | Some e \<Rightarrow> expr_in {s. valid_sym s K} (readable K) e"
    using assms by (auto simp: entry_ok_def split: prompt_ref.splits)
  have "\<exists>v. (case p_visible (own_props M i) of None \<Rightarrow> Ret (tri_yes, K) | Some e \<Rightarrow> calc_expr (sym_calc_value (Suc n)) e K) = Ret (v, K)"
    using i(4) calculated_returns by (cases "p_visible (own_props M i)") auto
  then obtain v where v: "(case p_visible (own_props M i) of None \<Rightarrow> Ret (tri_yes, K) | Some e \<Rightarrow> calc_expr (sym_calc_value (Suc n)) e K) = Ret (v, K)" ..
  let ?M = "M\<lparr>own_props := (own_props M)(i := (own_props M i)\<lparr>p_tri := v\<rparr>)\<rparr>"
  have vis: "menu_is_visible (sym_calc_value (Suc n)) x (M, K) = Ret (v \<noteq> tri_no, ?M, K)"
    using assms(2) i(1) v by (simp add: menu_is_visible_def prompt_prop_def set_prompt_tri_def)
  have m: "same_menus M ?M" by (simp add: same_menus_def)
  have t: "menu_get_prompt x ?M K = Some t" using i(1,2) by (simp add: menu_get_prompt_def prompt_prop_def)
  show ?thesis
  proof (cases "v = tri_no")
    case True
    then show ?thesis using vis m assms(2)
      by (intro exI [of _ "[]"] exI [of _ "[]"] exI [of _ ?M]) (simp add: write_entry_def written_ok_def)
  next
    case False
    then show ?thesis using vis m assms(2) t title_lines_ok [OF i(3), of K]
      by (intro exI [of _ "[(None, nl), (None, ''#'' @ nl), (None, ''# '' @ t @ nl), (None, ''#'' @ nl)]"]
          exI [of _ "nl @ ''/*'' @ nl @ '' * '' @ t @ nl @ '' */'' @ nl"] exI [of _ ?M]) (simp add: write_entry_def)
  qed
qed

section \<open>The walk\<close>

text \<open>The entries the walk visits, for every bound on the climbing of at least d.\<close>

fun walk :: "nat \<Rightarrow> kmenus \<Rightarrow> nat option \<Rightarrow> nat list \<Rightarrow> bool" where
  "walk d M m [] \<longleftrightarrow> m = None"
| "walk d M m (x # xs) \<longleftrightarrow> m = Some x \<and> (\<exists>y. (\<forall>n \<ge> d. next_entry n x M = Ret y) \<and> walk d M y xs)"

text \<open>Clearing SYMBOL_WRITE.\<close>

lemma clear_write_same:
  "symbol_lines (flag_clear SYMBOL_WRITE s K) t = symbol_lines K t"
  "modules_sym (flag_clear SYMBOL_WRITE s K) = modules_sym K"
  "valid_sym t (flag_clear SYMBOL_WRITE s K) = valid_sym t K"
  "writable (flag_clear SYMBOL_WRITE s K) t = writable K t"
  "readable (flag_clear SYMBOL_WRITE s K) = readable K"
  "sym_is_choice t (flag_clear SYMBOL_WRITE s K) = sym_is_choice t K"
  "has_flag SYMBOL_WRITE t (flag_clear SYMBOL_WRITE s K) \<longleftrightarrow> t \<noteq> s \<and> has_flag SYMBOL_WRITE t K"
proof -
  have k: "k_name (ksym (flag_clear SYMBOL_WRITE s K) t) = k_name (ksym K t)"
    "k_type (ksym (flag_clear SYMBOL_WRITE s K) t) = k_type (ksym K t)"
    "k_curr (ksym (flag_clear SYMBOL_WRITE s K) t) = k_curr (ksym K t)" for t by simp_all
  have x: "text_at (flag_clear SYMBOL_WRITE s K) v = text_at K v" "is_text (flag_clear SYMBOL_WRITE s K) v = is_text K v" for v
    unfolding text_at_def is_text_def by (cases v; simp add: k del: flag_clear_sym)+
  show l: "symbol_lines (flag_clear SYMBOL_WRITE s K) t = symbol_lines K t" for t
    by (simp add: symbol_lines_def Let_def x k del: flag_clear_sym)
  show "modules_sym (flag_clear SYMBOL_WRITE s K) = modules_sym K" by (simp add: flag_clear_def upd_sym_def)
  show "valid_sym t (flag_clear SYMBOL_WRITE s K) = valid_sym t K" "sym_is_choice t (flag_clear SYMBOL_WRITE s K) = sym_is_choice t K"
    by (simp_all add: clear_write_other)
  show "writable (flag_clear SYMBOL_WRITE s K) t = writable K t"
    by (simp add: writable_def l x k del: flag_clear_sym)
  show "readable (flag_clear SYMBOL_WRITE s K) = readable K" by (simp add: readable_def x k del: flag_clear_sym)
  show "has_flag SYMBOL_WRITE t (flag_clear SYMBOL_WRITE s K) \<longleftrightarrow> t \<noteq> s \<and> has_flag SYMBOL_WRITE t K"
    by (auto simp: has_flag_def and.assoc)
qed

lemma clear_write_ok:
  "entry_ok M K x \<Longrightarrow> entry_ok M (flag_clear SYMBOL_WRITE s K) x"
  "written_ok (flag_clear SYMBOL_WRITE s K) items = written_ok K items"
  by (auto simp: entry_ok_def written_ok_def clear_write_same split: option.splits prompt_ref.splits)

text \<open>One entry: its lines, and SYMBOL_WRITE cleared where a value has been written.\<close>

definition clear_write :: "sym_ref list \<Rightarrow> kconf \<Rightarrow> kconf" where
  "clear_write ss K = fold (flag_clear SYMBOL_WRITE) ss K"

lemma entry_written:
  assumes "entry_ok M K x" "valid_sym (modules_sym K) K"
  shows "\<exists>items h M'. write_entry (sym_calc_value (Suc n)) x (M, K) =
      Ret ((written_text items, h), M', clear_write (written_symbols items) K) \<and>
    same_menus M M' \<and> written_ok K items \<and> distinct (written_symbols items) \<and> set (written_symbols items) = to_write M K [x]"
proof (cases "m_sym (entry M x)")
  case None
  have "to_write M K [x] = {}" using None by (simp add: to_write_def)
  moreover from menu_written [OF assms(1) None, of n] obtain items h M' where
    "write_entry (sym_calc_value (Suc n)) x (M, K) = Ret ((written_text items, h), M', K)"
    "same_menus M M'" "written_ok K items" "written_symbols items = []" by blast
  ultimately show ?thesis by (intro exI [of _ items] exI [of _ h] exI [of _ M']) (simp add: clear_write_def)
next
  case (Some s)
  have v: "valid_sym s K" using assms(1) Some by (simp add: entry_ok_def)
  show ?thesis
  proof (cases "has_flag SYMBOL_WRITE s K \<and> \<not> sym_is_choice s K")
    case True
    then have w: "writable K s" using assms(1) Some by (simp add: entry_ok_def)
    have "write_entry (sym_calc_value (Suc n)) x (M, K) = Ret (symbol_lines K s, M, flag_clear SYMBOL_WRITE s K)"
      using Some True write_symbol_lines [OF w v _ assms(2), of n] by (simp add: write_entry_def)
    then show ?thesis using True Some w written_line [OF w]
      by (intro exI [of _ "[(Some s, fst (symbol_lines K s))]"] exI [of _ "snd (symbol_lines K s)"] exI [of _ M])
        (auto simp: clear_write_def same_menus_def written_ok_def to_write_def)
  next
    case False
    then have "write_entry (sym_calc_value (Suc n)) x (M, K) = Ret (([], []), M, K)"
      using Some v by (auto simp: write_entry_def write_symbol_def valid_calc)
    moreover have "to_write M K [x] = {}" using False Some by (auto simp: to_write_def)
    ultimately show ?thesis by (intro exI [of _ "[]"] exI [of _ "[]"] exI [of _ M]) (simp add: clear_write_def same_menus_def written_ok_def)
  qed
qed

lemma clear_write_facts:
  "modules_sym (clear_write ss K) = modules_sym K" "valid_sym t (clear_write ss K) = valid_sym t K"
  "sym_is_choice t (clear_write ss K) = sym_is_choice t K" "written_ok (clear_write ss K) items = written_ok K items"
  "has_flag SYMBOL_WRITE t (clear_write ss K) \<longleftrightarrow> t \<notin> set ss \<and> has_flag SYMBOL_WRITE t K"
  "entry_ok M K x \<Longrightarrow> entry_ok M (clear_write ss K) x"
  unfolding clear_write_def by (induction ss arbitrary: K) (auto simp: clear_write_same clear_write_ok)

lemma conf_write_loop_lines:
  assumes "walk d M m ms" "\<forall>x \<in> set ms. entry_ok M K x" "valid_sym (modules_sym K) K" "length ms + d < fuel"
  shows "\<exists>items h M' K'. conf_write_loop fuel (sym_calc_value (Suc n)) m out (M, K) =
      Ret ((fst out @ written_text items, snd out @ h), M', K') \<and>
    written_ok K items \<and> distinct (written_symbols items) \<and> set (written_symbols items) = to_write M K ms"
  using assms
proof (induction ms arbitrary: m out M K fuel)
  case Nil
  then show ?case by (cases fuel) (auto simp: written_ok_def to_write_def intro!: exI [of _ "[]"])
next
  case (Cons x ms)
  obtain y where y: "m = Some x" "\<forall>n \<ge> d. next_entry n x M = Ret y" "walk d M y ms" using Cons.prems(1) by auto
  obtain f where f: "fuel = Suc f" "length ms + d < f" using Cons.prems(4) by (cases fuel) auto
  obtain i1 h1 M1 where 1: "write_entry (sym_calc_value (Suc n)) x (M, K) =
      Ret ((written_text i1, h1), M1, clear_write (written_symbols i1) K)"
    "same_menus M M1" "written_ok K i1" "distinct (written_symbols i1)" "set (written_symbols i1) = to_write M K [x]"
    using entry_written [of M K x n] Cons.prems(2,3) by auto
  let ?K = "clear_write (written_symbols i1) K"
  have e: "entry M1 = entry M" using 1(2) by (simp add: same_menus_def)
  have nx: "next_entry k z M1 = next_entry k z M" for k z
  proof -
    have "climb k z M1 = climb k z M" by (induction k arbitrary: z) (simp_all add: e split: option.split)
    then show ?thesis by (simp only: next_entry_def e)
  qed
  have "walk d M1 w zs = walk d M w zs" for w zs by (induction zs arbitrary: w) (simp_all add: nx)
  then have "walk d M1 y ms" using y(3) by simp
  moreover have "\<forall>x \<in> set ms. entry_ok M1 ?K x"
    using Cons.prems(2) clear_write_facts(6) same_menus_entry_ok [OF 1(2)] by simp
  ultimately obtain i2 h2 M2 K2 where 2: "conf_write_loop f (sym_calc_value (Suc n)) y (fst out @ written_text i1, snd out @ h1) (M1, ?K) =
      Ret ((fst out @ written_text (i1 @ i2), snd out @ h1 @ h2), M2, K2)"
    "written_ok ?K i2" "distinct (written_symbols i2)" "set (written_symbols i2) = to_write M1 ?K ms"
    using Cons.IH [of M1 y ?K f "(fst out @ written_text i1, snd out @ h1)"] Cons.prems(3) f(2) by (auto simp: clear_write_facts)
  have "conf_write_loop fuel (sym_calc_value (Suc n)) m out (M, K) = Ret ((fst out @ written_text (i1 @ i2), snd out @ h1 @ h2), M2, K2)"
    using 1(1) 2(1) y(1,2) f by (simp add: nx)
  moreover have "written_ok K (i1 @ i2)" using 1(3) 2(2) by (simp only: clear_write_facts written_ok_append)
  moreover have t: "to_write M1 ?K ms = to_write M K ms - set (written_symbols i1)" by (auto simp: to_write_def e clear_write_facts)
  then have "distinct (written_symbols (i1 @ i2))" using 1(4) 2(3,4) by auto
  moreover have "to_write M K (x # ms) = to_write M K [x] \<union> to_write M K ms" by (auto simp: to_write_def)
  then have "set (written_symbols (i1 @ i2)) = to_write M K (x # ms)" using 1(5) 2(4) t by auto
  ultimately show ?case by blast
qed

section \<open>Forgetting and choices\<close>

lemma forget_same: "same_names K (forget s K)"
proof -
  have "SYMBOL_VALID AND SYMBOL_CONST = 0" "SYMBOL_VALID AND SYMBOL_CHOICEVAL = 0" "(SYMBOL_NEW OR SYMBOL_CHANGED) AND SYMBOL_CONST = 0"
    "(SYMBOL_NEW OR SYMBOL_CHANGED) AND SYMBOL_CHOICEVAL = 0" "SYMBOL_VALID AND SYMBOL_CHOICE = 0" "(SYMBOL_NEW OR SYMBOL_CHANGED) AND SYMBOL_CHOICE = 0"
    by (simp_all add: SYMBOL_VALID_def SYMBOL_CONST_def SYMBOL_CHOICE_def SYMBOL_CHOICEVAL_def SYMBOL_NEW_def SYMBOL_CHANGED_def)
  then show ?thesis
    by (auto simp: same_names_def forget_def has_flag_clear) (simp add: set_def_def flag_set_def flag_clear_def upd_sym_def)
qed

lemma same_names_trans: "same_names K K1 \<Longrightarrow> same_names K1 K2 \<Longrightarrow> same_names K K2"
  by (simp add: same_names_def)

lemma forget_all_same: "same_names K (fold forget ss K)"
proof (induction ss arbitrary: K)
  case (Cons s ss)
  show ?case using same_names_trans [OF forget_same Cons.IH] by simp
qed (simp add: same_names_def)

text \<open>The choices keep their values and get their new flags.\<close>

definition choices_only :: "kconf \<Rightarrow> kconf \<Rightarrow> bool" where
  "choices_only K K' \<longleftrightarrow> (\<forall>u. k_props (ksym K' u) = k_props (ksym K u) \<and> k_def (ksym K' u) = k_def (ksym K u) \<and>
     sym_is_choice u K' = sym_is_choice u K \<and> (\<not> sym_is_choice u K \<longrightarrow> sym_has_value u K' = sym_has_value u K))"

lemma choices_only_trans: "choices_only K K1 \<Longrightarrow> choices_only K1 K2 \<Longrightarrow> choices_only K K2"
  by (simp add: choices_only_def)

lemma fold_new_flags: "sym_is_choice s K \<Longrightarrow> choices_only K (fold (\<lambda>d K. flag_set (k_flags (ksym K d) AND SYMBOL_NEW) s K) ds K)"
proof (induction ds arbitrary: K)
  case (Cons d ds)
  have z: "SYMBOL_NEW AND SYMBOL_CHOICE = 0" by (simp add: SYMBOL_NEW_def SYMBOL_CHOICE_def)
  let ?K = "flag_set (k_flags (ksym K d) AND SYMBOL_NEW) s K"
  have "choices_only K ?K" using Cons.prems by (auto simp: choices_only_def and.assoc z)
  moreover have "choices_only ?K (fold (\<lambda>d K. flag_set (k_flags (ksym K d) AND SYMBOL_NEW) s K) ds ?K)"
    using Cons by simp
  ultimately show ?case using choices_only_trans by simp
qed (simp add: choices_only_def)

lemma new_choices_returns:
  "\<forall>c \<in> set ss. sym_is_choice c K \<longrightarrow> sym_get_choice_prop c K \<noteq> None \<Longrightarrow> \<exists>K'. new_choices ss K = Ret K' \<and> choices_only K K'"
proof (induction ss arbitrary: K)
  case (Cons s ss)
  show ?case
  proof (cases "sym_is_choice s K")
    case True
    then obtain p where p: "sym_get_choice_prop s K = Some p" using Cons.prems by auto
    let ?K = "fold (\<lambda>d K. flag_set (k_flags (ksym K d) AND SYMBOL_NEW) s K) (p_members p) (flag_clear SYMBOL_NEW s K)"
    have "choices_only K (flag_clear SYMBOL_NEW s K)" using True by (auto simp: choices_only_def)
    moreover have "choices_only (flag_clear SYMBOL_NEW s K) ?K" using True by (intro fold_new_flags) simp
    ultimately have c: "choices_only K ?K" by (rule choices_only_trans)
    then have "\<forall>c \<in> set ss. sym_is_choice c ?K \<longrightarrow> sym_get_choice_prop c ?K \<noteq> None"
      using Cons.prems by (simp add: choices_only_def sym_get_choice_prop_def)
    from Cons.IH [OF this] show ?thesis using True p choices_only_trans [OF c] by auto
  next
    case False
    then show ?thesis using Cons by simp
  qed
qed (simp add: choices_only_def)

definition header_lines :: "string list" where
  "header_lines = [''#'' @ nl, ''# Automatically generated make config: don'' @ [CHR 0x27] @ ''t edit'' @ nl, ''#'' @ nl]"

lemma header_lines_ok: "fst config_header = concat header_lines" "\<forall>l \<in> set header_lines. line_ok l"
  "conf_lines cv header_lines K = Ret K"
proof -
  show "fst config_header = concat header_lines" by (simp add: config_header_def header_lines_def)
  have "line_ok (t @ nl)" if "CHR 0x0A \<notin> set t" "length t < line_chars" for t using that by (auto simp: line_ok_def)
  from this [of "''#''"] this [of "''# Automatically generated make config: don'' @ [CHR 0x27] @ ''t edit''"]
  show "\<forall>l \<in> set header_lines. line_ok l" by (simp add: header_lines_def line_chars_def)
  show "conf_lines cv header_lines K = Ret K"
    by (simp add: header_lines_def conf_line_def first_char_def not_set_line_def starts_def nl_def)
qed

lemma conf_lines_append: "conf_lines cv (as @ bs) A = obind (conf_lines cv as A) (conf_lines cv bs)"
proof (induction as arbitrary: A)
  case (Cons a as)
  then have "conf_lines cv (as @ bs) = (\<lambda>A. obind (conf_lines cv as A) (conf_lines cv bs))" by blast
  then show ?case by (simp add: obind_assoc)
qed simp

text \<open>C8: what conf_write writes, conf_read reads back. The walk through the menu visits the entries ms, of
  menus, comments, choices and symbols; the values of their symbols are calculated, and every symbol that is to be
  written (it is no choice and SYMBOL_WRITE is set, so not an invisible one) has a line that can be read: a plain
  name, a text valid for the type and without newline, no more chars than the line buffer has. The titles are lines
  that do not look like a value. The program that reads finds the symbols under their names with the same types.
  Then conf_write returns, and conf_read of the file it writes returns 0 with every one of the written symbols set
  by the user to the value it had: strings with their quotes and backslashes, numbers as they are spelt, and
  y, m or n.\<close>
theorem configuration_is_restored:
  assumes walk: "walk d M (m_list (entry M rootmenu)) ms" "length ms + d < fuel"
    and out: "\<forall>x \<in> set ms. entry_ok M K x" "valid_sym (modules_sym K) K" "sym_change_count K \<noteq> 0"
    and inp: "\<forall>s \<in> to_write M K ms. known K K0 s" "sv_tri (k_curr (ksym K0 symbol_no)) = tri_no"
      "\<forall>c. sym_is_choice c K0 \<longrightarrow> sym_get_choice_prop c K0 \<noteq> None"
  shows "\<exists>files MK K'. conf_write fuel (sym_calc_value (Suc n)) (M, K) = Ret (files, MK) \<and>
    conf_read cv [name \<mapsto> fst files] (Some name) K0 = Ret (0, K') \<and> (\<forall>s \<in> to_write M K ms. restored s K K')"
proof -
  obtain items h M1 K1 where w: "conf_write_loop fuel (sym_calc_value (Suc n)) (m_list (entry M rootmenu)) config_header (M, K) =
      Ret ((fst config_header @ written_text items, snd config_header @ h), M1, K1)"
    and i: "written_ok K items" "distinct (written_symbols items)" "set (written_symbols items) = to_write M K ms"
    using conf_write_loop_lines [OF walk(1) out(1,2) walk(2), of n config_header] by blast
  let ?f = "fst config_header @ written_text items"
  have c: "conf_write fuel (sym_calc_value (Suc n)) (M, K) = Ret ((?f, snd config_header @ h), M1, K1\<lparr>sym_change_count := 0\<rparr>)"
    using out(3) w by (simp add: conf_write_def Let_def)
  have "\<forall>l \<in> set (header_lines @ map snd items). line_ok l" using header_lines_ok(2) i(1) by (auto simp: written_ok_def)
  from fgets_lines_concat [OF this] have lines: "fgets_lines ?f = header_lines @ map snd items"
    by (simp add: header_lines_ok(1) written_text_def)
  let ?K = "fold forget (all_symbols K0) K0"
  have s: "same_names K0 ?K" by (rule forget_all_same)
  have "\<forall>s \<in> set (written_symbols items). known K ?K s"
    using inp(1) i(3) s same_names_find [OF s] member_ok_same [OF s] by (simp add: known_def same_names_def)
  moreover have "sv_tri (k_curr (ksym ?K symbol_no)) = tri_no" using inp(2) s by (simp add: same_names_def)
  ultimately obtain K2 where 2: "conf_lines cv (map snd items) ?K = Ret K2" "\<forall>s \<in> to_write M K ms. restored s K K2" "same_names ?K K2"
    using written_restores [OF i(1) _ i(2), of ?K cv] i(3) by auto
  have l: "conf_lines cv (fgets_lines ?f) ?K = Ret K2" using 2(1) by (simp add: lines conf_lines_append header_lines_ok(3))
  have s2: "same_names K0 K2" by (rule same_names_trans [OF s 2(3)])
  have "\<forall>c \<in> set (all_symbols K2). sym_is_choice c K2 \<longrightarrow> sym_get_choice_prop c K2 \<noteq> None"
    using inp(3) s2 by (simp add: same_names_def sym_get_choice_prop_def)
  then obtain K3 where 3: "new_choices (all_symbols K2) K2 = Ret K3" "choices_only K2 K3" using new_choices_returns by blast
  let ?R = "K3\<lparr>sym_change_count := 1\<rparr>"
  have "conf_read cv [name \<mapsto> ?f] (Some name) K0 = Ret (0, ?R)" using l 3(1) by (simp add: conf_read_def)
  moreover have "restored s K ?R" if "s \<in> to_write M K ms" for s
  proof -
    have "\<not> sym_is_choice s K2" using inp(1) that s2 by (simp add: known_def member_ok_def same_names_def)
    then show ?thesis using that 2(2) 3(2) by (simp add: restored_def choices_only_def has_flag_def)
  qed
  ultimately show ?thesis using c by auto
qed

text \<open>A number the user has not set and that has no default is written as an empty text, which stops the next
  reading.\<close>

lemma empty_number_is_refused:
  assumes "plain_name n" "sym_find (Some n) K = Ret (Some s)" "k_type (ksym K s) \<in> {S_INT, S_HEX}"
  shows "\<exists>m. conf_line cv (fst (write_text (k_type (ksym K s)) n [])) K = Panic m"
proof -
  have "split_at CHR ''='' (n @ CHR ''='' # nl) = Some (n, nl)" using assms(1) by (intro split_at_first) (simp add: plain_name_def)
  moreover have "\<not> text_valid (k_type (ksym K s)) []"
    using assms(3) by (auto simp: text_valid_checks int_valid_def hex_valid_def has_hex_prefix_def)
  ultimately show ?thesis using assms(2,3)
    by (auto simp: conf_line_def first_char_def value_line_def starts_def write_text_def has_hex_prefix_def nl_def read_value_def read_text_def
      string_valid_text text_types_def)
qed


section \<open>A small configuration\<close>

text \<open>A menu with the boolean A, a member of the choice 3, and the string B in it, behind it the choice and an invisible
  number 2 without a value.\<close>

definition choice_of :: kproperty where
  "choice_of = (create_prop P_CHOICE)\<lparr>p_def := Some (Symbol 3)\<rparr>"

definition four_symbols :: "symbol_value \<Rightarrow> symbol_value \<Rightarrow> u32 \<Rightarrow> kconf" where
  "four_symbols a b flags = \<lparr>ksym = (\<lambda>_. base_symbol)
      (Symbol 0 := base_symbol\<lparr>k_name := Some ''A'', k_type := S_BOOLEAN, k_flags := flags OR SYMBOL_CHOICEVAL, k_curr := a, k_props := [choice_of]\<rparr>,
       Symbol 1 := base_symbol\<lparr>k_name := Some ''B'', k_type := S_STRING, k_flags := flags, k_curr := b\<rparr>,
       Symbol 2 := base_symbol\<lparr>k_name := Some ''C'', k_type := S_INT, k_flags := SYMBOL_VALID\<rparr>,
       Symbol 3 := base_symbol\<lparr>k_type := S_BOOLEAN, k_flags := SYMBOL_VALID OR SYMBOL_CHOICE, k_props := [create_prop P_CHOICE]\<rparr>),
     symbol_hash = (\<lambda>_. [])(65 := [Symbol 0], 66 := [Symbol 1], 67 := [Symbol 2]), numSymbols = 4, numTexts = 2, modules_sym = symbol_no,
     menu_flags = (\<lambda>_. 0), sym_change_count = 1, sym_inited = True\<rparr>"

definition five_entries :: kmenus where
  "five_entries = \<lparr>entry = (\<lambda>_. \<lparr>m_next = None, m_parent = None, m_list = Some 1, m_sym = None, m_prompt = None, m_dep = None\<rparr>)
      (1 := \<lparr>m_next = Some 4, m_parent = Some 0, m_list = Some 2, m_sym = None, m_prompt = Some (OwnProp 0), m_dep = None\<rparr>,
       2 := \<lparr>m_next = Some 3, m_parent = Some 1, m_list = None, m_sym = Some (Symbol 0), m_prompt = None, m_dep = None\<rparr>,
       3 := \<lparr>m_next = None, m_parent = Some 1, m_list = None, m_sym = Some (Symbol 1), m_prompt = None, m_dep = None\<rparr>,
       4 := \<lparr>m_next = Some 5, m_parent = Some 0, m_list = None, m_sym = Some (Symbol 3), m_prompt = None, m_dep = None\<rparr>,
       5 := \<lparr>m_next = None, m_parent = Some 0, m_list = None, m_sym = Some (Symbol 2), m_prompt = None, m_dep = None\<rparr>),
     own_props = (\<lambda>_. (create_prop P_MENU)\<lparr>p_text := Some ''Options''\<rparr>), num_menus = 6, num_props = 1, current_menu = Some 0,
     current_entry = 5, last_entry_ptr = NextOf 5\<rparr>"

definition outer_state :: kconf where
  "outer_state = four_symbols \<lparr>sv_value = VNull, sv_tri = tri_yes\<rparr> \<lparr>sv_value = VStr 7 [CHR ''a'', CHR 0x22], sv_tri = tri_no\<rparr> (SYMBOL_VALID OR SYMBOL_WRITE)"

definition inner_state :: kconf where
  "inner_state = four_symbols \<lparr>sv_value = VNull, sv_tri = tri_no\<rparr> \<lparr>sv_value = VNull, sv_tri = tri_no\<rparr> SYMBOL_NEW"

lemma five_entries_fields:
  "entry five_entries 0 = \<lparr>m_next = None, m_parent = None, m_list = Some 1, m_sym = None, m_prompt = None, m_dep = None\<rparr>"
  "entry five_entries 1 = \<lparr>m_next = Some 4, m_parent = Some 0, m_list = Some 2, m_sym = None, m_prompt = Some (OwnProp 0), m_dep = None\<rparr>"
  "entry five_entries 2 = \<lparr>m_next = Some 3, m_parent = Some 1, m_list = None, m_sym = Some (Symbol 0), m_prompt = None, m_dep = None\<rparr>"
  "entry five_entries 3 = \<lparr>m_next = None, m_parent = Some 1, m_list = None, m_sym = Some (Symbol 1), m_prompt = None, m_dep = None\<rparr>"
  "entry five_entries 4 = \<lparr>m_next = Some 5, m_parent = Some 0, m_list = None, m_sym = Some (Symbol 3), m_prompt = None, m_dep = None\<rparr>"
  "entry five_entries 5 = \<lparr>m_next = None, m_parent = Some 0, m_list = None, m_sym = Some (Symbol 2), m_prompt = None, m_dep = None\<rparr>"
  by (simp_all add: five_entries_def)

lemma own_titles: "own_props five_entries i = (create_prop P_MENU)\<lparr>p_text := Some ''Options''\<rparr>"
  by (simp add: five_entries_def)

lemma five_entries_walk: "walk 2 five_entries (m_list (entry five_entries rootmenu)) [1, 2, 3, 4, 5]"
proof -
  have s: "next_entry n 5 five_entries = Ret None" "next_entry n 3 five_entries = Ret (Some 4)" if "2 \<le> n" for n
  proof -
    from that have m: "n = Suc (Suc (n - 2))" by arith
    show "next_entry n 5 five_entries = Ret None" "next_entry n 3 five_entries = Ret (Some 4)"
      by (subst m, simp add: next_entry_def five_entries_fields del: One_nat_def)+
  qed
  have n: "next_entry n 1 five_entries = Ret (Some 2)" "next_entry n 2 five_entries = Ret (Some 3)"
    "next_entry n 4 five_entries = Ret (Some 5)" for n
    by (simp_all add: next_entry_def five_entries_fields del: One_nat_def)
  show ?thesis unfolding rootmenu_def five_entries_fields(1) walk.simps by (simp add: n s del: One_nat_def)
qed

theorem configuration_is_restored_witness:
  "\<exists>files MK K'. conf_write 8 (sym_calc_value 1) (five_entries, outer_state) = Ret (files, MK) \<and>
     conf_read (sym_calc_value 1) [''.config'' \<mapsto> fst files] (Some ''.config'') inner_state = Ret (0, K') \<and>
     sv_tri (k_def (ksym K' (Symbol 0))) = tri_yes \<and> (\<exists>i. sv_value (k_def (ksym K' (Symbol 1))) = VStr i [CHR ''a'', CHR 0x22])"
proof -
  let ?ms = "[1, 2, 3, 4, 5]"
  have flags: "has_flag SYMBOL_VALID s outer_state \<longleftrightarrow> s \<in> {Symbol 0, Symbol 1, Symbol 2, Symbol 3} \<or> has_flag SYMBOL_VALID s outer_state"
    "has_flag SYMBOL_WRITE (Symbol 0) outer_state" "has_flag SYMBOL_WRITE (Symbol 1) outer_state"
    "\<not> has_flag SYMBOL_WRITE (Symbol 2) outer_state" "\<not> has_flag SYMBOL_WRITE (Symbol 3) outer_state"
    "\<not> sym_is_choice (Symbol 0) outer_state" "\<not> sym_is_choice (Symbol 1) outer_state"
    by (auto simp: outer_state_def four_symbols_def base_symbol_def has_flag_def SYMBOL_VALID_def SYMBOL_WRITE_def SYMBOL_CHOICE_def SYMBOL_CHOICEVAL_def)
  have tw: "to_write five_entries outer_state ?ms = {Symbol 0, Symbol 1}"
    using flags(2-7) by (auto simp: to_write_def five_entries_fields simp del: One_nat_def)
  have w: "writable outer_state (Symbol 0)" "writable outer_state (Symbol 1)"
    by (simp_all add: writable_def outer_state_def four_symbols_def base_symbol_def plain_name_def symbol_lines_def write_tri_def
      write_text_def write_string_quotes quote_char_def quoted_char_def text_at_def is_text_def text_types_def text_valid_checks line_chars_def dquote_def nl_def)
  have v: "has_flag SYMBOL_VALID (Symbol i) outer_state" if "i \<in> {0, 1, 2, 3}" for i
    using that by (auto simp: outer_state_def four_symbols_def has_flag_def SYMBOL_VALID_def SYMBOL_WRITE_def SYMBOL_CHOICE_def SYMBOL_CHOICEVAL_def)
  have e: "\<forall>x \<in> set ?ms. entry_ok five_entries outer_state x"
    using w v flags(4,5) by (simp add: entry_ok_def five_entries_fields own_titles create_prop_def title_ok_def starts_def line_chars_def del: One_nat_def)
  have m: "valid_sym (modules_sym outer_state) outer_state" "sym_change_count outer_state \<noteq> 0"
    by (simp_all add: outer_state_def four_symbols_def base_symbol_def has_flag_def SYMBOL_VALID_def)
  have i: "\<forall>s \<in> to_write five_entries outer_state ?ms. known outer_state inner_state s"
    unfolding tw by (simp add: known_def member_ok_def sym_get_choice_prop_def choice_of_def create_prop_def outer_state_def inner_state_def four_symbols_def base_symbol_def
      has_flag_def sym_find_def static_symbol_def sym_bucket_def SYMBOL_HASHMASK_def SYMBOL_CONST_def SYMBOL_NEW_def SYMBOL_CHOICE_def
      SYMBOL_CHOICEVAL_def SYMBOL_VALID_def SYMBOL_WRITE_def)
  have n: "sv_tri (k_curr (ksym inner_state symbol_no)) = tri_no"
    by (simp add: inner_state_def four_symbols_def base_symbol_def)
  have c: "\<forall>c. sym_is_choice c inner_state \<longrightarrow> sym_get_choice_prop c inner_state \<noteq> None"
    by (auto simp: inner_state_def four_symbols_def base_symbol_def has_flag_def sym_get_choice_prop_def create_prop_def
      SYMBOL_NEW_def SYMBOL_CHOICE_def SYMBOL_CHOICEVAL_def SYMBOL_VALID_def)
  obtain files MK K' where r: "conf_write 8 (sym_calc_value 1) (five_entries, outer_state) = Ret (files, MK)"
    "conf_read (sym_calc_value 1) [''.config'' \<mapsto> fst files] (Some ''.config'') inner_state = Ret (0, K')"
    "\<forall>s \<in> {Symbol 0, Symbol 1}. restored s outer_state K'"
    using configuration_is_restored [OF five_entries_walk _ e m i n c, of 8 0 "sym_calc_value 1" "''.config''"] unfolding tw by auto
  moreover have "sv_tri (k_def (ksym K' (Symbol 0))) = tri_yes" "\<exists>i. sv_value (k_def (ksym K' (Symbol 1))) = VStr i [CHR ''a'', CHR 0x22]"
    using r(3) by (simp_all add: restored_def outer_state_def four_symbols_def base_symbol_def text_at_def)
  ultimately show ?thesis by blast
qed

end
