(* ===== verification/Kdups.thy ===== *)
theory Kdups
  imports Kexpr
begin

text \<open>
  The functions of tools/kconfig/expr.c that walk one expression with two pointers:
  expr_eliminate_dups1, expr_eliminate_dups2 and expr_eliminate_dups.  Both pointers lead to
  operands of the same tree and are paths from its root here; two pointers are equal if and only if
  the paths are.  trans_count is part of the state.  n bounds the nesting of the calls, m is the fuel
  of the functions of Kexpr.
\<close>

section \<open>Places in an expression\<close>

datatype turn = LeftExpr | RightExpr

fun at_path :: "expr \<Rightarrow> turn list \<Rightarrow> expr option" where
  "at_path e [] = Some e"
| "at_path (EAnd a b) (LeftExpr # p) = at_path a p"
| "at_path (EAnd a b) (RightExpr # p) = at_path b p"
| "at_path (EOr a b) (LeftExpr # p) = at_path a p"
| "at_path (EOr a b) (RightExpr # p) = at_path b p"
| "at_path e (t # p) = None"

fun put_at :: "expr \<Rightarrow> turn list \<Rightarrow> expr \<Rightarrow> expr" where
  "put_at e [] x = x"
| "put_at (EAnd a b) (LeftExpr # p) x = EAnd (put_at a p x) b"
| "put_at (EAnd a b) (RightExpr # p) x = EAnd a (put_at b p x)"
| "put_at (EOr a b) (LeftExpr # p) x = EOr (put_at a p x) b"
| "put_at (EOr a b) (RightExpr # p) x = EOr a (put_at b p x)"
| "put_at e (t # p) x = e"

section \<open>Joining operands\<close>

definition join_operands :: "nat \<Rightarrow> symbols \<Rightarrow> expr_type \<Rightarrow> turn list \<Rightarrow> turn list \<Rightarrow> expr \<times> nat \<Rightarrow> (expr \<times> nat) outcome" where
  "join_operands m st ty p1 p2 = (\<lambda>(e, k).
     (case (at_path e p1, at_path e p2) of
        (Some e1, Some e2) \<Rightarrow>
          obind (if ty = E_OR then expr_join_or m st e1 e2 else expr_join_and m st e1 e2) (\<lambda>tmp.
            case tmp of
              None \<Rightarrow> Ret (e, k)
            | Some t \<Rightarrow> Ret (put_at (put_at e p1 (neutral ty)) p2 t, Suc k))
      | _ \<Rightarrow> Fault))"

fun expr_eliminate_dups1 :: "nat \<Rightarrow> nat \<Rightarrow> symbols \<Rightarrow> expr_type \<Rightarrow> turn list \<Rightarrow> turn list \<Rightarrow> expr \<times> nat \<Rightarrow> (expr \<times> nat) outcome" where
  "expr_eliminate_dups1 0 m st ty p1 p2 ek = Timeout"
| "expr_eliminate_dups1 (Suc n) m st ty p1 p2 ek =
     (case (at_path (fst ek) p1, at_path (fst ek) p2) of
        (Some e1, Some e2) \<Rightarrow>
          if parts ty e1 \<noteq> None
          then obind (expr_eliminate_dups1 n m st ty (p1 @ [LeftExpr]) p2 ek) (expr_eliminate_dups1 n m st ty (p1 @ [RightExpr]) p2)
          else if parts ty e2 \<noteq> None
          then obind (expr_eliminate_dups1 n m st ty p1 (p2 @ [LeftExpr]) ek) (expr_eliminate_dups1 n m st ty p1 (p2 @ [RightExpr]))
          else if p1 = p2 then Ret ek
          else obind (if type_of e1 = E_OR \<or> type_of e1 = E_AND then expr_eliminate_dups1 n m st (type_of e1) p1 p1 ek else Ret ek)
                 (join_operands m st ty p1 p2)
      | _ \<Rightarrow> Fault)"

declare expr_eliminate_dups1.simps [simp del]

section \<open>Contradictions\<close>

text \<open>An operand whose negation is a part of another: it is replaced by the constant c, where d is what is
  left of the negation.\<close>

definition drop_operand :: "nat \<Rightarrow> symbols \<Rightarrow> expr_type \<Rightarrow> sym_ref \<Rightarrow> sym_ref \<Rightarrow> turn list \<Rightarrow> turn list \<Rightarrow> expr \<times> nat \<Rightarrow> (expr \<times> nat) outcome" where
  "drop_operand m st ty d c p1 p2 = (\<lambda>(e, k).
     (case (at_path e p1, at_path e p2) of
        (Some e1, Some e2) \<Rightarrow>
          obind (expr_transform m st (ENot (expr_copy e1))) (\<lambda>tmp1.
            obind (expr_extract ty m st tmp1 (expr_copy e2)) (\<lambda>(tmp, tmp1, tmp2).
              Ret (if tmp1 = ESym d then (put_at e p1 (ESym c), Suc k) else (e, k))))
      | _ \<Rightarrow> Fault))"

fun expr_eliminate_dups2 :: "nat \<Rightarrow> nat \<Rightarrow> symbols \<Rightarrow> expr_type \<Rightarrow> turn list \<Rightarrow> turn list \<Rightarrow> expr \<times> nat \<Rightarrow> (expr \<times> nat) outcome" where
  "expr_eliminate_dups2 0 m st ty p1 p2 ek = Timeout"
| "expr_eliminate_dups2 (Suc n) m st ty p1 p2 ek =
     (case (at_path (fst ek) p1, at_path (fst ek) p2) of
        (Some e1, Some e2) \<Rightarrow>
          if parts ty e1 \<noteq> None
          then obind (expr_eliminate_dups2 n m st ty (p1 @ [LeftExpr]) p2 ek) (expr_eliminate_dups2 n m st ty (p1 @ [RightExpr]) p2)
          else obind (if parts ty e2 \<noteq> None
                      then obind (expr_eliminate_dups2 n m st ty p1 (p2 @ [LeftExpr]) ek) (expr_eliminate_dups2 n m st ty p1 (p2 @ [RightExpr]))
                      else Ret ek) (\<lambda>ek.
            if p1 = p2 then Ret ek
            else (case map_option type_of (at_path (fst ek) p1) of
                Some E_OR \<Rightarrow> obind (expr_eliminate_dups2 n m st E_OR p1 p1 ek) (drop_operand m st E_AND symbol_yes symbol_no p1 p2)
              | Some E_AND \<Rightarrow> obind (expr_eliminate_dups2 n m st E_AND p1 p1 ek) (drop_operand m st E_OR symbol_no symbol_yes p1 p2)
              | Some ty \<Rightarrow> Ret ek
              | None \<Rightarrow> Fault))
      | _ \<Rightarrow> Fault)"

declare expr_eliminate_dups2.simps [simp del]

fun dups_loop :: "nat \<Rightarrow> nat \<Rightarrow> nat \<Rightarrow> symbols \<Rightarrow> expr \<Rightarrow> expr outcome" where
  "dups_loop 0 n m st e = Timeout"
| "dups_loop (Suc j) n m st e =
     obind (if type_of e = E_OR \<or> type_of e = E_AND
            then obind (expr_eliminate_dups1 n m st (type_of e) [] [] (e, 0)) (expr_eliminate_dups2 n m st (type_of e) [] [])
            else Ret (e, 0)) (\<lambda>(e, k).
       if k = 0 then Ret e else dups_loop j n m st (expr_eliminate_yn e))"

definition expr_eliminate_dups :: "nat \<Rightarrow> nat \<Rightarrow> nat \<Rightarrow> symbols \<Rightarrow> expr option \<Rightarrow> expr option outcome" where
  "expr_eliminate_dups j n m st e = (case e of None \<Rightarrow> Ret None | Some e \<Rightarrow> obind (dups_loop j n m st e) (\<lambda>e. Ret (Some e)))"

end
