(* ===== verification/Kdups_Props.thy ===== *)
theory Kdups_Props
  imports Kdups Kexpr_Props
begin

text \<open>
  Eliminating duplicates ends, makes no expression larger and keeps the value: in the logic of three
  values as long as no contradiction is looked for, and where no symbol is mod in general.
\<close>

section \<open>Places\<close>

lemma at_path_append: "at_path e (p @ q) = (case at_path e p of None \<Rightarrow> None | Some c \<Rightarrow> at_path c q)"
  by (induction e p rule: at_path.induct) auto

lemma put_at_append: "at_path e p = Some c \<Longrightarrow> put_at e (p @ q) x = put_at e p (put_at c q x)"
  by (induction e p rule: at_path.induct) auto

lemma at_put: "at_path e p = Some c \<Longrightarrow> at_path (put_at e p x) p = Some x"
  by (induction e p rule: at_path.induct) auto

lemma put_put: "at_path e p = Some c \<Longrightarrow> put_at (put_at e p x) p y = put_at e p y"
  by (induction e p rule: at_path.induct) auto

lemma put_same: "at_path e p = Some c \<Longrightarrow> put_at e p c = e"
  by (induction e p rule: at_path.induct) auto

lemma put_value: "at_path e p = Some c \<Longrightarrow> expr_value st x = expr_value st c \<Longrightarrow> expr_value st (put_at e p x) = expr_value st e"
  by (induction e p rule: at_path.induct) auto

lemma put_weight: "at_path e p = Some c \<Longrightarrow> weight (put_at e p x) + weight c = weight e + weight x"
  by (induction e p rule: at_path.induct) auto

text \<open>Eliminating constants makes an expression smaller if it makes a part smaller.\<close>

lemma yn_weight: "weight (yn_and a b) \<le> Suc (weight a + weight b)" "weight (yn_or a b) \<le> Suc (weight a + weight b)"
  by (auto simp: yn_and_def yn_or_def)

lemma eliminate_yn_weight: "weight (expr_eliminate_yn e) \<le> weight e"
proof (induction e)
  case (EAnd a b)
  then show ?case using yn_weight(1) [of "expr_eliminate_yn a" "expr_eliminate_yn b"] by simp
next
  case (EOr a b)
  then show ?case using yn_weight(2) [of "expr_eliminate_yn a" "expr_eliminate_yn b"] by simp
qed auto

definition reducible :: "expr \<Rightarrow> bool" where
  "reducible e \<longleftrightarrow> weight (expr_eliminate_yn e) < weight e"

lemma reducible_part: "reducible a \<or> reducible b \<Longrightarrow> reducible (EAnd a b) \<and> reducible (EOr a b)"
  using yn_weight [of "expr_eliminate_yn a" "expr_eliminate_yn b"] eliminate_yn_weight [of a] eliminate_yn_weight [of b]
  by (auto simp: reducible_def)

lemma reducible_put: "at_path e p = Some c \<Longrightarrow> reducible x \<Longrightarrow> reducible (put_at e p x)"
  by (induction e p rule: at_path.induct) (auto intro: reducible_part [THEN conjunct1] reducible_part [THEN conjunct2])

section \<open>Operands\<close>

text \<open>A place that is reached through operators of one type only.\<close>

fun operand_at :: "expr_type \<Rightarrow> expr \<Rightarrow> turn list \<Rightarrow> bool" where
  "operand_at ty e [] = True"
| "operand_at ty e (LeftExpr # p) = (case parts ty e of Some (a, b) \<Rightarrow> operand_at ty a p | None \<Rightarrow> False)"
| "operand_at ty e (RightExpr # p) = (case parts ty e of Some (a, b) \<Rightarrow> operand_at ty b p | None \<Rightarrow> False)"

abbreviation "joining ty \<equiv> ty \<in> {E_AND, E_OR}"

lemma parts_mk [simp]: "joining ty \<Longrightarrow> parts ty (mk ty a b) = Some (a, b)"
  by (auto simp: mk_def)

lemma parts_mkD: "parts ty e = Some (a, b) \<Longrightarrow> joining ty \<and> e = mk ty a b"
  by (cases "(ty, e)" rule: parts.cases) (auto simp: mk_def)

lemma mk_path [simp]:
  "joining ty \<Longrightarrow> at_path (mk ty a b) (LeftExpr # p) = at_path a p" "joining ty \<Longrightarrow> at_path (mk ty a b) (RightExpr # p) = at_path b p"
  "joining ty \<Longrightarrow> put_at (mk ty a b) (LeftExpr # p) x = mk ty (put_at a p x) b" "joining ty \<Longrightarrow> put_at (mk ty a b) (RightExpr # p) x = mk ty a (put_at b p x)"
  by (auto simp: mk_def)

lemma operand_step:
  assumes "operand_at ty e (t # p)"
  obtains a b where "joining ty" "e = mk ty a b" "t = LeftExpr \<and> operand_at ty a p \<or> t = RightExpr \<and> operand_at ty b p"
proof -
  from assms have "parts ty e \<noteq> None" by (cases t) (auto split: option.splits)
  then obtain a b where p: "parts ty e = Some (a, b)" by auto
  note m = parts_mkD [OF p]
  have "t = LeftExpr \<and> operand_at ty a p \<or> t = RightExpr \<and> operand_at ty b p" using assms p by (cases t) simp_all
  then show thesis using that m by blast
qed

lemma operand_place: "operand_at ty e p \<Longrightarrow> \<exists>x. at_path e p = Some x \<and> length p < weight e"
proof (induction p arbitrary: e)
  case (Cons t p)
  from operand_step [OF Cons.prems] obtain a b where e: "joining ty" "e = mk ty a b"
    "t = LeftExpr \<and> operand_at ty a p \<or> t = RightExpr \<and> operand_at ty b p" .
  from e(3) show ?case
  proof
    assume l: "t = LeftExpr \<and> operand_at ty a p"
    then obtain x where "at_path a p = Some x" "length p < weight a" using Cons.IH by blast
    then show ?thesis using l e(1,2) by simp
  next
    assume l: "t = RightExpr \<and> operand_at ty b p"
    then obtain x where "at_path b p = Some x" "length p < weight b" using Cons.IH by blast
    then show ?thesis using l e(1,2) by simp
  qed
qed simp

lemma operand_append: "joining ty \<Longrightarrow> operand_at ty e p \<Longrightarrow> at_path e p = Some x \<Longrightarrow> operand_at ty e (p @ q) = operand_at ty x q"
proof (induction p arbitrary: e)
  case (Cons t p)
  from operand_step [OF Cons.prems(2)] obtain a b where e: "joining ty" "e = mk ty a b"
    "t = LeftExpr \<and> operand_at ty a p \<or> t = RightExpr \<and> operand_at ty b p" .
  then show ?case using Cons.IH Cons.prems(3) by auto
qed simp

text \<open>The value of an expression as a function of one operand, and of two.\<close>

lemma one_operand:
  "joining ty \<Longrightarrow> operand_at ty e p \<Longrightarrow> \<exists>r. \<forall>x. expr_value st (put_at e p x) = join_values ty (expr_value st x) r"
proof (induction p arbitrary: e)
  case Nil
  then show ?case by (intro exI [of _ "neutral_tri ty"]) simp
next
  case (Cons t p)
  from operand_step [OF Cons.prems(2)] obtain a b where e: "e = mk ty a b"
    "t = LeftExpr \<and> operand_at ty a p \<or> t = RightExpr \<and> operand_at ty b p" .
  from e(2) show ?case
  proof
    assume l: "t = LeftExpr \<and> operand_at ty a p"
    then obtain r where "\<forall>x. expr_value st (put_at a p x) = join_values ty (expr_value st x) r" using Cons.IH Cons.prems(1) by blast
    then show ?thesis using l e(1) Cons.prems(1)
      by (intro exI [of _ "join_values ty r (expr_value st b)"]) (simp add: mk_value join_values_ac)
  next
    assume l: "t = RightExpr \<and> operand_at ty b p"
    then obtain r where "\<forall>x. expr_value st (put_at b p x) = join_values ty (expr_value st x) r" using Cons.IH Cons.prems(1) by blast
    then show ?thesis using l e(1) Cons.prems(1)
      by (intro exI [of _ "join_values ty r (expr_value st a)"]) (simp add: mk_value join_values_ac)
  qed
qed

text \<open>Two different operands that are no operators of the type.\<close>

definition leaf_at :: "expr_type \<Rightarrow> expr \<Rightarrow> turn list \<Rightarrow> bool" where
  "leaf_at ty e p \<longleftrightarrow> operand_at ty e p \<and> (\<forall>x. at_path e p = Some x \<longrightarrow> parts ty x = None)"

lemma leaf_Nil: "joining ty \<Longrightarrow> leaf_at ty (mk ty a b) [] = False"
  by (simp add: leaf_at_def)

lemma leaf_Cons:
  assumes "leaf_at ty e (t # p)"
  obtains a b where "joining ty" "e = mk ty a b" "t = LeftExpr \<and> leaf_at ty a p \<or> t = RightExpr \<and> leaf_at ty b p"
proof -
  from assms have o: "operand_at ty e (t # p)" by (simp add: leaf_at_def)
  from operand_step [OF o] obtain a b where e: "joining ty" "e = mk ty a b"
    "t = LeftExpr \<and> operand_at ty a p \<or> t = RightExpr \<and> operand_at ty b p" .
  then show ?thesis using assms that by (auto simp: leaf_at_def)
qed

lemma two_leaves:
  "leaf_at ty e p \<Longrightarrow> leaf_at ty e q \<Longrightarrow> p \<noteq> q \<Longrightarrow>
   (\<forall>x. at_path (put_at e p x) q = at_path e q) \<and> (\<forall>x y. put_at (put_at e p x) q y = put_at (put_at e q y) p x) \<and>
   (\<forall>x. operand_at ty (put_at e q x) p) \<and>
   (\<exists>r. \<forall>x y. expr_value st (put_at (put_at e p x) q y) = join_values ty (join_values ty (expr_value st x) (expr_value st y)) r)"
proof (induction p arbitrary: e q)
  case Nil
  then obtain t q' where "q = t # q'" by (cases q) auto
  then show ?case using Nil leaf_Cons leaf_Nil by metis
next
  case (Cons t p)
  obtain a b where e: "joining ty" "e = mk ty a b" and p: "t = LeftExpr \<and> leaf_at ty a p \<or> t = RightExpr \<and> leaf_at ty b p"
    using leaf_Cons [OF Cons.prems(1)] by blast
  obtain u q' where q: "q = u # q'" using Cons.prems(2) leaf_Nil [OF e(1)] e(2) by (cases q) auto
  have q': "u = LeftExpr \<and> leaf_at ty a q' \<or> u = RightExpr \<and> leaf_at ty b q'"
    using leaf_Cons [OF Cons.prems(2) [unfolded q]] e by (metis option.inject parts_mk prod.inject)
  have o: "leaf_at ty c s \<Longrightarrow> \<exists>r. \<forall>x. expr_value st (put_at c s x) = join_values ty (expr_value st x) r" for c s
    using one_operand [OF e(1)] by (simp add: leaf_at_def)
  show ?case
  proof (cases "t = u")
    case True
    then have "p \<noteq> q'" using Cons.prems(3) q by simp
    define c where "c = (if t = LeftExpr then a else b)"
    define d where "d = (if t = LeftExpr then b else a)"
    have c: "leaf_at ty c p" "leaf_at ty c q'" using p q' True by (auto simp: c_def)
    note IH = Cons.IH [OF c \<open>p \<noteq> q'\<close>]
    then obtain r where r: "\<forall>x y. expr_value st (put_at (put_at c p x) q' y) = join_values ty (join_values ty (expr_value st x) (expr_value st y)) r" by blast
    have "\<exists>r. \<forall>x y. expr_value st (put_at (put_at e (t # p) x) q y) = join_values ty (join_values ty (expr_value st x) (expr_value st y)) r"
      using r e True by (intro exI [of _ "join_values ty r (expr_value st d)"], cases t) (simp_all add: q mk_value c_def d_def join_values_ac)
    moreover have "(\<forall>x. at_path (put_at e (t # p) x) q = at_path e q) \<and> (\<forall>x y. put_at (put_at e (t # p) x) q y = put_at (put_at e q y) (t # p) x) \<and>
        (\<forall>x. operand_at ty (put_at e q x) (t # p))"
      using IH e True by (cases t) (simp_all add: q c_def)
    ultimately show ?thesis by blast
  next
    case False
    then consider "t = LeftExpr" "u = RightExpr" "leaf_at ty a p" "leaf_at ty b q'" | "t = RightExpr" "u = LeftExpr" "leaf_at ty b p" "leaf_at ty a q'"
      using p q' by (cases t; cases u) auto
    then show ?thesis
    proof cases
      case 1
      obtain r s where "\<forall>x. expr_value st (put_at a p x) = join_values ty (expr_value st x) r" "\<forall>x. expr_value st (put_at b q' x) = join_values ty (expr_value st x) s"
        using o 1(3,4) by metis
      then have "\<exists>r. \<forall>x y. expr_value st (put_at (put_at e (t # p) x) q y) = join_values ty (join_values ty (expr_value st x) (expr_value st y)) r"
        using e 1(1,2) by (intro exI [of _ "join_values ty r s"]) (simp add: q mk_value join_values_ac)
      then show ?thesis using e 1 by (simp add: q leaf_at_def)
    next
      case 2
      obtain r s where "\<forall>x. expr_value st (put_at b p x) = join_values ty (expr_value st x) r" "\<forall>x. expr_value st (put_at a q' x) = join_values ty (expr_value st x) s"
        using o 2(3,4) by metis
      then have "\<exists>r. \<forall>x y. expr_value st (put_at (put_at e (t # p) x) q y) = join_values ty (join_values ty (expr_value st x) (expr_value st y)) r"
        using e 2(1,2) by (intro exI [of _ "join_values ty r s"]) (simp add: q mk_value join_values_ac)
      then show ?thesis using e 2 by (simp add: q leaf_at_def)
    qed
  qed
qed

text \<open>Replacing a leaf keeps the operators around it.\<close>

lemma put_leaf_operands: "leaf_at ty e p \<Longrightarrow> operand_at ty e q \<Longrightarrow> operand_at ty (put_at e p x) q"
proof (induction p arbitrary: e q)
  case Nil
  then have "parts ty e = None" by (simp add: leaf_at_def)
  then have "q = []" using Nil.prems(2) by (cases q) (simp, metis operand_step option.distinct(1) parts_mk)
  then show ?case by simp
next
  case (Cons t p)
  obtain a b where e: "joining ty" "e = mk ty a b" and p: "t = LeftExpr \<and> leaf_at ty a p \<or> t = RightExpr \<and> leaf_at ty b p"
    using leaf_Cons [OF Cons.prems(1)] by blast
  show ?case
  proof (cases q)
    case (Cons u q')
    then show ?thesis using Cons.IH Cons.prems(2) e p by (cases u) auto
  qed simp
qed

lemma leaf_operand: "leaf_at ty e p \<Longrightarrow> operand_at ty e p"
  by (simp add: leaf_at_def)

lemma put_leaf_leaf:
  assumes "leaf_at ty e p" "leaf_at ty e q" "parts ty x = None"
  shows "leaf_at ty (put_at e p x) q"
proof (cases "p = q")
  case True
  have o: "operand_at ty (put_at e p x) p" by (rule put_leaf_operands [OF assms(1) leaf_operand [OF assms(1)]])
  obtain c where "at_path e p = Some c" using operand_place [OF leaf_operand [OF assms(1)]] by blast
  then show ?thesis using o at_put assms(3) True by (auto simp: leaf_at_def)
next
  case False
  have "at_path (put_at e p x) q = at_path e q" using two_leaves [OF assms(1,2) False] by blast
  then show ?thesis using assms put_leaf_operands [OF assms(1) leaf_operand [OF assms(2)]] by (simp add: leaf_at_def)
qed

text \<open>A constant among the operands can be eliminated.\<close>

lemma constant_reducible:
  assumes "joining ty" "s \<in> {symbol_yes, symbol_no}"
  shows "operand_at ty e p \<Longrightarrow> p \<noteq> [] \<Longrightarrow> reducible (put_at e p (ESym s))"
proof (induction p arbitrary: e)
  case (Cons t p)
  from operand_step [OF Cons.prems(1)] obtain a b where e: "e = mk ty a b"
    "t = LeftExpr \<and> operand_at ty a p \<or> t = RightExpr \<and> operand_at ty b p" .
  have r: "reducible x \<or> reducible y \<Longrightarrow> reducible (mk ty x y)" for x y using reducible_part by (simp add: mk_def)
  have c: "reducible (mk ty (ESym s) y) \<and> reducible (mk ty y (ESym s))" for y
    using assms eliminate_yn_weight [of y] weight_pos [of y] by (auto simp: reducible_def mk_def yn_and_def yn_or_def)
  show ?case
  proof (cases "p = []")
    case True
    then show ?thesis using e assms(1) c by (cases t) auto
  next
    case False
    then show ?thesis using e assms(1) r Cons.IH by (cases t) auto
  qed
qed simp

section \<open>No symbol is mod\<close>

primrec no_mod :: "symbols \<Rightarrow> expr \<Rightarrow> bool" where
  "no_mod st (ESym s) = (curr_tri st s \<noteq> tri_mod)"
| "no_mod st (ENot a) = no_mod st a"
| "no_mod st (EAnd a b) = (no_mod st a \<and> no_mod st b)"
| "no_mod st (EOr a b) = (no_mod st a \<and> no_mod st b)"
| "no_mod st (EEqual s t) = True"
| "no_mod st (EUnequal s t) = True"

lemma no_mod_value: "no_mod st e \<Longrightarrow> expr_value st e \<noteq> tri_mod"
  by (induction e) (auto simp: values_simps E_NOT_mod min_def max_def)

lemma no_mod_put: "at_path e p = Some c \<Longrightarrow> no_mod st e \<Longrightarrow> no_mod st c \<and> (no_mod st x \<longrightarrow> no_mod st (put_at e p x))"
  by (induction e p rule: at_path.induct) auto

lemma no_mod_constant: "symbols_ok st \<Longrightarrow> s \<in> {symbol_yes, symbol_no} \<Longrightarrow> no_mod st (ESym s)"
  by (auto simp: symbols_okD)

lemma no_mod_yn: "no_mod st e \<Longrightarrow> no_mod st (expr_eliminate_yn e)"
  by (induction e) (auto simp: yn_and_def yn_or_def)

text \<open>What the joins give.\<close>

lemma join_or_no_mod: "symbols_ok st \<Longrightarrow> join_or st s a b = Some t \<Longrightarrow> no_mod st t \<and> weight t = 1 \<and> parts ty t = None"
  by (auto simp: join_or_def symbols_okD split: if_splits intro: parts.simps)

lemma join_and_no_mod:
  assumes "symbols_ok st" "joined_symbol st a b = Some s" "join_and st s a b = Some t" "no_mod st a" "no_mod st b"
  shows "no_mod st t"
proof -
  have "symbol_and_unequal a b symbol_no \<Longrightarrow> curr_tri st s \<noteq> tri_mod"
    using assms(2,4,5) by (cases "(a, b, symbol_no)" rule: symbol_and_unequal.cases) (auto simp: joined_symbol_def split: if_splits)
  then show ?thesis using assms(1,3) by (auto simp: join_and_def join_unequal_def symbols_okD split: if_splits option.splits)
qed

lemma join_and_single: "join_and st s a b = Some t \<Longrightarrow> weight t = 1 \<and> parts ty t = None"
  by (auto simp: join_and_def join_unequal_def split: if_splits option.splits)

lemma join_result:
  assumes ok: "symbols_ok st" and ty: "joining ty" and f: "3 * (weight a + weight b) + 1 \<le> m" and p: "parts ty a = None"
  shows "\<exists>r. (if ty = E_OR then expr_join_or m st a b else expr_join_and m st a b) = Ret r \<and>
    (\<forall>t. r = Some t \<longrightarrow> expr_value st t = join_values ty (expr_value st a) (expr_value st b) \<and> weight t < weight a + weight b \<and>
       parts ty t = None \<and> (no_mod st a \<and> no_mod st b \<longrightarrow> no_mod st t))"
proof -
  obtain q where q: "expr_eq m st a b = Ret q" using expr_eq_outcome [OF f] .
  show ?thesis
  proof (cases q)
    case True
    then have "expr_value st a = expr_value st b" using eq_sound [OF ok, of m] q by auto
    then show ?thesis using q True p weight_pos [of b] ty by (auto simp: expr_join_or_def expr_join_and_def join_values_def values_simps)
  next
    case False
    show ?thesis
    proof (cases "joined_symbol st a b")
      case None
      then show ?thesis using q False by (simp add: expr_join_or_def expr_join_and_def)
    next
      case (Some s)
      have w: "1 < weight a + weight b" using weight_pos [of a] weight_pos [of b] by linarith
      show ?thesis
        using q False Some join_or_value [OF ok Some] join_and_value [OF ok Some] join_or_no_mod [OF ok, of s a b _ ty] join_and_no_mod [OF ok Some]
          join_and_single [of st s a b _ ty] w ty
        by (auto simp: expr_join_or_def expr_join_and_def join_values_def values_simps)
    qed
  qed
qed

section \<open>What every step keeps\<close>

text \<open>A step replaces the expression c by c'; k and k' count the replacements.  The value is kept, always or
  where no symbol is mod; the operators of the type stay; and what was replaced can be eliminated.\<close>

definition kept :: "bool \<Rightarrow> symbols \<Rightarrow> expr_type \<Rightarrow> expr \<Rightarrow> nat \<Rightarrow> expr \<Rightarrow> nat \<Rightarrow> bool" where
  "kept always st ty c k c' k' \<longleftrightarrow>
     (always \<or> no_mod st c \<longrightarrow> expr_value st c' = expr_value st c) \<and> weight c' \<le> weight c \<and> (no_mod st c \<longrightarrow> no_mod st c') \<and>
     (parts ty c \<noteq> None \<longrightarrow> parts ty c' \<noteq> None) \<and>
     (\<forall>p. operand_at ty c p \<longrightarrow> operand_at ty c' p) \<and> (\<forall>p. leaf_at ty c p \<longrightarrow> leaf_at ty c' p) \<and>
     (k' = k \<and> c' = c \<or> k < k' \<and> reducible c')"

lemma kept_refl: "kept always st ty c k c k"
  by (simp add: kept_def)

lemma kept_trans: "kept always st ty c k c1 k1 \<Longrightarrow> kept always st ty c1 k1 c2 k2 \<Longrightarrow> kept always st ty c k c2 k2"
  unfolding kept_def by (elim conjE) (intro conjI; auto)

lemma kept_weaken: "kept True st ty c k c' k' \<Longrightarrow> kept always st ty c k c' k'"
  unfolding kept_def by simp

definition keeps :: "bool \<Rightarrow> symbols \<Rightarrow> expr_type \<Rightarrow> expr \<Rightarrow> turn list \<Rightarrow> expr \<Rightarrow> nat \<Rightarrow> (expr \<times> nat) outcome \<Rightarrow> bool" where
  "keeps always st ty e q c k r \<longleftrightarrow> (\<exists>c' k'. r = Ret (put_at e q c', k') \<and> kept always st ty c k c' k')"

lemma keeps_refl: "at_path e q = Some c \<Longrightarrow> keeps always st ty e q c k (Ret (e, k))"
  unfolding keeps_def using put_same [of e q c] kept_refl by metis

lemma keepsI: "kept always st ty c k c' k' \<Longrightarrow> keeps always st ty e q c k (Ret (put_at e q c', k'))"
  unfolding keeps_def by blast

lemma keeps_obind:
  assumes "keeps always st ty e q c k r" "at_path e q = Some c"
    "\<And>c' k'. kept always st ty c k c' k' \<Longrightarrow> keeps always st ty (put_at e q c') q c' k' (f (put_at e q c', k'))"
  shows "keeps always st ty e q c k (obind r f)"
proof -
  obtain c1 k1 where 1: "r = Ret (put_at e q c1, k1)" "kept always st ty c k c1 k1" using assms(1) by (auto simp: keeps_def)
  obtain c2 k2 where 2: "f (put_at e q c1, k1) = Ret (put_at (put_at e q c1) q c2, k2)" "kept always st ty c1 k1 c2 k2"
    using assms(3) [OF 1(2)] by (auto simp: keeps_def)
  show ?thesis unfolding keeps_def using 1(1) 2(1) kept_trans [OF 1(2) 2(2)] put_put [OF assms(2)] by auto
qed

text \<open>A step in one operand, of the other type, is a step of the whole.\<close>

lemma put_parts: "p \<noteq> [] \<Longrightarrow> operand_at ty c p \<Longrightarrow> parts ty (put_at c p x) \<noteq> None"
  by (cases p) (simp, metis list.discI operand_step put_leaf_operands mk_path(3,4) option.distinct(1) parts_mk)

lemma leaf_not_root: "leaf_at ty c p \<Longrightarrow> parts ty c \<noteq> None \<Longrightarrow> p \<noteq> []"
  by (auto simp: leaf_at_def)

lemma kept_put:
  assumes "kept always st ty' x k x' k'" and p: "leaf_at ty c p" "at_path c p = Some x" "p \<noteq> []"
    and ty: "joining ty" "parts ty' x \<noteq> None" "ty \<noteq> ty'"
  shows "kept always st ty c k (put_at c p x') k'"
proof -
  note h = assms(1) [unfolded kept_def]
  have n: "parts ty x' = None"
  proof -
    from h ty(2) obtain a b where "parts ty' x' = Some (a, b)" by auto
    then show ?thesis using parts_mkD [of ty' x' a b] ty(1,3) by (auto simp: mk_def)
  qed
  have v: "always \<or> no_mod st c \<longrightarrow> expr_value st (put_at c p x') = expr_value st c"
    using h no_mod_put [OF p(2)] put_value [OF p(2)] by blast
  have w: "weight (put_at c p x') \<le> weight c" using h put_weight [OF p(2), of x'] by linarith
  have m: "no_mod st c \<longrightarrow> no_mod st (put_at c p x')" using h no_mod_put [OF p(2)] by blast
  have o: "\<forall>q. operand_at ty c q \<longrightarrow> operand_at ty (put_at c p x') q" using put_leaf_operands [OF p(1)] by blast
  have l: "\<forall>q. leaf_at ty c q \<longrightarrow> leaf_at ty (put_at c p x') q" using put_leaf_leaf [OF p(1) _ n] by blast
  have r: "k' = k \<and> put_at c p x' = c \<or> k < k' \<and> reducible (put_at c p x')"
    using h put_same [OF p(2)] reducible_put [OF p(2)] by blast
  show ?thesis unfolding kept_def using v w m o l r put_parts [OF p(3) leaf_operand [OF p(1)]] by blast
qed

section \<open>Joining the operands\<close>

lemma join_step:
  assumes ok: "symbols_ok st" and ty: "joining ty" and e: "at_path e q = Some c"
    and l: "leaf_at ty c p1" "leaf_at ty c p2" "p1 \<noteq> p2" and f: "6 * weight c + 1 \<le> m"
  shows "keeps True st ty e q c k (join_operands m st ty (q @ p1) (q @ p2) (e, k))"
proof -
  obtain x1 x2 where x: "at_path c p1 = Some x1" "at_path c p2 = Some x2" using operand_place leaf_operand l by metis
  have place: "at_path e (q @ p1) = Some x1" "at_path e (q @ p2) = Some x2" using e x by (simp_all add: at_path_append)
  note two = two_leaves [OF l]
  have at2: "\<And>x. at_path (put_at c p1 x) p2 = Some x2" using two x(2) by simp
  have w: "weight x1 \<le> weight c" "weight x2 \<le> weight c"
    using put_weight [OF x(1), of "ESym symbol_no"] put_weight [OF x(2), of "ESym symbol_no"] weight_pos(2) [of "put_at c p1 (ESym symbol_no)"]
      weight_pos(2) [of "put_at c p2 (ESym symbol_no)"] by simp_all
  have w2: "3 * (weight x1 + weight x2) \<le> 6 * weight c" using w by simp
  have n1: "p1 \<noteq> []" using l leaf_not_root [OF l(1)] by (cases p2) (auto simp: leaf_at_def elim: operand_step)
  have pn: "parts ty x1 = None" using l(1) x(1) by (simp add: leaf_at_def)
  have f': "3 * (weight x1 + weight x2) + 1 \<le> m" by (rule order_trans [OF add_right_mono [OF w2] f])
  obtain r where r: "(if ty = E_OR then expr_join_or m st x1 x2 else expr_join_and m st x1 x2) = Ret r"
    and rt: "\<forall>t. r = Some t \<longrightarrow> expr_value st t = join_values ty (expr_value st x1) (expr_value st x2) \<and> weight t < weight x1 + weight x2 \<and>
       parts ty t = None \<and> (no_mod st x1 \<and> no_mod st x2 \<longrightarrow> no_mod st t)"
    using join_result [OF ok ty f' pn] by blast
  show ?thesis
  proof (cases r)
    case None
    then show ?thesis using place r keeps_refl [OF e] by (simp add: join_operands_def)
  next
    case (Some t)
    let ?c1 = "put_at c p1 (neutral ty)" and ?c' = "put_at (put_at c p1 (neutral ty)) p2 t"
    have t: "expr_value st t = join_values ty (expr_value st x1) (expr_value st x2)" "weight t < weight x1 + weight x2" "parts ty t = None"
      "no_mod st x1 \<and> no_mod st x2 \<longrightarrow> no_mod st t" using rt Some by blast+
    have nt: "parts ty (neutral ty) = None" "weight (neutral ty) = 1" "no_mod st (neutral ty)"
      using ty no_mod_constant [OF ok] by (auto simp: neutral_def simp del: no_mod.simps)
    obtain s where v: "\<forall>x y. expr_value st (put_at (put_at c p1 x) p2 y) = join_values ty (join_values ty (expr_value st x) (expr_value st y)) s"
      using two by blast
    have "expr_value st c = expr_value st (put_at (put_at c p1 x1) p2 x2)" using put_same x by metis
    then have val: "expr_value st ?c' = expr_value st c" using v t(1) neutral_value [OF ok, of ty] by simp
    have wt: "weight ?c' \<le> weight c"
      using put_weight [OF x(1), of "neutral ty"] put_weight [OF at2 [of "neutral ty"], of t] t(2) nt(2) by linarith
    have nm: "no_mod st c \<longrightarrow> no_mod st ?c'"
      using no_mod_put [OF x(1), of st "neutral ty"] no_mod_put [OF x(2), of st] no_mod_put [OF at2 [of "neutral ty"], of st t] nt(3) t(4) by blast
    have l1: "leaf_at ty ?c1 p1" "leaf_at ty ?c1 p2" using put_leaf_leaf [OF l(1) _ nt(1)] l by blast+
    have o: "\<forall>p. operand_at ty c p \<longrightarrow> operand_at ty ?c' p" using put_leaf_operands l(1) l1(2) by blast
    have lf: "\<forall>p. leaf_at ty c p \<longrightarrow> leaf_at ty ?c' p" using put_leaf_leaf [OF l(1) _ nt(1)] put_leaf_leaf [OF l1(2) _ t(3)] by blast
    have "?c' = put_at (put_at c p2 t) p1 (neutral ty)" using two by blast
    then have red: "reducible ?c'"
      using constant_reducible [OF ty, of "if ty = E_AND then symbol_yes else symbol_no" "put_at c p2 t" p1] two n1 by (auto simp: neutral_def)
    have "parts ty ?c' \<noteq> None" using put_parts [OF n1 leaf_operand [OF l(1)], of "neutral ty"] o leaf_operand [OF l(1)] n1
      by (cases p1) (simp, metis list.discI operand_step option.distinct(1) parts_mk)
    then have "kept True st ty c k ?c' (Suc k)" unfolding kept_def using val wt nm o lf red by auto
    moreover have "put_at (put_at e (q @ p1) (neutral ty)) (q @ p2) t = put_at e q ?c'"
      using put_at_append [OF e] put_at_append [OF at_put [OF e]] put_put [OF e] by metis
    ultimately show ?thesis using place r Some keepsI by (simp add: join_operands_def)
  qed
qed

lemma keeps_put:
  assumes "keeps always st ty' e (q @ p) x k r" "at_path e q = Some c" "leaf_at ty c p" "at_path c p = Some x" "p \<noteq> []"
    and "joining ty" "parts ty' x \<noteq> None" "ty \<noteq> ty'"
  shows "keeps always st ty e q c k r"
proof -
  obtain x' k' where r: "r = Ret (put_at e (q @ p) x', k')" and k: "kept always st ty' x k x' k'" using assms(1) by (auto simp: keeps_def)
  show ?thesis unfolding r put_at_append [OF assms(2)] by (rule keepsI [OF kept_put [OF k assms(3-8)]])
qed

lemma part_weight: "at_path c p = Some x \<Longrightarrow> weight x \<le> weight c \<and> (p \<noteq> [] \<longrightarrow> weight x < weight c)"
  by (induction c p rule: at_path.induct) auto

lemma operator_parts: "joining (type_of x) \<Longrightarrow> parts (type_of x) x \<noteq> None"
  by (cases x) auto

lemma two_leaves_proper: "leaf_at ty c p1 \<Longrightarrow> leaf_at ty c p2 \<Longrightarrow> p1 \<noteq> p2 \<Longrightarrow> p1 \<noteq> []"
  by (cases p2) (auto simp: leaf_at_def elim: operand_step)

text \<open>The calls that step down in the same tree of operators, and those that start at one of its leaves, need
  less fuel.\<close>

definition walk_fuel :: "nat \<Rightarrow> nat \<Rightarrow> nat" where
  "walk_fuel w l = w * w + w + (2 * w - l)"

lemma walk_fuel_down: "l < 2 * w \<Longrightarrow> walk_fuel w l < Suc n \<Longrightarrow> walk_fuel w (Suc l) < n"
  by (simp add: walk_fuel_def)

lemma walk_fuel_leaf: "v < w \<Longrightarrow> walk_fuel w l < Suc n \<Longrightarrow> walk_fuel v 0 < n"
proof -
  assume a: "v < w" "walk_fuel w l < Suc n"
  have "Suc v * Suc v + Suc v \<le> w * w + w" using a(1) by (intro add_mono mult_le_mono) auto
  then show ?thesis using a(2) by (simp add: walk_fuel_def)
qed

lemma kept_operand: "kept always st ty c k c' k' \<Longrightarrow> operand_at ty c p \<Longrightarrow> operand_at ty c' p"
  and kept_leaf: "kept always st ty c k c' k' \<Longrightarrow> leaf_at ty c p \<Longrightarrow> leaf_at ty c' p"
  and kept_weight: "kept always st ty c k c' k' \<Longrightarrow> weight c \<le> w \<Longrightarrow> weight c' \<le> w"
  by (auto simp: kept_def)

text \<open>The operands of an operand.\<close>

lemma operand_parts:
  assumes "joining ty" "operand_at ty c p" "at_path c p = Some x" "parts ty x \<noteq> None"
  shows "operand_at ty c (p @ [LeftExpr]) \<and> operand_at ty c (p @ [RightExpr])"
  using operand_append [OF assms(1-3)] assms(4) by (auto split: option.splits)

lemma operand_lengths:
  assumes "operand_at ty c p1" "operand_at ty c p2" "weight c \<le> w"
  shows "length p1 + length p2 < 2 * w"
proof -
  have "length p1 < weight c" "length p2 < weight c" using operand_place assms(1,2) by blast+
  then show ?thesis using assms(3) by linarith
qed

lemma dups1_keeps:
  assumes ok: "symbols_ok st"
  shows "joining ty \<Longrightarrow> at_path e q = Some c \<Longrightarrow> operand_at ty c p1 \<Longrightarrow> operand_at ty c p2 \<Longrightarrow> weight c \<le> w \<Longrightarrow> 6 * w + 1 \<le> m \<Longrightarrow>
    walk_fuel w (length p1 + length p2) < n \<Longrightarrow> keeps True st ty e q c k (expr_eliminate_dups1 n m st ty (q @ p1) (q @ p2) (e, k))"
proof (induction n arbitrary: ty e q c p1 p2 w k)
  case (Suc n)
  note ty = Suc.prems(1) and e = Suc.prems(2) and o1 = Suc.prems(3) and o2 = Suc.prems(4) and w = Suc.prems(5) and f = Suc.prems(6)
  have f1: "walk_fuel w (Suc (length p1 + length p2)) < n"
    by (rule walk_fuel_down [OF operand_lengths [OF o1 o2 w] Suc.prems(7)])
  obtain x1 x2 where x: "at_path c p1 = Some x1" "at_path c p2 = Some x2" using operand_place o1 o2 by metis
  have place: "at_path e (q @ p1) = Some x1" "at_path e (q @ p2) = Some x2" using e x by (simp_all add: at_path_append)
  show ?case
  proof (cases "parts ty x1 = None")
    case False
    have o: "operand_at ty c (p1 @ [LeftExpr])" "operand_at ty c (p1 @ [RightExpr])" using operand_parts [OF ty o1 x(1) False] by auto
    have "keeps True st ty e q c k (obind (expr_eliminate_dups1 n m st ty (q @ (p1 @ [LeftExpr])) (q @ p2) (e, k))
        (expr_eliminate_dups1 n m st ty (q @ (p1 @ [RightExpr])) (q @ p2)))"
    proof (rule keeps_obind [OF _ e])
      show "keeps True st ty e q c k (expr_eliminate_dups1 n m st ty (q @ (p1 @ [LeftExpr])) (q @ p2) (e, k))"
        by (rule Suc.IH [OF ty e o(1) o2 w f]) (use f1 in simp)
      fix c' k' assume k: "kept True st ty c k c' k'"
      show "keeps True st ty (put_at e q c') q c' k' (expr_eliminate_dups1 n m st ty (q @ (p1 @ [RightExpr])) (q @ p2) (put_at e q c', k'))"
        by (rule Suc.IH [OF ty at_put [OF e] kept_operand [OF k o(2)] kept_operand [OF k o2] kept_weight [OF k w] f]) (use f1 in simp)
    qed
    then show ?thesis using place False by (simp add: expr_eliminate_dups1.simps)
  next
    case N1: True
    show ?thesis
    proof (cases "parts ty x2 = None")
      case False
      have o: "operand_at ty c (p2 @ [LeftExpr])" "operand_at ty c (p2 @ [RightExpr])" using operand_parts [OF ty o2 x(2) False] by auto
      have "keeps True st ty e q c k (obind (expr_eliminate_dups1 n m st ty (q @ p1) (q @ (p2 @ [LeftExpr])) (e, k))
          (expr_eliminate_dups1 n m st ty (q @ p1) (q @ (p2 @ [RightExpr]))))"
      proof (rule keeps_obind [OF _ e])
        show "keeps True st ty e q c k (expr_eliminate_dups1 n m st ty (q @ p1) (q @ (p2 @ [LeftExpr])) (e, k))"
          by (rule Suc.IH [OF ty e o1 o(1) w f]) (use f1 in simp)
        fix c' k' assume k: "kept True st ty c k c' k'"
        show "keeps True st ty (put_at e q c') q c' k' (expr_eliminate_dups1 n m st ty (q @ p1) (q @ (p2 @ [RightExpr])) (put_at e q c', k'))"
          by (rule Suc.IH [OF ty at_put [OF e] kept_operand [OF k o1] kept_operand [OF k o(2)] kept_weight [OF k w] f]) (use f1 in simp)
      qed
      then show ?thesis using place N1 False by (simp add: expr_eliminate_dups1.simps)
    next
      case N2: True
      show ?thesis
      proof (cases "p1 = p2")
        case True
        then show ?thesis using place N1 N2 keeps_refl [OF e] by (simp add: expr_eliminate_dups1.simps)
      next
        case d: False
        have l: "leaf_at ty c p1" "leaf_at ty c p2" using o1 o2 x N1 N2 by (simp_all add: leaf_at_def)
        have p: "p1 \<noteq> []" by (rule two_leaves_proper [OF l d])
        have in1: "keeps True st ty e q c k
            (if type_of x1 = E_OR \<or> type_of x1 = E_AND then expr_eliminate_dups1 n m st (type_of x1) (q @ p1) (q @ p1) (e, k) else Ret (e, k))"
        proof (cases "joining (type_of x1)")
          case True
          have ne: "ty \<noteq> type_of x1" using N1 operator_parts [OF True] by metis
          have "weight x1 < w" using part_weight [OF x(1)] p w by simp
          then have "keeps True st (type_of x1) e (q @ p1) x1 k (expr_eliminate_dups1 n m st (type_of x1) ((q @ p1) @ []) ((q @ p1) @ []) (e, k))"
            using walk_fuel_leaf [OF _ Suc.prems(7), of "weight x1"] f by (intro Suc.IH [OF True place(1), where w = "weight x1"]) auto
          then have "keeps True st ty e q c k (expr_eliminate_dups1 n m st (type_of x1) (q @ p1) (q @ p1) (e, k))"
            using keeps_put [OF _ e l(1) x(1) p ty operator_parts [OF True] ne] by simp
          then show ?thesis using True by auto
        next
          case False
          then show ?thesis using keeps_refl [OF e] by auto
        qed
        have "keeps True st ty e q c k (obind
            (if type_of x1 = E_OR \<or> type_of x1 = E_AND then expr_eliminate_dups1 n m st (type_of x1) (q @ p1) (q @ p1) (e, k) else Ret (e, k))
            (join_operands m st ty (q @ p1) (q @ p2)))"
        proof (rule keeps_obind [OF in1 e])
          fix c' k' assume k: "kept True st ty c k c' k'"
          have "6 * weight c' + 1 \<le> m" using kept_weight [OF k w] f by linarith
          then show "keeps True st ty (put_at e q c') q c' k' (join_operands m st ty (q @ p1) (q @ p2) (put_at e q c', k'))"
            by (rule join_step [OF ok ty at_put [OF e] kept_leaf [OF k l(1)] kept_leaf [OF k l(2)] d])
        qed
        then show ?thesis using place N1 N2 d by (simp add: expr_eliminate_dups1.simps)
      qed
    qed
  qed
qed simp

section \<open>Contradictions\<close>

text \<open>The normal form of a negation is at most three times as large as what is negated.\<close>

primrec leaves :: "expr \<Rightarrow> nat" where
  "leaves (ESym s) = 1"
| "leaves (ENot a) = leaves a"
| "leaves (EAnd a b) = leaves a + leaves b"
| "leaves (EOr a b) = leaves a + leaves b"
| "leaves (EEqual s t) = 1"
| "leaves (EUnequal s t) = 1"

lemma leaves_weight: "leaves e \<le> weight e" "1 \<le> leaves e"
  by (induction e) auto

lemma leaves_negate: "leaves (negate e) = leaves e"
  by (induction e) (auto split: sym_ref.splits)

lemma leaves_norm: "leaves (norm st e) = leaves e"
  by (induction e) (auto simp: leaves_negate transform_equal_def transform_unequal_def)

lemma normal_weight: "normal st e \<Longrightarrow> Suc (weight e) \<le> 3 * leaves e"
proof (induction e)
  case (EAnd a b)
  then show ?case by simp
next
  case (EOr a b)
  then show ?case by simp
qed auto

lemma norm_not_weight: "symbols_ok st \<Longrightarrow> weight (norm st (ENot e)) \<le> 3 * weight e"
proof -
  assume "symbols_ok st"
  then have "Suc (weight (norm st (ENot e))) \<le> 3 * leaves (norm st (ENot e))" using normal_norm normal_weight by blast
  also have "\<dots> = 3 * leaves e" unfolding leaves_norm by simp
  finally show ?thesis using leaves_weight(1) [of e] by simp
qed

lemma depth_weight: "depth e \<le> weight e"
  by (induction e) auto

lemma join_not: "joining ty \<Longrightarrow> a \<noteq> tri_mod \<Longrightarrow> join_values ty (join_values ty a (E_NOT_val a)) b = (if ty = E_AND then tri_no else tri_yes)"
  by (cases a; cases b) (auto simp: join_values_def min_def max_def less_eq_tristate_def)

lemma join_idem: "join_values ty a (join_values ty a b) = join_values ty a b"
  by (auto simp: join_values_def)

text \<open>An operand whose negation is among the operands.\<close>

lemma contradiction_value:
  assumes ty: "joining ty" and o: "operand_at ty c p1" "operand_at ty c p2" and x: "at_path c p1 = Some x1" "at_path c p2 = Some x2"
    and v: "expr_value st x2 = join_values ty (E_NOT_val (expr_value st x1)) z" "expr_value st x1 \<noteq> tri_mod"
  shows "expr_value st c = (if ty = E_AND then tri_no else tri_yes)"
proof -
  obtain r s where "expr_value st c = join_values ty (expr_value st x1) r" "expr_value st c = join_values ty (expr_value st x2) s"
    using one_operand [OF ty o(1), of st] one_operand [OF ty o(2), of st] put_same x by metis
  then have "expr_value st c = join_values ty (expr_value st x1) (expr_value st c)"
    "expr_value st c = join_values ty (E_NOT_val (expr_value st x1)) (expr_value st c)"
    unfolding v(1) by (metis join_idem, metis join_idem join_values_ac(1))
  then have "expr_value st c = join_values ty (join_values ty (expr_value st x1) (E_NOT_val (expr_value st x1))) (expr_value st c)"
    by (metis join_values_ac(1))
  then show ?thesis using join_not [OF ty v(2)] by simp
qed

definition absorbing :: "expr_type \<Rightarrow> sym_ref" where
  "absorbing ty = (if ty = E_AND then symbol_no else symbol_yes)"

lemma drop_step:
  assumes ok: "symbols_ok st" and ty: "joining ty" and e: "at_path e q = Some c"
    and l: "leaf_at ty c p1" "operand_at ty c p2" "p1 \<noteq> []" and f: "12 * weight c + 2 \<le> m" and d: "ESym d = neutral ty"
  shows "keeps False st ty e q c k (drop_operand m st ty d (absorbing ty) (q @ p1) (q @ p2) (e, k))"
proof -
  obtain x1 x2 where x: "at_path c p1 = Some x1" "at_path c p2 = Some x2" using operand_place leaf_operand l by metis
  have place: "at_path e (q @ p1) = Some x1" "at_path e (q @ p2) = Some x2" using e x by (simp_all add: at_path_append)
  have w: "weight x1 \<le> weight c" "weight x2 \<le> weight c" using part_weight x by blast+
  have t: "expr_transform m st (ENot x1) = Ret (norm st (ENot x1))"
    using depth_weight [of x1] weight_pos(2) [of x1] w(1) f by (intro transform_norm [OF ok]) simp
  have "3 * (weight (norm st (ENot x1)) + weight x2) + 2 \<le> 12 * weight c + 2"
    using norm_not_weight [OF ok, of x1] w by simp
  then have f2: "3 * (weight (norm st (ENot x1)) + weight x2) + 2 \<le> m" using f by linarith
  have ty': "ty = E_AND \<or> ty = E_OR" using ty by auto
  obtain ep a b where r: "expr_extract ty m st (norm st (ENot x1)) x2 = Ret (ep, a, b)"
    and v: "expr_value st (norm st (ENot x1)) = join_values ty (option_value st ty ep) (expr_value st a)"
      "expr_value st x2 = join_values ty (option_value st ty ep) (expr_value st b)"
    using extracted_parts_are_common [OF ok ty' f2] by blast
  show ?thesis
  proof (cases "a = ESym d")
    case False
    then show ?thesis using place t r keeps_refl [OF e] by (simp add: drop_operand_def expr_copy_id)
  next
    case True
    let ?c' = "put_at c p1 (ESym (absorbing ty))"
    have pn: "parts ty (ESym (absorbing ty)) = None" by simp
    have nm: "no_mod st (ESym (absorbing ty))" using no_mod_constant [OF ok, of "absorbing ty"] by (simp add: absorbing_def)
    have z: "option_value st ty ep = E_NOT_val (expr_value st x1)"
      using v(1) True d neutral_value [OF ok, of ty] norm_value [OF ok, of "ENot x1"] join_values_ac(2) by (metis expr_value.simps(4))
    have val: "expr_value st ?c' = expr_value st c" if "no_mod st c"
    proof -
      have "expr_value st x1 \<noteq> tri_mod" using no_mod_put [OF x(1) that] no_mod_value by blast
      then have c: "expr_value st c = (if ty = E_AND then tri_no else tri_yes)"
        using contradiction_value [OF ty leaf_operand [OF l(1)] l(2) x] v(2) z by metis
      obtain s where "expr_value st ?c' = join_values ty (expr_value st (ESym (absorbing ty))) s"
        using one_operand [OF ty leaf_operand [OF l(1)], of st] by blast
      then show ?thesis using c ok by (cases s) (auto simp: absorbing_def symbols_okD join_values_def min_def max_def less_eq_tristate_def)
    qed
    have "kept False st ty c k ?c' (Suc k)" unfolding kept_def
    proof (intro conjI impI allI)
      show "weight ?c' \<le> weight c" using put_weight [OF x(1), of "ESym (absorbing ty)"] weight_pos(2) [of x1] by simp
      show "no_mod st ?c'" if "no_mod st c" using no_mod_put [OF x(1) that] nm by blast
      show "parts ty ?c' \<noteq> None" by (rule put_parts [OF l(3) leaf_operand [OF l(1)]])
      show "operand_at ty ?c' p" if "operand_at ty c p" for p by (rule put_leaf_operands [OF l(1) that])
      show "leaf_at ty ?c' p" if "leaf_at ty c p" for p by (rule put_leaf_leaf [OF l(1) that pn])
      show "Suc k = k \<and> ?c' = c \<or> k < Suc k \<and> reducible ?c'"
        using constant_reducible [OF ty _ leaf_operand [OF l(1)] l(3), of "absorbing ty"] by (simp add: absorbing_def)
    qed (use val in simp)
    then show ?thesis using place t r True keepsI put_at_append [OF e] by (simp add: drop_operand_def expr_copy_id)
  qed
qed

lemma operand_not_root: "leaf_at ty c p1 \<Longrightarrow> operand_at ty c p2 \<Longrightarrow> p1 \<noteq> p2 \<Longrightarrow> p1 \<noteq> []"
  by (cases p2) (auto simp: leaf_at_def elim: operand_step)

text \<open>The switch at the end, on the operand at p1.\<close>

lemma dups2_switch:
  assumes ok: "symbols_ok st" and ty: "joining ty" and e: "at_path e q = Some c"
    and l: "leaf_at ty c p1" "operand_at ty c p2" "p1 \<noteq> []" and w: "weight c \<le> w" and f: "12 * w + 2 \<le> m"
    and inner: "\<And>ty e q c k. joining ty \<Longrightarrow> at_path e q = Some c \<Longrightarrow> weight c < w \<Longrightarrow> keeps False st ty e q c k (expr_eliminate_dups2 n m st ty q q (e, k))"
  shows "keeps False st ty e q c k (case map_option type_of (at_path e (q @ p1)) of
      Some E_OR \<Rightarrow> obind (expr_eliminate_dups2 n m st E_OR (q @ p1) (q @ p1) (e, k)) (drop_operand m st E_AND symbol_yes symbol_no (q @ p1) (q @ p2))
    | Some E_AND \<Rightarrow> obind (expr_eliminate_dups2 n m st E_AND (q @ p1) (q @ p1) (e, k)) (drop_operand m st E_OR symbol_no symbol_yes (q @ p1) (q @ p2))
    | Some ty \<Rightarrow> Ret (e, k) | None \<Rightarrow> Fault)"
proof -
  obtain x where x: "at_path c p1 = Some x" using operand_place leaf_operand l by metis
  have place: "at_path e (q @ p1) = Some x" using e x by (simp add: at_path_append)
  have N: "parts ty x = None" using l(1) x by (simp add: leaf_at_def)
  show ?thesis
  proof (cases "joining (type_of x)")
    case True
    have ne: "ty \<noteq> type_of x" using N operator_parts [OF True] by metis
    have "weight x < w" using part_weight [OF x] l(3) w by simp
    note in1 = keeps_put [OF inner [OF True place this] e l(1) x l(3) ty operator_parts [OF True] ne]
    have d: "keeps False st ty (put_at e q c') q c' k' (drop_operand m st ty (case ty of E_AND \<Rightarrow> symbol_yes | _ \<Rightarrow> symbol_no) (absorbing ty) (q @ p1) (q @ p2) (put_at e q c', k'))"
      if k: "kept False st ty c k c' k'" for c' k'
    proof (rule drop_step [OF ok ty at_put [OF e] kept_leaf [OF k l(1)] kept_operand [OF k l(2)] l(3)])
      show "12 * weight c' + 2 \<le> m" using kept_weight [OF k w] f by linarith
      show "ESym (case ty of E_AND \<Rightarrow> symbol_yes | _ \<Rightarrow> symbol_no) = neutral ty" using ty by (auto simp: neutral_def)
    qed
    from keeps_obind [OF in1 e d] show ?thesis using place True ty ne by (auto simp: absorbing_def)
  next
    case False
    then show ?thesis using place keeps_refl [OF e] by (auto split: expr_type.splits)
  qed
qed

lemma dups2_keeps:
  assumes ok: "symbols_ok st"
  shows "joining ty \<Longrightarrow> at_path e q = Some c \<Longrightarrow> operand_at ty c p1 \<Longrightarrow> operand_at ty c p2 \<Longrightarrow> weight c \<le> w \<Longrightarrow> 12 * w + 2 \<le> m \<Longrightarrow>
    walk_fuel w (length p1 + length p2) < n \<Longrightarrow> keeps False st ty e q c k (expr_eliminate_dups2 n m st ty (q @ p1) (q @ p2) (e, k))"
proof (induction n arbitrary: ty e q c p1 p2 w k)
  case (Suc n)
  note ty = Suc.prems(1) and e = Suc.prems(2) and o1 = Suc.prems(3) and o2 = Suc.prems(4) and w = Suc.prems(5) and f = Suc.prems(6)
  have f1: "walk_fuel w (Suc (length p1 + length p2)) < n"
    by (rule walk_fuel_down [OF operand_lengths [OF o1 o2 w] Suc.prems(7)])
  obtain x1 x2 where x: "at_path c p1 = Some x1" "at_path c p2 = Some x2" using operand_place o1 o2 by metis
  have place: "at_path e (q @ p1) = Some x1" "at_path e (q @ p2) = Some x2" using e x by (simp_all add: at_path_append)
  have inner: "keeps False st ty e q c k (expr_eliminate_dups2 n m st ty q q (e, k))"
    if "joining ty" "at_path e q = Some c" "weight c < w" for ty e q c k
    using Suc.IH [OF that(1,2), of "[]" "[]" "weight c" k] walk_fuel_leaf [OF that(3) Suc.prems(7)] that(3) f by simp
  show ?case
  proof (cases "parts ty x1 = None")
    case False
    have o: "operand_at ty c (p1 @ [LeftExpr])" "operand_at ty c (p1 @ [RightExpr])" using operand_parts [OF ty o1 x(1) False] by auto
    have "keeps False st ty e q c k (obind (expr_eliminate_dups2 n m st ty (q @ (p1 @ [LeftExpr])) (q @ p2) (e, k))
        (expr_eliminate_dups2 n m st ty (q @ (p1 @ [RightExpr])) (q @ p2)))"
    proof (rule keeps_obind [OF _ e])
      show "keeps False st ty e q c k (expr_eliminate_dups2 n m st ty (q @ (p1 @ [LeftExpr])) (q @ p2) (e, k))"
        by (rule Suc.IH [OF ty e o(1) o2 w f]) (use f1 in simp)
      fix c' k' assume k: "kept False st ty c k c' k'"
      show "keeps False st ty (put_at e q c') q c' k' (expr_eliminate_dups2 n m st ty (q @ (p1 @ [RightExpr])) (q @ p2) (put_at e q c', k'))"
        by (rule Suc.IH [OF ty at_put [OF e] kept_operand [OF k o(2)] kept_operand [OF k o2] kept_weight [OF k w] f]) (use f1 in simp)
    qed
    then show ?thesis using place False by (simp add: expr_eliminate_dups2.simps)
  next
    case N1: True
    have l: "leaf_at ty c p1" using o1 x N1 by (simp add: leaf_at_def)
    let ?r = "if parts ty x2 \<noteq> None
        then obind (expr_eliminate_dups2 n m st ty (q @ p1) (q @ (p2 @ [LeftExpr])) (e, k)) (expr_eliminate_dups2 n m st ty (q @ p1) (q @ (p2 @ [RightExpr])))
        else Ret (e, k)"
    have r: "keeps False st ty e q c k ?r"
    proof (cases "parts ty x2 = None")
      case False
      have o: "operand_at ty c (p2 @ [LeftExpr])" "operand_at ty c (p2 @ [RightExpr])" using operand_parts [OF ty o2 x(2) False] by auto
      have "keeps False st ty e q c k (obind (expr_eliminate_dups2 n m st ty (q @ p1) (q @ (p2 @ [LeftExpr])) (e, k))
          (expr_eliminate_dups2 n m st ty (q @ p1) (q @ (p2 @ [RightExpr]))))"
      proof (rule keeps_obind [OF _ e])
        show "keeps False st ty e q c k (expr_eliminate_dups2 n m st ty (q @ p1) (q @ (p2 @ [LeftExpr])) (e, k))"
          by (rule Suc.IH [OF ty e o1 o(1) w f]) (use f1 in simp)
        fix c' k' assume k: "kept False st ty c k c' k'"
        show "keeps False st ty (put_at e q c') q c' k' (expr_eliminate_dups2 n m st ty (q @ p1) (q @ (p2 @ [RightExpr])) (put_at e q c', k'))"
          by (rule Suc.IH [OF ty at_put [OF e] kept_operand [OF k o1] kept_operand [OF k o(2)] kept_weight [OF k w] f]) (use f1 in simp)
      qed
      then show ?thesis using False by simp
    qed (simp add: keeps_refl [OF e])
    define sw where "sw = (\<lambda>ek. if q @ p1 = q @ p2 then Ret ek
        else (case map_option type_of (at_path (fst ek) (q @ p1)) of
          Some E_OR \<Rightarrow> obind (expr_eliminate_dups2 n m st E_OR (q @ p1) (q @ p1) ek) (drop_operand m st E_AND symbol_yes symbol_no (q @ p1) (q @ p2))
        | Some E_AND \<Rightarrow> obind (expr_eliminate_dups2 n m st E_AND (q @ p1) (q @ p1) ek) (drop_operand m st E_OR symbol_no symbol_yes (q @ p1) (q @ p2))
        | Some ty \<Rightarrow> Ret ek | None \<Rightarrow> Fault))"
    have s: "keeps False st ty (put_at e q c') q c' k' (sw (put_at e q c', k'))" if k: "kept False st ty c k c' k'" for c' k'
    proof (cases "p1 = p2")
      case True
      then show ?thesis using keeps_refl [OF at_put [OF e]] by (simp add: sw_def)
    next
      case False
      show ?thesis using False
          dups2_switch [OF ok ty at_put [OF e] kept_leaf [OF k l] kept_operand [OF k o2] operand_not_root [OF l o2 False] kept_weight [OF k w] f inner]
        by (simp add: sw_def)
    qed
    have "keeps False st ty e q c k (obind ?r sw)" by (rule keeps_obind [OF r e s])
    then show ?thesis using place N1 by (simp add: expr_eliminate_dups2.simps sw_def split del: if_split cong: if_cong)
  qed
qed simp

section \<open>Until nothing is left to do\<close>

lemma walk_fuel_mono: "v \<le> w \<Longrightarrow> walk_fuel v 0 \<le> walk_fuel w 0"
  unfolding walk_fuel_def by (intro add_mono mult_le_mono) auto

lemma dups_round:
  assumes ok: "symbols_ok st" and ty: "joining ty" and n: "walk_fuel (weight e) 0 < n" and m: "12 * weight e + 2 \<le> m"
  shows "\<exists>e' k. obind (expr_eliminate_dups1 n m st ty [] [] (e, 0)) (expr_eliminate_dups2 n m st ty [] []) = Ret (e', k) \<and> kept False st ty e 0 e' k"
proof -
  have e: "at_path e [] = Some e" "operand_at ty e []" for e by simp_all
  have 1: "keeps True st ty e [] e 0 (expr_eliminate_dups1 n m st ty [] [] (e, 0))"
    using dups1_keeps [OF ok ty e(1) [of e] e(2) e(2) order_refl, where m = m and n = n and k = 0] n m by simp
  then have 1: "keeps False st ty e [] e 0 (expr_eliminate_dups1 n m st ty [] [] (e, 0))"
    unfolding keeps_def using kept_weaken by blast
  have "keeps False st ty e [] e 0 (obind (expr_eliminate_dups1 n m st ty [] [] (e, 0)) (expr_eliminate_dups2 n m st ty [] []))"
  proof (rule keeps_obind [OF 1 e(1)])
    fix c' k' assume k: "kept False st ty e 0 c' k'"
    show "keeps False st ty (put_at e [] c') [] c' k' (expr_eliminate_dups2 n m st ty [] [] (put_at e [] c', k'))"
      using dups2_keeps [OF ok ty e(1) [of c'] e(2) e(2) kept_weight [OF k order_refl], where m = m and n = n and k = k'] n m by simp
  qed
  then show ?thesis by (auto simp: keeps_def)
qed

text \<open>What the rewriting of e into e' keeps.\<close>

definition rewritten :: "symbols \<Rightarrow> expr \<Rightarrow> expr \<Rightarrow> bool" where
  "rewritten st e e' \<longleftrightarrow> weight e' \<le> weight e \<and> (no_mod st e \<longrightarrow> no_mod st e' \<and> expr_value st e' = expr_value st e)"

lemma rewritten_trans: "rewritten st a b \<Longrightarrow> rewritten st b c \<Longrightarrow> rewritten st a c"
  by (auto simp: rewritten_def)

lemma dups_loop_ends:
  assumes ok: "symbols_ok st"
  shows "weight e < j \<Longrightarrow> walk_fuel (weight e) 0 < n \<Longrightarrow> 12 * weight e + 2 \<le> m \<Longrightarrow>
    \<exists>e'. dups_loop j n m st e = Ret e' \<and> rewritten st e e' \<and> dups_loop 1 n m st e' = Ret e'"
proof (induction j arbitrary: e)
  case (Suc j)
  show ?case
  proof (cases "type_of e = E_OR \<or> type_of e = E_AND")
    case False
    then show ?thesis by (simp add: rewritten_def)
  next
    case True
    then have ty: "joining (type_of e)" by auto
    obtain e' k where r: "obind (expr_eliminate_dups1 n m st (type_of e) [] [] (e, 0)) (expr_eliminate_dups2 n m st (type_of e) [] []) = Ret (e', k)"
      and k: "kept False st (type_of e) e 0 e' k" using dups_round [OF ok ty Suc.prems(2,3)] by blast
    have step: "dups_loop (Suc i) n m st e = (if k = 0 then Ret e' else dups_loop i n m st (expr_eliminate_yn e'))" for i
      unfolding dups_loop.simps if_P [OF True] r by simp
    have rw: "rewritten st e e'" using k by (auto simp: kept_def rewritten_def)
    show ?thesis
    proof (cases "k = 0")
      case zero: True
      then have "e' = e" using k by (simp add: kept_def)
      then have one: "dups_loop (Suc i) n m st e = Ret e" for i using step zero by simp
      have "rewritten st e e" by (simp add: rewritten_def)
      then show ?thesis using one one [of 0] unfolding One_nat_def by blast
    next
      case False
      let ?e = "expr_eliminate_yn e'"
      have red: "reducible e'" using k False by (simp add: kept_def)
      then have w: "weight ?e < weight e" using rw by (simp add: reducible_def rewritten_def)
      have fj: "weight ?e < j" and fm: "12 * weight ?e + 2 \<le> m" using w Suc.prems by linarith+
      have fn: "walk_fuel (weight ?e) 0 < n" using walk_fuel_mono [of "weight ?e" "weight e"] w Suc.prems(2) by linarith
      have "rewritten st e' ?e" using red eliminate_yn_value [OF ok] no_mod_yn by (auto simp: reducible_def rewritten_def)
      then have "rewritten st e ?e" using rewritten_trans [OF rw] by blast
      moreover obtain e2 where "dups_loop j n m st ?e = Ret e2" "rewritten st ?e e2" "dups_loop 1 n m st e2 = Ret e2"
        using Suc.IH [OF fj fn fm] by blast
      moreover have "dups_loop (Suc j) n m st e = dups_loop j n m st ?e" using step False by simp
      ultimately show ?thesis using rewritten_trans by metis
    qed
  qed
qed simp

text \<open>C30: expr_eliminate_dups ends on every expression.  What it gives is no larger, nothing in it can be
  joined or dropped any more, and it has the value of the expression it was given if no symbol there is m.\<close>
theorem duplicates_are_eliminated:
  assumes "symbols_ok st" "weight e < j" "walk_fuel (weight e) 0 < n" "12 * weight e + 2 \<le> m"
  shows "\<exists>e'. expr_eliminate_dups j n m st (Some e) = Ret (Some e') \<and> weight e' \<le> weight e \<and>
    expr_eliminate_dups 1 n m st (Some e') = Ret (Some e') \<and> (no_mod st e \<longrightarrow> expr_value st e' = expr_value st e)"
proof -
  obtain e' where "dups_loop j n m st e = Ret e'" "rewritten st e e'" "dups_loop 1 n m st e' = Ret e'"
    using dups_loop_ends [OF assms] by blast
  then show ?thesis by (intro exI [of _ e']) (auto simp: expr_eliminate_dups_def rewritten_def simp del: dups_loop.simps)
qed

lemma duplicates_are_eliminated_witness:
  "\<exists>e'. expr_eliminate_dups 8 100 90 example_symbols (Some (EAnd (ESym (Symbol 1)) (EOr (ESym (Symbol 2)) (ESym (Symbol 2))))) = Ret (Some e') \<and>
     weight e' \<le> 5 \<and> expr_eliminate_dups 1 100 90 example_symbols (Some e') = Ret (Some e') \<and> expr_value example_symbols e' = tri_yes"
proof -
  have w: "weight (EAnd (ESym (Symbol 1)) (EOr (ESym (Symbol 2)) (ESym (Symbol 2)))) = 5" by simp
  have "no_mod example_symbols (EAnd (ESym (Symbol 1)) (EOr (ESym (Symbol 2)) (ESym (Symbol 2))))"
    "expr_value example_symbols (EAnd (ESym (Symbol 1)) (EOr (ESym (Symbol 2)) (ESym (Symbol 2)))) = tri_yes"
    by (simp_all add: example_symbols_def numeral_2_eq_2 values_simps)
  moreover have "walk_fuel (weight (EAnd (ESym (Symbol 1)) (EOr (ESym (Symbol 2)) (ESym (Symbol 2))))) 0 < 100"
    unfolding w by (simp add: walk_fuel_def)
  ultimately show ?thesis
    using duplicates_are_eliminated [OF example_symbols_ok, of "EAnd (ESym (Symbol 1)) (EOr (ESym (Symbol 2)) (ESym (Symbol 2)))" 8 100 90] w by auto
qed

section \<open>Where a symbol is m\<close>

text \<open>(FOO || BAR) && (!FOO && !BAR) is m if FOO is m and BAR is n, and becomes n.\<close>

definition foo_is_mod :: symbols where
  "foo_is_mod = example_symbols \<lparr>curr_tri := \<lambda>s. if s = Symbol 1 then tri_no else curr_tri example_symbols s\<rparr>"

lemma contradiction_of_mod:
  "expr_value foo_is_mod (EAnd (EOr (ESym (Symbol 0)) (ESym (Symbol 1))) (EAnd (ENot (ESym (Symbol 0))) (ENot (ESym (Symbol 1))))) = tri_mod \<and>
   expr_eliminate_dups 2 9 9 foo_is_mod (Some (EAnd (EOr (ESym (Symbol 0)) (ESym (Symbol 1))) (EAnd (ENot (ESym (Symbol 0))) (ENot (ESym (Symbol 1)))))) =
     Ret (Some (ESym symbol_no))"
  by code_simp

end
