(* ===== verification/Kfinal.thy ===== *)
theory Kfinal
  imports Kmenu Kdups_Props Ksym_User
begin

text \<open>
  menu_finalize of tools/kconfig/menu.c: once all the configuration files are read, the dependencies of
  an entry are added to those of the entries below it, entries that depend on the one before them move
  below it, and entries without a prompt text give their place to the entries below them.  The functions
  that rewrite expressions are given fuel that is enough for the expression.  n bounds the nesting of
  menu_finalize and the entries of a list.
\<close>

section \<open>Expressions\<close>

definition dups_fuel :: "expr \<Rightarrow> nat" where
  "dups_fuel e = weight e * weight e + 12 * weight e + 3"

definition eliminated :: "symbols \<Rightarrow> expr option \<Rightarrow> expr option outcome" where
  "eliminated st e =
     (case e of None \<Rightarrow> Ret None | Some x \<Rightarrow> expr_eliminate_dups (dups_fuel x) (dups_fuel x) (dups_fuel x) st e)"

definition transformed :: "symbols \<Rightarrow> expr option \<Rightarrow> expr option outcome" where
  "transformed st e =
     (case e of None \<Rightarrow> Ret None | Some x \<Rightarrow> obind (expr_transform (3 * depth x + 2) st x) (\<lambda>y. Ret (Some y)))"

definition set_prompt_expr :: "prompt_ref \<Rightarrow> expr option \<Rightarrow> kmenus \<times> kconf \<Rightarrow> kmenus \<times> kconf" where
  "set_prompt_expr r d = (\<lambda>(M, K). case r of
       PropOf s i \<Rightarrow> (M, upd_sym s (\<lambda>y. y\<lparr>k_props := (k_props y)[i := (k_props y ! i)\<lparr>p_visible := d\<rparr>]\<rparr>) K)
     | OwnProp i \<Rightarrow> (M\<lparr>own_props := (own_props M)(i := (own_props M i)\<lparr>p_visible := d\<rparr>)\<rparr>, K))"

section \<open>The entries of a list\<close>

text \<open>The first entry with a symbol gives a choice its type, and gets the type of the choice.\<close>

fun first_choice :: "nat \<Rightarrow> nat \<Rightarrow> sym_ref \<Rightarrow> nat option \<Rightarrow> kmenus \<times> kconf \<Rightarrow> (kmenus \<times> kconf) outcome" where
  "first_choice 0 parent s x MK = Timeout"
| "first_choice (Suc n) parent s None MK = Ret MK"
| "first_choice (Suc n) parent s (Some x) (M, K) =
     (case m_sym (entry M x) of
        None \<Rightarrow> first_choice n parent s (m_next (entry M x)) (M, K)
      | Some t \<Rightarrow>
          (let M1 = M\<lparr>current_entry := parent\<rparr>; M2 = M\<lparr>current_entry := x\<rparr>
           in obind (menu_set_type (k_type (ksym K t)) M1 K) (\<lambda>K.
                obind (menu_set_type (k_type (ksym K s)) M2 K) (\<lambda>K. Ret (M2, K)))))"

definition entry_props :: "nat \<Rightarrow> kmenus \<Rightarrow> kconf \<Rightarrow> prompt_ref list" where
  "entry_props x M K =
     (case m_sym (entry M x) of
        Some s \<Rightarrow> List.map (PropOf s) [0..<length (k_props (ksym K s))]
      | None \<Rightarrow> (case m_prompt (entry M x) of None \<Rightarrow> [] | Some r \<Rightarrow> [r]))"

definition finalize_prop :: "nat \<Rightarrow> expr option \<Rightarrow> prompt_ref \<Rightarrow> kmenus \<times> kconf \<Rightarrow> (kmenus \<times> kconf) outcome" where
  "finalize_prop x basedep r = (\<lambda>(M, K).
     (if p_menu (prompt_prop r M K) \<noteq> Some x then Ret (M, K)
      else obind (transformed (view K) (p_visible (prompt_prop r M K))) (\<lambda>dep.
             obind (eliminated (view K) (expr_alloc_and (map_option expr_copy basedep) dep)) (\<lambda>dep.
               let dep = (if (case m_sym (entry M x) of Some s \<Rightarrow> k_type (ksym K s) \<noteq> S_TRISTATE | None \<Rightarrow> False)
                          then map_option (expr_trans_bool (view K)) dep else dep)
               in Ret (set_prompt_expr r dep (M, K))))))"

fun finalize_props :: "nat \<Rightarrow> expr option \<Rightarrow> prompt_ref list \<Rightarrow> kmenus \<times> kconf \<Rightarrow> (kmenus \<times> kconf) outcome" where
  "finalize_props x basedep [] MK = Ret MK"
| "finalize_props x basedep (r # rs) MK = obind (finalize_prop x basedep r MK) (finalize_props x basedep rs)"

definition finalize_entry :: "expr option \<Rightarrow> nat \<Rightarrow> kmenus \<times> kconf \<Rightarrow> (kmenus \<times> kconf) outcome" where
  "finalize_entry parentdep x = (\<lambda>(M, K).
     obind (transformed (view K) (m_dep (entry M x))) (\<lambda>basedep.
       obind (eliminated (view K) (expr_alloc_and (map_option expr_copy parentdep) basedep)) (\<lambda>basedep.
         let M = upd_entry x (\<lambda>e. e\<lparr>m_dep := basedep\<rparr>) M
         in finalize_props x basedep (entry_props x M K) (M, K))))"

text \<open>A function that is called for the entries of a list, each of them before the next field is read.\<close>

fun entry_loop :: "nat \<Rightarrow> (nat \<Rightarrow> kmenus \<times> kconf \<Rightarrow> (kmenus \<times> kconf) outcome) \<Rightarrow> nat option \<Rightarrow> kmenus \<times> kconf \<Rightarrow> (kmenus \<times> kconf) outcome" where
  "entry_loop 0 f x MK = Timeout"
| "entry_loop (Suc n) f None MK = Ret MK"
| "entry_loop (Suc n) f (Some x) MK = obind (f x MK) (\<lambda>MK. entry_loop n f (m_next (entry (fst MK) x)) MK)"

definition parent_dep :: "nat \<Rightarrow> kmenus \<Rightarrow> kconf \<Rightarrow> expr option" where
  "parent_dep parent M K =
     (case m_sym (entry M parent) of
        Some s \<Rightarrow> if sym_is_choice s K then Some (ESym s)
          else (case m_prompt (entry M parent) of Some r \<Rightarrow> p_visible (prompt_prop r M K) | None \<Rightarrow> m_dep (entry M parent))
      | None \<Rightarrow> (case m_prompt (entry M parent) of Some r \<Rightarrow> p_visible (prompt_prop r M K) | None \<Rightarrow> m_dep (entry M parent)))"

section \<open>Entries that depend on the one before them\<close>

definition entry_dep :: "nat \<Rightarrow> kmenus \<Rightarrow> kconf \<Rightarrow> expr option" where
  "entry_dep x M K = (case m_prompt (entry M x) of Some r \<Rightarrow> p_visible (prompt_prop r M K) | None \<Rightarrow> m_dep (entry M x))"

text \<open>Whether the entry with this dependency moves below the one with the symbol s.\<close>

definition joins_parent :: "symbols \<Rightarrow> sym_ref \<Rightarrow> expr option \<Rightarrow> expr option \<Rightarrow> bool outcome" where
  "joins_parent st s basedep dep =
     (case dep of
        None \<Rightarrow> Ret False
      | Some d \<Rightarrow>
          if \<not> expr_contains_symbol d s then Ret False
          else if expr_depends_symbol d s then Ret True
          else obind (transformed st (expr_trans_compare dep False symbol_no)) (\<lambda>dep.
                 obind (eliminated st dep) (\<lambda>dep.
                   let dep2 = map_option expr_copy basedep;
                       w = (case dep of Some x \<Rightarrow> weight x | None \<Rightarrow> 0) + (case dep2 of Some x \<Rightarrow> weight x | None \<Rightarrow> 0)
                   in obind (expr_eliminate_eq (3 * w + 2) st dep dep2) (\<lambda>(dep, dep2). Ret (expr_is_yes dep2)))))"

text \<open>The entries after the parent that move below it; y is the last one.\<close>

fun adopt_loop :: "nat \<Rightarrow> (nat \<Rightarrow> kmenus \<times> kconf \<Rightarrow> (kmenus \<times> kconf) outcome) \<Rightarrow> nat \<Rightarrow> sym_ref \<Rightarrow> expr option \<Rightarrow> nat option \<Rightarrow> nat option \<Rightarrow>
    kmenus \<times> kconf \<Rightarrow> (nat option \<times> kmenus \<times> kconf) outcome" where
  "adopt_loop 0 f parent s basedep x y MK = Timeout"
| "adopt_loop (Suc n) f parent s basedep None y MK = Ret (y, MK)"
| "adopt_loop (Suc n) f parent s basedep (Some x) y MK =
     obind (joins_parent (view (snd MK)) s basedep (entry_dep x (fst MK) (snd MK))) (\<lambda>b.
       if \<not> b then Ret (y, MK)
       else obind (f x MK) (\<lambda>(M, K).
              let M = upd_entry x (\<lambda>e. e\<lparr>m_parent := Some parent\<rparr>) M
              in adopt_loop n f parent s basedep (m_next (entry M x)) (Some x) (M, K)))"

definition adopt :: "nat \<Rightarrow> nat option \<Rightarrow> kmenus \<Rightarrow> kmenus" where
  "adopt parent y M =
     (case y of
        None \<Rightarrow> M
      | Some y \<Rightarrow>
          (let M1 = upd_entry parent (\<lambda>e. e\<lparr>m_list := m_next e\<rparr>) M;
               M2 = upd_entry parent (\<lambda>e. e\<lparr>m_next := m_next (entry M1 y)\<rparr>) M1
           in upd_entry y (\<lambda>e. e\<lparr>m_next := None\<rparr>) M2))"

definition adopt_entries :: "nat \<Rightarrow> (nat \<Rightarrow> kmenus \<times> kconf \<Rightarrow> (kmenus \<times> kconf) outcome) \<Rightarrow> nat \<Rightarrow> sym_ref \<Rightarrow> prompt_ref \<Rightarrow> kmenus \<times> kconf \<Rightarrow> (kmenus \<times> kconf) outcome" where
  "adopt_entries n f parent s r = (\<lambda>(M, K).
     obind (transformed (view K) (expr_trans_compare (p_visible (prompt_prop r M K)) False symbol_no)) (\<lambda>basedep.
       obind (eliminated (view K) basedep) (\<lambda>basedep.
         obind (adopt_loop n f parent s basedep (m_next (entry M parent)) None (M, K)) (\<lambda>(y, M, K). Ret (adopt parent y M, K)))))"

section \<open>Members of choices, and entries without a text\<close>

definition add_member :: "sym_ref \<Rightarrow> sym_ref \<Rightarrow> kconf \<Rightarrow> kconf outcome" where
  "add_member s t K =
     (if sym_get_choice_prop s K = None then Fault
      else Ret (upd_sym s (\<lambda>y. y\<lparr>k_props := (let i = length (takeWhile (\<lambda>p. p_type p \<noteq> P_CHOICE) (k_props y))
                                          in (k_props y)[i := (k_props y ! i)\<lparr>p_members := t # p_members (k_props y ! i)\<rparr>])\<rparr>) K))"

definition finalize_member :: "sym_ref \<Rightarrow> sym_ref \<Rightarrow> nat \<Rightarrow> kmenus \<times> kconf \<Rightarrow> (kmenus \<times> kconf) outcome" where
  "finalize_member s t x = (\<lambda>(M, K).
     (let K1 = flag_set SYMBOL_CHOICEVAL t K; M1 = M\<lparr>current_entry := x\<rparr>
      in obind (menu_set_type (k_type (ksym K1 s)) M1 K1) (\<lambda>K2.
           let (r, M3, K3) = menu_add_prop P_CHOICE None (Some s) None (M1, K2)
           in obind (add_member s t K3) (\<lambda>K. Ret (M3, K)))))"

text \<open>The last entry of the list; all of them get the parent.\<close>

fun hoist_loop :: "nat \<Rightarrow> nat \<Rightarrow> nat \<Rightarrow> kmenus \<Rightarrow> (nat \<times> kmenus) outcome" where
  "hoist_loop 0 parent y M = Timeout"
| "hoist_loop (Suc n) parent y M =
     (let M = upd_entry y (\<lambda>e. e\<lparr>m_parent := Some parent\<rparr>) M
      in case m_next (entry M y) of None \<Rightarrow> Ret (y, M) | Some z \<Rightarrow> hoist_loop n parent z M)"

definition has_text :: "nat \<Rightarrow> kmenus \<Rightarrow> kconf \<Rightarrow> bool" where
  "has_text x M K = (case m_prompt (entry M x) of Some r \<Rightarrow> p_text (prompt_prop r M K) \<noteq> None | None \<Rightarrow> False)"

definition hoist :: "nat \<Rightarrow> nat \<Rightarrow> nat \<Rightarrow> kmenus \<times> kconf \<Rightarrow> (kmenus \<times> kconf) outcome" where
  "hoist n parent x = (\<lambda>(M, K).
     (case m_list (entry M x) of
        Some z \<Rightarrow>
          if has_text x M K then Ret (M, K)
          else obind (hoist_loop n parent z M) (\<lambda>(y, M).
                 let M1 = upd_entry y (\<lambda>e. e\<lparr>m_next := m_next (entry M x)\<rparr>) M;
                     M2 = upd_entry x (\<lambda>e. e\<lparr>m_next := m_list e\<rparr>) M1
                 in Ret (upd_entry x (\<lambda>e. e\<lparr>m_list := None\<rparr>) M2, K))
      | None \<Rightarrow> Ret (M, K)))"

definition finish_entry :: "nat \<Rightarrow> nat \<Rightarrow> nat \<Rightarrow> kmenus \<times> kconf \<Rightarrow> (kmenus \<times> kconf) outcome" where
  "finish_entry n parent x = (\<lambda>(M, K).
     obind (case (m_sym (entry M parent), m_sym (entry M x)) of
              (Some s, Some t) \<Rightarrow> if sym_is_choice s K then finalize_member s t x (M, K) else Ret (M, K)
            | _ \<Rightarrow> Ret (M, K))
       (hoist n parent x))"

section \<open>All of it\<close>

definition finalize_list :: "nat \<Rightarrow> (nat \<Rightarrow> kmenus \<times> kconf \<Rightarrow> (kmenus \<times> kconf) outcome) \<Rightarrow> nat \<Rightarrow> kmenus \<times> kconf \<Rightarrow> (kmenus \<times> kconf) outcome" where
  "finalize_list n f parent = (\<lambda>(M, K).
     obind (case m_sym (entry M parent) of
              Some s \<Rightarrow> if sym_is_choice s K then first_choice n parent s (m_list (entry M parent)) (M, K) else Ret (M, K)
            | None \<Rightarrow> Ret (M, K)) (\<lambda>(M, K).
       obind (entry_loop n (finalize_entry (parent_dep parent M K)) (m_list (entry M parent)) (M, K)) (\<lambda>(M, K).
         entry_loop n f (m_list (entry M parent)) (M, K))))"

fun menu_finalize :: "nat \<Rightarrow> nat \<Rightarrow> kmenus \<times> kconf \<Rightarrow> (kmenus \<times> kconf) outcome" where
  "menu_finalize 0 parent MK = Timeout"
| "menu_finalize (Suc n) parent MK =
     obind (case (m_list (entry (fst MK) parent), m_sym (entry (fst MK) parent), m_prompt (entry (fst MK) parent)) of
              (Some x, _, _) \<Rightarrow> finalize_list (Suc n) (menu_finalize n) parent MK
            | (None, Some s, Some r) \<Rightarrow> adopt_entries (Suc n) (menu_finalize n) parent s r MK
            | _ \<Rightarrow> Ret MK) (\<lambda>(M, K).
       entry_loop (Suc n) (finish_entry (Suc n) parent) (m_list (entry M parent)) (M, K))"

end
