(* ===== verification/Kfinal_Steps.thy ===== *)
theory Kfinal_Steps
  imports Kfinal
begin

text \<open>
  The steps by which the tree of menu entries is finished.  Expressions are rewritten by the types and the
  flags of the symbols alone, which is why this ends before any value is calculated.  A list of entries is a
  forest in memory; every step keeps the order of its entries.
\<close>

section \<open>Values do not matter\<close>

definition same_shape :: "symbols \<Rightarrow> symbols \<Rightarrow> bool" where
  "same_shape st st' \<longleftrightarrow> sym_type st = sym_type st' \<and> sym_flags st = sym_flags st'"

lemma shape_constant:
  assumes "same_shape st st'"
  shows "both_constant st = both_constant st'" "is_const st = is_const st'" "joined_symbol st = joined_symbol st'" "join_or st = join_or st'"
    "join_and st = join_and st'" "transform_equal st = transform_equal st'" "transform_unequal st = transform_unequal st'"
proof -
  from assms have h: "sym_type st = sym_type st'" "sym_flags st = sym_flags st'" by (simp_all add: same_shape_def)
  show c: "is_const st = is_const st'" unfolding fun_eq_iff is_const_def h by simp
  show "both_constant st = both_constant st'" "joined_symbol st = joined_symbol st'" "join_or st = join_or st'" "join_and st = join_and st'"
    "transform_equal st = transform_equal st'" "transform_unequal st = transform_unequal st'"
    unfolding fun_eq_iff both_constant_def joined_symbol_def join_or_def join_and_def transform_equal_def transform_unequal_def h c by simp_all
qed

lemma eq_shape: "same_shape st st' \<Longrightarrow> expr_eq n st = expr_eq n st' \<and> eliminate_eq n st = eliminate_eq n st'"
proof (induction n)
  case (Suc n)
  from Suc have h: "expr_eq n st = expr_eq n st'" "eliminate_eq n st = eliminate_eq n st'" by simp_all
  show ?case unfolding fun_eq_iff expr_eq.simps eliminate_eq.simps h shape_constant [OF Suc.prems] by simp
qed (simp add: fun_eq_iff expr_eq.simps eliminate_eq.simps)

lemma joins_shape:
  assumes "same_shape st st'"
  shows "expr_join_or m st = expr_join_or m st'" "expr_join_and m st = expr_join_and m st'"
  unfolding fun_eq_iff expr_join_or_def expr_join_and_def shape_constant [OF assms] conjunct1 [OF eq_shape [OF assms]] by simp_all

lemma extract_eq_shape: "same_shape st st' \<Longrightarrow> extract_eq n st = extract_eq n st'"
proof (induction n)
  case (Suc n)
  from Suc have h: "extract_eq n st = extract_eq n st'" by simp
  show ?case unfolding fun_eq_iff extract_eq.simps h conjunct1 [OF eq_shape [OF Suc.prems]] by simp
qed (simp add: fun_eq_iff extract_eq.simps)

lemma extract_shape: "same_shape st st' \<Longrightarrow> expr_extract ty m st = expr_extract ty m st'"
  using extract_eq_shape [of st st' m] by (simp only: fun_eq_iff expr_extract_def) simp

lemma transform_shape: "same_shape st st' \<Longrightarrow> expr_transform n st e = expr_transform n st' e \<and> transform_not n st e = transform_not n st' e"
proof (induction n arbitrary: e rule: less_induct)
  case (less n)
  have n: "transform_not n st x = transform_not n st' x" for x using less by (cases x; cases n) simp_all
  show ?case
  proof (cases n)
    case (Suc k)
    have k: "expr_transform k st = expr_transform k st'" "transform_not k st = transform_not k st'" using less Suc by (auto simp: fun_eq_iff)
    show ?thesis using n unfolding Suc expr_transform.simps k shape_constant [OF less.prems] by simp
  qed (use n in auto)
qed

lemma step_shape:
  assumes "same_shape st st'"
  shows "join_operands m st = join_operands m st'" "drop_operand m st = drop_operand m st'"
  unfolding fun_eq_iff join_operands_def drop_operand_def joins_shape [OF assms] extract_shape [OF assms] conjunct1 [OF transform_shape [OF assms]] by simp_all

lemma dups_shape: "same_shape st st' \<Longrightarrow> expr_eliminate_dups1 n m st = expr_eliminate_dups1 n m st' \<and> expr_eliminate_dups2 n m st = expr_eliminate_dups2 n m st'"
proof (induction n)
  case (Suc n)
  from Suc have h: "expr_eliminate_dups1 n m st = expr_eliminate_dups1 n m st'" "expr_eliminate_dups2 n m st = expr_eliminate_dups2 n m st'" by simp_all
  show ?case unfolding fun_eq_iff expr_eliminate_dups1.simps expr_eliminate_dups2.simps h step_shape [OF Suc.prems] by simp
qed (simp add: fun_eq_iff expr_eliminate_dups1.simps expr_eliminate_dups2.simps)

lemma dups_loop_shape: "same_shape st st' \<Longrightarrow> dups_loop j n m st = dups_loop j n m st'"
proof (induction j)
  case (Suc j)
  from Suc have h: "dups_loop j n m st = dups_loop j n m st'" by simp
  show ?case unfolding fun_eq_iff dups_loop.simps h conjunct1 [OF dups_shape [OF Suc.prems]] conjunct2 [OF dups_shape [OF Suc.prems]] by simp
qed (simp add: fun_eq_iff)

lemma eliminate_dups_shape: "same_shape st st' \<Longrightarrow> expr_eliminate_dups j n m st e = expr_eliminate_dups j n m st' e"
  unfolding expr_eliminate_dups_def by (simp only: dups_loop_shape)

text \<open>The three constants of symbol.c, and constants have no type.\<close>

definition shape_ok :: "symbols \<Rightarrow> bool" where
  "shape_ok st \<longleftrightarrow> is_const st symbol_yes \<and> is_const st symbol_mod \<and> is_const st symbol_no \<and> (\<forall>s. is_const st s \<longrightarrow> sym_type st s = S_UNKNOWN)"

definition with_values :: "symbols \<Rightarrow> symbols" where
  "with_values st = st\<lparr>curr_tri := (\<lambda>s. case s of symbol_yes \<Rightarrow> tri_yes | symbol_mod \<Rightarrow> tri_mod | _ \<Rightarrow> tri_no),
     curr_value := (\<lambda>s. case s of symbol_yes \<Rightarrow> ''y'' | symbol_mod \<Rightarrow> ''m'' | symbol_no \<Rightarrow> ''n'' | symbol_empty \<Rightarrow> [] | Symbol i \<Rightarrow> ''xx'' @ replicate i (CHR ''x''))\<rparr>"

lemma with_values_shape: "same_shape st (with_values st)"
  by (simp add: same_shape_def with_values_def)

lemma with_values_ok: "shape_ok st \<Longrightarrow> symbols_ok (with_values st)"
proof -
  assume a: "shape_ok st"
  have t: "sym_type (with_values st) = sym_type st" "is_const (with_values st) = is_const st"
    by (auto simp: with_values_def is_const_def)
  have "s = t" if "is_const st s" "is_const st t" "sym_get_string_value (with_values st) s = sym_get_string_value (with_values st) t" for s t
  proof -
    have "sym_type st s = S_UNKNOWN" "sym_type st t = S_UNKNOWN" using a that by (auto simp: shape_ok_def)
    then show ?thesis using that(3) by (cases s; cases t) (auto simp: sym_get_string_value_def with_values_def)
  qed
  moreover have "curr_tri (with_values st) s \<noteq> tri_mod" if "sym_type st s = S_BOOLEAN" for s
    using a that by (auto simp: shape_ok_def with_values_def split: sym_ref.splits)
  ultimately show ?thesis using a unfolding symbols_ok_def t by (auto simp: shape_ok_def) (auto simp: with_values_def)
qed

lemma dups_fuel_enough: "weight x < dups_fuel x" "walk_fuel (weight x) 0 < dups_fuel x" "12 * weight x + 2 \<le> dups_fuel x"
  by (simp_all add: dups_fuel_def walk_fuel_def)

lemma eliminated_ends: "shape_ok st \<Longrightarrow> \<exists>e'. eliminated st e = Ret e'"
proof (cases e)
  case (Some x)
  assume "shape_ok st"
  from dups_loop_ends [OF with_values_ok [OF this] dups_fuel_enough] obtain e'
    where "dups_loop (dups_fuel x) (dups_fuel x) (dups_fuel x) (with_values st) x = Ret e'" by blast
  then have "expr_eliminate_dups (dups_fuel x) (dups_fuel x) (dups_fuel x) (with_values st) (Some x) = Ret (Some e')"
    by (simp add: expr_eliminate_dups_def)
  then show ?thesis unfolding eliminated_def Some using eliminate_dups_shape [OF with_values_shape, of _ _ _ st] by simp
qed (simp add: eliminated_def)

lemma transformed_ends: "shape_ok st \<Longrightarrow> \<exists>e'. transformed st e = Ret e'"
proof (cases e)
  case (Some x)
  assume "shape_ok st"
  from transform_norm [OF with_values_ok [OF this] order_refl, of x]
  have "expr_transform (3 * depth x + 2) st x = Ret (norm (with_values st) x)"
    using transform_shape [OF with_values_shape, of "3 * depth x + 2" st] by metis
  then show ?thesis unfolding transformed_def Some by (simp del: expr_transform.simps)
qed (simp add: transformed_def)

section \<open>The tree of entries\<close>

text \<open>A list of entries, each with the list below it.  seg says that the list is in memory from the pointer p
  up to the pointer q, and that its entries have the given parent.\<close>

datatype forest = FEnd | FEntry nat forest forest

primrec entries :: "forest \<Rightarrow> nat list" where
  "entries FEnd = []"
| "entries (FEntry x cs ts) = x # entries cs @ entries ts"

fun seg :: "(nat \<Rightarrow> kmenu) \<Rightarrow> nat option \<Rightarrow> nat option \<Rightarrow> forest \<Rightarrow> nat option \<Rightarrow> bool" where
  "seg E par p FEnd q = (p = q)"
| "seg E par p (FEntry x cs ts) q = (p = Some x \<and> m_parent (E x) = par \<and> seg E (Some x) (m_list (E x)) cs None \<and> seg E par (m_next (E x)) ts q)"

primrec fappend :: "forest \<Rightarrow> forest \<Rightarrow> forest" where
  "fappend FEnd G = G"
| "fappend (FEntry x cs ts) G = FEntry x cs (fappend ts G)"

lemma entries_append [simp]: "entries (fappend F G) = entries F @ entries G"
  by (induction F) simp_all

definition links :: "kmenu \<Rightarrow> nat option \<times> nat option \<times> nat option" where
  "links e = (m_next e, m_parent e, m_list e)"

lemma linksD: "links e = links e' \<Longrightarrow> m_next e = m_next e' \<and> m_parent e = m_parent e' \<and> m_list e = m_list e'"
  by (simp add: links_def)

lemma seg_cong: "(\<And>x. x \<in> set (entries F) \<Longrightarrow> links (E x) = links (E' x)) \<Longrightarrow> seg E par p F q = seg E' par p F q"
proof (induction F arbitrary: par p q)
  case (FEntry x cs ts)
  have "links (E x) = links (E' x)" using FEntry.prems by simp
  moreover have "seg E (Some x) r cs None = seg E' (Some x) r cs None" "seg E par r ts q = seg E' par r ts q" for r
    using FEntry.IH FEntry.prems by simp_all
  ultimately show ?case by (simp add: links_def)
qed simp

lemma seg_upd [simp]: "y \<notin> set (entries F) \<Longrightarrow> seg (E(y := e)) par p F q = seg E par p F q"
  by (rule seg_cong) auto

lemma seg_append: "seg E par p (fappend F G) q \<longleftrightarrow> (\<exists>r. seg E par p F r \<and> seg E par r G q)"
  by (induction F arbitrary: p) auto

text \<open>The last entry of a list; the pointer after it is its next field.\<close>

fun last_root :: "forest \<Rightarrow> nat option" where
  "last_root FEnd = None"
| "last_root (FEntry x cs FEnd) = Some x"
| "last_root (FEntry x cs ts) = last_root ts"

lemma last_root_in: "last_root F = Some y \<Longrightarrow> y \<in> set (entries F)"
  by (induction F rule: last_root.induct) auto

lemma last_root_None: "last_root F = None \<longleftrightarrow> F = FEnd"
  by (induction F rule: last_root.induct) auto

lemma last_root_next: "seg E par p F q \<Longrightarrow> last_root F = Some y \<Longrightarrow> m_next (E y) = q"
  by (induction F arbitrary: p rule: last_root.induct) auto

lemma seg_relink:
  "seg E par p F q \<Longrightarrow> last_root F = Some y \<Longrightarrow> distinct (entries F) \<Longrightarrow> seg (E(y := (E y)\<lparr>m_next := r\<rparr>)) par p F r"
proof (induction F arbitrary: p rule: last_root.induct)
  case (2 x cs)
  then have "y = x" "y \<notin> set (entries cs)" by auto
  then show ?case using 2 by (simp del: fun_upd_apply add: fun_upd_same)
next
  case (3 x cs z ds us)
  have "y \<in> set (entries (FEntry z ds us))" using 3(3) last_root_in [of "FEntry z ds us" y] by simp
  then have "y \<noteq> x" "y \<notin> set (entries cs)" using 3 by auto
  moreover have a: "p = Some x" "m_parent (E x) = par" "seg E (Some x) (m_list (E x)) cs None" "seg E par (m_next (E x)) (FEntry z ds us) q"
    using 3(2) by simp_all
  have "last_root (FEntry z ds us) = Some y" "distinct (entries (FEntry z ds us))" using 3(3,4) by simp_all
  from 3(1) [OF a(4) this] have "seg (E(y := (E y)\<lparr>m_next := r\<rparr>)) par (m_next (E x)) (FEntry z ds us) r" .
  ultimately show ?case using a by (subst seg.simps(2)) (simp only: fun_upd_other seg_upd simp_thms)
qed simp

section \<open>What every step keeps\<close>

text \<open>Symbols of entries are no constants, and every choice has the property its members are listed in.\<close>

definition good :: "kmenus \<times> kconf \<Rightarrow> bool" where
  "good S \<longleftrightarrow> shape_ok (view (snd S)) \<and> (\<forall>x s. m_sym (entry (fst S) x) = Some s \<longrightarrow> \<not> is_const (view (snd S)) s) \<and>
     (\<forall>s. sym_is_choice s (snd S) \<longrightarrow> sym_get_choice_prop s (snd S) \<noteq> None)"

definition tidy :: "kmenus \<times> kconf \<Rightarrow> kmenus \<times> kconf \<Rightarrow> bool" where
  "tidy S S' \<longleftrightarrow> good S' \<and> (\<forall>x. m_sym (entry (fst S') x) = m_sym (entry (fst S) x) \<and> m_prompt (entry (fst S') x) = m_prompt (entry (fst S) x))"

definition unlinked :: "kmenus \<times> kconf \<Rightarrow> kmenus \<times> kconf \<Rightarrow> bool" where
  "unlinked S S' \<longleftrightarrow> tidy S S' \<and> (\<forall>x. links (entry (fst S') x) = links (entry (fst S) x))"

lemma tidy_trans: "tidy S S' \<Longrightarrow> tidy S' S'' \<Longrightarrow> tidy S S''"
  by (simp add: tidy_def)

lemma unlinked_trans: "unlinked S S' \<Longrightarrow> unlinked S' S'' \<Longrightarrow> unlinked S S''"
  by (simp add: tidy_def unlinked_def)

lemma unlinked_refl: "good S \<Longrightarrow> unlinked S S"
  by (simp add: tidy_def unlinked_def)

lemma tidy_good: "tidy S S' \<Longrightarrow> good S'" "unlinked S S' \<Longrightarrow> good S'" "unlinked S S' \<Longrightarrow> tidy S S'"
  by (simp_all add: tidy_def unlinked_def)

text \<open>A step returns, or it follows the pointer of a symbol as one to an expression.\<close>

definition ends :: "('a \<Rightarrow> bool) \<Rightarrow> 'a outcome \<Rightarrow> bool" where
  "ends P r \<longleftrightarrow> r = Fault \<or> (\<exists>S. r = Ret S \<and> P S)"

lemma ends_Ret [simp]: "ends P (Ret S) = P S"
  by (simp add: ends_def)

lemma ends_obind: "ends P r \<Longrightarrow> (\<And>S. P S \<Longrightarrow> ends Q (f S)) \<Longrightarrow> ends Q (obind r f)"
  unfolding ends_def by (cases r) auto

lemma ends_mono: "ends P r \<Longrightarrow> (\<And>S. P S \<Longrightarrow> Q S) \<Longrightarrow> ends Q r"
  by (auto simp: ends_def)

section \<open>Steps that move no entry\<close>

definition prop_types :: "kconf \<Rightarrow> sym_ref \<Rightarrow> prop_type list" where
  "prop_types K s = List.map p_type (k_props (ksym K s))"

lemma choice_prop_iff: "sym_get_choice_prop s K \<noteq> None \<longleftrightarrow> P_CHOICE \<in> set (prop_types K s)"
  by (force simp: sym_get_choice_prop_def prop_types_def find_None_iff simp del: not_None_eq)

lemma types_update: "p_type y = p_type (ps ! i) \<Longrightarrow> List.map p_type (ps[i := y]) = List.map p_type ps"
  by (cases "i < length ps") (simp_all add: map_update list_update_same_conv list_update_beyond)

lemma good_step:
  assumes "good (M, K)" "\<And>x. m_sym (entry M' x) = m_sym (entry M x)" "\<And>s. is_const (view K') s = is_const (view K) s"
    "\<And>s. is_const (view K) s \<Longrightarrow> k_type (ksym K' s) = k_type (ksym K s)" "\<And>s. has_flag SYMBOL_CHOICE s K' = has_flag SYMBOL_CHOICE s K"
    "\<And>s. set (prop_types K s) \<subseteq> set (prop_types K' s)"
  shows "good (M', K')"
proof -
  have t: "sym_type (view K') s = S_UNKNOWN" if "is_const (view K) s" for s
    using assms(1,4) that by (simp add: good_def shape_ok_def view_def)
  show ?thesis using assms(1,2,3,5) assms(6) t unfolding good_def shape_ok_def choice_prop_iff by (simp, blast)
qed

lemma unlinked_step:
  assumes "good (M, K)" "good (M, K) \<Longrightarrow> good (M', K')" "\<And>x. links (entry M' x) = links (entry M x)"
    "\<And>x. m_sym (entry M' x) = m_sym (entry M x) \<and> m_prompt (entry M' x) = m_prompt (entry M x)"
  shows "unlinked (M, K) (M', K')"
  using assms by (simp add: unlinked_def tidy_def)

lemma const_props:
  assumes "k_flags (f (ksym K s)) = k_flags (ksym K s)"
  shows "is_const (view (upd_sym s f K)) t = is_const (view K) t" "has_flag w t (upd_sym s f K) = has_flag w t K"
  using assms by (auto simp: is_const_def view_def upd_sym_def has_flag_def)

lemma good_upd_sym:
  assumes "good (M, K)" "k_flags (f (ksym K s)) = k_flags (ksym K s)" "is_const (view K) s \<Longrightarrow> k_type (f (ksym K s)) = k_type (ksym K s)"
    "set (List.map p_type (k_props (ksym K s))) \<subseteq> set (List.map p_type (k_props (f (ksym K s))))"
  shows "good (M, upd_sym s f K)"
proof (rule good_step [OF assms(1)])
  show "is_const (view (upd_sym s f K)) t = is_const (view K) t" "has_flag SYMBOL_CHOICE t (upd_sym s f K) = has_flag SYMBOL_CHOICE t K" for t
    using const_props [of f K s, OF assms(2)] by simp_all
  show "k_type (ksym (upd_sym s f K) t) = k_type (ksym K t)" if "is_const (view K) t" for t using that assms(3) by (cases "t = s") (simp_all add: upd_sym_def)
  show "set (prop_types K t) \<subseteq> set (prop_types (upd_sym s f K) t)" for t using assms(4) by (simp add: upd_sym_def prop_types_def)
qed simp

lemma set_type_good:
  assumes "good (M, K)" "m_sym (entry M (current_entry M)) = Some s"
  shows "\<exists>K'. menu_set_type ty M K = Ret K' \<and> good (M, K')"
proof -
  have "\<not> is_const (view K) s" using assms by (simp add: good_def)
  then have "good (M, upd_sym s (\<lambda>y. y\<lparr>k_type := ty\<rparr>) K)"
    by (intro good_upd_sym [OF assms(1)]) simp_all
  then show ?thesis using assms by (simp add: menu_set_type_def)
qed

lemma good_current [simp]: "good (M\<lparr>current_entry := x\<rparr>, K) = good (M, K)"
  by (simp add: good_def)

lemma first_choice_unlinked:
  "seg (entry M) par p F None \<Longrightarrow> length (entries F) < n \<Longrightarrow> m_sym (entry M parent) = Some s \<Longrightarrow> good (M, K) \<Longrightarrow>
   ends (unlinked (M, K)) (first_choice n parent s p (M, K))"
proof (induction n arbitrary: p F)
  case (Suc n)
  show ?case
  proof (cases F)
    case FEnd
    then show ?thesis using Suc.prems unlinked_refl by simp
  next
    case (FEntry x cs ts)
    then have p: "p = Some x" "seg (entry M) par (m_next (entry M x)) ts None" "length (entries ts) < n" using Suc.prems by auto
    show ?thesis
    proof (cases "m_sym (entry M x)")
      case None
      then show ?thesis using Suc.IH [OF p(2,3) Suc.prems(3,4)] p(1) by simp
    next
      case (Some t)
      obtain K1 where 1: "menu_set_type (k_type (ksym K t)) (M\<lparr>current_entry := parent\<rparr>) K = Ret K1" "good (M, K1)"
        using set_type_good [of "M\<lparr>current_entry := parent\<rparr>" K s] Suc.prems by auto
      obtain K2 where 2: "menu_set_type (k_type (ksym K1 s)) (M\<lparr>current_entry := x\<rparr>) K1 = Ret K2" "good (M, K2)"
        using set_type_good [of "M\<lparr>current_entry := x\<rparr>" K1 t] 1 Some by auto
      have "unlinked (M, K) (M\<lparr>current_entry := x\<rparr>, K2)" using 2 by (intro unlinked_step [OF Suc.prems(4)]) simp_all
      then show ?thesis using p(1) Some 1(1) 2(1) by (simp add: Let_def)
    qed
  qed
qed simp

lemma set_prompt_expr_unlinked: "good S \<Longrightarrow> unlinked S (set_prompt_expr r d S)"
proof (cases S)
  case (Pair M K)
  assume g: "good S"
  show ?thesis
  proof (cases r)
    case (PropOf s i)
    have "good (M, upd_sym s (\<lambda>y. y\<lparr>k_props := (k_props y)[i := (k_props y ! i)\<lparr>p_visible := d\<rparr>]\<rparr>) K)"
      using g Pair by (intro good_upd_sym) (simp_all add: types_update del: set_map)
    then show ?thesis using g Pair PropOf by (simp add: set_prompt_expr_def unlinked_step)
  next
    case (OwnProp i)
    have "good (M\<lparr>own_props := (own_props M)(i := (own_props M i)\<lparr>p_visible := d\<rparr>)\<rparr>, K)" using g Pair by (simp add: good_def)
    then show ?thesis using g Pair OwnProp by (simp add: set_prompt_expr_def unlinked_step)
  qed
qed

lemma good_shape: "good (M, K) \<Longrightarrow> shape_ok (view K)"
  by (simp add: good_def)

lemma finalize_prop_unlinked: "good S \<Longrightarrow> ends (unlinked S) (finalize_prop x b r S)"
proof -
  assume g: "good S"
  obtain M K where S: "S = (M, K)" by (cases S)
  obtain d where "transformed (view K) (p_visible (prompt_prop r M K)) = Ret d" using transformed_ends good_shape g S by blast
  moreover obtain d' where "eliminated (view K) (expr_alloc_and (map_option expr_copy b) d) = Ret d'" using eliminated_ends good_shape g S by blast
  ultimately have "finalize_prop x b r S = Ret S \<or> (\<exists>e. finalize_prop x b r S = Ret (set_prompt_expr r e S))"
    unfolding S finalize_prop_def by (auto simp: Let_def)
  then show ?thesis using unlinked_refl [OF g] set_prompt_expr_unlinked [OF g] by auto
qed

lemma finalize_props_unlinked: "good S \<Longrightarrow> ends (unlinked S) (finalize_props x b rs S)"
proof (induction rs arbitrary: S)
  case (Cons r rs)
  then show ?case using tidy_good unlinked_trans
    by (simp, intro ends_obind [OF finalize_prop_unlinked], simp, metis ends_mono)
qed (simp add: unlinked_refl)

lemma good_dep: "good (upd_entry x (\<lambda>e. e\<lparr>m_dep := d\<rparr>) M, K) = good (M, K)"
proof -
  have "m_sym (entry (upd_entry x (\<lambda>e. e\<lparr>m_dep := d\<rparr>) M) y) = m_sym (entry M y)" for y by (simp add: upd_entry_def)
  then show ?thesis by (simp add: good_def)
qed

lemma finalize_entry_unlinked: "good S \<Longrightarrow> ends (unlinked S) (finalize_entry b x S)"
proof -
  assume g: "good S"
  obtain M K where S: "S = (M, K)" by (cases S)
  obtain d where d: "transformed (view K) (m_dep (entry M x)) = Ret d" using transformed_ends good_shape g S by blast
  obtain d' where d': "eliminated (view K) (expr_alloc_and (map_option expr_copy b) d) = Ret d'" using eliminated_ends good_shape g S by blast
  let ?M = "upd_entry x (\<lambda>e. e\<lparr>m_dep := d'\<rparr>) M"
  have u: "unlinked S (?M, K)" using g S by (simp add: unlinked_def tidy_def good_dep) (simp add: upd_entry_def links_def)
  have "ends (unlinked S) (finalize_props x d' (entry_props x ?M K) (?M, K))"
    by (rule ends_mono [OF finalize_props_unlinked [OF tidy_good(2) [OF u]]]) (rule unlinked_trans [OF u])
  then show ?thesis using d d' by (simp add: finalize_entry_def S Let_def)
qed

section \<open>Steps along a list\<close>

text \<open>What a function does to an entry and the entries after it: they stay in their order, some of them may
  move below it or out from below it, and the others stay where they are.\<close>

definition arranged :: "kmenus \<times> kconf \<Rightarrow> nat option \<Rightarrow> nat option \<Rightarrow> forest \<Rightarrow> kmenus \<times> kconf \<Rightarrow> bool" where
  "arranged S par p F S' \<longleftrightarrow> tidy S S' \<and> (\<exists>F'. seg (entry (fst S')) par p F' None \<and> entries F' = entries F) \<and>
     (\<forall>x. x \<notin> set (entries F) \<longrightarrow> links (entry (fst S') x) = links (entry (fst S) x))"

definition arranges :: "(nat \<Rightarrow> kmenus \<times> kconf \<Rightarrow> (kmenus \<times> kconf) outcome) \<Rightarrow> nat \<Rightarrow> nat option \<Rightarrow> bool" where
  "arranges f N par \<longleftrightarrow> (\<forall>S x cs ts. good S \<longrightarrow> seg (entry (fst S)) par (Some x) (FEntry x cs ts) None \<longrightarrow> distinct (entries (FEntry x cs ts)) \<longrightarrow>
     length (entries (FEntry x cs ts)) \<le> N \<longrightarrow> ends (arranged S par (Some x) (FEntry x cs ts)) (f x S))"

lemma arrangedD:
  assumes "arranged S par p F S'"
  obtains F' where "tidy S S'" "seg (entry (fst S')) par p F' None" "entries F' = entries F"
    "\<And>x. x \<notin> set (entries F) \<Longrightarrow> links (entry (fst S') x) = links (entry (fst S) x)"
  using assms unfolding arranged_def by blast

lemma arranged_trans:
  assumes "arranged S par p F S'" "\<And>F'. seg (entry (fst S')) par p F' None \<Longrightarrow> entries F' = entries F \<Longrightarrow> arranged S' par p F' S''"
  shows "arranged S par p F S''"
proof -
  obtain F' where 1: "tidy S S'" "seg (entry (fst S')) par p F' None" "entries F' = entries F"
    "\<And>x. x \<notin> set (entries F) \<Longrightarrow> links (entry (fst S') x) = links (entry (fst S) x)" using arrangedD [OF assms(1)] by metis
  obtain F'' where 2: "tidy S' S''" "seg (entry (fst S'')) par p F'' None" "entries F'' = entries F'"
    "\<And>x. x \<notin> set (entries F') \<Longrightarrow> links (entry (fst S'') x) = links (entry (fst S') x)" using arrangedD [OF assms(2) [OF 1(2,3)]] by metis
  show ?thesis unfolding arranged_def using 1 2 tidy_trans by metis
qed

lemma unlinked_arranged: "unlinked S S' \<Longrightarrow> seg (entry (fst S)) par p F None \<Longrightarrow> arranged S par p F S'"
  using seg_cong [of F "entry (fst S)" "entry (fst S')"] unfolding arranged_def unlinked_def by metis

lemma entry_loop_unlinked:
  assumes "\<And>x S. good S \<Longrightarrow> ends (unlinked S) (f x S)"
  shows "seg (entry (fst S)) par p F None \<Longrightarrow> length (entries F) < n \<Longrightarrow> good S \<Longrightarrow> ends (unlinked S) (entry_loop n f p S)"
proof (induction n arbitrary: p F S)
  case (Suc n)
  show ?case
  proof (cases F)
    case FEnd
    then show ?thesis using Suc.prems unlinked_refl by simp
  next
    case (FEntry x cs ts)
    then have p: "p = Some x" using Suc.prems by auto
    have "ends (unlinked S) (obind (f x S) (\<lambda>S'. entry_loop n f (m_next (entry (fst S') x)) S'))"
    proof (rule ends_obind [OF assms [OF Suc.prems(3)]])
      fix S' assume u: "unlinked S S'"
      have "seg (entry (fst S')) par p F None"
        using Suc.prems(1) u seg_cong [of F "entry (fst S)" "entry (fst S')"] by (simp add: unlinked_def)
      then have "ends (unlinked S') (entry_loop n f (m_next (entry (fst S') x)) S')"
        using Suc.IH [of S' "m_next (entry (fst S') x)" ts] Suc.prems(2) tidy_good(2) [OF u] FEntry by simp
      then show "ends (unlinked S) (entry_loop n f (m_next (entry (fst S') x)) S')" by (rule ends_mono) (rule unlinked_trans [OF u])
    qed
    then show ?thesis by (simp add: p)
  qed
qed simp

lemma entry_loop_arranged:
  assumes "arranges f N par"
  shows "seg (entry (fst S)) par p F None \<Longrightarrow> distinct (entries F) \<Longrightarrow> length (entries F) \<le> N \<Longrightarrow> length (entries F) < n \<Longrightarrow> good S \<Longrightarrow>
    ends (arranged S par p F) (entry_loop n f p S)"
proof (induction n arbitrary: p F S)
  case (Suc n)
  show ?case
  proof (cases F)
    case FEnd
    then show ?thesis using Suc.prems unlinked_arranged [OF unlinked_refl [OF Suc.prems(5)]] by simp
  next
    case (FEntry x cs ts)
    then have p: "p = Some x" using Suc.prems by auto
    have "ends (arranged S par p F) (obind (f x S) (\<lambda>S'. entry_loop n f (m_next (entry (fst S') x)) S'))"
    proof (rule ends_obind)
      show "ends (arranged S par p F) (f x S)" using assms Suc.prems unfolding arranges_def FEntry p by blast
      fix S' assume a: "arranged S par p F S'"
      obtain F' where 1: "tidy S S'" "seg (entry (fst S')) par p F' None" "entries F' = entries F" using arrangedD [OF a] by metis
      obtain ds us where F': "F' = FEntry x ds us" using 1(2,3) FEntry p by (cases F') auto
      have d: "distinct (entries F')" using 1(3) Suc.prems(2) by simp
      have l: "length (entries us) \<le> N" "length (entries us) < n" using arg_cong [OF 1(3), of length] F' Suc.prems(3,4) by simp_all
      have "ends (arranged S' par (m_next (entry (fst S') x)) us) (entry_loop n f (m_next (entry (fst S') x)) S')"
        by (rule Suc.IH) (use 1(2) F' d l tidy_good(1) [OF 1(1)] in simp_all)
      then show "ends (arranged S par p F) (entry_loop n f (m_next (entry (fst S') x)) S')"
      proof (rule ends_mono)
        fix S'' assume "arranged S' par (m_next (entry (fst S') x)) us S''"
        then obtain us' where 2: "tidy S' S''" "seg (entry (fst S'')) par (m_next (entry (fst S') x)) us' None" "entries us' = entries us"
          "\<And>y. y \<notin> set (entries us) \<Longrightarrow> links (entry (fst S'') y) = links (entry (fst S') y)" by (rule arrangedD) metis
        have x: "links (entry (fst S'') x) = links (entry (fst S') x)" using 2(4) d F' by simp
        have "links (entry (fst S') y) = links (entry (fst S'') y)" if "y \<in> set (entries ds)" for y
        proof -
          have "y \<notin> set (entries us)" using that d F' by auto
          then show ?thesis using 2(4) by simp
        qed
        from seg_cong [OF this] have "seg (entry (fst S'')) (Some x) (m_list (entry (fst S') x)) ds None" using 1(2) F' by simp
        then have "seg (entry (fst S'')) par p (FEntry x ds us') None" using 2(2) 1(2) linksD [OF x] F' by simp
        moreover have "entries (FEntry x ds us') = entries F" using 1(3) 2(3) F' by simp
        moreover have "links (entry (fst S'') y) = links (entry (fst S) y)" if "y \<notin> set (entries F)" for y
        proof -
          have "y \<notin> set (entries us)" using that 1(3) F' by (metis Un_iff entries.simps(2) list.set_intros(2) set_append)
          then show ?thesis using that 2(4) [of y] a by (simp add: arranged_def)
        qed
        ultimately show "arranged S par p F S''" unfolding arranged_def using tidy_trans [OF 1(1) 2(1)] by blast
      qed
    qed
    then show ?thesis by (simp add: p)
  qed
qed simp

section \<open>Entries that move up\<close>

lemma hoist_loop_moves:
  "seg (entry M) par (Some y) F None \<Longrightarrow> distinct (entries F) \<Longrightarrow> length (entries F) < n \<Longrightarrow>
   \<exists>z M'. hoist_loop n p y M = Ret (z, M') \<and> last_root F = Some z \<and> seg (entry M') (Some p) (Some y) F None \<and>
     (\<forall>x. x \<notin> set (entries F) \<longrightarrow> entry M' x = entry M x) \<and>
     (\<forall>x. m_sym (entry M' x) = m_sym (entry M x) \<and> m_prompt (entry M' x) = m_prompt (entry M x))"
proof (induction n arbitrary: y F M)
  case (Suc n)
  obtain cs ts where F: "F = FEntry y cs ts" using Suc.prems(1) by (cases F) auto
  let ?M = "upd_entry y (\<lambda>e. e\<lparr>m_parent := Some p\<rparr>) M"
  have y: "y \<notin> set (entries cs)" "y \<notin> set (entries ts)" using Suc.prems(2) F by auto
  have E: "entry ?M = (entry M)(y := (entry M y)\<lparr>m_parent := Some p\<rparr>)" by (simp add: upd_entry_def)
  have c: "seg (entry ?M) (Some y) (m_list (entry M y)) cs None" "seg (entry ?M) par (m_next (entry M y)) ts None"
    unfolding E seg_upd [OF y(1)] seg_upd [OF y(2)] using Suc.prems(1) F by simp_all
  have n: "m_next (entry ?M y) = m_next (entry M y)" "m_list (entry ?M y) = m_list (entry M y)" "m_parent (entry ?M y) = Some p" by (simp_all add: E)
  show ?case
  proof (cases ts)
    case FEnd
    then have "hoist_loop (Suc n) p y M = Ret (y, ?M)" using c(2) n by (simp add: Let_def)
    then show ?thesis using c n F FEnd by (simp add: E del: hoist_loop.simps)
  next
    case (FEntry z ds us)
    then have z: "m_next (entry M y) = Some z" using c(2) by simp
    obtain w M' where 1: "hoist_loop n p z ?M = Ret (w, M')" "last_root ts = Some w" "seg (entry M') (Some p) (Some z) ts None"
      "\<forall>x. x \<notin> set (entries ts) \<longrightarrow> entry M' x = entry ?M x"
      "\<forall>x. m_sym (entry M' x) = m_sym (entry ?M x) \<and> m_prompt (entry M' x) = m_prompt (entry ?M x)"
      using Suc.IH [of ?M z ts] c(2) z Suc.prems(2,3) F by auto
    have "seg (entry M') (Some y) (m_list (entry M y)) cs None"
      using c(1) seg_cong [of cs "entry ?M" "entry M'"] 1(4) Suc.prems(2) F by (metis disjoint_iff distinct.simps(2) distinct_append entries.simps(2))
    moreover have "entry M' y = entry ?M y" using 1(4) y by simp
    moreover have "hoist_loop (Suc n) p y M = Ret (w, M')" using 1(1) n(1) z by (simp add: Let_def)
    moreover have "last_root F = Some w" using 1(2) F FEntry by simp
    moreover have "m_sym (entry ?M x) = m_sym (entry M x) \<and> m_prompt (entry ?M x) = m_prompt (entry M x)" for x by (simp add: E)
    moreover have "entry ?M x = entry M x" if "x \<noteq> y" for x using that by (simp add: E)
    ultimately show ?thesis using 1(3,4,5) n z F by (intro exI [of _ w] exI [of _ M']) simp
  qed
qed simp

lemma good_syms: "good (M, K) \<Longrightarrow> (\<And>x. m_sym (entry M' x) = m_sym (entry M x)) \<Longrightarrow> good (M', K)"
  by (simp add: good_def)

lemma hoist_arranged:
  assumes g: "good (M, K)" and s: "seg (entry M) (Some p) (Some x) (FEntry x cs ts) None"
    and d: "distinct (entries (FEntry x cs ts))" and n: "length (entries cs) < n"
  shows "ends (arranged (M, K) (Some p) (Some x) (FEntry x cs ts)) (hoist n p x (M, K))"
proof -
  have same: "arranged (M, K) (Some p) (Some x) (FEntry x cs ts) (M, K)"
    by (rule unlinked_arranged [OF unlinked_refl [OF g]]) (use s in simp)
  show ?thesis
  proof (cases "m_list (entry M x) = None \<or> has_text x M K")
    case True
    then show ?thesis using same by (auto simp: hoist_def split: option.splits)
  next
    case False
    then obtain z where z: "m_list (entry M x) = Some z" "\<not> has_text x M K" by auto
    have c: "seg (entry M) (Some x) (Some z) cs None" "seg (entry M) (Some p) (m_next (entry M x)) ts None" "m_parent (entry M x) = Some p"
      using s z by simp_all
    have dc: "distinct (entries cs)" "x \<notin> set (entries cs)" "x \<notin> set (entries ts)" using d by simp_all
    obtain y M' where h: "hoist_loop n p z M = Ret (y, M')" "last_root cs = Some y" "seg (entry M') (Some p) (Some z) cs None"
      "\<forall>v. v \<notin> set (entries cs) \<longrightarrow> entry M' v = entry M v"
      "\<forall>v. m_sym (entry M' v) = m_sym (entry M v) \<and> m_prompt (entry M' v) = m_prompt (entry M v)"
      using hoist_loop_moves [OF c(1) dc(1) n] by blast
    have y: "y \<in> set (entries cs)" by (rule last_root_in [OF h(2)])
    then have yn: "y \<noteq> x" "y \<notin> set (entries ts)" using d by auto
    have x: "entry M' x = entry M x" using h(4) dc(2) by blast
    let ?E = "(entry M')(y := (entry M' y)\<lparr>m_next := m_next (entry M x)\<rparr>, x := (entry M x)\<lparr>m_next := Some z, m_list := None\<rparr>)"
    let ?M = "upd_entry x (\<lambda>e. e\<lparr>m_list := None\<rparr>) (upd_entry x (\<lambda>e. e\<lparr>m_next := m_list e\<rparr>) (upd_entry y (\<lambda>e. e\<lparr>m_next := m_next (entry M' x)\<rparr>) M'))"
    have E: "entry ?M = ?E" using yn(1) x z(1) by (auto simp: upd_entry_def)
    have r: "hoist n p x (M, K) = Ret (?M, K)" using z h(1) by (simp add: hoist_def Let_def)
    have "seg ((entry M')(y := (entry M' y)\<lparr>m_next := m_next (entry M x)\<rparr>)) (Some p) (Some z) cs (m_next (entry M x))"
      by (rule seg_relink [OF h(3,2) dc(1)])
    then have "seg ?E (Some p) (Some z) cs (m_next (entry M x))" by (simp only: seg_upd [OF dc(2)])
    moreover have "links (entry M v) = links (entry M' v)" if "v \<in> set (entries ts)" for v
      using that h(4) d by (metis disjoint_iff distinct.simps(2) distinct_append entries.simps(2))
    then have "seg (entry M') (Some p) (m_next (entry M x)) ts None" using seg_cong [of ts "entry M" "entry M'"] c(2) by simp
    then have "seg ?E (Some p) (m_next (entry M x)) ts None" by (simp only: seg_upd [OF dc(3)] seg_upd [OF yn(2)])
    ultimately have "seg ?E (Some p) (Some z) (fappend cs ts) None" unfolding seg_append by blast
    then have "seg ?E (Some p) (Some x) (FEntry x FEnd (fappend cs ts)) None" using c(3) by (simp del: fun_upd_apply add: fun_upd_same)
    moreover have "tidy (M, K) (?M, K)"
    proof -
      have m: "m_sym (entry ?M v) = m_sym (entry M v) \<and> m_prompt (entry ?M v) = m_prompt (entry M v)" for v
        unfolding E using h(5) by simp
      then have "good (?M, K)" by (intro good_syms [OF g]) blast
      then show ?thesis using m by (simp add: tidy_def)
    qed
    moreover have "links (entry ?M v) = links (entry M v)" if "v \<notin> set (entries (FEntry x cs ts))" for v
      unfolding E using that h(4) y by auto
    ultimately have "arranged (M, K) (Some p) (Some x) (FEntry x cs ts) (?M, K)"
      unfolding arranged_def fst_conv E by (intro conjI exI [of _ "FEntry x FEnd (fappend cs ts)"]) (simp_all del: fun_upd_apply)
    then show ?thesis unfolding r by simp
  qed
qed

section \<open>Members of choices\<close>

lemma is_const_flag: "is_const (view K) s = has_flag SYMBOL_CONST s K"
  by (simp add: is_const_def view_def has_flag_def)

lemma flag_masks [simp]: "SYMBOL_CHOICEVAL AND SYMBOL_CONST = 0" "SYMBOL_CHOICEVAL AND SYMBOL_CHOICE = 0"
  by (simp_all add: SYMBOL_CHOICEVAL_def SYMBOL_CONST_def SYMBOL_CHOICE_def)

lemma good_choiceval: "good (M, K) \<Longrightarrow> good (M, flag_set SYMBOL_CHOICEVAL t K)"
  by (rule good_step) (simp_all add: is_const_flag, simp_all add: prop_types_def)

lemma add_member_good:
  assumes "good (M, K)" "sym_is_choice s K"
  shows "\<exists>K'. add_member s t K = Ret K' \<and> good (M, K')"
proof -
  have "sym_get_choice_prop s K \<noteq> None" using assms by (simp add: good_def)
  moreover have "good (M, upd_sym s (\<lambda>y. y\<lparr>k_props := (let i = length (takeWhile (\<lambda>p. p_type p \<noteq> P_CHOICE) (k_props y))
      in (k_props y)[i := (k_props y ! i)\<lparr>p_members := t # p_members (k_props y ! i)\<rparr>])\<rparr>) K)"
    by (rule good_upd_sym [OF assms(1)]) (simp_all add: Let_def types_update del: set_map)
  ultimately show ?thesis by (simp add: add_member_def)
qed

lemma finalize_member_unlinked:
  assumes g: "good (M, K)" and s: "sym_is_choice s K" and t: "m_sym (entry M x) = Some t"
  shows "ends (unlinked (M, K)) (finalize_member s t x (M, K))"
proof -
  let ?K1 = "flag_set SYMBOL_CHOICEVAL t K" and ?M1 = "M\<lparr>current_entry := x\<rparr>"
  let ?ty = "k_type (ksym ?K1 s)"
  have g1: "good (?M1, ?K1)" using good_choiceval [OF g] by simp
  obtain K2 where 2: "menu_set_type ?ty ?M1 ?K1 = Ret K2" "good (?M1, K2)" using set_type_good [OF g1, of t ?ty] t by auto
  have c2: "sym_is_choice s K2" using 2(1) t s by (auto simp: menu_set_type_def const_props split: if_splits)
  let ?p = "(create_prop P_CHOICE)\<lparr>p_menu := Some x, p_text := None, p_def := Some s, p_visible := None\<rparr>"
  have a: "menu_add_prop P_CHOICE None (Some s) None (?M1, K2) = (PropOf t (length (k_props (ksym K2 t))), ?M1, append_prop t ?p K2)"
    using t by (simp add: menu_add_prop_def Let_def)
  have g3: "good (?M1, append_prop t ?p K2)" unfolding append_prop_def by (rule good_upd_sym [OF 2(2)]) auto
  have "sym_is_choice s (append_prop t ?p K2)" unfolding append_prop_def using c2 by (simp add: const_props)
  then obtain K4 where 4: "add_member s t (append_prop t ?p K2) = Ret K4" "good (?M1, K4)" using add_member_good [OF g3] by blast
  have "finalize_member s t x (M, K) = Ret (?M1, K4)" using 2(1) a 4(1) by (simp add: finalize_member_def Let_def)
  moreover have "unlinked (M, K) (?M1, K4)" using 4(2) by (intro unlinked_step [OF g]) simp_all
  ultimately show ?thesis by simp
qed

lemma finish_entry_arranges: "N < n \<Longrightarrow> arranges (finish_entry n p) N (Some p)"
  unfolding arranges_def
proof (intro allI impI)
  fix S :: "kmenus \<times> kconf" and x cs ts
  assume n: "N < n" and g: "good S" and s: "seg (entry (fst S)) (Some p) (Some x) (FEntry x cs ts) None"
    and d: "distinct (entries (FEntry x cs ts))" and l: "length (entries (FEntry x cs ts)) \<le> N"
  obtain M K where S: "S = (M, K)" by (cases S)
  let ?r = "case (m_sym (entry M p), m_sym (entry M x)) of
      (Some s, Some t) \<Rightarrow> if sym_is_choice s K then finalize_member s t x (M, K) else Ret (M, K) | _ \<Rightarrow> Ret (M, K)"
  have u: "ends (unlinked S) ?r"
    using g unlinked_refl [OF g] finalize_member_unlinked [of M K] unfolding S by (simp split: option.splits)
  have "ends (arranged S (Some p) (Some x) (FEntry x cs ts)) (obind ?r (hoist n p x))"
  proof (rule ends_obind [OF u])
    fix S' assume u: "unlinked S S'"
    have s': "seg (entry (fst S')) (Some p) (Some x) (FEntry x cs ts) None"
      using s u seg_cong [of "FEntry x cs ts" "entry (fst S)" "entry (fst S')"] unfolding unlinked_def by metis
    have "ends (arranged S' (Some p) (Some x) (FEntry x cs ts)) (hoist n p x S')"
      using hoist_arranged [of "fst S'" "snd S'" p x cs ts n] tidy_good(2) [OF u] s' d l n by simp
    then show "ends (arranged S (Some p) (Some x) (FEntry x cs ts)) (hoist n p x S')"
      by (rule ends_mono) (use u tidy_trans [OF tidy_good(3) [OF u]] in \<open>simp add: arranged_def unlinked_def\<close>)
  qed
  then show "ends (arranged S (Some p) (Some x) (FEntry x cs ts)) (finish_entry n p x S)" by (simp add: finish_entry_def S)
qed

end
