(* ===== verification/Kfinal_Props.thy ===== *)
theory Kfinal_Props
  imports Kfinal_Steps
begin

text \<open>Finishing the tree of menu entries keeps the order in which they are visited.\<close>

section \<open>Entries that move down\<close>

lemma eliminate_eq_ends: "ends (\<lambda>_. True) (expr_eliminate_eq (3 * ((case a of Some x \<Rightarrow> weight x | None \<Rightarrow> 0) + (case b of Some x \<Rightarrow> weight x | None \<Rightarrow> 0)) + 2) st a b)"
proof (cases "\<exists>x y. a = Some x \<and> b = Some y \<and> type_of x = type_of y \<and> type_of x \<in> {E_AND, E_OR}")
  case True
  then obtain x y where xy: "a = Some x" "b = Some y" "type_of x = type_of y" "type_of x \<in> {E_AND, E_OR}" by blast
  have "eliminates x y (eliminate_eq (3 * (weight x + weight y) + 2) st (type_of x) x y)"
    using eq_ends [of "3 * (weight x + weight y) + 2" st] by auto
  then show ?thesis using xy by (auto simp: expr_eliminate_eq_def ends_def eliminates_def)
qed (auto simp: expr_eliminate_eq_def ends_def split: option.splits)

lemma joins_parent_ends: "shape_ok st \<Longrightarrow> ends (\<lambda>_. True) (joins_parent st s b d)"
proof (cases d)
  case (Some x)
  assume ok: "shape_ok st"
  obtain e where e: "transformed st (expr_trans_compare d False symbol_no) = Ret e" using transformed_ends [OF ok] by blast
  obtain e' where e': "eliminated st e = Ret e'" using eliminated_ends [OF ok] by blast
  have "ends (\<lambda>_. True) (obind (expr_eliminate_eq (3 * ((case e' of Some x \<Rightarrow> weight x | None \<Rightarrow> 0) +
      (case map_option expr_copy b of Some x \<Rightarrow> weight x | None \<Rightarrow> 0)) + 2) st e' (map_option expr_copy b)) (\<lambda>(dep, dep2). Ret (expr_is_yes dep2)))"
    by (rule ends_obind [OF eliminate_eq_ends]) (simp split: prod.split)
  then show ?thesis using Some e e' by (simp add: joins_parent_def Let_def)
qed (simp add: joins_parent_def)

definition adopted :: "kmenus \<times> kconf \<Rightarrow> nat \<Rightarrow> nat option \<Rightarrow> nat option \<Rightarrow> forest \<Rightarrow> nat option \<Rightarrow> nat option \<times> kmenus \<times> kconf \<Rightarrow> bool" where
  "adopted S p par q R y = (\<lambda>(y', S'). tidy S S' \<and>
     (\<exists>D R' r. seg (entry (fst S')) (Some p) q D r \<and> seg (entry (fst S')) par r R' None \<and> entries D @ entries R' = entries R \<and>
        y' = (if D = FEnd then y else last_root D)) \<and>
     (\<forall>x. x \<notin> set (entries R) \<longrightarrow> links (entry (fst S') x) = links (entry (fst S) x)))"

lemma adopted_none: "good S \<Longrightarrow> seg (entry (fst S)) par q R None \<Longrightarrow> adopted S p par q R y (y, S)"
  unfolding adopted_def prod.case by (intro conjI exI [of _ FEnd] exI [of _ R] exI [of _ q]) (simp_all add: tidy_def)

lemma last_root_entry: "last_root (FEntry x cs ts) = (if ts = FEnd then Some x else last_root ts)"
  by (cases ts) simp_all

text \<open>The first of the entries has moved; the others move after it.\<close>

lemma adopted_first:
  assumes a: "arranged S par (Some x) (FEntry x cs ts) S'" and d: "distinct (entries (FEntry x cs ts))"
    and S2: "S2 = (upd_entry x (\<lambda>e. e\<lparr>m_parent := Some p\<rparr>) (fst S'), snd S')"
  obtains ds us where "good S2" "seg (entry (fst S2)) par (m_next (entry (fst S2) x)) us None" "distinct (entries us)"
    "length (entries us) < length (entries (FEntry x cs ts))"
    "\<And>y T. adopted S2 p par (m_next (entry (fst S2) x)) us (Some x) T \<Longrightarrow> adopted S p par (Some x) (FEntry x cs ts) y T"
proof -
  obtain F' where 1: "tidy S S'" "seg (entry (fst S')) par (Some x) F' None" "entries F' = entries (FEntry x cs ts)"
    "\<And>v. v \<notin> set (entries (FEntry x cs ts)) \<Longrightarrow> links (entry (fst S') v) = links (entry (fst S) v)" using arrangedD [OF a] by metis
  obtain ds us where F': "F' = FEntry x ds us" using 1(2,3) by (cases F') auto
  have d': "distinct (entries F')" using 1(3) d by simp
  then have x: "x \<notin> set (entries ds)" "x \<notin> set (entries us)" using F' by simp_all
  have E: "entry (fst S2) = (entry (fst S'))(x := (entry (fst S') x)\<lparr>m_parent := Some p\<rparr>)" by (simp add: S2 upd_entry_def)
  have m: "m_sym (entry (fst S2) v) = m_sym (entry (fst S') v) \<and> m_prompt (entry (fst S2) v) = m_prompt (entry (fst S') v)" for v by (simp add: E)
  have "good (fst S', snd S')" using tidy_good(1) [OF 1(1)] by simp
  then have "good (fst S2, snd S')" by (rule good_syms) (use m in blast)
  then have g: "good S2" using S2 by (metis fst_conv snd_conv prod.collapse)
  have t: "tidy S S2" using 1(1) g m by (simp add: tidy_def)
  have f: "m_next (entry (fst S2) x) = m_next (entry (fst S') x)" "m_list (entry (fst S2) x) = m_list (entry (fst S') x)" "m_parent (entry (fst S2) x) = Some p"
    by (simp_all add: E)
  have us: "seg (entry (fst S2)) par (m_next (entry (fst S2) x)) us None" unfolding f E seg_upd [OF x(2)] using 1(2) F' by simp
  have ds: "seg (entry (fst S2)) (Some x) (m_list (entry (fst S2) x)) ds None" unfolding f E seg_upd [OF x(1)] using 1(2) F' by simp
  have l: "length (entries us) < length (entries (FEntry x cs ts))" unfolding 1(3) [symmetric] F' by simp
  have "adopted S p par (Some x) (FEntry x cs ts) y T" if h: "adopted S2 p par (m_next (entry (fst S2) x)) us (Some x) T" for y T
  proof -
    obtain y' S3 where T: "T = (y', S3)" by (cases T)
    obtain D R' r where 3: "tidy S2 S3" "seg (entry (fst S3)) (Some p) (m_next (entry (fst S2) x)) D r" "seg (entry (fst S3)) par r R' None"
      "entries D @ entries R' = entries us" "y' = (if D = FEnd then Some x else last_root D)"
      "\<And>v. v \<notin> set (entries us) \<Longrightarrow> links (entry (fst S3) v) = links (entry (fst S2) v)" using h unfolding adopted_def T by auto
    have "links (entry (fst S2) v) = links (entry (fst S3) v)" if "v \<in> set (entries ds)" for v
    proof -
      have "v \<notin> set (entries us)" using that d' F' by auto
      then show ?thesis using 3(6) by simp
    qed
    from seg_cong [OF this] have "seg (entry (fst S3)) (Some x) (m_list (entry (fst S2) x)) ds None" using ds by simp
    then have "seg (entry (fst S3)) (Some p) (Some x) (FEntry x ds D) r" using linksD [OF 3(6) [OF x(2)]] f(3) 3(2) by simp
    moreover have "entries (FEntry x ds D) @ entries R' = entries (FEntry x cs ts)" unfolding 1(3) [symmetric] F' using 3(4) by simp
    moreover have "y' = last_root (FEntry x ds D)" unfolding last_root_entry 3(5) ..
    moreover have "links (entry (fst S3) v) = links (entry (fst S) v)" if v: "v \<notin> set (entries (FEntry x cs ts))" for v
    proof -
      have "v \<notin> set (entries F')" using v 1(3) by simp
      then have "v \<notin> set (entries us)" "v \<noteq> x" using F' by simp_all
      then show ?thesis using 3(6) 1(4) [OF v] by (simp add: E)
    qed
    ultimately show ?thesis unfolding adopted_def T prod.case using tidy_trans [OF t 3(1)] 3(3)
      by (intro conjI exI [of _ "FEntry x ds D"] exI [of _ R'] exI [of _ r]) (simp_all del: entries.simps last_root.simps seg.simps)
  qed
  moreover have "distinct (entries us)" using d' F' by simp
  ultimately show thesis using that g us l by metis
qed

lemma adopt_loop_moves:
  assumes f: "arranges f N par"
  shows "seg (entry (fst S)) par q R None \<Longrightarrow> distinct (entries R) \<Longrightarrow> length (entries R) \<le> N \<Longrightarrow> length (entries R) < n \<Longrightarrow> good S \<Longrightarrow>
    ends (adopted S p par q R y) (adopt_loop n f p s b q y S)"
proof (induction n arbitrary: q R y S)
  case (Suc n)
  note g = Suc.prems(5)
  show ?case
  proof (cases R)
    case FEnd
    then show ?thesis using Suc.prems adopted_none [OF g Suc.prems(1)] by simp
  next
    case (FEntry x cs ts)
    then have q: "q = Some x" using Suc.prems by simp
    let ?next = "\<lambda>b'. if \<not> b' then Ret (y, S) else obind (f x S) (\<lambda>(M, K).
        let M = upd_entry x (\<lambda>e. e\<lparr>m_parent := Some p\<rparr>) M in adopt_loop n f p s b (m_next (entry M x)) (Some x) (M, K))"
    have "ends (adopted S p par q R y) (?next b')" for b'
    proof (cases b')
      case True
      have "ends (adopted S p par q R y) (obind (f x S) (\<lambda>(M, K).
        let M = upd_entry x (\<lambda>e. e\<lparr>m_parent := Some p\<rparr>) M in adopt_loop n f p s b (m_next (entry M x)) (Some x) (M, K)))"
      proof (rule ends_obind)
        show "ends (arranged S par (Some x) (FEntry x cs ts)) (f x S)" using f Suc.prems unfolding arranges_def FEntry q by blast
        fix S' assume a: "arranged S par (Some x) (FEntry x cs ts) S'"
        define S2 where S2: "S2 = (upd_entry x (\<lambda>e. e\<lparr>m_parent := Some p\<rparr>) (fst S'), snd S')"
        obtain us where 2: "good S2" "seg (entry (fst S2)) par (m_next (entry (fst S2) x)) us None" "distinct (entries us)"
          "length (entries us) < length (entries (FEntry x cs ts))"
          "\<And>y T. adopted S2 p par (m_next (entry (fst S2) x)) us (Some x) T \<Longrightarrow> adopted S p par (Some x) (FEntry x cs ts) y T"
          using adopted_first [OF a Suc.prems(2) [unfolded FEntry] S2] by metis
        have l: "length (entries us) \<le> N" "length (entries us) < n" using 2(4) Suc.prems(3,4) FEntry by simp_all
        have "ends (adopted S p par q R y) (adopt_loop n f p s b (m_next (entry (fst S2) x)) (Some x) S2)"
          unfolding q FEntry by (rule ends_mono [OF Suc.IH [OF 2(2,3) l 2(1)] 2(5)])
        then show "ends (adopted S p par q R y) (case S' of (M, K) \<Rightarrow>
            let M = upd_entry x (\<lambda>e. e\<lparr>m_parent := Some p\<rparr>) M in adopt_loop n f p s b (m_next (entry M x)) (Some x) (M, K))"
          by (simp add: S2 case_prod_beta Let_def)
      qed
      then show ?thesis using True by simp
    qed (simp add: adopted_none [OF g Suc.prems(1)])
    moreover have "shape_ok (view (snd S))" using g by (simp add: good_def)
    ultimately have "ends (adopted S p par q R y) (obind (joins_parent (view (snd S)) s b (entry_dep x (fst S) (snd S))) ?next)"
      by (intro ends_obind [OF joins_parent_ends])
    then show ?thesis unfolding q adopt_loop.simps .
  qed
qed simp

lemma adopt_moves:
  assumes a: "adopted S p par (m_next (entry (fst S) p)) R None (y, S')" and s: "seg (entry (fst S)) par (Some p) (FEntry p FEnd R) None"
    and d: "distinct (entries (FEntry p FEnd R))"
  shows "arranged S par (Some p) (FEntry p FEnd R) (adopt p y (fst S'), snd S')"
proof -
  obtain D R' r where 1: "tidy S S'" "seg (entry (fst S')) (Some p) (m_next (entry (fst S) p)) D r" "seg (entry (fst S')) par r R' None"
    "entries D @ entries R' = entries R" "y = (if D = FEnd then None else last_root D)"
    "\<And>x. x \<notin> set (entries R) \<Longrightarrow> links (entry (fst S') x) = links (entry (fst S) x)" using a unfolding adopted_def by auto
  have p: "p \<notin> set (entries R)" using d by simp
  then have pn: "p \<notin> set (entries D)" "p \<notin> set (entries R')" using 1(4) by (metis Un_iff set_append)+
  note lp = linksD [OF 1(6) [OF p]]
  have y: "y = last_root D" using 1(5) by simp
  show ?thesis
  proof (cases y)
    case None
    then have D: "D = FEnd" using y last_root_None by metis
    have "seg (entry (fst S')) par (Some p) (FEntry p FEnd R') None" using 1(2,3) D lp s by simp
    then have "arranged S par (Some p) (FEntry p FEnd R) S'"
      unfolding arranged_def using 1(1,4,6) D by (intro conjI exI [of _ "FEntry p FEnd R'"]) simp_all
    then show ?thesis using None by (simp add: adopt_def)
  next
    case (Some z)
    then have z: "last_root D = Some z" using y by simp
    have zD: "z \<in> set (entries D)" by (rule last_root_in [OF z])
    have dd: "distinct (entries D @ entries R')" unfolding 1(4) using d by simp
    then have zn: "z \<noteq> p" "z \<notin> set (entries R')" using zD pn by auto
    have zr: "m_next (entry (fst S') z) = r" by (rule last_root_next [OF 1(2) z])
    let ?E = "(entry (fst S'))(z := (entry (fst S') z)\<lparr>m_next := None\<rparr>, p := (entry (fst S') p)\<lparr>m_list := m_next (entry (fst S) p), m_next := r\<rparr>)"
    have E: "entry (adopt p y (fst S')) = ?E" using zn zr lp by (auto simp: Some adopt_def upd_entry_def Let_def)
    have "seg ((entry (fst S'))(z := (entry (fst S') z)\<lparr>m_next := None\<rparr>)) (Some p) (m_next (entry (fst S) p)) D None"
      by (rule seg_relink [OF 1(2) z]) (use dd in simp)
    then have "seg ?E (Some p) (m_next (entry (fst S) p)) D None" by (simp only: seg_upd [OF pn(1)])
    moreover have "seg ?E par r R' None" using 1(3) by (simp only: seg_upd [OF pn(2)] seg_upd [OF zn(2)])
    ultimately have "seg ?E par (Some p) (FEntry p D R') None" using lp s by (simp del: fun_upd_apply add: fun_upd_same)
    moreover have m: "m_sym (?E v) = m_sym (entry (fst S') v) \<and> m_prompt (?E v) = m_prompt (entry (fst S') v)" for v by simp
    have "good (fst S', snd S')" using tidy_good(1) [OF 1(1)] by simp
    then have "good (adopt p y (fst S'), snd S')" by (rule good_syms) (unfold E, use m in blast)
    then have "tidy S (adopt p y (fst S'), snd S')" using 1(1) m unfolding tidy_def fst_conv E by metis
    moreover have "links (?E v) = links (entry (fst S) v)" if "v \<notin> set (entries (FEntry p FEnd R))" for v
    proof -
      have "v \<notin> set (entries R)" "v \<noteq> p" using that by simp_all
      moreover have "v \<noteq> z" using zD \<open>v \<notin> set (entries R)\<close> 1(4) by (metis Un_iff set_append)
      ultimately show ?thesis using 1(6) by simp
    qed
    ultimately show ?thesis unfolding arranged_def fst_conv E using 1(4)
      by (intro conjI exI [of _ "FEntry p D R'"]) (simp_all del: fun_upd_apply)
  qed
qed

section \<open>The whole tree\<close>

text \<open>What is done to the list below an entry.\<close>

lemma below_arranged:
  assumes a: "arranged S (Some p) (m_list (entry (fst S) p)) cs S'" and s: "seg (entry (fst S)) par (Some p) (FEntry p cs ts) None"
    and d: "distinct (entries (FEntry p cs ts))"
  shows "arranged S par (Some p) (FEntry p cs ts) S'"
proof -
  obtain cs' where 1: "tidy S S'" "seg (entry (fst S')) (Some p) (m_list (entry (fst S) p)) cs' None" "entries cs' = entries cs"
    "\<And>x. x \<notin> set (entries cs) \<Longrightarrow> links (entry (fst S') x) = links (entry (fst S) x)" using arrangedD [OF a] by metis
  have p: "p \<notin> set (entries cs)" using d by simp
  have "links (entry (fst S) x) = links (entry (fst S') x)" if "x \<in> set (entries ts)" for x
  proof -
    have "x \<notin> set (entries cs)" using that d by auto
    then show ?thesis using 1(4) by simp
  qed
  from seg_cong [OF this] have "seg (entry (fst S')) par (m_next (entry (fst S) p)) ts None" using s by simp
  then have "seg (entry (fst S')) par (Some p) (FEntry p cs' ts) None" using 1(2) linksD [OF 1(4) [OF p]] s by simp
  then show ?thesis unfolding arranged_def using 1(1,3,4) by (intro conjI exI [of _ "FEntry p cs' ts"]) simp_all
qed

lemma unlinked_seg: "unlinked S S' \<Longrightarrow> seg (entry (fst S')) par p F q = seg (entry (fst S)) par p F q"
  by (rule seg_cong) (simp add: unlinked_def)

lemma unlinked_then_arranged:
  assumes "unlinked S S'" "arranged S' par p F S''"
  shows "arranged S par p F S''"
  using assms tidy_trans [OF tidy_good(3) [OF assms(1)]] by (simp add: arranged_def unlinked_def)

lemma finalize_list_below:
  assumes f: "arranges f N (Some p)" and g: "good S" and s: "seg (entry (fst S)) par (Some p) (FEntry p cs ts) None"
    and d: "distinct (entries (FEntry p cs ts))" and l: "length (entries cs) \<le> N" "length (entries cs) < n"
  shows "ends (arranged S (Some p) (m_list (entry (fst S) p)) cs) (finalize_list n f p S)"
proof -
  obtain M K where S: "S = (M, K)" by (cases S)
  have cs: "seg (entry M) (Some p) (m_list (entry M p)) cs None" using s S by simp
  let ?r = "case m_sym (entry M p) of Some s \<Rightarrow> if sym_is_choice s K then first_choice n p s (m_list (entry M p)) (M, K) else Ret (M, K) | None \<Rightarrow> Ret (M, K)"
  have "ends (unlinked S) ?r"
    using first_choice_unlinked [OF cs l(2)] g unlinked_refl [OF g] unfolding S by (simp split: option.splits)
  then have "ends (arranged S (Some p) (m_list (entry (fst S) p)) cs) (obind ?r (\<lambda>(M, K).
      obind (entry_loop n (finalize_entry (parent_dep p M K)) (m_list (entry M p)) (M, K)) (\<lambda>(M, K). entry_loop n f (m_list (entry M p)) (M, K))))"
  proof (rule ends_obind)
    fix S1 assume u1: "unlinked S S1"
    obtain M1 K1 where S1: "S1 = (M1, K1)" by (cases S1)
    have s1: "seg (entry (fst S1)) (Some p) (m_list (entry M1 p)) cs None"
      using s unlinked_seg [OF u1, of par "Some p" "FEntry p cs ts" None] S1 by simp
    have "ends (arranged S (Some p) (m_list (entry (fst S) p)) cs) (obind (entry_loop n (finalize_entry (parent_dep p M1 K1)) (m_list (entry M1 p)) S1)
        (\<lambda>(M, K). entry_loop n f (m_list (entry M p)) (M, K)))"
    proof (rule ends_obind [OF entry_loop_unlinked [OF _ s1 l(2) tidy_good(2) [OF u1]]])
      show "good T \<Longrightarrow> ends (unlinked T) (finalize_entry (parent_dep p M1 K1) x T)" for x T by (rule finalize_entry_unlinked)
      fix S2 assume u2: "unlinked S1 S2"
      have u: "unlinked S S2" by (rule unlinked_trans [OF u1 u2])
      have s2: "seg (entry (fst S2)) par (Some p) (FEntry p cs ts) None" unfolding unlinked_seg [OF u] by (rule s)
      have "seg (entry (fst S2)) (Some p) (m_list (entry (fst S2) p)) cs None" using s2 by simp
      from entry_loop_arranged [OF f this _ l tidy_good(2) [OF u]]
      have "ends (arranged S2 (Some p) (m_list (entry (fst S2) p)) cs) (entry_loop n f (m_list (entry (fst S2) p)) S2)" using d by simp
      then have r: "ends (arranged S (Some p) (m_list (entry (fst S2) p)) cs) (entry_loop n f (m_list (entry (fst S2) p)) S2)"
        by (rule ends_mono) (rule unlinked_then_arranged [OF u])
      have "links (entry (fst S2) p) = links (entry (fst S) p)" using u by (simp add: unlinked_def)
      from conjunct2 [OF conjunct2 [OF linksD [OF this]]] r
      have "ends (arranged S (Some p) (m_list (entry (fst S) p)) cs) (entry_loop n f (m_list (entry (fst S2) p)) S2)" by simp
      then show "ends (arranged S (Some p) (m_list (entry (fst S) p)) cs) (case S2 of (M, K) \<Rightarrow> entry_loop n f (m_list (entry M p)) (M, K))"
        by (simp add: case_prod_beta)
    qed
    then show "ends (arranged S (Some p) (m_list (entry (fst S) p)) cs) (case S1 of (M, K) \<Rightarrow>
      obind (entry_loop n (finalize_entry (parent_dep p M K)) (m_list (entry M p)) (M, K)) (\<lambda>(M, K). entry_loop n f (m_list (entry M p)) (M, K)))"
      by (simp add: S1)
  qed
  then show ?thesis by (simp add: finalize_list_def S)
qed

lemma finalize_list_arranges:
  assumes f: "arranges f N (Some p)" and g: "good S" and s: "seg (entry (fst S)) par (Some p) (FEntry p cs ts) None"
    and d: "distinct (entries (FEntry p cs ts))" and l: "length (entries cs) \<le> N" "length (entries cs) < n"
  shows "ends (arranged S par (Some p) (FEntry p cs ts)) (finalize_list n f p S)"
  by (rule ends_mono [OF finalize_list_below [OF assms] below_arranged [OF _ s d]])

lemma adopt_entries_arranges:
  assumes f: "arranges f N par" and g: "good S" and s: "seg (entry (fst S)) par (Some p) (FEntry p FEnd ts) None"
    and d: "distinct (entries (FEntry p FEnd ts))" and l: "length (entries ts) \<le> N" "length (entries ts) < n"
  shows "ends (arranged S par (Some p) (FEntry p FEnd ts)) (adopt_entries n f p v r S)"
proof -
  obtain M K where S: "S = (M, K)" by (cases S)
  obtain b where b: "transformed (view K) (expr_trans_compare (p_visible (prompt_prop r M K)) False symbol_no) = Ret b" using transformed_ends good_shape g S by blast
  obtain b' where b': "eliminated (view K) b = Ret b'" using eliminated_ends good_shape g S by blast
  have ts: "seg (entry (fst S)) par (m_next (entry (fst S) p)) ts None" using s by simp
  have dt: "distinct (entries ts)" using d by simp
  have "ends (arranged S par (Some p) (FEntry p FEnd ts)) (obind (adopt_loop n f p v b' (m_next (entry (fst S) p)) None S) (\<lambda>(y, M, K). Ret (adopt p y M, K)))"
  proof (rule ends_obind [OF adopt_loop_moves [OF f ts dt l g]])
    fix T assume a: "adopted S p par (m_next (entry (fst S) p)) ts None T"
    obtain y S' where T: "T = (y, S')" by (cases T)
    from adopt_moves [OF a [unfolded T] s d]
    show "ends (arranged S par (Some p) (FEntry p FEnd ts)) (case T of (y, M, K) \<Rightarrow> Ret (adopt p y M, K))"
      by (simp add: T case_prod_beta)
  qed
  then show ?thesis using b b' by (simp add: adopt_entries_def S)
qed

lemma menu_finalize_arranges: "arranges (menu_finalize n) n par"
proof (induction n arbitrary: par)
  case 0
  then show ?case by (simp add: arranges_def)
next
  case (Suc n)
  show ?case unfolding arranges_def
  proof (intro allI impI)
    fix S :: "kmenus \<times> kconf" and p cs ts
    assume g: "good S" and s: "seg (entry (fst S)) par (Some p) (FEntry p cs ts) None"
      and d: "distinct (entries (FEntry p cs ts))" and l: "length (entries (FEntry p cs ts)) \<le> Suc n"
    let ?F = "FEntry p cs ts"
    have lc: "length (entries cs) \<le> n" "length (entries cs) < Suc n" "length (entries ts) \<le> n" "length (entries ts) < Suc n" using l by simp_all
    let ?r = "case (m_list (entry (fst S) p), m_sym (entry (fst S) p), m_prompt (entry (fst S) p)) of
              (Some x, _, _) \<Rightarrow> finalize_list (Suc n) (menu_finalize n) p S
            | (None, Some s, Some r) \<Rightarrow> adopt_entries (Suc n) (menu_finalize n) p s r S
            | _ \<Rightarrow> Ret S"
    have same: "arranged S par (Some p) ?F S" by (rule unlinked_arranged [OF unlinked_refl [OF g] s])
    have r: "ends (arranged S par (Some p) ?F) ?r"
    proof (cases "m_list (entry (fst S) p)")
      case (Some x)
      then show ?thesis using finalize_list_arranges [OF Suc.IH g s d lc(1,2)] by simp
    next
      case None
      then have cs: "cs = FEnd" using s by (cases cs) simp_all
      show ?thesis
        using None same adopt_entries_arranges [OF Suc.IH g s [unfolded cs] d [unfolded cs] lc(3,4)] unfolding cs by (simp split: option.splits)
    qed
    have "ends (arranged S par (Some p) ?F) (obind ?r (\<lambda>(M, K). entry_loop (Suc n) (finish_entry (Suc n) p) (m_list (entry M p)) (M, K)))"
    proof (rule ends_obind [OF r])
      fix S1 assume a: "arranged S par (Some p) ?F S1"
      have "ends (arranged S par (Some p) ?F) (entry_loop (Suc n) (finish_entry (Suc n) p) (m_list (entry (fst S1) p)) S1)"
      proof -
        obtain F1 where 1: "tidy S S1" "seg (entry (fst S1)) par (Some p) F1 None" "entries F1 = entries ?F" using arrangedD [OF a] by metis
        obtain cs1 ts1 where F1: "F1 = FEntry p cs1 ts1" using 1(2,3) by (cases F1) auto
        have d1: "distinct (entries F1)" "length (entries F1) \<le> Suc n" using d l 1(3) by simp_all
        have "ends (arranged S1 (Some p) (m_list (entry (fst S1) p)) cs1) (entry_loop (Suc n) (finish_entry (Suc n) p) (m_list (entry (fst S1) p)) S1)"
          by (rule entry_loop_arranged [OF finish_entry_arranges [of n "Suc n" p]]) (use 1(2) F1 d1 tidy_good(1) [OF 1(1)] in simp_all)
        then show ?thesis
        proof (rule ends_mono)
          fix S2 assume "arranged S1 (Some p) (m_list (entry (fst S1) p)) cs1 S2"
          then have "arranged S1 par (Some p) F1 S2" unfolding F1 by (rule below_arranged) (use 1(2) d1 F1 in simp_all)
          then obtain F2 where 2: "tidy S1 S2" "seg (entry (fst S2)) par (Some p) F2 None" "entries F2 = entries F1"
            "\<And>x. x \<notin> set (entries F1) \<Longrightarrow> links (entry (fst S2) x) = links (entry (fst S1) x)" using arrangedD by metis
          have "links (entry (fst S2) x) = links (entry (fst S) x)" if "x \<notin> set (entries ?F)" for x
            using that 2(4) 1(3) a by (simp add: arranged_def)
          then show "arranged S par (Some p) ?F S2" unfolding arranged_def using tidy_trans [OF 1(1) 2(1)] 2(2,3) 1(3) by metis
        qed
      qed
      then show "ends (arranged S par (Some p) ?F) (case S1 of (M, K) \<Rightarrow> entry_loop (Suc n) (finish_entry (Suc n) p) (m_list (entry M p)) (M, K))"
        by (simp add: case_prod_beta)
    qed
    then show "ends (arranged S par (Some p) ?F) (menu_finalize (Suc n) p S)" by simp
  qed
qed

text \<open>An entry that has a list stays where it is.\<close>

lemma menu_finalize_below:
  assumes g: "good S" and s: "seg (entry (fst S)) par (Some p) (FEntry p cs ts) None" and d: "distinct (entries (FEntry p cs ts))"
    and l: "length (entries cs) < n" and cs: "cs \<noteq> FEnd"
  shows "ends (arranged S (Some p) (m_list (entry (fst S) p)) cs) (menu_finalize n p S)"
proof -
  obtain k where k: "n = Suc k" "length (entries cs) \<le> k" "length (entries cs) < Suc k" using l by (cases n) auto
  obtain x where x: "m_list (entry (fst S) p) = Some x" using s cs by (cases cs) simp_all
  let ?P = "arranged S (Some p) (m_list (entry (fst S) p)) cs"
  have "ends ?P (obind (finalize_list (Suc k) (menu_finalize k) p S) (\<lambda>(M, K). entry_loop (Suc k) (finish_entry (Suc k) p) (m_list (entry M p)) (M, K)))"
  proof (rule ends_obind [OF finalize_list_below [OF menu_finalize_arranges g s d k(2,3)]])
    fix S1 assume a: "?P S1"
    then obtain F1 where 1: "tidy S S1" "seg (entry (fst S1)) (Some p) (m_list (entry (fst S) p)) F1 None" "entries F1 = entries cs"
      "\<And>x. x \<notin> set (entries cs) \<Longrightarrow> links (entry (fst S1) x) = links (entry (fst S) x)" using arrangedD by metis
    have "p \<notin> set (entries cs)" using d by simp
    then have m: "m_list (entry (fst S1) p) = m_list (entry (fst S) p)" using linksD [OF 1(4)] by blast
    have "ends ?P (entry_loop (Suc k) (finish_entry (Suc k) p) (m_list (entry (fst S) p)) S1)"
    proof (rule ends_mono [OF entry_loop_arranged [OF finish_entry_arranges [of k "Suc k" p] 1(2)]])
      show "distinct (entries F1)" "length (entries F1) \<le> k" "length (entries F1) < Suc k" using d k 1(3) by simp_all
      show "good S1" by (rule tidy_good(1) [OF 1(1)])
      fix S2 assume 2: "arranged S1 (Some p) (m_list (entry (fst S) p)) F1 S2"
      then obtain F2 where 2: "tidy S1 S2" "seg (entry (fst S2)) (Some p) (m_list (entry (fst S) p)) F2 None" "entries F2 = entries F1"
        "\<And>x. x \<notin> set (entries F1) \<Longrightarrow> links (entry (fst S2) x) = links (entry (fst S1) x)" using arrangedD by metis
      show "?P S2" unfolding arranged_def using tidy_trans [OF 1(1) 2(1)] 1(3,4) 2 by metis
    qed simp
    then show "ends ?P (case S1 of (M, K) \<Rightarrow> entry_loop (Suc k) (finish_entry (Suc k) p) (m_list (entry M p)) (M, K))"
      by (simp add: case_prod_beta m)
  qed
  then show ?thesis using x by (simp add: k(1))
qed

end
