(* ===== verification/Kfinal_Order.thy ===== *)
theory Kfinal_Order
  imports Kfinal_Props Kconfdata_Props
begin

text \<open>
  The entries are visited in the order in which the configuration files have them: building the tree appends
  an entry to this order, and finishing the tree keeps it.
\<close>

section \<open>Visiting a tree\<close>

definition after_entry :: "nat \<Rightarrow> nat \<Rightarrow> kmenus \<Rightarrow> nat option outcome" where
  "after_entry n x M = (case m_next (entry M x) of Some y \<Rightarrow> Ret (Some y) | None \<Rightarrow> climb n x M)"

lemma walk_seg:
  "seg (entry M) (Some p) l F None \<Longrightarrow> (\<And>n. d \<le> n \<Longrightarrow> after_entry n p M = Ret a) \<Longrightarrow> d + length (entries F) \<le> D \<Longrightarrow> walk D M a rest \<Longrightarrow>
   walk D M (if F = FEnd then a else l) (entries F @ rest)"
proof (induction F arbitrary: p l d a rest)
  case (FEntry x cs ts)
  from FEntry.prems(1) have s: "l = Some x" "m_parent (entry M x) = Some p" "seg (entry M) (Some x) (m_list (entry M x)) cs None"
    "seg (entry M) (Some p) (m_next (entry M x)) ts None" by simp_all
  let ?b = "if ts = FEnd then a else m_next (entry M x)"
  have ts: "walk D M ?b (entries ts @ rest)" using FEntry.IH(2) [OF s(4) FEntry.prems(2) _ FEntry.prems(4)] FEntry.prems(3) by simp
  have after: "after_entry n x M = Ret ?b" if n: "Suc d \<le> n" for n
  proof (cases ts)
    case FEnd
    obtain k where k: "n = Suc k" "d \<le> k" using n by (cases n) auto
    have "climb n x M = after_entry k p M" using s(2) k(1) by (simp add: after_entry_def)
    then show ?thesis using FEntry.prems(2) [OF k(2)] s(4) FEnd by (simp add: after_entry_def)
  next
    case (FEntry y ds us)
    then show ?thesis using s(4) by (simp add: after_entry_def)
  qed
  have cs: "walk D M (if cs = FEnd then ?b else m_list (entry M x)) (entries cs @ entries ts @ rest)"
    using FEntry.IH(1) [OF s(3) after _ ts] FEntry.prems(3) by simp
  have "next_entry n x M = Ret (if cs = FEnd then ?b else m_list (entry M x))" if "D \<le> n" for n
  proof (cases cs)
    case FEnd
    have "Suc d \<le> n" using that FEntry.prems(3) by simp
    then show ?thesis using after [of n] s(3) FEnd by (auto simp: next_entry_def after_entry_def split: option.splits)
  next
    case (FEntry y ds us)
    then show ?thesis using s(3) by (simp add: next_entry_def)
  qed
  then show ?case using cs s(1) by auto
qed simp

lemma walk_tree:
  assumes "seg (entry M) None (Some rootmenu) (FEntry rootmenu F FEnd) None" "length (entries F) < D"
  shows "walk D M (m_list (entry M rootmenu)) (entries F)"
proof -
  have s: "m_parent (entry M rootmenu) = None" "seg (entry M) (Some rootmenu) (m_list (entry M rootmenu)) F None" "m_next (entry M rootmenu) = None"
    using assms(1) by simp_all
  have "after_entry n rootmenu M = Ret None" if "1 \<le> n" for n using s that by (cases n) (simp_all add: after_entry_def)
  from walk_seg [OF s(2) this, where D = D and rest = "[]"] assms(2) have "walk D M (if F = FEnd then None else m_list (entry M rootmenu)) (entries F)" by simp
  then show ?thesis using s(2) by (cases F) simp_all
qed

section \<open>Building a tree\<close>

text \<open>What the parser does to the tree for an entry without a menu, for one with a menu, and at the end of a menu.\<close>

datatype event = Config "sym_ref option" | Menu "sym_ref option" | EndMenu

fun build_step :: "event \<Rightarrow> kmenus \<times> kconf \<Rightarrow> (kmenus \<times> kconf) outcome" where
  "build_step (Config s) MK = Ret (menu_add_entry s MK)"
| "build_step (Menu s) MK = (let (M, K) = menu_add_entry s MK in Ret (menu_add_menu M, K))"
| "build_step EndMenu (M, K) = obind (menu_end_menu M) (\<lambda>M. Ret (M, K))"

fun build :: "event list \<Rightarrow> kmenus \<times> kconf \<Rightarrow> (kmenus \<times> kconf) outcome" where
  "build [] MK = Ret MK"
| "build (e # es) MK = obind (build_step e MK) (build es)"

fun nested :: "nat \<Rightarrow> event list \<Rightarrow> bool" where
  "nested d [] = True"
| "nested d (Config s # es) = nested d es"
| "nested d (Menu s # es) = nested (Suc d) es"
| "nested d (EndMenu # es) = (0 < d \<and> nested (d - 1) es)"

text \<open>The menu d levels below p that is open, and its list; an entry goes to the end of this list.\<close>

fun open_menu :: "nat \<Rightarrow> nat \<Rightarrow> forest \<Rightarrow> (nat \<times> forest) option" where
  "open_menu 0 p F = Some (p, F)"
| "open_menu (Suc d) p FEnd = None"
| "open_menu (Suc d) p (FEntry x cs ts) = (if ts = FEnd then open_menu d x cs else open_menu (Suc d) p ts)"

fun grow :: "nat \<Rightarrow> nat \<Rightarrow> forest \<Rightarrow> forest" where
  "grow 0 v F = fappend F (FEntry v FEnd FEnd)"
| "grow (Suc d) v FEnd = FEnd"
| "grow (Suc d) v (FEntry x cs ts) = (if ts = FEnd then FEntry x (grow d v cs) FEnd else FEntry x cs (grow (Suc d) v ts))"

lemma fappend_not_end [simp]: "fappend F (FEntry v cs ts) \<noteq> FEnd"
  by (cases F) simp_all

lemma grow_not_end: "open_menu d p F \<noteq> None \<Longrightarrow> grow d v F \<noteq> FEnd"
  by (induction d p F rule: open_menu.induct) (auto split: if_splits)

lemma grow_entries: "open_menu d p F \<noteq> None \<Longrightarrow> entries (grow d v F) = entries F @ [v]"
  by (induction d p F rule: open_menu.induct) (auto split: if_splits)

lemma grow_open: "open_menu d p F = Some (c, G) \<Longrightarrow> open_menu d p (grow d v F) = Some (c, fappend G (FEntry v FEnd FEnd))"
  by (induction d p F rule: open_menu.induct) (auto split: if_splits dest: grow_not_end)


lemma grow_opens: "open_menu d p F \<noteq> None \<Longrightarrow> open_menu (Suc d) p (grow d v F) = Some (v, FEnd)"
proof (induction d p F rule: open_menu.induct)
  case (1 p F)
  then show ?case by (induction F) auto
qed (auto split: if_splits dest: grow_not_end)

lemma open_in: "open_menu d p F = Some (c, G) \<Longrightarrow> (d = 0 \<and> c = p \<and> G = F \<or> c \<in> set (entries F)) \<and> set (entries G) \<subseteq> set (entries F)"
  by (induction d p F rule: open_menu.induct) (auto split: if_splits)

lemma open_Suc_entry: "open_menu (Suc d) p F = Some (c, G) \<Longrightarrow> c \<in> set (entries F)"
  using open_in [of "Suc d" p F c G] by simp

text \<open>The menu around the open one.\<close>

lemma open_parent:
  "open_menu (Suc d) p F = Some (c, G) \<Longrightarrow> seg E (Some p) l F q \<Longrightarrow>
   \<exists>b H. open_menu d p F = Some (b, H) \<and> last_root H = Some c \<and> m_parent (E c) = Some b"
proof (induction F arbitrary: d p l q)
  case (FEntry x cs ts)
  show ?case
  proof (cases "ts = FEnd")
    case True
    show ?thesis
    proof (cases d)
      case 0
      then have "c = x" using FEntry.prems True by simp
      then show ?thesis using FEntry.prems(2) 0 True by simp
    next
      case (Suc k)
      have "open_menu (Suc k) x cs = Some (c, G)" using FEntry.prems True Suc by simp
      then show ?thesis using FEntry.IH(1) [of k x] FEntry.prems(2) True Suc by auto
    qed
  next
    case False
    then have o: "open_menu (Suc d) p ts = Some (c, G)" using FEntry.prems by simp
    have "seg E (Some p) (m_next (E x)) ts q" using FEntry.prems(2) by simp
    from FEntry.IH(2) [OF o this] obtain b H where h: "open_menu d p ts = Some (b, H)" "last_root H = Some c" "m_parent (E c) = Some b" by blast
    then show ?thesis using False by (cases d) (auto simp: last_root_entry)
  qed
qed simp

text \<open>Where last_entry_ptr points to, and what writing there does.\<close>

definition end_link :: "nat \<Rightarrow> forest \<Rightarrow> menu_link" where
  "end_link c G = (case last_root G of None \<Rightarrow> ListOf c | Some y \<Rightarrow> NextOf y)"

fun link_owner :: "menu_link \<Rightarrow> nat" where
  "link_owner (ListOf m) = m"
| "link_owner (NextOf m) = m"

fun put_link :: "menu_link \<Rightarrow> nat \<Rightarrow> kmenu \<Rightarrow> kmenu" where
  "put_link (ListOf m) x e = e\<lparr>m_list := Some x\<rparr>"
| "put_link (NextOf m) x e = e\<lparr>m_next := Some x\<rparr>"

lemma set_link_entry: "entry (set_link k x M) = (entry M)(link_owner k := put_link k x (entry M (link_owner k)))"
  by (cases k) (simp_all add: upd_entry_def)

lemma end_link_owner:
  assumes "open_menu d p F = Some (c, G)"
  shows "end_link c G = ListOf p \<and> d = 0 \<and> c = p \<and> F = FEnd \<or> link_owner (end_link c G) \<in> set (entries F)"
proof (cases "last_root G")
  case None
  then have "G = FEnd" by (simp add: last_root_None)
  then show ?thesis using open_in [OF assms] by (auto simp: end_link_def)
next
  case (Some y)
  then show ?thesis using last_root_in [OF Some] open_in [OF assms] by (auto simp: end_link_def)
qed

lemma grow_seg:
  "open_menu d p F = Some (c, G) \<Longrightarrow> seg E (Some p) l F None \<Longrightarrow> distinct (p # entries F) \<Longrightarrow> v \<notin> set (p # entries F) \<Longrightarrow>
   m_parent (E v) = Some c \<Longrightarrow> m_list (E v) = None \<Longrightarrow> m_next (E v) = None \<Longrightarrow>
   seg (E(link_owner (end_link c G) := put_link (end_link c G) v (E (link_owner (end_link c G))))) (Some p) (if F = FEnd then Some v else l) (grow d v F) None"
proof (induction d p F arbitrary: l rule: open_menu.induct)
  case (1 p F)
  then have c: "c = p" "G = F" by simp_all
  show ?case
  proof (cases "last_root F")
    case None
    then have "F = FEnd" by (simp add: last_root_None)
    then show ?thesis using 1 c by (simp add: end_link_def)
  next
    case (Some y)
    let ?E = "E(y := (E y)\<lparr>m_next := Some v\<rparr>)"
    have y: "y \<noteq> v" "F \<noteq> FEnd" using last_root_in [OF Some] 1(4) by auto
    have "seg ?E (Some p) l F (Some v)" by (rule seg_relink [OF 1(2) Some]) (use 1(3) in simp)
    moreover have "seg ?E (Some p) (Some v) (FEntry v FEnd FEnd) None" using 1(5,6,7) y(1) c by simp
    ultimately have "seg ?E (Some p) l (fappend F (FEntry v FEnd FEnd)) None" unfolding seg_append by blast
    then show ?thesis using Some c y(2) by (simp add: end_link_def del: fun_upd_apply)
  qed
next
  case (3 d p x cs ts)
  let ?k = "end_link c G"
  let ?E = "E(link_owner ?k := put_link ?k v (E (link_owner ?k)))"
  have s: "l = Some x" "m_parent (E x) = Some p" "seg E (Some x) (m_list (E x)) cs None" "seg E (Some p) (m_next (E x)) ts None" using 3(4) by simp_all
  have x: "x \<notin> set (entries cs)" "x \<notin> set (entries ts)" using 3(5) by simp_all
  show ?case
  proof (cases "ts = FEnd")
    case True
    then have o: "open_menu d x cs = Some (c, G)" using 3(3) by simp
    have h: "seg ?E (Some x) (if cs = FEnd then Some v else m_list (E x)) (grow d v cs) None"
      by (rule 3(1) [OF True o s(3)]) (use 3(5-9) in auto)
    from end_link_owner [OF o] have "m_list (?E x) = (if cs = FEnd then Some v else m_list (E x)) \<and> m_next (?E x) = m_next (E x) \<and> m_parent (?E x) = m_parent (E x)"
    proof
      assume "?k = ListOf x \<and> d = 0 \<and> c = x \<and> cs = FEnd"
      then have k: "?k = ListOf x" "cs = FEnd" by blast+
      show ?thesis unfolding k by simp
    next
      assume "link_owner ?k \<in> set (entries cs)"
      then have "link_owner ?k \<noteq> x" "cs \<noteq> FEnd" using x(1) by auto
      then show ?thesis by simp
    qed
    then show ?thesis using h s True by (simp del: fun_upd_apply)
  next
    case False
    then have o: "open_menu (Suc d) p ts = Some (c, G)" using 3(3) by simp
    have h: "seg ?E (Some p) (if ts = FEnd then Some v else m_next (E x)) (grow (Suc d) v ts) None"
      by (rule 3(2) [OF False o s(4)]) (use 3(5-9) in auto)
    have k: "link_owner ?k \<in> set (entries ts)" using end_link_owner [OF o] by auto
    then have "link_owner ?k \<noteq> x" "link_owner ?k \<notin> set (entries cs)" using 3(5) by auto
    then have "?E x = E x" "seg ?E (Some x) (m_list (E x)) cs None" using s(3) seg_upd by auto
    then show ?thesis using h s False by (simp del: fun_upd_apply)
  qed
qed simp


text \<open>The tree while it is built: a menu d levels deep is open, and the entries are numbered in the order they
  were made.\<close>

definition growing :: "nat \<Rightarrow> kmenus \<Rightarrow> bool" where
  "growing d M \<longleftrightarrow> (\<exists>F c G. seg (entry M) None (Some rootmenu) (FEntry rootmenu F FEnd) None \<and> entries F = [1..<num_menus M] \<and> 0 < num_menus M \<and>
     open_menu d rootmenu F = Some (c, G) \<and> current_menu M = Some c \<and> last_entry_ptr M = end_link c G)"

lemma set_link_fields: "num_menus (set_link k x M) = num_menus M" "current_menu (set_link k x M) = current_menu M"
  by (cases k; simp add: upd_entry_def)+

lemma growing_add:
  assumes "growing d M"
  shows "growing d (fst (menu_add_entry s (M, K)))" "growing (Suc d) (menu_add_menu (fst (menu_add_entry s (M, K))))"
    "num_menus (fst (menu_add_entry s (M, K))) = Suc (num_menus M)"
proof -
  obtain F c G where F: "seg (entry M) None (Some rootmenu) (FEntry rootmenu F FEnd) None" "entries F = [1..<num_menus M]" "0 < num_menus M"
    "open_menu d rootmenu F = Some (c, G)" "current_menu M = Some c" "last_entry_ptr M = end_link c G" using assms by (auto simp: growing_def)
  let ?v = "num_menus M" and ?k = "end_link c G"
  let ?E = "(entry M)(?v := \<lparr>m_next = None, m_parent = current_menu M, m_list = None, m_sym = s, m_prompt = None, m_dep = None\<rparr>)"
  let ?E' = "?E(link_owner ?k := put_link ?k ?v (?E (link_owner ?k)))"
  let ?M = "fst (menu_add_entry s (M, K))"
  let ?F = "grow d ?v F"
  have M: "entry ?M = ?E'" "num_menus ?M = Suc ?v" "current_menu ?M = Some c" "last_entry_ptr ?M = NextOf ?v" "current_entry ?M = ?v"
    using F(5,6) by (simp_all add: menu_add_entry_def Let_def set_link_entry set_link_fields)
  show "num_menus ?M = Suc (num_menus M)" by (rule M(2))
  have nv: "?v \<notin> set (entries F)" "?v \<noteq> rootmenu" "rootmenu \<notin> set (entries F)" "distinct (entries F)" using F(2,3) by (simp_all add: rootmenu_def)
  have "seg (entry M) (Some rootmenu) (m_list (entry M rootmenu)) F None" using F(1) by simp
  then have "seg ?E (Some rootmenu) (m_list (entry M rootmenu)) F None" unfolding seg_upd [OF nv(1)] .
  from grow_seg [OF F(4) this, of ?v] nv F(5)
  have g: "seg ?E' (Some rootmenu) (if F = FEnd then Some ?v else m_list (entry M rootmenu)) ?F None" by (simp del: fun_upd_apply add: fun_upd_same)
  have "m_list (?E' rootmenu) = (if F = FEnd then Some ?v else m_list (entry M rootmenu)) \<and> m_next (?E' rootmenu) = None \<and> m_parent (?E' rootmenu) = None"
  proof -
    have r: "?E rootmenu = entry M rootmenu" "m_next (entry M rootmenu) = None" "m_parent (entry M rootmenu) = None" using nv(2) F(1) by simp_all
    from end_link_owner [OF F(4)] show ?thesis
    proof
      assume "?k = ListOf rootmenu \<and> d = 0 \<and> c = rootmenu \<and> F = FEnd"
      then have k: "?k = ListOf rootmenu" "F = FEnd" by blast+
      show ?thesis unfolding k using r by simp
    next
      assume k: "link_owner ?k \<in> set (entries F)"
      then have "link_owner ?k \<noteq> rootmenu" "F \<noteq> FEnd" using nv(3) by auto
      then show ?thesis using r nv(2) by simp
    qed
  qed
  then have tree: "seg (entry ?M) None (Some rootmenu) (FEntry rootmenu ?F FEnd) None" unfolding M using g by (simp del: fun_upd_apply)
  have o: "open_menu d rootmenu F \<noteq> None" using F(4) by simp
  have e: "entries ?F = [1..<num_menus ?M]" unfolding M(2) grow_entries [OF o] F(2) using F(3) by simp
  have n: "last_root (fappend G (FEntry ?v FEnd FEnd)) = Some ?v" by (induction G) (simp_all add: last_root_entry)
  show "growing d ?M" unfolding growing_def
    using tree e M(2,3,4) grow_open [OF F(4), of ?v] n by (intro exI [of _ ?F] exI [of _ c] exI [of _ "fappend G (FEntry ?v FEnd FEnd)"]) (simp add: end_link_def)
  show "growing (Suc d) (menu_add_menu ?M)" unfolding growing_def
    using tree e M(2,5) grow_opens [OF o, of ?v] by (intro exI [of _ ?F] exI [of _ ?v] exI [of _ FEnd]) (simp add: end_link_def menu_add_menu_def)
qed

lemma growing_end:
  assumes "growing (Suc d) M"
  shows "\<exists>M'. menu_end_menu M = Ret M' \<and> growing d M' \<and> num_menus M' = num_menus M \<and> entry M' = entry M"
proof -
  obtain F c G where F: "seg (entry M) None (Some rootmenu) (FEntry rootmenu F FEnd) None" "entries F = [1..<num_menus M]" "0 < num_menus M"
    "open_menu (Suc d) rootmenu F = Some (c, G)" "current_menu M = Some c" using assms by (auto simp: growing_def)
  have "seg (entry M) (Some rootmenu) (m_list (entry M rootmenu)) F None" using F(1) by simp
  from open_parent [OF F(4) this] obtain b H where b: "open_menu d rootmenu F = Some (b, H)" "last_root H = Some c" "m_parent (entry M c) = Some b" by blast
  have "growing d (M\<lparr>last_entry_ptr := NextOf c, current_menu := m_parent (entry M c)\<rparr>)"
    unfolding growing_def using F b by (intro exI [of _ F] exI [of _ b] exI [of _ H]) (simp add: end_link_def)
  then show ?thesis using F(5) by (simp add: menu_end_menu_def)
qed

primrec new_entries :: "event list \<Rightarrow> nat" where
  "new_entries [] = 0"
| "new_entries (e # es) = (if e = EndMenu then 0 else 1) + new_entries es"

lemma build_grows:
  "growing d M \<Longrightarrow> nested d es \<Longrightarrow> \<exists>M' K' d'. build es (M, K) = Ret (M', K') \<and> growing d' M' \<and> num_menus M' = num_menus M + new_entries es"
proof (induction es arbitrary: d M K)
  case (Cons e es)
  obtain M1 K1 d1 where "build_step e (M, K) = Ret (M1, K1)" "growing d1 M1" "nested d1 es" "num_menus M1 = num_menus M + (if e = EndMenu then 0 else 1)"
  proof (cases e)
    case (Config s)
    then show ?thesis using that [of "fst (menu_add_entry s (M, K))" "snd (menu_add_entry s (M, K))" d] growing_add [OF Cons.prems(1), of s K] Cons.prems(2) by simp
  next
    case (Menu s)
    have "num_menus (menu_add_menu M) = num_menus M" for M by (simp add: menu_add_menu_def)
    then show ?thesis using that [of "menu_add_menu (fst (menu_add_entry s (M, K)))" "snd (menu_add_entry s (M, K))" "Suc d"] Menu
        growing_add [OF Cons.prems(1), of s K] Cons.prems(2) by (simp add: case_prod_beta)
  next
    case EndMenu
    then obtain k where k: "d = Suc k" "nested k es" using Cons.prems(2) by (cases d) simp_all
    from growing_end [of k M] Cons.prems(1) k(1) obtain M' where "menu_end_menu M = Ret M'" "growing k M'" "num_menus M' = num_menus M" by blast
    then show ?thesis using that [of M' K k] EndMenu k(2) by simp
  qed
  then show ?case using Cons.IH [of d1 M1 K1] by (cases "e = EndMenu") auto
qed auto

section \<open>The order of the configuration files\<close>

lemma entries_Nil: "entries F = [] \<longleftrightarrow> F = FEnd"
  by (cases F) simp_all

lemma finalized_tree_walk:
  assumes g: "good (M, K)" and s: "seg (entry M) None (Some rootmenu) (FEntry rootmenu F FEnd) None" and d: "distinct (entries (FEntry rootmenu F FEnd))"
    and n: "Suc (length (entries F)) \<le> n"
  shows "menu_finalize n rootmenu (M, K) = Fault \<or>
    (\<exists>M' K'. menu_finalize n rootmenu (M, K) = Ret (M', K') \<and> walk n M' (m_list (entry M' rootmenu)) (entries F) \<and> (\<forall>x. m_sym (entry M' x) = m_sym (entry M x)))"
proof (cases "F = FEnd")
  case True
  have "ends (arranged (M, K) None (Some rootmenu) (FEntry rootmenu F FEnd)) (menu_finalize n rootmenu (M, K))"
    using menu_finalize_arranges [of n None] g s d n unfolding arranges_def by simp
  moreover have "walk n M' (m_list (entry M' rootmenu)) (entries F) \<and> (\<forall>x. m_sym (entry M' x) = m_sym (entry M x))"
    if a: "arranged (M, K) None (Some rootmenu) (FEntry rootmenu F FEnd) (M', K')" for M' K'
  proof -
    obtain F' where 1: "tidy (M, K) (M', K')" "seg (entry M') None (Some rootmenu) F' None" "entries F' = [rootmenu]"
      using arrangedD [OF a] True by (metis append_Nil entries.simps fst_conv)
    then have "F' = FEntry rootmenu FEnd FEnd" by (cases F') (simp_all add: entries_Nil)
    then show ?thesis using 1(1,2) True by (simp add: tidy_def)
  qed
  ultimately show ?thesis by (auto simp: ends_def)
next
  case False
  let ?l = "m_list (entry M rootmenu)"
  have "ends (arranged (M, K) (Some rootmenu) ?l F) (menu_finalize n rootmenu (M, K))"
    using menu_finalize_below [OF g _ d _ False] s n by simp
  moreover have "walk n M' (m_list (entry M' rootmenu)) (entries F) \<and> (\<forall>x. m_sym (entry M' x) = m_sym (entry M x))"
    if a: "arranged (M, K) (Some rootmenu) ?l F (M', K')" for M' K'
  proof -
    obtain F' where 1: "tidy (M, K) (M', K')" "seg (entry M') (Some rootmenu) ?l F' None" "entries F' = entries F"
      "\<And>x. x \<notin> set (entries F) \<Longrightarrow> links (entry M' x) = links (entry M x)" using arrangedD [OF a] by (metis fst_conv)
    have "links (entry M' rootmenu) = links (entry M rootmenu)" using d by (intro 1(4)) simp
    from linksD [OF this] have t: "seg (entry M') None (Some rootmenu) (FEntry rootmenu F' FEnd) None" using s 1(2) by simp
    have "length (entries F') < n" using n 1(3) by simp
    from walk_tree [OF t this] show ?thesis using 1(1,3) by (simp add: tidy_def)
  qed
  ultimately show ?thesis by (auto simp: ends_def)
qed

lemma start_grows:
  assumes "m_next (entry M rootmenu) = None" "m_parent (entry M rootmenu) = None" "m_list (entry M rootmenu) = None" "num_menus M = 1"
  shows "growing 0 (menu_init M)"
  unfolding growing_def using assms by (intro exI [of _ FEnd] exI [of _ rootmenu] exI [of _ FEnd]) (simp add: menu_init_def end_link_def)

text \<open>C17: the configuration is written in the order of the configuration files.  Whatever entries and
  menus the parser adds to the empty tree, and whatever dependencies, types and prompts they get, once
  menu_finalize has moved the entries that depend on others and those without a prompt, conf_write's walk
  visits each entry once, in the order the entries were made, and each has its symbol still.  menu_finalize
  ends with fuel for as many calls as there are entries; it returns unless it compares two expressions that
  are no conjunctions or disjunctions (see negated_prompts_crash).\<close>
theorem files_order_is_kept:
  assumes start: "m_next (entry M0 rootmenu) = None" "m_parent (entry M0 rootmenu) = None" "m_list (entry M0 rootmenu) = None" "num_menus M0 = 1"
    and es: "nested 0 es"
  shows "\<exists>M K. build es (menu_init M0, K0) = Ret (M, K) \<and> num_menus M = Suc (new_entries es) \<and>
    (\<forall>M1 K1. (\<forall>x. links (entry M1 x) = links (entry M x)) \<and> good (M1, K1) \<longrightarrow>
      menu_finalize (Suc (new_entries es)) rootmenu (M1, K1) = Fault \<or>
      (\<exists>M2 K2. menu_finalize (Suc (new_entries es)) rootmenu (M1, K1) = Ret (M2, K2) \<and>
         walk (Suc (new_entries es)) M2 (m_list (entry M2 rootmenu)) [1..<Suc (new_entries es)] \<and> (\<forall>x. m_sym (entry M2 x) = m_sym (entry M1 x))))"
proof -
  obtain M K d where b: "build es (menu_init M0, K0) = Ret (M, K)" "growing d M" "num_menus M = Suc (new_entries es)"
    using build_grows [OF start_grows [OF start] es, of K0] start(4) by (auto simp: menu_init_def)
  then obtain F where F: "seg (entry M) None (Some rootmenu) (FEntry rootmenu F FEnd) None" "entries F = [1..<Suc (new_entries es)]"
    by (auto simp: growing_def simp del: upt_Suc)
  have d: "distinct (entries (FEntry rootmenu F FEnd))" using F(2) by (simp add: rootmenu_def del: upt_Suc)
  have n: "Suc (length (entries F)) \<le> Suc (new_entries es)" using F(2) by (simp del: upt_Suc)
  have "menu_finalize (Suc (new_entries es)) rootmenu (M1, K1) = Fault \<or>
      (\<exists>M2 K2. menu_finalize (Suc (new_entries es)) rootmenu (M1, K1) = Ret (M2, K2) \<and>
         walk (Suc (new_entries es)) M2 (m_list (entry M2 rootmenu)) [1..<Suc (new_entries es)] \<and> (\<forall>x. m_sym (entry M2 x) = m_sym (entry M1 x)))"
    if "\<forall>x. links (entry M1 x) = links (entry M x)" "good (M1, K1)" for M1 K1
  proof -
    have "seg (entry M1) None (Some rootmenu) (FEntry rootmenu F FEnd) None = seg (entry M) None (Some rootmenu) (FEntry rootmenu F FEnd) None"
      by (rule seg_cong) (use that(1) in simp)
    with F(1) have "seg (entry M1) None (Some rootmenu) (FEntry rootmenu F FEnd) None" by (simp only:)
    from finalized_tree_walk [OF that(2) this d n] show ?thesis unfolding F(2) .
  qed
  then show ?thesis using b by blast
qed

section \<open>Two entries\<close>

text \<open>A boolean FOO with a prompt that is visible if the boolean BAR is not set, and BAR with a dependency.\<close>

definition empty_entry :: kmenu where
  "empty_entry = \<lparr>m_next = None, m_parent = None, m_list = None, m_sym = None, m_prompt = None, m_dep = None\<rparr>"

definition empty_menus :: kmenus where
  "empty_menus = \<lparr>entry = (\<lambda>_. empty_entry), own_props = (\<lambda>_. create_prop P_UNKNOWN), num_menus = 1, num_props = 0, current_menu = None, current_entry = 0,
     last_entry_ptr = ListOf 0\<rparr>"

definition foo_bar_menus :: "expr \<Rightarrow> kmenus" where
  "foo_bar_menus dep = empty_menus\<lparr>entry := (\<lambda>x.
     if x = 0 then empty_entry\<lparr>m_list := Some 1\<rparr>
     else if x = 1 then empty_entry\<lparr>m_next := Some 2, m_parent := Some 0, m_sym := Some (Symbol 0), m_prompt := Some (PropOf (Symbol 0) 0)\<rparr>
     else if x = 2 then empty_entry\<lparr>m_parent := Some 0, m_sym := Some (Symbol 1), m_dep := Some dep\<rparr>
     else empty_entry), num_menus := 3\<rparr>"

definition foo_bar_conf :: kconf where
  "foo_bar_conf = \<lparr>ksym = (\<lambda>s. \<lparr>k_name = None, k_type = (case s of Symbol i \<Rightarrow> S_BOOLEAN | _ \<Rightarrow> S_UNKNOWN), k_curr = \<lparr>sv_value = VNull, sv_tri = tri_no\<rparr>,
       k_def = \<lparr>sv_value = VNull, sv_tri = tri_no\<rparr>, k_visible = tri_no,
       k_flags = (case s of symbol_yes \<Rightarrow> SYMBOL_YES | symbol_mod \<Rightarrow> SYMBOL_MOD | symbol_no \<Rightarrow> SYMBOL_NO | _ \<Rightarrow> 0),
       k_props = (if s = Symbol 0 then [(create_prop P_PROMPT)\<lparr>p_menu := Some 1, p_text := Some ''Foo'', p_visible := Some (ENot (ESym (Symbol 1)))\<rparr>] else [])\<rparr>),
     symbol_hash = (\<lambda>_. []), numSymbols = 2, numTexts = 0, modules_sym = symbol_no, menu_flags = (\<lambda>_. 0), sym_change_count = 0, sym_inited = True\<rparr>"

definition first_links :: "(kmenus \<times> kconf) outcome \<Rightarrow> (nat option \<times> nat option \<times> nat option) list option" where
  "first_links r = (case r of Ret (M, K) \<Rightarrow> Some [links (entry M 0), links (entry M 1), links (entry M 2)] | _ \<Rightarrow> None)"

lemma foo_bar_good: "good (foo_bar_menus dep, foo_bar_conf)"
proof -
  have "is_const (view foo_bar_conf) s \<longleftrightarrow> s \<in> {symbol_yes, symbol_mod, symbol_no}" for s
    by (cases s) (simp_all add: is_const_flag has_flag_def foo_bar_conf_def SYMBOL_CONST_def SYMBOL_YES_def SYMBOL_MOD_def SYMBOL_NO_def)
  moreover have "\<not> sym_is_choice s foo_bar_conf" for s
    by (cases s) (simp_all add: has_flag_def foo_bar_conf_def SYMBOL_CHOICE_def SYMBOL_YES_def SYMBOL_MOD_def SYMBOL_NO_def)
  ultimately show ?thesis
    by (auto simp: good_def shape_ok_def) (auto simp: view_def foo_bar_conf_def foo_bar_menus_def empty_entry_def empty_menus_def split: if_splits)
qed

text \<open>BAR depends on FOO and moves below it.\<close>

lemma bar_moves: "first_links (menu_finalize 3 0 (foo_bar_menus (ESym (Symbol 0)), foo_bar_conf)) =
    Some [(None, None, Some 1), (None, Some 0, Some 2), (None, Some 1, None)]"
  by code_simp

lemma bar_has_moved:
  "\<exists>M2 K2. menu_finalize 3 rootmenu (foo_bar_menus (ESym (Symbol 0)), foo_bar_conf) = Ret (M2, K2) \<and> m_list (entry M2 1) = Some 2"
proof -
  obtain M2 K2 where r: "menu_finalize 3 0 (foo_bar_menus (ESym (Symbol 0)), foo_bar_conf) = Ret (M2, K2)"
    using bar_moves by (cases "menu_finalize 3 0 (foo_bar_menus (ESym (Symbol 0)), foo_bar_conf)") (auto simp: first_links_def simp del: menu_finalize.simps split: prod.splits)
  have "m_list (entry M2 1) = Some 2" using bar_moves unfolding r by (simp add: first_links_def links_def)
  then show ?thesis using r unfolding rootmenu_def by blast
qed

text \<open>If BAR depends on !FOO, !FOO and the condition !BAR of the prompt are compared as if they were
  conjunctions: expr_eliminate_eq follows the right operand of a negation, which is a null pointer.\<close>

lemma negated_prompts_crash: "case menu_finalize 3 0 (foo_bar_menus (ENot (ESym (Symbol 0))), foo_bar_conf) of Fault \<Rightarrow> True | _ \<Rightarrow> False"
  by code_simp

lemma files_order_is_kept_witness:
  "\<exists>M K M2 K2. build [Config (Some (Symbol 0)), Config (Some (Symbol 1))] (menu_init empty_menus, foo_bar_conf) = Ret (M, K) \<and>
     menu_finalize 3 rootmenu (foo_bar_menus (ESym (Symbol 0)), foo_bar_conf) = Ret (M2, K2) \<and> walk 3 M2 (m_list (entry M2 rootmenu)) [1..<3] \<and>
     m_list (entry M2 1) = Some 2"
proof -
  let ?es = "[Config (Some (Symbol 0)), Config (Some (Symbol 1))]" and ?M1 = "foo_bar_menus (ESym (Symbol 0))"
  have n: "Suc (new_entries ?es) = 3" "nested 0 ?es" by simp_all
  have s: "m_next (entry empty_menus rootmenu) = None" "m_parent (entry empty_menus rootmenu) = None" "m_list (entry empty_menus rootmenu) = None" "num_menus empty_menus = 1"
    by (simp_all add: empty_menus_def empty_entry_def)
  obtain M K where M: "build ?es (menu_init empty_menus, foo_bar_conf) = Ret (M, K)"
    "\<forall>M1 K1. (\<forall>x. links (entry M1 x) = links (entry M x)) \<and> good (M1, K1) \<longrightarrow> menu_finalize 3 rootmenu (M1, K1) = Fault \<or>
      (\<exists>M2 K2. menu_finalize 3 rootmenu (M1, K1) = Ret (M2, K2) \<and> walk 3 M2 (m_list (entry M2 rootmenu)) [1..<3] \<and> (\<forall>x. m_sym (entry M2 x) = m_sym (entry M1 x)))"
    using files_order_is_kept [OF s n(2), of foo_bar_conf] unfolding n(1) by blast
  have "links (entry ?M1 x) = links (entry M x)" for x
    using M(1) by (auto simp: menu_init_def empty_menus_def menu_add_entry_def Let_def upd_entry_def rootmenu_def foo_bar_menus_def empty_entry_def links_def)
  moreover obtain M2 K2 where 2: "menu_finalize 3 rootmenu (?M1, foo_bar_conf) = Ret (M2, K2)" "m_list (entry M2 1) = Some 2" using bar_has_moved by blast
  ultimately have "walk 3 M2 (m_list (entry M2 rootmenu)) [1..<3]"
    using M(2) [rule_format, of ?M1 foo_bar_conf] foo_bar_good by (auto simp del: menu_finalize.simps walk.simps)
  then show ?thesis using M(1) 2 by blast
qed

end
