(* ===== verification/Kask.thy ===== *)
theory Kask
  imports Kmenu Kconfdata
begin

text \<open>
  tools/kconfig/conf.c: the line-oriented configuration program.  It asks for the value of every visible
  entry of the menus, or sets the values by itself, asks again for the entries that became new, and
  writes the configuration.  The modes, the line that was read and the counter of restarts are a
  record; what the terminal will still deliver is a text of it and what random will return a list.  What
  the program prints, the help texts included, is left out, and with it the indentation.  cv stands for
  sym_calc_value with its fuel.
\<close>

section \<open>The state\<close>

datatype input_mode = Ask_all | Ask_new | Ask_silent | Set_default | Set_yes | Set_mod | Set_no | Set_random

record ask =
  input_mode :: input_mode
  valid_stdin :: bool
  ask_line :: string
  ask_stdin :: string
  ask_randoms :: "nat list"
  conf_cnt :: nat
  rootEntry :: nat

type_synonym asking = "ask \<times> kmenus \<times> kconf"

section \<open>Lines\<close>

definition is_space :: "char \<Rightarrow> bool" where
  "is_space c \<longleftrightarrow> c \<in> {CHR '' '', CHR 0x09, CHR 0x0A, CHR 0x0B, CHR 0x0C, CHR 0x0D}"

definition strip :: "string \<Rightarrow> string" where
  "strip str = rev (dropWhile is_space (rev (dropWhile is_space str)))"

text \<open>fgets with a buffer of 128 chars.\<close>

definition ask_chars :: nat where "ask_chars = 127"

definition get_line :: "string \<Rightarrow> string \<times> string" where
  "get_line f =
     (let t = takeWhile (\<lambda>c. c \<noteq> CHR 0x0A) f; n = (if length t < ask_chars then length t + 1 else ask_chars)
      in (take n f, drop n f))"

text \<open>At the end of the file fgets leaves the buffer alone.  A null char ends the text.\<close>

definition read_stdin :: "ask \<Rightarrow> ask" where
  "read_stdin A =
     (if ask_stdin A = [] then A
      else A\<lparr>ask_line := takeWhile (\<lambda>c. c \<noteq> CHR 0x00) (fst (get_line (ask_stdin A))), ask_stdin := snd (get_line (ask_stdin A))\<rparr>)"

section \<open>Asking for a value\<close>

text \<open>The string of a symbol that has none is a null pointer.\<close>

definition shown_value :: "sym_ref \<Rightarrow> kconf \<Rightarrow> string option outcome" where
  "shown_value s K =
     (if k_type (ksym K s) \<notin> {S_BOOLEAN, S_TRISTATE} \<and> sv_value (k_curr (ksym K s)) = VNull then Ret None
      else obind (string_value s K) (\<lambda>t. Ret (Some t)))"

fun tri_char :: "tristate \<Rightarrow> char" where
  "tri_char tri_no = CHR ''n''"
| "tri_char tri_mod = CHR ''m''"
| "tri_char tri_yes = CHR ''y''"

definition answer_line :: "tristate \<Rightarrow> ask \<Rightarrow> ask" where
  "answer_line v A = A\<lparr>ask_line := [tri_char v, CHR 0x0A]\<rparr>"

text \<open>The case of a value: if it is within the range it is the answer, else the switch falls through.\<close>

definition or_else :: "calc \<Rightarrow> sym_ref \<Rightarrow> tristate \<Rightarrow> ask \<Rightarrow> (kconf \<Rightarrow> (ask \<times> kconf) outcome) \<Rightarrow> kconf \<Rightarrow> (ask \<times> kconf) outcome" where
  "or_else cv s v A rest K =
     obind (sym_tristate_within_range cv s v K) (\<lambda>(ok, K). if ok then Ret (answer_line v A, K) else rest K)"

text \<open>The list is what random will return; the loop has no other end than a value within the range.\<close>

fun random_loop :: "calc \<Rightarrow> sym_ref \<Rightarrow> nat list \<Rightarrow> ask \<Rightarrow> kconf \<Rightarrow> (ask \<times> kconf) outcome" where
  "random_loop cv s [] A K = Timeout"
| "random_loop cv s (r # rs) A K =
     (let v = (if r mod 3 = 0 then tri_no else if r mod 3 = 1 then tri_mod else tri_yes)
      in or_else cv s v (A\<lparr>ask_randoms := rs\<rparr>) (random_loop cv s rs A) K)"

definition answer_random :: "calc \<Rightarrow> sym_ref \<Rightarrow> ask \<Rightarrow> kconf \<Rightarrow> (ask \<times> kconf) outcome" where
  "answer_random cv s A K = random_loop cv s (ask_randoms A) A K"

definition answer_no :: "calc \<Rightarrow> sym_ref \<Rightarrow> ask \<Rightarrow> kconf \<Rightarrow> (ask \<times> kconf) outcome" where
  "answer_no cv s A K = or_else cv s tri_no A (answer_random cv s A) K"

definition answer_mod :: "calc \<Rightarrow> symbol_type \<Rightarrow> sym_ref \<Rightarrow> ask \<Rightarrow> kconf \<Rightarrow> (ask \<times> kconf) outcome" where
  "answer_mod cv ty s A K = or_else cv s (if ty = S_TRISTATE then tri_mod else tri_yes) A (answer_no cv s A) K"

definition answer_yes :: "calc \<Rightarrow> symbol_type \<Rightarrow> sym_ref \<Rightarrow> ask \<Rightarrow> kconf \<Rightarrow> (ask \<times> kconf) outcome" where
  "answer_yes cv ty s A K = or_else cv s tri_yes A (answer_mod cv ty s A) K"

definition conf_askvalue :: "calc \<Rightarrow> sym_ref \<Rightarrow> ask \<Rightarrow> kconf \<Rightarrow> (ask \<times> kconf) outcome" where
  "conf_askvalue cv s A K =
     obind (sym_get_type cv s K) (\<lambda>(ty, K).
       let A = A\<lparr>ask_line := [CHR 0x0A]\<rparr>;
           set_value = (\<lambda>answer. if ty \<in> {S_INT, S_HEX, S_STRING} then Ret (A, K) else answer A K)
       in case input_mode A of
            Ask_all \<Rightarrow> Ret (read_stdin A, K)
          | Ask_new \<Rightarrow> Ret (if sym_has_value s K then A else read_stdin A, K)
          | Ask_silent \<Rightarrow>
              if sym_has_value s K then Ret (A, K)
              else if \<not> valid_stdin A then Panic ''aborted!''
              else Ret (read_stdin A, K)
          | Set_default \<Rightarrow> Ret (A, K)
          | Set_yes \<Rightarrow> set_value (answer_yes cv ty s)
          | Set_mod \<Rightarrow> set_value (answer_mod cv ty s)
          | Set_no \<Rightarrow> set_value (answer_no cv s)
          | Set_random \<Rightarrow> set_value (answer_random cv s))"

section \<open>Texts\<close>

text \<open>The text to set: None is the null pointer, which asks again; a line without its last char.\<close>

definition text_answer :: "string option \<Rightarrow> ask \<Rightarrow> (string option \<times> ask) outcome" where
  "text_answer d A =
     (case ask_line A of
        [] \<Rightarrow> Fault
      | c # cs \<Rightarrow> if c = CHR 0x0A then Ret (d, A)
                  else if c = CHR ''?'' \<and> cs = [] then Ret (None, A)
                  else Ret (Some (butlast (c # cs)), A\<lparr>ask_line := butlast (c # cs)\<rparr>))"

fun conf_string :: "nat \<Rightarrow> calc \<Rightarrow> sym_ref \<Rightarrow> ask \<Rightarrow> kconf \<Rightarrow> (ask \<times> kconf) outcome" where
  "conf_string 0 cv s A K = Timeout"
| "conf_string (Suc n) cv s A K =
     obind (shown_value s K) (\<lambda>d.
       obind (conf_askvalue cv s A K) (\<lambda>(A, K).
         obind (text_answer d A) (\<lambda>(t, A).
           obind (case t of None \<Rightarrow> Ret (False, K) | Some t \<Rightarrow> sym_set_string_value cv s t K) (\<lambda>(ok, K).
             if ok then Ret (A, K) else conf_string n cv s A K))))"

section \<open>Tristates\<close>

text \<open>The values in the prompt: the ranges are looked up for all but the old one.\<close>

definition range_unless :: "calc \<Rightarrow> sym_ref \<Rightarrow> tristate \<Rightarrow> tristate \<Rightarrow> kconf \<Rightarrow> kconf outcome" where
  "range_unless cv s oldval v K =
     (if oldval = v then Ret K else obind (sym_tristate_within_range cv s v K) (\<lambda>(_, K). Ret K))"

definition tri_answer :: "tristate \<Rightarrow> string \<Rightarrow> tristate option" where
  "tri_answer oldval line =
     (case line of
        [] \<Rightarrow> Some oldval
      | c # cs \<Rightarrow>
          if c = CHR ''n'' \<or> c = CHR ''N'' then (if cs = [] \<or> cs = ''o'' then Some tri_no else None)
          else if c = CHR ''m'' \<or> c = CHR ''M'' then (if cs = [] then Some tri_mod else None)
          else if c = CHR ''y'' \<or> c = CHR ''Y'' then (if cs = [] \<or> cs = ''es'' then Some tri_yes else None)
          else None)"

fun conf_sym :: "nat \<Rightarrow> calc \<Rightarrow> sym_ref \<Rightarrow> ask \<Rightarrow> kconf \<Rightarrow> (ask \<times> kconf) outcome" where
  "conf_sym 0 cv s A K = Timeout"
| "conf_sym (Suc n) cv s A K =
     obind (sym_get_type cv s K) (\<lambda>(_, K).
       let oldval = sym_get_tristate_value s K
       in obind (range_unless cv s oldval tri_no K) (\<lambda>K.
            obind (range_unless cv s oldval tri_mod K) (\<lambda>K.
              obind (range_unless cv s oldval tri_yes K) (\<lambda>K.
                obind (conf_askvalue cv s A K) (\<lambda>(A, K).
                  let A = A\<lparr>ask_line := strip (ask_line A)\<rparr>
                  in case tri_answer oldval (ask_line A) of
                       None \<Rightarrow> conf_sym n cv s A K
                     | Some newval \<Rightarrow> obind (sym_set_tristate_value cv s newval K) (\<lambda>(ok, K).
                         if ok then Ret (A, K) else conf_sym n cv s A K))))))"

section \<open>Choices\<close>

definition sym_pointer :: "sym_ref option \<Rightarrow> value_ptr" where
  "sym_pointer s = (case s of None \<Rightarrow> VNull | Some t \<Rightarrow> VSym t)"

text \<open>The last visible entry whose symbol is the value of the choice; the fuel bounds the entries of a list.\<close>

fun default_entry :: "nat \<Rightarrow> calc \<Rightarrow> value_ptr \<Rightarrow> nat option \<Rightarrow> nat option \<Rightarrow> kmenus \<times> kconf \<Rightarrow> (nat option \<times> kmenus \<times> kconf) outcome" where
  "default_entry 0 cv d x found MK = Timeout"
| "default_entry (Suc n) cv d None found MK = Ret (found, MK)"
| "default_entry (Suc n) cv d (Some x) found MK =
     obind (menu_is_visible cv x MK) (\<lambda>(vis, M, K).
       default_entry n cv d (m_next (entry M x)) (if vis \<and> sym_pointer (m_sym (entry M x)) = d then Some x else found) (M, K))"

definition lower :: "char \<Rightarrow> char" where
  "lower c = (if 65 \<le> (of_char c :: nat) \<and> (of_char c :: nat) \<le> 90 then char_of ((of_char c :: nat) + 32) else c)"

text \<open>strncasecmp with the length of the line: the line is the beginning of the prompt.\<close>

definition begins :: "string \<Rightarrow> string \<Rightarrow> bool" where
  "begins line prompt \<longleftrightarrow> take (length line) (List.map lower prompt) = List.map lower line"

fun named_entry :: "nat \<Rightarrow> calc \<Rightarrow> string \<Rightarrow> nat option \<Rightarrow> kmenus \<times> kconf \<Rightarrow> (nat option \<times> kmenus \<times> kconf) outcome" where
  "named_entry 0 cv line x MK = Timeout"
| "named_entry (Suc n) cv line None MK = Ret (None, MK)"
| "named_entry (Suc n) cv line (Some x) (M, K) =
     (if m_sym (entry M x) = None then named_entry n cv line (m_next (entry M x)) (M, K)
      else obind (menu_is_visible cv x (M, K)) (\<lambda>(vis, M, K).
        if \<not> vis then named_entry n cv line (m_next (entry M x)) (M, K)
        else (case menu_get_prompt x M K of
            None \<Rightarrow> Fault
          | Some p \<Rightarrow> if begins line p then Ret (Some x, M, K) else named_entry n cv line (m_next (entry M x)) (M, K))))"

definition asks :: "input_mode \<Rightarrow> bool" where
  "asks md \<longleftrightarrow> md \<in> {Ask_all, Ask_new, Ask_silent}"

text \<open>rec is conf.\<close>

fun choice_loop :: "nat \<Rightarrow> calc \<Rightarrow> (nat \<Rightarrow> asking \<Rightarrow> asking outcome) \<Rightarrow> bool \<Rightarrow> nat \<Rightarrow> sym_ref \<Rightarrow> asking \<Rightarrow> asking outcome" where
  "choice_loop 0 cv rec is_new m s S = Timeout"
| "choice_loop (Suc n) cv rec is_new m s (A, M, K) =
     obind (default_entry n cv (sv_value (k_curr (ksym K s))) (m_list (entry M m)) None (M, K)) (\<lambda>(def_menu, M, K).
       case def_menu of
         None \<Rightarrow> Ret (A, M, K)
       | Some d \<Rightarrow>
           obind (if asks (input_mode A)
                  then obind (conf_askvalue cv s A (if is_new then flag_set SYMBOL_NEW s K else K)) (\<lambda>(A, K).
                    Ret (A\<lparr>ask_line := strip (ask_line A)\<rparr>, K))
                  else Ret (A\<lparr>ask_line := []\<rparr>, K)) (\<lambda>(A, K).
             if ask_line A = ''?'' then choice_loop n cv rec is_new m s (A, M, K)
             else obind (if ask_line A = [] then Ret (Some d, M, K) else named_entry n cv (ask_line A) (m_list (entry M m)) (M, K)) (\<lambda>(def_menu, M, K).
               case def_menu of
                 None \<Rightarrow> choice_loop n cv rec is_new m s (A, M, K)
               | Some d \<Rightarrow>
                   (case m_sym (entry M d) of
                      None \<Rightarrow> Fault
                    | Some t \<Rightarrow> obind (sym_set_tristate_value cv t tri_yes K) (\<lambda>(_, K).
                        case m_list (entry M d) of None \<Rightarrow> Ret (A, M, K) | Some x \<Rightarrow> rec x (A, M, K))))))"

text \<open>Its results are not used.\<close>

definition conf_choice :: "nat \<Rightarrow> calc \<Rightarrow> (nat \<Rightarrow> asking \<Rightarrow> asking outcome) \<Rightarrow> nat \<Rightarrow> sym_ref \<Rightarrow> asking \<Rightarrow> asking outcome" where
  "conf_choice n cv rec m s = (\<lambda>(A, M, K).
     obind (sym_get_type cv s K) (\<lambda>(_, K).
       let is_new = has_flag SYMBOL_NEW s K
       in obind (sym_is_changable cv s K) (\<lambda>(ch, K).
         if ch
         then obind (conf_sym n cv s A K) (\<lambda>(A, K).
                obind (cv s K) (\<lambda>K.
                  if sym_get_tristate_value s K \<noteq> tri_yes then Ret (A, M, K) else choice_loop n cv rec is_new m s (A, M, K)))
         else (let K = set_def (\<lambda>_. k_curr (ksym K s)) s K
               in if sym_get_tristate_value s K = tri_mod then Ret (A, M, K) else choice_loop n cv rec is_new m s (A, M, K)))))"

section \<open>Entries\<close>

text \<open>The entries of a list, by a function for each; the fuel bounds their number.\<close>

fun each_child :: "nat \<Rightarrow> (nat \<Rightarrow> 'a \<times> kmenus \<times> kconf \<Rightarrow> ('a \<times> kmenus \<times> kconf) outcome) \<Rightarrow> nat option \<Rightarrow>
    'a \<times> kmenus \<times> kconf \<Rightarrow> ('a \<times> kmenus \<times> kconf) outcome" where
  "each_child 0 f x S = Timeout"
| "each_child (Suc n) f None S = Ret S"
| "each_child (Suc n) f (Some x) S = obind (f x S) (\<lambda>(A, M, K). each_child n f (m_next (entry M x)) (A, M, K))"

definition conf_entry :: "nat \<Rightarrow> calc \<Rightarrow> (nat \<Rightarrow> asking \<Rightarrow> asking outcome) \<Rightarrow> (nat \<Rightarrow> asking \<Rightarrow> asking outcome) \<Rightarrow> nat \<Rightarrow> asking \<Rightarrow> asking outcome" where
  "conf_entry n cv rec check m = (\<lambda>(A, M, K).
     obind (menu_is_visible cv m (M, K)) (\<lambda>(vis, M, K).
       if \<not> vis then Ret (A, M, K)
       else if (case m_prompt (entry M m) of Some r \<Rightarrow> p_type (prompt_prop r M K) = P_MENU | None \<Rightarrow> False) \<and>
               input_mode A = Ask_silent \<and> rootEntry A \<noteq> m
       then check m (A, M, K)
       else (let childs = (\<lambda>(A, M, K). each_child n rec (m_list (entry M m)) (A, M, K))
             in case m_sym (entry M m) of
                  None \<Rightarrow> childs (A, M, K)
                | Some s \<Rightarrow>
                    if sym_is_choice s K
                    then obind (conf_choice n cv rec m s (A, M, K)) (\<lambda>(A, M, K).
                      if sym_get_tristate_value s K \<noteq> tri_mod then Ret (A, M, K) else childs (A, M, K))
                    else obind (if k_type (ksym K s) \<in> {S_INT, S_HEX, S_STRING} then conf_string n cv s A K else conf_sym n cv s A K)
                           (\<lambda>(A, K). childs (A, M, K)))))"

text \<open>Asking again for the menu that holds an entry without a value.\<close>

definition restart :: "nat \<Rightarrow> (nat \<Rightarrow> asking \<Rightarrow> asking outcome) \<Rightarrow> nat \<Rightarrow> asking \<Rightarrow> asking outcome" where
  "restart n rec m = (\<lambda>(A, M, K).
     obind (menu_get_parent_menu n m M K) (\<lambda>p. rec p (A\<lparr>conf_cnt := conf_cnt A + 1, rootEntry := p\<rparr>, M, K)))"

definition check_entry :: "nat \<Rightarrow> calc \<Rightarrow> (nat \<Rightarrow> asking \<Rightarrow> asking outcome) \<Rightarrow> (nat \<Rightarrow> asking \<Rightarrow> asking outcome) \<Rightarrow> nat \<Rightarrow> asking \<Rightarrow> asking outcome" where
  "check_entry n cv rec check m = (\<lambda>(A, M, K).
     obind (menu_is_visible cv m (M, K)) (\<lambda>(vis, M, K).
       if \<not> vis then Ret (A, M, K)
       else (let childs = (\<lambda>(A, M, K). each_child n check (m_list (entry M m)) (A, M, K))
             in case m_sym (entry M m) of
                  None \<Rightarrow> childs (A, M, K)
                | Some s \<Rightarrow>
                    obind (if sym_has_value s K then Ret (A, M, K) else restart n rec m (A, M, K)) (\<lambda>(A, M, K).
                      if sym_is_choice s K \<and> sym_get_tristate_value s K \<noteq> tri_mod then Ret (A, M, K) else childs (A, M, K)))))"

text \<open>The two call each other; the fuel bounds the nesting of the calls, the entries of a list and the rounds of a question.\<close>

fun conf :: "nat \<Rightarrow> calc \<Rightarrow> nat \<Rightarrow> asking \<Rightarrow> asking outcome"
  and check_conf :: "nat \<Rightarrow> calc \<Rightarrow> nat \<Rightarrow> asking \<Rightarrow> asking outcome" where
  "conf 0 cv m S = Timeout"
| "conf (Suc n) cv m S = conf_entry n cv (conf n cv) (check_conf n cv) m S"
| "check_conf 0 cv m S = Timeout"
| "check_conf (Suc n) cv m S = check_entry n cv (conf n cv) (check_conf n cv) m S"

section \<open>The program\<close>

datatype start_action = Run input_mode | Menu_configuration | Usage

definition start_mode :: "string list \<Rightarrow> start_action" where
  "start_mode av =
     (case av of
        a0 # (CHR ''-'' # t) # as \<Rightarrow>
          (let c = first_char t
           in if c = CHR ''o'' then Run Ask_new else if c = CHR ''s'' then Run Ask_silent
              else if c = CHR ''d'' then Run Set_default else if c = CHR ''n'' then Run Set_no
              else if c = CHR ''m'' then Run Set_mod else if c = CHR ''y'' then Run Set_yes
              else if c = CHR ''r'' then Run Set_random else if c = CHR ''x'' then Menu_configuration
              else if c = CHR ''h'' \<or> c = CHR ''?'' then Usage else Run Ask_all)
      | _ \<Rightarrow> Run Ask_all)"

text \<open>What is read before the first question.\<close>

definition read_first :: "calc \<Rightarrow> (string \<Rightarrow> string option) \<Rightarrow> string option \<Rightarrow> (string \<Rightarrow> bool) \<Rightarrow> input_mode \<Rightarrow> kconf \<Rightarrow> kconf outcome" where
  "read_first cv zconf_fopen srctree stat md K =
     (if md = Set_default
      then obind (conf_get_default_confname cv srctree stat K) (\<lambda>(name, K).
             obind (conf_read cv zconf_fopen (Some name) K) (\<lambda>(r, K).
               if r \<noteq> 0 then Panic ''Can not find default configuration'' else Ret K))
      else if md = Ask_silent \<and> \<not> stat conf_def_filename then Panic ''You have not yet configured your kernel!''
      else if asks md then obind (conf_read cv zconf_fopen None K) (\<lambda>(_, K). Ret K)
      else Ret K)"

fun restart_loop :: "nat \<Rightarrow> nat \<Rightarrow> calc \<Rightarrow> asking \<Rightarrow> asking outcome" where
  "restart_loop 0 n cv S = Timeout"
| "restart_loop (Suc r) n cv (A, M, K) =
     obind (check_conf n cv rootmenu (A\<lparr>conf_cnt := 0\<rparr>, M, K)) (\<lambda>(A, M, K).
       if conf_cnt A \<noteq> 0 then restart_loop r n cv (A, M, K) else Ret (A, M, K))"

text \<open>main once the configuration files have been parsed; its result is what conf_write writes.\<close>

definition conf_main :: "nat \<Rightarrow> calc \<Rightarrow> (string \<Rightarrow> string option) \<Rightarrow> string option \<Rightarrow> (string \<Rightarrow> bool) \<Rightarrow> asking \<Rightarrow> ((string \<times> string) \<times> kmenus \<times> kconf) outcome" where
  "conf_main n cv zconf_fopen srctree stat = (\<lambda>(A, M, K).
     obind (read_first cv zconf_fopen srctree stat (input_mode A) K) (\<lambda>K.
       obind (if input_mode A = Ask_silent then Ret (A, M, K)
              else obind (conf n cv rootmenu (A\<lparr>rootEntry := rootmenu\<rparr>, M, K)) (\<lambda>(A, M, K).
                Ret (if input_mode A = Ask_all then A\<lparr>input_mode := Ask_silent, valid_stdin := True\<rparr> else A, M, K))) (\<lambda>(A, M, K).
         obind (restart_loop n n cv (A, M, K)) (\<lambda>(A, M, K). conf_write n cv (M, K)))))"

end
