(* ===== verification/Kask_Props.thy ===== *)
theory Kask_Props
  imports Kask Ksym_User
begin

text \<open>
  The questions of conf.c: a question for a boolean or tristate symbol ends on every input, at the
  latest when the terminal delivers nothing more; one for a text ends if the text the symbol has is
  valid, and never ends if it is not and nobody answers.
\<close>

section \<open>Lines\<close>

lemma get_line_parts: "f \<noteq> [] \<Longrightarrow> fst (get_line f) \<noteq> [] \<and> length (snd (get_line f)) < length f \<and> fst (get_line f) @ snd (get_line f) = f"
  by (auto simp: get_line_def Let_def ask_chars_def)

lemma strip_newline: "strip [CHR 0x0A] = []"
  by (simp add: strip_def is_space_def)

text \<open>Reading shortens what the terminal will deliver, or leaves the line as it was.\<close>

lemma read_stdin_cases:
  obtains (nothing) "ask_stdin A = []" "read_stdin A = A"
  | (something) "ask_stdin A \<noteq> []" "length (ask_stdin (read_stdin A)) < length (ask_stdin A)"
      "input_mode (read_stdin A) = input_mode A" "valid_stdin (read_stdin A) = valid_stdin A"
      "set (ask_stdin (read_stdin A)) \<subseteq> set (ask_stdin A)"
      "CHR 0x00 \<notin> set (ask_stdin A) \<Longrightarrow> ask_line (read_stdin A) \<noteq> []"
proof (cases "ask_stdin A = []")
  case False
  note g = get_line_parts [OF False]
  have s: "set (fst (get_line (ask_stdin A))) \<union> set (snd (get_line (ask_stdin A))) = set (ask_stdin A)"
    using g by (metis set_append)
  have "takeWhile (\<lambda>c. c \<noteq> CHR 0x00) (fst (get_line (ask_stdin A))) \<noteq> []" if "CHR 0x00 \<notin> set (ask_stdin A)"
  proof -
    have "CHR 0x00 \<notin> set (fst (get_line (ask_stdin A)))" using s that by blast
    then have e: "takeWhile (\<lambda>c. c \<noteq> CHR 0x00) (fst (get_line (ask_stdin A))) = fst (get_line (ask_stdin A))"
      by (auto simp: takeWhile_eq_all_conv)
    show ?thesis unfolding e using g by simp
  qed
  then show ?thesis using False g s by (intro something) (auto simp: read_stdin_def)
qed (simp add: read_stdin_def nothing)

text \<open>The modes that ask, or take what is there.\<close>

definition may_ask :: "ask \<Rightarrow> bool" where
  "may_ask A \<longleftrightarrow> (asks (input_mode A) \<or> input_mode A = Set_default) \<and> (input_mode A = Ask_silent \<longrightarrow> valid_stdin A)"

definition nobody_answers :: "ask \<Rightarrow> bool" where
  "nobody_answers A \<longleftrightarrow> ask_stdin A = [] \<or> input_mode A = Set_default"

lemma askvalue_cases:
  assumes "may_ask A" "sym_get_type cv s K = Ret (ty, K')"
  obtains (default) "conf_askvalue cv s A K = Ret (A\<lparr>ask_line := [CHR 0x0A]\<rparr>, K')"
  | (read) "input_mode A \<noteq> Set_default" "conf_askvalue cv s A K = Ret (read_stdin (A\<lparr>ask_line := [CHR 0x0A]\<rparr>), K')"
  using assms by (cases "input_mode A"; cases "sym_has_value s K'") (auto simp: conf_askvalue_def may_ask_def asks_def Let_def split: if_splits)

section \<open>Looking up the type again\<close>

definition modules_ok :: "kconf \<Rightarrow> bool" where
  "modules_ok K \<longleftrightarrow> has_values (k_type (ksym K (modules_sym K))) \<or> \<not> sym_is_choice (modules_sym K) K"

definition settled :: "sym_ref \<Rightarrow> kconf \<Rightarrow> bool" where
  "settled s K \<longleftrightarrow> k_type (ksym K s) \<noteq> S_TRISTATE \<or> sym_is_choice_value s K \<and> k_visible (ksym K s) = tri_yes \<or>
     valid_sym (modules_sym K) K \<or> \<not> has_values (k_type (ksym K (modules_sym K)))"

text \<open>What the calculation of the value of MODULES leaves alone while a question is asked.\<close>

definition calm :: "sym_ref set \<Rightarrow> sym_ref set \<Rightarrow> nat \<Rightarrow> sym_ref \<Rightarrow> kconf \<Rightarrow> kconf \<Rightarrow> bool" where
  "calm U T n s K0 K \<longleftrightarrow> goes U T K0 K \<and> ready U T n K \<and> modules_ok K \<and> settled s K \<and> tri_of s K = tri_of s K0"

lemma modules_ok_goes: "goes U T K K' \<Longrightarrow> modules_ok K \<Longrightarrow> modules_ok K'"
  using same_configD [OF goes_same, of U T K K'] by (simp add: modules_ok_def)

lemma type_settles:
  assumes "ready U T n K" "s \<in> U" "modules_ok K"
  shows "returns (sym_get_type (sym_calc_value n) s K) (\<lambda>(ty, K'). goes U T K K' \<and> ready U T n K' \<and> modules_ok K' \<and> settled s K')"
proof -
  obtain m where n: "n = Suc m" using assms(1) by (cases n) (auto simp: ready_def)
  have mod: "modules_sym K \<in> U" using ready_ok [OF assms(1)] by (simp add: conf_ok_def static_ok_def)
  show ?thesis
  proof (cases "k_type (ksym K s) = S_TRISTATE \<and> \<not> (sym_is_choice_value s K \<and> k_visible (ksym K s) = tri_yes)")
    case False
    then have "returns (sym_get_type (sym_calc_value n) s K) (\<lambda>(ty, K'). K' = K)" by (auto simp: sym_get_type_def)
    then show ?thesis using assms False goes_refl [OF ready_ok [OF assms(1)]]
      by (auto simp: returns_def settled_def)
  next
    case True
    have "returns (sym_calc_value n (modules_sym K) K) (\<lambda>K'. goes U T K K' \<and> (has_values (k_type (ksym K (modules_sym K))) \<longrightarrow> valid_sym (modules_sym K) K'))"
      using sc.value_step_returns [of U T m K "modules_sym K"] assms(1) mod unfolding n sym_calc_value.simps by (auto simp: returns_def)
    then obtain ty K' where K': "sym_get_type (sym_calc_value n) s K = Ret (ty, K')" "goes U T K K'"
        "has_values (k_type (ksym K (modules_sym K))) \<longrightarrow> valid_sym (modules_sym K) K'"
      using True by (auto simp: sym_get_type_def returns_def)
    have "settled s K'" using K'(3) same_configD(2,4) [OF goes_same [OF K'(2)]] by (auto simp: settled_def)
    then show ?thesis using K' ready_goes [OF assms(1)] modules_ok_goes [OF _ assms(3)] by (auto simp: returns_def)
  qed
qed

lemma modules_again:
  assumes "ready U T n K" "modules_ok K" "valid_sym (modules_sym K) K \<or> \<not> has_values (k_type (ksym K (modules_sym K)))"
    and "sym_calc_value n (modules_sym K) K = Ret K'" "has_values (k_type (ksym K s))"
  shows "tri_of s K' = tri_of s K"
proof -
  obtain m where n: "n = Suc m" using assms(1) by (cases n) (auto simp: ready_def)
  show ?thesis
  proof (cases "valid_sym (modules_sym K) K")
    case True
    then show ?thesis using assms(4) by (simp add: n sym_calc_value.simps value_step_def)
  next
    case False
    then have v: "\<not> has_values (k_type (ksym K (modules_sym K)))" using assms(3) by simp
    then have "s \<noteq> modules_sym K" "\<not> sym_is_choice (modules_sym K) K" using assms(2,5) by (auto simp: modules_ok_def)
    then show ?thesis using assms(4) v False
      by (auto simp: n sym_calc_value.simps value_step_def finish_value_def Let_def split: if_splits)
  qed
qed

lemma type_again:
  assumes "calm U T n s K0 K" "s \<in> U" "has_values (k_type (ksym K s))"
  shows "returns (sym_get_type (sym_calc_value n) s K) (\<lambda>(ty, K'). calm U T n s K0 K')"
proof -
  have r: "ready U T n K" "modules_ok K" "settled s K" "goes U T K0 K" "tri_of s K = tri_of s K0"
    using assms(1) by (auto simp: calm_def)
  from type_settles [OF r(1) assms(2) r(2)] obtain ty K' where K': "sym_get_type (sym_calc_value n) s K = Ret (ty, K')"
      "goes U T K K'" "ready U T n K'" "modules_ok K'" "settled s K'"
    by (auto simp: returns_def)
  have "tri_of s K' = tri_of s K"
  proof (cases "k_type (ksym K s) = S_TRISTATE \<and> \<not> (sym_is_choice_value s K \<and> k_visible (ksym K s) = tri_yes)")
    case True
    then obtain K1 where "sym_calc_value n (modules_sym K) K = Ret K1" "K' = K1"
      using K'(1) by (cases "sym_calc_value n (modules_sym K) K") (auto simp: sym_get_type_def)
    then show ?thesis using modules_again [OF r(1,2) _ _ assms(3)] True r(3) by (auto simp: settled_def)
  qed (use K'(1) in \<open>auto simp: sym_get_type_def split: if_splits\<close>)
  then show ?thesis using K' r goes_trans [OF r(4)] by (auto simp: calm_def returns_def)
qed

lemma range_again:
  assumes "calm U T n s K0 K" "s \<in> U" "has_values (k_type (ksym K s))"
  shows "returns (range_unless (sym_calc_value n) s oldval v K) (calm U T n s K0)"
proof -
  obtain ty K' where "sym_get_type (sym_calc_value n) s K = Ret (ty, K')" "calm U T n s K0 K'"
    using type_again [OF assms] by (auto simp: returns_def)
  then show ?thesis using assms(1) by (simp add: range_unless_def sym_tristate_within_range_def)
qed

lemma calm_type: "calm U T n s K0 K \<Longrightarrow> k_type (ksym K s) = k_type (ksym K0 s)"
  using same_configD(2) [OF goes_same] by (auto simp: calm_def)

section \<open>Tristates\<close>

text \<open>A round either ends the question, or has read something and goes on.\<close>

definition shorter :: "ask \<Rightarrow> ask \<Rightarrow> bool" where
  "shorter A A' \<longleftrightarrow> length (ask_stdin A') < length (ask_stdin A) \<and> input_mode A' = input_mode A \<and> valid_stdin A' = valid_stdin A \<and>
     input_mode A \<noteq> Set_default \<and> set (ask_stdin A') \<subseteq> set (ask_stdin A)"

lemma shorter_may_ask: "shorter A A' \<Longrightarrow> may_ask A' = may_ask A"
  by (simp add: shorter_def may_ask_def)

text \<open>The line after a question is empty, or something was read.\<close>

lemma asked_line:
  assumes "may_ask A" "sym_get_type cv s K = Ret (ty, K')"
  shows "\<exists>A'. conf_askvalue cv s A K = Ret (A', K') \<and> (ask_line A' = [CHR 0x0A] \<or>
    shorter A A' \<and> (CHR 0x00 \<notin> set (ask_stdin A) \<longrightarrow> ask_line A' \<noteq> []))"
proof (cases rule: askvalue_cases [OF assms, case_names default read])
  case read
  show ?thesis
    by (cases rule: read_stdin_cases [of "A\<lparr>ask_line := [CHR 0x0A]\<rparr>", case_names nothing something])
      (use read in \<open>auto simp: shorter_def\<close>)
qed simp

lemma tri_round:
  assumes "ready U T n K" "s \<in> U" "k_type (ksym K s) \<in> {S_BOOLEAN, S_TRISTATE}" "modules_ok K" "may_ask A"
    and apart: "symbol_no \<notin> set (all_symbols K)" "symbol_empty \<notin> set (all_symbols K)"
  shows "(\<exists>A' K'. conf_sym (Suc f) (sym_calc_value n) s A K = Ret (A', K') \<and> conf_ok U T K' \<and> sym_has_value s K') \<or>
    (\<exists>A' K'. conf_sym (Suc f) (sym_calc_value n) s A K = conf_sym f (sym_calc_value n) s A' K' \<and> shorter A A' \<and>
       goes U T K K' \<and> ready U T n K' \<and> modules_ok K')"
proof -
  have v: "has_values (k_type (ksym K s))" using assms(3) by (auto simp: has_values_def)
  obtain ty K1 where 1: "sym_get_type (sym_calc_value n) s K = Ret (ty, K1)" "goes U T K K1" "ready U T n K1" "modules_ok K1" "settled s K1"
    using type_settles [OF assms(1,2,4)] by (auto simp: returns_def)
  let ?old = "tri_of s K1"
  have c1: "calm U T n s K1 K1" using 1 goes_refl [OF ready_ok [OF 1(3)]] by (simp add: calm_def)
  have vals: "has_values (k_type (ksym K' s))" if "calm U T n s K1 K'" for K'
    using v calm_type [OF that] same_configD(2) [OF goes_same [OF 1(2)], of s] by simp
  note range = range_again [OF _ assms(2) vals]
  obtain K2 where 2: "range_unless (sym_calc_value n) s ?old tri_no K1 = Ret K2" "calm U T n s K1 K2"
    using range [OF c1 c1] by (auto simp: returns_def)
  obtain K3 where 3: "range_unless (sym_calc_value n) s ?old tri_mod K2 = Ret K3" "calm U T n s K1 K3"
    using range [OF 2(2,2)] by (auto simp: returns_def)
  obtain K4 where 4: "range_unless (sym_calc_value n) s ?old tri_yes K3 = Ret K4" "calm U T n s K1 K4"
    using range [OF 3(2,2)] by (auto simp: returns_def)
  obtain ty5 K5 where 5: "sym_get_type (sym_calc_value n) s K4 = Ret (ty5, K5)" "calm U T n s K1 K5"
    using type_again [OF 4(2) assms(2) vals [OF 4(2)]] by (auto simp: returns_def)
  obtain A5 where A5: "conf_askvalue (sym_calc_value n) s A K4 = Ret (A5, K5)" "ask_line A5 = [CHR 0x0A] \<or> shorter A A5"
    using asked_line [OF assms(5) 5(1)] by blast
  have g: "goes U T K K5" "ready U T n K5" "modules_ok K5" "tri_of s K5 = ?old"
    using 5(2) goes_trans [OF 1(2)] by (auto simp: calm_def)
  have a5: "all_symbols K5 = all_symbols K"
    using goes_same [OF g(1)] same_configD(2) [OF goes_same [OF g(1)]] by (intro all_symbols_cong) (auto simp: same_config_def)
  let ?A = "A5\<lparr>ask_line := strip (ask_line A5)\<rparr>"
  have short: "shorter A ?A" if "shorter A A5" using that by (simp add: shorter_def)
  have call: "conf_sym (Suc f) (sym_calc_value n) s A K =
      (case tri_answer ?old (ask_line ?A) of
         None \<Rightarrow> conf_sym f (sym_calc_value n) s ?A K5
       | Some newval \<Rightarrow> obind (sym_set_tristate_value (sym_calc_value n) s newval K5) (\<lambda>(ok, K).
           if ok then Ret (?A, K) else conf_sym f (sym_calc_value n) s ?A K))"
    by (simp add: 1(1) 2(1) 3(1) 4(1) A5(1) Let_def)
  have ty5: "k_type (ksym K5 s) \<in> {S_BOOLEAN, S_TRISTATE}" using assms(3) same_configD(2) [OF goes_same [OF g(1)]] by simp
  show ?thesis
  proof (cases "tri_answer ?old (ask_line ?A)")
    case None
    then have "shorter A A5" using A5(2) by (auto simp: strip_newline tri_answer_def)
    then have "shorter A ?A" using short by blast
    moreover have "conf_sym (Suc f) (sym_calc_value n) s A K = conf_sym f (sym_calc_value n) s ?A K5"
      unfolding call using None by (simp del: conf_sym.simps)
    ultimately show ?thesis using g by blast
  next
    case (Some v)
    have inv: "invalid U K5 < n" "conf_ok U T K5" using g(2) by (simp_all add: ready_def)
    obtain b K6 where 6: "sym_set_tristate_value (sym_calc_value n) s v K5 = Ret (b, K6)" "conf_ok U T K6" "tri_of s K5 = v \<longrightarrow> b"
      "if b then sym_has_value s K6 else goes U T K5 K6"
      using set_tristate_result [OF inv(2) assms(2) ty5 inv(1), of v] apart a5 by (auto split: if_splits)
    show ?thesis
    proof (cases b)
      case True
      then have "conf_sym (Suc f) (sym_calc_value n) s A K = Ret (?A, K6)" unfolding call using Some 6(1) by (simp del: conf_sym.simps)
      then show ?thesis using 6(2,4) True by (auto simp del: conf_sym.simps)
    next
      case False
      then have "ask_line A5 \<noteq> [CHR 0x0A]" using 6(3) Some g(4) by (auto simp: strip_newline tri_answer_def)
      then have "shorter A ?A" using A5(2) short by blast
      moreover have "conf_sym (Suc f) (sym_calc_value n) s A K = conf_sym f (sym_calc_value n) s ?A K6" unfolding call using Some 6(1) False by (simp del: conf_sym.simps)
      moreover have "goes U T K K6" "ready U T n K6" "modules_ok K6"
        using 6(4) False goes_trans [OF g(1)] ready_goes [OF g(2)] modules_ok_goes [OF _ g(3)] by auto
      ultimately show ?thesis by blast
    qed
  qed
qed

text \<open>C36: the question of conf_sym for a boolean or tristate symbol of a configuration ends in every mode in
  which the user is asked and in the mode that takes the present values, whatever is typed: after at
  most as many rounds as there are chars to read, and one.  The configuration stays one, and the
  symbol has a value of the user.\<close>
theorem tristate_question_ends:
  assumes "conf_ok U T K" "table_ok K" "s \<in> U" "k_type (ksym K s) \<in> {S_BOOLEAN, S_TRISTATE}" "invalid U K < n" "modules_ok K" "may_ask A"
    and "length (ask_stdin A) < f"
  shows "\<exists>A' K'. conf_sym f (sym_calc_value n) s A K = Ret (A', K') \<and> conf_ok U T K' \<and> sym_has_value s K'"
proof -
  have r: "ready U T n K" using assms by (simp add: ready_def)
  have a: "symbol_no \<notin> set (all_symbols K)" "symbol_empty \<notin> set (all_symbols K)" using all_symbols_table [OF assms(2)] by auto
  show ?thesis using r assms(4,6-8) a
  proof (induction f arbitrary: A K)
    case (Suc f)
    from tri_round [OF Suc.prems(1) assms(3) Suc.prems(2,3,4,6,7), of f] show ?case
    proof (elim disjE exE conjE)
      fix A' K'
      assume c: "conf_sym (Suc f) (sym_calc_value n) s A K = conf_sym f (sym_calc_value n) s A' K'" "shorter A A'" "goes U T K K'"
        "ready U T n K'" "modules_ok K'"
      have same: "all_symbols K' = all_symbols K" "k_type (ksym K' s) = k_type (ksym K s)"
        using goes_same [OF c(3)] same_configD(2) [OF goes_same [OF c(3)]] by (auto simp: same_config_def intro!: all_symbols_cong)
      have "length (ask_stdin A') < f" "may_ask A'" using c(2) Suc.prems(4,5) shorter_may_ask by (auto simp: shorter_def)
      then show ?thesis using Suc.IH [OF c(4) _ c(5)] Suc.prems same unfolding c(1) by simp
    qed blast
  qed simp
qed

section \<open>Texts\<close>

lemma text_round:
  assumes ty: "k_type (ksym K s) = ty" "ty \<in> text_types" and t: "string_value s K = Ret t" and "may_ask A" "CHR 0x00 \<notin> set (ask_stdin A)"
    and set: "\<And>u. \<exists>K'. sym_set_string_value cv s u K = Ret (text_valid ty u, K') \<and> (if text_valid ty u then P K' else K' = K)"
  shows "(\<exists>A' K'. conf_string (Suc f) cv s A K = Ret (A', K') \<and> P K' \<and> (nobody_answers A \<longrightarrow> text_valid ty t)) \<or>
    (\<exists>A'. conf_string (Suc f) cv s A K = conf_string f cv s A' K \<and> may_ask A' \<and>
       (shorter A A' \<or> \<not> text_valid ty t \<and> ask_stdin A' = ask_stdin A \<and> input_mode A' = input_mode A))"
proof -
  have "k_type (ksym K s) \<notin> {S_BOOLEAN, S_TRISTATE}" using ty by (auto simp: text_types_def)
  then have d: "shown_value s K = Ret (Some t)" and g: "sym_get_type cv s K = Ret (ty, K)"
    using t ty by (auto simp: shown_value_def string_value_def sym_get_type_def)
  obtain K' where K': "sym_set_string_value cv s t K = Ret (text_valid ty t, K')" "if text_valid ty t then P K' else K' = K"
    using set by blast
  show ?thesis
  proof (cases rule: askvalue_cases [OF assms(4) g, case_names default read])
    case default
    then have "conf_string (Suc f) cv s A K =
        (if text_valid ty t then Ret (A\<lparr>ask_line := [CHR 0x0A]\<rparr>, K') else conf_string f cv s (A\<lparr>ask_line := [CHR 0x0A]\<rparr>) K)"
      using K' by (simp add: d text_answer_def)
    then show ?thesis using K'(2) assms(4) by (cases "text_valid ty t") (auto simp: may_ask_def simp del: conf_string.simps)
  next
    case read
    let ?A = "A\<lparr>ask_line := [CHR 0x0A]\<rparr>"
    show ?thesis
    proof (cases rule: read_stdin_cases [of ?A, case_names nothing something])
      case nothing
      then have "conf_string (Suc f) cv s A K = (if text_valid ty t then Ret (?A, K') else conf_string f cv s ?A K)"
        using read K' by (simp add: d text_answer_def)
      then show ?thesis using K'(2) assms(4) by (cases "text_valid ty t") (auto simp: may_ask_def simp del: conf_string.simps)
    next
      case something
      let ?R = "read_stdin ?A"
      obtain c cs where l: "ask_line ?R = c # cs" using something(6) assms(5) by (cases "ask_line ?R") auto
      obtain w A' where w: "text_answer (Some t) ?R = Ret (w, A')" "A' = ?R \<or> A' = ?R\<lparr>ask_line := butlast (c # cs)\<rparr>"
      proof -
        have "text_answer (Some t) ?R \<in> {Ret (Some t, ?R), Ret (None, ?R), Ret (Some (butlast (c # cs)), ?R\<lparr>ask_line := butlast (c # cs)\<rparr>)}"
          unfolding text_answer_def l by simp
        then show thesis using that by blast
      qed
      have sh: "shorter A A'" using something(1-5) read(1) w(2) by (auto simp: shorter_def)
      have n: "\<not> nobody_answers A" using something(1) read(1) by (simp add: nobody_answers_def)
      have call: "conf_string (Suc f) cv s A K =
          obind (case w of None \<Rightarrow> Ret (False, K) | Some t \<Rightarrow> sym_set_string_value cv s t K) (\<lambda>(ok, K).
             if ok then Ret (A', K) else conf_string f cv s A' K)"
        using read(2) w(1) by (simp add: d)
      have m: "may_ask A'" using sh assms(4) shorter_may_ask by blast
      show ?thesis
      proof (cases "\<exists>u. w = Some u \<and> text_valid ty u")
        case True
        then obtain u where u: "w = Some u" "text_valid ty u" by blast
        then obtain K2 where "sym_set_string_value cv s u K = Ret (True, K2)" "P K2" using set [of u] by auto
        then have "conf_string (Suc f) cv s A K = Ret (A', K2)" "P K2" unfolding call using u by (simp_all del: conf_string.simps)
        then show ?thesis using n by blast
      next
        case False
        then have "conf_string (Suc f) cv s A K = conf_string f cv s A' K"
        proof (cases w)
          case None
          then show ?thesis unfolding call by (simp del: conf_string.simps)
        next
          case (Some u)
          then have "sym_set_string_value cv s u K = Ret (False, K)" using False set [of u] by auto
          then show ?thesis unfolding call using Some by (simp del: conf_string.simps)
        qed
        then show ?thesis using sh m by blast
      qed
    qed
  qed
qed

text \<open>C37: conf_string, for an integer, hexadecimal or string symbol of a configuration and an input without
  null chars: if the text the symbol has now is one of its type, the question ends after at most as
  many rounds as there are chars to read, and one, and the symbol then has a text of its type from
  the user.  If it is not, as for an integer that was never set, and nobody answers (in the mode that
  takes the present values, or at the end of the input), it asks for ever, whatever the fuel.\<close>
theorem text_question_ends:
  assumes ok: "conf_ok U T K" "table_ok K" "s \<in> U" and ty: "k_type (ksym K s) = ty" "ty \<in> text_types" and no: "\<not> sym_is_choice s K"
    and old: "sv_value (k_def (ksym K s)) = VNull \<or> (\<exists>i o1. sv_value (k_def (ksym K s)) = VStr i o1)"
    and "string_value s K = Ret t" "may_ask A" "CHR 0x00 \<notin> set (ask_stdin A)"
  shows "(text_valid ty t \<and> length (ask_stdin A) < f \<longrightarrow> (\<exists>A' K' i u. conf_string f cv s A K = Ret (A', K') \<and> conf_ok U T K' \<and>
      sym_has_value s K' \<and> sv_value (k_def (ksym K' s)) = VStr i u \<and> text_valid ty u)) \<and>
    (\<not> text_valid ty t \<and> nobody_answers A \<longrightarrow> conf_string f cv s A K = Timeout)"
proof (intro conjI)
  have a: "symbol_no \<notin> set (all_symbols K)" "symbol_empty \<notin> set (all_symbols K)" using all_symbols_table [OF ok(2)] by auto
  let ?P = "\<lambda>K'. conf_ok U T K' \<and> sym_has_value s K' \<and> (\<exists>i u. sv_value (k_def (ksym K' s)) = VStr i u \<and> text_valid ty u)"
  have set: "\<exists>K'. sym_set_string_value cv s u K = Ret (text_valid ty u, K') \<and> (if text_valid ty u then ?P K' else K' = K)" for u
    using set_string_result [OF ok(1) a ok(3) ty no old, of cv u] by (auto split: if_splits)
  note round = text_round [where P = ?P, OF ty assms(8) _ _ set]
  have "text_valid ty t \<and> length (ask_stdin A) < f \<longrightarrow> (\<exists>A' K'. conf_string f cv s A K = Ret (A', K') \<and> ?P K')"
    using assms(9,10)
  proof (induction f arbitrary: A)
    case (Suc f)
    show ?case
    proof (intro impI, elim conjE)
      assume v: "text_valid ty t" "length (ask_stdin A) < Suc f"
      from round [OF Suc.prems, of f] v(1) show "\<exists>A' K'. conf_string (Suc f) cv s A K = Ret (A', K') \<and> ?P K'"
      proof (elim disjE exE conjE)
        fix A'
        assume c: "conf_string (Suc f) cv s A K = conf_string f cv s A' K" "may_ask A'" "shorter A A'"
        then have "length (ask_stdin A') < f" "CHR 0x00 \<notin> set (ask_stdin A')" using v(2) Suc.prems(2) by (auto simp: shorter_def)
        then show ?thesis using Suc.IH [OF c(2)] v(1) unfolding c(1) by simp
      qed (simp_all del: conf_string.simps, blast?)
    qed
  qed simp
  then show "text_valid ty t \<and> length (ask_stdin A) < f \<longrightarrow> (\<exists>A' K' i u. conf_string f cv s A K = Ret (A', K') \<and> conf_ok U T K' \<and>
      sym_has_value s K' \<and> sv_value (k_def (ksym K' s)) = VStr i u \<and> text_valid ty u)" by blast
  show "\<not> text_valid ty t \<and> nobody_answers A \<longrightarrow> conf_string f cv s A K = Timeout"
    using assms(9,10)
  proof (induction f arbitrary: A)
    case (Suc f)
    show ?case
    proof (intro impI, elim conjE)
      assume v: "\<not> text_valid ty t" "nobody_answers A"
      from round [OF Suc.prems, of f] v show "conf_string (Suc f) cv s A K = Timeout"
      proof (elim disjE exE conjE)
        fix A'
        assume c: "conf_string (Suc f) cv s A K = conf_string f cv s A' K" "may_ask A'" "shorter A A'"
        then show ?thesis using v(2) by (auto simp: shorter_def nobody_answers_def)
      next
        fix A'
        assume c: "conf_string (Suc f) cv s A K = conf_string f cv s A' K" "may_ask A'" "ask_stdin A' = ask_stdin A" "input_mode A' = input_mode A"
        then show ?thesis using Suc.IH [OF c(2)] Suc.prems(2) v unfolding c(1) by (auto simp: nobody_answers_def)
      qed (simp_all del: conf_string.simps)
    qed
  qed simp
qed

definition asker :: "input_mode \<Rightarrow> string \<Rightarrow> ask" where
  "asker md inp = \<lparr>input_mode = md, valid_stdin = True, ask_line = [], ask_stdin = inp, ask_randoms = [], conf_cnt = 0, rootEntry = rootmenu\<rparr>"

theorem tristate_question_ends_witness:
  "\<exists>A' K'. conf_sym 6 (sym_calc_value 3) (Symbol 0) (asker Ask_all (''why'' @ nl)) circle = Ret (A', K') \<and> sym_has_value (Symbol 0) K'"
proof -
  have "k_type (ksym circle (Symbol 0)) \<in> {S_BOOLEAN, S_TRISTATE}" "modules_ok circle"
    by (simp_all add: circle_def base_symbol_def modules_ok_def has_flag_def SYMBOL_VALID_def SYMBOL_CHOICE_def)
  moreover have "invalid {Symbol 0, Symbol 1, symbol_yes} circle < 3" using circle_ok(2) by linarith
  moreover have "may_ask (asker Ask_all (''why'' @ nl))" "length (ask_stdin (asker Ask_all (''why'' @ nl))) < 6"
    by (simp_all add: may_ask_def asks_def asker_def nl_def)
  ultimately show ?thesis using tristate_question_ends [OF circle_ok(1) circle_table, of "Symbol 0" 3 "asker Ask_all (''why'' @ nl)" 6] by blast
qed

theorem text_question_ends_witness:
  "conf_string 100 (sym_calc_value 1) (Symbol 0) (asker Set_default []) hex_symbol = Timeout"
proof -
  have c: "conf_ok {Symbol 0, symbol_yes} {} hex_symbol"
    by (simp add: conf_ok_def static_ok_def values_ok_def symbol_ok_def keys_ok_def hex_symbol_def upd_sym_def circle_def base_symbol_def
      has_flag_def is_text_def SYMBOL_VALID_def SYMBOL_CHOICE_def SYMBOL_CHOICEVAL_def SYMBOL_NEW_def)
  have "named hex_symbol = named circle" by (auto simp: named_def hex_symbol_def upd_sym_def has_flag_def)
  then have t: "table_ok hex_symbol"
    using circle_table by (auto simp: table_ok_def bucket_ok_def in_bucket_def hex_symbol_def upd_sym_def)
  have m: "may_ask (asker Set_default [])" "nobody_answers (asker Set_default [])" "ask_stdin (asker Set_default []) = []"
    by (simp_all add: may_ask_def nobody_answers_def asker_def)
  have s: "k_type (ksym hex_symbol (Symbol 0)) = S_HEX" "string_value (Symbol 0) hex_symbol = Ret []"
      "sv_value (k_def (ksym hex_symbol (Symbol 0))) = VNull" "\<not> sym_is_choice (Symbol 0) hex_symbol"
    by (simp_all add: hex_symbol_def upd_sym_def circle_def base_symbol_def string_value_def has_flag_def SYMBOL_NEW_def SYMBOL_CHOICE_def)
  have "\<not> text_valid S_HEX []" by (simp add: text_valid_checks hex_valid_def has_hex_prefix_def)
  then show ?thesis
    using text_question_ends [OF c t, of "Symbol 0" S_HEX "[]" "asker Set_default []" 100 "sym_calc_value 1"] s m
    by (simp only: text_types_def) simp
qed

section \<open>What the user types\<close>

text \<open>The line of a text keeps its newline when the question mark is looked for: the question mark is a text.\<close>

lemma question_mark_is_a_text: "ask_line A = ''?'' @ nl \<Longrightarrow> \<exists>A'. text_answer d A = Ret (Some ''?'', A')"
  by (simp add: text_answer_def nl_def)

text \<open>The last char of a line is dropped, also if the input ends without a newline.\<close>

lemma last_char_is_lost: "ask_line A = ''12'' \<Longrightarrow> \<exists>A'. text_answer d A = Ret (Some ''1'', A')"
  by (simp add: text_answer_def)

text \<open>A line that starts with a null char: the char before the buffer is overwritten.\<close>

lemma null_line_faults:
  assumes "input_mode A = Ask_all" "ask_stdin A = CHR 0x00 # cs" "k_type (ksym K s) = S_STRING" "string_value s K = Ret t"
  shows "conf_string (Suc n) cv s A K = Fault"
proof -
  have "shown_value s K = Ret (Some t)" "sym_get_type cv s K = Ret (S_STRING, K)"
    using assms by (auto simp: shown_value_def string_value_def sym_get_type_def)
  moreover obtain u where "fst (get_line (CHR 0x00 # cs)) = CHR 0x00 # u"
    using get_line_parts [of "CHR 0x00 # cs"] by (cases "fst (get_line (CHR 0x00 # cs))") auto
  ultimately show ?thesis using assms(1,2) by (simp add: conf_askvalue_def read_stdin_def text_answer_def)
qed

end
