(* ===== verification/Kmconf.thy ===== *)
theory Kmconf
  imports Kask
begin

text \<open>
  tools/kconfig/mconf.c: the configuration program with menus.  Every dialog is a run of lxdialog, a
  program of its own, whose arguments are built in a buffer of fixed size; what it answers is an
  input of the model, a list of replies.  printf with %p of an entry is the argument ptr, sscanf with
  %p the argument scan.  The help texts, which reach lxdialog in a file, the terminal settings and
  the messages are left out.  The functions conf, conf_choice and conf_string of the file are
  mconf_conf, mconf_choice and mconf_string here.
\<close>

section \<open>The state\<close>

text \<open>A reply: the terminal was resized while the dialog was open (with the new size, if there is one), the
  dialog was interrupted, or it ended with a state and a text.\<close>

datatype reply = Resized "(nat \<times> nat) option" | Interrupted | Exit int string

record mcon =
  margs :: "string option list"
  open_arg :: "string option"
  buf_used :: nat
  mindent :: nat
  child_count :: nat
  rows :: nat
  cols :: nat
  viewed_menu :: nat
  single_menu_mode :: bool
  unfolded :: "nat \<Rightarrow> bool"
  menu_backtitle :: string
  input_buf :: string
  replies :: "reply list"
  saved_files :: "(string option \<times> string \<times> string) list"

type_synonym dialogs = "mcon \<times> kmenus \<times> kconf"

definition BUF_SIZE :: nat where "BUF_SIZE = 4096"
definition MAX_ARGS :: nat where "MAX_ARGS = 1024"

section \<open>Texts\<close>

definition menu_instructions :: string where
  "menu_instructions = ''Arrow keys navigate the menu.  '' @ ''<Enter> selects submenus --->.  '' @ ''Highlighted letters are hotkeys.  '' @
     ''Pressing <Y> includes, <N> excludes, <M> modularizes features.  '' @ ''Press <Esc><Esc> to exit, <?> for Help.  '' @
     ''Legend: [*] built-in  [ ] excluded  <M> module  < > module capable''"

definition radiolist_instructions :: string where
  "radiolist_instructions = ''Use the arrow keys to navigate this window or '' @ ''press the hotkey of the item you wish to select '' @
     ''followed by the <SPACE BAR>. '' @ ''Press <?> for additional information about this option.''"

definition inputbox_instructions_int :: string where
  "inputbox_instructions_int = ''Please enter a decimal value. '' @ ''Fractions will not be accepted.  '' @
     ''Use the <TAB> key to move from the input field to the buttons below it.''"

definition inputbox_instructions_hex :: string where
  "inputbox_instructions_hex = ''Please enter a hexadecimal value. '' @
     ''Use the <TAB> key to move from the input field to the buttons below it.''"

definition inputbox_instructions_string :: string where
  "inputbox_instructions_string = ''Please enter a string value. '' @
     ''Use the <TAB> key to move from the input field to the buttons below it.''"

definition load_config_text :: string where
  "load_config_text = ''Enter the name of the configuration file you wish to load.  '' @
     ''Accept the name shown to restore the configuration you '' @ ''last retrieved.  Leave blank to abort.''"

definition save_config_text :: string where
  "save_config_text = ''Enter a filename to which this configuration should be saved '' @ ''as an alternate.  Leave blank to abort.''"

text \<open>The formats %d and %*c with a space.\<close>

fun number_text :: "nat \<Rightarrow> string" where
  "number_text n = (if n < 10 then [] else number_text (n div 10)) @ [char_of (48 + n mod 10)]"

definition blanks :: "nat \<Rightarrow> string" where
  "blanks w = replicate (max 1 w) (CHR '' '')"

text \<open>A null pointer for %s is undefined.\<close>

definition text_or_fault :: "string option \<Rightarrow> string outcome" where
  "text_or_fault t = (case t of None \<Rightarrow> Fault | Some u \<Rightarrow> Ret u)"

section \<open>The window\<close>

text \<open>The size of the window, if the terminal tells it, and the numbers in LINES and COLUMNS (0 if they are not set).\<close>

definition init_wsize :: "nat \<Rightarrow> nat \<Rightarrow> (nat \<times> nat) option \<Rightarrow> mcon \<Rightarrow> mcon outcome" where
  "init_wsize lines columns ws c =
     (let (r, w) = (case ws of
          None \<Rightarrow> (24, 80)
        | Some (r, w) \<Rightarrow> (if r \<noteq> 0 then r else if lines \<noteq> 0 then lines else 24, if w \<noteq> 0 then w else if columns \<noteq> 0 then columns else 80))
      in if r < 19 \<or> w < 80 then Panic ''Your display is too small to run Menuconfig!''
         else Ret (c\<lparr>rows := r - 4, cols := w - 5\<rparr>))"

section \<open>Arguments\<close>

text \<open>vsprintf writes the text and its null char behind what the buffer holds.\<close>

definition put :: "string \<Rightarrow> mcon \<Rightarrow> mcon outcome" where
  "put t c = (if BUF_SIZE \<le> buf_used c + length t then Fault else Ret (c\<lparr>buf_used := buf_used c + length t\<rparr>))"

definition cprint1 :: "string \<Rightarrow> mcon \<Rightarrow> mcon outcome" where
  "cprint1 t c =
     (if MAX_ARGS \<le> length (margs c) then Fault
      else obind (put t c) (\<lambda>c. Ret (c\<lparr>open_arg := Some ((case open_arg c of None \<Rightarrow> [] | Some u \<Rightarrow> u) @ t)\<rparr>)))"

definition cprint_done :: "mcon \<Rightarrow> mcon outcome" where
  "cprint_done c =
     (if BUF_SIZE \<le> buf_used c then Fault
      else Ret (c\<lparr>buf_used := buf_used c + 1, margs := margs c @ [open_arg c], open_arg := None\<rparr>))"

definition cprint :: "string \<Rightarrow> mcon \<Rightarrow> mcon outcome" where
  "cprint t c =
     (if MAX_ARGS \<le> length (margs c) then Fault
      else obind (put t c) (\<lambda>c. Ret (c\<lparr>buf_used := buf_used c + 1, margs := margs c @ [Some t], open_arg := None\<rparr>)))"

fun cprints :: "string list \<Rightarrow> mcon \<Rightarrow> mcon outcome" where
  "cprints [] c = Ret c"
| "cprints (t # ts) c = obind (cprint t c) (cprints ts)"

text \<open>The back title is the format of a cprint.\<close>

definition cprint_init :: "mcon \<Rightarrow> mcon outcome" where
  "cprint_init c =
     (let c = c\<lparr>margs := [], open_arg := None, buf_used := 0, mindent := 0, child_count := 0\<rparr>
      in obind (cprints [''./tools/lxdialog/lxdialog'', ''--backtitle''] c) (\<lambda>c.
           if CHR ''%'' \<in> set (menu_backtitle c) then Fault else cprint (menu_backtitle c) c))"

section \<open>Running lxdialog\<close>

text \<open>The last argument is a null pointer; the answer is read into the buffer, its null char behind it.\<close>

definition exec_conf :: "nat \<Rightarrow> nat \<Rightarrow> mcon \<Rightarrow> (int \<times> mcon) outcome" where
  "exec_conf lines columns c =
     (if MAX_ARGS \<le> length (margs c) then Fault
      else (case replies c of
          [] \<Rightarrow> Timeout
        | Resized ws # rs \<Rightarrow> obind (init_wsize lines columns ws (c\<lparr>replies := rs, input_buf := []\<rparr>)) (\<lambda>c. Ret (-1, c))
        | Interrupted # rs \<Rightarrow> Panic ''interrupted''
        | Exit st out # rs \<Rightarrow>
            if BUF_SIZE \<le> length out then Fault
            else Ret (st, c\<lparr>replies := rs, input_buf := takeWhile (\<lambda>ch. ch \<noteq> CHR 0x00) out\<rparr>)))"

section \<open>The menu\<close>

definition on_con :: "(mcon \<Rightarrow> mcon outcome) \<Rightarrow> dialogs \<Rightarrow> dialogs outcome" where
  "on_con f = (\<lambda>(c, M, K). obind (f c) (\<lambda>c. Ret (c, M, K)))"

definition bool_box :: "tristate \<Rightarrow> string" where
  "bool_box v = ''['' @ (if v = tri_no then '' '' else ''*'') @ '']''"

definition tri_box :: "tristate \<Rightarrow> string" where
  "tri_box v = ''<'' @ (case v of tri_yes \<Rightarrow> ''*'' | tri_mod \<Rightarrow> ''M'' | tri_no \<Rightarrow> '' '') @ ''>''"

text \<open>A menu: its mark in the mode with a single menu, else an arrow behind it.\<close>

definition menu_line :: "(nat \<Rightarrow> string) \<Rightarrow> nat \<Rightarrow> dialogs \<Rightarrow> dialogs outcome" where
  "menu_line ptr m = (\<lambda>(c, M, K).
     obind (text_or_fault (menu_get_prompt m M K)) (\<lambda>p.
       on_con (\<lambda>c. obind (cprint (''m'' @ ptr m) (c\<lparr>child_count := child_count c + 1\<rparr>)) (\<lambda>c.
         obind (if single_menu_mode c then cprint1 ((if unfolded c m then ''-->'' else ''++>'') @ blanks (mindent c + 1) @ p) c
                else obind (if m_parent (entry M m) \<noteq> Some rootmenu then cprint1 (''   '' @ blanks (mindent c + 1)) c else Ret c)
                       (cprint1 (p @ ''  --->''))) cprint_done)) (c, M, K)))"

definition comment_line :: "(nat \<Rightarrow> string) \<Rightarrow> nat \<Rightarrow> dialogs \<Rightarrow> dialogs outcome" where
  "comment_line ptr m = (\<lambda>(c, M, K).
     (case menu_get_prompt m M K of
        None \<Rightarrow> Ret (c, M, K)
      | Some p \<Rightarrow>
          on_con (\<lambda>c. obind (cprint ('':'' @ ptr m) (c\<lparr>child_count := child_count c + 1\<rparr>)) (\<lambda>c.
            cprint (''---'' @ blanks (mindent c + 1) @ p) c)) (c, M, K)))"

text \<open>The line of a choice up to its prompt, then the chosen entry; rec is build_conf.\<close>

definition choice_mark :: "calc \<Rightarrow> (nat \<Rightarrow> string) \<Rightarrow> nat \<Rightarrow> sym_ref \<Rightarrow> symbol_type \<Rightarrow> nat option \<Rightarrow> dialogs \<Rightarrow> dialogs outcome" where
  "choice_mark cv ptr m s ty def_menu = (\<lambda>(c, M, K).
     (let val = sym_get_tristate_value s K
      in obind (sym_is_changable cv s K) (\<lambda>(ch, K).
           on_con (\<lambda>c.
             if ch
             then obind (cprint (''t'' @ ptr m) c) (\<lambda>c.
                    if ty = S_BOOLEAN then cprint1 (bool_box val) c else if ty = S_TRISTATE then cprint1 (tri_box val) c else Ret c)
             else obind (cprint ((if def_menu \<noteq> None then ''t'' else '':'') @ ptr m) c) (cprint1 ''   '')) (c, M, K))))"

text \<open>What follows the prompt of a choice: the chosen entry, and the entries below that one.\<close>

definition choice_end :: "(nat \<Rightarrow> dialogs \<Rightarrow> dialogs outcome) \<Rightarrow> tristate \<Rightarrow> nat option \<Rightarrow> dialogs \<Rightarrow> (bool \<times> dialogs) outcome" where
  "choice_end rec val def_menu = (\<lambda>(c, M, K).
     if val = tri_yes
     then (case def_menu of
         None \<Rightarrow> obind (cprint_done c) (\<lambda>c. Ret (True, c, M, K))
       | Some d \<Rightarrow>
           obind (text_or_fault (menu_get_prompt d M K)) (\<lambda>q.
             obind (obind (cprint1 ('' ('' @ q @ '')'') c) (\<lambda>c. obind (cprint1 ''  --->'' c) cprint_done)) (\<lambda>c.
               if m_list (entry M d) = None then Ret (True, c, M, K)
               else obind (rec d (c\<lparr>mindent := mindent c + 2\<rparr>, M, K)) (\<lambda>(c, M, K).
                      Ret (True, c\<lparr>mindent := mindent c - 2\<rparr>, M, K)))))
     else obind (cprint_done c) (\<lambda>c. Ret (False, c, M, K)))"

definition choice_line :: "nat \<Rightarrow> calc \<Rightarrow> (nat \<Rightarrow> string) \<Rightarrow> (nat \<Rightarrow> dialogs \<Rightarrow> dialogs outcome) \<Rightarrow> nat \<Rightarrow> sym_ref \<Rightarrow> symbol_type \<Rightarrow> dialogs \<Rightarrow> (bool \<times> dialogs) outcome" where
  "choice_line n cv ptr rec m s ty = (\<lambda>(c, M, K).
     obind (default_entry n cv (sv_value (k_curr (ksym K s))) (m_list (entry M m)) None (M, K)) (\<lambda>(def_menu, M, K).
       let val = sym_get_tristate_value s K
       in obind (choice_mark cv ptr m s ty def_menu (c\<lparr>child_count := child_count c + 1\<rparr>, M, K)) (\<lambda>(c, M, K).
            obind (text_or_fault (menu_get_prompt m M K)) (\<lambda>p.
              obind (cprint1 (blanks (mindent c + 1) @ p) c) (\<lambda>c. choice_end rec val def_menu (c, M, K))))))"

definition symbol_line :: "(nat \<Rightarrow> string) \<Rightarrow> nat \<Rightarrow> sym_ref \<Rightarrow> symbol_type \<Rightarrow> dialogs \<Rightarrow> dialogs outcome" where
  "symbol_line ptr m s ty = (\<lambda>(c, M, K).
     (let val = sym_get_tristate_value s K
      in obind (text_or_fault (menu_get_prompt m M K)) (\<lambda>p.
           let p = p @ (if sym_has_value s K then [] else '' (NEW)'')
           in on_con (\<lambda>c.
                let c = c\<lparr>child_count := child_count c + 1\<rparr>; rest = cprint1 (blanks (mindent c + 1) @ p)
                in if sym_is_choice_value s K \<and> val = tri_yes
                   then obind (cprints ['':'' @ ptr m] c) (\<lambda>c. obind (cprint1 ''   '' c) (\<lambda>c. obind (rest c) cprint_done))
                   else if ty = S_BOOLEAN
                   then obind (cprint (''t'' @ ptr m) c) (\<lambda>c. obind (cprint1 (bool_box val) c) (\<lambda>c. obind (rest c) cprint_done))
                   else if ty = S_TRISTATE
                   then obind (cprint (''t'' @ ptr m) c) (\<lambda>c. obind (cprint1 (tri_box val) c) (\<lambda>c. obind (rest c) cprint_done))
                   else obind (cprint (''s'' @ ptr m) c) (\<lambda>c.
                          obind (obind (shown_value s K) text_or_fault) (\<lambda>t.
                            obind (cprint1 (''('' @ t @ '')'') c) (\<lambda>c.
                              obind (cprint1 (blanks (mindent c + 4 - (length t + 2)) @ p) c) cprint_done)))) (c, M, K))))"

text \<open>build_conf: the entries below an entry, its own line, and both; the fuel bounds the nesting of the calls
  and the entries of a list.\<close>

definition entries_below :: "nat \<Rightarrow> (nat \<Rightarrow> dialogs \<Rightarrow> dialogs outcome) \<Rightarrow> nat \<Rightarrow> nat \<Rightarrow> dialogs \<Rightarrow> dialogs outcome" where
  "entries_below n rec m d = (\<lambda>(c, M, K).
     obind (each_child n rec (m_list (entry M m)) (c\<lparr>mindent := mindent c + d\<rparr>, M, K)) (\<lambda>(c, M, K).
       Ret (c\<lparr>mindent := mindent c - d\<rparr>, M, K)))"

definition build_plain :: "nat \<Rightarrow> (nat \<Rightarrow> string) \<Rightarrow> (nat \<Rightarrow> dialogs \<Rightarrow> dialogs outcome) \<Rightarrow> nat \<Rightarrow> dialogs \<Rightarrow> dialogs outcome" where
  "build_plain n ptr rec m = (\<lambda>(c, M, K).
     (case m_prompt (entry M m) of
        None \<Rightarrow> entries_below n rec m 0 (c, M, K)
      | Some r \<Rightarrow>
          if m = viewed_menu c then entries_below n rec m 0 (c, M, K)
          else if p_type (prompt_prop r M K) = P_MENU
          then obind (menu_line ptr m (c, M, K)) (\<lambda>(c, M, K).
                 if single_menu_mode c \<and> unfolded c m then entries_below n rec m 2 (c, M, K) else Ret (c, M, K))
          else obind (comment_line ptr m (c, M, K)) (entries_below n rec m 2)))"

definition build_symbol :: "nat \<Rightarrow> calc \<Rightarrow> (nat \<Rightarrow> string) \<Rightarrow> (nat \<Rightarrow> dialogs \<Rightarrow> dialogs outcome) \<Rightarrow> nat \<Rightarrow> sym_ref \<Rightarrow> dialogs \<Rightarrow> dialogs outcome" where
  "build_symbol n cv ptr rec m s = (\<lambda>(c, M, K).
     obind (sym_get_type cv s K) (\<lambda>(ty, K).
       if sym_is_choice s K
       then obind (choice_line n cv ptr rec m s ty (c, M, K)) (\<lambda>(fin, S). if fin then Ret S else entries_below n rec m 2 S)
       else obind (symbol_line ptr m s ty (c, M, K)) (entries_below n rec m 2)))"

definition build_entry :: "nat \<Rightarrow> calc \<Rightarrow> (nat \<Rightarrow> string) \<Rightarrow> (nat \<Rightarrow> dialogs \<Rightarrow> dialogs outcome) \<Rightarrow> nat \<Rightarrow> dialogs \<Rightarrow> dialogs outcome" where
  "build_entry n cv ptr rec m = (\<lambda>(c, M, K).
     obind (menu_is_visible cv m (M, K)) (\<lambda>(vis, M, K).
       if \<not> vis then Ret (c, M, K)
       else (case m_sym (entry M m) of
           None \<Rightarrow> build_plain n ptr rec m (c, M, K)
         | Some s \<Rightarrow> build_symbol n cv ptr rec m s (c, M, K))))"

fun build_conf :: "nat \<Rightarrow> calc \<Rightarrow> (nat \<Rightarrow> string) \<Rightarrow> nat \<Rightarrow> dialogs \<Rightarrow> dialogs outcome" where
  "build_conf 0 cv ptr m S = Timeout"
| "build_conf (Suc n) cv ptr m S = build_entry n cv ptr (build_conf n cv ptr) m S"

section \<open>Other dialogs\<close>

text \<open>A dialog that is opened again while the terminal is resized; the fuel bounds the replies.  ws are LINES and COLUMNS.\<close>

fun until_closed :: "nat \<Rightarrow> nat \<times> nat \<Rightarrow> (mcon \<Rightarrow> mcon outcome) \<Rightarrow> mcon \<Rightarrow> (int \<times> mcon) outcome" where
  "until_closed 0 ws build c = Timeout"
| "until_closed (Suc n) ws build c =
     obind (obind (cprint_init c) build) (\<lambda>c. obind (exec_conf (fst ws) (snd ws) c) (\<lambda>(st, c).
       if st < 0 then until_closed n ws build c else Ret (st, c)))"

definition show_textbox :: "nat \<Rightarrow> nat \<times> nat \<Rightarrow> string option \<Rightarrow> nat \<Rightarrow> nat \<Rightarrow> mcon \<Rightarrow> mcon outcome" where
  "show_textbox n ws title r w c =
     obind (until_closed n ws (cprints ((case title of None \<Rightarrow> [] | Some t \<Rightarrow> [''--title'', t]) @ [''--textbox'', ''.help.tmp'', number_text r, number_text w])) c)
       (\<lambda>(_, c). Ret c)"

definition show_helptext :: "nat \<Rightarrow> nat \<times> nat \<Rightarrow> string option \<Rightarrow> mcon \<Rightarrow> mcon outcome" where
  "show_helptext n ws title c = show_textbox n ws title (rows c) (cols c) c"

text \<open>The help of an entry, whose symbol must not be a null pointer.\<close>

definition show_help :: "nat \<Rightarrow> nat \<times> nat \<Rightarrow> nat \<Rightarrow> dialogs \<Rightarrow> dialogs outcome" where
  "show_help n ws m = (\<lambda>(c, M, K).
     if m_sym (entry M m) = None then Fault else on_con (show_helptext n ws (menu_get_prompt m M K)) (c, M, K))"

fun show_readme :: "nat \<Rightarrow> nat \<times> nat \<Rightarrow> mcon \<Rightarrow> mcon outcome" where
  "show_readme 0 ws c = Timeout"
| "show_readme (Suc n) ws c =
     obind (obind (cprint_init c) (\<lambda>c. cprints [''--textbox'', ''tools/README.Menuconfig'', number_text (rows c), number_text (cols c)] c)) (\<lambda>c.
       obind (exec_conf (fst ws) (snd ws) c) (\<lambda>(st, c). if st = -1 then show_readme n ws c else Ret c))"

definition dialog_title :: "nat \<Rightarrow> kmenus \<Rightarrow> kconf \<Rightarrow> string list" where
  "dialog_title m M K = [''--title'', case menu_get_prompt m M K of None \<Rightarrow> ''Main Menu'' | Some p \<Rightarrow> p]"

text \<open>The entries of a choice.\<close>

definition radio_entry :: "calc \<Rightarrow> (nat \<Rightarrow> string) \<Rightarrow> value_ptr \<Rightarrow> nat \<Rightarrow> dialogs \<Rightarrow> dialogs outcome" where
  "radio_entry cv ptr active x = (\<lambda>(c, M, K).
     obind (menu_is_visible cv x (M, K)) (\<lambda>(vis, M, K).
       if \<not> vis then Ret (c, M, K)
       else obind (text_or_fault (menu_get_prompt x M K)) (\<lambda>p.
              on_con (cprints [ptr x, p, if sym_pointer (m_sym (entry M x)) = active then ''ON'' else ''OFF'']) (c, M, K))))"

text \<open>m is the entry of the choice, until an entry was selected; t is the title.\<close>

fun mconf_choice :: "nat \<Rightarrow> nat \<times> nat \<Rightarrow> calc \<Rightarrow> (nat \<Rightarrow> string) \<Rightarrow> (string \<Rightarrow> nat option) \<Rightarrow> nat \<Rightarrow> dialogs \<Rightarrow> dialogs outcome" where
  "mconf_choice 0 ws cv ptr scan m S = Timeout"
| "mconf_choice (Suc n) ws cv ptr scan m (c, M, K) =
     obind (obind (cprint_init c) (cprints (dialog_title m M K @ [''--radiolist'', radiolist_instructions, ''15'', ''70'', ''6'']))) (\<lambda>c.
       case m_sym (entry M m) of
         None \<Rightarrow> Fault
       | Some s \<Rightarrow>
           obind (each_child n (radio_entry cv ptr (sv_value (k_curr (ksym K s)))) (m_list (entry M m)) (c\<lparr>viewed_menu := m\<rparr>, M, K)) (\<lambda>(c, M, K).
             obind (exec_conf (fst ws) (snd ws) c) (\<lambda>(st, c).
               if st = 0
               then (case scan (input_buf c) of
                   None \<Rightarrow> mconf_choice n ws cv ptr scan m (c, M, K)
                 | Some x \<Rightarrow>
                     (case m_sym (entry M x) of
                        None \<Rightarrow> Fault
                      | Some t \<Rightarrow> obind (sym_set_tristate_value cv t tri_yes K) (\<lambda>(_, K). Ret (c, M, K))))
               else if st = 1 then obind (show_help n ws m (c, M, K)) (mconf_choice n ws cv ptr scan m)
               else if st = 255 then Ret (c, M, K)
               else mconf_choice n ws cv ptr scan m (c, M, K))))"

definition inputbox_instructions :: "symbol_type \<Rightarrow> string list" where
  "inputbox_instructions ty =
     (case ty of S_INT \<Rightarrow> [inputbox_instructions_int] | S_HEX \<Rightarrow> [inputbox_instructions_hex] | S_STRING \<Rightarrow> [inputbox_instructions_string] | _ \<Rightarrow> [])"

fun mconf_string :: "nat \<Rightarrow> nat \<times> nat \<Rightarrow> calc \<Rightarrow> nat \<Rightarrow> dialogs \<Rightarrow> dialogs outcome" where
  "mconf_string 0 ws cv m S = Timeout"
| "mconf_string (Suc n) ws cv m (c, M, K) =
     (case m_sym (entry M m) of
        None \<Rightarrow> Fault
      | Some s \<Rightarrow>
          obind (obind (cprint_init c) (cprints (dialog_title m M K @ [''--inputbox'']))) (\<lambda>c.
            obind (sym_get_type cv s K) (\<lambda>(ty, K).
              obind (obind (shown_value s K) text_or_fault) (\<lambda>t.
                obind (cprints (inputbox_instructions ty @ [''10'', ''75'', t]) c) (\<lambda>c.
                  obind (exec_conf (fst ws) (snd ws) c) (\<lambda>(st, c).
                    if st = 0
                    then obind (sym_set_string_value cv s (input_buf c) K) (\<lambda>(ok, K).
                           if ok then Ret (c, M, K)
                           else obind (show_textbox n ws None 5 43 c) (\<lambda>c. mconf_string n ws cv m (c, M, K)))
                    else if st = 1 then obind (show_help n ws m (c, M, K)) (mconf_string n ws cv m)
                    else if st = 255 then Ret (c, M, K)
                    else mconf_string n ws cv m (c, M, K)))))))"

section \<open>Files\<close>

fun conf_load :: "nat \<Rightarrow> nat \<times> nat \<Rightarrow> calc \<Rightarrow> (string \<Rightarrow> string option) \<Rightarrow> dialogs \<Rightarrow> dialogs outcome" where
  "conf_load 0 ws cv zconf_fopen S = Timeout"
| "conf_load (Suc n) ws cv zconf_fopen (c, M, K) =
     obind (obind (cprint_init c) (cprints [''--inputbox'', load_config_text, ''11'', ''55'', ''.config''])) (\<lambda>c.
       obind (exec_conf (fst ws) (snd ws) c) (\<lambda>(st, c).
         if st = 0
         then if input_buf c = [] then Ret (c, M, K)
              else obind (conf_read cv zconf_fopen (Some (input_buf c)) K) (\<lambda>(r, K).
                     if r = 0 then Ret (c, M, K)
                     else obind (show_textbox n ws None 5 38 c) (\<lambda>c. conf_load n ws cv zconf_fopen (c, M, K)))
         else if st = 1
         then obind (show_helptext n ws (Some ''Load Alternate Configuration'') c) (\<lambda>c. conf_load n ws cv zconf_fopen (c, M, K))
         else if st = 255 then Ret (c, M, K)
         else conf_load n ws cv zconf_fopen (c, M, K)))"

text \<open>saves tells whether the new file can be moved to its name; the temporary file can be written.  The name of
  the old file is built in a buffer of 128 chars.  What is written is noted.\<close>

definition write_named :: "nat \<Rightarrow> calc \<Rightarrow> (string \<Rightarrow> bool) \<Rightarrow> string option \<Rightarrow> dialogs \<Rightarrow> (bool \<times> dialogs) outcome" where
  "write_named n cv saves name = (\<lambda>(c, M, K).
     obind (conf_write n cv (M, K)) (\<lambda>((cfg, hdr), M, K1).
       let target = (case name of None \<Rightarrow> conf_def_filename | Some t \<Rightarrow> t)
       in if 128 \<le> length target + 4 then Fault
          else if saves target then Ret (True, c\<lparr>saved_files := saved_files c @ [(name, cfg, hdr)]\<rparr>, M, K1)
          else Ret (False, c, M, K1\<lparr>sym_change_count := sym_change_count K\<rparr>)))"

fun conf_save :: "nat \<Rightarrow> nat \<times> nat \<Rightarrow> calc \<Rightarrow> (string \<Rightarrow> bool) \<Rightarrow> dialogs \<Rightarrow> dialogs outcome" where
  "conf_save 0 ws cv saves S = Timeout"
| "conf_save (Suc n) ws cv saves (c, M, K) =
     obind (obind (cprint_init c) (cprints [''--inputbox'', save_config_text, ''11'', ''55'', ''.config''])) (\<lambda>c.
       obind (exec_conf (fst ws) (snd ws) c) (\<lambda>(st, c).
         if st = 0
         then if input_buf c = [] then Ret (c, M, K)
              else obind (write_named n cv saves (Some (input_buf c)) (c, M, K)) (\<lambda>(ok, c, M, K).
                     if ok then Ret (c, M, K)
                     else obind (show_textbox n ws None 5 60 c) (\<lambda>c. conf_save n ws cv saves (c, M, K)))
         else if st = 1
         then obind (show_helptext n ws (Some ''Save Alternate Configuration'') c) (\<lambda>c. conf_save n ws cv saves (c, M, K))
         else if st = 255 then Ret (c, M, K)
         else conf_save n ws cv saves (c, M, K)))"

section \<open>The menu loop\<close>

text \<open>What is fixed in a run: LINES and COLUMNS, the two pointer formats, the files that can be read and the names that can be written.\<close>

record surroundings =
  env_size :: "nat \<times> nat"
  ptr :: "nat \<Rightarrow> string"
  scan :: "string \<Rightarrow> nat option"
  readable :: "string \<Rightarrow> string option"
  writable :: "string \<Rightarrow> bool"

text \<open>The first word of the answer; 39 chars of it are kept as the active entry.  Cutting an answer that begins
  with a space leaves the rest of the buffer behind the null char.\<close>

definition first_word :: "string \<Rightarrow> string" where
  "first_word t = take 39 (takeWhile (\<lambda>ch. \<not> is_space ch) t)"

text \<open>The symbol that is set must not be a null pointer.\<close>

definition set_entry :: "calc \<Rightarrow> (calc \<Rightarrow> sym_ref \<Rightarrow> kconf \<Rightarrow> ('a \<times> kconf) outcome) \<Rightarrow> sym_ref option \<Rightarrow> dialogs \<Rightarrow> ('a \<times> dialogs) outcome" where
  "set_entry cv f s = (\<lambda>(c, M, K).
     case s of None \<Rightarrow> Fault | Some s \<Rightarrow> obind (f cv s K) (\<lambda>(x, K). Ret (x, c, M, K)))"

definition set_to :: "tristate \<Rightarrow> calc \<Rightarrow> sym_ref \<Rightarrow> kconf \<Rightarrow> (bool \<times> kconf) outcome" where
  "set_to v cv s K = sym_set_tristate_value cv s v K"

text \<open>What follows an answer: st is the button, key the kind of the entry, x the entry.  rec is conf.\<close>

definition answered :: "nat \<Rightarrow> calc \<Rightarrow> surroundings \<Rightarrow> (nat \<Rightarrow> dialogs \<Rightarrow> dialogs outcome) \<Rightarrow> int \<Rightarrow> char \<Rightarrow> nat option \<Rightarrow> dialogs \<Rightarrow> dialogs outcome" where
  "answered n cv E rec st key x = (\<lambda>(c, M, K).
     (let s = (case x of None \<Rightarrow> None | Some m \<Rightarrow> m_sym (entry M m));
          submenu = (\<lambda>f. case x of None \<Rightarrow> Fault | Some m \<Rightarrow> f m (c, M, K))
      in if st = 0
         then (if key = CHR ''m''
               then if single_menu_mode c then submenu (\<lambda>m (c, M, K). Ret (c\<lparr>unfolded := (unfolded c)(m := \<not> unfolded c m)\<rparr>, M, K)) else submenu rec
               else if key = CHR ''t''
               then (case s of
                   None \<Rightarrow> Fault
                 | Some t \<Rightarrow> if sym_is_choice t K \<and> sym_get_tristate_value t K = tri_yes
                             then submenu (mconf_choice n (env_size E) cv (ptr E) (scan E)) else Ret (c, M, K))
               else if key = CHR ''s'' then submenu (mconf_string n (env_size E) cv)
               else if key = CHR ''L'' then conf_load n (env_size E) cv (readable E) (c, M, K)
               else if key = CHR ''S'' then conf_save n (env_size E) cv (writable E) (c, M, K)
               else Ret (c, M, K))
         else if st = 2
         then if s \<noteq> None then submenu (show_help n (env_size E)) else on_con (show_readme n (env_size E)) (c, M, K)
         else if st = 3 \<and> key = CHR ''t''
         then obind (set_entry cv (set_to tri_yes) s (c, M, K)) (\<lambda>(ok, c, M, K).
                if ok then Ret (c, M, K)
                else obind (set_entry cv (set_to tri_mod) s (c, M, K)) (\<lambda>(ok, c, M, K).
                       if ok then on_con (show_textbox n (env_size E) None 6 74) (c, M, K) else Ret (c, M, K)))
         else if st = 4 \<and> key = CHR ''t'' then obind (set_entry cv (set_to tri_no) s (c, M, K)) (\<lambda>(_, S). Ret S)
         else if st = 5 \<and> key = CHR ''t'' then obind (set_entry cv (set_to tri_mod) s (c, M, K)) (\<lambda>(_, S). Ret S)
         else if st = 6 \<and> key = CHR ''t'' then obind (set_entry cv sym_toggle_tristate_value s (c, M, K)) (\<lambda>(_, S). Ret S)
         else if st = 6 \<and> key = CHR ''m'' then submenu rec
         else Ret (c, M, K)))"

definition menu_dialog :: "nat \<Rightarrow> calc \<Rightarrow> surroundings \<Rightarrow> string list \<Rightarrow> string \<Rightarrow> nat \<Rightarrow> dialogs \<Rightarrow> dialogs outcome" where
  "menu_dialog n cv E title active m = (\<lambda>(c, M, K).
     obind (obind (cprint_init c) (\<lambda>c. cprints (title @ [''--menu'', menu_instructions, number_text (rows c), number_text (cols c), number_text (rows c - 10), active]) c)) (\<lambda>c.
       build_conf n cv (ptr E) m (c\<lparr>viewed_menu := m\<rparr>, M, K)))"

definition file_entries :: "nat \<Rightarrow> mcon \<Rightarrow> mcon outcome" where
  "file_entries m c =
     (if m = rootmenu
      then cprints ['':'', ''--- '', ''L'', ''Load an Alternate Configuration File'', ''S'', ''Save Configuration to an Alternate File''] c
      else Ret c)"

text \<open>conf; the title is made once, and the fuel bounds the nesting and the rounds.\<close>

fun conf_rounds :: "nat \<Rightarrow> nat \<Rightarrow> calc \<Rightarrow> surroundings \<Rightarrow> (nat \<Rightarrow> dialogs \<Rightarrow> dialogs outcome) \<Rightarrow> string list \<Rightarrow> string \<Rightarrow> nat \<Rightarrow> dialogs \<Rightarrow> dialogs outcome" where
  "conf_rounds 0 n cv E rec title active m S = Timeout"
| "conf_rounds (Suc r) n cv E rec title active m S =
     obind (menu_dialog n cv E title active m S) (\<lambda>(c, M, K).
       if child_count c = 0 then Ret (c, M, K)
       else obind (file_entries m c) (\<lambda>c.
         obind (exec_conf (fst (env_size E)) (snd (env_size E)) c) (\<lambda>(st, c).
           if st < 0 then conf_rounds r n cv E rec title active m (c, M, K)
           else if st = 1 \<or> st = 255 then Ret (c, M, K)
           else if input_buf c = [] then conf_rounds r n cv E rec title active m (c, M, K)
           else (let t = first_word (input_buf c)
                 in obind (answered n cv E rec st (first_char (input_buf c)) (scan E (drop 1 (if t = [] then input_buf c else t))) (c\<lparr>input_buf := t\<rparr>, M, K))
                      (conf_rounds r n cv E rec title t m)))))"

fun mconf_conf :: "nat \<Rightarrow> calc \<Rightarrow> surroundings \<Rightarrow> nat \<Rightarrow> dialogs \<Rightarrow> dialogs outcome" where
  "mconf_conf 0 cv E m S = Timeout"
| "mconf_conf (Suc n) cv E m (c, M, K) =
     conf_rounds n n cv E (mconf_conf n cv E) (dialog_title m M K) [] m (c, M, K)"

section \<open>The program\<close>

definition title_of :: "string \<Rightarrow> string" where
  "title_of release = ''Acaros Kernel v'' @ release @ '' Configuration''"

text \<open>mconf_main once the configuration files are parsed.  single tells whether MENUCONFIG_MODE is single_menu, ws is the size of the window.\<close>

definition mconf_main :: "nat \<Rightarrow> calc \<Rightarrow> surroundings \<Rightarrow> bool \<Rightarrow> (nat \<times> nat) option \<Rightarrow> dialogs \<Rightarrow> dialogs outcome" where
  "mconf_main n cv E single ws = (\<lambda>(c, M, K).
     obind (conf_read cv (readable E) None K) (\<lambda>(_, K).
       obind (sym_lookup (Some ''KERNELRELEASE'') False K) (\<lambda>(s, K).
         obind (cv s K) (\<lambda>K.
           obind (obind (shown_value s K) text_or_fault) (\<lambda>t.
             if 128 \<le> length (title_of t) then Fault
             else obind (init_wsize (fst (env_size E)) (snd (env_size E)) ws (c\<lparr>menu_backtitle := title_of t, single_menu_mode := single_menu_mode c \<or> single\<rparr>)) (\<lambda>c.
               obind (mconf_conf n cv E rootmenu (c, M, K)) (\<lambda>(c, M, K).
                 obind (until_closed n (env_size E) (cprints [''--yesno'', ''Do you wish to save your new kernel configuration?'', ''5'', ''60'']) c) (\<lambda>(st, c).
                   if st = 0 then obind (write_named n cv (writable E) None (c, M, K)) (\<lambda>(_, S). Ret S) else Ret (c, M, K))))))))) "

end
