(* ===== verification/Kmconf_Props.thy ===== *)
theory Kmconf_Props
  imports Kmconf Kask_Props
begin

text \<open>
  The list of a menu: the arguments build_conf makes for lxdialog are pairs of a tag and a text, one
  for each line, and a tag that stands for a value names an entry with a symbol.
\<close>

section \<open>Arguments\<close>

lemma cprint_Ret: "cprint t c = Ret c' \<longleftrightarrow> length (margs c) < MAX_ARGS \<and> buf_used c + length t < BUF_SIZE \<and>
    c' = c\<lparr>buf_used := buf_used c + length t + 1, margs := margs c @ [Some t], open_arg := None\<rparr>"
  by (auto simp: cprint_def put_def)

lemma cprint1_Ret: "cprint1 t c = Ret c' \<longleftrightarrow> length (margs c) < MAX_ARGS \<and> buf_used c + length t < BUF_SIZE \<and>
    c' = c\<lparr>buf_used := buf_used c + length t, open_arg := Some ((case open_arg c of None \<Rightarrow> [] | Some u \<Rightarrow> u) @ t)\<rparr>"
  by (auto simp: cprint1_def put_def)

lemma cprint_done_Ret: "cprint_done c = Ret c' \<longleftrightarrow> buf_used c < BUF_SIZE \<and>
    c' = c\<lparr>buf_used := buf_used c + 1, margs := margs c @ [open_arg c], open_arg := None\<rparr>"
  by (auto simp: cprint_done_def)

lemmas con_Ret = cprint_Ret cprint1_Ret cprint_done_Ret

text \<open>The lines between two states.\<close>

definition line_args :: "(string \<times> string) list \<Rightarrow> string option list" where
  "line_args ls = concat (map (\<lambda>(t, x). [Some t, Some x]) ls)"

definition lines_size :: "(string \<times> string) list \<Rightarrow> nat" where
  "lines_size ls = sum_list (map (\<lambda>(t, x). length t + length x + 2) ls)"

definition listed :: "mcon \<Rightarrow> (string \<times> string) list \<Rightarrow> mcon \<Rightarrow> bool" where
  "listed c ls c' \<longleftrightarrow> margs c' = margs c @ line_args ls \<and> open_arg c' = None \<and> child_count c' = child_count c + length ls \<and>
     buf_used c' = buf_used c + lines_size ls \<and> mindent c' = mindent c \<and> viewed_menu c' = viewed_menu c \<and>
     (buf_used c \<le> BUF_SIZE \<longrightarrow> buf_used c' \<le> BUF_SIZE)"

lemma listed_trans: "listed c ls c1 \<Longrightarrow> listed c1 ls' c2 \<Longrightarrow> listed c (ls @ ls') c2"
  by (auto simp: listed_def line_args_def lines_size_def)

lemma listed_none: "open_arg c = None \<Longrightarrow> listed c [] c"
  by (simp add: listed_def line_args_def lines_size_def)

text \<open>A tag is a kind and an entry; a kind that stands for a value needs a symbol.\<close>

definition tag_ok :: "(nat \<Rightarrow> string) \<Rightarrow> (nat \<Rightarrow> kmenu) \<Rightarrow> string \<times> string \<Rightarrow> bool" where
  "tag_ok p e l \<longleftrightarrow> (\<exists>k x. fst l = k # p x \<and> (k = CHR ''m'' \<or> k = CHR '':'' \<or> (k = CHR ''t'' \<or> k = CHR ''s'') \<and> m_sym (e x) \<noteq> None))"

definition adds_lines :: "(nat \<Rightarrow> string) \<Rightarrow> dialogs \<Rightarrow> dialogs \<Rightarrow> bool" where
  "adds_lines p = (\<lambda>(c, M, K) (c', M', K'). entry M' = entry M \<and> (\<exists>ls. listed c ls c' \<and> (\<forall>l \<in> set ls. tag_ok p (entry M) l)))"

lemma adds_lines_trans: "adds_lines p S S1 \<Longrightarrow> adds_lines p S1 S2 \<Longrightarrow> adds_lines p S S2"
proof -
  assume "adds_lines p S S1" "adds_lines p S1 S2"
  moreover obtain c M K c1 M1 K1 c2 M2 K2 where "S = (c, M, K)" "S1 = (c1, M1, K1)" "S2 = (c2, M2, K2)" by (cases S; cases S1; cases S2) auto
  ultimately obtain ls ls' where "listed c ls c1" "listed c1 ls' c2" "entry M1 = entry M" "entry M2 = entry M"
      "\<forall>l \<in> set (ls @ ls'). tag_ok p (entry M) l" "S = (c, M, K)" "S2 = (c2, M2, K2)"
    by (fastforce simp: adds_lines_def)
  then show ?thesis using listed_trans by (fastforce simp: adds_lines_def)
qed

lemma adds_no_lines: "open_arg c = None \<Longrightarrow> entry M' = entry M \<Longrightarrow> adds_lines p (c, M, K) (c, M', K')"
  unfolding adds_lines_def by (auto intro!: exI [of _ "[]"] listed_none)

lemma adds_lines_open: "adds_lines p S (c, MK) \<Longrightarrow> open_arg c = None"
  by (cases S; cases MK) (auto simp: adds_lines_def listed_def)

text \<open>One line.\<close>

lemma adds_lines_line: "listed c [(t, x)] c' \<Longrightarrow> tag_ok p (entry M) (t, x) \<Longrightarrow> entry M' = entry M \<Longrightarrow> adds_lines p (c, M, K) (c', M', K')"
  unfolding adds_lines_def by (auto intro!: exI [of _ "[(t, x)]"])

lemma tag_okI:
  "tag_ok p e (CHR ''m'' # p m, x)" "tag_ok p e (CHR '':'' # p m, x)"
  "m_sym (e m) \<noteq> None \<Longrightarrow> tag_ok p e (CHR ''t'' # p m, x)" "m_sym (e m) \<noteq> None \<Longrightarrow> tag_ok p e (CHR ''s'' # p m, x)"
  by (auto simp: tag_ok_def)

section \<open>The lines\<close>

lemma set_prompt_tri_entry: "set_prompt_tri r v (M, K) = (M', K') \<Longrightarrow> entry M' = entry M"
  by (auto simp: set_prompt_tri_def split: prompt_ref.splits)

lemma visible_entry: "menu_is_visible cv m (M, K) = Ret (b, M', K') \<Longrightarrow> entry M' = entry M"
  by (auto simp: menu_is_visible_def split: option.splits dest: set_prompt_tri_entry)

lemma default_entry_keeps: "default_entry n cv d x f (M, K) = Ret (r, M', K') \<Longrightarrow> entry M' = entry M"
proof (induction n arbitrary: x f M K)
  case (Suc n)
  show ?case
  proof (cases x)
    case (Some y)
    then obtain vis M1 K1 where v: "menu_is_visible cv y (M, K) = Ret (vis, M1, K1)"
      and d: "default_entry n cv d (m_next (entry M1 y)) (if vis \<and> sym_pointer (m_sym (entry M1 y)) = d then Some y else f) (M1, K1) = Ret (r, M', K')"
      using Suc.prems by (cases "menu_is_visible cv y (M, K)") auto
    then show ?thesis using Suc.IH [OF d] visible_entry [OF v] by simp
  qed (use Suc.prems in auto)
qed simp

lemma menu_line_adds: "menu_line p m (c, M, K) = Ret S' \<Longrightarrow> adds_lines p (c, M, K) S'"
  by (cases S') (auto simp: menu_line_def on_con_def con_Ret tag_okI listed_def line_args_def lines_size_def
      split: if_splits intro!: adds_lines_line)

lemma comment_line_adds: "open_arg c = None \<Longrightarrow> comment_line p m (c, M, K) = Ret S' \<Longrightarrow> adds_lines p (c, M, K) S'"
  by (cases S') (auto simp: comment_line_def on_con_def con_Ret tag_okI listed_def line_args_def lines_size_def
      split: option.splits intro!: adds_lines_line adds_no_lines)

lemma symbol_line_adds: "m_sym (entry M m) = Some s \<Longrightarrow> symbol_line p m s ty (c, M, K) = Ret S' \<Longrightarrow> adds_lines p (c, M, K) S'"
  by (cases S') (auto simp: symbol_line_def on_con_def con_Ret tag_okI listed_def line_args_def lines_size_def Let_def
      split: if_splits intro!: adds_lines_line)

text \<open>The entries below a line, with more indentation.\<close>

lemma indented_adds: "adds_lines p (c\<lparr>mindent := mindent c + d\<rparr>, M, K) (c', M', K') \<Longrightarrow>
    adds_lines p (c, M, K) (c'\<lparr>mindent := mindent c' - d\<rparr>, M', K')"
  by (auto simp: adds_lines_def listed_def)

lemma each_child_adds:
  assumes "\<And>x c M K S'. open_arg c = None \<Longrightarrow> f x (c, M, K) = Ret S' \<Longrightarrow> adds_lines p (c, M, K) S'"
  shows "open_arg c = None \<Longrightarrow> each_child n f x (c, M, K) = Ret S' \<Longrightarrow> adds_lines p (c, M, K) S'"
proof (induction n arbitrary: x c M K)
  case (Suc n)
  show ?case
  proof (cases x)
    case None
    then show ?thesis using Suc.prems by (auto intro: adds_no_lines)
  next
    case (Some y)
    then obtain c1 M1 K1 where 1: "f y (c, M, K) = Ret (c1, M1, K1)" "each_child n f (m_next (entry M1 y)) (c1, M1, K1) = Ret S'"
      using Suc.prems(2) by (cases "f y (c, M, K)") auto
    have a: "adds_lines p (c, M, K) (c1, M1, K1)" by (rule assms [OF Suc.prems(1) 1(1)])
    show ?thesis by (rule adds_lines_trans [OF a Suc.IH [OF adds_lines_open [OF a] 1(2)]])
  qed
qed simp

lemma choice_mark_tag:
  assumes "choice_mark cv p m s ty d (c, M, K) = Ret (c1, M1, K1)" "m_sym (entry M m) = Some s"
  shows "M1 = M \<and> (\<exists>t u. tag_ok p (entry M) (t, x) \<and> margs c1 = margs c @ [Some t] \<and> (case open_arg c1 of None \<Rightarrow> [] | Some u \<Rightarrow> u) = u \<and>
    buf_used c1 = buf_used c + length t + 1 + length u \<and> child_count c1 = child_count c \<and> mindent c1 = mindent c \<and> viewed_menu c1 = viewed_menu c)"
  using assms by (auto simp: choice_mark_def on_con_def con_Ret Let_def tag_okI split: if_splits)

lemma choice_line_adds:
  assumes rec: "\<And>x c M K S'. open_arg c = None \<Longrightarrow> rec x (c, M, K) = Ret S' \<Longrightarrow> adds_lines p (c, M, K) S'"
    and "choice_line n cv p rec m s ty (c, M, K) = Ret (b, S')" "m_sym (entry M m) = Some s"
  shows "adds_lines p (c, M, K) S'"
proof -
  from assms(2) obtain d M1 K1 c2 M2 K2 q c0 where 1: "default_entry n cv (sv_value (k_curr (ksym K s))) (m_list (entry M m)) None (M, K) = Ret (d, M1, K1)"
    and 2: "choice_mark cv p m s ty d (c\<lparr>child_count := child_count c + 1\<rparr>, M1, K1) = Ret (c2, M2, K2)"
    and c0: "cprint1 (blanks (mindent c2 + 1) @ q) c2 = Ret c0" and rest: "choice_end rec (sym_get_tristate_value s K1) d (c0, M2, K2) = Ret (b, S')"
    by (auto simp: choice_line_def Let_def)
  have e1: "entry M1 = entry M" by (rule default_entry_keeps [OF 1])
  have m1: "m_sym (entry M1 m) = Some s" using assms(3) e1 by simp
  obtain t u where M2: "M2 = M1" and c2: "\<And>x. tag_ok p (entry M) (t, x)" "margs c2 = margs c @ [Some t]" "(case open_arg c2 of None \<Rightarrow> [] | Some u \<Rightarrow> u) = u"
      "buf_used c2 = buf_used c + length t + 1 + length u" "child_count c2 = child_count c + 1" "mindent c2 = mindent c" "viewed_menu c2 = viewed_menu c"
    using choice_mark_tag [OF 2 m1] e1 by (fastforce simp: tag_ok_def)
  have line: "adds_lines p (c, M, K) (c3, M2, K2)"
    if "margs c3 = margs c2 @ [Some (u @ y)]" "open_arg c3 = None" "buf_used c3 = buf_used c2 + length y + 1" "child_count c3 = child_count c2"
      "mindent c3 = mindent c2" "viewed_menu c3 = viewed_menu c2" "buf_used c3 \<le> BUF_SIZE" for c3 y
    by (rule adds_lines_line [of _ t "u @ y"]) (use that c2 e1 M2 in \<open>simp_all add: listed_def line_args_def lines_size_def\<close>)
  show ?thesis
  proof (cases "sym_get_tristate_value s K1 = tri_yes \<and> (\<exists>x. d = Some x \<and> m_list (entry M2 x) \<noteq> None)")
    case False
    then show ?thesis using rest c0 c2(3) by (auto simp: choice_end_def con_Ret split: if_splits option.splits intro!: line)
  next
    case True
    then obtain x q2 c1 c1' c3 c4 M4 K4 where p: "cprint1 ('' ('' @ q2 @ '')'') c0 = Ret c1" "cprint1 ''  --->'' c1 = Ret c1'" "cprint_done c1' = Ret c3"
      and 4: "rec x (c3\<lparr>mindent := mindent c3 + 2\<rparr>, M2, K2) = Ret (c4, M4, K4)" "S' = (c4\<lparr>mindent := mindent c4 - 2\<rparr>, M4, K4)"
      using rest by (auto simp: choice_end_def)
    obtain y where 3: "margs c3 = margs c2 @ [Some (u @ y)]" "open_arg c3 = None" "buf_used c3 = buf_used c2 + length y + 1" "child_count c3 = child_count c2"
        "mindent c3 = mindent c2" "viewed_menu c3 = viewed_menu c2" "buf_used c3 \<le> BUF_SIZE"
      using p c0 c2(3) by (auto simp: con_Ret)
    have "adds_lines p (c3\<lparr>mindent := mindent c3 + 2\<rparr>, M2, K2) (c4, M4, K4)" by (rule rec [OF _ 4(1)]) (simp add: 3(2))
    from adds_lines_trans [OF line [OF 3] indented_adds [OF this]] show ?thesis by (simp add: 4(2))
  qed
qed

section \<open>The list\<close>

lemma entries_below_adds:
  assumes "\<And>x c M K S'. open_arg c = None \<Longrightarrow> rec x (c, M, K) = Ret S' \<Longrightarrow> adds_lines p (c, M, K) S'"
    and "adds_lines p S S1" "entries_below n rec m d S1 = Ret S'"
  shows "adds_lines p S S'"
proof -
  obtain c M K where S1: "S1 = (c, M, K)" by (cases S1)
  have o: "open_arg c = None" by (rule adds_lines_open [OF assms(2) [unfolded S1]])
  obtain c2 M2 K2 where 2: "each_child n rec (m_list (entry M m)) (c\<lparr>mindent := mindent c + d\<rparr>, M, K) = Ret (c2, M2, K2)"
      "S' = (c2\<lparr>mindent := mindent c2 - d\<rparr>, M2, K2)"
    using assms(3) by (auto simp: entries_below_def S1)
  have "adds_lines p (c\<lparr>mindent := mindent c + d\<rparr>, M, K) (c2, M2, K2)" by (rule each_child_adds [OF assms(1) _ 2(1)]) (simp_all add: o)
  then show ?thesis using adds_lines_trans [OF assms(2) [unfolded S1] indented_adds] by (simp add: 2(2))
qed

lemma build_conf_adds: "open_arg c = None \<Longrightarrow> build_conf n cv p m (c, M, K) = Ret S' \<Longrightarrow> adds_lines p (c, M, K) S'"
proof (induction n arbitrary: m c M K S')
  case (Suc n)
  note rec = Suc.IH
  have below: "adds_lines p S S1 \<Longrightarrow> entries_below n (build_conf n cv p) m d S1 = Ret S2 \<Longrightarrow> adds_lines p S S2" for S S1 S2 d
    by (rule entries_below_adds [of "build_conf n cv p"]) (rule rec)
  obtain vis M1 K1 where v: "menu_is_visible cv m (M, K) = Ret (vis, M1, K1)"
    using Suc.prems(2) by (cases "menu_is_visible cv m (M, K)") (auto simp: build_entry_def)
  note e1 = visible_entry [OF v]
  have start: "adds_lines p (c, M, K) (c, M1, K2)" for K2 by (rule adds_no_lines [OF Suc.prems(1) e1])
  show ?case
  proof (cases "\<not> vis")
    case True
    then show ?thesis using Suc.prems v start by (auto simp: build_entry_def)
  next
    case vis: False
    show ?thesis
    proof (cases "m_sym (entry M1 m)")
      case (Some s)
      have "build_symbol n cv p (build_conf n cv p) m s (c, M1, K1) = Ret S'" using Suc.prems(2) v vis Some by (simp add: build_entry_def)
      then consider (choice) ty K2 b S1 where "choice_line n cv p (build_conf n cv p) m s ty (c, M1, K2) = Ret (b, S1)"
            "b \<and> S1 = S' \<or> entries_below n (build_conf n cv p) m 2 S1 = Ret S'"
        | (line) ty K2 S1 where "symbol_line p m s ty (c, M1, K2) = Ret S1" "entries_below n (build_conf n cv p) m 2 S1 = Ret S'"
        by (fastforce simp: build_symbol_def split: if_splits)
      then show ?thesis
      proof cases
        case choice
        have a: "adds_lines p (c, M, K) S1" by (rule adds_lines_trans [OF start choice_line_adds [OF rec choice(1) Some]])
        then show ?thesis using choice(2) below by blast
      next
        case line
        have a: "adds_lines p (c, M, K) S1" by (rule adds_lines_trans [OF start symbol_line_adds [OF Some line(1)]])
        then show ?thesis using line(2) below by blast
      qed
    next
      case None
      have "build_plain n p (build_conf n cv p) m (c, M1, K1) = Ret S'" using Suc.prems(2) v vis None by (simp add: build_entry_def)
      then consider (only) d where "entries_below n (build_conf n cv p) m d (c, M1, K1) = Ret S'"
        | (menu) S1 where "menu_line p m (c, M1, K1) = Ret S1" "entries_below n (build_conf n cv p) m 2 S1 = Ret S' \<or> S1 = S'"
        | (comment) S1 where "comment_line p m (c, M1, K1) = Ret S1" "entries_below n (build_conf n cv p) m 2 S1 = Ret S'"
        by (fastforce simp: build_plain_def split: option.splits if_splits)
      then show ?thesis
      proof cases
        case only
        then show ?thesis by (rule below [OF start])
      next
        case menu
        have a: "adds_lines p (c, M, K) S1" by (rule adds_lines_trans [OF start menu_line_adds [OF menu(1)]])
        then show ?thesis using menu(2) below by blast
      next
        case comment
        have a: "adds_lines p (c, M, K) S1" by (rule adds_lines_trans [OF start comment_line_adds [OF Suc.prems(1) comment(1)]])
        then show ?thesis by (rule below [OF _ comment(2)])
      qed
    qed
  qed
qed simp

section \<open>The dialog of a menu\<close>

definition args_size :: "string option list \<Rightarrow> nat" where
  "args_size as = sum_list (map (\<lambda>a. case a of None \<Rightarrow> 0 | Some t \<Rightarrow> length t + 1) as)"

lemma args_size_append [simp]: "args_size (as @ bs) = args_size as + args_size bs"
  by (simp add: args_size_def)

lemma args_size_lines: "args_size (line_args ls) = lines_size ls"
  by (induction ls) (auto simp: args_size_def line_args_def lines_size_def)

lemma cprints_Ret:
  "cprints ts c = Ret c' \<Longrightarrow> open_arg c = None \<Longrightarrow> margs c' = margs c @ map Some ts \<and> open_arg c' = None \<and> buf_used c' = buf_used c + args_size (map Some ts) \<and>
     (buf_used c \<le> BUF_SIZE \<longrightarrow> buf_used c' \<le> BUF_SIZE) \<and> child_count c' = child_count c \<and> menu_backtitle c' = menu_backtitle c \<and> rows c' = rows c \<and> cols c' = cols c"
proof (induction ts arbitrary: c)
  case (Cons t ts)
  then show ?case using Cons.IH by (fastforce simp: con_Ret args_size_def)
qed (simp add: args_size_def)

lemma cprint_init_Ret:
  assumes "cprint_init c = Ret c'"
  shows "margs c' = map Some [''./tools/lxdialog/lxdialog'', ''--backtitle'', menu_backtitle c] \<and> open_arg c' = None \<and> buf_used c' = args_size (margs c') \<and>
    buf_used c' \<le> BUF_SIZE \<and> child_count c' = 0 \<and> rows c' = rows c \<and> cols c' = cols c"
  using assms by (auto simp: cprint_init_def Let_def con_Ret args_size_def split: if_splits)

text \<open>What a menu dialog is started with, for any state of the program before: the program, the back title, the
  title, the menu box with its size and the active entry, and then a tag and a text for every line of the
  menu.  child_count is the number of the lines; a tag is the kind of the line and the address of an
  entry, and the kinds t and s, whose answers set a symbol, are those of entries with a symbol, so no
  answer that repeats a tag makes the program follow a null pointer; the tree is left as it was; and all
  texts with their null chars fit into the buffer, so for a menu with more text the program does not
  come to start the dialog, it writes behind the buffer.\<close>
lemma menu_dialog_arguments:
  assumes "menu_dialog n cv E title active m (c, M, K) = Ret (c', M', K')"
  shows "\<exists>ls. margs c' = map Some ([''./tools/lxdialog/lxdialog'', ''--backtitle'', menu_backtitle c] @ title @
        [''--menu'', menu_instructions, number_text (rows c), number_text (cols c), number_text (rows c - 10), active]) @ line_args ls \<and>
      child_count c' = length ls \<and> entry M' = entry M \<and> args_size (margs c') \<le> BUF_SIZE \<and>
      (\<forall>l \<in> set ls. \<exists>k i. fst l = k # ptr E i \<and> (k = CHR ''m'' \<or> k = CHR '':'' \<or> (k = CHR ''t'' \<or> k = CHR ''s'') \<and> m_sym (entry M i) \<noteq> None))"
proof -
  obtain c1 c2 where 1: "cprint_init c = Ret c1"
    and 2: "cprints (title @ [''--menu'', menu_instructions, number_text (rows c1), number_text (cols c1), number_text (rows c1 - 10), active]) c1 = Ret c2"
    and 3: "build_conf n cv (ptr E) m (c2\<lparr>viewed_menu := m\<rparr>, M, K) = Ret (c', M', K')"
    using assms by (auto simp: menu_dialog_def simp del: number_text.simps)
  note i = cprint_init_Ret [OF 1]
  note p = cprints_Ret [OF 2]
  have o: "open_arg c2 = None" using i p by blast
  have "adds_lines (ptr E) (c2\<lparr>viewed_menu := m\<rparr>, M, K) (c', M', K')" by (rule build_conf_adds [OF _ 3]) (simp add: o)
  then obtain ls where ls: "entry M' = entry M" "listed (c2\<lparr>viewed_menu := m\<rparr>) ls c'" "\<forall>l \<in> set ls. tag_ok (ptr E) (entry M) l"
    by (auto simp: adds_lines_def)
  have l: "margs c' = margs c2 @ line_args ls" "child_count c' = child_count c2 + length ls" "buf_used c' = buf_used c2 + lines_size ls"
      "buf_used c2 \<le> BUF_SIZE \<longrightarrow> buf_used c' \<le> BUF_SIZE"
    using ls(2) by (auto simp: listed_def)
  have r: "rows c1 = rows c" "cols c1 = cols c" "child_count c2 = 0" using i p by simp_all
  have b: "buf_used c2 = args_size (margs c2)" using i p by (simp only: args_size_append)
  have "buf_used c2 \<le> BUF_SIZE" using i p by blast
  then have "args_size (margs c') \<le> BUF_SIZE" using l b by (simp add: args_size_lines)
  moreover have "margs c2 = map Some ([''./tools/lxdialog/lxdialog'', ''--backtitle'', menu_backtitle c] @ title @
        [''--menu'', menu_instructions, number_text (rows c), number_text (cols c), number_text (rows c - 10), active])"
    using i p by (simp only: r map_append)
  moreover have "\<forall>l \<in> set ls. \<exists>k i. fst l = k # ptr E i \<and> (k = CHR ''m'' \<or> k = CHR '':'' \<or> (k = CHR ''t'' \<or> k = CHR ''s'') \<and> m_sym (entry M i) \<noteq> None)"
    using ls(3) by (simp only: tag_ok_def)
  ultimately show ?thesis using l(1,2) r(3) ls(1) by (intro exI [of _ ls]) (simp only: simp_thms add_0)
qed

definition small_menus :: kmenus where
  "small_menus = \<lparr>entry = (\<lambda>_. \<lparr>m_next = None, m_parent = None, m_list = None, m_sym = None, m_prompt = None, m_dep = None\<rparr>)
     (0 := \<lparr>m_next = None, m_parent = None, m_list = Some 1, m_sym = None, m_prompt = Some (OwnProp 0), m_dep = None\<rparr>,
      1 := \<lparr>m_next = None, m_parent = Some 0, m_list = None, m_sym = None, m_prompt = Some (OwnProp 1), m_dep = None\<rparr>),
     own_props = (\<lambda>_. (create_prop P_MENU)\<lparr>p_text := Some ''General''\<rparr>), num_menus = 2, num_props = 2, current_menu = None, current_entry = 0,
     last_entry_ptr = ListOf 0\<rparr>"

definition small_con :: mcon where
  "small_con = \<lparr>margs = [], open_arg = None, buf_used = 0, mindent = 0, child_count = 0, rows = 20, cols = 75, viewed_menu = 0, single_menu_mode = False,
     unfolded = (\<lambda>_. False), menu_backtitle = ''Acaros'', input_buf = [], replies = [], saved_files = []\<rparr>"

definition plain_files :: surroundings where
  "plain_files = \<lparr>env_size = (0, 0), ptr = (\<lambda>i. if i = 0 then ''0x0'' else ''0x1''), scan = (\<lambda>t. if t = ''0x0'' then Some 0 else if t = ''0x1'' then Some 1 else None),
     readable = (\<lambda>_. None), writable = (\<lambda>_. True)\<rparr>"

lemma small_dialog:
  "case menu_dialog 3 (\<lambda>s K. Ret K) plain_files [''--title'', ''Main Menu''] [] 0 (small_con, small_menus, circle) of Ret (c', M', K') \<Rightarrow> child_count c' = 1 | _ \<Rightarrow> False"
  by code_simp

theorem menu_dialog_arguments_witness:
  "\<exists>t x c' M' K'. menu_dialog 3 (\<lambda>s K. Ret K) plain_files [''--title'', ''Main Menu''] [] 0 (small_con, small_menus, circle) = Ret (c', M', K') \<and>
     drop 11 (margs c') = [Some t, Some x] \<and> args_size (margs c') \<le> BUF_SIZE"
proof -
  obtain c' M' K' where d: "menu_dialog 3 (\<lambda>s K. Ret K) plain_files [''--title'', ''Main Menu''] [] 0 (small_con, small_menus, circle) = Ret (c', M', K')"
      and 1: "child_count c' = 1"
    using small_dialog by (auto split: outcome.splits)
  from menu_dialog_arguments [OF d] obtain ls where ls: "margs c' = map Some ([''./tools/lxdialog/lxdialog'', ''--backtitle'', menu_backtitle small_con] @ [''--title'', ''Main Menu''] @
        [''--menu'', menu_instructions, number_text (rows small_con), number_text (cols small_con), number_text (rows small_con - 10), []]) @ line_args ls"
      "child_count c' = length ls" "args_size (margs c') \<le> BUF_SIZE"
    by blast
  have "length ls = Suc 0" using ls(2) 1 by simp
  then obtain t x where "ls = [(t, x)]" by (auto simp: length_Suc_conv)
  then have "drop 11 (margs c') = [Some t, Some x]" using ls(1) by (simp add: line_args_def del: number_text.simps)
  then show ?thesis using d ls(3) by blast
qed

section \<open>What breaks the program\<close>

text \<open>An answer as long as the input buffer: its null char is written behind it.\<close>

lemma long_answer_overflows: "replies c = Exit st out # rs \<Longrightarrow> length out = BUF_SIZE \<Longrightarrow> exec_conf l w c = Fault"
  by (simp add: exec_conf_def)

text \<open>A prompt that does not fit into what is left of the buffer.\<close>

lemma long_prompt_overflows: "BUF_SIZE \<le> buf_used c + length t \<Longrightarrow> cprint t c = Fault \<and> cprint1 t c = Fault"
  by (simp add: cprint_def cprint1_def put_def)

end
