(* ===== verification/Spec2Isabelle.thy ===== *)
theory Spec2Isabelle
  imports Prelude Klist Avl_Props Libc_Props Console Stand_Props Pfd Hat_Props Mm_Init Kdb_Props Mal_Props Uart Loader_Props Coc_Classes Coc_Main Pool_Props Redirector Slab_Props Kexpr_Props Addrspace_Props Coruntime_Props Kconfdata_Props Kdups_Props Kfinal_Order Kask_Props Kmconf_Props
begin

text \<open>
  Acaros is a small i386 operating system kernel with the tools that build it.  This is a model of
  its C code, of the object language it is partly written in, and of the proofs that go with it.
  All paths are relative to the directory src of the repository.

  THE PROGRAM.  A multiboot boot loader starts the program of arch/i386/loader.  It reads a tar
  archive of modules and the memory map, fills a boot context, builds page tables for the kernel,
  copies the segments of the ELF image to their addresses and calls the kernel with the context.
  The kernel (kernel/main.c) sets the screen up, the descriptor tables and the interrupt controller
  (lib/mal), the gdb stub on a serial line (kernel/kdb), and its memory (kernel/mm): the page frame
  database takes over all frames that the page tables do not use, the kernel's virtual memory is
  divided into regions, a page fault finds the region and gives the page a frame, pools hand out
  page ranges of a region and slab caches hand out objects of those pages.  The regions are objects
  of a small object language: tools/coc translates .co files to C, its run time system is part of
  the kernel.  tools/kconfig reads the Kconfig files, lets the user set the symbols and writes
  .config and autoconf.h; tools/gdbredirector connects gdb to the serial line of a virtual machine.

  CONVENTIONS (theory Prelude).  An unsigned or signed int and a pointer_t is a word of 32 bits, and
  its arithmetic wraps as the processor's does.  Code that may go wrong returns an outcome: Ret with
  the result; Panic with the message where the code calls panic, assert or exit; Fault where it
  follows a null pointer, leaves an array or does something else C does not define; Timeout where a
  function that is given fuel has used it up.  A theorem that an operation is Ret of something says
  that it ends without any of these.  Every operation takes the state it changes and returns it.

  THE KERNEL
  Klist, List_Iface: include/list.h.  The heap of next and prev links; every operation is its
    sequence of assignments.  List_Iface states what the clients of the lists rely on as a locale
    and is interpreted by Klist; the page frame database and the slab caches use it.
  Avl, Avl_Tree, Avl_Refine, Avl_Search, Avl_Props: lib/algo/avl.c and algo/avl.h.  Pointers to
    pointers are locations.  Avl_Tree is the specification on trees, Avl_Refine shows that the
    pointer code computes it, Avl_Search treats lookup, traversal and deletion.  Deletion is correct
    on the trees that deletable describes and follows a null pointer on others.
  Libc, Libc_Props, Console: arch/i386/lib/stand/libc.c and video.c, kernel/log/log.c.  Strings are
    lists of bytes, the screen is the memory of the frame buffer.
  Stand, Stand_Props: arch/i386/lib/stand/stand.c.  The boot context and the list of reserved
    segments of virtual memory, which is kept ordered; when the search for free room can be trusted.
  Pfd, Mm_Init: kernel/mm/pfd.c.  The three lists of frames partition the frames; allocation hands
    out each frame once; mm_initPfd classifies every frame by the memory map and the page tables.
  Hat, Hat_Props: arch/i386/lib/hat.  Page tables live in the memory of a machine whose mmu walks
    them; the theorems are about what the processor translates after the code has run.
  Mal, Mal_Props: arch/i386/lib/mal.  Descriptors, trampolines, the i8259 controllers and the
    routing of interrupts.
  Uart, Kdb, Kdb_Props: arch/i386/kernel/kdb/i16550A.c and kernel/kdb.  Registers of the chip; the
    two state machines that decode packets; stopping and resuming a thread.
  Loader, Loader_Props: arch/i386/loader.  Tar, multiboot, ELF, and the copy of the boot context.
  Addrspace, Addrspace_Props: kernel/mm/addressspace.co and dma.co.  Regions, their classes, and the
    page fault handler on top of Hat, Pfd, Stand and the classes of Coruntime.
  Pool, Pool_Props: kernel/mm/pool.co.  The slots of a pool cover its region without overlap.
  Slab, Slab_Props: kernel/mm/slab/slab.co.  Caches, their slabs and objects, on top of Pool.
  Coruntime, Coruntime_Props: tools/coc/co-runtime, kernel/coinit.co and kernel/mm/alloc.c.

  THE TOOLS
  Coc, Coc_Methods, Coc_Classes, Coc_Props, Coc_Main: tools/coc.  filter.c with its eight modes is a
    function from the preprocessed text to C; classes become structures, methods functions,
    messages calls of invoke; main.c rewrites the arguments of the compiler.  The tree nodes of the
    class cache come from malloc as they are: where the cache is to stay a search tree, the theorem
    says that the memory was cleared.
  Redirector: tools/gdbredirector/main.c.  What the system calls return, short and failed writes too,
    is an input, and what the program does is a list of actions.
  Kexpr, Kdups: tools/kconfig/expr.c.  Expressions are trees; Kdups has the functions that walk one
    tree with two pointers.  What a rewriting keeps is the value under every assignment
    (Kexpr_Props, Kdups_Props).
  Ksym, Ksym_Props, Ksym_User: symbol.c.  The symbols, the calculation of their values, and what the
    user may set.
  Kmenu, Kfinal, Kfinal_Steps, Kfinal_Props, Kfinal_Order: menu.c.  The tree of entries and
    menu_finalize, which rearranges it without changing the order of the entries.
  Kconfdata, Kconfdata_Props: confdata.c.  What conf_write writes for a menu tree, conf_read reads back.
  Kask, Kask_Props: conf.c.  The questions of the line-oriented program, and which of them end.
  Kmconf, Kmconf_Props: mconf.c.  The arguments of the dialogs of the program with menus.

  FUEL.  Recursion that is not structural has a termination proof where the code always ends.  Where
  it ends only on proper states the function takes fuel: the depth of a tree or the length of a list
  that is walked (Avl, Klist, Kmenu), the nesting of calls (sym_calc_value, menu_finalize, the
  functions of Kexpr and Kdups), the rounds of a loop that waits for input (Kask, Kmconf).  Such a
  function returns Timeout when the fuel is used up; the theorems say which fuel is enough, mostly
  by stating that the result is Ret for every fuel above a bound that the statement names.

  INTERFACES.  list_iface (List_Iface) states what the users of include/list.h rely on and is
  interpreted by Klist on its doubly linked lists.  ordered_nodes (Avl_Tree) is a compare function
  that follows an order of keys; the search tree lemmas are proved in it, and it is interpreted on
  the comparison of member keys (Avl_Tree) and on that of strings by strcmp (Libc_Props).
  value_contract (Ksym_Props) states what the functions that call sym_calc_value rely on and is
  interpreted on sym_calc_value itself.

  NOT MODELLED.  Output on a terminal that no later code reads, log messages and help texts.  Single
  processor instructions without an effect on the memory that is modelled (loading the descriptor
  tables, flushing the translation buffer, the far jump of mal_gdtInit, the start code in
  assembler).  The operating system below the tools: files are texts, processes are replies.  The
  scanner and the parser of the Kconfig files, which flex and bison generate.  lxdialog, the
  dialog program of the Linux kernel.  The second copy of the configuration tool in
  tools/kconfig/sources, which is not built.  Constants of the generated autoconf.h are named by the
  models that depend on them.
\<close>

end
